(* ===== verification/Kuku_Prelude.thy ===== *)
theory Kuku_Prelude
  imports Main "HOL-Library.List_Lexorder" "HOL-Library.Char_ord" "HOL-Library.Multiset"
begin

text \<open>
  Shared vocabulary of the development: the Rust \<^verbatim>\<open>Result\<close> type with the early return of the
  \<^verbatim>\<open>?\<close> operator, \<^verbatim>\<open>collect::<Result<Vec<_>, _>>()\<close>, the ordered map \<^verbatim>\<open>BTreeMap\<close> as a sorted
  association list, and the generic list lemmas the component theories use. The collection
  \<open>result_simps\<close> holds the inversion rules of the result combinators, \<open>sorted_simps\<close> the facts
  about stable sorting.
\<close>

named_theorems result_simps \<open>inversion of the result combinators\<close>
named_theorems sorted_simps \<open>facts about stable sorting by a key\<close>

section \<open>Names for the model's types\<close>

text \<open>
  A Rust \<^verbatim>\<open>String\<close> is the list of the bytes of its UTF-8 encoding and a \<^verbatim>\<open>Vec<u8>\<close> is a list of
  bytes; HOL's \<open>char\<close> is exactly one byte, so both are \<open>string\<close> and \<^verbatim>\<open>as_bytes\<close> is the identity.
  Byte-wise comparison of strings is Rust's \<^verbatim>\<open>str::cmp\<close>.
\<close>

type_synonym bytes = string

section \<open>Results\<close>

datatype ('a, 'e) result = Ok 'a | Err 'e

fun is_ok :: "('a, 'e) result \<Rightarrow> bool" where
  "is_ok (Ok _) = True"
| "is_ok (Err _) = False"

fun and_then :: "('a, 'e) result \<Rightarrow> ('a \<Rightarrow> ('b, 'e) result) \<Rightarrow> ('b, 'e) result" where
  "and_then (Ok a) f = f a"
| "and_then (Err e) f = Err e"

fun ok_or :: "'a option \<Rightarrow> 'e \<Rightarrow> ('a, 'e) result" where
  "ok_or (Some a) e = Ok a"
| "ok_or None e = Err e"

fun ensure :: "bool \<Rightarrow> 'e \<Rightarrow> (unit, 'e) result" where
  "ensure b e = (if b then Ok () else Err e)"

fun map_err :: "('e \<Rightarrow> 'f) \<Rightarrow> ('a, 'e) result \<Rightarrow> ('a, 'f) result" where
  "map_err f (Ok a) = Ok a"
| "map_err f (Err e) = Err (f e)"

fun unwrap_or :: "'a \<Rightarrow> ('a, 'e) result \<Rightarrow> 'a" where
  "unwrap_or d (Ok a) = a"
| "unwrap_or d (Err e) = d"

fun collect_results :: "('a \<Rightarrow> ('b, 'e) result) \<Rightarrow> 'a list \<Rightarrow> ('b list, 'e) result" where
  "collect_results f [] = Ok []"
| "collect_results f (x # xs) =
     and_then (f x) (\<lambda>y. and_then (collect_results f xs) (\<lambda>ys. Ok (y # ys)))"

fun fold_results :: "('a \<Rightarrow> 's \<Rightarrow> ('s, 'e) result) \<Rightarrow> 'a list \<Rightarrow> 's \<Rightarrow> ('s, 'e) result" where
  "fold_results f [] s = Ok s"
| "fold_results f (x # xs) s = and_then (f x s) (fold_results f xs)"

lemma map_err_eq_Ok [result_simps]: "map_err f r = Ok a \<longleftrightarrow> r = Ok a"
  by (cases r) auto

lemma map_err_eq_Err [result_simps]: "map_err f r = Err e \<longleftrightarrow> (\<exists>e'. r = Err e' \<and> e = f e')"
  by (cases r) auto

lemma and_then_eq_Ok [result_simps]:
  "and_then m f = Ok b \<longleftrightarrow> (\<exists>a. m = Ok a \<and> f a = Ok b)"
  by (cases m) auto

lemma and_then_eq_Err [result_simps]:
  "and_then m f = Err e \<longleftrightarrow> m = Err e \<or> (\<exists>a. m = Ok a \<and> f a = Err e)"
  by (cases m) auto

lemma ok_or_eq_Ok [result_simps]: "ok_or x e = Ok a \<longleftrightarrow> x = Some a"
  by (cases x) auto

lemma ok_or_eq_Err [result_simps]: "ok_or x e = Err e' \<longleftrightarrow> x = None \<and> e' = e"
  by (cases x) auto

lemma ensure_eq_Ok [result_simps]: "ensure b e = Ok u \<longleftrightarrow> b"
  by simp

lemma ensure_eq_Err [result_simps]: "ensure b e = Err e' \<longleftrightarrow> \<not> b \<and> e' = e"
  by auto

declare ensure.simps [simp del]

lemma ensure_True [simp]: "b \<Longrightarrow> ensure b e = Ok ()"
  by (simp add: ensure.simps)

lemma ensure_False [simp]: "\<not> b \<Longrightarrow> ensure b e = Err e"
  by (simp add: ensure.simps)

lemma is_ok_iff: "is_ok r \<longleftrightarrow> (\<exists>a. r = Ok a)"
  by (cases r) auto

lemma collect_results_eq_Ok [result_simps]:
  "collect_results f xs = Ok ys \<longleftrightarrow> list_all2 (\<lambda>x y. f x = Ok y) xs ys"
proof (induction xs arbitrary: ys)
  case Nil
  show ?case by auto
next
  case (Cons x xs)
  show ?case
    by (cases ys) (auto simp: and_then_eq_Ok Cons.IH)
qed

lemma collect_results_cong [fundef_cong]:
  "xs = ys \<Longrightarrow> (\<And>x. x \<in> set ys \<Longrightarrow> f x = g x) \<Longrightarrow> collect_results f xs = collect_results g ys"
  by (induction ys arbitrary: xs) auto

lemma collect_results_set:
  "collect_results f xs = Ok ys \<Longrightarrow> y \<in> set ys \<longleftrightarrow> (\<exists>x \<in> set xs. f x = Ok y)"
  by (fastforce simp: collect_results_eq_Ok list_all2_conv_all_nth in_set_conv_nth)

lemma collect_results_is_ok:
  "is_ok (collect_results f xs) \<longleftrightarrow> (\<forall>x \<in> set xs. is_ok (f x))"
proof (induction xs)
  case (Cons x xs)
  then show ?case
    by (cases "f x"; cases "collect_results f xs") auto
qed simp

lemma collect_results_total:
  "(\<And>x. x \<in> set xs \<Longrightarrow> f x = Ok (g x)) \<Longrightarrow> collect_results f xs = Ok (map g xs)"
  by (induction xs) auto

lemma fold_results_append:
  "fold_results f (xs @ ys) s = and_then (fold_results f xs s) (fold_results f ys)"
proof (induction xs arbitrary: s)
  case Nil
  show ?case by simp
next
  case (Cons x xs)
  show ?case by (cases "f x s") (simp_all add: Cons.IH)
qed

lemma fold_results_invariant:
  assumes "fold_results f xs s = Ok s'" and "I s"
    and "\<And>x t t'. x \<in> set xs \<Longrightarrow> I t \<Longrightarrow> f x t = Ok t' \<Longrightarrow> I t'"
  shows "I s'"
  using assms
proof (induction xs arbitrary: s)
  case Nil
  then show ?case by simp
next
  case (Cons x xs)
  from Cons.prems(1) obtain t where t: "f x s = Ok t" "fold_results f xs t = Ok s'"
    by (auto simp: and_then_eq_Ok)
  have "I t" using Cons.prems(2,3) t(1) by (meson list.set_intros(1))
  then show ?case using Cons.IH [OF t(2)] Cons.prems(3) by (meson list.set_intros(2))
qed

section \<open>Fallible operations on a state\<close>

text \<open>
  An operation that reads and writes a state returns its result beside the state it leaves, also when
  it fails: \<open>try_then\<close> is the \<^verbatim>\<open>?\<close> operator between two such operations.
\<close>

fun try_then ::
    "('a, 'e) result \<times> 's \<Rightarrow> ('a \<Rightarrow> 's \<Rightarrow> ('b, 'e) result \<times> 's) \<Rightarrow> ('b, 'e) result \<times> 's" where
  "try_then (Ok a, s) f = f a s"
| "try_then (Err e, s) f = (Err e, s)"

lemma try_then_eq_Ok [result_simps]:
  "try_then m f = (Ok b, s') \<longleftrightarrow> (\<exists>a s. m = (Ok a, s) \<and> f a s = (Ok b, s'))"
  by (cases m; cases "fst m") auto

lemma try_then_eq_Err [result_simps]:
  "try_then m f = (Err e, s') \<longleftrightarrow> m = (Err e, s') \<or> (\<exists>a s. m = (Ok a, s) \<and> f a s = (Err e, s'))"
  by (cases m; cases "fst m") auto

lemma try_then_cong [fundef_cong]:
  "m = m' \<Longrightarrow> (\<And>a s. m' = (Ok a, s) \<Longrightarrow> f a s = g a s) \<Longrightarrow> try_then m f = try_then m' g"
  by (cases m'; cases "fst m'") auto

lemma try_then_invariant:
  assumes "P (snd m)" and "\<And>a s. m = (Ok a, s) \<Longrightarrow> P s \<Longrightarrow> P (snd (f a s))"
  shows "P (snd (try_then m f))"
  using assms by (cases m; cases "fst m") auto

section \<open>Ordered maps\<close>

text \<open>
  \<^verbatim>\<open>std::collections::BTreeMap\<close>: keys in increasing order, one entry per key; iteration is in
  key order.
\<close>

fun bt_insert :: "'k::linorder \<Rightarrow> 'v \<Rightarrow> ('k \<times> 'v) list \<Rightarrow> ('k \<times> 'v) list" where
  "bt_insert k v [] = [(k, v)]"
| "bt_insert k v ((k', v') # m) =
     (if k < k' then (k, v) # (k', v') # m
      else if k = k' then (k, v) # m
      else (k', v') # bt_insert k v m)"

fun bt_remove :: "'k \<Rightarrow> ('k \<times> 'v) list \<Rightarrow> ('k \<times> 'v) list" where
  "bt_remove k [] = []"
| "bt_remove k ((k', v') # m) = (if k = k' then m else (k', v') # bt_remove k m)"

definition bt_get :: "('k \<times> 'v) list \<Rightarrow> 'k \<Rightarrow> 'v option" where
  "bt_get m k = map_of m k"

definition bt_values :: "('k \<times> 'v) list \<Rightarrow> 'v list" where
  "bt_values m = map snd m"

definition bt_of_list :: "('k::linorder \<times> 'v) list \<Rightarrow> ('k \<times> 'v) list" where
  "bt_of_list ps = fold (\<lambda>(k, v). bt_insert k v) ps []"

definition bt_wf :: "('k::linorder \<times> 'v) list \<Rightarrow> bool" where
  "bt_wf m \<longleftrightarrow> sorted_wrt (<) (map fst m)"

text \<open>The contract of the map that the components rely on, and what follows from it alone.\<close>

locale ordered_map =
  fixes empty :: 'm
    and insert :: "'k::linorder \<Rightarrow> 'v \<Rightarrow> 'm \<Rightarrow> 'm"
    and remove :: "'k \<Rightarrow> 'm \<Rightarrow> 'm"
    and get :: "'m \<Rightarrow> 'k \<Rightarrow> 'v option"
    and entries :: "'m \<Rightarrow> ('k \<times> 'v) list"
    and wf :: "'m \<Rightarrow> bool"
  assumes wf_empty: "wf empty"
    and wf_insert: "wf m \<Longrightarrow> wf (insert k v m)"
    and wf_remove: "wf m \<Longrightarrow> wf (remove k m)"
    and get_empty: "get empty j = None"
    and get_insert: "wf m \<Longrightarrow> get (insert k v m) j = (if j = k then Some v else get m j)"
    and get_remove: "wf m \<Longrightarrow> get (remove k m) j = (if j = k then None else get m j)"
    and entries_get: "wf m \<Longrightarrow> (k, v) \<in> set (entries m) \<longleftrightarrow> get m k = Some v"
    and entries_sorted: "wf m \<Longrightarrow> sorted_wrt (<) (map fst (entries m))"
begin

definition insert_all :: "('k \<times> 'v) list \<Rightarrow> 'm \<Rightarrow> 'm" where
  "insert_all ps m = fold (\<lambda>(k, v). insert k v) ps m"

lemma wf_insert_all: "wf m \<Longrightarrow> wf (insert_all ps m)"
  by (induction ps arbitrary: m) (auto simp: insert_all_def wf_insert)

lemma get_insert_all:
  "wf m \<Longrightarrow> get (insert_all ps m) j = (case map_of (rev ps) j of None \<Rightarrow> get m j | Some v \<Rightarrow> Some v)"
proof (induction ps arbitrary: m)
  case Nil
  then show ?case by (simp add: insert_all_def)
next
  case (Cons p ps)
  obtain k v where p: "p = (k, v)" by (cases p)
  have "get (insert_all (p # ps) m) j = get (insert_all ps (insert k v m)) j"
    by (simp add: insert_all_def p)
  with Cons show ?case
    by (auto simp: p wf_insert get_insert map_add_def split: option.splits)
qed

lemma entries_insert_all_distinct:
  assumes "distinct (map fst ps)"
  shows "set (entries (insert_all ps empty)) = set ps"
proof -
  have wf: "wf (insert_all ps empty)"
    by (simp add: wf_insert_all wf_empty)
  have "distinct (map fst (rev ps))"
    using assms by (simp flip: rev_map)
  from map_of_eq_Some_iff [OF this] have "map_of (rev ps) k = Some v \<longleftrightarrow> (k, v) \<in> set ps" for k v
    by simp
  moreover have "get (insert_all ps empty) k = map_of (rev ps) k" for k
    by (simp add: get_insert_all [OF wf_empty] get_empty split: option.splits)
  ultimately have "(k, v) \<in> set (entries (insert_all ps empty)) \<longleftrightarrow> (k, v) \<in> set ps" for k v
    by (simp add: entries_get [OF wf])
  then show ?thesis by auto
qed

lemma entries_extensional:
  assumes "wf m" "wf m'" and "\<And>k. get m k = get m' k"
  shows "entries m = entries m'"
proof -
  have s: "set (entries m) = set (entries m')"
    using assms by (auto simp: entries_get)
  have "sorted (map fst (entries m)) \<and> distinct (map fst (entries m))"
    and "sorted (map fst (entries m')) \<and> distinct (map fst (entries m'))"
    using assms(1,2) entries_sorted by (auto simp: strict_sorted_iff)
  moreover from this s have "inj_on fst (set (entries m) \<union> set (entries m'))"
    by (simp add: distinct_map)
  ultimately show ?thesis
    using map_sorted_distinct_set_unique [of fst "entries m" "entries m'"] s by blast
qed

end

lemma bt_wf_simps [simp]:
  "bt_wf []"
  "bt_wf ((k, v) # m) \<longleftrightarrow> (\<forall>k' \<in> fst ` set m. k < k') \<and> bt_wf m"
  by (auto simp: bt_wf_def)

lemma fst_set_bt_insert: "fst ` set (bt_insert k v m) = insert k (fst ` set m)"
  by (induction k v m rule: bt_insert.induct) auto

lemma bt_wf_insert: "bt_wf m \<Longrightarrow> bt_wf (bt_insert k v m)"
  by (induction k v m rule: bt_insert.induct) (auto simp: fst_set_bt_insert)

lemma fst_set_bt_remove: "fst ` set (bt_remove k m) \<subseteq> fst ` set m"
  by (induction k m rule: bt_remove.induct) auto

lemma bt_wf_remove: "bt_wf m \<Longrightarrow> bt_wf (bt_remove k m)"
  by (induction k m rule: bt_remove.induct) (use fst_set_bt_remove in \<open>fastforce+\<close>)

lemma map_of_bt_insert: "bt_wf m \<Longrightarrow> map_of (bt_insert k v m) = (map_of m)(k \<mapsto> v)"
  by (induction k v m rule: bt_insert.induct) (auto simp: fun_eq_iff)

lemma map_of_bt_remove: "bt_wf m \<Longrightarrow> map_of (bt_remove k m) = (map_of m)(k := None)"
proof (induction k m rule: bt_remove.induct)
  case (2 k k' v' m)
  then have "k = k' \<Longrightarrow> map_of m k = None"
    by (auto simp: map_of_eq_None_iff)
  with 2 show ?case by (auto simp: fun_eq_iff)
qed simp

lemma bt_wf_distinct: "bt_wf m \<Longrightarrow> distinct (map fst m)"
  by (simp add: bt_wf_def strict_sorted_iff)

interpretation bt: ordered_map "[] :: ('k::linorder \<times> 'v) list" bt_insert bt_remove bt_get id bt_wf
proof unfold_locales
  show "bt_wf m \<Longrightarrow> (k, v) \<in> set (id m) \<longleftrightarrow> bt_get m k = Some v"
    for m :: "('k \<times> 'v) list" and k v
    by (simp add: bt_get_def bt_wf_distinct)
  show "bt_wf m \<Longrightarrow> sorted_wrt (<) (map fst (id m))" for m :: "('k \<times> 'v) list"
    by (simp add: bt_wf_def)
qed (auto simp: bt_wf_insert bt_wf_remove bt_get_def map_of_bt_insert map_of_bt_remove)

lemma bt_of_list_alt: "bt_of_list ps = bt.insert_all ps []"
  by (simp add: bt_of_list_def bt.insert_all_def)

lemmas bt_wf_of_list = bt.wf_insert_all [OF bt.wf_empty, folded bt_of_list_alt]

lemma bt_get_of_list:
  "bt_get (bt_of_list ps) k = map_of (rev ps) k"
  unfolding bt_of_list_alt bt.get_insert_all [OF bt.wf_empty]
  by (simp add: bt.get_empty split: option.splits)

lemma map_of_rev_distinct:
  assumes "distinct (map fst ps)"
  shows "map_of (rev ps) = map_of ps"
proof
  fix k
  have "distinct (map fst (rev ps))"
    using assms by (simp flip: rev_map)
  then show "map_of (rev ps) k = map_of ps k"
  proof (cases "map_of ps k")
    case None
    then have "map_of (rev ps) k = None" by (simp add: map_of_eq_None_iff)
    with None show ?thesis by simp
  next
    case (Some v)
    then have "(k, v) \<in> set (rev ps)" by (simp add: map_of_SomeD)
    with \<open>distinct (map fst (rev ps))\<close> Some show ?thesis by simp
  qed
qed

lemma length_bt_insert: "bt_get m k = None \<Longrightarrow> length (bt_insert k v m) = Suc (length m)"
  by (induction k v m rule: bt_insert.induct) (auto simp: bt_get_def split: if_splits)

lemma bt_of_list_sorted:
  assumes "sorted_wrt (<) (map fst ps)"
  shows "bt_of_list ps = ps"
proof -
  have "distinct (map fst ps)" and wf: "bt_wf ps"
    using assms by (simp_all add: strict_sorted_iff bt_wf_def)
  then have "bt_get (bt_of_list ps) k = bt_get ps k" for k
    unfolding bt_get_of_list by (simp add: bt_get_def map_of_rev_distinct)
  from bt.entries_extensional [OF bt_wf_of_list wf this] show ?thesis by simp
qed

text \<open>
  A relation between the states before and after that is reflexive and transitive is respected by a chain of
  operations when every operation of the chain respects it.
\<close>

locale effects =
  fixes R :: "'s \<Rightarrow> 's \<Rightarrow> bool"
  assumes R_refl: "R s s"
    and R_trans: "R s s1 \<Longrightarrow> R s1 s2 \<Longrightarrow> R s s2"
begin

lemma try_then_R:
  "R s (snd m) \<Longrightarrow> (\<And>a s'. m = (Ok a, s') \<Longrightarrow> R s' (snd (f a s'))) \<Longrightarrow> R s (snd (try_then m f))"
  by (cases m; cases "fst m") (auto intro: R_trans)

lemma pure_R: "R s (snd (r, s))"
  by (simp add: R_refl)

lemma fold_R: "(\<And>x s. x \<in> set xs \<Longrightarrow> R s (f x s)) \<Longrightarrow> R s (fold f xs s)"
  by (induction xs arbitrary: s) (auto intro: R_refl R_trans)

end

end
