(* ===== verification/Rust_Std.thy ===== *)
theory Rust_Std
  imports Kuku_Prelude "HOL-Library.Sublist" "HOL-Library.Signed_Division"
begin

text \<open>
  The parts of the Rust language and of its standard library that the modelled code calls:
  byte classes and ASCII case folding, \<^verbatim>\<open>str::trim\<close>, \<^verbatim>\<open>split\<close>, \<^verbatim>\<open>split_inclusive\<close>, \<^verbatim>\<open>replace\<close>, decimal
  formatting with zero padding, \<^verbatim>\<open>std::str::from_utf8\<close>, and \<^verbatim>\<open>Path::components\<close>, \<^verbatim>\<open>file_stem\<close> and
  \<^verbatim>\<open>extension\<close> on Unix paths. Full Unicode lower-casing (\<^verbatim>\<open>str::to_lowercase\<close>) depends on the
  Unicode character tables and is a parameter \<open>lc\<close> of the definitions that call it; what is assumed
  of it is the predicate \<open>lowercase_ok\<close>, which ASCII lower-casing satisfies.
\<close>

section \<open>Bytes\<close>

abbreviation byte :: "char \<Rightarrow> nat" where
  "byte c \<equiv> of_char c"

abbreviation slash :: char where "slash \<equiv> CHR ''/''"
abbreviation backslash :: char where "backslash \<equiv> CHR 0x5C"
abbreviation dot :: char where "dot \<equiv> CHR ''.''"
abbreviation newline :: char where "newline \<equiv> CHR 0x0A"
abbreviation nul :: char where "nul \<equiv> CHR 0x00"

definition is_ascii_digit :: "char \<Rightarrow> bool" where
  "is_ascii_digit c \<longleftrightarrow> 48 \<le> byte c \<and> byte c \<le> 57"

definition is_ascii_alphanumeric :: "char \<Rightarrow> bool" where
  "is_ascii_alphanumeric c \<longleftrightarrow>
     is_ascii_digit c \<or> (65 \<le> byte c \<and> byte c \<le> 90) \<or> (97 \<le> byte c \<and> byte c \<le> 122)"

definition ascii_lower :: "char \<Rightarrow> char" where
  "ascii_lower c = (if 65 \<le> byte c \<and> byte c \<le> 90 then char_of (byte c + 32) else c)"

definition to_ascii_lowercase :: "string \<Rightarrow> string" where
  "to_ascii_lowercase s = map ascii_lower s"

definition eq_ignore_ascii_case :: "string \<Rightarrow> string \<Rightarrow> bool" where
  "eq_ignore_ascii_case s t \<longleftrightarrow> to_ascii_lowercase s = to_ascii_lowercase t"

section \<open>Strings\<close>

definition replace_char :: "char \<Rightarrow> char \<Rightarrow> string \<Rightarrow> string" where
  "replace_char a b s = map (\<lambda>c. if c = a then b else c) s"

fun split_char :: "char \<Rightarrow> string \<Rightarrow> string list" where
  "split_char c [] = [[]]"
| "split_char c (x # xs) =
     (if x = c then [] # split_char c xs
      else (case split_char c xs of [] \<Rightarrow> [[x]] | y # ys \<Rightarrow> (x # y) # ys))"

fun join_with :: "string \<Rightarrow> string list \<Rightarrow> string" where
  "join_with sep [] = []"
| "join_with sep [s] = s"
| "join_with sep (s # ss) = s @ sep @ join_with sep ss"

fun split_inclusive :: "string \<Rightarrow> string list" where
  "split_inclusive [] = []"
| "split_inclusive (x # xs) =
     (if x = newline then [x] # split_inclusive xs
      else (case split_inclusive xs of [] \<Rightarrow> [[x]] | y # ys \<Rightarrow> (x # y) # ys))"

text \<open>The code points with the Unicode property White\_Space, as UTF-8.\<close>

definition white_chars :: "string list" where
  "white_chars = map (map char_of)
     ([[9], [10], [11], [12], [13], [32], [0xC2, 0x85], [0xC2, 0xA0], [0xE1, 0x9A, 0x80]] @
      map (\<lambda>n. [0xE2, 0x80, n])
        [0x80, 0x81, 0x82, 0x83, 0x84, 0x85, 0x86, 0x87, 0x88, 0x89, 0x8A, 0xA8, 0xA9, 0xAF] @
      [[0xE2, 0x81, 0x9F], [0xE3, 0x80, 0x80 :: nat]])"

function trim_start :: "string \<Rightarrow> string" where
  "trim_start s =
     (case find (\<lambda>w. prefix w s) white_chars of
        None \<Rightarrow> s
      | Some w \<Rightarrow> if w = [] \<or> s = [] then s else trim_start (drop (length w) s))"
  by pat_completeness auto
termination
  by (relation "measure length") auto

function trim_end :: "string \<Rightarrow> string" where
  "trim_end s =
     (case find (\<lambda>w. suffix w s) white_chars of
        None \<Rightarrow> s
      | Some w \<Rightarrow> if w = [] \<or> s = [] then s else trim_end (take (length s - length w) s))"
  by pat_completeness auto
termination
  by (relation "measure length") auto

declare trim_start.simps [simp del] trim_end.simps [simp del]

definition trim :: "string \<Rightarrow> string" where
  "trim s = trim_end (trim_start s)"

definition blank :: "string \<Rightarrow> bool" where
  "blank s \<longleftrightarrow> trim s = []"

section \<open>UTF-8\<close>

definition utf8_cont :: "char \<Rightarrow> bool" where
  "utf8_cont c \<longleftrightarrow> 0x80 \<le> byte c \<and> byte c \<le> 0xBF"

text \<open>Well-formed UTF-8, the byte sequences \<^verbatim>\<open>std::str::from_utf8\<close> accepts.\<close>

fun utf8_valid :: "string \<Rightarrow> bool" where
  "utf8_valid [] = True"
| "utf8_valid (a # s) =
     (if byte a < 0x80 then utf8_valid s
      else if 0xC2 \<le> byte a \<and> byte a \<le> 0xDF then
        (case s of b # t \<Rightarrow> utf8_cont b \<and> utf8_valid t | _ \<Rightarrow> False)
      else if 0xE0 \<le> byte a \<and> byte a \<le> 0xEF then
        (case s of b # c # t \<Rightarrow>
           utf8_cont b \<and> utf8_cont c \<and>
           (byte a = 0xE0 \<longrightarrow> 0xA0 \<le> byte b) \<and> (byte a = 0xED \<longrightarrow> byte b \<le> 0x9F) \<and> utf8_valid t
         | _ \<Rightarrow> False)
      else if 0xF0 \<le> byte a \<and> byte a \<le> 0xF4 then
        (case s of b # c # d # t \<Rightarrow>
           utf8_cont b \<and> utf8_cont c \<and> utf8_cont d \<and>
           (byte a = 0xF0 \<longrightarrow> 0x90 \<le> byte b) \<and> (byte a = 0xF4 \<longrightarrow> byte b \<le> 0x8F) \<and> utf8_valid t
         | _ \<Rightarrow> False)
      else False)"

section \<open>Integers\<close>

abbreviation i64_max :: int where "i64_max \<equiv> 9223372036854775807"
abbreviation i64_min :: int where "i64_min \<equiv> - 9223372036854775808"

definition is_i64 :: "int \<Rightarrow> bool" where
  "is_i64 n \<longleftrightarrow> i64_min \<le> n \<and> n \<le> i64_max"

definition i64_saturate :: "int \<Rightarrow> int" where
  "i64_saturate n = max i64_min (min i64_max n)"

definition digit_char :: "nat \<Rightarrow> char" where
  "digit_char d = char_of (48 + d)"

fun show_nat :: "nat \<Rightarrow> string" where
  "show_nat n = (if n < 10 then [digit_char n] else show_nat (n div 10) @ [digit_char (n mod 10)])"

declare show_nat.simps [simp del]

definition show_int :: "int \<Rightarrow> string" where
  "show_int i = (if i < 0 then CHR ''-'' # show_nat (nat (- i)) else show_nat (nat i))"

text \<open>The format specification \<^verbatim>\<open>{:0w}\<close>: zeros after the sign up to the width.\<close>

definition show_padded :: "nat \<Rightarrow> int \<Rightarrow> string" where
  "show_padded w i =
     (if i < 0 then
        let ds = show_nat (nat (- i)) in CHR ''-'' # replicate (w - 1 - length ds) CHR ''0'' @ ds
      else
        let ds = show_nat (nat i) in replicate (w - length ds) CHR ''0'' @ ds)"

section \<open>Unix paths\<close>

datatype component = RootDir | CurDir | ParentDir | Normal string

definition segment_component :: "string \<Rightarrow> component option" where
  "segment_component seg =
     (if seg = [] \<or> seg = ''.'' then None
      else if seg = ''..'' then Some ParentDir
      else Some (Normal seg))"

text \<open>
  \<^verbatim>\<open>Path::components\<close>: a leading slash is \<open>RootDir\<close>, a leading \<^verbatim>\<open>.\<close> segment is \<open>CurDir\<close>, other empty
  and \<^verbatim>\<open>.\<close> segments vanish.
\<close>

definition components :: "string \<Rightarrow> component list" where
  "components s =
     (case split_char slash s of
        [] \<Rightarrow> []
      | first # rest \<Rightarrow>
          (if first = [] then (if s = [] then [] else [RootDir])
           else if first = ''.'' then [CurDir]
           else (case segment_component first of None \<Rightarrow> [] | Some c \<Rightarrow> [c]))
          @ List.map_filter segment_component rest)"

definition rsplit_dot :: "string \<Rightarrow> string option \<times> string option" where
  "rsplit_dot name =
     (if name = ''..'' then (Some name, None)
      else
        let after = rev (takeWhile (\<lambda>c. c \<noteq> dot) (rev name));
            rest = rev (dropWhile (\<lambda>c. c \<noteq> dot) (rev name))
        in if rest = [] then (None, Some after)
           else if butlast rest = [] then (Some name, None)
           else (Some (butlast rest), Some after))"

definition file_stem_of_name :: "string \<Rightarrow> string" where
  "file_stem_of_name name =
     (case rsplit_dot name of (Some b, _) \<Rightarrow> b | (None, Some a) \<Rightarrow> a | (None, None) \<Rightarrow> name)"

definition extension_of_name :: "string \<Rightarrow> string option" where
  "extension_of_name name =
     (case rsplit_dot name of (Some b, a) \<Rightarrow> a | (None, _) \<Rightarrow> None)"

definition file_name :: "component list \<Rightarrow> string option" where
  "file_name cs = (if cs = [] then None else case last cs of Normal n \<Rightarrow> Some n | _ \<Rightarrow> None)"

definition path_extension :: "string \<Rightarrow> string option" where
  "path_extension p = Option.bind (file_name (components p)) extension_of_name"

section \<open>Facts about strings\<close>

lemma split_char_not_Nil [simp]: "split_char c s \<noteq> []"
  by (induction c s rule: split_char.induct) (auto split: list.splits)

lemma join_with_Cons: "ss \<noteq> [] \<Longrightarrow> join_with sep (s # ss) = s @ sep @ join_with sep ss"
  by (cases ss) auto

lemma join_split_char [simp]: "join_with [c] (split_char c s) = s"
proof (induction s)
  case Nil
  show ?case by simp
next
  case (Cons x xs)
  obtain y ys where s: "split_char c xs = y # ys"
    by (cases "split_char c xs") auto
  show ?case
    using Cons by (cases ys) (auto simp: s)
qed

lemma split_char_no_sep: "c \<notin> set s \<Longrightarrow> split_char c s = [s]"
  by (induction s) auto

lemma split_char_append_sep:
  "c \<notin> set s \<Longrightarrow> split_char c (s @ c # t) = s # split_char c t"
  by (induction s) auto

lemma split_join_with:
  "ss \<noteq> [] \<Longrightarrow> \<forall>s \<in> set ss. c \<notin> set s \<Longrightarrow> split_char c (join_with [c] ss) = ss"
proof (induction ss)
  case (Cons s ss)
  then show ?case
    by (cases ss) (auto simp: split_char_no_sep split_char_append_sep)
qed simp

lemma split_char_segments: "s \<in> set (split_char c t) \<Longrightarrow> c \<notin> set s"
  by (induction t arbitrary: s) (auto split: list.splits if_splits)

lemma set_replace_char: "a \<noteq> b \<Longrightarrow> a \<notin> set (replace_char a b s)"
  by (auto simp: replace_char_def)

lemma replace_char_idle: "a \<notin> set s \<Longrightarrow> replace_char a b s = s"
  by (induction s) (auto simp: replace_char_def)

lemma replace_char_append [simp]:
  "replace_char a b (s @ t) = replace_char a b s @ replace_char a b t"
  by (simp add: replace_char_def)

lemma concat_split_inclusive [simp]: "concat (split_inclusive s) = s"
  by (induction s rule: split_inclusive.induct) (auto split: list.splits)

lemma split_inclusive_Nil_iff [simp]: "split_inclusive s = [] \<longleftrightarrow> s = []"
  by (cases s) (auto split: list.splits)

lemma split_inclusive_nonempty: "l \<in> set (split_inclusive s) \<Longrightarrow> l \<noteq> []"
  by (induction s arbitrary: l rule: split_inclusive.induct) (auto split: list.splits if_splits)

text \<open>A string that starts and ends with a printing ASCII character is not trimmed.\<close>

definition is_ascii_graphic :: "char \<Rightarrow> bool" where
  "is_ascii_graphic c \<longleftrightarrow> 33 \<le> byte c \<and> byte c \<le> 126"

lemma white_chars_ends:
  assumes "w \<in> set white_chars"
  shows "w \<noteq> []" "\<not> is_ascii_graphic (hd w)" "\<not> is_ascii_graphic (last w)"
  using assms by (auto simp: white_chars_def is_ascii_graphic_def)

lemma trim_start_graphic: "is_ascii_graphic c \<Longrightarrow> trim_start (c # s) = c # s"
proof -
  assume c: "is_ascii_graphic c"
  have "\<not> prefix w (c # s)" if "w \<in> set white_chars" for w
    using white_chars_ends [OF that] c by (cases w) auto
  then have "find (\<lambda>w. prefix w (c # s)) white_chars = None"
    by (simp add: find_None_iff)
  then show ?thesis by (simp add: trim_start.simps [of "c # s"])
qed

lemma trim_end_graphic: "is_ascii_graphic c \<Longrightarrow> trim_end (s @ [c]) = s @ [c]"
proof -
  assume c: "is_ascii_graphic c"
  have "\<not> suffix w (s @ [c])" if "w \<in> set white_chars" for w
    using white_chars_ends [OF that] c by (cases w rule: rev_cases) auto
  then have "find (\<lambda>w. suffix w (s @ [c])) white_chars = None"
    by (simp add: find_None_iff)
  then show ?thesis by (simp add: trim_end.simps [of "s @ [c]"])
qed

lemma trim_graphic:
  "s \<noteq> [] \<Longrightarrow> is_ascii_graphic (hd s) \<Longrightarrow> is_ascii_graphic (last s) \<Longrightarrow> trim s = s"
  using trim_start_graphic [of "hd s" "tl s"] trim_end_graphic [of "last s" "butlast s"]
  by (simp add: trim_def)

lemma not_blank_graphic:
  "s \<noteq> [] \<Longrightarrow> is_ascii_graphic (hd s) \<Longrightarrow> is_ascii_graphic (last s) \<Longrightarrow> \<not> blank s"
  by (simp add: blank_def trim_graphic)

text \<open>For evaluation: a string between two visible characters is not blank.\<close>

lemma blank_code [code]:
  "blank s \<longleftrightarrow> \<not> (s \<noteq> [] \<and> is_ascii_graphic (hd s) \<and> is_ascii_graphic (last s)) \<and> trim s = []"
  using not_blank_graphic [of s] by (auto simp: blank_def)

section \<open>Lower-casing\<close>

text \<open>
  Lower-casing is idempotent, introduces no path separator, and maps only the empty string, \<^verbatim>\<open>.\<close> and \<^verbatim>\<open>..\<close>
  to themselves among those three.
\<close>

definition lowercase_ok :: "(string \<Rightarrow> string) \<Rightarrow> bool" where
  "lowercase_ok lc \<longleftrightarrow>
     (\<forall>s. lc (lc s) = lc s \<and> (slash \<in> set (lc s) \<longrightarrow> slash \<in> set s) \<and>
        (backslash \<in> set (lc s) \<longrightarrow> backslash \<in> set s) \<and>
        (\<forall>t \<in> {[], ''.'', ''..''}. lc s = t \<longleftrightarrow> s = t))"

lemma ascii_lower_fixed:
  "ascii_lower (ascii_lower c) = ascii_lower c"
  "\<not> (97 \<le> byte d \<and> byte d \<le> 122) \<Longrightarrow> \<not> (65 \<le> byte d \<and> byte d \<le> 90) \<Longrightarrow> ascii_lower c = d \<longleftrightarrow> c = d"
  by (auto simp: ascii_lower_def take_bit_nat_eq_self)

lemma lowercase_ok_ascii: "lowercase_ok to_ascii_lowercase"
proof -
  have "ascii_lower c = slash \<longleftrightarrow> c = slash" "ascii_lower c = backslash \<longleftrightarrow> c = backslash"
    "ascii_lower c = dot \<longleftrightarrow> c = dot" for c
    by (rule ascii_lower_fixed; simp)+
  moreover from this have "slash = ascii_lower c \<longleftrightarrow> c = slash" "backslash = ascii_lower c \<longleftrightarrow> c = backslash" for c
    by metis+
  ultimately show ?thesis
    by (auto simp: lowercase_ok_def to_ascii_lowercase_def ascii_lower_fixed map_eq_Cons_conv image_iff)
qed

section \<open>Facts about decimal numerals\<close>

definition read_nat :: "string \<Rightarrow> nat" where
  "read_nat s = foldl (\<lambda>a c. 10 * a + (byte c - 48)) 0 s"

lemma byte_digit_char: "d < 10 \<Longrightarrow> byte (digit_char d) = 48 + d"
  by (simp add: digit_char_def take_bit_nat_eq_self)

lemma read_show_nat [simp]: "read_nat (show_nat n) = n"
proof (induction n rule: show_nat.induct)
  case (1 n)
  show ?case
  proof (cases "n < 10")
    case True
    then show ?thesis by (simp add: show_nat.simps [of n] read_nat_def byte_digit_char)
  next
    case False
    with 1 have "read_nat (show_nat (n div 10)) = n div 10" by simp
    with False show ?thesis
      by (simp add: show_nat.simps [of n] read_nat_def byte_digit_char)
  qed
qed

lemma show_nat_inject [simp]: "show_nat m = show_nat n \<longleftrightarrow> m = n"
  by (metis read_show_nat)

lemma show_nat_digits: "c \<in> set (show_nat n) \<Longrightarrow> is_ascii_digit c"
proof (induction n rule: show_nat.induct)
  case (1 n)
  then show ?case
    by (auto simp: show_nat.simps [of n] is_ascii_digit_def byte_digit_char split: if_splits)
qed

lemma show_nat_not_Nil [simp]: "show_nat n \<noteq> []"
  by (subst show_nat.simps) simp

section \<open>Facts about UTF-8\<close>

lemma utf8_lead_cases [consumes 1, case_names one two three four]:
  assumes "utf8_valid (a # s)"
  obtains "byte a < 0x80" "utf8_valid s"
    | b t where "0xC2 \<le> byte a \<and> byte a \<le> 0xDF" "s = b # t" "utf8_cont b" "utf8_valid t"
    | b c t where "0xE0 \<le> byte a \<and> byte a \<le> 0xEF" "s = b # c # t" "utf8_cont b" "utf8_cont c"
        "byte a = 0xE0 \<longrightarrow> 0xA0 \<le> byte b" "byte a = 0xED \<longrightarrow> byte b \<le> 0x9F" "utf8_valid t"
    | b c d t where "0xF0 \<le> byte a \<and> byte a \<le> 0xF4" "s = b # c # d # t" "utf8_cont b"
        "utf8_cont c" "utf8_cont d" "byte a = 0xF0 \<longrightarrow> 0x90 \<le> byte b"
        "byte a = 0xF4 \<longrightarrow> byte b \<le> 0x8F" "utf8_valid t"
proof -
  consider "byte a < 0x80" | "0xC2 \<le> byte a \<and> byte a \<le> 0xDF" | "0xE0 \<le> byte a \<and> byte a \<le> 0xEF"
    | "0xF0 \<le> byte a \<and> byte a \<le> 0xF4"
    using assms by (auto split: if_splits)
  then show ?thesis
  proof cases
    case 1
    with assms show ?thesis by (intro that(1)) auto
  next
    case 2
    with assms show ?thesis by (cases s) (auto intro: that(2))
  next
    case 3
    with assms obtain b c t where "s = b # c # t" by (auto split: list.splits)
    with 3 assms show ?thesis by (intro that(3) [of b c t]) auto
  next
    case 4
    with assms obtain b c d t where "s = b # c # d # t" by (auto split: list.splits)
    with 4 assms show ?thesis by (intro that(4) [of b c d t]) auto
  qed
qed

lemma utf8_valid_append: "utf8_valid s \<Longrightarrow> utf8_valid t \<Longrightarrow> utf8_valid (s @ t)"
proof (induction "length s" arbitrary: s rule: less_induct)
  case less
  show ?case
  proof (cases s)
    case Nil
    with less.prems show ?thesis by simp
  next
    case (Cons a s')
    from less.prems(1) [unfolded Cons] show ?thesis
    proof (cases rule: utf8_lead_cases)
      case one
      then show ?thesis using less.hyps [of s'] less.prems(2) by (simp add: Cons)
    next
      case (two b u)
      then show ?thesis using less.hyps [of u] less.prems(2) by (simp add: Cons)
    next
      case (three b c u)
      then show ?thesis using less.hyps [of u] less.prems(2) by (simp add: Cons)
    next
      case (four b c d u)
      then show ?thesis using less.hyps [of u] less.prems(2) by (simp add: Cons)
    qed
  qed
qed

lemma utf8_valid_concat: "(\<And>s. s \<in> set ss \<Longrightarrow> utf8_valid s) \<Longrightarrow> utf8_valid (concat ss)"
  by (induction ss) (auto simp: utf8_valid_append)

lemma utf8_cont_newline [simp]: "\<not> utf8_cont newline"
  by (simp add: utf8_cont_def)

text \<open>A line break is a code point of its own, so cutting after one keeps both halves valid.\<close>

lemma utf8_valid_split_newline:
  "utf8_valid (s @ newline # t) \<Longrightarrow> utf8_valid (s @ [newline]) \<and> utf8_valid t"
proof (induction "length s" arbitrary: s rule: less_induct)
  case less
  show ?case
  proof (cases s)
    case Nil
    with less.prems show ?thesis by simp
  next
    case (Cons a s')
    from less.prems [unfolded Cons append_Cons] show ?thesis
    proof (cases rule: utf8_lead_cases)
      case one
      then show ?thesis using less.hyps [of s'] by (simp add: Cons)
    next
      case (two b u)
      then obtain s2 where "s' = b # s2" "u = s2 @ newline # t"
        by (cases s') auto
      with two show ?thesis using less.hyps [of s2] by (simp add: Cons)
    next
      case (three b c u)
      then obtain s2 where "s' = b # c # s2" "u = s2 @ newline # t"
        by (auto simp: append_eq_Cons_conv)
      with three show ?thesis using less.hyps [of s2] by (simp add: Cons)
    next
      case (four b c d u)
      then obtain s2 where "s' = b # c # d # s2" "u = s2 @ newline # t"
        by (auto simp: append_eq_Cons_conv)
      with four show ?thesis using less.hyps [of s2] by (simp add: Cons)
    qed
  qed
qed

lemma split_inclusive_no_newline: "newline \<notin> set s \<Longrightarrow> s \<noteq> [] \<Longrightarrow> split_inclusive s = [s]"
proof (induction s)
  case (Cons x s)
  then show ?case by (cases "s = []") auto
qed simp

lemma split_inclusive_newline:
  "newline \<notin> set s \<Longrightarrow> split_inclusive (s @ newline # t) = (s @ [newline]) # split_inclusive t"
  by (induction s) auto

lemma utf8_valid_lines: "utf8_valid s \<Longrightarrow> l \<in> set (split_inclusive s) \<Longrightarrow> utf8_valid l"
proof (induction "length s" arbitrary: s rule: less_induct)
  case less
  show ?case
  proof (cases "newline \<in> set s")
    case False
    then show ?thesis
      using less.prems by (cases "s = []") (auto simp: split_inclusive_no_newline)
  next
    case True
    then obtain u t where s: "s = u @ newline # t" "newline \<notin> set u"
      by (meson split_list_first)
    with less.prems(1) have "utf8_valid (u @ [newline])" "utf8_valid t"
      by (auto dest: utf8_valid_split_newline)
    with less.prems(2) s show ?thesis
      using less.hyps [of t] by (auto simp: split_inclusive_newline)
  qed
qed

lemma join_with_snoc:
  "join_with sep (ss @ [s]) = (if ss = [] then s else join_with sep ss @ sep @ s)"
  by (induction sep ss rule: join_with.induct) auto

end
