(* ===== verification/Sync_Errors.thy ===== *)
theory Sync_Errors
  imports Rust_Std
begin

text \<open>
  The error type of the synchronisation engine (\<^verbatim>\<open>sync/errors.rs\<close>): its variants, the user-facing
  category of each and its display text. \<open>lc\<close> stands for \<^verbatim>\<open>str::to_lowercase\<close>.
\<close>

datatype sync_error_category =
    CatNotConfigured
  | CatLoginRequired
  | CatPermissionRequired
  | CatSyncDisabled
  | CatOffline
  | CatQuotaExceeded
  | CatPassphraseFailed
  | CatServer
  | CatUnknown

datatype sync_error =
    Crypto string
  | Integrity string
  | InvalidArgument string
  | LoginRequired
  | NotConfigured
  | Offline string
  | PermissionRequired
  | QuotaExceeded string
  | Serialization string
  | Server string
  | Storage string
  | SyncDisabled
  | Transport string
  | UnsupportedVersion nat

type_synonym 'a sync_result = "('a, sync_error) result"

record sync_command_error =
  category_of :: sync_error_category
  message_of :: string

fun error_to_string :: "sync_error \<Rightarrow> string" where
  "error_to_string (Crypto m) = ''sync crypto error: '' @ m"
| "error_to_string (Integrity m) = ''sync integrity error: '' @ m"
| "error_to_string (InvalidArgument m) = ''invalid sync argument: '' @ m"
| "error_to_string LoginRequired = ''sync login is required''"
| "error_to_string NotConfigured = ''sync is not configured''"
| "error_to_string (Offline m) = ''sync connection error: '' @ m"
| "error_to_string PermissionRequired = ''sync account permission is required''"
| "error_to_string (QuotaExceeded m) = ''sync quota exceeded: '' @ m"
| "error_to_string (Serialization m) = ''sync serialization error: '' @ m"
| "error_to_string (Server m) = ''sync server error: '' @ m"
| "error_to_string (Storage m) = ''sync storage error: '' @ m"
| "error_to_string SyncDisabled = ''sync is disabled on this server''"
| "error_to_string (Transport m) = ''sync transport error: '' @ m"
| "error_to_string (UnsupportedVersion v) = ''unsupported sync version: '' @ show_nat v"

definition contains :: "string \<Rightarrow> string \<Rightarrow> bool" where
  "contains s needle \<longleftrightarrow> sublist needle s"

definition contains_case_insensitive :: "(string \<Rightarrow> string) \<Rightarrow> string \<Rightarrow> string \<Rightarrow> bool" where
  "contains_case_insensitive lc s needle \<longleftrightarrow> contains (lc s) needle"

definition category_from_transport_message :: "(string \<Rightarrow> string) \<Rightarrow> string \<Rightarrow> sync_error_category" where
  "category_from_transport_message lc message =
     (let lower = lc message in
      if contains lower ''sync disabled'' then CatSyncDisabled
      else if contains lower ''resource_exhausted'' \<or> contains lower ''quota'' then CatQuotaExceeded
      else if contains lower ''permission_denied'' \<or> contains lower ''permission denied''
        then CatPermissionRequired
      else if contains lower ''unauthenticated'' \<or> contains lower ''unauthorized''
        \<or> contains lower ''login'' then CatLoginRequired
      else if contains lower ''unavailable'' \<or> contains lower ''deadline_exceeded''
        \<or> contains lower ''network'' \<or> contains lower ''offline''
        \<or> contains lower ''connection refused'' \<or> contains lower ''error sending request''
        then CatOffline
      else if contains lower ''internal'' \<or> contains lower ''unknown'' then CatServer
      else CatUnknown)"

fun category :: "(string \<Rightarrow> string) \<Rightarrow> sync_error \<Rightarrow> sync_error_category" where
  "category lc NotConfigured = CatNotConfigured"
| "category lc LoginRequired = CatLoginRequired"
| "category lc PermissionRequired = CatPermissionRequired"
| "category lc SyncDisabled = CatSyncDisabled"
| "category lc (Offline _) = CatOffline"
| "category lc (QuotaExceeded _) = CatQuotaExceeded"
| "category lc (Server _) = CatServer"
| "category lc (Crypto m) =
     (if contains_case_insensitive lc m ''passphrase''
         \<or> contains_case_insensitive lc m ''recovery phrase''
      then CatPassphraseFailed else CatUnknown)"
| "category lc (Transport m) = category_from_transport_message lc m"
| "category lc _ = CatUnknown"

definition from_sync_error :: "(string \<Rightarrow> string) \<Rightarrow> sync_error \<Rightarrow> sync_command_error" where
  "from_sync_error lc e = \<lparr>category_of = category lc e, message_of = error_to_string e\<rparr>"

definition server_command_error :: "string \<Rightarrow> sync_command_error" where
  "server_command_error m = \<lparr>category_of = CatServer, message_of = m\<rparr>"

text \<open>\<^verbatim>\<open>validate_required\<close>, the same private helper in \<^verbatim>\<open>applier.rs\<close>, \<^verbatim>\<open>checkpoint.rs\<close> and \<^verbatim>\<open>transfer.rs\<close>.\<close>

definition validate_required :: "string \<Rightarrow> string \<Rightarrow> unit sync_result" where
  "validate_required value field =
     (if blank value then Err (InvalidArgument (field @ '' is required'')) else Ok ())"

lemma validate_required_eq_Ok [result_simps]:
  "validate_required v f = Ok u \<longleftrightarrow> \<not> blank v"
  by (simp add: validate_required_def)

end
