(* ===== verification/Sync_Db.thy ===== *)
theory Sync_Db
  imports Sync_Errors
begin

text \<open>
  The local database of the sync engine (\<^verbatim>\<open>sync/db.rs\<close>). A table is the list of its rows; SQLite
  itself is taken to work (no I/O faults), so the errors left are the violated uniqueness
  constraints and the rows a query does not find, with SQLite's messages. A transaction that fails
  leaves the database as it was. \<open>hash\<close> is \<^verbatim>\<open>blake3::hash(..).to_hex()\<close>. The tables no operation of the
  engine touches (objects, packs, checkpoints, transfers) are left out.
\<close>

section \<open>Rows and tables\<close>

record sync_vault_record =
  vr_vault_id :: string
  vr_root_path :: string
  vr_remote_workspace_id :: string
  vr_remote_head_commit_id :: "string option"
  vr_local_head_commit_id :: "string option"
  vr_device_id :: string
  vr_next_device_seq :: int
  vr_enabled :: bool
  vr_created_at_ms :: int
  vr_updated_at_ms :: int

record sync_file_input =
  fi_path :: string
  fi_normalized_path :: string
  fi_kind :: string
  fi_plaintext_hash :: "string option"
  fi_size_bytes :: "int option"
  fi_mtime_ms :: "int option"

record sync_file_record =
  file_id :: string
  fr_path :: string
  normalized_path :: string
  fr_kind :: string
  fr_plaintext_hash :: "string option"
  fr_size_bytes :: "int option"
  fr_mtime_ms :: "int option"
  last_synced_commit_id :: "string option"
  dirty :: bool
  deleted :: bool

record scan_apply_result =
  upserts :: "sync_file_record list"
  deletions :: "sync_file_record list"

record sync_tree_entry_record =
  tr_commit_id :: string
  tr_file_id :: string
  tr_normalized_path :: string
  tr_plaintext_hash :: "string option"
  tr_content_object_id :: "string option"
  tr_pack_entry_id :: "string option"
  tr_kind :: string

record sync_commit_record =
  cr_commit_id :: string
  cr_parent_commit_ids_json :: string
  cr_commit_kind :: string
  cr_direction :: string
  cr_status :: string
  cr_created_at_ms :: int
  cr_applied_at_ms :: "int option"
  cr_error :: "string option"

record sync_conflict_record =
  cf_conflict_id :: string
  cf_path :: string
  cf_conflict_path :: string
  cf_base_commit_id :: "string option"
  cf_local_commit_id :: "string option"
  cf_remote_commit_id :: "string option"
  cf_status :: string
  cf_created_at_ms :: int

text \<open>
  The cached trees: a row of \<^verbatim>\<open>sync_commit_trees\<close>, and a row of \<^verbatim>\<open>sync_tree_entries\<close> with the commit it
  belongs to and, in \<^verbatim>\<open>content_commit_id\<close>, the commit that introduced the content.
\<close>

record commit_tree_row =
  ct_commit_id :: string
  ct_tree_id :: string
  ct_tree_json :: string
  ct_source :: string
  ct_created_at_ms :: int

record tree_entry_row =
  tw_commit_id :: string
  tw_content_commit_id :: "string option"
  tw_file_id :: string
  tw_normalized_path :: string
  tw_plaintext_hash :: "string option"
  tw_content_object_id :: "string option"
  tw_pack_entry_id :: "string option"
  tw_kind :: string

record sync_db =
  sync_metadata :: "(string \<times> string) list"
  sync_vaults :: "sync_vault_record list"
  sync_files :: "sync_file_record list"
  sync_commits :: "sync_commit_record list"
  sync_commit_trees :: "commit_tree_row list"
  sync_tree_entries :: "tree_entry_row list"
  sync_conflicts :: "sync_conflict_record list"
  content_commit_id_column :: bool

text \<open>
  \<^verbatim>\<open>INSERT ... ON CONFLICT(key) DO UPDATE\<close> on a table with the given key; \<open>combine old new\<close> is the row
  the \<^verbatim>\<open>SET\<close> clause leaves.
\<close>

definition upsert_row :: "('r \<Rightarrow> 'k) \<Rightarrow> ('r \<Rightarrow> 'r \<Rightarrow> 'r) \<Rightarrow> 'r \<Rightarrow> 'r list \<Rightarrow> 'r list" where
  "upsert_row key combine new rows =
     (if key new \<in> key ` set rows
      then map (\<lambda>r. if key r = key new then combine r new else r) rows
      else rows @ [new])"

definition find_row :: "('r \<Rightarrow> 'k) \<Rightarrow> 'k \<Rightarrow> 'r list \<Rightarrow> 'r option" where
  "find_row key k rows = find (\<lambda>r. key r = k) rows"

definition update_rows :: "('r \<Rightarrow> bool) \<Rightarrow> ('r \<Rightarrow> 'r) \<Rightarrow> 'r list \<Rightarrow> 'r list" where
  "update_rows cond f rows = map (\<lambda>r. if cond r then f r else r) rows"

section \<open>Schema\<close>

definition CURRENT_SCHEMA_VERSION :: string where "CURRENT_SCHEMA_VERSION = ''2''"
definition SCHEMA_VERSION_KEY :: string where "SCHEMA_VERSION_KEY = ''schema_version''"
definition FILE_KIND_MARKDOWN :: string where "FILE_KIND_MARKDOWN = ''markdown''"

text \<open>A database file that does not exist yet, after \<^verbatim>\<open>CREATE TABLE IF NOT EXISTS\<close>.\<close>

definition empty_db :: sync_db where
  "empty_db = \<lparr>sync_metadata = [], sync_vaults = [], sync_files = [], sync_commits = [],
     sync_commit_trees = [], sync_tree_entries = [], sync_conflicts = [],
     content_commit_id_column = True\<rparr>"

definition metadata_value :: "sync_db \<Rightarrow> string \<Rightarrow> string option" where
  "metadata_value db key = map_option snd (find_row fst key (sync_metadata db))"

definition persist_schema_version :: "sync_db \<Rightarrow> sync_db" where
  "persist_schema_version db = db\<lparr>sync_metadata :=
     upsert_row fst (\<lambda>old new. new) (SCHEMA_VERSION_KEY, CURRENT_SCHEMA_VERSION) (sync_metadata db)\<rparr>"

definition ensure_tree_entry_content_commit_id_column :: "sync_db \<Rightarrow> sync_db" where
  "ensure_tree_entry_content_commit_id_column db =
     (if content_commit_id_column db then db
      else db\<lparr>content_commit_id_column := True, sync_tree_entries := [], sync_commit_trees := []\<rparr>)"

text \<open>\<^verbatim>\<open>reset_schema\<close> followed by the creation of the tables.\<close>

definition reset_schema :: "sync_db \<Rightarrow> sync_db" where
  "reset_schema db = empty_db"

definition init_schema :: "sync_db \<Rightarrow> sync_db" where
  "init_schema db =
     (let db = ensure_tree_entry_content_commit_id_column db in
      case metadata_value db SCHEMA_VERSION_KEY of
        Some v \<Rightarrow>
          if v = CURRENT_SCHEMA_VERSION then db
          else persist_schema_version (ensure_tree_entry_content_commit_id_column (reset_schema db))
      | None \<Rightarrow> persist_schema_version db)"

section \<open>Vaults\<close>

definition upsert_vault :: "sync_vault_record \<Rightarrow> sync_db \<Rightarrow> sync_db" where
  "upsert_vault vault db = db\<lparr>sync_vaults :=
     upsert_row vr_vault_id (\<lambda>old new. new\<lparr>vr_created_at_ms := vr_created_at_ms old\<rparr>) vault
       (sync_vaults db)\<rparr>"

definition get_vault :: "sync_db \<Rightarrow> string \<Rightarrow> sync_vault_record option" where
  "get_vault db vault_id = find_row vr_vault_id vault_id (sync_vaults db)"

definition delete_vault :: "string \<Rightarrow> sync_db \<Rightarrow> sync_db" where
  "delete_vault vault_id db =
     db\<lparr>sync_vaults := filter (\<lambda>v. vr_vault_id v \<noteq> vault_id) (sync_vaults db)\<rparr>"

definition update_vault_after_publish :: "string \<Rightarrow> string \<Rightarrow> int \<Rightarrow> int \<Rightarrow> sync_db \<Rightarrow> sync_db" where
  "update_vault_after_publish vault_id commit_id next_device_seq updated_at_ms db =
     db\<lparr>sync_vaults := update_rows (\<lambda>v. vr_vault_id v = vault_id)
       (\<lambda>v. v\<lparr>vr_remote_head_commit_id := Some commit_id, vr_local_head_commit_id := Some commit_id,
              vr_next_device_seq := next_device_seq, vr_updated_at_ms := updated_at_ms\<rparr>)
       (sync_vaults db)\<rparr>"

definition update_vault_after_pull :: "string \<Rightarrow> string \<Rightarrow> int \<Rightarrow> sync_db \<Rightarrow> sync_db" where
  "update_vault_after_pull vault_id commit_id updated_at_ms db =
     db\<lparr>sync_vaults := update_rows (\<lambda>v. vr_vault_id v = vault_id)
       (\<lambda>v. v\<lparr>vr_remote_head_commit_id := Some commit_id, vr_local_head_commit_id := Some commit_id,
              vr_updated_at_ms := updated_at_ms\<rparr>)
       (sync_vaults db)\<rparr>"

section \<open>Files\<close>

definition file_id_for_normalized_path :: "(bytes \<Rightarrow> string) \<Rightarrow> string \<Rightarrow> string" where
  "file_id_for_normalized_path hash path = ''file_'' @ take 32 (hash path)"

definition validate_vault_id :: "string \<Rightarrow> unit sync_result" where
  "validate_vault_id vault_id =
     (if vault_id = [] \<or> \<not> (\<forall>ch \<in> set vault_id. is_ascii_alphanumeric ch \<or> ch \<in> set ''-_'')
      then Err (InvalidArgument ''invalid vault_id'') else Ok ())"

definition validate_file_input :: "sync_file_input \<Rightarrow> unit sync_result" where
  "validate_file_input f =
     (if blank (fi_path f) \<or> blank (fi_normalized_path f)
      then Err (InvalidArgument ''sync file path is required'')
      else if blank (fi_kind f) then Err (InvalidArgument ''sync file kind is required'')
      else Ok ())"

definition list_files :: "sync_db \<Rightarrow> sync_file_record list" where
  "list_files db = sort_key normalized_path (sync_files db)"

definition list_dirty_files :: "sync_db \<Rightarrow> sync_file_record list" where
  "list_dirty_files db = sort_key normalized_path (filter dirty (sync_files db))"

definition get_file_by_normalized :: "sync_file_record list \<Rightarrow> string \<Rightarrow> sync_file_record sync_result" where
  "get_file_by_normalized rows path =
     ok_or (find_row normalized_path path rows)
       (Storage ''failed to read sync file: Query returned no rows'')"

definition get_file_by_id :: "sync_file_record list \<Rightarrow> string \<Rightarrow> sync_file_record sync_result" where
  "get_file_by_id rows i =
     ok_or (find_row file_id i rows) (Storage ''failed to read sync file: Query returned no rows'')"

text \<open>
  The upsert of a scanned file. \<^verbatim>\<open>file_id\<close> is the primary key and \<^verbatim>\<open>normalized_path\<close> is unique; only a
  conflict on the latter is resolved by an update.
\<close>

definition upsert_scanned ::
    "string \<Rightarrow> sync_file_input \<Rightarrow> bool \<Rightarrow> sync_file_record list \<Rightarrow> sync_file_record list sync_result" where
  "upsert_scanned i f is_dirty rows =
     (if fi_normalized_path f \<in> normalized_path ` set rows
      then Ok (update_rows (\<lambda>r. normalized_path r = fi_normalized_path f)
        (\<lambda>r. r\<lparr>fr_path := fi_path f, fr_kind := fi_kind f, fr_plaintext_hash := fi_plaintext_hash f,
               fr_size_bytes := fi_size_bytes f, fr_mtime_ms := fi_mtime_ms f,
               dirty := dirty r \<or> is_dirty, deleted := False\<rparr>) rows)
      else if i \<in> file_id ` set rows
      then Err (Storage ''failed to upsert sync file: UNIQUE constraint failed: sync_files.file_id'')
      else Ok (rows @ [\<lparr>file_id = i, fr_path = fi_path f, normalized_path = fi_normalized_path f,
        fr_kind = fi_kind f, fr_plaintext_hash = fi_plaintext_hash f, fr_size_bytes = fi_size_bytes f,
        fr_mtime_ms = fi_mtime_ms f, last_synced_commit_id = None, dirty = is_dirty,
        deleted = False\<rparr>]))"

definition scan_dirty :: "sync_file_record option \<Rightarrow> sync_file_input \<Rightarrow> bool" where
  "scan_dirty previous f =
     (case previous of
        None \<Rightarrow> True
      | Some row \<Rightarrow> deleted row \<or> fr_path row \<noteq> fi_path f \<or> fr_kind row \<noteq> fi_kind f
          \<or> fr_plaintext_hash row \<noteq> fi_plaintext_hash f \<or> fr_size_bytes row \<noteq> fi_size_bytes f)"

fun scan_upserts ::
    "(bytes \<Rightarrow> string) \<Rightarrow> sync_file_record list \<Rightarrow> sync_file_input list \<Rightarrow> string list
      \<Rightarrow> sync_file_record list
      \<Rightarrow> (string list \<times> sync_file_record list \<times> sync_file_record list) sync_result" where
  "scan_upserts hash existing [] seen rows = Ok (seen, rows, [])"
| "scan_upserts hash existing (f # fs) seen rows =
     and_then (validate_file_input f) (\<lambda>_.
       if fi_normalized_path f \<in> set seen
       then Err (InvalidArgument (''duplicate normalized sync path: '' @ fi_normalized_path f))
       else
         let previous = find_row normalized_path (fi_normalized_path f) existing;
             i = (case previous of
                    Some row \<Rightarrow> file_id row
                  | None \<Rightarrow> file_id_for_normalized_path hash (fi_normalized_path f))
         in
         and_then (upsert_scanned i f (scan_dirty previous f) rows) (\<lambda>rows.
         and_then (get_file_by_normalized rows (fi_normalized_path f)) (\<lambda>row.
         and_then (scan_upserts hash existing fs (seen @ [fi_normalized_path f]) rows)
           (\<lambda>(seen, rows, ups). Ok (seen, rows, row # ups)))))"

fun scan_deletions ::
    "string list \<Rightarrow> int \<Rightarrow> sync_file_record list \<Rightarrow> sync_file_record list
      \<Rightarrow> (sync_file_record list \<times> sync_file_record list) sync_result" where
  "scan_deletions seen now [] rows = Ok (rows, [])"
| "scan_deletions seen now (row # existing) rows =
     (if deleted row \<or> normalized_path row \<in> set seen then scan_deletions seen now existing rows
      else
        let rows = update_rows (\<lambda>r. file_id r = file_id row)
              (\<lambda>r. r\<lparr>deleted := True, dirty := True, fr_mtime_ms := Some now\<rparr>) rows
        in and_then (get_file_by_id rows (file_id row)) (\<lambda>gone.
           and_then (scan_deletions seen now existing rows) (\<lambda>(rows, dels).
             Ok (rows, gone # dels))))"

definition apply_scan ::
    "(bytes \<Rightarrow> string) \<Rightarrow> sync_file_input list \<Rightarrow> int \<Rightarrow> sync_db
      \<Rightarrow> scan_apply_result sync_result \<times> sync_db" where
  "apply_scan hash files now db =
     (let existing = list_files db in
      case and_then (scan_upserts hash existing files [] (sync_files db)) (\<lambda>(seen, rows, ups).
             and_then (scan_deletions seen now existing rows) (\<lambda>(rows, dels).
               Ok (rows, \<lparr>upserts = ups, deletions = dels\<rparr>))) of
        Err e \<Rightarrow> (Err e, db)
      | Ok (rows, res) \<Rightarrow> (Ok res, db\<lparr>sync_files := rows\<rparr>))"

definition mark_unsynced_file_deleted_clean :: "string \<Rightarrow> int \<Rightarrow> sync_db \<Rightarrow> sync_db" where
  "mark_unsynced_file_deleted_clean path now db =
     db\<lparr>sync_files := update_rows
       (\<lambda>r. normalized_path r = path \<and> last_synced_commit_id r = None)
       (\<lambda>r. r\<lparr>deleted := True, dirty := False, fr_mtime_ms := Some now\<rparr>) (sync_files db)\<rparr>"

definition mark_files_synced :: "string \<Rightarrow> string list \<Rightarrow> sync_db \<Rightarrow> sync_db" where
  "mark_files_synced commit_id file_ids db =
     fold (\<lambda>i db. db\<lparr>sync_files := update_rows (\<lambda>r. file_id r = i)
       (\<lambda>r. r\<lparr>dirty := False, last_synced_commit_id := Some commit_id\<rparr>) (sync_files db)\<rparr>) file_ids db"

definition coalesce_empty :: "string option \<Rightarrow> string" where
  "coalesce_empty h = (case h of Some s \<Rightarrow> s | None \<Rightarrow> [])"

definition file_matches_head :: "tree_entry_row list \<Rightarrow> string \<Rightarrow> sync_file_record \<Rightarrow> bool" where
  "file_matches_head entries commit_id r \<longleftrightarrow>
     (if deleted r
      then \<not> (\<exists>t \<in> set entries. tw_commit_id t = commit_id \<and> tw_file_id t = file_id r)
      else \<exists>t \<in> set entries. tw_commit_id t = commit_id \<and> tw_file_id t = file_id r \<and>
             tw_normalized_path t = normalized_path r \<and> tw_kind t = fr_kind r \<and>
             coalesce_empty (tw_plaintext_hash t) = coalesce_empty (fr_plaintext_hash r))"

definition clear_dirty_files_matching_head :: "string \<Rightarrow> sync_db \<Rightarrow> nat \<times> sync_db" where
  "clear_dirty_files_matching_head commit_id db =
     (let cond = (\<lambda>r. dirty r \<and> file_matches_head (sync_tree_entries db) commit_id r) in
      (length (filter cond (sync_files db)),
       db\<lparr>sync_files := update_rows cond
         (\<lambda>r. r\<lparr>dirty := False, last_synced_commit_id := Some commit_id\<rparr>) (sync_files db)\<rparr>))"

section \<open>Trees\<close>

fun insert_tree_entries ::
    "string \<Rightarrow> sync_tree_entry_record list \<Rightarrow> tree_entry_row list \<Rightarrow> tree_entry_row list sync_result" where
  "insert_tree_entries commit_id [] rows = Ok rows"
| "insert_tree_entries commit_id (e # es) rows =
     (if \<exists>r \<in> set rows. tw_commit_id r = commit_id \<and> tw_file_id r = tr_file_id e
      then Err (Storage (''failed to persist tree entry: UNIQUE constraint failed: '' @
        ''sync_tree_entries.commit_id, sync_tree_entries.file_id''))
      else insert_tree_entries commit_id es (rows @
        [\<lparr>tw_commit_id = commit_id, tw_content_commit_id = Some (tr_commit_id e),
          tw_file_id = tr_file_id e, tw_normalized_path = tr_normalized_path e,
          tw_plaintext_hash = tr_plaintext_hash e, tw_content_object_id = tr_content_object_id e,
          tw_pack_entry_id = tr_pack_entry_id e, tw_kind = tr_kind e\<rparr>]))"

definition persist_tree_cache ::
    "string \<Rightarrow> string \<Rightarrow> string \<Rightarrow> string \<Rightarrow> sync_tree_entry_record list \<Rightarrow> int \<Rightarrow> sync_db
      \<Rightarrow> unit sync_result \<times> sync_db" where
  "persist_tree_cache commit_id tree_id tree_json source entries created_at_ms db =
     (let trees = upsert_row ct_commit_id (\<lambda>old new. new)
            \<lparr>ct_commit_id = commit_id, ct_tree_id = tree_id, ct_tree_json = tree_json,
             ct_source = source, ct_created_at_ms = created_at_ms\<rparr> (sync_commit_trees db);
          kept = filter (\<lambda>r. tw_commit_id r \<noteq> commit_id) (sync_tree_entries db)
      in case insert_tree_entries commit_id entries kept of
           Err e \<Rightarrow> (Err e, db)
         | Ok rows \<Rightarrow> (Ok (), db\<lparr>sync_commit_trees := trees, sync_tree_entries := rows\<rparr>))"

definition tree_entry_of_row :: "tree_entry_row \<Rightarrow> sync_tree_entry_record" where
  "tree_entry_of_row r =
     \<lparr>tr_commit_id = (case tw_content_commit_id r of Some c \<Rightarrow> c | None \<Rightarrow> tw_commit_id r),
      tr_file_id = tw_file_id r, tr_normalized_path = tw_normalized_path r,
      tr_plaintext_hash = tw_plaintext_hash r, tr_content_object_id = tw_content_object_id r,
      tr_pack_entry_id = tw_pack_entry_id r, tr_kind = tw_kind r\<rparr>"

definition list_tree_entries :: "sync_db \<Rightarrow> string \<Rightarrow> sync_tree_entry_record list" where
  "list_tree_entries db commit_id =
     map tree_entry_of_row (sort_key tw_normalized_path
       (filter (\<lambda>r. tw_commit_id r = commit_id) (sync_tree_entries db)))"

section \<open>Commits and conflicts\<close>

definition upsert_local_commit :: "sync_commit_record \<Rightarrow> sync_db \<Rightarrow> sync_db" where
  "upsert_local_commit commit db = db\<lparr>sync_commits :=
     upsert_row cr_commit_id (\<lambda>old new. new\<lparr>cr_created_at_ms := cr_created_at_ms old\<rparr>) commit
       (sync_commits db)\<rparr>"

definition upsert_conflict :: "sync_conflict_record \<Rightarrow> sync_db \<Rightarrow> sync_db" where
  "upsert_conflict conflict db = db\<lparr>sync_conflicts :=
     upsert_row cf_conflict_id (\<lambda>old new. new\<lparr>cf_created_at_ms := cf_created_at_ms old\<rparr>) conflict
       (sync_conflicts db)\<rparr>"

definition list_open_conflicts :: "sync_db \<Rightarrow> sync_conflict_record list" where
  "list_open_conflicts db =
     sort_key cf_created_at_ms (sort_key cf_conflict_path
       (filter (\<lambda>c. cf_status c = ''open'') (sync_conflicts db)))"

definition mark_conflict_resolved :: "string \<Rightarrow> sync_db \<Rightarrow> sync_db" where
  "mark_conflict_resolved conflict_id db =
     db\<lparr>sync_conflicts := update_rows (\<lambda>c. cf_conflict_id c = conflict_id \<and> cf_status c = ''open'')
       (\<lambda>c. c\<lparr>cf_status := ''resolved''\<rparr>) (sync_conflicts db)\<rparr>"

definition get_conflict_status :: "sync_db \<Rightarrow> string \<Rightarrow> string option" where
  "get_conflict_status db conflict_id =
     map_option cf_status (find_row cf_conflict_id conflict_id (sync_conflicts db))"

section \<open>Tables with a key\<close>

lemma find_row_simps [simp]:
  "find_row key k [] = None"
  "find_row key k (r # rows) = (if key r = k then Some r else find_row key k rows)"
  by (simp_all add: find_row_def)

lemma find_row_map:
  "(\<And>r. key (f r) = key r) \<Longrightarrow> find_row key k (map f rows) = map_option f (find_row key k rows)"
  by (induction rows) (auto simp: find_row_def)

lemma find_row_Some: "find_row key k rows = Some r \<Longrightarrow> r \<in> set rows \<and> key r = k"
  by (auto simp: find_row_def find_Some_iff)

lemma find_row_None: "find_row key k rows = None \<longleftrightarrow> k \<notin> key ` set rows"
  by (auto simp: find_row_def find_None_iff)

lemma find_row_append:
  "find_row key k (xs @ ys) = (case find_row key k xs of Some r \<Rightarrow> Some r | None \<Rightarrow> find_row key k ys)"
  by (induction xs) (auto simp: find_row_def)

text \<open>
  The contract of a table whose rows are identified by a key the update clause keeps, and what an
  upsert does to the lookups. Every upserted table of the schema is an instance.
\<close>

locale keyed_table =
  fixes key :: "'r \<Rightarrow> 'k" and combine :: "'r \<Rightarrow> 'r \<Rightarrow> 'r"
  assumes key_combine: "key old = key new \<Longrightarrow> key (combine old new) = key new"
begin

lemma key_updated: "key (if key r = key new then combine r new else r) = key r"
  by (simp add: key_combine)

lemma map_key_upsert:
  "map key (upsert_row key combine new rows) =
     (if key new \<in> key ` set rows then map key rows else map key rows @ [key new])"
  by (simp add: upsert_row_def key_updated comp_def del: key_combine)

lemma distinct_upsert:
  "distinct (map key rows) \<Longrightarrow> distinct (map key (upsert_row key combine new rows))"
  by (simp add: map_key_upsert)

lemma find_upsert:
  "find_row key k (upsert_row key combine new rows) =
    (if k = key new then Some (case find_row key k rows of None \<Rightarrow> new | Some old \<Rightarrow> combine old new)
     else find_row key k rows)"
proof (cases "key new \<in> key ` set rows")
  case True
  then have "find_row key k (upsert_row key combine new rows)
      = map_option (\<lambda>r. if key r = key new then combine r new else r) (find_row key k rows)"
    by (simp add: upsert_row_def find_row_map [of key, OF key_updated])
  moreover have "find_row key (key new) rows \<noteq> None"
    using True by (simp add: find_row_None)
  ultimately show ?thesis
    by (cases "find_row key k rows") (auto dest: find_row_Some)
next
  case False
  then show ?thesis
    using find_row_None [of key "key new" rows]
    by (auto simp: upsert_row_def find_row_append split: option.splits)
qed

end

interpretation vault_table: keyed_table vr_vault_id "\<lambda>old new. new\<lparr>vr_created_at_ms := vr_created_at_ms old\<rparr>"
  by unfold_locales simp
interpretation commit_table: keyed_table cr_commit_id "\<lambda>old new. new\<lparr>cr_created_at_ms := cr_created_at_ms old\<rparr>"
  by unfold_locales simp
interpretation conflict_table: keyed_table cf_conflict_id "\<lambda>old new. new\<lparr>cf_created_at_ms := cf_created_at_ms old\<rparr>"
  by unfold_locales simp
interpretation tree_table: keyed_table ct_commit_id "\<lambda>old new. new"
  by unfold_locales simp
interpretation metadata_table: keyed_table "fst :: string \<times> string \<Rightarrow> string" "\<lambda>old new. new"
  by unfold_locales simp

lemma map_update_rows: "(\<And>r. g (f r) = g r) \<Longrightarrow> map g (update_rows c f rows) = map g rows"
  by (simp add: update_rows_def)

lemma find_row_distinct:
  "distinct (map key rows) \<Longrightarrow> r \<in> set rows \<Longrightarrow> find_row key (key r) rows = Some r"
  by (induction rows) (auto simp: find_row_def)

lemma find_row_sort: "distinct (map key rows) \<Longrightarrow> find_row key k (sort_key f rows) = find_row key k rows"
proof -
  assume d: "distinct (map key rows)"
  then have d': "distinct (map key (sort_key f rows))"
    by (metis distinct_map distinct_sort set_sort)
  show ?thesis
  proof (cases "find_row key k rows")
    case None
    then have "find_row key k (sort_key f rows) = None"
      by (simp add: find_row_None)
    with None show ?thesis by simp
  next
    case (Some r)
    then have "r \<in> set (sort_key f rows)" "key r = k"
      by (auto dest: find_row_Some)
    with find_row_distinct [OF d'] Some show ?thesis by metis
  qed
qed

section \<open>What a scan does to the file table\<close>

definition scan_update :: "sync_file_input \<Rightarrow> sync_file_record \<Rightarrow> sync_file_record" where
  "scan_update f r = r\<lparr>fr_path := fi_path f, fr_kind := fi_kind f, fr_plaintext_hash := fi_plaintext_hash f,
     fr_size_bytes := fi_size_bytes f, fr_mtime_ms := fi_mtime_ms f,
     dirty := dirty r \<or> scan_dirty (Some r) f, deleted := False\<rparr>"

definition scan_insert :: "(bytes \<Rightarrow> string) \<Rightarrow> sync_file_input \<Rightarrow> sync_file_record" where
  "scan_insert hash f = \<lparr>file_id = file_id_for_normalized_path hash (fi_normalized_path f),
     fr_path = fi_path f, normalized_path = fi_normalized_path f, fr_kind = fi_kind f,
     fr_plaintext_hash = fi_plaintext_hash f, fr_size_bytes = fi_size_bytes f,
     fr_mtime_ms = fi_mtime_ms f, last_synced_commit_id = None, dirty = True, deleted = False\<rparr>"

definition scan_delete :: "int \<Rightarrow> sync_file_record \<Rightarrow> sync_file_record" where
  "scan_delete now r = r\<lparr>deleted := True, dirty := True, fr_mtime_ms := Some now\<rparr>"

definition input_for :: "sync_file_input list \<Rightarrow> sync_file_record \<Rightarrow> sync_file_input option" where
  "input_for fs r = find (\<lambda>f. fi_normalized_path f = normalized_path r) fs"

definition upserted_row :: "sync_file_input list \<Rightarrow> sync_file_record \<Rightarrow> sync_file_record" where
  "upserted_row fs r = (case input_for fs r of Some f \<Rightarrow> scan_update f r | None \<Rightarrow> r)"

definition scanned_row :: "sync_file_input list \<Rightarrow> int \<Rightarrow> sync_file_record \<Rightarrow> sync_file_record" where
  "scanned_row fs now r =
     (case input_for fs r of
        Some f \<Rightarrow> scan_update f r
      | None \<Rightarrow> if deleted r then r else scan_delete now r)"

definition new_inputs :: "sync_file_record list \<Rightarrow> sync_file_input list \<Rightarrow> sync_file_input list" where
  "new_inputs rows fs = filter (\<lambda>f. fi_normalized_path f \<notin> normalized_path ` set rows) fs"

lemma scan_row_keys [simp]:
  "file_id (scan_update f r) = file_id r" "normalized_path (scan_update f r) = normalized_path r"
  "file_id (scan_delete now r) = file_id r" "normalized_path (scan_delete now r) = normalized_path r"
  "normalized_path (scan_insert hash f) = fi_normalized_path f"
  "file_id (upserted_row fs r) = file_id r" "normalized_path (upserted_row fs r) = normalized_path r"
  "file_id (scanned_row fs now r) = file_id r" "normalized_path (scanned_row fs now r) = normalized_path r"
  by (simp_all add: scan_update_def scan_delete_def scan_insert_def upserted_row_def scanned_row_def
      split: option.splits)

lemma input_for_None: "input_for fs r = None \<longleftrightarrow> normalized_path r \<notin> fi_normalized_path ` set fs"
  by (force simp: input_for_def find_None_iff)

lemma input_for_Some:
  "input_for fs r = Some f \<Longrightarrow> f \<in> set fs \<and> fi_normalized_path f = normalized_path r"
  by (auto simp: input_for_def find_Some_iff)

lemma input_for_distinct:
  "distinct (map fi_normalized_path fs) \<Longrightarrow> f \<in> set fs \<Longrightarrow> fi_normalized_path f = normalized_path r \<Longrightarrow>
   input_for fs r = Some f"
  using find_row_distinct [of fi_normalized_path fs f] by (simp add: input_for_def find_row_def)

lemma upsert_scanned_known:
  assumes "find_row normalized_path (fi_normalized_path f) rows = Some q" "distinct (map normalized_path rows)"
  shows "upsert_scanned i f (scan_dirty (Some q) f) rows =
    Ok (map (\<lambda>r. if normalized_path r = fi_normalized_path f then scan_update f r else r) rows)"
proof -
  from find_row_Some [OF assms(1)] have q: "q \<in> set rows" "normalized_path q = fi_normalized_path f" by auto
  have "r = q" if "r \<in> set rows" "normalized_path r = fi_normalized_path f" for r
    using that q assms(2) by (metis distinct_map inj_onD)
  then have "update_rows (\<lambda>r. normalized_path r = fi_normalized_path f)
        (\<lambda>r. r\<lparr>fr_path := fi_path f, fr_kind := fi_kind f, fr_plaintext_hash := fi_plaintext_hash f,
               fr_size_bytes := fi_size_bytes f, fr_mtime_ms := fi_mtime_ms f,
               dirty := dirty r \<or> scan_dirty (Some q) f, deleted := False\<rparr>) rows
    = map (\<lambda>r. if normalized_path r = fi_normalized_path f then scan_update f r else r) rows"
    unfolding update_rows_def scan_update_def by (intro map_cong refl if_cong) blast
  moreover have "fi_normalized_path f \<in> normalized_path ` set rows"
    using q by (metis image_eqI)
  ultimately show ?thesis by (simp add: upsert_scanned_def)
qed

lemma upsert_scanned_new:
  assumes "fi_normalized_path f \<notin> normalized_path ` set rows"
  shows "upsert_scanned (file_id_for_normalized_path hash (fi_normalized_path f)) f True rows = Ok rows' \<longleftrightarrow>
    file_id (scan_insert hash f) \<notin> file_id ` set rows \<and> rows' = rows @ [scan_insert hash f]"
  using assms by (auto simp: upsert_scanned_def scan_insert_def)

lemma scan_upserts_seen:
  "scan_upserts hash ex fs seen rows = Ok (seen', rows', ups) \<Longrightarrow>
   seen' = seen @ map fi_normalized_path fs \<and> distinct (map fi_normalized_path fs) \<and>
   fi_normalized_path ` set fs \<inter> set seen = {} \<and> (\<forall>f \<in> set fs. validate_file_input f = Ok ())"
proof (induction fs arbitrary: seen rows ups)
  case (Cons f fs)
  then obtain rows1 ups1 where "fi_normalized_path f \<notin> set seen" "validate_file_input f = Ok ()"
    "scan_upserts hash ex fs (seen @ [fi_normalized_path f]) rows1 = Ok (seen', rows', ups1)"
    by (auto simp: and_then_eq_Ok Let_def split: if_splits)
  with Cons.IH [of "seen @ [fi_normalized_path f]" rows1 ups1] show ?case by auto
qed simp

lemma scan_upserts_rows:
  assumes "scan_upserts hash ex fs seen rows = Ok (seen', rows', ups)"
    and "distinct (map normalized_path rows)"
    and "\<forall>f \<in> set fs. find_row normalized_path (fi_normalized_path f) rows
          = find_row normalized_path (fi_normalized_path f) ex"
  shows "rows' = map (upserted_row fs) rows @ map (scan_insert hash) (new_inputs rows fs)"
  using assms
proof (induction fs arbitrary: seen rows ups)
  case Nil
  then show ?case by (simp add: upserted_row_def input_for_def new_inputs_def)
next
  case (Cons f fs)
  let ?q = "find_row normalized_path (fi_normalized_path f) ex"
  let ?upd = "\<lambda>r. if normalized_path r = fi_normalized_path f then scan_update f r else r"
  let ?new = "if fi_normalized_path f \<in> normalized_path ` set rows then [] else [scan_insert hash f]"
  from Cons.prems(1) obtain i rows1 ups1 where
    i: "i = (case ?q of Some row \<Rightarrow> file_id row
                  | None \<Rightarrow> file_id_for_normalized_path hash (fi_normalized_path f))"
    and up: "upsert_scanned i f (scan_dirty ?q f) rows = Ok rows1"
    and rest: "scan_upserts hash ex fs (seen @ [fi_normalized_path f]) rows1 = Ok (seen', rows', ups1)"
    by (auto simp: and_then_eq_Ok Let_def split: if_splits)
  have q: "find_row normalized_path (fi_normalized_path f) rows = ?q"
    using Cons.prems(3) by simp
  have other: "fi_normalized_path g \<noteq> fi_normalized_path f" if "g \<in> set fs" for g
    using scan_upserts_seen [OF rest] that by (force simp: disjoint_iff)
  have rows1: "rows1 = map ?upd rows @ ?new"
  proof (cases ?q)
    case None
    with q have n: "fi_normalized_path f \<notin> normalized_path ` set rows" by (simp add: find_row_None)
    then have "map ?upd rows = rows" by (intro map_idI) (metis image_eqI)
    with up None i n upsert_scanned_new [OF n, of hash rows1] show ?thesis
      by (simp add: scan_dirty_def)
  next
    case (Some row)
    with q have "fi_normalized_path f \<in> normalized_path ` set rows"
      using find_row_None [of normalized_path "fi_normalized_path f" rows] by simp
    with up Some q upsert_scanned_known [of f rows row i] Cons.prems(2) show ?thesis by simp
  qed
  have d1: "distinct (map normalized_path rows1)"
    using Cons.prems(2) by (simp add: rows1 comp_def if_distrib [of normalized_path] cong: if_cong)
  have "find_row normalized_path k rows1 = find_row normalized_path k rows" if "k \<noteq> fi_normalized_path f" for k
  proof -
    have "find_row normalized_path k (map ?upd rows) = map_option ?upd (find_row normalized_path k rows)"
      by (rule find_row_map) simp
    then show ?thesis
      using that by (cases "find_row normalized_path k rows")
        (auto simp: rows1 find_row_append dest: find_row_Some)
  qed
  with other Cons.prems(3) have "\<forall>g \<in> set fs. find_row normalized_path (fi_normalized_path g) rows1
      = find_row normalized_path (fi_normalized_path g) ex"
    by simp
  from Cons.IH [OF rest d1 this]
  have rows': "rows' = map (upserted_row fs) rows1 @ map (scan_insert hash) (new_inputs rows1 fs)" .
  have notin: "normalized_path r = fi_normalized_path f \<Longrightarrow> input_for fs r = None" for r
    using other by (metis input_for_Some option.exhaust)
  have "upserted_row fs (?upd r) = upserted_row (f # fs) r" for r
    using notin [of r] notin [of "scan_update f r"] by (auto simp: upserted_row_def input_for_def)
  moreover have "map (upserted_row fs) ?new = ?new"
    using notin [of "scan_insert hash f"] by (auto simp: upserted_row_def)
  moreover have "new_inputs rows1 fs = new_inputs rows fs"
    using other by (auto simp: new_inputs_def rows1 intro!: filter_cong)
  moreover have "new_inputs rows (f # fs) = (if fi_normalized_path f \<in> normalized_path ` set rows then [] else [f])
      @ new_inputs rows fs"
    by (simp add: new_inputs_def)
  ultimately show ?case
    by (simp add: rows' rows1 comp_def)
qed

lemma upsert_scanned_ids:
  "upsert_scanned i f b rows = Ok rows' \<Longrightarrow> distinct (map file_id rows) \<Longrightarrow> distinct (map file_id rows')"
  by (auto simp: upsert_scanned_def map_update_rows split: if_splits)

lemma scan_upserts_ids:
  "scan_upserts hash ex fs seen rows = Ok (seen', rows', ups) \<Longrightarrow> distinct (map file_id rows) \<Longrightarrow>
   distinct (map file_id rows')"
proof (induction fs arbitrary: seen rows ups)
  case (Cons f fs)
  from Cons.prems(1) obtain i b rows1 ups1 where up: "upsert_scanned i f b rows = Ok rows1"
    and rest: "scan_upserts hash ex fs (seen @ [fi_normalized_path f]) rows1 = Ok (seen', rows', ups1)"
    by (auto simp: and_then_eq_Ok Let_def split: if_splits)
  show ?case
    by (rule Cons.IH [OF rest upsert_scanned_ids [OF up Cons.prems(2)]])
qed simp

definition vanished :: "string list \<Rightarrow> sync_file_record \<Rightarrow> bool" where
  "vanished seen e \<longleftrightarrow> \<not> deleted e \<and> normalized_path e \<notin> set seen"

definition delete_vanished ::
    "string list \<Rightarrow> int \<Rightarrow> sync_file_record list \<Rightarrow> sync_file_record \<Rightarrow> sync_file_record" where
  "delete_vanished seen now ex r =
     (if file_id r \<in> file_id ` set (filter (vanished seen) ex) then scan_delete now r else r)"

lemma scan_deletions_rows:
  assumes "scan_deletions seen now ex rows = Ok (rows', dels)"
  shows "rows' = map (delete_vanished seen now ex) rows
    \<and> map file_id dels = map file_id (filter (vanished seen) ex)"
  using assms
proof (induction ex arbitrary: rows dels)
  case Nil
  then show ?case by (simp add: delete_vanished_def)
next
  case (Cons e ex)
  show ?case
  proof (cases "vanished seen e")
    case False
    with Cons.prems have "scan_deletions seen now ex rows = Ok (rows', dels)"
      by (auto simp: vanished_def)
    moreover have "delete_vanished seen now (e # ex) = delete_vanished seen now ex"
      using False by (intro ext) (simp add: delete_vanished_def del: set_filter)
    ultimately show ?thesis
      using Cons.IH False by simp
  next
    case True
    let ?rows1 = "update_rows (\<lambda>r. file_id r = file_id e) (scan_delete now) rows"
    from Cons.prems True obtain gone dels1 where "get_file_by_id ?rows1 (file_id e) = Ok gone"
      and rest: "scan_deletions seen now ex ?rows1 = Ok (rows', dels1)" and dels: "dels = gone # dels1"
      by (auto simp: and_then_eq_Ok Let_def scan_delete_def [abs_def] vanished_def split: if_splits)
    then have "file_id gone = file_id e"
      by (auto simp: get_file_by_id_def result_simps dest: find_row_Some)
    moreover have "delete_vanished seen now ex (if file_id r = file_id e then scan_delete now r else r)
        = delete_vanished seen now (e # ex) r" for r
      using True by (auto simp: delete_vanished_def) (simp add: scan_delete_def)
    ultimately show ?thesis
      using Cons.IH [OF rest] True by (simp add: update_rows_def dels)
  qed
qed

text \<open>Identifiers and paths are unique in the file table.\<close>

definition files_wf :: "sync_file_record list \<Rightarrow> bool" where
  "files_wf rows \<longleftrightarrow> distinct (map file_id rows) \<and> distinct (map normalized_path rows)"

definition scanned_rows ::
    "(bytes \<Rightarrow> string) \<Rightarrow> sync_file_input list \<Rightarrow> int \<Rightarrow> sync_file_record list \<Rightarrow> sync_file_record list" where
  "scanned_rows hash fs now rows =
     map (scanned_row fs now) rows @ map (scan_insert hash) (new_inputs rows fs)"

lemma list_files_simps:
  "set (list_files db) = set (sync_files db)"
  "files_wf (sync_files db) \<Longrightarrow> find_row normalized_path k (list_files db) = find_row normalized_path k (sync_files db)"
  by (simp_all add: list_files_def files_wf_def find_row_sort)

lemma apply_scan_rows:
  assumes "files_wf (sync_files db)" "apply_scan hash fs now db = (Ok res, db')"
  shows "db' = db\<lparr>sync_files := scanned_rows hash fs now (sync_files db)\<rparr>"
    and "distinct (map fi_normalized_path fs)"
    and "map file_id (deletions res) = map file_id (filter (vanished (map fi_normalized_path fs)) (list_files db))"
proof -
  let ?ex = "list_files db" and ?rows = "sync_files db" and ?seen = "map fi_normalized_path fs"
  from assms(2) obtain seen rows1 ups rows2 dels where
    up: "scan_upserts hash ?ex fs [] ?rows = Ok (seen, rows1, ups)"
    and del: "scan_deletions seen now ?ex rows1 = Ok (rows2, dels)"
    and db': "db' = db\<lparr>sync_files := rows2\<rparr>" and res: "deletions res = dels"
    by (auto simp: apply_scan_def and_then_eq_Ok Let_def split: result.splits prod.splits)
  have seen: "seen = ?seen" and d: "distinct ?seen"
    using scan_upserts_seen [OF up] by simp_all
  have rows1: "rows1 = map (upserted_row fs) ?rows @ map (scan_insert hash) (new_inputs ?rows fs)"
    by (rule scan_upserts_rows [OF up]) (use assms(1) list_files_simps in \<open>simp_all add: files_wf_def\<close>)
  have "delete_vanished ?seen now ?ex (upserted_row fs r) = scanned_row fs now r" if "r \<in> set ?rows" for r
  proof -
    have "file_id r \<in> file_id ` set (filter (vanished ?seen) ?ex) \<longleftrightarrow> vanished ?seen r"
      using that assms(1) by (auto simp: list_files_simps files_wf_def distinct_map inj_on_def)
    then show ?thesis
      using input_for_None [of fs r]
      by (auto simp: delete_vanished_def upserted_row_def scanned_row_def vanished_def
          dest: input_for_Some split: option.splits)
  qed
  moreover have "delete_vanished ?seen now ?ex (scan_insert hash f) = scan_insert hash f"
    if "f \<in> set (new_inputs ?rows fs)" for f
  proof -
    have "distinct (map file_id rows1)"
      by (rule scan_upserts_ids [OF up]) (use assms(1) in \<open>simp add: files_wf_def\<close>)
    then have "file_id (scan_insert hash f) \<notin> file_id ` set ?rows"
      using that by (auto simp: rows1 comp_def)
    then show ?thesis by (auto simp: delete_vanished_def list_files_simps)
  qed
  ultimately have "rows2 = scanned_rows hash fs now ?rows"
    using scan_deletions_rows [OF del] by (simp add: rows1 scanned_rows_def seen)
  then show "db' = db\<lparr>sync_files := scanned_rows hash fs now (sync_files db)\<rparr>" by (simp add: db')
  show "distinct ?seen" by (rule d)
  show "map file_id (deletions res) = map file_id (filter (vanished ?seen) ?ex)"
    using scan_deletions_rows [OF del] by (simp add: seen res)
qed

lemma scanned_rows_keys:
  "map file_id (scanned_rows hash fs now rows) = map file_id rows @ map (file_id \<circ> scan_insert hash) (new_inputs rows fs)"
  "map normalized_path (scanned_rows hash fs now rows) = map normalized_path rows @ map fi_normalized_path (new_inputs rows fs)"
  by (simp_all add: scanned_rows_def comp_def)

lemma apply_scan_files_wf:
  assumes "files_wf (sync_files db)" "apply_scan hash fs now db = (r, db')"
  shows "files_wf (sync_files db')"
proof (cases r)
  case (Err e)
  with assms show ?thesis
    by (auto simp: apply_scan_def Let_def split: result.splits prod.splits)
next
  case (Ok res)
  from assms(2) obtain seen rows1 ups where
    up: "scan_upserts hash (list_files db) fs [] (sync_files db) = Ok (seen, rows1, ups)"
    by (auto simp: Ok apply_scan_def and_then_eq_Ok Let_def split: result.splits prod.splits)
  have rows1: "rows1 = map (upserted_row fs) (sync_files db) @ map (scan_insert hash) (new_inputs (sync_files db) fs)"
    by (rule scan_upserts_rows [OF up]) (use assms(1) list_files_simps in \<open>simp_all add: files_wf_def\<close>)
  have "distinct (map file_id rows1)"
    by (rule scan_upserts_ids [OF up]) (use assms(1) in \<open>simp add: files_wf_def\<close>)
  then have "distinct (map file_id (scanned_rows hash fs now (sync_files db)))"
    by (simp add: rows1 scanned_rows_keys comp_def)
  moreover note apply_scan_rows [OF assms(1) assms(2) [unfolded Ok]]
  moreover from this have "distinct (map normalized_path (scanned_rows hash fs now (sync_files db)))"
    using assms(1) by (auto simp: scanned_rows_keys files_wf_def new_inputs_def distinct_map_filter) (metis image_eqI)
  ultimately show ?thesis by (simp add: files_wf_def)
qed

text \<open>What the table says of a file, for comparison with a scan.\<close>

definition row_facts :: "sync_file_record \<Rightarrow> string \<times> string \<times> string \<times> string option \<times> int option" where
  "row_facts r = (normalized_path r, fr_path r, fr_kind r, fr_plaintext_hash r, fr_size_bytes r)"

definition input_facts :: "sync_file_input \<Rightarrow> string \<times> string \<times> string \<times> string option \<times> int option" where
  "input_facts f = (fi_normalized_path f, fi_path f, fi_kind f, fi_plaintext_hash f, fi_size_bytes f)"

lemma row_facts_scan:
  "row_facts (scan_insert hash f) = input_facts f" "\<not> deleted (scan_insert hash f)"
  "fi_normalized_path f = normalized_path r \<Longrightarrow> row_facts (scan_update f r) = input_facts f"
  "\<not> deleted (scan_update f r)" "deleted (scan_delete now r)"
  by (simp_all add: row_facts_def input_facts_def scan_insert_def scan_update_def scan_delete_def)

lemma scanned_rows_cases [consumes 1, case_names old new]:
  assumes "r \<in> set (scanned_rows hash fs now rows)"
  obtains q where "q \<in> set rows" "r = scanned_row fs now q" | f where "f \<in> set fs" "r = scan_insert hash f"
  using assms by (auto simp: scanned_rows_def new_inputs_def)

lemma live_scanned_rows:
  assumes "distinct (map fi_normalized_path fs)"
  shows "row_facts ` {r \<in> set (scanned_rows hash fs now rows). \<not> deleted r} = input_facts ` set fs"
proof
  have "row_facts r \<in> input_facts ` set fs" if mem: "r \<in> set (scanned_rows hash fs now rows)" and live: "\<not> deleted r" for r
    using mem
  proof (cases rule: scanned_rows_cases)
    case (old q)
    then obtain f where "input_for fs q = Some f" "r = scan_update f q"
      using live by (cases "input_for fs q") (simp_all add: scanned_row_def row_facts_scan split: if_splits)
    then show ?thesis
      using input_for_Some [of fs q f] row_facts_scan(3) [of f q] by auto
  next
    case (new f)
    then show ?thesis by (simp add: row_facts_scan)
  qed
  then show "row_facts ` {r \<in> set (scanned_rows hash fs now rows). \<not> deleted r} \<subseteq> input_facts ` set fs"
    by blast
  show "input_facts ` set fs \<subseteq> row_facts ` {r \<in> set (scanned_rows hash fs now rows). \<not> deleted r}"
  proof
    fix x assume "x \<in> input_facts ` set fs"
    then obtain f where f: "f \<in> set fs" "x = input_facts f" by blast
    show "x \<in> row_facts ` {r \<in> set (scanned_rows hash fs now rows). \<not> deleted r}"
    proof (cases "fi_normalized_path f \<in> normalized_path ` set rows")
      case True
      then obtain r where r: "r \<in> set rows" "fi_normalized_path f = normalized_path r" by blast
      then have "scanned_row fs now r = scan_update f r"
        using input_for_distinct [OF assms f(1) r(2)] by (simp add: scanned_row_def)
      then have "scan_update f r \<in> {r \<in> set (scanned_rows hash fs now rows). \<not> deleted r}"
        using r(1) row_facts_scan(4) [of f r] by (auto simp: scanned_rows_def intro: rev_image_eqI)
      with row_facts_scan(3) [OF r(2)] f(2) show ?thesis by (intro image_eqI) auto
    next
      case False
      then have "scan_insert hash f \<in> {r \<in> set (scanned_rows hash fs now rows). \<not> deleted r}"
        using f(1) by (simp add: scanned_rows_def new_inputs_def row_facts_scan)
      with row_facts_scan(1) f(2) show ?thesis by (intro image_eqI) auto
    qed
  qed
qed

text \<open>
  A scan loses no pending change: every row keeps its identifier, path and last synced commit,
  a dirty row stays dirty, and a row that is clean afterwards was clean before and describes the
  same file.
\<close>

theorem apply_scan_dirty_monotone:
  assumes "files_wf (sync_files db)" "apply_scan hash fs now db = (Ok res, db')"
    and "r \<in> set (sync_files db)"
  shows "\<exists>r' \<in> set (sync_files db'). file_id r' = file_id r \<and> normalized_path r' = normalized_path r \<and>
    last_synced_commit_id r' = last_synced_commit_id r \<and> (dirty r \<longrightarrow> dirty r') \<and>
    (dirty r' \<or> (row_facts r' = row_facts r \<and> deleted r' = deleted r))"
proof (rule bexI [of _ "scanned_row fs now r"])
  show "scanned_row fs now r \<in> set (sync_files db')"
    using apply_scan_rows(1) [OF assms(1,2)] assms(3) by (simp add: scanned_rows_def)
  show "file_id (scanned_row fs now r) = file_id r \<and> normalized_path (scanned_row fs now r) = normalized_path r \<and>
    last_synced_commit_id (scanned_row fs now r) = last_synced_commit_id r \<and>
    (dirty r \<longrightarrow> dirty (scanned_row fs now r)) \<and>
    (dirty (scanned_row fs now r) \<or>
      (row_facts (scanned_row fs now r) = row_facts r \<and> deleted (scanned_row fs now r) = deleted r))"
    by (cases "input_for fs r")
      (simp_all add: scanned_row_def scan_update_def scan_delete_def scan_dirty_def row_facts_def)
qed

text \<open>
  C10. A scan is recorded exactly and loses no pending change. A scan that succeeds had no path twice; afterwards the
  live rows of the file table are exactly the scanned files, with their paths, kinds, hashes and sizes. Every row there was
  is still there with its identifier, path and last synced commit; a dirty row is still dirty, and a row that is not
  dirty describes the same file as before. No other table changes.
\<close>

theorem apply_scan_exact:
  assumes "files_wf (sync_files db)" "apply_scan hash fs now db = (Ok res, db')"
  shows "distinct (map fi_normalized_path fs) \<and>
    row_facts ` {r \<in> set (sync_files db'). \<not> deleted r} = input_facts ` set fs \<and>
    (\<forall>r \<in> set (sync_files db). \<exists>r' \<in> set (sync_files db').
       file_id r' = file_id r \<and> normalized_path r' = normalized_path r \<and>
       last_synced_commit_id r' = last_synced_commit_id r \<and> (dirty r \<longrightarrow> dirty r') \<and>
       (dirty r' \<or> (row_facts r' = row_facts r \<and> deleted r' = deleted r))) \<and>
    db'\<lparr>sync_files := sync_files db\<rparr> = db"
  using apply_scan_rows [OF assms] live_scanned_rows [of fs hash now "sync_files db"] apply_scan_dirty_monotone [OF assms]
  by (intro conjI ballI) simp_all

lemma vanished_scanned_rows:
  assumes "r \<in> set (scanned_rows hash fs now rows)"
  shows "\<not> vanished (map fi_normalized_path fs) r"
proof -
  show ?thesis
    using assms
  proof (cases rule: scanned_rows_cases)
    case (old q)
    then show ?thesis
      using input_for_None [of fs q] by (auto simp: vanished_def scanned_row_def scan_delete_def split: option.splits if_splits)
  next
    case (new f)
    then show ?thesis by (simp add: vanished_def)
  qed
qed

text \<open>
  A deletion is reported by one scan only: scanning the same files again reports none, although
  the rows of the deleted files are still dirty. A caller that drops the report of the first scan
  never sees the deletions again.
\<close>

theorem apply_scan_reports_deletions_once:
  assumes "files_wf (sync_files db)" "apply_scan hash fs now db = (Ok res, db1)"
    and "apply_scan hash fs now' db1 = (Ok res', db2)"
  shows "deletions res' = [] \<and>
    (\<forall>r \<in> set (sync_files db1). deleted r \<longrightarrow> file_id r \<in> set (map file_id (deletions res)) \<longrightarrow> dirty r)"
proof
  have wf: "files_wf (sync_files db1)" by (rule apply_scan_files_wf [OF assms(1,2)])
  have db1: "sync_files db1 = scanned_rows hash fs now (sync_files db)"
    using apply_scan_rows(1) [OF assms(1,2)] by simp
  have "filter (vanished (map fi_normalized_path fs)) (list_files db1) = []"
    by (auto simp: filter_empty_conv list_files_simps db1 dest: vanished_scanned_rows)
  then show "deletions res' = []"
    using apply_scan_rows(3) [OF wf assms(3)] by simp
  show "\<forall>r \<in> set (sync_files db1). deleted r \<longrightarrow> file_id r \<in> set (map file_id (deletions res)) \<longrightarrow> dirty r"
  proof (intro ballI impI)
    fix r assume r: "r \<in> set (sync_files db1)" "deleted r" "file_id r \<in> set (map file_id (deletions res))"
    then obtain q where q: "q \<in> set (sync_files db)" "file_id q = file_id r" "vanished (map fi_normalized_path fs) q"
      unfolding apply_scan_rows(3) [OF assms(1,2)] by (auto simp: list_files_simps)
    have "scanned_row fs now q \<in> set (sync_files db1)" using q(1) by (simp add: db1 scanned_rows_def)
    then have "r = scanned_row fs now q"
      using r(1) q(2) wf by (metis files_wf_def distinct_map inj_onD scan_row_keys(8))
    with r(2) show "dirty r"
      using q(3) input_for_None [of fs q]
      by (auto simp: scanned_row_def scan_delete_def scan_update_def vanished_def split: option.splits)
  qed
qed

section \<open>When a scan succeeds\<close>

text \<open>Identifiers in the table are the ones derived from the paths, which only scans insert.\<close>

definition ids_derived :: "(bytes \<Rightarrow> string) \<Rightarrow> sync_file_record list \<Rightarrow> bool" where
  "ids_derived hash rows \<longleftrightarrow> (\<forall>r \<in> set rows. file_id r = file_id_for_normalized_path hash (normalized_path r))"

definition no_collision :: "(bytes \<Rightarrow> string) \<Rightarrow> string set \<Rightarrow> bool" where
  "no_collision hash paths \<longleftrightarrow> inj_on (file_id_for_normalized_path hash) paths"

lemma upsert_scanned_derived:
  assumes "ids_derived hash rows" "no_collision hash (insert (fi_normalized_path f) (normalized_path ` set rows))"
    and "i = (case find_row normalized_path (fi_normalized_path f) rows of Some row \<Rightarrow> file_id row
         | None \<Rightarrow> file_id_for_normalized_path hash (fi_normalized_path f))"
  shows "\<exists>rows'. upsert_scanned i f b rows = Ok rows' \<and> ids_derived hash rows' \<and>
    normalized_path ` set rows' = insert (fi_normalized_path f) (normalized_path ` set rows)"
proof (cases "fi_normalized_path f \<in> normalized_path ` set rows")
  case True
  let ?upd = "\<lambda>r. r\<lparr>fr_path := fi_path f, fr_kind := fi_kind f, fr_plaintext_hash := fi_plaintext_hash f,
               fr_size_bytes := fi_size_bytes f, fr_mtime_ms := fi_mtime_ms f,
               dirty := dirty r \<or> b, deleted := False\<rparr>"
  have "map normalized_path (update_rows (\<lambda>r. normalized_path r = fi_normalized_path f) ?upd rows) = map normalized_path rows"
    by (rule map_update_rows) simp
  then have "normalized_path ` set (update_rows (\<lambda>r. normalized_path r = fi_normalized_path f) ?upd rows) = normalized_path ` set rows"
    by (metis list.set_map)
  moreover have "ids_derived hash (update_rows (\<lambda>r. normalized_path r = fi_normalized_path f) ?upd rows)"
    using assms(1) by (auto simp: ids_derived_def update_rows_def)
  ultimately show ?thesis
    using True by (auto simp: upsert_scanned_def)
next
  case False
  then have i: "i = file_id_for_normalized_path hash (fi_normalized_path f)"
    using find_row_None [of normalized_path "fi_normalized_path f" rows] by (simp add: assms(3))
  have "i \<notin> file_id ` set rows"
  proof
    assume "i \<in> file_id ` set rows"
    then obtain r where r: "r \<in> set rows" "file_id r = i" by blast
    with assms(1) i have "file_id_for_normalized_path hash (normalized_path r)
        = file_id_for_normalized_path hash (fi_normalized_path f)"
      by (simp add: ids_derived_def)
    from inj_onD [OF assms(2) [unfolded no_collision_def] this] r(1)
    have "normalized_path r = fi_normalized_path f" by simp
    with False r(1) show False by (metis image_eqI)
  qed
  with False i assms(1) show ?thesis
    by (auto simp: upsert_scanned_def ids_derived_def)
qed

lemma scan_upserts_total:
  assumes "\<forall>f \<in> set fs. validate_file_input f = Ok ()" "distinct (map fi_normalized_path fs)"
    and "fi_normalized_path ` set fs \<inter> set seen = {}"
    and "ids_derived hash rows" "no_collision hash (fi_normalized_path ` set fs \<union> normalized_path ` set rows)"
    and "\<forall>f \<in> set fs. find_row normalized_path (fi_normalized_path f) ex \<noteq> None
          \<longrightarrow> (\<exists>e. find_row normalized_path (fi_normalized_path f) ex = Some e \<and> ids_derived hash [e])"
  shows "\<exists>res. scan_upserts hash ex fs seen rows = Ok res"
  using assms
proof (induction fs arbitrary: seen rows)
  case Nil
  then show ?case by simp
next
  case (Cons f fs)
  let ?q = "find_row normalized_path (fi_normalized_path f) ex"
  let ?i = "case ?q of Some row \<Rightarrow> file_id row | None \<Rightarrow> file_id_for_normalized_path hash (fi_normalized_path f)"
  have i: "?i = (case find_row normalized_path (fi_normalized_path f) rows of Some row \<Rightarrow> file_id row
         | None \<Rightarrow> file_id_for_normalized_path hash (fi_normalized_path f))"
  proof -
    have "?i = file_id_for_normalized_path hash (fi_normalized_path f)"
      using Cons.prems(6) by (cases ?q) (auto simp: ids_derived_def dest: find_row_Some)
    moreover have "(case find_row normalized_path (fi_normalized_path f) rows of Some row \<Rightarrow> file_id row
         | None \<Rightarrow> file_id_for_normalized_path hash (fi_normalized_path f))
      = file_id_for_normalized_path hash (fi_normalized_path f)"
      using Cons.prems(4) find_row_Some [of normalized_path "fi_normalized_path f" rows]
      by (auto simp: ids_derived_def split: option.splits)
    ultimately show ?thesis by simp
  qed
  have "no_collision hash (insert (fi_normalized_path f) (normalized_path ` set rows))"
    using Cons.prems(5) by (auto simp: no_collision_def elim: inj_on_subset)
  from upsert_scanned_derived [OF Cons.prems(4) this i, of "scan_dirty ?q f"]
  obtain rows1 where rows1: "upsert_scanned ?i f (scan_dirty ?q f) rows = Ok rows1" "ids_derived hash rows1"
    "normalized_path ` set rows1 = insert (fi_normalized_path f) (normalized_path ` set rows)"
    by blast
  then obtain row where row: "find_row normalized_path (fi_normalized_path f) rows1 = Some row"
    using find_row_None [of normalized_path "fi_normalized_path f" rows1] by blast
  have "no_collision hash (fi_normalized_path ` set fs \<union> normalized_path ` set rows1)"
    using Cons.prems(5) by (simp add: rows1(3))
  then obtain res where "scan_upserts hash ex fs (seen @ [fi_normalized_path f]) rows1 = Ok res"
    using Cons.IH [of "seen @ [fi_normalized_path f]" rows1] Cons.prems rows1(2) by (auto simp: disjoint_iff)
  with rows1(1) row Cons.prems(1,3) show ?case
    by (cases res) (auto simp: get_file_by_normalized_def Let_def)
qed

lemma scan_deletions_total:
  "file_id ` set ex \<subseteq> file_id ` set rows \<Longrightarrow> \<exists>res. scan_deletions seen now ex rows = Ok res"
proof (induction ex arbitrary: rows)
  case (Cons e ex)
  show ?case
  proof (cases "deleted e \<or> normalized_path e \<in> set seen")
    case True
    with Cons show ?thesis by auto
  next
    case False
    let ?rows1 = "update_rows (\<lambda>r. file_id r = file_id e)
      (\<lambda>r. r\<lparr>deleted := True, dirty := True, fr_mtime_ms := Some now\<rparr>) rows"
    have "map file_id ?rows1 = map file_id rows" by (rule map_update_rows) simp
    then have ids: "file_id ` set ?rows1 = file_id ` set rows" by (metis list.set_map)
    with Cons.prems obtain res where "scan_deletions seen now ex ?rows1 = Ok res"
      using Cons.IH [of ?rows1] by auto
    moreover obtain gone where "find_row file_id (file_id e) ?rows1 = Some gone"
      using Cons.prems ids find_row_None [of file_id "file_id e" ?rows1] by fastforce
    ultimately show ?thesis
      using False by (cases res) (simp add: get_file_by_id_def Let_def)
  qed
qed simp

lemma apply_scan_total:
  assumes "\<forall>f \<in> set fs. validate_file_input f = Ok ()" "distinct (map fi_normalized_path fs)"
    and "files_wf (sync_files db)" "ids_derived hash (sync_files db)"
    and "no_collision hash (fi_normalized_path ` set fs \<union> normalized_path ` set (sync_files db))"
  shows "\<exists>res db'. apply_scan hash fs now db = (Ok res, db') \<and> ids_derived hash (sync_files db')"
proof -
  have "\<exists>res. scan_upserts hash (list_files db) fs [] (sync_files db) = Ok res"
  proof (rule scan_upserts_total [OF assms(1,2) _ assms(4,5)])
    show "\<forall>f \<in> set fs. find_row normalized_path (fi_normalized_path f) (list_files db) \<noteq> None
          \<longrightarrow> (\<exists>e. find_row normalized_path (fi_normalized_path f) (list_files db) = Some e \<and> ids_derived hash [e])"
    proof (intro ballI impI)
      fix f assume "find_row normalized_path (fi_normalized_path f) (list_files db) \<noteq> None"
      then obtain e where e: "find_row normalized_path (fi_normalized_path f) (list_files db) = Some e" by blast
      with assms(4) have "ids_derived hash [e]"
        using find_row_Some [OF e] by (simp add: ids_derived_def list_files_simps)
      with e show "\<exists>e. find_row normalized_path (fi_normalized_path f) (list_files db) = Some e \<and> ids_derived hash [e]"
        by blast
    qed
  qed simp
  then obtain seen rows1 ups where up: "scan_upserts hash (list_files db) fs [] (sync_files db) = Ok (seen, rows1, ups)"
    by (metis prod_cases3)
  have rows1: "rows1 = map (upserted_row fs) (sync_files db) @ map (scan_insert hash) (new_inputs (sync_files db) fs)"
    by (rule scan_upserts_rows [OF up]) (use assms(3) list_files_simps in \<open>simp_all add: files_wf_def\<close>)
  have "file_id ` set (list_files db) \<subseteq> file_id ` set rows1"
    by (auto simp: rows1 list_files_simps image_image image_Un)
  then obtain rows2 dels where "scan_deletions seen now (list_files db) rows1 = Ok (rows2, dels)"
    using scan_deletions_total [of "list_files db" rows1 seen now] by (metis surj_pair)
  with up have ok: "apply_scan hash fs now db = (Ok \<lparr>upserts = ups, deletions = dels\<rparr>, db\<lparr>sync_files := rows2\<rparr>)"
    by (simp add: apply_scan_def)
  moreover have "ids_derived hash (scanned_rows hash fs now (sync_files db))"
    unfolding ids_derived_def
  proof
    fix r assume "r \<in> set (scanned_rows hash fs now (sync_files db))"
    then show "file_id r = file_id_for_normalized_path hash (normalized_path r)"
      by (cases rule: scanned_rows_cases) (use assms(4) in \<open>simp_all add: ids_derived_def scan_insert_def\<close>)
  qed
  ultimately show ?thesis
    using apply_scan_rows(1) [OF assms(3) ok] by auto
qed

text \<open>
  A scan of valid files with distinct normalised paths succeeds, provided the truncated path hashes
  of the files involved do not collide.
\<close>

theorem apply_scan_succeeds:
  assumes "\<forall>f \<in> set fs. validate_file_input f = Ok ()" "distinct (map fi_normalized_path fs)"
    and "files_wf (sync_files db)" "ids_derived hash (sync_files db)"
    and "no_collision hash (fi_normalized_path ` set fs \<union> normalized_path ` set (sync_files db))"
  shows "\<exists>res db'. apply_scan hash fs now db = (Ok res, db') \<and> ids_derived hash (sync_files db')"
  using assms by (rule apply_scan_total)

text \<open>A scan that finds one file and a later one that finds none, for the witnesses.\<close>

definition sample_input :: sync_file_input where
  "sample_input = \<lparr>fi_path = ''A.md'', fi_normalized_path = ''a.md'', fi_kind = ''markdown'',
     fi_plaintext_hash = Some ''h'', fi_size_bytes = Some 3, fi_mtime_ms = Some 1\<rparr>"

lemma sample_input_valid: "validate_file_input sample_input = Ok ()"
  by (simp add: validate_file_input_def sample_input_def not_blank_graphic is_ascii_graphic_def)

definition sample_row :: sync_file_record where
  "sample_row = scan_insert id sample_input"

definition sample_db :: sync_db where
  "sample_db = empty_db\<lparr>sync_files := [sample_row]\<rparr>"

lemma sample_scan:
  "files_wf (sync_files empty_db)" "ids_derived id (sync_files empty_db)"
  "no_collision id (fi_normalized_path ` set [sample_input] \<union> normalized_path ` set (sync_files empty_db))"
  "\<exists>res. apply_scan id [sample_input] 5 empty_db = (Ok res, sample_db)"
proof -
  show wf: "files_wf (sync_files empty_db)" and "ids_derived id (sync_files empty_db)"
    and "no_collision id (fi_normalized_path ` set [sample_input] \<union> normalized_path ` set (sync_files empty_db))"
    by (simp_all add: empty_db_def files_wf_def ids_derived_def no_collision_def)
  then obtain res db where db: "apply_scan id [sample_input] 5 empty_db = (Ok res, db)"
    using apply_scan_total [of "[sample_input]" empty_db id 5] sample_input_valid by auto
  with apply_scan_rows(1) [OF wf db] show "\<exists>res. apply_scan id [sample_input] 5 empty_db = (Ok res, sample_db)"
    by (simp add: sample_db_def sample_row_def scanned_rows_def new_inputs_def empty_db_def)
qed

lemma sample_rescan:
  "files_wf (sync_files sample_db)"
  "\<exists>res db1 res' db2. apply_scan id [] 6 sample_db = (Ok res, db1) \<and> apply_scan id [] 7 db1 = (Ok res', db2)"
proof -
  show wf: "files_wf (sync_files sample_db)" by (simp add: sample_db_def files_wf_def)
  have "ids_derived id (sync_files sample_db)"
    by (simp add: sample_db_def sample_row_def ids_derived_def scan_insert_def)
  moreover have "no_collision id (fi_normalized_path ` set [] \<union> normalized_path ` set (sync_files sample_db))"
    by (simp add: sample_db_def no_collision_def)
  ultimately obtain res db1 where one: "apply_scan id [] 6 sample_db = (Ok res, db1)"
      and derived: "ids_derived id (sync_files db1)"
    using apply_scan_total [of "[]" sample_db id 6] wf by auto
  have "map normalized_path (sync_files db1) = [''a.md'']"
    using apply_scan_rows(1) [OF wf one]
    by (simp add: scanned_rows_keys new_inputs_def sample_db_def sample_row_def sample_input_def)
  then have "normalized_path ` set (sync_files db1) = {''a.md''}" by (metis list.set(1) list.simps(15) list.set_map)
  then have "no_collision id (fi_normalized_path ` set [] \<union> normalized_path ` set (sync_files db1))"
    by (simp add: no_collision_def)
  with apply_scan_files_wf [OF wf one] derived obtain res' db2 where "apply_scan id [] 7 db1 = (Ok res', db2)"
    using apply_scan_total [of "[]" db1 id 7] by auto
  with one show "\<exists>res db1 res' db2. apply_scan id [] 6 sample_db = (Ok res, db1) \<and> apply_scan id [] 7 db1 = (Ok res', db2)"
    by blast
qed

theorem apply_scan_exact_witness:
  "row_facts ` {r \<in> set (sync_files sample_db). \<not> deleted r} = {(''a.md'', ''A.md'', ''markdown'', Some ''h'', Some 3)}"
proof -
  obtain res where "apply_scan id [sample_input] 5 empty_db = (Ok res, sample_db)"
    using sample_scan(4) by blast
  from apply_scan_exact [OF sample_scan(1) this, THEN conjunct2, THEN conjunct1] show ?thesis
    by (simp add: input_facts_def) (simp add: sample_input_def)
qed

theorem apply_scan_dirty_monotone_witness:
  "\<exists>res db'. apply_scan id [] 6 sample_db = (Ok res, db') \<and> (\<exists>r' \<in> set (sync_files db'). normalized_path r' = ''a.md'' \<and> dirty r')"
proof -
  obtain res db1 where one: "apply_scan id [] 6 sample_db = (Ok res, db1)"
    using sample_rescan(2) by blast
  have row: "sample_row \<in> set (sync_files sample_db)" "dirty sample_row" "normalized_path sample_row = ''a.md''"
    by (simp_all add: sample_db_def sample_row_def scan_insert_def sample_input_def)
  from apply_scan_dirty_monotone [OF sample_rescan(1) one row(1)] row(2,3) one show ?thesis by auto
qed

theorem apply_scan_reports_deletions_once_witness:
  "\<exists>res db1 res' db2. apply_scan id [] 6 sample_db = (Ok res, db1) \<and> apply_scan id [] 7 db1 = (Ok res', db2) \<and>
     length (deletions res) = 1 \<and> deletions res' = []"
proof -
  obtain res db1 res' db2 where one: "apply_scan id [] 6 sample_db = (Ok res, db1)"
      and two: "apply_scan id [] 7 db1 = (Ok res', db2)"
    using sample_rescan(2) by blast
  have "deletions res' = []"
    using apply_scan_reports_deletions_once [OF sample_rescan(1) one two] by simp
  moreover have "filter (vanished []) (list_files sample_db) = [sample_row]"
    by (simp add: list_files_def sample_db_def vanished_def sample_row_def scan_insert_def)
  then have "map file_id (deletions res) = [file_id sample_row]"
    using apply_scan_rows(3) [OF sample_rescan(1) one] by simp
  then have "length (deletions res) = 1" by (metis length_map length_Cons list.size(3) One_nat_def)
  ultimately show ?thesis using one two by blast
qed

theorem apply_scan_succeeds_witness:
  "\<exists>res db'. apply_scan id [sample_input] 5 empty_db = (Ok res, db') \<and> ids_derived id (sync_files db')"
  by (rule apply_scan_succeeds [OF _ _ sample_scan(1-3)]) (simp_all add: sample_input_valid)

section \<open>What a scan reports\<close>

lemma upsert_scanned_other:
  assumes "upsert_scanned i f d rows = Ok rows'" "p \<noteq> fi_normalized_path f"
  shows "find_row normalized_path p rows' = find_row normalized_path p rows"
proof (cases "fi_normalized_path f \<in> normalized_path ` set rows")
  case True
  then have rows': "rows' = update_rows (\<lambda>r. normalized_path r = fi_normalized_path f)
        (\<lambda>r. r\<lparr>fr_path := fi_path f, fr_kind := fi_kind f, fr_plaintext_hash := fi_plaintext_hash f,
               fr_size_bytes := fi_size_bytes f, fr_mtime_ms := fi_mtime_ms f,
               dirty := dirty r \<or> d, deleted := False\<rparr>) rows"
    using assms(1) by (simp add: upsert_scanned_def)
  show ?thesis unfolding rows' using assms(2) by (induction rows) (auto simp: update_rows_def)
next
  case False
  with assms show ?thesis
    by (auto simp: upsert_scanned_def find_row_append split: if_splits option.splits)
qed

lemma scan_upserts_keeps:
  "scan_upserts hash ex fs seen rows = Ok (seen', rows', ups) \<Longrightarrow> p \<in> set seen \<Longrightarrow>
   find_row normalized_path p rows' = find_row normalized_path p rows"
proof (induction fs arbitrary: seen rows ups)
  case (Cons f fs)
  from Cons.prems(1) obtain i d rows1 ups1 where *: "fi_normalized_path f \<notin> set seen"
      "upsert_scanned i f d rows = Ok rows1"
      "scan_upserts hash ex fs (seen @ [fi_normalized_path f]) rows1 = Ok (seen', rows', ups1)"
    by (auto simp: result_simps Let_def split: if_splits)
  have "p \<noteq> fi_normalized_path f" using *(1) Cons.prems(2) by auto
  then show ?case
    using Cons.IH [OF *(3)] Cons.prems(2) upsert_scanned_other [OF *(2)] by simp
qed simp

lemma scan_upserts_result:
  "scan_upserts hash ex fs seen rows = Ok (seen', rows', ups) \<Longrightarrow>
   list_all2 (\<lambda>f r. find_row normalized_path (fi_normalized_path f) rows' = Some r) fs ups"
proof (induction fs arbitrary: seen rows ups)
  case (Cons f fs)
  from Cons.prems(1) obtain rows1 row ups1 where *: 
      "find_row normalized_path (fi_normalized_path f) rows1 = Some row"
      "scan_upserts hash ex fs (seen @ [fi_normalized_path f]) rows1 = Ok (seen', rows', ups1)" "ups = row # ups1"
    by (auto simp: result_simps Let_def get_file_by_normalized_def split: if_splits)
  then show ?case
    using Cons.IH [OF *(2)] scan_upserts_keeps [OF *(2), of "fi_normalized_path f"] by simp
qed simp

text \<open>The reported upserts are the live rows of the table, one per scanned file.\<close>

lemma apply_scan_upserts:
  assumes "files_wf (sync_files db)" "apply_scan hash fs now db = (Ok res, db')"
  shows "map normalized_path (upserts res) = map fi_normalized_path fs"
    and "set (upserts res) = {r \<in> set (sync_files db'). \<not> deleted r}"
proof -
  let ?rows = "sync_files db"
  from assms(2) obtain seen rows1 ups where
    up: "scan_upserts hash (list_files db) fs [] ?rows = Ok (seen, rows1, ups)" and res: "upserts res = ups"
    by (auto simp: apply_scan_def and_then_eq_Ok Let_def split: result.splits prod.splits)
  have rows1: "rows1 = map (upserted_row fs) ?rows @ map (scan_insert hash) (new_inputs ?rows fs)"
    by (rule scan_upserts_rows [OF up]) (use assms(1) list_files_simps in \<open>simp_all add: files_wf_def\<close>)
  note scan = apply_scan_rows [OF assms]
  note found = scan_upserts_result [OF up]
  show paths: "map normalized_path (upserts res) = map fi_normalized_path fs"
    using found unfolding res by (auto simp: list_all2_conv_all_nth intro!: nth_equalityI dest!: find_row_Some)
  have "r \<in> set (sync_files db') \<and> \<not> deleted r" if "r \<in> set ups" for r
  proof -
    from that found obtain f where f: "f \<in> set fs" "find_row normalized_path (fi_normalized_path f) rows1 = Some r"
      unfolding list_all2_conv_all_nth by (metis in_set_conv_nth nth_mem)
    then have r: "r \<in> set rows1" "normalized_path r = fi_normalized_path f"
      by (auto dest: find_row_Some)
    consider q where "q \<in> set ?rows" "r = upserted_row fs q" | g where "g \<in> set (new_inputs ?rows fs)" "r = scan_insert hash g"
      using r(1) by (auto simp: rows1)
    then show ?thesis
    proof cases
      case 1
      with r(2) f(1) obtain g where "input_for fs q = Some g"
        using input_for_None [of fs q] by (cases "input_for fs q") auto
      with 1 show ?thesis
        by (auto simp: scan(1) scanned_rows_def upserted_row_def scanned_row_def row_facts_scan intro!: image_eqI [of _ _ q])
    next
      case 2
      then show ?thesis by (auto simp: scan(1) scanned_rows_def row_facts_scan)
    qed
  qed
  moreover have "r \<in> set ups" if r: "r \<in> set (sync_files db')" "\<not> deleted r" for r
  proof -
    have "row_facts r \<in> input_facts ` set fs"
      using live_scanned_rows [OF scan(2), of hash now ?rows] r by (auto simp: scan(1))
    then have "normalized_path r \<in> normalized_path ` set ups"
      using arg_cong [OF paths, of set] by (auto simp: res row_facts_def input_facts_def)
    then obtain u where u: "u \<in> set ups" "normalized_path u = normalized_path r" by auto
    with calculation have "u \<in> set (sync_files db')" by blast
    moreover have "distinct (map normalized_path (sync_files db'))"
      using apply_scan_files_wf [OF assms] by (simp add: files_wf_def)
    ultimately have "u = r" using u(2) r(1) by (auto simp: distinct_map inj_on_def)
    with u(1) show ?thesis by simp
  qed
  ultimately show "set (upserts res) = {r \<in> set (sync_files db'). \<not> deleted r}"
    unfolding res by blast
qed

lemma scanned_rows_derived:
  "ids_derived hash rows \<Longrightarrow> ids_derived hash (scanned_rows hash fs now rows)"
  by (auto simp: ids_derived_def scanned_rows_def scan_insert_def)


section \<open>The tree cache\<close>

definition tree_row :: "string \<Rightarrow> sync_tree_entry_record \<Rightarrow> tree_entry_row" where
  "tree_row commit_id e =
     \<lparr>tw_commit_id = commit_id, tw_content_commit_id = Some (tr_commit_id e),
      tw_file_id = tr_file_id e, tw_normalized_path = tr_normalized_path e,
      tw_plaintext_hash = tr_plaintext_hash e, tw_content_object_id = tr_content_object_id e,
      tw_pack_entry_id = tr_pack_entry_id e, tw_kind = tr_kind e\<rparr>"

lemma tree_row_simps [simp]:
  "tw_commit_id (tree_row c e) = c" "tw_file_id (tree_row c e) = tr_file_id e"
  "tw_normalized_path (tree_row c e) = tr_normalized_path e" "tw_kind (tree_row c e) = tr_kind e"
  "tw_plaintext_hash (tree_row c e) = tr_plaintext_hash e"
  by (simp_all add: tree_row_def)

lemma insert_tree_entries_Ok:
  "insert_tree_entries c es rows = Ok rows' \<longleftrightarrow>
     rows' = rows @ map (tree_row c) es \<and> distinct (map tr_file_id es) \<and>
     (\<forall>e \<in> set es. \<forall>r \<in> set rows. tw_commit_id r = c \<longrightarrow> tw_file_id r \<noteq> tr_file_id e)"
proof (induction es arbitrary: rows)
  case Nil
  show ?case by auto
next
  case (Cons e es)
  show ?case
    by (auto simp: Cons.IH tree_row_def [symmetric])
qed

lemma persist_tree_cache_Ok:
  "persist_tree_cache c t j src es now db = (Ok (), db') \<Longrightarrow>
   distinct (map tr_file_id es) \<and>
   sync_tree_entries db' = filter (\<lambda>r. tw_commit_id r \<noteq> c) (sync_tree_entries db) @ map (tree_row c) es \<and>
   sync_files db' = sync_files db"
  by (auto simp: persist_tree_cache_def Let_def insert_tree_entries_Ok split: result.splits)

lemma tree_entry_of_tree_row [simp]: "tree_entry_of_row (tree_row c e) = e"
  by (simp add: tree_row_def tree_entry_of_row_def)

lemma sort_key_map: "sort_key f (map g xs) = map g (sort_key (f \<circ> g) xs)"
proof -
  have "insort_key f (g x) (map g ys) = map g (insort_key (f \<circ> g) x ys)" for x ys
    by (induction ys) auto
  then show ?thesis by (induction xs) (auto simp: sort_key_def)
qed

text \<open>
  The tree cached for a commit is read back as it was stored, ordered by path, and caching a
  tree leaves the trees of all other commits as they were.
\<close>

theorem tree_cache_round_trip:
  assumes "persist_tree_cache c tree_id json src entries now db = (Ok (), db')"
  shows "list_tree_entries db' c = sort_key tr_normalized_path entries \<and>
    (c' \<noteq> c \<longrightarrow> list_tree_entries db' c' = list_tree_entries db c')"
proof
  note rows = persist_tree_cache_Ok [OF assms]
  have "filter (\<lambda>r. tw_commit_id r = c) (sync_tree_entries db') = map (tree_row c) entries"
    using rows by (simp add: comp_def filter_map filter_empty_conv)
  moreover have "tw_normalized_path \<circ> tree_row c = tr_normalized_path"
    by (simp add: fun_eq_iff)
  ultimately show "list_tree_entries db' c = sort_key tr_normalized_path entries"
    by (simp add: list_tree_entries_def sort_key_map comp_def)
  have "filter (\<lambda>r. tw_commit_id r = c') (sync_tree_entries db') = filter (\<lambda>r. tw_commit_id r = c') (sync_tree_entries db)"
    if "c' \<noteq> c"
    using rows that by (auto simp: filter_empty_conv intro!: filter_cong)
  then show "c' \<noteq> c \<longrightarrow> list_tree_entries db' c' = list_tree_entries db c'"
    by (simp add: list_tree_entries_def)
qed

definition sample_entry :: sync_tree_entry_record where
  "sample_entry = \<lparr>tr_commit_id = ''c'', tr_file_id = file_id sample_row, tr_normalized_path = ''a.md'',
     tr_plaintext_hash = Some ''h'', tr_content_object_id = None, tr_pack_entry_id = None, tr_kind = ''markdown''\<rparr>"

lemma sample_tree:
  "\<exists>db1. persist_tree_cache ''c'' ''t'' ''{}'' ''local'' [sample_entry] 9 sample_db = (Ok (), db1) \<and> sync_files db1 = [sample_row]"
  by (simp add: persist_tree_cache_def sample_db_def empty_db_def)

theorem tree_cache_round_trip_witness:
  "\<exists>db1. persist_tree_cache ''c'' ''t'' ''{}'' ''local'' [sample_entry] 9 sample_db = (Ok (), db1) \<and>
     list_tree_entries db1 ''c'' = [sample_entry] \<and> list_tree_entries db1 ''d'' = list_tree_entries sample_db ''d''"
proof -
  obtain db1 where db1: "persist_tree_cache ''c'' ''t'' ''{}'' ''local'' [sample_entry] 9 sample_db = (Ok (), db1)"
    using sample_tree by blast
  from tree_cache_round_trip [OF this, of "''d''"] db1 show ?thesis by auto
qed

text \<open>
  After the head's tree is cached, clearing stale flags leaves a file dirty exactly when it was dirty
  and still differs from the head: a live file with no entry of the same identifier, path, kind and
  hash, or a deleted file the head still has.
\<close>

theorem clear_dirty_files_exact:
  assumes "persist_tree_cache c tree_id json src entries now db = (Ok (), db1)"
    and "clear_dirty_files_matching_head c db1 = (n, db2)"
  shows "{r \<in> set (sync_files db2). dirty r} = {r \<in> set (sync_files db). dirty r \<and>
    (if deleted r then \<exists>e \<in> set entries. tr_file_id e = file_id r
     else \<not> (\<exists>e \<in> set entries. tr_file_id e = file_id r \<and> tr_normalized_path e = normalized_path r \<and>
            tr_kind e = fr_kind r \<and> coalesce_empty (tr_plaintext_hash e) = coalesce_empty (fr_plaintext_hash r)))}"
proof -
  note rows = persist_tree_cache_Ok [OF assms(1)]
  have m: "file_matches_head (sync_tree_entries db1) c r \<longleftrightarrow>
    (if deleted r then \<not> (\<exists>e \<in> set entries. tr_file_id e = file_id r)
     else \<exists>e \<in> set entries. tr_file_id e = file_id r \<and> tr_normalized_path e = normalized_path r \<and>
            tr_kind e = fr_kind r \<and> coalesce_empty (tr_plaintext_hash e) = coalesce_empty (fr_plaintext_hash r))" for r
    using rows by (auto simp: file_matches_head_def bex_Un)
  have "sync_files db2 = map (\<lambda>r. if dirty r \<and> file_matches_head (sync_tree_entries db1) c r
      then r\<lparr>dirty := False, last_synced_commit_id := Some c\<rparr> else r) (sync_files db)"
    using assms(2) rows by (auto simp: clear_dirty_files_matching_head_def Let_def update_rows_def)
  then have "{r \<in> set (sync_files db2). dirty r}
      = {r \<in> set (sync_files db). dirty r \<and> \<not> file_matches_head (sync_tree_entries db1) c r}"
    by auto
  then show ?thesis by (auto simp: m)
qed

theorem clear_dirty_files_exact_witness:
  "\<exists>db1 n db2. persist_tree_cache ''c'' ''t'' ''{}'' ''local'' [sample_entry] 9 sample_db = (Ok (), db1) \<and>
     clear_dirty_files_matching_head ''c'' db1 = (n, db2) \<and> {r \<in> set (sync_files db2). dirty r} = {}"
proof -
  obtain db1 where db1: "persist_tree_cache ''c'' ''t'' ''{}'' ''local'' [sample_entry] 9 sample_db = (Ok (), db1)"
    using sample_tree by blast
  obtain n db2 where db2: "clear_dirty_files_matching_head ''c'' db1 = (n, db2)" by fastforce
  have "normalized_path sample_row = ''a.md''" "fr_kind sample_row = ''markdown''"
    "fr_plaintext_hash sample_row = Some ''h''" "\<not> deleted sample_row"
    by (simp_all add: sample_row_def scan_insert_def sample_input_def)
  then have "{r \<in> set (sync_files db2). dirty r} = {}"
    using clear_dirty_files_exact [OF db1 db2] by (auto simp: sample_db_def sample_entry_def)
  with db1 db2 show ?thesis by blast
qed

section \<open>Keys stay unique\<close>

definition db_wf :: "sync_db \<Rightarrow> bool" where
  "db_wf db \<longleftrightarrow> distinct (map fst (sync_metadata db)) \<and> distinct (map vr_vault_id (sync_vaults db)) \<and>
     files_wf (sync_files db) \<and> distinct (map cr_commit_id (sync_commits db)) \<and>
     distinct (map ct_commit_id (sync_commit_trees db)) \<and>
     distinct (map (\<lambda>r. (tw_commit_id r, tw_file_id r)) (sync_tree_entries db)) \<and>
     distinct (map cf_conflict_id (sync_conflicts db))"

inductive db_step :: "(bytes \<Rightarrow> string) \<Rightarrow> sync_db \<Rightarrow> sync_db \<Rightarrow> bool" for hash :: "bytes \<Rightarrow> string" where
  init: "db_step hash db (init_schema db)"
| vault: "db_step hash db (upsert_vault v db)"
| forget: "db_step hash db (delete_vault i db)"
| publish: "db_step hash db (update_vault_after_publish i c n t db)"
| pull: "db_step hash db (update_vault_after_pull i c t db)"
| scan: "db_step hash db (snd (apply_scan hash fs t db))"
| unsynced: "db_step hash db (mark_unsynced_file_deleted_clean p t db)"
| synced: "db_step hash db (mark_files_synced c is db)"
| clear_dirty: "db_step hash db (snd (clear_dirty_files_matching_head c db))"
| tree: "db_step hash db (snd (persist_tree_cache c tid j src es t db))"
| commit: "db_step hash db (upsert_local_commit cm db)"
| conflict: "db_step hash db (upsert_conflict cf db)"
| resolve: "db_step hash db (mark_conflict_resolved i db)"

lemma files_wf_update:
  "(\<And>r. file_id (f r) = file_id r \<and> normalized_path (f r) = normalized_path r) \<Longrightarrow>
   files_wf (update_rows c f rows) = files_wf rows"
  by (simp add: files_wf_def map_update_rows)

lemma mark_files_synced_wf: "db_wf db \<Longrightarrow> db_wf (mark_files_synced c is db)"
  unfolding mark_files_synced_def
  by (induction "is" arbitrary: db) (auto simp: db_wf_def files_wf_update)

lemma persist_tree_cache_wf: "db_wf db \<Longrightarrow> db_wf (snd (persist_tree_cache c tid j src es t db))"
proof -
  assume wf: "db_wf db"
  show ?thesis
  proof (cases "insert_tree_entries c es (filter (\<lambda>r. tw_commit_id r \<noteq> c) (sync_tree_entries db))")
    case (Err e)
    with wf show ?thesis by (simp add: persist_tree_cache_def)
  next
    case (Ok rows)
    then have "distinct (map (\<lambda>r. (tw_commit_id r, tw_file_id r)) rows)"
      using wf by (auto simp: insert_tree_entries_Ok db_wf_def comp_def distinct_map_filter distinct_map inj_on_def)
    with Ok wf show ?thesis
      by (simp add: persist_tree_cache_def db_wf_def tree_table.distinct_upsert)
  qed
qed

lemma db_wf_empty: "db_wf empty_db"
  by (simp add: db_wf_def empty_db_def files_wf_def)

lemma init_schema_wf: "db_wf db \<Longrightarrow> db_wf (init_schema db)"
  by (auto simp: init_schema_def ensure_tree_entry_content_commit_id_column_def reset_schema_def
      persist_schema_version_def metadata_table.distinct_upsert db_wf_def empty_db_def files_wf_def
      Let_def split: option.splits)

lemma db_step_wf: "db_step hash db db' \<Longrightarrow> db_wf db \<Longrightarrow> db_wf db'"
proof (induction rule: db_step.induct)
  case (scan db fs t)
  have "files_wf (sync_files (snd (apply_scan hash fs t db)))"
    using apply_scan_files_wf [of db hash fs t "fst (apply_scan hash fs t db)" "snd (apply_scan hash fs t db)"]
      scan by (simp add: db_wf_def)
  moreover have "\<exists>rows. snd (apply_scan hash fs t db) = db\<lparr>sync_files := rows\<rparr>"
    by (auto simp: apply_scan_def Let_def split: result.splits prod.splits intro: exI [of _ "sync_files db"])
  ultimately show ?case using scan by (auto simp: db_wf_def)
next
  case (init db)
  then show ?case by (rule init_schema_wf)
next
  case (synced db c "is")
  then show ?case by (rule mark_files_synced_wf)
next
  case (tree db c tid j src es t)
  then show ?case by (rule persist_tree_cache_wf)
qed (auto simp: db_wf_def upsert_vault_def delete_vault_def update_vault_after_publish_def
      update_vault_after_pull_def mark_unsynced_file_deleted_clean_def
      clear_dirty_files_matching_head_def upsert_local_commit_def upsert_conflict_def
      mark_conflict_resolved_def files_wf_update map_update_rows distinct_map_filter Let_def
      vault_table.distinct_upsert commit_table.distinct_upsert conflict_table.distinct_upsert)

lemma db_steps_wf: "(db_step hash)\<^sup>*\<^sup>* db db' \<Longrightarrow> db_wf db \<Longrightarrow> db_wf db'"
  by (induction rule: rtranclp_induct) (auto dest: db_step_wf)

text \<open>
  In every database reached from an empty one by the operations, in any order, every table's keys are
  unique: no commit, vault, conflict, path or file identifier has two rows, and a commit's tree has one
  entry per file.
\<close>

theorem db_keys_unique:
  assumes "(db_step hash)\<^sup>*\<^sup>* empty_db db"
  shows "db_wf db"
  using assms by (induction rule: rtranclp_induct) (auto simp: db_wf_empty dest: db_step_wf)

theorem db_keys_unique_witness: "db_wf (mark_conflict_resolved ''k'' sample_db)"
proof -
  obtain res where "apply_scan id [sample_input] 5 empty_db = (Ok res, sample_db)"
    using sample_scan(4) by blast
  then have "db_step id empty_db sample_db"
    using db_step.scan [of id empty_db "[sample_input]" 5] by simp
  moreover have "db_step id sample_db (mark_conflict_resolved ''k'' sample_db)"
    by (rule db_step.resolve)
  ultimately have "(db_step id)\<^sup>*\<^sup>* empty_db (mark_conflict_resolved ''k'' sample_db)"
    by (meson converse_rtranclp_into_rtranclp r_into_rtranclp)
  then show ?thesis by (rule db_keys_unique)
qed

section \<open>Facts the push and pull pipelines share\<close>

lemma mark_files_synced_files:
  "sync_files (mark_files_synced c ids db) =
     map (\<lambda>r. if file_id r \<in> set ids then r\<lparr>dirty := False, last_synced_commit_id := Some c\<rparr> else r) (sync_files db)"
proof (induction ids arbitrary: db)
  case (Cons i ids)
  have "mark_files_synced c (i # ids) db = mark_files_synced c ids (db\<lparr>sync_files :=
      update_rows (\<lambda>r. file_id r = i) (\<lambda>r. r\<lparr>dirty := False, last_synced_commit_id := Some c\<rparr>) (sync_files db)\<rparr>)"
    by (simp add: mark_files_synced_def)
  then show ?case by (simp add: Cons.IH update_rows_def)
qed (simp add: mark_files_synced_def)

lemma ids_derived_update:
  "(\<And>r. file_id (f r) = file_id r \<and> normalized_path (f r) = normalized_path r) \<Longrightarrow>
   ids_derived hash rows \<Longrightarrow> ids_derived hash (update_rows c f rows)"
  by (auto simp: ids_derived_def update_rows_def)

lemma ids_derived_step:
  "db_step hash db db' \<Longrightarrow> db_wf db \<Longrightarrow> ids_derived hash (sync_files db) \<Longrightarrow> ids_derived hash (sync_files db')"
proof (induction rule: db_step.induct)
  case (scan db fs t)
  then show ?case
  proof (cases "apply_scan hash fs t db")
    case (Pair r db')
    show ?thesis
    proof (cases r)
      case (Ok res)
      from Pair scan apply_scan_rows(1) [of db hash fs t res db'] show ?thesis
        by (simp add: Ok db_wf_def scanned_rows_derived)
    next
      case (Err e)
      with Pair have "db' = db" by (auto simp: apply_scan_def Let_def split: result.splits prod.splits)
      with Pair scan show ?thesis by simp
    qed
  qed
next
  case (synced db c "is")
  then show ?case by (auto simp: mark_files_synced_files ids_derived_def)
next
  case (init db)
  then show ?case
    by (auto simp: init_schema_def ensure_tree_entry_content_commit_id_column_def reset_schema_def
        persist_schema_version_def empty_db_def ids_derived_def Let_def split: option.splits)
qed (auto simp: upsert_vault_def delete_vault_def update_vault_after_publish_def
      update_vault_after_pull_def mark_unsynced_file_deleted_clean_def persist_tree_cache_def
      clear_dirty_files_matching_head_def upsert_local_commit_def upsert_conflict_def
      mark_conflict_resolved_def Let_def intro!: ids_derived_update split: result.splits)

lemma ids_derived_steps:
  "(db_step hash)\<^sup>*\<^sup>* db db' \<Longrightarrow> db_wf db \<Longrightarrow> ids_derived hash (sync_files db) \<Longrightarrow> ids_derived hash (sync_files db')"
  by (induction rule: rtranclp_induct) (auto dest: db_steps_wf ids_derived_step)
lemma mark_files_synced_other:
  "sync_vaults (mark_files_synced c ids db) = sync_vaults db"
  "sync_tree_entries (mark_files_synced c ids db) = sync_tree_entries db"
  "sync_commits (mark_files_synced c ids db) = sync_commits db"
  unfolding mark_files_synced_def by (induction ids arbitrary: db) simp_all

lemma persist_tree_cache_other:
  "persist_tree_cache c t j src es now db = (r, db') \<Longrightarrow>
   sync_vaults db' = sync_vaults db \<and> sync_commits db' = sync_commits db"
  by (auto simp: persist_tree_cache_def Let_def split: result.splits)

lemma find_row_update_rows:
  "(\<And>r. key (f r) = key r) \<Longrightarrow>
   find_row key k (update_rows (\<lambda>r. key r = j) f rows) = (if k = j then map_option f (find_row key k rows) else find_row key k rows)"
  by (induction rows) (auto simp: update_rows_def find_row_def)

lemma list_tree_entries_stored:
  assumes "persist_tree_cache c t j src es now db = (Ok (), db')" "sorted (map tr_normalized_path es)"
  shows "list_tree_entries db' c = es"
proof -
  have "filter (\<lambda>r. tw_commit_id r = c) (sync_tree_entries db') = map (tree_row c) es"
    using persist_tree_cache_Ok [OF assms(1)] by (simp add: comp_def filter_map filter_empty_conv)
  moreover have "sort_key tr_normalized_path es = es"
    using assms(2) by (simp add: sort_key_id_if_sorted)
  moreover have "tw_normalized_path \<circ> tree_row c = tr_normalized_path"
    by (simp add: fun_eq_iff)
  ultimately show ?thesis by (simp add: list_tree_entries_def sort_key_map comp_def)
qed

lemma get_upserted_vault: "\<exists>t. get_vault (upsert_vault v db) (vr_vault_id v) = Some (v\<lparr>vr_created_at_ms := t\<rparr>)"
proof (cases "find_row vr_vault_id (vr_vault_id v) (sync_vaults db)")
  case None
  then show ?thesis
    by (intro exI [of _ "vr_created_at_ms v"]) (simp add: get_vault_def upsert_vault_def vault_table.find_upsert)
next
  case (Some old)
  then show ?thesis
    by (intro exI [of _ "vr_created_at_ms old"]) (simp add: get_vault_def upsert_vault_def vault_table.find_upsert)
qed

lemma apply_scan_other:
  "apply_scan hash fs now db = (r, db') \<Longrightarrow> db' = db\<lparr>sync_files := sync_files db'\<rparr>"
  by (auto simp: apply_scan_def Let_def split: result.splits prod.splits)

end
