(* ===== verification/Vault_Fs.thy ===== *)
theory Vault_Fs
  imports Rust_Std
begin

text \<open>
  The vault on disk and the path rules of \<^verbatim>\<open>vault/mod.rs\<close>. The directory below the vault root is a
  tree of files (contents and modification time), directories and symbolic links; a link carries
  the paths below it that exist when the operating system follows it. Names are UTF-8 and compared
  byte by byte. Lookup, write (with \<^verbatim>\<open>create_dir_all\<close>) and removal are the file operations the
  sync engine performs; \<open>resolve_vault_path\<close> and \<open>assert_no_symlink_within_vault\<close> are the checks
  every such operation goes through.
\<close>

section \<open>The file tree\<close>

datatype fnode =
    File bytes int
  | Dir "(string \<times> fnode) list"
  | Symlink "string list list"

type_synonym fpath = "string list"

fun fs_lookup :: "fnode \<Rightarrow> fpath \<Rightarrow> fnode option" where
  "fs_lookup n [] = Some n"
| "fs_lookup (Dir es) (x # xs) =
     (case map_of es x of None \<Rightarrow> None | Some n \<Rightarrow> fs_lookup n xs)"
| "fs_lookup _ (x # xs) = None"

fun set_entry :: "string \<Rightarrow> fnode \<Rightarrow> (string \<times> fnode) list \<Rightarrow> (string \<times> fnode) list" where
  "set_entry x n [] = [(x, n)]"
| "set_entry x n ((y, m) # es) = (if x = y then (x, n) # es else (y, m) # set_entry x n es)"

text \<open>
  Creating the parent directories and writing the file. \<open>None\<close> is an error of the operating system:
  the target is a directory, or a file is where a directory is needed.
\<close>

fun fs_write :: "fpath \<Rightarrow> bytes \<Rightarrow> int \<Rightarrow> fnode option \<Rightarrow> fnode option" where
  "fs_write [] b t None = Some (File b t)"
| "fs_write [] b t (Some (File _ _)) = Some (File b t)"
| "fs_write [] b t (Some _) = None"
| "fs_write (x # xs) b t None = map_option (\<lambda>n. Dir [(x, n)]) (fs_write xs b t None)"
| "fs_write (x # xs) b t (Some (Dir es)) =
     map_option (\<lambda>n. Dir (set_entry x n es)) (fs_write xs b t (map_of es x))"
| "fs_write (x # xs) b t (Some _) = None"

datatype remove_error = NotFound | RemoveFailed

fun fs_remove :: "fpath \<Rightarrow> fnode \<Rightarrow> (fnode, remove_error) result" where
  "fs_remove [x] (Dir es) =
     (case map_of es x of
        None \<Rightarrow> Err NotFound
      | Some (Dir _) \<Rightarrow> Err RemoveFailed
      | Some _ \<Rightarrow> Ok (Dir (filter (\<lambda>(y, _). y \<noteq> x) es)))"
| "fs_remove (x # y # ys) (Dir es) =
     (case map_of es x of
        None \<Rightarrow> Err NotFound
      | Some n \<Rightarrow> and_then (fs_remove (y # ys) n) (\<lambda>n'. Ok (Dir (set_entry x n' es))))"
| "fs_remove _ _ = Err RemoveFailed"

text \<open>\<^verbatim>\<open>Path::exists\<close> follows symbolic links.\<close>

fun fs_exists :: "fnode \<Rightarrow> fpath \<Rightarrow> bool" where
  "fs_exists (Symlink below) xs = (xs \<in> set below)"
| "fs_exists n [] = True"
| "fs_exists (Dir es) (x # xs) = (case map_of es x of None \<Rightarrow> False | Some n \<Rightarrow> fs_exists n xs)"
| "fs_exists (File _ _) (x # xs) = False"

definition fs_read :: "fnode \<Rightarrow> fpath \<Rightarrow> bytes option" where
  "fs_read n p = (case fs_lookup n p of Some (File b _) \<Rightarrow> Some b | _ \<Rightarrow> None)"

text \<open>\<^verbatim>\<open>create_dir_all\<close> fails when a file stands where a parent directory is needed.\<close>

definition parent_blocked :: "fnode \<Rightarrow> fpath \<Rightarrow> bool" where
  "parent_blocked fs p \<longleftrightarrow>
     list_ex (\<lambda>k. case fs_lookup fs (take k p) of Some (File _ _) \<Rightarrow> True | _ \<Rightarrow> False) [0..<length p]"

fun fs_wf :: "fnode \<Rightarrow> bool" where
  "fs_wf (Dir es) \<longleftrightarrow> distinct (map fst es) \<and> (\<forall>(x, n) \<in> set es. fs_wf n)"
| "fs_wf _ = True"

section \<open>Path rules\<close>

text \<open>
  Absolute paths are the names below \<^verbatim>\<open>/\<close>; \<^verbatim>\<open>PathBuf::pop\<close> drops the last and does nothing at
  \<^verbatim>\<open>/\<close>, \<^verbatim>\<open>starts_with\<close> compares whole components.
\<close>

definition display_path :: "fpath \<Rightarrow> string" where
  "display_path p = concat (map (\<lambda>s. slash # s) p)"

fun resolve_components :: "fpath \<Rightarrow> string \<Rightarrow> component list \<Rightarrow> fpath \<Rightarrow> (fpath, string) result" where
  "resolve_components root rel [] resolved = Ok resolved"
| "resolve_components root rel (Normal c # cs) resolved =
     resolve_components root rel cs (resolved @ [c])"
| "resolve_components root rel (ParentDir # cs) resolved =
     (let resolved = butlast resolved in
      if \<not> prefix root resolved
      then Err (''Path traversal denied: '' @ [CHR 0x27] @ rel @ [CHR 0x27] @ '' escapes vault root'')
      else resolve_components root rel cs resolved)"
| "resolve_components root rel (CurDir # cs) resolved = resolve_components root rel cs resolved"
| "resolve_components root rel (RootDir # cs) resolved =
     Err (''Absolute paths not allowed: '' @ [CHR 0x27] @ rel @ [CHR 0x27])"

definition resolve_vault_path :: "fpath \<Rightarrow> string \<Rightarrow> (fpath, string) result" where
  "resolve_vault_path root rel =
     (if rel = [] then Ok root
      else and_then (resolve_components root rel (components rel) root) (\<lambda>resolved.
        if \<not> prefix root resolved
        then Err (''Path traversal denied: '' @ [CHR 0x27] @ rel @ [CHR 0x27] @ '' resolved outside vault'')
        else Ok resolved))"

fun no_symlink_walk :: "fpath \<Rightarrow> fnode \<Rightarrow> fpath \<Rightarrow> fpath \<Rightarrow> (unit, string) result" where
  "no_symlink_walk root fs current [] = Ok ()"
| "no_symlink_walk root fs current (seg # segs) =
     (let current = current @ [seg] in
      case fs_lookup fs current of
        Some (Symlink _) \<Rightarrow>
          Err (''Symlinks are not allowed in the vault: '' @ display_path (root @ current))
      | _ \<Rightarrow> no_symlink_walk root fs current segs)"

definition assert_no_symlink_within_vault :: "fpath \<Rightarrow> fnode \<Rightarrow> fpath \<Rightarrow> (unit, string) result" where
  "assert_no_symlink_within_vault root fs resolved =
     (if \<not> prefix root resolved then Err (''Path not within vault: '' @ display_path resolved)
      else no_symlink_walk root fs [] (drop (length root) resolved))"

text \<open>The resolved path is returned relative to the vault root, as the tree is addressed.\<close>

definition resolve_vault_path_strict :: "fpath \<Rightarrow> fnode \<Rightarrow> string \<Rightarrow> (fpath, string) result" where
  "resolve_vault_path_strict root fs rel =
     and_then (resolve_vault_path root rel) (\<lambda>resolved.
     and_then (assert_no_symlink_within_vault root fs resolved) (\<lambda>_.
       Ok (drop (length root) resolved)))"

definition starts_with :: "string \<Rightarrow> string \<Rightarrow> bool" where
  "starts_with p s \<longleftrightarrow> prefix p s"

definition ends_with :: "string \<Rightarrow> string \<Rightarrow> bool" where
  "ends_with p s \<longleftrightarrow> suffix p s"

definition should_ignore_path :: "fpath \<Rightarrow> bool" where
  "should_ignore_path names \<longleftrightarrow>
     (\<exists>name \<in> set names. starts_with ''.'' name)
     \<or> (names \<noteq> [] \<and> (last names = ''.DS_Store'' \<or> ends_with ''.tmp'' (last names)
                        \<or> ends_with ''~'' (last names)))"

definition to_relative_path :: "fpath \<Rightarrow> string" where
  "to_relative_path rel = replace_char backslash slash (join_with ''/'' rel)"

text \<open>The directory listing shown to the user; a directory that cannot be read has no children.\<close>

datatype file_entry =
  FileEntry (entry_name: string) (entry_path: string) (is_directory: bool)
    (children: "file_entry list option")

definition matches_extensions :: "string \<Rightarrow> string list \<Rightarrow> bool" where
  "matches_extensions name extensions \<longleftrightarrow>
     extensions = [] \<or>
     (\<exists>ext \<in> set extensions. ends_with (dot # to_ascii_lowercase ext) (to_ascii_lowercase name))"

fun read_directory_recursive :: "string list \<Rightarrow> fpath \<Rightarrow> fnode \<Rightarrow> file_entry list option" where
  "read_directory_recursive extensions dir (Dir es) =
     (let listed = concat (map (\<lambda>(name, n).
            if should_ignore_path (dir @ [name]) then []
            else case n of
              Symlink _ \<Rightarrow> []
            | Dir _ \<Rightarrow> [FileEntry name (to_relative_path (dir @ [name])) True
                (Some (case read_directory_recursive extensions (dir @ [name]) n of
                         Some cs \<Rightarrow> cs | None \<Rightarrow> []))]
            | File _ _ \<Rightarrow>
                if matches_extensions name extensions
                then [FileEntry name (to_relative_path (dir @ [name])) False None] else []) es);
          folders = sort_key entry_name (filter is_directory listed);
          files = sort_key entry_name (filter (Not \<circ> is_directory) listed)
      in Some (folders @ files))"
| "read_directory_recursive extensions dir _ = None"

section \<open>Laws of the file tree\<close>

lemma map_of_set_entry: "map_of (set_entry x n es) y = (if y = x then Some n else map_of es y)"
  by (induction x n es rule: set_entry.induct) auto

lemma fst_set_entry: "fst ` set (set_entry x n es) = insert x (fst ` set es)"
  by (induction x n es rule: set_entry.induct) auto

lemma set_entry_wf:
  "fs_wf (Dir es) \<Longrightarrow> fs_wf n \<Longrightarrow> fs_wf (Dir (set_entry x n es))"
proof (induction x n es rule: set_entry.induct)
  case (2 x n y m es)
  then show ?case
    using fst_set_entry [of x n es] by (auto simp: image_iff)
qed simp

lemma fs_lookup_write_same: "fs_write p b t n = Some n' \<Longrightarrow> fs_lookup n' p = Some (File b t)"
  by (induction p b t n arbitrary: n' rule: fs_write.induct) (auto simp: map_of_set_entry)

text \<open>A write is seen at the path written and at no path that leaves it.\<close>

lemma fs_read_write_other:
  "fs_write p b t (Some n) = Some n' \<Longrightarrow> q \<noteq> p \<Longrightarrow> fs_read n' q = fs_read n q"
proof (induction p arbitrary: n n' q)
  case Nil
  then show ?case
    by (cases n; cases q) (auto simp: fs_read_def)
next
  case (Cons x p)
  then obtain es m where n: "n = Dir es" and w: "fs_write p b t (map_of es x) = Some m"
    and n': "n' = Dir (set_entry x m es)"
    by (cases n) auto
  show ?case
  proof (cases q)
    case Nil
    then show ?thesis by (simp add: fs_read_def n n')
  next
    case (Cons y q')
    show ?thesis
    proof (cases "y = x")
      case False
      then show ?thesis by (simp add: fs_read_def n n' Cons map_of_set_entry)
    next
      case True
      with \<open>q \<noteq> x # p\<close> Cons have q': "q' \<noteq> p" by simp
      have "fs_read m q' = (case map_of es x of None \<Rightarrow> None | Some k \<Rightarrow> fs_read k q')"
      proof (cases "map_of es x")
        case None
        with w q' have "fs_read m q' = None"
        proof (induction p arbitrary: m q')
          case Nil
          then show ?case by (cases q') (auto simp: fs_read_def)
        next
          case (Cons z p)
          then show ?case by (cases q') (auto simp: fs_read_def)
        qed
        with None show ?thesis by simp
      next
        case (Some k)
        with w q' Cons.IH show ?thesis by simp
      qed
      then show ?thesis
        using True by (simp add: fs_read_def n n' Cons map_of_set_entry split: option.splits)
    qed
  qed
qed

lemma fs_write_wf: "fs_write p b t n = Some n' \<Longrightarrow> (\<forall>m. n = Some m \<longrightarrow> fs_wf m) \<Longrightarrow> fs_wf n'"
proof (induction p b t n arbitrary: n' rule: fs_write.induct)
  case (5 x xs b t es)
  from "5.prems"(1) obtain m where m: "fs_write xs b t (map_of es x) = Some m"
    and n': "n' = Dir (set_entry x m es)"
    by auto
  have "fs_wf k" if "map_of es x = Some k" for k
    using that "5.prems"(2) by (auto dest!: map_of_SomeD)
  with 5 m have "fs_wf m" by blast
  then show ?case using set_entry_wf "5.prems"(2) by (simp add: n' del: fs_wf.simps)
qed auto

lemma fs_remove_wf: "fs_remove p n = Ok n' \<Longrightarrow> fs_wf n \<Longrightarrow> fs_wf n'"
proof (induction p n arbitrary: n' rule: fs_remove.induct)
  case (1 x es)
  then show ?case by (auto simp: distinct_map_filter split: option.split_asm fnode.split_asm)
next
  case (2 x y ys es)
  then obtain n m where n: "map_of es x = Some n" "fs_remove (y # ys) n = Ok m" "n' = Dir (set_entry x m es)"
    by (auto simp: and_then_eq_Ok split: option.split_asm)
  moreover have "fs_wf n" using "2.prems"(2) n(1) by (auto dest: map_of_SomeD)
  ultimately have "fs_wf m" using "2.IH" by blast
  with "2.prems"(2) show ?case using set_entry_wf by (simp add: n(3) del: fs_wf.simps)
qed simp_all

lemma map_of_filter_key: "map_of (filter (\<lambda>(y, _). y \<noteq> x) es) z = (if z = x then None else map_of es z)"
  by (induction es) auto

text \<open>A removal takes away exactly the file removed.\<close>

lemma fs_read_remove:
  "fs_remove p n = Ok n' \<Longrightarrow> fs_read n' q = (if q = p then None else fs_read n q)"
proof (induction p n arbitrary: n' q rule: fs_remove.induct)
  case (1 x es)
  then obtain m where m: "map_of es x = Some m" "\<nexists>ds. m = Dir ds"
    and n': "n' = Dir (filter (\<lambda>(y, _). y \<noteq> x) es)"
    by (auto split: option.splits fnode.splits)
  from m(2) have "r \<noteq> [] \<Longrightarrow> fs_lookup m r = None" for r
    by (cases m; cases r) auto
  with m(1) show ?case
    by (cases q) (auto simp: n' fs_read_def map_of_filter_key split: option.splits)
next
  case (2 x y ys es)
  then obtain m m' where m: "map_of es x = Some m" "fs_remove (y # ys) m = Ok m'"
    and n': "n' = Dir (set_entry x m' es)"
    by (auto simp: result_simps split: option.splits)
  have "fs_read m' r = (if r = y # ys then None else fs_read m r)" for r
    using 2(1) m by blast
  then show ?case
    using m(1) by (cases q) (auto simp: n' fs_read_def map_of_set_entry)
qed auto

section \<open>Vault paths stay in the vault\<close>

text \<open>
  The meaning of a relative path without reference to the vault: a stack of names that \<^verbatim>\<open>..\<close> may
  not pop when it is empty.
\<close>

fun relative_stack :: "component list \<Rightarrow> fpath \<Rightarrow> fpath option" where
  "relative_stack [] st = Some st"
| "relative_stack (Normal c # cs) st = relative_stack cs (st @ [c])"
| "relative_stack (ParentDir # cs) st = (if st = [] then None else relative_stack cs (butlast st))"
| "relative_stack (CurDir # cs) st = relative_stack cs st"
| "relative_stack (RootDir # cs) st = None"

lemma fs_remove_not_found: "fs_remove p n = Err NotFound \<Longrightarrow> fs_read n p = None"
proof (induction p n rule: fs_remove.induct)
  case (2 x y ys es)
  then show ?case by (cases "map_of es x") (auto simp: fs_read_def result_simps)
qed (auto simp: fs_read_def split: option.splits fnode.splits)

lemma fs_remove_gone:
  "fs_remove p n = Ok n' \<Longrightarrow> \<not> fs_exists n' p"
  "fs_remove p n = Err NotFound \<Longrightarrow> \<not> fs_exists n p"
proof -
  show "fs_remove p n = Ok n' \<Longrightarrow> \<not> fs_exists n' p"
  proof (induction p n arbitrary: n' rule: fs_remove.induct)
    case (1 x es)
    then show ?case by (auto simp: map_of_filter_key split: option.splits fnode.splits)
  next
    case (2 x y ys es)
    then show ?case by (auto simp: map_of_set_entry result_simps split: option.splits)
  qed auto
  show "fs_remove p n = Err NotFound \<Longrightarrow> \<not> fs_exists n p"
  proof (induction p n rule: fs_remove.induct)
    case (2 x y ys es)
    then show ?case by (cases "map_of es x") (auto simp: result_simps)
  qed (auto split: option.splits fnode.splits)
qed

lemma existing_file_exists:
  assumes "fs_read fs p = Some b"
  shows "fs_exists fs p"
proof -
  have "fs_lookup n p = Some (File b m) \<Longrightarrow> fs_exists n p" for n m
    by (induction n p rule: fs_lookup.induct) (auto split: option.splits)
  with assms show ?thesis by (auto simp: fs_read_def split: option.splits fnode.splits)
qed

lemma not_prefix_butlast: "xs \<noteq> [] \<Longrightarrow> \<not> prefix xs (butlast xs)"
  by (metis append_butlast_last_id not_Cons_self2 prefix_order.antisym prefixI
      append_self_conv list.discI)

lemma resolve_components_stack:
  assumes "root \<noteq> []"
  shows "resolve_components root rel cs (root @ st) = Ok p \<longleftrightarrow>
    (\<exists>q. relative_stack cs st = Some q \<and> p = root @ q)"
proof (induction cs st rule: relative_stack.induct)
  case (3 cs st)
  then show ?case
    by (cases "st = []") (auto simp: not_prefix_butlast assms butlast_append)
qed auto

lemma resolve_vault_path_stack:
  assumes "root \<noteq> []"
  shows "resolve_vault_path root rel = Ok p \<longleftrightarrow>
    (\<exists>q. relative_stack (components rel) [] = Some q \<and> p = root @ q)"
proof (cases "rel = []")
  case True
  then show ?thesis by (auto simp: resolve_vault_path_def components_def)
next
  case False
  show ?thesis
    using resolve_components_stack [OF assms, of rel "components rel" "[]"] False
    by (auto simp: resolve_vault_path_def and_then_eq_Ok) (metis prefixI)
qed

lemma component_names:
  "Normal c \<in> set (components s) \<Longrightarrow> c \<noteq> [] \<and> c \<noteq> ''.'' \<and> c \<noteq> ''..'' \<and> slash \<notin> set c"
  using split_char_segments [of c slash s]
  by (cases "split_char slash s")
    (auto simp: components_def segment_component_def map_filter_def split: if_splits option.splits)

lemma relative_stack_names:
  "relative_stack cs st = Some q \<Longrightarrow> x \<in> set q \<Longrightarrow> x \<in> set st \<or> Normal x \<in> set cs"
  by (induction cs st arbitrary: q rule: relative_stack.induct)
    (auto split: if_splits dest: in_set_butlastD)

text \<open>
  C6. Path containment: the resolver accepts exactly the relative paths whose \<^verbatim>\<open>..\<close> segments never
  climb above the vault, and what it returns is the vault root followed by plain names, none of
  them empty, \<^verbatim>\<open>.\<close>, \<^verbatim>\<open>..\<close> or containing a separator.
\<close>

theorem resolve_vault_path_contained:
  assumes "root \<noteq> []"
  shows "resolve_vault_path root rel = Ok p \<longleftrightarrow>
      (\<exists>q. relative_stack (components rel) [] = Some q \<and> p = root @ q \<and>
           (\<forall>x \<in> set q. x \<noteq> [] \<and> x \<noteq> ''.'' \<and> x \<noteq> ''..'' \<and> slash \<notin> set x))"
proof -
  have "x \<noteq> [] \<and> x \<noteq> ''.'' \<and> x \<noteq> ''..'' \<and> slash \<notin> set x"
    if "relative_stack (components rel) [] = Some q" "x \<in> set q" for q x
    using relative_stack_names [OF that] component_names [of x rel] by simp
  then show ?thesis
    unfolding resolve_vault_path_stack [OF assms] by blast
qed

theorem resolve_vault_path_contained_witness:
  "\<exists>q. [''v'', ''b'', ''c.md''] = [''v''] @ q \<and> (\<forall>x \<in> set q. x \<noteq> ''..'')"
proof -
  have "resolve_vault_path [''v''] ''a/../b/c.md'' = Ok [''v'', ''b'', ''c.md'']"
    by code_simp
  then show ?thesis
    using resolve_vault_path_contained [of "[''v'']" "''a/../b/c.md''"] by blast
qed

lemma no_symlink_walk_Ok:
  "no_symlink_walk root fs cur segs = Ok () \<longleftrightarrow>
     (\<forall>k < length segs. \<forall>l. fs_lookup fs (cur @ take (Suc k) segs) \<noteq> Some (Symlink l))"
proof (induction segs arbitrary: cur)
  case Nil
  show ?case by simp
next
  case (Cons s segs)
  show ?case
    by (cases "fs_lookup fs (cur @ [s])")
      (simp_all add: Cons.IH [of "cur @ [s]", simplified] All_less_Suc2 Let_def split: fnode.splits)
qed

text \<open>
  The strict resolver, which every file operation goes through, succeeds exactly when the path
  stays in the vault and no component on the way, the last included, is a symbolic link.
\<close>

theorem resolve_vault_path_strict_iff:
  "resolve_vault_path_strict root fs rel = Ok q \<longleftrightarrow>
     resolve_vault_path root rel = Ok (root @ q) \<and>
     (\<forall>k < length q. \<forall>l. fs_lookup fs (take (Suc k) q) \<noteq> Some (Symlink l))"
proof -
  have "resolve_vault_path root rel = Ok p \<Longrightarrow> prefix root p" for p
    by (auto simp: resolve_vault_path_def result_simps split: if_splits)
  then show ?thesis
    by (auto simp: resolve_vault_path_strict_def assert_no_symlink_within_vault_def result_simps
        no_symlink_walk_Ok prefix_def)
qed

theorem resolve_vault_path_strict_iff_witness:
  "resolve_vault_path_strict [''v''] (Dir [(''l'', Symlink [])]) ''l/a.md'' \<noteq> Ok [''l'', ''a.md'']
   \<and> resolve_vault_path_strict [''v''] (Dir [(''d'', Dir [])]) ''d/a.md'' = Ok [''d'', ''a.md'']"
proof -
  have "fs_lookup (Dir [(''l'', Symlink [])]) (take (Suc 0) [''l'', ''a.md'']) = Some (Symlink [])"
    by simp
  then have "\<not> (\<forall>k < length [''l'', ''a.md'']. \<forall>l.
      fs_lookup (Dir [(''l'', Symlink [])]) (take (Suc k) [''l'', ''a.md'']) \<noteq> Some (Symlink l))"
    by (intro notI) (drule spec [of _ 0], simp)
  moreover have "resolve_vault_path_strict [''v''] (Dir [(''d'', Dir [])]) ''d/a.md'' = Ok [''d'', ''a.md'']"
    by code_simp
  ultimately show ?thesis
    using resolve_vault_path_strict_iff [of "[''v'']" "Dir [(''l'', Symlink [])]"
        "''l/a.md''" "[''l'', ''a.md'']"]
    by blast
qed

end
