(* ===== verification/Sync_Scanner.thy ===== *)
theory Sync_Scanner
  imports Sync_Db Vault_Fs
begin

text \<open>
  The vault scanner (\<^verbatim>\<open>sync/scanner.rs\<close>): it walks the file tree, skips ignored names and symbolic
  links, keeps Markdown files and gives each its normalised path, by which the result is ordered and
  which must be unique. \<open>lc\<close> is \<^verbatim>\<open>str::to_lowercase\<close>, \<open>hash\<close> is \<^verbatim>\<open>blake3::hash(..).to_hex()\<close>.
\<close>

section \<open>Definitions\<close>

record scanned_file =
  sf_file_id :: string
  sf_path :: string
  sf_normalized_path :: string
  sf_plaintext_hash :: string
  sf_size_bytes :: int
  sf_mtime_ms :: int
  sf_plaintext :: bytes

definition file_input :: "scanned_file \<Rightarrow> sync_file_input" where
  "file_input f = \<lparr>fi_path = sf_path f, fi_normalized_path = sf_normalized_path f,
     fi_kind = FILE_KIND_MARKDOWN, fi_plaintext_hash = Some (sf_plaintext_hash f),
     fi_size_bytes = Some (sf_size_bytes f), fi_mtime_ms = Some (sf_mtime_ms f)\<rparr>"

fun normalize_segments :: "(string \<Rightarrow> string) \<Rightarrow> string list \<Rightarrow> string list sync_result" where
  "normalize_segments lc [] = Ok []"
| "normalize_segments lc (seg # segs) =
     (if seg = [] \<or> seg = ''.'' then normalize_segments lc segs
      else if seg = ''..'' then Err (InvalidArgument ''sync path traversal is not allowed'')
      else and_then (normalize_segments lc segs) (\<lambda>cs. Ok (lc seg # cs)))"

definition normalize_vault_relative_path :: "(string \<Rightarrow> string) \<Rightarrow> string \<Rightarrow> string sync_result" where
  "normalize_vault_relative_path lc relative_path =
     (let normalized_separators = replace_char backslash slash relative_path in
      if normalized_separators = [] \<or> hd normalized_separators = slash
      then Err (InvalidArgument ''sync path must be vault-relative'')
      else and_then (normalize_segments lc (split_char slash normalized_separators)) (\<lambda>comps.
        if comps = [] then Err (InvalidArgument ''sync path must include a file name'')
        else Ok (join_with ''/'' comps)))"

definition is_markdown_name :: "string \<Rightarrow> bool" where
  "is_markdown_name name =
     (case extension_of_name name of Some e \<Rightarrow> eq_ignore_ascii_case e ''md'' | None \<Rightarrow> False)"

definition is_markdown_path :: "fpath \<Rightarrow> bool" where
  "is_markdown_path path \<longleftrightarrow> path \<noteq> [] \<and> is_markdown_name (last path)"

text \<open>The modification time in milliseconds since the epoch, earlier times counting as zero.\<close>

definition modified_ms :: "int \<Rightarrow> int" where
  "modified_ms t = min (max t 0) i64_max"

definition scan_file ::
    "(string \<Rightarrow> string) \<Rightarrow> (bytes \<Rightarrow> string) \<Rightarrow> fpath \<Rightarrow> bytes \<Rightarrow> int \<Rightarrow> scanned_file sync_result" where
  "scan_file lc hash path contents mtime =
     (let relative_path = to_relative_path path in
      and_then (normalize_vault_relative_path lc relative_path) (\<lambda>np.
        if int (length contents) > i64_max
        then Err (InvalidArgument (''sync file is too large: '' @ display_path path))
        else Ok \<lparr>sf_file_id = file_id_for_normalized_path hash np, sf_path = relative_path,
                 sf_normalized_path = np, sf_plaintext_hash = hash contents,
                 sf_size_bytes = int (length contents), sf_mtime_ms = modified_ms mtime,
                 sf_plaintext = contents\<rparr>))"

fun scan_dir ::
    "(string \<Rightarrow> string) \<Rightarrow> (bytes \<Rightarrow> string) \<Rightarrow> fpath \<Rightarrow> fnode \<Rightarrow> scanned_file list sync_result" where
  "scan_dir lc hash dir (Dir es) =
     and_then (collect_results (\<lambda>(name, n).
         if should_ignore_path (dir @ [name]) then Ok []
         else case n of
           Symlink _ \<Rightarrow> Ok []
         | Dir _ \<Rightarrow> scan_dir lc hash (dir @ [name]) n
         | File contents mtime \<Rightarrow>
             if \<not> is_markdown_path (dir @ [name]) then Ok []
             else and_then (scan_file lc hash (dir @ [name]) contents mtime) (\<lambda>f. Ok [f])) es)
       (\<lambda>files. Ok (concat files))"
| "scan_dir lc hash dir _ = Err (Storage (''failed to read sync directory '' @ display_path dir))"

fun validate_unique_normalized_paths :: "string list \<Rightarrow> scanned_file list \<Rightarrow> unit sync_result" where
  "validate_unique_normalized_paths seen [] = Ok ()"
| "validate_unique_normalized_paths seen (f # fs) =
     (if sf_normalized_path f \<in> set seen
      then Err (InvalidArgument (''duplicate normalized sync path: '' @ sf_normalized_path f))
      else validate_unique_normalized_paths (sf_normalized_path f # seen) fs)"

definition scan_vault ::
    "(string \<Rightarrow> string) \<Rightarrow> (bytes \<Rightarrow> string) \<Rightarrow> fpath \<Rightarrow> fnode \<Rightarrow> scanned_file list sync_result" where
  "scan_vault lc hash root fs =
     (case fs of
        Dir _ \<Rightarrow>
          and_then (scan_dir lc hash [] fs) (\<lambda>files.
            let files = sort_key sf_normalized_path files
            in and_then (validate_unique_normalized_paths [] files) (\<lambda>_. Ok files))
      | _ \<Rightarrow> Err (InvalidArgument (''vault root is not a directory: '' @ display_path root)))"

section \<open>Normalised paths\<close>

lemma normalize_segments_eq:
  "normalize_segments lc segs = Ok cs \<longleftrightarrow>
     ''..'' \<notin> set segs \<and> cs = map lc (filter (\<lambda>s. s \<notin> {[], ''.''}) segs)"
  by (induction segs arbitrary: cs) (auto simp: result_simps)

lemma normalize_path_OkD:
  assumes "normalize_vault_relative_path lc p = Ok q"
  obtains segs where "segs = filter (\<lambda>s. s \<notin> {[], ''.''}) (split_char slash (replace_char backslash slash p))"
    "''..'' \<notin> set segs" "segs \<noteq> []" "q = join_with ''/'' (map lc segs)"
    "\<forall>s \<in> set segs. slash \<notin> set s \<and> backslash \<notin> set s"
proof -
  let ?segs = "split_char slash (replace_char backslash slash p)"
  from assms have "''..'' \<notin> set ?segs" "filter (\<lambda>s. s \<notin> {[], ''.''}) ?segs \<noteq> []"
    "q = join_with ''/'' (map lc (filter (\<lambda>s. s \<notin> {[], ''.''}) ?segs))"
    by (auto simp: normalize_vault_relative_path_def Let_def result_simps normalize_segments_eq split: if_splits)
  moreover have "slash \<notin> set s \<and> backslash \<notin> set s" if "s \<in> set ?segs" for s
  proof -
    have "set s \<subseteq> set (replace_char backslash slash p)"
    proof -
      have "set (join_with [slash] ?segs) = set (replace_char backslash slash p)"
        by (simp only: join_split_char)
      moreover have "set s \<subseteq> set (join_with [slash] ss)" if "s \<in> set ss" for ss
        using that by (induction "[slash]" ss rule: join_with.induct) auto
      ultimately show ?thesis using that by blast
    qed
    then show ?thesis
      using that set_replace_char [of backslash slash p] split_char_segments [of s slash] by auto
  qed
  ultimately show thesis by (intro that) auto
qed

lemma normalized_segments:
  assumes "lowercase_ok lc" "normalize_vault_relative_path lc p = Ok q"
  obtains cs where "cs \<noteq> []" "q = join_with ''/'' cs" "split_char slash q = cs"
    "\<forall>c \<in> set cs. c \<notin> {[], ''.'', ''..''} \<and> slash \<notin> set c \<and> backslash \<notin> set c \<and> lc c = c"
proof -
  from normalize_path_OkD [OF assms(2)] obtain segs where segs:
    "segs = filter (\<lambda>s. s \<notin> {[], ''.''}) (split_char slash (replace_char backslash slash p))"
    "''..'' \<notin> set segs" "segs \<noteq> []" "q = join_with ''/'' (map lc segs)"
    "\<forall>s \<in> set segs. slash \<notin> set s \<and> backslash \<notin> set s" .
  have "lc s \<notin> {[], ''.'', ''..''} \<and> slash \<notin> set (lc s) \<and> backslash \<notin> set (lc s) \<and> lc (lc s) = lc s"
    if "s \<in> set segs" for s
  proof -
    have "s \<notin> {[], ''.'', ''..''}" using that segs(1,2) by auto
    moreover have "slash \<notin> set s" "backslash \<notin> set s" using that segs(5) by auto
    ultimately show ?thesis
      using assms(1) unfolding lowercase_ok_def by blast
  qed
  then have *: "\<forall>c \<in> set (map lc segs). c \<notin> {[], ''.'', ''..''} \<and> slash \<notin> set c \<and> backslash \<notin> set c \<and> lc c = c"
    by auto
  have "split_char slash q = map lc segs"
    unfolding segs(4) by (rule split_join_with) (use segs(3) * in auto)
  from that [OF _ segs(4) this *] segs(3) show thesis by simp
qed

lemma normalize_idempotent:
  assumes "lowercase_ok lc" "normalize_vault_relative_path lc p = Ok q"
  shows "normalize_vault_relative_path lc q = Ok q"
proof -
  obtain cs where cs: "cs \<noteq> []" "q = join_with ''/'' cs" "split_char slash q = cs"
    "\<forall>c \<in> set cs. c \<notin> {[], ''.'', ''..''} \<and> slash \<notin> set c \<and> backslash \<notin> set c \<and> lc c = c"
    using normalized_segments [OF assms] by blast
  have "backslash \<notin> set (join_with ''/'' ss)" if "\<forall>c \<in> set ss. backslash \<notin> set c" for ss
    using that by (induction "''/''" ss rule: join_with.induct) auto
  then have r: "replace_char backslash slash q = q"
    using cs(2,4) by (intro replace_char_idle) auto
  obtain c cs' where c: "cs = c # cs'" using cs(1) by (cases cs) auto
  then have "q \<noteq> [] \<and> hd q \<noteq> slash"
    using cs(2,4) by (cases cs'; cases c) auto
  moreover have "normalize_segments lc cs = Ok cs"
    unfolding normalize_segments_eq
  proof
    show "''..'' \<notin> set cs" using cs(4) by blast
    have "filter (\<lambda>s. s \<notin> {[], ''.''}) cs = cs" using cs(4) by (simp add: filter_id_conv)
    moreover have "map lc cs = cs" using cs(4) by (intro map_idI) simp
    ultimately show "cs = map lc (filter (\<lambda>s. s \<notin> {[], ''.''}) cs)" by simp
  qed
  ultimately show ?thesis
    using cs(1) by (simp add: normalize_vault_relative_path_def r cs(3) cs(2) [symmetric] Let_def)
qed

text \<open>
  A normalised path is a fixed point of normalisation, so the database key of a file does not
  depend on how often its path went through the engine, and it consists of plain lower-case names: no
  empty, \<^verbatim>\<open>.\<close> or \<^verbatim>\<open>..\<close> segment and no backslash.
\<close>

theorem normalize_path_canonical:
  assumes "lowercase_ok lc" "normalize_vault_relative_path lc p = Ok q"
  shows "normalize_vault_relative_path lc q = Ok q \<and>
    (\<forall>c \<in> set (split_char slash q). c \<notin> {[], ''.'', ''..''} \<and> backslash \<notin> set c \<and> lc c = c)"
  using normalize_idempotent [OF assms] normalized_segments [OF assms] by metis

theorem normalize_path_canonical_witness:
  "normalize_vault_relative_path to_ascii_lowercase ''notes/a.md'' = Ok ''notes/a.md''"
proof -
  have "normalize_vault_relative_path to_ascii_lowercase (''Notes'' @ [backslash] @ ''./A.md'') = Ok ''notes/a.md''"
    by code_simp
  from normalize_path_canonical [OF lowercase_ok_ascii this] show ?thesis by blast
qed

section \<open>What a scan finds\<close>

text \<open>
  The files of the tree a scan reports, in terms of lookups: regular Markdown files no prefix of whose
  path is ignored.
\<close>

definition visible :: "fpath \<Rightarrow> fpath \<Rightarrow> bool" where
  "visible dir p \<longleftrightarrow> (\<forall>k < length p. \<not> should_ignore_path (dir @ take (Suc k) p))"

definition scannable :: "fnode \<Rightarrow> fpath \<Rightarrow> fpath \<Rightarrow> bytes \<Rightarrow> int \<Rightarrow> bool" where
  "scannable n dir p b t \<longleftrightarrow>
     p \<noteq> [] \<and> fs_lookup n p = Some (File b t) \<and> visible dir p \<and> is_markdown_path (dir @ p)"

lemma visible_Cons: "visible dir (x # p) \<longleftrightarrow> \<not> should_ignore_path (dir @ [x]) \<and> visible (dir @ [x]) p"
  by (simp add: visible_def All_less_Suc2)

lemma visible_Nil [simp]: "visible dir []"
  by (simp add: visible_def)

lemma scannable_Cons:
  "scannable (Dir es) dir (x # p) b t \<longleftrightarrow>
     \<not> should_ignore_path (dir @ [x]) \<and>
     (\<exists>n. map_of es x = Some n \<and>
        (if p = [] then n = File b t \<and> is_markdown_path (dir @ [x])
         else scannable n (dir @ [x]) p b t))"
  by (auto simp: scannable_def visible_Cons split: option.splits)

lemma scannable_leaf: "\<not> scannable (File c u) dir p b t" "\<not> scannable (Symlink l) dir p b t"
  by (cases p; simp add: scannable_def)+

lemma scan_dir_exact:
  "scan_dir lc hash dir n = Ok files \<Longrightarrow> fs_wf n \<Longrightarrow>
   f \<in> set files \<longleftrightarrow> (\<exists>p b t. scannable n dir p b t \<and> scan_file lc hash (dir @ p) b t = Ok f)"
proof (induction lc hash dir n arbitrary: files f rule: scan_dir.induct)
  case (1 lc hash dir es)
  let ?one = "\<lambda>(name, n).
         if should_ignore_path (dir @ [name]) then Ok []
         else case n of
           Symlink _ \<Rightarrow> Ok []
         | Dir _ \<Rightarrow> scan_dir lc hash (dir @ [name]) n
         | File contents mtime \<Rightarrow>
             if \<not> is_markdown_path (dir @ [name]) then Ok []
             else and_then (scan_file lc hash (dir @ [name]) contents mtime) (\<lambda>f. Ok [f])"
  from "1.prems"(1) obtain fss where fss: "collect_results ?one es = Ok fss" "files = concat fss"
    by (auto simp: and_then_eq_Ok)
  have es: "distinct (map fst es)" "(x, n) \<in> set es \<Longrightarrow> fs_wf n" for x n
    using "1.prems"(2) by auto
  have one: "f \<in> set fs \<longleftrightarrow> (\<exists>p b t. scannable (Dir es) dir (x # p) b t \<and> scan_file lc hash (dir @ x # p) b t = Ok f)"
    if xn: "(x, n) \<in> set es" and fs: "?one (x, n) = Ok fs" for x n fs
  proof (cases "should_ignore_path (dir @ [x])")
    case True
    with fs show ?thesis by (simp add: scannable_Cons)
  next
    case visible: False
    have lookup: "map_of es x = Some n" using es(1) xn by simp
    show ?thesis
    proof (cases n)
      case (File c u)
      then show ?thesis
        using fs visible lookup
        by (auto simp: scannable_Cons scannable_leaf result_simps split: if_splits)
    next
      case (Symlink l)
      then show ?thesis
        using fs visible lookup by (auto simp: scannable_Cons scannable_leaf split: if_splits)
    next
      case (Dir ds)
      then have "scan_dir lc hash (dir @ [x]) n = Ok fs" using fs visible by simp
      from "1.IH" [OF xn refl visible Dir this es(2) [OF xn]]
      have "f \<in> set fs \<longleftrightarrow> (\<exists>p b t. scannable n (dir @ [x]) p b t \<and> scan_file lc hash ((dir @ [x]) @ p) b t = Ok f)" .
      moreover have "scannable n (dir @ [x]) p b t \<longleftrightarrow> scannable (Dir es) dir (x # p) b t" for p b t
        using visible lookup Dir by (auto simp: scannable_Cons) (simp add: scannable_def)
      ultimately show ?thesis by simp
    qed
  qed
  show ?case
  proof
    assume "f \<in> set files"
    then obtain fs where "fs \<in> set fss" "f \<in> set fs" by (auto simp: fss(2))
    with collect_results_set [OF fss(1)] obtain xn where "xn \<in> set es" "?one xn = Ok fs" by blast
    with one [of "fst xn" "snd xn" fs] \<open>f \<in> set fs\<close>
    show "\<exists>p b t. scannable (Dir es) dir p b t \<and> scan_file lc hash (dir @ p) b t = Ok f" by auto
  next
    assume "\<exists>p b t. scannable (Dir es) dir p b t \<and> scan_file lc hash (dir @ p) b t = Ok f"
    then obtain x p b t where p: "scannable (Dir es) dir (x # p) b t" "scan_file lc hash (dir @ x # p) b t = Ok f"
      by (metis scannable_def neq_Nil_conv)
    then obtain n where xn: "(x, n) \<in> set es" by (auto simp: scannable_Cons dest: map_of_SomeD)
    have "is_ok (collect_results ?one es)" using fss(1) by simp
    then obtain fs where fs: "?one (x, n) = Ok fs"
      using xn unfolding collect_results_is_ok by (auto simp: is_ok_iff)
    then have "fs \<in> set fss" using collect_results_set [OF fss(1)] xn by blast
    moreover have "f \<in> set fs" using one [OF xn fs] p by blast
    ultimately show "f \<in> set files" by (auto simp: fss(2))
  qed
qed auto

lemma validate_unique_Ok:
  "validate_unique_normalized_paths seen fs = Ok () \<longleftrightarrow>
     distinct (map sf_normalized_path fs) \<and> sf_normalized_path ` set fs \<inter> set seen = {}"
  by (induction fs arbitrary: seen) auto

lemma scan_vault_OkD:
  assumes "scan_vault lc hash root fs = Ok files" "fs_wf fs"
  shows "sorted_wrt (<) (map sf_normalized_path files)"
    and "f \<in> set files \<longleftrightarrow> (\<exists>p b t. scannable fs [] p b t \<and> scan_file lc hash p b t = Ok f)"
proof -
  from assms(1) obtain fs0 where fs0: "scan_dir lc hash [] fs = Ok fs0"
    and files: "files = sort_key sf_normalized_path fs0"
    and u: "validate_unique_normalized_paths [] files = Ok ()"
    by (auto simp: scan_vault_def Let_def and_then_eq_Ok split: fnode.splits)
  from u show "sorted_wrt (<) (map sf_normalized_path files)"
    by (simp add: validate_unique_Ok strict_sorted_iff files)
  show "f \<in> set files \<longleftrightarrow> (\<exists>p b t. scannable fs [] p b t \<and> scan_file lc hash p b t = Ok f)"
    using scan_dir_exact [OF fs0 assms(2), of f] by (simp add: files)
qed

text \<open>
  C11. A successful scan reports exactly the regular Markdown files of the vault no part of whose path
  is ignored and that are not behind a symbolic link, each with the hash, size and contents on disk,
  in strictly increasing order of their normalised paths.
\<close>

theorem scan_vault_exact:
  assumes "scan_vault lc hash root fs = Ok files" "fs_wf fs"
  shows "sorted_wrt (<) (map sf_normalized_path files) \<and>
    (\<forall>f. f \<in> set files \<longleftrightarrow> (\<exists>p b t. p \<noteq> [] \<and> fs_lookup fs p = Some (File b t) \<and>
       (\<forall>k < length p. \<not> should_ignore_path (take (Suc k) p)) \<and> is_markdown_path p \<and>
       normalize_vault_relative_path lc (to_relative_path p) = Ok (sf_normalized_path f) \<and>
       int (length b) \<le> i64_max \<and>
       f = \<lparr>sf_file_id = file_id_for_normalized_path hash (sf_normalized_path f),
            sf_path = to_relative_path p, sf_normalized_path = sf_normalized_path f,
            sf_plaintext_hash = hash b, sf_size_bytes = int (length b),
            sf_mtime_ms = modified_ms t, sf_plaintext = b\<rparr>))"
proof -
  have "scan_file lc hash p b t = Ok f \<longleftrightarrow>
      normalize_vault_relative_path lc (to_relative_path p) = Ok (sf_normalized_path f) \<and>
       int (length b) \<le> i64_max \<and>
       f = \<lparr>sf_file_id = file_id_for_normalized_path hash (sf_normalized_path f),
            sf_path = to_relative_path p, sf_normalized_path = sf_normalized_path f,
            sf_plaintext_hash = hash b, sf_size_bytes = int (length b),
            sf_mtime_ms = modified_ms t, sf_plaintext = b\<rparr>" for p b t f
    by (cases "normalize_vault_relative_path lc (to_relative_path p)") (auto simp: scan_file_def Let_def)
  with scan_vault_OkD [OF assms] show ?thesis
    by (simp add: scannable_def visible_def)
qed

definition sample_vault :: fnode where
  "sample_vault = Dir [(''N'', Dir [(''A.md'', File ''x'' 5)]), (''.git'', Dir [(''c.md'', File ''y'' 5)]),
     (''b.txt'', File ''z'' 5), (''l'', Symlink [])]"

lemma sample_vault_scan:
  "scan_vault to_ascii_lowercase id [''v''] sample_vault =
     Ok [\<lparr>sf_file_id = ''file_n/a.md'', sf_path = ''N/A.md'', sf_normalized_path = ''n/a.md'',
          sf_plaintext_hash = ''x'', sf_size_bytes = 1, sf_mtime_ms = 5, sf_plaintext = ''x''\<rparr>]"
  by code_simp

theorem scan_vault_exact_witness:
  "\<exists>p t. fs_lookup sample_vault p = Some (File ''x'' t) \<and> to_relative_path p = ''N/A.md''"
proof -
  have "fs_wf sample_vault" by (simp add: sample_vault_def)
  note exact = conjunct2 [OF scan_vault_exact [OF sample_vault_scan this]]
  have "\<lparr>sf_file_id = ''file_n/a.md'', sf_path = ''N/A.md'', sf_normalized_path = ''n/a.md'',
          sf_plaintext_hash = ''x'', sf_size_bytes = 1, sf_mtime_ms = 5, sf_plaintext = ''x''\<rparr>
    \<in> set [\<lparr>sf_file_id = ''file_n/a.md'', sf_path = ''N/A.md'', sf_normalized_path = ''n/a.md'',
          sf_plaintext_hash = ''x'', sf_size_bytes = 1, sf_mtime_ms = 5, sf_plaintext = ''x''\<rparr>]"
    by simp
  from iffD1 [OF spec [OF exact] this] show ?thesis
    by (elim exE conjE) (simp, blast)
qed

end
