(* ===== verification/Sync_Crypto.thy ===== *)
theory Sync_Crypto
  imports Sync_Errors
begin

text \<open>
  Encryption framing and key handling (\<^verbatim>\<open>sync/crypto.rs\<close> and the key derivation and wrapping of
  \<^verbatim>\<open>sync/keys.rs\<close>). The cipher, the hashes, Base64, Argon2id, Ed25519 and JSON are third-party crates:
  they are the fields of the record \<open>crypto_libs\<close>, an argument of every definition that calls
  them, and what is assumed of them is stated by the predicates \<open>aead_ok\<close>, \<open>sha256_ok\<close> and
  \<open>base64_ok\<close>. Random bytes (nonces, salts) are arguments. A key or hash of \<open>n\<close> bytes is a byte list
  of that length.
\<close>

section \<open>Data\<close>

record pack_aad =
  pa_format :: string
  pa_version :: nat
  pa_workspace_id :: string
  pa_object_id :: string
  pa_object_kind :: string
  pa_commit_id :: string

record commit_body_aad =
  cb_format :: string
  cb_version :: nat
  cb_workspace_id :: string
  cb_commit_id :: string
  cb_commit_kind :: string
  cb_parents :: "string list"
  cb_author_device_id :: string
  cb_device_seq :: int
  cb_body_object_id :: string

record key_envelope_aad =
  ke_format :: string
  ke_version :: nat
  ke_workspace_id :: string
  ke_envelope_id :: string
  ke_recipient_type :: string

record commit_signature_payload =
  sp_workspace_id :: string
  sp_commit_id :: string
  sp_commit_kind :: string
  sp_expected_head_commit_id :: string
  sp_parent_commit_ids :: "string list"
  sp_author_device_id :: string
  sp_device_seq :: int
  sp_body_object_id :: string
  sp_body_ciphertext_sha256 :: string
  sp_body_size_bytes :: int
  sp_referenced_object_ids :: "string list"

record blob_metadata =
  ciphertext_sha256 :: string
  size_bytes :: int

record parsed_encrypted_blob =
  nonce_of :: bytes
  aad_hash_of :: bytes
  ciphertext_and_tag :: bytes

type_synonym symmetric_key = bytes

record argon2id_kdf_params =
  kdf_name :: string
  kdf_salt :: string
  kdf_mem_kib :: nat
  kdf_iterations :: nat
  kdf_parallelism :: nat

record wrapped_workspace_key =
  wrap_alg :: string
  wrap_nonce :: string
  wrap_ciphertext :: string

record passphrase_key_envelope =
  env_workspace_id :: string
  env_envelope_id :: string
  env_recipient_type :: string
  env_key_version :: int
  env_kdf :: argon2id_kdf_params
  env_wrap :: wrapped_workspace_key

datatype workspace_key_source = Remembered | Passphrase

text \<open>The library functions. Serialisation of these types cannot fail.\<close>

record crypto_libs =
  aead_encrypt :: "symmetric_key \<Rightarrow> bytes \<Rightarrow> bytes \<Rightarrow> bytes \<Rightarrow> bytes option"
  aead_decrypt :: "symmetric_key \<Rightarrow> bytes \<Rightarrow> bytes \<Rightarrow> bytes \<Rightarrow> bytes option"
  sha256 :: "bytes \<Rightarrow> bytes"
  hex_encode :: "bytes \<Rightarrow> string"
  blake3_hex :: "bytes \<Rightarrow> string"
  blake3_keyed_hash :: "symmetric_key \<Rightarrow> bytes \<Rightarrow> symmetric_key"
  base64_encode :: "bytes \<Rightarrow> string"
  base64_decode :: "string \<Rightarrow> (bytes, string) result"
  argon2id :: "nat \<Rightarrow> nat \<Rightarrow> nat \<Rightarrow> string \<Rightarrow> bytes \<Rightarrow> (symmetric_key, string) result"
  ed25519_sign :: "bytes \<Rightarrow> bytes \<Rightarrow> bytes"
  ed25519_verify :: "bytes \<Rightarrow> bytes \<Rightarrow> bytes \<Rightarrow> bool"
  json_pack_aad :: "pack_aad \<Rightarrow> bytes"
  json_commit_body_aad :: "commit_body_aad \<Rightarrow> bytes"
  json_key_envelope_aad :: "key_envelope_aad \<Rightarrow> bytes"
  json_signature_payload :: "commit_signature_payload \<Rightarrow> bytes"

section \<open>Blobs\<close>

definition BLOB_MAGIC :: bytes where "BLOB_MAGIC = ''KUKUSYNCBLOB'' @ [nul]"
abbreviation BLOB_VERSION :: char where "BLOB_VERSION \<equiv> CHR 0x01"
abbreviation ALG_XCHACHA20_POLY1305 :: char where "ALG_XCHACHA20_POLY1305 \<equiv> CHR 0x01"
abbreviation XCHACHA20_NONCE_LEN :: nat where "XCHACHA20_NONCE_LEN \<equiv> 24"
abbreviation SHA256_LEN :: nat where "SHA256_LEN \<equiv> 32"
abbreviation BLOB_HEADER_FIXED_LEN :: nat where "BLOB_HEADER_FIXED_LEN \<equiv> 16"

definition new_pack_aad :: "string \<Rightarrow> string \<Rightarrow> string \<Rightarrow> string \<Rightarrow> pack_aad" where
  "new_pack_aad workspace_id object_id object_kind commit_id =
     \<lparr>pa_format = ''kuku.sync.pack'', pa_version = 1, pa_workspace_id = workspace_id,
      pa_object_id = object_id, pa_object_kind = object_kind, pa_commit_id = commit_id\<rparr>"

definition new_commit_body_aad ::
    "string \<Rightarrow> string \<Rightarrow> string \<Rightarrow> string list \<Rightarrow> string \<Rightarrow> int \<Rightarrow> string \<Rightarrow> commit_body_aad" where
  "new_commit_body_aad workspace_id commit_id commit_kind parents author_device_id device_seq
     body_object_id =
     \<lparr>cb_format = ''kuku.sync.commit-body'', cb_version = 1, cb_workspace_id = workspace_id,
      cb_commit_id = commit_id, cb_commit_kind = commit_kind, cb_parents = parents,
      cb_author_device_id = author_device_id, cb_device_seq = device_seq,
      cb_body_object_id = body_object_id\<rparr>"

definition key_envelope_aad_passphrase :: "string \<Rightarrow> string \<Rightarrow> key_envelope_aad" where
  "key_envelope_aad_passphrase workspace_id envelope_id =
     \<lparr>ke_format = ''kuku.sync.key-envelope'', ke_version = 1, ke_workspace_id = workspace_id,
      ke_envelope_id = envelope_id, ke_recipient_type = ''passphrase''\<rparr>"

definition new_commit_signature_payload ::
    "string \<Rightarrow> string \<Rightarrow> string \<Rightarrow> string \<Rightarrow> string list \<Rightarrow> string \<Rightarrow> int \<Rightarrow> string \<Rightarrow> string \<Rightarrow> int
      \<Rightarrow> string list \<Rightarrow> commit_signature_payload" where
  "new_commit_signature_payload workspace_id commit_id commit_kind expected_head parents author
     device_seq body_object_id body_sha body_size referenced =
     \<lparr>sp_workspace_id = workspace_id, sp_commit_id = commit_id, sp_commit_kind = commit_kind,
      sp_expected_head_commit_id = expected_head, sp_parent_commit_ids = parents,
      sp_author_device_id = author, sp_device_seq = device_seq,
      sp_body_object_id = body_object_id, sp_body_ciphertext_sha256 = body_sha,
      sp_body_size_bytes = body_size, sp_referenced_object_ids = sort referenced\<rparr>"

definition encrypt_blob_with_nonce ::
    "'z crypto_libs_scheme \<Rightarrow> ('t \<Rightarrow> bytes) \<Rightarrow> symmetric_key \<Rightarrow> 't \<Rightarrow> bytes \<Rightarrow> bytes
      \<Rightarrow> bytes sync_result" where
  "encrypt_blob_with_nonce L to_json key aad plaintext nonce =
     (let aad = to_json aad in
      case aead_encrypt L key nonce aad plaintext of
        None \<Rightarrow> Err (Crypto ''encrypt failed'')
      | Some ciphertext \<Rightarrow>
          Ok (BLOB_MAGIC @ [BLOB_VERSION, ALG_XCHACHA20_POLY1305, char_of XCHACHA20_NONCE_LEN]
              @ nonce @ sha256 L aad @ ciphertext))"

definition parse_blob :: "bytes \<Rightarrow> parsed_encrypted_blob sync_result" where
  "parse_blob blob =
     (if length blob < BLOB_HEADER_FIXED_LEN + XCHACHA20_NONCE_LEN + SHA256_LEN
      then Err (Crypto ''encrypted blob is too short'')
      else if take (length BLOB_MAGIC) blob \<noteq> BLOB_MAGIC
      then Err (Crypto ''invalid encrypted blob magic'')
      else
        let version = blob ! length BLOB_MAGIC in
        if version \<noteq> BLOB_VERSION then Err (UnsupportedVersion (byte version))
        else if blob ! (length BLOB_MAGIC + 1) \<noteq> ALG_XCHACHA20_POLY1305
        then Err (Crypto ''unsupported encrypted blob algorithm'')
        else
          let nonce_len = byte (blob ! (length BLOB_MAGIC + 2)) in
          if nonce_len \<noteq> XCHACHA20_NONCE_LEN
          then Err (Crypto ''invalid encrypted blob nonce length'')
          else
            let nonce_start = BLOB_HEADER_FIXED_LEN;
                aad_hash_start = nonce_start + nonce_len;
                ciphertext_start = aad_hash_start + SHA256_LEN
            in if length blob < ciphertext_start then Err (Crypto ''encrypted blob is truncated'')
               else Ok \<lparr>nonce_of = take nonce_len (drop nonce_start blob),
                        aad_hash_of = take SHA256_LEN (drop aad_hash_start blob),
                        ciphertext_and_tag = drop ciphertext_start blob\<rparr>)"

definition decrypt_blob ::
    "'z crypto_libs_scheme \<Rightarrow> ('t \<Rightarrow> bytes) \<Rightarrow> symmetric_key \<Rightarrow> 't \<Rightarrow> bytes \<Rightarrow> bytes sync_result" where
  "decrypt_blob L to_json key aad blob =
     (let aad = to_json aad in
      and_then (parse_blob blob) (\<lambda>parsed.
        if aad_hash_of parsed \<noteq> sha256 L aad then Err (Crypto ''aad hash mismatch'')
        else case aead_decrypt L key (nonce_of parsed) aad (ciphertext_and_tag parsed) of
               None \<Rightarrow> Err (Crypto ''decrypt failed'')
             | Some plaintext \<Rightarrow> Ok plaintext))"

definition encrypted_blob_metadata :: "'z crypto_libs_scheme \<Rightarrow> bytes \<Rightarrow> blob_metadata" where
  "encrypted_blob_metadata L blob =
     \<lparr>ciphertext_sha256 = hex_encode L (sha256 L blob),
      size_bytes = min (int (length blob)) i64_max\<rparr>"

definition encrypt_commit_body ::
    "'z crypto_libs_scheme \<Rightarrow> bytes \<Rightarrow> symmetric_key \<Rightarrow> commit_body_aad \<Rightarrow> bytes \<Rightarrow> bytes sync_result" where
  "encrypt_commit_body L nonce commit_key aad plaintext_body =
     encrypt_blob_with_nonce L (json_commit_body_aad L) commit_key aad plaintext_body nonce"

definition decrypt_commit_body ::
    "'z crypto_libs_scheme \<Rightarrow> symmetric_key \<Rightarrow> commit_body_aad \<Rightarrow> bytes \<Rightarrow> bytes sync_result" where
  "decrypt_commit_body L commit_key aad encrypted_body =
     decrypt_blob L (json_commit_body_aad L) commit_key aad encrypted_body"

definition sign_commit_payload ::
    "'z crypto_libs_scheme \<Rightarrow> bytes \<Rightarrow> commit_signature_payload \<Rightarrow> bytes" where
  "sign_commit_payload L signing_key payload =
     ed25519_sign L signing_key (json_signature_payload L payload)"

text \<open>An Ed25519 signature is 64 bytes long.\<close>

definition verify_commit_signature ::
    "'z crypto_libs_scheme \<Rightarrow> bytes \<Rightarrow> commit_signature_payload \<Rightarrow> bytes \<Rightarrow> unit sync_result" where
  "verify_commit_signature L verifying_key payload signature =
     (if length signature \<noteq> 64 then Err (Crypto ''invalid ed25519 signature length'')
      else if \<not> ed25519_verify L verifying_key (json_signature_payload L payload) signature
      then Err (Crypto ''invalid ed25519 signature'')
      else Ok ())"

section \<open>Keys\<close>

definition PACK_KEY_PURPOSE :: string where "PACK_KEY_PURPOSE = ''kuku-sync-pack-v1''"
definition COMMIT_BODY_KEY_PURPOSE :: string where
  "COMMIT_BODY_KEY_PURPOSE = ''kuku-sync-commit-body-v1''"
definition CHECKPOINT_KEY_PURPOSE :: string where "CHECKPOINT_KEY_PURPOSE = ''kuku-sync-checkpoint-v1''"
definition WRAP_KEY_PURPOSE :: string where "WRAP_KEY_PURPOSE = ''kuku-sync-wrap-v1''"

definition subkey_input :: "string \<Rightarrow> string \<Rightarrow> bytes" where
  "subkey_input purpose workspace_id = purpose @ [nul] @ workspace_id"

definition derive_subkey ::
    "'z crypto_libs_scheme \<Rightarrow> symmetric_key \<Rightarrow> string \<Rightarrow> string \<Rightarrow> symmetric_key" where
  "derive_subkey L workspace_key purpose workspace_id =
     blake3_keyed_hash L workspace_key (subkey_input purpose workspace_id)"

definition pack_key :: "'z crypto_libs_scheme \<Rightarrow> symmetric_key \<Rightarrow> string \<Rightarrow> symmetric_key" where
  "pack_key L k w = derive_subkey L k PACK_KEY_PURPOSE w"

definition commit_body_key :: "'z crypto_libs_scheme \<Rightarrow> symmetric_key \<Rightarrow> string \<Rightarrow> symmetric_key" where
  "commit_body_key L k w = derive_subkey L k COMMIT_BODY_KEY_PURPOSE w"

definition checkpoint_key :: "'z crypto_libs_scheme \<Rightarrow> symmetric_key \<Rightarrow> string \<Rightarrow> symmetric_key" where
  "checkpoint_key L k w = derive_subkey L k CHECKPOINT_KEY_PURPOSE w"

definition wrap_key :: "'z crypto_libs_scheme \<Rightarrow> symmetric_key \<Rightarrow> string \<Rightarrow> symmetric_key" where
  "wrap_key L k w = derive_subkey L k WRAP_KEY_PURPOSE w"

definition passphrase_kek ::
    "'z crypto_libs_scheme \<Rightarrow> string \<Rightarrow> argon2id_kdf_params \<Rightarrow> symmetric_key sync_result" where
  "passphrase_kek L passphrase params =
     (if kdf_name params \<noteq> ''argon2id'' then Err (Crypto ''unsupported passphrase kdf'')
      else case base64_decode L (kdf_salt params) of
        Err e \<Rightarrow> Err (Serialization (''invalid argon2id salt: '' @ e))
      | Ok salt \<Rightarrow>
          (case argon2id L (kdf_mem_kib params) (kdf_iterations params) (kdf_parallelism params)
                  passphrase salt of
             Err e \<Rightarrow> Err (Crypto e)
           | Ok key \<Rightarrow> Ok key))"

definition decode_fixed :: "'z crypto_libs_scheme \<Rightarrow> nat \<Rightarrow> string \<Rightarrow> string \<Rightarrow> bytes sync_result" where
  "decode_fixed L n value field =
     (case base64_decode L value of
        Err e \<Rightarrow> Err (Serialization (''invalid '' @ field @ '': '' @ e))
      | Ok b \<Rightarrow> if length b \<noteq> n then Err (Serialization (''invalid '' @ field @ '' length''))
                else Ok b)"

definition wrap_workspace_key_with_params ::
    "'z crypto_libs_scheme \<Rightarrow> bytes \<Rightarrow> string \<Rightarrow> string \<Rightarrow> int \<Rightarrow> symmetric_key \<Rightarrow> string
      \<Rightarrow> argon2id_kdf_params \<Rightarrow> passphrase_key_envelope sync_result" where
  "wrap_workspace_key_with_params L nonce workspace_id envelope_id key_version workspace_key
     passphrase kdf =
     and_then (passphrase_kek L passphrase kdf) (\<lambda>kek.
       let aad = json_key_envelope_aad L (key_envelope_aad_passphrase workspace_id envelope_id) in
       case aead_encrypt L kek nonce aad workspace_key of
         None \<Rightarrow> Err (Crypto ''workspace key wrap failed'')
       | Some ciphertext \<Rightarrow>
           Ok \<lparr>env_workspace_id = workspace_id, env_envelope_id = envelope_id,
               env_recipient_type = ''passphrase'', env_key_version = key_version, env_kdf = kdf,
               env_wrap = \<lparr>wrap_alg = ''XChaCha20-Poly1305'', wrap_nonce = base64_encode L nonce,
                           wrap_ciphertext = base64_encode L ciphertext\<rparr>\<rparr>)"

definition unwrap_workspace_key_with_passphrase ::
    "'z crypto_libs_scheme \<Rightarrow> passphrase_key_envelope \<Rightarrow> string \<Rightarrow> symmetric_key sync_result" where
  "unwrap_workspace_key_with_passphrase L envelope passphrase =
     (if env_recipient_type envelope \<noteq> ''passphrase''
      then Err (InvalidArgument ''key envelope recipient_type must be passphrase'')
      else if wrap_alg (env_wrap envelope) \<noteq> ''XChaCha20-Poly1305''
      then Err (Crypto ''unsupported workspace key wrap alg'')
      else
        and_then (passphrase_kek L passphrase (env_kdf envelope)) (\<lambda>kek.
        and_then (decode_fixed L XCHACHA20_NONCE_LEN (wrap_nonce (env_wrap envelope)) ''wrap nonce'')
          (\<lambda>nonce.
          case base64_decode L (wrap_ciphertext (env_wrap envelope)) of
            Err e \<Rightarrow> Err (Serialization (''invalid wrap ciphertext: '' @ e))
          | Ok ciphertext \<Rightarrow>
              let aad = json_key_envelope_aad L (key_envelope_aad_passphrase
                          (env_workspace_id envelope) (env_envelope_id envelope)) in
              (case aead_decrypt L kek nonce aad ciphertext of
                 None \<Rightarrow> Err (Crypto ''workspace key unwrap failed'')
               | Some plaintext \<Rightarrow>
                   if length plaintext \<noteq> 32 then Err (Crypto ''invalid workspace key length'')
                   else Ok plaintext))))"

definition unlock_workspace_key ::
    "'z crypto_libs_scheme \<Rightarrow> symmetric_key option \<Rightarrow> passphrase_key_envelope \<Rightarrow> string
      \<Rightarrow> (symmetric_key \<times> workspace_key_source) sync_result" where
  "unlock_workspace_key L remembered_key envelope passphrase =
     (case remembered_key of
        Some k \<Rightarrow> Ok (k, Remembered)
      | None \<Rightarrow> and_then (unwrap_workspace_key_with_passphrase L envelope passphrase)
                  (\<lambda>k. Ok (k, Passphrase)))"

section \<open>What is assumed of the libraries\<close>

text \<open>
  Encryption of a message within the cipher's limit (\<open>2 ^ 38 - 64\<close> bytes) succeeds and decryption
  under the same key, nonce and associated data inverts it; a SHA-256 digest has 32 bytes; Base64
  decoding inverts encoding.
\<close>

abbreviation AEAD_MAX_LEN :: int where "AEAD_MAX_LEN \<equiv> 274877906880"

definition aead_ok :: "'z crypto_libs_scheme \<Rightarrow> bool" where
  "aead_ok L \<longleftrightarrow>
     (\<forall>k n a m c. aead_encrypt L k n a m = Some c \<longrightarrow> aead_decrypt L k n a c = Some m) \<and>
     (\<forall>k n a m. int (length m) \<le> AEAD_MAX_LEN \<longrightarrow> aead_encrypt L k n a m \<noteq> None)"

definition sha256_ok :: "'z crypto_libs_scheme \<Rightarrow> bool" where
  "sha256_ok L \<longleftrightarrow> (\<forall>b. length (sha256 L b) = SHA256_LEN)"

definition base64_ok :: "'z crypto_libs_scheme \<Rightarrow> bool" where
  "base64_ok L \<longleftrightarrow> (\<forall>b. base64_decode L (base64_encode L b) = Ok b)"

text \<open>Functions that satisfy these assumptions, for the witnesses.\<close>

definition sample_crypto :: crypto_libs where
  "sample_crypto =
     \<lparr>aead_encrypt = (\<lambda>k n a m. Some (CHR ''c'' # m)), aead_decrypt = (\<lambda>k n a c. Some (tl c)),
      sha256 = (\<lambda>b. take SHA256_LEN (b @ replicate SHA256_LEN nul)), hex_encode = (\<lambda>b. b),
      blake3_hex = (\<lambda>b. b), blake3_keyed_hash = (\<lambda>k b. k), base64_encode = (\<lambda>b. b),
      base64_decode = Ok, argon2id = (\<lambda>m i p pass salt. Ok (replicate 32 CHR ''k'')),
      ed25519_sign = (\<lambda>k m. replicate 64 CHR ''s''), ed25519_verify = (\<lambda>k m sig. True),
      json_pack_aad = pa_object_id, json_commit_body_aad = cb_commit_id,
      json_key_envelope_aad = ke_envelope_id, json_signature_payload = sp_commit_id\<rparr>"

lemma sample_crypto_ok: "aead_ok sample_crypto" "sha256_ok sample_crypto" "base64_ok sample_crypto"
  by (simp_all add: aead_ok_def sha256_ok_def base64_ok_def sample_crypto_def min_def)

section \<open>Framing\<close>

definition blob_frame :: "parsed_encrypted_blob \<Rightarrow> bytes" where
  "blob_frame p = BLOB_MAGIC @ [BLOB_VERSION, ALG_XCHACHA20_POLY1305, char_of XCHACHA20_NONCE_LEN]
     @ nonce_of p @ aad_hash_of p @ ciphertext_and_tag p"

lemma length_BLOB_MAGIC [simp]: "length BLOB_MAGIC = 13"
  by (simp add: BLOB_MAGIC_def)

lemma parse_blob_frame:
  assumes "length (nonce_of p) = XCHACHA20_NONCE_LEN" "length (aad_hash_of p) = SHA256_LEN"
  shows "parse_blob (blob_frame p) = Ok p"
  using assms by (simp add: parse_blob_def blob_frame_def nth_append Let_def)

lemma parse_blob_OkD:
  assumes "parse_blob b = Ok p"
  shows "length (nonce_of p) = XCHACHA20_NONCE_LEN" "length (aad_hash_of p) = SHA256_LEN"
    "b = blob_frame p"
proof -
  have b: "72 \<le> length b" "take 13 b = BLOB_MAGIC" "b ! 13 = BLOB_VERSION"
      "b ! 14 = ALG_XCHACHA20_POLY1305" "b ! 15 = char_of XCHACHA20_NONCE_LEN"
    and p: "p = \<lparr>nonce_of = take 24 (drop 16 b), aad_hash_of = take 32 (drop 40 b),
      ciphertext_and_tag = drop 72 b\<rparr>"
    using assms by (auto simp: parse_blob_def Let_def split: if_splits dest: arg_cong [where f = char_of])
  show "length (nonce_of p) = XCHACHA20_NONCE_LEN" "length (aad_hash_of p) = SHA256_LEN"
    using b(1) by (simp_all add: p)
  have "drop 13 b = [b ! 13, b ! 14, b ! 15] @ drop 16 b"
    using Cons_nth_drop_Suc [of 13 b] Cons_nth_drop_Suc [of 14 b] Cons_nth_drop_Suc [of 15 b] b(1)
    by simp
  moreover have "drop 16 b = take 24 (drop 16 b) @ take 32 (drop 40 b) @ drop 72 b"
    using append_take_drop_id [of 24 "drop 16 b"] append_take_drop_id [of 32 "drop 40 b"] by simp
  ultimately show "b = blob_frame p"
    using b append_take_drop_id [of 13 b] by (simp add: blob_frame_def p)
qed

text \<open>
  The blob parser accepts exactly the framed blobs and returns the frame's parts: parsing and
  framing are inverse to each other, and no other byte string is taken for a blob.
\<close>

theorem parse_blob_iff:
  "parse_blob b = Ok p \<longleftrightarrow>
     b = blob_frame p \<and> length (nonce_of p) = XCHACHA20_NONCE_LEN \<and> length (aad_hash_of p) = SHA256_LEN"
  using parse_blob_OkD [of b p] parse_blob_frame [of p] by blast

lemma encrypt_blob_frame:
  "encrypt_blob_with_nonce L to_json key aad m n = Ok b \<longleftrightarrow>
     (\<exists>c. aead_encrypt L key n (to_json aad) m = Some c \<and>
        b = blob_frame \<lparr>nonce_of = n, aad_hash_of = sha256 L (to_json aad), ciphertext_and_tag = c\<rparr>)"
  by (auto simp: encrypt_blob_with_nonce_def blob_frame_def Let_def split: option.splits)

lemma decrypt_encrypted_blob:
  assumes "aead_ok L" "sha256_ok L" "length n = XCHACHA20_NONCE_LEN"
    and "encrypt_blob_with_nonce L to_json key aad m n = Ok b"
  shows "decrypt_blob L to_json key aad b = Ok m"
proof -
  from assms(4) obtain c where c: "aead_encrypt L key n (to_json aad) m = Some c"
    and b: "b = blob_frame \<lparr>nonce_of = n, aad_hash_of = sha256 L (to_json aad), ciphertext_and_tag = c\<rparr>"
    by (auto simp: encrypt_blob_frame)
  have "parse_blob b = Ok \<lparr>nonce_of = n, aad_hash_of = sha256 L (to_json aad), ciphertext_and_tag = c\<rparr>"
    unfolding b using assms(2,3) by (intro parse_blob_frame) (simp_all add: sha256_ok_def)
  with assms(1) c show ?thesis
    by (simp add: decrypt_blob_def aead_ok_def)
qed

lemma encrypt_blob_total:
  "aead_ok L \<Longrightarrow> int (length m) \<le> AEAD_MAX_LEN \<Longrightarrow>
   \<exists>b. encrypt_blob_with_nonce L to_json key aad m n = Ok b"
  by (auto simp: encrypt_blob_frame aead_ok_def)

text \<open>
  Encrypting succeeds for every message within the cipher's limit, and decrypting the blob with the
  same key and associated data returns the message.
\<close>

theorem blob_round_trip:
  assumes "aead_ok L" "sha256_ok L" "length nonce = XCHACHA20_NONCE_LEN"
    and "int (length m) \<le> AEAD_MAX_LEN"
  shows "\<exists>b. encrypt_blob_with_nonce L to_json key aad m nonce = Ok b
    \<and> decrypt_blob L to_json key aad b = Ok m"
  using encrypt_blob_total [OF assms(1,4), of to_json key aad nonce]
    decrypt_encrypted_blob [OF assms(1-3), of to_json key aad m] by blast

theorem blob_round_trip_witness:
  "\<exists>b. encrypt_blob_with_nonce sample_crypto id ''key'' ''aad'' ''text'' (replicate 24 nul) = Ok b
    \<and> decrypt_blob sample_crypto id ''key'' ''aad'' b = Ok ''text''"
  using blob_round_trip [OF sample_crypto_ok(1,2), of "replicate 24 nul" "''text''"] by simp

text \<open>
  A blob is bound to its associated data: presented with other associated data (another
  workspace, object, kind or commit) of different digest, decryption fails before the cipher runs.
\<close>

theorem decrypt_blob_wrong_aad:
  assumes "sha256_ok L" "length nonce = XCHACHA20_NONCE_LEN"
    and "encrypt_blob_with_nonce L to_json key aad m nonce = Ok b"
    and "sha256 L (to_json aad') \<noteq> sha256 L (to_json aad)"
  shows "decrypt_blob L to_json key' aad' b = Err (Crypto ''aad hash mismatch'')"
proof -
  from assms(3) obtain c where
    b: "b = blob_frame \<lparr>nonce_of = nonce, aad_hash_of = sha256 L (to_json aad), ciphertext_and_tag = c\<rparr>"
    by (auto simp: encrypt_blob_frame)
  have "parse_blob b = Ok \<lparr>nonce_of = nonce, aad_hash_of = sha256 L (to_json aad), ciphertext_and_tag = c\<rparr>"
    unfolding b using assms(1,2) by (intro parse_blob_frame) (simp_all add: sha256_ok_def)
  with assms(4) show ?thesis
    by (simp add: decrypt_blob_def)
qed

theorem decrypt_blob_wrong_aad_witness:
  "\<exists>b. encrypt_blob_with_nonce sample_crypto id ''key'' ''aad'' ''text'' (replicate 24 nul) = Ok b
    \<and> decrypt_blob sample_crypto id ''key'' ''other'' b = Err (Crypto ''aad hash mismatch'')"
proof -
  obtain b where b: "encrypt_blob_with_nonce sample_crypto id ''key'' ''aad'' ''text'' (replicate 24 nul) = Ok b"
    using encrypt_blob_total [OF sample_crypto_ok(1), of "''text''"] by fastforce
  have "sha256 sample_crypto (id ''other'') \<noteq> sha256 sample_crypto (id ''aad'')"
    by (simp add: sample_crypto_def)
  then have "decrypt_blob sample_crypto id ''key'' ''other'' b = Err (Crypto ''aad hash mismatch'')"
    by (intro decrypt_blob_wrong_aad [OF sample_crypto_ok(2) _ b]) simp
  with b show ?thesis by blast
qed

section \<open>Key wrapping and derivation\<close>

text \<open>
  A workspace key wrapped under a passphrase is recovered from the envelope with the same
  passphrase, whatever the envelope's salt and cost parameters.
\<close>

theorem workspace_key_wrap_round_trip:
  assumes "aead_ok L" "base64_ok L" "length nonce = XCHACHA20_NONCE_LEN" "length key = 32"
    and "passphrase_kek L passphrase kdf = Ok kek"
  shows "\<exists>env. wrap_workspace_key_with_params L nonce ws eid ver key passphrase kdf = Ok env
    \<and> unwrap_workspace_key_with_passphrase L env passphrase = Ok key"
proof -
  let ?aad = "json_key_envelope_aad L (key_envelope_aad_passphrase ws eid)"
  obtain c where c: "aead_encrypt L kek nonce ?aad key = Some c"
    using assms(1,4) by (fastforce simp: aead_ok_def)
  with assms(1) have "aead_decrypt L kek nonce ?aad c = Some key"
    by (simp add: aead_ok_def)
  with assms(2-5) c show ?thesis
    by (simp add: wrap_workspace_key_with_params_def unwrap_workspace_key_with_passphrase_def
        decode_fixed_def base64_ok_def)
qed

theorem workspace_key_wrap_round_trip_witness:
  "\<exists>env. wrap_workspace_key_with_params sample_crypto (replicate 24 nul) ''w'' ''e'' 1 (replicate 32 CHR ''x'')
      ''secret'' \<lparr>kdf_name = ''argon2id'', kdf_salt = ''s'', kdf_mem_kib = 65536, kdf_iterations = 3,
        kdf_parallelism = 1\<rparr> = Ok env
    \<and> unwrap_workspace_key_with_passphrase sample_crypto env ''secret'' = Ok (replicate 32 CHR ''x'')"
proof -
  have "passphrase_kek sample_crypto ''secret'' \<lparr>kdf_name = ''argon2id'', kdf_salt = ''s'',
      kdf_mem_kib = 65536, kdf_iterations = 3, kdf_parallelism = 1\<rparr> = Ok (replicate 32 CHR ''k'')"
    by (simp add: passphrase_kek_def sample_crypto_def)
  then show ?thesis
    by (intro workspace_key_wrap_round_trip [OF sample_crypto_ok(1,3)]) simp_all
qed

lemma subkey_input_inject:
  "nul \<notin> set p \<Longrightarrow> nul \<notin> set p' \<Longrightarrow> subkey_input p w = subkey_input p' w' \<longleftrightarrow> p = p' \<and> w = w'"
proof (induction p arbitrary: p')
  case Nil
  then show ?case by (cases p') (auto simp: subkey_input_def)
next
  case (Cons c p)
  then show ?case by (cases p') (auto simp: subkey_input_def)
qed

text \<open>
  Domain separation: the hash inputs of the derived keys differ whenever the purpose or the
  workspace differs, so no two derived keys share their input.
\<close>

theorem derived_key_inputs_distinct:
  assumes "p \<in> {PACK_KEY_PURPOSE, COMMIT_BODY_KEY_PURPOSE, CHECKPOINT_KEY_PURPOSE, WRAP_KEY_PURPOSE}"
    and "p' \<in> {PACK_KEY_PURPOSE, COMMIT_BODY_KEY_PURPOSE, CHECKPOINT_KEY_PURPOSE, WRAP_KEY_PURPOSE}"
  shows "(subkey_input p w = subkey_input p' w' \<longleftrightarrow> p = p' \<and> w = w') \<and>
    distinct [PACK_KEY_PURPOSE, COMMIT_BODY_KEY_PURPOSE, CHECKPOINT_KEY_PURPOSE, WRAP_KEY_PURPOSE]"
proof
  have "nul \<notin> set p" "nul \<notin> set p'"
    using assms by (auto simp: PACK_KEY_PURPOSE_def COMMIT_BODY_KEY_PURPOSE_def
        CHECKPOINT_KEY_PURPOSE_def WRAP_KEY_PURPOSE_def)
  then show "subkey_input p w = subkey_input p' w' \<longleftrightarrow> p = p' \<and> w = w'"
    by (rule subkey_input_inject)
  show "distinct [PACK_KEY_PURPOSE, COMMIT_BODY_KEY_PURPOSE, CHECKPOINT_KEY_PURPOSE, WRAP_KEY_PURPOSE]"
    by (simp add: PACK_KEY_PURPOSE_def COMMIT_BODY_KEY_PURPOSE_def
        CHECKPOINT_KEY_PURPOSE_def WRAP_KEY_PURPOSE_def)
qed

theorem derived_key_inputs_distinct_witness:
  "subkey_input PACK_KEY_PURPOSE ''w'' \<noteq> subkey_input CHECKPOINT_KEY_PURPOSE ''w''"
  using derived_key_inputs_distinct [of PACK_KEY_PURPOSE CHECKPOINT_KEY_PURPOSE "''w''" "''w''"] by simp

end
