(* ===== verification/Sample_Codec.thy ===== *)
theory Sample_Codec
  imports Rust_Std
begin

text \<open>
  A small self-delimiting encoding of lists of byte strings with its decoder. It serves as a
  concrete instance of the archive and JSON formats, which the model leaves to their crates, where
  a property is shown to apply to an actual input.
\<close>

fun enc_token :: "string \<Rightarrow> string" where
  "enc_token [] = ''.''"
| "enc_token (c # s) = CHR ''x'' # c # enc_token s"

definition enc_tokens :: "string list \<Rightarrow> string" where
  "enc_tokens ts = concat (map enc_token ts)"

fun dec_tokens :: "string \<Rightarrow> string \<Rightarrow> string list option" where
  "dec_tokens acc [] = (if acc = [] then Some [] else None)"
| "dec_tokens acc [c] = (if c = dot then Some [rev acc] else None)"
| "dec_tokens acc (c # d # s) =
     (if c = dot then map_option (Cons (rev acc)) (dec_tokens [] (d # s))
      else if c = CHR ''x'' then dec_tokens (d # acc) s
      else None)"

lemma dec_enc_token:
  "dec_tokens acc (enc_token t @ s) =
     (if s = [] then Some [rev acc @ t] else map_option (Cons (rev acc @ t)) (dec_tokens [] s))"
proof (induction t arbitrary: acc)
  case Nil
  show ?case by (cases s) auto
next
  case (Cons c t)
  show ?case by (simp add: Cons.IH)
qed

lemma enc_token_not_Nil [simp]: "enc_token t \<noteq> []"
  by (cases t) auto

lemma dec_enc_tokens [simp]: "dec_tokens [] (enc_tokens ts) = Some ts"
proof (induction ts)
  case Nil
  show ?case by (simp add: enc_tokens_def)
next
  case (Cons t ts)
  have "enc_tokens ts = [] \<longleftrightarrow> ts = []"
    by (cases ts) (auto simp: enc_tokens_def)
  with Cons show ?case
    using dec_enc_token [of "[]" t "enc_tokens ts"] by (auto simp: enc_tokens_def)
qed

text \<open>Numbers in unary with a sign.\<close>

definition enc_int :: "int \<Rightarrow> string" where
  "enc_int i = (if i < 0 then CHR ''-'' else CHR ''+'') # replicate (nat \<bar>i\<bar>) CHR ''i''"

definition dec_int :: "string \<Rightarrow> int" where
  "dec_int s = (if hd s = CHR ''-'' then - int (length (tl s)) else int (length (tl s)))"

lemma dec_enc_int [simp]: "dec_int (enc_int i) = i"
  by (simp add: dec_int_def enc_int_def)

text \<open>Lists of encoded values.\<close>

definition enc_list :: "('a \<Rightarrow> string list) \<Rightarrow> 'a list \<Rightarrow> string" where
  "enc_list f xs = enc_tokens (map (enc_tokens \<circ> f) xs)"

definition dec_list :: "(string list \<Rightarrow> 'a option) \<Rightarrow> string \<Rightarrow> 'a list option" where
  "dec_list g s =
     Option.bind (dec_tokens [] s) (\<lambda>ts.
       let rs = map (\<lambda>t. Option.bind (dec_tokens [] t) g) ts in
       if None \<in> set rs then None else Some (map the rs))"

lemma dec_enc_list [simp]:
  assumes "\<And>x. g (f x) = Some x"
  shows "dec_list g (enc_list f xs) = Some xs"
  by (simp add: dec_list_def enc_list_def comp_def assms image_iff)

end
