(* ===== verification/Sync_Packer.thy ===== *)
theory Sync_Packer
  imports Sync_Crypto Sample_Codec
begin

text \<open>
  Packs (\<^verbatim>\<open>sync/packer.rs\<close>): a pack is a tar archive with an index and one file per entry,
  compressed and encrypted. The tar, zstd and JSON crates are parameters: \<open>tar_build\<close> writes
  regular files with the fixed header of \<^verbatim>\<open>append_canonical_file\<close> in the order given, \<open>tar_read\<close>
  yields the entries of an archive one after the other, each possibly an error.
\<close>

section \<open>Data\<close>

record pack_entry_input =
  pe_entry_id :: string
  pe_plaintext :: bytes

record pack_index_entry =
  pi_entry_id :: string
  pi_plaintext_hash :: string
  pi_size_bytes :: int

record pack_index =
  px_format :: string
  px_version :: nat
  px_pack_id :: string
  px_entries :: "pack_index_entry list"

record unpacked_pack =
  up_index :: pack_index
  up_entries :: "(string \<times> bytes) list"

record encrypted_pack =
  ep_object_id :: string
  ep_metadata :: blob_metadata
  ep_blob :: bytes

record tar_entry =
  te_is_file :: bool
  te_path :: string
  te_bytes :: "(bytes, string) result"

record pack_libs = crypto_libs +
  tar_build :: "(string \<times> bytes) list \<Rightarrow> (bytes, string) result"
  tar_read :: "bytes \<Rightarrow> (tar_entry, string) result list"
  zstd_encode :: "bytes \<Rightarrow> (bytes, string) result"
  zstd_decode :: "bytes \<Rightarrow> (bytes, string) result"
  json_pack_index :: "pack_index \<Rightarrow> bytes"
  pack_index_of_json :: "bytes \<Rightarrow> (pack_index, string) result"

text \<open>The conversions \<^verbatim>\<open>From<io::Error>\<close> and \<^verbatim>\<open>From<serde_json::Error>\<close> behind the \<^verbatim>\<open>?\<close> operator.\<close>

fun io_result :: "('a, string) result \<Rightarrow> 'a sync_result" where
  "io_result (Ok a) = Ok a"
| "io_result (Err e) = Err (Storage e)"

fun json_result :: "('a, string) result \<Rightarrow> 'a sync_result" where
  "json_result (Ok a) = Ok a"
| "json_result (Err e) = Err (Serialization e)"

section \<open>Operations\<close>

definition PACK_INDEX_PATH :: string where "PACK_INDEX_PATH = ''pack-index.json''"
definition ENTRIES_DIR :: string where "ENTRIES_DIR = ''entries''"

definition entry_path_of :: "string \<Rightarrow> string" where
  "entry_path_of entry_id = ENTRIES_DIR @ [slash] @ entry_id"

definition validate_entry_id :: "string \<Rightarrow> unit sync_result" where
  "validate_entry_id entry_id =
     (if entry_id = [] \<or> entry_id = ''.'' \<or> entry_id = ''..'' \<or> slash \<in> set entry_id
         \<or> backslash \<in> set entry_id
         \<or> \<not> (\<forall>ch \<in> set entry_id. is_ascii_alphanumeric ch \<or> ch \<in> set ''-_.'')
      then Err (InvalidArgument ''invalid pack entry id'')
      else Ok ())"

fun tar_path_parts :: "component list \<Rightarrow> string list sync_result" where
  "tar_path_parts [] = Ok []"
| "tar_path_parts (Normal v # cs) =
     (if \<not> utf8_valid v then Err (Crypto ''pack tar path is not utf-8'')
      else if v = [] then Err (Crypto ''pack tar path has empty segment'')
      else and_then (tar_path_parts cs) (\<lambda>vs. Ok (v # vs)))"
| "tar_path_parts (_ # cs) = Err (Crypto ''pack tar path traversal is not allowed'')"

definition validate_tar_path :: "string \<Rightarrow> string sync_result" where
  "validate_tar_path path =
     and_then (tar_path_parts (components path)) (\<lambda>parts.
       if parts = [] then Err (Crypto ''pack tar path is empty'')
       else if parts = [PACK_INDEX_PATH] then Ok PACK_INDEX_PATH
       else if length parts = 2 \<and> parts ! 0 = ENTRIES_DIR
       then and_then (validate_entry_id (parts ! 1)) (\<lambda>_. Ok (entry_path_of (parts ! 1)))
       else Err (Crypto ''unexpected pack tar path''))"

fun read_tar_entries ::
    "(tar_entry, string) result list \<Rightarrow> (string \<times> bytes) list \<Rightarrow> (string \<times> bytes) list sync_result" where
  "read_tar_entries [] files = Ok files"
| "read_tar_entries (r # rs) files =
     and_then (io_result r) (\<lambda>entry.
       if \<not> te_is_file entry then Err (Crypto ''pack contains non-file tar entry'')
       else
         and_then (validate_tar_path (te_path entry)) (\<lambda>path.
         and_then (io_result (te_bytes entry)) (\<lambda>b.
           if bt_get files path \<noteq> None then Err (Crypto (''duplicate pack tar path: '' @ path))
           else read_tar_entries rs (bt_insert path b files))))"

definition read_canonical_tar_files ::
    "'z pack_libs_scheme \<Rightarrow> bytes \<Rightarrow> (string \<times> bytes) list sync_result" where
  "read_canonical_tar_files L pack = read_tar_entries (tar_read L pack) []"

definition object_key ::
    "'z pack_libs_scheme \<Rightarrow> symmetric_key \<Rightarrow> string \<Rightarrow> string \<Rightarrow> symmetric_key sync_result" where
  "object_key L workspace_key workspace_id object_kind =
     (if object_kind = ''content_pack'' then Ok (pack_key L workspace_key workspace_id)
      else if object_kind = ''checkpoint_pack'' then Ok (checkpoint_key L workspace_key workspace_id)
      else Err (InvalidArgument ''unsupported pack object kind''))"

definition index_entry :: "'z pack_libs_scheme \<Rightarrow> pack_entry_input \<Rightarrow> pack_index_entry" where
  "index_entry L entry =
     \<lparr>pi_entry_id = pe_entry_id entry, pi_plaintext_hash = blake3_hex L (pe_plaintext entry),
      pi_size_bytes = min (int (length (pe_plaintext entry))) i64_max\<rparr>"

definition plain_pack_index :: "'z pack_libs_scheme \<Rightarrow> string \<Rightarrow> pack_entry_input list \<Rightarrow> pack_index" where
  "plain_pack_index L pack_id entries =
     \<lparr>px_format = ''kuku.sync.pack'', px_version = 1, px_pack_id = pack_id,
      px_entries = map (index_entry L) entries\<rparr>"

text \<open>\<^verbatim>\<open>windows(2).any\<close>: two neighbours with the same identifier.\<close>

fun neighbours_equal :: "string list \<Rightarrow> bool" where
  "neighbours_equal (x # y # zs) \<longleftrightarrow> x = y \<or> neighbours_equal (y # zs)"
| "neighbours_equal _ \<longleftrightarrow> False"

definition create_plain_pack ::
    "'z pack_libs_scheme \<Rightarrow> string \<Rightarrow> pack_entry_input list \<Rightarrow> bytes sync_result" where
  "create_plain_pack L pack_id entries =
     (let entries = sort_key pe_entry_id entries in
      and_then (collect_results (\<lambda>e. validate_entry_id (pe_entry_id e)) entries) (\<lambda>_.
        if neighbours_equal (map pe_entry_id entries)
        then Err (InvalidArgument ''duplicate pack entry id'')
        else
          let index_json = json_pack_index L (plain_pack_index L pack_id entries)
          in io_result (tar_build L ((PACK_INDEX_PATH, index_json) #
               map (\<lambda>e. (entry_path_of (pe_entry_id e), pe_plaintext e)) entries))))"

fun check_entries ::
    "'z pack_libs_scheme \<Rightarrow> (string \<times> bytes) list \<Rightarrow> pack_index_entry list \<Rightarrow> (string \<times> bytes) list
      \<Rightarrow> (string \<times> bytes) list sync_result" where
  "check_entries L files [] entries = Ok entries"
| "check_entries L files (item # items) entries =
     and_then (validate_entry_id (pi_entry_id item)) (\<lambda>_.
     and_then (ok_or (bt_get files (entry_path_of (pi_entry_id item)))
         (Crypto (''pack entry missing: '' @ pi_entry_id item))) (\<lambda>b.
       if min (int (length b)) i64_max \<noteq> pi_size_bytes item
       then Err (Crypto (''pack entry size mismatch: '' @ pi_entry_id item))
       else if blake3_hex L b \<noteq> pi_plaintext_hash item
       then Err (Crypto (''pack entry hash mismatch: '' @ pi_entry_id item))
       else check_entries L files items (bt_insert (pi_entry_id item) b entries)))"

definition unpack_plain_pack :: "'z pack_libs_scheme \<Rightarrow> bytes \<Rightarrow> unpacked_pack sync_result" where
  "unpack_plain_pack L pack =
     and_then (read_canonical_tar_files L pack) (\<lambda>files.
     and_then (ok_or (bt_get files PACK_INDEX_PATH) (Crypto ''pack index missing'')) (\<lambda>index_bytes.
     and_then (json_result (pack_index_of_json L index_bytes)) (\<lambda>index.
       if px_format index \<noteq> ''kuku.sync.pack'' \<or> px_version index \<noteq> 1
       then Err (UnsupportedVersion (px_version index))
       else
         and_then (check_entries L files (px_entries index) []) (\<lambda>entries.
           if length files \<noteq> length (px_entries index) + 1
           then Err (Crypto ''pack contains unreferenced entries'')
           else Ok \<lparr>up_index = index, up_entries = entries\<rparr>))))"

definition encrypt_pack ::
    "'z pack_libs_scheme \<Rightarrow> bytes \<Rightarrow> symmetric_key \<Rightarrow> string \<Rightarrow> string \<Rightarrow> string \<Rightarrow> string
      \<Rightarrow> pack_entry_input list \<Rightarrow> encrypted_pack sync_result" where
  "encrypt_pack L nonce workspace_key workspace_id object_id object_kind commit_id entries =
     and_then (create_plain_pack L object_id entries) (\<lambda>pack.
     and_then (io_result (zstd_encode L pack)) (\<lambda>compressed.
     and_then (object_key L workspace_key workspace_id object_kind) (\<lambda>key.
     and_then (encrypt_blob_with_nonce L (json_pack_aad L) key
         (new_pack_aad workspace_id object_id object_kind commit_id) compressed nonce) (\<lambda>blob.
       Ok \<lparr>ep_object_id = object_id, ep_metadata = encrypted_blob_metadata L blob,
           ep_blob = blob\<rparr>))))"

definition decrypt_pack ::
    "'z pack_libs_scheme \<Rightarrow> symmetric_key \<Rightarrow> string \<Rightarrow> string \<Rightarrow> string \<Rightarrow> string \<Rightarrow> bytes
      \<Rightarrow> unpacked_pack sync_result" where
  "decrypt_pack L workspace_key workspace_id object_id object_kind commit_id blob =
     and_then (object_key L workspace_key workspace_id object_kind) (\<lambda>key.
     and_then (decrypt_blob L (json_pack_aad L) key
         (new_pack_aad workspace_id object_id object_kind commit_id) blob) (\<lambda>compressed.
     and_then (io_result (zstd_decode L compressed)) (\<lambda>plain.
     and_then (unpack_plain_pack L plain) (\<lambda>unpacked.
       if px_pack_id (up_index unpacked) \<noteq> object_id then Err (Crypto ''pack id mismatch'')
       else Ok unpacked))))"

section \<open>What is assumed of the libraries\<close>

text \<open>
  Reading an archive back yields the files written, in order; decompression inverts compression;
  parsing inverts the serialisation of the index.
\<close>

definition tar_ok :: "'z pack_libs_scheme \<Rightarrow> bool" where
  "tar_ok L \<longleftrightarrow> (\<forall>fs b. tar_build L fs = Ok b \<longrightarrow>
     tar_read L b = map (\<lambda>(p, c). Ok \<lparr>te_is_file = True, te_path = p, te_bytes = Ok c\<rparr>) fs)"

definition zstd_ok :: "'z pack_libs_scheme \<Rightarrow> bool" where
  "zstd_ok L \<longleftrightarrow> (\<forall>b c. zstd_encode L b = Ok c \<longrightarrow> zstd_decode L c = Ok b)"

definition index_json_ok :: "'z pack_libs_scheme \<Rightarrow> bool" where
  "index_json_ok L \<longleftrightarrow> (\<forall>i. pack_index_of_json L (json_pack_index L i) = Ok i)"

lemma io_result_eq_Ok [result_simps]: "io_result r = Ok a \<longleftrightarrow> r = Ok a"
  by (cases r) auto

lemma json_result_eq_Ok [result_simps]: "json_result r = Ok a \<longleftrightarrow> r = Ok a"
  by (cases r) auto

text \<open>Functions that satisfy these assumptions, for the witnesses.\<close>

definition file_of_tokens :: "string list \<Rightarrow> (string \<times> bytes) option" where
  "file_of_tokens ts = (case ts of [p, c] \<Rightarrow> Some (p, c) | _ \<Rightarrow> None)"

definition index_entry_tokens :: "pack_index_entry \<Rightarrow> string list" where
  "index_entry_tokens e = [pi_entry_id e, pi_plaintext_hash e, enc_int (pi_size_bytes e)]"

definition index_entry_of_tokens :: "string list \<Rightarrow> pack_index_entry option" where
  "index_entry_of_tokens ts =
     (case ts of
        [i, h, n] \<Rightarrow> Some \<lparr>pi_entry_id = i, pi_plaintext_hash = h, pi_size_bytes = dec_int n\<rparr>
      | _ \<Rightarrow> None)"

definition sample_index_json :: "pack_index \<Rightarrow> bytes" where
  "sample_index_json i = enc_tokens
     [px_format i, enc_int (int (px_version i)), px_pack_id i, enc_list index_entry_tokens (px_entries i)]"

definition sample_index_of_json :: "bytes \<Rightarrow> (pack_index, string) result" where
  "sample_index_of_json b =
     (case dec_tokens [] b of
        Some [f, v, p, es] \<Rightarrow>
          (case dec_list index_entry_of_tokens es of
             Some es \<Rightarrow> Ok \<lparr>px_format = f, px_version = nat (dec_int v), px_pack_id = p, px_entries = es\<rparr>
           | None \<Rightarrow> Err ''invalid'')
      | _ \<Rightarrow> Err ''invalid'')"

definition sample_tar_read :: "bytes \<Rightarrow> (tar_entry, string) result list" where
  "sample_tar_read b =
     (case dec_list file_of_tokens b of
        None \<Rightarrow> [Err ''invalid'']
      | Some fs \<Rightarrow> map (\<lambda>(p, c). Ok \<lparr>te_is_file = True, te_path = p, te_bytes = Ok c\<rparr>) fs)"

definition sample_pack :: pack_libs where
  "sample_pack = crypto_libs.extend sample_crypto (pack_libs.fields
     (\<lambda>fs. Ok (enc_list (\<lambda>(p, c). [p, c]) fs)) sample_tar_read Ok Ok
     sample_index_json sample_index_of_json)"

lemmas sample_pack_defs = sample_pack_def crypto_libs.defs pack_libs.defs

lemma sample_pack_crypto_ok: "aead_ok sample_pack" "sha256_ok sample_pack"
  using sample_crypto_ok(1,2) by (simp_all add: aead_ok_def sha256_ok_def sample_pack_defs)

lemma sample_pack_ok: "tar_ok sample_pack" "zstd_ok sample_pack" "index_json_ok sample_pack"
proof -
  have "dec_list file_of_tokens (enc_list (\<lambda>(p, c). [p, c]) fs) = Some fs" for fs
    by (rule dec_enc_list) (auto simp: file_of_tokens_def)
  then show "tar_ok sample_pack"
    by (simp add: tar_ok_def sample_pack_defs sample_tar_read_def)
  show "zstd_ok sample_pack"
    by (simp add: zstd_ok_def sample_pack_defs)
  have "dec_list index_entry_of_tokens (enc_list index_entry_tokens es) = Some es" for es
    by (rule dec_enc_list) (simp add: index_entry_of_tokens_def index_entry_tokens_def)
  then show "index_json_ok sample_pack"
    by (simp add: index_json_ok_def sample_pack_defs sample_index_json_def sample_index_of_json_def)
qed

section \<open>Facts about entry names and ordered entries\<close>

lemma validate_entry_id_Ok:
  assumes "validate_entry_id i = Ok u"
  shows "i \<noteq> []" "i \<noteq> ''.''" "i \<noteq> ''..''" "slash \<notin> set i" "\<forall>c \<in> set i. byte c < 128"
  using assms
  by (auto simp: validate_entry_id_def is_ascii_alphanumeric_def is_ascii_digit_def split: if_splits)

lemma utf8_valid_ascii: "\<forall>c \<in> set s. byte c < 128 \<Longrightarrow> utf8_valid s"
  by (induction s) auto

lemma components_entry_path:
  assumes "validate_entry_id i = Ok u"
  shows "components (entry_path_of i) = [Normal ENTRIES_DIR, Normal i]"
proof -
  have "split_char slash (entry_path_of i) = [ENTRIES_DIR, i]"
    using validate_entry_id_Ok [OF assms]
    by (simp add: entry_path_of_def ENTRIES_DIR_def split_char_no_sep)
  then show ?thesis
    using validate_entry_id_Ok [OF assms]
    by (simp add: components_def segment_component_def ENTRIES_DIR_def map_filter_def)
qed

lemma validate_tar_path_entry:
  assumes "validate_entry_id i = Ok u"
  shows "validate_tar_path (entry_path_of i) = Ok (entry_path_of i)"
proof -
  have "utf8_valid ENTRIES_DIR" "ENTRIES_DIR \<noteq> []"
    by (simp_all add: ENTRIES_DIR_def)
  then show ?thesis
    using assms validate_entry_id_Ok [OF assms]
    by (simp add: validate_tar_path_def components_entry_path [OF assms] utf8_valid_ascii)
qed

lemma validate_tar_path_index: "validate_tar_path PACK_INDEX_PATH = Ok PACK_INDEX_PATH"
proof -
  have "components PACK_INDEX_PATH = [Normal PACK_INDEX_PATH]" and "utf8_valid PACK_INDEX_PATH"
    by (simp_all add: PACK_INDEX_PATH_def components_def segment_component_def map_filter_def)
  then show ?thesis
    by (simp add: validate_tar_path_def) (simp add: PACK_INDEX_PATH_def)
qed

lemma entry_path_of_inject [simp]: "entry_path_of i = entry_path_of j \<longleftrightarrow> i = j"
  by (simp add: entry_path_of_def)

lemma entry_path_not_index [simp]: "entry_path_of i \<noteq> PACK_INDEX_PATH" "PACK_INDEX_PATH \<noteq> entry_path_of i"
  by (simp_all add: entry_path_of_def PACK_INDEX_PATH_def ENTRIES_DIR_def)

lemma sorted_neighbours: "sorted xs \<Longrightarrow> neighbours_equal xs \<longleftrightarrow> \<not> distinct xs"
proof (induction xs rule: neighbours_equal.induct)
  case (1 x y zs)
  then show ?case by (auto simp: eq_iff)
qed auto

lemma sort_key_ids:
  assumes "distinct (map pe_entry_id es)"
  shows "sorted_wrt (<) (map pe_entry_id (sort_key pe_entry_id es))"
proof -
  have "distinct (map pe_entry_id (sort_key pe_entry_id es))"
    using assms by (metis distinct_map set_sort distinct_sort)
  then show ?thesis by (simp add: strict_sorted_iff)
qed

section \<open>Writing and reading back\<close>

definition pack_files :: "'z pack_libs_scheme \<Rightarrow> string \<Rightarrow> pack_entry_input list \<Rightarrow> (string \<times> bytes) list" where
  "pack_files L pack_id entries =
     (PACK_INDEX_PATH, json_pack_index L (plain_pack_index L pack_id entries)) #
     map (\<lambda>e. (entry_path_of (pe_entry_id e), pe_plaintext e)) entries"

lemma create_plain_pack_eq:
  "create_plain_pack L pack_id entries =
     (let es = sort_key pe_entry_id entries in
      and_then (collect_results (\<lambda>e. validate_entry_id (pe_entry_id e)) es) (\<lambda>_.
        if \<not> distinct (map pe_entry_id entries) then Err (InvalidArgument ''duplicate pack entry id'')
        else io_result (tar_build L (pack_files L pack_id es))))"
proof -
  have "distinct (map pe_entry_id (sort_key pe_entry_id entries)) \<longleftrightarrow> distinct (map pe_entry_id entries)"
    by (metis distinct_map distinct_sort set_sort)
  then show ?thesis
    by (simp add: create_plain_pack_def pack_files_def sorted_neighbours Let_def)
qed

lemma create_plain_pack_OkD:
  assumes "create_plain_pack L pack_id entries = Ok b"
  shows "\<forall>e \<in> set entries. is_ok (validate_entry_id (pe_entry_id e))"
    and "distinct (map pe_entry_id entries)"
    and "tar_build L (pack_files L pack_id (sort_key pe_entry_id entries)) = Ok b"
proof -
  obtain us where us: "collect_results (\<lambda>e. validate_entry_id (pe_entry_id e)) (sort_key pe_entry_id entries) = Ok us"
    and d: "distinct (map pe_entry_id entries)"
    and t: "io_result (tar_build L (pack_files L pack_id (sort_key pe_entry_id entries))) = Ok b"
    using assms by (auto simp: create_plain_pack_eq and_then_eq_Ok Let_def split: if_splits)
  have "is_ok (validate_entry_id (pe_entry_id e))" if "e \<in> set entries" for e
  proof -
    from that have "e \<in> set (sort_key pe_entry_id entries)" by simp
    then obtain i where "i < length (sort_key pe_entry_id entries)" "e = sort_key pe_entry_id entries ! i"
      by (metis in_set_conv_nth)
    with us show ?thesis
      by (auto simp: collect_results_eq_Ok list_all2_conv_all_nth is_ok_iff)
  qed
  with d t show "\<forall>e \<in> set entries. is_ok (validate_entry_id (pe_entry_id e))"
      "distinct (map pe_entry_id entries)"
      "tar_build L (pack_files L pack_id (sort_key pe_entry_id entries)) = Ok b"
    by (auto simp: io_result_eq_Ok)
qed

definition tar_items :: "(string \<times> bytes) list \<Rightarrow> (tar_entry, string) result list" where
  "tar_items fs = map (\<lambda>(p, c). Ok \<lparr>te_is_file = True, te_path = p, te_bytes = Ok c\<rparr>) fs"

lemma read_tar_items:
  assumes "bt_wf m" "\<forall>(p, c) \<in> set fs. validate_tar_path p = Ok p"
    and "distinct (map fst fs)" "\<forall>(p, c) \<in> set fs. bt_get m p = None"
  shows "read_tar_entries (tar_items fs) m = Ok (bt.insert_all fs m)
    \<and> length (bt.insert_all fs m) = length m + length fs"
  using assms
proof (induction fs arbitrary: m)
  case Nil
  show ?case by (simp add: tar_items_def bt.insert_all_def)
next
  case (Cons f fs)
  obtain p c where f: "f = (p, c)" by (cases f)
  have m: "bt_get m p = None" using Cons.prems(4) by (simp add: f)
  have "\<forall>(q, d) \<in> set fs. bt_get (bt_insert p c m) q = None"
    using Cons.prems(1,3,4) by (force simp: f bt.get_insert)
  with Cons have "read_tar_entries (tar_items fs) (bt_insert p c m) = Ok (bt.insert_all fs (bt_insert p c m))
    \<and> length (bt.insert_all fs (bt_insert p c m)) = length (bt_insert p c m) + length fs"
    by (simp add: f bt_wf_insert)
  then show ?case
    using Cons.prems(2) m by (simp add: f tar_items_def bt.insert_all_def length_bt_insert)
qed

lemma pack_files_read:
  assumes "\<forall>e \<in> set es. is_ok (validate_entry_id (pe_entry_id e))" "distinct (map pe_entry_id es)"
  shows "read_tar_entries (tar_items (pack_files L i es)) [] = Ok (bt_of_list (pack_files L i es))"
    and "length (bt_of_list (pack_files L i es)) = length es + 1"
    and "bt_get (bt_of_list (pack_files L i es)) p = map_of (pack_files L i es) p"
proof -
  have d: "distinct (map fst (pack_files L i es))"
    using assms(2) by (auto simp: pack_files_def distinct_map inj_on_def comp_def)
  have "\<forall>(p, c) \<in> set (pack_files L i es). validate_tar_path p = Ok p"
    using assms(1) by (auto simp: pack_files_def is_ok_iff validate_tar_path_index validate_tar_path_entry)
  from read_tar_items [OF _ this d, of "[]"]
  show "read_tar_entries (tar_items (pack_files L i es)) [] = Ok (bt_of_list (pack_files L i es))"
    and "length (bt_of_list (pack_files L i es)) = length es + 1"
    by (auto simp: bt_of_list_alt bt_get_def pack_files_def)
  show "bt_get (bt_of_list (pack_files L i es)) p = map_of (pack_files L i es) p"
    unfolding bt_get_of_list map_of_rev_distinct [OF d] ..
qed

lemma map_of_pack_files:
  "map_of (pack_files L i es) PACK_INDEX_PATH = Some (json_pack_index L (plain_pack_index L i es))"
  "distinct (map pe_entry_id es) \<Longrightarrow> e \<in> set es \<Longrightarrow>
   map_of (pack_files L i es) (entry_path_of (pe_entry_id e)) = Some (pe_plaintext e)"
proof -
  show "map_of (pack_files L i es) PACK_INDEX_PATH = Some (json_pack_index L (plain_pack_index L i es))"
    by (simp add: pack_files_def)
  show "map_of (pack_files L i es) (entry_path_of (pe_entry_id e)) = Some (pe_plaintext e)"
    if "distinct (map pe_entry_id es)" "e \<in> set es"
    using that by (induction es) (auto simp: pack_files_def image_iff)
qed

lemma check_entries_ok:
  assumes "\<forall>e \<in> set es. is_ok (validate_entry_id (pe_entry_id e))"
    and "\<forall>e \<in> set es. bt_get files (entry_path_of (pe_entry_id e)) = Some (pe_plaintext e)"
  shows "check_entries L files (map (index_entry L) es) acc
    = Ok (bt.insert_all (map (\<lambda>e. (pe_entry_id e, pe_plaintext e)) es) acc)"
  using assms
  by (induction es arbitrary: acc) (auto simp: index_entry_def bt.insert_all_def is_ok_iff)

lemma unpack_created_pack:
  assumes "tar_ok L" "index_json_ok L" "create_plain_pack L i entries = Ok b"
  shows "unpack_plain_pack L b = Ok \<lparr>up_index = plain_pack_index L i (sort_key pe_entry_id entries),
    up_entries = map (\<lambda>e. (pe_entry_id e, pe_plaintext e)) (sort_key pe_entry_id entries)\<rparr>"
proof -
  let ?es = "sort_key pe_entry_id entries"
  note created = create_plain_pack_OkD [OF assms(3)]
  have v: "\<forall>e \<in> set ?es. is_ok (validate_entry_id (pe_entry_id e))" using created(1) by simp
  have sorted: "sorted_wrt (<) (map pe_entry_id ?es)" using created(2) by (rule sort_key_ids)
  then have d: "distinct (map pe_entry_id ?es)" by (simp add: strict_sorted_iff)
  have "tar_read L b = tar_items (pack_files L i ?es)"
    using assms(1) created(3) by (simp add: tar_ok_def tar_items_def)
  then have read: "read_canonical_tar_files L b = Ok (bt_of_list (pack_files L i ?es))"
    by (simp add: read_canonical_tar_files_def pack_files_read [OF v d])
  have "check_entries L (bt_of_list (pack_files L i ?es)) (map (index_entry L) ?es) []
      = Ok (bt_of_list (map (\<lambda>e. (pe_entry_id e, pe_plaintext e)) ?es))"
    unfolding bt_of_list_alt [of "map (\<lambda>e. (pe_entry_id e, pe_plaintext e)) ?es"]
    by (rule check_entries_ok [OF v]) (simp add: pack_files_read [OF v d] map_of_pack_files(2) [OF d])
  moreover have "bt_of_list (map (\<lambda>e. (pe_entry_id e, pe_plaintext e)) ?es)
      = map (\<lambda>e. (pe_entry_id e, pe_plaintext e)) ?es"
    using sorted by (intro bt_of_list_sorted) (simp add: comp_def)
  ultimately show ?thesis
    using assms(2) read
    by (simp add: unpack_plain_pack_def pack_files_read [OF v d] map_of_pack_files(1) plain_pack_index_def
        index_json_ok_def)
qed

lemma create_plain_pack_total:
  assumes "\<forall>e \<in> set entries. is_ok (validate_entry_id (pe_entry_id e))"
    and "distinct (map pe_entry_id entries)"
    and "tar_build L (pack_files L i (sort_key pe_entry_id entries)) = Ok b"
  shows "create_plain_pack L i entries = Ok b"
proof -
  have "collect_results (\<lambda>e. validate_entry_id (pe_entry_id e)) (sort_key pe_entry_id entries)
      = Ok (map (\<lambda>_. ()) (sort_key pe_entry_id entries))"
    using assms(1) by (intro collect_results_total) (auto simp: is_ok_iff)
  with assms(2,3) show ?thesis
    by (simp add: create_plain_pack_eq Let_def)
qed

text \<open>
  A pack of entries with valid, distinct identifiers is encrypted, and decrypting it for the same workspace,
  object, kind and commit returns an index and exactly the entries, ordered by identifier.
\<close>

theorem encrypted_pack_round_trip:
  assumes "aead_ok L" "sha256_ok L" "tar_ok L" "zstd_ok L" "index_json_ok L"
    and "length nonce = XCHACHA20_NONCE_LEN"
    and "object_kind \<in> {''content_pack'', ''checkpoint_pack''}"
    and "\<forall>e \<in> set entries. is_ok (validate_entry_id (pe_entry_id e))"
    and "distinct (map pe_entry_id entries)"
    and "tar_build L (pack_files L object_id (sort_key pe_entry_id entries)) = Ok archive"
    and "zstd_encode L archive = Ok compressed" "int (length compressed) \<le> AEAD_MAX_LEN"
  shows "\<exists>ep. encrypt_pack L nonce key ws object_id object_kind commit_id entries = Ok ep \<and>
    decrypt_pack L key ws object_id object_kind commit_id (ep_blob ep) =
      Ok \<lparr>up_index = plain_pack_index L object_id (sort_key pe_entry_id entries),
         up_entries = map (\<lambda>e. (pe_entry_id e, pe_plaintext e)) (sort_key pe_entry_id entries)\<rparr>"
proof -
  let ?aad = "new_pack_aad ws object_id object_kind commit_id"
  obtain k where k: "object_key L key ws object_kind = Ok k"
    using assms(7) by (auto simp: object_key_def)
  have created: "create_plain_pack L object_id entries = Ok archive"
    using assms(8-10) by (rule create_plain_pack_total)
  obtain blob where blob: "encrypt_blob_with_nonce L (json_pack_aad L) k ?aad compressed nonce = Ok blob"
    using encrypt_blob_total [OF assms(1,12), of "json_pack_aad L" k ?aad nonce] by blast
  have "decrypt_blob L (json_pack_aad L) k ?aad blob = Ok compressed"
    by (rule decrypt_encrypted_blob [OF assms(1,2,6) blob])
  moreover have "zstd_decode L compressed = Ok archive"
    using assms(4,11) by (simp add: zstd_ok_def)
  ultimately show ?thesis
    using unpack_created_pack [OF assms(3,5) created] created k blob assms(11)
    by (simp add: encrypt_pack_def decrypt_pack_def plain_pack_index_def)
qed

definition sample_entries :: "pack_entry_input list" where
  "sample_entries = [\<lparr>pe_entry_id = ''b'', pe_plaintext = ''two''\<rparr>, \<lparr>pe_entry_id = ''a'', pe_plaintext = ''one''\<rparr>]"

lemma sample_entries_ok:
  "\<forall>e \<in> set sample_entries. is_ok (validate_entry_id (pe_entry_id e))"
  "distinct (map pe_entry_id sample_entries)"
  by (simp_all add: sample_entries_def validate_entry_id_def is_ascii_alphanumeric_def is_ascii_digit_def)

definition sample_archive :: bytes where
  "sample_archive = enc_list (\<lambda>(p, c). [p, c]) (pack_files sample_pack ''o'' (sort_key pe_entry_id sample_entries))"

lemma sample_archive_built:
  "tar_build sample_pack (pack_files sample_pack ''o'' (sort_key pe_entry_id sample_entries)) = Ok sample_archive"
  by (simp add: sample_archive_def) (simp add: sample_pack_defs)

theorem encrypted_pack_round_trip_witness:
  "\<exists>ep u. encrypt_pack sample_pack (replicate 24 nul) ''k'' ''w'' ''o'' ''content_pack'' ''c'' sample_entries = Ok ep \<and>
    decrypt_pack sample_pack ''k'' ''w'' ''o'' ''content_pack'' ''c'' (ep_blob ep) = Ok u \<and>
    up_entries u = [(''a'', ''one''), (''b'', ''two'')]"
proof -
  have size: "int (length sample_archive) \<le> AEAD_MAX_LEN"
    by code_simp
  have "zstd_encode sample_pack sample_archive = Ok sample_archive"
    by (simp add: sample_pack_defs)
  from encrypted_pack_round_trip [OF sample_pack_crypto_ok sample_pack_ok, of "replicate 24 nul" "''content_pack''"
      sample_entries "''o''", OF _ _ sample_entries_ok sample_archive_built this size]
  have "\<exists>ep. encrypt_pack sample_pack (replicate 24 nul) ''k'' ''w'' ''o'' ''content_pack'' ''c'' sample_entries = Ok ep \<and>
    decrypt_pack sample_pack ''k'' ''w'' ''o'' ''content_pack'' ''c'' (ep_blob ep) =
      Ok \<lparr>up_index = plain_pack_index sample_pack ''o'' (sort_key pe_entry_id sample_entries),
         up_entries = map (\<lambda>e. (pe_entry_id e, pe_plaintext e)) (sort_key pe_entry_id sample_entries)\<rparr>"
    by simp
  moreover have "map (\<lambda>e. (pe_entry_id e, pe_plaintext e)) (sort_key pe_entry_id sample_entries)
      = [(''a'', ''one''), (''b'', ''two'')]"
    by code_simp
  ultimately show ?thesis by force
qed

section \<open>Integrity of unpacked packs\<close>

lemma check_entries_OkD:
  assumes "check_entries L files items acc = Ok entries" "bt_wf acc"
  shows "bt_wf entries"
    and "fst ` set entries = fst ` set acc \<union> pi_entry_id ` set items"
    and "item \<in> set items \<Longrightarrow> \<exists>b. bt_get files (entry_path_of (pi_entry_id item)) = Some b \<and>
      blake3_hex L b = pi_plaintext_hash item \<and> min (int (length b)) i64_max = pi_size_bytes item"
    and "\<forall>(i, b) \<in> set acc. bt_get files (entry_path_of i) = Some b \<Longrightarrow>
      \<forall>(i, b) \<in> set entries. bt_get files (entry_path_of i) = Some b"
proof -
  have "bt_wf entries \<and> fst ` set entries = fst ` set acc \<union> pi_entry_id ` set items \<and>
    (\<forall>item \<in> set items. \<exists>b. bt_get files (entry_path_of (pi_entry_id item)) = Some b \<and>
      blake3_hex L b = pi_plaintext_hash item \<and> min (int (length b)) i64_max = pi_size_bytes item) \<and>
    ((\<forall>(i, b) \<in> set acc. bt_get files (entry_path_of i) = Some b) \<longrightarrow>
      (\<forall>(i, b) \<in> set entries. bt_get files (entry_path_of i) = Some b))"
    using assms
  proof (induction items arbitrary: acc)
    case Nil
    then show ?case by simp
  next
    case (Cons it items)
    from Cons.prems(1) obtain b where b: "bt_get files (entry_path_of (pi_entry_id it)) = Some b"
      "min (int (length b)) i64_max = pi_size_bytes it" "blake3_hex L b = pi_plaintext_hash it"
      and rest: "check_entries L files items (bt_insert (pi_entry_id it) b acc) = Ok entries"
      by (auto simp: result_simps split: if_splits)
    have wf: "bt_wf (bt_insert (pi_entry_id it) b acc)" using Cons.prems(2) by (rule bt_wf_insert)
    have "set (bt_insert (pi_entry_id it) b acc) \<subseteq> insert (pi_entry_id it, b) (set acc)"
      using bt.entries_get [OF wf] bt.get_insert [OF Cons.prems(2)] bt.entries_get [OF Cons.prems(2)]
      by (auto split: if_splits)
    then have acc: "\<forall>(i, b) \<in> set (bt_insert (pi_entry_id it) b acc). bt_get files (entry_path_of i) = Some b"
      if "\<forall>(i, b) \<in> set acc. bt_get files (entry_path_of i) = Some b"
      using that b(1) by auto
    show ?case
    proof (intro conjI ballI impI)
      show "bt_wf entries" using Cons.IH [OF rest wf] by blast
      show "fst ` set entries = fst ` set acc \<union> pi_entry_id ` set (it # items)"
        using Cons.IH [OF rest wf] by (simp add: fst_set_bt_insert)
      show "\<exists>b. bt_get files (entry_path_of (pi_entry_id item)) = Some b \<and>
          blake3_hex L b = pi_plaintext_hash item \<and> min (int (length b)) i64_max = pi_size_bytes item"
        if "item \<in> set (it # items)" for item
        using that b Cons.IH [OF rest wf] by (cases "item = it") auto
      show "case x of (i, b) \<Rightarrow> bt_get files (entry_path_of i) = Some b"
        if "\<forall>(i, b) \<in> set acc. bt_get files (entry_path_of i) = Some b" "x \<in> set entries" for x
        using Cons.IH [OF rest wf] acc [OF that(1)] that(2) by blast
    qed
  qed
  then show "bt_wf entries"
    and "fst ` set entries = fst ` set acc \<union> pi_entry_id ` set items"
    and "item \<in> set items \<Longrightarrow> \<exists>b. bt_get files (entry_path_of (pi_entry_id item)) = Some b \<and>
      blake3_hex L b = pi_plaintext_hash item \<and> min (int (length b)) i64_max = pi_size_bytes item"
    and "\<forall>(i, b) \<in> set acc. bt_get files (entry_path_of i) = Some b \<Longrightarrow>
      \<forall>(i, b) \<in> set entries. bt_get files (entry_path_of i) = Some b"
    by blast+
qed

text \<open>
  Whatever bytes are unpacked, an accepted pack holds, for each index entry, contents with the
  size and the hash the index announces, and no contents the index does not name.
\<close>

theorem unpack_plain_pack_integrity:
  assumes "unpack_plain_pack L b = Ok u"
  shows "(\<forall>item \<in> set (px_entries (up_index u)). \<exists>c. bt_get (up_entries u) (pi_entry_id item) = Some c \<and>
      blake3_hex L c = pi_plaintext_hash item \<and> min (int (length c)) i64_max = pi_size_bytes item) \<and>
    fst ` set (up_entries u) = pi_entry_id ` set (px_entries (up_index u))"
proof -
  obtain files where c: "check_entries L files (px_entries (up_index u)) [] = Ok (up_entries u)"
    using assms by (auto simp: unpack_plain_pack_def result_simps split: if_splits)
  note inv = check_entries_OkD [OF c bt_wf_simps(1)]
  have files: "bt_get (up_entries u) i = Some c \<Longrightarrow> bt_get files (entry_path_of i) = Some c" for i c
    using inv(4) bt.entries_get [OF inv(1), of i c] by auto
  have "\<exists>c. bt_get (up_entries u) (pi_entry_id item) = Some c \<and>
      blake3_hex L c = pi_plaintext_hash item \<and> min (int (length c)) i64_max = pi_size_bytes item"
    if item: "item \<in> set (px_entries (up_index u))" for item
  proof -
    from item inv(2) obtain d where "(pi_entry_id item, d) \<in> set (up_entries u)" by force
    then have "bt_get (up_entries u) (pi_entry_id item) = Some d"
      using bt.entries_get [OF inv(1)] by simp
    with inv(3) [OF item] files show ?thesis by fastforce
  qed
  with inv(2) show ?thesis by simp
qed

theorem unpack_plain_pack_integrity_witness:
  "\<exists>u. unpack_plain_pack sample_pack sample_archive = Ok u \<and>
     fst ` set (up_entries u) = pi_entry_id ` set (px_entries (up_index u)) \<and> up_entries u \<noteq> []"
proof -
  obtain u where u: "unpack_plain_pack sample_pack sample_archive = Ok u"
    and "u = \<lparr>up_index = plain_pack_index sample_pack ''o'' (sort_key pe_entry_id sample_entries),
         up_entries = map (\<lambda>e. (pe_entry_id e, pe_plaintext e)) (sort_key pe_entry_id sample_entries)\<rparr>"
    using unpack_created_pack [OF sample_pack_ok(1,3)
        create_plain_pack_total [OF sample_entries_ok sample_archive_built]] by blast
  then have "up_entries u \<noteq> []"
    by (simp add: sample_entries_def)
  with unpack_plain_pack_integrity [OF u] u show ?thesis by blast
qed

text \<open>
  The count at the end of \<^verbatim>\<open>unpack_plain_pack\<close> does not exclude unreferenced files when the index names
  an entry twice: the second mention stands in for a file the index does not name.
\<close>

definition smuggling_item :: pack_index_entry where
  "smuggling_item = index_entry sample_pack \<lparr>pe_entry_id = ''a'', pe_plaintext = ''one''\<rparr>"

definition smuggling_index :: pack_index where
  "smuggling_index = \<lparr>px_format = ''kuku.sync.pack'', px_version = 1, px_pack_id = ''o'',
     px_entries = [smuggling_item, smuggling_item]\<rparr>"

definition smuggling_files :: "(string \<times> bytes) list" where
  "smuggling_files =
     [(PACK_INDEX_PATH, sample_index_json smuggling_index), (entry_path_of ''a'', ''one''),
      (entry_path_of ''z'', ''hidden'')]"

definition smuggling_archive :: bytes where
  "smuggling_archive = enc_list (\<lambda>(p, c). [p, c]) smuggling_files"

lemma smuggling_read:
  "read_canonical_tar_files sample_pack smuggling_archive = Ok (bt_of_list smuggling_files)"
  "length (bt_of_list smuggling_files) = 3"
  "bt_get (bt_of_list smuggling_files) p = map_of smuggling_files p"
proof -
  have valid: "validate_entry_id ''a'' = Ok ()" "validate_entry_id ''z'' = Ok ()"
    by (simp_all add: validate_entry_id_def is_ascii_alphanumeric_def is_ascii_digit_def)
  have "tar_build sample_pack smuggling_files = Ok smuggling_archive"
    by (simp add: smuggling_archive_def sample_pack_defs)
  then have read: "tar_read sample_pack smuggling_archive = tar_items smuggling_files"
    using sample_pack_ok(1) by (simp add: tar_ok_def tar_items_def)
  have d: "distinct (map fst smuggling_files)" by (simp add: smuggling_files_def)
  have "\<forall>(p, c) \<in> set smuggling_files. validate_tar_path p = Ok p"
    by (simp add: smuggling_files_def validate_tar_path_index validate_tar_path_entry [OF valid(1)]
        validate_tar_path_entry [OF valid(2)])
  from read_tar_items [OF _ this d, of "[]"]
  show "read_canonical_tar_files sample_pack smuggling_archive = Ok (bt_of_list smuggling_files)"
    and "length (bt_of_list smuggling_files) = 3"
    by (auto simp: read_canonical_tar_files_def read bt_of_list_alt bt_get_def smuggling_files_def)
  show "bt_get (bt_of_list smuggling_files) p = map_of smuggling_files p"
    unfolding bt_get_of_list map_of_rev_distinct [OF d] ..
qed

lemma unpack_accepts_unreferenced_file:
  "\<exists>u files. unpack_plain_pack sample_pack smuggling_archive = Ok u \<and>
     read_canonical_tar_files sample_pack smuggling_archive = Ok files \<and>
     bt_get files (entry_path_of ''z'') = Some ''hidden'' \<and> bt_get (up_entries u) ''z'' = None"
proof -
  have item: "pi_entry_id smuggling_item = ''a''" "pi_size_bytes smuggling_item = 3"
    "pi_plaintext_hash smuggling_item = blake3_hex sample_pack ''one''"
    by (simp_all add: smuggling_item_def index_entry_def)
  have valid: "validate_entry_id ''a'' = Ok ()"
    by (simp add: validate_entry_id_def is_ascii_alphanumeric_def is_ascii_digit_def)
  have "map_of smuggling_files (entry_path_of ''a'') = Some ''one''"
    and index: "map_of smuggling_files PACK_INDEX_PATH = Some (sample_index_json smuggling_index)"
    by (simp_all add: smuggling_files_def)
  then have "check_entries sample_pack (bt_of_list smuggling_files) [smuggling_item, smuggling_item] []
      = Ok [(''a'', ''one'')]"
    by (simp add: item valid smuggling_read)
  moreover have "pack_index_of_json sample_pack (sample_index_json smuggling_index) = Ok smuggling_index"
    using sample_pack_ok(3) by (simp add: index_json_ok_def sample_pack_defs)
  moreover have "px_format smuggling_index = ''kuku.sync.pack''" "px_version smuggling_index = 1"
    "px_entries smuggling_index = [smuggling_item, smuggling_item]"
    by (simp_all add: smuggling_index_def)
  ultimately have "unpack_plain_pack sample_pack smuggling_archive
      = Ok \<lparr>up_index = smuggling_index, up_entries = [(''a'', ''one'')]\<rparr>"
    by (simp add: unpack_plain_pack_def smuggling_read index)
  then show ?thesis
    using smuggling_read by (simp add: bt_get_def smuggling_files_def)
qed

section \<open>Determinism\<close>

text \<open>
  A pack depends on its entries as a set only: any order of entries with distinct identifiers
  gives the same bytes.
\<close>

theorem create_plain_pack_order_irrelevant:
  assumes "mset entries = mset entries'" "distinct (map pe_entry_id entries)"
  shows "create_plain_pack L pack_id entries = create_plain_pack L pack_id entries'"
proof -
  have inj: "inj_on pe_entry_id (set entries)" using assms(2) by (simp add: distinct_map)
  have set: "set entries' = set entries" using assms(1) by (metis mset_eq_setD)
  have d: "distinct (map pe_entry_id entries')"
    using assms by (metis mset_map mset_eq_imp_distinct_iff)
  have "sort_key pe_entry_id entries = sort_key pe_entry_id entries'"
  proof (rule map_sorted_distinct_set_unique)
    show "inj_on pe_entry_id (set (sort_key pe_entry_id entries) \<union> set (sort_key pe_entry_id entries'))"
      using inj set by simp
    show "distinct (map pe_entry_id (sort_key pe_entry_id entries))"
      using sort_key_ids [OF assms(2)] by (simp add: strict_sorted_iff)
    show "distinct (map pe_entry_id (sort_key pe_entry_id entries'))"
      using sort_key_ids [OF d] by (simp add: strict_sorted_iff)
  qed (use set in simp_all)
  with d show ?thesis
    using assms(2) by (simp add: create_plain_pack_eq)
qed

theorem create_plain_pack_order_irrelevant_witness:
  "create_plain_pack sample_pack ''o'' sample_entries = create_plain_pack sample_pack ''o'' (rev sample_entries)"
  using create_plain_pack_order_irrelevant [of sample_entries "rev sample_entries"] sample_entries_ok(2) by simp

end
