(* ===== verification/Sync_Planner.thy ===== *)
theory Sync_Planner
  imports Sync_Scanner Sync_Packer "HOL-Library.Product_Lexorder"
begin

text \<open>
  The planner (\<^verbatim>\<open>sync/planner.rs\<close>): it distributes the contents of the files to publish over packs of
  bounded size and lists the tree entries and file operations of the commit. \<open>tree_json\<close> is the JSON
  serialisation of the tree entries, \<open>hash\<close> is \<^verbatim>\<open>blake3::hash(..).to_hex()\<close>. Sizes are \<^verbatim>\<open>i64\<close>; a running
  total never exceeds twice the limit.
\<close>

section \<open>Data\<close>

definition CONTENT_PACK_KIND :: string where "CONTENT_PACK_KIND = ''content_pack''"
definition CHECKPOINT_PACK_KIND :: string where "CHECKPOINT_PACK_KIND = ''checkpoint_pack''"
definition DEFAULT_MAX_PACK_PLAINTEXT_BYTES :: int where
  "DEFAULT_MAX_PACK_PLAINTEXT_BYTES = 28 * 1024 * 1024"

datatype commit_plan_kind = PlanCheckpoint | PlanIncremental | PlanMerge

record planner_config =
  max_pack_plaintext_bytes :: int

record planned_tree_entry =
  pt_file_id :: string
  pt_path :: string
  pt_normalized_path :: string
  pt_plaintext_hash :: string
  pt_size_bytes :: int
  pt_kind :: string
  pt_pack_ref :: "string option"
  pt_pack_entry_id :: "string option"

datatype plan_file_op =
    PlanUpsert (op_file_id: string) (op_path: string) (op_normalized_path: string)
      (op_plaintext_hash: string) (op_size_bytes: int) (op_pack_ref: string) (op_pack_entry_id: string)
  | PlanDelete (op_file_id: string) (op_path: string) (op_normalized_path: string)

record pack_entry_plan =
  pp_entry_id :: string
  pp_file_id :: string
  pp_normalized_path :: string
  pp_plaintext_hash :: string
  pp_size_bytes :: int
  pp_plaintext :: bytes

record pack_shard_plan =
  ps_pack_ref :: string
  ps_pack_kind :: string
  ps_shard_index :: nat
  ps_total_plaintext_bytes :: int
  ps_entries :: "pack_entry_plan list"

record sync_plan =
  commit_kind :: commit_plan_kind
  tree_id :: string
  tree_entries :: "planned_tree_entry list"
  file_ops :: "plan_file_op list"
  pack_shards :: "pack_shard_plan list"

section \<open>Operations\<close>

definition plan_is_empty :: "sync_plan \<Rightarrow> bool" where
  "plan_is_empty plan \<longleftrightarrow> file_ops plan = [] \<and> pack_shards plan = []"

definition cache_record :: "string \<Rightarrow> string option \<Rightarrow> planned_tree_entry \<Rightarrow> sync_tree_entry_record" where
  "cache_record commit_id content_object_id e =
     \<lparr>tr_commit_id = commit_id, tr_file_id = pt_file_id e, tr_normalized_path = pt_normalized_path e,
      tr_plaintext_hash = Some (pt_plaintext_hash e), tr_content_object_id = content_object_id,
      tr_pack_entry_id = pt_pack_entry_id e, tr_kind = pt_kind e\<rparr>"

definition pack_entries :: "pack_shard_plan \<Rightarrow> pack_entry_input list" where
  "pack_entries shard =
     map (\<lambda>e. \<lparr>pe_entry_id = pp_entry_id e, pe_plaintext = pp_plaintext e\<rparr>) (ps_entries shard)"

definition pack_entry_id :: "(bytes \<Rightarrow> string) \<Rightarrow> string \<Rightarrow> string \<Rightarrow> string" where
  "pack_entry_id hash i plaintext_hash = ''entry_'' @ take 32 (hash (i @ [nul] @ plaintext_hash))"

definition pack_shard :: "string \<Rightarrow> nat \<Rightarrow> int \<Rightarrow> pack_entry_plan list \<Rightarrow> pack_shard_plan" where
  "pack_shard pack_kind shard_index total_plaintext_bytes entries =
     \<lparr>ps_pack_ref = pack_kind @ ''-'' @ show_nat shard_index, ps_pack_kind = pack_kind,
      ps_shard_index = shard_index, ps_total_plaintext_bytes = total_plaintext_bytes,
      ps_entries = entries\<rparr>"

text \<open>
  \<^verbatim>\<open>{:.1}\<close> of the size in MiB: tenths, rounded to nearest and to even on a tie. Sizes below \<open>2 ^ 53\<close> are
  exact as \<^verbatim>\<open>f64\<close>.
\<close>

definition format_size_mb :: "int \<Rightarrow> string" where
  "format_size_mb b =
     (let n = max b 0 * 10; q = n div 1048576; r = n mod 1048576;
          t = (if r > 524288 \<or> (r = 524288 \<and> odd q) then q + 1 else q)
      in show_int (t div 10) @ ''.'' @ show_int (t mod 10))"

definition validate_planner_config :: "planner_config \<Rightarrow> unit sync_result" where
  "validate_planner_config config =
     (if max_pack_plaintext_bytes config \<le> 0
      then Err (InvalidArgument ''max_pack_plaintext_bytes must be positive'') else Ok ())"

definition entry_plan :: "(bytes \<Rightarrow> string) \<Rightarrow> scanned_file \<Rightarrow> pack_entry_plan" where
  "entry_plan hash f =
     \<lparr>pp_entry_id = pack_entry_id hash (sf_file_id f) (sf_plaintext_hash f),
      pp_file_id = sf_file_id f, pp_normalized_path = sf_normalized_path f,
      pp_plaintext_hash = sf_plaintext_hash f, pp_size_bytes = sf_size_bytes f,
      pp_plaintext = sf_plaintext f\<rparr>"

definition size_limit_error :: "planner_config \<Rightarrow> scanned_file \<Rightarrow> sync_error" where
  "size_limit_error config f = QuotaExceeded (''file exceeds sync size limit: '' @ sf_path f @ '' ('' @
     format_size_mb (sf_size_bytes f) @ '' MB, limit '' @
     format_size_mb (max_pack_plaintext_bytes config) @ '' MB)'')"

fun assign_loop ::
    "(bytes \<Rightarrow> string) \<Rightarrow> string \<Rightarrow> planner_config \<Rightarrow> scanned_file list \<Rightarrow> pack_shard_plan list
      \<Rightarrow> pack_entry_plan list \<Rightarrow> int \<Rightarrow> pack_shard_plan list sync_result" where
  "assign_loop hash kind config [] shards entries bytes =
     Ok (if entries \<noteq> [] then shards @ [pack_shard kind (length shards) bytes entries] else shards)"
| "assign_loop hash kind config (f # fs) shards entries bytes =
     (if sf_size_bytes f > max_pack_plaintext_bytes config then Err (size_limit_error config f)
      else if entries \<noteq> [] \<and> bytes + sf_size_bytes f > max_pack_plaintext_bytes config
      then assign_loop hash kind config fs (shards @ [pack_shard kind (length shards) bytes entries])
             [entry_plan hash f] (sf_size_bytes f)
      else assign_loop hash kind config fs shards (entries @ [entry_plan hash f])
             (bytes + sf_size_bytes f))"

definition assign_pack_entries ::
    "(bytes \<Rightarrow> string) \<Rightarrow> scanned_file list \<Rightarrow> string \<Rightarrow> planner_config
      \<Rightarrow> pack_shard_plan list sync_result" where
  "assign_pack_entries hash files kind config =
     assign_loop hash kind config (sort_key sf_normalized_path files) [] [] 0"

definition compute_tree_id :: "(bytes \<Rightarrow> string) \<Rightarrow> (planned_tree_entry list \<Rightarrow> bytes)
    \<Rightarrow> planned_tree_entry list \<Rightarrow> string" where
  "compute_tree_id hash tree_json entries = ''tree_'' @ take 32 (hash (tree_json entries))"

fun plan_file_op_sort_key :: "plan_file_op \<Rightarrow> string \<times> string" where
  "plan_file_op_sort_key (PlanUpsert _ _ np _ _ _ _) = (''0'', np)"
| "plan_file_op_sort_key (PlanDelete _ _ np) = (''1'', np)"

definition entry_refs :: "pack_shard_plan list \<Rightarrow> (string \<times> string \<times> string) list" where
  "entry_refs shards = bt_of_list (concat (map (\<lambda>shard.
     map (\<lambda>e. (pp_normalized_path e, ps_pack_ref shard, pp_entry_id e)) (ps_entries shard)) shards))"

definition planned_upsert ::
    "(string \<times> string \<times> string) list \<Rightarrow> scanned_file \<Rightarrow> (planned_tree_entry \<times> plan_file_op) sync_result" where
  "planned_upsert refs f =
     and_then (ok_or (bt_get refs (sf_normalized_path f))
       (InvalidArgument (''missing pack assignment for '' @ sf_normalized_path f)))
     (\<lambda>(pack_ref, entry_id). Ok
       (\<lparr>pt_file_id = sf_file_id f, pt_path = sf_path f, pt_normalized_path = sf_normalized_path f,
         pt_plaintext_hash = sf_plaintext_hash f, pt_size_bytes = sf_size_bytes f,
         pt_kind = FILE_KIND_MARKDOWN, pt_pack_ref = Some pack_ref, pt_pack_entry_id = Some entry_id\<rparr>,
        PlanUpsert (sf_file_id f) (sf_path f) (sf_normalized_path f) (sf_plaintext_hash f)
          (sf_size_bytes f) pack_ref entry_id))"

definition build_plan ::
    "(bytes \<Rightarrow> string) \<Rightarrow> (planned_tree_entry list \<Rightarrow> bytes) \<Rightarrow> commit_plan_kind \<Rightarrow> scanned_file list
      \<Rightarrow> sync_file_record list \<Rightarrow> pack_shard_plan list \<Rightarrow> sync_plan sync_result" where
  "build_plan hash tree_json kind ups dels shards =
     and_then (collect_results (planned_upsert (entry_refs shards)) ups) (\<lambda>planned.
       let entries = sort_key pt_normalized_path (map fst planned);
           ops = sort_key plan_file_op_sort_key (map snd planned @
             map (\<lambda>d. PlanDelete (file_id d) (fr_path d) (normalized_path d)) dels)
       in Ok \<lparr>commit_kind = kind, tree_id = compute_tree_id hash tree_json entries,
              tree_entries = entries, file_ops = ops, pack_shards = shards\<rparr>)"

definition plan_checkpoint ::
    "(bytes \<Rightarrow> string) \<Rightarrow> (planned_tree_entry list \<Rightarrow> bytes) \<Rightarrow> scanned_file list \<Rightarrow> planner_config
      \<Rightarrow> sync_plan sync_result" where
  "plan_checkpoint hash tree_json files config =
     and_then (validate_planner_config config) (\<lambda>_.
     and_then (assign_pack_entries hash files CHECKPOINT_PACK_KIND config) (\<lambda>shards.
       build_plan hash tree_json PlanCheckpoint files [] shards))"

definition dirty_upserts ::
    "sync_file_record list \<Rightarrow> scanned_file list \<Rightarrow> scanned_file list sync_result" where
  "dirty_upserts rows files =
     collect_results (\<lambda>row. ok_or
         (bt_get (bt_of_list (map (\<lambda>f. (sf_normalized_path f, f)) files)) (normalized_path row))
         (InvalidArgument (''dirty sync file missing scanner content: '' @ normalized_path row)))
       (filter (\<lambda>row. dirty row \<and> \<not> deleted row) rows)"

definition plan_incremental ::
    "(bytes \<Rightarrow> string) \<Rightarrow> (planned_tree_entry list \<Rightarrow> bytes) \<Rightarrow> scan_apply_result \<Rightarrow> scanned_file list
      \<Rightarrow> planner_config \<Rightarrow> sync_plan sync_result" where
  "plan_incremental hash tree_json res files config =
     and_then (validate_planner_config config) (\<lambda>_.
     and_then (dirty_upserts (upserts res) files) (\<lambda>ups.
     and_then (assign_pack_entries hash ups CONTENT_PACK_KIND config) (\<lambda>shards.
       build_plan hash tree_json PlanIncremental ups (deletions res) shards)))"

section \<open>Shards\<close>

definition shard_ok :: "planner_config \<Rightarrow> pack_shard_plan \<Rightarrow> bool" where
  "shard_ok config s \<longleftrightarrow> ps_entries s \<noteq> [] \<and>
     ps_total_plaintext_bytes s = sum_list (map pp_size_bytes (ps_entries s)) \<and>
     ps_total_plaintext_bytes s \<le> max_pack_plaintext_bytes config"

definition shards_indexed :: "string \<Rightarrow> pack_shard_plan list \<Rightarrow> bool" where
  "shards_indexed kind shards \<longleftrightarrow> (\<forall>k < length shards. ps_shard_index (shards ! k) = k \<and>
     ps_pack_kind (shards ! k) = kind \<and> ps_pack_ref (shards ! k) = kind @ ''-'' @ show_nat k)"

lemma shards_indexed_snoc:
  "shards_indexed kind (shards @ [pack_shard kind (length shards) b es]) \<longleftrightarrow> shards_indexed kind shards"
  by (auto simp: shards_indexed_def nth_append pack_shard_def less_Suc_eq)

lemma assign_loop_Ok:
  assumes "assign_loop hash kind config fs shards entries bytes = Ok shards'"
    and "\<forall>s \<in> set shards. shard_ok config s" "shards_indexed kind shards"
    and "bytes = sum_list (map pp_size_bytes entries)"
    and "entries \<noteq> [] \<longrightarrow> bytes \<le> max_pack_plaintext_bytes config"
  shows "concat (map ps_entries shards') = concat (map ps_entries shards) @ entries @ map (entry_plan hash) fs
    \<and> (\<forall>s \<in> set shards'. shard_ok config s) \<and> shards_indexed kind shards'"
  using assms
proof (induction hash kind config fs shards entries bytes rule: assign_loop.induct)
  case (1 hash kind config shards entries bytes)
  show ?case
  proof (cases "entries = []")
    case True
    with 1 show ?thesis by simp
  next
    case False
    with "1.prems"(1) have shards': "shards' = shards @ [pack_shard kind (length shards) bytes entries]"
      by simp
    show ?thesis
      unfolding shards' shards_indexed_snoc
      using "1.prems"(2-5) False by (auto simp: shard_ok_def pack_shard_def)
  qed
next
  case (2 hash kind config f fs shards entries bytes)
  let ?full = "entries \<noteq> [] \<and> bytes + sf_size_bytes f > max_pack_plaintext_bytes config"
  from "2.prems"(1) have small: "\<not> sf_size_bytes f > max_pack_plaintext_bytes config"
    by (auto split: if_splits)
  have size: "pp_size_bytes (entry_plan hash f) = sf_size_bytes f" by (simp add: entry_plan_def)
  show ?case
  proof (cases ?full)
    case True
    let ?shards = "shards @ [pack_shard kind (length shards) bytes entries]"
    have "assign_loop hash kind config fs ?shards [entry_plan hash f] (sf_size_bytes f) = Ok shards'"
      using "2.prems"(1) small True by simp
    moreover have "\<forall>s \<in> set ?shards. shard_ok config s"
      using "2.prems"(2,4,5) True by (auto simp: shard_ok_def pack_shard_def)
    ultimately have "concat (map ps_entries shards') = concat (map ps_entries ?shards) @ [entry_plan hash f] @ map (entry_plan hash) fs
        \<and> (\<forall>s \<in> set shards'. shard_ok config s) \<and> shards_indexed kind shards'"
      by (intro "2.IH"(1) [OF small True]) (use "2.prems"(3) small in \<open>simp_all add: shards_indexed_snoc size\<close>)
    then show ?thesis by (simp add: pack_shard_def)
  next
    case False
    have "assign_loop hash kind config fs shards (entries @ [entry_plan hash f]) (bytes + sf_size_bytes f) = Ok shards'"
      using "2.prems"(1) small False by (simp only: assign_loop.simps if_False)
    then have "concat (map ps_entries shards') = concat (map ps_entries shards) @ (entries @ [entry_plan hash f]) @ map (entry_plan hash) fs
        \<and> (\<forall>s \<in> set shards'. shard_ok config s) \<and> shards_indexed kind shards'"
      using "2.prems"(2-5) small False by (intro "2.IH"(2) [OF small False]) (auto simp: size)
    then show ?thesis by simp
  qed
qed

lemma assign_loop_is_ok:
  "is_ok (assign_loop hash kind config fs shards entries bytes) \<longleftrightarrow>
     (\<forall>f \<in> set fs. sf_size_bytes f \<le> max_pack_plaintext_bytes config)"
  by (induction hash kind config fs shards entries bytes rule: assign_loop.induct) auto

lemma assign_loop_Err:
  "assign_loop hash kind config fs shards entries bytes = Err e \<Longrightarrow>
   \<exists>f \<in> set fs. sf_size_bytes f > max_pack_plaintext_bytes config \<and> e = size_limit_error config f"
  by (induction hash kind config fs shards entries bytes rule: assign_loop.induct) (auto split: if_splits)

lemma assign_pack_entries_Ok:
  assumes "assign_pack_entries hash files kind config = Ok shards"
  shows "concat (map ps_entries shards) = map (entry_plan hash) (sort_key sf_normalized_path files)"
    "\<forall>s \<in> set shards. shard_ok config s" "shards_indexed kind shards"
  using assign_loop_Ok [OF assms [unfolded assign_pack_entries_def]] by (simp_all add: shards_indexed_def)

text \<open>
  The packs of a plan hold the contents of every file exactly once, in the order of the normalised
  paths; no pack is empty or larger than the limit, its announced size is the sum of its entries, and
  packs are numbered from zero.
\<close>

theorem assign_pack_entries_partition:
  assumes "assign_pack_entries hash files kind config = Ok shards"
  shows "concat (map ps_entries shards) = map (entry_plan hash) (sort_key sf_normalized_path files) \<and>
    (\<forall>s \<in> set shards. ps_entries s \<noteq> [] \<and>
       ps_total_plaintext_bytes s = sum_list (map pp_size_bytes (ps_entries s)) \<and>
       ps_total_plaintext_bytes s \<le> max_pack_plaintext_bytes config) \<and>
    (\<forall>k < length shards. ps_shard_index (shards ! k) = k \<and> ps_pack_ref (shards ! k) = kind @ ''-'' @ show_nat k)"
  using assign_pack_entries_Ok [OF assms] unfolding shard_ok_def shards_indexed_def by blast

text \<open>Two files that do not fit into one pack of four bytes, for the witnesses.\<close>

definition sample_file :: "string \<Rightarrow> bytes \<Rightarrow> scanned_file" where
  "sample_file name contents = \<lparr>sf_file_id = name, sf_path = name, sf_normalized_path = name,
     sf_plaintext_hash = contents, sf_size_bytes = int (length contents), sf_mtime_ms = 0,
     sf_plaintext = contents\<rparr>"

definition sample_files :: "scanned_file list" where
  "sample_files = [sample_file ''b.md'' ''two'', sample_file ''a.md'' ''one'']"

definition sample_planner_config :: planner_config where
  "sample_planner_config = \<lparr>max_pack_plaintext_bytes = 4\<rparr>"

lemma sample_sorted: "sort_key sf_normalized_path sample_files = [sample_file ''a.md'' ''one'', sample_file ''b.md'' ''two'']"
  by code_simp

theorem assign_pack_entries_partition_witness:
  "\<exists>shards. assign_pack_entries id sample_files ''k'' sample_planner_config = Ok shards \<and> length shards = 2 \<and>
     concat (map ps_entries shards) = map (entry_plan id) [sample_file ''a.md'' ''one'', sample_file ''b.md'' ''two'']"
proof -
  obtain shards where s: "assign_pack_entries id sample_files ''k'' sample_planner_config = Ok shards" "length shards = 2"
    by (simp add: assign_pack_entries_def sample_sorted) (simp add: sample_file_def sample_planner_config_def)
  with assign_pack_entries_partition [OF s(1)] show ?thesis by (simp add: sample_sorted)
qed

text \<open>
  Packing fails exactly when some file alone is larger than the limit, with a quota error that names
  such a file.
\<close>

theorem assign_pack_entries_quota:
  "case assign_pack_entries hash files kind config of
     Ok _ \<Rightarrow> \<forall>f \<in> set files. sf_size_bytes f \<le> max_pack_plaintext_bytes config
   | Err e \<Rightarrow> \<exists>f \<in> set files. sf_size_bytes f > max_pack_plaintext_bytes config \<and> e = size_limit_error config f"
  using assign_loop_is_ok [of hash kind config "sort_key sf_normalized_path files" "[]" "[]" 0]
    assign_loop_Err [of hash kind config "sort_key sf_normalized_path files" "[]" "[]" 0]
  by (auto simp: assign_pack_entries_def split: result.splits)

theorem assign_pack_entries_quota_witness:
  "\<exists>f \<in> set sample_files. assign_pack_entries id sample_files ''k'' \<lparr>max_pack_plaintext_bytes = 2\<rparr>
     = Err (size_limit_error \<lparr>max_pack_plaintext_bytes = 2\<rparr> f)"
proof -
  obtain e where "assign_pack_entries id sample_files ''k'' \<lparr>max_pack_plaintext_bytes = 2\<rparr> = Err e"
    by (simp add: assign_pack_entries_def sample_sorted) (simp add: sample_file_def)
  with assign_pack_entries_quota [where hash = id and files = sample_files and kind = "''k''" and
      config = "\<lparr>max_pack_plaintext_bytes = 2\<rparr>"] show ?thesis
    by auto
qed

section \<open>Plans\<close>

definition all_refs :: "pack_shard_plan list \<Rightarrow> (string \<times> string \<times> string) list" where
  "all_refs shards = concat (map (\<lambda>shard.
     map (\<lambda>e. (pp_normalized_path e, ps_pack_ref shard, pp_entry_id e)) (ps_entries shard)) shards)"

lemma map_fst_all_refs: "map fst (all_refs shards) = map pp_normalized_path (concat (map ps_entries shards))"
  by (simp add: all_refs_def map_concat comp_def)

lemma entry_refs_get:
  assumes "distinct (map pp_normalized_path (concat (map ps_entries shards)))"
    and "s \<in> set shards" "e \<in> set (ps_entries s)"
  shows "bt_get (entry_refs shards) (pp_normalized_path e) = Some (ps_pack_ref s, pp_entry_id e)"
proof -
  have d: "distinct (map fst (all_refs shards))" using assms(1) by (simp only: map_fst_all_refs)
  have "(pp_normalized_path e, ps_pack_ref s, pp_entry_id e) \<in> set (all_refs shards)"
    using assms(2,3) by (auto simp: all_refs_def)
  with d show ?thesis
    unfolding entry_refs_def all_refs_def [symmetric] bt_get_of_list map_of_rev_distinct [OF d] by simp
qed

text \<open>The contents a tree entry refers to are in the plan's packs under its reference.\<close>

definition content_packed :: "pack_shard_plan list \<Rightarrow> scanned_file \<Rightarrow> string \<Rightarrow> string \<Rightarrow> bool" where
  "content_packed shards f pack_ref entry_id \<longleftrightarrow>
     (\<exists>s \<in> set shards. ps_pack_ref s = pack_ref \<and>
       (\<exists>e \<in> set (ps_entries s). pp_entry_id e = entry_id \<and> pp_normalized_path e = sf_normalized_path f \<and>
          pp_plaintext e = sf_plaintext f \<and> pp_plaintext_hash e = sf_plaintext_hash f))"

definition tree_entry_for :: "scanned_file \<Rightarrow> string \<times> string \<Rightarrow> planned_tree_entry" where
  "tree_entry_for f ref =
     \<lparr>pt_file_id = sf_file_id f, pt_path = sf_path f, pt_normalized_path = sf_normalized_path f,
      pt_plaintext_hash = sf_plaintext_hash f, pt_size_bytes = sf_size_bytes f,
      pt_kind = FILE_KIND_MARKDOWN, pt_pack_ref = Some (fst ref), pt_pack_entry_id = Some (snd ref)\<rparr>"

definition upsert_for :: "scanned_file \<Rightarrow> string \<times> string \<Rightarrow> plan_file_op" where
  "upsert_for f ref = PlanUpsert (sf_file_id f) (sf_path f) (sf_normalized_path f) (sf_plaintext_hash f)
     (sf_size_bytes f) (fst ref) (snd ref)"

definition delete_for :: "sync_file_record \<Rightarrow> plan_file_op" where
  "delete_for d = PlanDelete (file_id d) (fr_path d) (normalized_path d)"

lemma upsert_before_delete: "plan_file_op_sort_key (upsert_for f r) \<le> plan_file_op_sort_key (delete_for d)"
proof -
  have "''0'' < (''1'' :: string)" by code_simp
  then show ?thesis by (simp add: upsert_for_def delete_for_def less_eq_prod_def)
qed

lemma planned_upsert_assigned:
  assumes "assign_pack_entries hash files kind config = Ok shards"
    and "distinct (map sf_normalized_path files)" "f \<in> set files"
  obtains ref where "planned_upsert (entry_refs shards) f = Ok (tree_entry_for f ref, upsert_for f ref)"
    "content_packed shards f (fst ref) (snd ref)"
proof -
  note a = assign_pack_entries_Ok [OF assms(1)]
  have "distinct (map sf_normalized_path (sort_key sf_normalized_path files))"
    using assms(2) by (metis distinct_map distinct_sort set_sort)
  then have d: "distinct (map pp_normalized_path (concat (map ps_entries shards)))"
    by (simp add: a(1) comp_def entry_plan_def)
  have "entry_plan hash f \<in> set (concat (map ps_entries shards))" using assms(3) by (simp add: a(1))
  then obtain s where s: "s \<in> set shards" "entry_plan hash f \<in> set (ps_entries s)" by auto
  from entry_refs_get [OF d s]
  have "bt_get (entry_refs shards) (sf_normalized_path f) = Some (ps_pack_ref s, pp_entry_id (entry_plan hash f))"
    by (simp add: entry_plan_def)
  then have "planned_upsert (entry_refs shards) f
      = Ok (tree_entry_for f (ps_pack_ref s, pp_entry_id (entry_plan hash f)),
            upsert_for f (ps_pack_ref s, pp_entry_id (entry_plan hash f)))"
    by (simp add: planned_upsert_def tree_entry_for_def upsert_for_def)
  moreover have "content_packed shards f (ps_pack_ref s) (pp_entry_id (entry_plan hash f))"
    unfolding content_packed_def using s by (intro bexI [of _ s] conjI refl bexI [of _ "entry_plan hash f"])
      (simp_all add: entry_plan_def)
  ultimately show thesis by (intro that [of "(ps_pack_ref s, pp_entry_id (entry_plan hash f))"]) simp_all
qed

lemma build_plan_assigned:
  assumes "assign_pack_entries hash files kind config = Ok shards" "distinct (map sf_normalized_path files)"
  obtains plan ref where "build_plan hash tree_json ck files dels shards = Ok plan"
    "\<And>f. f \<in> set files \<Longrightarrow> content_packed shards f (fst (ref f)) (snd (ref f))"
    "tree_entries plan = sort_key pt_normalized_path (map (\<lambda>f. tree_entry_for f (ref f)) files)"
    "file_ops plan = sort_key plan_file_op_sort_key (map (\<lambda>f. upsert_for f (ref f)) files @ map delete_for dels)"
    "pack_shards plan = shards" "commit_kind plan = ck"
proof -
  have "\<forall>f \<in> set files. \<exists>ref. planned_upsert (entry_refs shards) f = Ok (tree_entry_for f ref, upsert_for f ref)
      \<and> content_packed shards f (fst ref) (snd ref)"
    using planned_upsert_assigned [OF assms] by metis
  then obtain ref where ref: "\<And>f. f \<in> set files \<Longrightarrow>
      planned_upsert (entry_refs shards) f = Ok (tree_entry_for f (ref f), upsert_for f (ref f))
      \<and> content_packed shards f (fst (ref f)) (snd (ref f))"
    by metis
  then have "collect_results (planned_upsert (entry_refs shards)) files
      = Ok (map (\<lambda>f. (tree_entry_for f (ref f), upsert_for f (ref f))) files)"
    by (intro collect_results_total) simp
  then have "build_plan hash tree_json ck files dels shards = Ok
      \<lparr>commit_kind = ck, tree_id = compute_tree_id hash tree_json
          (sort_key pt_normalized_path (map (\<lambda>f. tree_entry_for f (ref f)) files)),
       tree_entries = sort_key pt_normalized_path (map (\<lambda>f. tree_entry_for f (ref f)) files),
       file_ops = sort_key plan_file_op_sort_key (map (\<lambda>f. upsert_for f (ref f)) files @ map delete_for dels),
       pack_shards = shards\<rparr>"
    by (simp add: build_plan_def comp_def Let_def delete_for_def [abs_def])
  from that [OF this, of ref] ref show thesis by simp
qed

text \<open>
  A checkpoint of files with distinct normalised paths within the size limit is always planned: its tree
  lists every file, ordered by path, with its hash and size, and each entry's pack reference leads
  to a pack of the plan that holds exactly the file's contents.
\<close>

theorem plan_checkpoint_complete:
  assumes "0 < max_pack_plaintext_bytes config" "distinct (map sf_normalized_path files)"
    and "\<forall>f \<in> set files. sf_size_bytes f \<le> max_pack_plaintext_bytes config"
  shows "\<exists>plan ref. plan_checkpoint hash tree_json files config = Ok plan \<and>
    tree_entries plan = sort_key pt_normalized_path (map (\<lambda>f. tree_entry_for f (ref f)) files) \<and>
    (\<forall>f \<in> set files. content_packed (pack_shards plan) f (fst (ref f)) (snd (ref f)))"
proof -
  obtain shards where shards: "assign_pack_entries hash files CHECKPOINT_PACK_KIND config = Ok shards"
    using assms(3) assign_loop_is_ok [of hash CHECKPOINT_PACK_KIND config "sort_key sf_normalized_path files" "[]" "[]" 0]
    by (auto simp: assign_pack_entries_def is_ok_iff)
  from build_plan_assigned [OF shards assms(2), of tree_json PlanCheckpoint "[]"]
  obtain plan ref where "build_plan hash tree_json PlanCheckpoint files [] shards = Ok plan"
    "\<And>f. f \<in> set files \<Longrightarrow> content_packed shards f (fst (ref f)) (snd (ref f))"
    "tree_entries plan = sort_key pt_normalized_path (map (\<lambda>f. tree_entry_for f (ref f)) files)"
    "pack_shards plan = shards" by metis
  with shards assms(1) show ?thesis
    by (intro exI [of _ plan] exI [of _ ref]) (simp add: plan_checkpoint_def validate_planner_config_def)
qed

lemma sample_files_ok:
  "distinct (map sf_normalized_path sample_files)"
  "\<forall>f \<in> set sample_files. sf_size_bytes f \<le> max_pack_plaintext_bytes sample_planner_config"
  by (simp_all add: sample_files_def sample_file_def sample_planner_config_def)

theorem plan_checkpoint_complete_witness:
  "\<exists>plan ref. plan_checkpoint id (\<lambda>_. []) sample_files sample_planner_config = Ok plan \<and>
    tree_entries plan = sort_key pt_normalized_path (map (\<lambda>f. tree_entry_for f (ref f)) sample_files) \<and>
    content_packed (pack_shards plan) (sample_file ''a.md'' ''one'') (fst (ref (sample_file ''a.md'' ''one'')))
      (snd (ref (sample_file ''a.md'' ''one'')))"
proof -
  have "sample_file ''a.md'' ''one'' \<in> set sample_files" by (simp add: sample_files_def)
  then show ?thesis
    using plan_checkpoint_complete [of sample_planner_config sample_files id "\<lambda>_. []"] sample_files_ok
    by (fastforce simp: sample_planner_config_def)
qed

text \<open>The files an incremental commit uploads: the scanned contents of the dirty live rows.\<close>

lemma scanned_by_path:
  assumes "distinct (map sf_normalized_path files)"
  shows "bt_get (bt_of_list (map (\<lambda>f. (sf_normalized_path f, f)) files)) k = find_row sf_normalized_path k files"
proof -
  have "distinct (map fst (map (\<lambda>f. (sf_normalized_path f, f)) files))"
    using assms by (simp add: comp_def)
  moreover have "map_of (map (\<lambda>f. (sf_normalized_path f, f)) files) k = find_row sf_normalized_path k files"
    by (induction files) auto
  ultimately show ?thesis
    unfolding bt_get_of_list by (simp add: map_of_rev_distinct)
qed

lemma dirty_upserts_Ok:
  assumes "distinct (map sf_normalized_path files)" "distinct (map normalized_path rows)"
    and "dirty_upserts rows files = Ok ups"
  shows "map sf_normalized_path ups = map normalized_path (filter (\<lambda>r. dirty r \<and> \<not> deleted r) rows)"
    and "set ups \<subseteq> set files"
proof -
  have l: "list_all2 (\<lambda>r u. find_row sf_normalized_path (normalized_path r) files = Some u)
      (filter (\<lambda>r. dirty r \<and> \<not> deleted r) rows) ups"
    using assms(3) by (simp add: dirty_upserts_def scanned_by_path [OF assms(1)] result_simps)
  then show "map sf_normalized_path ups = map normalized_path (filter (\<lambda>r. dirty r \<and> \<not> deleted r) rows)"
    by (auto simp: list_all2_conv_all_nth intro!: nth_equalityI dest!: find_row_Some)
  show "set ups \<subseteq> set files"
    using l by (auto simp: list_all2_conv_all_nth in_set_conv_nth [of _ ups] dest!: find_row_Some)
qed

lemma plan_incremental_ops:
  assumes "plan_incremental hash tree_json res files config = Ok plan"
    and "distinct (map sf_normalized_path files)" "distinct (map normalized_path (upserts res))"
  shows "\<exists>ups ref. set ups \<subseteq> set files \<and>
    map sf_normalized_path ups = map normalized_path (filter (\<lambda>r. dirty r \<and> \<not> deleted r) (upserts res)) \<and>
    file_ops plan = sort_key plan_file_op_sort_key
      (map (\<lambda>f. upsert_for f (ref f)) ups @ map delete_for (deletions res)) \<and>
    (\<forall>f \<in> set ups. content_packed (pack_shards plan) f (fst (ref f)) (snd (ref f)))"
proof -
  from assms(1) obtain ups shards where ups: "dirty_upserts (upserts res) files = Ok ups"
    and shards: "assign_pack_entries hash ups CONTENT_PACK_KIND config = Ok shards"
    and plan: "build_plan hash tree_json PlanIncremental ups (deletions res) shards = Ok plan"
    by (auto simp: plan_incremental_def result_simps)
  note u = dirty_upserts_Ok [OF assms(2,3) ups]
  have "distinct (map sf_normalized_path ups)"
    unfolding u(1) using assms(3) by (simp add: distinct_map_filter)
  from build_plan_assigned [OF shards this, of tree_json PlanIncremental "deletions res"] plan
  obtain ref where "\<And>f. f \<in> set ups \<Longrightarrow> content_packed shards f (fst (ref f)) (snd (ref f))"
    "file_ops plan = sort_key plan_file_op_sort_key (map (\<lambda>f. upsert_for f (ref f)) ups @ map delete_for (deletions res))"
    "pack_shards plan = shards" by (metis result.inject(1))
  with u show ?thesis
    by (intro exI [of _ ups] exI [of _ ref]) simp
qed

lemma plan_checkpoint_ops:
  assumes "plan_checkpoint hash tree_json files config = Ok plan" "distinct (map sf_normalized_path files)"
  shows "\<exists>ref. file_ops plan = sort_key plan_file_op_sort_key (map (\<lambda>f. upsert_for f (ref f)) files) \<and>
    (\<forall>f \<in> set files. content_packed (pack_shards plan) f (fst (ref f)) (snd (ref f)))"
proof -
  from assms(1) obtain shards where shards: "assign_pack_entries hash files CHECKPOINT_PACK_KIND config = Ok shards"
    and plan: "build_plan hash tree_json PlanCheckpoint files [] shards = Ok plan"
    by (auto simp: plan_checkpoint_def result_simps)
  from build_plan_assigned [OF shards assms(2), of tree_json PlanCheckpoint "[]"] plan
  obtain ref where "\<And>f. f \<in> set files \<Longrightarrow> content_packed shards f (fst (ref f)) (snd (ref f))"
    "file_ops plan = sort_key plan_file_op_sort_key (map (\<lambda>f. upsert_for f (ref f)) files @ map delete_for [])"
    "pack_shards plan = shards" by (metis result.inject(1))
  then show ?thesis by (intro exI [of _ ref]) simp
qed

text \<open>
  An incremental plan covers exactly the changes of the scan result it is given: one upsert per dirty
  live row, whose contents the plan's packs hold, and one delete per reported deletion, upserts
  before deletes.
\<close>

theorem plan_incremental_exact:
  assumes "plan_incremental hash tree_json res files config = Ok plan"
    and "distinct (map sf_normalized_path files)" "distinct (map normalized_path (upserts res))"
  shows "\<exists>ups ref. set ups \<subseteq> set files \<and>
    map sf_normalized_path ups = map normalized_path (filter (\<lambda>r. dirty r \<and> \<not> deleted r) (upserts res)) \<and>
    file_ops plan = sort_key plan_file_op_sort_key
      (map (\<lambda>f. upsert_for f (ref f)) ups @ map delete_for (deletions res)) \<and>
    (\<forall>f \<in> set ups. content_packed (pack_shards plan) f (fst (ref f)) (snd (ref f)))"
  using plan_incremental_ops [OF assms] .

definition sample_scan_result :: scan_apply_result where
  "sample_scan_result = \<lparr>upserts = [\<lparr>file_id = ''a.md'', fr_path = ''a.md'', normalized_path = ''a.md'',
       fr_kind = ''markdown'', fr_plaintext_hash = Some ''one'', fr_size_bytes = Some 3, fr_mtime_ms = None,
       last_synced_commit_id = None, dirty = True, deleted = False\<rparr>],
     deletions = [\<lparr>file_id = ''z.md'', fr_path = ''z.md'', normalized_path = ''z.md'', fr_kind = ''markdown'',
       fr_plaintext_hash = None, fr_size_bytes = None, fr_mtime_ms = None, last_synced_commit_id = None,
       dirty = True, deleted = True\<rparr>]\<rparr>"

lemma sample_incremental_planned:
  "\<exists>plan. plan_incremental id (\<lambda>_. []) sample_scan_result sample_files sample_planner_config = Ok plan"
proof -
  have "dirty_upserts (upserts sample_scan_result) sample_files = Ok [sample_file ''a.md'' ''one'']"
    by (simp add: dirty_upserts_def scanned_by_path [OF sample_files_ok(1)] sample_scan_result_def)
      (simp add: sample_files_def sample_file_def)
  moreover obtain shards where "assign_pack_entries id [sample_file ''a.md'' ''one''] CONTENT_PACK_KIND sample_planner_config = Ok shards"
    by (simp add: assign_pack_entries_def sample_file_def sample_planner_config_def)
  moreover from build_plan_assigned [OF this, of "\<lambda>_. []" PlanIncremental "deletions sample_scan_result"]
  obtain plan where "build_plan id (\<lambda>_. []) PlanIncremental [sample_file ''a.md'' ''one''] (deletions sample_scan_result) shards = Ok plan"
    by auto
  ultimately show ?thesis
    by (simp add: plan_incremental_def validate_planner_config_def sample_planner_config_def)
qed

theorem plan_incremental_exact_witness:
  "\<exists>plan. plan_incremental id (\<lambda>_. []) sample_scan_result sample_files sample_planner_config = Ok plan \<and>
     map op_normalized_path (file_ops plan) = [''a.md'', ''z.md'']"
proof -
  obtain plan where plan: "plan_incremental id (\<lambda>_. []) sample_scan_result sample_files sample_planner_config = Ok plan"
    using sample_incremental_planned by blast
  have "distinct (map normalized_path (upserts sample_scan_result))" by (simp add: sample_scan_result_def)
  from plan_incremental_exact [OF plan sample_files_ok(1) this]
  obtain ups ref where u: "map sf_normalized_path ups = map normalized_path (filter (\<lambda>r. dirty r \<and> \<not> deleted r)
        (upserts sample_scan_result))"
    and ops: "file_ops plan = sort_key plan_file_op_sort_key
      (map (\<lambda>f. upsert_for f (ref f)) ups @ map delete_for (deletions sample_scan_result))"
    by (elim exE conjE) (rule that)
  from u have "map sf_normalized_path ups = [''a.md'']" by (simp add: sample_scan_result_def)
  then obtain f where f: "ups = [f]" "sf_normalized_path f = ''a.md''" by auto
  obtain d where d: "deletions sample_scan_result = [d]" "normalized_path d = ''z.md''"
    by (simp add: sample_scan_result_def)
  have "file_ops plan = [upsert_for f (ref f), delete_for d]"
    unfolding ops f(1) d(1) by (simp add: upsert_before_delete)
  then have "map op_normalized_path (file_ops plan) = [''a.md'', ''z.md'']"
    using f(2) d(2) by (simp add: upsert_for_def delete_for_def)
  with plan show ?thesis by (intro exI [of _ plan] conjI)
qed

end
