(* ===== verification/Sync_State.thy ===== *)
theory Sync_State
  imports Sync_Errors "HOL-Library.Word"
begin

text \<open>
  The runtime state of the sync engine (\<^verbatim>\<open>sync/types.rs\<close>, \<^verbatim>\<open>SyncState\<close> of \<^verbatim>\<open>sync/mod.rs\<close>). Every public
  method takes the mutex once, so it is one function on the state; \<^verbatim>\<open>set_enabled(true)\<close> releases
  the lock in the middle and is two. \<open>now\<close> is the value of \<^verbatim>\<open>now_ms()\<close>. The step relation
  interleaves the methods in any order, as several threads do, and the invariants hold in every
  state it reaches. Run identifiers are \<^verbatim>\<open>u64\<close> and wrap, skipping zero.
\<close>

section \<open>Data\<close>

datatype sync_phase =
    PhNotConfigured | PhDisabled | PhIdle | PhPlanning | PhPacking | PhTransferring | PhPublishing
  | PhApplying | PhError

datatype sync_transfer_direction = SyncIdle | SyncUpload | SyncDownload | SyncBoth

datatype transfer_direction = Upload | Download

record sync_transfer_status =
  tr_active :: bool
  tr_direction :: sync_transfer_direction
  tr_retrying :: bool
  upload_total_objects :: int
  upload_completed_objects :: int
  upload_failed_objects :: int
  download_total_objects :: int
  download_completed_objects :: int
  download_failed_objects :: int
  tr_retry_attempt :: "int option"
  tr_max_attempts :: "int option"
  tr_next_retry_at_ms :: "int option"
  last_transfer_error :: "string option"

definition default_transfer :: sync_transfer_status where
  "default_transfer =
     \<lparr>tr_active = False, tr_direction = SyncIdle, tr_retrying = False,
      upload_total_objects = 0, upload_completed_objects = 0, upload_failed_objects = 0,
      download_total_objects = 0, download_completed_objects = 0, download_failed_objects = 0,
      tr_retry_attempt = None, tr_max_attempts = None, tr_next_retry_at_ms = None,
      last_transfer_error = None\<rparr>"

record sync_vault_config =
  cfg_vault_id :: string
  cfg_root_path :: string
  cfg_account_key_id :: "string option"
  cfg_remote_workspace_id :: string
  cfg_workspace_name :: "string option"
  cfg_device_id :: string
  cfg_device_name :: "string option"
  cfg_remember_workspace_key :: bool
  cfg_passphrase :: "string option"

record sync_runtime_status =
  configured :: bool
  enabled :: bool
  phase :: sync_phase
  st_vault_id :: "string option"
  st_root_path :: "string option"
  st_vault_name :: "string option"
  st_account_key_id :: "string option"
  st_remote_workspace_id :: "string option"
  st_workspace_name :: "string option"
  st_device_id :: "string option"
  st_device_name :: "string option"
  st_remember_workspace_key :: bool
  last_error :: "string option"
  last_error_category :: "sync_error_category option"
  last_synced_at_ms :: "int option"
  pending_uploads :: int
  pending_downloads :: int
  transfer :: sync_transfer_status
  conflict_count :: int
  updated_at_ms :: int

definition not_configured :: "int \<Rightarrow> sync_runtime_status" where
  "not_configured now =
     \<lparr>configured = False, enabled = False, phase = PhNotConfigured, st_vault_id = None,
      st_root_path = None, st_vault_name = None, st_account_key_id = None,
      st_remote_workspace_id = None, st_workspace_name = None, st_device_id = None,
      st_device_name = None, st_remember_workspace_key = True, last_error = None,
      last_error_category = None, last_synced_at_ms = None, pending_uploads = 0,
      pending_downloads = 0, transfer = default_transfer, conflict_count = 0,
      updated_at_ms = now\<rparr>"

record sync_inner =
  status :: sync_runtime_status
  active_run_id :: "64 word option"
  next_run_id_of :: "64 word"

datatype transfer_progress_event =
    BatchStarted transfer_direction int int int
  | ObjectCompleted transfer_direction
  | ObjectFailed transfer_direction string
  | RetryScheduled transfer_direction int int int string
  | BatchCompleted transfer_direction
  | BatchFailed transfer_direction string

datatype transfer_count = Completed | Failed

section \<open>Helpers\<close>

definition bump :: "int \<Rightarrow> int \<Rightarrow> int" where
  "bump total_objects target =
     (let target = i64_saturate (target + 1) in if total_objects > 0 then min target total_objects else target)"

fun increment_transfer_count ::
    "sync_transfer_status \<Rightarrow> transfer_direction \<Rightarrow> transfer_count \<Rightarrow> sync_transfer_status" where
  "increment_transfer_count t Upload Completed =
     t\<lparr>upload_completed_objects := bump (upload_total_objects t) (upload_completed_objects t)\<rparr>"
| "increment_transfer_count t Upload Failed =
     t\<lparr>upload_failed_objects := bump (upload_total_objects t) (upload_failed_objects t)\<rparr>"
| "increment_transfer_count t Download Completed =
     t\<lparr>download_completed_objects := bump (download_total_objects t) (download_completed_objects t)\<rparr>"
| "increment_transfer_count t Download Failed =
     t\<lparr>download_failed_objects := bump (download_total_objects t) (download_failed_objects t)\<rparr>"

fun sync_transfer_direction_of :: "transfer_direction \<Rightarrow> sync_transfer_direction" where
  "sync_transfer_direction_of Upload = SyncUpload"
| "sync_transfer_direction_of Download = SyncDownload"

fun transfer_return_phase :: "transfer_direction \<Rightarrow> sync_phase" where
  "transfer_return_phase Upload = PhPublishing"
| "transfer_return_phase Download = PhApplying"

definition next_run_id :: "64 word \<Rightarrow> 64 word" where
  "next_run_id current = (let next = current + 1 in if next = 0 then 1 else next)"

definition validate_config :: "sync_vault_config \<Rightarrow> unit sync_result" where
  "validate_config config =
     (if blank (cfg_vault_id config) then Err (InvalidArgument ''vault_id is required'')
      else if blank (cfg_root_path config) then Err (InvalidArgument ''root_path is required'')
      else Ok ())"

definition vault_name_from_root :: "string \<Rightarrow> string option" where
  "vault_name_from_root root_path =
     (case file_name (components root_path) of
        None \<Rightarrow> None
      | Some name \<Rightarrow> if trim name = [] then None else Some (trim name))"

section \<open>The methods of the state\<close>

definition sync_new :: "int \<Rightarrow> sync_inner" where
  "sync_new now = \<lparr>status = not_configured now, active_run_id = None, next_run_id_of = 1\<rparr>"

definition is_sync_running :: "sync_inner \<Rightarrow> bool" where
  "is_sync_running s \<longleftrightarrow> active_run_id s \<noteq> None"

definition restore_vault_with_status ::
    "int \<Rightarrow> sync_vault_config \<Rightarrow> bool \<Rightarrow> int option \<Rightarrow> sync_inner
      \<Rightarrow> sync_runtime_status sync_result \<times> sync_inner" where
  "restore_vault_with_status now config en last_synced s =
     (case validate_config config of
        Err e \<Rightarrow> (Err e, s)
      | Ok _ \<Rightarrow>
          let st = \<lparr>configured = True, enabled = en,
                phase = (if en then PhIdle else PhDisabled),
                st_vault_id = Some (cfg_vault_id config),
                st_root_path = Some (cfg_root_path config),
                st_vault_name = vault_name_from_root (cfg_root_path config),
                st_account_key_id = cfg_account_key_id config,
                st_remote_workspace_id = Some (cfg_remote_workspace_id config),
                st_workspace_name = cfg_workspace_name config,
                st_device_id = Some (cfg_device_id config),
                st_device_name = cfg_device_name config,
                st_remember_workspace_key = cfg_remember_workspace_key config,
                last_error = None, last_error_category = None, last_synced_at_ms = last_synced,
                pending_uploads = 0, pending_downloads = 0, transfer = default_transfer,
                conflict_count = 0, updated_at_ms = now\<rparr>
          in (Ok st, s\<lparr>status := st\<rparr>))"

definition configure_vault ::
    "int \<Rightarrow> sync_vault_config \<Rightarrow> sync_inner \<Rightarrow> sync_runtime_status sync_result \<times> sync_inner" where
  "configure_vault now config s = restore_vault_with_status now config False None s"

definition sync_reset :: "int \<Rightarrow> sync_inner \<Rightarrow> sync_runtime_status \<times> sync_inner" where
  "sync_reset now s =
     (not_configured now, s\<lparr>active_run_id := None, status := not_configured now\<rparr>)"

definition set_phase ::
    "int \<Rightarrow> sync_phase \<Rightarrow> sync_inner \<Rightarrow> sync_runtime_status sync_result \<times> sync_inner" where
  "set_phase now ph s =
     (let st = status s in
      if \<not> configured st then (Err NotConfigured, s)
      else if \<not> enabled st \<and> ph \<noteq> PhDisabled then
        (Err (InvalidArgument ''sync must be enabled before entering an active phase''), s)
      else
        let st = st\<lparr>phase := ph, last_error := None, last_error_category := None\<rparr>;
            st = (if ph \<noteq> PhTransferring then st\<lparr>transfer := default_transfer\<rparr> else st);
            st = st\<lparr>updated_at_ms := now\<rparr>
        in (Ok st, s\<lparr>status := st\<rparr>))"

text \<open>The part of \<^verbatim>\<open>set_enabled(true)\<close> before the lock is released.\<close>

definition enable_flag :: "sync_inner \<Rightarrow> sync_inner" where
  "enable_flag s =
     (if configured (status s) then s\<lparr>status := (status s)\<lparr>enabled := True\<rparr>\<rparr> else s)"

definition set_enabled ::
    "int \<Rightarrow> bool \<Rightarrow> sync_inner \<Rightarrow> sync_runtime_status sync_result \<times> sync_inner" where
  "set_enabled now en s =
     (if \<not> configured (status s) then (Err NotConfigured, s)
      else if en then set_phase now PhIdle (enable_flag s)
      else
        let st = (status s)\<lparr>enabled := False, phase := PhDisabled, last_error := None,
              last_error_category := None, transfer := default_transfer, updated_at_ms := now\<rparr>
        in (Ok st, s\<lparr>status := st\<rparr>))"

definition begin_sync_run :: "sync_inner \<Rightarrow> 64 word sync_result \<times> sync_inner" where
  "begin_sync_run s =
     (if \<not> configured (status s) then (Err NotConfigured, s)
      else if \<not> enabled (status s) then
        (Err (InvalidArgument ''sync must be enabled before running sync now''), s)
      else if active_run_id s \<noteq> None then (Err (InvalidArgument ''sync is already running''), s)
      else
        let run_id = next_run_id_of s
        in (Ok run_id, s\<lparr>next_run_id_of := next_run_id run_id, active_run_id := Some run_id\<rparr>))"

definition finish_sync_run :: "64 word \<Rightarrow> sync_inner \<Rightarrow> sync_inner" where
  "finish_sync_run run_id s =
     (if active_run_id s = Some run_id then s\<lparr>active_run_id := None\<rparr> else s)"

definition complete_manual_sync ::
    "int \<Rightarrow> int \<Rightarrow> sync_inner \<Rightarrow> sync_runtime_status sync_result \<times> sync_inner" where
  "complete_manual_sync now conflicts s =
     (if \<not> configured (status s) then (Err NotConfigured, s)
      else if \<not> enabled (status s) then
        (Err (InvalidArgument ''sync must be enabled before running sync now''), s)
      else
        let st = (status s)\<lparr>phase := PhIdle, last_error := None, last_error_category := None,
              last_synced_at_ms := Some now, pending_uploads := 0, pending_downloads := 0,
              transfer := default_transfer, conflict_count := conflicts, updated_at_ms := now\<rparr>
        in (Ok st, s\<lparr>status := st\<rparr>))"

definition set_pending_counts ::
    "int \<Rightarrow> int \<Rightarrow> int \<Rightarrow> sync_inner \<Rightarrow> sync_runtime_status sync_result \<times> sync_inner" where
  "set_pending_counts now uploads downloads s =
     (if \<not> configured (status s) then (Err NotConfigured, s)
      else if pending_uploads (status s) = uploads \<and> pending_downloads (status s) = downloads
        then (Ok (status s), s)
      else
        let st = (status s)\<lparr>pending_uploads := max uploads 0, pending_downloads := max downloads 0,
              updated_at_ms := now\<rparr>
        in (Ok st, s\<lparr>status := st\<rparr>))"

definition clear_remote_status_error ::
    "int \<Rightarrow> sync_inner \<Rightarrow> sync_runtime_status option sync_result \<times> sync_inner" where
  "clear_remote_status_error now s =
     (if \<not> configured (status s) then (Err NotConfigured, s)
      else if active_run_id s \<noteq> None then (Ok None, s)
      else if last_error_category (status s) \<notin>
          {Some CatLoginRequired, Some CatPermissionRequired, Some CatSyncDisabled,
           Some CatOffline, Some CatServer}
        then (Ok None, s)
      else
        let st = (status s)\<lparr>phase := (if enabled (status s) then PhIdle else PhDisabled),
              last_error := None, last_error_category := None, transfer := default_transfer,
              updated_at_ms := now\<rparr>
        in (Ok (Some st), s\<lparr>status := st\<rparr>))"

definition update_workspace_name ::
    "int \<Rightarrow> string \<Rightarrow> string \<Rightarrow> sync_inner
      \<Rightarrow> sync_runtime_status option sync_result \<times> sync_inner" where
  "update_workspace_name now workspace_id name s =
     (if \<not> configured (status s) then (Ok None, s)
      else if st_remote_workspace_id (status s) \<noteq> Some workspace_id then (Ok None, s)
      else
        let st = (status s)\<lparr>st_workspace_name := Some name, updated_at_ms := now\<rparr>
        in (Ok (Some st), s\<lparr>status := st\<rparr>))"

fun progress_status :: "transfer_progress_event \<Rightarrow> sync_runtime_status \<Rightarrow> sync_runtime_status" where
  "progress_status (BatchStarted direction total_objects attempt max_attempts) st =
     (let t = default_transfer\<lparr>tr_active := True,
            tr_direction := sync_transfer_direction_of direction, tr_retrying := False,
            tr_retry_attempt := Some attempt, tr_max_attempts := Some max_attempts\<rparr>;
          t = (case direction of
                 Upload \<Rightarrow> t\<lparr>upload_total_objects := total_objects\<rparr>
               | Download \<Rightarrow> t\<lparr>download_total_objects := total_objects\<rparr>)
      in st\<lparr>phase := PhTransferring, last_error := None, last_error_category := None, transfer := t\<rparr>)"
| "progress_status (ObjectCompleted direction) st =
     st\<lparr>transfer := increment_transfer_count (transfer st) direction Completed\<rparr>"
| "progress_status (ObjectFailed direction message) st =
     st\<lparr>transfer := (increment_transfer_count (transfer st) direction Failed)
          \<lparr>last_transfer_error := Some message\<rparr>\<rparr>"
| "progress_status (RetryScheduled direction next_attempt max_attempts next_retry_at message) st =
     st\<lparr>transfer := (transfer st)\<lparr>tr_active := True,
          tr_direction := sync_transfer_direction_of direction, tr_retrying := True,
          tr_retry_attempt := Some next_attempt, tr_max_attempts := Some max_attempts,
          tr_next_retry_at_ms := Some next_retry_at, last_transfer_error := Some message\<rparr>\<rparr>"
| "progress_status (BatchCompleted direction) st =
     st\<lparr>phase := transfer_return_phase direction, transfer := default_transfer,
        last_error := None, last_error_category := None\<rparr>"
| "progress_status (BatchFailed direction message) st =
     st\<lparr>transfer := default_transfer\<lparr>last_transfer_error := Some message\<rparr>\<rparr>"

definition apply_transfer_progress ::
    "int \<Rightarrow> 64 word \<Rightarrow> transfer_progress_event \<Rightarrow> sync_inner
      \<Rightarrow> sync_runtime_status option sync_result \<times> sync_inner" where
  "apply_transfer_progress now run_id event s =
     (if active_run_id s \<noteq> Some run_id then (Ok None, s)
      else if \<not> configured (status s) then (Err NotConfigured, s)
      else if \<not> enabled (status s) then
        (Err (InvalidArgument ''sync must be enabled before reporting transfer progress''), s)
      else
        let st = (progress_status event (status s))\<lparr>updated_at_ms := now\<rparr>
        in (Ok (Some st), s\<lparr>status := st\<rparr>))"

definition set_error ::
    "(string \<Rightarrow> string) \<Rightarrow> int \<Rightarrow> sync_error \<Rightarrow> sync_inner
      \<Rightarrow> sync_runtime_status sync_result \<times> sync_inner" where
  "set_error lc now e s =
     (if \<not> configured (status s) then (Err NotConfigured, s)
      else
        let st = (status s)\<lparr>phase := PhError, last_error := Some (error_to_string e),
              last_error_category := Some (category lc e)\<rparr>;
            t = default_transfer\<lparr>last_transfer_error :=
              (case last_transfer_error (transfer st) of
                 Some m \<Rightarrow> Some m | None \<Rightarrow> Some (error_to_string e))\<rparr>;
            st = st\<lparr>transfer := t, updated_at_ms := now\<rparr>
        in (Ok st, s\<lparr>status := st\<rparr>))"

section \<open>The interleavings of the methods\<close>

text \<open>
  One label per atomic call. Calls that fail leave the state alone; a successful
  \<^verbatim>\<open>begin_sync_run\<close> is labelled with the identifier it hands out. The phases are the ones the
  commands pass to \<^verbatim>\<open>set_phase\<close>.
\<close>

datatype sync_call =
    Restore sync_vault_config bool "int option"
  | Reset
  | EnableFlag
  | SetPhase sync_phase
  | Disable
  | Began "64 word"
  | Finish "64 word"
  | Complete int
  | PendingCounts int int
  | ClearError
  | RenameWorkspace string string
  | Progress "64 word" transfer_progress_event
  | SetError sync_error

inductive sync_step :: "(string \<Rightarrow> string) \<Rightarrow> sync_inner \<Rightarrow> sync_call \<Rightarrow> sync_inner \<Rightarrow> bool"
  for lc :: "string \<Rightarrow> string" where
  restore: "sync_step lc s (Restore c en l) (snd (restore_vault_with_status now c en l s))"
| reset: "sync_step lc s Reset (snd (sync_reset now s))"
| enable_flag: "sync_step lc s EnableFlag (enable_flag s)"
| set_phase: "ph \<in> {PhIdle, PhPlanning, PhPublishing, PhApplying} \<Longrightarrow>
    sync_step lc s (SetPhase ph) (snd (set_phase now ph s))"
| disable: "sync_step lc s Disable (snd (set_enabled now False s))"
| began: "begin_sync_run s = (Ok r, s') \<Longrightarrow> sync_step lc s (Began r) s'"
| finish: "sync_step lc s (Finish r) (finish_sync_run r s)"
| complete: "sync_step lc s (Complete n) (snd (complete_manual_sync now n s))"
| pending: "sync_step lc s (PendingCounts a b) (snd (set_pending_counts now a b s))"
| clear_error: "sync_step lc s ClearError (snd (clear_remote_status_error now s))"
| rename: "sync_step lc s (RenameWorkspace w n) (snd (update_workspace_name now w n s))"
| progress: "sync_step lc s (Progress r ev) (snd (apply_transfer_progress now r ev s))"
| set_error: "sync_step lc s (SetError e) (snd (set_error lc now e s))"

inductive sync_runs :: "(string \<Rightarrow> string) \<Rightarrow> sync_inner \<Rightarrow> sync_call list \<Rightarrow> sync_inner \<Rightarrow> bool"
  for lc :: "string \<Rightarrow> string" where
  runs_nil: "sync_runs lc s [] s"
| runs_cons: "sync_step lc s c t \<Longrightarrow> sync_runs lc t cs u \<Longrightarrow> sync_runs lc s (c # cs) u"

inductive_simps sync_runs_Nil: "sync_runs lc s [] u"
inductive_simps sync_runs_Cons: "sync_runs lc s (c # cs) u"

lemmas sync_method_defs =
  restore_vault_with_status_def sync_reset_def enable_flag_def set_phase_def set_enabled_def
  begin_sync_run_def finish_sync_run_def complete_manual_sync_def set_pending_counts_def
  clear_remote_status_error_def update_workspace_name_def apply_transfer_progress_def set_error_def

section \<open>Invariants\<close>

definition count_ok :: "int \<Rightarrow> int \<Rightarrow> bool" where
  "count_ok total_objects c \<longleftrightarrow> 0 \<le> c \<and> (total_objects > 0 \<longrightarrow> c \<le> total_objects)"

definition transfer_ok :: "sync_transfer_status \<Rightarrow> bool" where
  "transfer_ok t \<longleftrightarrow>
     count_ok (upload_total_objects t) (upload_completed_objects t) \<and>
     count_ok (upload_total_objects t) (upload_failed_objects t) \<and>
     count_ok (download_total_objects t) (download_completed_objects t) \<and>
     count_ok (download_total_objects t) (download_failed_objects t)"

definition phase_ok :: "sync_runtime_status \<Rightarrow> bool" where
  "phase_ok st \<longleftrightarrow>
     (if \<not> configured st then \<not> enabled st \<and> phase st = PhNotConfigured
      else phase st \<noteq> PhNotConfigured \<and> (\<not> enabled st \<longrightarrow> phase st \<in> {PhDisabled, PhError}))"

definition error_ok :: "sync_runtime_status \<Rightarrow> bool" where
  "error_ok st \<longleftrightarrow>
     (last_error st = None \<longleftrightarrow> phase st \<noteq> PhError) \<and>
     (last_error_category st = None \<longleftrightarrow> phase st \<noteq> PhError)"

definition status_ok :: "sync_runtime_status \<Rightarrow> bool" where
  "status_ok st \<longleftrightarrow> phase_ok st \<and> error_ok st \<and> transfer_ok (transfer st) \<and>
     0 \<le> pending_uploads st \<and> 0 \<le> pending_downloads st"

lemma count_ok_bump: "count_ok n c \<Longrightarrow> count_ok n (bump n c)"
  by (auto simp: count_ok_def bump_def i64_saturate_def Let_def)

lemma count_ok_zero [simp]: "count_ok n 0"
  by (simp add: count_ok_def)

lemma transfer_ok_default: "transfer_ok default_transfer"
  by (simp add: transfer_ok_def default_transfer_def)

lemma transfer_ok_cong:
  "transfer_ok (t\<lparr>tr_active := a\<rparr>) = transfer_ok t" "transfer_ok (t\<lparr>tr_direction := d\<rparr>) = transfer_ok t"
  "transfer_ok (t\<lparr>tr_retrying := a\<rparr>) = transfer_ok t" "transfer_ok (t\<lparr>tr_retry_attempt := i\<rparr>) = transfer_ok t"
  "transfer_ok (t\<lparr>tr_max_attempts := i\<rparr>) = transfer_ok t"
  "transfer_ok (t\<lparr>tr_next_retry_at_ms := i\<rparr>) = transfer_ok t"
  "transfer_ok (t\<lparr>last_transfer_error := m\<rparr>) = transfer_ok t"
  by (simp_all add: transfer_ok_def)

lemma transfer_ok_increment:
  "transfer_ok t \<Longrightarrow> transfer_ok (increment_transfer_count t d c)"
  by (induction t d c rule: increment_transfer_count.induct) (simp_all add: transfer_ok_def count_ok_bump)

lemma transfer_ok_progress:
  "transfer_ok (transfer st) \<Longrightarrow> transfer_ok (transfer (progress_status ev st))"
proof (cases ev)
  case (BatchStarted d n a m)
  then show ?thesis
    by (cases d) (simp_all add: transfer_ok_def default_transfer_def)
qed (simp_all add: transfer_ok_increment transfer_ok_cong transfer_ok_default)

lemma progress_status_pending:
  "pending_uploads (progress_status ev st) = pending_uploads st"
  "pending_downloads (progress_status ev st) = pending_downloads st"
  by (cases ev; simp add: Let_def)+

lemma status_ok_progress:
  assumes "status_ok st" "configured st" "enabled st"
  shows "status_ok ((progress_status ev st)\<lparr>updated_at_ms := now\<rparr>)"
proof -
  have "transfer_return_phase d \<notin> {PhError, PhNotConfigured}" for d
    by (cases d) simp_all
  then have "phase_ok ((progress_status ev st)\<lparr>updated_at_ms := now\<rparr>)
      \<and> error_ok ((progress_status ev st)\<lparr>updated_at_ms := now\<rparr>)"
    using assms by (cases ev) (simp_all add: status_ok_def phase_ok_def error_ok_def Let_def)
  moreover note progress_status_pending
  ultimately show ?thesis
    using assms(1) transfer_ok_progress [of st ev] by (simp add: status_ok_def)
qed

lemma status_ok_step: "sync_step lc s c t \<Longrightarrow> status_ok (status s) \<Longrightarrow> status_ok (status t)"
proof (induction s c t rule: sync_step.induct)
  case progress
  then show ?case
    by (simp add: apply_transfer_progress_def Let_def status_ok_progress)
next
  case restore
  then show ?case
    by (auto simp: restore_vault_with_status_def status_ok_def phase_ok_def error_ok_def
        transfer_ok_default Let_def split: result.splits)
qed (auto simp: sync_method_defs status_ok_def phase_ok_def error_ok_def transfer_ok_default
      transfer_ok_cong not_configured_def Let_def split: if_splits)

definition runs_ok :: "sync_inner \<Rightarrow> bool" where
  "runs_ok s \<longleftrightarrow> next_run_id_of s \<noteq> 0 \<and>
     (\<forall>r. active_run_id s = Some r \<longrightarrow> r \<noteq> 0 \<and> next_run_id_of s = next_run_id r)"

lemma next_run_id_not_zero: "next_run_id r \<noteq> 0"
  by (simp add: next_run_id_def Let_def)

text \<open>The methods other than begin, finish and reset leave the run identifiers alone.\<close>

definition same_run :: "sync_inner \<Rightarrow> sync_inner \<Rightarrow> bool" where
  "same_run s t \<longleftrightarrow> active_run_id t = active_run_id s \<and> next_run_id_of t = next_run_id_of s"

lemma same_run_methods:
  "same_run s (snd (restore_vault_with_status now c en l s))"
  "same_run s (enable_flag s)"
  "same_run s (snd (set_phase now ph s))"
  "same_run s (snd (set_enabled now False s))"
  "same_run s (snd (complete_manual_sync now n s))"
  "same_run s (snd (set_pending_counts now a b s))"
  "same_run s (snd (clear_remote_status_error now s))"
  "same_run s (snd (update_workspace_name now w m s))"
  "same_run s (snd (apply_transfer_progress now r ev s))"
  "same_run s (snd (set_error lc now e s))"
  by (simp_all add: same_run_def sync_method_defs Let_def split: result.split)

lemma sync_step_run_ids:
  assumes "sync_step lc s c t"
  shows "(case c of
      Began r \<Rightarrow> active_run_id s = None \<and> r = next_run_id_of s \<and> active_run_id t = Some r
        \<and> next_run_id_of t = next_run_id r
    | Finish r \<Rightarrow> active_run_id t = (if active_run_id s = Some r then None else active_run_id s)
        \<and> next_run_id_of t = next_run_id_of s
    | Reset \<Rightarrow> active_run_id t = None \<and> next_run_id_of t = next_run_id_of s
    | _ \<Rightarrow> same_run s t)"
  using assms
proof cases
  case (began r)
  then show ?thesis by (auto simp: begin_sync_run_def Let_def split: if_splits)
qed (simp_all add: same_run_methods finish_sync_run_def sync_reset_def)

lemma runs_ok_step: "sync_step lc s c t \<Longrightarrow> runs_ok s \<Longrightarrow> runs_ok t"
  by (drule sync_step_run_ids) (auto simp: runs_ok_def same_run_def next_run_id_not_zero split: sync_call.splits if_splits)

lemma sync_runs_invariant:
  assumes "sync_runs lc s cs t" "status_ok (status s)" "runs_ok s"
  shows "status_ok (status t) \<and> runs_ok t"
  using assms by (induction rule: sync_runs.induct) (auto dest: status_ok_step runs_ok_step)

lemma sync_new_ok: "status_ok (status (sync_new now))" "runs_ok (sync_new now)"
  by (auto simp: sync_new_def not_configured_def status_ok_def phase_ok_def error_ok_def
      transfer_ok_default runs_ok_def)

text \<open>
  C8. In every state any interleaving of the methods can reach: the phase agrees with the
  \<^verbatim>\<open>configured\<close> and \<^verbatim>\<open>enabled\<close> flags (a vault that is configured and disabled is in phase Disabled or
  Error), an error text is shown exactly in phase Error and always with a category, the
  transfer counters never exceed their announced totals, and pending counts are not negative.
\<close>

theorem sync_state_invariant:
  assumes "sync_runs lc (sync_new now) calls s"
  shows "phase_ok (status s) \<and> error_ok (status s) \<and> transfer_ok (transfer (status s)) \<and>
    0 \<le> pending_uploads (status s) \<and> 0 \<le> pending_downloads (status s)"
  using sync_runs_invariant [OF assms sync_new_ok] by (simp add: status_ok_def)

text \<open>A history with two runs on a configured vault, at which the properties are witnessed.\<close>

definition sample_config :: sync_vault_config where
  "sample_config =
     \<lparr>cfg_vault_id = ''v'', cfg_root_path = ''/v'', cfg_account_key_id = None,
      cfg_remote_workspace_id = ''w'', cfg_workspace_name = None, cfg_device_id = ''d'',
      cfg_device_name = None, cfg_remember_workspace_key = True, cfg_passphrase = None\<rparr>"

definition sample_calls :: "sync_call list" where
  "sample_calls =
     [Restore sample_config True None, Began 1, Progress 1 (BatchStarted Upload 2 1 3),
      Progress 1 (ObjectCompleted Upload), Finish 1, Began 2]"

lemma sample_restore:
  "\<exists>st. snd (restore_vault_with_status 0 sample_config True None (sync_new 0))
     = \<lparr>status = st, active_run_id = None, next_run_id_of = 1\<rparr> \<and> configured st \<and> enabled st"
  by (simp add: restore_vault_with_status_def validate_config_def sample_config_def not_blank_graphic
      is_ascii_graphic_def sync_new_def Let_def)

lemma sample_begin:
  "configured st \<Longrightarrow> enabled st \<Longrightarrow>
   begin_sync_run \<lparr>status = st, active_run_id = None, next_run_id_of = r\<rparr>
   = (Ok r, \<lparr>status = st, active_run_id = Some r, next_run_id_of = next_run_id r\<rparr>)"
  by (simp add: begin_sync_run_def)

lemma sample_runs: "\<exists>s. sync_runs lc (sync_new 0) sample_calls s"
proof -
  obtain st where r: "snd (restore_vault_with_status 0 sample_config True None (sync_new 0))
     = \<lparr>status = st, active_run_id = None, next_run_id_of = 1\<rparr>" and c: "configured st" "enabled st"
    using sample_restore by blast
  let ?s1 = "\<lparr>status = st, active_run_id = Some (1 :: 64 word), next_run_id_of = next_run_id 1\<rparr>"
  let ?s2 = "snd (apply_transfer_progress 0 1 (BatchStarted Upload 2 1 3) ?s1)"
  let ?s3 = "snd (apply_transfer_progress 0 1 (ObjectCompleted Upload) ?s2)"
  obtain st3 where s3: "?s3 = \<lparr>status = st3, active_run_id = Some 1, next_run_id_of = next_run_id 1\<rparr>"
    and c3: "configured st3" "enabled st3"
    by (simp add: apply_transfer_progress_def c Let_def)
  have n1: "next_run_id 1 = 2"
    by (simp add: next_run_id_def Let_def)
  let ?s4 = "\<lparr>status = st3, active_run_id = None, next_run_id_of = (2 :: 64 word)\<rparr>"
  have f: "finish_sync_run 1 ?s3 = ?s4"
    unfolding s3 by (simp add: finish_sync_run_def n1)
  have "sync_step lc (sync_new 0) (Restore sample_config True None)
      \<lparr>status = st, active_run_id = None, next_run_id_of = 1\<rparr>"
    unfolding r [symmetric] by (rule sync_step.restore)
  moreover have "sync_step lc \<lparr>status = st, active_run_id = None, next_run_id_of = 1\<rparr> (Began 1) ?s1"
    by (rule sync_step.began [OF sample_begin [OF c]])
  moreover have "sync_step lc ?s3 (Finish 1) ?s4"
    unfolding f [symmetric] by (rule sync_step.finish)
  moreover have "\<exists>s5. sync_step lc ?s4 (Began 2) s5"
    using sync_step.began [OF sample_begin [OF c3]] by blast
  ultimately show ?thesis
    unfolding sample_calls_def sync_runs_Cons sync_runs_Nil
    by (meson sync_step.progress)
qed

theorem sync_state_invariant_witness:
  "\<exists>s. sync_runs id (sync_new 0) sample_calls s \<and> transfer_ok (transfer (status s))"
  using sample_runs [of id] sync_state_invariant by blast

section \<open>Runs exclude each other\<close>

lemma sync_runs_append:
  "sync_runs lc s (as @ bs) u \<longleftrightarrow> (\<exists>t. sync_runs lc s as t \<and> sync_runs lc t bs u)"
by (induction as arbitrary: s) (auto simp: sync_runs_Nil sync_runs_Cons)

lemma active_run_kept:
  "sync_runs lc s cs t \<Longrightarrow> active_run_id s = Some r \<Longrightarrow> Finish r \<notin> set cs \<Longrightarrow> Reset \<notin> set cs \<Longrightarrow>
   active_run_id t = Some r"
proof (induction rule: sync_runs.induct)
  case (runs_cons s c t cs u)
  from sync_step_run_ids [OF runs_cons.hyps(1)] runs_cons.prems
  have "active_run_id t = Some r"
    by (auto simp: same_run_def split: sync_call.splits if_splits)
  with runs_cons show ?case by simp
qed

text \<open>
  C9. At most one run at a time: in any history, between two successful \<^verbatim>\<open>begin_sync_run\<close> calls the
  first run was finished under its own identifier or the state was reset.
\<close>

theorem sync_run_mutual_exclusion:
  assumes "sync_runs lc s (before @ Began r1 # between @ Began r2 # after) t"
  shows "Finish r1 \<in> set between \<or> Reset \<in> set between"
proof (rule ccontr)
  assume *: "\<not> ?thesis"
  from assms obtain u v w x where "sync_step lc u (Began r1) v" "sync_runs lc v between w"
    and step: "sync_step lc w (Began r2) x"
    by (auto simp: sync_runs_append sync_runs_Cons)
  then have "active_run_id w = Some r1"
    using * sync_step_run_ids [of lc u "Began r1" v] active_run_kept by auto
  then show False
    using sync_step_run_ids [OF step] by simp
qed

theorem sync_run_mutual_exclusion_witness:
  "Finish 1 \<in> set [Progress 1 (BatchStarted Upload 2 1 3), Progress 1 (ObjectCompleted Upload), Finish 1]
   \<or> Reset \<in> set [Progress 1 (BatchStarted Upload 2 1 3), Progress 1 (ObjectCompleted Upload), Finish 1]"
proof -
  obtain s where "sync_runs id (sync_new 0) sample_calls s"
    using sample_runs by blast
  then have "sync_runs id (sync_new 0) ([Restore sample_config True None] @ Began 1 #
      [Progress 1 (BatchStarted Upload 2 1 3), Progress 1 (ObjectCompleted Upload), Finish 1] @
      Began 2 # []) s"
    by (simp add: sample_calls_def)
  then show ?thesis by (rule sync_run_mutual_exclusion)
qed

section \<open>Run identifiers\<close>

fun begun :: "sync_call list \<Rightarrow> 64 word list" where
  "begun [] = []"
| "begun (Began r # cs) = r # begun cs"
| "begun (_ # cs) = begun cs"

lemma begun_iterates:
  "sync_runs lc s cs t \<Longrightarrow>
   begun cs = map (\<lambda>k. (next_run_id ^^ k) (next_run_id_of s)) [0..<length (begun cs)]"
proof (induction rule: sync_runs.induct)
  case (runs_cons s c t cs u)
  show ?case
  proof (cases "\<exists>r. c = Began r")
    case True
    then obtain r where c: "c = Began r" by blast
    from sync_step_run_ids [OF runs_cons.hyps(1)]
    have r: "r = next_run_id_of s" "next_run_id_of t = next_run_id r" by (simp_all add: c)
    have "map (\<lambda>k. (next_run_id ^^ k) r) [0..<Suc n]
        = r # map (\<lambda>k. (next_run_id ^^ k) (next_run_id r)) [0..<n]" for n
      by (simp add: map_upt_Suc funpow_swap1 del: upt_Suc)
    with runs_cons.IH r show ?thesis by (simp add: c)
  next
    case False
    then have "begun (c # cs) = begun cs" by (cases c) auto
    moreover have "next_run_id_of t = next_run_id_of s"
      using sync_step_run_ids [OF runs_cons.hyps(1)] False by (auto simp: same_run_def split: sync_call.splits)
    ultimately show ?thesis using runs_cons.IH by simp
  qed
qed simp

lemma next_run_id_iterate:
  "k < 2 ^ 64 - 1 \<Longrightarrow> (next_run_id ^^ k) 1 = word_of_nat (Suc k)"
proof (induction k)
  case (Suc k)
  have "word_of_nat (Suc (Suc k)) \<noteq> (0 :: 64 word)"
    using Suc.prems by (simp add: word_of_nat_eq_0_iff nat_dvd_not_less del: of_nat_Suc)
  with Suc show ?case
    by (simp add: next_run_id_def Let_def add.commute)
qed simp

text \<open>
  Run identifiers are not reused: the first \<open>2 ^ 64 - 1\<close> runs of a process have the identifiers
  1, 2, 3 and so on, so a late progress event or a late finish of an old run is never taken for
  one of the current run.
\<close>

theorem sync_run_ids_fresh:
  assumes "sync_runs lc (sync_new now) calls s" and "length (begun calls) < 2 ^ 64"
  shows "begun calls = map (\<lambda>k. word_of_nat (Suc k)) [0..<length (begun calls)]
    \<and> distinct (begun calls)"
proof -
  have "begun calls = map (\<lambda>k. (next_run_id ^^ k) 1) [0..<length (begun calls)]"
    using begun_iterates [OF assms(1)] by (simp add: sync_new_def)
  also have "\<dots> = map (\<lambda>k. word_of_nat (Suc k)) [0..<length (begun calls)]"
    by (rule map_cong [OF refl]) (use assms(2) in \<open>simp add: next_run_id_iterate del: of_nat_Suc\<close>)
  finally have eq: "begun calls = map (\<lambda>k. word_of_nat (Suc k)) [0..<length (begun calls)]" .
  have "inj_on (\<lambda>k. word_of_nat (Suc k) :: 64 word) {0..<length (begun calls)}"
  proof (rule inj_onI)
    fix j k
    assume "j \<in> {0..<length (begun calls)}" "k \<in> {0..<length (begun calls)}"
      and e: "(word_of_nat (Suc j) :: 64 word) = word_of_nat (Suc k)"
    then have "Suc j < 2 ^ 64" "Suc k < 2 ^ 64" using assms(2) by auto
    with arg_cong [OF e, of unat] show "j = k"
      by (simp add: unat_of_nat del: of_nat_Suc)
  qed
  then have "distinct (map (\<lambda>k. word_of_nat (Suc k) :: 64 word) [0..<length (begun calls)])"
    by (simp add: distinct_map)
  with eq show ?thesis by simp
qed

theorem sync_run_ids_fresh_witness:
  "begun sample_calls = [1, 2] \<and> distinct (begun sample_calls)"
proof -
  obtain s where s: "sync_runs id (sync_new 0) sample_calls s"
    using sample_runs by blast
  have "length (begun sample_calls) < 2 ^ 64"
    by (simp add: sample_calls_def)
  from sync_run_ids_fresh [OF s this] show ?thesis
    by (simp add: sample_calls_def)
qed

end
