(* ===== verification/Sync_Transfer.thy ===== *)
theory Sync_Transfer
  imports Sync_State Sync_Packer
begin

text \<open>
  The object transfer queue (\<^verbatim>\<open>sync/transfer.rs\<close>, with the messages of \<^verbatim>\<open>sync/client.rs\<close>). The server
  and the network are the record \<open>transfer_net\<close>: one field per remote call, indexed by the number of
  the attempt and, for the transfers of an attempt, which run concurrently, by the task. The theorems
  quantify over all of it, so that every interleaving of the tasks is covered; \<open>net_order\<close> is the
  order in which the tasks of an attempt report their end, \<open>net_abort_order\<close> the tasks that have
  reported when an attempt gives up before all are started. Every operation returns the events it
  hands to the progress sink beside its result. A task that panics and a closed semaphore are not
  modelled.
\<close>

section \<open>Messages of the service\<close>

datatype sync_object_kind =
    OBJECT_KIND_UNSPECIFIED
  | OBJECT_KIND_COMMIT_BODY
  | OBJECT_KIND_CONTENT_PACK
  | OBJECT_KIND_CHECKPOINT_PACK
  | OBJECT_KIND_LARGE_OBJECT

datatype sync_object_error_reason =
    REASON_UNSPECIFIED
  | REASON_UPLOAD_EXPIRED
  | REASON_CHECKSUM_MISMATCH
  | REASON_SIZE_MISMATCH
  | REASON_STORAGE_PROVIDER_ERROR
  | REASON_QUOTA_EXCEEDED
  | REASON_CANCELED

record object_reservation_input =
  ri_client_object_ref :: string
  ri_kind :: sync_object_kind

record reserved_object =
  ro_client_object_ref :: string
  ro_object_id :: string
  ro_kind :: sync_object_kind

record object_upload_descriptor =
  ud_object_id :: string
  ud_kind :: sync_object_kind
  ud_ciphertext_sha256 :: string
  ud_size_bytes :: int

record http_header =
  hh_name :: string
  hh_value :: string

record object_upload_target =
  ut_object_id :: string
  ut_put_url :: string
  ut_required_headers :: "http_header list"

record completed_object_upload =
  co_object_id :: string
  co_ciphertext_sha256 :: string
  co_size_bytes :: int
  co_provider_etag :: "string option"

record uploaded_object_metadata =
  um_object_id :: string
  um_ciphertext_sha256 :: string
  um_size_bytes :: int

record object_upload_completion =
  uc_object :: "uploaded_object_metadata option"
  uc_error_reason :: "sync_object_error_reason option"

record object_download_target =
  dt_object_id :: string
  dt_kind :: sync_object_kind
  dt_get_url :: string
  dt_required_headers :: "http_header list"
  dt_ciphertext_sha256 :: string
  dt_size_bytes :: int

section \<open>Data of the queue\<close>

text \<open>A \<^verbatim>\<open>Duration\<close> is its number of nanoseconds.\<close>

record transfer_queue_config =
  max_upload_concurrency :: nat
  max_download_concurrency :: nat
  max_attempts :: nat
  initial_backoff :: nat

definition default_queue_config :: transfer_queue_config where
  "default_queue_config =
     \<lparr>max_upload_concurrency = 4, max_download_concurrency = 8, max_attempts = 3,
      initial_backoff = 250 * 1000000\<rparr>"

record encrypted_upload_object =
  eu_client_object_ref :: string
  eu_kind :: sync_object_kind
  eu_ciphertext :: bytes

record reserved_encrypted_upload_object =
  ru_object_id :: string
  ru_kind :: sync_object_kind
  ru_ciphertext :: bytes

record downloaded_object =
  do_object_id :: string
  do_kind :: sync_object_kind
  do_ciphertext_sha256 :: string
  do_ciphertext :: bytes

record object_put_request =
  put_url :: string
  put_required_headers :: "http_header list"
  put_body :: bytes

record object_put_response =
  put_provider_etag :: "string option"

record object_get_request =
  get_url :: string
  get_required_headers :: "http_header list"

record object_get_response =
  get_body :: bytes

datatype object_http_error =
    InvalidHeader string
  | Network string
  | HttpStatus nat string

record local_upload =
  lu_client_object_ref :: string
  lu_kind :: sync_object_kind
  lu_ciphertext_sha256 :: string
  lu_size_bytes :: int
  lu_ciphertext :: bytes

record planned_upload =
  pu_descriptor :: object_upload_descriptor
  pu_ciphertext :: bytes

datatype attempt_failure = Retryable string | Fatal sync_error

type_synonym 'a attempt_result = "('a, attempt_failure) result"
type_synonym events = "transfer_progress_event list"

record transfer_net =
  net_reserve_object_ids ::
    "string \<Rightarrow> string \<Rightarrow> object_reservation_input list \<Rightarrow> reserved_object list sync_result"
  net_create_object_upload_batch ::
    "nat \<Rightarrow> string \<Rightarrow> string \<Rightarrow> string \<Rightarrow> object_upload_descriptor list
      \<Rightarrow> object_upload_target list sync_result"
  net_complete_object_upload_batch ::
    "nat \<Rightarrow> string \<Rightarrow> string \<Rightarrow> string \<Rightarrow> completed_object_upload list
      \<Rightarrow> object_upload_completion list sync_result"
  net_create_object_download_batch ::
    "nat \<Rightarrow> string \<Rightarrow> string \<Rightarrow> string list \<Rightarrow> object_download_target list sync_result"
  net_put :: "nat \<Rightarrow> nat \<Rightarrow> object_put_request \<Rightarrow> (object_put_response, object_http_error) result"
  net_get :: "nat \<Rightarrow> nat \<Rightarrow> object_get_request \<Rightarrow> (object_get_response, object_http_error) result"
  net_order :: "nat \<Rightarrow> nat \<Rightarrow> nat list"
  net_abort_order :: "nat \<Rightarrow> nat \<Rightarrow> nat list"
  net_now_ms :: "nat \<Rightarrow> int"
  net_jitter_seed :: "nat \<Rightarrow> nat"

section \<open>HTTP through the client library\<close>

text \<open>
  \<^verbatim>\<open>ReqwestObjectTransferHttp\<close>. The fields of \<open>http_client\<close> are the library: the checks of a header name
  and value (the error's text otherwise) and the exchange itself. \<^verbatim>\<open>HeaderMap::insert\<close> replaces an earlier
  value of the same name.
\<close>

record http_response =
  rs_status :: nat
  rs_etag :: "bytes option"
  rs_text :: "(string, string) result"
  rs_bytes :: "(bytes, string) result"

record http_client =
  hc_header_name :: "string \<Rightarrow> (string, string) result"
  hc_header_value :: "string \<Rightarrow> (string, string) result"
  hc_put :: "string \<Rightarrow> (string \<rightharpoonup> string) \<Rightarrow> bytes \<Rightarrow> (http_response, string) result"
  hc_get :: "string \<Rightarrow> (string \<rightharpoonup> string) \<Rightarrow> (http_response, string) result"

definition insert_header ::
    "http_client \<Rightarrow> http_header \<Rightarrow> (string \<rightharpoonup> string) \<Rightarrow> (string \<rightharpoonup> string, object_http_error) result" where
  "insert_header C h output =
     and_then (map_err (\<lambda>e. InvalidHeader (''invalid transfer header name: '' @ e))
         (hc_header_name C (hh_name h))) (\<lambda>name.
     and_then (map_err (\<lambda>e. InvalidHeader (''invalid transfer header value: '' @ e))
         (hc_header_value C (hh_value h))) (\<lambda>v.
       Ok (output(name \<mapsto> v))))"

definition header_map ::
    "http_client \<Rightarrow> http_header list \<Rightarrow> (string \<rightharpoonup> string, object_http_error) result" where
  "header_map C headers = fold_results (insert_header C) headers Map.empty"

definition status_is_success :: "nat \<Rightarrow> bool" where
  "status_is_success s \<longleftrightarrow> 200 \<le> s \<and> s < 300"

text \<open>\<^verbatim>\<open>HeaderValue::to_str\<close> accepts visible ASCII, the space and the tab.\<close>

definition header_to_str :: "bytes \<Rightarrow> string option" where
  "header_to_str b =
     (if \<forall>c \<in> set b. (32 \<le> byte c \<and> byte c < 127) \<or> byte c = 9 then Some b else None)"

definition reqwest_put ::
    "http_client \<Rightarrow> object_put_request \<Rightarrow> (object_put_response, object_http_error) result" where
  "reqwest_put C request =
     and_then (header_map C (put_required_headers request)) (\<lambda>headers.
     and_then (map_err Network (hc_put C (put_url request) headers (put_body request))) (\<lambda>response.
       let provider_etag = Option.bind (rs_etag response) header_to_str in
       if status_is_success (rs_status response) then Ok \<lparr>put_provider_etag = provider_etag\<rparr>
       else Err (HttpStatus (rs_status response) (unwrap_or [] (rs_text response)))))"

definition reqwest_get ::
    "http_client \<Rightarrow> object_get_request \<Rightarrow> (object_get_response, object_http_error) result" where
  "reqwest_get C request =
     and_then (header_map C (get_required_headers request)) (\<lambda>headers.
     and_then (map_err Network (hc_get C (get_url request) headers)) (\<lambda>response.
       if status_is_success (rs_status response)
       then and_then (map_err Network (rs_bytes response)) (\<lambda>b. Ok \<lparr>get_body = b\<rparr>)
       else Err (HttpStatus (rs_status response) (unwrap_or [] (rs_text response)))))"

section \<open>Helpers\<close>

definition validate_queue_config :: "transfer_queue_config \<Rightarrow> unit sync_result" where
  "validate_queue_config config =
     (if max_upload_concurrency config = 0
      then Err (InvalidArgument ''max_upload_concurrency must be at least 1'')
      else if max_download_concurrency config = 0
      then Err (InvalidArgument ''max_download_concurrency must be at least 1'')
      else if max_attempts config = 0
      then Err (InvalidArgument ''max_attempts must be at least 1'')
      else Ok ())"

definition checked_size :: "nat \<Rightarrow> int attempt_result" where
  "checked_size n =
     (if int n \<le> i64_max then Ok (int n)
      else Err (Fatal (InvalidArgument ''object is too large to describe'')))"

definition checked_count :: "nat \<Rightarrow> int" where
  "checked_count n = (if int n \<le> i64_max then int n else i64_max)"

definition sha256_hex :: "'z crypto_libs_scheme \<Rightarrow> bytes \<Rightarrow> string" where
  "sha256_hex L b = hex_encode L (sha256 L b)"

fun is_retryable_http_error :: "object_http_error \<Rightarrow> bool" where
  "is_retryable_http_error (Network _) = True"
| "is_retryable_http_error (HttpStatus s _) =
     (s \<in> {401, 403, 408, 429} \<or> (500 \<le> s \<and> s \<le> 599))"
| "is_retryable_http_error (InvalidHeader _) = False"

fun http_error_message :: "object_http_error \<Rightarrow> string" where
  "http_error_message (InvalidHeader m) = m"
| "http_error_message (Network m) = m"
| "http_error_message (HttpStatus s body) =
     (if blank body then ''object transfer returned HTTP '' @ show_nat s
      else ''object transfer returned HTTP '' @ show_nat s @ '': '' @ body)"

fun object_error_reason_name :: "sync_object_error_reason \<Rightarrow> string" where
  "object_error_reason_name REASON_UNSPECIFIED = ''unspecified''"
| "object_error_reason_name REASON_UPLOAD_EXPIRED = ''upload_expired''"
| "object_error_reason_name REASON_CHECKSUM_MISMATCH = ''checksum_mismatch''"
| "object_error_reason_name REASON_SIZE_MISMATCH = ''size_mismatch''"
| "object_error_reason_name REASON_STORAGE_PROVIDER_ERROR = ''storage_provider_error''"
| "object_error_reason_name REASON_QUOTA_EXCEEDED = ''quota_exceeded''"
| "object_error_reason_name REASON_CANCELED = ''canceled''"

definition failure_from_http :: "object_http_error \<Rightarrow> attempt_failure" where
  "failure_from_http error =
     (let message = http_error_message error in
      if is_retryable_http_error error then Retryable message else Fatal (Transport message))"

fun failure_message :: "attempt_failure \<Rightarrow> string" where
  "failure_message (Retryable message) = message"
| "failure_message (Fatal error) = error_to_string error"

text \<open>The conversion of an attempt's failure to an error in \<^verbatim>\<open>local_upload_from\<close>.\<close>

fun failure_error :: "attempt_failure \<Rightarrow> sync_error" where
  "failure_error (Fatal error) = error"
| "failure_error (Retryable message) = Transport message"

fun attempt_progress :: "transfer_direction \<Rightarrow> 'a attempt_result \<Rightarrow> transfer_progress_event" where
  "attempt_progress direction (Ok _) = ObjectCompleted direction"
| "attempt_progress direction (Err error) = ObjectFailed direction (failure_message error)"

text \<open>\<^verbatim>\<open>Duration::MAX\<close> is \<open>2 ^ 64 - 1\<close> seconds and 999999999 nanoseconds.\<close>

definition DURATION_MAX :: nat where
  "DURATION_MAX = (2 ^ 64 - 1) * 1000000000 + 999999999"

definition retry_delay :: "nat \<Rightarrow> nat \<Rightarrow> nat \<Rightarrow> nat" where
  "retry_delay jitter_seed backoff attempt =
     (if backoff = 0 then 0
      else
        let multiplier = min (attempt + 1) (2 ^ 32 - 1);
            base = min (backoff * multiplier) DURATION_MAX;
            jitter_cap_ms = min (base div 1000000 div 4) 1000
        in if jitter_cap_ms = 0 then base
           else min (base + (jitter_seed mod (jitter_cap_ms + 1)) * 1000000) DURATION_MAX)"

definition duration_ms_i64 :: "nat \<Rightarrow> int" where
  "duration_ms_i64 d = min (int (d div 1000000)) i64_max"

definition local_upload_from ::
    "'z crypto_libs_scheme \<Rightarrow> encrypted_upload_object \<Rightarrow> local_upload sync_result" where
  "local_upload_from L ob =
     and_then (validate_required (eu_client_object_ref ob) ''client_object_ref'') (\<lambda>_.
     and_then (map_err failure_error (checked_size (length (eu_ciphertext ob)))) (\<lambda>n.
       Ok \<lparr>lu_client_object_ref = eu_client_object_ref ob, lu_kind = eu_kind ob,
           lu_ciphertext_sha256 = sha256_hex L (eu_ciphertext ob), lu_size_bytes = n,
           lu_ciphertext = eu_ciphertext ob\<rparr>))"

definition local_reserved_upload_from ::
    "'z crypto_libs_scheme \<Rightarrow> reserved_encrypted_upload_object \<Rightarrow> planned_upload sync_result" where
  "local_reserved_upload_from L ob =
     and_then (validate_required (ru_object_id ob) ''object_id'') (\<lambda>_.
     and_then (map_err failure_error (checked_size (length (ru_ciphertext ob)))) (\<lambda>n.
       Ok \<lparr>pu_descriptor =
             \<lparr>ud_object_id = ru_object_id ob, ud_kind = ru_kind ob,
              ud_ciphertext_sha256 = sha256_hex L (ru_ciphertext ob), ud_size_bytes = n\<rparr>,
           pu_ciphertext = ru_ciphertext ob\<rparr>))"

text \<open>\<^verbatim>\<open>collect::<HashMap<_, _>>()\<close>: the last entry of a key counts.\<close>

definition hash_of_list :: "('a \<Rightarrow> 'k) \<Rightarrow> 'a list \<Rightarrow> ('k \<rightharpoonup> 'a)" where
  "hash_of_list key xs = map_of (rev (map (\<lambda>x. (key x, x)) xs))"

section \<open>Transfers of one attempt\<close>

definition upload_one ::
    "(object_put_request \<Rightarrow> (object_put_response, object_http_error) result) \<Rightarrow> planned_upload
      \<Rightarrow> object_upload_target \<Rightarrow> completed_object_upload attempt_result" where
  "upload_one put upload target =
     and_then (map_err failure_from_http
         (put \<lparr>put_url = ut_put_url target, put_required_headers = ut_required_headers target,
               put_body = pu_ciphertext upload\<rparr>)) (\<lambda>response.
       Ok \<lparr>co_object_id = ud_object_id (pu_descriptor upload),
           co_ciphertext_sha256 = ud_ciphertext_sha256 (pu_descriptor upload),
           co_size_bytes = ud_size_bytes (pu_descriptor upload),
           co_provider_etag = put_provider_etag response\<rparr>)"

definition download_one ::
    "'z crypto_libs_scheme \<Rightarrow> (object_get_request \<Rightarrow> (object_get_response, object_http_error) result)
      \<Rightarrow> object_download_target \<Rightarrow> downloaded_object attempt_result" where
  "download_one L get target =
     and_then (map_err failure_from_http
         (get \<lparr>get_url = dt_get_url target, get_required_headers = dt_required_headers target\<rparr>))
       (\<lambda>response.
       let observed_sha256 = sha256_hex L (get_body response) in
       if observed_sha256 \<noteq> dt_ciphertext_sha256 target
       then Err (Fatal (Integrity (''downloaded object '' @ dt_object_id target @
              '' hash mismatch: expected '' @ dt_ciphertext_sha256 target @ '', got '' @
              observed_sha256)))
       else and_then (checked_size (length (get_body response))) (\<lambda>observed_size.
         if observed_size \<noteq> dt_size_bytes target
         then Err (Fatal (Integrity (''downloaded object '' @ dt_object_id target @
                '' size mismatch: expected '' @ show_int (dt_size_bytes target) @ '', got '' @
                show_int observed_size)))
         else Ok \<lparr>do_object_id = dt_object_id target, do_kind = dt_kind target,
                  do_ciphertext_sha256 = observed_sha256, do_ciphertext = get_body response\<rparr>))"

text \<open>Awaiting the handles in order: the first failure is kept, the others are dropped.\<close>

fun join_handles ::
    "'a attempt_result list \<Rightarrow> 'a list \<Rightarrow> attempt_failure option \<Rightarrow> 'a list attempt_result" where
  "join_handles [] completed first_error =
     (case first_error of Some error \<Rightarrow> Err error | None \<Rightarrow> Ok completed)"
| "join_handles (Ok r # rs) completed first_error = join_handles rs (completed @ [r]) first_error"
| "join_handles (Err e # rs) completed first_error =
     join_handles rs completed (case first_error of None \<Rightarrow> Some e | Some f \<Rightarrow> Some f)"

definition reported :: "transfer_direction \<Rightarrow> nat list \<Rightarrow> 'a attempt_result list \<Rightarrow> events" where
  "reported direction order results =
     map (\<lambda>i. attempt_progress direction (results ! i)) (filter (\<lambda>i. i < length results) order)"

definition find_target ::
    "(string \<rightharpoonup> object_upload_target) \<Rightarrow> planned_upload
      \<Rightarrow> (planned_upload \<times> object_upload_target) attempt_result" where
  "find_target targets upload =
     and_then (ok_or (targets (ud_object_id (pu_descriptor upload)))
         (Fatal (Transport (''upload batch response missing target for '' @
            ud_object_id (pu_descriptor upload))))) (\<lambda>target. Ok (upload, target))"

definition run_uploads ::
    "transfer_net \<Rightarrow> nat \<Rightarrow> (planned_upload \<times> object_upload_target) list
      \<Rightarrow> completed_object_upload attempt_result list" where
  "run_uploads N attempt jobs =
     map (\<lambda>(i, upload, target). upload_one (net_put N attempt i) upload target) (enumerate 0 jobs)"

definition upload_attempt ::
    "transfer_net \<Rightarrow> nat \<Rightarrow> planned_upload list \<Rightarrow> object_upload_target list
      \<Rightarrow> events \<times> completed_object_upload list attempt_result" where
  "upload_attempt N attempt uploads targets =
     (let targets = hash_of_list ut_object_id targets in
      case collect_results (find_target targets) uploads of
        Err error \<Rightarrow>
          (let started = takeWhile (\<lambda>u. targets (ud_object_id (pu_descriptor u)) \<noteq> None) uploads;
               results = run_uploads N attempt
                 (map (\<lambda>u. (u, the (targets (ud_object_id (pu_descriptor u))))) started)
           in (reported Upload (net_abort_order N attempt (length results)) results, Err error))
      | Ok jobs \<Rightarrow>
          (let results = run_uploads N attempt jobs
           in (reported Upload (net_order N attempt (length results)) results,
               join_handles results [] None)))"

definition download_attempt ::
    "'z crypto_libs_scheme \<Rightarrow> transfer_net \<Rightarrow> nat \<Rightarrow> object_download_target list
      \<Rightarrow> events \<times> downloaded_object list attempt_result" where
  "download_attempt L N attempt targets =
     (let results = map (\<lambda>(i, target). download_one L (net_get N attempt i) target)
                      (enumerate 0 targets)
      in (reported Download (net_order N attempt (length results)) results,
          join_handles results [] None))"

fun check_completions ::
    "(string \<rightharpoonup> object_upload_descriptor) \<Rightarrow> object_upload_completion list
      \<Rightarrow> uploaded_object_metadata list \<Rightarrow> uploaded_object_metadata list sync_result" where
  "check_completions expected [] uploaded = Ok uploaded"
| "check_completions expected (c # cs) uploaded =
     (case uc_error_reason c of
        Some reason \<Rightarrow>
          Err (Transport (''object upload completion failed: '' @ object_error_reason_name reason))
      | None \<Rightarrow>
          and_then (ok_or (uc_object c)
            (Transport ''complete upload response missing object metadata'')) (\<lambda>ob.
          and_then (ok_or (expected (um_object_id ob))
            (Transport (''complete upload response included unknown object '' @ um_object_id ob)))
            (\<lambda>d.
            if um_ciphertext_sha256 ob \<noteq> ud_ciphertext_sha256 d
            then Err (Integrity (''completed object '' @ um_object_id ob @
                   '' hash mismatch: expected '' @ ud_ciphertext_sha256 d @ '', got '' @
                   um_ciphertext_sha256 ob))
            else if um_size_bytes ob \<noteq> ud_size_bytes d
            then Err (Integrity (''completed object '' @ um_object_id ob @
                   '' size mismatch: expected '' @ show_int (ud_size_bytes d) @ '', got '' @
                   show_int (um_size_bytes ob)))
            else check_completions expected cs (uploaded @ [ob]))))"

definition validate_upload_completions ::
    "object_upload_completion list \<Rightarrow> object_upload_descriptor list
      \<Rightarrow> uploaded_object_metadata list sync_result" where
  "validate_upload_completions completions descriptors =
     (if length completions \<noteq> length descriptors
      then Err (Transport (''complete upload response count mismatch: expected '' @
             show_nat (length descriptors) @ '', got '' @ show_nat (length completions)))
      else check_completions (hash_of_list ud_object_id descriptors) completions [])"

section \<open>The retry loop\<close>

text \<open>
  The loop of \<^verbatim>\<open>upload_planned_objects\<close> and of \<^verbatim>\<open>download_objects\<close>: \<open>body attempt\<close> is what the loop does
  between \<^verbatim>\<open>BatchStarted\<close> and the decision whether to retry. An error of the service ends the loop as a
  fatal failure does.
\<close>

fun direction_name :: "transfer_direction \<Rightarrow> string" where
  "direction_name Upload = ''upload''"
| "direction_name Download = ''download''"

function retry_loop ::
    "transfer_net \<Rightarrow> transfer_queue_config \<Rightarrow> transfer_direction \<Rightarrow> int
      \<Rightarrow> (nat \<Rightarrow> events \<times> 'a attempt_result) \<Rightarrow> nat \<Rightarrow> events \<times> 'a sync_result" where
  "retry_loop N config direction total_objects body attempt =
     (if attempt \<ge> max_attempts config
      then let error = Transport (direction_name direction @
                         '' transfer failed without running an attempt'')
           in ([BatchFailed direction (error_to_string error)], Err error)
      else
        let max_number = checked_count (max_attempts config);
            started = BatchStarted direction total_objects (checked_count (attempt + 1)) max_number;
            (reports, outcome) = body attempt
        in case outcome of
             Ok a \<Rightarrow> (started # reports @ [BatchCompleted direction], Ok a)
           | Err (Retryable message) \<Rightarrow>
               if attempt + 1 < max_attempts config
               then let delay = retry_delay (net_jitter_seed N attempt) (initial_backoff config) attempt;
                        scheduled = RetryScheduled direction (checked_count (attempt + 2)) max_number
                          (i64_saturate (net_now_ms N attempt + duration_ms_i64 delay)) message;
                        (later, r) = retry_loop N config direction total_objects body (attempt + 1)
                    in (started # reports @ [scheduled] @ later, r)
               else (started # reports @ [BatchFailed direction message],
                     Err (Transport (direction_name direction @ '' transfer failed after retries: '' @
                       message)))
           | Err (Fatal error) \<Rightarrow>
               (started # reports @ [BatchFailed direction (error_to_string error)], Err error))"
  by pat_completeness auto
termination
  by (relation "measure (\<lambda>(N, config, d, t, body, attempt). max_attempts config - attempt)") auto

declare retry_loop.simps [simp del]

definition upload_body ::
    "transfer_net \<Rightarrow> string \<Rightarrow> string \<Rightarrow> string \<Rightarrow> planned_upload list \<Rightarrow> nat
      \<Rightarrow> events \<times> uploaded_object_metadata list attempt_result" where
  "upload_body N workspace_id device_id upload_attempt_id uploads attempt =
     (let descriptors = map pu_descriptor uploads in
      case net_create_object_upload_batch N attempt workspace_id device_id upload_attempt_id
             descriptors of
        Err error \<Rightarrow> ([], Err (Fatal error))
      | Ok targets \<Rightarrow>
          (case upload_attempt N attempt uploads targets of
             (reports, Err failure) \<Rightarrow> (reports, Err failure)
           | (reports, Ok completed) \<Rightarrow>
               (reports,
                map_err Fatal
                  (and_then (net_complete_object_upload_batch N attempt workspace_id device_id
                     upload_attempt_id completed) (\<lambda>completions.
                   validate_upload_completions completions descriptors)))))"

definition upload_planned_objects ::
    "transfer_net \<Rightarrow> transfer_queue_config \<Rightarrow> string \<Rightarrow> string \<Rightarrow> string \<Rightarrow> planned_upload list
      \<Rightarrow> events \<times> uploaded_object_metadata list sync_result" where
  "upload_planned_objects N config workspace_id device_id upload_attempt_id uploads =
     retry_loop N config Upload (checked_count (length uploads))
       (upload_body N workspace_id device_id upload_attempt_id uploads) 0"

definition validate_upload_ids :: "string \<Rightarrow> string \<Rightarrow> string \<Rightarrow> unit sync_result" where
  "validate_upload_ids workspace_id device_id upload_attempt_id =
     and_then (validate_required workspace_id ''workspace_id'') (\<lambda>_.
     and_then (validate_required device_id ''device_id'') (\<lambda>_.
     validate_required upload_attempt_id ''upload_attempt_id''))"

definition plan_reserved ::
    "(string \<rightharpoonup> reserved_object) \<Rightarrow> local_upload \<Rightarrow> planned_upload sync_result" where
  "plan_reserved by_ref upload =
     and_then (ok_or (by_ref (lu_client_object_ref upload))
       (Transport (''ReserveObjectIds response missing '' @ lu_client_object_ref upload)))
       (\<lambda>reservation.
       if ro_kind reservation \<noteq> lu_kind upload
       then Err (Transport (''reserved object kind mismatch for '' @ lu_client_object_ref upload))
       else Ok \<lparr>pu_descriptor =
                  \<lparr>ud_object_id = ro_object_id reservation, ud_kind = lu_kind upload,
                   ud_ciphertext_sha256 = lu_ciphertext_sha256 upload,
                   ud_size_bytes = lu_size_bytes upload\<rparr>,
                pu_ciphertext = lu_ciphertext upload\<rparr>)"

definition reserve_upload_objects ::
    "'z crypto_libs_scheme \<Rightarrow> transfer_net \<Rightarrow> string \<Rightarrow> string \<Rightarrow> encrypted_upload_object list
      \<Rightarrow> planned_upload list sync_result" where
  "reserve_upload_objects L N workspace_id device_id objects =
     and_then (collect_results (local_upload_from L) objects) (\<lambda>local.
     and_then (net_reserve_object_ids N workspace_id device_id
         (map (\<lambda>u. \<lparr>ri_client_object_ref = lu_client_object_ref u, ri_kind = lu_kind u\<rparr>) local))
       (\<lambda>reservations.
       collect_results (plan_reserved (hash_of_list ro_client_object_ref reservations)) local))"

definition upload_objects ::
    "'z crypto_libs_scheme \<Rightarrow> transfer_net \<Rightarrow> transfer_queue_config \<Rightarrow> string \<Rightarrow> string \<Rightarrow> string
      \<Rightarrow> encrypted_upload_object list \<Rightarrow> events \<times> uploaded_object_metadata list sync_result" where
  "upload_objects L N config workspace_id device_id upload_attempt_id objects =
     (case validate_upload_ids workspace_id device_id upload_attempt_id of
        Err error \<Rightarrow> ([], Err error)
      | Ok _ \<Rightarrow>
          if objects = [] then ([], Ok [])
          else case reserve_upload_objects L N workspace_id device_id objects of
                 Err error \<Rightarrow> ([], Err error)
               | Ok uploads \<Rightarrow>
                   upload_planned_objects N config workspace_id device_id upload_attempt_id uploads)"

definition upload_reserved_objects ::
    "'z crypto_libs_scheme \<Rightarrow> transfer_net \<Rightarrow> transfer_queue_config \<Rightarrow> string \<Rightarrow> string \<Rightarrow> string
      \<Rightarrow> reserved_encrypted_upload_object list \<Rightarrow> events \<times> uploaded_object_metadata list sync_result" where
  "upload_reserved_objects L N config workspace_id device_id upload_attempt_id objects =
     (case validate_upload_ids workspace_id device_id upload_attempt_id of
        Err error \<Rightarrow> ([], Err error)
      | Ok _ \<Rightarrow>
          if objects = [] then ([], Ok [])
          else case collect_results (local_reserved_upload_from L) objects of
                 Err error \<Rightarrow> ([], Err error)
               | Ok uploads \<Rightarrow>
                   upload_planned_objects N config workspace_id device_id upload_attempt_id uploads)"

definition download_body ::
    "'z crypto_libs_scheme \<Rightarrow> transfer_net \<Rightarrow> string \<Rightarrow> string \<Rightarrow> string list \<Rightarrow> nat
      \<Rightarrow> events \<times> downloaded_object list attempt_result" where
  "download_body L N workspace_id device_id object_ids attempt =
     (case net_create_object_download_batch N attempt workspace_id device_id object_ids of
        Err error \<Rightarrow> ([], Err (Fatal error))
      | Ok targets \<Rightarrow> download_attempt L N attempt targets)"

definition download_objects ::
    "'z crypto_libs_scheme \<Rightarrow> transfer_net \<Rightarrow> transfer_queue_config \<Rightarrow> string \<Rightarrow> string \<Rightarrow> string list
      \<Rightarrow> events \<times> downloaded_object list sync_result" where
  "download_objects L N config workspace_id device_id object_ids =
     (case and_then (validate_required workspace_id ''workspace_id'')
             (\<lambda>_. validate_required device_id ''device_id'') of
        Err error \<Rightarrow> ([], Err error)
      | Ok _ \<Rightarrow>
          if object_ids = [] then ([], Ok [])
          else retry_loop N config Download (checked_count (length object_ids))
                 (download_body L N workspace_id device_id object_ids) 0)"

section \<open>Basic facts\<close>

lemma checked_size_eq_Ok [result_simps]:
  "checked_size n = Ok i \<longleftrightarrow> i = int n \<and> int n \<le> i64_max"
  by (auto simp: checked_size_def)

lemma hash_of_list_SomeD:
  "hash_of_list key xs k = Some x \<Longrightarrow> x \<in> set xs \<and> key x = k"
  by (auto simp: hash_of_list_def dest!: map_of_SomeD)

lemma hash_of_list_eq_None: "hash_of_list key xs k = None \<longleftrightarrow> k \<notin> key ` set xs"
  by (simp add: hash_of_list_def map_of_eq_None_iff image_image)

lemma hash_of_list_distinct:
  "distinct (map key xs) \<Longrightarrow> x \<in> set xs \<Longrightarrow> hash_of_list key xs (key x) = Some x"
  by (simp add: hash_of_list_def o_def flip: rev_map)

text \<open>Awaiting the handles is collecting their results.\<close>

lemma join_handles_failed: "join_handles rs completed (Some e) = Err e"
  by (induction rs completed "Some e" rule: join_handles.induct) auto

lemma join_handles_prepend:
  "join_handles rs completed None = and_then (collect_results id rs) (\<lambda>ys. Ok (completed @ ys))"
proof (induction rs arbitrary: completed)
  case (Cons r rs)
  show ?case
    by (cases r; cases "collect_results (\<lambda>a. a) rs")
      (simp_all add: Cons.IH join_handles_failed id_def)
qed simp

lemma join_handles_collect: "join_handles rs [] None = collect_results id rs"
  by (cases "collect_results id rs") (simp_all add: join_handles_prepend)

lemma reported_object_events:
  "e \<in> set (reported direction order results) \<Longrightarrow>
   e = ObjectCompleted direction \<or> (\<exists>m. e = ObjectFailed direction m)"
proof -
  assume "e \<in> set (reported direction order results)"
  then obtain i where "e = attempt_progress direction (results ! i)"
    by (auto simp: reported_def)
  then show ?thesis by (cases "results ! i") auto
qed

section \<open>What a batch reports and returns\<close>

fun is_batch_start :: "transfer_progress_event \<Rightarrow> bool" where
  "is_batch_start (BatchStarted _ _ _ _) = True"
| "is_batch_start _ = False"

definition retryable_at :: "(nat \<Rightarrow> events \<times> 'a attempt_result) \<Rightarrow> nat \<Rightarrow> bool" where
  "retryable_at body i \<longleftrightarrow> (\<exists>m. snd (body i) = Err (Retryable m))"

definition start_event ::
    "transfer_queue_config \<Rightarrow> transfer_direction \<Rightarrow> int \<Rightarrow> nat \<Rightarrow> transfer_progress_event" where
  "start_event config direction n i =
     BatchStarted direction n (checked_count (i + 1)) (checked_count (max_attempts config))"

definition end_event :: "transfer_direction \<Rightarrow> 'a sync_result \<Rightarrow> transfer_progress_event \<Rightarrow> bool" where
  "end_event direction r e \<longleftrightarrow>
     (if is_ok r then e = BatchCompleted direction else (\<exists>m. e = BatchFailed direction m))"

text \<open>The branches of one round of the loop.\<close>

lemma attempt_cases:
  fixes b :: "events \<times> 'a attempt_result"
  obtains (ok) reports a where "b = (reports, Ok a)"
    | (fatal) reports e where "b = (reports, Err (Fatal e))"
    | (retry) reports m where "b = (reports, Err (Retryable m))"
  by (metis attempt_failure.exhaust result.exhaust surj_pair)

lemma retry_loop_stop:
  assumes "max_attempts config \<le> k"
  obtains m e where "retry_loop N config direction n body k = ([BatchFailed direction m], Err e)"
  using assms by (subst (asm) retry_loop.simps) (simp add: Let_def)

lemma retry_loop_ok:
  "k < max_attempts config \<Longrightarrow> body k = (reports, Ok a) \<Longrightarrow>
   retry_loop N config direction n body k =
     (start_event config direction n k # reports @ [BatchCompleted direction], Ok a)"
  by (subst retry_loop.simps) (simp add: start_event_def)

lemma retry_loop_fatal:
  "k < max_attempts config \<Longrightarrow> body k = (reports, Err (Fatal e)) \<Longrightarrow>
   retry_loop N config direction n body k =
     (start_event config direction n k # reports @ [BatchFailed direction (error_to_string e)], Err e)"
  by (subst retry_loop.simps) (simp add: start_event_def)

lemma retry_loop_last:
  "Suc k = max_attempts config \<Longrightarrow> body k = (reports, Err (Retryable m)) \<Longrightarrow>
   retry_loop N config direction n body k =
     (start_event config direction n k # reports @ [BatchFailed direction m],
      Err (Transport (direction_name direction @ '' transfer failed after retries: '' @ m)))"
  by (subst retry_loop.simps) (simp add: start_event_def)

lemma retry_loop_again:
  assumes "Suc k < max_attempts config" "body k = (reports, Err (Retryable m))"
  obtains e where "\<not> is_batch_start e"
    "retry_loop N config direction n body k =
       (start_event config direction n k # reports @ [e] @ fst (retry_loop N config direction n body (Suc k)),
        snd (retry_loop N config direction n body (Suc k)))"
proof
  let ?e = "RetryScheduled direction (checked_count (k + 2)) (checked_count (max_attempts config))
      (i64_saturate (net_now_ms N k + duration_ms_i64
        (retry_delay (net_jitter_seed N k) (initial_backoff config) k))) m"
  show "\<not> is_batch_start ?e" by simp
  show "retry_loop N config direction n body k =
       (start_event config direction n k # reports @ [?e] @ fst (retry_loop N config direction n body (Suc k)),
        snd (retry_loop N config direction n body (Suc k)))"
    using assms by (subst retry_loop.simps) (simp add: start_event_def Let_def split: prod.splits)
qed

lemma is_batch_start_start [simp]: "is_batch_start (start_event config direction n k)"
  by (simp add: start_event_def)

text \<open>Induction over the rounds that are left.\<close>

lemma rounds_induct [case_names stop round]:
  fixes limit :: nat
  assumes "\<And>k. limit \<le> k \<Longrightarrow> P k"
    and "\<And>k. k < limit \<Longrightarrow> P (Suc k) \<Longrightarrow> P k"
  shows "P k"
proof (induction "limit - k" arbitrary: k)
  case 0
  then show ?case using assms(1) by simp
next
  case (Suc d)
  then have "P (Suc k)" "k < limit" by simp_all
  then show ?case using assms(2) by simp
qed

text \<open>
  The contract between the retry loop and what runs inside it: an attempt reports single objects
  only, and what it returns satisfies \<open>good\<close>.
\<close>

locale batch_body =
  fixes body :: "nat \<Rightarrow> events \<times> 'a attempt_result"
    and direction :: transfer_direction
    and good :: "nat \<Rightarrow> 'a \<Rightarrow> bool"
  assumes object_reports:
    "e \<in> set (fst (body i)) \<Longrightarrow> e = ObjectCompleted direction \<or> (\<exists>m. e = ObjectFailed direction m)"
    and attempt_good: "snd (body i) = Ok a \<Longrightarrow> good i a"
begin

lemma no_batch_start: "body i = (reports, r) \<Longrightarrow> filter is_batch_start reports = []"
  using object_reports [of _ i] by (fastforce simp: filter_empty_conv)

lemma loop_good:
  "snd (retry_loop N config direction n body k) = Ok a \<Longrightarrow>
   \<exists>i. k \<le> i \<and> i < max_attempts config \<and> good i a"
proof (induction k rule: rounds_induct [of "max_attempts config"])
  case (stop k)
  from stop(1) obtain m e
    where "retry_loop N config direction n body k = ([BatchFailed direction m], Err e)"
    by (rule retry_loop_stop)
  then show ?case using stop(2) by simp
next
  case (round k)
  show ?case
  proof (cases "body k" rule: attempt_cases)
    case (ok reports b)
    then show ?thesis
      using round.hyps round.prems attempt_good [of k b] by (auto simp: retry_loop_ok)
  next
    case (fatal reports e)
    then show ?thesis using round.hyps round.prems by (simp add: retry_loop_fatal)
  next
    case (retry reports m)
    show ?thesis
    proof (cases "Suc k < max_attempts config")
      case True
      have "snd (retry_loop N config direction n body (Suc k)) = Ok a"
        using round.prems by (cases rule: retry_loop_again
          [where N = N and direction = direction and n = n and body = body, OF True retry]) auto
      then show ?thesis using round.IH by (meson Suc_leD)
    next
      case False
      then show ?thesis using round.hyps round.prems retry by (simp add: retry_loop_last)
    qed
  qed
qed

lemma loop_trace:
  "\<exists>rest. fst (retry_loop N config direction n body k) = rest \<and> rest \<noteq> [] \<and>
     (k < max_attempts config \<longrightarrow> hd rest = start_event config direction n k) \<and>
     end_event direction (snd (retry_loop N config direction n body k)) (last rest) \<and>
     length (filter is_batch_start rest) \<le> max_attempts config - k"
proof (induction k rule: rounds_induct [of "max_attempts config"])
  case (stop k)
  then obtain m e where "retry_loop N config direction n body k = ([BatchFailed direction m], Err e)"
    by (rule retry_loop_stop)
  then show ?case using stop by (simp add: end_event_def)
next
  case (round k)
  show ?case
  proof (cases "body k" rule: attempt_cases)
    case (ok reports b)
    then show ?thesis using round.hyps by (simp add: retry_loop_ok end_event_def no_batch_start)
  next
    case (fatal reports e)
    then show ?thesis using round.hyps by (simp add: retry_loop_fatal end_event_def no_batch_start)
  next
    case (retry reports m)
    show ?thesis
    proof (cases "Suc k < max_attempts config")
      case True
      obtain e where e: "\<not> is_batch_start e" "retry_loop N config direction n body k =
          (start_event config direction n k # reports @ [e] @ fst (retry_loop N config direction n body (Suc k)),
           snd (retry_loop N config direction n body (Suc k)))"
        using retry_loop_again [where body = body, OF True retry] by blast
      show ?thesis
        using round.hyps round.IH True
        by (auto simp: e no_batch_start [OF retry])
    next
      case False
      then show ?thesis
        using round.hyps retry by (simp add: retry_loop_last end_event_def no_batch_start)
    qed
  qed
qed

lemma loop_decided:
  assumes "k \<le> m" "m < max_attempts config" "\<And>i. k \<le> i \<Longrightarrow> i < m \<Longrightarrow> retryable_at body i"
    and "\<not> retryable_at body m"
  shows "snd (retry_loop N config direction n body k) = map_err failure_error (snd (body m)) \<and>
    filter is_batch_start (fst (retry_loop N config direction n body k)) =
      map (start_event config direction n) [k..<Suc m]"
  using assms(1,3)
proof (induction rule: inc_induct)
  case base
  show ?case
    using assms(2,4)
    by (cases "body m" rule: attempt_cases)
      (auto simp: retry_loop_ok retry_loop_fatal retryable_at_def no_batch_start)
next
  case (step k)
  obtain reports msg where b: "body k = (reports, Err (Retryable msg))"
    using step.prems [of k] step.hyps by (cases "body k") (auto simp: retryable_at_def)
  have more: "Suc k < max_attempts config" using step.hyps assms(2) by simp
  obtain e where e: "\<not> is_batch_start e" "retry_loop N config direction n body k =
      (start_event config direction n k # reports @ [e] @ fst (retry_loop N config direction n body (Suc k)),
       snd (retry_loop N config direction n body (Suc k)))"
    using retry_loop_again [where body = body, OF more b] by blast
  show ?case
    using step.hyps step.IH step.prems
    by (simp add: e no_batch_start [OF b] upt_conv_Cons del: upt_Suc)
qed

lemma loop_exhausted:
  assumes "k \<le> m" "Suc m = max_attempts config" "\<And>i. k \<le> i \<Longrightarrow> i \<le> m \<Longrightarrow> retryable_at body i"
    and msg: "snd (body m) = Err (Retryable msg)"
  shows "snd (retry_loop N config direction n body k) =
      Err (Transport (direction_name direction @ '' transfer failed after retries: '' @ msg)) \<and>
    filter is_batch_start (fst (retry_loop N config direction n body k)) =
      map (start_event config direction n) [k..<Suc m]"
  using assms(1,3)
proof (induction rule: inc_induct)
  case base
  show ?case
    using assms(2) msg
    by (cases "body m" rule: attempt_cases)
      (auto simp: retry_loop_last no_batch_start simp flip: assms(2))
next
  case (step k)
  obtain reports msg' where b: "body k = (reports, Err (Retryable msg'))"
    using step.prems [of k] step.hyps by (cases "body k") (auto simp: retryable_at_def)
  have more: "Suc k < max_attempts config" using step.hyps assms(2) by simp
  obtain e where e: "\<not> is_batch_start e" "retry_loop N config direction n body k =
      (start_event config direction n k # reports @ [e] @ fst (retry_loop N config direction n body (Suc k)),
       snd (retry_loop N config direction n body (Suc k)))"
    using retry_loop_again [where body = body, OF more b] by blast
  show ?case
    using step.hyps step.IH step.prems
    by (simp add: e no_batch_start [OF b] upt_conv_Cons del: upt_Suc)
qed

end

section \<open>The batches of the queue\<close>

definition metadata_of :: "object_upload_descriptor \<Rightarrow> uploaded_object_metadata" where
  "metadata_of d =
     \<lparr>um_object_id = ud_object_id d, um_ciphertext_sha256 = ud_ciphertext_sha256 d,
      um_size_bytes = ud_size_bytes d\<rparr>"

lemma check_completions_Ok:
  "check_completions expected cs uploaded = Ok ms \<Longrightarrow>
   \<exists>us. ms = uploaded @ us \<and> length us = length cs \<and>
     (\<forall>m \<in> set us. \<exists>d. expected (um_object_id m) = Some d \<and>
        um_ciphertext_sha256 m = ud_ciphertext_sha256 d \<and> um_size_bytes m = ud_size_bytes d)"
proof (induction cs arbitrary: uploaded)
  case (Cons c cs)
  from Cons.prems obtain ob d where ob: "expected (um_object_id ob) = Some d"
      "um_ciphertext_sha256 ob = ud_ciphertext_sha256 d" "um_size_bytes ob = ud_size_bytes d"
      "check_completions expected cs (uploaded @ [ob]) = Ok ms"
    by (auto simp: result_simps split: option.splits if_splits)
  from Cons.IH [OF ob(4)] obtain us where "ms = (uploaded @ [ob]) @ us" "length us = length cs"
      "\<forall>m \<in> set us. \<exists>d. expected (um_object_id m) = Some d \<and>
        um_ciphertext_sha256 m = ud_ciphertext_sha256 d \<and> um_size_bytes m = ud_size_bytes d"
    by blast
  then show ?case using ob(1-3) by (intro exI [of _ "ob # us"]) auto
qed simp

lemma validate_upload_completions_Ok:
  assumes "validate_upload_completions cs ds = Ok ms"
  shows "length ms = length ds \<and> set ms \<subseteq> metadata_of ` set ds"
proof -
  have len: "length cs = length ds"
    and chk: "check_completions (hash_of_list ud_object_id ds) cs [] = Ok ms"
    using assms by (auto simp: validate_upload_completions_def split: if_splits)
  from check_completions_Ok [OF chk] have l: "length ms = length cs"
    and ms: "\<forall>m \<in> set ms. \<exists>d. hash_of_list ud_object_id ds (um_object_id m) = Some d \<and>
        um_ciphertext_sha256 m = ud_ciphertext_sha256 d \<and> um_size_bytes m = ud_size_bytes d"
    by auto
  have "m \<in> metadata_of ` set ds" if "m \<in> set ms" for m
  proof -
    from ms that obtain d where d: "hash_of_list ud_object_id ds (um_object_id m) = Some d"
        "um_ciphertext_sha256 m = ud_ciphertext_sha256 d" "um_size_bytes m = ud_size_bytes d"
      by blast
    from hash_of_list_SomeD [OF d(1)] d(2,3) have "d \<in> set ds" "m = metadata_of d"
      by (simp_all add: metadata_of_def)
    then show ?thesis by blast
  qed
  then show ?thesis using len l by auto
qed

lemma upload_attempt_reports:
  "e \<in> set (fst (upload_attempt N i uploads targets)) \<Longrightarrow>
   e = ObjectCompleted Upload \<or> (\<exists>m. e = ObjectFailed Upload m)"
  by (auto simp: upload_attempt_def Let_def split: result.splits dest: reported_object_events)

interpretation upload: batch_body
  "upload_body N workspace_id device_id upload_attempt_id uploads" Upload
  "\<lambda>i ms. length ms = length uploads \<and> set ms \<subseteq> metadata_of ` pu_descriptor ` set uploads"
  for N workspace_id device_id upload_attempt_id uploads
proof
  fix e i
  assume "e \<in> set (fst (upload_body N workspace_id device_id upload_attempt_id uploads i))"
  then obtain targets where "e \<in> set (fst (upload_attempt N i uploads targets))"
    by (auto simp: upload_body_def Let_def split: result.splits prod.splits) (metis fst_conv)+
  then show "e = ObjectCompleted Upload \<or> (\<exists>m. e = ObjectFailed Upload m)"
    by (rule upload_attempt_reports)
next
  fix i ms
  assume "snd (upload_body N workspace_id device_id upload_attempt_id uploads i) = Ok ms"
  then obtain cs where "validate_upload_completions cs (map pu_descriptor uploads) = Ok ms"
    by (auto simp: upload_body_def Let_def result_simps split: result.splits prod.splits)
  then show "length ms = length uploads \<and> set ms \<subseteq> metadata_of ` pu_descriptor ` set uploads"
    by (auto dest!: validate_upload_completions_Ok)
qed

definition verified_download ::
    "'z crypto_libs_scheme \<Rightarrow> object_download_target \<Rightarrow> downloaded_object \<Rightarrow> bool" where
  "verified_download L t d \<longleftrightarrow>
     do_object_id d = dt_object_id t \<and> do_kind d = dt_kind t \<and>
     do_ciphertext_sha256 d = dt_ciphertext_sha256 t \<and>
     sha256_hex L (do_ciphertext d) = dt_ciphertext_sha256 t \<and>
     int (length (do_ciphertext d)) = dt_size_bytes t"

lemma download_one_Ok: "download_one L get t = Ok d \<Longrightarrow> verified_download L t d"
  by (auto simp: download_one_def verified_download_def Let_def result_simps split: if_splits)

lemma download_attempt_Ok:
  assumes "snd (download_attempt L N i targets) = Ok ds"
  shows "list_all2 (verified_download L) targets ds"
proof -
  have "list_all2 (\<lambda>r d. r = Ok d)
      (map (\<lambda>(k, t). download_one L (net_get N i k) t) (enumerate 0 targets)) ds"
    using assms
    by (simp add: download_attempt_def Let_def join_handles_collect collect_results_eq_Ok)
  then show ?thesis
    by (auto simp: list_all2_conv_all_nth nth_enumerate_eq intro!: download_one_Ok)
qed

interpretation download: batch_body
  "download_body L N workspace_id device_id object_ids" Download
  "\<lambda>i ds. \<exists>targets.
     net_create_object_download_batch N i workspace_id device_id object_ids = Ok targets \<and>
     list_all2 (verified_download L) targets ds"
  for L N workspace_id device_id object_ids
proof
  fix e i
  assume "e \<in> set (fst (download_body L N workspace_id device_id object_ids i))"
  then show "e = ObjectCompleted Download \<or> (\<exists>m. e = ObjectFailed Download m)"
    by (auto simp: download_body_def download_attempt_def Let_def split: result.splits
        dest: reported_object_events)
next
  fix i ds
  assume "snd (download_body L N workspace_id device_id object_ids i) = Ok ds"
  then show "\<exists>targets.
     net_create_object_download_batch N i workspace_id device_id object_ids = Ok targets \<and>
     list_all2 (verified_download L) targets ds"
    by (auto simp: download_body_def dest: download_attempt_Ok split: result.splits)
qed

lemma local_reserved_upload_from_Ok:
  "local_reserved_upload_from L ob = Ok u \<Longrightarrow>
   metadata_of (pu_descriptor u) =
     \<lparr>um_object_id = ru_object_id ob, um_ciphertext_sha256 = sha256_hex L (ru_ciphertext ob),
      um_size_bytes = int (length (ru_ciphertext ob))\<rparr> \<and> pu_ciphertext u = ru_ciphertext ob"
  by (auto simp: local_reserved_upload_from_def result_simps metadata_of_def)

definition expected_metadata ::
    "'z crypto_libs_scheme \<Rightarrow> reserved_encrypted_upload_object \<Rightarrow> uploaded_object_metadata" where
  "expected_metadata L ob =
     \<lparr>um_object_id = ru_object_id ob, um_ciphertext_sha256 = sha256_hex L (ru_ciphertext ob),
      um_size_bytes = int (length (ru_ciphertext ob))\<rparr>"

lemma upload_reserved_objects_Ok:
  assumes "snd (upload_reserved_objects L N config w d a objects) = Ok ms"
  shows "length ms = length objects \<and> set ms \<subseteq> expected_metadata L ` set objects"
proof (cases "objects = []")
  case True
  then show ?thesis
    using assms by (auto simp: upload_reserved_objects_def split: result.splits)
next
  case False
  obtain us where us: "collect_results (local_reserved_upload_from L) objects = Ok us"
      "snd (upload_planned_objects N config w d a us) = Ok ms"
    using assms False
    by (cases "validate_upload_ids w d a"; cases "collect_results (local_reserved_upload_from L) objects")
      (simp_all add: upload_reserved_objects_def)
  have "length ms = length us \<and> set ms \<subseteq> metadata_of ` pu_descriptor ` set us"
    using upload.loop_good [OF us(2) [unfolded upload_planned_objects_def]] by (elim exE conjE) simp
  moreover have "length us = length objects"
    using us(1) by (simp add: collect_results_eq_Ok list_all2_lengthD)
  moreover have "metadata_of ` pu_descriptor ` set us \<subseteq> expected_metadata L ` set objects"
  proof (intro subsetI, elim imageE)
    fix m x u
    assume u: "u \<in> set us" and x: "x = pu_descriptor u" and m: "m = metadata_of x"
    from collect_results_set [OF us(1), of u] u obtain ob where "ob \<in> set objects"
        "local_reserved_upload_from L ob = Ok u"
      by auto
    then have "m = expected_metadata L ob" "ob \<in> set objects"
      using local_reserved_upload_from_Ok [of L ob u] by (simp_all add: m x expected_metadata_def)
    then show "m \<in> expected_metadata L ` set objects" by (rule image_eqI)
  qed
  ultimately show ?thesis by (metis order_trans)
qed

section \<open>When an upload succeeds\<close>

text \<open>
  A server and object store that work: every object of a batch gets a target, every transfer is
  accepted, and the completed objects are confirmed as announced.
\<close>

definition echo_completion :: "completed_object_upload \<Rightarrow> object_upload_completion" where
  "echo_completion c =
     \<lparr>uc_object = Some \<lparr>um_object_id = co_object_id c, um_ciphertext_sha256 = co_ciphertext_sha256 c,
        um_size_bytes = co_size_bytes c\<rparr>, uc_error_reason = None\<rparr>"

definition store_accepts :: "transfer_net \<Rightarrow> bool" where
  "store_accepts N \<longleftrightarrow>
     (\<forall>i w d a ds. \<exists>ts. net_create_object_upload_batch N i w d a ds = Ok ts \<and>
        map ut_object_id ts = map ud_object_id ds) \<and>
     (\<forall>i k r. is_ok (net_put N i k r)) \<and>
     (\<forall>i w d a cs. net_complete_object_upload_batch N i w d a cs = Ok (map echo_completion cs))"

lemma check_completions_echo:
  assumes "\<forall>c \<in> set cs. \<exists>d. expected (co_object_id c) = Some d \<and>
      co_ciphertext_sha256 c = ud_ciphertext_sha256 d \<and> co_size_bytes c = ud_size_bytes d"
  shows "check_completions expected (map echo_completion cs) uploaded =
    Ok (uploaded @ map (\<lambda>c. \<lparr>um_object_id = co_object_id c, um_ciphertext_sha256 = co_ciphertext_sha256 c,
        um_size_bytes = co_size_bytes c\<rparr>) cs)"
  using assms by (induction cs arbitrary: uploaded) (auto simp: echo_completion_def)

lemma upload_one_accepted:
  assumes "store_accepts N"
  obtains e where "upload_one (net_put N i k) u t = Ok \<lparr>co_object_id = ud_object_id (pu_descriptor u),
    co_ciphertext_sha256 = ud_ciphertext_sha256 (pu_descriptor u),
    co_size_bytes = ud_size_bytes (pu_descriptor u), co_provider_etag = e\<rparr>"
proof -
  obtain r where "net_put N i k \<lparr>put_url = ut_put_url t, put_required_headers = ut_required_headers t,
      put_body = pu_ciphertext u\<rparr> = Ok r"
    using assms unfolding store_accepts_def is_ok_iff by blast
  then show thesis by (intro that [of "put_provider_etag r"]) (simp add: upload_one_def)
qed

lemma upload_body_accepted:
  assumes "store_accepts N" "distinct (map (ud_object_id \<circ> pu_descriptor) us)"
  shows "snd (upload_body N w d a us i) = Ok (map (metadata_of \<circ> pu_descriptor) us)"
proof -
  let ?ds = "map pu_descriptor us"
  obtain ts where ts: "net_create_object_upload_batch N i w d a ?ds = Ok ts" "map ut_object_id ts = map ud_object_id ?ds"
    using assms(1) unfolding store_accepts_def by blast
  let ?h = "hash_of_list ut_object_id ts"
  have "find_target ?h u = Ok (u, the (?h (ud_object_id (pu_descriptor u))))" if "u \<in> set us" for u
  proof -
    have "ud_object_id (pu_descriptor u) \<in> ut_object_id ` set ts"
      using that arg_cong [OF ts(2), of set] by auto
    then obtain t where "?h (ud_object_id (pu_descriptor u)) = Some t"
      using hash_of_list_eq_None [of ut_object_id ts] by fastforce
    then show ?thesis by (simp add: find_target_def)
  qed
  then have jobs: "collect_results (find_target ?h) us =
      Ok (map (\<lambda>u. (u, the (?h (ud_object_id (pu_descriptor u))))) us)" (is "_ = Ok ?jobs")
    by (rule collect_results_total)
  define etag where "etag k u t = (SOME e. upload_one (net_put N i k) u t = Ok \<lparr>co_object_id = ud_object_id (pu_descriptor u),
    co_ciphertext_sha256 = ud_ciphertext_sha256 (pu_descriptor u),
    co_size_bytes = ud_size_bytes (pu_descriptor u), co_provider_etag = e\<rparr>)" for k u t
  define comp where "comp k u t = \<lparr>co_object_id = ud_object_id (pu_descriptor u),
    co_ciphertext_sha256 = ud_ciphertext_sha256 (pu_descriptor u),
    co_size_bytes = ud_size_bytes (pu_descriptor u), co_provider_etag = etag k u t\<rparr>" for k u t
  have one: "upload_one (net_put N i k) u t = Ok (comp k u t)" for k u t
    unfolding comp_def etag_def by (rule someI_ex) (metis upload_one_accepted [OF assms(1)])
  define cs where "cs = map (\<lambda>(k, u, t). comp k u t) (enumerate 0 ?jobs)"
  have "run_uploads N i ?jobs = map Ok cs"
    by (simp add: run_uploads_def one cs_def case_prod_unfold)
  moreover have "collect_results id (map Ok xs) = Ok xs" for xs :: "completed_object_upload list"
    by (induction xs) simp_all
  ultimately have att: "snd (upload_attempt N i us ts) = Ok cs"
    by (simp add: upload_attempt_def jobs join_handles_collect Let_def)
  have cs_nth: "length cs = length us" "\<And>k. k < length us \<Longrightarrow> cs ! k = comp k (us ! k) (snd (?jobs ! k))"
    by (simp_all add: cs_def nth_enumerate_eq)
  have "\<exists>d. hash_of_list ud_object_id ?ds (co_object_id c) = Some d \<and>
      co_ciphertext_sha256 c = ud_ciphertext_sha256 d \<and> co_size_bytes c = ud_size_bytes d" if "c \<in> set cs" for c
  proof -
    from that obtain k where k: "k < length us" "c = comp k (us ! k) (snd (?jobs ! k))"
      by (metis cs_nth in_set_conv_nth)
    then have "hash_of_list ud_object_id ?ds (ud_object_id (pu_descriptor (us ! k))) = Some (pu_descriptor (us ! k))"
      using assms(2) by (intro hash_of_list_distinct) (simp_all add: comp_def)
    then show ?thesis using k(2) by (simp add: comp_def)
  qed
  then have "check_completions (hash_of_list ud_object_id ?ds) (map echo_completion cs) [] =
      Ok (map (\<lambda>c. \<lparr>um_object_id = co_object_id c, um_ciphertext_sha256 = co_ciphertext_sha256 c,
        um_size_bytes = co_size_bytes c\<rparr>) cs)"
    using check_completions_echo [of cs] by simp
  also have "map (\<lambda>c. \<lparr>um_object_id = co_object_id c, um_ciphertext_sha256 = co_ciphertext_sha256 c,
        um_size_bytes = co_size_bytes c\<rparr>) cs = map (metadata_of \<circ> pu_descriptor) us"
    by (rule nth_equalityI) (simp_all add: cs_nth comp_def metadata_of_def)
  finally have "validate_upload_completions (map echo_completion cs) ?ds = Ok (map (metadata_of \<circ> pu_descriptor) us)"
    by (simp add: validate_upload_completions_def cs_nth(1))
  moreover have "net_complete_object_upload_batch N i w d a cs = Ok (map echo_completion cs)"
    using assms(1) by (simp add: store_accepts_def)
  ultimately show ?thesis
    using att by (auto simp: upload_body_def Let_def ts(1) split: prod.splits)
qed

lemma upload_accepted:
  assumes "store_accepts N" "0 < max_attempts config" "distinct (map ru_object_id objects)"
    and "\<not> blank w" "\<not> blank d" "\<not> blank a"
    and "\<forall>ob \<in> set objects. \<not> blank (ru_object_id ob) \<and> int (length (ru_ciphertext ob)) \<le> i64_max"
  shows "snd (upload_reserved_objects L N config w d a objects) = Ok (map (expected_metadata L) objects)"
proof (cases "objects = []")
  case True
  then show ?thesis
    using assms(4-6) by (simp add: upload_reserved_objects_def validate_upload_ids_def validate_required_def)
next
  case False
  let ?plan = "\<lambda>ob. \<lparr>pu_descriptor = \<lparr>ud_object_id = ru_object_id ob, ud_kind = ru_kind ob,
      ud_ciphertext_sha256 = sha256_hex L (ru_ciphertext ob), ud_size_bytes = int (length (ru_ciphertext ob))\<rparr>,
      pu_ciphertext = ru_ciphertext ob\<rparr>"
  have plan: "collect_results (local_reserved_upload_from L) objects = Ok (map ?plan objects)"
    using assms(7) by (intro collect_results_total)
      (simp add: local_reserved_upload_from_def validate_required_def checked_size_def)
  have body: "snd (upload_body N w d a (map ?plan objects) 0) = Ok (map (metadata_of \<circ> pu_descriptor) (map ?plan objects))"
    using assms(1,3) by (intro upload_body_accepted) (simp_all add: comp_def)
  then have "\<not> retryable_at (upload_body N w d a (map ?plan objects)) 0"
    by (simp add: retryable_at_def)
  then have "snd (upload_planned_objects N config w d a (map ?plan objects)) =
      Ok (map (metadata_of \<circ> pu_descriptor) (map ?plan objects))"
    using upload.loop_decided [of 0 0 config N w d a "map ?plan objects"] assms(2) body
    by (simp add: upload_planned_objects_def)
  then show ?thesis
    using False plan assms(4-6)
    by (simp add: upload_reserved_objects_def validate_upload_ids_def validate_required_def comp_def
        metadata_of_def expected_metadata_def [abs_def])
qed

section \<open>A network for examples\<close>

text \<open>
  The first attempt finds the network down; from then on the object store accepts every upload, and
  returns the body of its URL.
\<close>

definition sample_net :: transfer_net where
  "sample_net =
     \<lparr>net_reserve_object_ids = (\<lambda>w d rs. Ok (map (\<lambda>r. \<lparr>ro_client_object_ref = ri_client_object_ref r,
        ro_object_id = ''obj-'' @ ri_client_object_ref r, ro_kind = ri_kind r\<rparr>) rs)),
      net_create_object_upload_batch = (\<lambda>i w d a ds. Ok (map (\<lambda>u. \<lparr>ut_object_id = ud_object_id u,
        ut_put_url = ''http'', ut_required_headers = []\<rparr>) ds)),
      net_complete_object_upload_batch = (\<lambda>i w d a cs. Ok (map (\<lambda>c. \<lparr>uc_object = Some
        \<lparr>um_object_id = co_object_id c, um_ciphertext_sha256 = co_ciphertext_sha256 c,
         um_size_bytes = co_size_bytes c\<rparr>, uc_error_reason = None\<rparr>) cs)),
      net_create_object_download_batch = (\<lambda>i w d ids. Ok (map (\<lambda>x. \<lparr>dt_object_id = x,
        dt_kind = OBJECT_KIND_COMMIT_BODY, dt_get_url = ''body'', dt_required_headers = [],
        dt_ciphertext_sha256 = ''body'' @ replicate 28 nul, dt_size_bytes = 4\<rparr>) ids)),
      net_put = (\<lambda>i k r. if i = 0 then Err (Network ''down'') else Ok \<lparr>put_provider_etag = None\<rparr>),
      net_get = (\<lambda>i k r. if i = 0 then Err (Network ''down'') else Ok \<lparr>get_body = get_url r\<rparr>),
      net_order = (\<lambda>i n. [0..<n]), net_abort_order = (\<lambda>i n. []),
      net_now_ms = (\<lambda>i. 0), net_jitter_seed = (\<lambda>i. 0)\<rparr>"

definition working_net :: transfer_net where
  "working_net = sample_net\<lparr>net_put := (\<lambda>i k r. Ok \<lparr>put_provider_etag = None\<rparr>),
     net_get := (\<lambda>i k r. Ok \<lparr>get_body = get_url r\<rparr>)\<rparr>"

lemma working_net_accepts: "store_accepts working_net"
  by (auto simp: store_accepts_def working_net_def sample_net_def echo_completion_def)

definition sample_upload :: reserved_encrypted_upload_object where
  "sample_upload =
     \<lparr>ru_object_id = ''o'', ru_kind = OBJECT_KIND_COMMIT_BODY, ru_ciphertext = ''c''\<rparr>"

definition sample_planned :: planned_upload where
  "sample_planned =
     \<lparr>pu_descriptor = \<lparr>ud_object_id = ''o'', ud_kind = OBJECT_KIND_COMMIT_BODY,
        ud_ciphertext_sha256 = ''c'' @ replicate 31 nul, ud_size_bytes = 1\<rparr>,
      pu_ciphertext = ''c''\<rparr>"

lemmas sample_attempt_simps =
  upload_body_def upload_attempt_def find_target_def hash_of_list_def run_uploads_def
  upload_one_def reported_def validate_upload_completions_def failure_from_http_def
  download_body_def download_attempt_def download_one_def checked_size_def sha256_hex_def

lemma sample_upload_body:
  "upload_body sample_net ''w'' ''d'' ''a'' [sample_planned] 0 =
     ([ObjectFailed Upload ''down''], Err (Retryable ''down''))"
  "upload_body sample_net ''w'' ''d'' ''a'' [sample_planned] 1 =
     ([ObjectCompleted Upload], Ok [metadata_of (pu_descriptor sample_planned)])"
  by (simp_all add: sample_attempt_simps sample_net_def sample_planned_def metadata_of_def)

lemma sample_download_body:
  "download_body sample_crypto sample_net ''w'' ''d'' [''o''] 0 =
     ([ObjectFailed Download ''down''], Err (Retryable ''down''))"
  "snd (download_body sample_crypto sample_net ''w'' ''d'' [''o''] 1) =
     Ok [\<lparr>do_object_id = ''o'', do_kind = OBJECT_KIND_COMMIT_BODY,
          do_ciphertext_sha256 = ''body'' @ replicate 28 nul, do_ciphertext = ''body''\<rparr>]"
  by (simp_all add: sample_attempt_simps sample_net_def sample_crypto_def numeral_eq_Suc)

lemma sample_upload_decided:
  "snd (upload_planned_objects sample_net default_queue_config ''w'' ''d'' ''a'' [sample_planned]) =
     Ok [metadata_of (pu_descriptor sample_planned)]"
  using upload.loop_decided [of 0 1 default_queue_config sample_net "''w''" "''d''" "''a''" "[sample_planned]"]
  by (simp add: upload_planned_objects_def default_queue_config_def retryable_at_def
      sample_upload_body [simplified])

lemma sample_reserved_upload:
  "snd (upload_reserved_objects sample_crypto sample_net default_queue_config ''w'' ''d'' ''a'' [sample_upload]) =
     Ok [metadata_of (pu_descriptor sample_planned)]"
proof -
  have "collect_results (local_reserved_upload_from sample_crypto) [sample_upload] = Ok [sample_planned]"
    by (simp add: local_reserved_upload_from_def validate_required_def not_blank_graphic
        is_ascii_graphic_def sample_upload_def sample_planned_def checked_size_def sha256_hex_def
        sample_crypto_def numeral_eq_Suc)
  moreover have "validate_upload_ids ''w'' ''d'' ''a'' = Ok ()"
    by (simp add: validate_upload_ids_def validate_required_def not_blank_graphic is_ascii_graphic_def)
  ultimately show ?thesis
    using sample_upload_decided by (simp add: upload_reserved_objects_def)
qed

lemma sample_download:
  "snd (download_objects sample_crypto sample_net default_queue_config ''w'' ''d'' [''o'']) =
     Ok [\<lparr>do_object_id = ''o'', do_kind = OBJECT_KIND_COMMIT_BODY,
          do_ciphertext_sha256 = ''body'' @ replicate 28 nul, do_ciphertext = ''body''\<rparr>]"
  using download.loop_decided [of 0 1 default_queue_config sample_crypto sample_net "''w''" "''d''" "[''o'']"]
  by (simp add: download_objects_def default_queue_config_def retryable_at_def
      sample_download_body [simplified] validate_required_def not_blank_graphic is_ascii_graphic_def)

section \<open>Properties\<close>

text \<open>
  C12. What \<^verbatim>\<open>upload_reserved_objects\<close> reports as uploaded is what was handed in: as many entries as
  objects, each with the identifier of one of them and the SHA-256 hash and size of its ciphertext,
  whatever the network and the server answer.
\<close>

theorem upload_reserved_objects_verified:
  assumes "upload_reserved_objects L N config workspace_id device_id upload_attempt_id objects = (events, Ok uploaded)"
  shows "length uploaded = length objects \<and>
    (\<forall>m \<in> set uploaded. \<exists>ob \<in> set objects.
       um_object_id m = ru_object_id ob \<and>
       um_ciphertext_sha256 m = sha256_hex L (ru_ciphertext ob) \<and>
       um_size_bytes m = int (length (ru_ciphertext ob)))"
proof -
  have *: "length uploaded = length objects" "set uploaded \<subseteq> expected_metadata L ` set objects"
    using upload_reserved_objects_Ok [of L N config workspace_id device_id upload_attempt_id objects uploaded]
      assms by simp_all
  have "\<exists>ob \<in> set objects. um_object_id m = ru_object_id ob \<and>
       um_ciphertext_sha256 m = sha256_hex L (ru_ciphertext ob) \<and>
       um_size_bytes m = int (length (ru_ciphertext ob))" if "m \<in> set uploaded" for m
  proof -
    from that *(2) obtain ob where "ob \<in> set objects" "m = expected_metadata L ob" by blast
    then show ?thesis by (intro bexI [of _ ob]) (simp_all add: expected_metadata_def)
  qed
  then show ?thesis using *(1) by simp
qed

theorem upload_reserved_objects_verified_witness:
  "\<exists>m. snd (upload_reserved_objects sample_crypto sample_net default_queue_config ''w'' ''d'' ''a'' [sample_upload]) = Ok [m]
     \<and> um_object_id m = ''o'' \<and> um_size_bytes m = 1"
proof -
  obtain events where "upload_reserved_objects sample_crypto sample_net default_queue_config
      ''w'' ''d'' ''a'' [sample_upload] = (events, Ok [metadata_of (pu_descriptor sample_planned)])"
    using sample_reserved_upload by (metis prod.collapse)
  from upload_reserved_objects_verified [OF this] sample_reserved_upload show ?thesis
    by (intro exI [of _ "metadata_of (pu_descriptor sample_planned)"]) (simp add: sample_upload_def)
qed

text \<open>
  C13. A download only succeeds with verified contents: the result pairs, in order, with the targets the
  server handed out for one of the at most \<^verbatim>\<open>max_attempts\<close> attempts, and each object has the announced
  identifier and kind, a body whose SHA-256 is the announced hash, and the announced size.
\<close>

theorem download_objects_verified:
  assumes "download_objects L N config workspace_id device_id object_ids = (events, Ok downloads)"
    and "object_ids \<noteq> []"
  shows "\<exists>attempt < max_attempts config. \<exists>targets.
    net_create_object_download_batch N attempt workspace_id device_id object_ids = Ok targets \<and>
    list_all2 (\<lambda>t d. do_object_id d = dt_object_id t \<and> do_kind d = dt_kind t \<and>
      sha256_hex L (do_ciphertext d) = dt_ciphertext_sha256 t \<and>
      do_ciphertext_sha256 d = dt_ciphertext_sha256 t \<and>
      int (length (do_ciphertext d)) = dt_size_bytes t) targets downloads"
proof -
  have "snd (retry_loop N config Download (checked_count (length object_ids))
      (download_body L N workspace_id device_id object_ids) 0) = Ok downloads"
    using assms by (auto simp: download_objects_def split: result.splits)
  from download.loop_good [OF this] obtain i targets where i: "i < max_attempts config"
      "net_create_object_download_batch N i workspace_id device_id object_ids = Ok targets"
      "list_all2 (verified_download L) targets downloads"
    by (elim exE conjE) (rule that)
  have "list_all2 (\<lambda>t d. do_object_id d = dt_object_id t \<and> do_kind d = dt_kind t \<and>
      sha256_hex L (do_ciphertext d) = dt_ciphertext_sha256 t \<and>
      do_ciphertext_sha256 d = dt_ciphertext_sha256 t \<and>
      int (length (do_ciphertext d)) = dt_size_bytes t) targets downloads"
    using i(3) by (rule list_all2_mono) (simp add: verified_download_def)
  then show ?thesis using i(1,2) by blast
qed

theorem download_objects_verified_witness:
  "\<exists>downloads. snd (download_objects sample_crypto sample_net default_queue_config ''w'' ''d'' [''o'']) = Ok downloads
     \<and> length downloads = 1"
proof -
  let ?d = "[\<lparr>do_object_id = ''o'', do_kind = OBJECT_KIND_COMMIT_BODY,
          do_ciphertext_sha256 = ''body'' @ replicate 28 nul, do_ciphertext = ''body''\<rparr>]"
  obtain events where ev: "download_objects sample_crypto sample_net default_queue_config ''w'' ''d'' [''o''] = (events, Ok ?d)"
    using sample_download by (metis prod.collapse)
  obtain attempt targets where
      "net_create_object_download_batch sample_net attempt ''w'' ''d'' [''o''] = Ok targets"
      "length targets = length ?d"
    using download_objects_verified [OF ev] by (auto dest: list_all2_lengthD)
  then have "length ?d = 1" by simp
  then show ?thesis using ev by (intro exI [of _ ?d]) (simp add: sample_download)
qed

text \<open>
  The first attempt of an upload that does not end in a retryable failure decides it: if it is
  number \<open>m\<close> (from 0) below the limit, exactly the attempts \<open>1\<close> to \<open>m + 1\<close> are announced and the result is
  that of attempt \<open>m\<close>, an error as it is; if all attempts fail retryably, the last message is returned.
\<close>

theorem upload_attempts_decided:
  assumes "m < max_attempts config"
    and "\<forall>i < m. retryable_at (upload_body N workspace_id device_id upload_attempt_id uploads) i"
    and "\<not> retryable_at (upload_body N workspace_id device_id upload_attempt_id uploads) m
      \<or> Suc m = max_attempts config"
  shows "snd (upload_planned_objects N config workspace_id device_id upload_attempt_id uploads) =
      (case snd (upload_body N workspace_id device_id upload_attempt_id uploads m) of
         Ok uploaded \<Rightarrow> Ok uploaded
       | Err (Fatal e) \<Rightarrow> Err e
       | Err (Retryable message) \<Rightarrow>
           Err (Transport (''upload transfer failed after retries: '' @ message))) \<and>
    filter is_batch_start (fst (upload_planned_objects N config workspace_id device_id upload_attempt_id uploads)) =
      map (\<lambda>i. BatchStarted Upload (checked_count (length uploads)) (checked_count (i + 1))
        (checked_count (max_attempts config))) [0..<Suc m]"
proof (cases "retryable_at (upload_body N workspace_id device_id upload_attempt_id uploads) m")
  case False
  have "snd (upload_body N workspace_id device_id upload_attempt_id uploads m) \<noteq> Err (Retryable msg)" for msg
    using False by (auto simp: retryable_at_def)
  then have "map_err failure_error (snd (upload_body N workspace_id device_id upload_attempt_id uploads m)) =
      (case snd (upload_body N workspace_id device_id upload_attempt_id uploads m) of
         Ok uploaded \<Rightarrow> Ok uploaded
       | Err (Fatal e) \<Rightarrow> Err e
       | Err (Retryable message) \<Rightarrow>
           Err (Transport (''upload transfer failed after retries: '' @ message)))"
    by (auto split: result.splits attempt_failure.splits)
  then show ?thesis
    using upload.loop_decided [of 0 m config N workspace_id device_id upload_attempt_id uploads]
      assms(1,2) False
    by (simp add: upload_planned_objects_def start_event_def [abs_def] del: upt_Suc)
next
  case True
  then obtain msg where msg: "snd (upload_body N workspace_id device_id upload_attempt_id uploads m) = Err (Retryable msg)"
    by (auto simp: retryable_at_def)
  have all: "retryable_at (upload_body N workspace_id device_id upload_attempt_id uploads) i" if "i \<le> m" for i
    using that assms(2) True by (cases "i = m") auto
  have "Suc m = max_attempts config" using assms(3) True by simp
  from upload.loop_exhausted [OF _ this _ msg, of 0] all msg show ?thesis
    by (simp add: upload_planned_objects_def start_event_def [abs_def] del: upt_Suc)
qed

theorem upload_attempts_decided_witness:
  "snd (upload_planned_objects sample_net default_queue_config ''w'' ''d'' ''a'' [sample_planned]) =
     Ok [metadata_of (pu_descriptor sample_planned)] \<and>
   filter is_batch_start (fst (upload_planned_objects sample_net default_queue_config ''w'' ''d'' ''a'' [sample_planned])) =
     [BatchStarted Upload 1 1 3, BatchStarted Upload 1 2 3]"
  using upload_attempts_decided [of 1 default_queue_config sample_net "''w''" "''d''" "''a''" "[sample_planned]"]
  by (simp add: default_queue_config_def retryable_at_def sample_upload_body [simplified]
      checked_count_def)

text \<open>
  The progress reported for an upload batch is well formed whatever the network does: it opens with
  the start of attempt 1, announces at most \<^verbatim>\<open>max_attempts\<close> attempts, and closes with
  \<^verbatim>\<open>BatchCompleted\<close> if the batch succeeds and with \<^verbatim>\<open>BatchFailed\<close> if it does not.
\<close>

theorem upload_progress_well_formed:
  assumes "0 < max_attempts config"
    and "upload_planned_objects N config workspace_id device_id upload_attempt_id uploads = (events, r)"
  shows "events \<noteq> [] \<and>
    hd events = BatchStarted Upload (checked_count (length uploads)) 1
      (checked_count (max_attempts config)) \<and>
    length (filter is_batch_start events) \<le> max_attempts config \<and>
    (case r of Ok _ \<Rightarrow> last events = BatchCompleted Upload
     | Err _ \<Rightarrow> \<exists>message. last events = BatchFailed Upload message)"
proof -
  have loop: "retry_loop N config Upload (checked_count (length uploads))
      (upload_body N workspace_id device_id upload_attempt_id uploads) 0 = (events, r)"
    using assms(2) by (simp add: upload_planned_objects_def)
  have one: "checked_count (Suc 0) = 1" by (simp add: checked_count_def)
  from upload.loop_trace have "\<exists>rest. events = rest \<and> rest \<noteq> [] \<and>
     (0 < max_attempts config \<longrightarrow>
        hd rest = start_event config Upload (checked_count (length uploads)) 0) \<and>
     end_event Upload r (last rest) \<and>
     length (filter is_batch_start rest) \<le> max_attempts config - 0"
    using loop by (metis fst_conv snd_conv)
  then show ?thesis
    using assms(1) one by (cases r) (simp_all add: start_event_def end_event_def)
qed

theorem upload_progress_well_formed_witness:
  "\<exists>events. fst (upload_planned_objects sample_net default_queue_config ''w'' ''d'' ''a'' [sample_planned]) = events
     \<and> hd events = BatchStarted Upload 1 1 3 \<and> last events = BatchCompleted Upload"
proof -
  obtain events where ev: "upload_planned_objects sample_net default_queue_config ''w'' ''d'' ''a''
      [sample_planned] = (events, Ok [metadata_of (pu_descriptor sample_planned)])"
    using sample_upload_decided by (metis prod.collapse)
  have "0 < max_attempts default_queue_config" by (simp add: default_queue_config_def)
  from upload_progress_well_formed [OF this ev] ev show ?thesis
    by (simp add: default_queue_config_def checked_count_def)
qed

text \<open>
  \<open>validate_upload_completions\<close> counts the entries of the server's answer but does not compare the
  identifiers with those of the request one by one: an answer that names one object twice and leaves
  another out is accepted.
\<close>

lemma completions_accept_repeated_object:
  assumes "ud_object_id d1 \<noteq> ud_object_id d2"
  defines "c \<equiv> \<lparr>uc_object = Some (metadata_of d1), uc_error_reason = None\<rparr>"
  shows "validate_upload_completions [c, c] [d1, d2] = Ok [metadata_of d1, metadata_of d1]"
  using assms by (simp add: validate_upload_completions_def hash_of_list_def metadata_of_def)

text \<open>
  The wait before an attempt is the linear backoff plus a jitter of at most a quarter of it, and of
  at most one second, for every reading of the clock. The product does not overflow in the range of
  the hypothesis; beyond it both saturate.
\<close>

theorem retry_delay_bounds:
  assumes "backoff * min (attempt + 1) (2 ^ 32 - 1) \<le> DURATION_MAX"
  shows "backoff * min (attempt + 1) (2 ^ 32 - 1) \<le> retry_delay seed backoff attempt \<and>
    retry_delay seed backoff attempt \<le>
      backoff * min (attempt + 1) (2 ^ 32 - 1) + min (backoff * min (attempt + 1) (2 ^ 32 - 1) div 4) 1000000000"
proof -
  define base where "base = backoff * min (attempt + 1) (2 ^ 32 - 1)"
  define cap where "cap = min (base div 1000000 div 4) 1000"
  have "seed mod (cap + 1) \<le> cap" by (simp add: less_Suc_eq_le [symmetric])
  then have "seed mod (cap + 1) * 1000000 \<le> cap * 1000000" by simp
  also have "\<dots> \<le> min (base div 4) 1000000000"
  proof -
    have "base div 1000000 div 4 = base div 4 div 1000000"
      by (simp only: div_mult2_eq [symmetric] mult.commute)
    then have "cap = min (base div 4 div 1000000) 1000" by (simp add: cap_def)
    moreover have "min q 1000 * 1000000 \<le> min p 1000000000" if "q * 1000000 \<le> p" for p q :: nat
      using that by (auto simp: min_def)
    ultimately show ?thesis by (simp add: div_times_less_eq_dividend)
  qed
  finally have jitter: "seed mod (cap + 1) * 1000000 \<le> min (base div 4) 1000000000" .
  have delay: "retry_delay seed backoff attempt = (if backoff = 0 then 0 else if cap = 0 then base
      else min (base + seed mod (cap + 1) * 1000000) DURATION_MAX)"
    using assms by (simp add: retry_delay_def base_def cap_def Let_def min_absorb1)
  have "base \<le> retry_delay seed backoff attempt"
    unfolding delay using assms by (auto simp: base_def)
  moreover have "retry_delay seed backoff attempt \<le>
      backoff * min (attempt + 1) (2 ^ 32 - 1) + min (backoff * min (attempt + 1) (2 ^ 32 - 1) div 4) 1000000000"
    unfolding base_def [symmetric] delay using jitter by (auto simp: min.coboundedI1)
  ultimately show ?thesis by (simp add: base_def)
qed

theorem retry_delay_bounds_witness:
  "250000000 \<le> retry_delay 12345 250000000 0 \<and> retry_delay 12345 250000000 0 \<le> 312500000"
  using retry_delay_bounds [of 250000000 0 12345] by (simp add: DURATION_MAX_def)

end
