(* ===== verification/Sync_Commit.thy ===== *)
theory Sync_Commit
  imports Sync_Planner Sync_Transfer
begin

text \<open>
  What the push pipeline (\<^verbatim>\<open>sync/checkpoint.rs\<close>) and the pull pipeline (\<^verbatim>\<open>sync/applier.rs\<close>) share: the
  plaintext of a commit, the messages of the commit service (\<^verbatim>\<open>sync/client.rs\<close>), the identifier of a
  tree and the labels of kinds. Both files declare the commit body and the tree entry body alike. JSON
  is a parameter; \<open>commit_body_ok\<close> states that reading a commit body back inverts writing it.
\<close>

section \<open>Commit bodies\<close>

record commit_body_content_ref =
  ref_object_id :: string
  ref_entry_id :: string

datatype commit_body_file_op =
    UpsertFile (fo_file_id: string) (fo_path: string) (fo_normalized_path: string)
      (fo_plaintext_hash: string) (fo_size_bytes: int) (fo_content_ref: commit_body_content_ref)
  | DeleteFile (fo_file_id: string) (fo_path: string) (fo_normalized_path: string)

record commit_body_pack_ref =
  pr_pack_ref :: string
  pr_object_id :: string
  pr_pack_kind :: string
  pr_shard_index :: nat
  pr_entry_count :: nat

record commit_body =
  bd_format :: string
  bd_version :: nat
  bd_commit_id :: string
  bd_commit_kind :: string
  bd_parent_commit_ids :: "string list"
  bd_tree_id :: string
  bd_changes :: "commit_body_file_op list"
  bd_packs :: "commit_body_pack_ref list"

record commit_identity =
  id_workspace_id :: string
  id_author_device_id :: string
  id_device_seq :: int
  id_commit_kind :: string
  id_expected_head_commit_id :: string
  id_parent_commit_ids :: "string list"
  id_body_object_id :: string
  id_referenced_object_ids :: "string list"
  id_tree_id :: string
  id_changes :: "commit_body_file_op list"

record tree_cache_entry_body =
  tb_file_id :: string
  tb_normalized_path :: string
  tb_plaintext_hash :: "string option"
  tb_content_object_id :: "string option"
  tb_pack_entry_id :: "string option"
  tb_kind :: string

section \<open>Messages of the commit service\<close>

datatype sync_commit_kind =
    COMMIT_KIND_UNSPECIFIED
  | COMMIT_KIND_INCREMENTAL
  | COMMIT_KIND_MERGE
  | COMMIT_KIND_CHECKPOINT

record sync_head =
  current_head_commit_id :: string
  head_version :: int
  latest_checkpoint_commit_id :: string

record sync_commit_header =
  ch_commit_id :: string
  ch_commit_kind :: sync_commit_kind
  ch_expected_head_commit_id :: string
  ch_parent_commit_ids :: "string list"
  ch_author_device_id :: string
  ch_device_seq :: int
  ch_body_object_id :: string
  ch_body_ciphertext_sha256 :: string
  ch_body_size_bytes :: int
  ch_referenced_object_ids :: "string list"
  ch_signature :: bytes
  ch_server_seq :: int

record list_commits_output =
  lc_commits :: "sync_commit_header list"
  lc_has_more :: bool
  lc_next_after_server_seq :: "64 word"

record publish_commit_input =
  pc_workspace_id :: string
  pc_commit_id :: string
  pc_commit_kind :: sync_commit_kind
  pc_expected_head_commit_id :: string
  pc_parent_commit_ids :: "string list"
  pc_author_device_id :: string
  pc_device_seq :: int
  pc_body_object_id :: string
  pc_body_ciphertext_sha256 :: string
  pc_body_size_bytes :: int
  pc_referenced_object_ids :: "string list"
  pc_signature :: bytes

record published_commit =
  pd_commit_id :: string
  pd_head_version :: int
  pd_idempotent :: bool

section \<open>Libraries\<close>

record commit_libs = pack_libs +
  to_lowercase :: "string \<Rightarrow> string"
  json_planned_tree :: "planned_tree_entry list \<Rightarrow> bytes"
  json_tree_entries :: "tree_cache_entry_body list \<Rightarrow> bytes"
  json_commit_identity :: "commit_identity \<Rightarrow> bytes"
  json_commit_body :: "commit_body \<Rightarrow> bytes"
  commit_body_of_json :: "bytes \<Rightarrow> (commit_body, string) result"
  json_string_list :: "string list \<Rightarrow> string"

definition commit_body_ok :: "'z commit_libs_scheme \<Rightarrow> bool" where
  "commit_body_ok L \<longleftrightarrow> (\<forall>b. commit_body_of_json L (json_commit_body L b) = Ok b)"

section \<open>Trees and labels\<close>

definition tree_cache_entry_body_of :: "sync_tree_entry_record \<Rightarrow> tree_cache_entry_body" where
  "tree_cache_entry_body_of e =
     \<lparr>tb_file_id = tr_file_id e, tb_normalized_path = tr_normalized_path e,
      tb_plaintext_hash = tr_plaintext_hash e, tb_content_object_id = tr_content_object_id e,
      tb_pack_entry_id = tr_pack_entry_id e, tb_kind = tr_kind e\<rparr>"

definition tree_json_for_entries :: "'z commit_libs_scheme \<Rightarrow> sync_tree_entry_record list \<Rightarrow> string" where
  "tree_json_for_entries L entries = json_tree_entries L (map tree_cache_entry_body_of entries)"

definition tree_id_for_entries :: "'z commit_libs_scheme \<Rightarrow> sync_tree_entry_record list \<Rightarrow> string" where
  "tree_id_for_entries L entries =
     ''tree_'' @ take 32 (blake3_hex L (json_tree_entries L (map tree_cache_entry_body_of entries)))"

definition object_kind_for_pack_kind :: "string \<Rightarrow> sync_object_kind sync_result" where
  "object_kind_for_pack_kind pack_kind =
     (if pack_kind = CONTENT_PACK_KIND then Ok OBJECT_KIND_CONTENT_PACK
      else if pack_kind = CHECKPOINT_PACK_KIND then Ok OBJECT_KIND_CHECKPOINT_PACK
      else Err (InvalidArgument (''unsupported sync pack kind: '' @ pack_kind)))"

fun proto_commit_kind :: "commit_plan_kind \<Rightarrow> sync_commit_kind" where
  "proto_commit_kind PlanCheckpoint = COMMIT_KIND_CHECKPOINT"
| "proto_commit_kind PlanIncremental = COMMIT_KIND_INCREMENTAL"
| "proto_commit_kind PlanMerge = COMMIT_KIND_MERGE"

fun plan_kind_label :: "commit_plan_kind \<Rightarrow> string" where
  "plan_kind_label PlanCheckpoint = ''checkpoint''"
| "plan_kind_label PlanIncremental = ''incremental''"
| "plan_kind_label PlanMerge = ''merge''"

fun commit_kind_label :: "sync_commit_kind \<Rightarrow> string sync_result" where
  "commit_kind_label COMMIT_KIND_CHECKPOINT = Ok ''checkpoint''"
| "commit_kind_label COMMIT_KIND_INCREMENTAL = Ok ''incremental''"
| "commit_kind_label COMMIT_KIND_MERGE = Ok ''merge''"
| "commit_kind_label COMMIT_KIND_UNSPECIFIED = Err (InvalidArgument ''unsupported sync commit kind'')"

definition empty_to_none :: "string \<Rightarrow> string option" where
  "empty_to_none v = (if v = [] then None else Some v)"

lemma commit_kind_labels [simp]: "commit_kind_label (proto_commit_kind k) = Ok (plan_kind_label k)"
  by (cases k) simp_all

section \<open>Trees as maps\<close>

text \<open>
  The tree of a commit is a \<^verbatim>\<open>BTreeMap\<close> from file identifiers to entries; the list that is stored and
  hashed is its values ordered by normalised path.
\<close>

type_synonym tree_map = "(string \<times> sync_tree_entry_record) list"

definition tree_of_entries :: "sync_tree_entry_record list \<Rightarrow> tree_map" where
  "tree_of_entries entries = bt_of_list (map (\<lambda>e. (tr_file_id e, e)) entries)"

definition entries_of_tree :: "tree_map \<Rightarrow> sync_tree_entry_record list" where
  "entries_of_tree tree = sort_key tr_normalized_path (bt_values tree)"

definition tree_keyed :: "tree_map \<Rightarrow> bool" where
  "tree_keyed tree \<longleftrightarrow> bt_wf tree \<and> (\<forall>(k, e) \<in> set tree. tr_file_id e = k)"

lemma tree_keyed_empty [simp]: "tree_keyed []"
  by (simp add: tree_keyed_def)

lemma tree_keyed_insert: "tree_keyed t \<Longrightarrow> tr_file_id e = k \<Longrightarrow> tree_keyed (bt_insert k e t)"
proof -
  assume *: "tree_keyed t" "tr_file_id e = k"
  have "set (bt_insert k e t) \<subseteq> insert (k, e) (set t)"
    by (induction k e t rule: bt_insert.induct) auto
  with * show ?thesis by (auto simp: tree_keyed_def bt_wf_insert)
qed

lemma tree_keyed_remove: "tree_keyed t \<Longrightarrow> tree_keyed (bt_remove k t)"
proof -
  assume *: "tree_keyed t"
  have "set (bt_remove k t) \<subseteq> set t"
    by (induction k t rule: bt_remove.induct) auto
  with * show ?thesis by (auto simp: tree_keyed_def bt_wf_remove)
qed

lemma tree_keyed_of_entries: "tree_keyed (tree_of_entries es)"
proof -
  have "tree_keyed (fold (\<lambda>(k, v). bt_insert k v) (map (\<lambda>e. (tr_file_id e, e)) es) t)"
    if "tree_keyed t" for t
    using that by (induction es arbitrary: t) (auto intro: tree_keyed_insert)
  then show ?thesis by (simp add: tree_of_entries_def bt_of_list_def)
qed

lemma entries_of_tree_ids:
  assumes "tree_keyed t"
  shows "distinct (map tr_file_id (entries_of_tree t))" and "set (entries_of_tree t) = snd ` set t"
proof -
  have "map tr_file_id (map snd t) = map fst t"
    using assms by (auto simp: tree_keyed_def)
  then have "distinct (map tr_file_id (map snd t))"
    using assms bt_wf_distinct by (metis tree_keyed_def)
  then show "distinct (map tr_file_id (entries_of_tree t))"
    unfolding entries_of_tree_def bt_values_def
    by (subst mset_eq_imp_distinct_iff [of _ "map tr_file_id (map snd t)"])
      (simp_all add: multiset.map_comp)
  show "set (entries_of_tree t) = snd ` set t"
    by (simp add: entries_of_tree_def bt_values_def)
qed

section \<open>Libraries for examples\<close>

fun file_op_tokens :: "commit_body_file_op \<Rightarrow> string list" where
  "file_op_tokens (UpsertFile i p np h n r) = [i, p, np, h, enc_int n, ref_object_id r, ref_entry_id r]"
| "file_op_tokens (DeleteFile i p np) = [i, p, np]"

definition file_op_of_tokens :: "string list \<Rightarrow> commit_body_file_op option" where
  "file_op_of_tokens ts =
     (case ts of
        [i, p, np, h, n, ob, e] \<Rightarrow>
          Some (UpsertFile i p np h (dec_int n) \<lparr>ref_object_id = ob, ref_entry_id = e\<rparr>)
      | [i, p, np] \<Rightarrow> Some (DeleteFile i p np)
      | _ \<Rightarrow> None)"

lemma file_op_tokens_inverse: "file_op_of_tokens (file_op_tokens op) = Some op"
  by (cases op) (simp_all add: file_op_of_tokens_def)

definition pack_ref_tokens :: "commit_body_pack_ref \<Rightarrow> string list" where
  "pack_ref_tokens r = [pr_pack_ref r, pr_object_id r, pr_pack_kind r, enc_int (int (pr_shard_index r)),
     enc_int (int (pr_entry_count r))]"

definition pack_ref_of_tokens :: "string list \<Rightarrow> commit_body_pack_ref option" where
  "pack_ref_of_tokens ts =
     (case ts of
        [r, ob, k, i, n] \<Rightarrow> Some \<lparr>pr_pack_ref = r, pr_object_id = ob, pr_pack_kind = k,
          pr_shard_index = nat (dec_int i), pr_entry_count = nat (dec_int n)\<rparr>
      | _ \<Rightarrow> None)"

lemma pack_ref_tokens_inverse: "pack_ref_of_tokens (pack_ref_tokens r) = Some r"
  by (simp add: pack_ref_of_tokens_def pack_ref_tokens_def)

definition sample_body_json :: "commit_body \<Rightarrow> bytes" where
  "sample_body_json b = enc_tokens
     [bd_format b, enc_int (int (bd_version b)), bd_commit_id b, bd_commit_kind b,
      enc_tokens (bd_parent_commit_ids b), bd_tree_id b, enc_list file_op_tokens (bd_changes b),
      enc_list pack_ref_tokens (bd_packs b)]"

definition sample_body_of_json :: "bytes \<Rightarrow> (commit_body, string) result" where
  "sample_body_of_json json =
     (case dec_tokens [] json of
        Some [f, v, c, k, ps, t, ops, packs] \<Rightarrow>
          (case (dec_tokens [] ps, dec_list file_op_of_tokens ops, dec_list pack_ref_of_tokens packs) of
             (Some ps, Some ops, Some packs) \<Rightarrow>
               Ok \<lparr>bd_format = f, bd_version = nat (dec_int v), bd_commit_id = c, bd_commit_kind = k,
                   bd_parent_commit_ids = ps, bd_tree_id = t, bd_changes = ops, bd_packs = packs\<rparr>
           | _ \<Rightarrow> Err ''invalid'')
      | _ \<Rightarrow> Err ''invalid'')"

text \<open>A hash whose value is made of characters a pack entry's name may have.\<close>

definition sample_hash :: "bytes \<Rightarrow> string" where
  "sample_hash b = map (\<lambda>c. if is_ascii_alphanumeric c then c else CHR ''0'') b"

definition sample_commit_libs :: commit_libs where
  "sample_commit_libs = pack_libs.extend (sample_pack\<lparr>blake3_hex := sample_hash\<rparr>) (commit_libs.fields
     to_ascii_lowercase (\<lambda>es. concat (map pt_normalized_path es))
     (\<lambda>es. concat (map tb_normalized_path es)) id_tree_id sample_body_json sample_body_of_json concat)"

lemmas sample_commit_libs_defs = sample_commit_libs_def pack_libs.defs commit_libs.defs

lemma sample_commit_libs_ok:
  "aead_ok sample_commit_libs" "sha256_ok sample_commit_libs" "tar_ok sample_commit_libs"
  "zstd_ok sample_commit_libs" "index_json_ok sample_commit_libs" "commit_body_ok sample_commit_libs"
proof -
  show "aead_ok sample_commit_libs" "sha256_ok sample_commit_libs"
    using sample_pack_crypto_ok by (simp_all add: aead_ok_def sha256_ok_def sample_commit_libs_defs)
  show "tar_ok sample_commit_libs" "zstd_ok sample_commit_libs" "index_json_ok sample_commit_libs"
    using sample_pack_ok by (simp_all add: tar_ok_def zstd_ok_def index_json_ok_def sample_commit_libs_defs)
  show "commit_body_ok sample_commit_libs"
    by (simp add: commit_body_ok_def sample_commit_libs_defs sample_body_json_def sample_body_of_json_def
        file_op_tokens_inverse pack_ref_tokens_inverse)
qed

end
