(* ===== verification/Rust_Text.thy ===== *)
theory Rust_Text
  imports Rust_Std
begin

text \<open>
  Further string functions of the Rust library: \<^verbatim>\<open>split_whitespace\<close>, \<^verbatim>\<open>strip_prefix\<close>, \<^verbatim>\<open>str::contains\<close> as a
  search, the optional trimmed string the commands use, and the facts about \<^verbatim>\<open>trim\<close> that the settings and
  the recovery phrase rely on.
\<close>

section \<open>White space\<close>

definition white_prefix :: "string \<Rightarrow> string option" where
  "white_prefix s = find (\<lambda>w. prefix w s) white_chars"

lemma white_chars_nonempty: "w \<in> set white_chars \<Longrightarrow> w \<noteq> []"
  by (auto simp: white_chars_def)

lemma white_prefix_Some: "white_prefix s = Some w \<Longrightarrow> w \<in> set white_chars \<and> prefix w s \<and> w \<noteq> []"
  by (auto simp: white_prefix_def find_Some_iff dest: white_chars_nonempty [OF nth_mem])

lemma white_prefix_None: "white_prefix s = None \<longleftrightarrow> (\<forall>w \<in> set white_chars. \<not> prefix w s)"
  by (auto simp: white_prefix_def find_None_iff)

lemma white_prefix_Nil [simp]: "white_prefix [] = None"
  by (auto simp: white_prefix_None dest: white_chars_nonempty)

lemma white_prefix_prefix: "white_prefix s = None \<Longrightarrow> prefix t s \<Longrightarrow> white_prefix t = None"
  by (auto simp: white_prefix_None dest: prefix_order.trans)

lemma trim_start_white:
  "trim_start s = (case white_prefix s of None \<Rightarrow> s | Some w \<Rightarrow> trim_start (drop (length w) s))"
proof (cases "white_prefix s")
  case None
  then show ?thesis by (simp add: trim_start.simps [of s] white_prefix_def)
next
  case (Some w)
  then have "w \<noteq> []" "s \<noteq> []" using white_prefix_Some [OF Some] by auto
  with Some show ?thesis by (simp add: trim_start.simps [of s] white_prefix_def)
qed

lemma trim_start_no_white: "white_prefix (trim_start s) = None"
proof (induction s rule: trim_start.induct)
  case (1 s)
  show ?case
  proof (cases "white_prefix s")
    case None
    then show ?thesis by (simp add: trim_start_white [of s])
  next
    case (Some w)
    then have "w \<noteq> []" "s \<noteq> []" using white_prefix_Some [OF Some] by auto
    with 1 Some show ?thesis by (simp add: trim_start_white [of s] white_prefix_def)
  qed
qed

lemma trim_start_idle: "white_prefix s = None \<Longrightarrow> trim_start s = s"
  by (simp add: trim_start_white)

definition white_suffix :: "string \<Rightarrow> string option" where
  "white_suffix s = find (\<lambda>w. suffix w s) white_chars"

lemma white_suffix_Some: "white_suffix s = Some w \<Longrightarrow> suffix w s \<and> w \<noteq> []"
  by (auto simp: white_suffix_def find_Some_iff dest: white_chars_nonempty [OF nth_mem])

lemma trim_end_white:
  "trim_end s = (case white_suffix s of None \<Rightarrow> s | Some w \<Rightarrow> trim_end (take (length s - length w) s))"
proof (cases "white_suffix s")
  case None
  then show ?thesis by (simp add: trim_end.simps [of s] white_suffix_def)
next
  case (Some w)
  then have "w \<noteq> []" "s \<noteq> []" using white_suffix_Some [OF Some] by auto
  with Some show ?thesis by (simp add: trim_end.simps [of s] white_suffix_def)
qed

lemma trim_end_no_white: "white_suffix (trim_end s) = None \<and> prefix (trim_end s) s"
proof (induction s rule: trim_end.induct)
  case (1 s)
  show ?case
  proof (cases "white_suffix s")
    case None
    then show ?thesis by (simp add: trim_end_white [of s])
  next
    case (Some w)
    then have "w \<noteq> []" "s \<noteq> []" using white_suffix_Some [OF Some] by auto
    with 1 Some have "white_suffix (trim_end (take (length s - length w) s)) = None"
      "prefix (trim_end (take (length s - length w) s)) (take (length s - length w) s)"
      by (simp_all add: white_suffix_def)
    with Some show ?thesis
      by (auto simp: trim_end_white [of s] intro: prefix_order.trans take_is_prefix)
  qed
qed

lemma trim_idem [simp]: "trim (trim s) = trim s"
proof -
  have "white_prefix (trim s) = None"
    using trim_start_no_white [of s] trim_end_no_white [of "trim_start s"]
    by (auto simp: trim_def intro: white_prefix_prefix)
  moreover have "trim_end (trim s) = trim s"
    using trim_end_no_white [of "trim_start s"] by (simp add: trim_def trim_end_white [of "trim_end _"])
  ultimately show ?thesis by (simp add: trim_def [of "trim s"] trim_start_idle)
qed

lemma blank_trim [simp]: "blank (trim s) \<longleftrightarrow> blank s"
  by (simp add: blank_def)

lemma trim_not_Nil: "\<not> blank s \<Longrightarrow> trim s \<noteq> []"
  by (simp add: blank_def)

text \<open>Trimming drops no printing ASCII character.\<close>

lemma white_chars_not_graphic: "w \<in> set white_chars \<Longrightarrow> c \<in> set w \<Longrightarrow> \<not> is_ascii_graphic c"
  by (auto simp: white_chars_def is_ascii_graphic_def)

lemma trim_start_keeps: "is_ascii_graphic c \<Longrightarrow> c \<in> set s \<Longrightarrow> c \<in> set (trim_start s)"
proof (induction s rule: trim_start.induct)
  case (1 s)
  show ?case
  proof (cases "white_prefix s")
    case None
    with 1 show ?thesis by (simp add: trim_start_white [of s])
  next
    case (Some w)
    then obtain t where w: "w \<in> set white_chars" "w \<noteq> []" "s = w @ t" using white_prefix_Some [OF Some] by (auto elim: prefixE)
    with 1 Some have "c \<in> set t" using white_chars_not_graphic by auto
    with 1 Some w show ?thesis by (simp add: trim_start_white [of "w @ t"] white_prefix_def)
  qed
qed

lemma trim_end_keeps: "is_ascii_graphic c \<Longrightarrow> c \<in> set s \<Longrightarrow> c \<in> set (trim_end s)"
proof (induction s rule: trim_end.induct)
  case (1 s)
  show ?case
  proof (cases "white_suffix s")
    case None
    with 1 show ?thesis by (simp add: trim_end_white [of s])
  next
    case (Some w)
    then obtain t where w: "w \<in> set white_chars" "w \<noteq> []" "s = t @ w"
      using white_suffix_Some [OF Some] by (auto simp: white_suffix_def find_Some_iff elim: suffixE dest: nth_mem)
    with 1 Some have "c \<in> set t" using white_chars_not_graphic by auto
    with 1 Some w show ?thesis by (simp add: trim_end_white [of "t @ w"] white_suffix_def)
  qed
qed

lemma not_blank_if_graphic: "c \<in> set s \<Longrightarrow> is_ascii_graphic c \<Longrightarrow> \<not> blank s"
  using trim_end_keeps [OF _ trim_start_keeps, of c s] by (auto simp: blank_def trim_def)

text \<open>\<^verbatim>\<open>value.map(str::trim).filter(|v| !v.is_empty())\<close>.\<close>

definition trimmed_optional :: "string option \<Rightarrow> string option" where
  "trimmed_optional v =
     (case v of None \<Rightarrow> None | Some s \<Rightarrow> if trim s = [] then None else Some (trim s))"

lemma trimmed_optional_idem [simp]: "trimmed_optional (trimmed_optional v) = trimmed_optional v"
  by (auto simp: trimmed_optional_def split: option.splits)

lemma trimmed_optional_Some: "trimmed_optional v = Some s \<longleftrightarrow> (\<exists>t. v = Some t \<and> s = trim t \<and> s \<noteq> [])"
  by (auto simp: trimmed_optional_def split: option.splits)

section \<open>Words\<close>

function words :: "string \<Rightarrow> string \<Rightarrow> string list" where
  "words acc [] = (if acc = [] then [] else [rev acc])"
| "words acc (c # s) =
     (case white_prefix (c # s) of
        Some w \<Rightarrow> (if acc = [] then [] else [rev acc]) @ words [] (drop (length w) (c # s))
      | None \<Rightarrow> words (c # acc) s)"
  by pat_completeness auto
termination
  by (relation "measure (length \<circ> snd)") (auto dest: white_prefix_Some)

definition split_whitespace :: "string \<Rightarrow> string list" where
  "split_whitespace s = words [] s"

text \<open>A string with no white space anywhere in it.\<close>

definition solid :: "string \<Rightarrow> bool" where
  "solid s \<longleftrightarrow> s \<noteq> [] \<and> (\<forall>k. white_prefix (drop k s) = None)"

abbreviation space :: char where "space \<equiv> CHR 0x20"

lemma char_of_space: "char_of n = space \<longleftrightarrow> n mod 256 = (32 :: nat)"
proof -
  have "of_char space = (32 :: nat)" by simp
  then show ?thesis by (metis of_char_of char_of_char)
qed

lemma white_prefix_space: "white_prefix (space # s) = Some [space]"
  by (simp add: white_prefix_def white_chars_def char_of_space)

text \<open>For evaluation: visible characters and the space are recognised before the table is searched.\<close>

lemma white_prefix_graphic: "is_ascii_graphic c \<Longrightarrow> white_prefix (c # s) = None"
proof -
  assume c: "is_ascii_graphic c"
  have "\<not> prefix w (c # s)" if "w \<in> set white_chars" for w
    using white_chars_ends [OF that] c by (cases w) auto
  then show ?thesis by (simp add: white_prefix_None)
qed

lemma white_prefix_code [code]:
  "white_prefix s =
     (case s of
        [] \<Rightarrow> None
      | c # _ \<Rightarrow>
          if is_ascii_graphic c then None
          else if c = space then Some [space]
          else find (\<lambda>w. prefix w s) white_chars)"
  by (auto simp: white_prefix_graphic white_prefix_space white_prefix_def [symmetric] split: list.split)

lemma trim_code [code]:
  "trim s = (if s \<noteq> [] \<and> is_ascii_graphic (hd s) \<and> is_ascii_graphic (last s) then s
     else trim_end (trim_start s))"
  by (simp add: trim_def [symmetric] trim_graphic)

lemmas trim_start_code [code] = trim_start_white

text \<open>
  The bytes that begin a white space character continue no character, so appending text after a space
  creates no white space across the border.
\<close>

lemma white_bytes_space:
  assumes "w \<in> set white_chars" "w = u @ space # v"
  shows "u = [] \<and> v = []"
proof -
  have "list_all (\<lambda>w. space \<in> set w \<longrightarrow> w = [space]) white_chars" by code_simp
  with assms have "u @ space # v = [space]" by (auto simp: list_all_iff)
  then show ?thesis by (simp add: append_eq_Cons_conv)
qed

lemma white_prefix_append_space:
  assumes "white_prefix s = None" "s \<noteq> []"
  shows "white_prefix (s @ space # t) = None"
proof -
  have False if w: "w \<in> set white_chars" "prefix w (s @ space # t)" for w
  proof -
    from w(2) consider "prefix w s" | v where "w = s @ v" "prefix v (space # t)" "v \<noteq> []"
      unfolding prefix_append by (metis append_Nil2 prefix_order.refl)
    then show False
    proof cases
      case 1
      with assms(1) w(1) show False by (simp add: white_prefix_None)
    next
      case 2
      then obtain v' where "w = s @ space # v'" by (cases v) auto
      with white_bytes_space [OF w(1)] assms(2) show False by blast
    qed
  qed
  then show ?thesis by (auto simp: white_prefix_None)
qed

lemma solid_drop: "solid s \<Longrightarrow> drop k s \<noteq> [] \<Longrightarrow> solid (drop k s)"
  by (simp add: solid_def)

lemma words_solid:
  assumes "\<forall>k. white_prefix (drop k s) = None" "acc @ s \<noteq> []"
  shows "words acc s = [rev acc @ s]"
    and "words acc (s @ space # t) = (rev acc @ s) # words [] t"
proof -
  show "words acc s = [rev acc @ s]"
    using assms
  proof (induction s arbitrary: acc)
    case (Cons c s)
    have "white_prefix (c # s) = None" using Cons.prems(1) [rule_format, of 0] by simp
    moreover have "\<forall>k. white_prefix (drop k s) = None"
      using Cons.prems(1) by (metis drop_Suc_Cons)
    ultimately show ?case using Cons.IH [of "c # acc"] by simp
  qed simp
  show "words acc (s @ space # t) = (rev acc @ s) # words [] t"
    using assms
  proof (induction s arbitrary: acc)
    case Nil
    then show ?case by (simp add: white_prefix_space)
  next
    case (Cons c s)
    have "white_prefix (c # s) = None" using Cons.prems(1) [rule_format, of 0] by simp
    from white_prefix_append_space [OF this] have "white_prefix (c # s @ space # t) = None" by simp
    moreover have "\<forall>k. white_prefix (drop k s) = None"
      using Cons.prems(1) by (metis drop_Suc_Cons)
    ultimately show ?case using Cons.IH [of "c # acc"] by simp
  qed
qed

lemma split_join_solid:
  assumes "\<forall>w \<in> set ws. solid w"
  shows "split_whitespace (join_with [space] ws) = ws"
  using assms
proof (induction ws)
  case Nil
  show ?case by (simp add: split_whitespace_def)
next
  case (Cons w ws)
  then have w: "\<forall>k. white_prefix (drop k w) = None" "[] @ w \<noteq> []" by (simp_all add: solid_def)
  show ?case
  proof (cases "ws = []")
    case True
    with words_solid(1) [OF w] show ?thesis by (simp add: split_whitespace_def)
  next
    case False
    with words_solid(2) [OF w] Cons show ?thesis by (simp add: split_whitespace_def join_with_Cons)
  qed
qed

end
