(* ===== verification/Sync_Account.thy ===== *)
theory Sync_Account
  imports Sync_Commit Rust_Text
begin

text \<open>
  The keys of an account (\<^verbatim>\<open>sync/account_keys.rs\<close>): the account's root key wrapped under a recovery phrase, and
  the names and keys of workspaces and devices encrypted under keys derived from it; further the key
  envelopes of \<^verbatim>\<open>sync/client.rs\<close> and the unlocking of a workspace key at the end of the pull pipeline's file
  (\<^verbatim>\<open>sync/applier.rs\<close>). JSON encodings are parameters, and so is the choice of nonces.
\<close>

section \<open>Data\<close>

record wrapped_account_root_key =
  wa_alg :: string
  wa_nonce :: string
  wa_ciphertext :: string

record account_recovery_key_envelope =
  are_account_key_id :: string
  are_envelope_id :: string
  are_recipient_type :: string
  are_key_version :: int
  are_kdf :: argon2id_kdf_params
  are_wrap :: wrapped_account_root_key

text \<open>\<^verbatim>\<open>WorkspaceDisplayMetadata\<close> and \<^verbatim>\<open>DeviceDisplayMetadata\<close> have the same fields; one record stands for both.\<close>

record display_metadata =
  dm_schema_version :: nat
  dm_name :: string

record account_recovery_envelope_aad =
  ra_format :: string
  ra_version :: nat
  ra_account_key_id :: string
  ra_envelope_id :: string
  ra_recipient_type :: string

record workspace_metadata_aad =
  wma_format :: string
  wma_version :: nat
  wma_account_key_id :: string
  wma_workspace_id :: string
  wma_metadata_version :: int

record workspace_key_for_account_aad =
  wka_format :: string
  wka_version :: nat
  wka_account_key_id :: string
  wka_workspace_id :: string
  wka_workspace_key_version :: int

record device_metadata_aad =
  dma_format :: string
  dma_version :: nat
  dma_account_key_id :: string
  dma_workspace_id :: string
  dma_device_id :: string
  dma_metadata_version :: int

datatype sync_key_recipient_type = RecipientUnspecified | RecipientPassphrase | RecipientDevice

record sync_key_envelope_metadata =
  km_workspace_id :: string
  km_envelope_id :: string
  km_recipient_type :: sync_key_recipient_type
  km_recipient_device_id :: string
  km_key_version :: int
  km_kdf_params_json :: string
  km_encrypted_envelope :: bytes
  km_created_by_device_id :: string

text \<open>The encoders and decoders of \<^verbatim>\<open>serde_json\<close> for these types.\<close>

record account_libs = commit_libs +
  json_recovery_aad :: "account_recovery_envelope_aad \<Rightarrow> bytes"
  json_workspace_metadata_aad :: "workspace_metadata_aad \<Rightarrow> bytes"
  json_workspace_key_aad :: "workspace_key_for_account_aad \<Rightarrow> bytes"
  json_device_metadata_aad :: "device_metadata_aad \<Rightarrow> bytes"
  json_display_metadata :: "display_metadata \<Rightarrow> bytes"
  display_metadata_of_json :: "bytes \<Rightarrow> (display_metadata, string) result"
  json_kdf_params :: "argon2id_kdf_params \<Rightarrow> string"
  kdf_params_of_json :: "string \<Rightarrow> (argon2id_kdf_params, string) result"
  json_wrapped_root_key :: "wrapped_account_root_key \<Rightarrow> bytes"
  wrapped_root_key_of_json :: "bytes \<Rightarrow> (wrapped_account_root_key, string) result"
  json_wrapped_workspace_key :: "wrapped_workspace_key \<Rightarrow> bytes"
  wrapped_workspace_key_of_json :: "bytes \<Rightarrow> (wrapped_workspace_key, string) result"

definition account_json_ok :: "'z account_libs_scheme \<Rightarrow> bool" where
  "account_json_ok L \<longleftrightarrow>
     (\<forall>m. dm_schema_version m < 2 ^ 8 \<longrightarrow> display_metadata_of_json L (json_display_metadata L m) = Ok m) \<and>
     (\<forall>p. kdf_mem_kib p < 2 ^ 32 \<longrightarrow> kdf_iterations p < 2 ^ 32 \<longrightarrow> kdf_parallelism p < 2 ^ 32 \<longrightarrow>
        kdf_params_of_json L (json_kdf_params L p) = Ok p) \<and>
     (\<forall>w. wrapped_root_key_of_json L (json_wrapped_root_key L w) = Ok w) \<and>
     (\<forall>w. wrapped_workspace_key_of_json L (json_wrapped_workspace_key L w) = Ok w)"

section \<open>Keys and phrases\<close>

definition ACCOUNT_METADATA_KEY_PURPOSE :: string where
  "ACCOUNT_METADATA_KEY_PURPOSE = ''kuku-sync-account-metadata-v1''"

definition ACCOUNT_WORKSPACE_WRAP_KEY_PURPOSE :: string where
  "ACCOUNT_WORKSPACE_WRAP_KEY_PURPOSE = ''kuku-sync-account-workspace-wrap-v1''"

definition ACCOUNT_DEVICE_METADATA_KEY_PURPOSE :: string where
  "ACCOUNT_DEVICE_METADATA_KEY_PURPOSE = ''kuku-sync-account-device-metadata-v1''"

definition new_display_metadata :: "string \<Rightarrow> display_metadata" where
  "new_display_metadata name = \<lparr>dm_schema_version = 1, dm_name = name\<rparr>"

definition new_recovery_aad :: "string \<Rightarrow> string \<Rightarrow> account_recovery_envelope_aad" where
  "new_recovery_aad account_key_id envelope_id =
     \<lparr>ra_format = ''kuku.sync.account-key-envelope'', ra_version = 1, ra_account_key_id = account_key_id,
      ra_envelope_id = envelope_id, ra_recipient_type = ''recovery_phrase''\<rparr>"

definition new_workspace_metadata_aad :: "string \<Rightarrow> string \<Rightarrow> int \<Rightarrow> workspace_metadata_aad" where
  "new_workspace_metadata_aad account_key_id workspace_id metadata_version =
     \<lparr>wma_format = ''kuku.sync.workspace-metadata'', wma_version = 1, wma_account_key_id = account_key_id,
      wma_workspace_id = workspace_id, wma_metadata_version = metadata_version\<rparr>"

definition new_workspace_key_aad :: "string \<Rightarrow> string \<Rightarrow> int \<Rightarrow> workspace_key_for_account_aad" where
  "new_workspace_key_aad account_key_id workspace_id workspace_key_version =
     \<lparr>wka_format = ''kuku.sync.workspace-key-for-account'', wka_version = 1, wka_account_key_id = account_key_id,
      wka_workspace_id = workspace_id, wka_workspace_key_version = workspace_key_version\<rparr>"

definition new_device_metadata_aad :: "string \<Rightarrow> string \<Rightarrow> string \<Rightarrow> int \<Rightarrow> device_metadata_aad" where
  "new_device_metadata_aad account_key_id workspace_id device_id metadata_version =
     \<lparr>dma_format = ''kuku.sync.device-metadata'', dma_version = 1, dma_account_key_id = account_key_id,
      dma_workspace_id = workspace_id, dma_device_id = device_id, dma_metadata_version = metadata_version\<rparr>"

definition normalize_recovery_phrase :: "(string \<Rightarrow> string) \<Rightarrow> string \<Rightarrow> string" where
  "normalize_recovery_phrase lc phrase = join_with [space] (map lc (split_whitespace phrase))"

definition require_recovery_phrase :: "(string \<Rightarrow> string) \<Rightarrow> string \<Rightarrow> string sync_result" where
  "require_recovery_phrase lc recovery_phrase =
     (let normalized = normalize_recovery_phrase lc recovery_phrase in
      if normalized = [] then Err (InvalidArgument ''recovery phrase must not be empty'') else Ok normalized)"

definition derive_account_subkey ::
    "'z crypto_libs_scheme \<Rightarrow> symmetric_key \<Rightarrow> string \<Rightarrow> string \<Rightarrow> symmetric_key" where
  "derive_account_subkey L account_root_key purpose account_key_id =
     blake3_keyed_hash L account_root_key (purpose @ [nul] @ account_key_id)"

definition account_metadata_key :: "'z crypto_libs_scheme \<Rightarrow> symmetric_key \<Rightarrow> string \<Rightarrow> symmetric_key" where
  "account_metadata_key L account_root_key = derive_account_subkey L account_root_key ACCOUNT_METADATA_KEY_PURPOSE"

definition account_workspace_wrap_key :: "'z crypto_libs_scheme \<Rightarrow> symmetric_key \<Rightarrow> string \<Rightarrow> symmetric_key" where
  "account_workspace_wrap_key L account_root_key =
     derive_account_subkey L account_root_key ACCOUNT_WORKSPACE_WRAP_KEY_PURPOSE"

definition account_device_metadata_key :: "'z crypto_libs_scheme \<Rightarrow> symmetric_key \<Rightarrow> string \<Rightarrow> symmetric_key" where
  "account_device_metadata_key L account_root_key =
     derive_account_subkey L account_root_key ACCOUNT_DEVICE_METADATA_KEY_PURPOSE"

section \<open>The root key under the recovery phrase\<close>

definition wrap_account_root_key_with_params ::
    "'z account_libs_scheme \<Rightarrow> bytes \<Rightarrow> string \<Rightarrow> string \<Rightarrow> int \<Rightarrow> symmetric_key \<Rightarrow> string
      \<Rightarrow> argon2id_kdf_params \<Rightarrow> account_recovery_key_envelope sync_result" where
  "wrap_account_root_key_with_params L nonce account_key_id envelope_id key_version account_root_key
     recovery_phrase kdf =
     and_then (require_recovery_phrase (to_lowercase L) recovery_phrase) (\<lambda>normalized_phrase.
     and_then (passphrase_kek L normalized_phrase kdf) (\<lambda>kek.
       let aad = json_recovery_aad L (new_recovery_aad account_key_id envelope_id) in
       case aead_encrypt L kek nonce aad account_root_key of
         None \<Rightarrow> Err (Crypto ''account root key wrap failed'')
       | Some ciphertext \<Rightarrow>
           Ok \<lparr>are_account_key_id = account_key_id, are_envelope_id = envelope_id,
               are_recipient_type = ''recovery_phrase'', are_key_version = key_version, are_kdf = kdf,
               are_wrap = \<lparr>wa_alg = ''XChaCha20-Poly1305'', wa_nonce = base64_encode L nonce,
                           wa_ciphertext = base64_encode L ciphertext\<rparr>\<rparr>))"

definition default_kdf_params :: "'z crypto_libs_scheme \<Rightarrow> bytes \<Rightarrow> argon2id_kdf_params" where
  "default_kdf_params L salt =
     \<lparr>kdf_name = ''argon2id'', kdf_salt = base64_encode L salt, kdf_mem_kib = 65536, kdf_iterations = 3,
      kdf_parallelism = 1\<rparr>"

definition wrap_account_root_key_with_recovery_phrase ::
    "'z account_libs_scheme \<Rightarrow> bytes \<Rightarrow> bytes \<Rightarrow> string \<Rightarrow> string \<Rightarrow> int \<Rightarrow> symmetric_key \<Rightarrow> string
      \<Rightarrow> account_recovery_key_envelope sync_result" where
  "wrap_account_root_key_with_recovery_phrase L nonce salt account_key_id envelope_id key_version
     account_root_key recovery_phrase =
     wrap_account_root_key_with_params L nonce account_key_id envelope_id key_version account_root_key
       recovery_phrase (default_kdf_params L salt)"

definition unwrap_account_root_key_with_recovery_phrase ::
    "'z account_libs_scheme \<Rightarrow> account_recovery_key_envelope \<Rightarrow> string \<Rightarrow> symmetric_key sync_result" where
  "unwrap_account_root_key_with_recovery_phrase L envelope recovery_phrase =
     (if are_recipient_type envelope \<noteq> ''recovery_phrase''
      then Err (InvalidArgument ''account key envelope recipient_type must be recovery_phrase'')
      else if wa_alg (are_wrap envelope) \<noteq> ''XChaCha20-Poly1305''
      then Err (Crypto ''unsupported account root key wrap alg'')
      else
        and_then (require_recovery_phrase (to_lowercase L) recovery_phrase) (\<lambda>normalized_phrase.
        and_then (passphrase_kek L normalized_phrase (are_kdf envelope)) (\<lambda>kek.
        and_then (decode_fixed L XCHACHA20_NONCE_LEN (wa_nonce (are_wrap envelope)) ''wrap nonce'') (\<lambda>nonce.
        and_then (map_err (\<lambda>e. Serialization (''invalid wrap ciphertext: '' @ e))
            (base64_decode L (wa_ciphertext (are_wrap envelope)))) (\<lambda>ciphertext.
          let aad = json_recovery_aad L (new_recovery_aad (are_account_key_id envelope) (are_envelope_id envelope)) in
          (case aead_decrypt L kek nonce aad ciphertext of
             None \<Rightarrow> Err (Crypto ''account recovery phrase unwrap failed'')
           | Some plaintext \<Rightarrow>
               if length plaintext \<noteq> 32 then Err (Crypto ''invalid account root key length'')
               else Ok plaintext))))))"

section \<open>What is encrypted under the account\<close>

definition encrypt_workspace_metadata ::
    "'z account_libs_scheme \<Rightarrow> bytes \<Rightarrow> symmetric_key \<Rightarrow> string \<Rightarrow> string \<Rightarrow> int \<Rightarrow> display_metadata \<Rightarrow> bytes sync_result" where
  "encrypt_workspace_metadata L nonce account_root_key account_key_id workspace_id metadata_version metadata =
     encrypt_blob_with_nonce L (json_workspace_metadata_aad L) (account_metadata_key L account_root_key account_key_id)
       (new_workspace_metadata_aad account_key_id workspace_id metadata_version) (json_display_metadata L metadata) nonce"

definition decrypt_workspace_metadata ::
    "'z account_libs_scheme \<Rightarrow> symmetric_key \<Rightarrow> string \<Rightarrow> string \<Rightarrow> int \<Rightarrow> bytes \<Rightarrow> display_metadata sync_result" where
  "decrypt_workspace_metadata L account_root_key account_key_id workspace_id metadata_version encrypted_metadata =
     and_then (decrypt_blob L (json_workspace_metadata_aad L) (account_metadata_key L account_root_key account_key_id)
         (new_workspace_metadata_aad account_key_id workspace_id metadata_version) encrypted_metadata) (\<lambda>plaintext.
       json_result (display_metadata_of_json L plaintext))"

definition encrypt_workspace_key_for_account ::
    "'z account_libs_scheme \<Rightarrow> bytes \<Rightarrow> symmetric_key \<Rightarrow> string \<Rightarrow> string \<Rightarrow> int \<Rightarrow> symmetric_key \<Rightarrow> bytes sync_result" where
  "encrypt_workspace_key_for_account L nonce account_root_key account_key_id workspace_id workspace_key_version
     workspace_key =
     encrypt_blob_with_nonce L (json_workspace_key_aad L) (account_workspace_wrap_key L account_root_key account_key_id)
       (new_workspace_key_aad account_key_id workspace_id workspace_key_version) workspace_key nonce"

definition decrypt_workspace_key_for_account ::
    "'z account_libs_scheme \<Rightarrow> symmetric_key \<Rightarrow> string \<Rightarrow> string \<Rightarrow> int \<Rightarrow> bytes \<Rightarrow> symmetric_key sync_result" where
  "decrypt_workspace_key_for_account L account_root_key account_key_id workspace_id workspace_key_version
     encrypted_workspace_key =
     and_then (decrypt_blob L (json_workspace_key_aad L) (account_workspace_wrap_key L account_root_key account_key_id)
         (new_workspace_key_aad account_key_id workspace_id workspace_key_version) encrypted_workspace_key) (\<lambda>plaintext.
       if length plaintext \<noteq> 32 then Err (Crypto ''invalid workspace key length'') else Ok plaintext)"

definition encrypt_device_metadata ::
    "'z account_libs_scheme \<Rightarrow> bytes \<Rightarrow> symmetric_key \<Rightarrow> string \<Rightarrow> string \<Rightarrow> string \<Rightarrow> int \<Rightarrow> display_metadata
      \<Rightarrow> bytes sync_result" where
  "encrypt_device_metadata L nonce account_root_key account_key_id workspace_id device_id metadata_version metadata =
     encrypt_blob_with_nonce L (json_device_metadata_aad L) (account_device_metadata_key L account_root_key account_key_id)
       (new_device_metadata_aad account_key_id workspace_id device_id metadata_version) (json_display_metadata L metadata)
       nonce"

definition decrypt_device_metadata ::
    "'z account_libs_scheme \<Rightarrow> symmetric_key \<Rightarrow> string \<Rightarrow> string \<Rightarrow> string \<Rightarrow> int \<Rightarrow> bytes \<Rightarrow> display_metadata sync_result" where
  "decrypt_device_metadata L account_root_key account_key_id workspace_id device_id metadata_version encrypted_metadata =
     and_then (decrypt_blob L (json_device_metadata_aad L) (account_device_metadata_key L account_root_key account_key_id)
         (new_device_metadata_aad account_key_id workspace_id device_id metadata_version) encrypted_metadata)
       (\<lambda>plaintext. json_result (display_metadata_of_json L plaintext))"

section \<open>Envelopes of a workspace key\<close>

definition passphrase_envelope_from_metadata ::
    "'z account_libs_scheme \<Rightarrow> sync_key_envelope_metadata \<Rightarrow> passphrase_key_envelope sync_result" where
  "passphrase_envelope_from_metadata L metadata =
     (if km_recipient_type metadata \<noteq> RecipientPassphrase
      then Err (InvalidArgument ''sync key envelope is not passphrase-backed'')
      else
        and_then (json_result (kdf_params_of_json L (km_kdf_params_json metadata))) (\<lambda>kdf.
        and_then (json_result (wrapped_workspace_key_of_json L (km_encrypted_envelope metadata))) (\<lambda>wrap.
          Ok \<lparr>env_workspace_id = km_workspace_id metadata, env_envelope_id = km_envelope_id metadata,
              env_recipient_type = ''passphrase'', env_key_version = km_key_version metadata, env_kdf = kdf,
              env_wrap = wrap\<rparr>)))"

definition unlock_workspace_key_from_envelopes ::
    "'z account_libs_scheme \<Rightarrow> sync_key_envelope_metadata list \<Rightarrow> string
      \<Rightarrow> (symmetric_key \<times> workspace_key_source) sync_result" where
  "unlock_workspace_key_from_envelopes L envelopes passphrase =
     and_then (ok_or (find (\<lambda>envelope. km_recipient_type envelope = RecipientPassphrase) envelopes)
         (InvalidArgument ''no passphrase key envelope found'')) (\<lambda>metadata.
     and_then (passphrase_envelope_from_metadata L metadata) (\<lambda>envelope.
     and_then (unwrap_workspace_key_with_passphrase L envelope passphrase) (\<lambda>workspace_key.
       Ok (workspace_key, Passphrase))))"

section \<open>Normalised phrases\<close>

text \<open>What is assumed of \<^verbatim>\<open>str::to_lowercase\<close>: it creates no white space and is idempotent.\<close>

definition phrase_lowercase_ok :: "(string \<Rightarrow> string) \<Rightarrow> bool" where
  "phrase_lowercase_ok lc \<longleftrightarrow> (\<forall>s. solid s \<longrightarrow> solid (lc s) \<and> lc (lc s) = lc s)"

lemma words_are_solid:
  assumes "\<forall>k < length acc. white_prefix (drop k (rev acc @ s)) = None"
  shows "\<forall>w \<in> set (words acc s). solid w"
  using assms
proof (induction acc s rule: words.induct)
  case (1 acc)
  have "white_prefix (drop k (rev acc)) = None" for k
    using 1 by (cases "k < length acc") auto
  then show ?case by (auto simp: solid_def)
next
  case (2 acc c s)
  have word: "acc \<noteq> [] \<Longrightarrow> solid (rev acc)"
    unfolding solid_def
  proof (intro conjI allI)
    fix k
    have "prefix (drop k (rev acc)) (drop k (rev acc @ c # s))" by simp
    then show "white_prefix (drop k (rev acc)) = None"
      using 2(3) by (cases "k < length acc") (auto intro: white_prefix_prefix)
  qed simp
  show ?case
  proof (cases "white_prefix (c # s)")
    case None
    have "white_prefix (drop k (rev (c # acc) @ s)) = None" if "k < length (c # acc)" for k
      using 2(3) None that by (cases "k = length acc") auto
    with 2(1) [OF None] show ?thesis using None by auto
  next
    case (Some w)
    with 2(2) [OF Some] word show ?thesis by auto
  qed
qed

lemma normalize_recovery_phrase_idem:
  assumes "phrase_lowercase_ok lc"
  shows "normalize_recovery_phrase lc (normalize_recovery_phrase lc phrase) = normalize_recovery_phrase lc phrase"
proof -
  let ?ws = "split_whitespace phrase"
  have solid: "\<forall>w \<in> set ?ws. solid w"
    using words_are_solid [of "[]" phrase] by (simp add: split_whitespace_def)
  with assms have "\<forall>w \<in> set (map lc ?ws). solid w" by (auto simp: phrase_lowercase_ok_def)
  from split_join_solid [OF this] have "split_whitespace (normalize_recovery_phrase lc phrase) = map lc ?ws"
    by (simp add: normalize_recovery_phrase_def)
  moreover have "map lc (map lc ?ws) = map lc ?ws"
    using solid assms by (auto simp: phrase_lowercase_ok_def)
  ultimately show ?thesis by (simp only: normalize_recovery_phrase_def [of lc "normalize_recovery_phrase lc phrase"])
      (simp add: normalize_recovery_phrase_def)
qed

lemma white_prefix_lowercase:
  assumes "white_prefix s = None"
  shows "white_prefix (to_ascii_lowercase s) = None"
proof -
  have not_letters: "list_all (list_all (\<lambda>c. \<not> (97 \<le> byte c \<and> byte c \<le> 122))) white_chars" by code_simp
  have fixed: "c = d" if "ascii_lower c = d" "\<not> (97 \<le> byte d \<and> byte d \<le> 122)" for c d
    using that by (auto simp: ascii_lower_def split: if_splits)
  have "prefix w s" if w: "w \<in> set white_chars" "prefix w (to_ascii_lowercase s)" for w
  proof -
    have "w = map ascii_lower (take (length w) s)"
      using w(2) by (auto simp: prefix_def to_ascii_lowercase_def take_map map_eq_append_conv)
    moreover have "\<forall>c \<in> set w. \<not> (97 \<le> byte c \<and> byte c \<le> 122)"
      using not_letters w(1) by (auto simp: list_all_iff)
    ultimately have "take (length w) s = w"
      by (metis (no_types, lifting) fixed in_set_conv_nth length_map nth_equalityI nth_map)
    then show ?thesis by (metis take_is_prefix)
  qed
  with assms show ?thesis by (auto simp: white_prefix_None)
qed

lemma phrase_lowercase_ok_ascii: "phrase_lowercase_ok to_ascii_lowercase"
  by (auto simp: phrase_lowercase_ok_def solid_def to_ascii_lowercase_def ascii_lower_fixed drop_map
      intro!: white_prefix_lowercase [unfolded to_ascii_lowercase_def])

section \<open>Round trips\<close>

lemma unwrap_wrapped_root_key:
  assumes "aead_ok L" "base64_ok L" "length nonce = XCHACHA20_NONCE_LEN" "length key = 32"
    and "wrap_account_root_key_with_params L nonce account_key_id envelope_id version key phrase kdf = Ok env"
    and "normalize_recovery_phrase (to_lowercase L) phrase' = normalize_recovery_phrase (to_lowercase L) phrase"
  shows "unwrap_account_root_key_with_recovery_phrase L env phrase' = Ok key"
proof -
  let ?p = "normalize_recovery_phrase (to_lowercase L) phrase"
  let ?aad = "json_recovery_aad L (new_recovery_aad account_key_id envelope_id)"
  obtain kek c where "?p \<noteq> []" "passphrase_kek L ?p kdf = Ok kek" "aead_encrypt L kek nonce ?aad key = Some c"
    and env: "env = \<lparr>are_account_key_id = account_key_id, are_envelope_id = envelope_id,
      are_recipient_type = ''recovery_phrase'', are_key_version = version, are_kdf = kdf,
      are_wrap = \<lparr>wa_alg = ''XChaCha20-Poly1305'', wa_nonce = base64_encode L nonce,
        wa_ciphertext = base64_encode L c\<rparr>\<rparr>"
    using assms(5) by (auto simp: wrap_account_root_key_with_params_def require_recovery_phrase_def Let_def
        result_simps split: option.split_asm if_split_asm)
  moreover from this assms(1) have "aead_decrypt L kek nonce ?aad c = Some key" by (simp add: aead_ok_def)
  ultimately show ?thesis
    using assms(2-4,6) by (simp add: unwrap_account_root_key_with_recovery_phrase_def require_recovery_phrase_def
        decode_fixed_def base64_ok_def)
qed

text \<open>
  C23. The account's root key is recovered with the recovery phrase the user wrote down: the commands wrap the key under
  the normalised phrase, and every phrase that normalises to the same words, whatever its case and
  spacing, unwraps the envelope to the same key.
\<close>

theorem account_root_key_recoverable:
  assumes "aead_ok L" "base64_ok L" "phrase_lowercase_ok (to_lowercase L)"
    and "length nonce = XCHACHA20_NONCE_LEN" "length key = 32"
    and "normalize_recovery_phrase (to_lowercase L) phrase \<noteq> []"
    and "passphrase_kek L (normalize_recovery_phrase (to_lowercase L) phrase) kdf = Ok kek"
    and "normalize_recovery_phrase (to_lowercase L) phrase' = normalize_recovery_phrase (to_lowercase L) phrase"
  shows "\<exists>env. wrap_account_root_key_with_params L nonce account_key_id envelope_id version key
      (normalize_recovery_phrase (to_lowercase L) phrase) kdf = Ok env \<and>
    unwrap_account_root_key_with_recovery_phrase L env phrase' = Ok key"
proof -
  let ?p = "normalize_recovery_phrase (to_lowercase L) phrase"
  note idem = normalize_recovery_phrase_idem [OF assms(3)]
  obtain c where "aead_encrypt L kek nonce (json_recovery_aad L (new_recovery_aad account_key_id envelope_id)) key = Some c"
    using assms(1,5) by (fastforce simp: aead_ok_def)
  with assms(6,7) have "\<exists>env. wrap_account_root_key_with_params L nonce account_key_id envelope_id version key ?p kdf = Ok env"
    by (simp add: wrap_account_root_key_with_params_def require_recovery_phrase_def idem)
  then obtain env where env: "wrap_account_root_key_with_params L nonce account_key_id envelope_id version key ?p kdf = Ok env" ..
  moreover have "unwrap_account_root_key_with_recovery_phrase L env phrase' = Ok key"
    using unwrap_wrapped_root_key [OF assms(1,2,4,5) env, of phrase'] assms(8) idem by simp
  ultimately show ?thesis by blast
qed

lemma blob_opens:
  assumes "aead_ok L" "sha256_ok L" "length nonce = XCHACHA20_NONCE_LEN"
    and "encrypt_blob_with_nonce L to_json key aad m nonce = Ok b"
  shows "decrypt_blob L to_json key aad b = Ok m"
  using assms by (rule decrypt_encrypted_blob)

lemma workspace_key_round_trip:
  assumes "aead_ok L" "sha256_ok L" "length nonce = XCHACHA20_NONCE_LEN" "length workspace_key = 32"
    and "encrypt_workspace_key_for_account L nonce root account_key_id workspace_id version workspace_key = Ok b"
  shows "decrypt_workspace_key_for_account L root account_key_id workspace_id version b = Ok workspace_key"
  using blob_opens [OF assms(1-3) assms(5) [unfolded encrypt_workspace_key_for_account_def]] assms(4)
  by (simp add: decrypt_workspace_key_for_account_def)

lemma workspace_metadata_round_trip:
  assumes "aead_ok L" "sha256_ok L" "account_json_ok L" "length nonce = XCHACHA20_NONCE_LEN" "dm_schema_version m < 2 ^ 8"
    and "encrypt_workspace_metadata L nonce root account_key_id workspace_id version m = Ok b"
  shows "decrypt_workspace_metadata L root account_key_id workspace_id version b = Ok m"
  using blob_opens [OF assms(1,2,4) assms(6) [unfolded encrypt_workspace_metadata_def]] assms(3,5)
  by (simp add: decrypt_workspace_metadata_def account_json_ok_def)

lemma device_metadata_round_trip:
  assumes "aead_ok L" "sha256_ok L" "account_json_ok L" "length nonce = XCHACHA20_NONCE_LEN" "dm_schema_version m < 2 ^ 8"
    and "encrypt_device_metadata L nonce root account_key_id workspace_id device_id version m = Ok b"
  shows "decrypt_device_metadata L root account_key_id workspace_id device_id version b = Ok m"
  using blob_opens [OF assms(1,2,4) assms(6) [unfolded encrypt_device_metadata_def]] assms(3,5)
  by (simp add: decrypt_device_metadata_def account_json_ok_def)

lemma passphrase_envelope_round_trip:
  assumes "account_json_ok L" "km_recipient_type m = RecipientPassphrase" "env_recipient_type env = ''passphrase''"
    and "kdf_mem_kib (env_kdf env) < 2 ^ 32" "kdf_iterations (env_kdf env) < 2 ^ 32" "kdf_parallelism (env_kdf env) < 2 ^ 32"
    and "km_workspace_id m = env_workspace_id env" "km_envelope_id m = env_envelope_id env"
    and "km_key_version m = env_key_version env" "km_kdf_params_json m = json_kdf_params L (env_kdf env)"
    and "km_encrypted_envelope m = json_wrapped_workspace_key L (env_wrap env)"
  shows "passphrase_envelope_from_metadata L m = Ok env"
  using assms by (simp add: passphrase_envelope_from_metadata_def account_json_ok_def)

section \<open>Libraries that satisfy the assumptions\<close>

definition sample_kdf_of_json :: "string \<Rightarrow> (argon2id_kdf_params, string) result" where
  "sample_kdf_of_json json =
     (case dec_tokens [] json of
        Some [n, s, m, i, p] \<Rightarrow> Ok \<lparr>kdf_name = n, kdf_salt = s, kdf_mem_kib = read_nat m, kdf_iterations = read_nat i,
            kdf_parallelism = read_nat p\<rparr>
      | _ \<Rightarrow> Err ''invalid'')"

definition sample_account_libs :: account_libs where
  "sample_account_libs = commit_libs.extend sample_commit_libs (account_libs.fields
     ra_envelope_id wma_workspace_id wka_workspace_id dma_device_id
     (\<lambda>m. enc_tokens [show_nat (dm_schema_version m), dm_name m])
     (\<lambda>b. case dec_tokens [] b of
        Some [v, n] \<Rightarrow> Ok \<lparr>dm_schema_version = read_nat v, dm_name = n\<rparr> | _ \<Rightarrow> Err ''invalid'')
     (\<lambda>p. enc_tokens [kdf_name p, kdf_salt p, show_nat (kdf_mem_kib p), show_nat (kdf_iterations p),
        show_nat (kdf_parallelism p)])
     sample_kdf_of_json
     (\<lambda>w. enc_tokens [wa_alg w, wa_nonce w, wa_ciphertext w])
     (\<lambda>b. case dec_tokens [] b of
        Some [a, n, c] \<Rightarrow> Ok \<lparr>wa_alg = a, wa_nonce = n, wa_ciphertext = c\<rparr> | _ \<Rightarrow> Err ''invalid'')
     (\<lambda>w. enc_tokens [wrap_alg w, wrap_nonce w, wrap_ciphertext w])
     (\<lambda>b. case dec_tokens [] b of
        Some [a, n, c] \<Rightarrow> Ok \<lparr>wrap_alg = a, wrap_nonce = n, wrap_ciphertext = c\<rparr> | _ \<Rightarrow> Err ''invalid''))"

lemmas sample_account_libs_defs = sample_account_libs_def commit_libs.defs account_libs.defs

lemma sample_account_libs_ok:
  "aead_ok sample_account_libs" "sha256_ok sample_account_libs" "base64_ok sample_account_libs"
  "account_json_ok sample_account_libs" "phrase_lowercase_ok (to_lowercase sample_account_libs)"
  "argon2id sample_account_libs m i p pass salt = Ok (replicate 32 CHR ''k'')"
proof -
  show "aead_ok sample_account_libs" "sha256_ok sample_account_libs"
    using sample_commit_libs_ok(1,2)
    by (simp_all add: aead_ok_def sha256_ok_def sample_account_libs_defs sample_commit_libs_defs)
  show "base64_ok sample_account_libs"
    using sample_crypto_ok(3) by (simp add: base64_ok_def sample_account_libs_defs sample_commit_libs_defs sample_pack_defs)
  show "account_json_ok sample_account_libs"
    by (simp add: account_json_ok_def sample_account_libs_defs sample_kdf_of_json_def read_show_nat)
  show "phrase_lowercase_ok (to_lowercase sample_account_libs)"
    using phrase_lowercase_ok_ascii by (simp add: sample_account_libs_defs sample_commit_libs_defs)
  show "argon2id sample_account_libs m i p pass salt = Ok (replicate 32 CHR ''k'')"
    by (simp add: sample_account_libs_defs sample_commit_libs_defs sample_pack_defs sample_crypto_def)
qed

definition sample_kdf :: argon2id_kdf_params where
  "sample_kdf = \<lparr>kdf_name = ''argon2id'', kdf_salt = ''s'', kdf_mem_kib = 65536, kdf_iterations = 3, kdf_parallelism = 1\<rparr>"

lemma sample_phrases:
  "normalize_recovery_phrase (to_lowercase sample_account_libs) ''Abandon  ability'' = ''abandon ability''"
  "normalize_recovery_phrase (to_lowercase sample_account_libs) '' abandon ABILITY '' = ''abandon ability''"
proof -
  have lower: "to_lowercase sample_account_libs = to_ascii_lowercase"
    by (simp add: sample_account_libs_defs sample_commit_libs_defs)
  show "normalize_recovery_phrase (to_lowercase sample_account_libs) ''Abandon  ability'' = ''abandon ability''"
    "normalize_recovery_phrase (to_lowercase sample_account_libs) '' abandon ABILITY '' = ''abandon ability''"
    unfolding lower by code_simp+
qed

lemma sample_kek: "passphrase_kek sample_account_libs phrase sample_kdf = Ok (replicate 32 CHR ''k'')"
proof -
  have "base64_decode sample_account_libs b = Ok b" for b
    by (simp add: sample_account_libs_defs sample_commit_libs_defs sample_pack_defs sample_crypto_def)
  then show ?thesis by (simp add: passphrase_kek_def sample_kdf_def sample_account_libs_ok(6))
qed

theorem account_root_key_recoverable_witness:
  "\<exists>env. wrap_account_root_key_with_params sample_account_libs (replicate 24 nul) ''a'' ''recovery:v1'' 1
      (replicate 32 CHR ''x'') (normalize_recovery_phrase (to_lowercase sample_account_libs) ''Abandon  ability'')
      sample_kdf = Ok env \<and>
    unwrap_account_root_key_with_recovery_phrase sample_account_libs env '' abandon ABILITY '' = Ok (replicate 32 CHR ''x'')"
  by (rule account_root_key_recoverable [OF sample_account_libs_ok(1,3,5) _ _ _ sample_kek])
    (simp_all only: sample_phrases length_replicate list.distinct not_False_eq_True)

end
