(* ===== verification/Secure_Storage.thy ===== *)
theory Secure_Storage
  imports Sync_Crypto Rust_Text
begin

text \<open>
  Secrets in the keychain of the operating system: \<^verbatim>\<open>secure_storage.rs\<close> in a release build, the names of
  \<^verbatim>\<open>variant.rs\<close>, and the functions of \<^verbatim>\<open>sync/keys.rs\<close> that remember, read and forget the keys of a vault and
  of an account. The \<^verbatim>\<open>keyring\<close> crate is a parameter with its own state; \<open>keyring_ok\<close> is what its documentation
  promises. The file store that debug builds may use instead is left out.
\<close>

section \<open>Names\<close>

definition variant_suffix :: "string option \<Rightarrow> string" where
  "variant_suffix identifier =
     (if identifier = Some ''mom.kuku.app.dev'' then ''.dev''
      else if identifier = Some ''mom.kuku.app.preview'' then ''.preview''
      else [])"

definition keychain_service :: "string option \<Rightarrow> string \<Rightarrow> string" where
  "keychain_service identifier base = ''mom.kuku.desktop.'' @ base @ variant_suffix identifier"

definition sync_keychain_service :: "string option \<Rightarrow> string" where
  "sync_keychain_service identifier = keychain_service identifier ''sync-keys''"

definition workspace_key_account :: "string \<Rightarrow> string" where
  "workspace_key_account vault_id = ''vault:'' @ vault_id @ '':workspace-key:v1''"

definition passphrase_account :: "string \<Rightarrow> string" where
  "passphrase_account vault_id = ''vault:'' @ vault_id @ '':passphrase:v1''"

definition device_signing_key_account :: "string \<Rightarrow> string" where
  "device_signing_key_account vault_id = ''vault:'' @ vault_id @ '':device-signing-key:v1''"

definition device_encryption_key_account :: "string \<Rightarrow> string" where
  "device_encryption_key_account vault_id = ''vault:'' @ vault_id @ '':device-encryption-key:v1''"

definition account_root_key_account :: "string \<Rightarrow> string" where
  "account_root_key_account account_key_id = ''sync-account:'' @ account_key_id @ '':root-key:v1''"

definition account_recovery_phrase_account :: "string \<Rightarrow> string" where
  "account_recovery_phrase_account account_key_id =
     ''sync-account:'' @ account_key_id @ '':recovery-phrase:v1''"

section \<open>The keyring\<close>

datatype keyring_error = NoEntry | KeyringFailure string

record 'k keyring =
  kr_new :: "string \<Rightarrow> string \<Rightarrow> (unit, string) result"
  kr_get_password :: "string \<Rightarrow> string \<Rightarrow> 'k \<Rightarrow> (string, keyring_error) result"
  kr_set_password :: "string \<Rightarrow> string \<Rightarrow> string \<Rightarrow> 'k \<Rightarrow> (unit, string) result \<times> 'k"
  kr_delete_credential :: "string \<Rightarrow> string \<Rightarrow> 'k \<Rightarrow> (unit, keyring_error) result \<times> 'k"

text \<open>
  What the crate documents: a password that was set is the one that is read, a deleted or absent one is not
  there, and no call touches another entry.
\<close>

definition keyring_ok :: "'k keyring \<Rightarrow> bool" where
  "keyring_ok K \<longleftrightarrow>
     (\<forall>s a v k k'. kr_set_password K s a v k = (Ok (), k') \<longrightarrow> kr_get_password K s a k' = Ok v) \<and>
     (\<forall>s a k r k'. kr_delete_credential K s a k = (r, k') \<longrightarrow> r = Ok () \<or> r = Err NoEntry \<longrightarrow>
        kr_get_password K s a k' = Err NoEntry) \<and>
     (\<forall>s a v k s' a'. (s', a') \<noteq> (s, a) \<longrightarrow>
        kr_get_password K s' a' (snd (kr_set_password K s a v k)) = kr_get_password K s' a' k) \<and>
     (\<forall>s a k s' a'. (s', a') \<noteq> (s, a) \<longrightarrow>
        kr_get_password K s' a' (snd (kr_delete_credential K s a k)) = kr_get_password K s' a' k)"

datatype secure_storage_error = StoreError string | SecretNotFound

definition KEYRING_VALUE_PREFIX :: string where "KEYRING_VALUE_PREFIX = ''kuku-secure:v1:''"

definition encode_keyring_value :: "'z crypto_libs_scheme \<Rightarrow> bytes \<Rightarrow> string" where
  "encode_keyring_value L content = KEYRING_VALUE_PREFIX @ base64_encode L content"

definition decode_keyring_value ::
    "'z crypto_libs_scheme \<Rightarrow> string \<Rightarrow> (bytes, secure_storage_error) result" where
  "decode_keyring_value L content =
     (if prefix KEYRING_VALUE_PREFIX content
      then map_err (\<lambda>e. StoreError (''invalid keyring payload encoding: '' @ e))
             (base64_decode L (drop (length KEYRING_VALUE_PREFIX) content))
      else Ok content)"

definition open_entry :: "'k keyring \<Rightarrow> string \<Rightarrow> string \<Rightarrow> (unit, secure_storage_error) result" where
  "open_entry K service account =
     map_err (\<lambda>e. StoreError (''failed to open keyring: '' @ e)) (kr_new K service account)"

definition read_keyring ::
    "'z crypto_libs_scheme \<Rightarrow> 'k keyring \<Rightarrow> string \<Rightarrow> string \<Rightarrow> 'k \<Rightarrow> (bytes option, secure_storage_error) result" where
  "read_keyring L K service account k =
     and_then (open_entry K service account) (\<lambda>_.
       case kr_get_password K service account k of
         Ok content \<Rightarrow> and_then (decode_keyring_value L content) (\<lambda>b. Ok (Some b))
       | Err NoEntry \<Rightarrow> Ok None
       | Err (KeyringFailure e) \<Rightarrow> Err (StoreError (''failed to read keyring: '' @ e)))"

definition write_keyring ::
    "'z crypto_libs_scheme \<Rightarrow> 'k keyring \<Rightarrow> string \<Rightarrow> string \<Rightarrow> bytes \<Rightarrow> 'k
      \<Rightarrow> (unit, secure_storage_error) result \<times> 'k" where
  "write_keyring L K service account content k =
     (case open_entry K service account of
        Err e \<Rightarrow> (Err e, k)
      | Ok _ \<Rightarrow>
          let (r, k) = kr_set_password K service account (encode_keyring_value L content) k
          in (map_err (\<lambda>e. StoreError (''failed to write keyring: '' @ e)) r, k))"

definition delete_keyring ::
    "'k keyring \<Rightarrow> string \<Rightarrow> string \<Rightarrow> 'k \<Rightarrow> (unit, secure_storage_error) result \<times> 'k" where
  "delete_keyring K service account k =
     (case open_entry K service account of
        Err e \<Rightarrow> (Err e, k)
      | Ok _ \<Rightarrow>
          let (r, k) = kr_delete_credential K service account k
          in (case r of
                Ok _ \<Rightarrow> Ok ()
              | Err NoEntry \<Rightarrow> Err SecretNotFound
              | Err (KeyringFailure e) \<Rightarrow> Err (StoreError (''failed to delete keyring: '' @ e)), k))"

section \<open>The keys of vaults and accounts\<close>

text \<open>The build's identifier, the keyring and the libraries, as the functions of \<^verbatim>\<open>sync/keys.rs\<close> find them.\<close>

record 'k key_store =
  ks_identifier :: "string option"
  ks_keyring :: "'k keyring"

fun secure_storage_error_of :: "secure_storage_error \<Rightarrow> sync_error" where
  "secure_storage_error_of (StoreError message) = Storage message"
| "secure_storage_error_of SecretNotFound = Storage ''key not found''"

definition read_secret ::
    "'z crypto_libs_scheme \<Rightarrow> 'k key_store \<Rightarrow> string \<Rightarrow> 'k \<Rightarrow> bytes option sync_result" where
  "read_secret L S account k =
     map_err secure_storage_error_of
       (read_keyring L (ks_keyring S) (sync_keychain_service (ks_identifier S)) account k)"

definition write_secret ::
    "'z crypto_libs_scheme \<Rightarrow> 'k key_store \<Rightarrow> string \<Rightarrow> bytes \<Rightarrow> 'k \<Rightarrow> unit sync_result \<times> 'k" where
  "write_secret L S account content k =
     (let (r, k) = write_keyring L (ks_keyring S) (sync_keychain_service (ks_identifier S)) account content k
      in (map_err secure_storage_error_of r, k))"

definition forget_secret :: "'k key_store \<Rightarrow> string \<Rightarrow> 'k \<Rightarrow> unit sync_result \<times> 'k" where
  "forget_secret S account k =
     (let (r, k) = delete_keyring (ks_keyring S) (sync_keychain_service (ks_identifier S)) account k
      in (case r of
            Ok _ \<Rightarrow> Ok ()
          | Err SecretNotFound \<Rightarrow> Ok ()
          | Err error \<Rightarrow> Err (secure_storage_error_of error), k))"

definition read_key ::
    "'z crypto_libs_scheme \<Rightarrow> 'k key_store \<Rightarrow> string \<Rightarrow> string \<Rightarrow> 'k \<Rightarrow> symmetric_key option sync_result" where
  "read_key L S account message k =
     and_then (read_secret L S account k) (\<lambda>content.
       case content of
         None \<Rightarrow> Ok None
       | Some b \<Rightarrow> if length b = 32 then Ok (Some b) else Err (Crypto message))"

definition read_text ::
    "'z crypto_libs_scheme \<Rightarrow> 'k key_store \<Rightarrow> string \<Rightarrow> string \<Rightarrow> 'k \<Rightarrow> string option sync_result" where
  "read_text L S account message k =
     and_then (read_secret L S account k) (\<lambda>content.
       case content of
         None \<Rightarrow> Ok None
       | Some b \<Rightarrow> if utf8_valid b then Ok (Some b) else Err (Crypto message))"

definition remember_account_root_key ::
    "'z crypto_libs_scheme \<Rightarrow> 'k key_store \<Rightarrow> string \<Rightarrow> symmetric_key \<Rightarrow> 'k \<Rightarrow> unit sync_result \<times> 'k" where
  "remember_account_root_key L S account_key_id = write_secret L S (account_root_key_account account_key_id)"

definition read_account_root_key ::
    "'z crypto_libs_scheme \<Rightarrow> 'k key_store \<Rightarrow> string \<Rightarrow> 'k \<Rightarrow> symmetric_key option sync_result" where
  "read_account_root_key L S account_key_id =
     read_key L S (account_root_key_account account_key_id) ''remembered account root key has invalid length''"

definition remember_account_recovery_phrase ::
    "'z crypto_libs_scheme \<Rightarrow> 'k key_store \<Rightarrow> string \<Rightarrow> string \<Rightarrow> 'k \<Rightarrow> unit sync_result \<times> 'k" where
  "remember_account_recovery_phrase L S account_key_id =
     write_secret L S (account_recovery_phrase_account account_key_id)"

definition read_account_recovery_phrase ::
    "'z crypto_libs_scheme \<Rightarrow> 'k key_store \<Rightarrow> string \<Rightarrow> 'k \<Rightarrow> string option sync_result" where
  "read_account_recovery_phrase L S account_key_id =
     read_text L S (account_recovery_phrase_account account_key_id) ''remembered recovery phrase is not valid UTF-8''"

definition remember_workspace_key ::
    "'z crypto_libs_scheme \<Rightarrow> 'k key_store \<Rightarrow> string \<Rightarrow> symmetric_key \<Rightarrow> 'k \<Rightarrow> unit sync_result \<times> 'k" where
  "remember_workspace_key L S vault_id = write_secret L S (workspace_key_account vault_id)"

definition read_remembered_workspace_key ::
    "'z crypto_libs_scheme \<Rightarrow> 'k key_store \<Rightarrow> string \<Rightarrow> 'k \<Rightarrow> symmetric_key option sync_result" where
  "read_remembered_workspace_key L S vault_id =
     read_key L S (workspace_key_account vault_id) ''remembered workspace key has invalid length''"

definition forget_workspace_key :: "'k key_store \<Rightarrow> string \<Rightarrow> 'k \<Rightarrow> unit sync_result \<times> 'k" where
  "forget_workspace_key S vault_id = forget_secret S (workspace_key_account vault_id)"

definition remember_passphrase ::
    "'z crypto_libs_scheme \<Rightarrow> 'k key_store \<Rightarrow> string \<Rightarrow> string \<Rightarrow> 'k \<Rightarrow> unit sync_result \<times> 'k" where
  "remember_passphrase L S vault_id = write_secret L S (passphrase_account vault_id)"

definition read_remembered_passphrase ::
    "'z crypto_libs_scheme \<Rightarrow> 'k key_store \<Rightarrow> string \<Rightarrow> 'k \<Rightarrow> string option sync_result" where
  "read_remembered_passphrase L S vault_id =
     read_text L S (passphrase_account vault_id) ''remembered passphrase is not valid UTF-8''"

definition forget_passphrase :: "'k key_store \<Rightarrow> string \<Rightarrow> 'k \<Rightarrow> unit sync_result \<times> 'k" where
  "forget_passphrase S vault_id = forget_secret S (passphrase_account vault_id)"

definition remember_device_signing_key ::
    "'z crypto_libs_scheme \<Rightarrow> 'k key_store \<Rightarrow> string \<Rightarrow> bytes \<Rightarrow> 'k \<Rightarrow> unit sync_result \<times> 'k" where
  "remember_device_signing_key L S vault_id = write_secret L S (device_signing_key_account vault_id)"

definition read_device_signing_key ::
    "'z crypto_libs_scheme \<Rightarrow> 'k key_store \<Rightarrow> string \<Rightarrow> 'k \<Rightarrow> bytes option sync_result" where
  "read_device_signing_key L S vault_id =
     read_key L S (device_signing_key_account vault_id) ''remembered device signing key has invalid length''"

definition forget_device_signing_key :: "'k key_store \<Rightarrow> string \<Rightarrow> 'k \<Rightarrow> unit sync_result \<times> 'k" where
  "forget_device_signing_key S vault_id = forget_secret S (device_signing_key_account vault_id)"

definition unlock_workspace_key_for_vault ::
    "'z crypto_libs_scheme \<Rightarrow> 'k key_store \<Rightarrow> string \<Rightarrow> passphrase_key_envelope \<Rightarrow> string \<Rightarrow> 'k
      \<Rightarrow> (symmetric_key \<times> workspace_key_source) sync_result" where
  "unlock_workspace_key_for_vault L S vault_id envelope passphrase k =
     and_then (read_remembered_workspace_key L S vault_id k) (\<lambda>remembered.
       unlock_workspace_key L remembered envelope passphrase)"

lemmas key_store_defs =
  remember_account_root_key_def read_account_root_key_def remember_account_recovery_phrase_def
  read_account_recovery_phrase_def remember_workspace_key_def read_remembered_workspace_key_def
  forget_workspace_key_def remember_passphrase_def read_remembered_passphrase_def forget_passphrase_def
  remember_device_signing_key_def read_device_signing_key_def forget_device_signing_key_def

section \<open>The accounts do not clash\<close>

datatype secret =
    WorkspaceKey string | PassphraseOf string | SigningKey string | EncryptionKey string
  | RootKey string | RecoveryPhrase string

fun secret_account :: "secret \<Rightarrow> string" where
  "secret_account (WorkspaceKey v) = workspace_key_account v"
| "secret_account (PassphraseOf v) = passphrase_account v"
| "secret_account (SigningKey v) = device_signing_key_account v"
| "secret_account (EncryptionKey v) = device_encryption_key_account v"
| "secret_account (RootKey a) = account_root_key_account a"
| "secret_account (RecoveryPhrase a) = account_recovery_phrase_account a"

lemmas account_defs =
  workspace_key_account_def passphrase_account_def device_signing_key_account_def
  device_encryption_key_account_def account_root_key_account_def account_recovery_phrase_account_def

lemma suffix_differs: "(xs @ s = ys @ t) \<Longrightarrow> length t \<le> length s \<Longrightarrow> drop (length s - length t) s = t"
proof -
  assume eq: "xs @ s = ys @ t" and le: "length t \<le> length s"
  then have "drop (length (xs @ s) - length t) (xs @ s) = t" by simp
  then show "drop (length s - length t) s = t" using le by simp
qed

lemma secret_account_inject: "secret_account a = secret_account b \<longleftrightarrow> a = b"
proof
  assume "secret_account a = secret_account b"
  then show "a = b"
    by (cases a; cases b) (auto simp: account_defs simp flip: append_assoc dest: suffix_differs)
qed simp

section \<open>The store as a map from secrets\<close>

lemma decode_encode_keyring [simp]:
  "base64_ok L \<Longrightarrow> decode_keyring_value L (encode_keyring_value L b) = Ok b"
  by (simp add: decode_keyring_value_def encode_keyring_value_def base64_ok_def)

lemma write_secret_Ok:
  "write_secret L S account b k = (Ok (), k') \<longleftrightarrow>
     open_entry (ks_keyring S) (sync_keychain_service (ks_identifier S)) account = Ok () \<and>
     kr_set_password (ks_keyring S) (sync_keychain_service (ks_identifier S)) account
       (encode_keyring_value L b) k = (Ok (), k')"
  by (auto simp: write_secret_def write_keyring_def Let_def result_simps split: prod.splits result.splits)

lemma open_entry_not_found [simp]: "open_entry K service account \<noteq> Err SecretNotFound"
  by (simp add: open_entry_def result_simps)

lemma write_secret_state:
  "snd (write_secret L S account b k) = k \<or>
   snd (write_secret L S account b k) =
     snd (kr_set_password (ks_keyring S) (sync_keychain_service (ks_identifier S)) account (encode_keyring_value L b) k)"
  by (auto simp: write_secret_def write_keyring_def Let_def split: prod.splits result.splits)

lemma forget_secret_state:
  "snd (forget_secret S account k) = k \<or>
   snd (forget_secret S account k) =
     snd (kr_delete_credential (ks_keyring S) (sync_keychain_service (ks_identifier S)) account k)"
  by (auto simp: forget_secret_def delete_keyring_def Let_def split: prod.splits result.splits)

lemma read_written_secret:
  assumes "keyring_ok (ks_keyring S)" "base64_ok L" "write_secret L S account b k = (Ok (), k')"
  shows "read_secret L S account k' = Ok (Some b)"
  using assms by (auto simp: write_secret_Ok read_secret_def read_keyring_def keyring_ok_def)

lemma read_other_secret:
  assumes "keyring_ok (ks_keyring S)" "account' \<noteq> account"
  shows "read_secret L S account' (snd (write_secret L S account b k)) = read_secret L S account' k"
    and "read_secret L S account' (snd (forget_secret S account k)) = read_secret L S account' k"
proof -
  have "kr_get_password (ks_keyring S) s account' (snd (kr_set_password (ks_keyring S) s account v k)) =
      kr_get_password (ks_keyring S) s account' k"
    "kr_get_password (ks_keyring S) s account' (snd (kr_delete_credential (ks_keyring S) s account k)) =
      kr_get_password (ks_keyring S) s account' k" for s v
    using assms by (auto simp: keyring_ok_def)
  then show "read_secret L S account' (snd (write_secret L S account b k)) = read_secret L S account' k"
    "read_secret L S account' (snd (forget_secret S account k)) = read_secret L S account' k"
    using write_secret_state [of L S account b k] forget_secret_state [of S account k]
    by (auto simp: read_secret_def read_keyring_def)
qed

lemma read_forgotten_secret:
  assumes "keyring_ok (ks_keyring S)" "forget_secret S account k = (Ok (), k')"
  shows "read_secret L S account k' = Ok None"
proof -
  let ?s = "sync_keychain_service (ks_identifier S)"
  obtain r where "open_entry (ks_keyring S) ?s account = Ok ()"
    "kr_delete_credential (ks_keyring S) ?s account k = (r, k')" "r = Ok () \<or> r = Err NoEntry"
    using assms(2)
    by (auto simp: forget_secret_def delete_keyring_def Let_def
        split: prod.splits result.splits secure_storage_error.splits keyring_error.splits)
  moreover from this assms(1) have "kr_get_password (ks_keyring S) ?s account k' = Err NoEntry"
    by (auto simp: keyring_ok_def)
  ultimately show ?thesis by (simp add: read_secret_def read_keyring_def)
qed

text \<open>The contents of the keychain: what reading each secret gives. A successful call is one update of this map.\<close>

definition secrets :: "'z crypto_libs_scheme \<Rightarrow> 'k key_store \<Rightarrow> 'k \<Rightarrow> secret \<Rightarrow> bytes option sync_result" where
  "secrets L S k x = read_secret L S (secret_account x) k"

lemma secrets_write:
  assumes "keyring_ok (ks_keyring S)" "base64_ok L" "write_secret L S (secret_account x) b k = (Ok (), k')"
  shows "secrets L S k' = (secrets L S k)(x := Ok (Some b))"
proof
  fix y
  show "secrets L S k' y = ((secrets L S k)(x := Ok (Some b))) y"
    using read_written_secret [OF assms] read_other_secret(1) [OF assms(1), of "secret_account y" "secret_account x" L b k] assms(3)
    by (auto simp: secrets_def secret_account_inject)
qed

lemma secrets_forget:
  assumes "keyring_ok (ks_keyring S)" "forget_secret S (secret_account x) k = (Ok (), k')"
  shows "secrets L S k' = (secrets L S k)(x := Ok None)"
proof
  fix y
  show "secrets L S k' y = ((secrets L S k)(x := Ok None)) y"
    using read_forgotten_secret [OF assms] read_other_secret(2) [OF assms(1), of "secret_account y" "secret_account x" L k] assms(2)
    by (auto simp: secrets_def secret_account_inject)
qed

lemma secrets_remember:
  assumes "keyring_ok (ks_keyring S)" "base64_ok L"
  shows "remember_account_root_key L S i b k = (Ok (), k') \<Longrightarrow> secrets L S k' = (secrets L S k)(RootKey i := Ok (Some b))"
    and "remember_account_recovery_phrase L S i b k = (Ok (), k') \<Longrightarrow>
      secrets L S k' = (secrets L S k)(RecoveryPhrase i := Ok (Some b))"
    and "remember_workspace_key L S i b k = (Ok (), k') \<Longrightarrow> secrets L S k' = (secrets L S k)(WorkspaceKey i := Ok (Some b))"
    and "remember_passphrase L S i b k = (Ok (), k') \<Longrightarrow> secrets L S k' = (secrets L S k)(PassphraseOf i := Ok (Some b))"
    and "remember_device_signing_key L S i b k = (Ok (), k') \<Longrightarrow>
      secrets L S k' = (secrets L S k)(SigningKey i := Ok (Some b))"
    and "forget_workspace_key S i k = (Ok (), k') \<Longrightarrow> secrets L S k' = (secrets L S k)(WorkspaceKey i := Ok None)"
    and "forget_passphrase S i k = (Ok (), k') \<Longrightarrow> secrets L S k' = (secrets L S k)(PassphraseOf i := Ok None)"
    and "forget_device_signing_key S i k = (Ok (), k') \<Longrightarrow> secrets L S k' = (secrets L S k)(SigningKey i := Ok None)"
  by (simp_all only: key_store_defs secret_account.simps [symmetric])
    (rule secrets_write [OF assms] secrets_forget [OF assms(1)], assumption)+

lemma read_by_secrets:
  "read_remembered_workspace_key L S i k =
     and_then (secrets L S k (WorkspaceKey i)) (\<lambda>content. case content of None \<Rightarrow> Ok None
       | Some b \<Rightarrow> if length b = 32 then Ok (Some b) else Err (Crypto ''remembered workspace key has invalid length''))"
  "read_remembered_passphrase L S i k =
     and_then (secrets L S k (PassphraseOf i)) (\<lambda>content. case content of None \<Rightarrow> Ok None
       | Some b \<Rightarrow> if utf8_valid b then Ok (Some b) else Err (Crypto ''remembered passphrase is not valid UTF-8''))"
  "read_device_signing_key L S i k =
     and_then (secrets L S k (SigningKey i)) (\<lambda>content. case content of None \<Rightarrow> Ok None
       | Some b \<Rightarrow> if length b = 32 then Ok (Some b) else Err (Crypto ''remembered device signing key has invalid length''))"
  by (simp_all only: key_store_defs read_key_def read_text_def secrets_def secret_account.simps)

text \<open>
  C22. The keychain as the engine uses it is a map from the kinds of secrets to their contents: a secret that was
  stored is read back as it was, one that was forgotten is absent, and storing or forgetting one
  leaves the secrets of every other vault, account and kind as they were, also when the call fails.
\<close>

theorem key_store_is_map:
  assumes "keyring_ok (ks_keyring S)" "base64_ok L"
  shows "(write_secret L S (secret_account x) b k = (Ok (), k') \<longrightarrow> read_secret L S (secret_account x) k' = Ok (Some b)) \<and>
    (forget_secret S (secret_account x) k = (Ok (), k') \<longrightarrow> read_secret L S (secret_account x) k' = Ok None) \<and>
    (y \<noteq> x \<longrightarrow>
      read_secret L S (secret_account y) (snd (write_secret L S (secret_account x) b k)) = read_secret L S (secret_account y) k \<and>
      read_secret L S (secret_account y) (snd (forget_secret S (secret_account x) k)) = read_secret L S (secret_account y) k)"
proof (intro conjI impI)
  assume "y \<noteq> x"
  then have "secret_account y \<noteq> secret_account x" by (simp add: secret_account_inject)
  then show "read_secret L S (secret_account y) (snd (write_secret L S (secret_account x) b k)) =
      read_secret L S (secret_account y) k"
    "read_secret L S (secret_account y) (snd (forget_secret S (secret_account x) k)) =
      read_secret L S (secret_account y) k"
    by (rule read_other_secret [OF assms(1)])+
qed (rule read_written_secret [OF assms] read_forgotten_secret [OF assms(1)]; assumption)+

section \<open>A keyring that satisfies the assumptions\<close>

type_synonym sample_ring = "(string \<times> string) \<Rightarrow> string option"

definition sample_keyring :: "sample_ring keyring" where
  "sample_keyring =
     \<lparr>kr_new = (\<lambda>s a. Ok ()),
      kr_get_password = (\<lambda>s a k. case k (s, a) of Some v \<Rightarrow> Ok v | None \<Rightarrow> Err NoEntry),
      kr_set_password = (\<lambda>s a v k. (Ok (), k((s, a) \<mapsto> v))),
      kr_delete_credential = (\<lambda>s a k. (if k (s, a) = None then Err NoEntry else Ok (), k((s, a) := None)))\<rparr>"

lemma sample_keyring_ok: "keyring_ok sample_keyring"
  by (auto simp: keyring_ok_def sample_keyring_def split: if_splits)

definition sample_store :: "sample_ring key_store" where
  "sample_store = \<lparr>ks_identifier = None, ks_keyring = sample_keyring\<rparr>"

theorem key_store_is_map_witness:
  "\<exists>k'. write_secret sample_crypto sample_store (secret_account (WorkspaceKey ''v'')) ''key'' Map.empty = (Ok (), k') \<and>
     read_secret sample_crypto sample_store (secret_account (WorkspaceKey ''v'')) k' = Ok (Some ''key'')"
proof -
  have ok: "keyring_ok (ks_keyring sample_store)" by (simp add: sample_store_def sample_keyring_ok)
  obtain k' where w: "write_secret sample_crypto sample_store (secret_account (WorkspaceKey ''v'')) ''key'' Map.empty = (Ok (), k')"
    by (simp add: write_secret_Ok sample_store_def sample_keyring_def open_entry_def)
  from key_store_is_map [OF ok sample_crypto_ok(3), of "WorkspaceKey ''v''" "''key''" Map.empty k' "WorkspaceKey ''v''"] w
  have "read_secret sample_crypto sample_store (secret_account (WorkspaceKey ''v'')) k' = Ok (Some ''key'')" by blast
  with w show ?thesis by (intro exI conjI)
qed

end
