(* ===== verification/Sync_Config.thy ===== *)
theory Sync_Config
  imports Sync_Account Secure_Storage Sync_State Vault_Fs
begin

text \<open>
  The settings file of a vault, \<^verbatim>\<open>.kuku/sync.json\<close> (\<^verbatim>\<open>sync/vault_config.rs\<close>): reading with the version check, writing,
  validation and removal. JSON is a parameter. The directory \<^verbatim>\<open>.kuku\<close> is taken not to be a symbolic link, and
  the operating system fails only where the tree model has an obstacle; the text of such a
  failure (\<open>io\<close>) and the time of writing are arguments.
\<close>

section \<open>Data\<close>

record sync_remote_status =
  rms_workspace_id :: string
  rms_remote_head_commit_id :: string
  rms_remote_head_version :: int
  rms_latest_checkpoint_commit_id :: string
  rms_local_remote_head_commit_id :: "string option"
  rms_local_head_commit_id :: "string option"
  rms_has_remote_changes :: bool
  rms_checked_at_ms :: int

record sync_vault_secure_refs =
  sr_account_root_key_account :: "string option"
  sr_account_recovery_phrase_account :: "string option"
  sr_workspace_key_account :: string
  sr_passphrase_account :: string
  sr_device_signing_key_account :: string

record sync_vault_status_file =
  vsf_last_synced_at_ms :: "int option"
  vsf_remote :: "sync_remote_status option"

record sync_vault_config_file =
  vc_schema_version :: nat
  vc_vault_id :: string
  vc_account_key_id :: "string option"
  vc_remote_workspace_id :: string
  vc_workspace_name :: "string option"
  vc_device_id :: string
  vc_device_name :: "string option"
  vc_enabled :: bool
  vc_remember_workspace_key :: bool
  vc_secure :: sync_vault_secure_refs
  vc_status :: sync_vault_status_file
  vc_updated_at_ms :: int

record config_libs = account_libs +
  json_config_file :: "sync_vault_config_file \<Rightarrow> bytes"
  config_file_of_json :: "bytes \<Rightarrow> (sync_vault_config_file, string) result"
  config_version_of_json :: "bytes \<Rightarrow> (nat, string) result"

definition config_json_ok :: "'z config_libs_scheme \<Rightarrow> bool" where
  "config_json_ok L \<longleftrightarrow>
     (\<forall>c. vc_schema_version c < 2 ^ 32 \<longrightarrow>
        config_file_of_json L (json_config_file L c) = Ok c \<and>
        config_version_of_json L (json_config_file L c) = Ok (vc_schema_version c))"

section \<open>Operations\<close>

definition CONFIG_DIR_NAME :: string where "CONFIG_DIR_NAME = ''.kuku''"
definition CONFIG_FILE_NAME :: string where "CONFIG_FILE_NAME = ''sync.json''"
definition SCHEMA_VERSION :: nat where "SCHEMA_VERSION = 2"

text \<open>Relative to the vault root.\<close>

definition sync_config_path :: fpath where
  "sync_config_path = [CONFIG_DIR_NAME, CONFIG_FILE_NAME]"

definition default_status_file :: sync_vault_status_file where
  "default_status_file = \<lparr>vsf_last_synced_at_ms = None, vsf_remote = None\<rparr>"

definition unsupported_version :: "nat \<Rightarrow> sync_error" where
  "unsupported_version v = UnsupportedVersion (min v 255)"

definition validate_config_file :: "sync_vault_config_file \<Rightarrow> unit sync_result" where
  "validate_config_file config =
     (if vc_schema_version config \<noteq> SCHEMA_VERSION then Err (unsupported_version (vc_schema_version config))
      else if blank (vc_vault_id config)
      then Err (InvalidArgument ''vault sync config is missing vault_id'')
      else if blank (vc_remote_workspace_id config)
      then Err (InvalidArgument ''vault sync config is missing remote_workspace_id'')
      else if blank (vc_device_id config)
      then Err (InvalidArgument ''vault sync config is missing device_id'')
      else if (case vc_account_key_id config of Some a \<Rightarrow> blank a | None \<Rightarrow> False)
      then Err (InvalidArgument ''vault sync config has empty account_key_id'')
      else if (case vsf_remote (vc_status config) of
                 Some remote \<Rightarrow> rms_workspace_id remote \<noteq> vc_remote_workspace_id config | None \<Rightarrow> False)
      then Err (InvalidArgument ''vault sync status remote workspace does not match config'')
      else Ok ())"

definition delete_sync_config :: "string \<Rightarrow> fpath \<Rightarrow> fnode \<Rightarrow> unit sync_result \<times> fnode" where
  "delete_sync_config io root fs =
     (case fs_remove sync_config_path fs of
        Ok fs \<Rightarrow> (Ok (), fs)
      | Err NotFound \<Rightarrow> (Ok (), fs)
      | Err RemoveFailed \<Rightarrow>
          (Err (Storage (''failed to delete vault sync config '' @ display_path (root @ sync_config_path) @
             '': '' @ io)), fs))"

definition read_sync_config_bytes :: "string \<Rightarrow> fpath \<Rightarrow> fnode \<Rightarrow> bytes option sync_result" where
  "read_sync_config_bytes io root fs =
     (if \<not> fs_exists fs sync_config_path then Ok None
      else map_err (\<lambda>_. Storage (''failed to read vault sync config '' @ display_path (root @ sync_config_path) @
             '': '' @ io)) (ok_or (map_option Some (fs_read fs sync_config_path)) ()))"

definition read_sync_config ::
    "'z config_libs_scheme \<Rightarrow> string \<Rightarrow> fpath \<Rightarrow> fnode \<Rightarrow> sync_vault_config_file option sync_result" where
  "read_sync_config L io root fs =
     and_then (read_sync_config_bytes io root fs) (\<lambda>content.
     case content of
       None \<Rightarrow> Ok None
     | Some b \<Rightarrow>
         and_then (json_result (config_version_of_json L b)) (\<lambda>version.
         if version \<noteq> SCHEMA_VERSION then Err (unsupported_version version)
         else
           and_then (json_result (config_file_of_json L b)) (\<lambda>config.
           and_then (validate_config_file config) (\<lambda>_. Ok (Some config)))))"

definition read_sync_config_file_unchecked ::
    "'z config_libs_scheme \<Rightarrow> string \<Rightarrow> fpath \<Rightarrow> fnode \<Rightarrow> sync_vault_config_file option sync_result" where
  "read_sync_config_file_unchecked L io root fs =
     and_then (read_sync_config_bytes io root fs) (\<lambda>content.
     case content of
       None \<Rightarrow> Ok None
     | Some b \<Rightarrow> and_then (json_result (config_file_of_json L b)) (\<lambda>config. Ok (Some config)))"

text \<open>The keys of a vault are forgotten one after the other; the first failure stops.\<close>

definition forget_vault_keys :: "'k key_store \<Rightarrow> string \<Rightarrow> 'k \<Rightarrow> unit sync_result \<times> 'k" where
  "forget_vault_keys S vault_id k =
     try_then (forget_workspace_key S vault_id k) (\<lambda>_ k.
     try_then (forget_passphrase S vault_id k) (\<lambda>_ k.
       forget_device_signing_key S vault_id k))"

definition reset_sync_config ::
    "'z config_libs_scheme \<Rightarrow> 'k key_store \<Rightarrow> string \<Rightarrow> fpath \<Rightarrow> fnode \<times> 'k \<Rightarrow> unit sync_result \<times> fnode \<times> 'k" where
  "reset_sync_config L S io root = (\<lambda>(fs, k).
     let (r, k) =
       (case read_sync_config_file_unchecked L io root fs of
          Ok (Some config) \<Rightarrow>
            (case trimmed_optional (Some (vc_vault_id config)) of
               Some vault_id \<Rightarrow> forget_vault_keys S vault_id k
             | None \<Rightarrow> (Ok (), k))
        | _ \<Rightarrow> (Ok (), k))
     in case r of
          Err e \<Rightarrow> (Err e, fs, k)
        | Ok _ \<Rightarrow> let (r, fs) = delete_sync_config io root fs in (r, fs, k))"

definition status_for_workspace :: "sync_vault_status_file \<Rightarrow> string \<Rightarrow> sync_vault_status_file" where
  "status_for_workspace st workspace_id =
     (case vsf_remote st of
        Some remote \<Rightarrow> if rms_workspace_id remote = workspace_id then st else default_status_file
      | None \<Rightarrow> st)"

definition secure_refs :: "string \<Rightarrow> string option \<Rightarrow> sync_vault_secure_refs" where
  "secure_refs vault_id account_key_id =
     \<lparr>sr_account_root_key_account = map_option account_root_key_account account_key_id,
      sr_account_recovery_phrase_account = map_option account_recovery_phrase_account account_key_id,
      sr_workspace_key_account = workspace_key_account vault_id,
      sr_passphrase_account = passphrase_account vault_id,
      sr_device_signing_key_account = device_signing_key_account vault_id\<rparr>"

definition config_file_from_runtime ::
    "sync_vault_config \<Rightarrow> bool \<Rightarrow> int \<Rightarrow> sync_vault_status_file \<Rightarrow> sync_vault_config_file sync_result" where
  "config_file_from_runtime config en updated_at st =
     (if blank (cfg_vault_id config) then Err (InvalidArgument ''vault_id is required'')
      else if blank (cfg_remote_workspace_id config)
      then Err (InvalidArgument ''remote_workspace_id is required'')
      else if blank (cfg_device_id config) then Err (InvalidArgument ''device_id is required'')
      else
        let workspace_id = trim (cfg_remote_workspace_id config);
            account_key_id = trimmed_optional (cfg_account_key_id config)
        in Ok \<lparr>vc_schema_version = SCHEMA_VERSION, vc_vault_id = trim (cfg_vault_id config),
               vc_account_key_id = account_key_id, vc_remote_workspace_id = workspace_id,
               vc_workspace_name = trimmed_optional (cfg_workspace_name config),
               vc_device_id = trim (cfg_device_id config),
               vc_device_name = trimmed_optional (cfg_device_name config), vc_enabled = en,
               vc_remember_workspace_key = cfg_remember_workspace_key config,
               vc_secure = secure_refs (trim (cfg_vault_id config)) account_key_id,
               vc_status = status_for_workspace st workspace_id, vc_updated_at_ms = updated_at\<rparr>)"

definition write_sync_config_with_status ::
    "'z config_libs_scheme \<Rightarrow> string \<Rightarrow> int \<Rightarrow> fpath \<Rightarrow> sync_vault_config \<Rightarrow> bool \<Rightarrow> int \<Rightarrow> sync_vault_status_file
      \<Rightarrow> fnode \<Rightarrow> sync_vault_config_file sync_result \<times> fnode" where
  "write_sync_config_with_status L io mtime root config en updated_at st fs =
     (case config_file_from_runtime config en updated_at st of
        Err e \<Rightarrow> (Err e, fs)
      | Ok config_file \<Rightarrow>
          (case fs_write sync_config_path (json_config_file L config_file) mtime (Some fs) of
             Some fs \<Rightarrow> (Ok config_file, fs)
           | None \<Rightarrow>
               (Err (Storage (if parent_blocked fs sync_config_path
                  then ''failed to create vault sync config directory '' @
                         display_path (root @ [CONFIG_DIR_NAME]) @ '': '' @ io
                  else ''failed to write vault sync config '' @ display_path (root @ sync_config_path) @ '': '' @ io)),
                fs)))"

definition write_sync_config ::
    "'z config_libs_scheme \<Rightarrow> string \<Rightarrow> int \<Rightarrow> fpath \<Rightarrow> sync_vault_config \<Rightarrow> bool \<Rightarrow> int \<Rightarrow> fnode
      \<Rightarrow> sync_vault_config_file sync_result \<times> fnode" where
  "write_sync_config L io mtime root config en updated_at fs =
     (case read_sync_config L io root fs of
        Err e \<Rightarrow> (Err e, fs)
      | Ok existing \<Rightarrow>
          let st = (case existing of
                Some file \<Rightarrow>
                  if vc_remote_workspace_id file = trim (cfg_remote_workspace_id config) then vc_status file
                  else default_status_file
              | None \<Rightarrow> default_status_file)
          in write_sync_config_with_status L io mtime root config en updated_at st fs)"

definition runtime_config_from_file :: "fpath \<Rightarrow> sync_vault_config_file \<Rightarrow> sync_vault_config" where
  "runtime_config_from_file root config =
     \<lparr>cfg_vault_id = vc_vault_id config, cfg_root_path = display_path root,
      cfg_account_key_id = vc_account_key_id config, cfg_remote_workspace_id = vc_remote_workspace_id config,
      cfg_workspace_name = vc_workspace_name config, cfg_device_id = vc_device_id config,
      cfg_device_name = vc_device_name config, cfg_remember_workspace_key = vc_remember_workspace_key config,
      cfg_passphrase = None\<rparr>"

section \<open>Properties\<close>

lemma status_for_workspace_matches:
  "\<not> (case vsf_remote (status_for_workspace st w) of Some r \<Rightarrow> rms_workspace_id r \<noteq> w | None \<Rightarrow> False)"
  by (simp add: status_for_workspace_def default_status_file_def split: option.splits)

lemma trimmed_optional_not_blank: "\<not> (case trimmed_optional v of Some a \<Rightarrow> blank a | None \<Rightarrow> False)"
  by (simp add: trimmed_optional_def blank_def split: option.splits)

lemma config_file_from_runtime_Ok:
  assumes "config_file_from_runtime config en updated_at st = Ok cfile"
  shows "\<not> blank (cfg_vault_id config)" "\<not> blank (cfg_remote_workspace_id config)" "\<not> blank (cfg_device_id config)"
    and "cfile = \<lparr>vc_schema_version = SCHEMA_VERSION, vc_vault_id = trim (cfg_vault_id config),
      vc_account_key_id = trimmed_optional (cfg_account_key_id config),
      vc_remote_workspace_id = trim (cfg_remote_workspace_id config),
      vc_workspace_name = trimmed_optional (cfg_workspace_name config),
      vc_device_id = trim (cfg_device_id config),
      vc_device_name = trimmed_optional (cfg_device_name config), vc_enabled = en,
      vc_remember_workspace_key = cfg_remember_workspace_key config,
      vc_secure = secure_refs (trim (cfg_vault_id config)) (trimmed_optional (cfg_account_key_id config)),
      vc_status = status_for_workspace st (trim (cfg_remote_workspace_id config)), vc_updated_at_ms = updated_at\<rparr>"
  using assms by (simp_all add: config_file_from_runtime_def Let_def split: if_split_asm)

lemma written_config_valid:
  assumes "config_file_from_runtime config en updated_at st = Ok cfile"
  shows "validate_config_file cfile = Ok ()"
proof -
  note made = config_file_from_runtime_Ok [OF assms]
  show ?thesis
    unfolding validate_config_file_def made(4) sync_vault_config_file.simps blank_trim
    by (simp only: made(1-3) status_for_workspace_matches trimmed_optional_not_blank if_False not_False_eq_True simp_thms)
qed

lemma config_path_written:
  assumes "fs_write sync_config_path b t (Some fs) = Some fs'"
  shows "read_sync_config_bytes io root fs' = Ok (Some b)"
proof -
  have "fs_read fs' sync_config_path = Some b"
    using fs_lookup_write_same [OF assms] by (simp add: fs_read_def)
  with existing_file_exists [OF this] show ?thesis by (simp add: read_sync_config_bytes_def)
qed

text \<open>The runtime configuration a settings file restores: the one it was written from, trimmed and without the passphrase.\<close>

definition stored_config :: "fpath \<Rightarrow> sync_vault_config \<Rightarrow> sync_vault_config" where
  "stored_config root config =
     config\<lparr>cfg_vault_id := trim (cfg_vault_id config), cfg_root_path := display_path root,
       cfg_account_key_id := trimmed_optional (cfg_account_key_id config),
       cfg_remote_workspace_id := trim (cfg_remote_workspace_id config),
       cfg_workspace_name := trimmed_optional (cfg_workspace_name config),
       cfg_device_id := trim (cfg_device_id config),
       cfg_device_name := trimmed_optional (cfg_device_name config), cfg_passphrase := None\<rparr>"

text \<open>
  Settings survive a restart: after they were written the file reads back as written and passes validation, the
  configuration it restores is the one written with its fields trimmed and without the passphrase,
  and every other file of the vault has its contents as before.
\<close>

theorem sync_config_round_trip:
  assumes "config_json_ok L"
    and "write_sync_config_with_status L io mtime root config en updated_at st fs = (Ok cfile, fs')"
  shows "read_sync_config L io' root fs' = Ok (Some cfile) \<and> vc_enabled cfile = en \<and>
    runtime_config_from_file root cfile = stored_config root config \<and>
    (\<forall>p. p \<noteq> sync_config_path \<longrightarrow> fs_read fs' p = fs_read fs p)"
proof -
  from assms(2) have made: "config_file_from_runtime config en updated_at st = Ok cfile"
    and w: "fs_write sync_config_path (json_config_file L cfile) mtime (Some fs) = Some fs'"
    by (simp_all add: write_sync_config_with_status_def split: result.split_asm option.split_asm)
  note c = config_file_from_runtime_Ok(4) [OF made]
  have v: "vc_schema_version cfile = SCHEMA_VERSION" "vc_enabled cfile = en"
    "runtime_config_from_file root cfile = stored_config root config"
    by (simp_all add: c runtime_config_from_file_def stored_config_def)
  have "config_file_of_json L (json_config_file L cfile) = Ok cfile"
    "config_version_of_json L (json_config_file L cfile) = Ok SCHEMA_VERSION"
    using assms(1) v(1) by (simp_all add: config_json_ok_def SCHEMA_VERSION_def)
  then have "read_sync_config L io' root fs' = Ok (Some cfile)"
    by (simp add: read_sync_config_def config_path_written [OF w] written_config_valid [OF made])
  moreover have "fs_read fs' p = fs_read fs p" if "p \<noteq> sync_config_path" for p
    using w that by (rule fs_read_write_other)
  ultimately show ?thesis using v by blast
qed

lemma deleted_config:
  assumes "delete_sync_config io root fs = (Ok (), fs')"
  shows "read_sync_config L io' root fs' = Ok None"
proof -
  have "\<not> fs_exists fs' sync_config_path"
    using assms fs_remove_gone [of sync_config_path fs]
    by (auto simp: delete_sync_config_def split: result.splits remove_error.splits)
  then show ?thesis by (simp add: read_sync_config_def read_sync_config_bytes_def)
qed

section \<open>An encoding that satisfies the assumptions\<close>

definition enc_opt :: "('a \<Rightarrow> string) \<Rightarrow> 'a option \<Rightarrow> string" where
  "enc_opt f v = enc_tokens (case v of None \<Rightarrow> [] | Some a \<Rightarrow> [f a])"

definition dec_opt :: "(string \<Rightarrow> 'a option) \<Rightarrow> string \<Rightarrow> 'a option option" where
  "dec_opt g s = (case dec_tokens [] s of
     Some [] \<Rightarrow> Some None | Some [t] \<Rightarrow> map_option Some (g t) | _ \<Rightarrow> None)"

lemma dec_enc_opt [simp]: "(\<And>a. g (f a) = Some a) \<Longrightarrow> dec_opt g (enc_opt f v) = Some v"
  by (cases v) (simp_all add: enc_opt_def dec_opt_def)

definition sample_remote_json :: "sync_remote_status \<Rightarrow> string" where
  "sample_remote_json r = enc_tokens
     [rms_workspace_id r, rms_remote_head_commit_id r, enc_int (rms_remote_head_version r),
      rms_latest_checkpoint_commit_id r, enc_opt id (rms_local_remote_head_commit_id r),
      enc_opt id (rms_local_head_commit_id r), if rms_has_remote_changes r then ''t'' else ''f'',
      enc_int (rms_checked_at_ms r)]"

definition sample_remote_of_json :: "string \<Rightarrow> sync_remote_status option" where
  "sample_remote_of_json s =
     (case dec_tokens [] s of
        Some [w, h, v, c, lr, lh, b, t] \<Rightarrow>
          (case (dec_opt Some lr, dec_opt Some lh) of
             (Some lr, Some lh) \<Rightarrow>
               Some \<lparr>rms_workspace_id = w, rms_remote_head_commit_id = h, rms_remote_head_version = dec_int v,
                 rms_latest_checkpoint_commit_id = c, rms_local_remote_head_commit_id = lr,
                 rms_local_head_commit_id = lh, rms_has_remote_changes = (b = ''t''), rms_checked_at_ms = dec_int t\<rparr>
           | _ \<Rightarrow> None)
      | _ \<Rightarrow> None)"

lemma sample_remote_round_trip [simp]: "sample_remote_of_json (sample_remote_json r) = Some r"
  by (simp add: sample_remote_of_json_def sample_remote_json_def)

definition sample_config_json :: "sync_vault_config_file \<Rightarrow> bytes" where
  "sample_config_json c = enc_tokens
     [show_nat (vc_schema_version c), vc_vault_id c, enc_opt id (vc_account_key_id c), vc_remote_workspace_id c,
      enc_opt id (vc_workspace_name c), vc_device_id c, enc_opt id (vc_device_name c),
      if vc_enabled c then ''t'' else ''f'', if vc_remember_workspace_key c then ''t'' else ''f'',
      enc_opt id (sr_account_root_key_account (vc_secure c)),
      enc_opt id (sr_account_recovery_phrase_account (vc_secure c)), sr_workspace_key_account (vc_secure c),
      sr_passphrase_account (vc_secure c), sr_device_signing_key_account (vc_secure c),
      enc_opt enc_int (vsf_last_synced_at_ms (vc_status c)), enc_opt sample_remote_json (vsf_remote (vc_status c)),
      enc_int (vc_updated_at_ms c)]"

definition sample_config_of_json :: "bytes \<Rightarrow> (sync_vault_config_file, string) result" where
  "sample_config_of_json s =
     (case dec_tokens [] s of
        Some [v, vid, acc, ws, wn, d, dn, en, rem, r1, r2, r3, r4, r5, ls, rm, u] \<Rightarrow>
          (case (dec_opt Some acc, dec_opt Some wn, dec_opt Some dn, dec_opt Some r1, dec_opt Some r2,
             dec_opt (Some \<circ> dec_int) ls, dec_opt sample_remote_of_json rm) of
             (Some acc, Some wn, Some dn, Some r1, Some r2, Some ls, Some rm) \<Rightarrow>
               Ok \<lparr>vc_schema_version = read_nat v, vc_vault_id = vid, vc_account_key_id = acc,
                 vc_remote_workspace_id = ws, vc_workspace_name = wn, vc_device_id = d, vc_device_name = dn,
                 vc_enabled = (en = ''t''), vc_remember_workspace_key = (rem = ''t''),
                 vc_secure = \<lparr>sr_account_root_key_account = r1, sr_account_recovery_phrase_account = r2,
                   sr_workspace_key_account = r3, sr_passphrase_account = r4, sr_device_signing_key_account = r5\<rparr>,
                 vc_status = \<lparr>vsf_last_synced_at_ms = ls, vsf_remote = rm\<rparr>, vc_updated_at_ms = dec_int u\<rparr>
           | _ \<Rightarrow> Err ''invalid'')
      | _ \<Rightarrow> Err ''invalid'')"

definition sample_version_of_json :: "bytes \<Rightarrow> (nat, string) result" where
  "sample_version_of_json s = (case dec_tokens [] s of Some (v # _) \<Rightarrow> Ok (read_nat v) | _ \<Rightarrow> Err ''invalid'')"

definition sample_config_libs :: config_libs where
  "sample_config_libs = account_libs.extend sample_account_libs
     (config_libs.fields sample_config_json sample_config_of_json sample_version_of_json)"

lemmas sample_config_libs_defs = sample_config_libs_def account_libs.defs config_libs.defs

lemma sample_config_round_trip:
  "sample_config_of_json (sample_config_json c) = Ok c"
  "sample_version_of_json (sample_config_json c) = Ok (vc_schema_version c)"
  by (simp_all add: sample_config_of_json_def sample_config_json_def sample_version_of_json_def)

lemma sample_config_json_ok: "config_json_ok sample_config_libs"
  by (simp add: config_json_ok_def sample_config_libs_defs sample_config_round_trip)

definition sample_settings :: sync_vault_config where
  "sample_settings = \<lparr>cfg_vault_id = ''v'', cfg_root_path = ''/n'', cfg_account_key_id = Some ''a'',
     cfg_remote_workspace_id = ''w'', cfg_workspace_name = None, cfg_device_id = ''d'', cfg_device_name = None,
     cfg_remember_workspace_key = True, cfg_passphrase = Some ''secret''\<rparr>"

lemma sample_settings_written:
  "\<exists>cfile fs'. write_sync_config_with_status sample_config_libs ''io'' 5 [''n''] sample_settings True 7
     default_status_file (Dir [(''a.md'', File ''x'' 1)]) = (Ok cfile, fs')"
proof -
  have "is_ok (config_file_from_runtime sample_settings True 7 default_status_file)"
    by (simp add: config_file_from_runtime_def sample_settings_def blank_code is_ascii_graphic_def Let_def)
  then obtain cfile where c: "config_file_from_runtime sample_settings True 7 default_status_file = Ok cfile"
    by (auto simp: is_ok_iff)
  have "fs_write sync_config_path b 5 (Some (Dir [(''a.md'', File ''x'' 1)])) \<noteq> None" for b
    by (simp add: sync_config_path_def CONFIG_DIR_NAME_def)
  then obtain fs' where "fs_write sync_config_path (json_config_file sample_config_libs cfile) 5
      (Some (Dir [(''a.md'', File ''x'' 1)])) = Some fs'" by blast
  with c have "write_sync_config_with_status sample_config_libs ''io'' 5 [''n''] sample_settings True 7
     default_status_file (Dir [(''a.md'', File ''x'' 1)]) = (Ok cfile, fs')"
    by (simp only: write_sync_config_with_status_def result.case option.case)
  then show ?thesis by (intro exI)
qed

theorem sync_config_round_trip_witness:
  "\<exists>cfile fs'. write_sync_config_with_status sample_config_libs ''io'' 5 [''n''] sample_settings True 7
     default_status_file (Dir [(''a.md'', File ''x'' 1)]) = (Ok cfile, fs') \<and>
   read_sync_config sample_config_libs ''io'' [''n''] fs' = Ok (Some cfile) \<and>
   cfg_passphrase (runtime_config_from_file [''n''] cfile) = None"
proof -
  obtain cfile fs' where w: "write_sync_config_with_status sample_config_libs ''io'' 5 [''n''] sample_settings True 7
     default_status_file (Dir [(''a.md'', File ''x'' 1)]) = (Ok cfile, fs')"
    using sample_settings_written by (elim exE)
  note rt = sync_config_round_trip [OF sample_config_json_ok w, of "''io''"]
  have "cfg_passphrase (runtime_config_from_file [''n''] cfile) = None"
    unfolding rt [THEN conjunct2, THEN conjunct2, THEN conjunct1] by (simp add: stored_config_def)
  with w rt [THEN conjunct1] show ?thesis by (intro exI conjI)
qed

end
