(* ===== verification/Sync_Workspaces.thy ===== *)
theory Sync_Workspaces
  imports Sync_Config
begin

text \<open>
  Accounts, workspaces and devices as the commands manage them (\<^verbatim>\<open>sync/commands.rs\<close>): preparing or unlocking the
  account's root key, creating, listing, renaming and opening workspaces whose names and keys are
  encrypted for the account, registering devices, and finding the workspace key for a run. The
  server (the trait \<^verbatim>\<open>SyncSetupApi\<close> of \<^verbatim>\<open>sync/client.rs\<close>) is a parameter with a state of its own; the state of an
  operation is the server's and the keychain's. Random values are an argument; the authorisation of
  the plugin (\<open>auth_answers\<close>) is what the authentication module answers.
\<close>

section \<open>Data\<close>

datatype sync_account_key_recipient_type = AccountRecipientUnspecified | AccountRecipientRecoveryPhrase | AccountRecipientDevice

record sync_workspace_metadata =
  ws_workspace_id :: string
  ws_current_head_commit_id :: string
  ws_head_version :: int
  ws_crypto_version :: string
  ws_encrypted_metadata :: bytes
  ws_metadata_version :: int
  ws_encrypted_workspace_key :: bytes
  ws_workspace_key_version :: int

record sync_device_metadata =
  dv_device_id :: string
  dv_workspace_id :: string
  dv_signing_public_key :: bytes
  dv_encryption_public_key :: bytes
  dv_encrypted_device_name :: bytes
  dv_metadata_version :: int
  dv_last_device_seq :: int

record sync_account_key_metadata =
  ak_account_key_id :: string
  ak_crypto_version :: string

record sync_account_key_envelope_metadata =
  ae_account_key_id :: string
  ae_envelope_id :: string
  ae_recipient_type :: sync_account_key_recipient_type
  ae_key_version :: int
  ae_kdf_params_json :: string
  ae_encrypted_envelope :: bytes

record create_account_key_input =
  ca_account_key_id :: string
  ca_crypto_version :: string
  ca_envelope_id :: string
  ca_recipient_type :: sync_account_key_recipient_type
  ca_key_version :: int
  ca_kdf_params_json :: string
  ca_encrypted_envelope :: bytes

record update_workspace_metadata_input =
  uw_workspace_id :: string
  uw_encrypted_metadata :: bytes
  uw_metadata_version :: int
  uw_expected_metadata_version :: int

record update_workspace_key_input =
  uk_workspace_id :: string
  uk_encrypted_workspace_key :: bytes
  uk_workspace_key_version :: int
  uk_expected_workspace_key_version :: int

record update_device_metadata_input =
  ud_workspace_id :: string
  ud_device_id :: string
  ud_encrypted_device_name :: bytes
  ud_metadata_version :: int
  ud_expected_metadata_version :: int

record 's setup_api =
  sa_get_account_key_state :: "'s \<Rightarrow> sync_account_key_metadata option sync_result \<times> 's"
  sa_create_account_key :: "create_account_key_input \<Rightarrow> 's \<Rightarrow> unit sync_result \<times> 's"
  sa_list_account_key_envelopes :: "'s \<Rightarrow> sync_account_key_envelope_metadata list sync_result \<times> 's"
  sa_create_workspace :: "string \<Rightarrow> 's \<Rightarrow> sync_workspace_metadata sync_result \<times> 's"
  sa_list_workspaces :: "'s \<Rightarrow> sync_workspace_metadata list sync_result \<times> 's"
  sa_delete_workspace :: "string \<Rightarrow> 's \<Rightarrow> unit sync_result \<times> 's"
  sa_update_workspace_metadata :: "update_workspace_metadata_input \<Rightarrow> 's \<Rightarrow> sync_workspace_metadata sync_result \<times> 's"
  sa_update_workspace_key :: "update_workspace_key_input \<Rightarrow> 's \<Rightarrow> sync_workspace_metadata sync_result \<times> 's"
  sa_register_device :: "string \<Rightarrow> bytes \<Rightarrow> bytes \<Rightarrow> bytes \<Rightarrow> 's \<Rightarrow> sync_device_metadata sync_result \<times> 's"
  sa_list_key_envelopes :: "string \<Rightarrow> 's \<Rightarrow> sync_key_envelope_metadata list sync_result \<times> 's"
  sa_update_device_metadata :: "update_device_metadata_input \<Rightarrow> 's \<Rightarrow> sync_device_metadata sync_result \<times> 's"

record auth_answers =
  au_authorized :: "(bool, string) result"
  au_header :: "(string option, string) result"

record randomness =
  rn_account_key_id :: bytes
  rn_account_root_key :: bytes
  rn_salt :: bytes
  rn_wrap_nonce :: bytes
  rn_workspace_key :: bytes
  rn_metadata_nonce :: bytes
  rn_key_nonce :: bytes
  rn_signing_key :: bytes
  rn_device_nonce :: bytes

definition randomness_ok :: "randomness \<Rightarrow> bool" where
  "randomness_ok R \<longleftrightarrow>
     length (rn_account_root_key R) = 32 \<and> length (rn_workspace_key R) = 32 \<and> length (rn_signing_key R) = 32 \<and>
     (\<forall>n \<in> {rn_wrap_nonce R, rn_metadata_nonce R, rn_key_nonce R, rn_device_nonce R}. length n = XCHACHA20_NONCE_LEN)"

record prepared_account_key =
  pk_account_key_id :: string
  pk_account_root_key :: symmetric_key
  pk_recovery_phrase :: "string option"

record prepared_sync_config =
  pc_account_key_id :: string
  pc_account_root_key :: symmetric_key
  pc_recovery_phrase :: "string option"
  pc_workspace_id :: string
  pc_workspace_name :: string
  pc_workspace_key :: symmetric_key
  pc_device_id :: string
  pc_device_name :: string
  pc_device_signing_key :: bytes

record sync_workspace_summary =
  wsum_workspace_id :: string
  wsum_name :: string
  wsum_current :: bool
  wsum_head_version :: int
  wsum_metadata_version :: int
  wsum_workspace_key_version :: int

record sync_account_recovery_state =
  rst_configured :: bool
  rst_account_key_id :: "string option"
  rst_recovery_phrase_configured :: bool
  rst_applied :: bool
  rst_recovery_phrase_saved :: bool

record setup_libs = config_libs +
  ed25519_public_key :: "bytes \<Rightarrow> bytes"

text \<open>What the commands run with: the libraries, the key store, the server, the authorisation and the environment's host name.\<close>

record ('s, 'k) setup_env =
  se_libs :: setup_libs
  se_store :: "'k key_store"
  se_api :: "'s setup_api"
  se_auth :: auth_answers
  se_hostnames :: "string option \<times> string option"

type_synonym ('s, 'k, 'a) setup_op = "'s \<times> 'k \<Rightarrow> 'a sync_result \<times> 's \<times> 'k"

definition on_server :: "('s \<Rightarrow> 'a sync_result \<times> 's) \<Rightarrow> ('s, 'k, 'a) setup_op" where
  "on_server f = (\<lambda>(s, k). let (r, s) = f s in (r, s, k))"

definition on_keys :: "('k \<Rightarrow> 'a sync_result \<times> 'k) \<Rightarrow> ('s, 'k, 'a) setup_op" where
  "on_keys f = (\<lambda>(s, k). let (r, k) = f k in (r, s, k))"

definition read_keys :: "('k \<Rightarrow> 'a sync_result) \<Rightarrow> ('s, 'k, 'a) setup_op" where
  "read_keys f = (\<lambda>(s, k). (f k, s, k))"

definition pure_step :: "'a sync_result \<Rightarrow> ('s, 'k, 'a) setup_op" where
  "pure_step r st = (r, st)"

section \<open>Constants and names\<close>

definition CRYPTO_VERSION :: string where "CRYPTO_VERSION = ''kuku-sync-v1''"
definition ACCOUNT_RECOVERY_ENVELOPE_ID :: string where "ACCOUNT_RECOVERY_ENVELOPE_ID = ''recovery:v1''"
definition ACCOUNT_KEY_VERSION :: int where "ACCOUNT_KEY_VERSION = 1"
definition WORKSPACE_METADATA_VERSION :: int where "WORKSPACE_METADATA_VERSION = 1"
definition WORKSPACE_KEY_VERSION :: int where "WORKSPACE_KEY_VERSION = 1"
definition DEVICE_METADATA_VERSION :: int where "DEVICE_METADATA_VERSION = 1"

definition map_auth_header_error :: "(string \<Rightarrow> string) \<Rightarrow> string \<Rightarrow> sync_error" where
  "map_auth_header_error lc error =
     (let transport = Transport error in
      if category lc transport = CatLoginRequired then LoginRequired else transport)"

definition authorization_header :: "(string \<Rightarrow> string) \<Rightarrow> auth_answers \<Rightarrow> string sync_result" where
  "authorization_header lc A =
     and_then (map_err Transport (au_authorized A)) (\<lambda>authorized.
       if \<not> authorized then Err PermissionRequired
       else and_then (map_err (map_auth_header_error lc) (au_header A)) (\<lambda>h. ok_or h LoginRequired))"

definition workspace_display_name :: "sync_vault_config \<Rightarrow> string" where
  "workspace_display_name config =
     (case trimmed_optional (cfg_workspace_name config) of
        Some name \<Rightarrow> name
      | None \<Rightarrow>
          (case trimmed_optional (file_name (components (cfg_root_path config))) of
             Some name \<Rightarrow> name | None \<Rightarrow> ''Workspace''))"

definition device_display_name :: "string option \<times> string option \<Rightarrow> sync_vault_config \<Rightarrow> string" where
  "device_display_name hosts config =
     (let name = (case trimmed_optional (cfg_device_name config) of
            Some name \<Rightarrow> Some name
          | None \<Rightarrow> (case fst hosts of Some h \<Rightarrow> Some h | None \<Rightarrow> snd hosts))
      in case trimmed_optional name of Some name \<Rightarrow> name | None \<Rightarrow> ''This device'')"

definition hex_digit :: "nat \<Rightarrow> char" where
  "hex_digit d = (if d < 10 then char_of (48 + d) else char_of (87 + d))"

definition random_account_key_id :: "bytes \<Rightarrow> string" where
  "random_account_key_id bs = ''account_'' @ concat (map (\<lambda>b. [hex_digit (byte b div 16), hex_digit (byte b mod 16)]) bs)"

definition required_passphrase :: "sync_vault_config \<Rightarrow> string sync_result" where
  "required_passphrase config =
     ok_or (trimmed_optional (cfg_passphrase config)) (Crypto ''passphrase is required to configure sync'')"

definition normalized_workspace_id :: "string \<Rightarrow> string sync_result" where
  "normalized_workspace_id workspace_id =
     (if trim workspace_id = [] then Err (InvalidArgument ''workspace id is required'') else Ok (trim workspace_id))"

definition normalized_workspace_name :: "string \<Rightarrow> string sync_result" where
  "normalized_workspace_name name =
     (let name = trim name in
      if name = [] then Err (InvalidArgument ''workspace name is required'')
      else if length (filter (\<lambda>b. \<not> utf8_cont b) name) > 120 then Err (InvalidArgument ''workspace name is too long'')
      else Ok name)"

definition non_empty_trimmed :: "string \<Rightarrow> string option" where
  "non_empty_trimmed value = (if trim value = [] then None else Some (trim value))"

definition reusable_device_id_for_workspace :: "string \<Rightarrow> string \<Rightarrow> sync_vault_record option \<Rightarrow> string option" where
  "reusable_device_id_for_workspace workspace_id config_device_id local_vault =
     (case local_vault of
        Some vault \<Rightarrow> if vr_remote_workspace_id vault = workspace_id then non_empty_trimmed (vr_device_id vault) else None
      | None \<Rightarrow> non_empty_trimmed config_device_id)"

section \<open>The account's key\<close>

definition account_recovery_envelope_from_metadata ::
    "'z account_libs_scheme \<Rightarrow> sync_account_key_envelope_metadata \<Rightarrow> account_recovery_key_envelope sync_result" where
  "account_recovery_envelope_from_metadata L metadata =
     and_then (json_result (kdf_params_of_json L (ae_kdf_params_json metadata))) (\<lambda>kdf.
     and_then (json_result (wrapped_root_key_of_json L (ae_encrypted_envelope metadata))) (\<lambda>wrap.
       Ok \<lparr>are_account_key_id = ae_account_key_id metadata, are_envelope_id = ae_envelope_id metadata,
           are_recipient_type = ''recovery_phrase'', are_key_version = ae_key_version metadata, are_kdf = kdf,
           are_wrap = wrap\<rparr>))"

definition is_recovery_envelope :: "string \<Rightarrow> sync_account_key_envelope_metadata \<Rightarrow> bool" where
  "is_recovery_envelope account_key_id envelope \<longleftrightarrow>
     ae_account_key_id envelope = account_key_id \<and> ae_recipient_type envelope = AccountRecipientRecoveryPhrase"

definition unlock_account_root_key ::
    "('s, 'k) setup_env \<Rightarrow> string \<Rightarrow> string \<Rightarrow> ('s, 'k, symmetric_key) setup_op" where
  "unlock_account_root_key E account_key_id recovery_phrase st =
     try_then (on_server (sa_list_account_key_envelopes (se_api E)) st) (\<lambda>envelopes st.
     try_then (pure_step (ok_or (find (is_recovery_envelope account_key_id) envelopes)
         (Crypto ''account recovery envelope is missing'')) st) (\<lambda>metadata st.
     try_then (pure_step (account_recovery_envelope_from_metadata (se_libs E) metadata) st) (\<lambda>envelope.
       pure_step (unwrap_account_root_key_with_recovery_phrase (se_libs E) envelope recovery_phrase))))"

definition unlocked_account ::
    "('s, 'k) setup_env \<Rightarrow> string \<Rightarrow> string \<Rightarrow> ('s, 'k, prepared_account_key) setup_op" where
  "unlocked_account E account_key_id recovery_phrase st =
     try_then (unlock_account_root_key E account_key_id recovery_phrase st) (\<lambda>account_root_key.
       pure_step (Ok \<lparr>pk_account_key_id = account_key_id, pk_account_root_key = account_root_key,
         pk_recovery_phrase = Some (normalize_recovery_phrase (to_lowercase (se_libs E)) recovery_phrase)\<rparr>))"

definition create_account_key ::
    "('s, 'k) setup_env \<Rightarrow> randomness \<Rightarrow> sync_vault_config \<Rightarrow> ('s, 'k, prepared_account_key) setup_op" where
  "create_account_key E R config st =
     try_then (pure_step (required_passphrase config) st) (\<lambda>recovery_phrase st.
     let normalized_phrase = normalize_recovery_phrase (to_lowercase (se_libs E)) recovery_phrase;
         account_key_id = (case trimmed_optional (cfg_account_key_id config) of
           Some i \<Rightarrow> i | None \<Rightarrow> random_account_key_id (rn_account_key_id R))
     in try_then (pure_step (wrap_account_root_key_with_recovery_phrase (se_libs E) (rn_wrap_nonce R) (rn_salt R)
          account_key_id ACCOUNT_RECOVERY_ENVELOPE_ID ACCOUNT_KEY_VERSION (rn_account_root_key R) normalized_phrase) st)
          (\<lambda>envelope st.
        try_then (on_server (sa_create_account_key (se_api E)
            \<lparr>ca_account_key_id = account_key_id, ca_crypto_version = CRYPTO_VERSION,
             ca_envelope_id = are_envelope_id envelope, ca_recipient_type = AccountRecipientRecoveryPhrase,
             ca_key_version = are_key_version envelope, ca_kdf_params_json = json_kdf_params (se_libs E) (are_kdf envelope),
             ca_encrypted_envelope = json_wrapped_root_key (se_libs E) (are_wrap envelope)\<rparr>) st) (\<lambda>_.
          pure_step (Ok \<lparr>pk_account_key_id = account_key_id, pk_account_root_key = rn_account_root_key R,
            pk_recovery_phrase = Some normalized_phrase\<rparr>))))"

definition prepare_account_key ::
    "('s, 'k) setup_env \<Rightarrow> randomness \<Rightarrow> sync_vault_config \<Rightarrow> ('s, 'k, prepared_account_key) setup_op" where
  "prepare_account_key E R config st =
     try_then (on_server (sa_get_account_key_state (se_api E)) st) (\<lambda>account_key st.
     case account_key of
       Some account_key \<Rightarrow>
         try_then (read_keys (read_account_root_key (se_libs E) (se_store E) (ak_account_key_id account_key)) st)
           (\<lambda>remembered st.
         case remembered of
           Some account_root_key \<Rightarrow>
             pure_step (Ok \<lparr>pk_account_key_id = ak_account_key_id account_key, pk_account_root_key = account_root_key,
               pk_recovery_phrase = None\<rparr>) st
         | None \<Rightarrow>
             try_then (pure_step (required_passphrase config) st) (\<lambda>recovery_phrase.
               unlocked_account E (ak_account_key_id account_key) recovery_phrase))
     | None \<Rightarrow> create_account_key E R config st)"

definition remember_account ::
    "('s, 'k) setup_env \<Rightarrow> prepared_account_key \<Rightarrow> ('s, 'k, unit) setup_op" where
  "remember_account E account st =
     try_then (on_keys (remember_account_root_key (se_libs E) (se_store E) (pk_account_key_id account)
         (pk_account_root_key account)) st) (\<lambda>_ st.
     case pk_recovery_phrase account of
       Some phrase \<Rightarrow> on_keys (remember_account_recovery_phrase (se_libs E) (se_store E) (pk_account_key_id account) phrase) st
     | None \<Rightarrow> pure_step (Ok ()) st)"

definition unlock_existing_account_key ::
    "('s, 'k) setup_env \<Rightarrow> string option \<Rightarrow> ('s, 'k, prepared_account_key option) setup_op" where
  "unlock_existing_account_key E recovery_phrase st =
     try_then (on_server (sa_get_account_key_state (se_api E)) st) (\<lambda>account_key st.
     case account_key of
       None \<Rightarrow> pure_step (Ok None) st
     | Some account_key \<Rightarrow>
         try_then (read_keys (read_account_root_key (se_libs E) (se_store E) (ak_account_key_id account_key)) st)
           (\<lambda>remembered st.
         case remembered of
           Some account_root_key \<Rightarrow>
             pure_step (Ok (Some \<lparr>pk_account_key_id = ak_account_key_id account_key,
               pk_account_root_key = account_root_key, pk_recovery_phrase = None\<rparr>)) st
         | None \<Rightarrow>
             try_then (pure_step (ok_or (trimmed_optional recovery_phrase)
                 (Crypto ''recovery phrase is required to unlock account sync state'')) st) (\<lambda>recovery_phrase st.
             try_then (unlocked_account E (ak_account_key_id account_key) recovery_phrase st) (\<lambda>account st.
             try_then (remember_account E account st) (\<lambda>_. pure_step (Ok (Some account)))))))"

definition get_account_recovery_state ::
    "('s, 'k) setup_env \<Rightarrow> ('s, 'k, sync_account_recovery_state) setup_op" where
  "get_account_recovery_state E st =
     try_then (pure_step (authorization_header (to_lowercase (se_libs E)) (se_auth E)) st) (\<lambda>_ st.
     try_then (on_server (sa_get_account_key_state (se_api E)) st) (\<lambda>account_key st.
     case account_key of
       None \<Rightarrow> pure_step (Ok \<lparr>rst_configured = False, rst_account_key_id = None,
         rst_recovery_phrase_configured = False, rst_applied = False, rst_recovery_phrase_saved = False\<rparr>) st
     | Some account_key \<Rightarrow>
         let account_key_id = ak_account_key_id account_key in
         try_then (on_server (sa_list_account_key_envelopes (se_api E)) st) (\<lambda>envelopes st.
         try_then (read_keys (read_account_root_key (se_libs E) (se_store E) account_key_id) st) (\<lambda>root st.
         try_then (read_keys (read_account_recovery_phrase (se_libs E) (se_store E) account_key_id) st) (\<lambda>phrase.
           pure_step (Ok \<lparr>rst_configured = True, rst_account_key_id = Some account_key_id,
             rst_recovery_phrase_configured = list_ex (is_recovery_envelope account_key_id) envelopes,
             rst_applied = (root \<noteq> None), rst_recovery_phrase_saved = (phrase \<noteq> None)\<rparr>))))))"

section \<open>Workspaces\<close>

definition put_account_workspace_metadata ::
    "('s, 'k) setup_env \<Rightarrow> randomness \<Rightarrow> prepared_account_key \<Rightarrow> string \<Rightarrow> string \<Rightarrow> symmetric_key
      \<Rightarrow> ('s, 'k, unit) setup_op" where
  "put_account_workspace_metadata E R account workspace_id workspace_name workspace_key st =
     try_then (pure_step (encrypt_workspace_metadata (se_libs E) (rn_metadata_nonce R) (pk_account_root_key account)
         (pk_account_key_id account) workspace_id WORKSPACE_METADATA_VERSION (new_display_metadata workspace_name)) st)
       (\<lambda>encrypted_metadata st.
     try_then (on_server (sa_update_workspace_metadata (se_api E)
         \<lparr>uw_workspace_id = workspace_id, uw_encrypted_metadata = encrypted_metadata,
          uw_metadata_version = WORKSPACE_METADATA_VERSION, uw_expected_metadata_version = 0\<rparr>) st) (\<lambda>_ st.
     try_then (pure_step (encrypt_workspace_key_for_account (se_libs E) (rn_key_nonce R) (pk_account_root_key account)
         (pk_account_key_id account) workspace_id WORKSPACE_KEY_VERSION workspace_key) st)
       (\<lambda>encrypted_workspace_key st.
     try_then (on_server (sa_update_workspace_key (se_api E)
         \<lparr>uk_workspace_id = workspace_id, uk_encrypted_workspace_key = encrypted_workspace_key,
          uk_workspace_key_version = WORKSPACE_KEY_VERSION, uk_expected_workspace_key_version = 0\<rparr>) st) (\<lambda>_.
       pure_step (Ok ())))))"

definition workspace_by_id ::
    "('s, 'k) setup_env \<Rightarrow> string \<Rightarrow> ('s, 'k, sync_workspace_metadata) setup_op" where
  "workspace_by_id E workspace_id st =
     try_then (on_server (sa_list_workspaces (se_api E)) st) (\<lambda>workspaces.
       pure_step (ok_or (find (\<lambda>workspace. ws_workspace_id workspace = workspace_id) workspaces)
         (InvalidArgument ''workspace was not found for this account'')))"

definition workspace_key_from_account ::
    "'z account_libs_scheme \<Rightarrow> prepared_account_key \<Rightarrow> sync_workspace_metadata \<Rightarrow> symmetric_key sync_result" where
  "workspace_key_from_account L account workspace =
     (if ws_encrypted_workspace_key workspace = [] \<or> ws_workspace_key_version workspace \<le> 0
      then Err (Crypto ''workspace account key envelope is missing'')
      else decrypt_workspace_key_for_account L (pk_account_root_key account) (pk_account_key_id account)
             (ws_workspace_id workspace) (ws_workspace_key_version workspace) (ws_encrypted_workspace_key workspace))"

definition workspace_display_name_from_metadata ::
    "'z account_libs_scheme \<Rightarrow> prepared_account_key \<Rightarrow> sync_workspace_metadata \<Rightarrow> string sync_result" where
  "workspace_display_name_from_metadata L account workspace =
     (if ws_encrypted_metadata workspace = [] \<or> ws_metadata_version workspace \<le> 0
      then Err (Crypto ''workspace metadata is missing'')
      else and_then (decrypt_workspace_metadata L (pk_account_root_key account) (pk_account_key_id account)
             (ws_workspace_id workspace) (ws_metadata_version workspace) (ws_encrypted_metadata workspace))
             (\<lambda>m. Ok (dm_name m)))"

definition workspace_summary_from_metadata ::
    "'z account_libs_scheme \<Rightarrow> prepared_account_key \<Rightarrow> string option \<Rightarrow> sync_workspace_metadata
      \<Rightarrow> sync_workspace_summary sync_result" where
  "workspace_summary_from_metadata L account current_workspace_id workspace =
     and_then (workspace_display_name_from_metadata L account workspace) (\<lambda>name.
     and_then (workspace_key_from_account L account workspace) (\<lambda>_.
       Ok \<lparr>wsum_workspace_id = ws_workspace_id workspace, wsum_name = name,
           wsum_current = (current_workspace_id = Some (ws_workspace_id workspace)),
           wsum_head_version = ws_head_version workspace, wsum_metadata_version = ws_metadata_version workspace,
           wsum_workspace_key_version = ws_workspace_key_version workspace\<rparr>))"

text \<open>\<^verbatim>\<open>str::parse::<usize>\<close>: an optional plus sign and at least one digit, below \<^verbatim>\<open>2^64\<close>.\<close>

definition parse_usize :: "string \<Rightarrow> nat option" where
  "parse_usize s =
     (let ds = (case s of c # cs \<Rightarrow> if c = CHR ''+'' then cs else s | [] \<Rightarrow> []) in
      if ds = [] \<or> \<not> list_all is_ascii_digit ds \<or> read_nat ds \<ge> 2 ^ 64 then None else Some (read_nat ds))"

definition workspace_index ::
    "'z account_libs_scheme \<Rightarrow> prepared_account_key \<Rightarrow> sync_workspace_metadata \<Rightarrow> nat option" where
  "workspace_index L account workspace =
     (case workspace_display_name_from_metadata L account workspace of
        Err _ \<Rightarrow> None
      | Ok name \<Rightarrow>
          if prefix ''Workspace '' (trim name) then parse_usize (drop (length ''Workspace '') (trim name)) else None)"

definition next_workspace_display_name ::
    "'z account_libs_scheme \<Rightarrow> prepared_account_key \<Rightarrow> sync_workspace_metadata list \<Rightarrow> string" where
  "next_workspace_display_name L account workspaces =
     ''Workspace '' @ show_nat (fold (\<lambda>workspace next_index.
       case workspace_index L account workspace of
         Some index \<Rightarrow> max next_index (min (index + 1) (2 ^ 64 - 1))
       | None \<Rightarrow> next_index) workspaces 1)"

definition list_account_workspaces ::
    "('s, 'k) setup_env \<Rightarrow> string option \<Rightarrow> string option \<Rightarrow> ('s, 'k, sync_workspace_summary list) setup_op" where
  "list_account_workspaces E current_workspace_id recovery_phrase st =
     try_then (pure_step (authorization_header (to_lowercase (se_libs E)) (se_auth E)) st) (\<lambda>_ st.
     try_then (unlock_existing_account_key E recovery_phrase st) (\<lambda>account st.
     case account of
       None \<Rightarrow> pure_step (Ok []) st
     | Some account \<Rightarrow>
         try_then (on_server (sa_list_workspaces (se_api E)) st) (\<lambda>workspaces.
           pure_step (collect_results (workspace_summary_from_metadata (se_libs E) account current_workspace_id) workspaces))))"

definition account_only_config :: "string option \<Rightarrow> string option \<Rightarrow> sync_vault_config" where
  "account_only_config name passphrase =
     \<lparr>cfg_vault_id = [], cfg_root_path = [], cfg_account_key_id = None, cfg_remote_workspace_id = [],
      cfg_workspace_name = name, cfg_device_id = [], cfg_device_name = None, cfg_remember_workspace_key = True,
      cfg_passphrase = passphrase\<rparr>"

definition create_account_workspace ::
    "('s, 'k) setup_env \<Rightarrow> randomness \<Rightarrow> string option \<Rightarrow> string option \<Rightarrow> string option
      \<Rightarrow> ('s, 'k, sync_workspace_summary) setup_op" where
  "create_account_workspace E R name passphrase current_workspace_id st =
     try_then (pure_step (authorization_header (to_lowercase (se_libs E)) (se_auth E)) st) (\<lambda>_ st.
     try_then (prepare_account_key E R (account_only_config name passphrase) st) (\<lambda>account st.
     try_then (remember_account E account st) (\<lambda>_ st.
     try_then (on_server (sa_list_workspaces (se_api E)) st) (\<lambda>existing_workspaces st.
     try_then (pure_step (case name of
           Some name \<Rightarrow> normalized_workspace_name name
         | None \<Rightarrow> Ok (next_workspace_display_name (se_libs E) account existing_workspaces)) st) (\<lambda>workspace_name st.
     try_then (on_server (sa_create_workspace (se_api E) CRYPTO_VERSION) st) (\<lambda>workspace st.
     try_then (put_account_workspace_metadata E R account (ws_workspace_id workspace) workspace_name
         (rn_workspace_key R) st) (\<lambda>_ st.
     try_then (workspace_by_id E (ws_workspace_id workspace) st) (\<lambda>workspace.
       pure_step (workspace_summary_from_metadata (se_libs E) account current_workspace_id workspace)))))))))"

definition rename_account_workspace ::
    "('s, 'k) setup_env \<Rightarrow> randomness \<Rightarrow> string \<Rightarrow> string \<Rightarrow> int \<Rightarrow> string option \<Rightarrow> string option
      \<Rightarrow> ('s, 'k, sync_workspace_summary) setup_op" where
  "rename_account_workspace E R workspace_id name expected_metadata_version passphrase current_workspace_id st =
     try_then (pure_step (normalized_workspace_id workspace_id) st) (\<lambda>workspace_id st.
     try_then (pure_step (normalized_workspace_name name) st) (\<lambda>workspace_name st.
     try_then (pure_step (authorization_header (to_lowercase (se_libs E)) (se_auth E)) st) (\<lambda>_ st.
     try_then (unlock_existing_account_key E passphrase st) (\<lambda>account st.
     try_then (pure_step (ok_or account NotConfigured) st) (\<lambda>account st.
     try_then (pure_step (if expected_metadata_version + 1 > i64_max
         then Err (InvalidArgument ''workspace metadata version overflow'') else Ok (expected_metadata_version + 1)) st)
       (\<lambda>next_metadata_version st.
     try_then (pure_step (encrypt_workspace_metadata (se_libs E) (rn_metadata_nonce R) (pk_account_root_key account)
         (pk_account_key_id account) workspace_id next_metadata_version (new_display_metadata workspace_name)) st)
       (\<lambda>encrypted_metadata st.
     try_then (on_server (sa_update_workspace_metadata (se_api E)
         \<lparr>uw_workspace_id = workspace_id, uw_encrypted_metadata = encrypted_metadata,
          uw_metadata_version = next_metadata_version,
          uw_expected_metadata_version = expected_metadata_version\<rparr>) st) (\<lambda>workspace.
       pure_step (workspace_summary_from_metadata (se_libs E) account current_workspace_id workspace)))))))))"

definition delete_account_workspace :: "('s, 'k) setup_env \<Rightarrow> string \<Rightarrow> ('s, 'k, unit) setup_op" where
  "delete_account_workspace E workspace_id st =
     try_then (pure_step (authorization_header (to_lowercase (se_libs E)) (se_auth E)) st) (\<lambda>_.
       on_server (sa_delete_workspace (se_api E) workspace_id))"

definition current_workspace_exists_for_account :: "('s, 'k) setup_env \<Rightarrow> string \<Rightarrow> ('s, 'k, bool) setup_op" where
  "current_workspace_exists_for_account E workspace_id st =
     try_then (pure_step (authorization_header (to_lowercase (se_libs E)) (se_auth E)) st) (\<lambda>_ st.
     try_then (on_server (sa_list_workspaces (se_api E)) st) (\<lambda>workspaces.
       pure_step (Ok (list_ex (\<lambda>workspace. ws_workspace_id workspace = workspace_id) workspaces))))"

fun error_may_indicate_missing_current_workspace :: "sync_error \<Rightarrow> bool" where
  "error_may_indicate_missing_current_workspace PermissionRequired = True"
| "error_may_indicate_missing_current_workspace (InvalidArgument message) = contains message ''workspace was not found''"
| "error_may_indicate_missing_current_workspace _ = False"

section \<open>Devices and configuration\<close>

definition register_device_with_name ::
    "('s, 'k) setup_env \<Rightarrow> randomness \<Rightarrow> prepared_account_key \<Rightarrow> string \<Rightarrow> bytes \<Rightarrow> string
      \<Rightarrow> ('s, 'k, sync_device_metadata) setup_op" where
  "register_device_with_name E R account workspace_id signing_key device_name st =
     try_then (on_server (sa_register_device (se_api E) workspace_id (ed25519_public_key (se_libs E) signing_key) [] []) st)
       (\<lambda>device st.
     try_then (pure_step (encrypt_device_metadata (se_libs E) (rn_device_nonce R) (pk_account_root_key account)
         (pk_account_key_id account) workspace_id (dv_device_id device) DEVICE_METADATA_VERSION
         (new_display_metadata device_name)) st) (\<lambda>encrypted_device_name.
       on_server (sa_update_device_metadata (se_api E)
         \<lparr>ud_workspace_id = workspace_id, ud_device_id = dv_device_id device,
          ud_encrypted_device_name = encrypted_device_name, ud_metadata_version = DEVICE_METADATA_VERSION,
          ud_expected_metadata_version = 0\<rparr>)))"

definition prepared_config ::
    "prepared_account_key \<Rightarrow> string \<Rightarrow> string \<Rightarrow> symmetric_key \<Rightarrow> string \<Rightarrow> string \<Rightarrow> bytes \<Rightarrow> prepared_sync_config" where
  "prepared_config account workspace_id workspace_name workspace_key device_id device_name signing_key =
     \<lparr>pc_account_key_id = pk_account_key_id account, pc_account_root_key = pk_account_root_key account,
      pc_recovery_phrase = pk_recovery_phrase account, pc_workspace_id = workspace_id,
      pc_workspace_name = workspace_name, pc_workspace_key = workspace_key, pc_device_id = device_id,
      pc_device_name = device_name, pc_device_signing_key = signing_key\<rparr>"

definition prepare_new_workspace ::
    "('s, 'k) setup_env \<Rightarrow> randomness \<Rightarrow> sync_vault_config \<Rightarrow> ('s, 'k, prepared_sync_config) setup_op" where
  "prepare_new_workspace E R config st =
     try_then (prepare_account_key E R config st) (\<lambda>account st.
     let workspace_name = workspace_display_name config;
         device_name = device_display_name (se_hostnames E) config in
     try_then (on_server (sa_create_workspace (se_api E) CRYPTO_VERSION) st) (\<lambda>workspace st.
     try_then (put_account_workspace_metadata E R account (ws_workspace_id workspace) workspace_name
         (rn_workspace_key R) st) (\<lambda>_ st.
     try_then (register_device_with_name E R account (ws_workspace_id workspace) (rn_signing_key R) device_name st)
       (\<lambda>device.
       pure_step (Ok (prepared_config account (ws_workspace_id workspace) workspace_name (rn_workspace_key R)
         (dv_device_id device) device_name (rn_signing_key R)))))))"

definition prepare_existing_workspace ::
    "('s, 'k) setup_env \<Rightarrow> randomness \<Rightarrow> sync_vault_config \<Rightarrow> sync_vault_record option
      \<Rightarrow> ('s, 'k, prepared_sync_config) setup_op" where
  "prepare_existing_workspace E R config local_vault st =
     try_then (prepare_account_key E R config st) (\<lambda>account st.
     let workspace_id = trim (cfg_remote_workspace_id config) in
     try_then (workspace_by_id E workspace_id st) (\<lambda>workspace st.
     let workspace_name = (case workspace_display_name_from_metadata (se_libs E) account workspace of
           Ok name \<Rightarrow> name | Err _ \<Rightarrow> workspace_display_name config);
         device_name = device_display_name (se_hostnames E) config in
     try_then (pure_step (workspace_key_from_account (se_libs E) account workspace) st) (\<lambda>workspace_key st.
     try_then (read_keys (read_device_signing_key (se_libs E) (se_store E) (cfg_vault_id config)) st)
       (\<lambda>remembered st.
     try_then (case (reusable_device_id_for_workspace workspace_id (cfg_device_id config) local_vault, remembered) of
           (Some device_id, Some signing_key) \<Rightarrow> pure_step (Ok (device_id, signing_key)) st
         | _ \<Rightarrow>
             try_then (register_device_with_name E R account workspace_id (rn_signing_key R) device_name st) (\<lambda>device.
               pure_step (Ok (dv_device_id device, rn_signing_key R)))) (\<lambda>(device_id, signing_key).
       pure_step (Ok (prepared_config account workspace_id workspace_name workspace_key device_id device_name
         signing_key)))))))"

definition persist_local_keys ::
    "'z crypto_libs_scheme \<Rightarrow> 'k key_store \<Rightarrow> sync_vault_config \<Rightarrow> symmetric_key \<Rightarrow> bytes \<Rightarrow> string option
      \<Rightarrow> (string \<times> symmetric_key) option \<Rightarrow> 'k \<Rightarrow> unit sync_result \<times> 'k" where
  "persist_local_keys L S config workspace_key signing_key verified_passphrase account_root_key k =
     try_then (case account_root_key of
           Some (account_key_id, account_root_key) \<Rightarrow>
             try_then (remember_account_root_key L S account_key_id account_root_key k) (\<lambda>_ k.
               case verified_passphrase of
                 Some passphrase \<Rightarrow> remember_account_recovery_phrase L S account_key_id passphrase k
               | None \<Rightarrow> (Ok (), k))
         | None \<Rightarrow> (Ok (), k)) (\<lambda>_ k.
     try_then (if cfg_remember_workspace_key config
         then try_then (remember_workspace_key L S (cfg_vault_id config) workspace_key k) (\<lambda>_ k.
                case verified_passphrase of
                  Some passphrase \<Rightarrow> remember_passphrase L S (cfg_vault_id config) passphrase k
                | None \<Rightarrow> (Ok (), k))
         else try_then (forget_workspace_key S (cfg_vault_id config) k) (\<lambda>_ k.
                forget_passphrase S (cfg_vault_id config) k)) (\<lambda>_ k.
       remember_device_signing_key L S (cfg_vault_id config) signing_key k))"

section \<open>The workspace key of a run\<close>

definition remember_unlocked ::
    "('s, 'k) setup_env \<Rightarrow> bool \<Rightarrow> string \<Rightarrow> symmetric_key \<Rightarrow> string option \<Rightarrow> ('s, 'k, symmetric_key) setup_op" where
  "remember_unlocked E remember vault_id workspace_key passphrase st =
     (if remember
      then try_then (on_keys (remember_workspace_key (se_libs E) (se_store E) vault_id workspace_key) st) (\<lambda>_ st.
             try_then (case passphrase of
                 Some p \<Rightarrow> on_keys (remember_passphrase (se_libs E) (se_store E) vault_id p) st
               | None \<Rightarrow> pure_step (Ok ()) st) (\<lambda>_. pure_step (Ok workspace_key)))
      else pure_step (Ok workspace_key) st)"

text \<open>With the account's root key from the keychain; a failure to find the workspace is ignored.\<close>

definition key_from_stored_account ::
    "('s, 'k) setup_env \<Rightarrow> string \<Rightarrow> string \<Rightarrow> string option \<Rightarrow> bool \<Rightarrow> ('s, 'k, symmetric_key option) setup_op" where
  "key_from_stored_account E vault_id workspace_id account_key_id remember st =
     (case account_key_id of
        None \<Rightarrow> pure_step (Ok None) st
      | Some account_key_id \<Rightarrow>
          try_then (read_keys (read_account_root_key (se_libs E) (se_store E) account_key_id) st) (\<lambda>root st.
          case root of
            None \<Rightarrow> pure_step (Ok None) st
          | Some account_root_key \<Rightarrow>
              let account = \<lparr>pk_account_key_id = account_key_id, pk_account_root_key = account_root_key,
                    pk_recovery_phrase = None\<rparr>;
                  (found, st) = workspace_by_id E workspace_id st
              in (case found of
                    Err _ \<Rightarrow> pure_step (Ok None) st
                  | Ok workspace \<Rightarrow>
                      try_then (pure_step (workspace_key_from_account (se_libs E) account workspace) st) (\<lambda>workspace_key st.
                      try_then (remember_unlocked E remember vault_id workspace_key None st) (\<lambda>workspace_key.
                        pure_step (Ok (Some workspace_key))))))) "

definition key_from_recovery_phrase ::
    "('s, 'k) setup_env \<Rightarrow> string \<Rightarrow> string \<Rightarrow> string \<Rightarrow> string \<Rightarrow> bool \<Rightarrow> ('s, 'k, symmetric_key) setup_op" where
  "key_from_recovery_phrase E vault_id workspace_id account_key_id recovery_phrase remember st =
     try_then (unlocked_account E account_key_id recovery_phrase st) (\<lambda>account st.
     try_then (remember_account E account st) (\<lambda>_ st.
     try_then (workspace_by_id E workspace_id st) (\<lambda>workspace st.
     try_then (pure_step (workspace_key_from_account (se_libs E) account workspace) st) (\<lambda>workspace_key.
       remember_unlocked E remember vault_id workspace_key (Some recovery_phrase)))))"

definition key_from_envelopes ::
    "('s, 'k) setup_env \<Rightarrow> string \<Rightarrow> string \<Rightarrow> string option \<Rightarrow> bool \<Rightarrow> ('s, 'k, symmetric_key) setup_op" where
  "key_from_envelopes E vault_id workspace_id passphrase remember st =
     try_then (pure_step (ok_or (trimmed_optional passphrase)
         (Crypto ''passphrase is required to unlock workspace key'')) st) (\<lambda>passphrase st.
     try_then (on_server (sa_list_key_envelopes (se_api E) workspace_id) st) (\<lambda>envelopes st.
     try_then (pure_step (unlock_workspace_key_from_envelopes (se_libs E) envelopes passphrase) st)
       (\<lambda>(workspace_key, _).
       remember_unlocked E remember vault_id workspace_key (Some passphrase))))"

definition workspace_key_for_run ::
    "('s, 'k) setup_env \<Rightarrow> string \<Rightarrow> string \<Rightarrow> string option \<Rightarrow> bool \<Rightarrow> string option
      \<Rightarrow> ('s, 'k, symmetric_key) setup_op" where
  "workspace_key_for_run E vault_id workspace_id account_key_id remember passphrase st =
     try_then (read_keys (read_remembered_workspace_key (se_libs E) (se_store E) vault_id) st) (\<lambda>remembered st.
     case remembered of
       Some key \<Rightarrow> pure_step (Ok key) st
     | None \<Rightarrow>
         try_then (key_from_stored_account E vault_id workspace_id account_key_id remember st) (\<lambda>stored st.
         case stored of
           Some key \<Rightarrow> pure_step (Ok key) st
         | None \<Rightarrow>
             (case (account_key_id, trimmed_optional passphrase) of
                (Some account_key_id, Some recovery_phrase) \<Rightarrow>
                  key_from_recovery_phrase E vault_id workspace_id account_key_id recovery_phrase remember st
              | _ \<Rightarrow> key_from_envelopes E vault_id workspace_id passphrase remember st)))"

section \<open>Opening what was stored\<close>

lemma on_server_Ok: "on_server f (s, k) = (Ok a, s', k') \<longleftrightarrow> f s = (Ok a, s') \<and> k' = k"
  by (auto simp: on_server_def split: prod.splits)

lemma pure_step_Ok: "pure_step r st = (Ok a, st') \<longleftrightarrow> r = Ok a \<and> st' = st"
  by (auto simp: pure_step_def)

lemma encrypted_blob_not_Nil: "encrypt_blob_with_nonce L to_json key aad m n = Ok b \<Longrightarrow> b \<noteq> []"
  by (auto simp: encrypt_blob_frame blob_frame_def BLOB_MAGIC_def)

text \<open>
  A workspace can be opened by its account: when the metadata and the key of a workspace were handed to the
  server, then every later answer of the server that carries them yields the workspace's name and
  exactly the workspace's key to a device that holds the account's root key.
\<close>

theorem stored_workspace_opens:
  assumes "aead_ok (se_libs E)" "sha256_ok (se_libs E)" "account_json_ok (se_libs E)" "randomness_ok R"
    and "length workspace_key = 32"
    and "put_account_workspace_metadata E R account workspace_id name workspace_key st = (Ok (), st')"
  shows "\<exists>metadata key. (\<forall>ws. ws_workspace_id ws = workspace_id \<longrightarrow>
      ws_encrypted_metadata ws = metadata \<longrightarrow> ws_metadata_version ws = WORKSPACE_METADATA_VERSION \<longrightarrow>
      ws_encrypted_workspace_key ws = key \<longrightarrow> ws_workspace_key_version ws = WORKSPACE_KEY_VERSION \<longrightarrow>
      workspace_display_name_from_metadata (se_libs E) account ws = Ok name \<and>
      workspace_key_from_account (se_libs E) account ws = Ok workspace_key) \<and>
    (\<exists>s1 w1 s2 w2 s3. sa_update_workspace_metadata (se_api E)
         \<lparr>uw_workspace_id = workspace_id, uw_encrypted_metadata = metadata,
          uw_metadata_version = WORKSPACE_METADATA_VERSION, uw_expected_metadata_version = 0\<rparr> s1 = (Ok w1, s2) \<and>
       sa_update_workspace_key (se_api E)
         \<lparr>uk_workspace_id = workspace_id, uk_encrypted_workspace_key = key,
          uk_workspace_key_version = WORKSPACE_KEY_VERSION, uk_expected_workspace_key_version = 0\<rparr> s2 = (Ok w2, s3))"
proof -
  let ?L = "se_libs E" and ?root = "pk_account_root_key account" and ?id = "pk_account_key_id account"
  obtain s k where st: "st = (s, k)" by fastforce
  from assms(6) obtain metadata key w1 s2 w2 s3 where
    m: "encrypt_workspace_metadata ?L (rn_metadata_nonce R) ?root ?id workspace_id WORKSPACE_METADATA_VERSION
      (new_display_metadata name) = Ok metadata"
    and c: "encrypt_workspace_key_for_account ?L (rn_key_nonce R) ?root ?id workspace_id WORKSPACE_KEY_VERSION
      workspace_key = Ok key"
    and sent: "sa_update_workspace_metadata (se_api E)
         \<lparr>uw_workspace_id = workspace_id, uw_encrypted_metadata = metadata,
          uw_metadata_version = WORKSPACE_METADATA_VERSION, uw_expected_metadata_version = 0\<rparr> s = (Ok w1, s2)"
      "sa_update_workspace_key (se_api E)
         \<lparr>uk_workspace_id = workspace_id, uk_encrypted_workspace_key = key,
          uk_workspace_key_version = WORKSPACE_KEY_VERSION, uk_expected_workspace_key_version = 0\<rparr> s2 = (Ok w2, s3)"
    unfolding put_account_workspace_metadata_def st
    by (fastforce simp: try_then_eq_Ok pure_step_Ok on_server_Ok)
  have n: "length (rn_metadata_nonce R) = XCHACHA20_NONCE_LEN" "length (rn_key_nonce R) = XCHACHA20_NONCE_LEN"
    using assms(4) by (simp_all add: randomness_ok_def)
  have ne: "metadata \<noteq> []" "key \<noteq> []"
    by (rule encrypted_blob_not_Nil [OF m [unfolded encrypt_workspace_metadata_def]],
        rule encrypted_blob_not_Nil [OF c [unfolded encrypt_workspace_key_for_account_def]])
  have "dm_schema_version (new_display_metadata name) < 2 ^ 8" by (simp add: new_display_metadata_def)
  from workspace_metadata_round_trip [OF assms(1-3) n(1) this m] workspace_key_round_trip [OF assms(1,2) n(2) assms(5) c]
  have opens: "workspace_display_name_from_metadata ?L account ws = Ok name \<and> workspace_key_from_account ?L account ws = Ok workspace_key"
    if "ws_workspace_id ws = workspace_id" "ws_encrypted_metadata ws = metadata"
      "ws_metadata_version ws = WORKSPACE_METADATA_VERSION" "ws_encrypted_workspace_key ws = key"
      "ws_workspace_key_version ws = WORKSPACE_KEY_VERSION" for ws
    using that ne
    by (simp add: workspace_display_name_from_metadata_def workspace_key_from_account_def new_display_metadata_def
        WORKSPACE_METADATA_VERSION_def WORKSPACE_KEY_VERSION_def)
  show ?thesis
    by (intro exI [of _ metadata] exI [of _ key] conjI allI impI opens [THEN conjunct1] opens [THEN conjunct2]
        exI [of _ s] exI [of _ w1] exI [of _ s2] exI [of _ w2] exI [of _ s3] sent) assumption+
qed

section \<open>What a configured device keeps\<close>

lemma try_then_unit_Ok: "try_then (r :: unit sync_result \<times> 'k) f = (Ok y, t) \<longleftrightarrow> (\<exists>s. r = (Ok (), s) \<and> f () s = (Ok y, t))"
  by (simp add: try_then_eq_Ok)

lemma persist_local_keys_secrets:
  assumes "keyring_ok (ks_keyring S)" "base64_ok L"
    and "persist_local_keys L S config workspace_key signing_key phrase account k = (Ok (), k')"
  shows "secrets L S k' (SigningKey (cfg_vault_id config)) = Ok (Some signing_key)"
    and "secrets L S k' (WorkspaceKey (cfg_vault_id config)) =
      Ok (if cfg_remember_workspace_key config then Some workspace_key else None)"
    and "\<not> cfg_remember_workspace_key config \<Longrightarrow> secrets L S k' (PassphraseOf (cfg_vault_id config)) = Ok None"
    and "v \<noteq> cfg_vault_id config \<Longrightarrow> x \<in> {WorkspaceKey v, PassphraseOf v, SigningKey v} \<Longrightarrow> secrets L S k' x = secrets L S k x"
proof -
  note [dest!] = secrets_remember [OF assms(1,2)]
  let ?account = "\<lambda>k1. (case account of
           Some (account_key_id, account_root_key) \<Rightarrow>
             try_then (remember_account_root_key L S account_key_id account_root_key k) (\<lambda>_ k.
               case phrase of
                 Some passphrase \<Rightarrow> remember_account_recovery_phrase L S account_key_id passphrase k
               | None \<Rightarrow> (Ok (), k))
         | None \<Rightarrow> (Ok (), k)) = (Ok (), k1)"
  let ?workspace = "\<lambda>k1 k2. (if cfg_remember_workspace_key config
         then try_then (remember_workspace_key L S (cfg_vault_id config) workspace_key k1) (\<lambda>_ k.
                case phrase of
                  Some passphrase \<Rightarrow> remember_passphrase L S (cfg_vault_id config) passphrase k
                | None \<Rightarrow> (Ok (), k))
         else try_then (forget_workspace_key S (cfg_vault_id config) k1) (\<lambda>_ k.
                forget_passphrase S (cfg_vault_id config) k)) = (Ok (), k2)"
  obtain k1 k2 where acc: "?account k1" and w: "?workspace k1 k2"
    and s: "remember_device_signing_key L S (cfg_vault_id config) signing_key k2 = (Ok (), k')"
    using assms(3) unfolding persist_local_keys_def try_then_unit_Ok by (elim exE conjE)
  from acc have a: "\<forall>x. (\<forall>i. x \<noteq> RootKey i) \<longrightarrow> (\<forall>i. x \<noteq> RecoveryPhrase i) \<longrightarrow> secrets L S k1 x = secrets L S k x"
    by (auto simp: try_then_unit_Ok split: option.split_asm prod.split_asm)
  from s have s': "secrets L S k' = (secrets L S k2)(SigningKey (cfg_vault_id config) := Ok (Some signing_key))" by auto
  from w have w': "secrets L S k2 (WorkspaceKey (cfg_vault_id config)) =
      Ok (if cfg_remember_workspace_key config then Some workspace_key else None)"
    "\<not> cfg_remember_workspace_key config \<Longrightarrow> secrets L S k2 (PassphraseOf (cfg_vault_id config)) = Ok None"
    "x \<noteq> WorkspaceKey (cfg_vault_id config) \<Longrightarrow> x \<noteq> PassphraseOf (cfg_vault_id config) \<Longrightarrow>
      secrets L S k2 x = secrets L S k1 x" for x
    by (auto simp: try_then_unit_Ok split: if_split_asm option.split_asm)
  show "secrets L S k' (SigningKey (cfg_vault_id config)) = Ok (Some signing_key)"
    "secrets L S k' (WorkspaceKey (cfg_vault_id config)) =
      Ok (if cfg_remember_workspace_key config then Some workspace_key else None)"
    "\<not> cfg_remember_workspace_key config \<Longrightarrow> secrets L S k' (PassphraseOf (cfg_vault_id config)) = Ok None"
    "v \<noteq> cfg_vault_id config \<Longrightarrow> x \<in> {WorkspaceKey v, PassphraseOf v, SigningKey v} \<Longrightarrow> secrets L S k' x = secrets L S k x"
    using a w' by (auto simp: s')
qed

text \<open>
  What configuring a vault leaves on the device: with the choice to remember it, every later run of the vault uses
  exactly the workspace key that was configured, without asking the server or the user; without
  that choice neither the key nor the passphrase stays in the keychain. The signing key is kept in
  both cases, and the secrets of other vaults are untouched.
\<close>

theorem configured_key_is_used:
  assumes "keyring_ok (ks_keyring (se_store E))" "base64_ok (se_libs E)"
    and "length workspace_key = 32" "length signing_key = 32"
    and "persist_local_keys (se_libs E) (se_store E) config workspace_key signing_key phrase account k = (Ok (), k')"
  shows "read_device_signing_key (se_libs E) (se_store E) (cfg_vault_id config) k' = Ok (Some signing_key) \<and>
    (if cfg_remember_workspace_key config
     then workspace_key_for_run E (cfg_vault_id config) workspace_id account_key_id remember passphrase (s, k') =
            (Ok workspace_key, s, k')
     else read_remembered_workspace_key (se_libs E) (se_store E) (cfg_vault_id config) k' = Ok None \<and>
       read_remembered_passphrase (se_libs E) (se_store E) (cfg_vault_id config) k' = Ok None) \<and>
    (\<forall>v x. v \<noteq> cfg_vault_id config \<longrightarrow> x \<in> {WorkspaceKey v, PassphraseOf v, SigningKey v} \<longrightarrow>
       secrets (se_libs E) (se_store E) k' x = secrets (se_libs E) (se_store E) k x)"
proof (intro conjI allI impI)
  note kept = persist_local_keys_secrets [OF assms(1,2,5)]
  show "read_device_signing_key (se_libs E) (se_store E) (cfg_vault_id config) k' = Ok (Some signing_key)"
    by (simp add: read_by_secrets kept(1) assms(4))
  show "if cfg_remember_workspace_key config
     then workspace_key_for_run E (cfg_vault_id config) workspace_id account_key_id remember passphrase (s, k') =
            (Ok workspace_key, s, k')
     else read_remembered_workspace_key (se_libs E) (se_store E) (cfg_vault_id config) k' = Ok None \<and>
       read_remembered_passphrase (se_libs E) (se_store E) (cfg_vault_id config) k' = Ok None"
    using kept(3)
    by (simp add: workspace_key_for_run_def read_keys_def pure_step_def read_by_secrets kept(2) assms(3))
  show "secrets (se_libs E) (se_store E) k' x = secrets (se_libs E) (se_store E) k x"
    if "v \<noteq> cfg_vault_id config" "x \<in> {WorkspaceKey v, PassphraseOf v, SigningKey v}" for v x
    using that by (rule kept(4))
qed

section \<open>Default names do not repeat\<close>

lemma parse_show_nat: "n < 2 ^ 64 \<Longrightarrow> parse_usize (show_nat n) = Some n"
proof -
  assume n: "n < 2 ^ 64"
  obtain c cs where c: "show_nat n = c # cs" by (cases "show_nat n") simp_all
  then have "is_ascii_digit c" using show_nat_digits [of c n] by simp
  then have "c \<noteq> CHR ''+''" by (auto simp: is_ascii_digit_def)
  then have "parse_usize (show_nat n) = (if \<not> list_all is_ascii_digit (show_nat n) \<or> read_nat (show_nat n) \<ge> 2 ^ 64
      then None else Some (read_nat (show_nat n)))"
    unfolding parse_usize_def Let_def c by simp
  moreover have "list_all is_ascii_digit (show_nat n)" using show_nat_digits [of _ n] by (simp add: list_all_iff)
  ultimately show ?thesis using n by simp
qed

definition next_index :: "('a \<Rightarrow> nat option) \<Rightarrow> 'a \<Rightarrow> nat \<Rightarrow> nat" where
  "next_index idx w n = (case idx w of Some i \<Rightarrow> max n (min (i + 1) (2 ^ 64 - 1)) | None \<Rightarrow> n)"

lemma next_index_bounds:
  "n \<le> next_index idx w n" "n < 2 ^ 64 \<Longrightarrow> next_index idx w n < 2 ^ 64"
  "idx w = Some i \<Longrightarrow> min (i + 1) (2 ^ 64 - 1) \<le> next_index idx w n"
  by (auto simp: next_index_def split: option.splits)

lemma fold_next_index_ge: "n \<le> fold (next_index idx) ws n"
  by (induction ws arbitrary: n) (auto intro: order_trans next_index_bounds(1))

lemma fold_next_index_lt: "n < 2 ^ 64 \<Longrightarrow> fold (next_index idx) ws n < 2 ^ 64"
  by (induction ws arbitrary: n) (simp_all only: fold_simps next_index_bounds(2))

lemma fold_next_index_above:
  "w \<in> set ws \<Longrightarrow> idx w = Some i \<Longrightarrow> min (i + 1) (2 ^ 64 - 1) \<le> fold (next_index idx) ws n"
proof (induction ws arbitrary: n)
  case (Cons w' ws)
  show ?case
  proof (cases "w' = w")
    case True
    have "min (i + 1) (2 ^ 64 - 1) \<le> next_index idx w n" using Cons.prems(2) by (rule next_index_bounds(3))
    also have "\<dots> \<le> fold (next_index idx) ws (next_index idx w n)" by (rule fold_next_index_ge)
    finally show ?thesis using True by simp
  next
    case False
    with Cons show ?thesis by simp
  qed
qed simp

lemma new_workspace_name_fresh:
  assumes "workspace \<in> set workspaces" "workspace_display_name_from_metadata L account workspace = Ok name"
    and "workspace_index L account workspace \<noteq> Some (2 ^ 64 - 1)"
  shows "trim name \<noteq> next_workspace_display_name L account workspaces"
proof
  let ?n = "fold (next_index (workspace_index L account)) workspaces 1"
  assume "trim name = next_workspace_display_name L account workspaces"
  then have name: "trim name = ''Workspace '' @ show_nat ?n"
    by (simp only: next_workspace_display_name_def next_index_def [abs_def])
  have lt: "?n < 2 ^ 64" by (rule fold_next_index_lt) simp
  have "prefix ''Workspace '' (trim name)" "drop (length ''Workspace '') (trim name) = show_nat ?n"
    unfolding name by (rule prefixI, rule refl) (simp only: drop_append diff_self_eq_0 drop0 drop_all order_refl append_Nil)
  with assms(2) parse_show_nat [OF lt] have i: "workspace_index L account workspace = Some ?n"
    by (simp only: workspace_index_def result.case if_True)
  have "min (?n + 1) (2 ^ 64 - 1) \<le> ?n" using assms(1) i by (rule fold_next_index_above)
  with lt have "?n = 2 ^ 64 - 1" by linarith
  with i assms(3) show False by simp
qed

section \<open>Witnesses\<close>

definition sample_setup_libs :: setup_libs where
  "sample_setup_libs = config_libs.extend sample_config_libs (setup_libs.fields (\<lambda>k. k))"

lemmas sample_setup_libs_defs = sample_setup_libs_def config_libs.defs setup_libs.defs

lemma sample_setup_libs_ok:
  "aead_ok sample_setup_libs" "sha256_ok sample_setup_libs" "base64_ok sample_setup_libs"
  "account_json_ok sample_setup_libs" "config_json_ok sample_setup_libs"
  using sample_account_libs_ok(1-4) sample_config_json_ok
  by (simp_all add: aead_ok_def sha256_ok_def base64_ok_def account_json_ok_def config_json_ok_def
      sample_setup_libs_defs sample_config_libs_defs)

definition sample_workspace :: sync_workspace_metadata where
  "sample_workspace = \<lparr>ws_workspace_id = ''w'', ws_current_head_commit_id = [], ws_head_version = 0,
     ws_crypto_version = CRYPTO_VERSION, ws_encrypted_metadata = [], ws_metadata_version = 0,
     ws_encrypted_workspace_key = [], ws_workspace_key_version = 0\<rparr>"

text \<open>A server with one workspace, which it updates as it is told.\<close>

definition sample_setup_api :: "sync_workspace_metadata setup_api" where
  "sample_setup_api =
     \<lparr>sa_get_account_key_state = (\<lambda>s. (Ok None, s)), sa_create_account_key = (\<lambda>_ s. (Ok (), s)),
      sa_list_account_key_envelopes = (\<lambda>s. (Ok [], s)), sa_create_workspace = (\<lambda>_ s. (Ok s, s)),
      sa_list_workspaces = (\<lambda>s. (Ok [s], s)), sa_delete_workspace = (\<lambda>_ s. (Ok (), s)),
      sa_update_workspace_metadata = (\<lambda>i s.
        let s = s\<lparr>ws_encrypted_metadata := uw_encrypted_metadata i, ws_metadata_version := uw_metadata_version i\<rparr> in (Ok s, s)),
      sa_update_workspace_key = (\<lambda>i s.
        let s = s\<lparr>ws_encrypted_workspace_key := uk_encrypted_workspace_key i,
              ws_workspace_key_version := uk_workspace_key_version i\<rparr> in (Ok s, s)),
      sa_register_device = (\<lambda>_ _ _ _ s. (Err LoginRequired, s)), sa_list_key_envelopes = (\<lambda>_ s. (Ok [], s)),
      sa_update_device_metadata = (\<lambda>_ s. (Err LoginRequired, s))\<rparr>"

definition sample_setup_env :: "(sync_workspace_metadata, sample_ring) setup_env" where
  "sample_setup_env = \<lparr>se_libs = sample_setup_libs, se_store = sample_store, se_api = sample_setup_api,
     se_auth = \<lparr>au_authorized = Ok True, au_header = Ok (Some ''Bearer'')\<rparr>, se_hostnames = (None, None)\<rparr>"

definition sample_randomness :: randomness where
  "sample_randomness = \<lparr>rn_account_key_id = replicate 16 nul, rn_account_root_key = replicate 32 CHR ''r'',
     rn_salt = replicate 16 nul, rn_wrap_nonce = replicate 24 nul, rn_workspace_key = replicate 32 CHR ''k'',
     rn_metadata_nonce = replicate 24 nul, rn_key_nonce = replicate 24 nul, rn_signing_key = replicate 32 CHR ''s'',
     rn_device_nonce = replicate 24 nul\<rparr>"

definition sample_account_key :: prepared_account_key where
  "sample_account_key = \<lparr>pk_account_key_id = ''a'', pk_account_root_key = replicate 32 CHR ''r'', pk_recovery_phrase = None\<rparr>"

lemma sample_randomness_ok: "randomness_ok sample_randomness"
  by (simp add: randomness_ok_def sample_randomness_def)

lemma sample_encrypts: "is_ok (encrypt_blob_with_nonce sample_setup_libs to_json key aad m n)"
  by (simp add: encrypt_blob_with_nonce_def sample_setup_libs_defs sample_config_libs_defs sample_account_libs_defs
      sample_commit_libs_defs sample_pack_defs sample_crypto_def Let_def)

lemma sample_put_workspace:
  "is_ok (fst (put_account_workspace_metadata sample_setup_env sample_randomness sample_account_key ''w'' ''Notes''
     (replicate 32 CHR ''k'') (sample_workspace, Map.empty)))"
proof -
  obtain a b where "encrypt_workspace_metadata sample_setup_libs (rn_metadata_nonce sample_randomness)
      (pk_account_root_key sample_account_key) (pk_account_key_id sample_account_key) ''w'' WORKSPACE_METADATA_VERSION
      (new_display_metadata ''Notes'') = Ok a"
    "encrypt_workspace_key_for_account sample_setup_libs (rn_key_nonce sample_randomness)
      (pk_account_root_key sample_account_key) (pk_account_key_id sample_account_key) ''w'' WORKSPACE_KEY_VERSION
      (replicate 32 CHR ''k'') = Ok b"
    using sample_encrypts unfolding is_ok_iff encrypt_workspace_metadata_def encrypt_workspace_key_for_account_def by metis
  then show ?thesis
    by (simp add: put_account_workspace_metadata_def sample_setup_env_def sample_setup_api_def pure_step_def on_server_def
        Let_def)
qed

theorem stored_workspace_opens_witness:
  "\<exists>metadata key. workspace_display_name_from_metadata sample_setup_libs sample_account_key
      (sample_workspace\<lparr>ws_encrypted_metadata := metadata, ws_metadata_version := WORKSPACE_METADATA_VERSION,
        ws_encrypted_workspace_key := key, ws_workspace_key_version := WORKSPACE_KEY_VERSION\<rparr>) = Ok ''Notes'' \<and>
    workspace_key_from_account sample_setup_libs sample_account_key
      (sample_workspace\<lparr>ws_encrypted_metadata := metadata, ws_metadata_version := WORKSPACE_METADATA_VERSION,
        ws_encrypted_workspace_key := key, ws_workspace_key_version := WORKSPACE_KEY_VERSION\<rparr>) = Ok (replicate 32 CHR ''k'')"
proof -
  have libs: "se_libs sample_setup_env = sample_setup_libs" by (simp add: sample_setup_env_def)
  obtain st' where st: "put_account_workspace_metadata sample_setup_env sample_randomness sample_account_key ''w'' ''Notes''
     (replicate 32 CHR ''k'') (sample_workspace, Map.empty) = (Ok (), st')"
    using sample_put_workspace
    by (cases "put_account_workspace_metadata sample_setup_env sample_randomness sample_account_key ''w'' ''Notes''
     (replicate 32 CHR ''k'') (sample_workspace, Map.empty)") (simp add: is_ok_iff)
  obtain metadata key where "\<forall>ws. ws_workspace_id ws = ''w'' \<longrightarrow>
      ws_encrypted_metadata ws = metadata \<longrightarrow> ws_metadata_version ws = WORKSPACE_METADATA_VERSION \<longrightarrow>
      ws_encrypted_workspace_key ws = key \<longrightarrow> ws_workspace_key_version ws = WORKSPACE_KEY_VERSION \<longrightarrow>
      workspace_display_name_from_metadata sample_setup_libs sample_account_key ws = Ok ''Notes'' \<and>
      workspace_key_from_account sample_setup_libs sample_account_key ws = Ok (replicate 32 CHR ''k'')"
    using stored_workspace_opens [of sample_setup_env, OF _ _ _ sample_randomness_ok _ st, unfolded libs,
        OF sample_setup_libs_ok(1,2,4) length_replicate]
    by (elim exE conjE)
  then have "workspace_display_name_from_metadata sample_setup_libs sample_account_key
      (sample_workspace\<lparr>ws_encrypted_metadata := metadata, ws_metadata_version := WORKSPACE_METADATA_VERSION,
        ws_encrypted_workspace_key := key, ws_workspace_key_version := WORKSPACE_KEY_VERSION\<rparr>) = Ok ''Notes'' \<and>
    workspace_key_from_account sample_setup_libs sample_account_key
      (sample_workspace\<lparr>ws_encrypted_metadata := metadata, ws_metadata_version := WORKSPACE_METADATA_VERSION,
        ws_encrypted_workspace_key := key, ws_workspace_key_version := WORKSPACE_KEY_VERSION\<rparr>) = Ok (replicate 32 CHR ''k'')"
    by (simp add: sample_workspace_def)
  then show ?thesis by (intro exI)
qed

theorem configured_key_is_used_witness:
  "\<exists>k'. persist_local_keys sample_setup_libs sample_store sample_settings (replicate 32 CHR ''k'') (replicate 32 CHR ''s'')
      None None Map.empty = (Ok (), k') \<and>
    workspace_key_for_run sample_setup_env ''v'' ''w'' None False None (sample_workspace, k') =
      (Ok (replicate 32 CHR ''k''), sample_workspace, k')"
proof -
  have env: "se_libs sample_setup_env = sample_setup_libs" "se_store sample_setup_env = sample_store"
    by (simp_all add: sample_setup_env_def)
  have ok: "keyring_ok (ks_keyring (se_store sample_setup_env))" "base64_ok (se_libs sample_setup_env)"
    by (simp_all add: env sample_store_def sample_keyring_ok sample_setup_libs_ok(3))
  have "\<exists>k'. write_secret sample_setup_libs sample_store a b k = (Ok (), k')" for a b k
    by (simp add: write_secret_Ok sample_store_def sample_keyring_def open_entry_def)
  then obtain w where "write_secret sample_setup_libs sample_store a b k = (Ok (), w a b k)" for a b k by metis
  then obtain k' where k': "persist_local_keys (se_libs sample_setup_env) (se_store sample_setup_env) sample_settings
      (replicate 32 CHR ''k'') (replicate 32 CHR ''s'') None None Map.empty = (Ok (), k')"
    unfolding env by (simp add: persist_local_keys_def sample_settings_def key_store_defs)
  have "workspace_key_for_run sample_setup_env (cfg_vault_id sample_settings) ''w'' None False None (sample_workspace, k') =
      (Ok (replicate 32 CHR ''k''), sample_workspace, k')"
    using configured_key_is_used [OF ok length_replicate length_replicate k', of "''w''" None False None sample_workspace]
    by (simp add: sample_settings_def)
  with k' show ?thesis unfolding env by (intro exI conjI) (simp_all add: sample_settings_def)
qed

end
