(* ===== verification/Sync_Push.thy ===== *)
theory Sync_Push
  imports Sync_Commit
begin

text \<open>
  The push pipeline (\<^verbatim>\<open>sync/checkpoint.rs\<close>): scan the vault, apply the scan to the database, plan a commit,
  upload its encrypted objects and publish it. The services of the server are the record
  \<open>commit_net\<close>; a push calls each of them at most once. The database is threaded explicitly and kept as it
  is left when a step fails. \<open>nonces\<close> supplies the random nonce of the \<open>k\<close>-th encryption of the push.
\<close>

section \<open>Data\<close>

definition CHECKPOINT_COMMIT_INTERVAL :: int where "CHECKPOINT_COMMIT_INTERVAL = 100"
definition CHECKPOINT_INCREMENTAL_BYTES_INTERVAL :: int where
  "CHECKPOINT_INCREMENTAL_BYTES_INTERVAL = 64 * 1024 * 1024"
definition CHECKPOINT_WALL_CLOCK_INTERVAL_MS :: int where
  "CHECKPOINT_WALL_CLOCK_INTERVAL_MS = 7 * 24 * 60 * 60 * 1000"

record checkpoint_trigger_input =
  commits_since_checkpoint :: int
  incremental_encrypted_bytes_since_checkpoint :: int
  trigger_now_ms :: int
  last_checkpoint_at_ms :: "int option"
  trigger_force :: bool

record commit_net =
  cn_get_head :: "string \<Rightarrow> sync_head sync_result"
  cn_publish_commit :: "publish_commit_input \<Rightarrow> published_commit sync_result"
  cn_transfer :: transfer_net

record push_input =
  in_vault_id :: string
  in_vault_root :: fpath
  in_workspace_id :: string
  in_device_id :: string
  in_workspace_key :: symmetric_key
  in_signing_key :: bytes
  in_now_ms :: int

record push_merge_input = push_input +
  in_local_parent_commit_id :: string

record push_result =
  published :: bool
  result_commit_id :: "string option"
  result_commit_kind :: "commit_plan_kind option"
  uploaded_object_ids :: "string list"
  file_op_count :: nat
  idempotent :: bool

record reserved_commit_objects =
  rc_body_object_id :: string
  rc_pack_object_ids :: "(string \<times> string) list"

section \<open>Operations\<close>

definition should_create_checkpoint :: "checkpoint_trigger_input \<Rightarrow> bool" where
  "should_create_checkpoint t \<longleftrightarrow>
     trigger_force t \<or>
     commits_since_checkpoint t \<ge> CHECKPOINT_COMMIT_INTERVAL \<or>
     incremental_encrypted_bytes_since_checkpoint t \<ge> CHECKPOINT_INCREMENTAL_BYTES_INTERVAL \<or>
     (case last_checkpoint_at_ms t of
        None \<Rightarrow> False
      | Some l \<Rightarrow> i64_saturate (trigger_now_ms t - l) \<ge> CHECKPOINT_WALL_CLOCK_INTERVAL_MS)"

definition validate_push_input :: "'z push_input_scheme \<Rightarrow> unit sync_result" where
  "validate_push_input input =
     and_then (validate_required (in_vault_id input) ''vault_id'') (\<lambda>_.
     and_then (validate_required (in_workspace_id input) ''workspace_id'') (\<lambda>_.
     validate_required (in_device_id input) ''device_id''))"

definition validate_push_merge_input :: "push_merge_input \<Rightarrow> unit sync_result" where
  "validate_push_merge_input input =
     and_then (validate_required (in_vault_id input) ''vault_id'') (\<lambda>_.
     and_then (validate_required (in_workspace_id input) ''workspace_id'') (\<lambda>_.
     and_then (validate_required (in_device_id input) ''device_id'') (\<lambda>_.
     validate_required (in_local_parent_commit_id input) ''local_parent_commit_id'')))"

definition new_vault_record :: "'z push_input_scheme \<Rightarrow> sync_head \<Rightarrow> sync_vault_record" where
  "new_vault_record input head =
     \<lparr>vr_vault_id = in_vault_id input, vr_root_path = display_path (in_vault_root input),
      vr_remote_workspace_id = in_workspace_id input,
      vr_remote_head_commit_id = empty_to_none (current_head_commit_id head),
      vr_local_head_commit_id = empty_to_none (current_head_commit_id head),
      vr_device_id = in_device_id input, vr_next_device_seq = 1, vr_enabled = True,
      vr_created_at_ms = in_now_ms input, vr_updated_at_ms = in_now_ms input\<rparr>"

definition refresh_vault_record :: "'z push_input_scheme \<Rightarrow> sync_vault_record \<Rightarrow> sync_vault_record" where
  "refresh_vault_record input vault =
     vault\<lparr>vr_root_path := display_path (in_vault_root input),
       vr_remote_workspace_id := in_workspace_id input, vr_device_id := in_device_id input,
       vr_enabled := True, vr_updated_at_ms := in_now_ms input,
       vr_next_device_seq := (if vr_next_device_seq vault \<le> 0 then 1 else vr_next_device_seq vault)\<rparr>"

definition ensure_vault_record ::
    "'z push_input_scheme \<Rightarrow> sync_head \<Rightarrow> sync_db \<Rightarrow> sync_vault_record \<times> sync_db" where
  "ensure_vault_record input head db =
     (let vault = refresh_vault_record input
            (case get_vault db (in_vault_id input) of
               Some v \<Rightarrow> v | None \<Rightarrow> new_vault_record input head)
      in (vault, upsert_vault vault db))"

definition ensure_merge_vault_record ::
    "'z push_input_scheme \<Rightarrow> sync_head \<Rightarrow> sync_db \<Rightarrow> sync_vault_record \<times> sync_db" where
  "ensure_merge_vault_record input head db =
     (let vault = (refresh_vault_record input
            (case get_vault db (in_vault_id input) of
               Some v \<Rightarrow> v | None \<Rightarrow> new_vault_record input head))
            \<lparr>vr_remote_head_commit_id := empty_to_none (current_head_commit_id head)\<rparr>
      in (vault, upsert_vault vault db))"

definition ensure_local_head_can_push :: "sync_vault_record \<Rightarrow> string \<Rightarrow> unit sync_result" where
  "ensure_local_head_can_push vault remote_head =
     (let local_head = (case vr_local_head_commit_id vault of Some h \<Rightarrow> h | None \<Rightarrow> []) in
      if remote_head \<noteq> [] \<and> local_head \<noteq> remote_head
      then Err (Transport (''remote head '' @ remote_head @
             '' is not present locally; pull is required before push''))
      else Ok ())"

definition ensure_merge_parent_can_push ::
    "sync_vault_record \<Rightarrow> string \<Rightarrow> string \<Rightarrow> unit sync_result" where
  "ensure_merge_parent_can_push vault remote_head local_parent_commit_id =
     (if remote_head = [] then Err (InvalidArgument ''merge commit requires a remote head'')
      else if remote_head = local_parent_commit_id
      then Err (InvalidArgument ''merge commit requires a distinct local parent'')
      else ensure_local_head_can_push vault remote_head)"

definition parent_ids :: "string \<Rightarrow> string list" where
  "parent_ids expected_head = (if expected_head = [] then [] else [expected_head])"

definition COMMIT_BODY_REF :: string where "COMMIT_BODY_REF = ''commit-body''"

fun sort_reserved ::
    "reserved_object list \<Rightarrow> string option \<Rightarrow> (string \<times> string) list
      \<Rightarrow> string option \<times> (string \<times> string) list" where
  "sort_reserved [] body packs = (body, packs)"
| "sort_reserved (ob # obs) body packs =
     (if ro_client_object_ref ob = COMMIT_BODY_REF then sort_reserved obs (Some (ro_object_id ob)) packs
      else sort_reserved obs body (bt_insert (ro_client_object_ref ob) (ro_object_id ob) packs))"

definition reserved_commit_objects_of :: "reserved_object list \<Rightarrow> reserved_commit_objects sync_result" where
  "reserved_commit_objects_of reserved =
     (let (body, packs) = sort_reserved reserved None [] in
      and_then (ok_or body (Transport ''missing reserved commit body object'')) (\<lambda>i.
        Ok \<lparr>rc_body_object_id = i, rc_pack_object_ids = packs\<rparr>))"

definition reserve_commit_objects ::
    "commit_net \<Rightarrow> string \<Rightarrow> string \<Rightarrow> sync_plan \<Rightarrow> reserved_commit_objects sync_result" where
  "reserve_commit_objects N workspace_id device_id plan =
     and_then (collect_results (\<lambda>shard.
         and_then (object_kind_for_pack_kind (ps_pack_kind shard)) (\<lambda>kind.
           Ok \<lparr>ri_client_object_ref = ps_pack_ref shard, ri_kind = kind\<rparr>)) (pack_shards plan)) (\<lambda>requests.
     and_then (net_reserve_object_ids (cn_transfer N) workspace_id device_id
         (requests @ [\<lparr>ri_client_object_ref = COMMIT_BODY_REF, ri_kind = OBJECT_KIND_COMMIT_BODY\<rparr>]))
       reserved_commit_objects_of)"

definition reserved_pack :: "reserved_commit_objects \<Rightarrow> string \<Rightarrow> string sync_result" where
  "reserved_pack reserved pack_ref =
     ok_or (bt_get (rc_pack_object_ids reserved) pack_ref)
       (Transport (''missing reserved pack object for '' @ pack_ref))"

fun materialize_op ::
    "reserved_commit_objects \<Rightarrow> plan_file_op \<Rightarrow> tree_map \<Rightarrow> tree_map sync_result" where
  "materialize_op reserved (PlanUpsert i path np h n pack_ref entry_id) tree =
     and_then (reserved_pack reserved pack_ref) (\<lambda>object_id.
       Ok (bt_insert i \<lparr>tr_commit_id = [], tr_file_id = i, tr_normalized_path = np,
             tr_plaintext_hash = Some h, tr_content_object_id = Some object_id,
             tr_pack_entry_id = Some entry_id, tr_kind = ''markdown''\<rparr> tree))"
| "materialize_op reserved (PlanDelete i path np) tree = Ok (bt_remove i tree)"

definition materialize_tree_entries ::
    "sync_db \<Rightarrow> string \<Rightarrow> sync_plan \<Rightarrow> reserved_commit_objects \<Rightarrow> sync_tree_entry_record list sync_result" where
  "materialize_tree_entries db expected_head plan reserved =
     (let by_file_id = (if expected_head = [] then []
            else tree_of_entries (list_tree_entries db expected_head))
      in and_then (fold_results (materialize_op reserved) (file_ops plan) by_file_id) (\<lambda>tree.
           Ok (entries_of_tree tree)))"

fun commit_body_file_op_of ::
    "reserved_commit_objects \<Rightarrow> plan_file_op \<Rightarrow> commit_body_file_op sync_result" where
  "commit_body_file_op_of reserved (PlanUpsert i path np h n pack_ref entry_id) =
     and_then (reserved_pack reserved pack_ref) (\<lambda>object_id.
       Ok (UpsertFile i path np h n \<lparr>ref_object_id = object_id, ref_entry_id = entry_id\<rparr>))"
| "commit_body_file_op_of reserved (PlanDelete i path np) = Ok (DeleteFile i path np)"

definition commit_body_file_ops ::
    "sync_plan \<Rightarrow> reserved_commit_objects \<Rightarrow> commit_body_file_op list sync_result" where
  "commit_body_file_ops plan reserved = collect_results (commit_body_file_op_of reserved) (file_ops plan)"

definition commit_body_pack_refs ::
    "sync_plan \<Rightarrow> reserved_commit_objects \<Rightarrow> commit_body_pack_ref list" where
  "commit_body_pack_refs plan reserved =
     List.map_filter (\<lambda>shard. map_option (\<lambda>object_id.
         \<lparr>pr_pack_ref = ps_pack_ref shard, pr_object_id = object_id, pr_pack_kind = ps_pack_kind shard,
          pr_shard_index = ps_shard_index shard, pr_entry_count = length (ps_entries shard)\<rparr>)
       (bt_get (rc_pack_object_ids reserved) (ps_pack_ref shard))) (pack_shards plan)"

definition commit_id_for :: "'z commit_libs_scheme \<Rightarrow> commit_identity \<Rightarrow> string" where
  "commit_id_for L identity =
     ''commit_'' @ take 32 (blake3_hex L (json_commit_identity L identity))"

fun encrypted_packs ::
    "'z commit_libs_scheme \<Rightarrow> (nat \<Rightarrow> bytes) \<Rightarrow> nat \<Rightarrow> symmetric_key \<Rightarrow> string \<Rightarrow> string
      \<Rightarrow> reserved_commit_objects \<Rightarrow> pack_shard_plan list
      \<Rightarrow> reserved_encrypted_upload_object list sync_result" where
  "encrypted_packs L nonces k key workspace_id commit_id reserved [] = Ok []"
| "encrypted_packs L nonces k key workspace_id commit_id reserved (shard # shards) =
     and_then (reserved_pack reserved (ps_pack_ref shard)) (\<lambda>object_id.
     and_then (encrypt_pack L (nonces k) key workspace_id object_id (ps_pack_kind shard) commit_id
         (pack_entries shard)) (\<lambda>encrypted.
     and_then (object_kind_for_pack_kind (ps_pack_kind shard)) (\<lambda>kind.
     and_then (encrypted_packs L nonces (k + 1) key workspace_id commit_id reserved shards) (\<lambda>rest.
       Ok (\<lparr>ru_object_id = object_id, ru_kind = kind, ru_ciphertext = ep_blob encrypted\<rparr> # rest)))))"

definition encrypted_uploads ::
    "'z commit_libs_scheme \<Rightarrow> (nat \<Rightarrow> bytes) \<Rightarrow> symmetric_key \<Rightarrow> string \<Rightarrow> string \<Rightarrow> string
      \<Rightarrow> string list \<Rightarrow> string \<Rightarrow> int \<Rightarrow> reserved_commit_objects \<Rightarrow> sync_plan \<Rightarrow> commit_body
      \<Rightarrow> reserved_encrypted_upload_object list sync_result" where
  "encrypted_uploads L nonces key workspace_id commit_id kind parents device_id device_seq reserved
     plan body =
     and_then (encrypted_packs L nonces 0 key workspace_id commit_id reserved (pack_shards plan))
       (\<lambda>uploads.
       let commit_key = commit_body_key L key workspace_id;
           aad = new_commit_body_aad workspace_id commit_id kind parents device_id device_seq
                   (rc_body_object_id reserved)
       in and_then (encrypt_commit_body L (nonces (length (pack_shards plan))) commit_key aad
              (json_commit_body L body)) (\<lambda>body_blob.
            Ok (uploads @ [\<lparr>ru_object_id = rc_body_object_id reserved,
              ru_kind = OBJECT_KIND_COMMIT_BODY, ru_ciphertext = body_blob\<rparr>])))"

text \<open>The \<^verbatim>\<open>BTreeSet\<close> of changed files, in order.\<close>

definition changed_file_ids :: "sync_plan \<Rightarrow> string list" where
  "changed_file_ids plan = map fst (bt_of_list (map (\<lambda>op. (op_file_id op, ())) (file_ops plan)))"

text \<open>The sequence number is an \<^verbatim>\<open>i64\<close>; adding one to the largest wraps around, as a release build does.\<close>

definition i64_wrap :: "int \<Rightarrow> int" where
  "i64_wrap n = (n + 2 ^ 63) mod 2 ^ 64 - 2 ^ 63"

definition apply_publish_success ::
    "'z commit_libs_scheme \<Rightarrow> string \<Rightarrow> published_commit \<Rightarrow> commit_plan_kind \<Rightarrow> string list \<Rightarrow> string
      \<Rightarrow> sync_tree_entry_record list \<Rightarrow> sync_plan \<Rightarrow> int \<Rightarrow> int \<Rightarrow> sync_db
      \<Rightarrow> unit sync_result \<times> sync_db" where
  "apply_publish_success L vault_id pub plan_kind parents tid entries plan device_seq now db =
     (let entries = map (\<lambda>e. if tr_commit_id e = [] then e\<lparr>tr_commit_id := pd_commit_id pub\<rparr> else e) entries
      in try_then (persist_tree_cache (pd_commit_id pub) tid (tree_json_for_entries L entries)
             ''local'' entries now db) (\<lambda>_ db.
           let db = mark_files_synced (pd_commit_id pub) (changed_file_ids plan) db;
               db = upsert_local_commit
                 \<lparr>cr_commit_id = pd_commit_id pub, cr_parent_commit_ids_json = json_string_list L parents,
                  cr_commit_kind = plan_kind_label plan_kind, cr_direction = ''local'',
                  cr_status = ''published'', cr_created_at_ms = now, cr_applied_at_ms = Some now,
                  cr_error = None\<rparr> db
           in (Ok (), update_vault_after_publish vault_id (pd_commit_id pub) (i64_wrap (device_seq + 1)) now db)))"

text \<open>
  The commit a plan describes: what \<^verbatim>\<open>push_local_changes\<close> and \<^verbatim>\<open>push_merge_commit\<close> compute between reserving the
  objects and encrypting them.
\<close>

record prepared_commit =
  pp_tree :: "sync_tree_entry_record list"
  pp_referenced :: "string list"
  pp_body :: commit_body

definition prepare_commit ::
    "'z commit_libs_scheme \<Rightarrow> 'y push_input_scheme \<Rightarrow> commit_plan_kind \<Rightarrow> string \<Rightarrow> string list \<Rightarrow> int
      \<Rightarrow> reserved_commit_objects \<Rightarrow> sync_plan \<Rightarrow> sync_db \<Rightarrow> prepared_commit sync_result" where
  "prepare_commit L input plan_kind expected_head parents device_seq reserved plan db =
     (let referenced = sort (bt_values (rc_pack_object_ids reserved)) in
      and_then (materialize_tree_entries db expected_head plan reserved) (\<lambda>entries.
      let tid = tree_id_for_entries L entries in
      and_then (commit_body_file_ops plan reserved) (\<lambda>changes.
      let commit_id = commit_id_for L
            \<lparr>id_workspace_id = in_workspace_id input, id_author_device_id = in_device_id input,
             id_device_seq = device_seq, id_commit_kind = plan_kind_label plan_kind,
             id_expected_head_commit_id = expected_head, id_parent_commit_ids = parents,
             id_body_object_id = rc_body_object_id reserved, id_referenced_object_ids = referenced,
             id_tree_id = tid, id_changes = changes\<rparr>
      in Ok \<lparr>pp_tree = entries, pp_referenced = referenced,
             pp_body = \<lparr>bd_format = ''kuku.sync.commit-body'', bd_version = 1,
               bd_commit_id = commit_id, bd_commit_kind = plan_kind_label plan_kind,
               bd_parent_commit_ids = parents, bd_tree_id = tid, bd_changes = changes,
               bd_packs = commit_body_pack_refs plan reserved\<rparr>\<rparr>)))"

text \<open>The request to publish, with its signature.\<close>

definition publish_request ::
    "'z commit_libs_scheme \<Rightarrow> 'y push_input_scheme \<Rightarrow> commit_plan_kind \<Rightarrow> string \<Rightarrow> string list \<Rightarrow> int
      \<Rightarrow> string \<Rightarrow> prepared_commit \<Rightarrow> uploaded_object_metadata \<Rightarrow> publish_commit_input" where
  "publish_request L input plan_kind expected_head parents device_seq body_object_id pc meta =
     \<lparr>pc_workspace_id = in_workspace_id input, pc_commit_id = bd_commit_id (pp_body pc),
      pc_commit_kind = proto_commit_kind plan_kind, pc_expected_head_commit_id = expected_head,
      pc_parent_commit_ids = parents, pc_author_device_id = in_device_id input,
      pc_device_seq = device_seq, pc_body_object_id = body_object_id,
      pc_body_ciphertext_sha256 = um_ciphertext_sha256 meta, pc_body_size_bytes = um_size_bytes meta,
      pc_referenced_object_ids = pp_referenced pc,
      pc_signature = sign_commit_payload L (in_signing_key input)
        (new_commit_signature_payload (in_workspace_id input) (bd_commit_id (pp_body pc))
          (plan_kind_label plan_kind) expected_head parents (in_device_id input) device_seq
          body_object_id (um_ciphertext_sha256 meta) (um_size_bytes meta) (pp_referenced pc))\<rparr>"

text \<open>The common tail of both pipelines, from the reservation of the objects on.\<close>

definition publish_plan ::
    "'z commit_libs_scheme \<Rightarrow> commit_net \<Rightarrow> transfer_queue_config \<Rightarrow> (nat \<Rightarrow> bytes)
      \<Rightarrow> 'y push_input_scheme \<Rightarrow> commit_plan_kind \<Rightarrow> string \<Rightarrow> string list \<Rightarrow> int \<Rightarrow> sync_plan
      \<Rightarrow> sync_db \<Rightarrow> push_result sync_result \<times> sync_db" where
  "publish_plan L N queue nonces input plan_kind expected_head parents device_seq plan db =
     try_then (reserve_commit_objects N (in_workspace_id input) (in_device_id input) plan, db)
       (\<lambda>reserved db.
     try_then (prepare_commit L input plan_kind expected_head parents device_seq reserved plan db, db)
       (\<lambda>pc db.
     try_then (encrypted_uploads L nonces (in_workspace_key input) (in_workspace_id input)
         (bd_commit_id (pp_body pc)) (plan_kind_label plan_kind) parents (in_device_id input)
         device_seq reserved plan (pp_body pc), db) (\<lambda>uploads db.
     try_then (snd (upload_reserved_objects L (cn_transfer N) queue (in_workspace_id input)
         (in_device_id input) (''upload_'' @ bd_commit_id (pp_body pc)) uploads), db) (\<lambda>uploaded db.
     try_then (ok_or (find (\<lambda>m. um_object_id m = rc_body_object_id reserved) uploaded)
         (Transport ''commit body upload metadata missing''), db) (\<lambda>meta db.
     try_then (cn_publish_commit N (publish_request L input plan_kind expected_head parents
         device_seq (rc_body_object_id reserved) pc meta), db) (\<lambda>pub db.
     try_then (apply_publish_success L (in_vault_id input) pub plan_kind parents
         (bd_tree_id (pp_body pc)) (pp_tree pc) plan device_seq (in_now_ms input) db) (\<lambda>_ db.
       (Ok \<lparr>published = True, result_commit_id = Some (bd_commit_id (pp_body pc)),
            result_commit_kind = Some plan_kind, uploaded_object_ids = map um_object_id uploaded,
            file_op_count = length (file_ops plan), idempotent = pd_idempotent pub\<rparr>, db))))))))"

definition not_published :: push_result where
  "not_published = \<lparr>published = False, result_commit_id = None, result_commit_kind = None,
     uploaded_object_ids = [], file_op_count = 0, idempotent = False\<rparr>"

text \<open>Scanning the vault and recording what was found, before planning.\<close>

definition scan_and_apply ::
    "'z commit_libs_scheme \<Rightarrow> fpath \<Rightarrow> fnode \<Rightarrow> int \<Rightarrow> sync_db
      \<Rightarrow> (scanned_file list \<times> scan_apply_result) sync_result \<times> sync_db" where
  "scan_and_apply L root fs now db =
     try_then (scan_vault (to_lowercase L) (blake3_hex L) root fs, db) (\<lambda>files db.
     try_then (apply_scan (blake3_hex L) (map file_input files) now db) (\<lambda>res db.
       (Ok (files, res), db)))"

definition push_local_changes ::
    "'z commit_libs_scheme \<Rightarrow> commit_net \<Rightarrow> transfer_queue_config \<Rightarrow> planner_config \<Rightarrow> (nat \<Rightarrow> bytes)
      \<Rightarrow> push_input \<Rightarrow> fnode \<Rightarrow> sync_db \<Rightarrow> push_result sync_result \<times> sync_db" where
  "push_local_changes L N queue planner nonces input fs db =
     try_then (validate_push_input input, db) (\<lambda>_ db.
     try_then (cn_get_head N (in_workspace_id input), db) (\<lambda>head db.
     let (vault, db) = ensure_vault_record input head db;
         expected_head = current_head_commit_id head in
     try_then (ensure_local_head_can_push vault expected_head, db) (\<lambda>_ db.
     try_then (scan_and_apply L (in_vault_root input) fs (in_now_ms input) db) (\<lambda>(files, res) db.
     let plan_kind = (if expected_head = [] then PlanCheckpoint else PlanIncremental) in
     try_then ((if expected_head = []
         then plan_checkpoint (blake3_hex L) (json_planned_tree L) files planner
         else plan_incremental (blake3_hex L) (json_planned_tree L) res files planner), db) (\<lambda>plan db.
       if plan_is_empty plan then (Ok not_published, db)
       else publish_plan L N queue nonces input plan_kind expected_head (parent_ids expected_head)
              (vr_next_device_seq vault) plan db)))))"

definition push_merge_commit ::
    "'z commit_libs_scheme \<Rightarrow> commit_net \<Rightarrow> transfer_queue_config \<Rightarrow> planner_config \<Rightarrow> (nat \<Rightarrow> bytes)
      \<Rightarrow> push_merge_input \<Rightarrow> fnode \<Rightarrow> sync_db \<Rightarrow> push_result sync_result \<times> sync_db" where
  "push_merge_commit L N queue planner nonces input fs db =
     try_then (validate_push_merge_input input, db) (\<lambda>_ db.
     try_then (cn_get_head N (in_workspace_id input), db) (\<lambda>head db.
     let (vault, db) = ensure_merge_vault_record input head db;
         expected_head = current_head_commit_id head in
     try_then (ensure_merge_parent_can_push vault expected_head (in_local_parent_commit_id input), db)
       (\<lambda>_ db.
     try_then (scan_and_apply L (in_vault_root input) fs (in_now_ms input) db) (\<lambda>(files, res) db.
     try_then (plan_incremental (blake3_hex L) (json_planned_tree L) res files planner, db)
       (\<lambda>plan db.
     let plan = plan\<lparr>commit_kind := PlanMerge\<rparr> in
       if plan_is_empty plan then (Ok not_published, db)
       else publish_plan L N queue nonces input PlanMerge expected_head
              [expected_head, in_local_parent_commit_id input] (vr_next_device_seq vault) plan db)))))"

section \<open>A push is a sequence of database operations\<close>

lemma try_then_steps:
  assumes "R\<^sup>*\<^sup>* s (snd m)" and "\<And>a s'. m = (Ok a, s') \<Longrightarrow> R\<^sup>*\<^sup>* s' (snd (f a s'))"
  shows "R\<^sup>*\<^sup>* s (snd (try_then m f))"
  using assms by (cases m; cases "fst m") (auto intro: rtranclp_trans)

lemma db_steps_scan_and_apply:
  "(db_step (blake3_hex L))\<^sup>*\<^sup>* db (snd (scan_and_apply L root fs now db))"
proof -
  have "(db_step (blake3_hex L))\<^sup>*\<^sup>* d (snd (apply_scan (blake3_hex L) inputs now d))" for d inputs
    by (rule r_into_rtranclp) (rule db_step.scan)
  then show ?thesis unfolding scan_and_apply_def by (intro try_then_steps) simp_all
qed

lemma db_steps_publish_success:
  "(db_step hash)\<^sup>*\<^sup>* db (snd (apply_publish_success L i pub k ps tid es plan n now db))"
proof -
  have "(db_step hash)\<^sup>*\<^sup>* d (update_vault_after_publish i c n now (upsert_local_commit r (mark_files_synced c fs d)))"
    for d c r n fs
    by (meson db_step.synced db_step.commit db_step.publish converse_rtranclp_into_rtranclp
        rtranclp.rtrancl_refl)
  moreover have "(db_step hash)\<^sup>*\<^sup>* d (snd (persist_tree_cache c t j src es now d))" for d c t j src es
    by (rule r_into_rtranclp) (rule db_step.tree)
  ultimately show ?thesis
    unfolding apply_publish_success_def Let_def by (intro try_then_steps) simp_all
qed

lemma db_steps_publish_plan:
  "(db_step (blake3_hex L))\<^sup>*\<^sup>* db (snd (publish_plan L N q nonces input k h ps n plan db))"
  unfolding publish_plan_def by (intro try_then_steps) (simp_all add: db_steps_publish_success)

lemma db_steps_upsert_vault: "(db_step hash)\<^sup>*\<^sup>* db (upsert_vault v db)"
  by (rule r_into_rtranclp) (rule db_step.vault)

lemma db_steps_push_local_changes:
  "(db_step (blake3_hex L))\<^sup>*\<^sup>* db (snd (push_local_changes L N q planner nonces input fs db))"
  unfolding push_local_changes_def Let_def ensure_vault_record_def split
  by (intro try_then_steps)
    (auto intro!: try_then_steps db_steps_upsert_vault db_steps_scan_and_apply db_steps_publish_plan
      split: prod.splits)

lemma db_steps_push_merge_commit:
  "(db_step (blake3_hex L))\<^sup>*\<^sup>* db (snd (push_merge_commit L N q planner nonces input fs db))"
  unfolding push_merge_commit_def Let_def ensure_merge_vault_record_def split
  by (intro try_then_steps)
    (auto intro!: try_then_steps db_steps_upsert_vault db_steps_scan_and_apply db_steps_publish_plan
      split: prod.splits)

section \<open>The published tree\<close>

text \<open>What an operation does to the tree, on finite maps.\<close>

fun apply_plan_op ::
    "(string \<Rightarrow> string option) \<Rightarrow> plan_file_op \<Rightarrow> (string \<rightharpoonup> sync_tree_entry_record)
      \<Rightarrow> (string \<rightharpoonup> sync_tree_entry_record)" where
  "apply_plan_op object_of (PlanUpsert i path np h n pack_ref entry_id) m =
     m(i \<mapsto> \<lparr>tr_commit_id = [], tr_file_id = i, tr_normalized_path = np, tr_plaintext_hash = Some h,
            tr_content_object_id = object_of pack_ref, tr_pack_entry_id = Some entry_id,
            tr_kind = ''markdown''\<rparr>)"
| "apply_plan_op object_of (PlanDelete i path np) m = m(i := None)"

lemma reserved_pack_eq_Ok [result_simps]:
  "reserved_pack r k = Ok i \<longleftrightarrow> bt_get (rc_pack_object_ids r) k = Some i"
  by (simp add: reserved_pack_def result_simps)

lemma materialize_op_Ok:
  assumes "materialize_op r op t = Ok t'" "tree_keyed t"
  shows "tree_keyed t' \<and> bt_get t' = apply_plan_op (bt_get (rc_pack_object_ids r)) op (bt_get t)"
proof (cases op)
  case (PlanUpsert i path np h n pack_ref entry_id)
  then show ?thesis
    using assms by (auto simp: result_simps fun_eq_iff bt.get_insert tree_keyed_def [of t] intro!: tree_keyed_insert)
next
  case (PlanDelete i path np)
  then show ?thesis
    using assms tree_keyed_remove [of t i] by (auto simp: fun_eq_iff bt.get_remove tree_keyed_def)
qed

lemma materialize_ops_Ok:
  "fold_results (materialize_op r) ops t = Ok t' \<Longrightarrow> tree_keyed t \<Longrightarrow>
   tree_keyed t' \<and> bt_get t' = fold (apply_plan_op (bt_get (rc_pack_object_ids r))) ops (bt_get t)"
proof (induction ops arbitrary: t)
  case (Cons op ops)
  then obtain u where "materialize_op r op t = Ok u" "fold_results (materialize_op r) ops u = Ok t'"
    by (auto simp: result_simps)
  with materialize_op_Ok [of r op t u] Cons show ?case by simp
qed simp

definition entries_map :: "sync_tree_entry_record list \<Rightarrow> (string \<rightharpoonup> sync_tree_entry_record)" where
  "entries_map es = map_of (map (\<lambda>e. (tr_file_id e, e)) es)"

lemma entries_map_of_tree:
  assumes "tree_keyed t"
  shows "entries_map (entries_of_tree t) = bt_get t"
proof
  fix k
  have d: "distinct (map fst (map (\<lambda>e. (tr_file_id e, e)) (entries_of_tree t)))"
    using entries_of_tree_ids(1) [OF assms] by (simp add: comp_def)
  have "(k, e) \<in> set (map (\<lambda>e. (tr_file_id e, e)) (entries_of_tree t)) \<longleftrightarrow> (k, e) \<in> set t" for e
  proof
    assume "(k, e) \<in> set (map (\<lambda>e. (tr_file_id e, e)) (entries_of_tree t))"
    then have "e \<in> snd ` set t" "k = tr_file_id e" using entries_of_tree_ids(2) [OF assms] by auto
    then show "(k, e) \<in> set t" using assms by (auto simp: tree_keyed_def)
  next
    assume "(k, e) \<in> set t"
    then have "tr_file_id e = k" "e \<in> set (entries_of_tree t)"
      using assms entries_of_tree_ids(2) [OF assms] by (auto simp: tree_keyed_def intro!: image_eqI [of _ snd "(k, e)"])
    then show "(k, e) \<in> set (map (\<lambda>e. (tr_file_id e, e)) (entries_of_tree t))" by auto
  qed
  then have "entries_map (entries_of_tree t) k = Some e \<longleftrightarrow> bt_get t k = Some e" for e
    using map_of_eq_Some_iff [OF d] bt.entries_get [of t k e] assms
    by (simp add: entries_map_def tree_keyed_def)
  then show "entries_map (entries_of_tree t) k = bt_get t k"
    by (metis option.exhaust)
qed

lemma bt_get_tree_of_entries:
  "distinct (map tr_file_id es) \<Longrightarrow> bt_get (tree_of_entries es) = entries_map es"
  by (auto simp: tree_of_entries_def bt_get_of_list entries_map_def map_of_rev_distinct comp_def)

lemma list_tree_entries_distinct:
  assumes "db_wf db"
  shows "distinct (map tr_file_id (list_tree_entries db c))"
proof -
  let ?rows = "filter (\<lambda>r. tw_commit_id r = c) (sync_tree_entries db)"
  have "distinct (map (\<lambda>r. (tw_commit_id r, tw_file_id r)) ?rows)"
    using assms by (simp add: db_wf_def distinct_map_filter)
  then have "distinct (map tw_file_id ?rows)"
    by (auto simp: distinct_map inj_on_def)
  then have "distinct (map tw_file_id (sort_key tw_normalized_path ?rows))"
    by (subst mset_eq_imp_distinct_iff [of _ "map tw_file_id ?rows"]) simp_all
  moreover have "tr_file_id \<circ> tree_entry_of_row = tw_file_id"
    by (simp add: fun_eq_iff tree_entry_of_row_def)
  ultimately show ?thesis by (simp add: list_tree_entries_def)
qed

text \<open>The tree of the head a push builds on: nothing before the first commit.\<close>

definition base_tree :: "sync_db \<Rightarrow> string \<Rightarrow> (string \<rightharpoonup> sync_tree_entry_record)" where
  "base_tree db head = (if head = [] then Map.empty else entries_map (list_tree_entries db head))"

lemma materialize_tree_entries_Ok:
  assumes "materialize_tree_entries db head plan r = Ok es" "db_wf db"
  shows "entries_map es = fold (apply_plan_op (bt_get (rc_pack_object_ids r))) (file_ops plan) (base_tree db head)"
    and "distinct (map tr_file_id es)" "sorted (map tr_normalized_path es)"
proof -
  let ?t = "if head = [] then [] else tree_of_entries (list_tree_entries db head)"
  have k: "tree_keyed ?t" by (simp add: tree_keyed_of_entries)
  have base: "bt_get ?t = base_tree db head"
    by (auto simp: base_tree_def bt_get_tree_of_entries list_tree_entries_distinct [OF assms(2)]
        fun_eq_iff bt.get_empty)
  from assms(1) obtain t where t: "fold_results (materialize_op r) (file_ops plan) ?t = Ok t" "es = entries_of_tree t"
    by (auto simp: materialize_tree_entries_def Let_def result_simps)
  note m = materialize_ops_Ok [OF t(1) k]
  show "entries_map es = fold (apply_plan_op (bt_get (rc_pack_object_ids r))) (file_ops plan) (base_tree db head)"
    using m entries_map_of_tree [of t] by (simp add: t(2) base)
  show "distinct (map tr_file_id es)" using m entries_of_tree_ids(1) by (simp add: t(2))
  show "sorted (map tr_normalized_path es)" by (simp add: t(2) entries_of_tree_def)
qed

text \<open>
  C16. The tree a push publishes is the tree of the head it builds on with the operations of the plan applied in
  order: an upsert maps the file to its new content in the object reserved for its pack, a delete
  removes it, all other files keep their entry. The list has one entry per file, ordered by path.
\<close>

theorem materialize_tree_refines_map:
  assumes "materialize_tree_entries db head plan reserved = Ok entries" and "db_wf db"
  shows "map_of (map (\<lambda>e. (tr_file_id e, e)) entries) =
      fold (apply_plan_op (bt_get (rc_pack_object_ids reserved))) (file_ops plan)
        (if head = [] then Map.empty
         else map_of (map (\<lambda>e. (tr_file_id e, e)) (list_tree_entries db head))) \<and>
    distinct (map tr_file_id entries) \<and> sorted (map tr_normalized_path entries)"
  using materialize_tree_entries_Ok [OF assms] unfolding entries_map_def base_tree_def by simp

section \<open>What a successful push leaves behind\<close>

lemma set_changed_file_ids: "set (changed_file_ids plan) = op_file_id ` set (file_ops plan)"
proof -
  let ?ps = "map (\<lambda>op. (op_file_id op, ())) (file_ops plan)"
  have "fst ` set (bt_of_list ?ps) = {k. bt_get (bt_of_list ?ps) k \<noteq> None}"
    by (auto simp: bt_get_def map_of_eq_None_iff)
  also have "\<dots> = op_file_id ` set (file_ops plan)"
    by (auto simp: bt_get_of_list map_of_eq_None_iff image_image)
  finally show ?thesis by (simp add: changed_file_ids_def)
qed

definition with_commit :: "string \<Rightarrow> sync_tree_entry_record \<Rightarrow> sync_tree_entry_record" where
  "with_commit c e = (if tr_commit_id e = [] then e\<lparr>tr_commit_id := c\<rparr> else e)"

lemma body_with_commit [simp]: "tree_cache_entry_body_of (with_commit c e) = tree_cache_entry_body_of e"
  by (simp add: with_commit_def tree_cache_entry_body_of_def)

lemma tree_id_with_commit [simp]: "tree_id_for_entries L (map (with_commit c) es) = tree_id_for_entries L es"
  by (simp add: tree_id_for_entries_def comp_def)

lemma apply_publish_success_Ok:
  assumes "apply_publish_success L i pub k ps tid es plan n now db = (Ok (), db')"
    and "sorted (map tr_normalized_path es)" "get_vault db i = Some v"
  shows "get_vault db' i = Some (v\<lparr>vr_remote_head_commit_id := Some (pd_commit_id pub),
      vr_local_head_commit_id := Some (pd_commit_id pub), vr_next_device_seq := i64_wrap (n + 1), vr_updated_at_ms := now\<rparr>)"
    and "list_tree_entries db' (pd_commit_id pub) = map (with_commit (pd_commit_id pub)) es"
    and "sync_files db' = map (\<lambda>r. if file_id r \<in> op_file_id ` set (file_ops plan)
      then r\<lparr>dirty := False, last_synced_commit_id := Some (pd_commit_id pub)\<rparr> else r) (sync_files db)"
proof -
  let ?c = "pd_commit_id pub"
  let ?es = "map (with_commit ?c) es"
  from assms(1) obtain d r where d: "persist_tree_cache ?c tid (tree_json_for_entries L ?es) ''local'' ?es now db = (Ok (), d)"
    and db': "db' = update_vault_after_publish i ?c (i64_wrap (n + 1)) now
      (upsert_local_commit r (mark_files_synced ?c (changed_file_ids plan) d))"
    by (auto simp: apply_publish_success_def Let_def result_simps with_commit_def [abs_def])
  have "sync_vaults (upsert_local_commit r (mark_files_synced ?c (changed_file_ids plan) d)) = sync_vaults db"
    using persist_tree_cache_other [OF d] by (simp add: upsert_local_commit_def mark_files_synced_other)
  then show "get_vault db' i = Some (v\<lparr>vr_remote_head_commit_id := Some ?c,
      vr_local_head_commit_id := Some ?c, vr_next_device_seq := i64_wrap (n + 1), vr_updated_at_ms := now\<rparr>)"
    using assms(3) by (simp add: db' get_vault_def update_vault_after_publish_def find_row_update_rows)
  have "sorted (map tr_normalized_path ?es)"
    using assms(2) by (simp add: comp_def with_commit_def if_distrib cong: if_cong)
  from list_tree_entries_stored [OF d this]
  show "list_tree_entries db' ?c = ?es"
    by (simp add: db' list_tree_entries_def update_vault_after_publish_def upsert_local_commit_def mark_files_synced_other)
  show "sync_files db' = map (\<lambda>r. if file_id r \<in> op_file_id ` set (file_ops plan)
      then r\<lparr>dirty := False, last_synced_commit_id := Some ?c\<rparr> else r) (sync_files db)"
    using persist_tree_cache_Ok [OF d]
    by (simp add: db' update_vault_after_publish_def upsert_local_commit_def mark_files_synced_files set_changed_file_ids)
qed

lemma scan_vault_ids:
  assumes "scan_vault lc hash root fs = Ok files" "fs_wf fs" "f \<in> set files"
  shows "sf_file_id f = file_id_for_normalized_path hash (sf_normalized_path f)"
proof -
  from scan_vault_OkD(2) [OF assms(1,2), of f] assms(3) obtain p b t where "scan_file lc hash p b t = Ok f"
    by auto
  then show ?thesis by (auto simp: scan_file_def Let_def result_simps split: if_splits)
qed

lemma scan_and_apply_Ok:
  assumes "scan_and_apply L root fs now db = (Ok (files, res), db')"
    and "db_wf db" "ids_derived (blake3_hex L) (sync_files db)" "fs_wf fs"
  shows "scan_vault (to_lowercase L) (blake3_hex L) root fs = Ok files"
    and "distinct (map sf_normalized_path files)"
    and "map normalized_path (upserts res) = map sf_normalized_path files"
    and "set (upserts res) = {r \<in> set (sync_files db'). \<not> deleted r}"
    and "ids_derived (blake3_hex L) (sync_files db')"
    and "\<exists>rows. db' = db\<lparr>sync_files := rows\<rparr>"
proof -
  from assms(1) show files: "scan_vault (to_lowercase L) (blake3_hex L) root fs = Ok files"
    by (auto simp: scan_and_apply_def result_simps)
  from assms(1) have scan: "apply_scan (blake3_hex L) (map file_input files) now db = (Ok res, db')"
    by (auto simp: scan_and_apply_def result_simps files)
  have wf: "files_wf (sync_files db)" using assms(2) by (simp add: db_wf_def)
  show "distinct (map sf_normalized_path files)"
    using scan_vault_OkD(1) [OF files assms(4)] by (simp add: strict_sorted_iff)
  show "map normalized_path (upserts res) = map sf_normalized_path files"
    using apply_scan_upserts(1) [OF wf scan] by (simp add: comp_def file_input_def)
  show "set (upserts res) = {r \<in> set (sync_files db'). \<not> deleted r}"
    by (rule apply_scan_upserts(2) [OF wf scan])
  show "ids_derived (blake3_hex L) (sync_files db')"
    using apply_scan_rows(1) [OF wf scan] scanned_rows_derived [OF assms(3)] by simp
  show "\<exists>rows. db' = db\<lparr>sync_files := rows\<rparr>"
    using apply_scan_rows(1) [OF wf scan] by auto
qed

text \<open>The plan of a push touches every dirty live file.\<close>

lemma push_plan_covers:
  assumes scan: "scan_and_apply L root fs now db = (Ok (files, res), db')"
    and wf: "db_wf db" "ids_derived (blake3_hex L) (sync_files db)" "fs_wf fs"
    and plan: "(if head = [] then plan_checkpoint (blake3_hex L) tj files planner
      else plan_incremental (blake3_hex L) tj res files planner) = Ok plan"
    and row: "row \<in> set (sync_files db')" "\<not> deleted row" "dirty row"
  shows "file_id row \<in> op_file_id ` set (file_ops plan)"
proof -
  note s = scan_and_apply_Ok [OF scan wf]
  have id: "file_id row = file_id_for_normalized_path (blake3_hex L) (normalized_path row)"
    using s(5) row(1) by (simp add: ids_derived_def)
  have up: "row \<in> set (upserts res)" using s(4) row by auto
  then have "normalized_path row \<in> set (map sf_normalized_path files)"
    unfolding s(3) [symmetric] by simp
  then obtain f where f: "f \<in> set files" "sf_normalized_path f = normalized_path row" by auto
  have op: "op_file_id (upsert_for f (ref f)) = file_id row" if "f \<in> set files" "sf_normalized_path f = normalized_path row" for f ref
    using scan_vault_ids [OF s(1) wf(3) that(1)] that(2) id by (simp add: upsert_for_def)
  show ?thesis
  proof (cases "head = []")
    case True
    with plan plan_checkpoint_ops [OF _ s(2), of "blake3_hex L" tj planner plan] obtain ref
      where ops: "file_ops plan = sort_key plan_file_op_sort_key (map (\<lambda>f. upsert_for f (ref f)) files)"
      by auto
    have "upsert_for f (ref f) \<in> set (file_ops plan)" using f(1) by (simp add: ops)
    then show ?thesis using op [OF f, of ref] by (metis image_eqI)
  next
    case False
    with plan plan_incremental_ops [OF _ s(2), of "blake3_hex L" tj res planner plan] s(2,3) obtain ups ref where
      ups: "set ups \<subseteq> set files"
        "map sf_normalized_path ups = map normalized_path (filter (\<lambda>r. dirty r \<and> \<not> deleted r) (upserts res))"
      and ops: "file_ops plan = sort_key plan_file_op_sort_key
        (map (\<lambda>f. upsert_for f (ref f)) ups @ map delete_for (deletions res))"
      by auto
    have "normalized_path row \<in> set (map sf_normalized_path ups)"
      unfolding ups(2) using up row by auto
    then obtain g where g: "g \<in> set ups" "sf_normalized_path g = normalized_path row" by auto
    have "upsert_for g (ref g) \<in> set (file_ops plan)" using g(1) by (simp add: ops)
    then show ?thesis using op [of g ref] g ups(1) by (metis image_eqI subsetD)
  qed
qed

lemma publish_plan_Ok:
  assumes "publish_plan L N q nonces input k h ps n plan db = (Ok r, db')"
    and "db_wf db" "get_vault db (in_vault_id input) = Some v"
  obtains reserved pc meta pub where
    "prepare_commit L input k h ps n reserved plan db = Ok pc"
    "cn_publish_commit N (publish_request L input k h ps n (rc_body_object_id reserved) pc meta) = Ok pub"
    "published r" "result_commit_id r = Some (bd_commit_id (pp_body pc))"
    "get_vault db' (in_vault_id input) = Some (v\<lparr>vr_remote_head_commit_id := Some (pd_commit_id pub),
      vr_local_head_commit_id := Some (pd_commit_id pub), vr_next_device_seq := i64_wrap (n + 1),
      vr_updated_at_ms := in_now_ms input\<rparr>)"
    "list_tree_entries db' (pd_commit_id pub) = map (with_commit (pd_commit_id pub)) (pp_tree pc)"
    "sync_files db' = map (\<lambda>r. if file_id r \<in> op_file_id ` set (file_ops plan)
      then r\<lparr>dirty := False, last_synced_commit_id := Some (pd_commit_id pub)\<rparr> else r) (sync_files db)"
    "reserve_commit_objects N (in_workspace_id input) (in_device_id input) plan = Ok reserved"
proof -
  from assms(1) obtain reserved pc uploads uploaded meta pub where
    pc: "prepare_commit L input k h ps n reserved plan db = Ok pc"
    and pub: "cn_publish_commit N (publish_request L input k h ps n (rc_body_object_id reserved) pc meta) = Ok pub"
    and fin: "apply_publish_success L (in_vault_id input) pub k ps (bd_tree_id (pp_body pc)) (pp_tree pc)
      plan n (in_now_ms input) db = (Ok (), db')"
    and r: "published r" "result_commit_id r = Some (bd_commit_id (pp_body pc))"
    and res: "reserve_commit_objects N (in_workspace_id input) (in_device_id input) plan = Ok reserved"
    by (auto simp: publish_plan_def result_simps)
  from pc have "sorted (map tr_normalized_path (pp_tree pc))"
    by (auto simp: prepare_commit_def Let_def result_simps dest: materialize_tree_entries_Ok(3) [OF _ assms(2)])
  from that [OF pc pub r] apply_publish_success_Ok [OF fin this assms(3)] res show thesis by blast
qed

text \<open>Unfolding a successful push.\<close>

lemma refreshed_vault_id:
  "vr_vault_id (refresh_vault_record input (case get_vault db (in_vault_id input) of
     Some v \<Rightarrow> v | None \<Rightarrow> new_vault_record input head)) = in_vault_id input"
  by (auto simp: refresh_vault_record_def new_vault_record_def get_vault_def split: option.splits dest: find_row_Some)

lemma push_local_changes_OkD:
  assumes "push_local_changes L N q planner nonces input fs db = (Ok r, db')"
  obtains head vault db1 files res db2 plan where
    "cn_get_head N (in_workspace_id input) = Ok head"
    "ensure_vault_record input head db = (vault, db1)"
    "ensure_local_head_can_push vault (current_head_commit_id head) = Ok ()"
    "scan_and_apply L (in_vault_root input) fs (in_now_ms input) db1 = (Ok (files, res), db2)"
    "(if current_head_commit_id head = [] then plan_checkpoint (blake3_hex L) (json_planned_tree L) files planner
      else plan_incremental (blake3_hex L) (json_planned_tree L) res files planner) = Ok plan"
    "(if plan_is_empty plan then (Ok not_published, db2)
      else publish_plan L N q nonces input
        (if current_head_commit_id head = [] then PlanCheckpoint else PlanIncremental)
        (current_head_commit_id head) (parent_ids (current_head_commit_id head)) (vr_next_device_seq vault) plan db2)
      = (Ok r, db')"
proof -
  from assms obtain head where head: "cn_get_head N (in_workspace_id input) = Ok head"
    by (auto simp: push_local_changes_def result_simps)
  obtain vault db1 where v: "ensure_vault_record input head db = (vault, db1)" by fastforce
  from assms that show thesis
    by (auto simp: push_local_changes_def result_simps head v Let_def)
qed

lemma push_local_changes_cases:
  assumes "push_local_changes L N q planner nonces input fs db = (Ok r, db')"
    and "db_wf db" "ids_derived (blake3_hex L) (sync_files db)" "fs_wf fs"
  obtains (idle) "r = not_published" "\<forall>row \<in> set (sync_files db'). dirty row \<longrightarrow> deleted row"
  | (commit) head vault plan reserved pc meta pub db2 v where
    "cn_get_head N (in_workspace_id input) = Ok head"
    "vault = fst (ensure_vault_record input head db)"
    "ensure_local_head_can_push vault (current_head_commit_id head) = Ok ()"
    "\<And>row. row \<in> set (sync_files db2) \<Longrightarrow> \<not> deleted row \<Longrightarrow> dirty row \<Longrightarrow> file_id row \<in> op_file_id ` set (file_ops plan)"
    "db_wf db2" "sync_tree_entries db2 = sync_tree_entries db"
    "prepare_commit L input (if current_head_commit_id head = [] then PlanCheckpoint else PlanIncremental)
       (current_head_commit_id head) (parent_ids (current_head_commit_id head)) (vr_next_device_seq vault)
       reserved plan db2 = Ok pc"
    "cn_publish_commit N (publish_request L input
       (if current_head_commit_id head = [] then PlanCheckpoint else PlanIncremental)
       (current_head_commit_id head) (parent_ids (current_head_commit_id head)) (vr_next_device_seq vault)
       (rc_body_object_id reserved) pc meta) = Ok pub"
    "published r" "result_commit_id r = Some (bd_commit_id (pp_body pc))"
    "get_vault db' (in_vault_id input) = Some (v\<lparr>vr_remote_head_commit_id := Some (pd_commit_id pub),
      vr_local_head_commit_id := Some (pd_commit_id pub), vr_next_device_seq := i64_wrap (vr_next_device_seq vault + 1),
      vr_updated_at_ms := in_now_ms input\<rparr>)"
    "list_tree_entries db' (pd_commit_id pub) = map (with_commit (pd_commit_id pub)) (pp_tree pc)"
    "sync_files db' = map (\<lambda>r. if file_id r \<in> op_file_id ` set (file_ops plan)
      then r\<lparr>dirty := False, last_synced_commit_id := Some (pd_commit_id pub)\<rparr> else r) (sync_files db2)"
proof -
  from push_local_changes_OkD [OF assms(1)] obtain head vault db1 files res db2 plan where
    head: "cn_get_head N (in_workspace_id input) = Ok head"
    and vault: "ensure_vault_record input head db = (vault, db1)"
    and can: "ensure_local_head_can_push vault (current_head_commit_id head) = Ok ()"
    and scan: "scan_and_apply L (in_vault_root input) fs (in_now_ms input) db1 = (Ok (files, res), db2)"
    and plan: "(if current_head_commit_id head = [] then plan_checkpoint (blake3_hex L) (json_planned_tree L) files planner
      else plan_incremental (blake3_hex L) (json_planned_tree L) res files planner) = Ok plan"
    and push: "(if plan_is_empty plan then (Ok not_published, db2)
      else publish_plan L N q nonces input
        (if current_head_commit_id head = [] then PlanCheckpoint else PlanIncremental)
        (current_head_commit_id head) (parent_ids (current_head_commit_id head)) (vr_next_device_seq vault) plan db2)
      = (Ok r, db')" .
  have db1: "db1 = upsert_vault vault db" "vault = refresh_vault_record input (case get_vault db (in_vault_id input) of
     Some v \<Rightarrow> v | None \<Rightarrow> new_vault_record input head)"
    using vault by (auto simp: ensure_vault_record_def Let_def)
  have wf1: "db_wf db1" "ids_derived (blake3_hex L) (sync_files db1)"
    using assms(2,3) db_steps_wf [OF db_steps_upsert_vault] by (auto simp: db1(1)) (simp add: upsert_vault_def)
  note covers = push_plan_covers [OF scan wf1 assms(4) plan]
  obtain rows where rows: "db2 = db1\<lparr>sync_files := rows\<rparr>"
    using scan_and_apply_Ok(6) [OF scan wf1 assms(4)] by blast
  show thesis
  proof (cases "plan_is_empty plan")
    case True
    then have "r = not_published" "db' = db2" "file_ops plan = []"
      using push by (simp_all add: plan_is_empty_def)
    note empty = this
    have "\<forall>row \<in> set (sync_files db'). dirty row \<longrightarrow> deleted row" using empty covers by auto
    with empty(1) show thesis by (rule idle)
  next
    case False
    have wf2: "db_wf db2"
      using db_steps_wf [OF db_steps_scan_and_apply wf1(1)] scan by (metis snd_conv)
    obtain t where "get_vault db1 (in_vault_id input) = Some (vault\<lparr>vr_created_at_ms := t\<rparr>)"
      using get_upserted_vault [of vault db] refreshed_vault_id by (metis db1)
    then have v: "get_vault db2 (in_vault_id input) = Some (vault\<lparr>vr_created_at_ms := t\<rparr>)"
      by (simp add: rows get_vault_def)
    have trees: "sync_tree_entries db2 = sync_tree_entries db"
      by (simp add: rows db1(1) upsert_vault_def)
    have vault': "vault = fst (ensure_vault_record input head db)" using vault by simp
    have eq: "publish_plan L N q nonces input
        (if current_head_commit_id head = [] then PlanCheckpoint else PlanIncremental)
        (current_head_commit_id head) (parent_ids (current_head_commit_id head)) (vr_next_device_seq vault) plan db2
      = (Ok r, db')" using push False by simp
    show thesis
      by (rule publish_plan_Ok [OF eq wf2 v]) (rule commit [OF head vault' can covers wf2 trees])
  qed
qed

text \<open>
  After a successful push no file of the vault is waiting to be synced: whether a commit was published or
  there was nothing to publish, every row that is still marked dirty is a deleted file.
\<close>

theorem push_local_changes_clean:
  assumes "push_local_changes L N queue planner nonces input fs db = (Ok r, db')"
    and "db_wf db" "ids_derived (blake3_hex L) (sync_files db)" "fs_wf fs"
  shows "\<forall>row \<in> set (sync_files db'). dirty row \<longrightarrow> deleted row"
proof (cases rule: push_local_changes_cases [OF assms, case_names idle commit])
  case idle
  then show ?thesis by simp
next
  case (commit head vault plan reserved pc meta pub db2 v)
  then show ?thesis by auto
qed

text \<open>What a push that published did, step by step.\<close>

lemma push_published_steps:
  assumes "push_local_changes L N queue planner nonces input fs db = (Ok r, db')" "published r" and wf: "db_wf db"
  obtains head vault db1 files res db2 plan reserved pc meta pub v where
    "cn_get_head N (in_workspace_id input) = Ok head"
    "ensure_vault_record input head db = (vault, db1)"
    "ensure_local_head_can_push vault (current_head_commit_id head) = Ok ()"
    "scan_and_apply L (in_vault_root input) fs (in_now_ms input) db1 = (Ok (files, res), db2)"
    "(if current_head_commit_id head = [] then plan_checkpoint (blake3_hex L) (json_planned_tree L) files planner
      else plan_incremental (blake3_hex L) (json_planned_tree L) res files planner) = Ok plan"
    "reserve_commit_objects N (in_workspace_id input) (in_device_id input) plan = Ok reserved"
    "prepare_commit L input (if current_head_commit_id head = [] then PlanCheckpoint else PlanIncremental)
       (current_head_commit_id head) (parent_ids (current_head_commit_id head)) (vr_next_device_seq vault)
       reserved plan db2 = Ok pc"
    "cn_publish_commit N (publish_request L input
       (if current_head_commit_id head = [] then PlanCheckpoint else PlanIncremental)
       (current_head_commit_id head) (parent_ids (current_head_commit_id head)) (vr_next_device_seq vault)
       (rc_body_object_id reserved) pc meta) = Ok pub"
    "result_commit_id r = Some (bd_commit_id (pp_body pc))"
    "get_vault db' (in_vault_id input) = Some (v\<lparr>vr_remote_head_commit_id := Some (pd_commit_id pub),
      vr_local_head_commit_id := Some (pd_commit_id pub), vr_next_device_seq := i64_wrap (vr_next_device_seq vault + 1),
      vr_updated_at_ms := in_now_ms input\<rparr>)"
    "list_tree_entries db' (pd_commit_id pub) = map (with_commit (pd_commit_id pub)) (pp_tree pc)"
proof -
  from push_local_changes_OkD [OF assms(1)] obtain head vault db1 files res db2 plan where
    head: "cn_get_head N (in_workspace_id input) = Ok head"
    and vault: "ensure_vault_record input head db = (vault, db1)"
    and can: "ensure_local_head_can_push vault (current_head_commit_id head) = Ok ()"
    and scan: "scan_and_apply L (in_vault_root input) fs (in_now_ms input) db1 = (Ok (files, res), db2)"
    and plan: "(if current_head_commit_id head = [] then plan_checkpoint (blake3_hex L) (json_planned_tree L) files planner
      else plan_incremental (blake3_hex L) (json_planned_tree L) res files planner) = Ok plan"
    and push: "(if plan_is_empty plan then (Ok not_published, db2)
      else publish_plan L N queue nonces input
        (if current_head_commit_id head = [] then PlanCheckpoint else PlanIncremental)
        (current_head_commit_id head) (parent_ids (current_head_commit_id head)) (vr_next_device_seq vault) plan db2)
      = (Ok r, db')" .
  have db1: "db1 = upsert_vault vault db" "vault = refresh_vault_record input (case get_vault db (in_vault_id input) of
     Some v \<Rightarrow> v | None \<Rightarrow> new_vault_record input head)"
    using vault by (auto simp: ensure_vault_record_def Let_def)
  have "db_wf db1" using wf db_steps_wf [OF db_steps_upsert_vault] by (auto simp: db1(1))
  then have wf2: "db_wf db2" using db_steps_wf [OF db_steps_scan_and_apply] scan by (metis snd_conv)
  obtain t where "get_vault db1 (in_vault_id input) = Some (vault\<lparr>vr_created_at_ms := t\<rparr>)"
    using get_upserted_vault [of vault db] refreshed_vault_id by (metis db1)
  moreover have "sync_vaults db2 = sync_vaults db1"
  proof -
    from scan have "apply_scan (blake3_hex L) (map file_input files) (in_now_ms input) db1 = (Ok res, db2)"
      by (auto simp: scan_and_apply_def result_simps)
    from apply_scan_other [OF this] show ?thesis by (rule ssubst) simp
  qed
  ultimately have v: "get_vault db2 (in_vault_id input) = Some (vault\<lparr>vr_created_at_ms := t\<rparr>)" by (simp add: get_vault_def)
  have "\<not> plan_is_empty plan" using push assms(2) by (auto simp: not_published_def)
  with push have eq: "publish_plan L N queue nonces input
        (if current_head_commit_id head = [] then PlanCheckpoint else PlanIncremental)
        (current_head_commit_id head) (parent_ids (current_head_commit_id head)) (vr_next_device_seq vault) plan db2
      = (Ok r, db')" by simp
  show thesis
    by (rule publish_plan_Ok [OF eq wf2 v]) (rule that [OF head vault can scan plan])
qed

text \<open>
  C14. A push that publishes builds on the head the server reported and advances the local state to the commit the
  server confirmed. It was made only if the vault's local head was that head (or there was none), and the request
  names it. The tree of the commit is the head's tree with the operations of the plan, which was made from the scan of
  the vault, applied with the objects the server reserved; its identifier goes into the identifier of the commit, and this
  tree is stored for the confirmed commit. Both heads of the vault become the confirmed commit, and the device
  sequence number is the one used plus one, as an \<^verbatim>\<open>i64\<close>.
\<close>

theorem push_local_changes_published:
  assumes "push_local_changes L N queue planner nonces input fs db = (Ok r, db')" "published r" "db_wf db"
  shows "\<exists>head vault0 db1 files res db2 plan reserved entries req pub vault. \<exists>seed :: commit_identity.
    cn_get_head N (in_workspace_id input) = Ok head \<and> ensure_vault_record input head db = (vault0, db1) \<and>
    (current_head_commit_id head = [] \<or> vr_local_head_commit_id vault0 = Some (current_head_commit_id head)) \<and>
    scan_and_apply L (in_vault_root input) fs (in_now_ms input) db1 = (Ok (files, res), db2) \<and>
    (if current_head_commit_id head = [] then plan_checkpoint (blake3_hex L) (json_planned_tree L) files planner
      else plan_incremental (blake3_hex L) (json_planned_tree L) res files planner) = Ok plan \<and>
    reserve_commit_objects N (in_workspace_id input) (in_device_id input) plan = Ok reserved \<and>
    materialize_tree_entries db2 (current_head_commit_id head) plan reserved = Ok entries \<and>
    cn_publish_commit N req = Ok pub \<and> pc_expected_head_commit_id req = current_head_commit_id head \<and>
    pc_commit_id req = commit_id_for L seed \<and> id_tree_id seed = tree_id_for_entries L entries \<and>
    commit_body_file_ops plan reserved = Ok (id_changes seed) \<and> id_device_seq seed = pc_device_seq req \<and>
    result_commit_id r = Some (pc_commit_id req) \<and>
    list_tree_entries db' (pd_commit_id pub) = map (with_commit (pd_commit_id pub)) entries \<and>
    0 < pc_device_seq req \<and> get_vault db' (in_vault_id input) = Some vault \<and>
    vr_local_head_commit_id vault = Some (pd_commit_id pub) \<and>
    vr_remote_head_commit_id vault = Some (pd_commit_id pub) \<and>
    vr_next_device_seq vault = i64_wrap (pc_device_seq req + 1)"
proof (rule push_published_steps [OF assms])
  fix head :: sync_head and vault :: sync_vault_record and db1 :: sync_db and files :: "scanned_file list"
    and res :: scan_apply_result and db2 :: sync_db and plan :: sync_plan and reserved :: reserved_commit_objects
    and pc :: prepared_commit and meta :: uploaded_object_metadata and pub :: published_commit and v :: sync_vault_record
  let ?h = "current_head_commit_id head"
  let ?kind = "if ?h = [] then PlanCheckpoint else PlanIncremental"
  let ?req = "publish_request L input ?kind ?h (parent_ids ?h) (vr_next_device_seq vault) (rc_body_object_id reserved) pc meta"
  assume head: "cn_get_head N (in_workspace_id input) = Ok head" and vault: "ensure_vault_record input head db = (vault, db1)"
    and can: "ensure_local_head_can_push vault ?h = Ok ()"
    and scan: "scan_and_apply L (in_vault_root input) fs (in_now_ms input) db1 = (Ok (files, res), db2)"
    and plan: "(if ?h = [] then plan_checkpoint (blake3_hex L) (json_planned_tree L) files planner
      else plan_incremental (blake3_hex L) (json_planned_tree L) res files planner) = Ok plan"
    and reserved: "reserve_commit_objects N (in_workspace_id input) (in_device_id input) plan = Ok reserved"
    and pc: "prepare_commit L input ?kind ?h (parent_ids ?h) (vr_next_device_seq vault) reserved plan db2 = Ok pc"
    and pub: "cn_publish_commit N ?req = Ok pub" and r: "result_commit_id r = Some (bd_commit_id (pp_body pc))"
    and v: "get_vault db' (in_vault_id input) = Some (v\<lparr>vr_remote_head_commit_id := Some (pd_commit_id pub),
      vr_local_head_commit_id := Some (pd_commit_id pub), vr_next_device_seq := i64_wrap (vr_next_device_seq vault + 1),
      vr_updated_at_ms := in_now_ms input\<rparr>)" (is "_ = Some ?v")
    and tree: "list_tree_entries db' (pd_commit_id pub) = map (with_commit (pd_commit_id pub)) (pp_tree pc)"
  have local: "?h = [] \<or> vr_local_head_commit_id vault = Some ?h"
    using can by (auto simp: ensure_local_head_can_push_def Let_def split: if_splits option.splits)
  have seq: "0 < vr_next_device_seq vault"
    using vault by (auto simp: ensure_vault_record_def refresh_vault_record_def Let_def)
  from pc obtain changes where entries: "materialize_tree_entries db2 ?h plan reserved = Ok (pp_tree pc)"
    and changes: "commit_body_file_ops plan reserved = Ok changes"
    and id: "bd_commit_id (pp_body pc) = commit_id_for L
            \<lparr>id_workspace_id = in_workspace_id input, id_author_device_id = in_device_id input,
             id_device_seq = vr_next_device_seq vault, id_commit_kind = plan_kind_label ?kind,
             id_expected_head_commit_id = ?h, id_parent_commit_ids = parent_ids ?h,
             id_body_object_id = rc_body_object_id reserved, id_referenced_object_ids = sort (bt_values (rc_pack_object_ids reserved)),
             id_tree_id = tree_id_for_entries L (pp_tree pc), id_changes = changes\<rparr>" (is "_ = commit_id_for L ?seed")
    by (auto simp: prepare_commit_def Let_def result_simps)
  have req: "pc_expected_head_commit_id ?req = ?h" "pc_commit_id ?req = bd_commit_id (pp_body pc)"
    "pc_device_seq ?req = vr_next_device_seq vault"
    by (simp_all add: publish_request_def)
  show ?thesis
    by (rule exI [of _ head], rule exI [of _ vault], rule exI [of _ db1], rule exI [of _ files], rule exI [of _ res],
        rule exI [of _ db2], rule exI [of _ plan], rule exI [of _ reserved], rule exI [of _ "pp_tree pc"], rule exI [of _ ?req],
        rule exI [of _ pub], rule exI [of _ ?v], rule exI [of _ ?seed], intro conjI head vault local scan plan reserved entries pub v tree req)
      (simp_all add: req id changes r seq)
qed

lemma ensure_vault_record_existing:
  assumes "get_vault db (in_vault_id input) = Some vault"
  shows "vr_local_head_commit_id (fst (ensure_vault_record input head db)) = vr_local_head_commit_id vault"
    and "\<exists>v. get_vault (snd (ensure_vault_record input head db)) (in_vault_id input) = Some v \<and>
      vr_local_head_commit_id v = vr_local_head_commit_id vault \<and>
      vr_remote_head_commit_id v = vr_remote_head_commit_id vault"
    and "snd (ensure_vault_record input head db) =
      db\<lparr>sync_vaults := sync_vaults (snd (ensure_vault_record input head db))\<rparr>"
proof -
  let ?v = "refresh_vault_record input vault"
  have e: "ensure_vault_record input head db = (?v, upsert_vault ?v db)"
    using assms by (simp add: ensure_vault_record_def Let_def)
  show "vr_local_head_commit_id (fst (ensure_vault_record input head db)) = vr_local_head_commit_id vault"
    by (simp add: e refresh_vault_record_def)
  have "vr_vault_id ?v = in_vault_id input"
    using assms by (auto simp: refresh_vault_record_def get_vault_def dest: find_row_Some)
  with get_upserted_vault [of ?v db]
  show "\<exists>v. get_vault (snd (ensure_vault_record input head db)) (in_vault_id input) = Some v \<and>
      vr_local_head_commit_id v = vr_local_head_commit_id vault \<and>
      vr_remote_head_commit_id v = vr_remote_head_commit_id vault"
    by (auto simp: e refresh_vault_record_def)
  show "snd (ensure_vault_record input head db) =
      db\<lparr>sync_vaults := sync_vaults (snd (ensure_vault_record input head db))\<rparr>"
    by (simp add: e upsert_vault_def)
qed

section \<open>An example push\<close>

definition sample_queue :: transfer_queue_config where
  "sample_queue =
     \<lparr>max_upload_concurrency = 1, max_download_concurrency = 1, max_attempts = 2, initial_backoff = 0\<rparr>"

definition sample_commit_net :: commit_net where
  "sample_commit_net =
     \<lparr>cn_get_head = (\<lambda>w. Ok \<lparr>current_head_commit_id = [], head_version = 0,
        latest_checkpoint_commit_id = []\<rparr>),
      cn_publish_commit = (\<lambda>r. Ok \<lparr>pd_commit_id = pc_commit_id r, pd_head_version = 1,
        pd_idempotent = False\<rparr>),
      cn_transfer = working_net\<rparr>"

definition sample_push_input :: push_input where
  "sample_push_input =
     \<lparr>in_vault_id = ''v'', in_vault_root = [''v''], in_workspace_id = ''w'', in_device_id = ''d'',
      in_workspace_key = replicate 32 CHR ''k'', in_signing_key = ''s'', in_now_ms = 7\<rparr>"

definition sample_nonces :: "nat \<Rightarrow> bytes" where
  "sample_nonces k = replicate 24 nul"

definition sample_note :: fnode where
  "sample_note = Dir [(''a.md'', File ''x'' 5)]"

definition sample_scanned :: scanned_file where
  "sample_scanned = \<lparr>sf_file_id = ''file_a0md'', sf_path = ''a.md'', sf_normalized_path = ''a.md'',
     sf_plaintext_hash = ''x'', sf_size_bytes = 1, sf_mtime_ms = 5, sf_plaintext = ''x''\<rparr>"

definition sample_plan :: sync_plan where
  "sample_plan =
     \<lparr>commit_kind = PlanCheckpoint, tree_id = ''tree_a0md'',
      tree_entries = [tree_entry_for sample_scanned (''checkpoint_pack-0'', ''entry_file0a0md0x'')],
      file_ops = [upsert_for sample_scanned (''checkpoint_pack-0'', ''entry_file0a0md0x'')],
      pack_shards = [pack_shard CHECKPOINT_PACK_KIND 0 1 [entry_plan sample_hash sample_scanned]]\<rparr>"

definition sample_reserved :: reserved_commit_objects where
  "sample_reserved = \<lparr>rc_body_object_id = ''obj-commit-body'',
     rc_pack_object_ids = [(''checkpoint_pack-0'', ''obj-checkpoint_pack-0'')]\<rparr>"

lemma sample_push_steps:
  "validate_push_input sample_push_input = Ok ()"
  "scan_vault to_ascii_lowercase sample_hash [''v''] sample_note = Ok [sample_scanned]"
  "is_ok (fst (apply_scan sample_hash [file_input sample_scanned] 7 empty_db))"
  "plan_checkpoint sample_hash (json_planned_tree sample_commit_libs) [sample_scanned] sample_planner_config = Ok sample_plan"
  "reserve_commit_objects sample_commit_net ''w'' ''d'' sample_plan = Ok sample_reserved"
  "case prepare_commit sample_commit_libs sample_push_input PlanCheckpoint [] [] 1 sample_reserved sample_plan empty_db of
     Err _ \<Rightarrow> False
   | Ok pc \<Rightarrow>
       list_all (\<lambda>e. tr_file_id e = ''file_a0md'') (pp_tree pc) \<and> length (pp_tree pc) = 1 \<and>
       \<not> blank (''upload_'' @ bd_commit_id (pp_body pc)) \<and>
       (case encrypted_uploads sample_commit_libs sample_nonces (replicate 32 CHR ''k'') ''w''
          (bd_commit_id (pp_body pc)) ''checkpoint'' [] ''d'' 1 sample_reserved sample_plan (pp_body pc) of
          Err _ \<Rightarrow> False
        | Ok us \<Rightarrow> map ru_object_id us = [''obj-checkpoint_pack-0'', ''obj-commit-body''] \<and>
            list_all (\<lambda>u. \<not> blank (ru_object_id u) \<and> int (length (ru_ciphertext u)) \<le> i64_max) us)"
  by code_simp+

lemma apply_scan_files_only:
  "apply_scan hash fs now db =
     (let (r, d) = apply_scan hash fs now (empty_db\<lparr>sync_files := sync_files db\<rparr>)
      in (r, db\<lparr>sync_files := sync_files d\<rparr>))"
  by (auto simp: apply_scan_def list_files_def Let_def split: result.splits prod.splits)

lemma blake3_sample [simp]: "blake3_hex sample_commit_libs = sample_hash"
  by (simp add: sample_commit_libs_defs sample_pack_defs)

lemma to_lowercase_sample [simp]: "to_lowercase sample_commit_libs = to_ascii_lowercase"
  by (simp add: sample_commit_libs_defs)

lemma persist_tree_cache_total:
  assumes "distinct (map tr_file_id es)"
  shows "\<exists>db'. persist_tree_cache c t j src es now db = (Ok (), db')"
proof -
  have "insert_tree_entries c es (filter (\<lambda>r. tw_commit_id r \<noteq> c) (sync_tree_entries db)) =
      Ok (filter (\<lambda>r. tw_commit_id r \<noteq> c) (sync_tree_entries db) @ map (tree_row c) es)"
    using assms by (simp add: insert_tree_entries_Ok)
  then show ?thesis by (simp add: persist_tree_cache_def)
qed

lemma apply_publish_success_total:
  assumes "distinct (map tr_file_id es)"
  shows "\<exists>db'. apply_publish_success L vid pub kind parents tid es plan device_seq now db = (Ok (), db')"
proof -
  let ?es = "map (\<lambda>e. if tr_commit_id e = [] then e\<lparr>tr_commit_id := pd_commit_id pub\<rparr> else e) es"
  have "map tr_file_id ?es = map tr_file_id es" by simp
  then obtain db' where "persist_tree_cache (pd_commit_id pub) tid (tree_json_for_entries L ?es)
      ''local'' ?es now db = (Ok (), db')"
    using persist_tree_cache_total [of ?es] assms by metis
  then show ?thesis unfolding apply_publish_success_def Let_def by (simp only: try_then.simps) blast
qed

text \<open>A publication goes through when each of its steps does.\<close>

lemma publish_plan_total:
  assumes "reserve_commit_objects N (in_workspace_id input) (in_device_id input) plan = Ok reserved"
    and "prepare_commit L input kind expected_head parents device_seq reserved plan db = Ok pc"
    and "encrypted_uploads L nonces (in_workspace_key input) (in_workspace_id input)
      (bd_commit_id (pp_body pc)) (plan_kind_label kind) parents (in_device_id input)
      device_seq reserved plan (pp_body pc) = Ok uploads"
    and "snd (upload_reserved_objects L (cn_transfer N) queue (in_workspace_id input)
      (in_device_id input) (''upload_'' @ bd_commit_id (pp_body pc)) uploads) = Ok uploaded"
    and "find (\<lambda>m. um_object_id m = rc_body_object_id reserved) uploaded = Some meta"
    and "cn_publish_commit N (publish_request L input kind expected_head parents device_seq
      (rc_body_object_id reserved) pc meta) = Ok pub"
    and "distinct (map tr_file_id (pp_tree pc))"
  shows "\<exists>r db'. publish_plan L N queue nonces input kind expected_head parents device_seq plan db = (Ok r, db') \<and>
    published r"
proof -
  obtain db' where "apply_publish_success L (in_vault_id input) pub kind parents
      (bd_tree_id (pp_body pc)) (pp_tree pc) plan device_seq (in_now_ms input) db = (Ok (), db')"
    using apply_publish_success_total [OF assms(7)] by blast
  then show ?thesis
    unfolding publish_plan_def by (simp only: assms try_then.simps ok_or.simps) simp
qed

lemma case_result_Ok:
  assumes "case r of Ok a \<Rightarrow> P a | Err e \<Rightarrow> False"
  obtains a where "r = Ok a" "P a"
  using assms by (cases r) auto

lemma prepare_commit_first:
  "prepare_commit L input kind [] parents device_seq reserved plan db =
   prepare_commit L input kind [] parents device_seq reserved plan empty_db"
proof -
  have "materialize_tree_entries db [] plan reserved = materialize_tree_entries empty_db [] plan reserved"
    by (simp add: materialize_tree_entries_def)
  then show ?thesis by (simp only: prepare_commit_def)
qed

lemma find_by_key: "k \<in> set (map f xs) \<Longrightarrow> \<exists>x. find (\<lambda>x. f x = k) xs = Some x"
  by (induction xs) auto

lemma sample_publish:
  "\<exists>r db'. publish_plan sample_commit_libs sample_commit_net sample_queue sample_nonces sample_push_input
    PlanCheckpoint [] [] 1 sample_plan db = (Ok r, db') \<and> published r"
proof -
  let ?enc = "\<lambda>pc. encrypted_uploads sample_commit_libs sample_nonces (replicate 32 CHR ''k'') ''w''
    (bd_commit_id (pp_body pc)) ''checkpoint'' [] ''d'' 1 sample_reserved sample_plan (pp_body pc)"
  obtain pc where pc: "prepare_commit sample_commit_libs sample_push_input PlanCheckpoint [] [] 1 sample_reserved sample_plan empty_db = Ok pc"
    and facts: "list_all (\<lambda>e. tr_file_id e = ''file_a0md'') (pp_tree pc) \<and> length (pp_tree pc) = 1 \<and>
       \<not> blank (''upload_'' @ bd_commit_id (pp_body pc)) \<and>
       (case ?enc pc of Err _ \<Rightarrow> False
        | Ok us \<Rightarrow> map ru_object_id us = [''obj-checkpoint_pack-0'', ''obj-commit-body''] \<and>
            list_all (\<lambda>u. \<not> blank (ru_object_id u) \<and> int (length (ru_ciphertext u)) \<le> i64_max) us)"
    by (rule case_result_Ok [OF sample_push_steps(6)])
  note tree = facts [THEN conjunct2, THEN conjunct1] and cid = facts [THEN conjunct2, THEN conjunct2, THEN conjunct1]
  obtain us where us: "?enc pc = Ok us"
    and enc: "map ru_object_id us = [''obj-checkpoint_pack-0'', ''obj-commit-body''] \<and>
            list_all (\<lambda>u. \<not> blank (ru_object_id u) \<and> int (length (ru_ciphertext u)) \<le> i64_max) us"
    by (rule case_result_Ok [OF facts [THEN conjunct2, THEN conjunct2, THEN conjunct2]])
  note ids = conjunct1 [OF enc] and ok = conjunct2 [OF enc]
  have pc': "prepare_commit sample_commit_libs sample_push_input PlanCheckpoint [] [] 1 sample_reserved sample_plan db = Ok pc"
    by (rule trans [OF prepare_commit_first pc])
  have blanks: "\<not> blank ''w''" "\<not> blank ''d''"
    by code_simp+
  have dist: "distinct (map ru_object_id us)" unfolding ids by simp
  have ok': "\<forall>ob \<in> set us. \<not> blank (ru_object_id ob) \<and> int (length (ru_ciphertext ob)) \<le> i64_max"
    using ok by (simp only: list_all_iff)
  have queue: "0 < max_attempts sample_queue" by (simp add: sample_queue_def)
  note up = upload_accepted [OF working_net_accepts queue dist blanks cid ok', of sample_commit_libs]
  have "''obj-commit-body'' \<in> set (map um_object_id (map (expected_metadata sample_commit_libs) us))"
    using arg_cong [OF ids, of set] by (simp add: expected_metadata_def comp_def)
  from find_by_key [OF this]
  obtain meta where meta: "find (\<lambda>m. um_object_id m = ''obj-commit-body'') (map (expected_metadata sample_commit_libs) us) = Some meta" ..
  have tree': "distinct (map tr_file_id (pp_tree pc))"
    using tree by (cases "pp_tree pc") auto
  have input: "in_workspace_id sample_push_input = ''w''"
    "in_device_id sample_push_input = ''d''" "in_workspace_key sample_push_input = replicate 32 CHR ''k''"
    by (simp_all only: sample_push_input_def push_input.simps)
  have net: "cn_transfer sample_commit_net = working_net"
    "cn_publish_commit sample_commit_net r = Ok \<lparr>pd_commit_id = pc_commit_id r, pd_head_version = 1, pd_idempotent = False\<rparr>"
    "rc_body_object_id sample_reserved = ''obj-commit-body''" for r
    by (simp_all only: sample_commit_net_def commit_net.simps sample_reserved_def reserved_commit_objects.simps)
  have upl: "snd (upload_reserved_objects sample_commit_libs (cn_transfer sample_commit_net) sample_queue
      (in_workspace_id sample_push_input) (in_device_id sample_push_input)
      (''upload_'' @ bd_commit_id (pp_body pc)) us) = Ok (map (expected_metadata sample_commit_libs) us)"
    unfolding input net by (rule up)
  show ?thesis
    by (rule publish_plan_total [OF _ pc' _ upl _ net(2) tree'])
      (simp_all only: input net plan_kind_label.simps sample_push_steps(5) us meta)
qed

lemma sample_first_vault:
  "ensure_vault_record sample_push_input \<lparr>current_head_commit_id = [], head_version = 0,
     latest_checkpoint_commit_id = []\<rparr> empty_db =
   (v, upsert_vault v empty_db) \<and> vr_next_device_seq v = 1"
  if "v = refresh_vault_record sample_push_input (new_vault_record sample_push_input
    \<lparr>current_head_commit_id = [], head_version = 0, latest_checkpoint_commit_id = []\<rparr>)"
  using that by (simp add: ensure_vault_record_def empty_db_def get_vault_def refresh_vault_record_def
      new_vault_record_def Let_def)

lemma sample_scan_apply:
  "\<exists>res db'. scan_and_apply sample_commit_libs [''v''] sample_note 7 (upsert_vault v empty_db) =
     (Ok ([sample_scanned], res), db')"
proof -
  obtain res d where "apply_scan sample_hash [file_input sample_scanned] 7 empty_db = (Ok res, d)"
    using sample_push_steps(3) by (cases "apply_scan sample_hash [file_input sample_scanned] 7 empty_db")
      (auto simp: is_ok_iff)
  moreover have "empty_db\<lparr>sync_files := sync_files (upsert_vault v empty_db)\<rparr> = empty_db"
    by (simp add: upsert_vault_def empty_db_def)
  ultimately have "\<exists>d'. apply_scan sample_hash [file_input sample_scanned] 7 (upsert_vault v empty_db) = (Ok res, d')"
    using apply_scan_files_only [of sample_hash "[file_input sample_scanned]" 7 "upsert_vault v empty_db"]
    by simp
  then show ?thesis
    unfolding scan_and_apply_def blake3_sample to_lowercase_sample sample_push_steps(2)
    by (elim exE) (simp only: try_then.simps list.map, blast)
qed

lemma sample_push:
  "\<exists>r db'. push_local_changes sample_commit_libs sample_commit_net sample_queue sample_planner_config sample_nonces
     sample_push_input sample_note empty_db = (Ok r, db') \<and> published r"
proof -
  let ?head = "\<lparr>current_head_commit_id = [], head_version = 0, latest_checkpoint_commit_id = []\<rparr>"
  define v where "v = refresh_vault_record sample_push_input (new_vault_record sample_push_input ?head)"
  note vault = sample_first_vault [OF v_def, THEN conjunct1] sample_first_vault [OF v_def, THEN conjunct2]
  obtain res db' where scan: "scan_and_apply sample_commit_libs [''v''] sample_note 7 (upsert_vault v empty_db) =
     (Ok ([sample_scanned], res), db')" using sample_scan_apply [of v] by (elim exE)
  have input: "in_workspace_id sample_push_input = ''w''" "in_vault_root sample_push_input = [''v'']"
    "in_now_ms sample_push_input = 7"
    by (simp_all only: sample_push_input_def push_input.simps)
  have head: "cn_get_head sample_commit_net ''w'' = Ok ?head"
    by (simp only: sample_commit_net_def commit_net.simps)
  have can: "ensure_local_head_can_push v [] = Ok ()" by (simp add: ensure_local_head_can_push_def)
  have full: "\<not> plan_is_empty sample_plan" by (simp add: plan_is_empty_def sample_plan_def)
  have "push_local_changes sample_commit_libs sample_commit_net sample_queue sample_planner_config sample_nonces
      sample_push_input sample_note empty_db =
    publish_plan sample_commit_libs sample_commit_net sample_queue sample_nonces sample_push_input
      PlanCheckpoint [] [] 1 sample_plan db'"
    unfolding push_local_changes_def
    by (simp only: sample_push_steps(1,4) input head vault try_then.simps Let_def prod.case
        sync_head.simps can scan blake3_sample if_True full if_False parent_ids_def simp_thms)
  with sample_publish [of db'] show ?thesis by (simp only:)
qed

lemma sample_push_wf:
  "ids_derived (blake3_hex sample_commit_libs) (sync_files empty_db)" "fs_wf sample_note"
  by (simp_all add: ids_derived_def empty_db_def sample_note_def)

theorem push_local_changes_clean_witness:
  "\<exists>r db'. push_local_changes sample_commit_libs sample_commit_net sample_queue sample_planner_config sample_nonces
     sample_push_input sample_note empty_db = (Ok r, db') \<and>
   (\<forall>row \<in> set (sync_files db'). dirty row \<longrightarrow> deleted row)"
proof -
  obtain r db' where push: "push_local_changes sample_commit_libs sample_commit_net sample_queue
      sample_planner_config sample_nonces sample_push_input sample_note empty_db = (Ok r, db')"
    using sample_push by (elim exE conjE)
  with push_local_changes_clean [OF this db_wf_empty sample_push_wf] show ?thesis by (intro exI conjI)
qed

theorem push_local_changes_published_witness:
  "\<exists>r db' vault. \<exists>pub :: published_commit. push_local_changes sample_commit_libs sample_commit_net sample_queue sample_planner_config
     sample_nonces sample_push_input sample_note empty_db = (Ok r, db') \<and> published r \<and>
   get_vault db' ''v'' = Some vault \<and> vr_local_head_commit_id vault = Some (pd_commit_id pub)"
proof -
  obtain r db' where push: "push_local_changes sample_commit_libs sample_commit_net sample_queue
      sample_planner_config sample_nonces sample_push_input sample_note empty_db = (Ok r, db')" and r: "published r"
    using sample_push by (elim exE conjE)
  have v: "in_vault_id sample_push_input = ''v''" by (simp only: sample_push_input_def push_input.simps)
  from push_local_changes_published [OF push r db_wf_empty] push r show ?thesis
    unfolding v by (elim exE conjE) (intro exI conjI)
qed

text \<open>
  Whatever a push or a merge push does, also when it fails half way, it leaves the database well formed.
\<close>

theorem push_keeps_db_wf:
  assumes "db_wf db"
  shows "db_wf (snd (push_local_changes L N queue planner nonces input fs db)) \<and>
    db_wf (snd (push_merge_commit L N queue planner nonces merge_input fs db))"
  using db_steps_wf [OF db_steps_push_local_changes assms] db_steps_wf [OF db_steps_push_merge_commit assms]
  by (intro conjI)

theorem push_keeps_db_wf_witness:
  "db_wf (snd (push_local_changes sample_commit_libs sample_commit_net sample_queue sample_planner_config
     sample_nonces sample_push_input sample_note empty_db))"
  using push_keeps_db_wf [OF db_wf_empty] by (rule conjunct1)

text \<open>
  C15. A device that is behind cannot publish: when the vault's local head is not the head the server reports, the
  push fails with the error that asks for a pull, before it scans, uploads or publishes anything; it
  leaves every table but \<^verbatim>\<open>sync_vaults\<close> untouched and keeps both heads of the vault.
\<close>

theorem push_requires_current_head:
  assumes "validate_push_input input = Ok ()" "cn_get_head N (in_workspace_id input) = Ok head"
    and "current_head_commit_id head \<noteq> []" "get_vault db (in_vault_id input) = Some vault"
    and "vr_local_head_commit_id vault \<noteq> Some (current_head_commit_id head)"
  shows "\<exists>db' v. push_local_changes L N queue planner nonces input fs db =
      (Err (Transport (''remote head '' @ current_head_commit_id head @
         '' is not present locally; pull is required before push'')), db') \<and>
    db' = db\<lparr>sync_vaults := sync_vaults db'\<rparr> \<and> get_vault db' (in_vault_id input) = Some v \<and>
    vr_local_head_commit_id v = vr_local_head_commit_id vault \<and>
    vr_remote_head_commit_id v = vr_remote_head_commit_id vault"
proof -
  note existing = ensure_vault_record_existing [OF assms(4), of head]
  obtain w db' where e: "ensure_vault_record input head db = (w, db')" by fastforce
  have "ensure_local_head_can_push w (current_head_commit_id head) = Err (Transport (''remote head '' @
      current_head_commit_id head @ '' is not present locally; pull is required before push''))"
    using existing(1) assms(3,5) by (auto simp: e ensure_local_head_can_push_def split: option.split)
  then have "push_local_changes L N queue planner nonces input fs db =
      (Err (Transport (''remote head '' @ current_head_commit_id head @
         '' is not present locally; pull is required before push'')), db')"
    unfolding push_local_changes_def by (simp only: assms(1,2) e try_then.simps Let_def prod.case)
  with existing(2,3) show ?thesis unfolding e snd_conv by (elim exE conjE) (intro exI conjI)
qed

definition newer_head :: sync_head where
  "newer_head = \<lparr>current_head_commit_id = ''c2'', head_version = 2, latest_checkpoint_commit_id = ''c1''\<rparr>"

definition behind_db :: sync_db where
  "behind_db = empty_db\<lparr>sync_vaults := [new_vault_record sample_push_input (newer_head\<lparr>current_head_commit_id := ''c1''\<rparr>)]\<rparr>"

theorem push_requires_current_head_witness:
  "\<exists>db'. push_local_changes sample_commit_libs (sample_commit_net\<lparr>cn_get_head := (\<lambda>w. Ok newer_head)\<rparr>) sample_queue
    sample_planner_config sample_nonces sample_push_input sample_note behind_db =
    (Err (Transport (''remote head '' @ ''c2'' @ '' is not present locally; pull is required before push'')), db')"
proof -
  let ?v = "new_vault_record sample_push_input (newer_head\<lparr>current_head_commit_id := ''c1''\<rparr>)"
  have head: "current_head_commit_id newer_head = ''c2''" by (simp add: newer_head_def)
  have get: "get_vault behind_db (in_vault_id sample_push_input) = Some ?v"
    by (simp add: get_vault_def behind_db_def new_vault_record_def)
  have old: "vr_local_head_commit_id ?v \<noteq> Some (current_head_commit_id newer_head)"
    by (simp add: head new_vault_record_def empty_to_none_def)
  have net: "cn_get_head (sample_commit_net\<lparr>cn_get_head := (\<lambda>w. Ok newer_head)\<rparr>)
      (in_workspace_id sample_push_input) = Ok newer_head" and some: "current_head_commit_id newer_head \<noteq> []"
    by (simp_all add: head)
  from push_requires_current_head [OF sample_push_steps(1) net some get old,
      of sample_commit_libs sample_queue sample_planner_config sample_nonces sample_note] show ?thesis
    unfolding head by (elim exE conjE) (rule exI)
qed

theorem materialize_tree_refines_map_witness:
  "\<exists>entries. materialize_tree_entries empty_db [] sample_plan sample_reserved = Ok entries \<and>
    map_of (map (\<lambda>e. (tr_file_id e, e)) entries) =
      fold (apply_plan_op (bt_get (rc_pack_object_ids sample_reserved))) (file_ops sample_plan) Map.empty"
proof -
  have "is_ok (materialize_tree_entries empty_db [] sample_plan sample_reserved)" by code_simp
  then obtain entries where "materialize_tree_entries empty_db [] sample_plan sample_reserved = Ok entries"
    by (auto simp only: is_ok_iff)
  with materialize_tree_refines_map [OF this db_wf_empty] show ?thesis by (simp only: if_True simp_thms) blast
qed

end
