(* ===== verification/Sync_Replay.thy ===== *)
theory Sync_Replay
  imports Sync_Commit
begin

text \<open>
  The first half of the pull pipeline (\<^verbatim>\<open>sync/applier.rs\<close>): listing the commits of the workspace page by page,
  selecting the ones to replay, downloading, decrypting and validating a commit, and computing the
  tree it leads to. Nothing here touches the vault. The server and the network answer every call
  as they like: downloads are numbered, and each has its own network (\<open>pn_transfer\<close>). The page
  cursor is an \<^verbatim>\<open>i64\<close>, a 64-bit word compared as signed.
\<close>

section \<open>Data\<close>

record pull_net =
  pn_get_head :: "string \<Rightarrow> sync_head sync_result"
  pn_list_commits :: "string \<Rightarrow> 64 word \<Rightarrow> int \<Rightarrow> list_commits_output sync_result"
  pn_transfer :: "nat \<Rightarrow> transfer_net"

record pull_input =
  pi_vault_id :: string
  pi_vault_root :: fpath
  pi_workspace_id :: string
  pi_device_id :: string
  pi_workspace_key :: symmetric_key
  pi_now_ms :: int

record decrypted_commit =
  dc_header :: sync_commit_header
  dc_body :: commit_body
  dc_packs :: "(string \<times> unpacked_pack) list"

record replay_selection =
  rs_commits :: "sync_commit_header list"
  rs_bootstrapped_from_checkpoint :: bool

section \<open>Listing and selecting commits\<close>

definition LIST_COMMITS_PAGE_SIZE :: int where "LIST_COMMITS_PAGE_SIZE = 100"

definition append_commit :: "sync_commit_header \<Rightarrow> sync_commit_header list \<Rightarrow> sync_commit_header list sync_result" where
  "append_commit commit commits =
     (if commits \<noteq> [] \<and> ch_server_seq (last commits) \<ge> ch_server_seq commit
      then Err (Transport ''ListCommits returned non-increasing server_seq'')
      else Ok (commits @ [commit]))"

definition append_commit_page ::
    "sync_commit_header list \<Rightarrow> list_commits_output \<Rightarrow> sync_commit_header list sync_result" where
  "append_commit_page commits page = fold_results append_commit (lc_commits page) commits"

function list_commits_from ::
    "(64 word \<Rightarrow> list_commits_output sync_result) \<Rightarrow> 64 word \<Rightarrow> sync_commit_header list
      \<Rightarrow> sync_commit_header list sync_result" where
  "list_commits_from api after_server_seq commits =
     (case api after_server_seq of
        Err e \<Rightarrow> Err e
      | Ok page \<Rightarrow>
          (case append_commit_page commits page of
             Err e \<Rightarrow> Err e
           | Ok commits \<Rightarrow>
               if \<not> lc_has_more page then Ok commits
               else if lc_next_after_server_seq page \<le>s after_server_seq
               then Err (Transport ''ListCommits did not advance pagination cursor'')
               else list_commits_from api (lc_next_after_server_seq page) commits))"
  by pat_completeness auto
termination
proof (relation "measure (\<lambda>(_, after, _). nat (2 ^ 63 - sint after))", goal_cases)
  case (2 api after commits page commits')
  have "sint after < sint (lc_next_after_server_seq page)"
    using 2(4) by (simp add: word_sle_eq)
  moreover have "sint (lc_next_after_server_seq page) < 2 ^ 63"
    using sint_lt [of "lc_next_after_server_seq page"] by simp
  ultimately show ?case by simp
qed simp

declare list_commits_from.simps [simp del]

definition list_all_commits :: "pull_net \<Rightarrow> string \<Rightarrow> sync_commit_header list sync_result" where
  "list_all_commits N workspace_id =
     list_commits_from (\<lambda>after. pn_list_commits N workspace_id after LIST_COMMITS_PAGE_SIZE) 0 []"

fun position :: "('a \<Rightarrow> bool) \<Rightarrow> 'a list \<Rightarrow> nat option" where
  "position P [] = None"
| "position P (x # xs) = (if P x then Some 0 else map_option Suc (position P xs))"

definition replay_start ::
    "string \<Rightarrow> sync_head \<Rightarrow> sync_commit_header list \<Rightarrow> nat sync_result" where
  "replay_start local_head head commits =
     (if local_head = [] then
        if latest_checkpoint_commit_id head = [] then Ok 0
        else ok_or (position (\<lambda>c. ch_commit_id c = latest_checkpoint_commit_id head) commits)
               (Transport (''latest checkpoint '' @ latest_checkpoint_commit_id head @
                  '' is missing from remote history''))
      else ok_or (map_option Suc (position (\<lambda>c. ch_commit_id c = local_head) commits))
             (Transport (''local head '' @ local_head @ '' is not present in remote history'')))"

definition select_replay_commits ::
    "sync_vault_record \<Rightarrow> sync_head \<Rightarrow> sync_commit_header list \<Rightarrow> replay_selection sync_result" where
  "select_replay_commits vault head commits =
     (let local_head = (case vr_local_head_commit_id vault of Some h \<Rightarrow> h | None \<Rightarrow> []) in
      if local_head = current_head_commit_id head
      then Ok \<lparr>rs_commits = [], rs_bootstrapped_from_checkpoint = False\<rparr>
      else and_then (replay_start local_head head commits) (\<lambda>start_index.
        let replay = drop start_index commits in
        if replay = [] \<or> ch_commit_id (last replay) \<noteq> current_head_commit_id head
        then Err (Transport (''remote history does not include head '' @ current_head_commit_id head))
        else Ok \<lparr>rs_commits = replay, rs_bootstrapped_from_checkpoint =
                   (local_head = [] \<and> latest_checkpoint_commit_id head \<noteq> [])\<rparr>))"

section \<open>Validation\<close>

definition validate_pull_input :: "pull_input \<Rightarrow> unit sync_result" where
  "validate_pull_input input =
     and_then (validate_required (pi_vault_id input) ''vault_id'') (\<lambda>_.
     and_then (validate_required (pi_workspace_id input) ''workspace_id'') (\<lambda>_.
       validate_required (pi_device_id input) ''device_id''))"

fun check_packs :: "string list \<Rightarrow> commit_body_pack_ref list \<Rightarrow> unit sync_result" where
  "check_packs seen [] = Ok ()"
| "check_packs seen (pack # packs) =
     and_then (validate_required (pr_object_id pack) ''pack.object_id'') (\<lambda>_.
     if pr_object_id pack \<in> set seen
     then Err (Integrity (''duplicate pack object in commit body: '' @ pr_object_id pack))
     else and_then (object_kind_for_pack_kind (pr_pack_kind pack)) (\<lambda>_.
       check_packs (pr_object_id pack # seen) packs))"

definition validate_packs :: "commit_body \<Rightarrow> unit sync_result" where
  "validate_packs body = check_packs [] (bd_packs body)"

definition validate_commit_body ::
    "sync_commit_header \<Rightarrow> string \<Rightarrow> commit_body \<Rightarrow> unit sync_result" where
  "validate_commit_body header kind_label body =
     (if bd_format body \<noteq> ''kuku.sync.commit-body''
      then Err (Serialization ''unsupported sync commit body format'')
      else if bd_version body \<noteq> 1 then Err (UnsupportedVersion (bd_version body))
      else if bd_commit_id body \<noteq> ch_commit_id header then Err (Integrity ''commit body id mismatch'')
      else if bd_commit_kind body \<noteq> kind_label then Err (Integrity ''commit body kind mismatch'')
      else if bd_parent_commit_ids body \<noteq> ch_parent_commit_ids header
      then Err (Integrity ''commit body parents mismatch'')
      else if sort (map pr_object_id (bd_packs body)) \<noteq> sort (ch_referenced_object_ids header)
      then Err (Integrity ''commit body referenced objects mismatch'')
      else validate_packs body)"

definition validate_downloaded_commit_body ::
    "'z crypto_libs_scheme \<Rightarrow> sync_commit_header \<Rightarrow> downloaded_object \<Rightarrow> unit sync_result" where
  "validate_downloaded_commit_body L header object =
     (if do_object_id object \<noteq> ch_body_object_id header
      then Err (Integrity ''commit body object id mismatch'')
      else if do_kind object \<noteq> OBJECT_KIND_COMMIT_BODY
      then Err (Integrity ''commit body object kind mismatch'')
      else if do_ciphertext_sha256 object \<noteq> ch_body_ciphertext_sha256 header
      then Err (Integrity ''commit body ciphertext hash mismatch'')
      else if size_bytes (encrypted_blob_metadata L (do_ciphertext object)) \<noteq> ch_body_size_bytes header
      then Err (Integrity ''commit body ciphertext size mismatch'')
      else Ok ())"

definition validate_downloaded_pack :: "commit_body_pack_ref \<Rightarrow> downloaded_object \<Rightarrow> unit sync_result" where
  "validate_downloaded_pack pack_ref object =
     (if do_object_id object \<noteq> pr_object_id pack_ref then Err (Integrity ''pack object id mismatch'')
      else and_then (object_kind_for_pack_kind (pr_pack_kind pack_ref)) (\<lambda>expected_kind.
        if do_kind object \<noteq> expected_kind then Err (Integrity ''pack object kind mismatch'') else Ok ()))"

definition validate_remote_file_identity ::
    "'z commit_libs_scheme \<Rightarrow> string \<Rightarrow> string \<Rightarrow> string \<Rightarrow> unit sync_result" where
  "validate_remote_file_identity L fid path npath =
     and_then (validate_required fid ''file_id'') (\<lambda>_.
     and_then (validate_required path ''path'') (\<lambda>_.
     and_then (normalize_vault_relative_path (to_lowercase L) path) (\<lambda>observed_normalized.
       if observed_normalized \<noteq> npath
       then Err (Integrity (''remote file normalized path mismatch for '' @ path))
       else if file_id_for_normalized_path (blake3_hex L) npath \<noteq> fid
       then Err (Integrity (''remote file id mismatch for '' @ npath))
       else if (case path_extension path of None \<Rightarrow> True | Some ext \<Rightarrow> \<not> eq_ignore_ascii_case ext ''md'')
       then Err (InvalidArgument (''remote file is not markdown: '' @ path))
       else Ok ())))"

definition validate_plaintext_metadata ::
    "'z crypto_libs_scheme \<Rightarrow> string \<Rightarrow> bytes \<Rightarrow> string \<Rightarrow> int \<Rightarrow> unit sync_result" where
  "validate_plaintext_metadata L path plaintext plaintext_hash n =
     (if int (length plaintext) > i64_max
      then Err (InvalidArgument (''remote file is too large: '' @ path))
      else if int (length plaintext) \<noteq> n
      then Err (Integrity (''remote file size mismatch: '' @ path))
      else if blake3_hex L plaintext \<noteq> plaintext_hash
      then Err (Integrity (''remote file plaintext hash mismatch: '' @ path))
      else Ok ())"

definition pack_entry_plaintext ::
    "(string \<times> unpacked_pack) list \<Rightarrow> commit_body_content_ref \<Rightarrow> bytes sync_result" where
  "pack_entry_plaintext packs content_ref =
     and_then (ok_or (bt_get packs (ref_object_id content_ref))
         (Integrity (''content pack '' @ ref_object_id content_ref @ '' missing from commit''))) (\<lambda>pack.
       ok_or (bt_get (up_entries pack) (ref_entry_id content_ref))
         (Integrity (''content pack entry '' @ ref_entry_id content_ref @ '' missing from '' @
            ref_object_id content_ref)))"

definition validate_tree_id ::
    "'z commit_libs_scheme \<Rightarrow> string \<Rightarrow> sync_tree_entry_record list \<Rightarrow> unit sync_result" where
  "validate_tree_id L tid entries =
     (let observed = tree_id_for_entries L entries in
      if observed \<noteq> tid
      then Err (Integrity (''commit tree id mismatch: expected '' @ tid @ '', got '' @ observed))
      else Ok ())"

fun pack_kind_for_object_kind :: "sync_object_kind \<Rightarrow> string sync_result" where
  "pack_kind_for_object_kind OBJECT_KIND_CONTENT_PACK = Ok CONTENT_PACK_KIND"
| "pack_kind_for_object_kind OBJECT_KIND_CHECKPOINT_PACK = Ok CHECKPOINT_PACK_KIND"
| "pack_kind_for_object_kind _ = Err (InvalidArgument ''sync object is not a decryptable pack'')"

section \<open>Downloads\<close>

text \<open>
  The state of these operations is the number of downloads made so far; the next one meets the network
  of that number.
\<close>

definition download_batch ::
    "'z crypto_libs_scheme \<Rightarrow> pull_net \<Rightarrow> transfer_queue_config \<Rightarrow> string \<Rightarrow> string \<Rightarrow> string list \<Rightarrow> nat
      \<Rightarrow> downloaded_object list sync_result \<times> nat" where
  "download_batch L N queue workspace_id device_id object_ids k =
     (snd (download_objects L (pn_transfer N k) queue workspace_id device_id object_ids), k + 1)"

definition pull_download_one ::
    "'z crypto_libs_scheme \<Rightarrow> pull_net \<Rightarrow> transfer_queue_config \<Rightarrow> string \<Rightarrow> string \<Rightarrow> string \<Rightarrow> nat
      \<Rightarrow> downloaded_object sync_result \<times> nat" where
  "pull_download_one L N queue workspace_id device_id object_id k =
     try_then (download_batch L N queue workspace_id device_id [object_id] k) (\<lambda>downloads k.
       (case downloads of
          [object] \<Rightarrow> Ok object
        | _ \<Rightarrow> Err (Transport (''download response for '' @ object_id @ '' returned '' @
                show_nat (length downloads) @ '' objects'')), k))"

definition download_many ::
    "'z crypto_libs_scheme \<Rightarrow> pull_net \<Rightarrow> transfer_queue_config \<Rightarrow> string \<Rightarrow> string \<Rightarrow> string list \<Rightarrow> nat
      \<Rightarrow> (string \<times> downloaded_object) list sync_result \<times> nat" where
  "download_many L N queue workspace_id device_id object_ids k =
     try_then (download_batch L N queue workspace_id device_id object_ids k) (\<lambda>downloads k.
       (Ok (bt_of_list (map (\<lambda>object. (do_object_id object, object)) downloads)), k))"

definition unpack_ref ::
    "'z pack_libs_scheme \<Rightarrow> symmetric_key \<Rightarrow> string \<Rightarrow> string \<Rightarrow> (string \<times> downloaded_object) list
      \<Rightarrow> commit_body_pack_ref \<Rightarrow> (string \<times> unpacked_pack) list \<Rightarrow> (string \<times> unpacked_pack) list sync_result" where
  "unpack_ref L workspace_key workspace_id commit_id downloads pack_ref packs =
     and_then (ok_or (bt_get downloads (pr_object_id pack_ref))
         (Transport (''download response missing pack object '' @ pr_object_id pack_ref))) (\<lambda>downloaded.
     and_then (validate_downloaded_pack pack_ref downloaded) (\<lambda>_.
     and_then (decrypt_pack L workspace_key workspace_id (pr_object_id pack_ref) (pr_pack_kind pack_ref)
         commit_id (do_ciphertext downloaded)) (\<lambda>unpacked.
       if length (px_entries (up_index unpacked)) \<noteq> pr_entry_count pack_ref
       then Err (Integrity (''pack '' @ pr_object_id pack_ref @ '' entry count mismatch''))
       else Ok (bt_insert (pr_object_id pack_ref) unpacked packs))))"

definition decrypt_commit ::
    "'z commit_libs_scheme \<Rightarrow> pull_net \<Rightarrow> transfer_queue_config \<Rightarrow> string \<Rightarrow> string \<Rightarrow> symmetric_key
      \<Rightarrow> sync_commit_header \<Rightarrow> nat \<Rightarrow> decrypted_commit sync_result \<times> nat" where
  "decrypt_commit L N queue workspace_id device_id workspace_key header k =
     try_then (pull_download_one L N queue workspace_id device_id (ch_body_object_id header) k)
       (\<lambda>body_download k.
     try_then (validate_downloaded_commit_body L header body_download, k) (\<lambda>_ k.
     try_then (commit_kind_label (ch_commit_kind header), k) (\<lambda>kind_label k.
     try_then (decrypt_commit_body L (commit_body_key L workspace_key workspace_id)
         (new_commit_body_aad workspace_id (ch_commit_id header) kind_label
            (ch_parent_commit_ids header) (ch_author_device_id header) (ch_device_seq header)
            (ch_body_object_id header)) (do_ciphertext body_download), k) (\<lambda>plaintext k.
     try_then (json_result (commit_body_of_json L plaintext), k) (\<lambda>body k.
     try_then (validate_commit_body header kind_label body, k) (\<lambda>_ k.
     try_then (download_many L N queue workspace_id device_id (map pr_object_id (bd_packs body)) k)
       (\<lambda>downloads k.
     try_then (fold_results (unpack_ref L workspace_key workspace_id (ch_commit_id header) downloads)
         (bd_packs body) [], k) (\<lambda>packs k.
       (Ok \<lparr>dc_header = header, dc_body = body, dc_packs = packs\<rparr>, k)))))))))"

section \<open>Trees\<close>

definition remote_entry ::
    "string \<Rightarrow> string \<Rightarrow> string \<Rightarrow> string \<Rightarrow> commit_body_content_ref \<Rightarrow> sync_tree_entry_record" where
  "remote_entry commit_id fid npath plaintext_hash content_ref =
     \<lparr>tr_commit_id = commit_id, tr_file_id = fid, tr_normalized_path = npath,
      tr_plaintext_hash = Some plaintext_hash,
      tr_content_object_id = Some (ref_object_id content_ref),
      tr_pack_entry_id = Some (ref_entry_id content_ref), tr_kind = FILE_KIND_MARKDOWN\<rparr>"

fun materialize_remote_change ::
    "'z commit_libs_scheme \<Rightarrow> decrypted_commit \<Rightarrow> commit_body_file_op \<Rightarrow> tree_map \<Rightarrow> tree_map sync_result" where
  "materialize_remote_change L commit (UpsertFile fid path npath plaintext_hash n content_ref) tree =
     and_then (validate_remote_file_identity L fid path npath) (\<lambda>_.
     and_then (pack_entry_plaintext (dc_packs commit) content_ref) (\<lambda>plaintext.
     and_then (validate_plaintext_metadata L path plaintext plaintext_hash n) (\<lambda>_.
       Ok (bt_insert fid (remote_entry (ch_commit_id (dc_header commit)) fid npath plaintext_hash content_ref)
             tree))))"
| "materialize_remote_change L commit (DeleteFile fid path npath) tree =
     and_then (validate_remote_file_identity L fid path npath) (\<lambda>_. Ok (bt_remove fid tree))"

definition materialize_remote_tree_only ::
    "'z commit_libs_scheme \<Rightarrow> decrypted_commit \<Rightarrow> tree_map \<Rightarrow> tree_map sync_result" where
  "materialize_remote_tree_only L commit tree =
     fold_results (materialize_remote_change L commit) (bd_changes (dc_body commit))
       (if ch_commit_kind (dc_header commit) = COMMIT_KIND_CHECKPOINT then [] else tree)"

fun rematerialize_tree_entries ::
    "'z commit_libs_scheme \<Rightarrow> pull_net \<Rightarrow> transfer_queue_config \<Rightarrow> pull_input \<Rightarrow> string
      \<Rightarrow> sync_commit_header list \<Rightarrow> tree_map \<Rightarrow> nat \<Rightarrow> tree_map sync_result \<times> nat" where
  "rematerialize_tree_entries L N queue input target_commit_id [] tree k =
     (Err (Transport (''local head '' @ target_commit_id @ '' is not present in remote history'')), k)"
| "rematerialize_tree_entries L N queue input target_commit_id (header # headers) tree k =
     try_then (decrypt_commit L N queue (pi_workspace_id input) (pi_device_id input)
         (pi_workspace_key input) header k) (\<lambda>commit k.
     try_then (materialize_remote_tree_only L commit tree, k) (\<lambda>tree k.
       if ch_commit_id (dc_header commit) = target_commit_id then (Ok tree, k)
       else rematerialize_tree_entries L N queue input target_commit_id headers tree k))"

definition initial_tree_entries :: "sync_vault_record \<Rightarrow> sync_db \<Rightarrow> tree_map" where
  "initial_tree_entries vault db =
     (case vr_local_head_commit_id vault of
        None \<Rightarrow> [] | Some local_head \<Rightarrow> tree_of_entries (list_tree_entries db local_head))"

definition initial_or_rematerialized_tree_entries ::
    "'z commit_libs_scheme \<Rightarrow> pull_net \<Rightarrow> transfer_queue_config \<Rightarrow> pull_input \<Rightarrow> sync_vault_record
      \<Rightarrow> sync_commit_header list \<Rightarrow> sync_db \<Rightarrow> nat \<Rightarrow> tree_map sync_result \<times> nat" where
  "initial_or_rematerialized_tree_entries L N queue input vault commits db k =
     (let local_head = (case vr_local_head_commit_id vault of Some h \<Rightarrow> h | None \<Rightarrow> []);
          tree = initial_tree_entries vault db
      in if local_head = [] \<or> tree \<noteq> [] then (Ok tree, k)
         else rematerialize_tree_entries L N queue input local_head commits [] k)"

section \<open>The listed history\<close>

text \<open>The pages a listing goes through: each but the last announces more and a cursor beyond the one it was asked for.\<close>

inductive page_chain ::
    "(64 word \<Rightarrow> list_commits_output sync_result) \<Rightarrow> 64 word \<Rightarrow> list_commits_output list \<Rightarrow> bool" where
  last_page: "api after = Ok page \<Longrightarrow> \<not> lc_has_more page \<Longrightarrow> page_chain api after [page]"
| more_pages: "api after = Ok page \<Longrightarrow> lc_has_more page \<Longrightarrow> after <s lc_next_after_server_seq page \<Longrightarrow>
    page_chain api (lc_next_after_server_seq page) pages \<Longrightarrow> page_chain api after (page # pages)"

inductive_cases page_chainE: "page_chain api after pages"

lemma ex_page_chain:
  "(\<exists>pages. page_chain api after pages \<and> Q pages) \<longleftrightarrow>
     (\<exists>page. api after = Ok page \<and>
       (if lc_has_more page
        then after <s lc_next_after_server_seq page \<and>
          (\<exists>pages. page_chain api (lc_next_after_server_seq page) pages \<and> Q (page # pages))
        else Q [page]))"
  (is "?L \<longleftrightarrow> ?R")
proof
  assume ?L
  then obtain pages where "page_chain api after pages" "Q pages" by blast
  then show ?R by cases auto
next
  assume ?R
  then obtain page where "api after = Ok page"
    "if lc_has_more page
     then after <s lc_next_after_server_seq page \<and>
       (\<exists>pages. page_chain api (lc_next_after_server_seq page) pages \<and> Q (page # pages))
     else Q [page]" by blast
  then show ?L by (cases "lc_has_more page") (auto intro: last_page more_pages)
qed

lemma append_page_Ok:
  "fold_results append_commit cs acc = Ok out \<longleftrightarrow>
     out = acc @ cs \<and> sorted_wrt (\<lambda>a b. ch_server_seq a < ch_server_seq b) (drop (length acc - 1) (acc @ cs))"
proof (induction cs arbitrary: acc out)
  case Nil
  show ?case by (cases acc rule: rev_cases) auto
next
  case (Cons c cs)
  show ?case
  proof (cases acc rule: rev_cases)
    case Nil
    then show ?thesis using Cons.IH [of "[c]" out] by (simp add: append_commit_def [of c "[]"])
  next
    case (snoc acc' a)
    have "fold_results append_commit cs (acc @ [c]) = Ok out \<longleftrightarrow>
      out = acc @ c # cs \<and> sorted_wrt (\<lambda>a b. ch_server_seq a < ch_server_seq b) (c # cs)"
      using Cons.IH [of "acc @ [c]" out] by simp
    then show ?thesis
      by (auto simp: snoc append_commit_def [of c "acc' @ [a]"]) force
  qed
qed

lemma sorted_wrt_glue:
  assumes "transp P" "sorted_wrt P acc"
  shows "sorted_wrt P (drop (length acc - 1) (acc @ cs)) \<longleftrightarrow> sorted_wrt P (acc @ cs)"
proof (cases acc rule: rev_cases)
  case (snoc acc' a)
  with assms(2) have "\<forall>x \<in> set acc'. P x a" by (simp add: sorted_wrt_append)
  then show ?thesis
    using assms snoc by (auto simp: sorted_wrt_append) (meson transpD)
qed simp

lemma append_commit_page_Ok:
  assumes "sorted_wrt (<) (map ch_server_seq commits)"
  shows "append_commit_page commits page = Ok out \<longleftrightarrow>
     out = commits @ lc_commits page \<and> sorted_wrt (<) (map ch_server_seq out)"
proof -
  have "transp (\<lambda>a b. ch_server_seq a < ch_server_seq b)" by (auto intro: transpI)
  with assms show ?thesis
    using sorted_wrt_glue [of "\<lambda>a b. ch_server_seq a < ch_server_seq b" commits "lc_commits page"]
    by (auto simp: append_commit_page_def append_page_Ok sorted_wrt_map)
qed

lemma list_commits_from_Ok:
  assumes "sorted_wrt (<) (map ch_server_seq commits)"
  shows "list_commits_from api after commits = Ok out \<longleftrightarrow>
    (\<exists>pages. page_chain api after pages \<and> out = commits @ concat (map lc_commits pages) \<and>
       sorted_wrt (<) (map ch_server_seq out))"
  using assms
proof (induction api after commits rule: list_commits_from.induct)
  case (1 api after commits)
  let ?sorted = "\<lambda>out. sorted_wrt (<) (map ch_server_seq out)"
  show ?case
  proof (cases "api after")
    case (Err e)
    then show ?thesis unfolding ex_page_chain [of api after] by (simp add: list_commits_from.simps [of api after])
  next
    case page: (Ok page)
    show ?thesis
    proof (cases "append_commit_page commits page")
      case (Err e)
      have "\<not> ?sorted (commits @ lc_commits page)"
        using append_commit_page_Ok [OF 1(2), of page "commits @ lc_commits page"] Err by simp
      then have "out = commits @ lc_commits page @ rest \<Longrightarrow> \<not> ?sorted out" for rest
        by (auto simp: sorted_wrt_append)
      then show ?thesis
        unfolding ex_page_chain [of api after] using page Err
        by (auto simp: list_commits_from.simps [of api after])
    next
      case (Ok commits')
      with append_commit_page_Ok [OF 1(2)] have c: "commits' = commits @ lc_commits page" "?sorted commits'"
        by blast+
      show ?thesis
      proof (cases "lc_has_more page \<and> \<not> lc_next_after_server_seq page \<le>s after")
        case True
        then have adv: "after <s lc_next_after_server_seq page"
          by (simp add: word_sle_eq word_sless_alt)
        have "list_commits_from api after commits = list_commits_from api (lc_next_after_server_seq page) commits'"
          using page Ok True by (simp add: list_commits_from.simps [of api after])
        also have "\<dots> = Ok out \<longleftrightarrow> (\<exists>pages. page_chain api (lc_next_after_server_seq page) pages \<and>
            out = commits' @ concat (map lc_commits pages) \<and> ?sorted out)"
          using 1(1) [OF page Ok] True c(2) by blast
        finally show ?thesis
          unfolding ex_page_chain [of api after] using True adv by (simp add: page c(1))
      next
        case False
        then have stop: "lc_has_more page \<Longrightarrow> \<not> after <s lc_next_after_server_seq page"
          by (simp add: word_sle_eq word_sless_alt)
        show ?thesis
          unfolding ex_page_chain [of api after] using False stop Ok c
          by (auto simp: list_commits_from.simps [of api after] page)
      qed
    qed
  qed
qed

text \<open>
  C20. Listing the history always ends, whatever the server answers, and succeeds exactly when the server's pages
  form a chain of growing cursors and the sequence numbers on them strictly increase; the result is
  then all of their commits in order.
\<close>

theorem list_all_commits_iff:
  "list_all_commits N workspace_id = Ok commits \<longleftrightarrow>
     (\<exists>pages. page_chain (\<lambda>after. pn_list_commits N workspace_id after LIST_COMMITS_PAGE_SIZE) 0 pages \<and>
        commits = concat (map lc_commits pages) \<and> sorted_wrt (<) (map ch_server_seq commits))"
  using list_commits_from_Ok [of "[]"] by (simp add: list_all_commits_def)

section \<open>The selected commits\<close>

lemma position_Some:
  "position P xs = Some i \<longleftrightarrow> i < length xs \<and> P (xs ! i) \<and> (\<forall>j < i. \<not> P (xs ! j))"
proof (induction xs arbitrary: i)
  case (Cons x xs)
  then show ?case by (cases i) (auto simp: All_less_Suc2)
qed simp

lemma position_split:
  "position P xs = Some i \<longleftrightarrow> (\<exists>us x vs. xs = us @ x # vs \<and> length us = i \<and> P x \<and> (\<forall>u \<in> set us. \<not> P u))"
proof
  assume "position P xs = Some i"
  then show "\<exists>us x vs. xs = us @ x # vs \<and> length us = i \<and> P x \<and> (\<forall>u \<in> set us. \<not> P u)"
    by (intro exI [of _ "take i xs"] exI [of _ "xs ! i"] exI [of _ "drop (Suc i) xs"])
      (auto simp: position_Some id_take_nth_drop in_set_conv_nth)
qed (auto simp: position_Some nth_append)

definition replayed_from ::
    "string \<Rightarrow> sync_head \<Rightarrow> sync_commit_header list \<Rightarrow> sync_commit_header list \<Rightarrow> bool" where
  "replayed_from local_head head older replay \<longleftrightarrow>
     (if local_head \<noteq> [] then
        older \<noteq> [] \<and> ch_commit_id (last older) = local_head \<and> local_head \<notin> ch_commit_id ` set (butlast older)
      else if latest_checkpoint_commit_id head \<noteq> [] then
        replay \<noteq> [] \<and> ch_commit_id (hd replay) = latest_checkpoint_commit_id head \<and>
        latest_checkpoint_commit_id head \<notin> ch_commit_id ` set older
      else older = [])"

lemma replay_start_Ok:
  "replay_start local_head head commits = Ok i \<and> drop i commits \<noteq> [] \<longleftrightarrow>
     (\<exists>older replay. commits = older @ replay \<and> length older = i \<and> replay \<noteq> [] \<and>
        replayed_from local_head head older replay)"
proof -
  consider (local) "local_head \<noteq> []" | (checkpoint) "local_head = []" "latest_checkpoint_commit_id head \<noteq> []"
    | (genesis) "local_head = []" "latest_checkpoint_commit_id head = []" by blast
  then show ?thesis
  proof cases
    case local
    have "replay_start local_head head commits = Ok i \<longleftrightarrow>
        (\<exists>us x vs. commits = us @ x # vs \<and> Suc (length us) = i \<and> ch_commit_id x = local_head \<and>
           (\<forall>u \<in> set us. ch_commit_id u \<noteq> local_head))"
      using local by (auto simp: replay_start_def result_simps position_split)
    also have "\<dots> \<and> drop i commits \<noteq> [] \<longleftrightarrow>
        (\<exists>older replay. commits = older @ replay \<and> length older = i \<and> replay \<noteq> [] \<and>
           replayed_from local_head head older replay)"
      (is "?L \<longleftrightarrow> ?R")
    proof
      assume ?L
      then obtain us x vs where "commits = (us @ [x]) @ vs" "length (us @ [x]) = i" "ch_commit_id x = local_head"
        "\<forall>u \<in> set us. ch_commit_id u \<noteq> local_head" "vs \<noteq> []" by auto
      with local show ?R
        by (intro exI [of _ "us @ [x]"] exI [of _ vs]) (auto simp: replayed_from_def)
    next
      assume ?R
      then obtain older replay where *: "commits = older @ replay" "length older = i" "replay \<noteq> []"
        "replayed_from local_head head older replay" by blast
      with local obtain us x where "older = us @ [x]" by (cases older rule: rev_cases) (auto simp: replayed_from_def)
      then have us: "older = us @ [x]" "local_head \<notin> ch_commit_id ` set us" "ch_commit_id x = local_head"
        using *(4) local by (simp_all add: replayed_from_def)
      then have "\<forall>u \<in> set us. ch_commit_id u \<noteq> local_head" by (metis imageI)
      with us * have "commits = us @ x # replay \<and> Suc (length us) = i \<and> ch_commit_id x = local_head \<and>
          (\<forall>u \<in> set us. ch_commit_id u \<noteq> local_head)" and "drop i commits \<noteq> []"
        by auto
      then show ?L by blast
    qed
    finally show ?thesis .
  next
    case checkpoint
    have "replay_start local_head head commits = Ok i \<longleftrightarrow>
        (\<exists>us x vs. commits = us @ x # vs \<and> length us = i \<and> ch_commit_id x = latest_checkpoint_commit_id head \<and>
           (\<forall>u \<in> set us. ch_commit_id u \<noteq> latest_checkpoint_commit_id head))"
      using checkpoint by (auto simp: replay_start_def result_simps position_split)
    also have "\<dots> \<and> drop i commits \<noteq> [] \<longleftrightarrow>
        (\<exists>older replay. commits = older @ replay \<and> length older = i \<and> replay \<noteq> [] \<and>
           replayed_from local_head head older replay)"
      (is "?L \<longleftrightarrow> ?R")
    proof
      assume ?L
      then obtain us x vs where *: "commits = us @ x # vs" "length us = i"
        "ch_commit_id x = latest_checkpoint_commit_id head"
        "\<forall>u \<in> set us. ch_commit_id u \<noteq> latest_checkpoint_commit_id head" by blast
      then have "latest_checkpoint_commit_id head \<notin> ch_commit_id ` set us" by (metis imageE)
      with * checkpoint have "replayed_from local_head head us (x # vs)" by (simp add: replayed_from_def)
      with *(1,2) show ?R by (metis list.discI)
    next
      assume ?R
      then obtain older replay where *: "commits = older @ replay" "length older = i" "replay \<noteq> []"
        "replayed_from local_head head older replay" by blast
      then obtain x vs where "replay = x # vs" by (cases replay) auto
      with * checkpoint have x: "replay = x # vs" "ch_commit_id x = latest_checkpoint_commit_id head"
        "latest_checkpoint_commit_id head \<notin> ch_commit_id ` set older" by (simp_all add: replayed_from_def)
      then have "\<forall>u \<in> set older. ch_commit_id u \<noteq> latest_checkpoint_commit_id head" by (metis imageI)
      moreover have "drop i commits \<noteq> []" using *(1-3) by auto
      ultimately show ?L using *(1,2) x(1,2) by blast
    qed
    finally show ?thesis .
  next
    case genesis
    then show ?thesis by (cases commits) (auto simp: replay_start_def replayed_from_def)
  qed
qed

text \<open>
  What is replayed is the part of the history the vault does not have: a selection is accepted exactly when the
  history ends with the server's head and continues after the vault's head, or, for a vault without
  one, starts at the latest checkpoint or at the beginning; a vault that has the head replays nothing.
\<close>

theorem select_replay_commits_iff:
  "select_replay_commits vault head commits = Ok sel \<longleftrightarrow>
     (let local_head = (case vr_local_head_commit_id vault of Some h \<Rightarrow> h | None \<Rightarrow> []) in
      if local_head = current_head_commit_id head
      then sel = \<lparr>rs_commits = [], rs_bootstrapped_from_checkpoint = False\<rparr>
      else \<exists>older replay. commits = older @ replay \<and> replay \<noteq> [] \<and>
        ch_commit_id (last replay) = current_head_commit_id head \<and> replayed_from local_head head older replay \<and>
        sel = \<lparr>rs_commits = replay, rs_bootstrapped_from_checkpoint =
          (local_head = [] \<and> latest_checkpoint_commit_id head \<noteq> [])\<rparr>)"
proof -
  let ?l = "case vr_local_head_commit_id vault of Some h \<Rightarrow> h | None \<Rightarrow> []"
  let ?sel = "\<lambda>replay. \<lparr>rs_commits = replay, rs_bootstrapped_from_checkpoint =
      (?l = [] \<and> latest_checkpoint_commit_id head \<noteq> [])\<rparr>"
  show ?thesis
  proof (cases "?l = current_head_commit_id head")
    case True
    then show ?thesis by (auto simp: select_replay_commits_def Let_def)
  next
    case False
    have "select_replay_commits vault head commits = Ok sel \<longleftrightarrow>
        (\<exists>i. (replay_start ?l head commits = Ok i \<and> drop i commits \<noteq> []) \<and>
           ch_commit_id (last (drop i commits)) = current_head_commit_id head \<and> sel = ?sel (drop i commits))"
      using False by (auto simp: select_replay_commits_def Let_def result_simps split: if_splits)
    also have "\<dots> \<longleftrightarrow> (\<exists>older replay. commits = older @ replay \<and> replay \<noteq> [] \<and>
        ch_commit_id (last replay) = current_head_commit_id head \<and> replayed_from ?l head older replay \<and>
        sel = ?sel replay)"
      unfolding replay_start_Ok
    proof (intro iffI; elim exE conjE)
      fix older replay
      assume "commits = older @ replay" "replay \<noteq> []" "replayed_from ?l head older replay"
        "ch_commit_id (last replay) = current_head_commit_id head" "sel = ?sel replay"
      then show "\<exists>i. (\<exists>older replay. commits = older @ replay \<and> length older = i \<and> replay \<noteq> [] \<and>
          replayed_from ?l head older replay) \<and>
        ch_commit_id (last (drop i commits)) = current_head_commit_id head \<and> sel = ?sel (drop i commits)"
        by (intro exI [of _ "length older"] conjI exI [of _ older] exI [of _ replay]) simp_all
    qed auto
    finally show ?thesis using False by (simp add: Let_def)
  qed
qed

section \<open>What a decrypted commit guarantees\<close>

lemma download_batch_hash:
  assumes "download_batch L N queue w d ids k = (Ok ds, k')" "x \<in> set ds"
  shows "sha256_hex L (do_ciphertext x) = do_ciphertext_sha256 x"
proof -
  let ?loop = "retry_loop (pn_transfer N k) queue Download (checked_count (length ids))
      (download_body L (pn_transfer N k) w d ids) 0"
  have "snd ?loop = Ok ds"
    using assms by (auto simp: download_batch_def download_objects_def split: result.splits if_splits)
  from download.loop_good [OF this] obtain targets where "list_all2 (verified_download L) targets ds"
    by (elim exE conjE) (rule that)
  with assms(2) show ?thesis by (auto simp: in_set_conv_nth list_all2_conv_all_nth verified_download_def)
qed

lemma pull_download_one_Ok:
  assumes "pull_download_one L N queue w d i k = (Ok object, k')"
  shows "download_batch L N queue w d [i] k = (Ok [object], k')"
proof -
  from assms obtain ds where "download_batch L N queue w d [i] k = (Ok ds, k')"
    and "(case ds of [object] \<Rightarrow> Ok object
        | _ \<Rightarrow> Err (Transport (''download response for '' @ i @ '' returned '' @
                show_nat (length ds) @ '' objects''))) = Ok object"
    unfolding pull_download_one_def try_then_eq_Ok by blast
  then show ?thesis by (cases ds rule: remdups_adj.cases) simp_all
qed

lemma check_packs_Ok:
  "check_packs seen ps = Ok () \<Longrightarrow> distinct (map pr_object_id ps) \<and> set (map pr_object_id ps) \<inter> set seen = {} \<and>
     (\<forall>p \<in> set ps. \<exists>k. object_kind_for_pack_kind (pr_pack_kind p) = Ok k)"
  by (induction seen ps rule: check_packs.induct) (auto simp: result_simps split: if_splits)

lemma validate_commit_body_Ok:
  assumes "validate_commit_body header kind_label body = Ok ()"
  shows "bd_format body = ''kuku.sync.commit-body''" "bd_version body = 1"
    "bd_commit_id body = ch_commit_id header" "bd_commit_kind body = kind_label"
    "bd_parent_commit_ids body = ch_parent_commit_ids header"
    "mset (map pr_object_id (bd_packs body)) = mset (ch_referenced_object_ids header)"
    "distinct (map pr_object_id (bd_packs body))"
proof -
  have "sort (map pr_object_id (bd_packs body)) = sort (ch_referenced_object_ids header)"
    using assms by (simp add: validate_commit_body_def split: if_splits)
  then show "mset (map pr_object_id (bd_packs body)) = mset (ch_referenced_object_ids header)"
    by (metis mset_sort)
  show "distinct (map pr_object_id (bd_packs body))"
    using assms check_packs_Ok [of "[]" "bd_packs body"]
    by (simp add: validate_commit_body_def validate_packs_def split: if_splits)
qed (use assms in \<open>simp_all add: validate_commit_body_def split: if_splits\<close>)

definition pack_opened ::
    "'z pack_libs_scheme \<Rightarrow> symmetric_key \<Rightarrow> string \<Rightarrow> string \<Rightarrow> (string \<times> unpacked_pack) list \<Rightarrow> commit_body_pack_ref \<Rightarrow> bool" where
  "pack_opened L key w cid packs p \<longleftrightarrow> (\<exists>unpacked ciphertext. bt_get packs (pr_object_id p) = Some unpacked \<and>
     decrypt_pack L key w (pr_object_id p) (pr_pack_kind p) cid ciphertext = Ok unpacked \<and>
     length (px_entries (up_index unpacked)) = pr_entry_count p)"

lemma unpack_ref_Ok:
  assumes "unpack_ref L key w cid downloads p packs = Ok packs'"
  obtains d u where "bt_get downloads (pr_object_id p) = Some d"
    "decrypt_pack L key w (pr_object_id p) (pr_pack_kind p) cid (do_ciphertext d) = Ok u"
    "length (px_entries (up_index u)) = pr_entry_count p" "packs' = bt_insert (pr_object_id p) u packs"
  using assms by (auto simp: unpack_ref_def result_simps split: if_splits)

lemma unpack_refs_Ok:
  assumes "fold_results (unpack_ref L key w cid downloads) ps packs = Ok packs'"
    and "distinct (map pr_object_id ps)" "bt_wf packs"
  shows "bt_wf packs' \<and> fst ` set packs' = fst ` set packs \<union> pr_object_id ` set ps \<and>
    (\<forall>p \<in> set ps. pack_opened L key w cid packs' p) \<and>
    (\<forall>i. i \<notin> pr_object_id ` set ps \<longrightarrow> bt_get packs' i = bt_get packs i)"
  using assms
proof (induction ps arbitrary: packs)
  case (Cons p ps)
  from Cons.prems(1) obtain packs1 where step: "unpack_ref L key w cid downloads p packs = Ok packs1"
    and rest1: "fold_results (unpack_ref L key w cid downloads) ps packs1 = Ok packs'"
    by (auto simp: result_simps)
  from step obtain d :: downloaded_object and u where u: "decrypt_pack L key w (pr_object_id p) (pr_pack_kind p) cid (do_ciphertext d) = Ok u"
    "length (px_entries (up_index u)) = pr_entry_count p" and packs1: "packs1 = bt_insert (pr_object_id p) u packs"
    by (rule unpack_ref_Ok) (rule that)
  note rest = rest1 [unfolded packs1]
  have wf: "bt_wf (bt_insert (pr_object_id p) u packs)" using Cons.prems(3) by (rule bt_wf_insert)
  note IH = Cons.IH [OF rest _ wf]
  have "bt_get packs' (pr_object_id p) = Some u"
    using IH Cons.prems(2,3) by (simp add: bt.get_insert)
  with u have "pack_opened L key w cid packs' p" unfolding pack_opened_def by blast
  then show ?case using IH Cons.prems(2,3) by (auto simp: bt.get_insert fst_set_bt_insert)
qed simp

lemma decrypt_commit_Ok:
  assumes "decrypt_commit L N queue w d key header k = (Ok dc, k')"
  obtains body_download plaintext kind_label k1 where
    "pull_download_one L N queue w d (ch_body_object_id header) k = (Ok body_download, k1)"
    "validate_downloaded_commit_body L header body_download = Ok ()"
    "commit_kind_label (ch_commit_kind header) = Ok kind_label"
    "decrypt_commit_body L (commit_body_key L key w)
         (new_commit_body_aad w (ch_commit_id header) kind_label
            (ch_parent_commit_ids header) (ch_author_device_id header) (ch_device_seq header)
            (ch_body_object_id header)) (do_ciphertext body_download) = Ok plaintext"
    "json_result (commit_body_of_json L plaintext) = Ok (dc_body dc)"
    "validate_commit_body header kind_label (dc_body dc) = Ok ()" "dc_header dc = header"
    "bt_wf (dc_packs dc)" "fst ` set (dc_packs dc) = pr_object_id ` set (bd_packs (dc_body dc))"
    "\<forall>p \<in> set (bd_packs (dc_body dc)). pack_opened L key w (ch_commit_id header) (dc_packs dc) p"
proof -
  from assms obtain body_download plaintext kind_label k1 downloads where
    *: "pull_download_one L N queue w d (ch_body_object_id header) k = (Ok body_download, k1)"
    "validate_downloaded_commit_body L header body_download = Ok ()"
    "commit_kind_label (ch_commit_kind header) = Ok kind_label"
    "decrypt_commit_body L (commit_body_key L key w)
         (new_commit_body_aad w (ch_commit_id header) kind_label
            (ch_parent_commit_ids header) (ch_author_device_id header) (ch_device_seq header)
            (ch_body_object_id header)) (do_ciphertext body_download) = Ok plaintext"
    "json_result (commit_body_of_json L plaintext) = Ok (dc_body dc)"
    "validate_commit_body header kind_label (dc_body dc) = Ok ()" "dc_header dc = header"
    and packs: "fold_results (unpack_ref L key w (ch_commit_id header) downloads) (bd_packs (dc_body dc)) [] =
      Ok (dc_packs dc)"
    by (auto simp: decrypt_commit_def result_simps)
  note opened = unpack_refs_Ok [OF packs validate_commit_body_Ok(7) [OF *(6)]]
  show thesis by (rule that [OF *]) (use opened in simp_all)
qed

text \<open>
  C82. A commit that is accepted is the commit the server announced: its encrypted body has the announced hash and
  size and opens only for this workspace, commit, author and position; the body names the same commit,
  kind and parents; its packs are, each once, the objects the header refers to, and each opened
  for this commit with the announced number of entries.
\<close>

theorem decrypted_commit_matches_header:
  assumes "decrypt_commit L N queue w d key header k = (Ok commit, k')"
  shows "dc_header commit = header \<and> bd_commit_id (dc_body commit) = ch_commit_id header \<and>
    commit_kind_label (ch_commit_kind header) = Ok (bd_commit_kind (dc_body commit)) \<and>
    bd_parent_commit_ids (dc_body commit) = ch_parent_commit_ids header \<and>
    mset (map pr_object_id (bd_packs (dc_body commit))) = mset (ch_referenced_object_ids header) \<and>
    distinct (map pr_object_id (bd_packs (dc_body commit))) \<and>
    (\<forall>p \<in> set (bd_packs (dc_body commit)). pack_opened L key w (ch_commit_id header) (dc_packs commit) p) \<and>
    (\<exists>ciphertext plaintext. sha256_hex L ciphertext = ch_body_ciphertext_sha256 header \<and>
       min (int (length ciphertext)) i64_max = ch_body_size_bytes header \<and>
       decrypt_commit_body L (commit_body_key L key w)
         (new_commit_body_aad w (ch_commit_id header) (bd_commit_kind (dc_body commit))
            (ch_parent_commit_ids header) (ch_author_device_id header) (ch_device_seq header)
            (ch_body_object_id header)) ciphertext = Ok plaintext \<and>
       commit_body_of_json L plaintext = Ok (dc_body commit))"
proof (rule decrypt_commit_Ok [OF assms])
  fix body_download plaintext kind_label k1
  assume dl: "pull_download_one L N queue w d (ch_body_object_id header) k = (Ok body_download, k1)"
    and vd: "validate_downloaded_commit_body L header body_download = Ok ()"
    and kind: "commit_kind_label (ch_commit_kind header) = Ok kind_label"
    and dec: "decrypt_commit_body L (commit_body_key L key w)
         (new_commit_body_aad w (ch_commit_id header) kind_label
            (ch_parent_commit_ids header) (ch_author_device_id header) (ch_device_seq header)
            (ch_body_object_id header)) (do_ciphertext body_download) = Ok plaintext"
    and json: "json_result (commit_body_of_json L plaintext) = Ok (dc_body commit)"
    and vb: "validate_commit_body header kind_label (dc_body commit) = Ok ()" and h: "dc_header commit = header"
    and opened: "\<forall>p \<in> set (bd_packs (dc_body commit)). pack_opened L key w (ch_commit_id header) (dc_packs commit) p"
  have size: "do_ciphertext_sha256 body_download = ch_body_ciphertext_sha256 header"
    "min (int (length (do_ciphertext body_download))) i64_max = ch_body_size_bytes header"
    using vd by (simp_all add: validate_downloaded_commit_body_def encrypted_blob_metadata_def split: if_splits)
  have hash: "sha256_hex L (do_ciphertext body_download) = ch_body_ciphertext_sha256 header"
  proof -
    from pull_download_one_Ok [OF dl] have "download_batch L N queue w d [ch_body_object_id header] k = (Ok [body_download], k1)" .
    from download_batch_hash [OF this] size(1) show ?thesis by simp
  qed
  have js: "commit_body_of_json L plaintext = Ok (dc_body commit)"
    using json by (cases "commit_body_of_json L plaintext") simp_all
  note body = validate_commit_body_Ok [OF vb]
  show ?thesis
    unfolding body(4)
    by (intro conjI h body(3,5-7) opened kind exI [of _ "do_ciphertext body_download"] exI [of _ plaintext]
        hash size(2) dec js)
qed

end
