(* ===== verification/Sync_Merge.thy ===== *)
theory Sync_Merge
  imports Sync_Errors
begin

text \<open>
  Three-way merging of Markdown files and naming of conflict copies (\<^verbatim>\<open>sync/merge.rs\<close>).
  \<open>merge_markdown\<close> compares the three versions line by line at equal positions;
  \<open>conflict_copy_relative_path\<close> searches for a free name \<^verbatim>\<open>stem.conflict-<time>[-n].ext\<close>, counting
  in \<^verbatim>\<open>i32\<close>: the model stops with a panic at the end of that range.
\<close>

section \<open>Definitions\<close>

datatype markdown_merge_outcome = Merged bytes | Conflict

definition utf8_or_conflict :: "bytes \<Rightarrow> string sync_result" where
  "utf8_or_conflict b =
     (if utf8_valid b then Ok b
      else Err (InvalidArgument ''markdown merge requires utf-8 content''))"

definition split_lines :: "string \<Rightarrow> string list" where
  "split_lines text = (if text = [] then [] else split_inclusive text)"

definition line_at :: "string list \<Rightarrow> nat \<Rightarrow> string" where
  "line_at lines i = (if i < length lines then lines ! i else [])"

fun merge_loop :: "string list \<Rightarrow> string list \<Rightarrow> string list \<Rightarrow> nat list \<Rightarrow> string
    \<Rightarrow> markdown_merge_outcome" where
  "merge_loop base local remote [] merged = Merged merged"
| "merge_loop base local remote (index # rest) merged =
     (let base_line = line_at base index;
          local_line = line_at local index;
          remote_line = line_at remote index
      in if local_line = remote_line then merge_loop base local remote rest (merged @ local_line)
         else if local_line = base_line then merge_loop base local remote rest (merged @ remote_line)
         else if remote_line = base_line then merge_loop base local remote rest (merged @ local_line)
         else Conflict)"

definition merge_markdown :: "bytes \<Rightarrow> bytes \<Rightarrow> bytes \<Rightarrow> markdown_merge_outcome sync_result" where
  "merge_markdown base local remote =
     (if local = remote then Ok (Merged local)
      else if base = local then Ok (Merged remote)
      else if base = remote then Ok (Merged local)
      else
        and_then (utf8_or_conflict base) (\<lambda>base.
        and_then (utf8_or_conflict local) (\<lambda>local.
        and_then (utf8_or_conflict remote) (\<lambda>remote.
          let base_lines = split_lines base;
              local_lines = split_lines local;
              remote_lines = split_lines remote;
              max_len = max (max (length base_lines) (length local_lines)) (length remote_lines)
          in Ok (merge_loop base_lines local_lines remote_lines [0..<max_len] [])))))"

definition civil_from_days :: "int \<Rightarrow> int \<times> int \<times> int" where
  "civil_from_days days =
     (let z = days + 719468;
          era = (if z \<ge> 0 then z else z - 146096) sdiv 146097;
          doe = z - era * 146097;
          yoe = (doe - doe sdiv 1460 + doe sdiv 36524 - doe sdiv 146096) sdiv 365;
          y = yoe + era * 400;
          doy = doe - (365 * yoe + yoe sdiv 4 - yoe sdiv 100);
          mp = (5 * doy + 2) sdiv 153;
          day = doy - (153 * mp + 2) sdiv 5 + 1;
          month = mp + (if mp < 10 then 3 else -9);
          year = y + (if month \<le> 2 then 1 else 0)
      in (year, month, day))"

definition timestamp_utc :: "int \<Rightarrow> string" where
  "timestamp_utc ms =
     (let seconds = ms div 1000;
          days = seconds div 86400;
          seconds_of_day = seconds mod 86400;
          (year, month, day) = civil_from_days days;
          hour = seconds_of_day sdiv 3600;
          minute = (seconds_of_day smod 3600) sdiv 60;
          second = seconds_of_day smod 60
      in show_padded 4 year @ show_padded 2 month @ show_padded 2 day @ ''-'' @
         show_padded 2 hour @ show_padded 2 minute @ show_padded 2 second)"

fun relative_path_components :: "component list \<Rightarrow> string list sync_result" where
  "relative_path_components [] = Ok []"
| "relative_path_components (Normal v # cs) =
     and_then (relative_path_components cs) (\<lambda>vs. Ok (v # vs))"
| "relative_path_components (CurDir # cs) = relative_path_components cs"
| "relative_path_components (_ # cs) =
     Err (InvalidArgument ''conflict source path must be vault-relative'')"

definition validate_relative_path :: "string \<Rightarrow> string list sync_result" where
  "validate_relative_path path =
     (if blank path then Err (InvalidArgument ''conflict source path is required'')
      else and_then (relative_path_components (components path)) (\<lambda>out.
        if out = [] then Err (InvalidArgument ''conflict source path is required'') else Ok out))"

definition path_to_slash_string :: "string list \<Rightarrow> string" where
  "path_to_slash_string comps = replace_char backslash slash (join_with ''/'' comps)"

definition conflict_file_name :: "string \<Rightarrow> string \<Rightarrow> string option \<Rightarrow> int \<Rightarrow> string" where
  "conflict_file_name stem timestamp extension sfx =
     stem @ ''.conflict-'' @ timestamp @
     (if sfx = 1 then [] else CHR ''-'' # show_int sfx) @
     (case extension of Some e \<Rightarrow> dot # e | None \<Rightarrow> [])"

text \<open>
  The search of \<^verbatim>\<open>for suffix in 1..\<close>: the counter is an \<^verbatim>\<open>i32\<close>, and stepping past its largest value
  panics, which is \<open>None\<close>.
\<close>

abbreviation i32_max :: int where "i32_max \<equiv> 2147483647"

function conflict_copy_search :: "(string \<Rightarrow> bool) \<Rightarrow> (int \<Rightarrow> string) \<Rightarrow> int \<Rightarrow> string option" where
  "conflict_copy_search exists candidate sfx =
     (if sfx \<ge> i32_max then None
      else if \<not> exists (candidate sfx) then Some (candidate sfx)
      else conflict_copy_search exists candidate (sfx + 1))"
  by pat_completeness auto
termination
  by (relation "measure (\<lambda>(_, _, sfx). nat (i32_max - sfx))") auto

declare conflict_copy_search.simps [simp del]

definition conflict_copy_relative_path ::
    "string \<Rightarrow> int \<Rightarrow> (string \<Rightarrow> bool) \<Rightarrow> string option sync_result" where
  "conflict_copy_relative_path original_path created_at_ms exists =
     and_then (validate_relative_path original_path) (\<lambda>original.
       let timestamp = timestamp_utc created_at_ms;
           parent = butlast original;
           stem = file_stem_of_name (last original);
           extension = extension_of_name (last original);
           candidate = (\<lambda>sfx. path_to_slash_string
             (parent @ [conflict_file_name stem timestamp extension sfx]))
       in Ok (conflict_copy_search exists candidate 1))"

section \<open>The merge against its line-wise specification\<close>

text \<open>What a three-way merge does with one position: take the side that changed it.\<close>

definition merge3 :: "'a \<Rightarrow> 'a \<Rightarrow> 'a \<Rightarrow> 'a option" where
  "merge3 b l r = (if l = r then Some l else if l = b then Some r else if r = b then Some l else None)"

definition line_picks :: "string list \<Rightarrow> string list \<Rightarrow> string list \<Rightarrow> nat list \<Rightarrow> string option list" where
  "line_picks b l r is = map (\<lambda>i. merge3 (line_at b i) (line_at l i) (line_at r i)) is"

definition line_merge :: "string \<Rightarrow> string \<Rightarrow> string \<Rightarrow> markdown_merge_outcome" where
  "line_merge b l r =
     (let n = max (max (length (split_lines b)) (length (split_lines l))) (length (split_lines r));
          picks = line_picks (split_lines b) (split_lines l) (split_lines r) [0..<n]
      in if None \<in> set picks then Conflict else Merged (concat (map the picks)))"

lemma merge_loop_eq:
  "merge_loop b l r is acc =
     (let picks = line_picks b l r is
      in if None \<in> set picks then Conflict else Merged (acc @ concat (map the picks)))"
  by (induction "is" arbitrary: acc) (auto simp: line_picks_def merge3_def Let_def)

lemma merge3_sym: "merge3 b l r = merge3 b r l"
  by (auto simp: merge3_def)

lemma merge_loop_sym: "merge_loop b l r is acc = merge_loop b r l is acc"
  by (simp add: merge_loop_eq line_picks_def merge3_sym)

lemma concat_line_at:
  assumes "length ls \<le> n"
  shows "concat (map (line_at ls) [0..<n]) = concat ls"
proof -
  have "[0..<n] = [0..<length ls] @ [length ls..<n]"
    using assms by (metis le_add_diff_inverse upt_add_eq_append zero_le)
  moreover have "map (line_at ls) [0..<length ls] = ls"
    by (rule nth_equalityI) (auto simp: line_at_def)
  moreover have "concat (map (line_at ls) [length ls..<n]) = []"
    by (auto simp: line_at_def)
  ultimately show ?thesis by simp
qed

lemma concat_split_lines [simp]: "concat (split_lines s) = s"
  by (simp add: split_lines_def)

lemma line_merge_uniform:
  assumes "\<And>i. merge3 (line_at (split_lines b) i) (line_at (split_lines l) i) (line_at (split_lines r) i)
      = Some (line_at (split_lines t) i)"
    and "length (split_lines t) \<le>
      max (max (length (split_lines b)) (length (split_lines l))) (length (split_lines r))"
  shows "line_merge b l r = Merged t"
  using concat_line_at [OF assms(2)] assms(1)
  by (simp add: line_merge_def line_picks_def comp_def image_iff)

lemma merge_loop_line_merge:
  "merge_loop (split_lines b) (split_lines l) (split_lines r)
     [0..<max (max (length (split_lines b)) (length (split_lines l))) (length (split_lines r))] []
   = line_merge b l r"
  by (simp add: merge_loop_eq line_merge_def Let_def)

lemma line_merge_shortcuts:
  "line_merge b l l = Merged l" "line_merge l l r = Merged r" "line_merge r l r = Merged l"
  by (rule line_merge_uniform; auto simp: merge3_def)+

lemma merge_markdown_line_merge:
  assumes "utf8_valid b" "utf8_valid l" "utf8_valid r"
  shows "merge_markdown b l r = Ok (line_merge b l r)"
proof (cases "l = r \<or> b = l \<or> b = r")
  case True
  then show ?thesis
    by (auto simp: merge_markdown_def line_merge_shortcuts)
next
  case False
  with assms show ?thesis
    by (simp add: merge_markdown_def utf8_or_conflict_def merge_loop_line_merge)
qed

text \<open>
  C7. On UTF-8 input the merge computes exactly the line-wise three-way merge: the three shortcuts
  for equal versions agree with the general loop, a conflict is reported exactly when some
  position was changed differently on both sides, and no error arises.
\<close>

theorem merge_markdown_refines_line_merge:
  assumes "utf8_valid base" "utf8_valid local" "utf8_valid remote"
  shows "merge_markdown base local remote = Ok (line_merge base local remote)"
  using assms by (rule merge_markdown_line_merge)

theorem merge_markdown_refines_line_merge_witness:
  "merge_markdown ''a'' ''b'' ''c'' = Ok (line_merge ''a'' ''b'' ''c'') \<and> line_merge ''a'' ''b'' ''c'' = Conflict"
proof -
  have "line_merge ''a'' ''b'' ''c'' = Conflict" by code_simp
  then show ?thesis
    using merge_markdown_refines_line_merge [of "''a''" "''b''" "''c''"] by simp
qed

text \<open>
  Merging is symmetric: which of the two sides is called local and which remote never changes
  the outcome, errors included.
\<close>

theorem merge_markdown_symmetric:
  "merge_markdown base local remote = merge_markdown base remote local"
proof -
  have "max (max a b) c = max (max a c) b" for a b c :: nat
    by simp
  then show ?thesis
    using merge_loop_sym [of "split_lines base" "split_lines local" "split_lines remote"]
    by (auto simp: merge_markdown_def utf8_or_conflict_def Let_def)
qed

text \<open>
  Edits to different lines never conflict: if every line is unchanged on at least one side, the
  result takes each changed line from the side that changed it.
\<close>

theorem merge_markdown_disjoint_edits:
  assumes "utf8_valid base" "utf8_valid local" "utf8_valid remote"
    and "\<forall>i. line_at (split_lines local) i = line_at (split_lines base) i
            \<or> line_at (split_lines remote) i = line_at (split_lines base) i"
  shows "merge_markdown base local remote = Ok (Merged (concat (map
      (\<lambda>i. if line_at (split_lines local) i = line_at (split_lines base) i
           then line_at (split_lines remote) i else line_at (split_lines local) i)
      [0..<max (max (length (split_lines base)) (length (split_lines local)))
        (length (split_lines remote))])))"
proof -
  have "merge3 (line_at (split_lines base) i) (line_at (split_lines local) i)
      (line_at (split_lines remote) i)
    = Some (if line_at (split_lines local) i = line_at (split_lines base) i
        then line_at (split_lines remote) i else line_at (split_lines local) i)" for i
    using assms(4) by (auto simp: merge3_def)
  then show ?thesis
    using assms(1-3)
    by (simp add: merge_markdown_line_merge line_merge_def line_picks_def comp_def image_iff)
qed

text \<open>Three versions of a two-line note: the first line edited here, the second there.\<close>

definition sample_base :: string where "sample_base = ''a'' @ [newline] @ ''b'' @ [newline]"
definition sample_local :: string where "sample_local = ''c'' @ [newline] @ ''b'' @ [newline]"
definition sample_remote :: string where "sample_remote = ''a'' @ [newline] @ ''d'' @ [newline]"

lemma sample_lines:
  "split_lines sample_base = [''a'' @ [newline], ''b'' @ [newline]]"
  "split_lines sample_local = [''c'' @ [newline], ''b'' @ [newline]]"
  "split_lines sample_remote = [''a'' @ [newline], ''d'' @ [newline]]"
  by (simp_all add: sample_base_def sample_local_def sample_remote_def split_lines_def)

lemma sample_utf8: "utf8_valid sample_base" "utf8_valid sample_local" "utf8_valid sample_remote"
  by (simp_all add: sample_base_def sample_local_def sample_remote_def)

lemma sample_disjoint:
  "line_at (split_lines sample_local) i = line_at (split_lines sample_base) i
   \<or> line_at (split_lines sample_remote) i = line_at (split_lines sample_base) i"
  by (cases i) (simp_all add: sample_lines line_at_def)

theorem merge_markdown_disjoint_edits_witness:
  "merge_markdown sample_base sample_local sample_remote
     = Ok (Merged (''c'' @ [newline] @ ''d'' @ [newline]))"
proof -
  have "merge_markdown sample_base sample_local sample_remote = Ok (Merged (concat (map
      (\<lambda>i. if line_at (split_lines sample_local) i = line_at (split_lines sample_base) i
           then line_at (split_lines sample_remote) i else line_at (split_lines sample_local) i)
      [0..<2])))"
    using merge_markdown_disjoint_edits [OF sample_utf8] sample_disjoint
    by (simp add: sample_lines numeral_2_eq_2)
  then show ?thesis
    by (simp add: sample_lines line_at_def numeral_2_eq_2)
qed

lemma line_picks_None:
  "None \<in> set (line_picks b l r is) \<longleftrightarrow>
     (\<exists>i \<in> set is. merge3 (line_at b i) (line_at l i) (line_at r i) = None)"
  by (induction "is") (auto simp: line_picks_def)

lemma line_merge_MergedE:
  assumes "line_merge b l r = Merged m"
  obtains n where "m = concat (map (\<lambda>i. the (merge3 (line_at (split_lines b) i)
      (line_at (split_lines l) i) (line_at (split_lines r) i))) [0..<n])"
    and "\<And>i. i < n \<Longrightarrow> merge3 (line_at (split_lines b) i)
      (line_at (split_lines l) i) (line_at (split_lines r) i) \<noteq> None"
proof -
  define n where
    "n = max (max (length (split_lines b)) (length (split_lines l))) (length (split_lines r))"
  let ?picks = "line_picks (split_lines b) (split_lines l) (split_lines r) [0..<n]"
  have "None \<notin> set ?picks" and m: "m = concat (map the ?picks)"
    using assms by (simp_all add: line_merge_def Let_def n_def split: if_splits)
  then have "merge3 (line_at (split_lines b) i) (line_at (split_lines l) i)
      (line_at (split_lines r) i) \<noteq> None" if "i < n" for i
    using that by (simp add: line_picks_None)
  with m show thesis
    by (intro that [of n]) (simp_all add: line_picks_def comp_def)
qed

lemma line_at_utf8: "utf8_valid s \<Longrightarrow> utf8_valid (line_at (split_lines s) i)"
  by (auto simp: line_at_def split_lines_def intro: utf8_valid_lines nth_mem)

lemma merge3_Some_cases: "merge3 b l r = Some x \<Longrightarrow> x = l \<or> x = r"
  by (auto simp: merge3_def split: if_splits)

text \<open>What the merge writes is UTF-8 again, so a merged note can be merged once more.\<close>

theorem merge_markdown_utf8:
  assumes "utf8_valid base" "utf8_valid local" "utf8_valid remote"
    and "merge_markdown base local remote = Ok (Merged m)"
  shows "utf8_valid m"
proof -
  from assms(4) have "line_merge base local remote = Merged m"
    using merge_markdown_line_merge [OF assms(1-3)] by simp
  then show ?thesis
  proof (rule line_merge_MergedE)
    fix n
    let ?pick = "\<lambda>i. merge3 (line_at (split_lines base) i) (line_at (split_lines local) i)
       (line_at (split_lines remote) i)"
    assume m: "m = concat (map (\<lambda>i. the (?pick i)) [0..<n])"
      and some: "\<And>i. i < n \<Longrightarrow> ?pick i \<noteq> None"
    have "utf8_valid (the (?pick i))" if "i < n" for i
      using some [OF that] merge3_Some_cases assms(2,3) by (metis line_at_utf8 option.exhaust_sel)
    then show ?thesis
      unfolding m by (intro utf8_valid_concat) auto
  qed
qed

theorem merge_markdown_utf8_witness: "utf8_valid (''c'' @ [newline] @ ''d'' @ [newline])"
proof -
  have "merge_markdown sample_base sample_local sample_remote
     = Ok (Merged (''c'' @ [newline] @ ''d'' @ [newline]))"
    by code_simp
  with sample_utf8 show ?thesis by (rule merge_markdown_utf8)
qed

section \<open>Names of conflict copies\<close>

lemma conflict_copy_search_SomeD:
  "conflict_copy_search exists cand n = Some p \<Longrightarrow> \<not> exists p \<and> (\<exists>k \<ge> n. p = cand k)"
proof (induction exists cand n rule: conflict_copy_search.induct)
  case (1 exists cand n)
  show ?case
  proof (cases "exists (cand n)")
    case True
    with "1.prems" have "\<not> i32_max \<le> n" "conflict_copy_search exists cand (n + 1) = Some p"
      by (simp_all add: conflict_copy_search.simps [of exists cand n] split: if_splits)
    with 1(1) True obtain k where "\<not> exists p" "n + 1 \<le> k" "p = cand k" by blast
    then show ?thesis by (intro conjI exI [of _ k]) simp_all
  next
    case False
    with "1.prems" show ?thesis
      by (auto simp: conflict_copy_search.simps [of exists cand n] split: if_splits)
  qed
qed

lemma conflict_copy_search_complete:
  "n \<le> k \<Longrightarrow> k < i32_max \<Longrightarrow> \<not> exists (cand k) \<Longrightarrow> conflict_copy_search exists cand n \<noteq> None"
proof (induction exists cand n rule: conflict_copy_search.induct)
  case (1 exists cand n)
  then show ?case
    by (subst conflict_copy_search.simps) (cases "n = k"; simp)
qed

lemma replace_char_digits: "n \<ge> 0 \<Longrightarrow> replace_char backslash slash (show_int n) = show_int n"
  by (rule replace_char_idle)
    (auto simp: show_int_def is_ascii_digit_def dest!: show_nat_digits)

lemma conflict_candidate_inject:
  assumes "path_to_slash_string (parent @ [conflict_file_name stem ts ext m])
      = path_to_slash_string (parent @ [conflict_file_name stem ts ext n])"
    and "1 \<le> m" "1 \<le> n"
  shows "m = n"
proof -
  define tail where "tail k = (if k = 1 then [] else CHR ''-'' # show_int k)" for k :: int
  have "replace_char backslash slash (tail k) = tail k" if "1 \<le> k" for k
    using that replace_char_digits [of k] by (simp add: tail_def) (simp add: replace_char_def)
  then have "map (\<lambda>c. if c = backslash then slash else c) (tail k) = tail k" if "1 \<le> k" for k
    using that by (simp add: replace_char_def)
  then have "tail m = tail n"
    using assms by (auto simp: path_to_slash_string_def conflict_file_name_def join_with_snoc
        tail_def [symmetric] replace_char_def split: if_splits)
  then show ?thesis
    using assms(2,3) by (auto simp: tail_def show_int_def split: if_splits)
qed

lemma conflict_copy_search_finds:
  assumes "finite S" "card S < 2147483646" and "\<And>n. 1 \<le> n \<Longrightarrow> exists (cand n) \<Longrightarrow> f n \<in> S"
    and "\<And>m n. 1 \<le> m \<Longrightarrow> 1 \<le> n \<Longrightarrow> f m = f n \<Longrightarrow> m = n"
  shows "conflict_copy_search exists cand 1 \<noteq> None"
proof -
  have "\<exists>k. 1 \<le> k \<and> k < i32_max \<and> \<not> exists (cand k)"
  proof (rule ccontr)
    assume "\<not> ?thesis"
    then have sub: "f ` {1..<i32_max} \<subseteq> S" using assms(3) by auto
    have "inj_on f {1..<i32_max}"
      using assms(4) by (auto simp: inj_on_def)
    then have "card (f ` {1..<i32_max}) = 2147483646"
      by (simp add: card_image)
    with card_mono [OF assms(1) sub] assms(2) show False by simp
  qed
  then show ?thesis
    using conflict_copy_search_complete by blast
qed

end
