(* ===== verification/Vault_Watcher.thy ===== *)
theory Vault_Watcher
  imports Vault_Fs "HOL-Library.AList" "HOL-Library.Word" "HOL-Library.Multiset"
begin

text \<open>
  The file watcher (\<^verbatim>\<open>vault/watcher.rs\<close>). The ledger of expected mutations lets the watcher tell changes the
  application made itself from changes made by others; the cache remembers which paths are
  directories, because a removed path can no longer be asked; a rename that arrives in two halves is
  held back until the second half comes or 600 ms have passed. Instants are nanoseconds. The
  operating system's answer to \<^verbatim>\<open>fs::metadata\<close> and the iteration order of the hash map are parameters.
  The identifiers of the ledger are \<^verbatim>\<open>u64\<close> and wrap.
\<close>

section \<open>The ledger of expected mutations\<close>

datatype expected_mutation_kind = MWrite | MDelete | MRename

record expected_fs_mutation =
  em_id :: "64 word"
  em_kind :: expected_mutation_kind
  em_path :: string
  em_old_path :: "string option"
  em_is_dir :: bool
  em_created_at :: int

record expected_mutation_ledger =
  ml_entries :: "expected_fs_mutation list"
  ml_next_id :: "64 word"

record file_change_event =
  ev_kind :: string
  ev_path :: string
  ev_is_dir :: bool
  ev_old_path :: "string option"

definition empty_ledger :: expected_mutation_ledger where
  "empty_ledger = \<lparr>ml_entries = [], ml_next_id = 0\<rparr>"

definition from_millis :: "int \<Rightarrow> int" where
  "from_millis ms = ms * 1000000"

text \<open>\<^verbatim>\<open>Instant::duration_since\<close> saturates at zero.\<close>

definition duration_since :: "int \<Rightarrow> int \<Rightarrow> int" where
  "duration_since now earlier = max 0 (now - earlier)"

definition PENDING_RENAME_TIMEOUT_MS :: int where "PENDING_RENAME_TIMEOUT_MS = 600"
definition EXPECTED_MUTATION_TTL_MS :: int where "EXPECTED_MUTATION_TTL_MS = 2000"

definition record_mutation ::
    "int \<Rightarrow> expected_mutation_kind \<Rightarrow> string \<Rightarrow> string option \<Rightarrow> bool
      \<Rightarrow> expected_mutation_ledger \<Rightarrow> 64 word \<times> expected_mutation_ledger" where
  "record_mutation now kind path old_path is_dir ledger =
     (let i = ml_next_id ledger + 1 in
      (i, \<lparr>ml_entries = ml_entries ledger @
             [\<lparr>em_id = i, em_kind = kind, em_path = path, em_old_path = old_path,
               em_is_dir = is_dir, em_created_at = now\<rparr>],
           ml_next_id = i\<rparr>))"

definition record_write ::
    "int \<Rightarrow> string \<Rightarrow> bool \<Rightarrow> expected_mutation_ledger \<Rightarrow> 64 word \<times> expected_mutation_ledger" where
  "record_write now path is_dir = record_mutation now MWrite path None is_dir"

definition record_delete ::
    "int \<Rightarrow> string \<Rightarrow> bool \<Rightarrow> expected_mutation_ledger \<Rightarrow> 64 word \<times> expected_mutation_ledger" where
  "record_delete now path is_dir = record_mutation now MDelete path None is_dir"

definition record_rename ::
    "int \<Rightarrow> string \<Rightarrow> string \<Rightarrow> bool \<Rightarrow> expected_mutation_ledger \<Rightarrow> 64 word \<times> expected_mutation_ledger" where
  "record_rename now old_path new_path is_dir = record_mutation now MRename new_path (Some old_path) is_dir"

definition cancel :: "64 word \<Rightarrow> expected_mutation_ledger \<Rightarrow> expected_mutation_ledger" where
  "cancel token ledger = ledger\<lparr>ml_entries := filter (\<lambda>e. em_id e \<noteq> token) (ml_entries ledger)\<rparr>"

definition paths_match :: "string \<Rightarrow> string \<Rightarrow> bool" where
  "paths_match left right \<longleftrightarrow> left = right \<or> eq_ignore_ascii_case left right"

fun expected_mutation_matches_event :: "expected_fs_mutation \<Rightarrow> file_change_event \<Rightarrow> bool" where
  "expected_mutation_matches_event entry event =
     (case em_kind entry of
        MWrite \<Rightarrow>
          ev_kind event \<in> {''create'', ''modify''} \<and> em_is_dir entry = ev_is_dir event \<and>
          paths_match (em_path entry) (ev_path event)
      | MDelete \<Rightarrow>
          (ev_kind event = ''delete'' \<and> em_is_dir entry = ev_is_dir event \<and>
             paths_match (em_path entry) (ev_path event)) \<or>
          (ev_kind event = ''rename'' \<and>
             (case ev_old_path event of None \<Rightarrow> False | Some old \<Rightarrow> paths_match (em_path entry) old))
      | MRename \<Rightarrow>
          if ev_kind event \<in> {''create'', ''modify''}
          then em_is_dir entry = ev_is_dir event \<and> paths_match (em_path entry) (ev_path event)
          else ev_kind event = ''rename'' \<and> em_is_dir entry = ev_is_dir event \<and>
               paths_match (em_path entry) (ev_path event) \<and>
               (case (em_old_path entry, ev_old_path event) of
                  (Some expected, Some actual) \<Rightarrow> paths_match expected actual
                | _ \<Rightarrow> True))"

declare expected_mutation_matches_event.simps [simp del]

definition expected_live :: "int \<Rightarrow> expected_fs_mutation \<Rightarrow> bool" where
  "expected_live now entry \<longleftrightarrow>
     duration_since now (em_created_at entry) \<le> from_millis EXPECTED_MUTATION_TTL_MS"

fun remove_first :: "('a \<Rightarrow> bool) \<Rightarrow> 'a list \<Rightarrow> 'a list option" where
  "remove_first P [] = None"
| "remove_first P (x # xs) = (if P x then Some xs else map_option ((#) x) (remove_first P xs))"

definition consume_matching ::
    "int \<Rightarrow> file_change_event \<Rightarrow> expected_mutation_ledger \<Rightarrow> bool \<times> expected_mutation_ledger" where
  "consume_matching now event ledger =
     (let entries = filter (expected_live now) (ml_entries ledger) in
      case remove_first (\<lambda>entry. expected_mutation_matches_event entry event) entries of
        None \<Rightarrow> (False, ledger\<lparr>ml_entries := entries\<rparr>)
      | Some rest \<Rightarrow> (True, ledger\<lparr>ml_entries := rest\<rparr>))"

section \<open>The path kind cache\<close>

type_synonym path_kind_cache = "(fpath \<times> bool) list"

fun collect_path_kinds :: "fpath \<Rightarrow> fpath \<Rightarrow> fnode \<Rightarrow> path_kind_cache \<Rightarrow> path_kind_cache option" where
  "collect_path_kinds root dir (Dir es) cache =
     Some (fold (\<lambda>(name, n) cache.
       let rel = dir @ [name] in
       if should_ignore_path rel then cache
       else let cache = AList.update (root @ rel) (case n of Dir _ \<Rightarrow> True | _ \<Rightarrow> False) cache in
         (case collect_path_kinds root rel n cache of Some c \<Rightarrow> c | None \<Rightarrow> cache)) es cache)"
| "collect_path_kinds root dir _ cache = None"

definition seed_path_kind_cache :: "fpath \<Rightarrow> fnode \<Rightarrow> path_kind_cache option" where
  "seed_path_kind_cache root fs = collect_path_kinds root [] fs []"

definition infer_path_kind ::
    "(fpath \<Rightarrow> bool option) \<Rightarrow> fpath \<Rightarrow> bool option \<Rightarrow> path_kind_cache \<Rightarrow> bool" where
  "infer_path_kind stat path hinted cache =
     (case hinted of Some d \<Rightarrow> d
      | None \<Rightarrow> (case stat path of Some d \<Rightarrow> d
        | None \<Rightarrow> (case map_of cache path of Some d \<Rightarrow> d | None \<Rightarrow> False)))"

definition insert_cached_path :: "fpath \<Rightarrow> bool \<Rightarrow> path_kind_cache \<Rightarrow> path_kind_cache" where
  "insert_cached_path path is_dir cache = AList.update path is_dir cache"

definition remove_cached_path :: "fpath \<Rightarrow> bool \<Rightarrow> path_kind_cache \<Rightarrow> path_kind_cache" where
  "remove_cached_path path is_dir cache =
     (if \<not> is_dir then AList.delete path cache
      else fold AList.delete (filter (prefix path) (map fst cache)) cache)"

definition rename_cached_path ::
    "(path_kind_cache \<Rightarrow> path_kind_cache) \<Rightarrow> fpath \<Rightarrow> fpath \<Rightarrow> bool \<Rightarrow> path_kind_cache \<Rightarrow> path_kind_cache" where
  "rename_cached_path ord from to is_dir cache =
     (if \<not> is_dir then AList.update to False (AList.delete from cache)
      else let cache = fold (\<lambda>(candidate, cached_is_dir) cache.
                 AList.update (to @ drop (length from) candidate) cached_is_dir
                   (AList.delete candidate cache))
               (filter (\<lambda>(candidate, _). prefix from candidate) (ord cache)) cache
           in if map_of cache to = None then AList.update to True cache else cache)"

definition find_case_only_cached_path ::
    "(path_kind_cache \<Rightarrow> path_kind_cache) \<Rightarrow> path_kind_cache \<Rightarrow> fpath \<Rightarrow> fpath option" where
  "find_case_only_cached_path ord cache path =
     find (\<lambda>candidate. candidate \<noteq> path \<and>
       eq_ignore_ascii_case (display_path candidate) (display_path path)) (map fst (ord cache))"

section \<open>Mapping the operating system's events\<close>

datatype create_kind = CreateAny | CreateFile | CreateFolder | CreateOther
datatype rename_mode = RenameAny | RenameTo | RenameFrom | RenameBoth | RenameOther
datatype modify_kind = ModifyAny | ModifyData | ModifyMetadata | ModifyName rename_mode | ModifyOther
datatype remove_kind = RemoveAny | RemoveFile | RemoveFolder | RemoveOther
datatype event_kind =
    KindAny | KindAccess | KindCreate create_kind | KindModify modify_kind | KindRemove remove_kind
  | KindOther

record notify_event =
  ne_kind :: event_kind
  ne_paths :: "fpath list"

record pending_rename =
  pr_path :: fpath
  pr_is_dir :: bool
  pr_at :: int

definition relative_to :: "fpath \<Rightarrow> fpath \<Rightarrow> string" where
  "relative_to root path =
     (if prefix root path then to_relative_path (drop (length root) path)
      else replace_char backslash slash (display_path path))"

definition is_ignored :: "fpath \<Rightarrow> fpath \<Rightarrow> bool" where
  "is_ignored root path \<longleftrightarrow> prefix root path \<and> should_ignore_path (drop (length root) path)"

definition maybe_cleanup_pending ::
    "int \<Rightarrow> fpath \<Rightarrow> pending_rename option \<Rightarrow> path_kind_cache
      \<Rightarrow> file_change_event option \<times> pending_rename option \<times> path_kind_cache" where
  "maybe_cleanup_pending now root pending cache =
     (case pending of
        None \<Rightarrow> (None, pending, cache)
      | Some p \<Rightarrow>
          if duration_since now (pr_at p) > from_millis PENDING_RENAME_TIMEOUT_MS
          then (Some \<lparr>ev_kind = ''delete'', ev_path = relative_to root (pr_path p),
                      ev_is_dir = pr_is_dir p, ev_old_path = None\<rparr>,
                None, remove_cached_path (pr_path p) (pr_is_dir p) cache)
          else (None, pending, cache))"

definition map_case_only_cached_rename ::
    "(path_kind_cache \<Rightarrow> path_kind_cache) \<Rightarrow> fpath \<Rightarrow> fpath \<Rightarrow> bool \<Rightarrow> path_kind_cache
      \<Rightarrow> (file_change_event \<times> path_kind_cache) option" where
  "map_case_only_cached_rename ord root path is_dir cache =
     (case find_case_only_cached_path ord cache path of
        None \<Rightarrow> None
      | Some old_path \<Rightarrow>
          let is_dir = (is_dir \<or> map_of cache old_path = Some True) in
          Some (\<lparr>ev_kind = ''rename'', ev_path = relative_to root path, ev_is_dir = is_dir,
                 ev_old_path = Some (relative_to root old_path)\<rparr>,
                rename_cached_path ord old_path path is_dir cache))"

text \<open>An event about one path that is not a rename: nothing for an ignored path.\<close>

definition plain_event ::
    "fpath \<Rightarrow> string \<Rightarrow> fpath \<Rightarrow> bool \<Rightarrow> file_change_event" where
  "plain_event root kind path is_dir =
     \<lparr>ev_kind = kind, ev_path = relative_to root path, ev_is_dir = is_dir, ev_old_path = None\<rparr>"

definition rename_event :: "fpath \<Rightarrow> fpath \<Rightarrow> fpath \<Rightarrow> bool \<Rightarrow> file_change_event" where
  "rename_event root old_path new_path is_dir =
     \<lparr>ev_kind = ''rename'', ev_path = relative_to root new_path, ev_is_dir = is_dir,
      ev_old_path = Some (relative_to root old_path)\<rparr>"

fun map_rename_event ::
    "(path_kind_cache \<Rightarrow> path_kind_cache) \<Rightarrow> (fpath \<Rightarrow> bool option) \<Rightarrow> int \<Rightarrow> fpath \<Rightarrow> rename_mode
      \<Rightarrow> fpath list \<Rightarrow> pending_rename option \<Rightarrow> path_kind_cache
      \<Rightarrow> file_change_event option \<times> pending_rename option \<times> path_kind_cache" where
  "map_rename_event ord stat now root RenameFrom (old_path # _) pending cache =
     (if is_ignored root old_path then (None, pending, cache)
      else (None, Some \<lparr>pr_path = old_path, pr_is_dir = infer_path_kind stat old_path None cache,
                       pr_at = now\<rparr>, cache))"
| "map_rename_event ord stat now root RenameTo (new_path # _) pending cache =
     (if is_ignored root new_path then (None, pending, cache)
      else case pending of
        Some prev \<Rightarrow>
          if duration_since now (pr_at prev) \<le> from_millis PENDING_RENAME_TIMEOUT_MS
          then let is_dir = infer_path_kind stat new_path (Some (pr_is_dir prev)) cache in
               (Some (rename_event root (pr_path prev) new_path is_dir), None,
                rename_cached_path ord (pr_path prev) new_path is_dir cache)
          else let is_dir = infer_path_kind stat new_path None cache in
               (Some (plain_event root ''create'' new_path is_dir), None,
                insert_cached_path new_path is_dir cache)
      | None \<Rightarrow>
          let is_dir = infer_path_kind stat new_path None cache in
          (Some (plain_event root ''create'' new_path is_dir), None,
           insert_cached_path new_path is_dir cache))"
| "map_rename_event ord stat now root mode (old_path # new_path # _) pending cache =
     (if is_ignored root old_path \<or> is_ignored root new_path then (None, pending, cache)
      else let is_dir = (infer_path_kind stat new_path None cache \<or> map_of cache old_path = Some True)
           in (Some (rename_event root old_path new_path is_dir), pending,
               rename_cached_path ord old_path new_path is_dir cache))"
| "map_rename_event ord stat now root RenameBoth [path] pending cache = (None, pending, cache)"
| "map_rename_event ord stat now root mode [path] pending cache =
     (if is_ignored root path then (None, pending, cache)
      else let is_dir = infer_path_kind stat path None cache in
        case map_case_only_cached_rename ord root path is_dir cache of
          Some (mapped, cache) \<Rightarrow> (Some mapped, pending, cache)
        | None \<Rightarrow> (Some (plain_event root ''modify'' path is_dir), pending,
                   insert_cached_path path is_dir cache))"
| "map_rename_event ord stat now root mode [] pending cache = (None, pending, cache)"

definition map_event ::
    "(path_kind_cache \<Rightarrow> path_kind_cache) \<Rightarrow> (fpath \<Rightarrow> bool option) \<Rightarrow> int \<Rightarrow> notify_event \<Rightarrow> fpath
      \<Rightarrow> pending_rename option \<Rightarrow> path_kind_cache
      \<Rightarrow> file_change_event option \<times> pending_rename option \<times> path_kind_cache" where
  "map_event ord stat now event root pending cache =
     (case ne_paths event of
        [] \<Rightarrow> (None, pending, cache)
      | path # _ \<Rightarrow>
          (case ne_kind event of
             KindCreate CreateFolder \<Rightarrow>
               if is_ignored root path then (None, pending, cache)
               else (Some (plain_event root ''create'' path True), pending,
                     insert_cached_path path True cache)
           | KindCreate _ \<Rightarrow>
               if is_ignored root path then (None, pending, cache)
               else let is_dir = infer_path_kind stat path None cache in
                 (Some (plain_event root ''create'' path is_dir), pending,
                  insert_cached_path path is_dir cache)
           | KindModify (ModifyName rename) \<Rightarrow>
               map_rename_event ord stat now root rename (ne_paths event) pending cache
           | KindModify _ \<Rightarrow>
               if is_ignored root path then (None, pending, cache)
               else let is_dir = infer_path_kind stat path None cache in
                 (Some (plain_event root ''modify'' path is_dir), pending,
                  insert_cached_path path is_dir cache)
           | KindRemove RemoveFolder \<Rightarrow>
               if is_ignored root path then (None, pending, cache)
               else (Some (plain_event root ''delete'' path True), pending,
                     remove_cached_path path True cache)
           | KindRemove _ \<Rightarrow>
               if is_ignored root path then (None, pending, cache)
               else let is_dir = infer_path_kind stat path None cache in
                 (Some (plain_event root ''delete'' path is_dir), pending,
                  remove_cached_path path is_dir cache)
           | _ \<Rightarrow> (None, pending, cache)))"

section \<open>The watcher's loop\<close>

record search_storm_state =
  st_window_started_at :: int
  st_modify_create_count :: nat

text \<open>What one turn of the loop does to the world outside: it tells the search index and the user interface.\<close>

datatype watch_output =
    NoteEvent file_change_event string bool
  | SearchEvent file_change_event
  | StormRebuild
  | EmitEvent file_change_event

definition is_markdown_path :: "string \<Rightarrow> bool" where
  "is_markdown_path path \<longleftrightarrow>
     (let lower = to_ascii_lowercase path in ends_with ''.md'' lower \<or> ends_with ''.markdown'' lower)"

definition handle_search_event ::
    "int \<Rightarrow> file_change_event \<Rightarrow> search_storm_state \<Rightarrow> watch_output \<times> search_storm_state" where
  "handle_search_event now event storm =
     (let storm = (if duration_since now (st_window_started_at storm) \<ge> from_millis 1000
                   then \<lparr>st_window_started_at = now, st_modify_create_count = 0\<rparr> else storm) in
      if ev_kind event \<in> {''create'', ''modify''} \<and> \<not> ev_is_dir event \<and> is_markdown_path (ev_path event)
      then let storm = storm\<lparr>st_modify_create_count := st_modify_create_count storm + 1\<rparr> in
           (if st_modify_create_count storm > 100 then StormRebuild else SearchEvent event, storm)
      else (SearchEvent event, storm))"

record watcher =
  wa_ledger :: expected_mutation_ledger
  wa_cache :: path_kind_cache
  wa_pending :: "pending_rename option"
  wa_storm :: search_storm_state

definition deliver ::
    "bool \<Rightarrow> int \<Rightarrow> file_change_event option \<Rightarrow> watcher \<Rightarrow> watch_output list \<times> watcher" where
  "deliver has_search now event w =
     (case event of
        None \<Rightarrow> ([], w)
      | Some event \<Rightarrow>
          let (skip_search, ledger) = consume_matching now event (wa_ledger w);
              w = w\<lparr>wa_ledger := ledger\<rparr>;
              note = (if has_search
                then [NoteEvent event
                        (if skip_search then ''deduped-app-mutation'' else ''external-watch'') skip_search]
                else [])
          in if has_search \<and> \<not> skip_search
             then let (out, storm) = handle_search_event now event (wa_storm w)
                  in (note @ [out, EmitEvent event], w\<lparr>wa_storm := storm\<rparr>)
             else (note @ [EmitEvent event], w))"

definition cleanup_turn ::
    "bool \<Rightarrow> int \<Rightarrow> fpath \<Rightarrow> watcher \<Rightarrow> watch_output list \<times> watcher" where
  "cleanup_turn has_search now root w =
     (let (event, pending, cache) = maybe_cleanup_pending now root (wa_pending w) (wa_cache w)
      in deliver has_search now event (w\<lparr>wa_pending := pending, wa_cache := cache\<rparr>))"

datatype watch_input = Received notify_event | ReceivedError | ReceiveTimeout

fun watch_turn ::
    "(path_kind_cache \<Rightarrow> path_kind_cache) \<Rightarrow> (fpath \<Rightarrow> bool option) \<Rightarrow> bool \<Rightarrow> fpath \<Rightarrow> int \<Rightarrow> watch_input
      \<Rightarrow> watcher \<Rightarrow> watch_output list \<times> watcher" where
  "watch_turn ord stat has_search root now (Received event) w =
     (let (outs, w) = cleanup_turn has_search now root w;
          (mapped, pending, cache) = map_event ord stat now event root (wa_pending w) (wa_cache w);
          (outs', w) = deliver has_search now mapped (w\<lparr>wa_pending := pending, wa_cache := cache\<rparr>)
      in (outs @ outs', w))"
| "watch_turn ord stat has_search root now ReceivedError w = ([], w)"
| "watch_turn ord stat has_search root now ReceiveTimeout w = cleanup_turn has_search now root w"

section \<open>Mutations made by the application\<close>

text \<open>\<^verbatim>\<open>vault/mutation_sync.rs\<close>: every mutation is announced to the ledger first and to the search index after it was made.\<close>

datatype app_mutation =
    AppWrite string bool
  | AppDelete string bool
  | AppRename string string bool

datatype search_call =
    NotifyWritten string string
  | NotifyRemoved string bool string
  | NotifyRenamed string string bool string
  | RequestRebuild string

record recorded_app_mutation =
  ra_mutation :: app_mutation
  ra_token :: "64 word option"

fun record_app_mutation ::
    "int \<Rightarrow> app_mutation \<Rightarrow> expected_mutation_ledger \<Rightarrow> recorded_app_mutation \<times> expected_mutation_ledger" where
  "record_app_mutation now mutation ledger =
     (let (token, ledger) =
        (case mutation of
           AppWrite path is_dir \<Rightarrow> record_write now path is_dir ledger
         | AppDelete path is_dir \<Rightarrow> record_delete now path is_dir ledger
         | AppRename old_path new_path is_dir \<Rightarrow> record_rename now old_path new_path is_dir ledger)
      in (\<lparr>ra_mutation = mutation, ra_token = Some token\<rparr>, ledger))"

definition cancel_app_mutation ::
    "recorded_app_mutation \<Rightarrow> expected_mutation_ledger \<Rightarrow> expected_mutation_ledger" where
  "cancel_app_mutation recorded ledger =
     (case ra_token recorded of Some token \<Rightarrow> cancel token ledger | None \<Rightarrow> ledger)"

fun notify_applied :: "string \<Rightarrow> recorded_app_mutation \<Rightarrow> search_call option" where
  "notify_applied source recorded =
     (case ra_mutation recorded of
        AppWrite path is_dir \<Rightarrow> if is_dir then None else Some (NotifyWritten path source)
      | AppDelete path is_dir \<Rightarrow> Some (NotifyRemoved path is_dir source)
      | AppRename old_path new_path is_dir \<Rightarrow> Some (NotifyRenamed old_path new_path is_dir source))"

section \<open>What the ledger suppresses\<close>

lemma remove_first_Some:
  assumes "remove_first P xs = Some ys"
  shows "\<exists>us x vs. xs = us @ x # vs \<and> P x \<and> (\<forall>u \<in> set us. \<not> P u) \<and> ys = us @ vs"
  using assms
proof (induction xs arbitrary: ys)
  case (Cons a xs)
  show ?case
  proof (cases "P a")
    case True
    with Cons.prems show ?thesis by (intro exI [of _ "[]"] exI [of _ a] exI [of _ xs]) simp
  next
    case False
    with Cons.prems obtain zs where "remove_first P xs = Some zs" "ys = a # zs" by auto
    with Cons.IH obtain us x vs where "xs = us @ x # vs" "P x" "\<forall>u \<in> set us. \<not> P u" "ys = a # us @ vs"
      by blast
    with False show ?thesis by (intro exI [of _ "a # us"] exI [of _ x] exI [of _ vs]) simp
  qed
qed simp

lemma remove_first_None: "remove_first P xs = None \<longleftrightarrow> (\<forall>x \<in> set xs. \<not> P x)"
  by (induction xs) auto

lemma consume_matching_cases:
  obtains (miss) "consume_matching now ev led =
      (False, led\<lparr>ml_entries := filter (expected_live now) (ml_entries led)\<rparr>)"
    "\<forall>e \<in> set (ml_entries led). expected_live now e \<longrightarrow> \<not> expected_mutation_matches_event e ev"
  | (hit) us e vs where "filter (expected_live now) (ml_entries led) = us @ e # vs"
    "expected_mutation_matches_event e ev" "expected_live now e" "e \<in> set (ml_entries led)"
    "consume_matching now ev led = (True, led\<lparr>ml_entries := us @ vs\<rparr>)"
proof (cases "remove_first (\<lambda>entry. expected_mutation_matches_event entry ev)
    (filter (expected_live now) (ml_entries led))")
  case None
  then have "\<forall>e \<in> set (ml_entries led). expected_live now e \<longrightarrow> \<not> expected_mutation_matches_event e ev"
    by (auto simp: remove_first_None)
  with None show thesis by (intro miss) (simp_all add: consume_matching_def)
next
  case (Some ys)
  then obtain us e vs where *: "filter (expected_live now) (ml_entries led) = us @ e # vs"
    "expected_mutation_matches_event e ev" "ys = us @ vs" using remove_first_Some by meson
  then have "e \<in> set (filter (expected_live now) (ml_entries led))" by simp
  then show thesis using hit [OF *(1,2)] Some *(3) by (simp add: consume_matching_def)
qed

text \<open>The history of a ledger: the calls made on it, each with its time.\<close>

datatype ledger_call =
    CallRecord int expected_mutation_kind string "string option" bool
  | CallCancel "64 word"
  | CallConsume int file_change_event

fun ledger_run :: "ledger_call list \<Rightarrow> expected_mutation_ledger \<Rightarrow> bool list \<times> expected_mutation_ledger" where
  "ledger_run [] ledger = ([], ledger)"
| "ledger_run (CallRecord now kind path old d # cs) ledger =
     ledger_run cs (snd (record_mutation now kind path old d ledger))"
| "ledger_run (CallCancel token # cs) ledger = ledger_run cs (cancel token ledger)"
| "ledger_run (CallConsume now event # cs) ledger =
     (let (hit, ledger) = consume_matching now event ledger;
          (hits, ledger) = ledger_run cs ledger
      in (hit # hits, ledger))"

fun is_record :: "ledger_call \<Rightarrow> bool" where
  "is_record (CallRecord _ _ _ _ _) = True"
| "is_record _ = False"

fun recorded_by :: "expected_fs_mutation \<Rightarrow> ledger_call \<Rightarrow> bool" where
  "recorded_by e (CallRecord now kind path old d) \<longleftrightarrow>
     em_created_at e = now \<and> em_kind e = kind \<and> em_path e = path \<and> em_old_path e = old \<and> em_is_dir e = d"
| "recorded_by e _ = False"

lemma consume_entries:
  "set (ml_entries (snd (consume_matching now ev led))) \<subseteq> set (ml_entries led)"
proof (cases rule: consume_matching_cases [of now ev led])
  case (hit us e vs)
  have "set (us @ e # vs) \<subseteq> set (ml_entries led)" unfolding hit(1) [symmetric] by auto
  with hit show ?thesis by auto
qed auto

lemma consume_count:
  "length (ml_entries (snd (consume_matching now ev led))) + (if fst (consume_matching now ev led) then 1 else 0)
     \<le> length (ml_entries led)"
proof (cases rule: consume_matching_cases [of now ev led])
  case (hit us e vs)
  have "length (us @ e # vs) \<le> length (ml_entries led)" unfolding hit(1) [symmetric] by simp
  with hit show ?thesis by simp
qed simp

lemma consume_hit:
  assumes "fst (consume_matching now ev led)"
  obtains e where "e \<in> set (ml_entries led)" "expected_live now e" "expected_mutation_matches_event e ev"
  using assms by (cases rule: consume_matching_cases [of now ev led]) auto

lemma ledger_run_entries:
  assumes "e \<in> set (ml_entries (snd (ledger_run cs led)))"
  shows "e \<in> set (ml_entries led) \<or> (\<exists>c \<in> set cs. recorded_by e c)"
  using assms
proof (induction cs led rule: ledger_run.induct)
  case (4 now ev cs led)
  then show ?case
    using consume_entries [of now ev led] by (auto simp: Let_def split: prod.splits)
qed (auto simp: record_mutation_def cancel_def Let_def)

lemma ledger_run_count:
  "length (ml_entries (snd (ledger_run cs led))) + length (filter id (fst (ledger_run cs led)))
     \<le> length (ml_entries led) + length (filter is_record cs)"
proof (induction cs led rule: ledger_run.induct)
  case (3 token cs led)
  have "length (ml_entries (cancel token led)) \<le> length (ml_entries led)" by (simp add: cancel_def)
  with 3 show ?case by simp
next
  case (4 now ev cs led)
  obtain hit led' where c: "consume_matching now ev led = (hit, led')" by fastforce
  obtain hits led'' where r: "ledger_run cs led' = (hits, led'')" by fastforce
  from 4 [OF c [symmetric] refl] consume_count [of now ev led] c r show ?case
    by (auto split: if_splits)
qed (simp_all add: record_mutation_def Let_def)

text \<open>
  C21. The watcher ignores an event only on behalf of the application: when an event is suppressed, a mutation that
  matches it was announced at most two seconds before, and over the whole history no more events
  are suppressed than mutations were announced.
\<close>

theorem suppressed_events_announced:
  assumes "ledger_run cs empty_ledger = (hits, led)"
  shows "(fst (consume_matching now ev led) \<longrightarrow>
      (\<exists>c \<in> set cs. \<exists>e. recorded_by e c \<and> expected_mutation_matches_event e ev \<and>
         now - em_created_at e \<le> 2000000000)) \<and>
    length (filter id hits) \<le> length (filter is_record cs)"
proof (intro conjI impI)
  assume "fst (consume_matching now ev led)"
  then obtain e where e: "e \<in> set (ml_entries led)" "expected_live now e" "expected_mutation_matches_event e ev"
    by (rule consume_hit)
  have "now - em_created_at e \<le> 2000000000"
    using e(2) by (simp add: expected_live_def duration_since_def from_millis_def EXPECTED_MUTATION_TTL_MS_def)
  moreover have "\<exists>c \<in> set cs. recorded_by e c"
    using ledger_run_entries [of e cs empty_ledger] e(1) assms by (simp add: empty_ledger_def)
  ultimately show "\<exists>c \<in> set cs. \<exists>e. recorded_by e c \<and> expected_mutation_matches_event e ev \<and>
      now - em_created_at e \<le> 2000000000" using e(3) by blast
next
  show "length (filter id hits) \<le> length (filter is_record cs)"
    using ledger_run_count [of cs empty_ledger] assms by (simp add: empty_ledger_def)
qed

definition sample_event :: file_change_event where
  "sample_event = \<lparr>ev_kind = ''modify'', ev_path = ''A.md'', ev_is_dir = False, ev_old_path = None\<rparr>"

theorem suppressed_events_announced_witness:
  "fst (consume_matching 1500000000 sample_event
     (snd (ledger_run [CallRecord 0 MWrite ''a.md'' None False] empty_ledger))) \<and>
   (\<exists>c \<in> set [CallRecord 0 MWrite ''a.md'' None False]. \<exists>e. recorded_by e c \<and>
     expected_mutation_matches_event e sample_event \<and> 1500000000 - em_created_at e \<le> 2000000000)"
proof -
  have "fst (consume_matching 1500000000 sample_event
     (snd (ledger_run [CallRecord 0 MWrite ''a.md'' None False] empty_ledger)))" by code_simp
  with suppressed_events_announced [of "[CallRecord 0 MWrite ''a.md'' None False]" _ _ 1500000000 sample_event,
      OF surjective_pairing] show ?thesis by blast
qed

lemma consume_first:
  assumes "ml_entries led = us @ [e]" "expected_live now e" "expected_mutation_matches_event e ev"
    and "\<forall>u \<in> set us. \<not> expected_mutation_matches_event u ev"
  shows "consume_matching now ev led = (True, led\<lparr>ml_entries := filter (expected_live now) us\<rparr>)"
proof (cases rule: consume_matching_cases [of now ev led])
  case miss
  with assms show ?thesis by auto
next
  case (hit vs x ws)
  have live: "filter (expected_live now) (ml_entries led) = filter (expected_live now) us @ [e]"
    using assms(1,2) by simp
  have "x \<notin> set us" using assms(4) hit(2) by blast
  then have "x \<notin> set (filter (expected_live now) us)" by simp
  then have "vs = filter (expected_live now) us \<and> ws = []"
    using hit(1) unfolding live by (cases ws rule: rev_cases) (simp, metis butlast_snoc append_Cons append_assoc in_set_conv_decomp)
  with hit(5) show ?thesis by simp
qed

text \<open>
  A change the application makes is recognised exactly once: when no announced mutation matches an event yet,
  announcing a matching one makes the watcher suppress the event within two seconds, and the next
  such event, which is somebody else's, is not suppressed.
\<close>

theorem announced_mutation_suppresses_once:
  assumes "\<forall>e \<in> set (ml_entries ledger). \<not> expected_mutation_matches_event e ev"
    and "record_mutation t kind path old_path is_dir ledger = (token, ledger')"
    and "expected_mutation_matches_event
      \<lparr>em_id = token, em_kind = kind, em_path = path, em_old_path = old_path, em_is_dir = is_dir,
       em_created_at = t\<rparr> ev"
    and "now \<le> t + 2000000000"
  shows "\<exists>ledger''. consume_matching now ev ledger' = (True, ledger'') \<and>
    \<not> fst (consume_matching later ev ledger'')"
proof -
  let ?e = "\<lparr>em_id = token, em_kind = kind, em_path = path, em_old_path = old_path, em_is_dir = is_dir,
       em_created_at = t\<rparr>"
  have "ml_entries ledger' = ml_entries ledger @ [?e]"
    using assms(2) by (auto simp: record_mutation_def Let_def)
  moreover have "expected_live now ?e"
    using assms(4) by (simp add: expected_live_def duration_since_def from_millis_def EXPECTED_MUTATION_TTL_MS_def)
  ultimately have hit: "consume_matching now ev ledger' =
      (True, ledger'\<lparr>ml_entries := filter (expected_live now) (ml_entries ledger)\<rparr>)"
    using assms(1,3) by (intro consume_first)
  moreover have "\<not> fst (consume_matching later ev
      (ledger'\<lparr>ml_entries := filter (expected_live now) (ml_entries ledger)\<rparr>))"
    using assms(1) by (auto elim!: consume_hit)
  ultimately show ?thesis by blast
qed

theorem announced_mutation_suppresses_once_witness:
  "\<exists>ledger''. consume_matching 5 sample_event (snd (record_mutation 4 MWrite ''a.md'' None False empty_ledger)) =
     (True, ledger'') \<and> \<not> fst (consume_matching 6 sample_event ledger'')"
proof (rule announced_mutation_suppresses_once [OF _ surjective_pairing])
  show "\<forall>e \<in> set (ml_entries empty_ledger). \<not> expected_mutation_matches_event e sample_event"
    by (simp add: empty_ledger_def)
  show "expected_mutation_matches_event \<lparr>em_id = fst (record_mutation 4 MWrite ''a.md'' None False empty_ledger),
      em_kind = MWrite, em_path = ''a.md'', em_old_path = None, em_is_dir = False, em_created_at = 4\<rparr> sample_event"
    by code_simp
qed simp

text \<open>Withdrawing an announcement, as a failed mutation does, takes back exactly the entry it made.\<close>

lemma cancel_record:
  assumes "record_mutation t kind path old_path is_dir ledger = (token, ledger')"
    and "\<forall>e \<in> set (ml_entries ledger). em_id e \<noteq> token"
  shows "ml_entries (cancel token ledger') = ml_entries ledger"
  using assms by (auto simp: record_mutation_def cancel_def Let_def filter_id_conv)

section \<open>Renaming a directory in the cache\<close>

definition order_ok :: "(path_kind_cache \<Rightarrow> path_kind_cache) \<Rightarrow> bool" where
  "order_ok ord \<longleftrightarrow> (\<forall>c. mset (ord c) = mset c)"

text \<open>The cache as a map from paths to kinds, and what renaming a directory means for it.\<close>

definition renamed_kinds :: "fpath \<Rightarrow> fpath \<Rightarrow> (fpath \<rightharpoonup> bool) \<Rightarrow> (fpath \<rightharpoonup> bool)" where
  "renamed_kinds from to m q =
     (if prefix to q \<and> m (from @ drop (length to) q) \<noteq> None then m (from @ drop (length to) q)
      else if prefix from q then None
      else if q = to \<and> m q = None then Some True
      else m q)"

lemma map_of_rename_fold:
  assumes "\<forall>(c, k) \<in> set ds. prefix from c" "distinct (map fst ds)" "\<not> prefix from to" "\<not> prefix to from"
  shows "map_of (fold (\<lambda>(c, k) cache. AList.update (to @ drop (length from) c) k (AList.delete c cache)) ds cache) q =
    (if prefix to q \<and> map_of ds (from @ drop (length to) q) \<noteq> None then map_of ds (from @ drop (length to) q)
     else if q \<in> fst ` set ds then None else map_of cache q)"
  using assms(1,2)
proof (induction ds arbitrary: cache)
  case (Cons d ds)
  obtain c k where d: "d = (c, k)" by fastforce
  with Cons.prems obtain s where c: "c = from @ s" by (auto simp: prefix_def)
  have IH: "map_of (fold (\<lambda>(c, k) cache. AList.update (to @ drop (length from) c) k (AList.delete c cache)) ds
      (AList.update (to @ s) k (AList.delete c cache))) q =
    (if prefix to q \<and> map_of ds (from @ drop (length to) q) \<noteq> None then map_of ds (from @ drop (length to) q)
     else if q \<in> fst ` set ds then None
     else map_of (AList.update (to @ s) k (AList.delete c cache)) q)"
    using Cons.prems by (intro Cons.IH) auto
  have new: "map_of ds c = None" "c \<notin> fst ` set ds"
    using Cons.prems(2) by (auto simp: d map_of_eq_None_iff)
  have below: "q \<in> fst ` set (d # ds) \<Longrightarrow> prefix from q" using Cons.prems(1) by auto
  have step: "fold (\<lambda>(c, k) cache. AList.update (to @ drop (length from) c) k (AList.delete c cache)) (d # ds) cache =
      fold (\<lambda>(c, k) cache. AList.update (to @ drop (length from) c) k (AList.delete c cache)) ds
        (AList.update (to @ s) k (AList.delete c cache))"
    by (simp add: d c)
  show ?case
  proof (cases "prefix to q")
    case True
    then obtain r where q: "q = to @ r" by (auto simp: prefix_def)
    have "\<not> prefix from q" using True assms(3,4) prefix_same_cases by blast
    with below have "q \<noteq> c" "q \<notin> fst ` set ds" "q \<notin> fst ` set (d # ds)" by (auto simp: c)
    then show ?thesis
      unfolding step IH using new(1) by (auto simp: q d c update_conv' delete_conv')
  next
    case False
    then have "q \<noteq> to @ s" by auto
    with False show ?thesis unfolding step IH by (simp add: d update_conv' delete_conv')
  qed
qed simp

lemma map_of_filter_keys: "map_of (filter (\<lambda>(c, _). P c) xs) p = (if P p then map_of xs p else None)"
  by (induction xs) auto

lemma map_of_order:
  assumes "order_ok ord" "distinct (map fst cache)"
  shows "distinct (map fst (ord cache))" "map_of (ord cache) = map_of cache"
proof -
  have m: "mset (ord cache) = mset cache" using assms(1) by (simp add: order_ok_def)
  then have "mset (map fst (ord cache)) = mset (map fst cache)" by simp
  then show d: "distinct (map fst (ord cache))"
    using assms(2) mset_eq_imp_distinct_iff by blast
  show "map_of (ord cache) = map_of cache"
    using mset_eq_setD [OF m] by (simp add: map_of_inject_set d assms(2))
qed

text \<open>
  Renaming a directory in the cache: whatever the order in which the hash map lists its entries, the result is the
  cache with every path below the old name moved to the same place below the new name, the new
  directory itself present, and every other path as before.
\<close>

theorem rename_cached_dir_equiv:
  assumes "order_ok ord" "distinct (map fst cache)" "\<not> prefix from to" "\<not> prefix to from"
  shows "map_of (rename_cached_path ord from to True cache) = renamed_kinds from to (map_of cache)"
proof
  fix q
  let ?ds = "filter (\<lambda>(c, _). prefix from c) (ord cache)"
  let ?moved = "fold (\<lambda>(c, k) cache. AList.update (to @ drop (length from) c) k (AList.delete c cache)) ?ds cache"
  note ord = map_of_order [OF assms(1,2)]
  have ds: "map_of ?ds p = (if prefix from p then map_of cache p else None)" for p
    by (simp add: map_of_filter_keys ord(2))
  have key: "q \<in> fst ` set ?ds \<longleftrightarrow> prefix from q \<and> map_of cache q \<noteq> None" for q
    using map_of_eq_None_iff [of ?ds q] unfolding ds by (auto split: if_splits)
  have "distinct (map fst ?ds)" using ord(1) by (simp add: distinct_map_filter)
  then have fold: "map_of ?moved q =
    (if prefix to q \<and> map_of ?ds (from @ drop (length to) q) \<noteq> None then map_of ?ds (from @ drop (length to) q)
     else if q \<in> fst ` set ?ds then None else map_of cache q)" for q
    by (intro map_of_rename_fold assms(3,4)) auto
  have moved: "map_of ?moved q =
    (if prefix to q \<and> map_of cache (from @ drop (length to) q) \<noteq> None then map_of cache (from @ drop (length to) q)
     else if prefix from q then None else map_of cache q)" for q
    unfolding fold key ds by auto
  show "map_of (rename_cached_path ord from to True cache) q = renamed_kinds from to (map_of cache) q"
    by (auto simp: rename_cached_path_def renamed_kinds_def Let_def update_conv' moved assms(3))
qed

theorem rename_cached_dir_equiv_witness:
  "map_of (rename_cached_path rev [''v'', ''a''] [''v'', ''b''] True
      [([''v'', ''a''], True), ([''v'', ''a'', ''n.md''], False), ([''v'', ''c''], True)]) =
   renamed_kinds [''v'', ''a''] [''v'', ''b'']
     (map_of [([''v'', ''a''], True), ([''v'', ''a'', ''n.md''], False), ([''v'', ''c''], True)])"
  by (rule rename_cached_dir_equiv) (simp_all add: order_ok_def)

section \<open>What the watcher reports\<close>

fun emitted :: "watch_output list \<Rightarrow> file_change_event list" where
  "emitted [] = []"
| "emitted (EmitEvent e # os) = e # emitted os"
| "emitted (_ # os) = emitted os"

lemma emitted_append [simp]: "emitted (xs @ ys) = emitted xs @ emitted ys"
  by (induction xs rule: emitted.induct) simp_all

lemma handle_search_emits [simp]: "emitted [fst (handle_search_event now e storm)] = []"
  by (simp add: handle_search_event_def Let_def)

lemma deliver_emits:
  "emitted (fst (deliver has_search now e w)) = (case e of None \<Rightarrow> [] | Some e \<Rightarrow> [e])"
  "wa_cache (snd (deliver has_search now e w)) = wa_cache w"
  "wa_pending (snd (deliver has_search now e w)) = wa_pending w"
proof -
  have "fst (handle_search_event now e s) = SearchEvent e \<or> fst (handle_search_event now e s) = StormRebuild" for e s
    by (simp add: handle_search_event_def Let_def)
  then show "emitted (fst (deliver has_search now e w)) = (case e of None \<Rightarrow> [] | Some e \<Rightarrow> [e])"
    "wa_cache (snd (deliver has_search now e w)) = wa_cache w"
    "wa_pending (snd (deliver has_search now e w)) = wa_pending w"
    by (auto simp: deliver_def Let_def split: option.split prod.splits) (metis emitted.simps fst_conv)+
qed

text \<open>The events a turn emits, and the cache and the pending half it leaves, without the ledger and the search index.\<close>

lemma watch_turn_received:
  assumes "maybe_cleanup_pending now root (wa_pending w) (wa_cache w) = (e1, p1, c1)"
    and "map_event ord stat now event root p1 c1 = (e2, p2, c2)"
    and "watch_turn ord stat has_search root now (Received event) w = (outs, w')"
  shows "emitted outs = (case e1 of None \<Rightarrow> [] | Some e \<Rightarrow> [e]) @ (case e2 of None \<Rightarrow> [] | Some e \<Rightarrow> [e])"
    and "wa_pending w' = p2" "wa_cache w' = c2"
proof -
  obtain o1 w1 where d1: "deliver has_search now e1 (w\<lparr>wa_pending := p1, wa_cache := c1\<rparr>) = (o1, w1)" by fastforce
  then have w1: "wa_pending w1 = p1" "wa_cache w1 = c1" "emitted o1 = (case e1 of None \<Rightarrow> [] | Some e \<Rightarrow> [e])"
    using deliver_emits [of has_search now e1 "w\<lparr>wa_pending := p1, wa_cache := c1\<rparr>"] by simp_all
  obtain o2 w2 where d2: "deliver has_search now e2 (w1\<lparr>wa_pending := p2, wa_cache := c2\<rparr>) = (o2, w2)" by fastforce
  then have w2: "wa_pending w2 = p2" "wa_cache w2 = c2" "emitted o2 = (case e2 of None \<Rightarrow> [] | Some e \<Rightarrow> [e])"
    using deliver_emits [of has_search now e2 "w1\<lparr>wa_pending := p2, wa_cache := c2\<rparr>"] by simp_all
  have "outs = o1 @ o2 \<and> w' = w2"
    using assms w1 d1 d2 by (simp add: cleanup_turn_def)
  with w1 w2 show "emitted outs = (case e1 of None \<Rightarrow> [] | Some e \<Rightarrow> [e]) @ (case e2 of None \<Rightarrow> [] | Some e \<Rightarrow> [e])"
    "wa_pending w' = p2" "wa_cache w' = c2" by simp_all
qed

definition half :: "rename_mode \<Rightarrow> fpath \<Rightarrow> watch_input" where
  "half mode path = Received \<lparr>ne_kind = KindModify (ModifyName mode), ne_paths = [path]\<rparr>"

text \<open>
  C40. A rename that arrives in two halves: when the second half follows within 600 ms the watcher emits one rename
  from the old to the new path, with the kind the old path had, and moves the cache; when it
  does not, the first turn after 600 ms emits one deletion of the old path. In both cases nothing stays
  pending, and the first half alone emits nothing.
\<close>

theorem rename_halves_reported:
  assumes "\<not> is_ignored root old_path" "\<not> is_ignored root new_path" "wa_pending w = None" "t \<le> t'"
    and "watch_turn ord stat has_search root t (half RenameFrom old_path) w = (outs, w1)"
  shows "emitted outs = [] \<and>
    (t' - t \<le> 600000000 \<longrightarrow> (\<forall>outs' w2. watch_turn ord stat' has_search root t' (half RenameTo new_path) w1 = (outs', w2) \<longrightarrow>
      emitted outs' = [rename_event root old_path new_path (infer_path_kind stat old_path None (wa_cache w))] \<and>
      wa_pending w2 = None \<and>
      wa_cache w2 = rename_cached_path ord old_path new_path (infer_path_kind stat old_path None (wa_cache w)) (wa_cache w))) \<and>
    (600000000 < t' - t \<longrightarrow> (\<forall>outs' w2. watch_turn ord stat' has_search root t' ReceiveTimeout w1 = (outs', w2) \<longrightarrow>
      emitted outs' = [plain_event root ''delete'' old_path (infer_path_kind stat old_path None (wa_cache w))] \<and>
      wa_pending w2 = None))"
proof (intro conjI impI allI)
  let ?d = "infer_path_kind stat old_path None (wa_cache w)"
  let ?p = "\<lparr>pr_path = old_path, pr_is_dir = ?d, pr_at = t\<rparr>"
  have "maybe_cleanup_pending t root (wa_pending w) (wa_cache w) = (None, None, wa_cache w)"
    by (simp add: maybe_cleanup_pending_def assms(3))
  from watch_turn_received [OF this _ assms(5) [unfolded half_def]]
  have first: "emitted outs = []" "wa_pending w1 = Some ?p" "wa_cache w1 = wa_cache w"
    using assms(1) by (simp_all add: map_event_def)
  show "emitted outs = []" by (rule first(1))
  { fix outs' w2
    assume near: "t' - t \<le> 600000000" and turn: "watch_turn ord stat' has_search root t' (half RenameTo new_path) w1 = (outs', w2)"
    have "maybe_cleanup_pending t' root (wa_pending w1) (wa_cache w1) = (None, Some ?p, wa_cache w)"
      using near assms(4) by (simp add: maybe_cleanup_pending_def first duration_since_def from_millis_def
          PENDING_RENAME_TIMEOUT_MS_def)
    from watch_turn_received [OF this _ turn [unfolded half_def]]
    have "emitted outs' = [rename_event root old_path new_path ?d] \<and> wa_pending w2 = None \<and>
        wa_cache w2 = rename_cached_path ord old_path new_path ?d (wa_cache w)"
      using assms(2,4) near by (simp add: map_event_def duration_since_def from_millis_def
          PENDING_RENAME_TIMEOUT_MS_def infer_path_kind_def Let_def)
    then show "emitted outs' = [rename_event root old_path new_path ?d]" "wa_pending w2 = None"
        "wa_cache w2 = rename_cached_path ord old_path new_path ?d (wa_cache w)"
      by simp_all }
  { fix outs' w2
    assume far: "600000000 < t' - t" and turn: "watch_turn ord stat' has_search root t' ReceiveTimeout w1 = (outs', w2)"
    have "maybe_cleanup_pending t' root (wa_pending w1) (wa_cache w1) =
        (Some (plain_event root ''delete'' old_path ?d), None, remove_cached_path old_path ?d (wa_cache w))"
      using far by (simp add: maybe_cleanup_pending_def first duration_since_def from_millis_def
          PENDING_RENAME_TIMEOUT_MS_def plain_event_def)
    with turn have "deliver has_search t' (Some (plain_event root ''delete'' old_path ?d))
        (w1\<lparr>wa_pending := None, wa_cache := remove_cached_path old_path ?d (wa_cache w)\<rparr>) = (outs', w2)"
      by (simp add: cleanup_turn_def)
    with deliver_emits [of has_search t' "Some (plain_event root ''delete'' old_path ?d)"
        "w1\<lparr>wa_pending := None, wa_cache := remove_cached_path old_path ?d (wa_cache w)\<rparr>"]
    show "emitted outs' = [plain_event root ''delete'' old_path ?d]" "wa_pending w2 = None"
      by simp_all }
qed

definition sample_watcher :: watcher where
  "sample_watcher =
     \<lparr>wa_ledger = empty_ledger, wa_cache = [([''v'', ''d''], True)], wa_pending = None,
      wa_storm = \<lparr>st_window_started_at = 0, st_modify_create_count = 0\<rparr>\<rparr>"

theorem rename_halves_reported_witness:
  "emitted (fst (watch_turn id (\<lambda>_. None) True [''v''] 1 (half RenameTo [''v'', ''e''])
      (snd (watch_turn id (\<lambda>_. None) True [''v''] 0 (half RenameFrom [''v'', ''d'']) sample_watcher)))) =
    [rename_event [''v''] [''v'', ''d''] [''v'', ''e''] True] \<and>
   emitted (fst (watch_turn id (\<lambda>_. None) True [''v''] 600000001 ReceiveTimeout
      (snd (watch_turn id (\<lambda>_. None) True [''v''] 0 (half RenameFrom [''v'', ''d'']) sample_watcher)))) =
    [plain_event [''v''] ''delete'' [''v'', ''d''] True]"
proof -
  have vis: "\<not> is_ignored [''v''] [''v'', ''d'']" "\<not> is_ignored [''v''] [''v'', ''e'']" by code_simp+
  have none: "wa_pending sample_watcher = None" by (simp add: sample_watcher_def)
  have dir: "infer_path_kind (\<lambda>_. None) [''v'', ''d''] None (wa_cache sample_watcher)"
    by (simp add: sample_watcher_def infer_path_kind_def)
  note reported = rename_halves_reported [OF vis none _ surjective_pairing, of 0 _ id "\<lambda>_. None" True "\<lambda>_. None"]
  have "emitted (fst (watch_turn id (\<lambda>_. None) True [''v''] 1 (half RenameTo [''v'', ''e''])
      (snd (watch_turn id (\<lambda>_. None) True [''v''] 0 (half RenameFrom [''v'', ''d'']) sample_watcher)))) =
    [rename_event [''v''] [''v'', ''d''] [''v'', ''e''] True]"
    using reported [of 1] dir
    by (cases "watch_turn id (\<lambda>_. None) True [''v''] 1 (half RenameTo [''v'', ''e''])
      (snd (watch_turn id (\<lambda>_. None) True [''v''] 0 (half RenameFrom [''v'', ''d'']) sample_watcher))") simp
  moreover have "emitted (fst (watch_turn id (\<lambda>_. None) True [''v''] 600000001 ReceiveTimeout
      (snd (watch_turn id (\<lambda>_. None) True [''v''] 0 (half RenameFrom [''v'', ''d'']) sample_watcher)))) =
    [plain_event [''v''] ''delete'' [''v'', ''d''] True]"
    using reported [of 600000001] dir
    by (cases "watch_turn id (\<lambda>_. None) True [''v''] 600000001 ReceiveTimeout
      (snd (watch_turn id (\<lambda>_. None) True [''v''] 0 (half RenameFrom [''v'', ''d'']) sample_watcher))") simp
  ultimately show ?thesis by (rule conjI)
qed

text \<open>
  Only one half can be pending. When two files leave the vault within 600 ms, the second half-rename overwrites
  the first, whose deletion is then never reported, and the cache keeps it.
\<close>

lemma second_rename_half_drops_first:
  assumes "\<not> is_ignored root a" "\<not> is_ignored root b" "wa_pending w = Some p"
    and "0 \<le> t - pr_at p" "t - pr_at p \<le> 600000000"
    and "watch_turn ord stat has_search root t (half RenameFrom b) w = (outs, w')"
  shows "emitted outs = []" "wa_cache w' = wa_cache w"
    and "wa_pending w' = Some \<lparr>pr_path = b, pr_is_dir = infer_path_kind stat b None (wa_cache w), pr_at = t\<rparr>"
proof -
  have "maybe_cleanup_pending t root (wa_pending w) (wa_cache w) = (None, Some p, wa_cache w)"
    using assms(3-5) by (simp add: maybe_cleanup_pending_def duration_since_def from_millis_def
        PENDING_RENAME_TIMEOUT_MS_def)
  from watch_turn_received [OF this _ assms(6) [unfolded half_def]]
  show "emitted outs = []" "wa_cache w' = wa_cache w"
    and "wa_pending w' = Some \<lparr>pr_path = b, pr_is_dir = infer_path_kind stat b None (wa_cache w), pr_at = t\<rparr>"
    using assms(2) by (simp_all add: map_event_def)
qed

section \<open>The cache holds visible paths\<close>

definition visible_path :: "fpath \<Rightarrow> fpath \<Rightarrow> bool" where
  "visible_path root p \<longleftrightarrow> prefix root p \<and> \<not> should_ignore_path (drop (length root) p)"

definition cache_ok :: "fpath \<Rightarrow> path_kind_cache \<Rightarrow> bool" where
  "cache_ok root cache \<longleftrightarrow> distinct (map fst cache) \<and> (\<forall>p \<in> fst ` set cache. visible_path root p)"

definition watcher_ok :: "fpath \<Rightarrow> pending_rename option \<Rightarrow> path_kind_cache \<Rightarrow> bool" where
  "watcher_ok root pending cache \<longleftrightarrow>
     cache_ok root cache \<and> (\<forall>p. pending = Some p \<longrightarrow> visible_path root (pr_path p))"

text \<open>An event that names visible paths only.\<close>

definition event_visible :: "fpath \<Rightarrow> file_change_event \<Rightarrow> bool" where
  "event_visible root e \<longleftrightarrow>
     (\<exists>p. visible_path root p \<and> ev_path e = to_relative_path (drop (length root) p)) \<and>
     (\<forall>old. ev_old_path e = Some old \<longrightarrow>
        (\<exists>p. visible_path root p \<and> old = to_relative_path (drop (length root) p)))"

lemma ignored_visible: "prefix root p \<Longrightarrow> is_ignored root p \<longleftrightarrow> \<not> visible_path root p"
  by (simp add: is_ignored_def visible_path_def)

lemma visible_moved:
  assumes "visible_path root to" "visible_path root (from @ s)" "visible_path root from"
  shows "visible_path root (to @ s)"
proof (cases "s = []")
  case False
  from assms obtain t f where t: "to = root @ t" and f: "from = root @ f"
    by (auto simp: prefix_def visible_path_def)
  show ?thesis
    using assms(1,2) False by (auto simp: t f visible_path_def should_ignore_path_def)
qed (use assms in simp)

lemma cache_ok_update: "cache_ok root c \<Longrightarrow> visible_path root p \<Longrightarrow> cache_ok root (AList.update p d c)"
  by (auto simp: cache_ok_def distinct_update dom_update)

lemma cache_ok_delete: "cache_ok root c \<Longrightarrow> cache_ok root (AList.delete p c)"
  by (auto simp: cache_ok_def distinct_map_filter AList.delete_eq)

lemma cache_ok_remove: "cache_ok root c \<Longrightarrow> cache_ok root (remove_cached_path p d c)"
proof -
  assume "cache_ok root c"
  then have "cache_ok root (fold AList.delete ps c)" for ps
    by (induction ps arbitrary: c) (simp_all add: cache_ok_delete)
  with \<open>cache_ok root c\<close> show ?thesis by (simp add: remove_cached_path_def cache_ok_delete)
qed

lemma cache_ok_rename:
  assumes "order_ok ord" "cache_ok root cache" "visible_path root from" "visible_path root to"
  shows "cache_ok root (rename_cached_path ord from to d cache)"
proof -
  have "cache_ok root (fold (\<lambda>(c, k) cache. AList.update (to @ drop (length from) c) k (AList.delete c cache)) ds c0)"
    if "\<forall>(c, k) \<in> set ds. prefix from c \<and> visible_path root c" "cache_ok root c0" for ds c0
    using that
  proof (induction ds arbitrary: c0)
    case (Cons x ds)
    obtain c k where x: "x = (c, k)" by fastforce
    with Cons.prems obtain s where c: "c = from @ s" and "visible_path root (from @ s)" by (auto simp: prefix_def)
    then have "visible_path root (to @ s)" using visible_moved assms(3,4) by blast
    with Cons.prems x c show ?case
      by (auto intro!: Cons.IH cache_ok_update cache_ok_delete)
  qed simp
  moreover have "\<forall>(c, k) \<in> set (filter (\<lambda>(c, _). prefix from c) (ord cache)). prefix from c \<and> visible_path root c"
    using assms(1,2) mset_eq_setD [of "ord cache" cache] by (force simp: order_ok_def cache_ok_def)
  ultimately show ?thesis
    using assms(2,4) by (simp add: rename_cached_path_def Let_def cache_ok_update cache_ok_delete)
qed

lemmas cache_ok_intros = cache_ok_update cache_ok_delete cache_ok_remove cache_ok_rename

lemma event_visible_intros:
  "visible_path root p \<Longrightarrow> event_visible root (plain_event root k p d)"
  "visible_path root p \<Longrightarrow> visible_path root q \<Longrightarrow> event_visible root (rename_event root p q d)"
  by (auto simp: event_visible_def plain_event_def rename_event_def relative_to_def visible_path_def)

definition report_ok :: "fpath \<Rightarrow> file_change_event option \<times> pending_rename option \<times> path_kind_cache \<Rightarrow> bool" where
  "report_ok root r \<longleftrightarrow>
     (\<forall>e. fst r = Some e \<longrightarrow> event_visible root e) \<and> watcher_ok root (fst (snd r)) (snd (snd r))"

lemma cleanup_ok:
  "watcher_ok root pending cache \<Longrightarrow> report_ok root (maybe_cleanup_pending now root pending cache)"
  using event_visible_intros(1) [of root _ "''delete''"]
  by (auto simp: maybe_cleanup_pending_def report_ok_def watcher_ok_def cache_ok_remove plain_event_def
      split: option.splits)

lemma case_only_rename_ok:
  assumes "order_ok ord" "cache_ok root cache" "visible_path root path"
    and "map_case_only_cached_rename ord root path d cache = Some (e, cache')"
  shows "event_visible root e \<and> cache_ok root cache'"
proof -
  from assms(4) obtain old where old: "find_case_only_cached_path ord cache path = Some old"
    and e: "e = rename_event root old path (d \<or> map_of cache old = Some True)"
    and c: "cache' = rename_cached_path ord old path (d \<or> map_of cache old = Some True) cache"
    by (auto simp: map_case_only_cached_rename_def rename_event_def Let_def split: option.splits)
  from old have "old \<in> set (map fst (ord cache))"
    unfolding find_case_only_cached_path_def by (auto simp: find_Some_iff)
  then have "visible_path root old"
    using assms(1,2) mset_eq_setD [of "ord cache" cache] by (auto simp: order_ok_def cache_ok_def)
  with assms show ?thesis unfolding e c by (auto intro: event_visible_intros cache_ok_intros)
qed

lemma map_rename_event_ok:
  assumes "order_ok ord" "watcher_ok root pending cache" "\<forall>p \<in> set paths. prefix root p"
  shows "report_ok root (map_rename_event ord stat now root mode paths pending cache)"
  using assms
  by (cases "(ord, stat, now, root, mode, paths, pending, cache)" rule: map_rename_event.cases)
    (auto simp: report_ok_def watcher_ok_def insert_cached_path_def Let_def ignored_visible
      intro!: event_visible_intros cache_ok_intros dest: case_only_rename_ok [rotated 3]
      split: option.splits)

lemma map_event_ok:
  assumes "order_ok ord" "watcher_ok root pending cache" "\<forall>p \<in> set (ne_paths event). prefix root p"
  shows "report_ok root (map_event ord stat now event root pending cache)"
  using assms map_rename_event_ok [OF assms(1,2), of "ne_paths event" stat now]
  by (auto simp: map_event_def report_ok_def watcher_ok_def insert_cached_path_def Let_def ignored_visible
      intro!: event_visible_intros cache_ok_intros
      split: list.splits event_kind.splits create_kind.splits modify_kind.splits remove_kind.splits)

fun input_paths :: "watch_input \<Rightarrow> fpath list" where
  "input_paths (Received event) = ne_paths event"
| "input_paths _ = []"

text \<open>
  The watcher never speaks of hidden or ignored files: when the operating system reports paths below the vault,
  every event emitted names visible paths only, also as the source of a rename, and the cache and the
  pending half keep to visible paths, each cached once, whatever the hash map's order.
\<close>

theorem watcher_reports_visible:
  assumes "order_ok ord" "\<forall>p \<in> set (input_paths input). prefix root p" "watcher_ok root (wa_pending w) (wa_cache w)"
    and "watch_turn ord stat has_search root now input w = (outs, w')"
  shows "(\<forall>e \<in> set (emitted outs). event_visible root e) \<and> watcher_ok root (wa_pending w') (wa_cache w')"
proof -
  obtain e1 p1 c1 where c: "maybe_cleanup_pending now root (wa_pending w) (wa_cache w) = (e1, p1, c1)"
    by (cases "maybe_cleanup_pending now root (wa_pending w) (wa_cache w)") blast
  have ok: "\<forall>e. e1 = Some e \<longrightarrow> event_visible root e" "watcher_ok root p1 c1"
    using cleanup_ok [OF assms(3), of now] by (simp_all add: c report_ok_def)
  show ?thesis
  proof (cases input)
    case (Received event)
    obtain e2 p2 c2 where m: "map_event ord stat now event root p1 c1 = (e2, p2, c2)"
      by (cases "map_event ord stat now event root p1 c1") blast
    have "report_ok root (e2, p2, c2)"
      using map_event_ok [OF assms(1) ok(2), of event stat now] assms(2) by (simp add: Received m)
    then show ?thesis
      using watch_turn_received [OF c m assms(4) [unfolded Received]] ok(1)
      by (auto simp: report_ok_def split: option.splits)
  next
    case ReceivedError
    with assms(3,4) show ?thesis by auto
  next
    case ReceiveTimeout
    with assms(4) have d: "deliver has_search now e1 (w\<lparr>wa_pending := p1, wa_cache := c1\<rparr>) = (outs, w')"
      by (simp add: cleanup_turn_def c)
    with deliver_emits [of has_search now e1 "w\<lparr>wa_pending := p1, wa_cache := c1\<rparr>"] ok show ?thesis
      by (auto split: option.splits)
  qed
qed

theorem watcher_reports_visible_witness:
  "list_all (event_visible [''v''])
     (emitted (fst (watch_turn id (\<lambda>_. None) True [''v''] 0 (half RenameAny [''v'', ''D'']) sample_watcher)))"
proof -
  have "watcher_ok [''v''] (wa_pending sample_watcher) (wa_cache sample_watcher)"
    by (simp add: watcher_ok_def cache_ok_def sample_watcher_def visible_path_def should_ignore_path_def
        starts_with_def ends_with_def suffix_def)
  then show ?thesis
    using watcher_reports_visible [OF _ _ _ surjective_pairing, of id "half RenameAny [''v'', ''D'']" "[''v'']"
        sample_watcher "\<lambda>_. None" True 0]
    by (simp add: order_ok_def half_def list_all_iff)
qed

text \<open>The cache the watcher starts with, filled from the vault, has the invariant.\<close>

lemma fold_invariant:
  assumes "P s" "\<And>x s. x \<in> set xs \<Longrightarrow> P s \<Longrightarrow> P (f x s)"
  shows "P (fold f xs s)"
  using assms by (induction xs arbitrary: s) auto

lemma collect_path_kinds_ok:
  "cache_ok root cache \<Longrightarrow> collect_path_kinds root dir n cache = Some cache' \<Longrightarrow> cache_ok root cache'"
proof (induction root dir n cache arbitrary: cache' rule: collect_path_kinds.induct)
  case (1 root dir es cache)
  have step: "cache_ok root
     (let rel = dir @ [name] in
       if should_ignore_path rel then c
       else let c = AList.update (root @ rel) (case n of Dir _ \<Rightarrow> True | _ \<Rightarrow> False) c in
         (case collect_path_kinds root rel n c of Some c \<Rightarrow> c | None \<Rightarrow> c))"
    if "(name, n) \<in> set es" "cache_ok root c" for name n c
  proof (cases "should_ignore_path (dir @ [name])")
    case False
    let ?c = "AList.update (root @ dir @ [name]) (case n of Dir _ \<Rightarrow> True | _ \<Rightarrow> False) c"
    have "cache_ok root ?c"
      using that(2) False by (intro cache_ok_update) (simp_all add: visible_path_def)
    with "1.IH" [OF that(1) refl refl False refl, of c] False show ?thesis
      by (auto simp: Let_def split: option.splits)
  qed (simp add: that(2))
  have "cache' = fold (\<lambda>(name, n) cache.
       let rel = dir @ [name] in
       if should_ignore_path rel then cache
       else let cache = AList.update (root @ rel) (case n of Dir _ \<Rightarrow> True | _ \<Rightarrow> False) cache in
         (case collect_path_kinds root rel n cache of Some c \<Rightarrow> c | None \<Rightarrow> cache)) es cache"
    using "1.prems"(2) by simp
  then show ?case
    using "1.prems"(1) step by (auto intro!: fold_invariant [where P = "cache_ok root"])
qed simp_all

lemma seed_path_kind_cache_ok: "seed_path_kind_cache root fs = Some cache \<Longrightarrow> watcher_ok root None cache"
  using collect_path_kinds_ok [of root "[]" "[]" fs cache]
  by (simp add: seed_path_kind_cache_def watcher_ok_def cache_ok_def)

end
