(* ===== verification/Sync_Pull.thy ===== *)
theory Sync_Pull
  imports Sync_Replay Sync_Merge Vault_Watcher
begin

text \<open>
  The second half of the pull pipeline (\<^verbatim>\<open>sync/applier.rs\<close>): applying decrypted commits to the vault, merging
  them with local edits, keeping conflict copies, and recording what was applied. The state is the
  database, the vault, the watcher's ledger and the calls made to the search index (both hooks may
  be absent), and the number of downloads and writes so far; the clock, the modification times, the
  search index's answers and the operating system's error text are parameters of the environment.
  A write fails when a directory is where the file should go or a file where a directory is needed;
  other I/O faults are left out. The search for a conflict copy's name panics at the end of the \<^verbatim>\<open>i32\<close>
  range, which is \<open>Panicked\<close>.
\<close>

section \<open>State and environment\<close>

datatype pull_fault = Failed sync_error | Panicked

record pull_state =
  ps_db :: sync_db
  ps_fs :: fnode
  ps_ledger :: "expected_mutation_ledger option"
  ps_search :: "search_call list option"
  ps_downloads :: nat
  ps_writes :: nat

record pull_env =
  pe_net :: pull_net
  pe_queue :: transfer_queue_config
  pe_instant :: "nat \<Rightarrow> int"
  pe_mtime :: "nat \<Rightarrow> int"
  pe_search_answer :: "nat \<Rightarrow> (unit, string) result"
  pe_io_text :: string

datatype remote_apply_action = AppliedRemote | KeptLocalDirty

record pull_result =
  applied_commits :: "string list"
  bootstrapped_from_checkpoint :: bool

type_synonym 'a pull_op = "pull_state \<Rightarrow> ('a, pull_fault) result \<times> pull_state"

definition checked :: "'a sync_result \<Rightarrow> 'a pull_op" where
  "checked r st = (map_err Failed r, st)"

definition on_db :: "(sync_db \<Rightarrow> 'a sync_result \<times> sync_db) \<Rightarrow> 'a pull_op" where
  "on_db f st = (let (r, db) = f (ps_db st) in (map_err Failed r, st\<lparr>ps_db := db\<rparr>))"

definition on_downloads :: "(nat \<Rightarrow> 'a sync_result \<times> nat) \<Rightarrow> 'a pull_op" where
  "on_downloads f st = (let (r, k) = f (ps_downloads st) in (map_err Failed r, st\<lparr>ps_downloads := k\<rparr>))"

fun fold_try :: "('x \<Rightarrow> 'a \<Rightarrow> 'a pull_op) \<Rightarrow> 'x list \<Rightarrow> 'a \<Rightarrow> 'a pull_op" where
  "fold_try f [] a st = (Ok a, st)"
| "fold_try f (x # xs) a st = try_then (f x a st) (fold_try f xs)"

section \<open>Files\<close>

definition REMOTE_APPLY_SOURCE :: string where "REMOTE_APPLY_SOURCE = ''sync-remote-apply''"

definition resolve_remote_path :: "fpath \<Rightarrow> string \<Rightarrow> fpath pull_op" where
  "resolve_remote_path root path st =
     checked (map_err InvalidArgument (resolve_vault_path_strict root (ps_fs st) path)) st"

definition finish_remote_mutation ::
    "64 word option \<Rightarrow> unit sync_result \<Rightarrow> unit pull_op" where
  "finish_remote_mutation token result st =
     (case result of
        Ok _ \<Rightarrow> (Ok (), st)
      | Err error \<Rightarrow>
          (Err (Failed error),
           case (ps_ledger st, token) of
             (Some ledger, Some token) \<Rightarrow> st\<lparr>ps_ledger := Some (cancel token ledger)\<rparr>
           | _ \<Rightarrow> st))"

definition notify_search :: "pull_env \<Rightarrow> search_call \<Rightarrow> unit pull_op" where
  "notify_search E call st =
     (case ps_search st of
        None \<Rightarrow> (Ok (), st)
      | Some calls \<Rightarrow>
          (map_err (Failed \<circ> Storage) (pe_search_answer E (length calls)),
           st\<lparr>ps_search := Some (calls @ [call])\<rparr>))"

text \<open>Announcing a mutation to the watcher's ledger, if there is one; the time is that of the mutation's number.\<close>

definition announce ::
    "pull_env \<Rightarrow> (int \<Rightarrow> expected_mutation_ledger \<Rightarrow> 64 word \<times> expected_mutation_ledger) \<Rightarrow> pull_state
      \<Rightarrow> 64 word option \<times> pull_state" where
  "announce E record st =
     (case ps_ledger st of
        None \<Rightarrow> (None, st)
      | Some ledger \<Rightarrow>
          let (token, ledger) = record (pe_instant E (ps_writes st)) ledger
          in (Some token, st\<lparr>ps_ledger := Some ledger\<rparr>))"

definition write_file :: "pull_env \<Rightarrow> fpath \<Rightarrow> fpath \<Rightarrow> bytes \<Rightarrow> pull_state \<Rightarrow> unit sync_result \<times> pull_state" where
  "write_file E root p plaintext st =
     (case fs_write p plaintext (pe_mtime E (ps_writes st)) (Some (ps_fs st)) of
        Some fs \<Rightarrow> (Ok (), st\<lparr>ps_fs := fs, ps_writes := ps_writes st + 1\<rparr>)
      | None \<Rightarrow>
          (Err (Storage (if parent_blocked (ps_fs st) p
             then ''failed to create sync parent directory: '' @ pe_io_text E
             else ''failed to apply remote file '' @ display_path (root @ p) @ '': '' @ pe_io_text E)),
           st\<lparr>ps_writes := ps_writes st + 1\<rparr>))"

definition apply_remote_write :: "pull_env \<Rightarrow> fpath \<Rightarrow> string \<Rightarrow> bytes \<Rightarrow> unit pull_op" where
  "apply_remote_write E root path plaintext st =
     try_then (resolve_remote_path root path st) (\<lambda>resolved st.
       let (token, st) = announce E (\<lambda>now. record_write now path False) st;
           (result, st) = write_file E root resolved plaintext st
       in try_then (finish_remote_mutation token result st) (\<lambda>_.
            notify_search E (NotifyWritten path REMOTE_APPLY_SOURCE)))"

definition remove_file :: "pull_env \<Rightarrow> fpath \<Rightarrow> fpath \<Rightarrow> pull_state \<Rightarrow> unit sync_result \<times> pull_state" where
  "remove_file E root p st =
     (case fs_remove p (ps_fs st) of
        Ok fs \<Rightarrow> (Ok (), st\<lparr>ps_fs := fs, ps_writes := ps_writes st + 1\<rparr>)
      | Err NotFound \<Rightarrow> (Ok (), st\<lparr>ps_writes := ps_writes st + 1\<rparr>)
      | Err RemoveFailed \<Rightarrow>
          (Err (Storage (''failed to apply remote delete '' @ display_path (root @ p) @ '': '' @ pe_io_text E)),
           st\<lparr>ps_writes := ps_writes st + 1\<rparr>))"

definition apply_remote_delete :: "pull_env \<Rightarrow> fpath \<Rightarrow> string \<Rightarrow> unit pull_op" where
  "apply_remote_delete E root path st =
     try_then (resolve_remote_path root path st) (\<lambda>resolved st.
       let existed = fs_exists (ps_fs st) resolved;
           (token, st) = (if existed then announce E (\<lambda>now. record_delete now path False) st else (None, st));
           (result, st) = remove_file E root resolved st
       in try_then (finish_remote_mutation token result st) (\<lambda>_.
            notify_search E (NotifyRemoved path False REMOTE_APPLY_SOURCE)))"

definition read_local_file :: "pull_env \<Rightarrow> fpath \<Rightarrow> string \<Rightarrow> bytes pull_op" where
  "read_local_file E root path st =
     try_then (resolve_remote_path root path st) (\<lambda>resolved st.
       checked (ok_or (fs_read (ps_fs st) resolved)
         (Storage (''failed to read local merge file '' @ display_path (root @ resolved) @ '': '' @ pe_io_text E))) st)"

section \<open>Conflict copies\<close>

definition conflict_id_for ::
    "'z crypto_libs_scheme \<Rightarrow> string \<Rightarrow> string \<Rightarrow> string option \<Rightarrow> string \<Rightarrow> int \<Rightarrow> string" where
  "conflict_id_for L path conflict_path base_commit_id remote_commit_id created_at_ms =
     ''conflict_'' @ take 32 (blake3_hex L
       (path @ [nul] @ conflict_path @ [nul] @
        (case base_commit_id of Some b \<Rightarrow> b | None \<Rightarrow> []) @ [nul] @ remote_commit_id @ [nul] @
        show_int created_at_ms))"

text \<open>
  \<^verbatim>\<open>vault_root.join(candidate).exists()\<close>. A candidate lies in the directory of a path that was normalised before,
  so it has no parent segments, and its names are read off from it.
\<close>

definition candidate_exists :: "fnode \<Rightarrow> string \<Rightarrow> bool" where
  "candidate_exists fs candidate =
     (case relative_stack (components candidate) [] of Some p \<Rightarrow> fs_exists fs p | None \<Rightarrow> False)"

definition find_conflict_path :: "string \<Rightarrow> int \<Rightarrow> string pull_op" where
  "find_conflict_path original_path now st =
     (case conflict_copy_relative_path original_path now (candidate_exists (ps_fs st)) of
        Err e \<Rightarrow> (Err (Failed e), st)
      | Ok None \<Rightarrow> (Err Panicked, st)
      | Ok (Some p) \<Rightarrow> (Ok p, st))"

definition write_conflict_copy ::
    "'z commit_libs_scheme \<Rightarrow> pull_env \<Rightarrow> pull_input \<Rightarrow> string \<Rightarrow> bytes \<Rightarrow> string option \<Rightarrow> sync_commit_header
      \<Rightarrow> string pull_op" where
  "write_conflict_copy L E input original_path plaintext base_commit_id remote_header st =
     try_then (find_conflict_path original_path (pi_now_ms input) st) (\<lambda>conflict_path st.
     try_then (apply_remote_write E (pi_vault_root input) conflict_path plaintext st) (\<lambda>_ st.
     try_then (on_db (\<lambda>db. (Ok (), upsert_conflict
         \<lparr>cf_conflict_id = conflict_id_for L original_path conflict_path base_commit_id
            (ch_commit_id remote_header) (pi_now_ms input),
          cf_path = original_path, cf_conflict_path = conflict_path, cf_base_commit_id = base_commit_id,
          cf_local_commit_id = None, cf_remote_commit_id = Some (ch_commit_id remote_header),
          cf_status = ''open'', cf_created_at_ms = pi_now_ms input\<rparr> db)) st) (\<lambda>_ st.
       (Ok conflict_path, st))))"

section \<open>Merging one change\<close>

definition download_tree_entry_content ::
    "'z commit_libs_scheme \<Rightarrow> pull_env \<Rightarrow> pull_input \<Rightarrow> string \<Rightarrow> sync_tree_entry_record \<Rightarrow> bytes option pull_op" where
  "download_tree_entry_content L E input commit_id entry st =
     (case (tr_content_object_id entry, tr_pack_entry_id entry) of
        (Some object_id, Some entry_id) \<Rightarrow>
          try_then (on_downloads (pull_download_one L (pe_net E) (pe_queue E) (pi_workspace_id input)
              (pi_device_id input) object_id) st) (\<lambda>object st.
          try_then (checked (pack_kind_for_object_kind (do_kind object)) st) (\<lambda>pack_kind st.
          try_then (checked (decrypt_pack L (pi_workspace_key input) (pi_workspace_id input) object_id
              pack_kind commit_id (do_ciphertext object)) st) (\<lambda>unpacked st.
            (Ok (bt_get (up_entries unpacked) entry_id), st))))
      | _ \<Rightarrow> (Ok None, st))"

definition keep_copy ::
    "'z commit_libs_scheme \<Rightarrow> pull_env \<Rightarrow> pull_input \<Rightarrow> string \<Rightarrow> bytes \<Rightarrow> string option \<Rightarrow> sync_commit_header
      \<Rightarrow> remote_apply_action pull_op" where
  "keep_copy L E input path plaintext base_commit_id header st =
     try_then (write_conflict_copy L E input path plaintext base_commit_id header st) (\<lambda>_ st.
       (Ok KeptLocalDirty, st))"

definition merge_remote_upsert ::
    "'z commit_libs_scheme \<Rightarrow> pull_env \<Rightarrow> pull_input \<Rightarrow> sync_commit_header \<Rightarrow> sync_tree_entry_record option
      \<Rightarrow> sync_file_record \<Rightarrow> string \<Rightarrow> bytes \<Rightarrow> remote_apply_action pull_op" where
  "merge_remote_upsert L E input remote_header base_entry row path remote_plaintext st =
     (if deleted row
      then keep_copy L E input path remote_plaintext (map_option tr_commit_id base_entry) remote_header st
      else
        try_then (read_local_file E (pi_vault_root input) (fr_path row) st) (\<lambda>local_plaintext st.
        case base_entry of
          None \<Rightarrow> keep_copy L E input path remote_plaintext None remote_header st
        | Some base \<Rightarrow>
            try_then (download_tree_entry_content L E input (tr_commit_id base) base st) (\<lambda>content st.
            case content of
              None \<Rightarrow> keep_copy L E input path remote_plaintext (Some (tr_commit_id base)) remote_header st
            | Some base_plaintext \<Rightarrow>
                try_then (checked (merge_markdown base_plaintext local_plaintext remote_plaintext) st)
                  (\<lambda>outcome st.
                case outcome of
                  Merged merged \<Rightarrow>
                    try_then (apply_remote_write E (pi_vault_root input) path merged st) (\<lambda>_ st.
                      (Ok (if merged = remote_plaintext then AppliedRemote else KeptLocalDirty), st))
                | Conflict \<Rightarrow>
                    keep_copy L E input path remote_plaintext (Some (tr_commit_id base)) remote_header st))))"

definition merge_remote_delete ::
    "'z commit_libs_scheme \<Rightarrow> pull_env \<Rightarrow> pull_input \<Rightarrow> sync_commit_header \<Rightarrow> sync_file_record option \<Rightarrow> string
      \<Rightarrow> remote_apply_action pull_op" where
  "merge_remote_delete L E input remote_header row path st =
     (case row of
        Some row \<Rightarrow>
          if deleted row
          then try_then (apply_remote_delete E (pi_vault_root input) path st) (\<lambda>_ st. (Ok AppliedRemote, st))
          else
            try_then (read_local_file E (pi_vault_root input) (fr_path row) st) (\<lambda>local_plaintext st.
            try_then (write_conflict_copy L E input path local_plaintext None remote_header st) (\<lambda>_ st.
            try_then (apply_remote_delete E (pi_vault_root input) path st) (\<lambda>_ st. (Ok AppliedRemote, st))))
      | None \<Rightarrow>
          try_then (apply_remote_delete E (pi_vault_root input) path st) (\<lambda>_ st. (Ok AppliedRemote, st)))"

type_synonym dirty_files = "(string \<times> sync_file_record) list"

text \<open>The tree the changes lead to, and the files that now agree with the remote.\<close>

type_synonym progress = "tree_map \<times> string list"

definition synced_after :: "remote_apply_action \<Rightarrow> string \<Rightarrow> string list \<Rightarrow> string list" where
  "synced_after action fid synced = (if action = AppliedRemote then synced @ [fid] else synced)"

fun apply_change ::
    "'z commit_libs_scheme \<Rightarrow> pull_env \<Rightarrow> pull_input \<Rightarrow> dirty_files \<Rightarrow> decrypted_commit \<Rightarrow> commit_body_file_op
      \<Rightarrow> progress \<Rightarrow> progress pull_op" where
  "apply_change L E input dirty_files commit (UpsertFile fid path npath plaintext_hash n content_ref) (tree, synced) st =
     try_then (checked (validate_remote_file_identity L fid path npath) st) (\<lambda>_ st.
     try_then (checked (pack_entry_plaintext (dc_packs commit) content_ref) st) (\<lambda>remote_plaintext st.
     try_then (checked (validate_plaintext_metadata L path remote_plaintext plaintext_hash n) st) (\<lambda>_ st.
     try_then (case bt_get dirty_files fid of
           Some row \<Rightarrow> merge_remote_upsert L E input (dc_header commit) (bt_get tree fid) row path
                          remote_plaintext st
         | None \<Rightarrow> try_then (apply_remote_write E (pi_vault_root input) path remote_plaintext st)
                     (\<lambda>_ st. (Ok AppliedRemote, st))) (\<lambda>action st.
       (Ok (bt_insert fid (remote_entry (ch_commit_id (dc_header commit)) fid npath plaintext_hash content_ref) tree,
            synced_after action fid synced), st)))))"
| "apply_change L E input dirty_files commit (DeleteFile fid path npath) (tree, synced) st =
     try_then (checked (validate_remote_file_identity L fid path npath) st) (\<lambda>_ st.
     try_then (merge_remote_delete L E input (dc_header commit) (bt_get dirty_files fid) path st) (\<lambda>action st.
       (Ok (bt_remove fid tree, synced_after action fid synced), st)))"

section \<open>Applying a commit\<close>

definition refresh_local_scan ::
    "'z commit_libs_scheme \<Rightarrow> pull_input \<Rightarrow> unit pull_op" where
  "refresh_local_scan L input st =
     try_then (checked (scan_vault (to_lowercase L) (blake3_hex L) (pi_vault_root input) (ps_fs st)) st)
       (\<lambda>scanned_files st.
     try_then (on_db (apply_scan (blake3_hex L) (map file_input scanned_files) (pi_now_ms input)) st)
       (\<lambda>_ st. (Ok (), st)))"

definition persist_applied_commit ::
    "'z commit_libs_scheme \<Rightarrow> pull_input \<Rightarrow> decrypted_commit \<Rightarrow> tree_map \<Rightarrow> string list \<Rightarrow> unit pull_op" where
  "persist_applied_commit L input commit tree synced st =
     (let entries = entries_of_tree tree;
          commit_id = ch_commit_id (dc_header commit) in
      try_then (checked (validate_tree_id L (bd_tree_id (dc_body commit)) entries) st) (\<lambda>_ st.
      try_then (on_db (persist_tree_cache commit_id (bd_tree_id (dc_body commit))
          (tree_json_for_entries L entries) ''remote'' entries (pi_now_ms input)) st) (\<lambda>_ st.
      try_then (refresh_local_scan L input st) (\<lambda>_ st.
        on_db (\<lambda>db.
          let db = mark_files_synced commit_id synced db;
              db = upsert_local_commit
                \<lparr>cr_commit_id = commit_id,
                 cr_parent_commit_ids_json = json_string_list L (ch_parent_commit_ids (dc_header commit)),
                 cr_commit_kind = bd_commit_kind (dc_body commit), cr_direction = ''remote'',
                 cr_status = ''applied'', cr_created_at_ms = pi_now_ms input,
                 cr_applied_at_ms = Some (pi_now_ms input), cr_error = None\<rparr> db
          in (Ok (), update_vault_after_pull (pi_vault_id input) commit_id (pi_now_ms input) db)) st))))"

definition apply_decrypted_commit ::
    "'z commit_libs_scheme \<Rightarrow> pull_env \<Rightarrow> pull_input \<Rightarrow> dirty_files \<Rightarrow> decrypted_commit \<Rightarrow> tree_map
      \<Rightarrow> progress pull_op" where
  "apply_decrypted_commit L E input dirty_files commit tree st =
     (let tree = (if ch_commit_kind (dc_header commit) = COMMIT_KIND_CHECKPOINT then [] else tree) in
      try_then (fold_try (apply_change L E input dirty_files commit) (bd_changes (dc_body commit)) (tree, []) st)
        (\<lambda>(tree, synced) st.
      try_then (persist_applied_commit L input commit tree synced st) (\<lambda>_ st.
        (Ok (tree, synced), st))))"

section \<open>The pull\<close>

definition ensure_pull_vault_record ::
    "pull_input \<Rightarrow> sync_head \<Rightarrow> sync_db \<Rightarrow> sync_vault_record \<times> sync_db" where
  "ensure_pull_vault_record input head db =
     (let vault = (case get_vault db (pi_vault_id input) of
            Some v \<Rightarrow> v
          | None \<Rightarrow>
              \<lparr>vr_vault_id = pi_vault_id input, vr_root_path = display_path (pi_vault_root input),
               vr_remote_workspace_id = pi_workspace_id input,
               vr_remote_head_commit_id = empty_to_none (current_head_commit_id head),
               vr_local_head_commit_id = None, vr_device_id = pi_device_id input, vr_next_device_seq = 1,
               vr_enabled = True, vr_created_at_ms = pi_now_ms input, vr_updated_at_ms = pi_now_ms input\<rparr>);
          vault = vault\<lparr>vr_root_path := display_path (pi_vault_root input),
            vr_remote_workspace_id := pi_workspace_id input,
            vr_remote_head_commit_id := empty_to_none (current_head_commit_id head),
            vr_device_id := pi_device_id input, vr_enabled := True, vr_updated_at_ms := pi_now_ms input,
            vr_next_device_seq := (if vr_next_device_seq vault \<le> 0 then 1 else vr_next_device_seq vault)\<rparr>
      in (vault, upsert_vault vault db))"

definition nothing_applied :: pull_result where
  "nothing_applied = \<lparr>applied_commits = [], bootstrapped_from_checkpoint = False\<rparr>"

definition replay_commit ::
    "'z commit_libs_scheme \<Rightarrow> pull_env \<Rightarrow> pull_input \<Rightarrow> dirty_files \<Rightarrow> sync_commit_header \<Rightarrow> progress \<Rightarrow> progress pull_op" where
  "replay_commit L E input dirty_files header = (\<lambda>(tree, applied) st.
     try_then (on_downloads (decrypt_commit L (pe_net E) (pe_queue E) (pi_workspace_id input)
         (pi_device_id input) (pi_workspace_key input) header) st) (\<lambda>commit st.
     try_then (apply_decrypted_commit L E input dirty_files commit tree st) (\<lambda>(tree, _) st.
       (Ok (tree, applied @ [ch_commit_id (dc_header commit)]), st))))"

text \<open>Replaying the selected commits, from the scan that finds local edits on.\<close>

definition replay_selected ::
    "'z commit_libs_scheme \<Rightarrow> pull_env \<Rightarrow> pull_input \<Rightarrow> sync_vault_record \<Rightarrow> sync_commit_header list
      \<Rightarrow> replay_selection \<Rightarrow> pull_result pull_op" where
  "replay_selected L E input vault commits selection st =
     try_then (refresh_local_scan L input st) (\<lambda>_ st.
     let dirty_files = bt_of_list (map (\<lambda>file. (file_id file, file)) (list_dirty_files (ps_db st))) in
     try_then (on_downloads (initial_or_rematerialized_tree_entries L (pe_net E) (pe_queue E) input vault
         commits (ps_db st)) st) (\<lambda>tree st.
     try_then (fold_try (replay_commit L E input dirty_files) (rs_commits selection) (tree, []) st)
       (\<lambda>(_, applied) st.
       (Ok \<lparr>applied_commits = applied,
            bootstrapped_from_checkpoint = rs_bootstrapped_from_checkpoint selection\<rparr>, st))))"

definition pull_remote_changes ::
    "'z commit_libs_scheme \<Rightarrow> pull_env \<Rightarrow> pull_input \<Rightarrow> pull_result pull_op" where
  "pull_remote_changes L E input st =
     try_then (checked (validate_pull_input input) st) (\<lambda>_ st.
     try_then (checked (pn_get_head (pe_net E) (pi_workspace_id input)) st) (\<lambda>head st.
     try_then (on_db (\<lambda>db. let (vault, db) = ensure_pull_vault_record input head db in (Ok vault, db)) st)
       (\<lambda>vault st.
     if current_head_commit_id head = [] then (Ok nothing_applied, st)
     else
       try_then (checked (list_all_commits (pe_net E) (pi_workspace_id input)) st) (\<lambda>commits st.
       try_then (checked (select_replay_commits vault head commits) st) (\<lambda>selection st.
       if rs_commits selection = [] then (Ok nothing_applied, st)
       else replay_selected L E input vault commits selection st)))))"

section \<open>The effect of one file operation\<close>

lemma announce_same [simp]:
  "ps_db (snd (announce E r st)) = ps_db st" "ps_fs (snd (announce E r st)) = ps_fs st"
  "ps_writes (snd (announce E r st)) = ps_writes st" "ps_downloads (snd (announce E r st)) = ps_downloads st"
  by (simp_all add: announce_def Let_def split: option.split prod.split)

lemma finish_same [simp]:
  "ps_db (snd (finish_remote_mutation t r st)) = ps_db st" "ps_fs (snd (finish_remote_mutation t r st)) = ps_fs st"
  "ps_downloads (snd (finish_remote_mutation t r st)) = ps_downloads st"
  by (simp_all add: finish_remote_mutation_def split: option.split result.split)

lemma finish_Ok: "fst (finish_remote_mutation t r st) = Ok u \<Longrightarrow> r = Ok ()"
  by (cases r) (simp_all add: finish_remote_mutation_def)

lemma notify_same [simp]:
  "ps_db (snd (notify_search E c st)) = ps_db st" "ps_fs (snd (notify_search E c st)) = ps_fs st"
  "ps_downloads (snd (notify_search E c st)) = ps_downloads st"
  by (simp_all add: notify_search_def split: option.split)

text \<open>The tail of a mutation: what the search index and the ledger do does not touch vault or database.\<close>

lemma finish_notify_same:
  "ps_db (snd (try_then (finish_remote_mutation t r st) (\<lambda>_. notify_search E c))) = ps_db st"
  "ps_fs (snd (try_then (finish_remote_mutation t r st) (\<lambda>_. notify_search E c))) = ps_fs st"
  "ps_downloads (snd (try_then (finish_remote_mutation t r st) (\<lambda>_. notify_search E c))) = ps_downloads st"
  "fst (try_then (finish_remote_mutation t r st) (\<lambda>_. notify_search E c)) = Ok u \<Longrightarrow> r = Ok ()"
proof -
  obtain x st1 where f: "finish_remote_mutation t r st = (x, st1)" by fastforce
  note same = finish_same [of t r st, unfolded f snd_conv]
  show "ps_db (snd (try_then (finish_remote_mutation t r st) (\<lambda>_. notify_search E c))) = ps_db st"
    "ps_fs (snd (try_then (finish_remote_mutation t r st) (\<lambda>_. notify_search E c))) = ps_fs st"
    "ps_downloads (snd (try_then (finish_remote_mutation t r st) (\<lambda>_. notify_search E c))) = ps_downloads st"
    using same by (cases x; simp add: f)+
  show "fst (try_then (finish_remote_mutation t r st) (\<lambda>_. notify_search E c)) = Ok u \<Longrightarrow> r = Ok ()"
    using finish_Ok [of t r st] by (cases x) (simp_all add: f)
qed

lemma write_file_effect:
  assumes "write_file E root p b st = (r, st')"
  shows "ps_db st' = ps_db st" "ps_downloads st' = ps_downloads st"
    and "if r = Ok () then \<exists>m. fs_write p b m (Some (ps_fs st)) = Some (ps_fs st') else ps_fs st' = ps_fs st"
  using assms by (auto simp: write_file_def split: option.splits)

lemma remove_file_effect:
  assumes "remove_file E root p st = (r, st')"
  shows "ps_db st' = ps_db st" "ps_downloads st' = ps_downloads st"
    and "if r = Ok () \<and> fs_remove p (ps_fs st) \<noteq> Err NotFound then fs_remove p (ps_fs st) = Ok (ps_fs st')
      else ps_fs st' = ps_fs st"
  using assms by (auto simp: remove_file_def split: result.splits remove_error.splits)

lemma remote_write_effect:
  assumes "apply_remote_write E root path b st = (r, st')"
  shows "ps_db st' = ps_db st" "ps_downloads st' = ps_downloads st"
    and "ps_fs st' = ps_fs st \<or> (\<exists>p m. resolve_vault_path_strict root (ps_fs st) path = Ok p \<and>
      fs_write p b m (Some (ps_fs st)) = Some (ps_fs st'))"
    and "r = Ok () \<Longrightarrow> \<exists>p m. resolve_vault_path_strict root (ps_fs st) path = Ok p \<and>
      fs_write p b m (Some (ps_fs st)) = Some (ps_fs st')"
proof -
  let ?wrote = "\<exists>p m. resolve_vault_path_strict root (ps_fs st) path = Ok p \<and>
      fs_write p b m (Some (ps_fs st)) = Some (ps_fs st')"
  have "ps_db st' = ps_db st \<and> ps_downloads st' = ps_downloads st \<and> (ps_fs st' = ps_fs st \<or> ?wrote) \<and> (r = Ok () \<longrightarrow> ?wrote)"
  proof (cases "resolve_vault_path_strict root (ps_fs st) path")
    case (Err m)
    then show ?thesis using assms by (auto simp: apply_remote_write_def resolve_remote_path_def checked_def)
  next
    case (Ok p)
    obtain t st1 where a: "announce E (\<lambda>now. record_write now path False) st = (t, st1)" by fastforce
    obtain x st2 where w: "write_file E root p b st1 = (x, st2)" by fastforce
    have st': "try_then (finish_remote_mutation t x st2) (\<lambda>_. notify_search E (NotifyWritten path REMOTE_APPLY_SOURCE)) = (r, st')"
      using assms by (simp add: apply_remote_write_def resolve_remote_path_def checked_def Ok a w)
    note tail = finish_notify_same [of t x st2 E "NotifyWritten path REMOTE_APPLY_SOURCE", unfolded st' fst_conv snd_conv]
    note st1 = announce_same [of E "\<lambda>now. record_write now path False" st, unfolded a snd_conv]
    show ?thesis
      using write_file_effect [OF w] tail st1 Ok by (auto split: if_splits)
  qed
  then show "ps_db st' = ps_db st" "ps_downloads st' = ps_downloads st" "ps_fs st' = ps_fs st \<or> ?wrote" "r = Ok () \<Longrightarrow> ?wrote"
    by blast+
qed

lemma remote_delete_effect:
  assumes "apply_remote_delete E root path st = (r, st')"
  shows "ps_db st' = ps_db st" "ps_downloads st' = ps_downloads st"
    and "ps_fs st' = ps_fs st \<or> (\<exists>p. resolve_vault_path_strict root (ps_fs st) path = Ok p \<and>
      fs_remove p (ps_fs st) = Ok (ps_fs st'))"
    and "r = Ok () \<Longrightarrow> \<exists>p. resolve_vault_path_strict root (ps_fs st) path = Ok p \<and>
      (fs_remove p (ps_fs st) = Ok (ps_fs st') \<or> fs_remove p (ps_fs st) = Err NotFound \<and> ps_fs st' = ps_fs st)"
proof -
  let ?gone = "\<exists>p. resolve_vault_path_strict root (ps_fs st) path = Ok p \<and> fs_remove p (ps_fs st) = Ok (ps_fs st')"
  let ?good = "\<exists>p. resolve_vault_path_strict root (ps_fs st) path = Ok p \<and>
      (fs_remove p (ps_fs st) = Ok (ps_fs st') \<or> fs_remove p (ps_fs st) = Err NotFound \<and> ps_fs st' = ps_fs st)"
  have "ps_db st' = ps_db st \<and> ps_downloads st' = ps_downloads st \<and> (ps_fs st' = ps_fs st \<or> ?gone) \<and> (r = Ok () \<longrightarrow> ?good)"
  proof (cases "resolve_vault_path_strict root (ps_fs st) path")
    case (Err m)
    then show ?thesis using assms by (auto simp: apply_remote_delete_def resolve_remote_path_def checked_def)
  next
    case (Ok p)
    obtain t st1 where a: "(if fs_exists (ps_fs st) p then announce E (\<lambda>now. record_delete now path False) st
        else (None, st)) = (t, st1)" by fastforce
    obtain x st2 where w: "remove_file E root p st1 = (x, st2)" by fastforce
    have st': "try_then (finish_remote_mutation t x st2) (\<lambda>_. notify_search E (NotifyRemoved path False REMOTE_APPLY_SOURCE)) = (r, st')"
      using assms by (simp add: apply_remote_delete_def resolve_remote_path_def checked_def Ok a w)
    note tail = finish_notify_same [of t x st2 E "NotifyRemoved path False REMOTE_APPLY_SOURCE", unfolded st' fst_conv snd_conv]
    have "st1 = (if fs_exists (ps_fs st) p then snd (announce E (\<lambda>now. record_delete now path False) st) else st)"
      using a by (auto split: if_splits)
    then have st1: "ps_db st1 = ps_db st" "ps_fs st1 = ps_fs st" "ps_downloads st1 = ps_downloads st" by simp_all
    show ?thesis
      using remove_file_effect [OF w] tail st1 Ok by (auto split: if_splits)
  qed
  then show "ps_db st' = ps_db st" "ps_downloads st' = ps_downloads st" "ps_fs st' = ps_fs st \<or> ?gone" "r = Ok () \<Longrightarrow> ?good"
    by blast+
qed

section \<open>What every step of a pull keeps\<close>

text \<open>
  A relation between the state before and after that every effect of a pull respects is respected by the pull.
  The laws are about the five ways a pull acts on the world: downloading, changing the database, writing
  or deleting a file a commit names, and writing a conflict copy.
\<close>

locale effect_preorder = effects R
  for R :: "pull_state \<Rightarrow> pull_state \<Rightarrow> bool"
begin

lemma fold_try_R:
  "(\<And>x a st. x \<in> set xs \<Longrightarrow> R st (snd (f x a st))) \<Longrightarrow> R st (snd (fold_try f xs a st))"
  by (induction xs arbitrary: a st) (auto intro!: try_then_R R_refl)

lemma checked_R: "R st (snd (checked r st))"
  by (simp add: checked_def R_refl)

end

locale change_effects = effect_preorder R
  for R :: "pull_state \<Rightarrow> pull_state \<Rightarrow> bool" +
  fixes L :: "'z commit_libs_scheme" and E :: pull_env and input :: pull_input and named :: "string \<Rightarrow> bool"
  assumes download_law: "R st (st\<lparr>ps_downloads := k\<rparr>)"
    and conflict_law: "R st (st\<lparr>ps_db := upsert_conflict cf (ps_db st)\<rparr>)"
    and write_law: "named path \<Longrightarrow> R st (snd (apply_remote_write E (pi_vault_root input) path b st))"
    and delete_law: "named path \<Longrightarrow> R st (snd (apply_remote_delete E (pi_vault_root input) path st))"
    and copy_law: "find_conflict_path path now st = (Ok cpath, st) \<Longrightarrow>
      R st (snd (apply_remote_write E (pi_vault_root input) cpath b st))"
begin

lemma on_downloads_R: "R st (snd (on_downloads f st))"
  using download_law by (simp add: on_downloads_def split: prod.split)

lemma read_local_R: "R st (snd (read_local_file E root path st))"
  unfolding read_local_file_def resolve_remote_path_def by (intro try_then_R checked_R)

lemma find_conflict_path_state: "find_conflict_path path now st = (r, st') \<Longrightarrow> st' = st"
  by (auto simp: find_conflict_path_def split: result.splits option.splits)

lemma conflict_copy_R: "R st (snd (write_conflict_copy L E input path b base header st))"
  unfolding write_conflict_copy_def
proof (intro try_then_R pure_R)
  show "R st (snd (find_conflict_path path (pi_now_ms input) st))"
    using find_conflict_path_state R_refl by (metis prod.collapse)
next
  fix cpath st'
  assume "find_conflict_path path (pi_now_ms input) st = (Ok cpath, st')"
  moreover from find_conflict_path_state [OF this] have "st' = st" .
  ultimately show "R st' (snd (apply_remote_write E (pi_vault_root input) cpath b st'))"
    using copy_law by simp
qed (simp add: on_db_def conflict_law)

lemma keep_copy_R: "R st (snd (keep_copy L E input path b base header st))"
  unfolding keep_copy_def by (intro try_then_R conflict_copy_R pure_R)

lemma tree_content_R: "R st (snd (download_tree_entry_content L E input c entry st))"
  unfolding download_tree_entry_content_def
  by (auto intro!: try_then_R on_downloads_R checked_R R_refl split: option.split)

lemma merge_upsert_R: "named path \<Longrightarrow> R st (snd (merge_remote_upsert L E input header base row path b st))"
  unfolding merge_remote_upsert_def
  by (auto intro!: try_then_R keep_copy_R read_local_R tree_content_R checked_R write_law pure_R
      split: option.split markdown_merge_outcome.split)

lemma merge_delete_R: "named path \<Longrightarrow> R st (snd (merge_remote_delete L E input header row path st))"
  unfolding merge_remote_delete_def
  by (auto intro!: try_then_R conflict_copy_R read_local_R delete_law pure_R split: option.split)

lemma apply_change_R:
  "named (fo_path c) \<Longrightarrow> R st (snd (apply_change L E input dirty_files commit c acc st))"
proof (cases c; cases acc)
  case (UpsertFile fid path npath h n r)
  fix tree synced
  assume "named (fo_path c)" "acc = (tree, synced)"
  then show ?thesis
    unfolding UpsertFile
    by (auto intro!: try_then_R checked_R merge_upsert_R write_law pure_R split: option.split)
next
  case (DeleteFile fid path npath)
  fix tree synced
  assume "named (fo_path c)" "acc = (tree, synced)"
  then show ?thesis
    unfolding DeleteFile by (auto intro!: try_then_R checked_R merge_delete_R pure_R)
qed

lemma apply_changes_R:
  "\<forall>c \<in> set changes. named (fo_path c) \<Longrightarrow>
   R st (snd (fold_try (apply_change L E input dirty_files commit) changes acc st))"
  by (intro fold_try_R apply_change_R) blast

end

locale pull_effects = change_effects R L E input named
  for R :: "pull_state \<Rightarrow> pull_state \<Rightarrow> bool" and L :: "'z commit_libs_scheme" and E :: pull_env
    and input :: pull_input and named :: "string \<Rightarrow> bool" +
  assumes db_law: "db_step (blake3_hex L) (ps_db st) db \<Longrightarrow> R st (st\<lparr>ps_db := db\<rparr>)"
begin

lemma on_db_R: "(\<And>db. (db_step (blake3_hex L))\<^sup>*\<^sup>* db (snd (f db))) \<Longrightarrow> R st (snd (on_db f st))"
proof -
  assume "\<And>db. (db_step (blake3_hex L))\<^sup>*\<^sup>* db (snd (f db))"
  then have "(db_step (blake3_hex L))\<^sup>*\<^sup>* (ps_db st) (snd (f (ps_db st)))" .
  then have "R st (st\<lparr>ps_db := snd (f (ps_db st))\<rparr>)"
  proof (induction rule: rtranclp_induct)
    case base
    show ?case using R_refl [of st] by simp
  next
    case (step db db')
    from db_law [of "st\<lparr>ps_db := db\<rparr>" db'] step(2) have "R (st\<lparr>ps_db := db\<rparr>) (st\<lparr>ps_db := db'\<rparr>)" by simp
    with step(3) show ?case by (rule R_trans)
  qed
  then show ?thesis by (auto simp: on_db_def split: prod.split)
qed

lemma scan_R: "R st (snd (refresh_local_scan L input st))"
  unfolding refresh_local_scan_def
  by (intro try_then_R checked_R on_db_R pure_R) (auto intro: db_step.scan)

lemma persist_R: "R st (snd (persist_applied_commit L input commit tree synced st))"
proof -
  have "(db_step (blake3_hex L))\<^sup>*\<^sup>* db (update_vault_after_pull i c now (upsert_local_commit r (mark_files_synced c fs db)))"
    for db i c now r fs
    by (meson db_step.synced db_step.commit db_step.pull converse_rtranclp_into_rtranclp rtranclp.rtrancl_refl)
  then show ?thesis
    unfolding persist_applied_commit_def Let_def
    by (intro try_then_R checked_R on_db_R scan_R) (auto intro: db_step.tree)
qed

lemma apply_commit_R:
  "\<forall>c \<in> set (bd_changes (dc_body commit)). named (fo_path c) \<Longrightarrow>
   R st (snd (apply_decrypted_commit L E input dirty_files commit tree st))"
  unfolding apply_decrypted_commit_def Let_def
  by (auto intro!: try_then_R apply_changes_R persist_R pure_R split: prod.split)

end

text \<open>A whole pull, when no path is ruled out.\<close>

locale pull_everywhere = pull_effects R L E input "\<lambda>_. True"
  for R :: "pull_state \<Rightarrow> pull_state \<Rightarrow> bool" and L :: "'z commit_libs_scheme" and E :: pull_env and input :: pull_input
begin

lemma replay_R: "R st (snd (replay_commit L E input dirty_files header acc st))"
  unfolding replay_commit_def
  by (auto intro!: try_then_R on_downloads_R apply_commit_R pure_R split: prod.split)

lemma replay_selected_R: "R st (snd (replay_selected L E input vault commits selection st))"
  unfolding replay_selected_def Let_def
  by (auto intro!: try_then_R scan_R on_downloads_R fold_try_R replay_R R_refl split: prod.split)

lemma pull_R: "R st (snd (pull_remote_changes L E input st))"
proof -
  have vault: "(db_step (blake3_hex L))\<^sup>*\<^sup>* db
      (snd (ensure_pull_vault_record input head db))" for db head
    by (auto simp: ensure_pull_vault_record_def Let_def intro: db_step.vault)
  show ?thesis
    unfolding pull_remote_changes_def
    by (auto intro!: try_then_R checked_R on_db_R replay_selected_R R_refl split: prod.split)
      (use vault in \<open>metis snd_conv\<close>)
qed

end

interpretation db_effects: pull_everywhere "\<lambda>st st'. (db_step (blake3_hex L))\<^sup>*\<^sup>* (ps_db st) (ps_db st')" L E input
  for L :: "'z commit_libs_scheme" and E input
proof unfold_locales
  have written: "ps_db (snd (apply_remote_write E root path b st)) = ps_db st" for E root path b st
    using remote_write_effect(1) by (metis prod.collapse)
  show "(db_step (blake3_hex L))\<^sup>*\<^sup>* (ps_db st) (ps_db (snd (apply_remote_write E (pi_vault_root input) path b st)))"
    for path b st by (simp add: written)
  then show "(db_step (blake3_hex L))\<^sup>*\<^sup>* (ps_db st) (ps_db (snd (apply_remote_write E (pi_vault_root input) path b st)))"
    for path b st .
  have "ps_db (snd (apply_remote_delete E root path st)) = ps_db st" for E root path st
    using remote_delete_effect(1) by (metis prod.collapse)
  then show "(db_step (blake3_hex L))\<^sup>*\<^sup>* (ps_db st) (ps_db (snd (apply_remote_delete E (pi_vault_root input) path st)))"
    for path st by simp
qed (auto intro: rtranclp_trans db_step.conflict)

text \<open>
  Whatever a pull does, also when it fails half way, it leaves the database well formed.
\<close>

theorem pull_keeps_db_wf:
  assumes "db_wf (ps_db st)"
  shows "db_wf (ps_db (snd (pull_remote_changes L E input st)))"
  using db_effects.pull_R assms by (rule db_steps_wf)

section \<open>Files a commit does not name\<close>

section \<open>The name of a conflict copy\<close>

text \<open>Names without separators.\<close>

definition plain_name :: "string \<Rightarrow> bool" where
  "plain_name x \<longleftrightarrow> x \<notin> {[], ''.'', ''..''} \<and> slash \<notin> set x \<and> backslash \<notin> set x"

lemma join_no_backslash: "\<forall>x \<in> set p. backslash \<notin> set x \<Longrightarrow> backslash \<notin> set (join_with ''/'' p)"
  by (induction "''/''" p rule: join_with.induct) auto

lemma components_relative:
  assumes "\<forall>x \<in> set p. plain_name x"
  shows "components (to_relative_path p) = map Normal p"
proof (cases p)
  case Nil
  then show ?thesis by (simp add: to_relative_path_def components_def replace_char_def)
next
  case (Cons x xs)
  have "to_relative_path p = join_with [slash] p"
    unfolding to_relative_path_def
    using assms by (intro replace_char_idle join_no_backslash) (simp add: plain_name_def)
  moreover have "split_char slash (join_with [slash] p) = p"
    using assms Cons by (intro split_join_with) (auto simp: plain_name_def)
  moreover have "List.map_filter segment_component ys = map Normal ys" if "\<forall>y \<in> set ys. plain_name y" for ys
    using that by (induction ys) (auto simp: segment_component_def plain_name_def List.map_filter_simps)
  ultimately show ?thesis
    using assms by (simp add: components_def Cons segment_component_def plain_name_def)
qed

lemma relative_stack_normal: "relative_stack (map Normal p) acc = Some (acc @ p)"
  by (induction p arbitrary: acc) auto

lemma join_with_contains: "x \<in> set p \<Longrightarrow> set x \<subseteq> set (join_with sep p)"
  by (induction sep p rule: join_with.induct) auto

lemma components_slash_string: "\<forall>x \<in> set p. plain_name x \<Longrightarrow> components (path_to_slash_string p) = map Normal p"
  using components_relative [of p] by (simp add: path_to_slash_string_def to_relative_path_def)

lemma stem_chars: "set (file_stem_of_name x) \<subseteq> set x" "extension_of_name x = Some e \<Longrightarrow> set e \<subseteq> set x"
proof -
  have after: "set (rev (takeWhile (\<lambda>c. c \<noteq> dot) (rev x))) \<subseteq> set x" by (auto dest: set_takeWhileD)
  have rest: "set (butlast (rev (dropWhile (\<lambda>c. c \<noteq> dot) (rev x)))) \<subseteq> set x"
  proof
    fix c assume "c \<in> set (butlast (rev (dropWhile (\<lambda>c. c \<noteq> dot) (rev x))))"
    then have "c \<in> set (rev (dropWhile (\<lambda>c. c \<noteq> dot) (rev x)))" by (rule in_set_butlastD)
    then show "c \<in> set x" by (auto dest: set_dropWhileD)
  qed
  show "set (file_stem_of_name x) \<subseteq> set x" "extension_of_name x = Some e \<Longrightarrow> set e \<subseteq> set x"
    using after rest unfolding file_stem_of_name_def extension_of_name_def rsplit_dot_def Let_def
    by (auto split: if_splits simp del: set_rev)
qed

lemma show_chars: "c \<in> set (show_int i) \<union> set (show_padded w i) \<Longrightarrow> is_ascii_digit c \<or> c = CHR ''-''"
  by (auto simp: show_int_def show_padded_def Let_def is_ascii_digit_def split: if_splits dest!: show_nat_digits)

lemma timestamp_chars: "c \<in> set (timestamp_utc ms) \<Longrightarrow> is_ascii_digit c \<or> c = CHR ''-''"
  using show_chars by (auto simp: timestamp_utc_def Let_def split: prod.splits)

lemma conflict_name_chars:
  assumes "c \<notin> set x" "\<not> is_ascii_digit c" "c \<notin> set ''.conflict-''"
  shows "c \<notin> set (conflict_file_name (file_stem_of_name x) (timestamp_utc ms) (extension_of_name x) n)"
proof -
  have marks: "c \<noteq> CHR ''-''" "c \<noteq> dot" using assms(3) by simp_all
  have "c \<notin> set (file_stem_of_name x)" "\<forall>e. extension_of_name x = Some e \<longrightarrow> c \<notin> set e" using assms(1) stem_chars [of x] by auto
  moreover have "c \<notin> set (timestamp_utc ms)" "c \<notin> set (show_int n)"
    using timestamp_chars [of c ms] show_chars [of c n 0] assms(2) marks(1) by blast+
  ultimately show ?thesis
    using assms(3) marks unfolding conflict_file_name_def set_append
    by (cases "extension_of_name x"; cases "n = 1") (simp_all only: Un_iff de_Morgan_disj option.case list.set insert_iff empty_iff simp_thms if_True if_False)
qed

lemma conflict_name_plain:
  assumes "plain_name x"
  shows "plain_name (conflict_file_name (file_stem_of_name x) (timestamp_utc ms) (extension_of_name x) n)"
proof -
  let ?name = "conflict_file_name (file_stem_of_name x) (timestamp_utc ms) (extension_of_name x) n"
  have "slash \<notin> set ?name" "backslash \<notin> set ?name"
    using assms by (intro conflict_name_chars; simp add: plain_name_def is_ascii_digit_def)+
  moreover have "length ?name > 2" by (simp add: conflict_file_name_def)
  ultimately show ?thesis by (auto simp: plain_name_def)
qed

lemma relative_path_components_Ok: "relative_path_components cs = Ok xs \<Longrightarrow> x \<in> set xs \<Longrightarrow> Normal x \<in> set cs"
  by (induction cs arbitrary: xs rule: relative_path_components.induct) (auto simp: result_simps)

lemma validated_names:
  assumes "validate_relative_path path = Ok comps" "backslash \<notin> set path"
  shows "\<forall>x \<in> set comps. plain_name x" "comps \<noteq> []"
proof -
  have out: "relative_path_components (components path) = Ok comps" "comps \<noteq> []"
    using assms(1) by (auto simp: validate_relative_path_def result_simps split: if_splits)
  have "backslash \<notin> set x" if "Normal x \<in> set (components path)" for x
  proof -
    have "x \<in> set (split_char slash path)"
      using that by (cases "split_char slash path")
        (auto simp: components_def segment_component_def map_filter_def split: if_splits option.splits)
    then have "set x \<subseteq> set (join_with [slash] (split_char slash path))" by (rule join_with_contains)
    with assms(2) show ?thesis by auto
  qed
  with relative_path_components_Ok [OF out(1)] component_names show "\<forall>x \<in> set comps. plain_name x"
    unfolding plain_name_def by blast
  show "comps \<noteq> []" by (rule out(2))
qed

text \<open>A tree has finitely many paths.\<close>

lemma finite_paths: "finite {q. fs_exists fs q}"
proof (induction fs)
  case (Dir es)
  have "{q. fs_exists (Dir es) q} \<subseteq> insert [] (\<Union>(x, n) \<in> set es. Cons x ` {q. fs_exists n q})"
  proof
    fix q assume "q \<in> {q. fs_exists (Dir es) q}"
    then show "q \<in> insert [] (\<Union>(x, n) \<in> set es. Cons x ` {q. fs_exists n q})"
      by (cases q) (fastforce split: option.splits dest: map_of_SomeD)+
  qed
  moreover have "finite (insert [] (\<Union>(x, n) \<in> set es. Cons x ` {q. fs_exists n q}))"
    using Dir by (fastforce simp: snds.simps)
  ultimately show ?case by (rule finite_subset)
next
  case (File b t)
  have "{q. fs_exists (File b t) q} \<subseteq> {[]}" by (auto, case_tac x, auto)
  then show ?case by (rule finite_subset) simp
qed simp

text \<open>
  C39. The search for a conflict copy's name ends and finds a free one, with the test the pull uses: for a valid path
  without backslashes, in a vault with fewer paths than the \<^verbatim>\<open>i32\<close> range, the result is a path at which nothing
  stands in the vault, in the directory of the original, named after the original's stem, the time, a number and the
  extension.
\<close>

theorem conflict_copy_path_fresh:
  assumes "validate_relative_path path = Ok comps" "backslash \<notin> set path"
    and "card {q. fs_exists fs q} < 2147483646"
  shows "\<exists>n \<ge> 1. \<exists>name. name = conflict_file_name (file_stem_of_name (last comps)) (timestamp_utc ms) (extension_of_name (last comps)) n \<and>
     conflict_copy_relative_path path ms (candidate_exists fs) = Ok (Some (join_with ''/'' (butlast comps @ [name]))) \<and>
     \<not> fs_exists fs (butlast comps @ [name])"
proof -
  let ?name = "conflict_file_name (file_stem_of_name (last comps)) (timestamp_utc ms) (extension_of_name (last comps))"
  let ?cand = "\<lambda>n. path_to_slash_string (butlast comps @ [?name n])"
  note comps = validated_names [OF assms(1,2)]
  then have plain: "\<forall>x \<in> set (butlast comps @ [?name n]). plain_name x" for n
    using conflict_name_plain [of "last comps" ms n] by (auto dest: in_set_butlastD)
  then have slashes: "?cand n = join_with ''/'' (butlast comps @ [?name n])" for n
    unfolding path_to_slash_string_def by (intro replace_char_idle join_no_backslash) (simp add: plain_name_def)
  have exists: "candidate_exists fs (?cand n) = fs_exists fs (butlast comps @ [?name n])" for n
    unfolding candidate_exists_def components_slash_string [OF plain] relative_stack_normal by simp
  have "m = n" if "1 \<le> m" "1 \<le> n" "butlast comps @ [?name m] = butlast comps @ [?name n]" for m n
  proof -
    have "?cand m = ?cand n" by (simp only: that(3))
    then show ?thesis using that(1,2) by (rule conflict_candidate_inject)
  qed
  then have "conflict_copy_search (candidate_exists fs) ?cand 1 \<noteq> None"
    by (intro conflict_copy_search_finds [OF finite_paths assms(3), of _ _ "\<lambda>n. butlast comps @ [?name n]"])
      (simp_all only: exists mem_Collect_eq)
  then obtain p where p: "conflict_copy_search (candidate_exists fs) ?cand 1 = Some p" by blast
  from conflict_copy_search_SomeD [OF this] obtain n where "1 \<le> n" "p = ?cand n" "\<not> candidate_exists fs (?cand n)" by blast
  with p show ?thesis
    by (intro exI [of _ n] conjI exI [of _ "?name n"])
      (simp_all add: conflict_copy_relative_path_def assms(1) Let_def slashes [symmetric] exists [symmetric])
qed

theorem conflict_copy_path_fresh_witness:
  "\<exists>n \<ge> 1. \<exists>name. name = conflict_file_name ''a'' (timestamp_utc 0) (Some ''md'') n \<and>
     \<not> fs_exists (Dir [(''n'', Dir [(''a.md'', File ''x'' 0), (''a.conflict-19700101-000000.md'', File ''y'' 0)])]) [''n'', name]"
proof -
  let ?fs = "Dir [(''n'', Dir [(''a.md'', File ''x'' 0), (''a.conflict-19700101-000000.md'', File ''y'' 0)])]"
  have "validate_relative_path ''n/a.md'' = Ok [''n'', ''a.md'']"
    by (simp add: validate_relative_path_def not_blank_graphic is_ascii_graphic_def components_def
        segment_component_def map_filter_def)
  moreover have "{q. fs_exists ?fs q} \<subseteq> set [[], [''n''], [''n'', ''a.md''], [''n'', ''a.conflict-19700101-000000.md'']]"
  proof
    fix q assume "q \<in> {q. fs_exists ?fs q}"
    then show "q \<in> set [[], [''n''], [''n'', ''a.md''], [''n'', ''a.conflict-19700101-000000.md'']]"
      by (cases q; cases "tl q"; cases "tl (tl q)") (auto split: if_splits option.splits)
  qed
  then have "card {q. fs_exists ?fs q} \<le> 4"
    by (rule card_mono [OF finite_set, THEN order_trans]) (rule order_trans [OF card_length], simp)
  moreover have "file_stem_of_name ''a.md'' = ''a''" "extension_of_name ''a.md'' = Some ''md''"
    by code_simp+
  moreover have "backslash \<notin> set ''n/a.md''" by simp
  ultimately obtain n where "n \<ge> 1" "\<not> fs_exists ?fs ([''n''] @ [conflict_file_name ''a'' (timestamp_utc 0) (Some ''md'') n])"
    using conflict_copy_path_fresh [of "''n/a.md''" "[''n'', ''a.md'']" ?fs 0] by (auto simp del: fs_exists.simps)
  then show ?thesis by (intro exI [of _ n] conjI exI) (simp_all del: fs_exists.simps)
qed

section \<open>What a change leaves alone\<close>

lemma resolve_strict_stack:
  assumes "root \<noteq> []" "resolve_vault_path_strict root fs path = Ok p"
  shows "relative_stack (components path) [] = Some p"
    and "\<forall>k < length p. \<forall>l. fs_lookup fs (take (Suc k) p) \<noteq> Some (Symlink l)"
proof -
  from assms(2) obtain q where q: "resolve_vault_path root path = Ok q" and
    walk: "assert_no_symlink_within_vault root fs q = Ok ()" and p: "p = drop (length root) q"
    by (auto simp: resolve_vault_path_strict_def result_simps)
  from q resolve_vault_path_stack [OF assms(1)] obtain r where r: "relative_stack (components path) [] = Some r" "q = root @ r"
    by blast
  with p show "relative_stack (components path) [] = Some p" by simp
  show "\<forall>k < length p. \<forall>l. fs_lookup fs (take (Suc k) p) \<noteq> Some (Symlink l)"
    using walk p by (auto simp: assert_no_symlink_within_vault_def no_symlink_walk_Ok split: if_splits)
qed

lemma conflict_path_fresh:
  assumes "root \<noteq> []" "find_conflict_path path now st = (Ok cpath, st')"
    and "resolve_vault_path_strict root (ps_fs st) cpath = Ok p"
  shows "fs_read (ps_fs st) p = None"
proof -
  have "\<not> candidate_exists (ps_fs st) cpath"
    using assms(2) by (auto simp: find_conflict_path_def conflict_copy_relative_path_def Let_def result_simps
        split: result.splits option.splits dest: conflict_copy_search_SomeD)
  then have "\<not> fs_exists (ps_fs st) p"
    by (simp add: candidate_exists_def resolve_strict_stack [OF assms(1,3)])
  then show ?thesis using existing_file_exists by fastforce
qed

definition names_path :: "string set \<Rightarrow> fpath \<Rightarrow> bool" where
  "names_path paths p \<longleftrightarrow> (\<exists>path \<in> paths. relative_stack (components path) [] = Some p)"

text \<open>Every file outside a set of paths that was there is still there with its contents.\<close>

definition files_kept :: "string set \<Rightarrow> pull_state \<Rightarrow> pull_state \<Rightarrow> bool" where
  "files_kept paths st st' \<longleftrightarrow>
     (\<forall>p b. fs_read (ps_fs st) p = Some b \<and> \<not> names_path paths p \<longrightarrow> fs_read (ps_fs st') p = Some b)"

lemma write_keeps:
  assumes "root \<noteq> []" "path \<in> paths \<or> (\<forall>p. resolve_vault_path_strict root (ps_fs st) path = Ok p \<longrightarrow> fs_read (ps_fs st) p = None)"
  shows "files_kept paths st (snd (apply_remote_write E root path b st))"
proof -
  obtain r st' where w: "apply_remote_write E root path b st = (r, st')" by fastforce
  show ?thesis
    unfolding files_kept_def
  proof (intro allI impI)
    fix q c
    assume q: "fs_read (ps_fs st) q = Some c \<and> \<not> names_path paths q"
    from remote_write_effect(3) [OF w]
    show "fs_read (ps_fs (snd (apply_remote_write E root path b st))) q = Some c"
    proof (elim disjE exE conjE)
      fix p m
      assume p: "resolve_vault_path_strict root (ps_fs st) path = Ok p"
        and fs: "fs_write p b m (Some (ps_fs st)) = Some (ps_fs st')"
      have "q \<noteq> p"
        using assms(2) q p resolve_strict_stack(1) [OF assms(1) p] by (auto simp: names_path_def)
      with fs_read_write_other [OF fs] q show ?thesis by (simp add: w)
    qed (simp add: w q)
  qed
qed

lemma delete_keeps:
  assumes "root \<noteq> []" "path \<in> paths"
  shows "files_kept paths st (snd (apply_remote_delete E root path st))"
proof -
  obtain r st' where d: "apply_remote_delete E root path st = (r, st')" by fastforce
  show ?thesis
    unfolding files_kept_def
  proof (intro allI impI)
    fix q c
    assume q: "fs_read (ps_fs st) q = Some c \<and> \<not> names_path paths q"
    from remote_delete_effect(3) [OF d]
    show "fs_read (ps_fs (snd (apply_remote_delete E root path st))) q = Some c"
    proof (elim disjE exE conjE)
      fix p
      assume p: "resolve_vault_path_strict root (ps_fs st) path = Ok p"
        and fs: "fs_remove p (ps_fs st) = Ok (ps_fs st')"
      have "q \<noteq> p"
        using assms(2) q resolve_strict_stack(1) [OF assms(1) p] by (auto simp: names_path_def)
      with fs_read_remove [OF fs] q show ?thesis by (simp add: d)
    qed (simp add: d q)
  qed
qed

lemma files_kept_refl: "files_kept paths st st"
  by (simp add: files_kept_def)

lemma files_kept_trans: "files_kept paths st st1 \<Longrightarrow> files_kept paths st1 st2 \<Longrightarrow> files_kept paths st st2"
  by (simp add: files_kept_def)

lemma files_kept_same: "ps_fs st' = ps_fs st \<Longrightarrow> files_kept paths st st'"
  by (simp add: files_kept_def)

interpretation file_effects: pull_effects
  "\<lambda>st st'. pi_vault_root input \<noteq> [] \<longrightarrow> files_kept paths st st'" L E input "\<lambda>path. path \<in> paths"
  for paths and L :: "'z commit_libs_scheme" and E input
proof (unfold_locales, goal_cases)
  case (1 st)
  show ?case by (simp add: files_kept_refl)
next
  case (2 st st1 st2)
  then show ?case using files_kept_trans by blast
next
  case (3 st k)
  show ?case by (simp add: files_kept_same)
next
  case (4 st cf)
  show ?case by (simp add: files_kept_same)
next
  case (5 path st b)
  then show ?case using write_keeps by blast
next
  case (6 path st)
  then show ?case using delete_keeps by blast
next
  case (7 path now st cpath b)
  show ?case
  proof
    assume root: "pi_vault_root input \<noteq> []"
    then show "files_kept paths st (snd (apply_remote_write E (pi_vault_root input) cpath b st))"
      using conflict_path_fresh [OF root 7] by (intro write_keeps) blast+
  qed
next
  case (8 st db)
  show ?case by (simp add: files_kept_same)
qed

text \<open>
  C19. A pull leaves alone what a commit does not name: applying a commit keeps every other file of the vault with its
  contents, also when it fails half way, because conflict copies only ever get fresh names.
\<close>

theorem pull_touches_named_files_only:
  assumes "pi_vault_root input \<noteq> []" "fs_read (ps_fs st) p = Some contents"
    and "\<forall>c \<in> set (bd_changes (dc_body commit)). relative_stack (components (fo_path c)) [] \<noteq> Some p"
  shows "fs_read (ps_fs (snd (apply_decrypted_commit L E input dirty_files commit tree st))) p = Some contents"
proof -
  have "files_kept (fo_path ` set (bd_changes (dc_body commit))) st
      (snd (apply_decrypted_commit L E input dirty_files commit tree st))"
    using file_effects.apply_commit_R [of commit] assms(1) by blast
  with assms(2,3) show ?thesis by (auto simp: files_kept_def names_path_def)
qed

section \<open>What applying one change does to the vault\<close>

lemma remote_write_Ok:
  assumes "pi_vault_root input \<noteq> []" "apply_remote_write E (pi_vault_root input) path b st = (Ok (), st')"
  obtains p where "relative_stack (components path) [] = Some p" "fs_read (ps_fs st') p = Some b"
    "\<And>q. q \<noteq> p \<Longrightarrow> fs_read (ps_fs st') q = fs_read (ps_fs st) q"
    "resolve_vault_path_strict (pi_vault_root input) (ps_fs st) path = Ok p"
proof -
  from remote_write_effect(4) [OF assms(2) refl] obtain p m where
    p: "resolve_vault_path_strict (pi_vault_root input) (ps_fs st) path = Ok p"
    and fs: "fs_write p b m (Some (ps_fs st)) = Some (ps_fs st')" by (elim exE conjE)
  show thesis
    by (rule that [OF resolve_strict_stack(1) [OF assms(1) p] _ _ p])
      (use fs_lookup_write_same [OF fs] fs_read_write_other [OF fs] in \<open>simp_all add: fs_read_def\<close>)
qed

lemma remote_delete_Ok:
  assumes "pi_vault_root input \<noteq> []" "apply_remote_delete E (pi_vault_root input) path st = (Ok (), st')"
  obtains p where "relative_stack (components path) [] = Some p" "fs_read (ps_fs st') p = None"
    "\<And>q. q \<noteq> p \<Longrightarrow> fs_read (ps_fs st') q = fs_read (ps_fs st) q"
proof -
  from remote_delete_effect(4) [OF assms(2) refl] obtain p where
    p: "resolve_vault_path_strict (pi_vault_root input) (ps_fs st) path = Ok p"
    and fs: "fs_remove p (ps_fs st) = Ok (ps_fs st') \<or> fs_remove p (ps_fs st) = Err NotFound \<and> ps_fs st' = ps_fs st"
    by (elim exE conjE)
  show thesis
  proof (rule that [OF resolve_strict_stack(1) [OF assms(1) p]])
    show "fs_read (ps_fs st') p = None"
      using fs fs_read_remove [of p "ps_fs st" "ps_fs st'" p] fs_remove_not_found by auto
    show "fs_read (ps_fs st') q = fs_read (ps_fs st) q" if "q \<noteq> p" for q
      using fs fs_read_remove [of p "ps_fs st" "ps_fs st'" q] that by auto
  qed
qed

lemma conflict_copy_Ok:
  assumes "pi_vault_root input \<noteq> []" "write_conflict_copy L E input path b base header st = (Ok cpath, st')"
  obtains q where "fs_read (ps_fs st) q = None" "fs_read (ps_fs st') q = Some b"
    "\<And>r. r \<noteq> q \<Longrightarrow> fs_read (ps_fs st') r = fs_read (ps_fs st) r"
proof -
  from assms(2) obtain st1 st2 where
    f: "find_conflict_path path (pi_now_ms input) st = (Ok cpath, st1)"
    and w: "apply_remote_write E (pi_vault_root input) cpath b st1 = (Ok (), st2)" and st': "ps_fs st' = ps_fs st2"
    by (auto simp: write_conflict_copy_def result_simps on_db_def Let_def)
  have st1: "st1 = st" using f by (auto simp: find_conflict_path_def split: result.splits option.splits)
  show thesis
  proof (rule remote_write_Ok [OF assms(1) w [unfolded st1]])
    fix q
    assume q: "fs_read (ps_fs st2) q = Some b" "\<And>r. r \<noteq> q \<Longrightarrow> fs_read (ps_fs st2) r = fs_read (ps_fs st) r"
      "resolve_vault_path_strict (pi_vault_root input) (ps_fs st) cpath = Ok q"
    from conflict_path_fresh [OF assms(1) f q(3)] q(1,2) show thesis unfolding st' [symmetric] by (rule that)
  qed
qed

lemma read_local_Ok:
  assumes "read_local_file E root path st = (Ok b, st')"
  shows "st' = st" "\<exists>p. resolve_vault_path_strict root (ps_fs st) path = Ok p \<and> fs_read (ps_fs st) p = Some b"
  using assms by (cases "resolve_vault_path_strict root (ps_fs st) path";
      auto simp: read_local_file_def resolve_remote_path_def checked_def result_simps
        elim: map_err.elims split: option.splits)+

text \<open>
  The contents of a file are safe when it still has them, a fresh file got them, or they were merged into the file a
  change names: by a three-way merge of the version of the last commit applied, the one the vault's tree names, with
  the contents the change brings.
\<close>

definition merged_into ::
  "'z commit_libs_scheme \<Rightarrow> pull_env \<Rightarrow> pull_input \<Rightarrow> tree_map \<Rightarrow> decrypted_commit \<Rightarrow> commit_body_file_op \<Rightarrow> pull_state \<Rightarrow> bytes \<Rightarrow> bytes \<Rightarrow> bool" where
  "merged_into L E input tree commit c st local merged \<longleftrightarrow>
     (\<exists>fid path npath h n ref entry base remote.
        c = UpsertFile fid path npath h n ref \<and> pack_entry_plaintext (dc_packs commit) ref = Ok remote \<and>
        bt_get tree fid = Some entry \<and>
        fst (download_tree_entry_content L E input (tr_commit_id entry) entry st) = Ok (Some base) \<and>
        merge_markdown base local remote = Ok (Merged merged))"

definition contents_safe ::
  "(bytes \<Rightarrow> bytes \<Rightarrow> bool) \<Rightarrow> fnode \<Rightarrow> fnode \<Rightarrow> fpath \<Rightarrow> bytes \<Rightarrow> string \<Rightarrow> bool" where
  "contents_safe merges fs fs' p b path \<longleftrightarrow>
     fs_read fs' p = Some b \<or>
     (\<exists>q. fs_read fs q = None \<and> fs_read fs' q = Some b) \<or>
     (\<exists>q merged. relative_stack (components path) [] = Some q \<and> merges b merged \<and> fs_read fs' q = Some merged)"

lemma keep_copy_safe:
  assumes "pi_vault_root input \<noteq> []" "keep_copy L E input path b base header st = (Ok action, st')"
    and "fs_read (ps_fs st) p = Some local"
  shows "fs_read (ps_fs st') p = Some local"
proof -
  from assms(2) obtain cpath where "write_conflict_copy L E input path b base header st = (Ok cpath, st')"
    by (auto simp: keep_copy_def result_simps)
  then obtain q where "fs_read (ps_fs st) q = None" "\<And>r. r \<noteq> q \<Longrightarrow> fs_read (ps_fs st') r = fs_read (ps_fs st) r"
    by (metis conflict_copy_Ok [OF assms(1)])
  with assms(3) show ?thesis by (metis option.distinct(1))
qed

lemma checked_Ok: "checked r st = (Ok a, st') \<longleftrightarrow> r = Ok a \<and> st' = st"
  by (cases r) (auto simp: checked_def)

lemma on_db_Ok: "on_db f st = (Ok a, st') \<longleftrightarrow> (\<exists>db. f (ps_db st) = (Ok a, db) \<and> st' = st\<lparr>ps_db := db\<rparr>)"
proof -
  obtain r db where f: "f (ps_db st) = (r, db)" by fastforce
  then show ?thesis by (cases r) (auto simp: on_db_def)
qed

lemma on_downloads_fs: "on_downloads f st = (r, st') \<Longrightarrow> ps_fs st' = ps_fs st \<and> ps_db st' = ps_db st"
  by (auto simp: on_downloads_def Let_def split: prod.splits)

lemma tree_content_fs:
  assumes "download_tree_entry_content L E input c entry st = (Ok content, st')"
  shows "ps_fs st' = ps_fs st"
  using assms
  by (auto simp: download_tree_entry_content_def result_simps checked_Ok dest!: on_downloads_fs
      split: option.splits)

lemma merge_upsert_safe:
  assumes root: "pi_vault_root input \<noteq> []" and live: "\<not> deleted row"
    and merge: "merge_remote_upsert L E input header base row path remote st = (Ok action, st')"
    and p: "resolve_vault_path_strict (pi_vault_root input) (ps_fs st) (fr_path row) = Ok p"
    and local: "fs_read (ps_fs st) p = Some local"
    and merges: "\<And>entry base_plaintext merged. base = Some entry \<Longrightarrow>
      fst (download_tree_entry_content L E input (tr_commit_id entry) entry st) = Ok (Some base_plaintext) \<Longrightarrow>
      merge_markdown base_plaintext local remote = Ok (Merged merged) \<Longrightarrow> merges local merged"
  shows "contents_safe merges (ps_fs st) (ps_fs st') p local path"
proof -
  from merge live obtain lp st1 where r: "read_local_file E (pi_vault_root input) (fr_path row) st = (Ok lp, st1)"
    and rest: "(case base of
          None \<Rightarrow> keep_copy L E input path remote None header st1
        | Some base \<Rightarrow>
            try_then (download_tree_entry_content L E input (tr_commit_id base) base st1) (\<lambda>content st.
            case content of
              None \<Rightarrow> keep_copy L E input path remote (Some (tr_commit_id base)) header st
            | Some base_plaintext \<Rightarrow>
                try_then (checked (merge_markdown base_plaintext lp remote) st) (\<lambda>outcome st.
                case outcome of
                  Merged merged \<Rightarrow>
                    try_then (apply_remote_write E (pi_vault_root input) path merged st) (\<lambda>_ st.
                      (Ok (if merged = remote then AppliedRemote else KeptLocalDirty), st))
                | Conflict \<Rightarrow> keep_copy L E input path remote (Some (tr_commit_id base)) header st))) = (Ok action, st')"
    by (auto simp: merge_remote_upsert_def result_simps)
  from read_local_Ok [OF r] p local have st1: "st1 = st" and lp: "lp = local" by auto
  have kept: ?thesis if "keep_copy L E input path remote b header st2 = (Ok action, st')" "ps_fs st2 = ps_fs st" for b st2
    using keep_copy_safe [OF root that(1)] local that(2) by (simp add: contents_safe_def)
  show ?thesis
  proof (cases base)
    case None
    with rest st1 kept show ?thesis by simp
  next
    case (Some entry)
    with rest st1 obtain content st2 where d: "download_tree_entry_content L E input (tr_commit_id entry) entry st = (Ok content, st2)"
      and rest: "(case content of
              None \<Rightarrow> keep_copy L E input path remote (Some (tr_commit_id entry)) header st2
            | Some base_plaintext \<Rightarrow>
                try_then (checked (merge_markdown base_plaintext lp remote) st2) (\<lambda>outcome st.
                case outcome of
                  Merged merged \<Rightarrow>
                    try_then (apply_remote_write E (pi_vault_root input) path merged st) (\<lambda>_ st.
                      (Ok (if merged = remote then AppliedRemote else KeptLocalDirty), st))
                | Conflict \<Rightarrow> keep_copy L E input path remote (Some (tr_commit_id entry)) header st)) = (Ok action, st')"
      by (auto simp: result_simps)
    note fs2 = tree_content_fs [OF d]
    show ?thesis
    proof (cases content)
      case None
      with rest fs2 kept show ?thesis by simp
    next
      case (Some base_plaintext)
      with rest obtain outcome where m: "merge_markdown base_plaintext local remote = Ok outcome"
        and rest: "(case outcome of
                  Merged merged \<Rightarrow>
                    try_then (apply_remote_write E (pi_vault_root input) path merged st2) (\<lambda>_ st.
                      (Ok (if merged = remote then AppliedRemote else KeptLocalDirty), st))
                | Conflict \<Rightarrow> keep_copy L E input path remote (Some (tr_commit_id entry)) header st2) = (Ok action, st')"
        by (auto simp: result_simps checked_Ok lp)
      show ?thesis
      proof (cases outcome)
        case (Merged merged)
        with rest have "apply_remote_write E (pi_vault_root input) path merged st2 = (Ok (), st')"
          by (auto simp: result_simps)
        then show ?thesis
          by (rule remote_write_Ok [OF root])
            (use m Merged merges [OF \<open>base = Some entry\<close>, of base_plaintext merged] d Some in \<open>auto simp: contents_safe_def\<close>)
      next
        case Conflict
        with rest fs2 kept show ?thesis by simp
      qed
    qed
  qed
qed

lemma merge_delete_safe:
  assumes root: "pi_vault_root input \<noteq> []" and live: "\<not> deleted row"
    and merge: "merge_remote_delete L E input header (Some row) path st = (Ok action, st')"
    and p: "resolve_vault_path_strict (pi_vault_root input) (ps_fs st) (fr_path row) = Ok p"
    and local: "fs_read (ps_fs st) p = Some local"
  shows "contents_safe merges (ps_fs st) (ps_fs st') p local path"
proof -
  from merge live obtain lp st1 cpath st2 where r: "read_local_file E (pi_vault_root input) (fr_path row) st = (Ok lp, st1)"
    and w: "write_conflict_copy L E input path lp None header st1 = (Ok cpath, st2)"
    and d: "apply_remote_delete E (pi_vault_root input) path st2 = (Ok (), st')"
    by (auto simp: merge_remote_delete_def result_simps)
  from read_local_Ok [OF r] p local have st1: "st1 = st" and lp: "lp = local" by auto
  from w st1 lp obtain q where q: "fs_read (ps_fs st) q = None" "fs_read (ps_fs st2) q = Some local"
    "\<And>r. r \<noteq> q \<Longrightarrow> fs_read (ps_fs st2) r = fs_read (ps_fs st) r"
    by (metis conflict_copy_Ok [OF root])
  from d obtain t where t: "fs_read (ps_fs st') t = None" "\<And>r. r \<noteq> t \<Longrightarrow> fs_read (ps_fs st') r = fs_read (ps_fs st2) r"
    by (metis remote_delete_Ok [OF root])
  show ?thesis
  proof (cases "t = q")
    case True
    with q t local have "fs_read (ps_fs st') p = Some local" by (metis option.distinct(1))
    then show ?thesis by (simp add: contents_safe_def)
  next
    case False
    with q t have "fs_read (ps_fs st') q = Some local" by simp
    with q(1) show ?thesis by (auto simp: contents_safe_def)
  qed
qed

text \<open>
  C17. A pull never destroys an edit that was not synced yet: when a change of a remote commit meets a file with local
  edits and is applied, the local contents are still in the file, or in a new file made for them, or the file the change
  names holds the line-wise merge of three versions: the one the vault's tree names, downloaded, the local one and
  the one the change brings.
\<close>

theorem local_edits_survive_pull:
  assumes "pi_vault_root input \<noteq> []"
    and "apply_change L E input dirty_files commit c (tree, synced) st = (Ok acc', st')"
    and "bt_get dirty_files (fo_file_id c) = Some row" "\<not> deleted row"
    and "resolve_vault_path_strict (pi_vault_root input) (ps_fs st) (fr_path row) = Ok p"
    and "fs_read (ps_fs st) p = Some local"
  shows "contents_safe (merged_into L E input tree commit c st) (ps_fs st) (ps_fs st') p local (fo_path c)"
proof (cases c)
  case (UpsertFile fid path npath h n r)
  with assms(2,3) obtain remote action where remote: "pack_entry_plaintext (dc_packs commit) r = Ok remote"
    and merge: "merge_remote_upsert L E input (dc_header commit) (bt_get tree fid) row path remote st = (Ok action, st')"
    by (auto simp: result_simps checked_Ok)
  have "contents_safe (merged_into L E input tree commit c st) (ps_fs st) (ps_fs st') p local path"
    by (rule merge_upsert_safe [OF assms(1,4) merge assms(5,6)]) (use remote UpsertFile in \<open>auto simp: merged_into_def\<close>)
  then show ?thesis by (simp add: UpsertFile)
next
  case (DeleteFile fid path npath)
  with assms(2,3) obtain action where
    "merge_remote_delete L E input (dc_header commit) (Some row) path st = (Ok action, st')"
    by (auto simp: result_simps checked_Ok)
  from merge_delete_safe [OF assms(1,4) this assms(5,6)] show ?thesis by (simp add: DeleteFile)
qed

text \<open>
  A file without local edits follows the remote: after an upsert the file the change names has contents of the
  announced hash and size, after a delete it is gone, and the file is recorded as synced.
\<close>

theorem clean_files_follow_remote:
  assumes "pi_vault_root input \<noteq> []" "bt_get dirty_files (fo_file_id c) = None"
    and "apply_change L E input dirty_files commit c (tree, synced) st = (Ok (tree', synced'), st')"
  shows "\<exists>p. relative_stack (components (fo_path c)) [] = Some p \<and>
    (case c of
       UpsertFile fid path npath h n ref \<Rightarrow>
         \<exists>contents. fs_read (ps_fs st') p = Some contents \<and> blake3_hex L contents = h \<and> int (length contents) = n
     | DeleteFile fid path npath \<Rightarrow> fs_read (ps_fs st') p = None) \<and>
    synced' = synced @ [fo_file_id c]"
proof (cases c)
  case (UpsertFile fid path npath h n ref)
  with assms(2,3) obtain contents where
    v: "validate_plaintext_metadata L path contents h n = Ok ()" and s: "synced' = synced @ [fid]"
    and w: "apply_remote_write E (pi_vault_root input) path contents st = (Ok (), st')"
    by (auto simp: result_simps checked_Ok synced_after_def)
  from v have "blake3_hex L contents = h" "int (length contents) = n"
    by (simp_all add: validate_plaintext_metadata_def split: if_splits)
  with s show ?thesis
    by - (rule remote_write_Ok [OF assms(1) w], auto simp: UpsertFile)
next
  case (DeleteFile fid path npath)
  with assms(2,3) have s: "synced' = synced @ [fid]"
    and d: "apply_remote_delete E (pi_vault_root input) path st = (Ok (), st')"
    by (auto simp: result_simps checked_Ok synced_after_def merge_remote_delete_def)
  then show ?thesis
    by - (rule remote_delete_Ok [OF assms(1) d], auto simp: DeleteFile)
qed

section \<open>Where a successful pull ends\<close>

interpretation vault_effects: change_effects
  "\<lambda>st st'. sync_vaults (ps_db st') = sync_vaults (ps_db st)" L E input "\<lambda>_. True"
  for L :: "'z commit_libs_scheme" and E input
proof (unfold_locales, goal_cases)
  case (5 path st b)
  show ?case using remote_write_effect(1) by (metis prod.collapse)
next
  case (6 path st)
  show ?case using remote_delete_effect(1) by (metis prod.collapse)
next
  case (7 path now st cpath b)
  show ?case using remote_write_effect(1) by (metis prod.collapse)
qed (simp_all add: upsert_conflict_def)

lemma refresh_scan_db:
  assumes "refresh_local_scan L input st = (r, st')"
  shows "ps_db st' = (ps_db st)\<lparr>sync_files := sync_files (ps_db st')\<rparr>"
proof (cases "scan_vault (to_lowercase L) (blake3_hex L) (pi_vault_root input) (ps_fs st)")
  case (Err e)
  with assms show ?thesis by (auto simp: refresh_local_scan_def checked_def)
next
  case (Ok files)
  obtain x db' where a: "apply_scan (blake3_hex L) (map file_input files) (pi_now_ms input) (ps_db st) = (x, db')"
    by fastforce
  have "st' = st\<lparr>ps_db := db'\<rparr>"
    using assms Ok a by (cases x) (auto simp: refresh_local_scan_def checked_def on_db_def)
  with apply_scan_other [OF a] show ?thesis by simp
qed

lemma sorted_entries_of_tree: "sorted (map tr_normalized_path (entries_of_tree t))"
  by (simp add: entries_of_tree_def)

lemma persist_applied_commit_Ok:
  assumes "persist_applied_commit L input commit tree synced st = (Ok (), st')"
    and "get_vault (ps_db st) (pi_vault_id input) = Some v"
  shows "get_vault (ps_db st') (pi_vault_id input) =
      Some (v\<lparr>vr_remote_head_commit_id := Some (ch_commit_id (dc_header commit)),
        vr_local_head_commit_id := Some (ch_commit_id (dc_header commit)), vr_updated_at_ms := pi_now_ms input\<rparr>)"
    and "list_tree_entries (ps_db st') (ch_commit_id (dc_header commit)) = entries_of_tree tree"
    and "tree_id_for_entries L (entries_of_tree tree) = bd_tree_id (dc_body commit)"
proof -
  let ?c = "ch_commit_id (dc_header commit)"
  let ?es = "entries_of_tree tree"
  from assms(1) obtain db1 st2 r where valid: "validate_tree_id L (bd_tree_id (dc_body commit)) ?es = Ok ()"
    and db1: "persist_tree_cache ?c (bd_tree_id (dc_body commit)) (tree_json_for_entries L ?es) ''remote'' ?es
      (pi_now_ms input) (ps_db st) = (Ok (), db1)"
    and scan: "refresh_local_scan L input (st\<lparr>ps_db := db1\<rparr>) = (Ok (), st2)"
    and db': "ps_db st' = update_vault_after_pull (pi_vault_id input) ?c (pi_now_ms input)
      (upsert_local_commit r (mark_files_synced ?c synced (ps_db st2)))"
    by (auto simp: persist_applied_commit_def Let_def try_then_eq_Ok checked_Ok on_db_Ok)
  obtain files where "ps_db st2 = db1\<lparr>sync_files := files\<rparr>" using refresh_scan_db [OF scan] by simp
  then have db2: "sync_vaults (ps_db st2) = sync_vaults db1" "sync_tree_entries (ps_db st2) = sync_tree_entries db1"
    by simp_all
  show "get_vault (ps_db st') (pi_vault_id input) =
      Some (v\<lparr>vr_remote_head_commit_id := Some ?c, vr_local_head_commit_id := Some ?c, vr_updated_at_ms := pi_now_ms input\<rparr>)"
    using assms(2) persist_tree_cache_other [OF db1]
    by (simp add: db' get_vault_def update_vault_after_pull_def upsert_local_commit_def mark_files_synced_other db2
        find_row_update_rows)
  show "list_tree_entries (ps_db st') ?c = ?es"
    using list_tree_entries_stored [OF db1 sorted_entries_of_tree]
    by (simp add: db' list_tree_entries_def update_vault_after_pull_def upsert_local_commit_def
        mark_files_synced_other db2)
  show "tree_id_for_entries L ?es = bd_tree_id (dc_body commit)"
    using valid by (simp add: validate_tree_id_def Let_def split: if_splits)
qed

lemma on_downloads_Ok:
  "on_downloads f st = (Ok a, st') \<longleftrightarrow> (\<exists>k. f (ps_downloads st) = (Ok a, k) \<and> st' = st\<lparr>ps_downloads := k\<rparr>)"
proof -
  obtain r k where f: "f (ps_downloads st) = (r, k)" by fastforce
  then show ?thesis by (cases r) (auto simp: on_downloads_def)
qed

text \<open>What a replayed commit leaves behind: both heads of the vault at the commit, and its tree with the right identifier.\<close>

definition at_commit ::
    "'z commit_libs_scheme \<Rightarrow> pull_env \<Rightarrow> pull_input \<Rightarrow> sync_commit_header \<Rightarrow> sync_db \<Rightarrow> bool" where
  "at_commit L E input header db \<longleftrightarrow>
     (\<exists>vault. get_vault db (pi_vault_id input) = Some vault \<and>
        vr_local_head_commit_id vault = Some (ch_commit_id header) \<and>
        vr_remote_head_commit_id vault = Some (ch_commit_id header)) \<and>
     (\<exists>commit k k'. decrypt_commit L (pe_net E) (pe_queue E) (pi_workspace_id input) (pi_device_id input)
          (pi_workspace_key input) header k = (Ok commit, k') \<and>
        tree_id_for_entries L (list_tree_entries db (ch_commit_id header)) = bd_tree_id (dc_body commit))"

lemma apply_decrypted_commit_Ok:
  assumes "apply_decrypted_commit L E input dirty_files commit tree st = (Ok acc, st')"
    and "get_vault (ps_db st) (pi_vault_id input) = Some v"
  shows "\<exists>vault. get_vault (ps_db st') (pi_vault_id input) = Some vault \<and>
      vr_local_head_commit_id vault = Some (ch_commit_id (dc_header commit)) \<and>
      vr_remote_head_commit_id vault = Some (ch_commit_id (dc_header commit))"
    and "tree_id_for_entries L (list_tree_entries (ps_db st') (ch_commit_id (dc_header commit))) =
      bd_tree_id (dc_body commit)"
proof -
  let ?tree = "if ch_commit_kind (dc_header commit) = COMMIT_KIND_CHECKPOINT then [] else tree"
  from assms(1) obtain tree' synced st1 where
    changes: "fold_try (apply_change L E input dirty_files commit) (bd_changes (dc_body commit)) (?tree, []) st =
      (Ok (tree', synced), st1)"
    and persist: "persist_applied_commit L input commit tree' synced st1 = (Ok (), st')"
    by (auto simp: apply_decrypted_commit_def Let_def try_then_eq_Ok)
  have "sync_vaults (ps_db (snd (fold_try (apply_change L E input dirty_files commit) (bd_changes (dc_body commit))
      (?tree, []) st))) = sync_vaults (ps_db st)"
    by (rule vault_effects.apply_changes_R) simp
  then have "sync_vaults (ps_db st1) = sync_vaults (ps_db st)" by (simp add: changes)
  with assms(2) have "get_vault (ps_db st1) (pi_vault_id input) = Some v" by (simp add: get_vault_def)
  note applied = persist_applied_commit_Ok [OF persist this]
  show "\<exists>vault. get_vault (ps_db st') (pi_vault_id input) = Some vault \<and>
      vr_local_head_commit_id vault = Some (ch_commit_id (dc_header commit)) \<and>
      vr_remote_head_commit_id vault = Some (ch_commit_id (dc_header commit))"
    unfolding applied(1) by simp
  show "tree_id_for_entries L (list_tree_entries (ps_db st') (ch_commit_id (dc_header commit))) = bd_tree_id (dc_body commit)"
    by (simp add: applied(2,3))
qed

lemma replay_commit_Ok:
  assumes "replay_commit L E input dirty_files header (tree, applied) st = (Ok (tree', applied'), st')"
    and "get_vault (ps_db st) (pi_vault_id input) = Some v"
  shows "applied' = applied @ [ch_commit_id header]" "at_commit L E input header (ps_db st')"
proof -
  from assms(1) obtain commit k where
    d: "decrypt_commit L (pe_net E) (pe_queue E) (pi_workspace_id input) (pi_device_id input)
          (pi_workspace_key input) header (ps_downloads st) = (Ok commit, k)"
    and a: "\<exists>synced. apply_decrypted_commit L E input dirty_files commit tree (st\<lparr>ps_downloads := k\<rparr>) = (Ok (tree', synced), st')"
    and applied: "applied' = applied @ [ch_commit_id (dc_header commit)]"
    by (auto simp: replay_commit_def try_then_eq_Ok on_downloads_Ok)
  have h: "dc_header commit = header" by (rule decrypt_commit_Ok [OF d])
  from a obtain synced where a: "apply_decrypted_commit L E input dirty_files commit tree (st\<lparr>ps_downloads := k\<rparr>) = (Ok (tree', synced), st')" ..
  show "applied' = applied @ [ch_commit_id header]" using applied h by simp
  show "at_commit L E input header (ps_db st')"
    unfolding at_commit_def
    using apply_decrypted_commit_Ok [OF a, of v] assms(2) d by (auto simp: h)
qed

lemma replay_commits_Ok:
  assumes "fold_try (replay_commit L E input dirty_files) headers (tree, applied) st = (Ok (tree', applied'), st')"
    and "get_vault (ps_db st) (pi_vault_id input) = Some v" "headers \<noteq> []"
  shows "applied' = applied @ map ch_commit_id headers \<and> at_commit L E input (last headers) (ps_db st')"
  using assms
proof (induction headers arbitrary: tree applied st v)
  case (Cons h hs)
  from Cons.prems(1) obtain t1 a1 st1 where
    step: "replay_commit L E input dirty_files h (tree, applied) st = (Ok (t1, a1), st1)"
    and rest: "fold_try (replay_commit L E input dirty_files) hs (t1, a1) st1 = (Ok (tree', applied'), st')"
    by (auto simp: try_then_eq_Ok)
  note one = replay_commit_Ok [OF step Cons.prems(2)]
  then obtain v1 where v1: "get_vault (ps_db st1) (pi_vault_id input) = Some v1" by (auto simp: at_commit_def)
  show ?case
  proof (cases "hs = []")
    case True
    with rest one show ?thesis by simp
  next
    case False
    with Cons.IH [OF rest v1] one show ?thesis by simp
  qed
qed simp

lemma replay_selected_Ok:
  assumes "replay_selected L E input vault commits selection st = (Ok r, st')"
    and "get_vault (ps_db st) (pi_vault_id input) = Some v" "rs_commits selection \<noteq> []"
  shows "applied_commits r = map ch_commit_id (rs_commits selection) \<and>
    at_commit L E input (last (rs_commits selection)) (ps_db st')"
proof -
  from assms(1) obtain st1 dirty_files tree k tree' where
    scan: "refresh_local_scan L input st = (Ok (), st1)"
    and loop: "fold_try (replay_commit L E input dirty_files) (rs_commits selection) (tree, [])
      (st1\<lparr>ps_downloads := k\<rparr>) = (Ok (tree', applied_commits r), st')"
    by (auto simp: replay_selected_def Let_def try_then_eq_Ok on_downloads_Ok)
  obtain files where "ps_db st1 = (ps_db st)\<lparr>sync_files := files\<rparr>" using refresh_scan_db [OF scan] by simp
  then have "get_vault (ps_db (st1\<lparr>ps_downloads := k\<rparr>)) (pi_vault_id input) = Some v"
    using assms(2) by (simp add: get_vault_def)
  from replay_commits_Ok [OF loop this assms(3)] show ?thesis by simp
qed

text \<open>
  C18. A successful pull brings the vault to the server's head: the commits applied are exactly the ones selected from
  the listed history, in order; afterwards both heads of the vault are the server's head, and when
  commits were applied, the tree cached for the head hashes to the identifier in the head's body.
\<close>

theorem pull_reaches_head:
  assumes "pull_remote_changes L E input st = (Ok r, st')"
  shows "\<exists>head vault. pn_get_head (pe_net E) (pi_workspace_id input) = Ok head \<and>
    get_vault (ps_db st') (pi_vault_id input) = Some vault \<and>
    (current_head_commit_id head \<noteq> [] \<longrightarrow>
       vr_local_head_commit_id vault = Some (current_head_commit_id head) \<and>
       vr_remote_head_commit_id vault = Some (current_head_commit_id head)) \<and>
    (applied_commits r \<noteq> [] \<longrightarrow>
       (\<exists>commits selection. list_all_commits (pe_net E) (pi_workspace_id input) = Ok commits \<and>
          select_replay_commits (fst (ensure_pull_vault_record input head (ps_db st))) head commits = Ok selection \<and>
          applied_commits r = map ch_commit_id (rs_commits selection) \<and>
          last (applied_commits r) = current_head_commit_id head \<and>
          at_commit L E input (last (rs_commits selection)) (ps_db st')))"
proof -
  from assms obtain head where head: "pn_get_head (pe_net E) (pi_workspace_id input) = Ok head"
    by (auto simp: pull_remote_changes_def try_then_eq_Ok checked_Ok)
  let ?v = "fst (ensure_pull_vault_record input head (ps_db st))"
  let ?st = "st\<lparr>ps_db := snd (ensure_pull_vault_record input head (ps_db st))\<rparr>"
  have vid: "vr_vault_id ?v = pi_vault_id input"
    by (auto simp: ensure_pull_vault_record_def Let_def get_vault_def split: option.split dest: find_row_Some)
  have remote: "vr_remote_head_commit_id ?v = empty_to_none (current_head_commit_id head)"
    by (simp add: ensure_pull_vault_record_def Let_def)
  have upserted: "snd (ensure_pull_vault_record input head (ps_db st)) = upsert_vault ?v (ps_db st)"
    by (simp add: ensure_pull_vault_record_def Let_def)
  obtain t where v: "get_vault (ps_db ?st) (pi_vault_id input) = Some (?v\<lparr>vr_created_at_ms := t\<rparr>)"
    using get_upserted_vault [of ?v "ps_db st"] by (auto simp: vid upserted)
  show ?thesis
  proof (cases "current_head_commit_id head = []")
    case True
    with assms head have "r = nothing_applied \<and> st' = ?st"
      by (auto simp: pull_remote_changes_def try_then_eq_Ok checked_Ok on_db_Ok split: prod.splits)
    with head v True show ?thesis by (auto simp: nothing_applied_def)
  next
    case False
    with assms head obtain commits selection where
      list: "list_all_commits (pe_net E) (pi_workspace_id input) = Ok commits"
      and select: "select_replay_commits ?v head commits = Ok selection"
      and rest: "(if rs_commits selection = [] then (Ok nothing_applied, ?st)
        else replay_selected L E input ?v commits selection ?st) = (Ok r, st')"
      by (cases "ensure_pull_vault_record input head (ps_db st)")
        (auto simp: pull_remote_changes_def try_then_eq_Ok checked_Ok on_db_Ok cong: if_cong)
    have sel: "if rs_commits selection = []
      then vr_local_head_commit_id ?v = Some (current_head_commit_id head)
      else ch_commit_id (last (rs_commits selection)) = current_head_commit_id head"
      using select False
      by (auto simp: select_replay_commits_def Let_def result_simps split: if_splits option.splits)
    show ?thesis
    proof (cases "rs_commits selection = []")
      case True
      with rest have "r = nothing_applied" "st' = ?st" by auto
      with head v sel True remote False show ?thesis by (auto simp: nothing_applied_def empty_to_none_def)
    next
      case nonempty: False
      with rest have run: "replay_selected L E input ?v commits selection ?st = (Ok r, st')" by simp
      from replay_selected_Ok [OF run v nonempty]
      have r: "applied_commits r = map ch_commit_id (rs_commits selection)"
        and at: "at_commit L E input (last (rs_commits selection)) (ps_db st')" by simp_all
      from r sel nonempty have last: "last (applied_commits r) = current_head_commit_id head" by (simp add: last_map)
      from at sel nonempty obtain vault where "get_vault (ps_db st') (pi_vault_id input) = Some vault"
        "vr_local_head_commit_id vault = Some (current_head_commit_id head)"
        "vr_remote_head_commit_id vault = Some (current_head_commit_id head)"
        by (auto simp: at_commit_def)
      with head list select r last at show ?thesis by blast
    qed
  qed
qed

section \<open>Examples\<close>

definition sample_pull_input :: pull_input where
  "sample_pull_input =
     \<lparr>pi_vault_id = ''v'', pi_vault_root = [''v''], pi_workspace_id = ''w'', pi_device_id = ''e'',
      pi_workspace_key = replicate 32 CHR ''k'', pi_now_ms = 7\<rparr>"

definition sample_pull_env :: pull_env where
  "sample_pull_env =
     \<lparr>pe_net = \<lparr>pn_get_head = (\<lambda>w. Ok \<lparr>current_head_commit_id = [], head_version = 0,
          latest_checkpoint_commit_id = []\<rparr>),
        pn_list_commits = (\<lambda>w after n. Ok \<lparr>lc_commits = [], lc_has_more = False, lc_next_after_server_seq = 0\<rparr>),
        pn_transfer = (\<lambda>k. working_net)\<rparr>,
      pe_queue = \<lparr>max_upload_concurrency = 1, max_download_concurrency = 1, max_attempts = 2, initial_backoff = 0\<rparr>,
      pe_instant = int, pe_mtime = int, pe_search_answer = (\<lambda>k. Ok ()), pe_io_text = ''io''\<rparr>"

definition sample_pull_state :: pull_state where
  "sample_pull_state =
     \<lparr>ps_db = empty_db, ps_fs = Dir [(''a.md'', File ''mine'' 1), (''b.md'', File ''y'' 1)],
      ps_ledger = Some empty_ledger, ps_search = Some [], ps_downloads = 0, ps_writes = 0\<rparr>"

definition sample_change :: commit_body_file_op where
  "sample_change = UpsertFile ''file_a0md'' ''a.md'' ''a.md'' ''x'' 1 \<lparr>ref_object_id = ''o'', ref_entry_id = ''e''\<rparr>"

definition sample_pulled :: decrypted_commit where
  "sample_pulled =
     \<lparr>dc_header = \<lparr>ch_commit_id = ''c1'', ch_commit_kind = COMMIT_KIND_CHECKPOINT, ch_expected_head_commit_id = [],
        ch_parent_commit_ids = [], ch_author_device_id = ''d'', ch_device_seq = 1, ch_body_object_id = ''b'',
        ch_body_ciphertext_sha256 = [], ch_body_size_bytes = 0, ch_referenced_object_ids = [''o''],
        ch_signature = [], ch_server_seq = 1\<rparr>,
      dc_body = \<lparr>bd_format = ''kuku.sync.commit-body'', bd_version = 1, bd_commit_id = ''c1'',
        bd_commit_kind = ''checkpoint'', bd_parent_commit_ids = [], bd_tree_id = [],
        bd_changes = [sample_change], bd_packs = []\<rparr>,
      dc_packs = [(''o'', \<lparr>up_index = \<lparr>px_format = [], px_version = 1, px_pack_id = ''o'', px_entries = []\<rparr>,
        up_entries = [(''e'', ''x'')]\<rparr>)]\<rparr>"

definition sample_dirty :: sync_file_record where
  "sample_dirty = \<lparr>file_id = ''file_a0md'', fr_path = ''a.md'', normalized_path = ''a.md'', fr_kind = FILE_KIND_MARKDOWN,
     fr_plaintext_hash = Some ''mine'', fr_size_bytes = Some 4, fr_mtime_ms = Some 1, last_synced_commit_id = None,
     dirty = True, deleted = False\<rparr>"

lemma sample_changes_applied:
  "is_ok (fst (apply_change sample_commit_libs sample_pull_env sample_pull_input [] sample_pulled sample_change
     ([], []) sample_pull_state))"
  "is_ok (fst (apply_change sample_commit_libs sample_pull_env sample_pull_input [(''file_a0md'', sample_dirty)]
     sample_pulled sample_change ([], []) sample_pull_state))"
  by code_simp+

lemma is_ok_fst: "is_ok (fst m) \<Longrightarrow> \<exists>a s. m = (Ok a, s)"
  by (cases m) (auto simp: is_ok_iff)

lemma sample_root: "pi_vault_root sample_pull_input = [''v'']"
  by (simp add: sample_pull_input_def)

theorem pull_keeps_db_wf_witness:
  "db_wf (ps_db (snd (pull_remote_changes sample_commit_libs sample_pull_env sample_pull_input sample_pull_state)))"
  by (rule pull_keeps_db_wf) (simp add: sample_pull_state_def db_wf_empty)

theorem pull_touches_named_files_only_witness:
  "fs_read (ps_fs (snd (apply_decrypted_commit sample_commit_libs sample_pull_env sample_pull_input [] sample_pulled []
     sample_pull_state))) [''b.md''] = Some ''y''"
proof (rule pull_touches_named_files_only)
  show "pi_vault_root sample_pull_input \<noteq> []" by (simp add: sample_root)
  show "fs_read (ps_fs sample_pull_state) [''b.md''] = Some ''y''" by code_simp
  have "relative_stack (components ''a.md'') [] = Some [''a.md'']" by code_simp
  then show "\<forall>c \<in> set (bd_changes (dc_body sample_pulled)). relative_stack (components (fo_path c)) [] \<noteq> Some [''b.md'']"
    by (simp add: sample_pulled_def sample_change_def)
qed

theorem local_edits_survive_pull_witness:
  "\<exists>st'. (\<exists>acc. apply_change sample_commit_libs sample_pull_env sample_pull_input [(''file_a0md'', sample_dirty)]
      sample_pulled sample_change ([], []) sample_pull_state = (Ok acc, st')) \<and>
    contents_safe (merged_into sample_commit_libs sample_pull_env sample_pull_input [] sample_pulled sample_change sample_pull_state)
      (ps_fs sample_pull_state) (ps_fs st') [''a.md''] ''mine'' (fo_path sample_change)"
proof -
  obtain acc st' where run: "apply_change sample_commit_libs sample_pull_env sample_pull_input
      [(''file_a0md'', sample_dirty)] sample_pulled sample_change ([], []) sample_pull_state = (Ok acc, st')"
    using is_ok_fst [OF sample_changes_applied(2)] by (elim exE)
  have "contents_safe (merged_into sample_commit_libs sample_pull_env sample_pull_input [] sample_pulled sample_change sample_pull_state)
      (ps_fs sample_pull_state) (ps_fs st') [''a.md''] ''mine'' (fo_path sample_change)"
  proof (rule local_edits_survive_pull [OF _ run])
    show "pi_vault_root sample_pull_input \<noteq> []" by (simp add: sample_root)
    show "bt_get [(''file_a0md'', sample_dirty)] (fo_file_id sample_change) = Some sample_dirty" "\<not> deleted sample_dirty"
      by (simp_all add: bt_get_def sample_change_def sample_dirty_def)
    show "resolve_vault_path_strict (pi_vault_root sample_pull_input) (ps_fs sample_pull_state) (fr_path sample_dirty) =
        Ok [''a.md'']" "fs_read (ps_fs sample_pull_state) [''a.md''] = Some ''mine''"
      by code_simp+
  qed
  with run show ?thesis by (intro exI conjI)
qed

theorem clean_files_follow_remote_witness:
  "\<exists>st'. (\<exists>acc. apply_change sample_commit_libs sample_pull_env sample_pull_input [] sample_pulled sample_change
      ([], []) sample_pull_state = (Ok acc, st')) \<and>
    (\<exists>p. relative_stack (components ''a.md'') [] = Some p \<and> (\<exists>contents. fs_read (ps_fs st') p = Some contents))"
proof -
  obtain tree' synced' st' where run: "apply_change sample_commit_libs sample_pull_env sample_pull_input [] sample_pulled
      sample_change ([], []) sample_pull_state = (Ok (tree', synced'), st')"
    using is_ok_fst [OF sample_changes_applied(1)] by (elim exE) (metis prod.collapse)
  have path: "fo_path sample_change = ''a.md''" by (simp add: sample_change_def)
  have root: "pi_vault_root sample_pull_input \<noteq> []" by (simp add: sample_root)
  have clean: "bt_get [] (fo_file_id sample_change) = None" by (simp add: bt_get_def)
  obtain p where p: "relative_stack (components (fo_path sample_change)) [] = Some p"
    and "case sample_change of
       UpsertFile fid path npath h n ref \<Rightarrow>
         \<exists>contents. fs_read (ps_fs st') p = Some contents \<and> blake3_hex sample_commit_libs contents = h \<and> int (length contents) = n
     | DeleteFile fid path npath \<Rightarrow> fs_read (ps_fs st') p = None"
    using clean_files_follow_remote [OF root clean run] by (elim exE conjE)
  then obtain contents where "fs_read (ps_fs st') p = Some contents" by (auto simp: sample_change_def)
  with run p show ?thesis unfolding path by (intro exI [of _ st'] conjI exI)
qed

theorem pull_reaches_head_witness:
  "\<exists>st' vault. (\<exists>r. pull_remote_changes sample_commit_libs sample_pull_env sample_pull_input sample_pull_state = (Ok r, st')) \<and>
    get_vault (ps_db st') ''v'' = Some vault"
proof -
  have "is_ok (fst (pull_remote_changes sample_commit_libs sample_pull_env sample_pull_input sample_pull_state))"
    by code_simp
  from is_ok_fst [OF this] obtain r st' where
    run: "pull_remote_changes sample_commit_libs sample_pull_env sample_pull_input sample_pull_state = (Ok r, st')"
    by (elim exE)
  have "pi_vault_id sample_pull_input = ''v''" by (simp add: sample_pull_input_def)
  with pull_reaches_head [OF run] run show ?thesis by (elim exE conjE) (intro exI conjI, simp_all)
qed

end
