(* ===== verification/Sync_Run.thy ===== *)
theory Sync_Run
  imports Sync_Workspaces Sync_Push Sync_Pull
begin

text \<open>
  The sync run and the commands (\<^verbatim>\<open>sync/commands.rs\<close>): the application's state, the run itself (pull, push, and on a head
  conflict a second pull and push), the status with its counters, conflicts, and configuring,
  restoring and disconnecting a vault. The state of an operation is the runtime state of the
  engine, the databases by vault, the vault directories by canonical path, the keychain, the server's
  accounts and workspaces, the ledger of announced mutations, the search index and the emitted
  status events. A command is executed as a whole; how the methods of the runtime state interleave
  is the subject of \<^verbatim>\<open>Sync_State\<close>. The clock, the network, the random values, the paths' canonical
  forms and the events the transfers report are parameters. Errors are given before
  \<^verbatim>\<open>command_error\<close> turns them into the form shown to the user.
\<close>

section \<open>State and environment\<close>

record ('s, 'k) app_state =
  ap_sync :: sync_inner
  ap_dbs :: "string \<Rightarrow> sync_db option"
  ap_vaults :: "fpath \<Rightarrow> fnode option"
  ap_open_root :: "fpath option"
  ap_server :: 's
  ap_keys :: 'k
  ap_ledger :: expected_mutation_ledger
  ap_search :: "search_call list"
  ap_clock :: nat
  ap_events :: "sync_runtime_status list"

record ('s, 'k) app_env =
  av_setup :: "('s, 'k) setup_env"
  av_home :: "string option"
  av_canonicalize :: "fpath \<Rightarrow> fpath option"
  av_link_is_file :: "fpath \<Rightarrow> bool"
  av_now :: "nat \<Rightarrow> int"
  av_io :: string
  av_get_head :: "string \<Rightarrow> sync_head sync_result"
  av_pull :: "nat \<Rightarrow> pull_env"
  av_commits :: "nat \<Rightarrow> commit_net"
  av_nonces :: "nat \<Rightarrow> nat \<Rightarrow> bytes"
  av_progress :: "nat \<Rightarrow> transfer_progress_event list"

record sync_conflict_summary =
  cs_conflict_id :: string
  cs_path :: string
  cs_conflict_path :: string
  cs_base_commit_id :: "string option"
  cs_remote_commit_id :: "string option"
  cs_status :: string
  cs_created_at_ms :: int

type_synonym ('s, 'k, 'a) app_op = "('s, 'k) app_state \<Rightarrow> 'a sync_result \<times> ('s, 'k) app_state"
type_synonym ('s, 'k, 'a) run_op = "('s, 'k) app_state \<Rightarrow> ('a, pull_fault) result \<times> ('s, 'k) app_state"

abbreviation libs :: "('s, 'k) app_env \<Rightarrow> setup_libs" where
  "libs E \<equiv> se_libs (av_setup E)"

abbreviation store :: "('s, 'k) app_env \<Rightarrow> 'k key_store" where
  "store E \<equiv> se_store (av_setup E)"

definition tick :: "('s, 'k) app_env \<Rightarrow> ('s, 'k) app_state \<Rightarrow> int \<times> ('s, 'k) app_state" where
  "tick E st = (av_now E (ap_clock st), st\<lparr>ap_clock := Suc (ap_clock st)\<rparr>)"

definition answer :: "'a sync_result \<Rightarrow> ('s, 'k, 'a) app_op" where
  "answer r st = (r, st)"

definition on_sync ::
    "('s, 'k) app_env \<Rightarrow> (int \<Rightarrow> sync_inner \<Rightarrow> 'a sync_result \<times> sync_inner) \<Rightarrow> ('s, 'k, 'a) app_op" where
  "on_sync E f st =
     (let (now, st) = tick E st; (r, s) = f now (ap_sync st) in (r, st\<lparr>ap_sync := s\<rparr>))"

definition on_setup :: "('s, 'k, 'a) setup_op \<Rightarrow> ('s, 'k, 'a) app_op" where
  "on_setup f st = (let (r, s, k) = f (ap_server st, ap_keys st) in (r, st\<lparr>ap_server := s, ap_keys := k\<rparr>))"

text \<open>The connection of a vault's database, open since \<open>open_sync_db_for_vault\<close>.\<close>

definition db_of :: "('s, 'k) app_state \<Rightarrow> string \<Rightarrow> sync_db" where
  "db_of st vault_id = (case ap_dbs st vault_id of Some db \<Rightarrow> db | None \<Rightarrow> empty_db)"

definition on_conn :: "string \<Rightarrow> (sync_db \<Rightarrow> 'a sync_result \<times> sync_db) \<Rightarrow> ('s, 'k, 'a) app_op" where
  "on_conn vault_id f st =
     (let (r, db) = f (db_of st vault_id) in (r, st\<lparr>ap_dbs := (ap_dbs st)(vault_id \<mapsto> db)\<rparr>))"

text \<open>\<^verbatim>\<open>PathBuf::from\<close> for a vault root, which is an absolute path without \<^verbatim>\<open>..\<close> segments.\<close>

definition path_of :: "string \<Rightarrow> fpath" where
  "path_of s = concat (map (\<lambda>c. case c of Normal n \<Rightarrow> [n] | _ \<Rightarrow> []) (components s))"

text \<open>The tree below a vault root. Two paths with the same canonical form name one directory.\<close>

definition vault_key :: "('s, 'k) app_env \<Rightarrow> fpath \<Rightarrow> fpath" where
  "vault_key E root = (case av_canonicalize E root of Some q \<Rightarrow> q | None \<Rightarrow> root)"

definition vault_tree :: "('s, 'k) app_env \<Rightarrow> fpath \<Rightarrow> ('s, 'k) app_state \<Rightarrow> fnode" where
  "vault_tree E root st = (case ap_vaults st (vault_key E root) of Some fs \<Rightarrow> fs | None \<Rightarrow> Dir [])"

definition set_vault_tree :: "('s, 'k) app_env \<Rightarrow> fpath \<Rightarrow> fnode \<Rightarrow> ('s, 'k) app_state \<Rightarrow> ('s, 'k) app_state" where
  "set_vault_tree E root fs st =
     (if fs = vault_tree E root st then st
      else st\<lparr>ap_vaults := (ap_vaults st)(vault_key E root \<mapsto> fs)\<rparr>)"

definition on_files ::
    "('s, 'k) app_env \<Rightarrow> fpath \<Rightarrow> (fnode \<Rightarrow> 'a sync_result \<times> fnode) \<Rightarrow> ('s, 'k, 'a) app_op" where
  "on_files E root f st = (let (r, fs) = f (vault_tree E root st) in (r, set_vault_tree E root fs st))"

definition root_is_dir :: "('s, 'k) app_env \<Rightarrow> fpath \<Rightarrow> ('s, 'k) app_state \<Rightarrow> bool" where
  "root_is_dir E root st = (case ap_vaults st (vault_key E root) of Some (Dir _) \<Rightarrow> True | _ \<Rightarrow> False)"

definition emit_status :: "sync_runtime_status \<Rightarrow> ('s, 'k) app_state \<Rightarrow> ('s, 'k) app_state" where
  "emit_status s st = st\<lparr>ap_events := ap_events st @ [s]\<rparr>"

definition emitted :: "sync_runtime_status \<Rightarrow> ('s, 'k, sync_runtime_status) app_op" where
  "emitted s st = (Ok s, emit_status s st)"

section \<open>Small helpers\<close>

definition open_sync_db_for_vault :: "('s, 'k) app_env \<Rightarrow> string \<Rightarrow> ('s, 'k, unit) app_op" where
  "open_sync_db_for_vault E vault_id st =
     (case av_home E of
        None \<Rightarrow> (Err (Storage ''home directory is unavailable''), st)
      | Some _ \<Rightarrow>
          (case validate_vault_id vault_id of
             Err e \<Rightarrow> (Err e, st)
           | Ok _ \<Rightarrow> (Ok (), st\<lparr>ap_dbs := (ap_dbs st)(vault_id \<mapsto> init_schema (db_of st vault_id))\<rparr>)))"

definition validate_config_for_command :: "sync_vault_config \<Rightarrow> unit sync_result" where
  "validate_config_for_command config =
     (if trim (cfg_vault_id config) = [] then Err (InvalidArgument ''vault_id is required'')
      else if trim (cfg_root_path config) = [] then Err (InvalidArgument ''root_path is required'')
      else Ok ())"

definition validate_enabled_status :: "sync_runtime_status \<Rightarrow> unit sync_result" where
  "validate_enabled_status s =
     (if \<not> configured s then Err NotConfigured
      else if \<not> enabled s then Err (InvalidArgument ''sync must be enabled before running sync now'')
      else Ok ())"

definition required_status_value :: "string option \<Rightarrow> string \<Rightarrow> string sync_result" where
  "required_status_value v field =
     ok_or (trimmed_optional v) (InvalidArgument (field @ '' is required before running sync''))"

definition same_path :: "('s, 'k) app_env \<Rightarrow> fpath \<Rightarrow> fpath \<Rightarrow> bool" where
  "same_path E a b =
     (case (av_canonicalize E a, av_canonicalize E b) of (Some a, Some b) \<Rightarrow> a = b | _ \<Rightarrow> a = b)"

definition status_vault_root ::
    "('s, 'k) app_env \<Rightarrow> sync_runtime_status \<Rightarrow> ('s, 'k) app_state \<Rightarrow> fpath sync_result" where
  "status_vault_root E s st =
     and_then (required_status_value (st_root_path s) ''root_path'') (\<lambda>configured.
       let configured_path = path_of configured in
       case ap_open_root st of
         Some open_root \<Rightarrow>
           if same_path E open_root configured_path then Ok open_root
           else Err (InvalidArgument ''configured sync vault is not the currently open vault'')
       | None \<Rightarrow> Ok configured_path)"

fun is_head_conflict :: "(string \<Rightarrow> string) \<Rightarrow> sync_error \<Rightarrow> bool" where
  "is_head_conflict lc (Transport message) = contains (lc message) ''head conflict''"
| "is_head_conflict lc _ = False"

section \<open>The vault's record and settings\<close>

definition configured_record ::
    "sync_vault_config \<Rightarrow> bool \<Rightarrow> int \<Rightarrow> sync_vault_record option \<Rightarrow> sync_vault_record" where
  "configured_record config en now existing =
     (case existing of
        Some vault \<Rightarrow> vault\<lparr>vr_root_path := cfg_root_path config,
          vr_remote_workspace_id := cfg_remote_workspace_id config, vr_device_id := cfg_device_id config,
          vr_enabled := en, vr_updated_at_ms := now\<rparr>
      | None \<Rightarrow> \<lparr>vr_vault_id = cfg_vault_id config, vr_root_path = cfg_root_path config,
          vr_remote_workspace_id = cfg_remote_workspace_id config, vr_remote_head_commit_id = None,
          vr_local_head_commit_id = None, vr_device_id = cfg_device_id config, vr_next_device_seq = 1,
          vr_enabled = en, vr_created_at_ms = now, vr_updated_at_ms = now\<rparr>)"

definition persist_configured_vault ::
    "('s, 'k) app_env \<Rightarrow> sync_vault_config \<Rightarrow> bool \<Rightarrow> ('s, 'k, unit) app_op" where
  "persist_configured_vault E config en st =
     (let (now, st) = tick E st in
      on_conn (cfg_vault_id config) (\<lambda>db.
        (Ok (), upsert_vault (configured_record config en now (get_vault db (cfg_vault_id config))) db)) st)"

definition config_from_status :: "sync_runtime_status \<Rightarrow> sync_vault_config sync_result" where
  "config_from_status s =
     and_then (required_status_value (st_vault_id s) ''vault_id'') (\<lambda>vault_id.
     and_then (required_status_value (st_root_path s) ''root_path'') (\<lambda>root_path.
     and_then (required_status_value (st_remote_workspace_id s) ''remote_workspace_id'') (\<lambda>workspace_id.
     and_then (required_status_value (st_device_id s) ''device_id'') (\<lambda>device_id.
       Ok \<lparr>cfg_vault_id = vault_id, cfg_root_path = root_path, cfg_account_key_id = st_account_key_id s,
           cfg_remote_workspace_id = workspace_id, cfg_workspace_name = st_workspace_name s,
           cfg_device_id = device_id, cfg_device_name = st_device_name s,
           cfg_remember_workspace_key = st_remember_workspace_key s, cfg_passphrase = None\<rparr>))))"

definition cached_remote_status_for_config ::
    "('s, 'k) app_env \<Rightarrow> fpath \<Rightarrow> string \<Rightarrow> ('s, 'k) app_state \<Rightarrow> sync_remote_status option sync_result" where
  "cached_remote_status_for_config E root workspace_id st =
     and_then (read_sync_config (libs E) (av_io E) root (vault_tree E root st)) (\<lambda>config.
       Ok (case config of
             Some c \<Rightarrow> if vc_remote_workspace_id c = workspace_id then vsf_remote (vc_status c) else None
           | None \<Rightarrow> None))"

definition cached_remote_status_for_state ::
    "('s, 'k) app_env \<Rightarrow> sync_runtime_status \<Rightarrow> ('s, 'k) app_state \<Rightarrow> sync_remote_status option sync_result" where
  "cached_remote_status_for_state E s st =
     (if \<not> configured s then Ok None
      else and_then (required_status_value (st_root_path s) ''root_path'') (\<lambda>root_path.
           and_then (required_status_value (st_remote_workspace_id s) ''remote_workspace_id'') (\<lambda>workspace_id.
             cached_remote_status_for_config E (path_of root_path) workspace_id st)))"

definition write_settings ::
    "('s, 'k) app_env \<Rightarrow> sync_vault_config \<Rightarrow> bool \<Rightarrow> int \<Rightarrow> sync_vault_status_file \<Rightarrow> ('s, 'k, unit) app_op" where
  "write_settings E config en updated_at status_file st =
     (let root = path_of (cfg_root_path config); (mtime, st) = tick E st in
      try_then (on_files E root (write_sync_config_with_status (libs E) (av_io E) mtime root config en updated_at
        status_file) st) (\<lambda>_. answer (Ok ())))"

definition persist_runtime_status :: "('s, 'k) app_env \<Rightarrow> sync_runtime_status \<Rightarrow> ('s, 'k, unit) app_op" where
  "persist_runtime_status E s st =
     (if \<not> configured s then (Ok (), st)
      else
        try_then (answer (config_from_status s) st) (\<lambda>config st.
        try_then (open_sync_db_for_vault E (cfg_vault_id config) st) (\<lambda>_ st.
        try_then (persist_configured_vault E config (enabled s) st) (\<lambda>_ st.
        try_then (answer (cached_remote_status_for_config E (path_of (cfg_root_path config))
            (cfg_remote_workspace_id config) st) st) (\<lambda>remote.
          write_settings E config (enabled s) (updated_at_ms s)
            \<lparr>vsf_last_synced_at_ms = last_synced_at_ms s, vsf_remote = remote\<rparr>)))))"

definition persist_remote_status_snapshot ::
    "('s, 'k) app_env \<Rightarrow> sync_runtime_status \<Rightarrow> sync_remote_status \<Rightarrow> ('s, 'k, unit) app_op" where
  "persist_remote_status_snapshot E s remote_status st =
     (if \<not> configured s then (Ok (), st)
      else
        try_then (answer (config_from_status s) st) (\<lambda>config.
          write_settings E config (enabled s) (rms_checked_at_ms remote_status)
            \<lparr>vsf_last_synced_at_ms = last_synced_at_ms s, vsf_remote = Some remote_status\<rparr>))"

definition sync_state_reset :: "('s, 'k) app_env \<Rightarrow> ('s, 'k, sync_runtime_status) app_op" where
  "sync_state_reset E st =
     try_then (on_sync E (\<lambda>now s. let (status, s) = sync_reset now s in (Ok status, s)) st) emitted"

definition restore_vault_config_for_root ::
    "('s, 'k) app_env \<Rightarrow> fpath \<Rightarrow> ('s, 'k, sync_runtime_status) app_op" where
  "restore_vault_config_for_root E vault_root st =
     (case read_sync_config (libs E) (av_io E) vault_root (vault_tree E vault_root st) of
        Ok None \<Rightarrow> sync_state_reset E st
      | Err (UnsupportedVersion version) \<Rightarrow>
          let (r, fs, k) = reset_sync_config (libs E) (store E) (av_io E) vault_root (vault_tree E vault_root st, ap_keys st);
              st = set_vault_tree E vault_root fs (st\<lparr>ap_keys := k\<rparr>)
          in try_then (r, st) (\<lambda>_ st.
             try_then (sync_state_reset E st) (\<lambda>_. answer (Err (UnsupportedVersion version))))
      | Err e \<Rightarrow> (Err e, st)
      | Ok (Some config_file) \<Rightarrow>
          let config = runtime_config_from_file vault_root config_file in
          try_then (open_sync_db_for_vault E (cfg_vault_id config) st) (\<lambda>_ st.
          try_then (persist_configured_vault E config (vc_enabled config_file) st) (\<lambda>_ st.
          try_then (on_sync E (\<lambda>now. restore_vault_with_status now config (vc_enabled config_file)
              (vsf_last_synced_at_ms (vc_status config_file))) st) emitted)))"

definition clear_current_workspace_binding ::
    "('s, 'k) app_env \<Rightarrow> sync_runtime_status \<Rightarrow> ('s, 'k, sync_runtime_status) app_op" where
  "clear_current_workspace_binding E s st =
     try_then (answer (ok_or (trimmed_optional (st_vault_id s)) NotConfigured) st) (\<lambda>vault_id st.
     try_then (on_setup (on_keys (forget_vault_keys (store E) vault_id)) st) (\<lambda>_ st.
     try_then (case trimmed_optional (st_root_path s) of
           Some root_path \<Rightarrow> on_files E (path_of root_path) (delete_sync_config (av_io E) (path_of root_path)) st
         | None \<Rightarrow> (Ok (), st)) (\<lambda>_ st.
     try_then (open_sync_db_for_vault E vault_id st) (\<lambda>_ st.
     try_then (on_conn vault_id (\<lambda>db. (Ok (), delete_vault vault_id db)) st) (\<lambda>_.
       sync_state_reset E)))))"

definition clear_binding_if_current_workspace_missing ::
    "('s, 'k) app_env \<Rightarrow> sync_runtime_status \<Rightarrow> sync_error \<Rightarrow> ('s, 'k, sync_runtime_status option) app_op" where
  "clear_binding_if_current_workspace_missing E s error st =
     (if \<not> error_may_indicate_missing_current_workspace error then (Ok None, st)
      else case trimmed_optional (st_remote_workspace_id s) of
             None \<Rightarrow> (Ok None, st)
           | Some workspace_id \<Rightarrow>
               try_then (on_setup (current_workspace_exists_for_account (av_setup E) workspace_id) st) (\<lambda>present st.
               if present then (Ok None, st)
               else try_then (clear_current_workspace_binding E s st) (\<lambda>status. answer (Ok (Some status)))))"

section \<open>Open conflicts\<close>

text \<open>
  \<^verbatim>\<open>fs::metadata\<close> follows links: a path through a link names what the link's target holds (\<open>av_link_is_file\<close>), a path below a
  file is an error other than \<^verbatim>\<open>NotFound\<close>.
\<close>

definition vault_relative_file_exists ::
    "('s, 'k) app_env \<Rightarrow> fpath \<Rightarrow> fnode \<Rightarrow> string \<Rightarrow> bool sync_result" where
  "vault_relative_file_exists E root fs relative_path =
     (case resolve_vault_path root relative_path of
        Err _ \<Rightarrow> Ok False
      | Ok path \<Rightarrow>
          let p = drop (length root) path in
          (case fs_lookup fs p of
             Some (File _ _) \<Rightarrow> Ok True
           | Some (Dir _) \<Rightarrow> Ok False
           | _ \<Rightarrow>
               if fs_exists fs p then Ok (av_link_is_file E path)
               else if parent_blocked fs p
               then Err (Storage (''failed to inspect conflict copy '' @ display_path path @ '': '' @ av_io E))
               else Ok False))"

definition conflict_summary_of :: "sync_conflict_record \<Rightarrow> sync_conflict_summary" where
  "conflict_summary_of c =
     \<lparr>cs_conflict_id = cf_conflict_id c, cs_path = cf_path c, cs_conflict_path = cf_conflict_path c,
      cs_base_commit_id = cf_base_commit_id c, cs_remote_commit_id = cf_remote_commit_id c, cs_status = cf_status c,
      cs_created_at_ms = cf_created_at_ms c\<rparr>"

definition resolve_conflict :: "(string \<Rightarrow> string) \<Rightarrow> int \<Rightarrow> sync_conflict_record \<Rightarrow> sync_db \<Rightarrow> sync_db" where
  "resolve_conflict lc now c db =
     (let db = mark_conflict_resolved (cf_conflict_id c) db in
      case normalize_vault_relative_path lc (cf_conflict_path c) of
        Ok path \<Rightarrow> mark_unsynced_file_deleted_clean path now db
      | Err _ \<Rightarrow> db)"

fun list_conflicts_loop ::
    "('s, 'k) app_env \<Rightarrow> string \<Rightarrow> fpath option \<Rightarrow> sync_conflict_record list
      \<Rightarrow> ('s, 'k, sync_conflict_summary list) app_op" where
  "list_conflicts_loop E vault_id root [] st = (Ok [], st)"
| "list_conflicts_loop E vault_id root (c # cs) st =
     try_then (answer (case root of
           Some r \<Rightarrow> vault_relative_file_exists E r (vault_tree E r st) (cf_conflict_path c)
         | None \<Rightarrow> Ok True) st) (\<lambda>present st.
     if present
     then try_then (list_conflicts_loop E vault_id root cs st) (\<lambda>rest. answer (Ok (conflict_summary_of c # rest)))
     else
       let (now, st) = tick E st in
       try_then (on_conn vault_id (\<lambda>db. (Ok (), resolve_conflict (to_lowercase (libs E)) now c db)) st) (\<lambda>_ st.
         list_conflicts_loop E vault_id root cs st))"

definition list_open_conflicts_of ::
    "('s, 'k) app_env \<Rightarrow> sync_runtime_status \<Rightarrow> ('s, 'k, sync_conflict_summary list) app_op" where
  "list_open_conflicts_of E s st =
     (case st_vault_id s of
        None \<Rightarrow> (Ok [], st)
      | Some vault_id \<Rightarrow>
          if av_home E = None then (Ok [], st)
          else
            try_then (answer (validate_vault_id vault_id) st) (\<lambda>_ st.
            if ap_dbs st vault_id = None then (Ok [], st)
            else
              try_then (open_sync_db_for_vault E vault_id st) (\<lambda>_ st.
              let root = (case st_root_path s of
                    Some r \<Rightarrow> if root_is_dir E (path_of r) st then Some (path_of r) else None
                  | None \<Rightarrow> None)
              in list_conflicts_loop E vault_id root (list_open_conflicts (db_of st vault_id)) st)))"

definition list_open_conflicts_for_status :: "('s, 'k) app_env \<Rightarrow> ('s, 'k, sync_conflict_summary list) app_op" where
  "list_open_conflicts_for_status E st = list_open_conflicts_of E (status (ap_sync st)) st"

section \<open>Status\<close>

definition to_i64 :: "nat \<Rightarrow> int" where
  "to_i64 n = (if int n \<le> i64_max then int n else i64_max)"

definition pending_upload_count ::
    "'z commit_libs_scheme \<Rightarrow> string \<Rightarrow> fpath \<Rightarrow> fnode \<Rightarrow> int \<Rightarrow> sync_db \<Rightarrow> int sync_result \<times> sync_db" where
  "pending_upload_count L vault_id root fs now db =
     try_then (scan_vault (to_lowercase L) (blake3_hex L) root fs, db) (\<lambda>scanned_files db.
     try_then (apply_scan (blake3_hex L) (map file_input scanned_files) now db) (\<lambda>_ db.
     let db = (case get_vault db vault_id of
           Some vault \<Rightarrow>
             (case vr_local_head_commit_id vault of
                Some local_head \<Rightarrow> snd (clear_dirty_files_matching_head local_head db)
              | None \<Rightarrow> db)
         | None \<Rightarrow> db)
     in (Ok (to_i64 (length (list_dirty_files db))), db)))"

definition pending_download_count ::
    "('s, 'k) app_env \<Rightarrow> sync_runtime_status \<Rightarrow> ('s, 'k) app_state \<Rightarrow> int sync_result" where
  "pending_download_count E s st =
     (case (st_root_path s, st_remote_workspace_id s) of
        (Some root_path, Some workspace_id) \<Rightarrow>
          and_then (cached_remote_status_for_config E (path_of root_path) workspace_id st) (\<lambda>remote.
            Ok (case remote of Some r \<Rightarrow> if rms_has_remote_changes r then 1 else 0 | None \<Rightarrow> 0))
      | _ \<Rightarrow> Ok 0)"

definition pending_counts_for_status ::
    "('s, 'k) app_env \<Rightarrow> sync_runtime_status \<Rightarrow> bool \<Rightarrow> ('s, 'k, (int \<times> int) option) app_op" where
  "pending_counts_for_status E s sync_running st =
     (if sync_running \<or> \<not> configured s \<or> \<not> enabled s \<or> phase s \<noteq> PhIdle then (Ok None, st)
      else case (st_vault_id s, st_root_path s) of
        (Some vault_id, Some root_path) \<Rightarrow>
          let vault_root = path_of root_path in
          if \<not> root_is_dir E vault_root st \<or> av_home E = None then (Ok None, st)
          else
            try_then (answer (validate_vault_id vault_id) st) (\<lambda>_ st.
            if ap_dbs st vault_id = None then (Ok None, st)
            else
              try_then (open_sync_db_for_vault E vault_id st) (\<lambda>_ st.
              let (now, st) = tick E st in
              try_then (on_conn vault_id (pending_upload_count (libs E) vault_id vault_root (vault_tree E vault_root st) now) st)
                (\<lambda>uploads st.
              try_then (answer (pending_download_count E s st) st) (\<lambda>downloads.
                answer (Ok (Some (uploads, downloads)))))))
      | _ \<Rightarrow> (Ok None, st))"

definition status_with_conflicts :: "('s, 'k) app_env \<Rightarrow> bool \<Rightarrow> ('s, 'k, sync_runtime_status) app_op" where
  "status_with_conflicts E scan_local st =
     (let s = status (ap_sync st) in
      try_then (if scan_local
          then try_then (pending_counts_for_status E s (is_sync_running (ap_sync st)) st) (\<lambda>counts st.
                 case counts of
                   Some (uploads, downloads) \<Rightarrow> on_sync E (\<lambda>now. set_pending_counts now uploads downloads) st
                 | None \<Rightarrow> (Ok s, st))
          else (Ok s, st)) (\<lambda>s st.
      try_then (list_open_conflicts_of E s st) (\<lambda>conflicts.
        answer (Ok (s\<lparr>conflict_count := to_i64 (length conflicts)\<rparr>)))))"

definition remote_status_from_head ::
    "string \<Rightarrow> sync_vault_record option \<Rightarrow> sync_head \<Rightarrow> int \<Rightarrow> sync_remote_status" where
  "remote_status_from_head workspace_id local_vault head checked_at_ms =
     (let local_remote_head = Option.bind local_vault vr_remote_head_commit_id in
      \<lparr>rms_workspace_id = workspace_id, rms_remote_head_commit_id = current_head_commit_id head,
       rms_remote_head_version = head_version head,
       rms_latest_checkpoint_commit_id = latest_checkpoint_commit_id head,
       rms_local_remote_head_commit_id = local_remote_head,
       rms_local_head_commit_id = Option.bind local_vault vr_local_head_commit_id,
       rms_has_remote_changes =
         (current_head_commit_id head \<noteq> [] \<and> local_remote_head \<noteq> Some (current_head_commit_id head)),
       rms_checked_at_ms = checked_at_ms\<rparr>)"

definition get_remote_status_for_state ::
    "('s, 'k) app_env \<Rightarrow> sync_runtime_status \<Rightarrow> ('s, 'k, sync_remote_status) app_op" where
  "get_remote_status_for_state E s st =
     (if \<not> configured s then (Err NotConfigured, st)
      else
        try_then (answer (required_status_value (st_remote_workspace_id s) ''remote_workspace_id'') st) (\<lambda>workspace_id st.
        try_then (answer (authorization_header (to_lowercase (libs E)) (se_auth (av_setup E))) st) (\<lambda>_ st.
        try_then (answer (av_get_head E workspace_id) st) (\<lambda>head st.
        try_then (case st_vault_id s of
              Some vault_id \<Rightarrow>
                try_then (open_sync_db_for_vault E vault_id st) (\<lambda>_ st. (Ok (get_vault (db_of st vault_id) vault_id), st))
            | None \<Rightarrow> (Ok None, st)) (\<lambda>local_vault st.
        let (now, st) = tick E st in
          (Ok (remote_status_from_head workspace_id local_vault head now), st))))))"

section \<open>A run\<close>

definition DEFAULT_PLANNER_CONFIG :: planner_config where
  "DEFAULT_PLANNER_CONFIG = \<lparr>max_pack_plaintext_bytes = DEFAULT_MAX_PACK_PLAINTEXT_BYTES\<rparr>"

definition may_fail :: "('s, 'k, 'a) app_op \<Rightarrow> ('s, 'k, 'a) run_op" where
  "may_fail f st = (let (r, st) = f st in (map_err Failed r, st))"

text \<open>What the progress sink does with the events of one pipeline call.\<close>

definition on_transfer_progress ::
    "('s, 'k) app_env \<Rightarrow> 64 word \<Rightarrow> transfer_progress_event \<Rightarrow> ('s, 'k) app_state \<Rightarrow> ('s, 'k) app_state" where
  "on_transfer_progress E run_id event st =
     (let (r, st) = on_sync E (\<lambda>now. apply_transfer_progress now run_id event) st in
      case r of Ok (Some s) \<Rightarrow> emit_status s st | _ \<Rightarrow> st)"

text \<open>The values a run has settled before it starts moving data.\<close>

record run_input =
  ri_vault_id :: string
  ri_workspace_id :: string
  ri_device_id :: string
  ri_vault_root :: fpath
  ri_workspace_key :: symmetric_key
  ri_signing_key :: bytes
  ri_run_id :: "64 word"

definition run_pull :: "('s, 'k) app_env \<Rightarrow> nat \<Rightarrow> run_input \<Rightarrow> ('s, 'k, pull_result) run_op" where
  "run_pull E i input st =
     (let (now, st) = tick E st;
          (r, ps) = pull_remote_changes (libs E) ((av_pull E i)\<lparr>pe_queue := default_queue_config\<rparr>)
            \<lparr>pi_vault_id = ri_vault_id input, pi_vault_root = ri_vault_root input,
             pi_workspace_id = ri_workspace_id input, pi_device_id = ri_device_id input,
             pi_workspace_key = ri_workspace_key input, pi_now_ms = now\<rparr>
            \<lparr>ps_db = db_of st (ri_vault_id input), ps_fs = vault_tree E (ri_vault_root input) st,
             ps_ledger = Some (ap_ledger st), ps_search = Some (ap_search st), ps_downloads = 0, ps_writes = 0\<rparr>;
          st = set_vault_tree E (ri_vault_root input) (ps_fs ps)
            (st\<lparr>ap_dbs := (ap_dbs st)(ri_vault_id input \<mapsto> ps_db ps),
               ap_ledger := (case ps_ledger ps of Some l \<Rightarrow> l | None \<Rightarrow> ap_ledger st),
               ap_search := (case ps_search ps of Some l \<Rightarrow> l | None \<Rightarrow> ap_search st)\<rparr>)
      in (r, fold (on_transfer_progress E (ri_run_id input)) (av_progress E i) st))"

definition push_input_of :: "run_input \<Rightarrow> int \<Rightarrow> push_input" where
  "push_input_of input now =
     \<lparr>in_vault_id = ri_vault_id input, in_vault_root = ri_vault_root input, in_workspace_id = ri_workspace_id input,
      in_device_id = ri_device_id input, in_workspace_key = ri_workspace_key input,
      in_signing_key = ri_signing_key input, in_now_ms = now\<rparr>"

definition run_push :: "('s, 'k) app_env \<Rightarrow> nat \<Rightarrow> run_input \<Rightarrow> ('s, 'k, push_result) app_op" where
  "run_push E i input st =
     (let (now, st) = tick E st;
          (r, st) = on_conn (ri_vault_id input)
            (push_local_changes (libs E) (av_commits E i) default_queue_config DEFAULT_PLANNER_CONFIG (av_nonces E i)
              (push_input_of input now) (vault_tree E (ri_vault_root input) st)) st
      in (r, fold (on_transfer_progress E (ri_run_id input)) (av_progress E i) st))"

definition run_push_merge :: "('s, 'k) app_env \<Rightarrow> nat \<Rightarrow> run_input \<Rightarrow> string \<Rightarrow> ('s, 'k, push_result) app_op" where
  "run_push_merge E i input local_parent st =
     (let (now, st) = tick E st;
          (r, st) = on_conn (ri_vault_id input)
            (push_merge_commit (libs E) (av_commits E i) default_queue_config DEFAULT_PLANNER_CONFIG (av_nonces E i)
              (push_input.extend (push_input_of input now) (push_merge_input.fields local_parent))
              (vault_tree E (ri_vault_root input) st)) st
      in (r, fold (on_transfer_progress E (ri_run_id input)) (av_progress E i) st))"

definition enter_phase :: "('s, 'k) app_env \<Rightarrow> sync_phase \<Rightarrow> ('s, 'k, unit) run_op" where
  "enter_phase E ph = may_fail (\<lambda>st.
     try_then (on_sync E (\<lambda>now. set_phase now ph) st) (\<lambda>s st. (Ok (), emit_status s st)))"

definition complete_run :: "('s, 'k) app_env \<Rightarrow> ('s, 'k, sync_runtime_status) app_op" where
  "complete_run E st =
     try_then (list_open_conflicts_for_status E st) (\<lambda>conflicts.
       on_sync E (\<lambda>now. complete_manual_sync now (to_i64 (length conflicts))))"

definition local_parent_of :: "string \<Rightarrow> sync_db \<Rightarrow> string" where
  "local_parent_of vault_id db =
     (case Option.bind (get_vault db vault_id) vr_local_head_commit_id of Some c \<Rightarrow> c | None \<Rightarrow> [])"

text \<open>\<^verbatim>\<open>run_sync_once\<close> up to the first pull.\<close>

definition prepare_run ::
    "('s, 'k) app_env \<Rightarrow> string option \<Rightarrow> 64 word \<Rightarrow> ('s, 'k, run_input) app_op" where
  "prepare_run E passphrase run_id st =
     (let s = status (ap_sync st) in
      try_then (answer (validate_enabled_status s) st) (\<lambda>_ st.
      try_then (answer (required_status_value (st_vault_id s) ''vault_id'') st) (\<lambda>vault_id st.
      try_then (answer (required_status_value (st_remote_workspace_id s) ''remote_workspace_id'') st) (\<lambda>workspace_id st.
      try_then (answer (required_status_value (st_device_id s) ''device_id'') st) (\<lambda>device_id st.
      try_then (answer (status_vault_root E s st) st) (\<lambda>vault_root st.
      try_then (answer (authorization_header (to_lowercase (libs E)) (se_auth (av_setup E))) st) (\<lambda>_ st.
      try_then (open_sync_db_for_vault E vault_id st) (\<lambda>_ st.
      try_then (on_setup (workspace_key_for_run (av_setup E) vault_id workspace_id (st_account_key_id s)
          (st_remember_workspace_key s) passphrase) st) (\<lambda>workspace_key st.
      try_then (on_setup (read_keys (read_device_signing_key (libs E) (store E) vault_id)) st) (\<lambda>signing_key.
        answer (and_then (ok_or signing_key (Crypto ''device signing key is missing; configure sync again'')) (\<lambda>signing_key.
          Ok \<lparr>ri_vault_id = vault_id, ri_workspace_id = workspace_id, ri_device_id = device_id,
              ri_vault_root = vault_root, ri_workspace_key = workspace_key, ri_signing_key = signing_key,
              ri_run_id = run_id\<rparr>))))))))))))"

definition run_sync_once ::
    "('s, 'k) app_env \<Rightarrow> string option \<Rightarrow> 64 word \<Rightarrow> ('s, 'k, sync_runtime_status) run_op" where
  "run_sync_once E passphrase run_id st =
     try_then (may_fail (prepare_run E passphrase run_id) st) (\<lambda>input st.
     try_then (enter_phase E PhApplying st) (\<lambda>_ st.
     try_then (run_pull E 0 input st) (\<lambda>_ st.
     try_then (enter_phase E PhPlanning st) (\<lambda>_ st.
     let local_parent = local_parent_of (ri_vault_id input) (db_of st (ri_vault_id input));
         (pushed, st) = run_push E 1 input st
     in case pushed of
          Ok _ \<Rightarrow> may_fail (complete_run E) st
        | Err error \<Rightarrow>
            if is_head_conflict (to_lowercase (libs E)) error
            then
              try_then (enter_phase E PhApplying st) (\<lambda>_ st.
              try_then (run_pull E 2 input st) (\<lambda>_ st.
              try_then (enter_phase E PhPublishing st) (\<lambda>_ st.
              try_then (may_fail (if local_parent = [] then run_push E 3 input
                  else run_push_merge E 3 input local_parent) st) (\<lambda>_.
                may_fail (complete_run E)))))
            else (Err (Failed error), st)))))"

section \<open>The commands\<close>

definition sync_run_once ::
    "('s, 'k) app_env \<Rightarrow> string option \<Rightarrow> ('s, 'k, sync_runtime_status) run_op" where
  "sync_run_once E passphrase st =
     try_then (may_fail (on_sync E (\<lambda>_. begin_sync_run)) st) (\<lambda>run_id st.
     let (outcome, st) = run_sync_once E passphrase run_id st in
     case outcome of
       Err Panicked \<Rightarrow> (Err Panicked, st)
     | Ok s \<Rightarrow>
         let st = st\<lparr>ap_sync := finish_sync_run run_id (ap_sync st)\<rparr> in
         may_fail (\<lambda>st. try_then (persist_runtime_status E s st) (\<lambda>_. emitted s)) st
     | Err (Failed error) \<Rightarrow>
         let st = st\<lparr>ap_sync := finish_sync_run run_id (ap_sync st)\<rparr>;
             (cleared, st) = clear_binding_if_current_workspace_missing E (status (ap_sync st)) error st
         in (case cleared of
               Ok (Some _) \<Rightarrow> (Err (Failed NotConfigured), st)
             | _ \<Rightarrow>
                 let (r, st) = on_sync E (\<lambda>now. set_error (to_lowercase (libs E)) now error) st
                 in (Err (Failed error), case r of Ok s \<Rightarrow> emit_status s st | Err _ \<Rightarrow> st)))"

definition sync_get_remote_status :: "('s, 'k) app_env \<Rightarrow> ('s, 'k, sync_remote_status) app_op" where
  "sync_get_remote_status E st =
     (let s = status (ap_sync st); (remote, st) = get_remote_status_for_state E s st in
      case remote of
        Err error \<Rightarrow>
          let (cleared, st) = clear_binding_if_current_workspace_missing E s error st in
          (case cleared of Ok (Some _) \<Rightarrow> (Err NotConfigured, st) | _ \<Rightarrow> (Err error, st))
      | Ok remote_status \<Rightarrow>
          let (cleared, st) = on_sync E clear_remote_status_error st;
              (s, st) = (case cleared of Ok (Some s) \<Rightarrow> (s, emit_status s st) | _ \<Rightarrow> (s, st))
          in try_then (persist_remote_status_snapshot E s remote_status st) (\<lambda>_. answer (Ok remote_status)))"

definition sync_rename_workspace ::
    "('s, 'k) app_env \<Rightarrow> randomness \<Rightarrow> string \<Rightarrow> string \<Rightarrow> int \<Rightarrow> string option
      \<Rightarrow> ('s, 'k, sync_workspace_summary) app_op" where
  "sync_rename_workspace E R workspace_id name expected_metadata_version passphrase st =
     (let current = st_remote_workspace_id (status (ap_sync st)) in
      try_then (on_setup (rename_account_workspace (av_setup E) R workspace_id name expected_metadata_version
          passphrase current) st) (\<lambda>summary st.
      try_then (on_sync E (\<lambda>now. update_workspace_name now (wsum_workspace_id summary) (wsum_name summary)) st)
        (\<lambda>changed st.
      case changed of
        Some s \<Rightarrow>
          try_then (persist_runtime_status E s st) (\<lambda>_ st. (Ok summary, emit_status s st))
      | None \<Rightarrow> (Ok summary, st))))"

definition sync_delete_workspace :: "('s, 'k) app_env \<Rightarrow> string \<Rightarrow> ('s, 'k, sync_runtime_status) app_op" where
  "sync_delete_workspace E workspace_id st =
     try_then (answer (normalized_workspace_id workspace_id) st) (\<lambda>workspace_id st.
     let s = status (ap_sync st);
         deleting_current = (st_remote_workspace_id s = Some workspace_id) in
     if deleting_current \<and> is_sync_running (ap_sync st)
     then (Err (InvalidArgument ''sync is already running''), st)
     else
       try_then (on_setup (delete_account_workspace (av_setup E) workspace_id) st) (\<lambda>_ st.
       if deleting_current then clear_current_workspace_binding E s st
       else (Ok (status (ap_sync st)), st)))"

definition probe_sync_config ::
    "('s, 'k) app_env \<Rightarrow> randomness \<Rightarrow> sync_vault_config \<Rightarrow> ('s, 'k, sync_vault_config \<times> prepared_sync_config) app_op" where
  "probe_sync_config E R config st =
     try_then (answer (validate_config_for_command config) st) (\<lambda>_ st.
     try_then (answer (authorization_header (to_lowercase (libs E)) (se_auth (av_setup E))) st) (\<lambda>_ st.
     let workspace_id = trim (cfg_remote_workspace_id config) in
     try_then (if workspace_id = [] then (Ok None, st)
         else try_then (open_sync_db_for_vault E (cfg_vault_id config) st) (\<lambda>_ st.
                (Ok (get_vault (db_of st (cfg_vault_id config)) (cfg_vault_id config)), st))) (\<lambda>local_vault st.
     try_then (on_setup (if workspace_id = [] then prepare_new_workspace (av_setup E) R config
         else prepare_existing_workspace (av_setup E) R config local_vault) st) (\<lambda>prepared.
       answer (Ok (config\<lparr>cfg_remote_workspace_id := pc_workspace_id prepared, cfg_device_id := pc_device_id prepared,
         cfg_account_key_id := Some (pc_account_key_id prepared), cfg_workspace_name := Some (pc_workspace_name prepared),
         cfg_device_name := Some (pc_device_name prepared)\<rparr>, prepared))))))"

definition commit_sync_config_probe ::
    "('s, 'k) app_env \<Rightarrow> sync_vault_config \<times> prepared_sync_config \<Rightarrow> ('s, 'k, sync_vault_config) app_op" where
  "commit_sync_config_probe E probe st =
     (let (config, prepared) = probe; root = path_of (cfg_root_path config) in
      try_then (open_sync_db_for_vault E (cfg_vault_id config) st) (\<lambda>_ st.
      try_then (persist_configured_vault E config False st) (\<lambda>_ st.
      try_then (on_setup (on_keys (persist_local_keys (libs E) (store E) config (pc_workspace_key prepared)
          (pc_device_signing_key prepared) (pc_recovery_phrase prepared)
          (Some (pc_account_key_id prepared, pc_account_root_key prepared)))) st) (\<lambda>_ st.
      let (now, st) = tick E st; (mtime, st) = tick E st in
      try_then (on_files E root (write_sync_config (libs E) (av_io E) mtime root config False now) st) (\<lambda>_.
        answer (Ok config))))))"

definition sync_configure_vault ::
    "('s, 'k) app_env \<Rightarrow> randomness \<Rightarrow> sync_vault_config \<Rightarrow> ('s, 'k, sync_runtime_status) app_op" where
  "sync_configure_vault E R config st =
     try_then (probe_sync_config E R config st) (\<lambda>prepared st.
     try_then (commit_sync_config_probe E prepared st) (\<lambda>config st.
     try_then (on_sync E (\<lambda>now. configure_vault now config) st) emitted))"

definition sync_disconnect_vault :: "('s, 'k) app_env \<Rightarrow> ('s, 'k, sync_runtime_status) app_op" where
  "sync_disconnect_vault E st =
     (let s = status (ap_sync st) in
      if \<not> configured s then (Ok s, st)
      else if is_sync_running (ap_sync st) then (Err (InvalidArgument ''sync is already running''), st)
      else clear_current_workspace_binding E s st)"

definition sync_rebuild_vault_state :: "('s, 'k) app_env \<Rightarrow> ('s, 'k, sync_runtime_status) app_op" where
  "sync_rebuild_vault_state E st =
     (let s = status (ap_sync st) in
      if \<not> configured s then (Err NotConfigured, st)
      else if is_sync_running (ap_sync st) then (Err (InvalidArgument ''sync is already running''), st)
      else
        try_then (answer (config_from_status s) st) (\<lambda>config st.
        try_then (on_sync E (\<lambda>now. restore_vault_with_status now config (enabled s) (last_synced_at_ms s)) st) (\<lambda>_ st.
        try_then (status_with_conflicts E True st) (\<lambda>s st.
        try_then (persist_runtime_status E s st) (\<lambda>_. emitted s)))))"

definition sync_set_enabled :: "('s, 'k) app_env \<Rightarrow> bool \<Rightarrow> ('s, 'k, sync_runtime_status) app_op" where
  "sync_set_enabled E en st =
     try_then (on_sync E (\<lambda>now. set_enabled now en) st) (\<lambda>s st.
     try_then (persist_runtime_status E s st) (\<lambda>_. emitted s))"

definition sync_list_workspaces ::
    "('s, 'k) app_env \<Rightarrow> string option \<Rightarrow> ('s, 'k, sync_workspace_summary list) app_op" where
  "sync_list_workspaces E passphrase st =
     on_setup (list_account_workspaces (av_setup E) (st_remote_workspace_id (status (ap_sync st))) passphrase) st"

definition sync_create_workspace ::
    "('s, 'k) app_env \<Rightarrow> randomness \<Rightarrow> string option \<Rightarrow> string option \<Rightarrow> ('s, 'k, sync_workspace_summary) app_op" where
  "sync_create_workspace E R name passphrase st =
     on_setup (create_account_workspace (av_setup E) R name passphrase (st_remote_workspace_id (status (ap_sync st)))) st"

definition sync_get_status :: "('s, 'k) app_env \<Rightarrow> bool option \<Rightarrow> ('s, 'k, sync_runtime_status) app_op" where
  "sync_get_status E scan_local =
     status_with_conflicts E (case scan_local of Some b \<Rightarrow> b | None \<Rightarrow> False)"

definition sync_get_cached_remote_status ::
    "('s, 'k) app_env \<Rightarrow> ('s, 'k, sync_remote_status option) app_op" where
  "sync_get_cached_remote_status E st =
     answer (cached_remote_status_for_state E (status (ap_sync st)) st) st"

definition sync_get_saved_passphrase :: "('s, 'k) app_env \<Rightarrow> string \<Rightarrow> ('s, 'k, string option) app_op" where
  "sync_get_saved_passphrase E vault_id =
     on_setup (read_keys (read_remembered_passphrase (libs E) (store E) (trim vault_id)))"

definition sync_get_saved_recovery_phrase :: "('s, 'k) app_env \<Rightarrow> string \<Rightarrow> ('s, 'k, string option) app_op" where
  "sync_get_saved_recovery_phrase E account_key_id =
     on_setup (read_keys (read_account_recovery_phrase (libs E) (store E) (trim account_key_id)))"

definition sync_get_account_recovery_state ::
    "('s, 'k) app_env \<Rightarrow> ('s, 'k, sync_account_recovery_state) app_op" where
  "sync_get_account_recovery_state E = on_setup (get_account_recovery_state (av_setup E))"

definition sync_list_conflicts :: "('s, 'k) app_env \<Rightarrow> ('s, 'k, sync_conflict_summary list) app_op" where
  "sync_list_conflicts E = list_open_conflicts_for_status E"

definition recovery_phrase_export_text :: "string \<Rightarrow> string \<Rightarrow> string" where
  "recovery_phrase_export_text saved_at phrase =
     join_with [newline]
       [''# Kuku Sync Recovery Phrase'', [], ''Saved at: '' @ saved_at, [],
        ''Keep this file private. Anyone with this recovery phrase and your account access can unlock your encrypted sync workspaces.'',
        [], ''```text'', phrase, ''```'', []]"

end
