(* ===== verification/Sync_Run_Laws.thy ===== *)
theory Sync_Run_Laws
  imports Sync_Run
begin

text \<open>
  The laws of the commands: every command acts on the runtime state only by the methods of \<^verbatim>\<open>Sync_State\<close> and on
  the databases only by the operations of \<^verbatim>\<open>Sync_Db\<close> (a locale over the ways a command acts, with the
  invariant of the application as its consequence), what a successful run has achieved, what
  disconnecting leaves behind, and which conflicts are listed.
\<close>

section \<open>Directories stay directories\<close>

text \<open>No operation makes two entries of a directory share a name.\<close>

lemma settings_keep_tree:
  "fs_wf fs \<Longrightarrow> fs_wf (snd (write_sync_config_with_status L io t root config en u f fs))"
  "fs_wf fs \<Longrightarrow> fs_wf (snd (write_sync_config L io t root config en u fs))"
  "fs_wf fs \<Longrightarrow> fs_wf (snd (delete_sync_config io root fs))"
  "fs_wf fs \<Longrightarrow> fs_wf (fst (snd (reset_sync_config L S io root (fs, k))))"
proof -
  show w: "fs_wf fs \<Longrightarrow> fs_wf (snd (write_sync_config_with_status L io t root config en u f fs))" for f
    by (auto simp: write_sync_config_with_status_def split: result.split option.split dest: fs_write_wf)
  then show "fs_wf fs \<Longrightarrow> fs_wf (snd (write_sync_config L io t root config en u fs))"
    by (auto simp: write_sync_config_def Let_def split: result.split)
  show d: "fs_wf fs \<Longrightarrow> fs_wf (snd (delete_sync_config io root fs))"
    by (auto simp: delete_sync_config_def split: result.split remove_error.split dest: fs_remove_wf)
  then show "fs_wf fs \<Longrightarrow> fs_wf (fst (snd (reset_sync_config L S io root (fs, k))))"
    by (auto simp: reset_sync_config_def Let_def split: prod.split result.split dest: sndI [THEN sym])
qed

interpretation tree_effects: pull_everywhere "\<lambda>st st'. fs_wf (ps_fs st) \<longrightarrow> fs_wf (ps_fs st')" L E input
  for L :: "'z commit_libs_scheme" and E input
proof unfold_locales
  have written: "fs_wf (ps_fs st) \<longrightarrow> fs_wf (ps_fs (snd (apply_remote_write E (pi_vault_root input) path b st)))" for path b st
    using remote_write_effect(3) [of E "pi_vault_root input" path b st "fst (apply_remote_write E (pi_vault_root input) path b st)"
        "snd (apply_remote_write E (pi_vault_root input) path b st)"]
    by (auto dest: fs_write_wf)
  show "fs_wf (ps_fs st) \<longrightarrow> fs_wf (ps_fs (snd (apply_remote_write E (pi_vault_root input) path b st)))" for path b st
    by (rule written)
  show "fs_wf (ps_fs st) \<longrightarrow> fs_wf (ps_fs (snd (apply_remote_write E (pi_vault_root input) path b st)))" for path b st
    by (rule written)
  show "fs_wf (ps_fs st) \<longrightarrow> fs_wf (ps_fs (snd (apply_remote_delete E (pi_vault_root input) path st)))" for path st
    using remote_delete_effect(3) [of E "pi_vault_root input" path st "fst (apply_remote_delete E (pi_vault_root input) path st)"
        "snd (apply_remote_delete E (pi_vault_root input) path st)"]
    by (auto dest: fs_remove_wf)
qed auto

section \<open>What every command keeps\<close>

text \<open>The calls on the runtime state that a run makes between its beginning and its end.\<close>

fun run_call :: "sync_call \<Rightarrow> bool" where
  "run_call (SetPhase ph) = True"
| "run_call (Complete n) = True"
| "run_call (PendingCounts a b) = True"
| "run_call (Progress r ev) = True"
| "run_call _ = False"

locale run_effects = effects R
  for R :: "('s, 'k) app_state \<Rightarrow> ('s, 'k) app_state \<Rightarrow> bool" +
  fixes E :: "('s, 'k) app_env"
  assumes clock_law: "R st (st\<lparr>ap_clock := n\<rparr>)"
    and events_law: "R st (st\<lparr>ap_events := es\<rparr>)"
    and setup_law: "R st (st\<lparr>ap_server := s, ap_keys := k\<rparr>)"
    and files_law: "(fs_wf (vault_tree E root st) \<Longrightarrow> fs_wf fs) \<Longrightarrow> R st (set_vault_tree E root fs st)"
    and watch_law: "R st (st\<lparr>ap_ledger := l, ap_search := q\<rparr>)"
    and conn_law: "R st (st\<lparr>ap_dbs := (ap_dbs st)(v \<mapsto> db_of st v)\<rparr>)"
    and db_law: "db_step (blake3_hex (libs E)) (db_of st v) db \<Longrightarrow> R st (st\<lparr>ap_dbs := (ap_dbs st)(v \<mapsto> db)\<rparr>)"
    and run_law: "run_call c \<Longrightarrow> sync_step (to_lowercase (libs E)) (ap_sync st) c s' \<Longrightarrow> R st (st\<lparr>ap_sync := s'\<rparr>)"
begin

lemma case_R: "R st (snd m) \<Longrightarrow> (\<And>r st'. m = (r, st') \<Longrightarrow> R st' (snd (F r st'))) \<Longrightarrow> R st (snd (case m of (r, st') \<Rightarrow> F r st'))"
  by (cases m) (auto intro: R_trans)

lemma tick_R: "R st (snd (tick E st))"
  by (simp add: tick_def clock_law)

lemma emit_R: "R st (emit_status s st)"
  by (simp add: emit_status_def events_law)

lemma emitted_R: "R st (snd (emitted s st))"
  by (simp add: emitted_def emit_R)

lemma answer_R: "R st (snd (answer r st))"
  by (simp add: answer_def R_refl)

lemma files_R:
  assumes "\<And>fs. fs_wf fs \<Longrightarrow> fs_wf (snd (f fs))"
  shows "R st (snd (on_files E root f st))"
  using files_law [of root st "snd (f (vault_tree E root st))", OF assms] by (cases "f (vault_tree E root st)") (simp add: on_files_def)

lemma setup_R: "R st (snd (on_setup f st))"
  by (simp add: on_setup_def setup_law split: prod.split)

lemma dbs_R: "(db_step (blake3_hex (libs E)))\<^sup>*\<^sup>* (db_of st v) db \<Longrightarrow> R st (st\<lparr>ap_dbs := (ap_dbs st)(v \<mapsto> db)\<rparr>)"
proof (induction rule: rtranclp_induct)
  case base
  show ?case by (rule conn_law)
next
  case (step db db')
  let ?st = "st\<lparr>ap_dbs := (ap_dbs st)(v \<mapsto> db)\<rparr>"
  have "db_of ?st v = db" by (simp add: db_of_def)
  with db_law [of ?st v db'] step(2) have "R ?st (st\<lparr>ap_dbs := (ap_dbs st)(v \<mapsto> db')\<rparr>)" by simp
  with step(3) show ?case by (rule R_trans)
qed

lemma conn_R:
  assumes "\<And>db. (db_step (blake3_hex (libs E)))\<^sup>*\<^sup>* db (snd (f db))"
  shows "R st (snd (on_conn v f st))"
  using dbs_R [OF assms, of st v] by (cases "f (db_of st v)") (simp add: on_conn_def)

lemma step_R:
  assumes "\<And>now s. \<exists>c. run_call c \<and> sync_step (to_lowercase (libs E)) s c (snd (f now s))"
  shows "R st (snd (on_sync E f st))"
proof -
  obtain n st1 where t: "tick E st = (n, st1)" by fastforce
  obtain r s' where f: "f n (ap_sync st1) = (r, s')" by fastforce
  from assms obtain c where "run_call c" "sync_step (to_lowercase (libs E)) (ap_sync st1) c s'" by (metis f snd_conv)
  from run_law [OF this] tick_R [of st] show ?thesis
    by (auto simp: on_sync_def t f intro: R_trans)
qed

end

text \<open>A command may also begin, finish, restore, reset and rename.\<close>

locale app_effects = run_effects R E
  for R :: "('s, 'k) app_state \<Rightarrow> ('s, 'k) app_state \<Rightarrow> bool" and E :: "('s, 'k) app_env" +
  assumes sync_law: "sync_step (to_lowercase (libs E)) (ap_sync st) c s' \<Longrightarrow> R st (st\<lparr>ap_sync := s'\<rparr>)"
begin

lemma sync_runs_R: "sync_runs (to_lowercase (libs E)) (ap_sync st) cs s' \<Longrightarrow> R st (st\<lparr>ap_sync := s'\<rparr>)"
proof (induction "ap_sync st" cs s' arbitrary: st rule: sync_runs.induct)
  case runs_nil
  show ?case using R_refl [of st] by simp
next
  case (runs_cons c t cs u)
  from runs_cons(3) [of "st\<lparr>ap_sync := t\<rparr>"] have "R (st\<lparr>ap_sync := t\<rparr>) (st\<lparr>ap_sync := u\<rparr>)" by simp
  with sync_law [OF runs_cons(1)] show ?case by (rule R_trans)
qed

lemma on_sync_R:
  assumes "\<And>now s. \<exists>cs. sync_runs (to_lowercase (libs E)) s cs (snd (f now s))"
  shows "R st (snd (on_sync E f st))"
proof -
  obtain n st1 where t: "tick E st = (n, st1)" by fastforce
  obtain r s' where f: "f n (ap_sync st1) = (r, s')" by fastforce
  from assms obtain cs where "sync_runs (to_lowercase (libs E)) (ap_sync st1) cs s'" by (metis f snd_conv)
  from sync_runs_R [OF this] tick_R [of st] show ?thesis
    by (auto simp: on_sync_def t f intro: R_trans)
qed

lemma any_step_R: "(\<And>now s. \<exists>c. sync_step (to_lowercase (libs E)) s c (snd (f now s))) \<Longrightarrow> R st (snd (on_sync E f st))"
  by (rule on_sync_R) (meson sync_runs.intros)

end

lemma run_steps:
  "ph \<in> {PhIdle, PhPlanning, PhPublishing, PhApplying} \<Longrightarrow> \<exists>c. run_call c \<and> sync_step lc s c (snd (set_phase now ph s))"
  "\<exists>c. run_call c \<and> sync_step lc s c (snd (complete_manual_sync now n s))"
  "\<exists>c. run_call c \<and> sync_step lc s c (snd (set_pending_counts now a b s))"
  "\<exists>c. run_call c \<and> sync_step lc s c (snd (apply_transfer_progress now r ev s))"
  by (rule exI, rule conjI [rotated], rule sync_step.intros, (assumption)?, rule run_call.simps [THEN iffD2], rule TrueI)+

lemma method_steps:
  "\<exists>c. sync_step lc s c (snd (restore_vault_with_status now config en l s))"
  "\<exists>c. sync_step lc s c (snd (sync_reset now s))"
  "\<exists>c. sync_step lc s c (snd (clear_remote_status_error now s))"
  "\<exists>c. sync_step lc s c (snd (update_workspace_name now w name s))"
  "\<exists>c. sync_step lc s c (snd (set_error lc now e s))"
  by (rule exI, rule sync_step.intros)+

lemma methods_run:
  "\<exists>cs. sync_runs lc s cs (snd (begin_sync_run s))"
  "\<exists>cs. sync_runs lc s cs (snd (set_enabled now en s))"
proof -
  show "\<exists>cs. sync_runs lc s cs (snd (begin_sync_run s))"
  proof (cases "begin_sync_run s")
    case (Pair r s')
    show ?thesis
    proof (cases r)
      case (Ok run)
      with Pair have "sync_step lc s (Began run) s'" by (auto intro: sync_step.began)
      with Pair show ?thesis by (auto intro: runs_cons runs_nil)
    next
      case (Err e)
      with Pair have "s' = s" by (auto simp: begin_sync_run_def Let_def split: if_splits)
      with Pair show ?thesis by (auto intro: runs_nil)
    qed
  qed
  show "\<exists>cs. sync_runs lc s cs (snd (set_enabled now en s))"
  proof (cases "configured (status s) \<and> en")
    case True
    then have "snd (set_enabled now en s) = snd (set_phase now PhIdle (enable_flag s))" by (simp add: set_enabled_def)
    moreover have "sync_step lc (enable_flag s) (SetPhase PhIdle) (snd (set_phase now PhIdle (enable_flag s)))"
      by (rule sync_step.set_phase) simp
    ultimately show ?thesis by (metis runs_cons runs_nil sync_step.enable_flag)
  next
    case False
    then have "snd (set_enabled now en s) = s \<or> snd (set_enabled now en s) = snd (set_enabled now False s)"
      by (auto simp: set_enabled_def)
    then show ?thesis by (metis runs_cons runs_nil sync_step.disable)
  qed
qed

lemma pending_upload_count_steps:
  "(db_step (blake3_hex L))\<^sup>*\<^sup>* db (snd (pending_upload_count L vault_id root fs now db))"
proof -
  have "(db_step (blake3_hex L))\<^sup>*\<^sup>* d (snd (apply_scan (blake3_hex L) inputs now d))" for d inputs
    by (rule r_into_rtranclp) (rule db_step.scan)
  moreover have "(db_step (blake3_hex L))\<^sup>*\<^sup>* d (snd (clear_dirty_files_matching_head c d))" for d c
    by (rule r_into_rtranclp) (rule db_step.clear_dirty)
  ultimately show ?thesis
    unfolding pending_upload_count_def
    by (intro try_then_steps) (simp_all add: Let_def split: option.split)
qed

lemma resolve_conflict_steps: "(db_step hash)\<^sup>*\<^sup>* db (resolve_conflict lc now c db)"
  unfolding resolve_conflict_def Let_def
  by (auto split: result.split intro: db_step.resolve db_step.unsynced converse_rtranclp_into_rtranclp r_into_rtranclp)

lemma db_steps_forget: "(db_step hash)\<^sup>*\<^sup>* db (delete_vault i db)"
  by (rule r_into_rtranclp) (rule db_step.forget)

context run_effects
begin

lemma may_fail_R: "R st (snd (f st)) \<Longrightarrow> R st (snd (may_fail f st))"
  by (cases "f st") (simp add: may_fail_def)

lemma open_R: "R st (snd (open_sync_db_for_vault E v st))"
  unfolding open_sync_db_for_vault_def
  by (auto intro: R_refl dbs_R db_step.init split: option.split result.split)

lemma persist_configured_R: "R st (snd (persist_configured_vault E config en st))"
  unfolding persist_configured_vault_def Let_def
  by (intro case_R tick_R conn_R) (auto intro: db_step.vault)

lemma write_settings_R: "R st (snd (write_settings E config en u f st))"
  unfolding write_settings_def Let_def by (intro case_R tick_R try_then_R files_R answer_R settings_keep_tree(1))

lemma persist_runtime_R: "R st (snd (persist_runtime_status E s st))"
  unfolding persist_runtime_status_def
  by (auto intro!: try_then_R answer_R open_R persist_configured_R write_settings_R R_refl)

lemma persist_remote_R: "R st (snd (persist_remote_status_snapshot E s r st))"
  unfolding persist_remote_status_snapshot_def by (auto intro!: try_then_R answer_R write_settings_R R_refl)

lemma conflicts_loop_R: "R st (snd (list_conflicts_loop E v root cs st))"
proof (induction cs arbitrary: st)
  case (Cons c cs)
  show ?case
    unfolding list_conflicts_loop.simps Let_def
    by (auto intro!: try_then_R answer_R case_R tick_R conn_R Cons resolve_conflict_steps)
qed (simp add: R_refl)

lemma conflicts_R: "R st (snd (list_open_conflicts_of E s st))"
  unfolding list_open_conflicts_of_def Let_def
  by (auto intro!: try_then_R answer_R open_R conflicts_loop_R R_refl split: option.split)

lemma pending_R: "R st (snd (pending_counts_for_status E s b st))"
  unfolding pending_counts_for_status_def Let_def
  by (auto intro!: try_then_R case_R tick_R answer_R open_R conn_R pending_upload_count_steps R_refl split: option.split)

lemma status_R: "R st (snd (status_with_conflicts E b st))"
  unfolding status_with_conflicts_def Let_def
  by (auto intro!: try_then_R answer_R pending_R conflicts_R step_R R_refl run_steps split: option.split)

lemma remote_R: "R st (snd (get_remote_status_for_state E s st))"
  unfolding get_remote_status_for_state_def Let_def
  by (auto intro!: try_then_R case_R tick_R answer_R open_R R_refl split: option.split)

lemma progress_R: "R st (on_transfer_progress E run_id ev st)"
proof -
  have "R st (snd (on_sync E (\<lambda>now. apply_transfer_progress now run_id ev) st))"
    by (rule step_R) (rule run_steps)
  then show ?thesis
    unfolding on_transfer_progress_def Let_def
    by (auto intro: R_trans emit_R split: prod.split result.split option.split)
qed

lemma pulled_R:
  assumes "(db_step (blake3_hex (libs E)))\<^sup>*\<^sup>* (db_of st v) db" "fs_wf (vault_tree E root st) \<Longrightarrow> fs_wf fs"
  shows "R st (set_vault_tree E root fs (st\<lparr>ap_dbs := (ap_dbs st)(v \<mapsto> db), ap_ledger := l, ap_search := q\<rparr>))"
proof -
  let ?st = "st\<lparr>ap_dbs := (ap_dbs st)(v \<mapsto> db), ap_ledger := l, ap_search := q\<rparr>"
  have "R st ?st" using R_trans [OF dbs_R [OF assms(1)] watch_law] by simp
  then show ?thesis by (rule R_trans) (rule files_law, simp add: vault_tree_def assms(2) [unfolded vault_tree_def])
qed

lemma pull_R: "R st (snd (run_pull E i input st))"
proof -
  obtain n st1 where t: "tick E st = (n, st1)" by fastforce
  let ?v = "ri_vault_id input"
  let ?pi = "\<lparr>pi_vault_id = ?v, pi_vault_root = ri_vault_root input, pi_workspace_id = ri_workspace_id input,
    pi_device_id = ri_device_id input, pi_workspace_key = ri_workspace_key input, pi_now_ms = n\<rparr>"
  let ?ps = "\<lparr>ps_db = db_of st1 ?v, ps_fs = vault_tree E (ri_vault_root input) st1, ps_ledger = Some (ap_ledger st1),
    ps_search = Some (ap_search st1), ps_downloads = 0, ps_writes = 0\<rparr>"
  obtain r ps where p: "pull_remote_changes (libs E) ((av_pull E i)\<lparr>pe_queue := default_queue_config\<rparr>) ?pi ?ps = (r, ps)"
    by fastforce
  have steps: "(db_step (blake3_hex (libs E)))\<^sup>*\<^sup>* (db_of st1 ?v) (ps_db ps)"
    using db_effects.pull_R [of "libs E" ?ps "(av_pull E i)\<lparr>pe_queue := default_queue_config\<rparr>" ?pi] by (simp add: p)
  have tree: "fs_wf (vault_tree E (ri_vault_root input) st1) \<Longrightarrow> fs_wf (ps_fs ps)"
    using tree_effects.pull_R [of ?ps "libs E" "(av_pull E i)\<lparr>pe_queue := default_queue_config\<rparr>" ?pi] by (simp add: p)
  have pulled: "R st1 (set_vault_tree E (ri_vault_root input) (ps_fs ps)
      (st1\<lparr>ap_dbs := (ap_dbs st1)(?v \<mapsto> ps_db ps), ap_ledger := l, ap_search := q\<rparr>))" for l q
    using steps tree by (rule pulled_R)
  have "R st st1" using tick_R [of st] by (simp add: t)
  then show ?thesis
    unfolding run_pull_def Let_def t prod.case p snd_conv
    by (rule R_trans) (rule R_trans [OF pulled], rule fold_R, rule progress_R)
qed

lemma push_R: "R st (snd (run_push E i input st))"
  unfolding run_push_def Let_def
  by (auto intro!: case_R tick_R conn_R db_steps_push_local_changes fold_R progress_R)

lemma push_merge_R: "R st (snd (run_push_merge E i input p st))"
  unfolding run_push_merge_def Let_def
  by (auto intro!: case_R tick_R conn_R db_steps_push_merge_commit fold_R progress_R)

lemma phase_R: "ph \<in> {PhIdle, PhPlanning, PhPublishing, PhApplying} \<Longrightarrow> R st (snd (enter_phase E ph st))"
  unfolding enter_phase_def
  by (intro may_fail_R try_then_R step_R) (auto intro: run_steps emit_R)

lemma complete_R: "R st (snd (complete_run E st))"
  unfolding complete_run_def list_open_conflicts_for_status_def
  by (intro try_then_R conflicts_R step_R run_steps)

lemma prepare_R: "R st (snd (prepare_run E p r st))"
  unfolding prepare_run_def Let_def by (intro try_then_R answer_R open_R setup_R)

lemma run_R: "R st (snd (run_sync_once E p r st))"
  unfolding run_sync_once_def Let_def
  by (auto intro!: try_then_R may_fail_R prepare_R phase_R pull_R case_R push_R push_merge_R complete_R R_refl
      split: result.split)

end

context app_effects
begin

lemma reset_R: "R st (snd (sync_state_reset E st))"
  unfolding sync_state_reset_def
  by (intro try_then_R any_step_R emitted_R) (auto simp: split_beta intro: method_steps)

lemma keys_tree_R:
  assumes "fs_wf (vault_tree E root st) \<Longrightarrow> fs_wf fs"
  shows "R st (set_vault_tree E root fs (st\<lparr>ap_keys := k\<rparr>))"
proof -
  have "R st (st\<lparr>ap_keys := k\<rparr>)" using setup_law [where st = st and s = "ap_server st" and k = k] by simp
  then show ?thesis by (rule R_trans) (rule files_law, simp add: vault_tree_def assms [unfolded vault_tree_def])
qed

lemma restore_R: "R st (snd (restore_vault_config_for_root E root st))"
proof -
  have removed: "R st (set_vault_tree E root fs (st\<lparr>ap_keys := k\<rparr>))"
    if "reset_sync_config (libs E) (store E) (av_io E) root (vault_tree E root st, ap_keys st) = (r, fs, k)" for r fs k
    using settings_keep_tree(4) [of "vault_tree E root st" "libs E" "store E" "av_io E" root "ap_keys st"] that
    by (intro keys_tree_R) simp
  show ?thesis
    unfolding restore_vault_config_for_root_def Let_def
    by (auto intro!: try_then_R reset_R answer_R open_R persist_configured_R emitted_R any_step_R method_steps R_refl removed
        split: result.split option.split prod.split sync_error.split)
qed

lemma clear_R: "R st (snd (clear_current_workspace_binding E s st))"
  unfolding clear_current_workspace_binding_def
  by (auto intro!: try_then_R answer_R setup_R files_R settings_keep_tree(3) open_R conn_R reset_R R_refl intro: db_steps_forget split: option.split)

lemma clear_missing_R: "R st (snd (clear_binding_if_current_workspace_missing E s e st))"
  unfolding clear_binding_if_current_workspace_missing_def
  by (auto intro!: try_then_R answer_R setup_R clear_R R_refl split: option.split)

lemma finish_R: "R st (st\<lparr>ap_sync := finish_sync_run r (ap_sync st)\<rparr>)"
  by (rule sync_law) (rule sync_step.finish)

lemma run_once_R: "R st (snd (sync_run_once E p st))"
proof -
  have failed: "R st (snd (case on_sync E (\<lambda>now. set_error (to_lowercase (libs E)) now e) st of
      (r, st) \<Rightarrow> (x :: (sync_runtime_status, pull_fault) result, case r of Ok s \<Rightarrow> emit_status s st | Err _ \<Rightarrow> st)))" for e x st
    by (intro case_R any_step_R method_steps) (auto intro: emit_R R_refl split: result.split)
  have "R st (snd (may_fail (\<lambda>st. try_then (persist_runtime_status E s st) (\<lambda>_. emitted s)) (st\<lparr>ap_sync := finish_sync_run r (ap_sync st)\<rparr>)))"
    for s st r
    by (rule R_trans [OF finish_R [of st r]]) (intro may_fail_R try_then_R persist_runtime_R emitted_R)
  moreover have "R st (snd (let (cleared, st) = clear_binding_if_current_workspace_missing E s e
        (st\<lparr>ap_sync := finish_sync_run r (ap_sync st)\<rparr>)
      in (case cleared of
               Ok (Some _) \<Rightarrow> (Err (Failed NotConfigured), st)
             | _ \<Rightarrow>
                 let (r, st) = on_sync E (\<lambda>now. set_error (to_lowercase (libs E)) now e) st
                 in (Err (Failed e) :: (sync_runtime_status, pull_fault) result,
                     case r of Ok s \<Rightarrow> emit_status s st | Err _ \<Rightarrow> st))))" for st s e r
    by (rule R_trans [OF finish_R [of st r]], subst Let_def, intro case_R clear_missing_R)
      (auto intro: failed R_refl split: result.split option.split)
  ultimately show ?thesis
    unfolding sync_run_once_def
    by (intro try_then_R may_fail_R on_sync_R methods_run, subst Let_def, intro case_R run_R)
      (auto intro: R_refl simp: Let_def split: result.split pull_fault.split)
qed

lemma remote_status_R: "R st (snd (sync_get_remote_status E st))"
  unfolding sync_get_remote_status_def Let_def
  by (auto intro!: case_R remote_R clear_missing_R try_then_R persist_remote_R answer_R any_step_R method_steps emit_R R_refl
      split: result.split option.split)

lemma rename_R: "R st (snd (sync_rename_workspace E rnd w n v p st))"
  unfolding sync_rename_workspace_def Let_def
  by (auto intro!: try_then_R setup_R any_step_R method_steps persist_runtime_R emit_R R_refl split: option.split)

lemma delete_R: "R st (snd (sync_delete_workspace E w st))"
  unfolding sync_delete_workspace_def Let_def
  by (auto intro!: try_then_R answer_R setup_R clear_R R_refl)

lemma configure_R: "R st (snd (sync_configure_vault E rnd config st))"
proof -
  have probe: "R st (snd (probe_sync_config E rnd config st))" for st
    unfolding probe_sync_config_def Let_def
    by (auto intro!: try_then_R answer_R open_R setup_R R_refl)
  have commit: "R st (snd (commit_sync_config_probe E pr st))" for pr st
    unfolding commit_sync_config_probe_def Let_def split_beta
    by (intro try_then_R open_R persist_configured_R setup_R files_R settings_keep_tree(2) answer_R R_trans [OF tick_R])
  show ?thesis
    unfolding sync_configure_vault_def configure_vault_def
    by (intro try_then_R probe commit any_step_R method_steps emitted_R)
qed

lemma commands_R:
  "R st (snd (sync_disconnect_vault E st))" "R st (snd (sync_rebuild_vault_state E st))"
  "R st (snd (sync_set_enabled E en st))" "R st (snd (sync_list_workspaces E p st))"
  "R st (snd (sync_create_workspace E rnd n p st))" "R st (snd (sync_get_status E scan_local st))"
  "R st (snd (sync_get_cached_remote_status E st))" "R st (snd (sync_get_saved_passphrase E v st))"
  "R st (snd (sync_get_saved_recovery_phrase E i st))" "R st (snd (sync_get_account_recovery_state E st))"
  "R st (snd (sync_list_conflicts E st))"
proof -
  show "R st (snd (sync_set_enabled E en st))"
    unfolding sync_set_enabled_def by (intro try_then_R on_sync_R methods_run persist_runtime_R emitted_R)
qed (auto simp: sync_disconnect_vault_def sync_rebuild_vault_state_def sync_list_workspaces_def
      sync_create_workspace_def sync_get_status_def sync_get_cached_remote_status_def sync_get_saved_passphrase_def
      sync_get_saved_recovery_phrase_def sync_get_account_recovery_state_def sync_list_conflicts_def
      list_open_conflicts_for_status_def Let_def
      intro!: try_then_R answer_R clear_R any_step_R method_steps status_R persist_runtime_R emitted_R setup_R conflicts_R R_refl)

end

section \<open>The invariant of the application\<close>

text \<open>
  Between the states before and after a command the runtime state has moved by its own methods and every database by
  its own operations.
\<close>

definition app_moves :: "('s, 'k) app_env \<Rightarrow> ('s, 'k) app_state \<Rightarrow> ('s, 'k) app_state \<Rightarrow> bool" where
  "app_moves E st st' \<longleftrightarrow>
     (\<exists>calls. sync_runs (to_lowercase (libs E)) (ap_sync st) calls (ap_sync st')) \<and>
     (\<forall>v. (db_step (blake3_hex (libs E)))\<^sup>*\<^sup>* (db_of st v) (db_of st' v))"

interpretation app: app_effects "app_moves E" E for E :: "('s, 'k) app_env"
proof unfold_locales
  show "app_moves E st st2" if "app_moves E st st1" "app_moves E st1 st2" for st st1 st2
    using that unfolding app_moves_def by (meson sync_runs_append rtranclp_trans)
  show "app_moves E st (st\<lparr>ap_dbs := (ap_dbs st)(v \<mapsto> db)\<rparr>)"
    if "db_step (blake3_hex (libs E)) (db_of st v) db" for st v db
    using that unfolding app_moves_def by (auto simp: db_of_def intro: runs_nil)
  show moved: "app_moves E st (st\<lparr>ap_sync := s'\<rparr>)" if "sync_step (to_lowercase (libs E)) (ap_sync st) c s'" for st c s'
    using that unfolding app_moves_def by (auto simp: db_of_def intro: runs_cons runs_nil)
  then show "app_moves E st (st\<lparr>ap_sync := s'\<rparr>)" if "sync_step (to_lowercase (libs E)) (ap_sync st) c s'" for st c s'
    using that .
qed (auto simp: app_moves_def db_of_def set_vault_tree_def intro: runs_nil)

text \<open>One command of the user interface, or the restoring of the settings when a vault is opened.\<close>

inductive app_step :: "('s, 'k) app_env \<Rightarrow> ('s, 'k) app_state \<Rightarrow> ('s, 'k) app_state \<Rightarrow> bool"
  for E :: "('s, 'k) app_env" where
  status_cmd: "app_step E st (snd (sync_get_status E scan_local st))"
| cached_status_cmd: "app_step E st (snd (sync_get_cached_remote_status E st))"
| passphrase_cmd: "app_step E st (snd (sync_get_saved_passphrase E v st))"
| phrase_cmd: "app_step E st (snd (sync_get_saved_recovery_phrase E i st))"
| recovery_cmd: "app_step E st (snd (sync_get_account_recovery_state E st))"
| remote_status_cmd: "app_step E st (snd (sync_get_remote_status E st))"
| list_cmd: "app_step E st (snd (sync_list_workspaces E p st))"
| create_cmd: "app_step E st (snd (sync_create_workspace E rnd n p st))"
| rename_cmd: "app_step E st (snd (sync_rename_workspace E rnd w n v p st))"
| delete_cmd: "app_step E st (snd (sync_delete_workspace E w st))"
| configure_cmd: "app_step E st (snd (sync_configure_vault E rnd config st))"
| disconnect_cmd: "app_step E st (snd (sync_disconnect_vault E st))"
| rebuild_cmd: "app_step E st (snd (sync_rebuild_vault_state E st))"
| enable_cmd: "app_step E st (snd (sync_set_enabled E en st))"
| run_cmd: "app_step E st (snd (sync_run_once E p st))"
| conflicts_cmd: "app_step E st (snd (sync_list_conflicts E st))"
| open_vault: "app_step E st (snd (restore_vault_config_for_root E root st))"

lemma app_step_moves: "app_step E st st' \<Longrightarrow> app_moves E st st'"
  by (induction rule: app_step.induct)
    (simp_all add: app.remote_status_R app.rename_R app.delete_R app.configure_R app.commands_R app.run_once_R app.restore_R)

text \<open>Between two commands the environment may answer differently; the libraries stay.\<close>

inductive app_history :: "setup_libs \<Rightarrow> ('s, 'k) app_state \<Rightarrow> ('s, 'k) app_state \<Rightarrow> bool" for L :: setup_libs where
  start: "app_history L st st"
| command: "app_history L st st1 \<Longrightarrow> libs E = L \<Longrightarrow> app_step E st1 st2 \<Longrightarrow> app_history L st st2"

definition app_ok :: "setup_libs \<Rightarrow> ('s, 'k) app_state \<Rightarrow> bool" where
  "app_ok L st \<longleftrightarrow> status_ok (status (ap_sync st)) \<and> runs_ok (ap_sync st) \<and>
     (\<forall>v. db_wf (db_of st v) \<and> ids_derived (blake3_hex L) (sync_files (db_of st v)))"

lemma app_moves_ok: "app_moves E st st' \<Longrightarrow> app_ok (libs E) st \<Longrightarrow> app_ok (libs E) st'"
  unfolding app_moves_def app_ok_def by (meson sync_runs_invariant db_steps_wf ids_derived_steps)

definition launched :: "int \<Rightarrow> ('s, 'k) app_state \<Rightarrow> bool" where
  "launched now st \<longleftrightarrow> ap_sync st = sync_new now \<and> ap_dbs st = Map.empty"

lemma launched_ok: "launched now st \<Longrightarrow> app_ok L st"
proof -
  have "sync_files empty_db = []" by (simp add: empty_db_def)
  then show "launched now st \<Longrightarrow> app_ok L st"
    by (simp add: launched_def app_ok_def sync_new_ok db_of_def db_wf_empty ids_derived_def)
qed

text \<open>
  C2. Whatever the user does and however the server, the keychain and the vault answer, the application stays
  consistent: after any sequence of commands, failed ones included, the engine's phase, error and
  counters agree with each other, the run identifiers are in order, and every database has unique
  keys and file identifiers derived from the paths.
\<close>

theorem app_invariant:
  assumes "launched now st" "app_history L st st'"
  shows "phase_ok (status (ap_sync st')) \<and> error_ok (status (ap_sync st')) \<and> runs_ok (ap_sync st') \<and>
    (\<forall>v. db_wf (db_of st' v) \<and> ids_derived (blake3_hex L) (sync_files (db_of st' v)))"
proof -
  have "app_ok L st'"
    using assms(2) launched_ok [OF assms(1)]
    by (induction rule: app_history.induct) (auto dest: app_step_moves app_moves_ok)
  then show ?thesis by (simp add: app_ok_def status_ok_def)
qed

section \<open>What a run keeps\<close>

text \<open>Which vault, workspace and device the engine is bound to, and which run is active.\<close>

definition binding_of :: "sync_runtime_status \<Rightarrow> bool \<times> bool \<times> string option \<times> string option \<times> string option \<times> string option" where
  "binding_of s = (configured s, enabled s, st_vault_id s, st_root_path s, st_remote_workspace_id s, st_device_id s)"

definition run_keeps :: "('s, 'k) app_state \<Rightarrow> ('s, 'k) app_state \<Rightarrow> bool" where
  "run_keeps st st' \<longleftrightarrow> active_run_id (ap_sync st') = active_run_id (ap_sync st) \<and>
     binding_of (status (ap_sync st')) = binding_of (status (ap_sync st)) \<and> ap_open_root st' = ap_open_root st"

lemma progress_binding: "binding_of (progress_status ev s) = binding_of s"
  by (cases ev) (simp_all add: binding_of_def Let_def)

lemma run_call_keeps:
  assumes "sync_step lc s c s'" "run_call c"
  shows "active_run_id s' = active_run_id s" "binding_of (status s') = binding_of (status s)"
  using assms
  by (induction rule: sync_step.induct)
    (auto simp: set_phase_def complete_manual_sync_def set_pending_counts_def apply_transfer_progress_def
      progress_binding [unfolded binding_of_def prod.inject] binding_of_def Let_def)

interpretation run: run_effects run_keeps E for E :: "('s, 'k) app_env"
proof unfold_locales
  show "run_keeps st (st\<lparr>ap_sync := s'\<rparr>)"
    if "run_call c" "sync_step (to_lowercase (libs E)) (ap_sync st) c s'" for c s' and st :: "('s, 'k) app_state"
    using run_call_keeps [OF that(2,1)] by (simp add: run_keeps_def)
qed (auto simp: run_keeps_def set_vault_tree_def)

definition vaults_wf :: "('s, 'k) app_state \<Rightarrow> bool" where
  "vaults_wf st \<longleftrightarrow> (\<forall>p fs. ap_vaults st p = Some fs \<longrightarrow> fs_wf fs)"

lemma vault_tree_wf: "vaults_wf st \<Longrightarrow> fs_wf (vault_tree E root st)"
  by (simp add: vaults_wf_def vault_tree_def split: option.split)

interpretation trees: app_effects "\<lambda>st st'. vaults_wf st \<longrightarrow> vaults_wf st'" E for E :: "('s, 'k) app_env"
proof unfold_locales
  show "vaults_wf st \<longrightarrow> vaults_wf (set_vault_tree E root fs st)"
    if "fs_wf (vault_tree E root st) \<Longrightarrow> fs_wf fs" for root fs and st :: "('s, 'k) app_state"
  proof
    assume wf: "vaults_wf st"
    with that have "fs_wf fs" by (simp add: vault_tree_wf)
    with wf show "vaults_wf (set_vault_tree E root fs st)" by (simp add: set_vault_tree_def vaults_wf_def)
  qed
  show "vaults_wf st \<longrightarrow> vaults_wf st2" if "vaults_wf st \<longrightarrow> vaults_wf st1" "vaults_wf st1 \<longrightarrow> vaults_wf st2"
    for st st1 st2 :: "('s, 'k) app_state" using that by simp
qed (simp_all add: vaults_wf_def)

definition reach :: "('s, 'k) app_env \<Rightarrow> ('s, 'k) app_state \<Rightarrow> ('s, 'k) app_state \<Rightarrow> bool" where
  "reach E st st' \<longleftrightarrow> app_moves E st st' \<and> (vaults_wf st \<longrightarrow> vaults_wf st') \<and> run_keeps st st'"

interpretation reach: run_effects "reach E" E for E :: "('s, 'k) app_env"
proof unfold_locales
  show "reach E st st2" if "reach E st st1" "reach E st1 st2" for st st1 st2
    using that app.R_trans run.R_trans unfolding reach_def by blast
  show "reach E st (set_vault_tree E root fs st)" if "fs_wf (vault_tree E root st) \<Longrightarrow> fs_wf fs" for root fs st
    using that by (simp add: reach_def app.files_law trees.files_law run.files_law)
qed (simp_all add: reach_def app.R_refl run.R_refl app.clock_law trees.clock_law run.clock_law app.events_law trees.events_law
      run.events_law app.setup_law trees.setup_law run.setup_law app.watch_law trees.watch_law run.watch_law
      app.conn_law trees.conn_law run.conn_law app.db_law trees.db_law run.db_law app.run_law trees.run_law run.run_law)

lemma may_fail_Ok: "may_fail f st = (Ok a, st') \<longleftrightarrow> f st = (Ok a, st')"
  by (cases "f st"; cases "fst (f st)") (auto simp: may_fail_def)

lemma reaches:
  "prepare_run E p r st = (x, st') \<Longrightarrow> reach E st st'"
  "ph \<in> {PhIdle, PhPlanning, PhPublishing, PhApplying} \<Longrightarrow> enter_phase E ph st = (y, st') \<Longrightarrow> reach E st st'"
  "run_pull E i input st = (z, st') \<Longrightarrow> reach E st st'"
  "run_push E i input st = (u, st') \<Longrightarrow> reach E st st'"
  "run_push_merge E i input c st = (u, st') \<Longrightarrow> reach E st st'"
  "complete_run E st = (s, st') \<Longrightarrow> reach E st st'"
  using reach.prepare_R [of E st p r] reach.phase_R [of ph E st] reach.pull_R [of E st i input] reach.push_R [of E st i input]
    reach.push_merge_R [of E st i input c] reach.complete_R [of E st] by simp_all

text \<open>The last steps of a successful run: a push that went through, and the counting of the open conflicts.\<close>

definition last_push :: "('s, 'k) app_env \<Rightarrow> run_input \<Rightarrow> ('s, 'k) app_state \<Rightarrow> ('s, 'k) app_state \<Rightarrow> bool" where
  "last_push E input st st' \<longleftrightarrow>
     (\<exists>i r. run_push E i input st = (Ok r, st') \<or> (\<exists>c. run_push_merge E i input c st = (Ok r, st')))"

lemma run_sync_once_Ok:
  assumes "run_sync_once E p r st = (Ok s, st')"
  shows "\<exists>input st1 st2 st3. prepare_run E p r st = (Ok input, st1) \<and> reach E st st2 \<and> last_push E input st2 st3 \<and>
    complete_run E st3 = (Ok s, st')"
proof -
  from assms obtain input st1 u1 sta pr stb u2 stc pushed std where
    prep: "prepare_run E p r st = (Ok input, st1)" and a: "enter_phase E PhApplying st1 = (Ok u1, sta)"
    and b: "run_pull E 0 input sta = (Ok pr, stb)" and c: "enter_phase E PhPlanning stb = (Ok u2, stc)"
    and push: "run_push E 1 input stc = (pushed, std)"
    and rest: "(case pushed of
          Ok _ \<Rightarrow> may_fail (complete_run E) std
        | Err error \<Rightarrow>
            if is_head_conflict (to_lowercase (libs E)) error
            then
              try_then (enter_phase E PhApplying std) (\<lambda>_ st.
              try_then (run_pull E 2 input st) (\<lambda>_ st.
              try_then (enter_phase E PhPublishing st) (\<lambda>_ st.
              try_then (may_fail (if local_parent_of (ri_vault_id input) (db_of stc (ri_vault_id input)) = [] then run_push E 3 input
                  else run_push_merge E 3 input (local_parent_of (ri_vault_id input) (db_of stc (ri_vault_id input)))) st) (\<lambda>_.
                may_fail (complete_run E)))))
            else (Err (Failed error), std)) = (Ok s, st')"
    unfolding run_sync_once_def try_then_eq_Ok Let_def may_fail_Ok
    by (elim exE conjE) (auto split: prod.split_asm)
  have stc: "reach E st stc"
    using reaches(1) [OF prep] reaches(2) [OF _ a] reaches(3) [OF b] reaches(2) [OF _ c] by (auto intro: reach.R_trans)
  show ?thesis
  proof (cases pushed)
    case (Ok x)
    with push have "last_push E input stc std" by (auto simp: last_push_def)
    moreover have "complete_run E std = (Ok s, st')" using rest Ok by (simp add: may_fail_Ok)
    ultimately show ?thesis using prep stc by blast
  next
    case (Err error)
    with rest obtain u3 ste pr2 stf u4 stg pushed2 sth where
      e: "enter_phase E PhApplying std = (Ok u3, ste)" "run_pull E 2 input ste = (Ok pr2, stf)"
        "enter_phase E PhPublishing stf = (Ok u4, stg)"
      and last: "(if local_parent_of (ri_vault_id input) (db_of stc (ri_vault_id input)) = [] then run_push E 3 input
        else run_push_merge E 3 input (local_parent_of (ri_vault_id input) (db_of stc (ri_vault_id input)))) stg = (Ok pushed2, sth)"
      and fin: "complete_run E sth = (Ok s, st')"
      by (auto simp: try_then_eq_Ok may_fail_Ok simp del: split_paired_Ex split: if_split_asm)
    from last have last: "last_push E input stg sth" by (auto simp: last_push_def split: if_split_asm)
    have "reach E st stg"
      using stc reaches(4) [OF push] reaches(2) [OF _ e(1)] reaches(3) [OF e(2)] reaches(2) [OF _ e(3)]
      by simp (meson reach.R_trans)
    with prep last fin show ?thesis by blast
  qed
qed

section \<open>What a successful run has done\<close>

text \<open>Nothing is waiting to be synced but deleted files.\<close>

definition settled :: "sync_db \<Rightarrow> bool" where
  "settled db \<longleftrightarrow> (\<forall>row \<in> set (sync_files db). dirty row \<longrightarrow> deleted row)"

lemma settled_operations:
  "settled db \<Longrightarrow> settled (init_schema db)" "settled db \<Longrightarrow> settled (upsert_vault v db)"
  "settled db \<Longrightarrow> settled (resolve_conflict lc now c db)"
  by (auto simp: settled_def init_schema_def ensure_tree_entry_content_commit_id_column_def reset_schema_def empty_db_def
      persist_schema_version_def upsert_vault_def resolve_conflict_def mark_conflict_resolved_def
      mark_unsynced_file_deleted_clean_def update_rows_def Let_def split: option.split result.split)

lemma push_settled:
  assumes "push_local_changes L N q planner nonces input fs db = (Ok r, db')"
    and "db_wf db" "ids_derived (blake3_hex L) (sync_files db)" "fs_wf fs"
  shows "settled db'"
proof (cases rule: push_local_changes_cases [OF assms, case_names idle commit])
  case idle
  then show ?thesis by (simp add: settled_def)
next
  case (commit head vault plan reserved pc meta pub db2 v)
  then show ?thesis by (auto simp: settled_def)
qed

lemma push_merge_settled:
  assumes push: "push_merge_commit L N q planner nonces input fs db = (Ok r, db')"
    and wf: "db_wf db" "ids_derived (blake3_hex L) (sync_files db)" "fs_wf fs"
  shows "settled db'"
proof -
  from push obtain head where head: "cn_get_head N (in_workspace_id input) = Ok head"
    by (auto simp: push_merge_commit_def result_simps)
  obtain vault db1 where vault: "ensure_merge_vault_record input head db = (vault, db1)" by fastforce
  from push obtain files res db2 plan where
    can: "ensure_merge_parent_can_push vault (current_head_commit_id head) (in_local_parent_commit_id input) = Ok ()"
    and scan: "scan_and_apply L (in_vault_root input) fs (in_now_ms input) db1 = (Ok (files, res), db2)"
    and plan: "plan_incremental (blake3_hex L) (json_planned_tree L) res files planner = Ok plan"
    and done': "(if plan_is_empty (plan\<lparr>commit_kind := PlanMerge\<rparr>) then (Ok not_published, db2)
      else publish_plan L N q nonces input PlanMerge (current_head_commit_id head)
        [current_head_commit_id head, in_local_parent_commit_id input] (vr_next_device_seq vault)
        (plan\<lparr>commit_kind := PlanMerge\<rparr>) db2) = (Ok r, db')"
    by (auto simp: push_merge_commit_def result_simps head vault Let_def)
  have db1: "db1 = upsert_vault vault db" "vr_vault_id vault = in_vault_id input"
    using vault refreshed_vault_id [where input = input and db = db and head = head] by (auto simp: ensure_merge_vault_record_def Let_def)
  have wf1: "db_wf db1" "ids_derived (blake3_hex L) (sync_files db1)"
    using wf(1,2) db_steps_wf [OF db_steps_upsert_vault] by (auto simp: db1(1)) (simp add: upsert_vault_def)
  have "current_head_commit_id head \<noteq> []" using can by (auto simp: ensure_merge_parent_can_push_def split: if_split_asm)
  then have "file_id row \<in> op_file_id ` set (file_ops plan)"
    if "row \<in> set (sync_files db2)" "\<not> deleted row" "dirty row" for row
    using push_plan_covers [OF scan wf1 wf(3), of "current_head_commit_id head" "json_planned_tree L" planner plan] plan that by simp
  note covers = this
  show ?thesis
  proof (cases "plan_is_empty (plan\<lparr>commit_kind := PlanMerge\<rparr>)")
    case True
    then show ?thesis using done' covers by (fastforce simp: plan_is_empty_def settled_def)
  next
    case False
    obtain rows where rows: "db2 = db1\<lparr>sync_files := rows\<rparr>" using scan_and_apply_Ok(6) [OF scan wf1 wf(3)] by blast
    obtain t where v: "get_vault db2 (in_vault_id input) = Some (vault\<lparr>vr_created_at_ms := t\<rparr>)"
      using get_upserted_vault [of vault db] by (auto simp: db1 rows get_vault_def)
    have w: "db_wf db2" using db_steps_wf [OF db_steps_scan_and_apply wf1(1)] scan by (metis snd_conv)
    have "publish_plan L N q nonces input PlanMerge (current_head_commit_id head)
        [current_head_commit_id head, in_local_parent_commit_id input] (vr_next_device_seq vault)
        (plan\<lparr>commit_kind := PlanMerge\<rparr>) db2 = (Ok r, db')" using done' False by simp
    then show ?thesis by (rule publish_plan_Ok [OF _ w v]) (use covers in \<open>auto simp: settled_def\<close>)
  qed
qed

lemma frames [simp]:
  "ap_dbs (snd (tick E st)) = ap_dbs st" "ap_vaults (snd (tick E st)) = ap_vaults st"
  "ap_dbs (snd (on_sync E f st)) = ap_dbs st" "ap_vaults (snd (on_sync E f st)) = ap_vaults st"
  "ap_dbs (emit_status s st) = ap_dbs st" "ap_vaults (emit_status s st) = ap_vaults st"
  "ap_dbs (set_vault_tree E root fs st) = ap_dbs st" "ap_dbs (snd (on_files E root g st)) = ap_dbs st"
  by (simp_all add: tick_def on_sync_def emit_status_def set_vault_tree_def on_files_def Let_def split: prod.split)

lemma progress_frame [simp]: "ap_dbs (on_transfer_progress E r ev st) = ap_dbs st"
proof -
  have "ap_dbs st' = ap_dbs st" if "on_sync E (\<lambda>now. apply_transfer_progress now r ev) st = (x, st')" for x st'
    using frames(3) [of E "\<lambda>now. apply_transfer_progress now r ev" st] that by simp
  then show ?thesis
    by (auto simp: on_transfer_progress_def Let_def split: prod.split result.split option.split)
qed

lemma progress_fold_frame [simp]: "ap_dbs (fold (on_transfer_progress E r) evs st) = ap_dbs st"
  by (induction evs arbitrary: st) simp_all

lemma last_push_settled:
  assumes "last_push E input st st'" "app_ok (libs E) st" "vaults_wf st"
  shows "settled (db_of st' (ri_vault_id input))"
proof -
  let ?v = "ri_vault_id input"
  let ?st = "st\<lparr>ap_clock := Suc (ap_clock st)\<rparr>"
  have fs: "fs_wf (vault_tree E (ri_vault_root input) ?st)" using assms(3) by (simp add: vault_tree_wf vaults_wf_def)
  have db: "db_wf (db_of ?st ?v)" "ids_derived (blake3_hex (libs E)) (sync_files (db_of ?st ?v))"
    using assms(2) by (simp_all add: app_ok_def db_of_def)
  from assms(1) obtain i r x where
    "run_push E i input st = (Ok r, st') \<or> run_push_merge E i input x st = (Ok r, st')" by (auto simp: last_push_def)
  then obtain db' where "settled db'" "ap_dbs st' ?v = Some db'"
    using push_settled [OF _ db fs] push_merge_settled [OF _ db fs]
    by (fastforce simp: run_push_def run_push_merge_def tick_def on_conn_def Let_def split: prod.split_asm)
  then show ?thesis by (simp add: db_of_def)
qed

text \<open>Operations that only record: the runtime state stays, and no file becomes dirty.\<close>

definition quiet :: "('s, 'k) app_state \<Rightarrow> ('s, 'k) app_state \<Rightarrow> bool" where
  "quiet st st' \<longleftrightarrow> ap_sync st' = ap_sync st \<and> (\<forall>v. settled (db_of st v) \<longrightarrow> settled (db_of st' v))"

interpretation quiet: effects quiet
  by unfold_locales (auto simp: quiet_def)

lemma quiet_tick: "quiet st (snd (tick E st))"
  by (simp add: quiet_def tick_def db_of_def)

lemma quiet_answer: "quiet st (snd (answer r st))"
  by (simp add: quiet_def answer_def)

lemma quiet_tree: "quiet st (set_vault_tree E root fs st)"
  by (simp add: quiet_def set_vault_tree_def db_of_def)

lemma quiet_files: "quiet st (snd (on_files E root f st))"
  by (simp add: on_files_def quiet_tree split: prod.split)

lemma quiet_conn:
  assumes "\<And>db. settled db \<Longrightarrow> settled (snd (f db))"
  shows "quiet st (snd (on_conn v f st))"
  using assms [of "db_of st v"] by (cases "f (db_of st v)") (auto simp: quiet_def on_conn_def db_of_def)

lemma quiet_case:
  "quiet st (snd m) \<Longrightarrow> (\<And>r st'. quiet st' (snd (F r st'))) \<Longrightarrow> quiet st (snd (case m of (r, st') \<Rightarrow> F r st'))"
  by (cases m) (auto intro: quiet.R_trans)

lemma quiet_open: "quiet st (snd (open_sync_db_for_vault E v st))"
  by (auto simp: open_sync_db_for_vault_def quiet_def db_of_def settled_operations split: option.split result.split)

lemma quiet_conflicts: "quiet st (snd (list_open_conflicts_of E s st))"
proof -
  have loop: "quiet st (snd (list_conflicts_loop E v root cs st))" for v root cs st
  proof (induction cs arbitrary: st)
    case (Cons c cs)
    show ?case
      unfolding list_conflicts_loop.simps Let_def
      by (auto intro!: quiet.try_then_R quiet_answer quiet_case quiet_tick quiet_conn Cons settled_operations(3))
  qed (simp add: quiet.R_refl)
  show ?thesis
    unfolding list_open_conflicts_of_def Let_def
    by (auto intro!: quiet.try_then_R quiet_answer quiet_open loop quiet.R_refl split: option.split)
qed

lemma quiet_persist: "quiet st (snd (persist_runtime_status E s st))"
proof -
  have "quiet st (snd (persist_configured_vault E config en st))" for config en st
    unfolding persist_configured_vault_def Let_def
    by (intro quiet_case quiet_tick quiet_conn) (auto intro: settled_operations)
  moreover have "quiet st (snd (write_settings E config en u f st))" for config en u f st
    unfolding write_settings_def Let_def by (intro quiet_case quiet_tick quiet.try_then_R quiet_files quiet_answer)
  ultimately show ?thesis
    unfolding persist_runtime_status_def
    by (auto intro!: quiet.try_then_R quiet_answer quiet_open quiet.R_refl)
qed

lemma complete_run_Ok:
  assumes "complete_run E st = (Ok s, st')"
  shows "status (ap_sync st') = s" "phase s = PhIdle" "last_error s = None" "pending_uploads s = 0" "pending_downloads s = 0"
    "settled (db_of st v) \<Longrightarrow> settled (db_of st' v)"
proof -
  from assms obtain conflicts st1 where c: "list_open_conflicts_of E (status (ap_sync st)) st = (Ok conflicts, st1)"
    and done': "on_sync E (\<lambda>now. complete_manual_sync now (to_i64 (length conflicts))) st1 = (Ok s, st')"
    by (auto simp: complete_run_def list_open_conflicts_for_status_def try_then_eq_Ok)
  from done' show "status (ap_sync st') = s" "phase s = PhIdle" "last_error s = None" "pending_uploads s = 0"
    "pending_downloads s = 0"
    by (auto simp: on_sync_def complete_manual_sync_def Let_def split: prod.split_asm if_split_asm)
  from c quiet_conflicts [of st E "status (ap_sync st)"] have "quiet st st1" by simp
  moreover from done' have "ap_dbs st' = ap_dbs st1"
    using frames(3) [of E "\<lambda>now. complete_manual_sync now (to_i64 (length conflicts))" st1] by simp
  ultimately show "settled (db_of st v) \<Longrightarrow> settled (db_of st' v)" by (simp add: quiet_def db_of_def)
qed

lemma begun_run:
  assumes "on_sync E (\<lambda>_. begin_sync_run) st = (Ok r, st')"
  shows "active_run_id (ap_sync st) = None" "active_run_id (ap_sync st') = Some r" "status (ap_sync st') = status (ap_sync st)"
  using assms by (auto simp: on_sync_def tick_def begin_sync_run_def Let_def split: if_split_asm)

lemma prepare_run_vault:
  assumes "prepare_run E p r st = (Ok input, st')"
  shows "trimmed_optional (st_vault_id (status (ap_sync st))) = Some (ri_vault_id input)"
  using assms by (auto simp: prepare_run_def try_then_eq_Ok answer_def required_status_value_def result_simps Let_def)

lemma sync_run_once_Ok:
  assumes "sync_run_once E p st = (Ok s, st')"
  obtains r st1 st2 u st3 where
    "on_sync E (\<lambda>_. begin_sync_run) st = (Ok r, st1)" "run_sync_once E p r st1 = (Ok s, st2)"
    "persist_runtime_status E s (st2\<lparr>ap_sync := finish_sync_run r (ap_sync st2)\<rparr>) = (Ok u, st3)"
    "st' = emit_status s st3"
proof -
  obtain r st1 where began: "on_sync E (\<lambda>_. begin_sync_run) st = (Ok r, st1)"
    using assms unfolding sync_run_once_def try_then_eq_Ok may_fail_Ok by (elim exE conjE)
  obtain outcome st2 where run: "run_sync_once E p r st1 = (outcome, st2)" by fastforce
  have started: "may_fail (on_sync E (\<lambda>_. begin_sync_run)) st = (Ok r, st1)" using began by (simp add: may_fail_Ok)
  show thesis
  proof (cases outcome)
    case (Ok s1)
    with assms run show thesis
      by (auto simp: sync_run_once_def started may_fail_Ok try_then_eq_Ok emitted_def intro: that [OF began])
  next
    case (Err fault)
    with assms run show thesis
      by (cases fault) (auto simp: sync_run_once_def started Let_def split: prod.split_asm result.split_asm option.split_asm)
  qed
qed

text \<open>
  C1. A successful run leaves the vault synced: the engine is idle without an error and without a run, reports nothing
  pending, is bound to the vault it was bound to, and in that vault's database every file still
  marked dirty is a deleted one.
\<close>

theorem run_settles_vault:
  assumes "sync_run_once E p st = (Ok s, st')" "app_ok (libs E) st" "vaults_wf st"
  shows "status (ap_sync st') = s \<and> phase s = PhIdle \<and> last_error s = None \<and> pending_uploads s = 0 \<and>
    pending_downloads s = 0 \<and> active_run_id (ap_sync st') = None \<and>
    binding_of s = binding_of (status (ap_sync st)) \<and>
    (\<exists>v. trimmed_optional (st_vault_id s) = Some v \<and>
       (\<forall>row \<in> set (sync_files (db_of st' v)). dirty row \<longrightarrow> deleted row))"
proof -
  from sync_run_once_Ok [OF assms(1)] obtain r st1 st2 u st3 where
    began: "on_sync E (\<lambda>_. begin_sync_run) st = (Ok r, st1)" and run: "run_sync_once E p r st1 = (Ok s, st2)"
    and fin: "persist_runtime_status E s (st2\<lparr>ap_sync := finish_sync_run r (ap_sync st2)\<rparr>) = (Ok u, st3)"
    and st': "st' = emit_status s st3" .
  from run_sync_once_Ok [OF run] obtain input sta stb stc where
    prep: "prepare_run E p r st1 = (Ok input, sta)" and reach: "reach E st1 stb"
    and push: "last_push E input stb stc" and complete: "complete_run E stc = (Ok s, st2)"
    by blast
  note comp = complete_run_Ok [OF complete]
  have st1: "app_ok (libs E) st1" "vaults_wf st1"
  proof -
    have "app_moves E st (snd (on_sync E (\<lambda>_. begin_sync_run) st))" by (rule app.on_sync_R) (rule methods_run)
    then show "app_ok (libs E) st1" using began assms(2) app_moves_ok by fastforce
    show "vaults_wf st1" using frames(4) [of E "\<lambda>_. begin_sync_run" st] began assms(3) by (simp add: vaults_wf_def)
  qed
  have "app_ok (libs E) stb" "vaults_wf stb" using reach st1 app_moves_ok by (auto simp: reach_def)
  then have "settled (db_of stc (ri_vault_id input))" by (rule last_push_settled [OF push])
  then have "settled (db_of st2 (ri_vault_id input))" by (rule comp(6))
  then have settled: "settled (db_of (st2\<lparr>ap_sync := finish_sync_run r (ap_sync st2)\<rparr>) (ri_vault_id input))" by (simp add: db_of_def)
  have keeps: "run_keeps st1 st2"
  proof -
    have "reach E stb stc" using push by (auto simp: last_push_def dest: reaches(4,5))
    then show ?thesis using reach reaches(6) [OF complete] run.R_trans unfolding reach_def by blast
  qed
  then have act: "active_run_id (ap_sync st2) = Some r" "binding_of s = binding_of (status (ap_sync st))"
    using begun_run [OF began] comp(1) by (simp_all add: run_keeps_def)
  have "quiet (st2\<lparr>ap_sync := finish_sync_run r (ap_sync st2)\<rparr>) st3"
    using quiet_persist [of "st2\<lparr>ap_sync := finish_sync_run r (ap_sync st2)\<rparr>" E s] fin by simp
  then have q: "ap_sync st3 = finish_sync_run r (ap_sync st2)" "settled (db_of st3 (ri_vault_id input))"
    using settled by (simp_all add: quiet_def)
  have "trimmed_optional (st_vault_id s) = Some (ri_vault_id input)"
    using prepare_run_vault [OF prep] act(2) begun_run(3) [OF began] by (simp add: binding_of_def)
  moreover have "\<forall>row \<in> set (sync_files (db_of st' (ri_vault_id input))). dirty row \<longrightarrow> deleted row"
    using q(2) by (simp add: st' settled_def db_of_def)
  moreover have "status (ap_sync st') = s" "active_run_id (ap_sync st') = None"
    using q(1) comp(1) act(1) by (simp_all add: st' emit_status_def finish_sync_run_def)
  ultimately show ?thesis using comp(2-5) act(2) by blast
qed

section \<open>What a failed run leaves\<close>

lemma reset_not_configured:
  assumes "sync_state_reset E st = (Ok s, st')"
  shows "status (ap_sync st') = s" "active_run_id (ap_sync st') = None" "\<not> configured s" "phase s = PhNotConfigured"
    "ap_dbs st' = ap_dbs st" "ap_vaults st' = ap_vaults st" "ap_keys st' = ap_keys st"
  using assms
  by (auto simp: sync_state_reset_def try_then_eq_Ok on_sync_def tick_def sync_reset_def emitted_def emit_status_def
      not_configured_def Let_def)

lemma clear_binding_Ok:
  assumes "clear_current_workspace_binding E s st = (Ok s', st')"
  obtains v st1 st2 st3 st4 u1 u2 u3 where
    "trimmed_optional (st_vault_id s) = Some v"
    "on_setup (on_keys (forget_vault_keys (store E) v)) st = (Ok u1, st1)"
    "(case trimmed_optional (st_root_path s) of
       Some root_path \<Rightarrow> on_files E (path_of root_path) (delete_sync_config (av_io E) (path_of root_path)) st1
     | None \<Rightarrow> (Ok (), st1)) = (Ok u2, st2)"
    "open_sync_db_for_vault E v st2 = (Ok u3, st3)"
    "st4 = st3\<lparr>ap_dbs := (ap_dbs st3)(v \<mapsto> delete_vault v (db_of st3 v))\<rparr>"
    "sync_state_reset E st4 = (Ok s', st')"
  using assms unfolding clear_current_workspace_binding_def try_then_eq_Ok on_conn_def answer_def
  by (elim exE conjE) (auto simp: result_simps)

lemma cleared_unconfigured:
  assumes "clear_binding_if_current_workspace_missing E s e st = (Ok (Some s'), st')"
  shows "status (ap_sync st') = s'" "active_run_id (ap_sync st') = None" "\<not> configured s'" "phase s' = PhNotConfigured"
proof -
  from assms obtain st1 where "clear_current_workspace_binding E s st1 = (Ok s', st')"
    by (auto simp: clear_binding_if_current_workspace_missing_def try_then_eq_Ok answer_def split: if_split_asm option.split_asm)
  then obtain st4 where "sync_state_reset E st4 = (Ok s', st')" by (rule clear_binding_Ok)
  from reset_not_configured [OF this] show "status (ap_sync st') = s'" "active_run_id (ap_sync st') = None"
    "\<not> configured s'" "phase s' = PhNotConfigured" by simp_all
qed

lemma sync_frames [simp]:
  "ap_sync (snd (on_setup f st)) = ap_sync st" "ap_sync (snd (on_files E root g st)) = ap_sync st"
  "ap_sync (snd (open_sync_db_for_vault E v st)) = ap_sync st" "ap_sync (snd (on_conn v h st)) = ap_sync st"
  "ap_sync (snd (answer x st)) = ap_sync st"
  by (simp_all add: on_setup_def on_files_def set_vault_tree_def open_sync_db_for_vault_def on_conn_def answer_def
      split: prod.split option.split result.split)

text \<open>The state an operation that failed leaves, as far as the runtime state is concerned.\<close>

definition idle_on_failure :: "('a sync_result \<times> ('s, 'k) app_state) \<Rightarrow> ('s, 'k) app_state \<Rightarrow> bool" where
  "idle_on_failure m st \<longleftrightarrow> (\<forall>e st'. m = (Err e, st') \<longrightarrow> ap_sync st' = ap_sync st)"

lemma idle_then:
  assumes "ap_sync (snd m) = ap_sync st" "\<And>a st1. m = (Ok a, st1) \<Longrightarrow> idle_on_failure (f a st1) st1"
  shows "idle_on_failure (try_then m f) st"
proof (cases m)
  case (Pair r st1)
  show ?thesis
  proof (cases r)
    case (Ok a)
    have same: "ap_sync st1 = ap_sync st" using assms(1) Pair by simp
    have "idle_on_failure (f a st1) st1" by (rule assms(2)) (simp add: Pair Ok)
    then show ?thesis unfolding idle_on_failure_def Pair Ok try_then.simps same .
  next
    case (Err e)
    with assms(1) Pair show ?thesis by (simp add: idle_on_failure_def)
  qed
qed

lemma reset_succeeds: "\<exists>s st'. sync_state_reset E st = (Ok s, st')"
  by (simp add: sync_state_reset_def on_sync_def sync_reset_def emitted_def Let_def split: prod.split)

lemma clear_failed_same: "idle_on_failure (clear_current_workspace_binding E s st) st"
proof -
  have reset: "idle_on_failure (sync_state_reset E st) st" for st
    using reset_succeeds [of E st] by (auto simp: idle_on_failure_def)
  have deleted: "ap_sync (snd (case x of
        Some p \<Rightarrow> on_files E (path_of p) (delete_sync_config (av_io E) (path_of p)) st | None \<Rightarrow> (Ok (), st))) = ap_sync st" for x st
    by (simp split: option.split)
  show ?thesis
    unfolding clear_current_workspace_binding_def
    by (rule idle_then, rule sync_frames(5), rule idle_then, rule sync_frames(1), rule idle_then, rule deleted,
        rule idle_then, rule sync_frames(3), rule idle_then, rule sync_frames(4), rule reset)
qed

lemma not_cleared_same:
  assumes "clear_binding_if_current_workspace_missing E s e st = (x, st')" "\<forall>s'. x \<noteq> Ok (Some s')"
  shows "ap_sync st' = ap_sync st"
proof (cases "error_may_indicate_missing_current_workspace e \<and> trimmed_optional (st_remote_workspace_id s) \<noteq> None")
  case False
  with assms(1) show ?thesis
    by (auto simp: clear_binding_if_current_workspace_missing_def split: if_split_asm)
next
  case True
  then obtain w where w: "trimmed_optional (st_remote_workspace_id s) = Some w" by auto
  let ?m = "on_setup (current_workspace_exists_for_account (av_setup E) w) st"
  obtain r st1 where m: "?m = (r, st1)" by fastforce
  have st1: "ap_sync st1 = ap_sync st" using sync_frames(1) [of "current_workspace_exists_for_account (av_setup E) w" st] m by simp
  show ?thesis
  proof (cases r)
    case (Err e')
    with assms(1) True w m st1 show ?thesis by (auto simp: clear_binding_if_current_workspace_missing_def)
  next
    case (Ok present)
    obtain z st2 where z: "clear_current_workspace_binding E s st1 = (z, st2)" by fastforce
    have "(x, st') = (if present then (Ok None, st1) else try_then (z, st2) (\<lambda>status. answer (Ok (Some status))))"
      using assms(1) True by (simp add: clear_binding_if_current_workspace_missing_def w m Ok z split: if_split_asm)
    then show ?thesis
      using assms(2) st1 clear_failed_same [of E s st1] z
      by (cases z) (simp_all add: idle_on_failure_def answer_def split: if_split_asm)
  qed
qed

text \<open>The binding is cleared only after the server, asked about the workspace, said that the account has it no more.\<close>

lemma cleared_missing:
  assumes "clear_binding_if_current_workspace_missing E s e st = (Ok (Some s'), st')"
  shows "error_may_indicate_missing_current_workspace e \<and>
    (\<exists>workspace_id. trimmed_optional (st_remote_workspace_id s) = Some workspace_id \<and>
      fst (on_setup (current_workspace_exists_for_account (av_setup E) workspace_id) st) = Ok False)"
  using assms by (auto simp: clear_binding_if_current_workspace_missing_def try_then_eq_Ok answer_def
      split: if_split_asm option.split_asm)

text \<open>
  C3. A run that fails is over and says why. When a run was started and the command ends with an error, no run is
  active any more, so the next one can start. If the run itself failed, the engine shows the run's error and stays bound,
  or is not configured any more, and then the server has said that the account lost the workspace. If the run
  succeeded, the engine is idle, and what failed is recording the run's status in the settings.
\<close>

theorem failed_run_reported:
  assumes "sync_run_once E p st = (Err (Failed e), st')"
    and "configured (status (ap_sync st))" "enabled (status (ap_sync st))" "active_run_id (ap_sync st) = None"
  shows "\<exists>run_id st1 outcome st2. on_sync E (\<lambda>_. begin_sync_run) st = (Ok run_id, st1) \<and>
    run_sync_once E p run_id st1 = (outcome, st2) \<and> active_run_id (ap_sync st') = None \<and>
    (case outcome of
       Err (Failed error) \<Rightarrow>
         e = error \<and> phase (status (ap_sync st')) = PhError \<and> last_error (status (ap_sync st')) = Some (error_to_string error) \<and>
           binding_of (status (ap_sync st')) = binding_of (status (ap_sync st)) \<or>
         e = NotConfigured \<and> phase (status (ap_sync st')) = PhNotConfigured \<and>
           error_may_indicate_missing_current_workspace error \<and>
           (\<exists>workspace_id. trimmed_optional (st_remote_workspace_id (status (ap_sync st2))) = Some workspace_id \<and>
             fst (on_setup (current_workspace_exists_for_account (av_setup E) workspace_id)
               (st2\<lparr>ap_sync := finish_sync_run run_id (ap_sync st2)\<rparr>)) = Ok False)
     | Err Panicked \<Rightarrow> False
     | Ok s \<Rightarrow>
         phase (status (ap_sync st')) = PhIdle \<and> last_error (status (ap_sync st')) = None \<and>
         persist_runtime_status E s (st2\<lparr>ap_sync := finish_sync_run run_id (ap_sync st2)\<rparr>) = (Err e, st'))"
proof -
  from assms(2-4) obtain r st1 where began: "on_sync E (\<lambda>_. begin_sync_run) st = (Ok r, st1)"
    by (simp add: on_sync_def tick_def begin_sync_run_def Let_def)
  have started: "may_fail (on_sync E (\<lambda>_. begin_sync_run)) st = (Ok r, st1)" using began by (simp add: may_fail_Ok)
  obtain outcome st2 where run: "run_sync_once E p r st1 = (outcome, st2)" by fastforce
  have "run_keeps st1 st2" using run.run_R [of st1 E p r] run by simp
  then have kept: "active_run_id (ap_sync st2) = Some r" "binding_of (status (ap_sync st2)) = binding_of (status (ap_sync st))"
    using begun_run [OF began] by (simp_all add: run_keeps_def)
  let ?st = "st2\<lparr>ap_sync := finish_sync_run r (ap_sync st2)\<rparr>"
  have st: "active_run_id (ap_sync ?st) = None" "status (ap_sync ?st) = status (ap_sync st2)"
    using kept by (simp_all add: finish_sync_run_def)
  have "active_run_id (ap_sync st') = None \<and>
    (case outcome of
       Err (Failed error) \<Rightarrow>
         e = error \<and> phase (status (ap_sync st')) = PhError \<and> last_error (status (ap_sync st')) = Some (error_to_string error) \<and>
           binding_of (status (ap_sync st')) = binding_of (status (ap_sync st)) \<or>
         e = NotConfigured \<and> phase (status (ap_sync st')) = PhNotConfigured \<and>
           error_may_indicate_missing_current_workspace error \<and>
           (\<exists>workspace_id. trimmed_optional (st_remote_workspace_id (status (ap_sync st2))) = Some workspace_id \<and>
             fst (on_setup (current_workspace_exists_for_account (av_setup E) workspace_id) ?st) = Ok False)
     | Err Panicked \<Rightarrow> False
     | Ok s \<Rightarrow>
         phase (status (ap_sync st')) = PhIdle \<and> last_error (status (ap_sync st')) = None \<and>
         persist_runtime_status E s ?st = (Err e, st'))"
  proof (cases outcome)
    case (Ok s)
    then obtain input sta stb stc where "complete_run E stc = (Ok s, st2)" using run_sync_once_Ok run by blast
    note comp = complete_run_Ok [OF this]
    have "sync_run_once E p st = may_fail (\<lambda>st. try_then (persist_runtime_status E s st) (\<lambda>_. emitted s)) ?st"
      by (simp add: sync_run_once_def started run Ok)
    with assms(1) have "try_then (persist_runtime_status E s ?st) (\<lambda>_. emitted s) = (Err e, st')"
      by (auto simp: may_fail_def result_simps split: prod.split_asm)
    then have failed: "persist_runtime_status E s ?st = (Err e, st')" by (auto simp: try_then_eq_Err emitted_def)
    then have "ap_sync st' = ap_sync ?st" using quiet_persist [of ?st E s] by (simp add: quiet_def)
    then show ?thesis using comp(1-3) st failed Ok by simp
  next
    case (Err fault)
    show ?thesis
    proof (cases fault)
      case Panicked
      with assms(1) run Err show ?thesis by (simp add: sync_run_once_def started)
    next
      case (Failed error)
      obtain x st3 where cl: "clear_binding_if_current_workspace_missing E (status (ap_sync ?st)) error ?st = (x, st3)"
        by fastforce
      show ?thesis
      proof (cases "\<exists>s'. x = Ok (Some s')")
        case True
        then obtain s' where x: "x = Ok (Some s')" by blast
        then have "st' = st3" "e = NotConfigured"
          using assms(1) run Err Failed cl by (auto simp: sync_run_once_def started Let_def)
        then show ?thesis using cleared_unconfigured [OF cl [unfolded x]] cleared_missing [OF cl [unfolded x]] Err Failed st(2) by simp
      next
        case False
        then have same: "ap_sync st3 = ap_sync ?st" using not_cleared_same [OF cl] by blast
        have c: "configured (status (ap_sync st2))" using kept(2) assms(2) by (simp add: binding_of_def)
        let ?m = "on_sync E (\<lambda>now. set_error (to_lowercase (libs E)) now error) st3"
        obtain y st4 where m: "?m = (y, st4)" by fastforce
        have st': "st' = (case y of Ok s \<Rightarrow> emit_status s st4 | Err _ \<Rightarrow> st4)" "e = error"
          using assms(1) run Err Failed cl m False
          by (auto simp: sync_run_once_def started Let_def split: result.split_asm option.split_asm)
        have "active_run_id (ap_sync st4) = None" "phase (status (ap_sync st4)) = PhError"
          "last_error (status (ap_sync st4)) = Some (error_to_string error)"
          "binding_of (status (ap_sync st4)) = binding_of (status (ap_sync st2))"
          using m c st same by (auto simp: on_sync_def tick_def set_error_def binding_of_def Let_def)
        then show ?thesis using kept(2) Err Failed by (simp add: st' emit_status_def split: result.split)
      qed
    qed
  qed
  with began run show ?thesis by blast
qed

section \<open>What disconnecting leaves\<close>

lemma forgotten_keys:
  assumes "keyring_ok (ks_keyring S)" "forget_vault_keys S v k = (Ok (), k')"
  shows "secrets L S k' = (secrets L S k)(WorkspaceKey v := Ok None, PassphraseOf v := Ok None, SigningKey v := Ok None)"
proof -
  have forget: "secrets L S k2 = (secrets L S k1)(x := Ok None)" if "forget_secret S (secret_account x) k1 = (Ok (), k2)" for x k1 k2
    using assms(1) that by (rule secrets_forget)
  from assms(2) obtain k1 k2 where "forget_secret S (secret_account (WorkspaceKey v)) k = (Ok (), k1)"
    "forget_secret S (secret_account (PassphraseOf v)) k1 = (Ok (), k2)"
    "forget_secret S (secret_account (SigningKey v)) k2 = (Ok (), k')"
    unfolding forget_vault_keys_def try_then_unit_Ok key_store_defs secret_account.simps by (elim exE conjE)
  from this [THEN forget] show ?thesis by simp
qed

lemma deleted_config_files:
  assumes "delete_sync_config io root fs = (Ok (), fs')" "p \<noteq> sync_config_path"
  shows "fs_read fs' p = fs_read fs p"
  using assms fs_read_remove [of sync_config_path fs fs' p]
  by (auto simp: delete_sync_config_def split: result.split_asm remove_error.split_asm)

lemma vault_tree_set: "vault_tree E root (set_vault_tree E root fs st) = fs"
  by (simp add: set_vault_tree_def vault_tree_def)

lemma get_deleted_vault: "get_vault (delete_vault v db) v = None"
proof -
  have "find_row vr_vault_id v rows = None" if "\<forall>r \<in> set rows. vr_vault_id r \<noteq> v" for rows :: "sync_vault_record list"
    using find_row_Some [of vr_vault_id v rows] that by (cases "find_row vr_vault_id v rows") auto
  then show ?thesis by (simp add: get_vault_def delete_vault_def)
qed

text \<open>
  C24. Disconnecting forgets the vault and nothing else: the three keys of the vault are gone from the keychain and every
  other secret is as it was, the settings file is gone and every other file of the vault has its contents,
  the vault has no record any more and the engine is not configured. What the database knows about
  the vault's files stays.
\<close>

theorem disconnect_forgets_vault:
  assumes "keyring_ok (ks_keyring (store E))" "configured (status (ap_sync st))"
    and "sync_disconnect_vault E st = (Ok s', st')"
  shows "\<exists>v. trimmed_optional (st_vault_id (status (ap_sync st))) = Some v \<and>
    status (ap_sync st') = s' \<and> \<not> configured s' \<and> active_run_id (ap_sync st') = None \<and>
    secrets L (store E) (ap_keys st') =
      (secrets L (store E) (ap_keys st))(WorkspaceKey v := Ok None, PassphraseOf v := Ok None, SigningKey v := Ok None) \<and>
    get_vault (db_of st' v) v = None \<and> sync_files (db_of st' v) = sync_files (init_schema (db_of st v)) \<and>
    (\<forall>root. trimmed_optional (st_root_path (status (ap_sync st))) = Some root \<longrightarrow>
       read_sync_config (libs E) (av_io E) (path_of root) (vault_tree E (path_of root) st') = Ok None \<and>
       (\<forall>p. p \<noteq> sync_config_path \<longrightarrow>
          fs_read (vault_tree E (path_of root) st') p = fs_read (vault_tree E (path_of root) st) p))"
proof -
  let ?s = "status (ap_sync st)"
  have "clear_current_workspace_binding E ?s st = (Ok s', st')"
    using assms(2,3) by (simp add: sync_disconnect_vault_def Let_def split: if_split_asm)
  then obtain v st1 st2 st3 st4 u1 u2 u3 where
    v: "trimmed_optional (st_vault_id ?s) = Some v"
    and keys: "on_setup (on_keys (forget_vault_keys (store E) v)) st = (Ok u1, st1)"
    and files: "(case trimmed_optional (st_root_path ?s) of
       Some root_path \<Rightarrow> on_files E (path_of root_path) (delete_sync_config (av_io E) (path_of root_path)) st1
     | None \<Rightarrow> (Ok (), st1)) = (Ok u2, st2)"
    and opened: "open_sync_db_for_vault E v st2 = (Ok u3, st3)"
    and st4: "st4 = st3\<lparr>ap_dbs := (ap_dbs st3)(v \<mapsto> delete_vault v (db_of st3 v))\<rparr>"
    and reset: "sync_state_reset E st4 = (Ok s', st')"
    by (rule clear_binding_Ok)
  note r = reset_not_configured [OF reset]
  from keys have k: "forget_vault_keys (store E) v (ap_keys st) = (Ok (), ap_keys st1)"
    and st1: "ap_dbs st1 = ap_dbs st" "ap_vaults st1 = ap_vaults st"
    by (auto simp: on_setup_def on_keys_def split: prod.split_asm)
  from files have st2: "ap_keys st2 = ap_keys st1" "ap_dbs st2 = ap_dbs st1"
    by (auto simp: on_files_def set_vault_tree_def split: option.split_asm prod.split_asm if_split_asm)
  from opened have st3: "db_of st3 v = init_schema (db_of st2 v)" "ap_keys st3 = ap_keys st2" "ap_vaults st3 = ap_vaults st2"
    by (auto simp: open_sync_db_for_vault_def db_of_def split: option.split_asm result.split_asm)
  have "ap_keys st' = ap_keys st1" using r(7) by (simp add: st4 st3 st2)
  then have a: "secrets L (store E) (ap_keys st') =
      (secrets L (store E) (ap_keys st))(WorkspaceKey v := Ok None, PassphraseOf v := Ok None, SigningKey v := Ok None)"
    using forgotten_keys [OF assms(1) k] by simp
  have db: "db_of st' v = delete_vault v (init_schema (db_of st v))"
    using r(5) st3(1) by (simp add: st4 db_of_def st2 st1)
  have b: "get_vault (db_of st' v) v = None" "sync_files (db_of st' v) = sync_files (init_schema (db_of st v))"
    unfolding db by (rule get_deleted_vault) (simp add: delete_vault_def)
  have c: "read_sync_config (libs E) (av_io E) (path_of root) (vault_tree E (path_of root) st') = Ok None \<and>
      (\<forall>p. p \<noteq> sync_config_path \<longrightarrow> fs_read (vault_tree E (path_of root) st') p = fs_read (vault_tree E (path_of root) st) p)"
    if root: "trimmed_optional (st_root_path ?s) = Some root" for root
  proof -
    let ?fs = "vault_tree E (path_of root) st1"
    from files root obtain fs' where d: "delete_sync_config (av_io E) (path_of root) ?fs = (Ok (), fs')"
      and st2': "st2 = set_vault_tree E (path_of root) fs' st1"
      by (auto simp: on_files_def split: prod.split_asm)
    have "vault_tree E (path_of root) st' = vault_tree E (path_of root) st2"
      using r(6) by (simp add: vault_tree_def st4 st3)
    then have "vault_tree E (path_of root) st' = fs'" by (simp add: st2' vault_tree_set)
    moreover have "?fs = vault_tree E (path_of root) st" by (simp add: vault_tree_def st1)
    ultimately show ?thesis using deleted_config [OF d] deleted_config_files [OF d] by simp
  qed
  show ?thesis using v r(1-3) a b c by blast
qed

section \<open>Which conflicts are listed\<close>

text \<open>The conflict copy of a conflict still exists as a file.\<close>

definition copy_present :: "('s, 'k) app_env \<Rightarrow> fpath \<Rightarrow> fnode \<Rightarrow> sync_conflict_record \<Rightarrow> bool" where
  "copy_present E root fs c \<longleftrightarrow> vault_relative_file_exists E root fs (cf_conflict_path c) = Ok True"

definition resolved_row :: "string set \<Rightarrow> sync_conflict_record \<Rightarrow> sync_conflict_record" where
  "resolved_row ids c = (if cf_conflict_id c \<in> ids \<and> cf_status c = ''open'' then c\<lparr>cf_status := ''resolved''\<rparr> else c)"

lemma resolved_row_compose: "resolved_row A (resolved_row B c) = resolved_row (A \<union> B) c"
  by (simp add: resolved_row_def)

lemma resolve_conflict_rows:
  "sync_conflicts (resolve_conflict lc now c db) = map (resolved_row {cf_conflict_id c}) (sync_conflicts db)"
  by (auto simp: resolve_conflict_def mark_conflict_resolved_def mark_unsynced_file_deleted_clean_def update_rows_def
      resolved_row_def Let_def split: result.split)

lemma conflicts_loop_exact:
  assumes "list_conflicts_loop E v (Some root) cs st = (Ok ss, st')"
  shows "ss = map conflict_summary_of (filter (copy_present E root (vault_tree E root st)) cs) \<and> ap_vaults st' = ap_vaults st \<and>
    sync_conflicts (db_of st' v) = map (resolved_row (cf_conflict_id ` {c \<in> set cs. \<not> copy_present E root (vault_tree E root st) c}))
      (sync_conflicts (db_of st v))"
  using assms
proof (induction cs arbitrary: st ss)
  case Nil
  then show ?case by (simp add: resolved_row_def)
next
  case (Cons c cs)
  let ?P = "copy_present E root (vault_tree E root st)"
  note run = Cons.prems
  show ?case
  proof (cases "?P c")
    case True
    then have ok: "vault_relative_file_exists E root (vault_tree E root st) (cf_conflict_path c) = Ok True"
      by (simp add: copy_present_def)
    from run obtain rest where rest: "list_conflicts_loop E v (Some root) cs st = (Ok rest, st')" "ss = conflict_summary_of c # rest"
      by (auto simp: answer_def ok try_then_eq_Ok)
    have "{x \<in> set (c # cs). \<not> ?P x} = {x \<in> set cs. \<not> ?P x}" using True by auto
    with Cons.IH [OF rest(1)] rest(2) True show ?thesis by simp
  next
    case False
    from run obtain b where ok: "vault_relative_file_exists E root (vault_tree E root st) (cf_conflict_path c) = Ok b"
      by (auto simp: answer_def try_then_eq_Ok)
    with False have "b = False" by (cases b) (simp_all add: copy_present_def)
    let ?st = "st\<lparr>ap_clock := Suc (ap_clock st), ap_dbs := (ap_dbs st)(v \<mapsto>
      resolve_conflict (to_lowercase (libs E)) (av_now E (ap_clock st)) c (db_of st v))\<rparr>"
    have rest: "list_conflicts_loop E v (Some root) cs ?st = (Ok ss, st')"
      using run ok \<open>b = False\<close> by (simp add: answer_def tick_def on_conn_def db_of_def)
    have st: "vault_tree E root ?st = vault_tree E root st" "ap_vaults ?st = ap_vaults st"
      "sync_conflicts (db_of ?st v) = map (resolved_row {cf_conflict_id c}) (sync_conflicts (db_of st v))"
      by (simp_all add: vault_tree_def db_of_def resolve_conflict_rows)
    have "{x \<in> set (c # cs). \<not> ?P x} = insert c {x \<in> set cs. \<not> ?P x}" using False by auto
    with Cons.IH [OF rest] False show ?thesis unfolding st by (simp add: comp_def resolved_row_compose)
  qed
qed

lemma open_after_resolving:
  assumes "distinct (map cf_conflict_id rows)"
  shows "filter (\<lambda>c. cf_status c = ''open'') (map (resolved_row (cf_conflict_id ` {c \<in> set rows. cf_status c = ''open'' \<and> \<not> P c})) rows) =
    filter P (filter (\<lambda>c. cf_status c = ''open'') rows)"
proof -
  let ?ids = "cf_conflict_id ` {c \<in> set rows. cf_status c = ''open'' \<and> \<not> P c}"
  have "cf_conflict_id c \<in> ?ids \<longleftrightarrow> \<not> P c" if "c \<in> set rows" "cf_status c = ''open''" for c
    using that assms by (auto simp: distinct_map inj_on_def)
  then have "filter (\<lambda>c. cf_status c = ''open'') (map (resolved_row ?ids) xs) = filter P (filter (\<lambda>c. cf_status c = ''open'') xs)"
    if "set xs \<subseteq> set rows" for xs
    using that by (induction xs) (simp_all add: resolved_row_def)
  then show ?thesis by blast
qed

text \<open>
  The list of conflicts is exact: when the vault's directory is there, the listing shows exactly the open conflicts
  whose conflict copy still exists, in the database's order, the others are resolved, so that what is
  open afterwards is what was listed, and the vault's files are untouched.
\<close>

theorem listed_conflicts_exact:
  assumes "db_wf (db_of st v)" "st_vault_id s = Some v" "st_root_path s = Some r" "root_is_dir E (path_of r) st"
    and "ap_dbs st v \<noteq> None" "av_home E \<noteq> None" "list_open_conflicts_of E s st = (Ok ss, st')"
  shows "ss = map conflict_summary_of (list_open_conflicts (db_of st' v)) \<and>
    list_open_conflicts (db_of st' v) =
      filter (copy_present E (path_of r) (vault_tree E (path_of r) st)) (list_open_conflicts (init_schema (db_of st v))) \<and>
    ap_vaults st' = ap_vaults st"
proof -
  let ?db = "init_schema (db_of st v)" and ?root = "path_of r"
  let ?st = "st\<lparr>ap_dbs := (ap_dbs st)(v \<mapsto> ?db)\<rparr>"
  let ?P = "copy_present E ?root (vault_tree E ?root st)"
  obtain u where "validate_vault_id v = Ok u"
    using assms(2,6,7) by (auto simp: list_open_conflicts_of_def try_then_eq_Ok answer_def split: if_split_asm)
  then have loop: "list_conflicts_loop E v (Some ?root) (list_open_conflicts ?db) ?st = (Ok ss, st')"
    using assms(2-7)
    by (auto simp: list_open_conflicts_of_def open_sync_db_for_vault_def answer_def db_of_def root_is_dir_def Let_def)
  note ex = conflicts_loop_exact [OF loop, THEN conjunct1] conflicts_loop_exact [OF loop, THEN conjunct2, THEN conjunct1]
    conflicts_loop_exact [OF loop, THEN conjunct2, THEN conjunct2]
  have tree: "vault_tree E ?root ?st = vault_tree E ?root st" "db_of ?st v = ?db" by (simp_all add: vault_tree_def db_of_def)
  have "distinct (map cf_conflict_id (sync_conflicts ?db))"
    using init_schema_wf [OF assms(1)] by (simp add: db_wf_def)
  moreover have "{c \<in> set (list_open_conflicts ?db). \<not> ?P c} = {c \<in> set (sync_conflicts ?db). cf_status c = ''open'' \<and> \<not> ?P c}"
    by (auto simp: list_open_conflicts_def)
  ultimately have "filter (\<lambda>c. cf_status c = ''open'') (sync_conflicts (db_of st' v)) =
      filter ?P (filter (\<lambda>c. cf_status c = ''open'') (sync_conflicts ?db))"
    using ex(3) open_after_resolving [of "sync_conflicts ?db" ?P] by (simp only: tree)
  then have left: "list_open_conflicts (db_of st' v) = filter ?P (list_open_conflicts ?db)"
    by (simp add: list_open_conflicts_def filter_sort)
  show ?thesis using ex(1,2) left by (simp add: tree)
qed

section \<open>Witnesses\<close>

definition sample_key :: symmetric_key where "sample_key = replicate 32 CHR ''k''"

definition sample_ring_with_keys :: sample_ring where
  "sample_ring_with_keys =
     snd (write_secret sample_setup_libs sample_store (secret_account (SigningKey ''v'')) sample_key
       (snd (write_secret sample_setup_libs sample_store (secret_account (WorkspaceKey ''v'')) sample_key Map.empty)))"

definition sample_app_env :: "(sync_workspace_metadata, sample_ring) app_env" where
  "sample_app_env =
     \<lparr>av_setup = sample_setup_env, av_home = Some ''/home'', av_canonicalize = Some, av_link_is_file = (\<lambda>_. True),
      av_now = int, av_io = ''io'', av_get_head = (\<lambda>_. Err LoginRequired), av_pull = (\<lambda>_. sample_pull_env),
      av_commits = (\<lambda>_. sample_commit_net), av_nonces = (\<lambda>_ _. []), av_progress = (\<lambda>_. [])\<rparr>"

definition sample_status :: sync_runtime_status where
  "sample_status = (not_configured 0)\<lparr>configured := True, enabled := True, phase := PhIdle, st_vault_id := Some ''v'',
     st_root_path := Some ''/n'', st_remote_workspace_id := Some ''w'', st_device_id := Some ''d''\<rparr>"

definition sample_app_state :: "(sync_workspace_metadata, sample_ring) app_state" where
  "sample_app_state =
     \<lparr>ap_sync = (sync_new 0)\<lparr>status := sample_status\<rparr>, ap_dbs = Map.empty, ap_vaults = [[''n''] \<mapsto> Dir []],
      ap_open_root = None, ap_server = sample_workspace, ap_keys = sample_ring_with_keys, ap_ledger = empty_ledger,
      ap_search = [], ap_clock = 0, ap_events = []\<rparr>"

lemma sample_app_libs: "libs sample_app_env = sample_setup_libs" "store sample_app_env = sample_store"
  by (simp_all add: sample_app_env_def sample_setup_env_def)

text \<open>A run on an empty vault and an empty workspace: nothing is pulled and nothing is published.\<close>

definition empty_head :: sync_head where
  "empty_head = \<lparr>current_head_commit_id = [], head_version = 0, latest_checkpoint_commit_id = []\<rparr>"

lemma pull_empty_head:
  assumes "validate_pull_input input = Ok ()" "pn_get_head (pe_net E) (pi_workspace_id input) = Ok head"
    and "current_head_commit_id head = []"
  shows "pull_remote_changes L E input st = (Ok nothing_applied, st\<lparr>ps_db := snd (ensure_pull_vault_record input head (ps_db st))\<rparr>)"
  using assms by (simp add: pull_remote_changes_def checked_def on_db_def split_beta)

lemma ensured_record_only:
  "sync_files (snd (ensure_pull_vault_record pinput head db)) = sync_files db"
  "sync_conflicts (snd (ensure_pull_vault_record pinput head db)) = sync_conflicts db"
  "sync_files (snd (ensure_vault_record input head db)) = sync_files db"
  "sync_conflicts (snd (ensure_vault_record input head db)) = sync_conflicts db"
  by (simp_all add: ensure_pull_vault_record_def ensure_vault_record_def upsert_vault_def Let_def)

lemma run_pull_empty:
  assumes "ri_vault_id input = ''v''" "ri_workspace_id input = ''w''" "ri_device_id input = ''d''"
  shows "\<exists>db. run_pull sample_app_env i input st =
      (Ok nothing_applied, st\<lparr>ap_clock := Suc (ap_clock st), ap_dbs := (ap_dbs st)(''v'' \<mapsto> db)\<rparr>) \<and>
    sync_files db = sync_files (db_of st ''v'') \<and> sync_conflicts db = sync_conflicts (db_of st ''v'')"
proof -
  have env: "pn_get_head (pe_net ((av_pull sample_app_env i)\<lparr>pe_queue := q\<rparr>)) w = Ok empty_head"
    "av_progress sample_app_env i = []" for q w
    by (simp_all add: sample_app_env_def sample_pull_env_def empty_head_def)
  have head: "current_head_commit_id empty_head = []" by (simp add: empty_head_def)
  have ok: "validate_pull_input \<lparr>pi_vault_id = ''v'', pi_vault_root = r, pi_workspace_id = ''w'', pi_device_id = ''d'',
      pi_workspace_key = k, pi_now_ms = n\<rparr> = Ok ()" for r k n
    by (simp add: validate_pull_input_def validate_required_def blank_code is_ascii_graphic_def)
  show ?thesis
    unfolding run_pull_def tick_def Let_def prod.case assms pull_empty_head [OF ok env(1) head] env(2) fold_simps
    by (intro exI [of _ "snd (ensure_pull_vault_record \<lparr>pi_vault_id = ''v'', pi_vault_root = ri_vault_root input,
          pi_workspace_id = ''w'', pi_device_id = ''d'', pi_workspace_key = ri_workspace_key input,
          pi_now_ms = av_now sample_app_env (ap_clock st)\<rparr> empty_head (db_of st ''v''))"] conjI)
      (simp_all add: set_vault_tree_def vault_tree_def db_of_def ensured_record_only)
qed

lemma push_empty_vault:
  assumes "validate_push_input input = Ok ()" "cn_get_head N (in_workspace_id input) = Ok head" "current_head_commit_id head = []"
    and "sync_files db = []" "max_pack_plaintext_bytes planner > 0"
  shows "\<exists>db'. push_local_changes L N q planner nonces input (Dir []) db = (Ok not_published, db') \<and> sync_files db' = [] \<and>
    sync_conflicts db' = sync_conflicts db"
proof -
  obtain vault db1 where v: "ensure_vault_record input head db = (vault, db1)" by fastforce
  have db1: "sync_files db1 = []" "sync_conflicts db1 = sync_conflicts db"
    using ensured_record_only(3,4) [of input head db] v assms(4) by simp_all
  have can: "ensure_local_head_can_push vault [] = Ok ()" by (simp add: ensure_local_head_can_push_def)
  have scanned: "scan_vault lc h root (Dir []) = Ok []" for lc h root by (simp add: scan_vault_def)
  have applied: "\<exists>res. apply_scan h [] now db1 = (Ok res, db1)" for h now
    using db1(1) by (simp add: apply_scan_def list_files_def Let_def)
  obtain res where "scan_and_apply L (in_vault_root input) (Dir []) (in_now_ms input) db1 = (Ok ([], res), db1)"
    using applied [of "blake3_hex L" "in_now_ms input"] by (auto simp: scan_and_apply_def scanned)
  moreover obtain plan where "plan_checkpoint (blake3_hex L) (json_planned_tree L) [] planner = Ok plan" "plan_is_empty plan"
    using assms(5)
    by (simp add: plan_checkpoint_def plan_is_empty_def validate_planner_config_def assign_pack_entries_def build_plan_def Let_def)
  ultimately show ?thesis using assms(1-3) v can db1 by (simp add: push_local_changes_def)
qed

lemma run_push_empty:
  assumes "ri_vault_id input = ''v''" "ri_workspace_id input = ''w''" "ri_device_id input = ''d''"
    and "vault_tree sample_app_env (ri_vault_root input) st = Dir []" "sync_files (db_of st ''v'') = []"
  shows "\<exists>db. run_push sample_app_env i input st =
      (Ok not_published, st\<lparr>ap_clock := Suc (ap_clock st), ap_dbs := (ap_dbs st)(''v'' \<mapsto> db)\<rparr>) \<and>
    sync_files db = [] \<and> sync_conflicts db = sync_conflicts (db_of st ''v'')"
proof -
  let ?input = "push_input_of input (av_now sample_app_env (ap_clock st))"
  have env: "cn_get_head (av_commits sample_app_env i) (in_workspace_id ?input) = Ok empty_head" "av_progress sample_app_env i = []"
    by (simp_all add: sample_app_env_def sample_commit_net_def empty_head_def)
  have "current_head_commit_id empty_head = []" by (simp add: empty_head_def)
  moreover have "validate_push_input ?input = Ok ()"
    by (simp add: validate_push_input_def push_input_of_def assms validate_required_def blank_code is_ascii_graphic_def)
  moreover have "max_pack_plaintext_bytes DEFAULT_PLANNER_CONFIG > 0"
    by (simp add: DEFAULT_PLANNER_CONFIG_def DEFAULT_MAX_PACK_PLAINTEXT_BYTES_def)
  ultimately obtain db' where "push_local_changes (libs sample_app_env) (av_commits sample_app_env i) default_queue_config
      DEFAULT_PLANNER_CONFIG (av_nonces sample_app_env i) ?input (Dir []) (db_of st ''v'') = (Ok not_published, db')"
    "sync_files db' = []" "sync_conflicts db' = sync_conflicts (db_of st ''v'')"
    using push_empty_vault [OF _ env(1) _ assms(5)] by blast
  moreover have "vault_tree sample_app_env (ri_vault_root input) (st\<lparr>ap_clock := Suc (ap_clock st)\<rparr>) = Dir []"
    "db_of (st\<lparr>ap_clock := Suc (ap_clock st)\<rparr>) ''v'' = db_of st ''v''"
    using assms(4) by (simp_all add: vault_tree_def db_of_def)
  ultimately show ?thesis
    unfolding run_push_def tick_def Let_def prod.case on_conn_def assms(1) env(2) fold_simps
    by (intro exI [of _ db'] conjI) simp_all
qed

lemma enter_phase_Ok:
  assumes "configured (status (ap_sync st))" "enabled (status (ap_sync st))"
  shows "\<exists>st'. enter_phase E ph st = (Ok (), st') \<and> ap_dbs st' = ap_dbs st \<and> ap_vaults st' = ap_vaults st \<and>
    binding_of (status (ap_sync st')) = binding_of (status (ap_sync st))"
  using assms
  by (simp add: enter_phase_def may_fail_def on_sync_def tick_def set_phase_def emit_status_def binding_of_def Let_def)

lemma no_conflicts:
  assumes "st_vault_id s = Some ''v''" "ap_dbs st ''v'' = Some db" "sync_conflicts db = []"
  shows "\<exists>st'. list_open_conflicts_of sample_app_env s st = (Ok [], st') \<and> ap_sync st' = ap_sync st \<and> ap_vaults st' = ap_vaults st"
proof -
  have "validate_vault_id ''v'' = Ok ()" by (simp add: validate_vault_id_def is_ascii_alphanumeric_def)
  moreover have "list_open_conflicts (init_schema db) = []"
    using assms(3)
    by (simp add: list_open_conflicts_def init_schema_def ensure_tree_entry_content_commit_id_column_def reset_schema_def
        persist_schema_version_def empty_db_def Let_def split: option.split)
  ultimately show ?thesis
    using assms(1,2)
    by (simp add: list_open_conflicts_of_def answer_def open_sync_db_for_vault_def sample_app_env_def db_of_def Let_def split: option.split)
qed

lemma sample_prepared:
  "case prepare_run sample_app_env None 1 (sample_app_state\<lparr>ap_clock := Suc 0, ap_sync := snd (begin_sync_run (ap_sync sample_app_state))\<rparr>) of
     (Ok input, st) \<Rightarrow> ri_vault_id input = ''v'' \<and> ri_workspace_id input = ''w'' \<and> ri_device_id input = ''d'' \<and>
       ri_vault_root input = [''n''] \<and> ap_vaults st [''n''] = Some (Dir []) \<and> ap_dbs st ''v'' = Some (init_schema empty_db) \<and>
       binding_of (status (ap_sync st)) = binding_of sample_status
   | _ \<Rightarrow> False"
  by code_simp

lemma sample_persisted:
  assumes "binding_of s = binding_of sample_status" "ap_vaults st [''n''] = Some (Dir [])"
  shows "\<exists>st'. persist_runtime_status sample_app_env s st = (Ok (), st')"
proof -
  have s: "configured s" "st_vault_id s = Some ''v''" "st_root_path s = Some ''/n''" "st_remote_workspace_id s = Some ''w''"
    "st_device_id s = Some ''d''"
    using assms(1) by (simp_all add: binding_of_def sample_status_def)
  have t: "trimmed_optional (Some ''v'') = Some ''v''" "trimmed_optional (Some ''/n'') = Some ''/n''"
    "trimmed_optional (Some ''w'') = Some ''w''" "trimmed_optional (Some ''d'') = Some ''d''" "path_of ''/n'' = [''n'']"
    "validate_vault_id ''v'' = Ok ()"
    by code_simp+
  let ?config = "\<lparr>cfg_vault_id = ''v'', cfg_root_path = ''/n'', cfg_account_key_id = st_account_key_id s,
    cfg_remote_workspace_id = ''w'', cfg_workspace_name = st_workspace_name s, cfg_device_id = ''d'',
    cfg_device_name = st_device_name s, cfg_remember_workspace_key = st_remember_workspace_key s, cfg_passphrase = None\<rparr>"
  have config: "config_from_status s = Ok ?config"
    by (simp only: config_from_status_def required_status_value_def s t ok_or.simps and_then.simps)
  have tree: "vault_tree sample_app_env [''n''] st' = Dir []" if "ap_vaults st' = ap_vaults st" for st'
    using that assms(2) by (simp add: vault_tree_def vault_key_def sample_app_env_def)
  have cached: "cached_remote_status_for_config sample_app_env [''n''] ''w'' st' = Ok None" if "ap_vaults st' = ap_vaults st" for st'
    using tree [OF that]
    by (simp add: cached_remote_status_for_config_def read_sync_config_def read_sync_config_bytes_def sync_config_path_def)
  have "is_ok (config_file_from_runtime ?config en u f)" for en u f
    by (simp add: config_file_from_runtime_def blank_code is_ascii_graphic_def Let_def)
  then have made: "\<exists>cfile. config_file_from_runtime ?config en u f = Ok cfile" for en u f by (simp add: is_ok_iff)
  have "fs_write sync_config_path b n (Some (Dir [])) \<noteq> None" for b n by (simp add: sync_config_path_def)
  then have file_written: "\<exists>cfile fs'. write_sync_config_with_status L io n root ?config en u f (Dir []) = (Ok cfile, fs')"
    for L :: setup_libs and io n root en u f
    using made [of en u f] by (auto simp: write_sync_config_with_status_def split: option.split)
  have written: "\<exists>st''. write_settings sample_app_env ?config en u f st' = (Ok (), st'')" if "ap_vaults st' = ap_vaults st" for st' en u f
  proof -
    have "ap_vaults (st'\<lparr>ap_clock := n\<rparr>) = ap_vaults st" for n using that by simp
    note tree' = tree [OF this]
    obtain cfile fs' where "write_sync_config_with_status (libs sample_app_env) (av_io sample_app_env)
        (av_now sample_app_env (ap_clock st')) [''n''] ?config en u f (Dir []) = (Ok cfile, fs')"
      using file_written by blast
    then show ?thesis
      by (simp add: write_settings_def tick_def on_files_def answer_def t(5) tree')
  qed
  have opened: "\<exists>st''. open_sync_db_for_vault sample_app_env ''v'' st' = (Ok (), st'') \<and> ap_vaults st'' = ap_vaults st'" for st'
    by (simp add: open_sync_db_for_vault_def t(6) sample_app_env_def)
  have stored: "\<exists>st''. persist_configured_vault sample_app_env c en st' = (Ok (), st'') \<and> ap_vaults st'' = ap_vaults st'" for c en st'
    by (simp add: persist_configured_vault_def tick_def on_conn_def)
  obtain st1 where st1: "open_sync_db_for_vault sample_app_env ''v'' st = (Ok (), st1)" "ap_vaults st1 = ap_vaults st"
    using opened by blast
  obtain st2 where st2: "persist_configured_vault sample_app_env ?config (enabled s) st1 = (Ok (), st2)" "ap_vaults st2 = ap_vaults st"
    using stored st1(2) by metis
  show ?thesis
    using written [OF st2(2)] s(1)
    by (simp add: persist_runtime_status_def config answer_def st1(1) st2(1) t(5) cached [OF st2(2)])
qed

lemma sample_run: "\<exists>s st'. sync_run_once sample_app_env None sample_app_state = (Ok s, st')"
proof -
  let ?E = sample_app_env
  let ?st = "sample_app_state\<lparr>ap_clock := Suc 0, ap_sync := snd (begin_sync_run (ap_sync sample_app_state))\<rparr>"
  have began: "may_fail (on_sync ?E (\<lambda>_. begin_sync_run)) sample_app_state = (Ok 1, ?st)"
    by (simp add: may_fail_Ok on_sync_def tick_def begin_sync_run_def sample_app_state_def sync_new_def sample_status_def Let_def)
  obtain input st1 where prep: "prepare_run ?E None 1 ?st = (Ok input, st1)"
    and input: "ri_vault_id input = ''v''" "ri_workspace_id input = ''w''" "ri_device_id input = ''d''" "ri_vault_root input = [''n'']"
    and st1: "ap_vaults st1 [''n''] = Some (Dir [])" "ap_dbs st1 ''v'' = Some (init_schema empty_db)"
      "binding_of (status (ap_sync st1)) = binding_of sample_status"
    using sample_prepared by (auto split: prod.split_asm result.split_asm)
  have on: "configured s" "enabled s" "st_vault_id s = Some ''v''" if "binding_of s = binding_of sample_status" for s
    using that by (simp_all add: binding_of_def sample_status_def)
  obtain st2 where st2: "enter_phase ?E PhApplying st1 = (Ok (), st2)" "ap_dbs st2 = ap_dbs st1" "ap_vaults st2 = ap_vaults st1"
      "binding_of (status (ap_sync st2)) = binding_of sample_status"
    using enter_phase_Ok [OF on(1,2) [OF st1(3)], of ?E PhApplying] st1(3) by auto
  have files: "sync_files (init_schema empty_db) = []" "sync_conflicts (init_schema empty_db) = []" by code_simp+
  obtain db1 where pull: "run_pull ?E 0 input st2 =
      (Ok nothing_applied, st2\<lparr>ap_clock := Suc (ap_clock st2), ap_dbs := (ap_dbs st2)(''v'' \<mapsto> db1)\<rparr>)"
    "sync_files db1 = []" "sync_conflicts db1 = []"
    using run_pull_empty [OF input(1-3), of 0 st2] st2(2) st1(2) files by (auto simp: db_of_def)
  let ?st3 = "st2\<lparr>ap_clock := Suc (ap_clock st2), ap_dbs := (ap_dbs st2)(''v'' \<mapsto> db1)\<rparr>"
  have b3: "binding_of (status (ap_sync ?st3)) = binding_of sample_status" using st2(4) by simp
  obtain st4 where st4: "enter_phase ?E PhPlanning ?st3 = (Ok (), st4)" "ap_dbs st4 = ap_dbs ?st3" "ap_vaults st4 = ap_vaults st1"
      "binding_of (status (ap_sync st4)) = binding_of sample_status"
    using enter_phase_Ok [OF on(1,2) [OF b3], of ?E PhPlanning] b3 st2(3) by auto
  have tree: "vault_tree ?E (ri_vault_root input) st4 = Dir []"
    using st4(3) st1(1) input(4) by (simp add: vault_tree_def vault_key_def sample_app_env_def)
  have "sync_files (db_of st4 ''v'') = []" "sync_conflicts (db_of st4 ''v'') = []" using st4(2) pull(2,3) by (simp_all add: db_of_def)
  then obtain db2 where push: "run_push ?E 1 input st4 =
      (Ok not_published, st4\<lparr>ap_clock := Suc (ap_clock st4), ap_dbs := (ap_dbs st4)(''v'' \<mapsto> db2)\<rparr>)" "sync_conflicts db2 = []"
    using run_push_empty [OF input(1-3) tree, of 1] by auto
  let ?st5 = "st4\<lparr>ap_clock := Suc (ap_clock st4), ap_dbs := (ap_dbs st4)(''v'' \<mapsto> db2)\<rparr>"
  have b5: "binding_of (status (ap_sync ?st5)) = binding_of sample_status" using st4(4) by simp
  obtain st6 where st6: "list_open_conflicts_of ?E (status (ap_sync ?st5)) ?st5 = (Ok [], st6)" "ap_sync st6 = ap_sync st4"
      "ap_vaults st6 = ap_vaults st1"
    using no_conflicts [OF on(3) [OF b5], of ?st5 db2] push(2) st4(3) by auto
  obtain s st7 where st7: "complete_run ?E ?st5 = (Ok s, st7)" "binding_of s = binding_of sample_status" "ap_vaults st7 = ap_vaults st1"
    using on(1,2) [OF st4(4)] st4(4) st6
    by (auto simp: complete_run_def list_open_conflicts_for_status_def on_sync_def tick_def complete_manual_sync_def binding_of_def Let_def)
  have ends: "may_fail (prepare_run ?E None 1) ?st = (Ok input, st1)" "may_fail (complete_run ?E) ?st5 = (Ok s, st7)"
    using prep st7(1) by (simp_all only: may_fail_Ok)
  have run: "run_sync_once ?E None 1 ?st = (Ok s, st7)"
    unfolding run_sync_once_def Let_def ends(1) try_then.simps st2(1) pull(1) st4(1) push(1) prod.case result.case
    by (rule ends(2))
  obtain st8 where "persist_runtime_status ?E s (st7\<lparr>ap_sync := finish_sync_run 1 (ap_sync st7)\<rparr>) = (Ok (), st8)"
    using sample_persisted [OF st7(2), of "st7\<lparr>ap_sync := finish_sync_run 1 (ap_sync st7)\<rparr>"] st7(3) st1(1) by auto
  then show ?thesis
    by (simp add: sync_run_once_def began run may_fail_Ok emitted_def)
qed


lemma sample_app_ok: "app_ok (libs sample_app_env) sample_app_state" "vaults_wf sample_app_state"
proof -
  have "status_ok sample_status"
    by (simp add: status_ok_def phase_ok_def error_ok_def sample_status_def not_configured_def transfer_ok_default)
  moreover have "runs_ok ((sync_new 0)\<lparr>status := sample_status\<rparr>)"
    using sync_new_ok(2) [of 0] by (simp add: runs_ok_def)
  moreover have "sync_files empty_db = []" by (simp add: empty_db_def)
  ultimately show "app_ok (libs sample_app_env) sample_app_state"
    by (simp add: app_ok_def sample_app_state_def db_of_def db_wf_empty ids_derived_def)
  show "vaults_wf sample_app_state" by (simp add: vaults_wf_def sample_app_state_def)
qed

theorem run_settles_vault_witness:
  "\<exists>s st'. sync_run_once sample_app_env None sample_app_state = (Ok s, st') \<and> phase s = PhIdle \<and>
     active_run_id (ap_sync st') = None"
proof -
  obtain s st' where run: "sync_run_once sample_app_env None sample_app_state = (Ok s, st')" using sample_run by (elim exE)
  from run_settles_vault [OF run sample_app_ok] run show ?thesis by (intro exI conjI) (elim conjE, assumption)+
qed

definition logged_out_env :: "(sync_workspace_metadata, sample_ring) app_env" where
  "logged_out_env = sample_app_env\<lparr>av_setup := sample_setup_env\<lparr>se_auth := \<lparr>au_authorized = Ok True, au_header = Ok None\<rparr>\<rparr>\<rparr>"

lemma logged_out_run: "\<exists>st'. sync_run_once logged_out_env None sample_app_state = (Err (Failed LoginRequired), st')"
proof -
  let ?E = logged_out_env
  let ?st = "sample_app_state\<lparr>ap_clock := Suc 0, ap_sync := snd (begin_sync_run (ap_sync sample_app_state))\<rparr>"
  have began: "may_fail (on_sync ?E (\<lambda>_. begin_sync_run)) sample_app_state = (Ok 1, ?st)"
    by (simp add: may_fail_Ok on_sync_def tick_def begin_sync_run_def sample_app_state_def sync_new_def sample_status_def Let_def)
  have "fst (prepare_run ?E None 1 ?st) = Err LoginRequired" by code_simp
  then obtain st1 where "prepare_run ?E None 1 ?st = (Err LoginRequired, st1)" by (cases "prepare_run ?E None 1 ?st") simp
  then have run: "run_sync_once ?E None 1 ?st = (Err (Failed LoginRequired), st1)"
    by (simp add: run_sync_once_def may_fail_def)
  show ?thesis
    by (simp add: sync_run_once_def began run clear_binding_if_current_workspace_missing_def split: prod.split)
qed

theorem failed_run_reported_witness:
  "\<exists>st'. sync_run_once logged_out_env None sample_app_state = (Err (Failed LoginRequired), st') \<and>
     active_run_id (ap_sync st') = None"
proof -
  obtain st' where run: "sync_run_once logged_out_env None sample_app_state = (Err (Failed LoginRequired), st')"
    using logged_out_run by (elim exE)
  have "configured (status (ap_sync sample_app_state))" "enabled (status (ap_sync sample_app_state))"
    "active_run_id (ap_sync sample_app_state) = None"
    by (simp_all add: sample_app_state_def sample_status_def sync_new_def)
  from failed_run_reported [OF run this] have "active_run_id (ap_sync st') = None" by (elim exE conjE)
  with run show ?thesis by (intro exI conjI)
qed

theorem disconnect_forgets_vault_witness:
  "\<exists>s st'. sync_disconnect_vault sample_app_env sample_app_state = (Ok s, st') \<and>
     get_vault (db_of st' ''v'') ''v'' = None \<and> secrets sample_setup_libs sample_store (ap_keys st') (SigningKey ''v'') = Ok None"
proof -
  have "is_ok (fst (sync_disconnect_vault sample_app_env sample_app_state))" by code_simp
  then obtain s st' where d: "sync_disconnect_vault sample_app_env sample_app_state = (Ok s, st')"
    using is_ok_fst by blast
  have ok: "keyring_ok (ks_keyring (store sample_app_env))" by (simp add: sample_app_libs sample_store_def sample_keyring_ok)
  have c: "configured (status (ap_sync sample_app_state))" by (simp add: sample_app_state_def sample_status_def)
  have v: "trimmed_optional (st_vault_id (status (ap_sync sample_app_state))) = Some ''v''" by code_simp
  from disconnect_forgets_vault [OF ok c d, of sample_setup_libs, unfolded v sample_app_libs] d show ?thesis
    by (elim exE conjE) (intro exI conjI, assumption, simp_all)
qed

definition sample_conflict :: "string \<Rightarrow> sync_conflict_record" where
  "sample_conflict path = \<lparr>cf_conflict_id = path, cf_path = ''a.md'', cf_conflict_path = path, cf_base_commit_id = None,
     cf_local_commit_id = None, cf_remote_commit_id = None, cf_status = ''open'', cf_created_at_ms = 0\<rparr>"

definition conflict_state :: "(sync_workspace_metadata, sample_ring) app_state" where
  "conflict_state = sample_app_state\<lparr>ap_vaults := [[''n''] \<mapsto> Dir [(''b.md'', File ''x'' 1)]],
     ap_dbs := [''v'' \<mapsto> empty_db\<lparr>sync_conflicts := [sample_conflict ''b.md'', sample_conflict ''c.md'']\<rparr>]\<rparr>"

theorem listed_conflicts_exact_witness:
  "\<exists>ss st'. list_open_conflicts_of sample_app_env sample_status conflict_state = (Ok ss, st') \<and>
     ss = map conflict_summary_of (list_open_conflicts (db_of st' ''v''))"
proof -
  have "is_ok (fst (list_open_conflicts_of sample_app_env sample_status conflict_state))" by code_simp
  then obtain ss st' where l: "list_open_conflicts_of sample_app_env sample_status conflict_state = (Ok ss, st')"
    using is_ok_fst by blast
  have wf: "db_wf (db_of conflict_state ''v'')"
    by (simp add: conflict_state_def db_of_def db_wf_def files_wf_def empty_db_def sample_conflict_def)
  have s: "st_vault_id sample_status = Some ''v''" "st_root_path sample_status = Some ''/n''" by (simp_all add: sample_status_def)
  have "root_is_dir sample_app_env (path_of ''/n'') conflict_state" "ap_dbs conflict_state ''v'' \<noteq> None" "av_home sample_app_env \<noteq> None"
    by code_simp+
  from listed_conflicts_exact [OF wf s this l] l show ?thesis by (intro exI conjI) (elim conjE, assumption)+
qed

definition fresh_app_state :: "(sync_workspace_metadata, sample_ring) app_state" where
  "fresh_app_state = sample_app_state\<lparr>ap_sync := sync_new 0\<rparr>"

theorem app_invariant_witness:
  "\<exists>st'. app_history sample_setup_libs fresh_app_state st' \<and> phase_ok (status (ap_sync st'))"
proof -
  have l: "launched 0 fresh_app_state" by (simp add: launched_def fresh_app_state_def sample_app_state_def)
  have "app_step sample_app_env fresh_app_state (snd (sync_configure_vault sample_app_env sample_randomness sample_settings fresh_app_state))"
    by (rule app_step.configure_cmd)
  from app_history.command [OF app_history.start sample_app_libs(1) this]
  have h: "app_history sample_setup_libs fresh_app_state
    (snd (sync_configure_vault sample_app_env sample_randomness sample_settings fresh_app_state))" .
  from app_invariant [OF l h] h show ?thesis by (intro exI conjI) (elim conjE, assumption)+
qed

end
