(* ===== verification/Sync_Exchange.thy ===== *)
theory Sync_Exchange
  imports Rust_Text Sync_Push Sync_Pull
begin

text \<open>
  What one device pushes another device can pull: the composition of \<^verbatim>\<open>sync/checkpoint.rs\<close> and
  \<^verbatim>\<open>sync/applier.rs\<close> through a server that stores what it is given. The objects of a push open
  with the receiver's checks, the changes of the commit verify, the tree both sides compute has one
  identifier, and a device without local edits ends up with the contents of the pushed files.
\<close>

section \<open>What the server and the file system are\<close>

text \<open>The libraries together.\<close>

definition libs_ok :: "'z commit_libs_scheme \<Rightarrow> bool" where
  "libs_ok L \<longleftrightarrow> aead_ok L \<and> sha256_ok L \<and> tar_ok L \<and> zstd_ok L \<and> index_json_ok L \<and> commit_body_ok L"

text \<open>
  A reservation of objects under distinct references answers every request once, under its reference, with identifiers that are not blank and used
  once.
\<close>

definition reservation_ok :: "commit_net \<Rightarrow> bool" where
  "reservation_ok N \<longleftrightarrow> (\<forall>w d requests objects.
     distinct (map ri_client_object_ref requests) \<longrightarrow>
     net_reserve_object_ids (cn_transfer N) w d requests = Ok objects \<longrightarrow>
       map ro_client_object_ref objects = map ri_client_object_ref requests \<and>
       distinct (map ro_object_id objects) \<and> (\<forall>ob \<in> set objects. \<not> blank (ro_object_id ob)))"

text \<open>The server lists a published commit with the fields of the request that published it.\<close>

definition header_for :: "publish_commit_input \<Rightarrow> sync_commit_header \<Rightarrow> bool" where
  "header_for req header \<longleftrightarrow>
     ch_commit_id header = pc_commit_id req \<and> ch_commit_kind header = pc_commit_kind req \<and>
     ch_parent_commit_ids header = pc_parent_commit_ids req \<and>
     ch_author_device_id header = pc_author_device_id req \<and> ch_device_seq header = pc_device_seq req \<and>
     ch_body_object_id header = pc_body_object_id req \<and>
     ch_body_ciphertext_sha256 header = pc_body_ciphertext_sha256 req \<and>
     ch_body_size_bytes header = pc_body_size_bytes req \<and>
     ch_referenced_object_ids header = pc_referenced_object_ids req"

text \<open>
  A network serves a set of objects when the first attempt of a download of some of them is answered with a target per
  object that announces the object's kind, hash and size, and the target's address yields the object.
\<close>

definition target_for ::
    "'z crypto_libs_scheme \<Rightarrow> transfer_net \<Rightarrow> reserved_encrypted_upload_object \<Rightarrow> object_download_target \<Rightarrow> bool" where
  "target_for L N u t \<longleftrightarrow>
     dt_object_id t = ru_object_id u \<and> dt_kind t = ru_kind u \<and>
     dt_ciphertext_sha256 t = sha256_hex L (ru_ciphertext u) \<and> dt_size_bytes t = int (length (ru_ciphertext u)) \<and>
     (\<forall>i. \<exists>response. net_get N 0 i \<lparr>get_url = dt_get_url t, get_required_headers = dt_required_headers t\<rparr> = Ok response \<and>
        get_body response = ru_ciphertext u)"

definition serves ::
    "'z crypto_libs_scheme \<Rightarrow> transfer_net \<Rightarrow> string \<Rightarrow> string \<Rightarrow> reserved_encrypted_upload_object list \<Rightarrow> bool" where
  "serves L N w d objects \<longleftrightarrow> (\<forall>us. set us \<subseteq> set objects \<longrightarrow>
     (\<exists>targets. net_create_object_download_batch N 0 w d (map ru_object_id us) = Ok targets \<and>
        list_all2 (target_for L N) us targets))"

text \<open>Names as the operating system allows them; a name with a backslash is published as a path.\<close>

fun names_ok :: "fnode \<Rightarrow> bool" where
  "names_ok (Dir es) \<longleftrightarrow> (\<forall>(x, n) \<in> set es. plain_name x \<and> names_ok n)"
| "names_ok _ = True"

section \<open>Paths\<close>

lemma names_ok_lookup: "fs_lookup n p = Some m \<Longrightarrow> names_ok n \<Longrightarrow> \<forall>x \<in> set p. plain_name x"
proof (induction n p rule: fs_lookup.induct)
qed (auto split: option.splits dest: map_of_SomeD)

section \<open>Downloading what was uploaded\<close>

definition stored :: "'z crypto_libs_scheme \<Rightarrow> reserved_encrypted_upload_object \<Rightarrow> downloaded_object" where
  "stored L u = \<lparr>do_object_id = ru_object_id u, do_kind = ru_kind u,
     do_ciphertext_sha256 = sha256_hex L (ru_ciphertext u), do_ciphertext = ru_ciphertext u\<rparr>"

lemma download_one_stored:
  assumes "target_for L N u t" "int (length (ru_ciphertext u)) \<le> i64_max"
  shows "download_one L (net_get N 0 i) t = Ok (stored L u)"
proof -
  from assms(1) obtain response where
    "net_get N 0 i \<lparr>get_url = dt_get_url t, get_required_headers = dt_required_headers t\<rparr> = Ok response"
    "get_body response = ru_ciphertext u" by (auto simp: target_for_def)
  with assms show ?thesis
    by (simp add: download_one_def target_for_def stored_def checked_size_def)
qed

lemma join_handles_Ok: "join_handles (map Ok rs) done_before None = Ok (done_before @ rs)"
  by (induction rs arbitrary: done_before) simp_all

lemma download_batch_stored:
  assumes "serves L (pn_transfer N k) w d objects" "set us \<subseteq> set objects"
    and "\<forall>u \<in> set objects. int (length (ru_ciphertext u)) \<le> i64_max"
    and "0 < max_attempts queue" "\<not> blank w" "\<not> blank d"
  shows "download_batch L N queue w d (map ru_object_id us) k = (Ok (map (stored L) us), Suc k)"
proof -
  let ?T = "pn_transfer N k"
  from assms(1,2) obtain targets where t: "net_create_object_download_batch ?T 0 w d (map ru_object_id us) = Ok targets"
    "list_all2 (target_for L ?T) us targets" unfolding serves_def by blast
  have "map (\<lambda>(i, target). download_one L (net_get ?T 0 i) target) (enumerate 0 targets) = map Ok (map (stored L) us)"
  proof (rule nth_equalityI)
    fix i
    assume "i < length (map (\<lambda>(i, target). download_one L (net_get ?T 0 i) target) (enumerate 0 targets))"
    then have i: "i < length us" "i < length targets" using t(2) by (simp_all add: list_all2_lengthD)
    then have "target_for L ?T (us ! i) (targets ! i)" "us ! i \<in> set objects"
      using t(2) assms(2) nth_mem [OF i(1)] by (auto simp: list_all2_conv_all_nth)
    then show "map (\<lambda>(i, target). download_one L (net_get ?T 0 i) target) (enumerate 0 targets) ! i =
        map Ok (map (stored L) us) ! i"
      using i assms(3) by (simp add: nth_enumerate_eq download_one_stored)
  qed (use t(2) in \<open>simp add: list_all2_lengthD\<close>)
  then have "snd (download_body L ?T w d (map ru_object_id us) 0) = Ok (map (stored L) us)"
    using join_handles_Ok [of "map (stored L) us" "[]"] by (simp add: download_body_def t(1) download_attempt_def Let_def)
  then have "snd (retry_loop ?T queue Download n (download_body L ?T w d (map ru_object_id us)) 0) = Ok (map (stored L) us)" for n
    using assms(4) by (cases "download_body L ?T w d (map ru_object_id us) 0") (simp add: retry_loop.simps Let_def)
  moreover have "validate_required w f = Ok ()" "validate_required d f = Ok ()" for f
    using assms(5,6) by (simp_all add: result_simps)
  ultimately show ?thesis by (simp add: download_batch_def download_objects_def)
qed

section \<open>Packs\<close>

definition opened_pack :: "'z pack_libs_scheme \<Rightarrow> string \<Rightarrow> pack_shard_plan \<Rightarrow> unpacked_pack" where
  "opened_pack L i shard =
     \<lparr>up_index = plain_pack_index L i (sort_key pe_entry_id (pack_entries shard)),
      up_entries = map (\<lambda>e. (pe_entry_id e, pe_plaintext e)) (sort_key pe_entry_id (pack_entries shard))\<rparr>"

lemma decrypt_encrypted_pack:
  assumes "libs_ok L" "length nonce = XCHACHA20_NONCE_LEN"
    and "encrypt_pack L nonce key w i kind cid (pack_entries shard) = Ok ep"
  shows "decrypt_pack L key w i kind cid (ep_blob ep) = Ok (opened_pack L i shard)"
    and "distinct (map pp_entry_id (ps_entries shard))"
proof -
  note ok = assms(1) [unfolded libs_ok_def]
  from assms(3) obtain pack compressed k where
    pack: "create_plain_pack L i (pack_entries shard) = Ok pack" and z: "zstd_encode L pack = Ok compressed"
    and k: "object_key L key w kind = Ok k"
    and blob: "encrypt_blob_with_nonce L (json_pack_aad L) k (new_pack_aad w i kind cid) compressed nonce = Ok (ep_blob ep)"
    by (auto simp: encrypt_pack_def result_simps)
  have "decrypt_blob L (json_pack_aad L) k (new_pack_aad w i kind cid) (ep_blob ep) = Ok compressed"
    using decrypt_encrypted_blob [OF _ _ assms(2) blob] ok by simp
  moreover have "zstd_decode L compressed = Ok pack" using ok z by (simp add: zstd_ok_def)
  moreover have "unpack_plain_pack L pack = Ok (opened_pack L i shard)"
    unfolding opened_pack_def using ok pack unpack_created_pack by blast
  ultimately show "decrypt_pack L key w i kind cid (ep_blob ep) = Ok (opened_pack L i shard)"
    by (simp add: decrypt_pack_def k opened_pack_def plain_pack_index_def)
  show "distinct (map pp_entry_id (ps_entries shard))"
    using create_plain_pack_OkD(2) [OF pack] by (simp add: pack_entries_def comp_def)
qed

text \<open>An upload of a pack that the receiver can open.\<close>

definition pack_upload ::
    "'z commit_libs_scheme \<Rightarrow> symmetric_key \<Rightarrow> string \<Rightarrow> string \<Rightarrow> reserved_commit_objects \<Rightarrow> pack_shard_plan
      \<Rightarrow> reserved_encrypted_upload_object \<Rightarrow> bool" where
  "pack_upload L key w cid reserved shard u \<longleftrightarrow>
     bt_get (rc_pack_object_ids reserved) (ps_pack_ref shard) = Some (ru_object_id u) \<and>
     object_kind_for_pack_kind (ps_pack_kind shard) = Ok (ru_kind u) \<and>
     decrypt_pack L key w (ru_object_id u) (ps_pack_kind shard) cid (ru_ciphertext u) =
       Ok (opened_pack L (ru_object_id u) shard) \<and>
     distinct (map pp_entry_id (ps_entries shard))"

lemma encrypted_packs_Ok:
  assumes "libs_ok L" "\<forall>k. length (nonces k) = XCHACHA20_NONCE_LEN"
    and "encrypted_packs L nonces k key w cid reserved shards = Ok us"
  shows "list_all2 (pack_upload L key w cid reserved) shards us"
  using assms(3)
proof (induction shards arbitrary: k us)
  case (Cons shard shards)
  then obtain i ep kind rest where i: "reserved_pack reserved (ps_pack_ref shard) = Ok i"
    and ep: "encrypt_pack L (nonces k) key w i (ps_pack_kind shard) cid (pack_entries shard) = Ok ep"
    and kind: "object_kind_for_pack_kind (ps_pack_kind shard) = Ok kind"
    and rest: "encrypted_packs L nonces (k + 1) key w cid reserved shards = Ok rest"
    and us: "us = \<lparr>ru_object_id = i, ru_kind = kind, ru_ciphertext = ep_blob ep\<rparr> # rest"
    by (auto simp: result_simps)
  have "length (nonces k) = XCHACHA20_NONCE_LEN" using assms(2) by simp
  from decrypt_encrypted_pack [OF assms(1) this ep] Cons.IH [OF rest] i kind show ?case
    by (simp add: us pack_upload_def result_simps)
qed simp

section \<open>Reserved objects\<close>

lemma sort_reserved_append:
  "sort_reserved (xs @ ys) body packs = (let (body, packs) = sort_reserved xs body packs in sort_reserved ys body packs)"
  by (induction xs arbitrary: body packs) simp_all

lemma sort_reserved_packs:
  "\<forall>ob \<in> set obs. ro_client_object_ref ob \<noteq> COMMIT_BODY_REF \<Longrightarrow>
   sort_reserved obs body packs =
     (body, bt.insert_all (map (\<lambda>ob. (ro_client_object_ref ob, ro_object_id ob)) obs) packs)"
  by (induction obs arbitrary: packs) (simp_all add: bt.insert_all_def)

definition refs_ok :: "sync_plan \<Rightarrow> bool" where
  "refs_ok plan \<longleftrightarrow> distinct (map ps_pack_ref (pack_shards plan)) \<and> COMMIT_BODY_REF \<notin> ps_pack_ref ` set (pack_shards plan)"

text \<open>The reservation gives every pack and the body an identifier of its own.\<close>

lemma reserve_commit_objects_Ok:
  assumes "reserve_commit_objects N w d plan = Ok reserved" "reservation_ok N" "refs_ok plan"
  obtains ids where "length ids = length (pack_shards plan)"
    "rc_pack_object_ids reserved = bt_of_list (zip (map ps_pack_ref (pack_shards plan)) ids)"
    "distinct (ids @ [rc_body_object_id reserved])" "\<forall>i \<in> set ids. \<not> blank i"
proof -
  from assms(1) obtain requests objects where
    requests: "collect_results (\<lambda>shard. and_then (object_kind_for_pack_kind (ps_pack_kind shard)) (\<lambda>kind.
           Ok \<lparr>ri_client_object_ref = ps_pack_ref shard, ri_kind = kind\<rparr>)) (pack_shards plan) = Ok requests"
    and objects: "net_reserve_object_ids (cn_transfer N) w d
         (requests @ [\<lparr>ri_client_object_ref = COMMIT_BODY_REF, ri_kind = OBJECT_KIND_COMMIT_BODY\<rparr>]) = Ok objects"
    and reserved: "reserved_commit_objects_of objects = Ok reserved"
    by (auto simp: reserve_commit_objects_def result_simps)
  have "list_all2 (\<lambda>s r. ri_client_object_ref r = ps_pack_ref s) (pack_shards plan) requests"
    using requests by (auto simp: result_simps elim!: list_all2_mono)
  then have "map ri_client_object_ref requests = map ps_pack_ref (pack_shards plan)"
    by (induction rule: list_all2_induct) simp_all
  then have r: "map ri_client_object_ref (requests @ [\<lparr>ri_client_object_ref = COMMIT_BODY_REF, ri_kind = OBJECT_KIND_COMMIT_BODY\<rparr>]) =
      map ps_pack_ref (pack_shards plan) @ [COMMIT_BODY_REF]" by simp
  moreover have "distinct (map ps_pack_ref (pack_shards plan) @ [COMMIT_BODY_REF])" using assms(3) by (auto simp: refs_ok_def)
  ultimately have refs: "map ro_client_object_ref objects = map ps_pack_ref (pack_shards plan) @ [COMMIT_BODY_REF]"
    and ids: "distinct (map ro_object_id objects)" "\<forall>ob \<in> set objects. \<not> blank (ro_object_id ob)"
    using assms(2) objects unfolding reservation_ok_def by metis+
  from refs obtain obs ob where split: "objects = obs @ [ob]"
    by (cases objects rule: rev_cases) simp_all
  with refs have obs: "map ro_client_object_ref obs = map ps_pack_ref (pack_shards plan)"
    "ro_client_object_ref ob = COMMIT_BODY_REF" by simp_all
  have "COMMIT_BODY_REF \<notin> ro_client_object_ref ` set obs"
    using assms(3) arg_cong [OF obs(1), of set] by (simp add: refs_ok_def)
  then have "\<forall>ob \<in> set obs. ro_client_object_ref ob \<noteq> COMMIT_BODY_REF" by force
  from sort_reserved_packs [OF this] reserved obs(2)
  have r: "rc_body_object_id reserved = ro_object_id ob"
    "rc_pack_object_ids reserved = bt_of_list (map (\<lambda>ob. (ro_client_object_ref ob, ro_object_id ob)) obs)"
    by (auto simp: reserved_commit_objects_of_def split sort_reserved_append bt_of_list_alt)
  have "map (\<lambda>ob. (ro_client_object_ref ob, ro_object_id ob)) obs =
      zip (map ps_pack_ref (pack_shards plan)) (map ro_object_id obs)"
    unfolding obs(1) [symmetric] by (simp add: zip_map_map zip_same_conv_map)
  with r ids split show thesis
    by (intro that [of "map ro_object_id obs"]) (use arg_cong [OF obs(1), of length] in auto)
qed

section \<open>Opening what was pushed\<close>

definition pack_ref_for :: "pack_shard_plan \<Rightarrow> reserved_encrypted_upload_object \<Rightarrow> commit_body_pack_ref" where
  "pack_ref_for shard u =
     \<lparr>pr_pack_ref = ps_pack_ref shard, pr_object_id = ru_object_id u, pr_pack_kind = ps_pack_kind shard,
      pr_shard_index = ps_shard_index shard, pr_entry_count = length (ps_entries shard)\<rparr>"

lemma commit_body_pack_refs_for:
  assumes "list_all2 (pack_upload L key w cid reserved) (pack_shards plan) us"
  shows "commit_body_pack_refs plan reserved = map2 pack_ref_for (pack_shards plan) us"
  unfolding commit_body_pack_refs_def using assms
  by (induction rule: list_all2_induct) (auto simp: List.map_filter_simps pack_upload_def pack_ref_for_def)

definition opened_packs ::
    "'z pack_libs_scheme \<Rightarrow> pack_shard_plan list \<Rightarrow> reserved_encrypted_upload_object list \<Rightarrow> (string \<times> unpacked_pack) list" where
  "opened_packs L shards us = map2 (\<lambda>s u. (ru_object_id u, opened_pack L (ru_object_id u) s)) shards us"

lemma unpack_pushed:
  assumes "list_all2 (pack_upload L key w cid reserved) shards us"
    and "\<forall>u \<in> set us. bt_get downloads (ru_object_id u) = Some (stored L u)"
  shows "fold_results (unpack_ref L key w cid downloads) (map2 pack_ref_for shards us) acc =
    Ok (bt.insert_all (opened_packs L shards us) acc)"
  using assms
proof (induction arbitrary: acc rule: list_all2_induct)
  case (Cons shard shards u us)
  have "unpack_ref L key w cid downloads (pack_ref_for shard u) acc =
      Ok (bt_insert (ru_object_id u) (opened_pack L (ru_object_id u) shard) acc)"
    using Cons.hyps(1) Cons.prems
    by (simp add: unpack_ref_def pack_ref_for_def validate_downloaded_pack_def stored_def pack_upload_def
        opened_pack_def plain_pack_index_def pack_entries_def)
  with Cons.IH Cons.prems show ?case by (simp add: opened_packs_def bt.insert_all_def)
qed (simp add: opened_packs_def bt.insert_all_def)

lemma pushed_pack_ids:
  "length shards = length us \<Longrightarrow> map pr_object_id (map2 pack_ref_for shards us) = map ru_object_id us"
  by (induction rule: list_induct2) (simp_all add: pack_ref_for_def)

lemma check_pushed_packs:
  assumes "list_all2 (pack_upload L key w cid reserved) shards us"
    and "distinct (map ru_object_id us)" "\<forall>u \<in> set us. \<not> blank (ru_object_id u)"
    and "set (map ru_object_id us) \<inter> set seen = {}"
  shows "check_packs seen (map2 pack_ref_for shards us) = Ok ()"
  using assms
proof (induction arbitrary: seen rule: list_all2_induct)
  case (Cons shard shards u us)
  then show ?case
    by (simp add: pack_ref_for_def pack_upload_def validate_required_def)
qed simp

text \<open>A push: the objects it hands to the upload queue and the request it publishes them with.\<close>

definition pushed_commit ::
    "'z commit_libs_scheme \<Rightarrow> commit_net \<Rightarrow> (nat \<Rightarrow> bytes) \<Rightarrow> 'y push_input_scheme \<Rightarrow> commit_plan_kind \<Rightarrow> string
      \<Rightarrow> string list \<Rightarrow> int \<Rightarrow> sync_plan \<Rightarrow> sync_db
      \<Rightarrow> (reserved_encrypted_upload_object list \<times> publish_commit_input) sync_result" where
  "pushed_commit L N nonces input kind head parents seq plan db =
     and_then (reserve_commit_objects N (in_workspace_id input) (in_device_id input) plan) (\<lambda>reserved.
     and_then (prepare_commit L input kind head parents seq reserved plan db) (\<lambda>pc.
     and_then (encrypted_uploads L nonces (in_workspace_key input) (in_workspace_id input) (bd_commit_id (pp_body pc))
         (plan_kind_label kind) parents (in_device_id input) seq reserved plan (pp_body pc)) (\<lambda>uploads.
       Ok (uploads, publish_request L input kind head parents seq (rc_body_object_id reserved) pc
         (expected_metadata L (last uploads))))))"

text \<open>Everything a publication has computed.\<close>

lemma publish_plan_parts:
  assumes "publish_plan L N queue nonces input kind head parents seq plan db = (Ok r, db')"
    and "pushed_commit L N nonces input kind head parents seq plan db = Ok (uploads, req)"
  obtains reserved pc us body meta pub where
    "reserve_commit_objects N (in_workspace_id input) (in_device_id input) plan = Ok reserved"
    "prepare_commit L input kind head parents seq reserved plan db = Ok pc"
    "encrypted_packs L nonces 0 (in_workspace_key input) (in_workspace_id input) (bd_commit_id (pp_body pc)) reserved
       (pack_shards plan) = Ok us"
    "encrypt_commit_body L (nonces (length (pack_shards plan))) (commit_body_key L (in_workspace_key input) (in_workspace_id input))
       (new_commit_body_aad (in_workspace_id input) (bd_commit_id (pp_body pc)) (plan_kind_label kind) parents
          (in_device_id input) seq (rc_body_object_id reserved)) (json_commit_body L (pp_body pc)) = Ok body"
    "uploads = us @ [\<lparr>ru_object_id = rc_body_object_id reserved, ru_kind = OBJECT_KIND_COMMIT_BODY, ru_ciphertext = body\<rparr>]"
    "\<forall>u \<in> set uploads. int (length (ru_ciphertext u)) \<le> i64_max"
    "meta \<in> expected_metadata L ` set uploads" "um_object_id meta = rc_body_object_id reserved"
    "cn_publish_commit N (publish_request L input kind head parents seq (rc_body_object_id reserved) pc meta) = Ok pub"
    "apply_publish_success L (in_vault_id input) pub kind parents (bd_tree_id (pp_body pc)) (pp_tree pc) plan seq
       (in_now_ms input) db = (Ok (), db')"
    "req = publish_request L input kind head parents seq (rc_body_object_id reserved) pc (expected_metadata L (last uploads))"
proof -
  from assms obtain reserved pc uploaded meta pub where
    reserved: "reserve_commit_objects N (in_workspace_id input) (in_device_id input) plan = Ok reserved"
    and pc: "prepare_commit L input kind head parents seq reserved plan db = Ok pc"
    and enc: "encrypted_uploads L nonces (in_workspace_key input) (in_workspace_id input) (bd_commit_id (pp_body pc))
         (plan_kind_label kind) parents (in_device_id input) seq reserved plan (pp_body pc) = Ok uploads"
    and up: "snd (upload_reserved_objects L (cn_transfer N) queue (in_workspace_id input) (in_device_id input)
         (''upload_'' @ bd_commit_id (pp_body pc)) uploads) = Ok uploaded"
    and meta: "find (\<lambda>m. um_object_id m = rc_body_object_id reserved) uploaded = Some meta"
    and pub: "cn_publish_commit N (publish_request L input kind head parents seq (rc_body_object_id reserved) pc meta) = Ok pub"
    and fin: "apply_publish_success L (in_vault_id input) pub kind parents (bd_tree_id (pp_body pc)) (pp_tree pc) plan seq
       (in_now_ms input) db = (Ok (), db')"
    and req: "req = publish_request L input kind head parents seq (rc_body_object_id reserved) pc (expected_metadata L (last uploads))"
    by (auto simp: publish_plan_def pushed_commit_def result_simps)
  from enc obtain us body where parts:
    "encrypted_packs L nonces 0 (in_workspace_key input) (in_workspace_id input) (bd_commit_id (pp_body pc)) reserved
       (pack_shards plan) = Ok us"
    "encrypt_commit_body L (nonces (length (pack_shards plan))) (commit_body_key L (in_workspace_key input) (in_workspace_id input))
       (new_commit_body_aad (in_workspace_id input) (bd_commit_id (pp_body pc)) (plan_kind_label kind) parents
          (in_device_id input) seq (rc_body_object_id reserved)) (json_commit_body L (pp_body pc)) = Ok body"
    "uploads = us @ [\<lparr>ru_object_id = rc_body_object_id reserved, ru_kind = OBJECT_KIND_COMMIT_BODY, ru_ciphertext = body\<rparr>]"
    by (auto simp: encrypted_uploads_def Let_def result_simps)
  have "uploads \<noteq> []" by (simp add: parts(3))
  with up have "is_ok (collect_results (local_reserved_upload_from L) uploads)"
    by (cases "collect_results (local_reserved_upload_from L) uploads")
      (simp_all add: upload_reserved_objects_def split: result.split_asm)
  then have "\<forall>u \<in> set uploads. is_ok (local_reserved_upload_from L u)" unfolding collect_results_is_ok .
  then have sizes: "\<forall>u \<in> set uploads. int (length (ru_ciphertext u)) \<le> i64_max"
    by (auto simp: is_ok_iff local_reserved_upload_from_def result_simps)
  have "meta \<in> set uploaded" "um_object_id meta = rc_body_object_id reserved"
    using meta by (auto simp: find_Some_iff)
  with upload_reserved_objects_Ok [OF up] show thesis
    by (intro that [OF reserved pc parts sizes _ _ pub fin req]) auto
qed

lemma mset_bt_values:
  assumes "distinct (map fst ps)"
  shows "mset (bt_values (bt_of_list ps)) = mset (map snd ps)"
proof -
  have "set (bt_of_list ps) = set ps"
    using bt.entries_insert_all_distinct [OF assms] by (simp add: bt_of_list_alt)
  moreover have "distinct (bt_of_list ps)" "distinct ps"
    using bt_wf_distinct [OF bt_wf_of_list] assms by (auto simp: distinct_map)
  ultimately have "mset (bt_of_list ps) = mset ps" by (simp add: set_eq_iff_mset_eq_distinct)
  then show ?thesis by (simp add: bt_values_def)
qed

text \<open>The reserved identifiers are those of the uploads.\<close>

lemma pushed_ids:
  assumes "list_all2 (pack_upload L key w cid reserved) (pack_shards plan) us" "refs_ok plan"
    and "length ids = length (pack_shards plan)"
    and "rc_pack_object_ids reserved = bt_of_list (zip (map ps_pack_ref (pack_shards plan)) ids)"
  shows "map ru_object_id us = ids"
proof (rule nth_equalityI)
  show "length (map ru_object_id us) = length ids" using assms(1,3) by (simp add: list_all2_lengthD)
  fix i
  assume "i < length (map ru_object_id us)"
  then have i: "i < length us" "i < length (pack_shards plan)" using assms(1) by (simp_all add: list_all2_lengthD)
  let ?z = "zip (map ps_pack_ref (pack_shards plan)) ids"
  have d: "distinct (map fst ?z)" using assms(2,3) by (simp add: refs_ok_def)
  have "?z ! i \<in> set ?z" using i assms(3) by (intro nth_mem) simp
  then have "(ps_pack_ref (pack_shards plan ! i), ids ! i) \<in> set ?z" using i assms(3) by simp
  then have "bt_get (rc_pack_object_ids reserved) (ps_pack_ref (pack_shards plan ! i)) = Some (ids ! i)"
    by (simp add: assms(4) bt_get_of_list map_of_rev_distinct [OF d] d)
  moreover have "pack_upload L key w cid reserved (pack_shards plan ! i) (us ! i)"
    using assms(1) i by (simp add: list_all2_nthD)
  ultimately show "map ru_object_id us ! i = ids ! i" using i by (simp add: pack_upload_def)
qed

lemma decrypt_commit_Suc:
  assumes "pull_download_one L N queue w d (ch_body_object_id header) k = (Ok body_download, k1)"
    "validate_downloaded_commit_body L header body_download = Ok ()"
    "commit_kind_label (ch_commit_kind header) = Ok kind_label"
    "decrypt_commit_body L (commit_body_key L key w)
         (new_commit_body_aad w (ch_commit_id header) kind_label (ch_parent_commit_ids header)
            (ch_author_device_id header) (ch_device_seq header) (ch_body_object_id header)) (do_ciphertext body_download) =
       Ok plaintext"
    "commit_body_of_json L plaintext = Ok body" "validate_commit_body header kind_label body = Ok ()"
    "download_many L N queue w d (map pr_object_id (bd_packs body)) k1 = (Ok downloads, k2)"
    "fold_results (unpack_ref L key w (ch_commit_id header) downloads) (bd_packs body) [] = Ok packs"
  shows "decrypt_commit L N queue w d key header k = (Ok \<lparr>dc_header = header, dc_body = body, dc_packs = packs\<rparr>, k2)"
  using assms by (simp add: decrypt_commit_def)

text \<open>The receiver opens the commit a push has published.\<close>

lemma decrypt_pushed:
  assumes ok: "libs_ok L" "\<forall>k. length (nonces k) = XCHACHA20_NONCE_LEN" "reservation_ok N" "refs_ok plan"
    and publish: "publish_plan L N queue nonces input kind head parents seq plan db = (Ok r, db')"
    and objects: "pushed_commit L N nonces input kind head parents seq plan db = Ok (uploads, req)"
    and served: "\<forall>k. serves L (pn_transfer M k) (in_workspace_id input) d uploads"
    and queue: "0 < max_attempts queue'" "\<not> blank (in_workspace_id input)" "\<not> blank d"
  obtains reserved pc us pub where
    "reserve_commit_objects N (in_workspace_id input) (in_device_id input) plan = Ok reserved"
    "prepare_commit L input kind head parents seq reserved plan db = Ok pc"
    "list_all2 (pack_upload L (in_workspace_key input) (in_workspace_id input) (bd_commit_id (pp_body pc)) reserved)
       (pack_shards plan) us"
    "distinct (map ru_object_id us)" "cn_publish_commit N req = Ok pub"
    "pc_commit_kind req = proto_commit_kind kind"
    "apply_publish_success L (in_vault_id input) pub kind parents (bd_tree_id (pp_body pc)) (pp_tree pc) plan seq
       (in_now_ms input) db = (Ok (), db')"
    "\<forall>header k. header_for req header \<longrightarrow>
       decrypt_commit L M queue' (in_workspace_id input) d (in_workspace_key input) header k =
         (Ok \<lparr>dc_header = header, dc_body = pp_body pc, dc_packs = bt_of_list (opened_packs L (pack_shards plan) us)\<rparr>,
          k + 2)"
proof -
  from publish_plan_parts [OF publish objects] obtain reserved pc us body meta pub where
    reserved: "reserve_commit_objects N (in_workspace_id input) (in_device_id input) plan = Ok reserved"
    and pc: "prepare_commit L input kind head parents seq reserved plan db = Ok pc"
    and packs: "encrypted_packs L nonces 0 (in_workspace_key input) (in_workspace_id input) (bd_commit_id (pp_body pc)) reserved
       (pack_shards plan) = Ok us"
    and body: "encrypt_commit_body L (nonces (length (pack_shards plan))) (commit_body_key L (in_workspace_key input) (in_workspace_id input))
       (new_commit_body_aad (in_workspace_id input) (bd_commit_id (pp_body pc)) (plan_kind_label kind) parents
          (in_device_id input) seq (rc_body_object_id reserved)) (json_commit_body L (pp_body pc)) = Ok body"
    and uploads: "uploads = us @ [\<lparr>ru_object_id = rc_body_object_id reserved, ru_kind = OBJECT_KIND_COMMIT_BODY, ru_ciphertext = body\<rparr>]"
    and sizes: "\<forall>u \<in> set uploads. int (length (ru_ciphertext u)) \<le> i64_max"
    and meta: "meta \<in> expected_metadata L ` set uploads" "um_object_id meta = rc_body_object_id reserved"
    and pub: "cn_publish_commit N (publish_request L input kind head parents seq (rc_body_object_id reserved) pc meta) = Ok pub"
    and fin: "apply_publish_success L (in_vault_id input) pub kind parents (bd_tree_id (pp_body pc)) (pp_tree pc) plan seq
       (in_now_ms input) db = (Ok (), db')"
    and req: "req = publish_request L input kind head parents seq (rc_body_object_id reserved) pc (expected_metadata L (last uploads))" .
  let ?w = "in_workspace_id input" and ?key = "in_workspace_key input" and ?cid = "bd_commit_id (pp_body pc)"
  let ?body = "\<lparr>ru_object_id = rc_body_object_id reserved, ru_kind = OBJECT_KIND_COMMIT_BODY, ru_ciphertext = body\<rparr>"
  note opens = encrypted_packs_Ok [OF ok(1,2) packs]
  from reserve_commit_objects_Ok [OF reserved ok(3,4)] obtain ids where
    ids: "length ids = length (pack_shards plan)"
      "rc_pack_object_ids reserved = bt_of_list (zip (map ps_pack_ref (pack_shards plan)) ids)"
      "distinct (ids @ [rc_body_object_id reserved])" "\<forall>i \<in> set ids. \<not> blank i" .
  have us: "map ru_object_id us = ids" by (rule pushed_ids [OF opens ok(4) ids(1,2)])
  obtain u where u: "u \<in> set uploads" "meta = expected_metadata L u" using meta(1) by blast
  have "rc_body_object_id reserved \<notin> ru_object_id ` set us" using ids(3) us by auto
  moreover have "ru_object_id u = rc_body_object_id reserved" using meta(2) u(2) by (simp add: expected_metadata_def)
  ultimately have "u \<notin> set us" by (metis imageI)
  with u have "meta = expected_metadata L ?body" by (simp add: uploads)
  then have req: "req = publish_request L input kind head parents seq (rc_body_object_id reserved) pc meta"
    and m: "um_ciphertext_sha256 meta = sha256_hex L body" "um_size_bytes meta = int (length body)"
    by (simp_all add: expected_metadata_def req uploads)
  have refs: "commit_body_pack_refs plan reserved = map2 pack_ref_for (pack_shards plan) us"
    by (rule commit_body_pack_refs_for [OF opens])
  have b: "bd_format (pp_body pc) = ''kuku.sync.commit-body''" "bd_version (pp_body pc) = 1"
    "bd_commit_kind (pp_body pc) = plan_kind_label kind" "bd_parent_commit_ids (pp_body pc) = parents"
    "bd_packs (pp_body pc) = map2 pack_ref_for (pack_shards plan) us"
    "pp_referenced pc = sort (bt_values (rc_pack_object_ids reserved))"
    using pc by (auto simp: prepare_commit_def Let_def result_simps refs)
  have ids': "map pr_object_id (map2 pack_ref_for (pack_shards plan) us) = ids"
    using pushed_pack_ids [OF list_all2_lengthD [OF opens]] us by (rule trans)
  have "distinct (map fst (zip (map ps_pack_ref (pack_shards plan)) ids))" using ok(4) ids(1) by (simp add: refs_ok_def)
  from mset_bt_values [OF this] have "sort (bt_values (rc_pack_object_ids reserved)) = sort ids"
    using ids(1) by (intro properties_for_sort) (simp_all add: ids(2))
  then have sorted: "sort ids = sort (pp_referenced pc)" by (simp add: b(6) sorted_sort_id)
  have blob: "decrypt_commit_body L (commit_body_key L ?key ?w)
      (new_commit_body_aad ?w ?cid (plan_kind_label kind) parents (in_device_id input) seq (rc_body_object_id reserved)) body =
      Ok (json_commit_body L (pp_body pc))"
    using decrypt_encrypted_blob [OF _ _ _ body [unfolded encrypt_commit_body_def]] ok(1,2)
    by (simp add: decrypt_commit_body_def libs_ok_def)
  have size: "int (length body) \<le> i64_max" using sizes by (simp add: uploads)
  have get: "\<forall>u \<in> set us. bt_get (bt_of_list (map (\<lambda>ob. (do_object_id ob, ob)) (map (stored L) us))) (ru_object_id u) = Some (stored L u)"
  proof -
    have d: "distinct (map fst (map (\<lambda>ob. (do_object_id ob, ob)) (map (stored L) us)))"
      using ids(3) us by (simp add: comp_def stored_def)
    show ?thesis
      unfolding bt_get_of_list map_of_rev_distinct [OF d] using map_of_eq_Some_iff [OF d] by (force simp: stored_def)
  qed
  have "decrypt_commit L M queue' ?w d ?key header k =
      (Ok \<lparr>dc_header = header, dc_body = pp_body pc, dc_packs = bt_of_list (opened_packs L (pack_shards plan) us)\<rparr>, k + 2)"
    if h: "header_for req header" for header k
  proof (rule decrypt_commit_Suc)
    have served: "serves L (pn_transfer M k) ?w d uploads" for k using served by simp
    note download = download_batch_stored [OF served _ sizes queue]
    note f = h [unfolded header_for_def req publish_request_def, simplified]
    show "pull_download_one L M queue' ?w d (ch_body_object_id header) k = (Ok (stored L ?body), Suc k)"
      using download [of "[?body]"] by (simp add: pull_download_one_def f uploads)
    show "validate_downloaded_commit_body L header (stored L ?body) = Ok ()"
      using size by (simp add: validate_downloaded_commit_body_def stored_def f m encrypted_blob_metadata_def)
    show "commit_kind_label (ch_commit_kind header) = Ok (plan_kind_label kind)" by (simp add: f)
    show "decrypt_commit_body L (commit_body_key L ?key ?w)
         (new_commit_body_aad ?w (ch_commit_id header) (plan_kind_label kind) (ch_parent_commit_ids header)
            (ch_author_device_id header) (ch_device_seq header) (ch_body_object_id header)) (do_ciphertext (stored L ?body)) =
       Ok (json_commit_body L (pp_body pc))"
      using blob by (simp add: f stored_def)
    show "commit_body_of_json L (json_commit_body L (pp_body pc)) = Ok (pp_body pc)"
      using ok(1) by (simp add: libs_ok_def commit_body_ok_def)
    show "validate_commit_body header (plan_kind_label kind) (pp_body pc) = Ok ()"
      using check_pushed_packs [OF opens, of "[]"] ids us sorted ids'
      by (auto simp: validate_commit_body_def validate_packs_def b(1-5) f)
    show "download_many L M queue' ?w d (map pr_object_id (bd_packs (pp_body pc))) (Suc k) =
        (Ok (bt_of_list (map (\<lambda>ob. (do_object_id ob, ob)) (map (stored L) us))), k + 2)"
      unfolding b(5) ids' us [symmetric] download_many_def
      using download [of us "Suc k"] by (simp add: uploads subset_insertI)
    show "fold_results (unpack_ref L ?key ?w (ch_commit_id header)
          (bt_of_list (map (\<lambda>ob. (do_object_id ob, ob)) (map (stored L) us)))) (bd_packs (pp_body pc)) [] =
        Ok (bt_of_list (opened_packs L (pack_shards plan) us))"
      using unpack_pushed [OF opens get, of "[]"] by (simp add: b(5) f bt_of_list_alt)
  qed
  moreover have "pc_commit_kind req = proto_commit_kind kind" by (simp add: req publish_request_def)
  ultimately show thesis using ids(3) us by (intro that [OF reserved pc opens _ pub [folded req] _ fin]) simp_all
qed

section \<open>The changes of a pushed commit verify\<close>

lemma markdown_name_graphic:
  assumes "is_markdown_name name"
  shows "\<exists>c \<in> set name. is_ascii_graphic c"
proof -
  from assms obtain e where e: "extension_of_name name = Some e" "to_ascii_lowercase e = to_ascii_lowercase ''md''"
    by (auto simp: is_markdown_name_def eq_ignore_ascii_case_def split: option.splits)
  have "e = rev (takeWhile (\<lambda>c. c \<noteq> dot) (rev name))"
    using e(1) by (simp add: extension_of_name_def rsplit_dot_def Let_def split: if_splits)
  then have "set e \<subseteq> set name" using set_takeWhileD [of _ _ "rev name"] by fastforce
  moreover have "length e = 2" using arg_cong [OF e(2), of length] by (simp add: to_ascii_lowercase_def)
  moreover have "\<forall>c \<in> set e. is_ascii_graphic c"
  proof
    fix c
    assume "c \<in> set e"
    then have "ascii_lower c \<in> set (to_ascii_lowercase ''md'')"
      unfolding e(2) [symmetric] by (simp add: to_ascii_lowercase_def)
    then show "is_ascii_graphic c"
      by (auto simp: to_ascii_lowercase_def ascii_lower_def is_ascii_graphic_def split: if_splits)
  qed
  ultimately show ?thesis by (cases e) auto
qed

lemma scanned_path:
  assumes "scan_vault lc hash root fs = Ok files" "fs_wf fs" "names_ok fs" "f \<in> set files"
  obtains p t where "fs_lookup fs p = Some (File (sf_plaintext f) t)" "p \<noteq> []" "sf_path f = to_relative_path p"
    "components (sf_path f) = map Normal p" "set (last p) \<subseteq> set (sf_path f)" "is_markdown_name (last p)"
    "normalize_vault_relative_path lc (sf_path f) = Ok (sf_normalized_path f)"
    "sf_file_id f = file_id_for_normalized_path hash (sf_normalized_path f)"
    "sf_plaintext_hash f = hash (sf_plaintext f)" "sf_size_bytes f = int (length (sf_plaintext f))"
    "int (length (sf_plaintext f)) \<le> i64_max"
proof -
  from scan_vault_OkD(2) [OF assms(1,2), of f] assms(4) obtain p b t where
    p: "scannable fs [] p b t" "scan_file lc hash p b t = Ok f" by blast
  have names: "\<forall>x \<in> set p. plain_name x" using names_ok_lookup [OF _ assms(3)] p(1) by (auto simp: scannable_def)
  from p(2) have f: "sf_path f = to_relative_path p" "sf_plaintext f = b"
    "normalize_vault_relative_path lc (sf_path f) = Ok (sf_normalized_path f)"
    "sf_file_id f = file_id_for_normalized_path hash (sf_normalized_path f)"
    "sf_plaintext_hash f = hash b" "sf_size_bytes f = int (length b)" "int (length b) \<le> i64_max"
    by (auto simp: scan_file_def Let_def result_simps split: if_splits)
  have "to_relative_path p = join_with ''/'' p"
    unfolding to_relative_path_def using names by (intro replace_char_idle join_no_backslash) (simp add: plain_name_def)
  then have "set (last p) \<subseteq> set (sf_path f)" using join_with_contains [of "last p" p] p(1) by (simp add: f(1) scannable_def)
  with f p(1) components_relative [OF names] show thesis
    by (intro that [of p t]) (auto simp: scannable_def Sync_Scanner.is_markdown_path_def)
qed

text \<open>Every scanned file has an identity the receiver accepts.\<close>

lemma scanned_identity:
  assumes "scan_vault (to_lowercase L) (blake3_hex L) root fs = Ok files" "fs_wf fs" "names_ok fs" "f \<in> set files"
  shows "validate_remote_file_identity L (sf_file_id f) (sf_path f) (sf_normalized_path f) = Ok ()"
    and "validate_plaintext_metadata L (sf_path f) (sf_plaintext f) (sf_plaintext_hash f) (sf_size_bytes f) = Ok ()"
proof -
  from scanned_path [OF assms] obtain p t where p: "p \<noteq> []" "components (sf_path f) = map Normal p"
    "set (last p) \<subseteq> set (sf_path f)" "is_markdown_name (last p)"
    "normalize_vault_relative_path (to_lowercase L) (sf_path f) = Ok (sf_normalized_path f)"
    "sf_file_id f = file_id_for_normalized_path (blake3_hex L) (sf_normalized_path f)"
    "sf_plaintext_hash f = blake3_hex L (sf_plaintext f)" "sf_size_bytes f = int (length (sf_plaintext f))"
    "int (length (sf_plaintext f)) \<le> i64_max" .
  have ext: "path_extension (sf_path f) = extension_of_name (last p)"
    using p(1) by (simp add: path_extension_def file_name_def p(2) last_map)
  have "\<not> blank (sf_file_id f)"
    by (rule not_blank_if_graphic [of "CHR ''f''"]) (simp_all add: p(6) file_id_for_normalized_path_def is_ascii_graphic_def)
  moreover have "\<not> blank (sf_path f)"
    using markdown_name_graphic [OF p(4)] p(3) not_blank_if_graphic by blast
  moreover have "\<not> (case path_extension (sf_path f) of None \<Rightarrow> True | Some ext \<Rightarrow> \<not> eq_ignore_ascii_case ext ''md'')"
    using p(4) by (auto simp: ext is_markdown_name_def split: option.splits)
  ultimately show "validate_remote_file_identity L (sf_file_id f) (sf_path f) (sf_normalized_path f) = Ok ()"
    using p(5,6) by (simp add: validate_remote_file_identity_def validate_required_def)
  show "validate_plaintext_metadata L (sf_path f) (sf_plaintext f) (sf_plaintext_hash f) (sf_size_bytes f) = Ok ()"
    using p(7-9) by (simp add: validate_plaintext_metadata_def)
qed

section \<open>The receiver's tree is the sender's\<close>

text \<open>What the receiver demands of an operation of the plan.\<close>

fun op_ok :: "'z commit_libs_scheme \<Rightarrow> pack_shard_plan list \<Rightarrow> plan_file_op \<Rightarrow> bool" where
  "op_ok L shards (PlanUpsert i path np h n pack_ref entry_id) \<longleftrightarrow>
     validate_remote_file_identity L i path np = Ok () \<and>
     (\<exists>s \<in> set shards. ps_pack_ref s = pack_ref \<and> (\<exists>e \<in> set (ps_entries s).
        pp_entry_id e = entry_id \<and> validate_plaintext_metadata L path (pp_plaintext e) h n = Ok ()))"
| "op_ok L shards (PlanDelete i path np) \<longleftrightarrow> validate_remote_file_identity L i path np = Ok ()"

lemma pushed_entry:
  assumes "list_all2 (pack_upload L key w cid reserved) shards us" "distinct (map ru_object_id us)"
    and "s \<in> set shards" "e \<in> set (ps_entries s)" "bt_get (rc_pack_object_ids reserved) (ps_pack_ref s) = Some i"
  shows "pack_entry_plaintext (bt_of_list (opened_packs L shards us)) \<lparr>ref_object_id = i, ref_entry_id = pp_entry_id e\<rparr> =
    Ok (pp_plaintext e)"
proof -
  from assms(3) obtain k where k: "k < length shards" "shards ! k = s" by (auto simp: in_set_conv_nth)
  have l: "length us = length shards" using assms(1) by (simp add: list_all2_lengthD)
  have u: "pack_upload L key w cid reserved s (us ! k)" using list_all2_nthD [OF assms(1) k(1)] k(2) by simp
  then have i: "ru_object_id (us ! k) = i" using assms(5) by (simp add: pack_upload_def)
  have d: "distinct (map fst (opened_packs L shards us))"
    using assms(2) l by (simp add: opened_packs_def comp_def case_prod_beta map_fst_zip [symmetric])
      (metis (no_types, lifting) comp_def map_eq_conv map_map map_snd_zip)
  have "opened_packs L shards us ! k \<in> set (opened_packs L shards us)" using k l by (intro nth_mem) (simp add: opened_packs_def)
  then have "(i, opened_pack L i s) \<in> set (opened_packs L shards us)" using k l i by (simp add: opened_packs_def)
  then have get: "bt_get (bt_of_list (opened_packs L shards us)) i = Some (opened_pack L i s)"
    unfolding bt_get_of_list map_of_rev_distinct [OF d] using map_of_eq_Some_iff [OF d] by simp
  have ids: "distinct (map fst (up_entries (opened_pack L i s)))"
  proof -
    have "distinct (map pe_entry_id (pack_entries s))" using u by (simp add: pack_upload_def pack_entries_def comp_def)
    then have "distinct (map pe_entry_id (sort_key pe_entry_id (pack_entries s)))"
      by (metis distinct_map distinct_sort set_sort)
    then show ?thesis by (simp add: opened_pack_def comp_def)
  qed
  have "(pp_entry_id e, pp_plaintext e) \<in> set (up_entries (opened_pack L i s))"
    using assms(4) by (force simp: opened_pack_def pack_entries_def)
  then have "bt_get (up_entries (opened_pack L i s)) (pp_entry_id e) = Some (pp_plaintext e)"
    using ids by (simp add: bt_get_def)
  then show ?thesis by (simp add: pack_entry_plaintext_def get)
qed

text \<open>Two trees with the same entries but for the commits that wrote them.\<close>

definition same_bodies :: "tree_map \<Rightarrow> tree_map \<Rightarrow> bool" where
  "same_bodies =
     list_all2 (\<lambda>x y. fst x = fst y \<and> tree_cache_entry_body_of (snd x) = tree_cache_entry_body_of (snd y))"

lemma same_bodies_insert:
  assumes "same_bodies t t'" "tree_cache_entry_body_of e = tree_cache_entry_body_of e'"
  shows "same_bodies (bt_insert i e t) (bt_insert i e' t')"
  using assms(1) unfolding same_bodies_def
  by (induction rule: list_all2_induct) (use assms(2) in auto)

lemma same_bodies_remove: "same_bodies t t' \<Longrightarrow> same_bodies (bt_remove i t) (bt_remove i t')"
  unfolding same_bodies_def by (induction rule: list_all2_induct) auto

lemma map_sort_key: "map f (sort_key (\<lambda>x. g (f x)) xs) = sort_key g (map f xs)"
proof -
  have "map f (insort_key (\<lambda>x. g (f x)) x xs) = insort_key g (f x) (map f xs)" for x xs
    by (induction xs) simp_all
  then show ?thesis by (induction xs) simp_all
qed

lemma same_bodies_tree_id:
  assumes "same_bodies t t'"
  shows "tree_id_for_entries L (entries_of_tree t) = tree_id_for_entries L (entries_of_tree t')"
proof -
  have "map tree_cache_entry_body_of (map snd t) = map tree_cache_entry_body_of (map snd t')"
    using assms unfolding same_bodies_def by (induction rule: list_all2_induct) simp_all
  then have "map tree_cache_entry_body_of (sort_key (\<lambda>e. tb_normalized_path (tree_cache_entry_body_of e)) (map snd t)) =
      map tree_cache_entry_body_of (sort_key (\<lambda>e. tb_normalized_path (tree_cache_entry_body_of e)) (map snd t'))"
    by (simp only: map_sort_key)
  then show ?thesis
    by (simp add: tree_id_for_entries_def entries_of_tree_def bt_values_def) (simp add: tree_cache_entry_body_of_def)
qed

text \<open>Every change of a pushed commit verifies, and leads to the tree the sender has computed.\<close>

lemma pushed_change:
  assumes "list_all2 (pack_upload L key w cid reserved) shards us" "distinct (map ru_object_id us)"
    and "op_ok L shards op" "commit_body_file_op_of reserved op = Ok change" "materialize_op reserved op t = Ok t1"
    and "same_bodies t t'" "dc_packs commit = bt_of_list (opened_packs L shards us)"
  shows "\<exists>t1'. materialize_remote_change L commit change t' = Ok t1' \<and> same_bodies t1 t1'"
proof (cases op)
  case (PlanUpsert i path np h n pack_ref entry_id)
  with assms(3) obtain s e where valid: "validate_remote_file_identity L i path np = Ok ()"
    and s: "s \<in> set shards" "ps_pack_ref s = pack_ref" "e \<in> set (ps_entries s)" "pp_entry_id e = entry_id"
    and metadata: "validate_plaintext_metadata L path (pp_plaintext e) h n = Ok ()" by auto
  from assms(4,5) PlanUpsert obtain ob where ob: "bt_get (rc_pack_object_ids reserved) pack_ref = Some ob"
    and change: "change = UpsertFile i path np h n \<lparr>ref_object_id = ob, ref_entry_id = entry_id\<rparr>"
    and t1: "t1 = bt_insert i \<lparr>tr_commit_id = [], tr_file_id = i, tr_normalized_path = np,
             tr_plaintext_hash = Some h, tr_content_object_id = Some ob,
             tr_pack_entry_id = Some entry_id, tr_kind = ''markdown''\<rparr> t"
    by (auto simp: result_simps)
  have "pack_entry_plaintext (dc_packs commit) \<lparr>ref_object_id = ob, ref_entry_id = entry_id\<rparr> = Ok (pp_plaintext e)"
    using pushed_entry [OF assms(1,2) s(1,3)] ob s(2,4) assms(7) by simp
  then have "materialize_remote_change L commit change t' = Ok (bt_insert i (remote_entry (ch_commit_id (dc_header commit)) i np h
      \<lparr>ref_object_id = ob, ref_entry_id = entry_id\<rparr>) t')"
    using valid metadata by (simp add: change)
  moreover have "same_bodies t1 (bt_insert i (remote_entry (ch_commit_id (dc_header commit)) i np h
      \<lparr>ref_object_id = ob, ref_entry_id = entry_id\<rparr>) t')"
    unfolding t1 by (rule same_bodies_insert [OF assms(6)])
      (simp add: tree_cache_entry_body_of_def remote_entry_def FILE_KIND_MARKDOWN_def)
  ultimately show ?thesis by blast
next
  case (PlanDelete i path np)
  with assms(3-6) same_bodies_remove show ?thesis by auto
qed

lemma pushed_changes:
  assumes "list_all2 (pack_upload L key w cid reserved) shards us" "distinct (map ru_object_id us)"
    and "\<forall>op \<in> set ops. op_ok L shards op" "collect_results (commit_body_file_op_of reserved) ops = Ok changes"
    and "fold_results (materialize_op reserved) ops t = Ok t1" "same_bodies t t'"
    and "dc_packs commit = bt_of_list (opened_packs L shards us)"
  shows "\<exists>t1'. fold_results (materialize_remote_change L commit) changes t' = Ok t1' \<and> same_bodies t1 t1'"
  using assms(3-6)
proof (induction ops arbitrary: changes t t')
  case (Cons op ops)
  then obtain c cs t2 where step: "commit_body_file_op_of reserved op = Ok c" "materialize_op reserved op t = Ok t2"
    and rest: "collect_results (commit_body_file_op_of reserved) ops = Ok cs"
      "fold_results (materialize_op reserved) ops t2 = Ok t1" "changes = c # cs"
    by (auto simp: result_simps)
  have "op_ok L shards op" using Cons.prems(1) by simp
  from pushed_change [OF assms(1,2) this step Cons.prems(4) assms(7)] obtain t2' where
    t2': "materialize_remote_change L commit c t' = Ok t2'" "same_bodies t2 t2'" by blast
  from Cons.IH [OF _ rest(1,2) t2'(2)] Cons.prems(1) t2'(1) show ?case by (simp add: rest(3))
qed (simp add: same_bodies_def)

section \<open>Plans the receiver accepts\<close>

text \<open>The file table lists files a receiver would accept; scans keep it so, and report only such files as deleted.\<close>

definition row_valid :: "'z commit_libs_scheme \<Rightarrow> sync_file_record \<Rightarrow> bool" where
  "row_valid L row \<longleftrightarrow> validate_remote_file_identity L (file_id row) (fr_path row) (normalized_path row) = Ok ()"

lemma row_valid_deleted: "row_valid L (r\<lparr>deleted := a, dirty := b, fr_mtime_ms := c\<rparr>) \<longleftrightarrow> row_valid L r"
  by (simp add: row_valid_def)

lemma scan_deletions_valid:
  "scan_deletions seen now ex rows = Ok (rows', dels) \<Longrightarrow> \<forall>r \<in> set rows. row_valid L r \<Longrightarrow> \<forall>d \<in> set dels. row_valid L d"
proof (induction ex arbitrary: rows dels)
  case (Cons e ex)
  let ?rows1 = "update_rows (\<lambda>r. file_id r = file_id e) (\<lambda>r. r\<lparr>deleted := True, dirty := True, fr_mtime_ms := Some now\<rparr>) rows"
  show ?case
  proof (cases "deleted e \<or> normalized_path e \<in> set seen")
    case True
    with Cons show ?thesis by simp
  next
    case False
    with Cons.prems(1) obtain gone dels1 where "get_file_by_id ?rows1 (file_id e) = Ok gone"
      and rest: "scan_deletions seen now ex ?rows1 = Ok (rows', dels1)" and dels: "dels = gone # dels1"
      by (auto simp: and_then_eq_Ok Let_def)
    then have "gone \<in> set ?rows1" by (auto simp: get_file_by_id_def result_simps dest: find_row_Some)
    moreover have valid: "\<forall>r \<in> set ?rows1. row_valid L r"
      using Cons.prems(2) by (auto simp: update_rows_def row_valid_deleted)
    ultimately show ?thesis using Cons.IH [OF rest valid] by (simp add: dels)
  qed
qed simp

lemma scan_deletions_accepted:
  assumes "apply_scan (blake3_hex L) (map file_input files) now db = (Ok res, db')"
    and "files_wf (sync_files db)" "ids_derived (blake3_hex L) (sync_files db)" "\<forall>r \<in> set (sync_files db). row_valid L r"
    and files: "\<forall>f \<in> set files. validate_remote_file_identity L (sf_file_id f) (sf_path f) (sf_normalized_path f) = Ok () \<and>
      sf_file_id f = file_id_for_normalized_path (blake3_hex L) (sf_normalized_path f)"
  shows "\<forall>d \<in> set (deletions res). row_valid L d"
proof -
  let ?fs = "map file_input files"
  from assms(1) obtain seen rows1 ups rows2 where
    up: "scan_upserts (blake3_hex L) (list_files db) ?fs [] (sync_files db) = Ok (seen, rows1, ups)"
    and del: "scan_deletions seen now (list_files db) rows1 = Ok (rows2, deletions res)"
    by (auto simp: apply_scan_def and_then_eq_Ok Let_def split: result.splits prod.splits)
  have rows1: "rows1 = map (upserted_row ?fs) (sync_files db) @ map (scan_insert (blake3_hex L)) (new_inputs (sync_files db) ?fs)"
    by (rule scan_upserts_rows [OF up]) (use assms(2) list_files_simps in \<open>simp_all add: files_wf_def\<close>)
  have "row_valid L (upserted_row ?fs r)" if r: "r \<in> set (sync_files db)" for r
  proof (cases "input_for ?fs r")
    case None
    with r assms(4) show ?thesis by (simp add: upserted_row_def)
  next
    case (Some g)
    then obtain f where f: "f \<in> set files" "g = file_input f" "sf_normalized_path f = normalized_path r"
      using input_for_Some [OF Some] by (auto simp: file_input_def)
    then have "file_id r = sf_file_id f" using r files assms(3) by (simp add: ids_derived_def)
    moreover have "validate_remote_file_identity L (sf_file_id f) (sf_path f) (sf_normalized_path f) = Ok ()"
      using files f(1) by blast
    ultimately show ?thesis
      using Some f by (simp add: upserted_row_def row_valid_def scan_update_def file_input_def)
  qed
  moreover have "row_valid L (scan_insert (blake3_hex L) g)" if "g \<in> set (new_inputs (sync_files db) ?fs)" for g
    using that files by (auto simp: new_inputs_def row_valid_def scan_insert_def file_input_def)
  ultimately show ?thesis by (intro scan_deletions_valid [OF del]) (auto simp: rows1)
qed

lemma shards_indexed_refs:
  assumes "shards_indexed kind (pack_shards plan)" "kind \<in> {CONTENT_PACK_KIND, CHECKPOINT_PACK_KIND}"
  shows "refs_ok plan"
proof -
  have r: "map ps_pack_ref (pack_shards plan) = map (\<lambda>k. kind @ ''-'' @ show_nat k) [0..<length (pack_shards plan)]"
    using assms(1) by (intro nth_equalityI) (simp_all add: shards_indexed_def)
  have "inj show_nat" by (metis injI read_show_nat)
  then have "distinct (map ps_pack_ref (pack_shards plan))"
    unfolding r by (auto simp: distinct_map inj_on_def)
  moreover have "COMMIT_BODY_REF \<noteq> kind @ ''-'' @ show_nat k" for k
    using assms(2) by (auto simp: COMMIT_BODY_REF_def CONTENT_PACK_KIND_def CHECKPOINT_PACK_KIND_def)
  moreover have "ps_pack_ref ` set (pack_shards plan) = (\<lambda>k. kind @ ''-'' @ show_nat k) ` {0..<length (pack_shards plan)}"
    using arg_cong [OF r, of set] by simp
  ultimately show ?thesis by (auto simp: refs_ok_def)
qed

lemma upsert_for_ok:
  assumes "scan_vault (to_lowercase L) (blake3_hex L) root fs = Ok files" "fs_wf fs" "names_ok fs" "f \<in> set files"
    and "content_packed shards f (fst ref) (snd ref)"
  shows "op_ok L shards (upsert_for f ref)"
  using scanned_identity [OF assms(1-4)] assms(5) by (fastforce simp: upsert_for_def content_packed_def)

text \<open>Everything a push plans is accepted.\<close>

lemma push_plan_accepted:
  assumes scan: "scan_and_apply L root fs now db = (Ok (files, res), db')"
    and wf: "db_wf db" "ids_derived (blake3_hex L) (sync_files db)" "fs_wf fs"
    and names: "names_ok fs" "\<forall>r \<in> set (sync_files db). row_valid L r"
    and plan: "(if head = [] then plan_checkpoint (blake3_hex L) tj files planner
      else plan_incremental (blake3_hex L) tj res files planner) = Ok plan"
  shows "\<forall>op \<in> set (file_ops plan). op_ok L (pack_shards plan) op" "refs_ok plan"
proof -
  note s = scan_and_apply_Ok [OF scan wf]
  have shards: "shards_indexed (if head = [] then CHECKPOINT_PACK_KIND else CONTENT_PACK_KIND) (pack_shards plan)"
    using plan assign_pack_entries_Ok(3)
    by (auto simp: plan_checkpoint_def plan_incremental_def build_plan_def Let_def result_simps split: if_splits)
  then show "refs_ok plan" by (rule shards_indexed_refs) simp
  have up: "op_ok L (pack_shards plan) (upsert_for f ref)"
    if "f \<in> set files" "content_packed (pack_shards plan) f (fst ref) (snd ref)" for f ref
    using upsert_for_ok [OF s(1) wf(3) names(1) that] .
  show "\<forall>op \<in> set (file_ops plan). op_ok L (pack_shards plan) op"
  proof (cases "head = []")
    case True
    with plan plan_checkpoint_ops [OF _ s(2), of "blake3_hex L" tj planner plan] obtain ref where
      "file_ops plan = sort_key plan_file_op_sort_key (map (\<lambda>f. upsert_for f (ref f)) files)"
      "\<forall>f \<in> set files. content_packed (pack_shards plan) f (fst (ref f)) (snd (ref f))" by auto
    moreover from this(2) have "\<forall>f \<in> set files. op_ok L (pack_shards plan) (upsert_for f (ref f))"
      by (intro ballI up) auto
    ultimately show ?thesis by auto
  next
    case False
    have "apply_scan (blake3_hex L) (map file_input files) now db = (Ok res, db')"
      using scan by (auto simp: scan_and_apply_def result_simps s(1))
    then have dels: "\<forall>d \<in> set (deletions res). row_valid L d"
      by (rule scan_deletions_accepted)
        (use wf names scanned_identity(1) [OF s(1) wf(3) names(1)] scan_vault_ids [OF s(1) wf(3)] in \<open>auto simp: db_wf_def\<close>)
    from False plan plan_incremental_ops [OF _ s(2), of "blake3_hex L" tj res planner plan] s(2,3) obtain ups ref where
      "set ups \<subseteq> set files" "file_ops plan = sort_key plan_file_op_sort_key
        (map (\<lambda>f. upsert_for f (ref f)) ups @ map delete_for (deletions res))"
      "\<forall>f \<in> set ups. content_packed (pack_shards plan) f (fst (ref f)) (snd (ref f))" by auto
    moreover from this(1,3) have "\<forall>f \<in> set ups. op_ok L (pack_shards plan) (upsert_for f (ref f))"
      by (intro ballI up) auto
    ultimately show ?thesis using dels by (auto simp: delete_for_def row_valid_def)
  qed
qed

section \<open>Both devices have the same tree\<close>

lemma same_bodies_keyed:
  assumes "tree_keyed t" "tree_keyed t'"
    and "tree_cache_entry_body_of ` snd ` set t = tree_cache_entry_body_of ` snd ` set t'"
  shows "same_bodies t t'"
proof -
  let ?b = "map (\<lambda>x. tree_cache_entry_body_of (snd x))"
  have ids: "map tb_file_id (?b t) = map fst t" if "tree_keyed t" for t
    using that by (auto simp: tree_keyed_def tree_cache_entry_body_of_def)
  have keys: "sorted (map tb_file_id (?b t))" "distinct (map tb_file_id (?b t))" if "tree_keyed t" for t
    unfolding ids [OF that] using that by (simp_all add: tree_keyed_def bt_wf_def strict_sorted_iff)
  have set: "set (?b t) = set (?b t')" using assms(3) by (simp add: image_image)
  have eq: "?b t = ?b t'"
  proof (rule map_sorted_distinct_set_unique [of tb_file_id])
    show "inj_on tb_file_id (set (?b t) \<union> set (?b t'))"
      using keys(2) [OF assms(1)] unfolding set [symmetric] Un_absorb by (simp only: distinct_map)
  qed (use set keys assms in \<open>simp_all only:\<close>)
  have "map fst t = map fst t'"
    unfolding ids [OF assms(1), symmetric] ids [OF assms(2), symmetric] eq ..
  with eq show ?thesis
    unfolding same_bodies_def list_all2_conv_all_nth
    by (metis (no_types, lifting) length_map nth_map)
qed

text \<open>The tree a publication has cached is the tree it was computed from.\<close>

lemma same_bodies_cached:
  assumes "tree_keyed t"
  shows "same_bodies (tree_of_entries (map (with_commit c) (entries_of_tree t))) t"
proof (rule same_bodies_keyed [OF tree_keyed_of_entries assms])
  let ?es = "map (with_commit c) (entries_of_tree t)"
  have "distinct (map tr_file_id ?es)" using entries_of_tree_ids(1) [OF assms]
    by (simp add: comp_def with_commit_def if_distrib [of tr_file_id] cong: if_cong)
  then have d: "distinct (map fst (map (\<lambda>e. (tr_file_id e, e)) ?es))" by (simp add: comp_def)
  have "set (tree_of_entries ?es) = set (map (\<lambda>e. (tr_file_id e, e)) ?es)"
    using bt.entries_insert_all_distinct [OF d] by (simp only: tree_of_entries_def bt_of_list_alt id_apply)
  then have "tree_cache_entry_body_of ` snd ` set (tree_of_entries ?es) = tree_cache_entry_body_of ` set ?es"
    by (simp add: image_image)
  also have "\<dots> = tree_cache_entry_body_of ` snd ` set t"
    using entries_of_tree_ids(2) [OF assms] by (simp add: image_image [of tree_cache_entry_body_of "with_commit c"])
  finally show "tree_cache_entry_body_of ` snd ` set (tree_of_entries ?es) = tree_cache_entry_body_of ` snd ` set t" .
qed

lemma same_bodies_trans: "same_bodies t u \<Longrightarrow> same_bodies u v \<Longrightarrow> same_bodies t v"
  unfolding same_bodies_def by (erule list_all2_trans [rotated]) auto

lemma pushed_commit_replayed:
  assumes ok: "libs_ok L" "\<forall>k. length (nonces k) = XCHACHA20_NONCE_LEN" "reservation_ok N" "refs_ok plan"
    and ops: "\<forall>op \<in> set (file_ops plan). op_ok L (pack_shards plan) op"
    and kind: "kind = PlanCheckpoint \<longleftrightarrow> head = []"
    and publish: "publish_plan L N queue nonces input kind head parents seq plan db = (Ok r, db')"
    and vault: "get_vault db (in_vault_id input) = Some v"
    and objects: "pushed_commit L N nonces input kind head parents seq plan db = Ok (uploads, req)"
    and served: "\<forall>k. serves L (pn_transfer M k) (in_workspace_id input) d uploads"
    and queue: "0 < max_attempts queue'" "\<not> blank (in_workspace_id input)" "\<not> blank d"
    and tree: "head \<noteq> [] \<longrightarrow> same_bodies (tree_of_entries (list_tree_entries db head)) tree"
  obtains pub where "cn_publish_commit N req = Ok pub"
    "\<And>header k. header_for req header \<Longrightarrow> \<exists>commit tree'.
       decrypt_commit L M queue' (in_workspace_id input) d (in_workspace_key input) header k = (Ok commit, k + 2) \<and>
       materialize_remote_tree_only L commit tree = Ok tree' \<and>
       validate_tree_id L (bd_tree_id (dc_body commit)) (entries_of_tree tree') = Ok () \<and>
       same_bodies (tree_of_entries (list_tree_entries db' (pd_commit_id pub))) tree'"
proof -
  from decrypt_pushed [OF ok publish objects served queue] obtain reserved pc us pub where
    "reserve_commit_objects N (in_workspace_id input) (in_device_id input) plan = Ok reserved"
    and pc: "prepare_commit L input kind head parents seq reserved plan db = Ok pc"
    and opens: "list_all2 (pack_upload L (in_workspace_key input) (in_workspace_id input) (bd_commit_id (pp_body pc)) reserved)
       (pack_shards plan) us" "distinct (map ru_object_id us)"
    and pub: "cn_publish_commit N req = Ok pub" "pc_commit_kind req = proto_commit_kind kind"
    and fin: "apply_publish_success L (in_vault_id input) pub kind parents (bd_tree_id (pp_body pc)) (pp_tree pc) plan seq
       (in_now_ms input) db = (Ok (), db')"
    and decrypt: "\<forall>header k. header_for req header \<longrightarrow>
       decrypt_commit L M queue' (in_workspace_id input) d (in_workspace_key input) header k =
         (Ok \<lparr>dc_header = header, dc_body = pp_body pc, dc_packs = bt_of_list (opened_packs L (pack_shards plan) us)\<rparr>,
          k + 2)" by blast
  let ?t = "if head = [] then [] else tree_of_entries (list_tree_entries db head)"
  have keyed: "tree_keyed ?t" by (simp add: tree_keyed_of_entries)
  from pc obtain t where t: "fold_results (materialize_op reserved) (file_ops plan) ?t = Ok t" "pp_tree pc = entries_of_tree t"
    and changes: "collect_results (commit_body_file_op_of reserved) (file_ops plan) = Ok (bd_changes (pp_body pc))"
    and tid: "bd_tree_id (pp_body pc) = tree_id_for_entries L (entries_of_tree t)"
    by (auto simp: prepare_commit_def materialize_tree_entries_def commit_body_file_ops_def Let_def result_simps)
  have t_keyed: "tree_keyed t" using materialize_ops_Ok [OF t(1) keyed] by blast
  have cached: "same_bodies (tree_of_entries (list_tree_entries db' (pd_commit_id pub))) t"
    using apply_publish_success_Ok(2) [OF fin _ vault] same_bodies_cached [OF t_keyed] by (simp add: t(2) sorted_entries_of_tree)
  show thesis
  proof (rule that [OF pub(1)])
    fix header k
    assume h: "header_for req header"
    let ?commit = "\<lparr>dc_header = header, dc_body = pp_body pc, dc_packs = bt_of_list (opened_packs L (pack_shards plan) us)\<rparr>"
    let ?start = "if ch_commit_kind header = COMMIT_KIND_CHECKPOINT then [] else tree"
    have "ch_commit_kind header = COMMIT_KIND_CHECKPOINT \<longleftrightarrow> head = []"
      using h pub(2) kind by (cases kind) (simp_all add: header_for_def)
    then have "same_bodies ?t ?start" using tree by (simp add: same_bodies_def)
    from pushed_changes [OF opens ops changes t(1) this, of ?commit] obtain tree' where
      tree': "fold_results (materialize_remote_change L ?commit) (bd_changes (pp_body pc)) ?start = Ok tree'" "same_bodies t tree'"
      by auto
    have "materialize_remote_tree_only L ?commit tree = Ok tree'"
      using tree'(1) by (simp add: materialize_remote_tree_only_def)
    moreover have "validate_tree_id L (bd_tree_id (pp_body pc)) (entries_of_tree tree') = Ok ()"
      using same_bodies_tree_id [OF tree'(2), of L] by (simp add: validate_tree_id_def tid Let_def)
    ultimately show "\<exists>commit tree'.
       decrypt_commit L M queue' (in_workspace_id input) d (in_workspace_key input) header k = (Ok commit, k + 2) \<and>
       materialize_remote_tree_only L commit tree = Ok tree' \<and>
       validate_tree_id L (bd_tree_id (dc_body commit)) (entries_of_tree tree') = Ok () \<and>
       same_bodies (tree_of_entries (list_tree_entries db' (pd_commit_id pub))) tree'"
      using decrypt [rule_format, OF h] same_bodies_trans [OF cached tree'(2)] by (intro exI [of _ ?commit] exI [of _ tree']) simp
  qed
qed

text \<open>
  C4. What one device pushes every other device accepts. The receiver is given the header of the published commit by
  a server that serves the uploaded objects, and its tree lists the entries of the tree the push built
  on. Then it downloads, decrypts and validates the commit, every change verifies, the tree it
  computes has the identifier the commit announces, and it lists the entries of the tree the sender has
  cached for the commit. This covers first pushes (checkpoints), incremental pushes and merge
  commits.
\<close>

theorem pushed_commit_accepted:
  assumes "libs_ok L" "\<forall>k. length (nonces k) = XCHACHA20_NONCE_LEN" "reservation_ok N"
    and "scan_and_apply L root fs now db0 = (Ok (files, res), db)" "db_wf db0"
    and "ids_derived (blake3_hex L) (sync_files db0)" "fs_wf fs" "names_ok fs" "\<forall>r \<in> set (sync_files db0). row_valid L r"
    and "(if head = [] then plan_checkpoint (blake3_hex L) tree_json files planner
      else plan_incremental (blake3_hex L) tree_json res files planner) = Ok plan"
    and "kind = PlanCheckpoint \<longleftrightarrow> head = []"
    and "publish_plan L N queue nonces input kind head parents seq (plan\<lparr>commit_kind := kind\<rparr>) db = (Ok r, db')"
    and "get_vault db (in_vault_id input) = Some vault"
    and "pushed_commit L N nonces input kind head parents seq (plan\<lparr>commit_kind := kind\<rparr>) db = Ok (uploads, req)"
    and "\<forall>k. serves L (pn_transfer M k) (in_workspace_id input) receiver uploads"
    and "0 < max_attempts queue'" "\<not> blank (in_workspace_id input)" "\<not> blank receiver"
    and "head \<noteq> [] \<longrightarrow> same_bodies (tree_of_entries (list_tree_entries db head)) tree"
  shows "\<exists>pub. cn_publish_commit N req = Ok pub \<and> (\<forall>header k. header_for req header \<longrightarrow> (\<exists>commit tree'.
    decrypt_commit L M queue' (in_workspace_id input) receiver (in_workspace_key input) header k = (Ok commit, k + 2) \<and>
    materialize_remote_tree_only L commit tree = Ok tree' \<and>
    validate_tree_id L (bd_tree_id (dc_body commit)) (entries_of_tree tree') = Ok () \<and>
    same_bodies (tree_of_entries (list_tree_entries db' (pd_commit_id pub))) tree'))"
proof -
  note plan = push_plan_accepted [OF assms(4-10)]
  have "refs_ok (plan\<lparr>commit_kind := kind\<rparr>)"
    "\<forall>op \<in> set (file_ops (plan\<lparr>commit_kind := kind\<rparr>)). op_ok L (pack_shards (plan\<lparr>commit_kind := kind\<rparr>)) op"
    using plan by (simp_all add: refs_ok_def)
  from pushed_commit_replayed [OF assms(1-3) this assms(11-19)] show ?thesis by metis
qed

section \<open>The files arrive\<close>

text \<open>On a device without local edits, upserts of distinct files are plain writes.\<close>

definition named_file :: "commit_body_file_op \<Rightarrow> fpath option" where
  "named_file c = relative_stack (components (fo_path c)) []"

lemma clean_upserts_arrive:
  assumes "pi_vault_root input \<noteq> []" "\<forall>c \<in> set cs. is_UpsertFile c" "distinct (map named_file cs)"
    and "fold_try (apply_change L E input [] commit) cs acc st = (Ok acc', st')"
  shows "(\<forall>c \<in> set cs. \<exists>p b. named_file c = Some p \<and> pack_entry_plaintext (dc_packs commit) (fo_content_ref c) = Ok b \<and>
      fs_read (ps_fs st') p = Some b) \<and>
    (\<forall>q. Some q \<notin> named_file ` set cs \<longrightarrow> fs_read (ps_fs st') q = fs_read (ps_fs st) q)"
  using assms(2-4)
proof (induction cs arbitrary: acc st)
  case (Cons c cs)
  obtain fid path npath h n ref where c: "c = UpsertFile fid path npath h n ref" using Cons.prems(1) by (cases c) auto
  obtain tree synced where acc: "acc = (tree, synced)" by fastforce
  from Cons.prems(3) obtain b st1 acc1 where b: "pack_entry_plaintext (dc_packs commit) ref = Ok b"
    and w: "apply_remote_write E (pi_vault_root input) path b st = (Ok (), st1)"
    and rest: "fold_try (apply_change L E input [] commit) cs acc1 st1 = (Ok acc', st')"
    by (auto simp: c acc try_then_eq_Ok checked_Ok bt.get_empty)
  from remote_write_Ok [OF assms(1) w] obtain p where p: "relative_stack (components path) [] = Some p"
    "fs_read (ps_fs st1) p = Some b" "\<And>q. q \<noteq> p \<Longrightarrow> fs_read (ps_fs st1) q = fs_read (ps_fs st) q" by blast
  have named: "named_file c = Some p" by (simp add: named_file_def c p(1))
  have IH: "(\<forall>c \<in> set cs. \<exists>p b. named_file c = Some p \<and> pack_entry_plaintext (dc_packs commit) (fo_content_ref c) = Ok b \<and>
      fs_read (ps_fs st') p = Some b) \<and>
    (\<forall>q. Some q \<notin> named_file ` set cs \<longrightarrow> fs_read (ps_fs st') q = fs_read (ps_fs st1) q)"
    using Cons.prems(1,2) by (intro Cons.IH [OF _ _ rest]) simp_all
  have "Some p \<notin> named_file ` set cs" using Cons.prems(2) named by simp
  with IH p(2) have "fs_read (ps_fs st') p = Some b" by simp
  with IH b p(3) named show ?case by (auto simp: c named_file_def)
qed simp

lemma persist_keeps_files:
  "persist_applied_commit L input commit tree synced st = (Ok u, st') \<Longrightarrow> ps_fs st' = ps_fs st"
  by (auto simp: persist_applied_commit_def refresh_local_scan_def Let_def try_then_eq_Ok checked_Ok on_db_Ok)

lemma body_op_path:
  "commit_body_file_op_of reserved op = Ok c \<Longrightarrow> fo_path c = op_path op \<and> (is_UpsertFile c \<longleftrightarrow> is_PlanUpsert op)"
  by (cases op) (auto simp: result_simps)

text \<open>The files a checkpoint writes are those of the sender's vault.\<close>

lemma scanned_named:
  assumes "scan_vault lc hash root fs = Ok files" "fs_wf fs" "names_ok fs" "f \<in> set files"
  obtains p t where "fs_lookup fs p = Some (File (sf_plaintext f) t)" "sf_path f = to_relative_path p"
    "relative_stack (components (sf_path f)) [] = Some p"
  using scanned_path [OF assms] relative_stack_normal [of _ "[]"] by (metis append_Nil)

lemma checkpoint_paths_distinct:
  assumes "scan_vault lc hash root fs = Ok files" "fs_wf fs" "names_ok fs"
    and ops: "file_ops plan = sort_key plan_file_op_sort_key (map (\<lambda>f. upsert_for f (ref f)) files)"
    and changes: "collect_results (commit_body_file_op_of reserved) (file_ops plan) = Ok changes"
  shows "distinct (map named_file changes)" "\<forall>c \<in> set changes. is_UpsertFile c"
proof -
  let ?stack = "\<lambda>path. relative_stack (components path) []"
  have l: "list_all2 (\<lambda>op c. commit_body_file_op_of reserved op = Ok c) (file_ops plan) changes"
    using changes by (simp add: result_simps)
  then have paths: "map fo_path changes = map op_path (file_ops plan)"
    by (induction rule: list_all2_induct) (simp_all add: body_op_path)
  have "inj_on (\<lambda>f. ?stack (sf_path f)) (set files)"
  proof (rule inj_onI)
    fix f g
    assume fg: "f \<in> set files" "g \<in> set files" "?stack (sf_path f) = ?stack (sf_path g)"
    from scanned_named [OF assms(1-3) fg(1)] scanned_named [OF assms(1-3) fg(2)] fg(3)
    have path: "sf_path f = sf_path g" by (metis option.inject)
    have "normalize_vault_relative_path lc (sf_path h) = Ok (sf_normalized_path h)" if "h \<in> set files" for h
      using scanned_path [OF assms(1-3) that] by blast
    with fg path have "sf_normalized_path f = sf_normalized_path g" by (metis result.inject(1))
    moreover have "distinct (map sf_normalized_path files)"
      using scan_vault_OkD(1) [OF assms(1,2)] by (simp add: strict_sorted_iff)
    ultimately show "f = g" using fg by (simp add: distinct_map inj_on_def)
  qed
  moreover have "distinct files"
    using scan_vault_OkD(1) [OF assms(1,2)] by (simp add: strict_sorted_iff distinct_map)
  ultimately have "distinct (map (\<lambda>f. ?stack (sf_path f)) files)" by (simp add: distinct_map)
  then have "distinct (map (\<lambda>op. ?stack (op_path op)) (map (\<lambda>f. upsert_for f (ref f)) files))"
    by (simp add: comp_def upsert_for_def)
  then have "distinct (map (\<lambda>op. ?stack (op_path op)) (file_ops plan))"
    unfolding ops by (subst mset_eq_imp_distinct_iff [of _ "map (\<lambda>op. ?stack (op_path op)) (map (\<lambda>f. upsert_for f (ref f)) files)"])
      (simp_all add: multiset.map_comp)
  then have "distinct (map ?stack (map op_path (file_ops plan)))" by (simp add: comp_def)
  then show "distinct (map named_file changes)" by (simp add: paths [symmetric] named_file_def [abs_def] comp_def)
  have "\<forall>op \<in> set (file_ops plan). is_PlanUpsert op" by (auto simp: ops upsert_for_def)
  with l show "\<forall>c \<in> set changes. is_UpsertFile c"
    by (induction rule: list_all2_induct) (simp_all add: body_op_path)
qed

lemma replay_commit_changes:
  assumes "replay_commit L E input dirty_files header (tree, applied) st = (Ok acc, st')"
    and "decrypt_commit L (pe_net E) (pe_queue E) (pi_workspace_id input) (pi_device_id input) (pi_workspace_key input)
      header (ps_downloads st) = (Ok commit, k)"
  obtains tree' synced st1 where
    "fold_try (apply_change L E input dirty_files commit) (bd_changes (dc_body commit))
       (if ch_commit_kind (dc_header commit) = COMMIT_KIND_CHECKPOINT then [] else tree, []) (st\<lparr>ps_downloads := k\<rparr>) =
       (Ok (tree', synced), st1)" "ps_fs st' = ps_fs st1"
proof -
  have "on_downloads (decrypt_commit L (pe_net E) (pe_queue E) (pi_workspace_id input) (pi_device_id input)
      (pi_workspace_key input) header) st = (Ok commit, st\<lparr>ps_downloads := k\<rparr>)"
    using assms(2) by (simp add: on_downloads_def)
  with assms(1) persist_keeps_files show thesis
    by (auto simp: replay_commit_def apply_decrypted_commit_def try_then_eq_Ok Let_def intro!: that)
qed

lemma change_of_file:
  assumes ops: "file_ops plan = sort_key plan_file_op_sort_key (map (\<lambda>f. upsert_for f (ref f)) files)"
    and changes: "collect_results (commit_body_file_op_of reserved) (file_ops plan) = Ok changes"
    and "f \<in> set files"
  obtains i where "bt_get (rc_pack_object_ids reserved) (fst (ref f)) = Some i"
    "UpsertFile (sf_file_id f) (sf_path f) (sf_normalized_path f) (sf_plaintext_hash f) (sf_size_bytes f)
       \<lparr>ref_object_id = i, ref_entry_id = snd (ref f)\<rparr> \<in> set changes"
proof -
  have "upsert_for f (ref f) \<in> set (file_ops plan)" using assms(3) by (simp add: ops)
  then obtain j where j: "j < length (file_ops plan)" "file_ops plan ! j = upsert_for f (ref f)" by (auto simp: in_set_conv_nth)
  have l: "list_all2 (\<lambda>op c. commit_body_file_op_of reserved op = Ok c) (file_ops plan) changes"
    using changes by (simp add: result_simps)
  then have "commit_body_file_op_of reserved (upsert_for f (ref f)) = Ok (changes ! j)" "changes ! j \<in> set changes"
    using j list_all2_nthD [OF l j(1)] list_all2_lengthD [OF l] by simp_all
  with that show thesis by (auto simp: upsert_for_def result_simps)
qed

text \<open>
  C5. A second device gets the files. A device without local edits that replays the first commit of a vault, as pushed
  by another device and served by the server, has every Markdown file of the sender's vault at the
  sender's path with the sender's contents.
\<close>

theorem pushed_files_arrive:
  assumes "libs_ok L" "\<forall>k. length (nonces k) = XCHACHA20_NONCE_LEN" "reservation_ok N"
    and "scan_vault (to_lowercase L) (blake3_hex L) root fs = Ok files" "fs_wf fs" "names_ok fs"
    and "plan_checkpoint (blake3_hex L) tree_json files planner = Ok plan"
    and "publish_plan L N queue nonces input PlanCheckpoint [] [] seq plan db = (Ok r, db')"
    and "pushed_commit L N nonces input PlanCheckpoint [] [] seq plan db = Ok (uploads, req)"
    and "\<forall>k. serves L (pn_transfer (pe_net E) k) (in_workspace_id input) (pi_device_id puller) uploads"
    and "0 < max_attempts (pe_queue E)" "\<not> blank (in_workspace_id input)" "\<not> blank (pi_device_id puller)"
    and "pi_workspace_id puller = in_workspace_id input" "pi_workspace_key puller = in_workspace_key input"
    and "pi_vault_root puller \<noteq> []"
  shows "\<exists>pub. cn_publish_commit N req = Ok pub \<and> (\<forall>header st acc st'. header_for req header \<longrightarrow>
    replay_commit L E puller [] header ([], []) st = (Ok acc, st') \<longrightarrow>
      (\<forall>f \<in> set files. \<exists>p. sf_path f = to_relative_path p \<and> fs_read fs p = Some (sf_plaintext f) \<and>
         fs_read (ps_fs st') p = Some (sf_plaintext f)))"
proof -
  have distinct: "distinct (map sf_normalized_path files)"
    using scan_vault_OkD(1) [OF assms(4,5)] by (simp add: strict_sorted_iff)
  from plan_checkpoint_ops [OF assms(7) distinct] obtain ref where
    ops: "file_ops plan = sort_key plan_file_op_sort_key (map (\<lambda>f. upsert_for f (ref f)) files)"
    and packed: "\<forall>f \<in> set files. content_packed (pack_shards plan) f (fst (ref f)) (snd (ref f))" by blast
  have "shards_indexed CHECKPOINT_PACK_KIND (pack_shards plan)"
    using assms(7) assign_pack_entries_Ok(3) by (auto simp: plan_checkpoint_def build_plan_def Let_def result_simps)
  then have refs: "refs_ok plan" by (rule shards_indexed_refs) simp
  from decrypt_pushed [OF assms(1-3) refs assms(8-13)] obtain reserved pc us pub where
    "reserve_commit_objects N (in_workspace_id input) (in_device_id input) plan = Ok reserved"
    and pc: "prepare_commit L input PlanCheckpoint [] [] seq reserved plan db = Ok pc"
    and opens: "list_all2 (pack_upload L (in_workspace_key input) (in_workspace_id input) (bd_commit_id (pp_body pc)) reserved)
       (pack_shards plan) us" "distinct (map ru_object_id us)"
    and pub: "cn_publish_commit N req = Ok pub" "pc_commit_kind req = proto_commit_kind PlanCheckpoint"
    and "apply_publish_success L (in_vault_id input) pub PlanCheckpoint [] (bd_tree_id (pp_body pc)) (pp_tree pc) plan seq
       (in_now_ms input) db = (Ok (), db')"
    and decrypt: "\<forall>header k. header_for req header \<longrightarrow>
       decrypt_commit L (pe_net E) (pe_queue E) (in_workspace_id input) (pi_device_id puller) (in_workspace_key input) header k =
         (Ok \<lparr>dc_header = header, dc_body = pp_body pc, dc_packs = bt_of_list (opened_packs L (pack_shards plan) us)\<rparr>,
          k + 2)" .
  have changes: "collect_results (commit_body_file_op_of reserved) (file_ops plan) = Ok (bd_changes (pp_body pc))"
    using pc by (auto simp: prepare_commit_def commit_body_file_ops_def Let_def result_simps)
  note clean = checkpoint_paths_distinct [OF assms(4-6) ops changes]
  have "\<exists>p. sf_path f = to_relative_path p \<and> fs_read fs p = Some (sf_plaintext f) \<and> fs_read (ps_fs st') p = Some (sf_plaintext f)"
    if h: "header_for req header" and replay: "replay_commit L E puller [] header ([], []) st = (Ok acc, st')"
      and f: "f \<in> set files" for header st acc st' f
  proof -
    let ?commit = "\<lparr>dc_header = header, dc_body = pp_body pc, dc_packs = bt_of_list (opened_packs L (pack_shards plan) us)\<rparr>"
    have "decrypt_commit L (pe_net E) (pe_queue E) (pi_workspace_id puller) (pi_device_id puller) (pi_workspace_key puller)
        header (ps_downloads st) = (Ok ?commit, ps_downloads st + 2)"
      unfolding assms(14,15) by (rule decrypt [rule_format, OF h])
    from replay_commit_changes [OF replay this] obtain acc0 acc' st1 where
      fold: "fold_try (apply_change L E puller [] ?commit) (bd_changes (pp_body pc)) acc0 (st\<lparr>ps_downloads := ps_downloads st + 2\<rparr>) =
        (Ok acc', st1)" and st': "ps_fs st' = ps_fs st1"
      by (metis decrypted_commit.select_convs(2))
    from change_of_file [OF ops changes f] obtain i where i: "bt_get (rc_pack_object_ids reserved) (fst (ref f)) = Some i"
      and c: "UpsertFile (sf_file_id f) (sf_path f) (sf_normalized_path f) (sf_plaintext_hash f) (sf_size_bytes f)
        \<lparr>ref_object_id = i, ref_entry_id = snd (ref f)\<rparr> \<in> set (bd_changes (pp_body pc))" .
    from clean_upserts_arrive [OF assms(16) clean(2,1) fold, THEN conjunct1, THEN bspec, OF c] obtain p b where
      p: "relative_stack (components (sf_path f)) [] = Some p"
        "pack_entry_plaintext (bt_of_list (opened_packs L (pack_shards plan) us)) \<lparr>ref_object_id = i, ref_entry_id = snd (ref f)\<rparr> = Ok b"
        "fs_read (ps_fs st1) p = Some b" by (auto simp: named_file_def)
    from packed f obtain s e where s: "s \<in> set (pack_shards plan)" "ps_pack_ref s = fst (ref f)" "e \<in> set (ps_entries s)"
      "pp_entry_id e = snd (ref f)" "pp_plaintext e = sf_plaintext f" by (auto simp: content_packed_def)
    with pushed_entry [OF opens s(1,3), of i] i p(2) have "b = sf_plaintext f" by simp
    moreover from scanned_named [OF assms(4-6) f] obtain q t where q: "fs_lookup fs q = Some (File (sf_plaintext f) t)"
      "sf_path f = to_relative_path q" "relative_stack (components (sf_path f)) [] = Some q" .
    ultimately show ?thesis using p(1,3) by (intro exI [of _ q]) (simp add: fs_read_def st')
  qed
  then show ?thesis by (intro exI [of _ pub] conjI pub(1) allI impI ballI)
qed

section \<open>An example exchange\<close>

text \<open>A store that serves a set of objects, and the header a server lists for a request, for the witnesses.\<close>

definition sample_target :: "'z crypto_libs_scheme \<Rightarrow> reserved_encrypted_upload_object \<Rightarrow> object_download_target" where
  "sample_target L u = \<lparr>dt_object_id = ru_object_id u, dt_kind = ru_kind u, dt_get_url = ru_ciphertext u,
     dt_required_headers = [], dt_ciphertext_sha256 = sha256_hex L (ru_ciphertext u),
     dt_size_bytes = int (length (ru_ciphertext u))\<rparr>"

definition sample_store :: "'z crypto_libs_scheme \<Rightarrow> reserved_encrypted_upload_object list \<Rightarrow> transfer_net" where
  "sample_store L uploads = working_net\<lparr>net_create_object_download_batch := (\<lambda>i w d ids.
     Ok (List.map_filter (\<lambda>k. map_option (sample_target L) (find_row ru_object_id k uploads)) ids))\<rparr>"

definition sample_header :: "publish_commit_input \<Rightarrow> sync_commit_header" where
  "sample_header req = \<lparr>ch_commit_id = pc_commit_id req, ch_commit_kind = pc_commit_kind req,
     ch_expected_head_commit_id = pc_expected_head_commit_id req, ch_parent_commit_ids = pc_parent_commit_ids req,
     ch_author_device_id = pc_author_device_id req, ch_device_seq = pc_device_seq req,
     ch_body_object_id = pc_body_object_id req, ch_body_ciphertext_sha256 = pc_body_ciphertext_sha256 req,
     ch_body_size_bytes = pc_body_size_bytes req, ch_referenced_object_ids = pc_referenced_object_ids req,
     ch_signature = pc_signature req, ch_server_seq = 1\<rparr>"

definition sample_receiver :: "'z crypto_libs_scheme \<Rightarrow> reserved_encrypted_upload_object list \<Rightarrow> pull_env" where
  "sample_receiver L uploads = sample_pull_env\<lparr>pe_net := (pe_net sample_pull_env)\<lparr>pn_transfer := (\<lambda>k. sample_store L uploads)\<rparr>\<rparr>"

definition sample_empty_vault :: pull_state where
  "sample_empty_vault = sample_pull_state\<lparr>ps_fs := Dir []\<rparr>"

definition sample_replayed :: "prepared_commit \<Rightarrow> sync_commit_header \<Rightarrow> decrypted_commit" where
  "sample_replayed pc header = \<lparr>dc_header = header, dc_body = pp_body pc,
     dc_packs = [(''obj-checkpoint_pack-0'', opened_pack sample_commit_libs ''obj-checkpoint_pack-0''
       (pack_shard CHECKPOINT_PACK_KIND 0 1 [entry_plan sample_hash sample_scanned]))]\<rparr>"

lemma sample_exchange:
  "case prepare_commit sample_commit_libs sample_push_input PlanCheckpoint [] [] 1 sample_reserved sample_plan empty_db of
     Err _ \<Rightarrow> False
   | Ok pc \<Rightarrow> is_ok (fst (apply_decrypted_commit sample_commit_libs (sample_receiver sample_commit_libs uploads) sample_pull_input []
       (sample_replayed pc (sample_header (publish_request sample_commit_libs sample_push_input PlanCheckpoint [] [] 1
          ''obj-commit-body'' pc meta))) [] (sample_empty_vault\<lparr>ps_downloads := 2\<rparr>)))"
  by code_simp

lemma sample_libs_ok: "libs_ok sample_commit_libs"
  using sample_commit_libs_ok by (simp add: libs_ok_def)

lemma sample_nonces_ok: "\<forall>k. length (sample_nonces k) = XCHACHA20_NONCE_LEN"
  by (simp add: sample_nonces_def)

lemma sample_reservation_ok: "reservation_ok sample_commit_net"
proof -
  have "\<not> blank (''obj-'' @ x)" for x
    by (rule not_blank_if_graphic [of "CHR ''o''"]) (simp_all add: is_ascii_graphic_def)
  then show ?thesis
    by (auto simp: reservation_ok_def sample_commit_net_def working_net_def sample_net_def comp_def distinct_map inj_on_def)
qed

lemma sample_names_ok: "names_ok sample_note"
  by (simp add: sample_note_def plain_name_def)

lemma sample_blanks: "\<not> blank (in_workspace_id sample_push_input)" "\<not> blank ''e''"
  by code_simp+

lemma sample_serves:
  assumes "distinct (map ru_object_id uploads)"
  shows "serves L (sample_store L uploads) w d uploads"
  unfolding serves_def
proof (intro allI impI)
  fix us
  assume us: "set us \<subseteq> set uploads"
  have "find_row ru_object_id (ru_object_id u) uploads = Some u" if "u \<in> set uploads" for u
    using assms that by (induction uploads) auto
  with us have "List.map_filter (\<lambda>k. map_option (sample_target L) (find_row ru_object_id k uploads)) (map ru_object_id us) =
      map (sample_target L) us"
    by (induction us) (simp_all add: List.map_filter_simps)
  moreover have "target_for L (sample_store L uploads) u (sample_target L u)" for u
    by (simp add: target_for_def sample_target_def sample_store_def working_net_def)
  ultimately show "\<exists>targets. net_create_object_download_batch (sample_store L uploads) 0 w d (map ru_object_id us) = Ok targets \<and>
      list_all2 (target_for L (sample_store L uploads)) us targets"
    by (intro exI [of _ "map (sample_target L) us"]) (simp add: sample_store_def list_all2_conv_all_nth)
qed

lemma sample_pushed_commit:
  obtains pc uploads where
    "prepare_commit sample_commit_libs sample_push_input PlanCheckpoint [] [] 1 sample_reserved sample_plan empty_db = Ok pc"
    "\<forall>db. pushed_commit sample_commit_libs sample_commit_net sample_nonces sample_push_input PlanCheckpoint [] [] 1 sample_plan db =
       Ok (uploads, publish_request sample_commit_libs sample_push_input PlanCheckpoint [] [] 1 ''obj-commit-body'' pc
         (expected_metadata sample_commit_libs (last uploads)))"
    "distinct (map ru_object_id uploads)"
proof -
  let ?enc = "\<lambda>pc. encrypted_uploads sample_commit_libs sample_nonces (replicate 32 CHR ''k'') ''w''
    (bd_commit_id (pp_body pc)) ''checkpoint'' [] ''d'' 1 sample_reserved sample_plan (pp_body pc)"
  obtain pc where pc: "prepare_commit sample_commit_libs sample_push_input PlanCheckpoint [] [] 1 sample_reserved sample_plan empty_db = Ok pc"
    and facts: "list_all (\<lambda>e. tr_file_id e = ''file_a0md'') (pp_tree pc) \<and> length (pp_tree pc) = 1 \<and>
       \<not> blank (''upload_'' @ bd_commit_id (pp_body pc)) \<and>
       (case ?enc pc of Err _ \<Rightarrow> False
        | Ok us \<Rightarrow> map ru_object_id us = [''obj-checkpoint_pack-0'', ''obj-commit-body''] \<and>
            list_all (\<lambda>u. \<not> blank (ru_object_id u) \<and> int (length (ru_ciphertext u)) \<le> i64_max) us)"
    by (rule case_result_Ok [OF sample_push_steps(6)])
  obtain us where us: "?enc pc = Ok us"
    and enc: "map ru_object_id us = [''obj-checkpoint_pack-0'', ''obj-commit-body''] \<and>
            list_all (\<lambda>u. \<not> blank (ru_object_id u) \<and> int (length (ru_ciphertext u)) \<le> i64_max) us"
    by (rule case_result_Ok [OF facts [THEN conjunct2, THEN conjunct2, THEN conjunct2]])
  have input: "in_workspace_id sample_push_input = ''w''"
    "in_device_id sample_push_input = ''d''" "in_workspace_key sample_push_input = replicate 32 CHR ''k''"
    "rc_body_object_id sample_reserved = ''obj-commit-body''"
    by (simp_all only: sample_push_input_def push_input.simps sample_reserved_def reserved_commit_objects.simps)
  have "prepare_commit sample_commit_libs sample_push_input PlanCheckpoint [] [] 1 sample_reserved sample_plan db = Ok pc" for db
    by (rule trans [OF prepare_commit_first pc])
  then have "pushed_commit sample_commit_libs sample_commit_net sample_nonces sample_push_input PlanCheckpoint [] [] 1 sample_plan db =
       Ok (us, publish_request sample_commit_libs sample_push_input PlanCheckpoint [] [] 1 ''obj-commit-body'' pc
         (expected_metadata sample_commit_libs (last us)))" for db
    by (simp only: pushed_commit_def input sample_push_steps(5) and_then.simps plan_kind_label.simps us)
  moreover have "distinct (map ru_object_id us)" unfolding conjunct1 [OF enc] by simp
  ultimately show thesis by (intro that [OF pc]) simp_all
qed

lemma sample_header_for: "header_for req (sample_header req)"
  by (simp add: header_for_def sample_header_def)

lemma sample_receiver_net: "pn_transfer (pe_net (sample_receiver L uploads)) k = sample_store L uploads"
  by (simp add: sample_receiver_def)

lemma sample_input:
  "in_workspace_id sample_push_input = ''w''" "in_workspace_key sample_push_input = replicate 32 CHR ''k''"
  "in_device_id sample_push_input = ''d''"
  by (simp_all only: sample_push_input_def push_input.simps)

lemma sample_first_db:
  assumes "v = refresh_vault_record sample_push_input (new_vault_record sample_push_input
      \<lparr>current_head_commit_id = [], head_version = 0, latest_checkpoint_commit_id = []\<rparr>)"
  shows "db_wf (upsert_vault v empty_db)" "sync_files (upsert_vault v empty_db) = []"
    "\<exists>vault. get_vault (upsert_vault v empty_db) (in_vault_id sample_push_input) = Some vault"
proof -
  show "db_wf (upsert_vault v empty_db)"
    by (rule db_steps_wf [OF db_steps_upsert_vault db_wf_empty])
  show "sync_files (upsert_vault v empty_db) = []" by (simp add: upsert_vault_def empty_db_def)
  have "vr_vault_id v = in_vault_id sample_push_input"
    by (simp add: assms refresh_vault_record_def new_vault_record_def)
  with get_upserted_vault [of v empty_db] show "\<exists>vault. get_vault (upsert_vault v empty_db) (in_vault_id sample_push_input) = Some vault"
    by auto
qed

theorem pushed_commit_accepted_witness:
  "\<exists>uploads req commit tree.
    decrypt_commit sample_commit_libs (pe_net (sample_receiver sample_commit_libs uploads)) sample_queue ''w'' ''e''
      (replicate 32 CHR ''k'') (sample_header req) 0 = (Ok commit, 2) \<and>
    materialize_remote_tree_only sample_commit_libs commit [] = Ok tree \<and>
    validate_tree_id sample_commit_libs (bd_tree_id (dc_body commit)) (entries_of_tree tree) = Ok ()"
proof -
  let ?head = "\<lparr>current_head_commit_id = [], head_version = 0, latest_checkpoint_commit_id = []\<rparr>"
  define v where "v = refresh_vault_record sample_push_input (new_vault_record sample_push_input ?head)"
  let ?db0 = "upsert_vault v empty_db"
  obtain res db where scan: "scan_and_apply sample_commit_libs [''v''] sample_note 7 ?db0 = (Ok ([sample_scanned], res), db)"
    using sample_scan_apply [of v] by (elim exE)
  obtain r db' where publish: "publish_plan sample_commit_libs sample_commit_net sample_queue sample_nonces sample_push_input
      PlanCheckpoint [] [] 1 sample_plan db = (Ok r, db')" using sample_publish [of db] by (elim exE conjE)
  obtain pc uploads where "prepare_commit sample_commit_libs sample_push_input PlanCheckpoint [] [] 1 sample_reserved sample_plan empty_db = Ok pc"
    and pushed: "\<forall>db. pushed_commit sample_commit_libs sample_commit_net sample_nonces sample_push_input PlanCheckpoint [] [] 1 sample_plan db =
       Ok (uploads, publish_request sample_commit_libs sample_push_input PlanCheckpoint [] [] 1 ''obj-commit-body'' pc
         (expected_metadata sample_commit_libs (last uploads)))" and distinct: "distinct (map ru_object_id uploads)"
    by (rule sample_pushed_commit)
  have kind: "sample_plan\<lparr>commit_kind := PlanCheckpoint\<rparr> = sample_plan" by (simp add: sample_plan_def)
  have db0: "db_wf ?db0" "sync_files ?db0 = []" by (rule sample_first_db [OF v_def])+
  have rows: "ids_derived (blake3_hex sample_commit_libs) (sync_files ?db0)" "\<forall>r \<in> set (sync_files ?db0). row_valid sample_commit_libs r"
    by (simp_all add: db0(2) ids_derived_def)
  have vault: "\<exists>vault. get_vault db (in_vault_id sample_push_input) = Some vault"
    using scan_and_apply_Ok(6) [OF scan db0(1) rows(1) sample_push_wf(2)] sample_first_db(3) [OF v_def] by (auto simp: get_vault_def)
  have plan: "(if [] = [] then plan_checkpoint (blake3_hex sample_commit_libs) (json_planned_tree sample_commit_libs) [sample_scanned] sample_planner_config
      else plan_incremental (blake3_hex sample_commit_libs) (json_planned_tree sample_commit_libs) res [sample_scanned] sample_planner_config) = Ok sample_plan"
    by (simp only: blake3_sample sample_push_steps(4) if_True refl simp_thms)
  from vault obtain vault where vault: "get_vault db (in_vault_id sample_push_input) = Some vault" ..
  have served: "\<forall>k. serves sample_commit_libs (pn_transfer (pe_net (sample_receiver sample_commit_libs uploads)) k)
      (in_workspace_id sample_push_input) ''e'' uploads" by (simp only: sample_receiver_net sample_serves [OF distinct] simp_thms)
  have queue: "0 < max_attempts sample_queue" by (simp add: sample_queue_def)
  have tree: "[] \<noteq> [] \<longrightarrow> same_bodies (tree_of_entries (list_tree_entries db [])) []" by simp
  have first: "PlanCheckpoint = PlanCheckpoint \<longleftrightarrow> [] = ([] :: string)" by simp
  let ?req = "publish_request sample_commit_libs sample_push_input PlanCheckpoint [] [] 1 ''obj-commit-body'' pc
     (expected_metadata sample_commit_libs (last uploads))"
  have publish': "publish_plan sample_commit_libs sample_commit_net sample_queue sample_nonces sample_push_input
      PlanCheckpoint [] [] 1 (sample_plan\<lparr>commit_kind := PlanCheckpoint\<rparr>) db = (Ok r, db')"
    by (simp only: kind publish)
  have pushed': "pushed_commit sample_commit_libs sample_commit_net sample_nonces sample_push_input PlanCheckpoint [] [] 1
      (sample_plan\<lparr>commit_kind := PlanCheckpoint\<rparr>) db = Ok (uploads, ?req)"
    unfolding kind by (rule pushed [rule_format])
  note accepted = pushed_commit_accepted [OF sample_libs_ok sample_nonces_ok sample_reservation_ok scan db0(1) rows(1) sample_push_wf(2)
      sample_names_ok rows(2) plan first publish' vault pushed' served queue sample_blanks tree]
  from accepted obtain pub :: published_commit where "\<forall>header k. header_for ?req header \<longrightarrow> (\<exists>commit tree'.
      decrypt_commit sample_commit_libs (pe_net (sample_receiver sample_commit_libs uploads)) sample_queue
        (in_workspace_id sample_push_input) ''e'' (in_workspace_key sample_push_input) header k = (Ok commit, k + 2) \<and>
      materialize_remote_tree_only sample_commit_libs commit [] = Ok tree' \<and>
      validate_tree_id sample_commit_libs (bd_tree_id (dc_body commit)) (entries_of_tree tree') = Ok () \<and>
      same_bodies (tree_of_entries (list_tree_entries db' (pd_commit_id pub))) tree')"
    by (elim exE conjE)
  note accepted = this
  from accepted [rule_format, OF sample_header_for, of 0, unfolded sample_input add_0] show ?thesis
    by (elim exE conjE) (intro exI [of _ uploads] exI [of _ ?req] exI conjI)
qed

lemma replay_commit_total:
  assumes "decrypt_commit L (pe_net E) (pe_queue E) (pi_workspace_id input) (pi_device_id input) (pi_workspace_key input)
      header (ps_downloads st) = (Ok commit, k)"
    and "is_ok (fst (apply_decrypted_commit L E input dirty_files commit tree (st\<lparr>ps_downloads := k\<rparr>)))"
  shows "\<exists>acc st'. replay_commit L E input dirty_files header (tree, applied) st = (Ok acc, st')"
proof -
  from is_ok_fst [OF assms(2)] obtain acc st' where
    a: "apply_decrypted_commit L E input dirty_files commit tree (st\<lparr>ps_downloads := k\<rparr>) = (Ok acc, st')" by blast
  show ?thesis by (cases acc) (simp add: replay_commit_def on_downloads_def assms(1) a)
qed

theorem pushed_files_arrive_witness:
  "\<exists>uploads req acc st.
    replay_commit sample_commit_libs (sample_receiver sample_commit_libs uploads) sample_pull_input [] (sample_header req) ([], [])
      sample_empty_vault = (Ok acc, st) \<and>
    fs_read sample_note [''a.md''] = Some ''x'' \<and> fs_read (ps_fs st) [''a.md''] = Some ''x''"
proof -
  obtain r db' where publish: "publish_plan sample_commit_libs sample_commit_net sample_queue sample_nonces sample_push_input
      PlanCheckpoint [] [] 1 sample_plan empty_db = (Ok r, db')" using sample_publish [of empty_db] by (elim exE conjE)
  obtain pc uploads where pc: "prepare_commit sample_commit_libs sample_push_input PlanCheckpoint [] [] 1 sample_reserved sample_plan empty_db = Ok pc"
    and pushed: "\<forall>db. pushed_commit sample_commit_libs sample_commit_net sample_nonces sample_push_input PlanCheckpoint [] [] 1 sample_plan db =
       Ok (uploads, publish_request sample_commit_libs sample_push_input PlanCheckpoint [] [] 1 ''obj-commit-body'' pc
         (expected_metadata sample_commit_libs (last uploads)))" and distinct: "distinct (map ru_object_id uploads)"
    by (rule sample_pushed_commit)
  let ?E = "sample_receiver sample_commit_libs uploads"
  let ?req = "publish_request sample_commit_libs sample_push_input PlanCheckpoint [] [] 1 ''obj-commit-body'' pc
     (expected_metadata sample_commit_libs (last uploads))"
  have scan: "scan_vault (to_lowercase sample_commit_libs) (blake3_hex sample_commit_libs) [''v''] sample_note = Ok [sample_scanned]"
    by (simp only: blake3_sample to_lowercase_sample sample_push_steps(2))
  have plan: "plan_checkpoint (blake3_hex sample_commit_libs) (json_planned_tree sample_commit_libs) [sample_scanned] sample_planner_config = Ok sample_plan"
    by (simp only: blake3_sample sample_push_steps(4))
  have served: "\<forall>k. serves sample_commit_libs (pn_transfer (pe_net ?E) k)
      (in_workspace_id sample_push_input) (pi_device_id sample_pull_input) uploads"
    by (simp only: sample_receiver_net sample_serves [OF distinct] simp_thms)
  have puller: "0 < max_attempts (pe_queue ?E)" "\<not> blank (pi_device_id sample_pull_input)"
    "pi_workspace_id sample_pull_input = in_workspace_id sample_push_input"
    "pi_workspace_key sample_pull_input = in_workspace_key sample_push_input" "pi_vault_root sample_pull_input \<noteq> []" 
    using sample_blanks(2) by (simp_all add: sample_receiver_def sample_pull_env_def sample_pull_input_def sample_push_input_def)
  note arrive = pushed_files_arrive [OF sample_libs_ok sample_nonces_ok sample_reservation_ok scan sample_push_wf(2) sample_names_ok
      plan publish pushed [rule_format] served puller(1) sample_blanks(1) puller(2-5)]
  obtain acc st where replay: "replay_commit sample_commit_libs ?E sample_pull_input [] (sample_header ?req) ([], []) sample_empty_vault = (Ok acc, st)"
  proof -
    have "refs_ok sample_plan" by code_simp
    from decrypt_pushed [OF sample_libs_ok sample_nonces_ok sample_reservation_ok this publish pushed [rule_format] served
        puller(1) sample_blanks(1) puller(2)]
    obtain reserved pc' us and pub :: published_commit where
      r: "reserve_commit_objects sample_commit_net (in_workspace_id sample_push_input) (in_device_id sample_push_input) sample_plan = Ok reserved"
      and p: "prepare_commit sample_commit_libs sample_push_input PlanCheckpoint [] [] 1 reserved sample_plan empty_db = Ok pc'"
      and opens: "list_all2 (pack_upload sample_commit_libs (in_workspace_key sample_push_input) (in_workspace_id sample_push_input)
        (bd_commit_id (pp_body pc')) reserved) (pack_shards sample_plan) us" "distinct (map ru_object_id us)"
      and "cn_publish_commit sample_commit_net ?req = Ok pub" "pc_commit_kind ?req = proto_commit_kind PlanCheckpoint"
      and "apply_publish_success sample_commit_libs (in_vault_id sample_push_input) pub PlanCheckpoint [] (bd_tree_id (pp_body pc'))
        (pp_tree pc') sample_plan 1 (in_now_ms sample_push_input) empty_db = (Ok (), db')"
      and decrypt: "\<forall>header k. header_for ?req header \<longrightarrow>
        decrypt_commit sample_commit_libs (pe_net ?E) (pe_queue ?E) (in_workspace_id sample_push_input) (pi_device_id sample_pull_input)
          (in_workspace_key sample_push_input) header k =
        (Ok \<lparr>dc_header = header, dc_body = pp_body pc', dc_packs = bt_of_list (opened_packs sample_commit_libs (pack_shards sample_plan) us)\<rparr>,
          k + 2)" .
    have reserved: "reserved = sample_reserved"
      using r unfolding sample_input by (simp only: sample_push_steps(5) result.inject)
    have pc': "pc' = pc" using p unfolding reserved by (simp only: pc result.inject)
    have shards: "pack_shards sample_plan = [pack_shard CHECKPOINT_PACK_KIND 0 1 [entry_plan sample_hash sample_scanned]]"
      by (simp only: sample_plan_def sync_plan.simps)
    from opens(1) obtain u where us: "us = [u]"
      and u: "bt_get (rc_pack_object_ids sample_reserved) (CHECKPOINT_PACK_KIND @ ''-'' @ show_nat 0) = Some (ru_object_id u)"
      unfolding shards reserved by (auto simp: list_all2_Cons1 pack_upload_def pack_shard_def)
    have "bt_get (rc_pack_object_ids sample_reserved) (CHECKPOINT_PACK_KIND @ ''-'' @ show_nat 0) = Some ''obj-checkpoint_pack-0''"
      by code_simp
    with u have u: "ru_object_id u = ''obj-checkpoint_pack-0''" by simp
    have "\<lparr>dc_header = header, dc_body = pp_body pc', dc_packs = bt_of_list (opened_packs sample_commit_libs (pack_shards sample_plan) us)\<rparr> =
        sample_replayed pc header" for header
      unfolding pc' shards us opened_packs_def by (simp add: sample_replayed_def u bt_of_list_def)
    then have "decrypt_commit sample_commit_libs (pe_net ?E) (pe_queue ?E) (pi_workspace_id sample_pull_input) (pi_device_id sample_pull_input)
        (pi_workspace_key sample_pull_input) (sample_header ?req) 0 = (Ok (sample_replayed pc (sample_header ?req)), 0 + 2)"
      unfolding puller using decrypt [rule_format, OF sample_header_for, of 0] by (simp only:)
    moreover have "is_ok (fst (apply_decrypted_commit sample_commit_libs ?E sample_pull_input []
        (sample_replayed pc (sample_header ?req)) [] (sample_empty_vault\<lparr>ps_downloads := 2\<rparr>)))"
      using sample_exchange [of uploads "expected_metadata sample_commit_libs (last uploads)"] by (simp only: pc result.case)
    moreover have "ps_downloads sample_empty_vault = 0" by (simp add: sample_empty_vault_def sample_pull_state_def)
    ultimately show thesis
      using replay_commit_total [of sample_commit_libs ?E sample_pull_input "sample_header ?req" sample_empty_vault
          "sample_replayed pc (sample_header ?req)" 2 "[]" "[]" "[]"] that by (simp only: add_0) blast
  qed
  from arrive have "\<exists>p. sf_path sample_scanned = to_relative_path p \<and> fs_read sample_note p = Some (sf_plaintext sample_scanned) \<and>
      fs_read (ps_fs st) p = Some (sf_plaintext sample_scanned)"
    using sample_header_for [of ?req] replay by (elim exE conjE) (simp only: list.set ball_simps simp_thms)
  then obtain p where p: "fs_read sample_note p = Some (sf_plaintext sample_scanned)"
    "fs_read (ps_fs st) p = Some (sf_plaintext sample_scanned)" by (elim exE conjE)
  have x: "sf_plaintext sample_scanned = ''x''" by (simp add: sample_scanned_def)
  have a: "p = [''a.md'']"
  proof (cases p)
    case (Cons y ys)
    with p(1) show ?thesis by (cases ys) (auto simp: sample_note_def fs_read_def split: if_splits)
  qed (use p(1) in \<open>simp add: sample_note_def fs_read_def\<close>)
  show ?thesis by (intro exI [of _ uploads] exI [of _ ?req] exI [of _ acc] exI [of _ st] conjI replay p [unfolded a x])
qed

end
