(* ===== verification/Indexer_Text.thy ===== *)
theory Indexer_Text
  imports Kuku_Prelude "HOL-Library.Sublist"
begin

text \<open>
  The text functions of the indexer crate (\<^verbatim>\<open>crates/kuku-indexer/src/\<close>): normalisation (\<^verbatim>\<open>normalize.rs\<close>), the
  division of long texts into chunks (\<^verbatim>\<open>chunk.rs\<close>), snippets around a hit (\<^verbatim>\<open>snippet.rs\<close>) and the planning of a
  query (\<^verbatim>\<open>plan.rs\<close>). They work on Unicode scalar values, not on bytes: a text is the list of its code points. The
  lower case of a text and the alphanumeric characters are tables of the Rust library and parameters. A slice out of
  range panics in Rust, which is \<open>None\<close> here.
\<close>

section \<open>Texts\<close>

type_synonym uchar = int
type_synonym ustring = "uchar list"

text \<open>An ASCII literal, and the characters the code names.\<close>

definition ascii :: "string \<Rightarrow> ustring" where
  "ascii s = map of_char s"

definition line_feed :: uchar where "line_feed = 10"
definition ellipsis :: uchar where "ellipsis = 0x2026"
definition blank_char :: uchar where "blank_char = 32"

text \<open>Unicode's \<^verbatim>\<open>White_Space\<close>, which \<^verbatim>\<open>char::is_whitespace\<close> and \<^verbatim>\<open>\s\<close> of the regular expressions mean.\<close>

definition is_whitespace :: "uchar \<Rightarrow> bool" where
  "is_whitespace c \<longleftrightarrow> (9 \<le> c \<and> c \<le> 13) \<or> c = 32 \<or> c = 0x85 \<or> c = 0xA0 \<or> c = 0x1680 \<or>
     (0x2000 \<le> c \<and> c \<le> 0x200A) \<or> c = 0x2028 \<or> c = 0x2029 \<or> c = 0x202F \<or> c = 0x205F \<or> c = 0x3000"

definition utrim :: "ustring \<Rightarrow> ustring" where
  "utrim s = rev (dropWhile is_whitespace (rev (dropWhile is_whitespace s)))"

text \<open>The number of bytes of a code point in UTF-8, and of a text.\<close>

definition len_utf8 :: "uchar \<Rightarrow> nat" where
  "len_utf8 c = (if c < 0x80 then 1 else if c < 0x800 then 2 else if c < 0x10000 then 3 else 4)"

fun ulen :: "ustring \<Rightarrow> nat" where
  "ulen [] = 0"
| "ulen (c # s) = len_utf8 c + ulen s"

section \<open>Normalisation\<close>

text \<open>\<^verbatim>\<open>WHITESPACE_REGEX.replace_all(.., " ")\<close>: every maximal run of white space becomes one blank.\<close>

fun collapse_whitespace :: "bool \<Rightarrow> ustring \<Rightarrow> ustring" where
  "collapse_whitespace in_run [] = []"
| "collapse_whitespace in_run (c # s) =
     (if is_whitespace c then (if in_run then [] else [blank_char]) @ collapse_whitespace True s
      else c # collapse_whitespace False s)"

definition normalize_text :: "(ustring \<Rightarrow> ustring) \<Rightarrow> ustring \<Rightarrow> ustring" where
  "normalize_text lc input = lc (collapse_whitespace False (utrim input))"

definition is_cjk_char :: "uchar \<Rightarrow> bool" where
  "is_cjk_char c \<longleftrightarrow> (0x2E80 \<le> c \<and> c \<le> 0x9FFF) \<or> (0xAC00 \<le> c \<and> c \<le> 0xD7AF) \<or>
     (0xF900 \<le> c \<and> c \<le> 0xFAFF) \<or> (0x20000 \<le> c \<and> c \<le> 0x2FA1F)"

definition contains_cjk :: "ustring \<Rightarrow> bool" where
  "contains_cjk input \<longleftrightarrow> list_ex is_cjk_char input"

section \<open>Chunks\<close>

definition CHUNK_MAX_CHARS :: nat where "CHUNK_MAX_CHARS = 1000"
definition CHUNK_OVERLAP_CHARS :: nat where "CHUNK_OVERLAP_CHARS = 100"
definition TARGET_SPLIT_CHARS :: nat where "TARGET_SPLIT_CHARS = 850"

definition is_boundary :: "uchar \<Rightarrow> bool" where
  "is_boundary c \<longleftrightarrow> c = line_feed \<or> c = 0x2E \<or> c = 0x21 \<or> c = 0x3F \<or> c = 0x3002 \<or> c = 0xFF01 \<or> c = 0xFF1F"

text \<open>\<^verbatim>\<open>for idx in (lower..upper).rev()\<close>: the last index of a range whose predecessor is a boundary.\<close>

fun last_boundary :: "ustring \<Rightarrow> nat \<Rightarrow> nat \<Rightarrow> nat option" where
  "last_boundary chars lower 0 = None"
| "last_boundary chars lower (Suc n) =
     (if n < lower then None
      else if is_boundary (chars ! (n - 1)) then Some n
      else last_boundary chars lower n)"

definition chunk_end :: "ustring \<Rightarrow> nat \<Rightarrow> nat" where
  "chunk_end chars start =
     (let upper = min (start + CHUNK_MAX_CHARS) (length chars) in
      if upper < length chars then
        let target = min (start + TARGET_SPLIT_CHARS) upper;
            boundary = (case last_boundary chars target upper of
              Some idx \<Rightarrow> Some idx
            | None \<Rightarrow> last_boundary chars (min (start + (CHUNK_OVERLAP_CHARS + 1)) target) target)
        in (case boundary of Some idx \<Rightarrow> idx | None \<Rightarrow> upper)
      else upper)"

lemma last_boundary_Some:
  "last_boundary chars lower n = Some i \<Longrightarrow> lower \<le> i \<and> i < n \<and> is_boundary (chars ! (i - 1))"
  by (induction n) (auto split: if_splits)

text \<open>The end of a chunk is beyond the overlap with the previous one, so the loop advances.\<close>

lemma chunk_end_bounds:
  assumes "start < length chars"
  shows "start < chunk_end chars start" "chunk_end chars start \<le> start + CHUNK_MAX_CHARS"
    "chunk_end chars start \<le> length chars"
    "chunk_end chars start < length chars \<Longrightarrow> start + CHUNK_OVERLAP_CHARS < chunk_end chars start"
proof -
  let ?upper = "min (start + CHUNK_MAX_CHARS) (length chars)"
  let ?target = "min (start + TARGET_SPLIT_CHARS) ?upper"
  note sizes = CHUNK_MAX_CHARS_def CHUNK_OVERLAP_CHARS_def TARGET_SPLIT_CHARS_def
  have "start < chunk_end chars start \<and> chunk_end chars start \<le> ?upper \<and>
    (chunk_end chars start < length chars \<longrightarrow> start + CHUNK_OVERLAP_CHARS < chunk_end chars start)"
    using assms
    by (auto simp: chunk_end_def Let_def sizes dest!: last_boundary_Some split: option.splits)
  then show "start < chunk_end chars start" "chunk_end chars start \<le> start + CHUNK_MAX_CHARS"
    "chunk_end chars start \<le> length chars"
    "chunk_end chars start < length chars \<Longrightarrow> start + CHUNK_OVERLAP_CHARS < chunk_end chars start" by auto
qed

definition slice :: "'a list \<Rightarrow> nat \<Rightarrow> nat \<Rightarrow> 'a list" where
  "slice xs i j = take (j - i) (drop i xs)"

function chunk_loop :: "ustring \<Rightarrow> nat \<Rightarrow> ustring list \<Rightarrow> ustring list" where
  "chunk_loop chars start parts =
     (if start < length chars then
        let stop = chunk_end chars start;
            trimmed = utrim (slice chars start stop);
            parts = (if trimmed \<noteq> [] then parts @ [trimmed] else parts)
        in if stop = length chars then parts
           else let following = stop - CHUNK_OVERLAP_CHARS
                in chunk_loop chars (if following \<le> start then stop else following) parts
      else parts)"
  by pat_completeness auto
termination
proof (relation "measure (\<lambda>(chars, start, _). length chars - start)", goal_cases)
  case (2 chars start parts stop trimmed parts' following)
  then show ?case using chunk_end_bounds(1,3) [of start chars] by auto
qed simp

declare chunk_loop.simps [simp del]

definition split_chunk_text :: "ustring \<Rightarrow> ustring list" where
  "split_chunk_text input =
     (if length input \<le> CHUNK_MAX_CHARS then [utrim input] else chunk_loop input 0 [])"

section \<open>Snippets\<close>

definition SNIPPET_RADIUS :: nat where "SNIPPET_RADIUS = 80"

text \<open>\<^verbatim>\<open>str::find\<close>; the characters before the byte index it returns are the characters before the hit.\<close>

fun find_sub :: "'a list \<Rightarrow> 'a list \<Rightarrow> nat option" where
  "find_sub [] pat = (if pat = [] then Some 0 else None)"
| "find_sub (c # s) pat = (if prefix pat (c # s) then Some 0 else map_option Suc (find_sub s pat))"

text \<open>\<^verbatim>\<open>raw_chars[start..end]\<close> with the marks of omission; \<^verbatim>\<open>end\<close> is at most the length.\<close>

definition marked_slice :: "ustring \<Rightarrow> nat \<Rightarrow> nat \<Rightarrow> ustring option" where
  "marked_slice raw_chars start stop =
     (if start > stop \<or> stop > length raw_chars then None
      else Some ((if start > 0 then [ellipsis] else []) @ slice raw_chars start stop @
             (if stop < length raw_chars then [ellipsis] else [])))"

definition build_snippet :: "(ustring \<Rightarrow> ustring) \<Rightarrow> ustring \<Rightarrow> ustring \<Rightarrow> ustring option" where
  "build_snippet lc raw_text query =
     (let trimmed = utrim raw_text in
      if trimmed = [] then Some []
      else
        let normalized_query = normalize_text lc query in
        if normalized_query = [] then Some (take (SNIPPET_RADIUS * 2) trimmed)
        else
          (case find_sub (lc trimmed) normalized_query of
             Some prefix_chars \<Rightarrow>
               marked_slice trimmed (prefix_chars - SNIPPET_RADIUS)
                 (min (prefix_chars + length normalized_query + SNIPPET_RADIUS) (length trimmed))
           | None \<Rightarrow>
               Some (take (SNIPPET_RADIUS * 2) trimmed @
                 (if length trimmed > SNIPPET_RADIUS * 2 then [ellipsis] else []))))"

fun is_char_boundary :: "ustring \<Rightarrow> nat \<Rightarrow> bool" where
  "is_char_boundary s 0 = True"
| "is_char_boundary [] (Suc b) = False"
| "is_char_boundary (c # s) (Suc b) = (len_utf8 c \<le> Suc b \<and> is_char_boundary s (Suc b - len_utf8 c))"

fun snap_to_char_boundary :: "ustring \<Rightarrow> nat \<Rightarrow> nat" where
  "snap_to_char_boundary s 0 = 0"
| "snap_to_char_boundary s (Suc b) =
     (if \<not> is_char_boundary s (Suc b) then snap_to_char_boundary s b else Suc b)"

text \<open>\<^verbatim>\<open>trimmed[..byte].chars().count()\<close>, which panics at a byte that is no boundary.\<close>

fun chars_before :: "ustring \<Rightarrow> nat \<Rightarrow> nat" where
  "chars_before s 0 = 0"
| "chars_before [] (Suc b) = 0"
| "chars_before (c # s) (Suc b) = Suc (chars_before s (Suc b - len_utf8 c))"

definition count_prefix :: "ustring \<Rightarrow> nat \<Rightarrow> nat option" where
  "count_prefix s b = (if is_char_boundary s b then Some (chars_before s b) else None)"

definition build_snippet_for_range :: "ustring \<Rightarrow> nat \<Rightarrow> nat \<Rightarrow> ustring option" where
  "build_snippet_for_range raw_text start_byte end_byte =
     (let trimmed = utrim raw_text in
      if trimmed = [] then Some []
      else
        let clamped_start = snap_to_char_boundary trimmed (min start_byte (ulen trimmed));
            clamped_end = snap_to_char_boundary trimmed (min (max end_byte clamped_start) (ulen trimmed)) in
        Option.bind (count_prefix trimmed clamped_start) (\<lambda>start.
        Option.bind (count_prefix trimmed clamped_end) (\<lambda>stop.
          marked_slice trimmed (start - SNIPPET_RADIUS) (min (stop + SNIPPET_RADIUS) (length trimmed)))))"

section \<open>Queries\<close>

datatype query_route = RouteNone | MetadataOnly | MetadataAndBody

record simple_query_plan =
  original_query :: ustring
  normalized_query :: ustring
  route :: query_route

definition is_query_token_char :: "(uchar \<Rightarrow> bool) \<Rightarrow> uchar \<Rightarrow> bool" where
  "is_query_token_char alphanumeric c \<longleftrightarrow> alphanumeric c \<or> is_cjk_char c"

fun tokenize_loop :: "(uchar \<Rightarrow> bool) \<Rightarrow> ustring \<Rightarrow> ustring list \<Rightarrow> ustring \<Rightarrow> ustring list" where
  "tokenize_loop alphanumeric [] tokens current = (if current \<noteq> [] then tokens @ [current] else tokens)"
| "tokenize_loop alphanumeric (c # s) tokens current =
     (if is_query_token_char alphanumeric c then tokenize_loop alphanumeric s tokens (current @ [c])
      else tokenize_loop alphanumeric s (if current \<noteq> [] then tokens @ [current] else tokens) [])"

definition tokenize_query_terms :: "(uchar \<Rightarrow> bool) \<Rightarrow> ustring \<Rightarrow> ustring list" where
  "tokenize_query_terms alphanumeric input = tokenize_loop alphanumeric input [] []"

definition plan_simple_query :: "(ustring \<Rightarrow> ustring) \<Rightarrow> ustring \<Rightarrow> simple_query_plan" where
  "plan_simple_query lc query =
     (let trimmed = utrim query in
      if trimmed = [] then \<lparr>original_query = [], normalized_query = [], route = RouteNone\<rparr>
      else
        let normalized = normalize_text lc trimmed;
            char_count = length trimmed
        in \<lparr>original_query = trimmed, normalized_query = normalized,
            route = (if char_count = 1 then MetadataOnly
              else if contains_cjk trimmed then (if char_count \<ge> 2 then MetadataAndBody else MetadataOnly)
              else if length (filter (\<lambda>c. c \<noteq> blank_char) normalized) \<ge> 4 then MetadataAndBody
              else MetadataOnly)\<rparr>)"

fun join_words :: "ustring list \<Rightarrow> ustring" where
  "join_words [] = []"
| "join_words [w] = w"
| "join_words (w # ws) = w @ [blank_char] @ join_words ws"

definition build_fts_query :: "(uchar \<Rightarrow> bool) \<Rightarrow> simple_query_plan \<Rightarrow> ustring option" where
  "build_fts_query alphanumeric plan =
     (if route plan \<noteq> MetadataAndBody then None
      else
        let tokens = tokenize_query_terms alphanumeric (normalized_query plan) in
        if tokens = [] then None
        else Some (join_words (map (\<lambda>token. token @ ascii ''*'') tokens)))"

section \<open>Trimming and normalising\<close>

lemma utrim_ends:
  "utrim s \<noteq> [] \<Longrightarrow> \<not> is_whitespace (hd (utrim s)) \<and> \<not> is_whitespace (last (utrim s))"
proof -
  let ?d = "dropWhile is_whitespace s"
  assume ne: "utrim s \<noteq> []"
  have "suffix (dropWhile is_whitespace (rev ?d)) (rev ?d)" by (rule suffix_dropWhile)
  then have suf: "prefix (utrim s) ?d" by (simp add: utrim_def suffix_to_prefix)
  have "hd (utrim s) = hd ?d" using suf ne by (auto simp: prefix_def)
  moreover have "?d \<noteq> []"
  proof
    assume "?d = []"
    with suf ne show False by (simp only: prefix_bot.bot_unique)
  qed
  moreover have "last (utrim s) = hd (dropWhile is_whitespace (rev ?d))" by (simp add: utrim_def last_rev hd_rev)
  moreover have "dropWhile is_whitespace (rev ?d) \<noteq> []" using ne by (simp add: utrim_def)
  ultimately show ?thesis by (metis hd_dropWhile)
qed

lemma utrim_idle: "s = [] \<or> \<not> is_whitespace (hd s) \<and> \<not> is_whitespace (last s) \<Longrightarrow> utrim s = s"
proof -
  assume s: "s = [] \<or> \<not> is_whitespace (hd s) \<and> \<not> is_whitespace (last s)"
  then have "dropWhile is_whitespace s = s" by (cases s) auto
  moreover have "dropWhile is_whitespace (rev s) = rev s" using s by (cases s rule: rev_cases) auto
  ultimately show ?thesis by (simp only: utrim_def rev_rev_ident)
qed

lemma utrim_idem [simp]: "utrim (utrim s) = utrim s"
  using utrim_ends [of s] by (intro utrim_idle) blast

lemma length_utrim: "length (utrim s) \<le> length s"
  by (metis (no_types, lifting) length_dropWhile_le length_rev order_trans utrim_def)

lemma dropWhile_keeps: "x \<in> set xs \<Longrightarrow> \<not> P x \<Longrightarrow> x \<in> set (dropWhile P xs)"
  by (induction xs) auto

lemma utrim_keeps: "c \<in> set s \<Longrightarrow> \<not> is_whitespace c \<Longrightarrow> c \<in> set (utrim s)"
  by (simp add: utrim_def dropWhile_keeps)

section \<open>Chunks cover the text\<close>

text \<open>
  The ranges of the chunks: each starts the overlap before the end of the previous one, is no longer than the
  limit and longer than the overlap, and the last one ends with the text.
\<close>

fun chunk_chain :: "nat \<Rightarrow> nat \<Rightarrow> (nat \<times> nat) list \<Rightarrow> bool" where
  "chunk_chain n i [] = False"
| "chunk_chain n i ((a, b) # rs) \<longleftrightarrow> a = i \<and> a < b \<and> b \<le> a + CHUNK_MAX_CHARS \<and>
     (if rs = [] then b = n
      else b < n \<and> a + CHUNK_OVERLAP_CHARS < b \<and> chunk_chain n (b - CHUNK_OVERLAP_CHARS) rs)"

lemma chunk_chain_covers: "chunk_chain n i rs \<Longrightarrow> (\<Union>(a, b) \<in> set rs. {a..<b}) = {i..<n}"
proof (induction n i rs rule: chunk_chain.induct)
  case (2 n i a b rs)
  show ?case
  proof (cases "rs = []")
    case False
    with 2 have "(\<Union>(a, b) \<in> set rs. {a..<b}) = {b - CHUNK_OVERLAP_CHARS..<n}" by simp
    with 2 False show ?thesis by auto
  qed (use 2 in simp)
qed simp

definition chunk_texts :: "ustring \<Rightarrow> (nat \<times> nat) list \<Rightarrow> ustring list" where
  "chunk_texts chars rs = filter (\<lambda>t. t \<noteq> []) (map (\<lambda>(a, b). utrim (slice chars a b)) rs)"

lemma chunk_loop_chain:
  assumes "start < length chars"
  shows "\<exists>rs. chunk_chain (length chars) start rs \<and> chunk_loop chars start parts = parts @ chunk_texts chars rs"
  using assms
proof (induction chars start parts rule: chunk_loop.induct)
  case (1 chars start parts)
  let ?stop = "chunk_end chars start"
  let ?t = "utrim (slice chars start ?stop)"
  let ?parts = "if ?t \<noteq> [] then parts @ [?t] else parts"
  note b = chunk_end_bounds [OF 1(2)]
  have parts: "?parts = parts @ chunk_texts chars [(start, ?stop)]" by (simp add: chunk_texts_def)
  show ?case
  proof (cases "?stop = length chars")
    case True
    then have "chunk_loop chars start parts = parts @ chunk_texts chars [(start, ?stop)]"
      using 1(2) by (simp add: chunk_loop.simps [of chars start] Let_def chunk_texts_def)
    with True b 1(2) show ?thesis by (intro exI [of _ "[(start, ?stop)]"]) simp
  next
    case False
    let ?next = "?stop - CHUNK_OVERLAP_CHARS"
    have far: "start + CHUNK_OVERLAP_CHARS < ?stop" "?stop < length chars" using b False by auto
    then have "\<not> ?next \<le> start" "?next < length chars" by auto
    with 1(1) [of ?stop ?t ?parts ?next] 1(2) False obtain rs where
      rs: "chunk_chain (length chars) ?next rs" "chunk_loop chars ?next ?parts = ?parts @ chunk_texts chars rs" by auto
    have "rs \<noteq> []" using rs(1) by auto
    then have "chunk_chain (length chars) start ((start, ?stop) # rs)" using b far rs(1) by simp
    moreover have "chunk_loop chars start parts = parts @ chunk_texts chars ((start, ?stop) # rs)"
      using 1(2) False rs(2) \<open>\<not> ?next \<le> start\<close> parts
      by (simp add: chunk_loop.simps [of chars start] Let_def) (simp add: chunk_texts_def)
    ultimately show ?thesis by blast
  qed
qed

text \<open>
  The chunks of a long text cover it: it is divided into ranges of at most a thousand characters that together
  contain every position and start exactly the overlap before the end of the previous one; the chunks are the trimmed
  texts of these ranges, without those that are blank. A short text is one chunk.
\<close>

theorem split_chunk_text_covers:
  "if length input \<le> CHUNK_MAX_CHARS then split_chunk_text input = [utrim input]
   else \<exists>ranges. chunk_chain (length input) 0 ranges \<and> (\<Union>(a, b) \<in> set ranges. {a..<b}) = {0..<length input} \<and>
     split_chunk_text input = filter (\<lambda>t. t \<noteq> []) (map (\<lambda>(a, b). utrim (slice input a b)) ranges)"
proof (cases "length input \<le> CHUNK_MAX_CHARS")
  case False
  then have "0 < length input" by auto
  from chunk_loop_chain [OF this, of "[]"] obtain rs where
    "chunk_chain (length input) 0 rs" "chunk_loop input 0 [] = chunk_texts input rs" by auto
  with False chunk_chain_covers [of "length input" 0 rs] show ?thesis
    by (simp add: split_chunk_text_def chunk_texts_def) (intro exI [of _ rs] conjI; simp)
qed (simp add: split_chunk_text_def)

section \<open>Snippets are parts of the text\<close>

lemma find_sub_bound: "find_sub s pat = Some i \<Longrightarrow> i + length pat \<le> length s"
  by (induction s arbitrary: i) (auto split: if_splits dest: prefix_length_le)

lemma marked_slice_None: "marked_slice s i j = None \<longleftrightarrow> i > j \<or> j > length s"
  by (simp add: marked_slice_def)

lemma build_snippet_None:
  "build_snippet lc raw_text query = None \<longleftrightarrow>
     normalize_text lc query \<noteq> [] \<and> utrim raw_text \<noteq> [] \<and>
     (\<exists>i. find_sub (lc (utrim raw_text)) (normalize_text lc query) = Some i \<and>
        i > length (utrim raw_text) + SNIPPET_RADIUS)"
  by (auto simp: build_snippet_def Let_def marked_slice_None split: option.splits)

text \<open>
  Turkish dotted capital I has two characters in lower case: a hit behind enough of them panics. Where lower case
  keeps the length, as for ASCII, there is always a snippet.
\<close>

definition dotted_lowercase :: "ustring \<Rightarrow> ustring" where
  "dotted_lowercase s = concat (map (\<lambda>c. if c = 0x130 then [0x69, 0x307] else [c]) s)"

lemma build_snippet_panics: "build_snippet dotted_lowercase (replicate 100 0x130 @ ascii ''x'') (ascii ''x'') = None"
  by code_simp

lemma build_snippet_total:
  assumes "\<And>s. length (lc s) = length s"
  shows "\<exists>snippet. build_snippet lc raw_text query = Some snippet"
proof -
  have "i \<le> length (utrim raw_text)" if "find_sub (lc (utrim raw_text)) pat = Some i" for pat i
    using find_sub_bound [OF that] assms by simp
  then show ?thesis
    using build_snippet_None [of lc raw_text query] by (cases "build_snippet lc raw_text query") fastforce+
qed

text \<open>
  C31. Exactly when a snippet panics: the position of the hit is counted in the lower case of the text but used in the
  text itself, so it fails when lower case lengthens the text so much that the hit begins more than the radius behind
  the text's end. Otherwise there is a snippet.
\<close>

theorem build_snippet_panics_iff:
  "build_snippet lc raw_text query = None \<longleftrightarrow>
     normalize_text lc query \<noteq> [] \<and> utrim raw_text \<noteq> [] \<and>
     (\<exists>i. find_sub (lc (utrim raw_text)) (normalize_text lc query) = Some i \<and>
        i > length (utrim raw_text) + SNIPPET_RADIUS)"
  by (rule build_snippet_None)

lemma snap_boundary: "is_char_boundary s (snap_to_char_boundary s b)" "snap_to_char_boundary s b \<le> b"
  by (induction b) auto

lemma snap_max:
  "is_char_boundary s a \<Longrightarrow> a \<le> b \<Longrightarrow> a \<le> snap_to_char_boundary s b"
  by (induction b) (auto simp: le_Suc_eq)

lemma len_utf8_pos [simp]: "0 < len_utf8 c"
  by (simp add: len_utf8_def)

lemma chars_before_le: "chars_before s b \<le> length s"
  by (induction s b rule: chars_before.induct) auto

lemma chars_before_mono:
  "a \<le> b \<Longrightarrow> is_char_boundary s a \<Longrightarrow> is_char_boundary s b \<Longrightarrow> chars_before s a \<le> chars_before s b"
proof (induction s arbitrary: a b)
  case Nil
  then show ?case by (cases a; cases b) auto
next
  case (Cons c s)
  show ?case
  proof (cases a)
    case (Suc a')
    then obtain b' where b: "b = Suc b'" using Cons.prems(1) by (cases b) auto
    have "chars_before s (a - len_utf8 c) \<le> chars_before s (b - len_utf8 c)"
      using Cons.prems Suc b by (intro Cons.IH) auto
    then show ?thesis by (simp add: Suc b)
  qed simp
qed

lemma ulen_chars_before: "is_char_boundary s b \<Longrightarrow> ulen (take (chars_before s b) s) = b"
  by (induction s b rule: chars_before.induct) auto

lemma marked_slice_window:
  assumes "a \<le> b" "b \<le> length t"
  shows "marked_slice t (a - r) (min (b + r) (length t)) =
    Some ((if a > r then [ellipsis] else []) @ slice t (a - r) (min (b + r) (length t)) @
      (if b + r < length t then [ellipsis] else []))"
proof -
  have "a - r \<le> min (b + r) (length t)" unfolding min.bounded_iff using assms by (intro conjI; linarith)
  then show ?thesis by (simp add: marked_slice_def)
qed

text \<open>
  C30. A snippet for a range of bytes never panics, whatever the range: its bounds, cut to the text and moved back to
  character boundaries, are the bytes before two positions in order, and the snippet is the surroundings of what stands
  between them in the trimmed text, with a mark at each end where something was left out.
\<close>

theorem range_snippet_total:
  "\<exists>start stop. start \<le> stop \<and> stop \<le> length (utrim raw_text) \<and>
     ulen (take start (utrim raw_text)) = snap_to_char_boundary (utrim raw_text) (min start_byte (ulen (utrim raw_text))) \<and>
     ulen (take stop (utrim raw_text)) = snap_to_char_boundary (utrim raw_text)
       (min (max end_byte (ulen (take start (utrim raw_text)))) (ulen (utrim raw_text))) \<and>
     build_snippet_for_range raw_text start_byte end_byte =
       Some ((if start > SNIPPET_RADIUS then [ellipsis] else []) @
         slice (utrim raw_text) (start - SNIPPET_RADIUS) (min (stop + SNIPPET_RADIUS) (length (utrim raw_text))) @
         (if stop + SNIPPET_RADIUS < length (utrim raw_text) then [ellipsis] else []))"
proof (cases "utrim raw_text = []")
  case True
  then show ?thesis
    by (intro exI [of _ 0]) (cases start_byte; simp add: build_snippet_for_range_def slice_def)
next
  case False
  let ?t = "utrim raw_text"
  let ?s = "snap_to_char_boundary ?t (min start_byte (ulen ?t))"
  let ?e = "snap_to_char_boundary ?t (min (max end_byte ?s) (ulen ?t))"
  have s: "is_char_boundary ?t ?s" "?s \<le> min start_byte (ulen ?t)" by (rule snap_boundary)+
  then have "?s \<le> ?e" by (intro snap_max) simp_all
  then have le: "chars_before ?t ?s \<le> chars_before ?t ?e"
    using s(1) snap_boundary(1) by (intro chars_before_mono) simp_all
  have "build_snippet_for_range raw_text start_byte end_byte =
      marked_slice ?t (chars_before ?t ?s - SNIPPET_RADIUS) (min (chars_before ?t ?e + SNIPPET_RADIUS) (length ?t))"
    using False s(1) snap_boundary(1) by (simp add: build_snippet_for_range_def count_prefix_def Let_def)
  note eq = this [unfolded marked_slice_window [OF le chars_before_le]]
  have bytes: "ulen (take (chars_before ?t ?s) ?t) = ?s" by (rule ulen_chars_before [OF s(1)])
  show ?thesis
  proof (intro exI conjI)
    show "chars_before ?t ?s \<le> chars_before ?t ?e" by (rule le)
    show "chars_before ?t ?e \<le> length ?t" by (rule chars_before_le)
    show "ulen (take (chars_before ?t ?s) ?t) = ?s" by (rule bytes)
    show "ulen (take (chars_before ?t ?e) ?t) =
        snap_to_char_boundary ?t (min (max end_byte (ulen (take (chars_before ?t ?s) ?t))) (ulen ?t))"
      unfolding bytes by (rule ulen_chars_before [OF snap_boundary(1)])
  qed (rule eq)
qed

section \<open>Queries are words\<close>

definition query_word :: "(uchar \<Rightarrow> bool) \<Rightarrow> ustring \<Rightarrow> bool" where
  "query_word alphanumeric w \<longleftrightarrow> w \<noteq> [] \<and> list_all (is_query_token_char alphanumeric) w"

lemma tokenize_loop_words:
  "list_all (query_word alphanumeric) tokens \<Longrightarrow> list_all (is_query_token_char alphanumeric) current \<Longrightarrow>
   list_all (query_word alphanumeric) (tokenize_loop alphanumeric s tokens current)"
proof (induction s arbitrary: tokens current)
  case Nil
  then show ?case by (simp add: query_word_def)
next
  case (Cons c s)
  show ?case
  proof (cases "is_query_token_char alphanumeric c")
    case True
    with Cons.prems Cons.IH [of tokens "current @ [c]"] show ?thesis by simp
  next
    case False
    with Cons.prems Cons.IH [of "if current \<noteq> [] then tokens @ [current] else tokens" "[]"] show ?thesis
      by (simp add: query_word_def)
  qed
qed

lemma tokenize_words: "list_all (query_word alphanumeric) (tokenize_query_terms alphanumeric s)"
  by (simp add: tokenize_query_terms_def tokenize_loop_words)

text \<open>Nothing of the query is lost but the separators.\<close>

lemma tokenize_loop_concat:
  "concat (tokenize_loop alphanumeric s tokens current) =
     concat tokens @ current @ filter (is_query_token_char alphanumeric) s"
proof (induction s arbitrary: tokens current)
  case (Cons c s)
  show ?case by (cases "is_query_token_char alphanumeric c") (simp_all add: Cons.IH)
qed simp

text \<open>
  Of the Unicode tables: lower case has no capital letters of ASCII left, and of the ASCII characters only letters and
  digits are alphanumeric. A word that is safe in a query has no ASCII characters but digits and small letters; the
  operators of the query language are written in capitals.
\<close>

definition ascii_alnum :: "uchar \<Rightarrow> bool" where
  "ascii_alnum c \<longleftrightarrow> 48 \<le> c \<and> c \<le> 57 \<or> 65 \<le> c \<and> c \<le> 90 \<or> 97 \<le> c \<and> c \<le> 122"

definition lower_ascii :: "ustring \<Rightarrow> ustring" where
  "lower_ascii s = map (\<lambda>c. if 65 \<le> c \<and> c \<le> 90 then c + 32 else c) s"

definition lower_case_ok :: "(ustring \<Rightarrow> ustring) \<Rightarrow> bool" where
  "lower_case_ok lc \<longleftrightarrow> (\<forall>s. \<forall>c \<in> set (lc s). \<not> (65 \<le> c \<and> c \<le> 90))"

definition alphanumeric_ok :: "(uchar \<Rightarrow> bool) \<Rightarrow> bool" where
  "alphanumeric_ok alphanumeric \<longleftrightarrow> (\<forall>c < 128. alphanumeric c \<longrightarrow> ascii_alnum c)"

definition safe_word :: "ustring \<Rightarrow> bool" where
  "safe_word w \<longleftrightarrow> w \<noteq> [] \<and> list_all (\<lambda>c. c < 128 \<longrightarrow> 48 \<le> c \<and> c \<le> 57 \<or> 97 \<le> c \<and> c \<le> 122) w"

definition fts_operators :: "ustring list" where
  "fts_operators = map ascii [''AND'', ''OR'', ''NOT'', ''NEAR'']"

lemma operators_unsafe: "w \<in> set fts_operators \<Longrightarrow> \<not> safe_word w"
proof -
  have "list_all (\<lambda>w. \<not> safe_word w) fts_operators" by code_simp
  then show "w \<in> set fts_operators \<Longrightarrow> \<not> safe_word w" by (simp add: list_all_iff)
qed

lemma lower_words_safe:
  assumes lower: "lower_case_ok lc" "alphanumeric_ok alphanumeric"
    and "query_word alphanumeric w" "set w \<subseteq> set (lc s)"
  shows "safe_word w"
  unfolding safe_word_def list_all_iff
proof (intro conjI ballI impI)
  show "w \<noteq> []" using assms(3) by (simp add: query_word_def)
  fix c assume c: "c \<in> set w" "c < 128"
  then have "is_query_token_char alphanumeric c" using assms(3) by (simp add: query_word_def list_all_iff)
  with c(2) have "ascii_alnum c" using lower(2) by (auto simp: is_query_token_char_def is_cjk_char_def alphanumeric_ok_def)
  moreover have "\<not> (65 \<le> c \<and> c \<le> 90)" using lower(1) c(1) assms(4) by (auto simp: lower_case_ok_def)
  ultimately show "48 \<le> c \<and> c \<le> 57 \<or> 97 \<le> c \<and> c \<le> 122" by (auto simp: ascii_alnum_def)
qed

text \<open>
  C29. A full-text query consists of words: whatever the user types, the query handed to the search engine is a list of
  words, each followed by the prefix operator and separated by blanks. The words have letters and digits only, their
  ASCII letters are small, and none is an operator of the query language (\<^verbatim>\<open>AND\<close>, \<^verbatim>\<open>OR\<close>, \<^verbatim>\<open>NOT\<close>,
  \<^verbatim>\<open>NEAR\<close>), so none can be injected. Together the words are all letters and digits of the normalised query.
\<close>

theorem fts_query_words:
  assumes "build_fts_query alphanumeric (plan_simple_query lc query) = Some q" "lower_case_ok lc" "alphanumeric_ok alphanumeric"
  shows "\<exists>tokens. tokens \<noteq> [] \<and> q = join_words (map (\<lambda>token. token @ ascii ''*'') tokens) \<and>
    list_all (query_word alphanumeric) tokens \<and> list_all safe_word tokens \<and> set tokens \<inter> set fts_operators = {} \<and>
    concat tokens = filter (is_query_token_char alphanumeric) (normalize_text lc (utrim query))"
proof -
  let ?n = "normalize_text lc (utrim query)"
  let ?tokens = "tokenize_query_terms alphanumeric ?n"
  have plan: "normalized_query (plan_simple_query lc query) = ?n"
    using assms(1) by (auto simp: plan_simple_query_def build_fts_query_def Let_def split: if_splits)
  have q: "?tokens \<noteq> []" "q = join_words (map (\<lambda>token. token @ ascii ''*'') ?tokens)"
    using assms(1) unfolding build_fts_query_def plan by (auto simp: Let_def split: if_splits)
  have all: "concat ?tokens = filter (is_query_token_char alphanumeric) ?n"
    using tokenize_loop_concat [of alphanumeric ?n "[]" "[]"] by (simp add: tokenize_query_terms_def)
  have "\<exists>s. ?n = lc s" unfolding normalize_text_def by blast
  then obtain s where s: "?n = lc s" by blast
  have safe: "safe_word w" if "w \<in> set ?tokens" for w
  proof (rule lower_words_safe [OF assms(2,3)])
    show "query_word alphanumeric w" using tokenize_words that by (auto simp: list_all_iff)
    have "set w \<subseteq> set (concat ?tokens)" using that by auto
    then have "set w \<subseteq> set ?n" unfolding all by auto
    then show "set w \<subseteq> set (lc s)" unfolding s .
  qed
  with q all tokenize_words [of alphanumeric ?n] operators_unsafe show ?thesis
    by (intro exI [of _ ?tokens] conjI) (auto simp: list_all_iff)
qed

text \<open>The query \<^verbatim>\<open>foo OR bar*)\<close> searches for the words, not with the operator.\<close>

lemma sample_fts_query:
  "build_fts_query ascii_alnum (plan_simple_query lower_ascii (ascii ''foo OR bar*)'')) =
     Some (ascii ''foo* or* bar*'')"
  by code_simp

theorem fts_query_words_witness:
  "\<exists>tokens. tokens \<noteq> [] \<and> ascii ''foo* or* bar*'' = join_words (map (\<lambda>token. token @ ascii ''*'') tokens) \<and>
    list_all (query_word ascii_alnum) tokens \<and> list_all safe_word tokens \<and> set tokens \<inter> set fts_operators = {} \<and>
    concat tokens = filter (is_query_token_char ascii_alnum) (normalize_text lower_ascii (utrim (ascii ''foo OR bar*)'')))"
proof (rule fts_query_words [OF sample_fts_query])
  show "lower_case_ok lower_ascii" by (auto simp: lower_case_ok_def lower_ascii_def)
  show "alphanumeric_ok ascii_alnum" by (simp add: alphanumeric_ok_def)
qed

end
