(* ===== verification/Indexer_Wikilink.thy ===== *)
theory Indexer_Wikilink
  imports Indexer_Text
begin

text \<open>
  Wikilinks of a note (\<^verbatim>\<open>crates/kuku-indexer/src/wikilink.rs\<close>): code spans and fenced code blocks are masked with
  blanks, and what remains is scanned for \<^verbatim>\<open>[[target]]\<close> and \<^verbatim>\<open>[[target|alias]]\<close>. The loops run over indices of the
  vector of characters, as in the code.
\<close>

section \<open>Characters and runs\<close>

definition carriage_return :: uchar where "carriage_return = 13"
definition backtick :: uchar where "backtick = 0x60"
definition tilde :: uchar where "tilde = 0x7E"
definition lbracket :: uchar where "lbracket = 0x5B"
definition rbracket :: uchar where "rbracket = 0x5D"
definition pipe_char :: uchar where "pipe_char = 0x7C"

lemmas char_defs = line_feed_def blank_char_def carriage_return_def backtick_def tilde_def lbracket_def rbracket_def
  pipe_char_def

definition mask_char :: "uchar \<Rightarrow> uchar" where
  "mask_char ch = (if ch = line_feed \<or> ch = carriage_return then ch else blank_char)"

function count_run :: "ustring \<Rightarrow> nat \<Rightarrow> uchar \<Rightarrow> nat" where
  "count_run chars idx needle =
     (if idx < length chars \<and> chars ! idx = needle then Suc (count_run chars (idx + 1) needle) else 0)"
  by pat_completeness auto
termination by (relation "measure (\<lambda>(chars, idx, _). length chars - idx)") auto

declare count_run.simps [simp del]

function find_backtick_run :: "ustring \<Rightarrow> nat \<Rightarrow> nat \<Rightarrow> nat option" where
  "find_backtick_run chars idx run_len =
     (if idx < length chars then
        if chars ! idx = backtick \<and> count_run chars idx backtick \<ge> run_len then Some idx
        else find_backtick_run chars (idx + 1) run_len
      else None)"
  by pat_completeness auto
termination by (relation "measure (\<lambda>(chars, idx, _). length chars - idx)") auto

declare find_backtick_run.simps [simp del]

section \<open>Masking code\<close>

definition at_line_start :: "ustring \<Rightarrow> nat \<Rightarrow> bool" where
  "at_line_start chars idx \<longleftrightarrow> idx = 0 \<or> (idx - 1 < length chars \<and> chars ! (idx - 1) = line_feed)"

definition detect_fence_start :: "ustring \<Rightarrow> nat \<Rightarrow> (uchar \<times> nat) option" where
  "detect_fence_start chars idx =
     (if idx \<ge> length chars then None
      else
        let ch = chars ! idx in
        if ch \<noteq> backtick \<and> ch \<noteq> tilde then None
        else if \<not> at_line_start chars idx then None
        else
          let run_len = count_run chars idx ch in
          if run_len < 3 then None else Some (ch, run_len))"

text \<open>The inner loop that masks the line of the closing fence.\<close>

function mask_line :: "ustring \<Rightarrow> nat \<Rightarrow> ustring \<Rightarrow> nat \<times> ustring" where
  "mask_line chars idx out =
     (if idx < length chars then
        let ch = chars ! idx;
            out = out @ [mask_char ch]
        in if ch = line_feed then (idx + 1, out) else mask_line chars (idx + 1) out
      else (idx, out))"
  by pat_completeness auto
termination by (relation "measure (\<lambda>(chars, idx, _). length chars - idx)") auto

declare mask_line.simps [simp del]

lemma mask_line_end [simp]: "\<not> idx < length chars \<Longrightarrow> mask_line chars idx out = (idx, out)"
  by (subst mask_line.simps) simp

function mask_fence_loop :: "ustring \<Rightarrow> nat \<Rightarrow> uchar \<Rightarrow> nat \<Rightarrow> nat \<Rightarrow> ustring \<Rightarrow> nat \<times> ustring" where
  "mask_fence_loop chars start fence_char fence_len idx out =
     (if idx < length chars then
        if idx \<noteq> start \<and> at_line_start chars idx \<and> count_run chars idx fence_char \<ge> fence_len
        then mask_line chars idx out
        else mask_fence_loop chars start fence_char fence_len (idx + 1) (out @ [mask_char (chars ! idx)])
      else (idx, out))"
  by pat_completeness auto
termination by (relation "measure (\<lambda>(chars, _, _, _, idx, _). length chars - idx)") auto

declare mask_fence_loop.simps [simp del]

lemma mask_fence_end [simp]: "\<not> idx < length chars \<Longrightarrow> mask_fence_loop chars start fc fl idx out = (idx, out)"
  by (subst mask_fence_loop.simps) simp

definition mask_fenced_block :: "ustring \<Rightarrow> nat \<Rightarrow> uchar \<Rightarrow> nat \<Rightarrow> ustring \<Rightarrow> nat \<times> ustring" where
  "mask_fenced_block chars start fence_char fence_len out =
     mask_fence_loop chars start fence_char fence_len start out"

text \<open>What the masking routines do: they append the masked text they pass.\<close>

lemma slice_step: "i < length xs \<Longrightarrow> i < j \<Longrightarrow> slice xs i j = xs ! i # slice xs (Suc i) j"
  by (simp only: slice_def Suc_diff_Suc [of i j, symmetric] Cons_nth_drop_Suc [of i xs, symmetric] take_Suc_Cons)

lemma slice_empty [simp]: "slice xs i i = []"
  by (simp add: slice_def)

lemma mask_line_masks:
  assumes "idx \<le> length chars"
  shows "\<exists>j. idx \<le> j \<and> j \<le> length chars \<and> (idx < length chars \<longrightarrow> idx < j) \<and>
    mask_line chars idx out = (j, out @ map mask_char (slice chars idx j))"
  using assms
proof (induction chars idx out rule: mask_line.induct)
  case (1 chars idx out)
  show ?case
  proof (cases "idx < length chars")
    case False
    with 1(2) show ?thesis by (intro exI [of _ idx]) simp
  next
    case in_range: True
    let ?out = "out @ [mask_char (chars ! idx)]"
    show ?thesis
    proof (cases "chars ! idx = line_feed")
      case True
      with in_range show ?thesis
        by (intro exI [of _ "idx + 1"]) (simp add: mask_line.simps [of chars idx] Let_def slice_step)
    next
      case False
      then obtain j where j: "idx + 1 \<le> j" "j \<le> length chars"
        "mask_line chars (idx + 1) ?out = (j, ?out @ map mask_char (slice chars (idx + 1) j))"
        using 1(1) [of "chars ! idx" ?out] in_range by auto
      with in_range False show ?thesis
        by (intro exI [of _ j]) (simp add: mask_line.simps [of chars idx] Let_def slice_step)
    qed
  qed
qed

lemma mask_fence_loop_masks:
  assumes "idx \<le> length chars"
  shows "\<exists>j. idx \<le> j \<and> j \<le> length chars \<and> (idx < length chars \<longrightarrow> idx < j) \<and>
    mask_fence_loop chars start fc fl idx out = (j, out @ map mask_char (slice chars idx j))"
  using assms
proof (induction chars start fc fl idx out rule: mask_fence_loop.induct)
  case (1 chars start fc fl idx out)
  show ?case
  proof (cases "idx < length chars")
    case False
    with 1(2) show ?thesis by (intro exI [of _ idx]) simp
  next
    case in_range: True
    let ?close = "idx \<noteq> start \<and> at_line_start chars idx \<and> fl \<le> count_run chars idx fc"
    show ?thesis
    proof (cases ?close)
      case True
      with in_range have "mask_fence_loop chars start fc fl idx out = mask_line chars idx out"
        by (simp add: mask_fence_loop.simps [of chars start fc fl idx])
      with mask_line_masks [OF 1(2), of out] show ?thesis by simp
    next
      case False
      let ?out = "out @ [mask_char (chars ! idx)]"
      obtain j where j: "idx + 1 \<le> j" "j \<le> length chars"
        "mask_fence_loop chars start fc fl (idx + 1) ?out = (j, ?out @ map mask_char (slice chars (idx + 1) j))"
        using 1(1) [OF in_range False] in_range by auto
      moreover have "mask_fence_loop chars start fc fl idx out = mask_fence_loop chars start fc fl (idx + 1) ?out"
        using in_range False by (subst mask_fence_loop.simps) auto
      ultimately show ?thesis using in_range by (intro exI [of _ j]) (simp add: slice_step)
    qed
  qed
qed

lemma find_backtick_run_Some:
  "find_backtick_run chars idx n = Some e \<Longrightarrow> idx \<le> e \<and> e < length chars \<and> n \<le> count_run chars e backtick"
  by (induction chars idx n rule: find_backtick_run.induct)
    (subst (asm) find_backtick_run.simps, fastforce split: if_splits)

lemma count_run_bound: "idx \<le> length chars \<Longrightarrow> idx + count_run chars idx c \<le> length chars"
  by (induction chars idx c rule: count_run.induct) (subst count_run.simps, auto)

lemma mask_fenced_block_masks:
  assumes "idx < length chars"
  shows "\<exists>j. idx < j \<and> j \<le> length chars \<and>
    mask_fenced_block chars idx fc fl out = (j, out @ map mask_char (slice chars idx j))"
  using mask_fence_loop_masks [of idx chars idx fc fl out] assms by (auto simp: mask_fenced_block_def)

lemma code_span_advances:
  assumes "chars ! idx = backtick" "idx < length chars"
    "find_backtick_run chars (idx + count_run chars idx backtick) (count_run chars idx backtick) = Some e"
  shows "idx < e + count_run chars idx backtick" "e + count_run chars idx backtick \<le> length chars"
proof -
  note e = find_backtick_run_Some [OF assms(3)]
  have "0 < count_run chars idx backtick" using assms(1,2) by (simp add: count_run.simps [of chars idx])
  with e show "idx < e + count_run chars idx backtick" by linarith
  show "e + count_run chars idx backtick \<le> length chars" using e count_run_bound [of e chars backtick] by linarith
qed

function mask_loop :: "ustring \<Rightarrow> nat \<Rightarrow> ustring \<Rightarrow> ustring" where
  "mask_loop chars idx out =
     (if idx < length chars then
        (case detect_fence_start chars idx of
           Some (fence_char, fence_len) \<Rightarrow>
             (case mask_fenced_block chars idx fence_char fence_len out of (idx', out) \<Rightarrow>
                mask_loop chars idx' out)
         | None \<Rightarrow>
             (let run_len = count_run chars idx backtick in
              case (if chars ! idx = backtick then find_backtick_run chars (idx + run_len) run_len else None) of
                Some e \<Rightarrow>
                  mask_loop chars (e + run_len) (out @ map mask_char (slice chars idx (e + run_len)))
              | None \<Rightarrow> mask_loop chars (idx + 1) (out @ [chars ! idx])))
      else out)"
  by pat_completeness auto
termination
proof (relation "measure (\<lambda>(chars, idx, _). length chars - idx)", goal_cases)
  case (3 chars idx out run_len e)
  then show ?case using code_span_advances [of chars idx e] by (auto split: if_splits)
next
  case (4 chars idx out p fc fl idx' out')
  then show ?case using mask_fenced_block_masks [of idx chars fc fl out] by auto
qed auto

declare mask_loop.simps [simp del]

definition mask_code_regions :: "ustring \<Rightarrow> ustring" where
  "mask_code_regions input = mask_loop input 0 []"

section \<open>Scanning for links\<close>

record extracted_wikilink =
  link_target :: ustring
  link_alias :: "ustring option"
  link_ordinal :: nat

definition finalize_candidate :: "ustring \<Rightarrow> ustring option \<Rightarrow> (ustring \<times> ustring option) option" where
  "finalize_candidate target alias =
     (let normalized_target = utrim target in
      if normalized_target = [] then None
      else
        let had_alias = (alias \<noteq> None);
            normalized_alias = Option.bind (map_option utrim alias) (\<lambda>value. if value \<noteq> [] then Some value else None)
        in if had_alias \<and> normalized_alias = None then None
           else Some (normalized_target, normalized_alias))"

text \<open>
  The inner loop from the position behind \<^verbatim>\<open>[[\<close>: it stops at \<^verbatim>\<open>]]\<close> with the first separator seen, or without a link
  at a line break or at the end of the text.
\<close>

datatype scan_outcome = Closed nat "nat option" | NotClosed

function scan_cursor :: "ustring \<Rightarrow> nat \<Rightarrow> nat option \<Rightarrow> scan_outcome" where
  "scan_cursor chars cursor separator =
     (if cursor + 1 < length chars then
        if chars ! cursor = line_feed \<or> chars ! cursor = carriage_return then NotClosed
        else if chars ! cursor = pipe_char \<and> separator = None then scan_cursor chars (cursor + 1) (Some cursor)
        else if chars ! cursor = rbracket \<and> chars ! (cursor + 1) = rbracket then Closed cursor separator
        else scan_cursor chars (cursor + 1) separator
      else NotClosed)"
  by pat_completeness auto
termination by (relation "measure (\<lambda>(chars, cursor, _). length chars - cursor)") auto

declare scan_cursor.simps [simp del]

lemma scan_cursor_Closed:
  "scan_cursor chars cursor separator = Closed c sep \<Longrightarrow>
     cursor \<le> c \<and> c + 1 < length chars \<and> chars ! c = rbracket \<and> chars ! (c + 1) = rbracket \<and>
     list_all (\<lambda>ch. ch \<noteq> line_feed \<and> ch \<noteq> carriage_return) (slice chars cursor c) \<and>
     (case sep of None \<Rightarrow> separator = None \<and> list_all (\<lambda>ch. ch \<noteq> pipe_char) (slice chars cursor c)
      | Some p \<Rightarrow> sep = separator \<or> separator = None \<and> cursor \<le> p \<and> p < c \<and> chars ! p = pipe_char)"
proof (induction chars cursor separator rule: scan_cursor.induct)
  case (1 chars cursor separator)
  note eq = 1(3) [unfolded scan_cursor.simps [of chars cursor separator]]
  then have range: "cursor + 1 < length chars" "chars ! cursor \<noteq> line_feed" "chars ! cursor \<noteq> carriage_return"
    by (auto split: if_splits)
  consider (pipe) "chars ! cursor = pipe_char" "separator = None"
    | (close) "\<not> (chars ! cursor = pipe_char \<and> separator = None)" "chars ! cursor = rbracket" "chars ! (cursor + 1) = rbracket"
    | (other) "\<not> (chars ! cursor = pipe_char \<and> separator = None)" "\<not> (chars ! cursor = rbracket \<and> chars ! (cursor + 1) = rbracket)"
    by blast
  then show ?case
  proof cases
    case pipe
    then have "scan_cursor chars (cursor + 1) (Some cursor) = Closed c sep" using eq range by simp
    from 1(1) [OF range(1) _ _ this] range pipe show ?thesis
      by (auto simp: slice_step split: option.splits)
  next
    case close
    then show ?thesis using eq range by (auto split: option.splits)
  next
    case other
    then have "scan_cursor chars (cursor + 1) separator = Closed c sep" using eq range by (auto split: if_splits)
    from 1(2) [OF range(1) _ other this] range other(1) show ?thesis
      by (auto simp: slice_step split: option.splits)
  qed
qed

definition push_candidate ::
  "ustring \<Rightarrow> ustring option \<Rightarrow> (ustring \<times> ustring option) list \<Rightarrow> (ustring \<times> ustring option) list" where
  "push_candidate target alias results =
     (case finalize_candidate target alias of Some link \<Rightarrow> results @ [link] | None \<Rightarrow> results)"

function scan_loop :: "ustring \<Rightarrow> nat \<Rightarrow> (ustring \<times> ustring option) list \<Rightarrow> (ustring \<times> ustring option) list" where
  "scan_loop chars idx results =
     (if idx + 1 < length chars then
        if chars ! idx \<noteq> lbracket \<or> chars ! (idx + 1) \<noteq> lbracket then scan_loop chars (idx + 1) results
        else
          let start = idx + 2 in
          (case scan_cursor chars start None of
             Closed cursor separator \<Rightarrow>
               let target_end = (case separator of Some pos \<Rightarrow> pos | None \<Rightarrow> cursor)
               in scan_loop chars (cursor + 2)
                    (push_candidate (slice chars start target_end)
                      (map_option (\<lambda>pos. slice chars (pos + 1) cursor) separator) results)
           | NotClosed \<Rightarrow> scan_loop chars (idx + 2) results)
      else results)"
  by pat_completeness auto
termination
  by (relation "measure (\<lambda>(chars, idx, _). length chars - idx)") (auto dest: scan_cursor_Closed)

declare scan_loop.simps [simp del]

definition scan_text_for_wikilinks :: "ustring \<Rightarrow> (ustring \<times> ustring option) list" where
  "scan_text_for_wikilinks input = scan_loop input 0 []"

definition extract_wikilinks :: "ustring \<Rightarrow> extracted_wikilink list" where
  "extract_wikilinks markdown =
     map (\<lambda>(n, (t, a)). \<lparr>link_target = t, link_alias = a, link_ordinal = n\<rparr>)
       (enumerate 0 (scan_text_for_wikilinks (mask_code_regions markdown)))"

section \<open>Masking keeps the text's shape\<close>

definition masked :: "uchar \<Rightarrow> uchar \<Rightarrow> bool" where
  "masked c d \<longleftrightarrow> d = c \<or> d = mask_char c"

lemma drop_slice: "i \<le> j \<Longrightarrow> j \<le> length xs \<Longrightarrow> drop i xs = slice xs i j @ drop j xs"
  by (simp add: slice_def) (metis add_diff_inverse_nat append_take_drop_id drop_drop leD add.commute)

lemma masked_refl [simp]: "masked c c"
  by (simp add: masked_def)

lemma masked_map: "list_all2 masked xs (map mask_char xs)"
  by (simp add: list_all2_conv_all_nth masked_def)

lemma mask_loop_masked:
  assumes "idx \<le> length chars"
  shows "\<exists>zs. mask_loop chars idx out = out @ zs \<and> list_all2 masked (drop idx chars) zs"
  using assms
proof (induction chars idx out rule: mask_loop.induct)
  case (1 chars idx out)
  let ?n = "count_run chars idx backtick"
  have rest: "\<exists>zs. w = out @ zs \<and> list_all2 masked (drop idx chars) zs"
    if "idx \<le> j" "j \<le> length chars" "list_all2 masked (slice chars idx j) ys"
      "\<exists>zs. w = (out @ ys) @ zs \<and> list_all2 masked (drop j chars) zs" for j ys w
    using that by (auto simp: drop_slice [OF that(1,2)] intro: list_all2_appendI)
  show ?case
  proof (cases "idx < length chars")
    case False
    then show ?thesis by (simp add: mask_loop.simps [of chars idx])
  next
    case in_range: True
    show ?thesis
    proof (cases "detect_fence_start chars idx")
      case (Some fence)
      obtain fc fl where fence: "fence = (fc, fl)" by (cases fence)
      obtain j where j: "idx < j" "j \<le> length chars"
        "mask_fenced_block chars idx fc fl out = (j, out @ map mask_char (slice chars idx j))"
        using mask_fenced_block_masks [OF in_range] by blast
      have "mask_loop chars idx out = mask_loop chars j (out @ map mask_char (slice chars idx j))"
        using in_range Some j(3) by (simp add: mask_loop.simps [of chars idx] fence)
      with 1(3) [OF in_range Some fence [symmetric] j(3) [symmetric]] j(1,2) masked_map show ?thesis by (intro rest [of j]) auto
    next
      case None
      define span where "span = (if chars ! idx = backtick then find_backtick_run chars (idx + ?n) ?n else None)"
      show ?thesis
      proof (cases span)
        case (Some e)
        then have bt: "chars ! idx = backtick" "find_backtick_run chars (idx + ?n) ?n = Some e"
          by (simp_all add: span_def split: if_splits)
        note adv = code_span_advances [OF bt(1) in_range bt(2)]
        have "mask_loop chars idx out = mask_loop chars (e + ?n) (out @ map mask_char (slice chars idx (e + ?n)))"
          using in_range None bt by (simp add: mask_loop.simps [of chars idx] Let_def)
        with 1(2) [OF in_range None refl Some [unfolded span_def]] adv masked_map show ?thesis
          by (intro rest [of "e + ?n"]) auto
      next
        case no_span: None
        have "mask_loop chars idx out = mask_loop chars (idx + 1) (out @ [chars ! idx])"
          using in_range None no_span by (simp add: mask_loop.simps [of chars idx] Let_def span_def)
        with 1(1) [OF in_range None refl no_span [unfolded span_def]] in_range show ?thesis
          by (intro rest [of "idx + 1" "[chars ! idx]"]) (auto simp: slice_step)
      qed
    qed
  qed
qed

lemma mask_code_regions_masked: "list_all2 masked input (mask_code_regions input)"
  using mask_loop_masked [of 0 input "[]"] by (auto simp: mask_code_regions_def)

text \<open>Masking makes no bracket, bar or line break, so one in the masked text stands at the same place in the text.\<close>

lemma masked_special: "masked c d \<Longrightarrow> d \<noteq> blank_char \<Longrightarrow> c = d"
  by (auto simp: masked_def mask_char_def split: if_splits)

lemma mask_code_regions_nth:
  assumes "i < length input" "mask_code_regions input ! i \<noteq> blank_char"
  shows "input ! i = mask_code_regions input ! i"
  using list_all2_nthD [OF mask_code_regions_masked assms(1)] assms(2) by (rule masked_special)

section \<open>Every link stands in the note\<close>

text \<open>
  A link stands at a position of a text: two opening brackets, what is shown between them and two closing brackets on
  the same line, and its target and alias are the trimmed parts around the separator.
\<close>

definition link_stands :: "ustring \<Rightarrow> ustring \<times> ustring option \<Rightarrow> nat \<Rightarrow> nat \<Rightarrow> bool" where
  "link_stands chars link i j \<longleftrightarrow>
     i + 2 \<le> j \<and> j + 1 < length chars \<and>
     chars ! i = lbracket \<and> chars ! (i + 1) = lbracket \<and> chars ! j = rbracket \<and> chars ! (j + 1) = rbracket \<and>
     list_all (\<lambda>c. c \<noteq> line_feed \<and> c \<noteq> carriage_return) (slice chars (i + 2) j) \<and>
     (case link of
        (t, None) \<Rightarrow> t = utrim (slice chars (i + 2) j) \<and> t \<noteq> []
      | (t, Some a) \<Rightarrow> t \<noteq> [] \<and> a \<noteq> [] \<and>
          (\<exists>p. i + 2 \<le> p \<and> p < j \<and> chars ! p = pipe_char \<and>
             t = utrim (slice chars (i + 2) p) \<and> a = utrim (slice chars (p + 1) j)))"

lemma push_candidate_cases:
  "push_candidate t a results = results \<or>
   (utrim t \<noteq> [] \<and> (case a of None \<Rightarrow> push_candidate t a results = results @ [(utrim t, None)]
     | Some a \<Rightarrow> utrim a \<noteq> [] \<and> push_candidate t (Some a) results = results @ [(utrim t, Some (utrim a))]))"
  by (auto simp: push_candidate_def finalize_candidate_def Let_def split: option.splits if_splits)

lemma candidate_stands:
  assumes closed: "scan_cursor chars (i + 2) None = Closed j sep"
    and brackets: "chars ! i = lbracket" "chars ! (i + 1) = lbracket"
    and all: "list_all (\<lambda>link. \<exists>i j. link_stands chars link i j) results"
  shows "list_all (\<lambda>link. \<exists>i j. link_stands chars link i j)
    (push_candidate (slice chars (i + 2) (case sep of Some pos \<Rightarrow> pos | None \<Rightarrow> j))
      (map_option (\<lambda>pos. slice chars (pos + 1) j) sep) results)" (is "list_all ?P (push_candidate ?t ?a results)")
proof -
  note c = scan_cursor_Closed [OF closed]
  have "link_stands chars (utrim ?t, map_option utrim ?a) i j"
    if "utrim ?t \<noteq> []" "pred_option (\<lambda>a. utrim a \<noteq> []) ?a"
    using that c brackets by (cases sep) (auto simp: link_stands_def)
  then have "?P (utrim ?t, map_option utrim ?a)" if "utrim ?t \<noteq> []" "pred_option (\<lambda>a. utrim a \<noteq> []) ?a"
    using that by blast
  with push_candidate_cases [of ?t ?a results] all show ?thesis
    by (cases sep) auto
qed

lemma scan_loop_stands:
  "list_all (\<lambda>link. \<exists>i j. link_stands chars link i j) results \<Longrightarrow>
   list_all (\<lambda>link. \<exists>i j. link_stands chars link i j) (scan_loop chars idx results)"
proof (induction chars idx results rule: scan_loop.induct)
  case (1 chars idx results)
  show ?case
  proof (cases "idx + 1 < length chars \<and> chars ! idx = lbracket \<and> chars ! (idx + 1) = lbracket")
    case False
    with 1(1) 1(4) show ?thesis by (subst scan_loop.simps) auto
  next
    case opened: True
    show ?thesis
    proof (cases "scan_cursor chars (idx + 2) None")
      case (Closed j sep)
      note 1(2) [OF _ _ refl Closed refl candidate_stands [OF Closed _ _ 1(4)]]
      with opened Closed show ?thesis by (subst scan_loop.simps) (simp add: Let_def)
    next
      case NotClosed
      with opened 1(3) [OF _ _ refl NotClosed 1(4)] show ?thesis by (subst scan_loop.simps) (simp add: Let_def)
    qed
  qed
qed

lemma length_mask_code_regions [simp]: "length (mask_code_regions input) = length input"
  using mask_code_regions_masked [THEN list_all2_lengthD] by simp

lemma bracket_not_blank [simp]: "lbracket \<noteq> blank_char" "rbracket \<noteq> blank_char"
  by (simp_all add: char_defs)

lemma link_stands_brackets:
  assumes "link_stands (mask_code_regions markdown) link i j"
  shows "markdown ! i = lbracket \<and> markdown ! (i + 1) = lbracket \<and> markdown ! j = rbracket \<and> markdown ! (j + 1) = rbracket"
  using assms mask_code_regions_nth [of i markdown] mask_code_regions_nth [of "i + 1" markdown]
    mask_code_regions_nth [of j markdown] mask_code_regions_nth [of "j + 1" markdown]
  by (simp add: link_stands_def)

text \<open>
  Every wikilink of a note stands in it: masking keeps the number of characters and changes none but to a blank, in
  particular no line break; each link is opened and closed by the brackets of the note itself, on one line, its target
  (never blank) and its alias (never blank) are what stands there once code is masked, and the links are numbered
  consecutively.
\<close>

theorem wikilinks_stand:
  "list_all2 masked markdown (mask_code_regions markdown) \<and>
   list_all (\<lambda>link. \<exists>i j. link_stands (mask_code_regions markdown) (link_target link, link_alias link) i j \<and>
       markdown ! i = lbracket \<and> markdown ! (i + 1) = lbracket \<and>
       markdown ! j = rbracket \<and> markdown ! (j + 1) = rbracket) (extract_wikilinks markdown) \<and>
   map link_ordinal (extract_wikilinks markdown) = [0..<length (extract_wikilinks markdown)]"
proof (intro conjI)
  let ?links = "scan_text_for_wikilinks (mask_code_regions markdown)"
  have "list_all (\<lambda>link. \<exists>i j. link_stands (mask_code_regions markdown) link i j) ?links"
    unfolding scan_text_for_wikilinks_def by (rule scan_loop_stands) simp
  then have "\<exists>i j. link_stands (mask_code_regions markdown) (t, a) i j" if "(t, a) \<in> set ?links" for t a
    using that by (auto simp: list_all_iff)
  then have "\<exists>i j. link_stands (mask_code_regions markdown) (t, a) i j \<and> markdown ! i = lbracket \<and>
      markdown ! (i + 1) = lbracket \<and> markdown ! j = rbracket \<and> markdown ! (j + 1) = rbracket"
    if "(t, a) \<in> set ?links" for t a
    using that link_stands_brackets by blast
  then show "list_all (\<lambda>link. \<exists>i j. link_stands (mask_code_regions markdown) (link_target link, link_alias link) i j \<and>
       markdown ! i = lbracket \<and> markdown ! (i + 1) = lbracket \<and>
       markdown ! j = rbracket \<and> markdown ! (j + 1) = rbracket) (extract_wikilinks markdown)"
    by (auto simp: extract_wikilinks_def list_all_iff in_set_enumerate_eq dest!: nth_mem)
  show "map link_ordinal (extract_wikilinks markdown) = [0..<length (extract_wikilinks markdown)]"
    by (simp add: extract_wikilinks_def case_prod_beta comp_def)
qed (rule mask_code_regions_masked)

section \<open>What is written is found\<close>

text \<open>
  A note written from pieces: plain text without brackets and fences, code spans and fenced blocks with any text, links.
  The links found are those written as pieces, in order; what looks like a link inside code is not one.
\<close>

datatype piece = Plain ustring | Code_Span ustring | Fenced ustring | Wikilink ustring "ustring option"

definition fence_line :: ustring where
  "fence_line = [line_feed, backtick, backtick, backtick, line_feed]"

fun render :: "piece \<Rightarrow> ustring" where
  "render (Plain s) = s"
| "render (Code_Span s) = backtick # s @ [backtick]"
| "render (Fenced s) = fence_line @ s @ fence_line"
| "render (Wikilink t None) = [lbracket, lbracket] @ t @ [rbracket, rbracket]"
| "render (Wikilink t (Some a)) = [lbracket, lbracket] @ t @ pipe_char # a @ [rbracket, rbracket]"

definition no_code :: "uchar \<Rightarrow> bool" where
  "no_code c \<longleftrightarrow> c \<noteq> backtick \<and> c \<noteq> tilde"

definition link_char :: "uchar \<Rightarrow> bool" where
  "link_char c \<longleftrightarrow> no_code c \<and> c \<noteq> rbracket \<and> c \<noteq> pipe_char \<and> c \<noteq> line_feed \<and> c \<noteq> carriage_return"

definition link_text :: "ustring \<Rightarrow> bool" where
  "link_text s \<longleftrightarrow> s \<noteq> [] \<and> utrim s = s \<and> list_all link_char s"

fun piece_ok :: "piece \<Rightarrow> bool" where
  "piece_ok (Plain s) = list_all (\<lambda>c. no_code c \<and> c \<noteq> lbracket) s"
| "piece_ok (Code_Span s) = (s \<noteq> [] \<and> list_all (\<lambda>c. c \<noteq> backtick) s)"
| "piece_ok (Fenced s) = list_all (\<lambda>c. c \<noteq> backtick) s"
| "piece_ok (Wikilink t None) = link_text t"
| "piece_ok (Wikilink t (Some a)) = (link_text t \<and> link_text a)"

text \<open>What masking leaves of a piece, and the links of the pieces.\<close>

fun blanked :: "piece \<Rightarrow> ustring" where
  "blanked (Code_Span s) = map mask_char (render (Code_Span s))"
| "blanked (Fenced s) = map mask_char (render (Fenced s))"
| "blanked p = render p"

fun piece_links :: "piece \<Rightarrow> (ustring \<times> ustring option) list" where
  "piece_links (Wikilink t a) = [(t, a)]"
| "piece_links p = []"

subsection \<open>Masking pieces\<close>

lemma nth_here [simp]: "(pre @ c # rest) ! length pre = c"
  by simp

lemma count_run_here:
  "count_run (pre @ s) (length pre) c = length (takeWhile (\<lambda>d. d = c) s)"
proof (induction s arbitrary: pre)
  case Nil
  then show ?case by (simp add: count_run.simps)
next
  case (Cons d s)
  have "count_run (pre @ d # s) (length pre) c = (if d = c then Suc (count_run ((pre @ [d]) @ s) (length (pre @ [d])) c) else 0)"
    by (subst count_run.simps) simp
  then show ?case by (simp only: Cons.IH) simp
qed

lemma mask_loop_plain:
  "list_all no_code w \<Longrightarrow>
   mask_loop (pre @ w @ rest) (length pre) out = mask_loop (pre @ w @ rest) (length (pre @ w)) (out @ w)"
proof (induction w arbitrary: pre out)
  case (Cons c w)
  let ?chars = "pre @ (c # w) @ rest"
  have "mask_loop ?chars (length pre) out = mask_loop ?chars (length pre + 1) (out @ [c])"
    using Cons.prems by (subst mask_loop.simps) (simp add: detect_fence_start_def no_code_def)
  also have "\<dots> = mask_loop ((pre @ [c]) @ w @ rest) (length (pre @ [c])) (out @ [c])" by simp
  also have "\<dots> = mask_loop ((pre @ [c]) @ w @ rest) (length ((pre @ [c]) @ w)) ((out @ [c]) @ w)"
    using Cons.prems by (intro Cons.IH) simp
  finally show ?case by simp
qed simp

lemma find_backtick_here:
  "list_all (\<lambda>c. c \<noteq> backtick) w \<Longrightarrow>
   find_backtick_run (pre @ w @ backtick # rest) (length pre) (Suc 0) = Some (length (pre @ w))"
proof (induction w arbitrary: pre)
  case Nil
  show ?case by (subst find_backtick_run.simps) (simp add: count_run_here)
next
  case (Cons c w)
  have "find_backtick_run (pre @ (c # w) @ backtick # rest) (length pre) (Suc 0) =
      find_backtick_run ((pre @ [c]) @ w @ backtick # rest) (length (pre @ [c])) (Suc 0)"
    using Cons.prems by (subst find_backtick_run.simps) simp
  also have "\<dots> = Some (length ((pre @ [c]) @ w))" using Cons.prems by (intro Cons.IH) simp
  finally show ?case by simp
qed

lemma mask_loop_code_span:
  assumes "w \<noteq> []" "list_all (\<lambda>c. c \<noteq> backtick) w"
  shows "mask_loop (pre @ render (Code_Span w) @ rest) (length pre) out =
    mask_loop (pre @ render (Code_Span w) @ rest) (length (pre @ render (Code_Span w))) (out @ map mask_char (render (Code_Span w)))"
proof -
  let ?chars = "pre @ backtick # w @ backtick # rest"
  have one: "count_run ?chars (length pre) backtick = Suc 0"
    using assms by (cases w) (simp_all add: count_run_here [of pre, simplified])
  have "find_backtick_run ?chars (length pre + 1) (Suc 0) = Some (length pre + 1 + length w)"
    using find_backtick_here [OF assms(2), of "pre @ [backtick]" rest] by simp
  then show ?thesis using one
    by (subst mask_loop.simps) (simp add: detect_fence_start_def Let_def slice_def)
qed

text \<open>A fenced block: three marks open it, a text without marks is passed, and the line of the closing marks ends it.\<close>

lemma mask_fence_pass:
  assumes "list_all (\<lambda>c. c \<noteq> fc) w" "0 < fl"
  shows "mask_fence_loop (pre @ w @ rest) start fc fl (length pre) out =
    mask_fence_loop (pre @ w @ rest) start fc fl (length (pre @ w)) (out @ map mask_char w)"
  using assms(1)
proof (induction w arbitrary: pre out)
  case (Cons c w)
  have "count_run (pre @ (c # w) @ rest) (length pre) fc = 0"
    using Cons.prems by (simp add: count_run_here [of pre "c # w @ rest", simplified])
  then have "mask_fence_loop (pre @ (c # w) @ rest) start fc fl (length pre) out =
      mask_fence_loop ((pre @ [c]) @ w @ rest) start fc fl (length (pre @ [c])) (out @ [mask_char c])"
    using assms(2) by (subst mask_fence_loop.simps) simp
  also have "\<dots> = mask_fence_loop ((pre @ [c]) @ w @ rest) start fc fl (length ((pre @ [c]) @ w))
      ((out @ [mask_char c]) @ map mask_char w)"
    using Cons.prems by (intro Cons.IH) simp
  finally show ?case by simp
qed simp

lemma mask_line_here:
  "list_all (\<lambda>c. c \<noteq> line_feed) w \<Longrightarrow>
   mask_line (pre @ w @ line_feed # rest) (length pre) out =
     (length (pre @ w) + 1, out @ map mask_char (w @ [line_feed]))"
proof (induction w arbitrary: pre out)
  case Nil
  show ?case by (subst mask_line.simps) (simp add: Let_def)
next
  case (Cons c w)
  have "mask_line (pre @ (c # w) @ line_feed # rest) (length pre) out =
      mask_line ((pre @ [c]) @ w @ line_feed # rest) (length (pre @ [c])) (out @ [mask_char c])"
    using Cons.prems by (subst mask_line.simps) (simp add: Let_def)
  also have "\<dots> = (length ((pre @ [c]) @ w) + 1, (out @ [mask_char c]) @ map mask_char (w @ [line_feed]))"
    using Cons.prems by (intro Cons.IH) simp
  finally show ?case by simp
qed

lemma mask_fence_step:
  assumes "length pre = start \<or> (\<exists>q b. pre = q @ [b] \<and> b \<noteq> line_feed)"
  shows "mask_fence_loop (pre @ c # rest) start fc fl (length pre) out =
    mask_fence_loop ((pre @ [c]) @ rest) start fc fl (length (pre @ [c])) (out @ [mask_char c])"
  using assms by (subst mask_fence_loop.simps) (auto simp: at_line_start_def nth_append)

lemma marks_not_newline: "backtick \<noteq> line_feed" "line_feed \<noteq> backtick" "line_feed \<noteq> tilde"
  by (simp_all add: char_defs)

lemma mask_fence_block:
  assumes "list_all (\<lambda>c. c \<noteq> backtick) w"
  shows "mask_fence_loop (pre @ [backtick, backtick, backtick, line_feed] @ w @ fence_line @ rest) (length pre) backtick 3
      (length pre) out =
    (length (pre @ [backtick, backtick, backtick, line_feed] @ w @ fence_line),
     out @ map mask_char ([backtick, backtick, backtick, line_feed] @ w @ fence_line))"
proof -
  let ?b = backtick
  let ?body = "line_feed # w @ [line_feed]"
  let ?close = "[?b, ?b, ?b]"
  let ?p = "pre @ ?close"
  let ?chars = "?p @ ?body @ ?close @ line_feed # rest"
  have "mask_fence_loop ?chars (length pre) ?b 3 (length pre) out =
      mask_fence_loop ?chars (length pre) ?b 3 (length ?p) (out @ map mask_char ?close)"
    using mask_fence_step [of pre "length pre" ?b "?b # ?b # ?body @ ?close @ line_feed # rest" ?b 3 out]
      mask_fence_step [of "pre @ [?b]" "length pre" ?b "?b # ?body @ ?close @ line_feed # rest" ?b 3 "out @ [mask_char ?b]"]
      mask_fence_step [of "pre @ [?b, ?b]" "length pre" ?b "?body @ ?close @ line_feed # rest" ?b 3 "out @ [mask_char ?b, mask_char ?b]"]
    by (simp add: marks_not_newline)
  also have "\<dots> = mask_fence_loop ?chars (length pre) ?b 3 (length (?p @ ?body)) (out @ map mask_char ?close @ map mask_char ?body)"
    using mask_fence_pass [of ?b ?body 3 ?p "?close @ line_feed # rest" "length pre" "out @ map mask_char ?close"] assms
    by (simp add: marks_not_newline)
  also have "\<dots> = mask_line ((?p @ ?body) @ ?close @ line_feed # rest) (length (?p @ ?body)) (out @ map mask_char ?close @ map mask_char ?body)"
  proof -
    have "at_line_start ?chars (length (?p @ ?body))"
      by (simp add: at_line_start_def nth_append)
    moreover have "count_run ((?p @ ?body) @ ?close @ line_feed # rest) (length (?p @ ?body)) ?b = 3"
      by (subst count_run_here) (simp add: marks_not_newline)
    ultimately show ?thesis by (subst mask_fence_loop.simps) simp
  qed
  also have "\<dots> = (length ((?p @ ?body) @ ?close) + 1,
      (out @ map mask_char ?close @ map mask_char ?body) @ map mask_char (?close @ [line_feed]))"
    by (rule mask_line_here) (simp add: marks_not_newline)
  finally show ?thesis by (simp add: fence_line_def)
qed

lemma mask_loop_fenced:
  assumes "list_all (\<lambda>c. c \<noteq> backtick) w"
  shows "mask_loop (pre @ render (Fenced w) @ rest) (length pre) out =
    mask_loop (pre @ render (Fenced w) @ rest) (length (pre @ render (Fenced w))) (out @ map mask_char (render (Fenced w)))"
proof -
  let ?open = "[backtick, backtick, backtick, line_feed]"
  let ?p = "pre @ [line_feed]"
  let ?chars = "?p @ ?open @ w @ fence_line @ rest"
  have "mask_loop ?chars (length pre) out = mask_loop ?chars (length ?p) (out @ [line_feed])"
    using mask_loop_plain [of "[line_feed]" pre "?open @ w @ fence_line @ rest" out] by (simp add: no_code_def marks_not_newline)
  moreover have "detect_fence_start ?chars (length ?p) = Some (backtick, 3)"
  proof -
    have "count_run ?chars (length ?p) backtick = 3" by (subst count_run_here) (simp add: marks_not_newline)
    then show ?thesis by (simp add: detect_fence_start_def at_line_start_def nth_append)
  qed
  ultimately show ?thesis
    using mask_fence_block [OF assms, of ?p rest "out @ [line_feed]"]
    by (subst (asm) (2) mask_loop.simps) (simp add: mask_fenced_block_def fence_line_def mask_char_def)
qed

lemma link_no_code: "link_text t \<Longrightarrow> list_all no_code t"
  by (auto simp: link_text_def link_char_def list_all_iff)

lemma bracket_no_code: "no_code lbracket" "no_code rbracket" "no_code pipe_char"
  by (simp_all add: no_code_def char_defs)

lemma mask_loop_piece:
  assumes "piece_ok p"
  shows "mask_loop (pre @ render p @ rest) (length pre) out =
    mask_loop (pre @ render p @ rest) (length (pre @ render p)) (out @ blanked p)"
proof (cases p)
  case (Plain s)
  with assms mask_loop_plain [of s pre rest out] show ?thesis by (simp add: list_all_iff)
next
  case (Code_Span s)
  with assms mask_loop_code_span show ?thesis by simp
next
  case (Fenced s)
  with assms mask_loop_fenced show ?thesis by simp
next
  case (Wikilink t a)
  have "list_all no_code (render (Wikilink t a))"
    using assms Wikilink by (cases a) (simp_all add: link_no_code bracket_no_code)
  from mask_loop_plain [OF this] show ?thesis by (simp add: Wikilink)
qed

lemma mask_loop_pieces:
  "list_all piece_ok ps \<Longrightarrow>
   mask_loop (pre @ concat (map render ps)) (length pre) out = out @ concat (map blanked ps)"
proof (induction ps arbitrary: pre out)
  case Nil
  show ?case by (subst mask_loop.simps) simp
next
  case (Cons p ps)
  have "mask_loop (pre @ concat (map render (p # ps))) (length pre) out =
      mask_loop ((pre @ render p) @ concat (map render ps)) (length (pre @ render p)) (out @ blanked p)"
    using mask_loop_piece [of p pre "concat (map render ps)" out] Cons.prems by simp
  also have "\<dots> = (out @ blanked p) @ concat (map blanked ps)" using Cons.prems by (intro Cons.IH) simp
  finally show ?case by simp
qed

subsection \<open>Scanning pieces\<close>

lemma scan_loop_end: "\<not> idx + 1 < length chars \<Longrightarrow> scan_loop chars idx results = results"
  by (subst scan_loop.simps) simp

lemma scan_loop_plain:
  "list_all (\<lambda>c. c \<noteq> lbracket) w \<Longrightarrow>
   scan_loop (pre @ w @ rest) (length pre) results = scan_loop (pre @ w @ rest) (length (pre @ w)) results"
proof (induction w arbitrary: pre)
  case (Cons c w)
  have "scan_loop (pre @ (c # w) @ rest) (length pre) results = scan_loop ((pre @ [c]) @ w @ rest) (length (pre @ [c])) results"
    using Cons.prems by (cases "w @ rest = []") (simp_all add: scan_loop_end, subst scan_loop.simps, simp)
  also have "\<dots> = scan_loop ((pre @ [c]) @ w @ rest) (length ((pre @ [c]) @ w)) results"
    using Cons.prems by (intro Cons.IH) simp
  finally show ?case by simp
qed simp

lemma scan_cursor_text:
  "list_all (\<lambda>c. c \<noteq> line_feed \<and> c \<noteq> carriage_return \<and> c \<noteq> rbracket \<and> c \<noteq> pipe_char) w \<Longrightarrow> rest \<noteq> [] \<Longrightarrow>
   scan_cursor (pre @ w @ rest) (length pre) sep = scan_cursor (pre @ w @ rest) (length (pre @ w)) sep"
proof (induction w arbitrary: pre)
  case (Cons c w)
  have "scan_cursor (pre @ (c # w) @ rest) (length pre) sep = scan_cursor ((pre @ [c]) @ w @ rest) (length (pre @ [c])) sep"
    using Cons.prems by (subst scan_cursor.simps) simp
  also have "\<dots> = scan_cursor ((pre @ [c]) @ w @ rest) (length ((pre @ [c]) @ w)) sep"
    using Cons.prems by (intro Cons.IH) simp_all
  finally show ?case by simp
qed simp

lemma link_text_scan:
  "link_text w \<Longrightarrow> list_all (\<lambda>c. c \<noteq> line_feed \<and> c \<noteq> carriage_return \<and> c \<noteq> rbracket \<and> c \<noteq> pipe_char) w"
  by (auto simp: link_text_def link_char_def list_all_iff)

lemma scan_cursor_close:
  "scan_cursor (pre @ rbracket # rbracket # rest) (length pre) sep = Closed (length pre) sep"
  by (subst scan_cursor.simps) (simp add: nth_append char_defs)

lemma scan_cursor_pipe:
  "rest \<noteq> [] \<Longrightarrow> scan_cursor (pre @ pipe_char # rest) (length pre) None =
     scan_cursor ((pre @ [pipe_char]) @ rest) (length (pre @ [pipe_char])) (Some (length pre))"
  by (subst scan_cursor.simps) (simp add: char_defs)

lemma scan_cursor_link:
  assumes "link_text t"
  shows "scan_cursor (pre @ t @ rbracket # rbracket # rest) (length pre) None = Closed (length (pre @ t)) None"
  using scan_cursor_text [OF link_text_scan [OF assms], of "rbracket # rbracket # rest" pre None]
    scan_cursor_close [of "pre @ t" rest None] by simp

lemma scan_cursor_link_alias:
  assumes "link_text t" "link_text a"
  shows "scan_cursor (pre @ t @ pipe_char # a @ rbracket # rbracket # rest) (length pre) None =
    Closed (length (pre @ t @ pipe_char # a)) (Some (length (pre @ t)))"
  using scan_cursor_text [OF link_text_scan [OF assms(1)], of "pipe_char # a @ rbracket # rbracket # rest" pre None]
    scan_cursor_pipe [of "a @ rbracket # rbracket # rest" "pre @ t"]
    scan_cursor_text [OF link_text_scan [OF assms(2)], of "rbracket # rbracket # rest" "pre @ t @ [pipe_char]" "Some (length (pre @ t))"]
    scan_cursor_close [of "pre @ t @ pipe_char # a" rest "Some (length (pre @ t))"] by simp

lemma slice_here: "slice (pre @ w @ rest) (length pre) (length pre + length w) = w"
  by (simp add: slice_def)

lemma push_link: "link_text t \<Longrightarrow> pred_option link_text a \<Longrightarrow> push_candidate t a results = results @ [(t, a)]"
  by (cases a) (auto simp: push_candidate_def finalize_candidate_def link_text_def)

lemma scan_loop_link:
  assumes "link_text t" "pred_option link_text a"
  shows "scan_loop (pre @ render (Wikilink t a) @ rest) (length pre) results =
    scan_loop (pre @ render (Wikilink t a) @ rest) (length (pre @ render (Wikilink t a))) (results @ [(t, a)])"
proof (cases a)
  case None
  let ?p = "pre @ [lbracket, lbracket]"
  let ?chars = "?p @ t @ rbracket # rbracket # rest"
  have "scan_loop ?chars (length pre) results = scan_loop ?chars (length (?p @ t) + 2) (push_candidate t None results)"
    using scan_cursor_link [OF assms(1), of ?p rest] slice_here [of ?p t "rbracket # rbracket # rest"]
    by (subst scan_loop.simps) (simp add: nth_append Let_def)
  with push_link [OF assms] None show ?thesis by simp
next
  case (Some b)
  let ?p = "pre @ [lbracket, lbracket]"
  let ?chars = "?p @ t @ pipe_char # b @ rbracket # rbracket # rest"
  have "link_text b" using assms(2) Some by simp
  then have "scan_loop ?chars (length pre) results =
      scan_loop ?chars (length (?p @ t @ pipe_char # b) + 2) (push_candidate t (Some b) results)"
    using scan_cursor_link_alias [OF assms(1), of b ?p rest] slice_here [of ?p t "pipe_char # b @ rbracket # rbracket # rest"]
      slice_here [of "?p @ t @ [pipe_char]" b "rbracket # rbracket # rest"]
    by (subst scan_loop.simps) (simp add: nth_append Let_def add.assoc)
  with push_link [OF assms] Some show ?thesis by simp
qed

lemma mask_no_bracket: "list_all (\<lambda>c. c \<noteq> lbracket) (map mask_char w)"
  by (auto simp: list_all_iff mask_char_def char_defs)

lemma scan_loop_piece:
  assumes "piece_ok p"
  shows "scan_loop (pre @ blanked p @ rest) (length pre) results =
    scan_loop (pre @ blanked p @ rest) (length (pre @ blanked p)) (results @ piece_links p)"
proof (cases p)
  case (Plain s)
  with assms scan_loop_plain [of s pre rest results] show ?thesis by (simp add: list_all_iff)
next
  case (Wikilink t a)
  with assms scan_loop_link [of t a pre rest results] show ?thesis by (cases a) simp_all
qed (use scan_loop_plain [OF mask_no_bracket, of pre "render p" rest results] in simp_all)

lemma scan_loop_pieces:
  "list_all piece_ok ps \<Longrightarrow>
   scan_loop (pre @ concat (map blanked ps)) (length pre) results = results @ concat (map piece_links ps)"
proof (induction ps arbitrary: pre results)
  case Nil
  show ?case by (simp add: scan_loop_end)
next
  case (Cons p ps)
  have "scan_loop (pre @ concat (map blanked (p # ps))) (length pre) results =
      scan_loop ((pre @ blanked p) @ concat (map blanked ps)) (length (pre @ blanked p)) (results @ piece_links p)"
    using scan_loop_piece [of p pre "concat (map blanked ps)" results] Cons.prems by simp
  also have "\<dots> = (results @ piece_links p) @ concat (map piece_links ps)" using Cons.prems by (intro Cons.IH) simp
  finally show ?case by simp
qed

text \<open>
  C25. What is written is found: from a note composed of plain text, code spans, fenced blocks and wikilinks, exactly the
  wikilinks are extracted, with their targets and aliases and in their order; nothing inside code is taken for a link,
  whatever it contains.
\<close>

theorem written_wikilinks_found:
  assumes "list_all piece_ok ps"
  shows "map (\<lambda>link. (link_target link, link_alias link)) (extract_wikilinks (concat (map render ps))) =
    concat (map piece_links ps)"
proof -
  have "scan_text_for_wikilinks (mask_code_regions (concat (map render ps))) = concat (map piece_links ps)"
    using mask_loop_pieces [OF assms, of "[]" "[]"] scan_loop_pieces [OF assms, of "[]" "[]"]
    by (simp add: scan_text_for_wikilinks_def mask_code_regions_def)
  then show ?thesis
    by (simp add: extract_wikilinks_def case_prod_beta comp_def)
qed

definition sample_link_pieces :: "piece list" where
  "sample_link_pieces = [Code_Span (ascii ''[[InlineCode]]''), Plain (ascii '' see ''), Wikilink (ascii ''Alpha'') None,
     Fenced (ascii ''[[CodeBlock]]''), Wikilink (ascii ''Beta'') (Some (ascii ''Display'')), Plain (ascii ''.'')]"

theorem written_wikilinks_found_witness:
  "map (\<lambda>link. (link_target link, link_alias link)) (extract_wikilinks (concat (map render sample_link_pieces))) =
    [(ascii ''Alpha'', None), (ascii ''Beta'', Some (ascii ''Display''))]"
proof -
  have "list_all piece_ok sample_link_pieces" by code_simp
  from written_wikilinks_found [OF this] show ?thesis by (simp add: sample_link_pieces_def)
qed

end
