(* ===== verification/Indexer_Document.thy ===== *)
theory Indexer_Document
  imports Indexer_Wikilink Rust_Std
begin

text \<open>
  The extraction of a note for the search index (\<^verbatim>\<open>crates/kuku-indexer/src/extract.rs\<close>): the front matter is split
  off and flattened, the events of the Markdown parser drive a buffer of the current block, and each block's text becomes
  chunks of the section under the last heading. The Markdown parser (\<^verbatim>\<open>pulldown_cmark\<close>) and the YAML library are
  parameters: a function from the body to its events, one from the text to a value, and one that prints a value.
\<close>

section \<open>Values of the libraries\<close>

datatype md_tag = Tag_Paragraph | Tag_Heading nat | Tag_CodeBlock "ustring option" | Tag_BlockQuote | Tag_Item
  | Tag_TableRow | Tag_Other

datatype md_tag_end = End_Paragraph | End_Heading | End_CodeBlock | End_BlockQuote | End_Item | End_TableRow | End_Other

datatype md_event = Ev_Start md_tag | Ev_End md_tag_end | Ev_Text ustring | Ev_Code ustring | Ev_SoftBreak
  | Ev_HardBreak | Ev_Rule | Ev_Other

text \<open>A number of YAML is here the text it prints as.\<close>

datatype yaml = YNull | YBool bool | YNumber ustring | YString ustring | YSequence "yaml list"
  | YMapping "(yaml \<times> yaml) list" | YTagged ustring yaml

fun yaml_as_str :: "yaml \<Rightarrow> ustring option" where
  "yaml_as_str (YString s) = Some s"
| "yaml_as_str (YTagged t v) = yaml_as_str v"
| "yaml_as_str v = None"

section \<open>Documents\<close>

record frontmatter_entry =
  fm_key :: ustring
  fm_value :: ustring

datatype chunk_kind = Prose | Code_Chunk | Heading_Chunk

record extracted_chunk =
  chunk_kind :: chunk_kind
  chunk_text :: ustring
  chunk_raw :: ustring
  global_start :: nat
  global_end :: nat

record doc_section =
  sec_path :: "ustring list"
  sec_level :: nat
  sec_chunks :: "extracted_chunk list"

record extracted_document =
  doc_title :: "ustring option"
  doc_frontmatter :: "frontmatter_entry list"
  doc_sections :: "doc_section list"
  doc_wikilinks :: "extracted_wikilink list"
  doc_normalized_text :: ustring

datatype block_kind = BlockParagraph | BlockHeading nat | BlockCode | BlockQuote | BlockItem | BlockTableRow

record block_buffer =
  block_kind :: block_kind
  block_raw :: ustring

section \<open>Front matter\<close>

text \<open>\<^verbatim>\<open>str::lines\<close>: a line ends at a line feed, with the carriage return before it; no empty line behind the last one.\<close>

definition strip_cr :: "ustring \<Rightarrow> ustring" where
  "strip_cr s = (if s \<noteq> [] \<and> last s = carriage_return then butlast s else s)"

fun lines_from :: "ustring \<Rightarrow> ustring \<Rightarrow> ustring list" where
  "lines_from [] line = (if line = [] then [] else [line])"
| "lines_from (c # s) line =
     (if c = line_feed then strip_cr line # lines_from s [] else lines_from s (line @ [c]))"

definition ulines :: "ustring \<Rightarrow> ustring list" where
  "ulines s = lines_from s []"

fun join_lines :: "ustring list \<Rightarrow> ustring" where
  "join_lines [] = []"
| "join_lines [l] = l"
| "join_lines (l # ls) = l @ line_feed # join_lines ls"

definition FRONTMATTER_MAX_DEPTH :: nat where "FRONTMATTER_MAX_DEPTH = 32"

definition show_bool :: "bool \<Rightarrow> ustring" where
  "show_bool b = (if b then ascii ''true'' else ascii ''false'')"

definition scalar_value :: "(yaml \<Rightarrow> ustring option) \<Rightarrow> yaml \<Rightarrow> ustring" where
  "scalar_value to_string value =
     (case value of
        YNull \<Rightarrow> []
      | YBool v \<Rightarrow> show_bool v
      | YNumber v \<Rightarrow> v
      | YString v \<Rightarrow> v
      | _ \<Rightarrow> utrim (case to_string value of Some s \<Rightarrow> s | None \<Rightarrow> []))"

definition next_prefix :: "ustring \<Rightarrow> yaml \<Rightarrow> ustring" where
  "next_prefix prfx key =
     (let key = (case yaml_as_str key of Some k \<Rightarrow> k | None \<Rightarrow> []) in
      if prfx = [] then key else prfx @ ascii ''.'' @ key)"

fun flatten_yaml :: "(yaml \<Rightarrow> ustring option) \<Rightarrow> ustring \<Rightarrow> yaml \<Rightarrow> frontmatter_entry list \<Rightarrow> nat \<Rightarrow> frontmatter_entry list"
  and flatten_mapping ::
    "(yaml \<Rightarrow> ustring option) \<Rightarrow> ustring \<Rightarrow> (yaml \<times> yaml) list \<Rightarrow> frontmatter_entry list \<Rightarrow> nat \<Rightarrow> frontmatter_entry list"
  and flatten_sequence ::
    "(yaml \<Rightarrow> ustring option) \<Rightarrow> ustring \<Rightarrow> nat \<Rightarrow> yaml list \<Rightarrow> frontmatter_entry list \<Rightarrow> nat \<Rightarrow> frontmatter_entry list"
where
  "flatten_yaml to_string prfx value out depth =
     (if depth \<ge> FRONTMATTER_MAX_DEPTH then
        out @ [\<lparr>fm_key = prfx, fm_value = utrim (case to_string value of Some s \<Rightarrow> s | None \<Rightarrow> [])\<rparr>]
      else
        (case value of
           YMapping entries \<Rightarrow> flatten_mapping to_string prfx entries out (depth + 1)
         | YSequence seq \<Rightarrow> flatten_sequence to_string prfx 0 seq out (depth + 1)
         | _ \<Rightarrow> out @ [\<lparr>fm_key = prfx, fm_value = scalar_value to_string value\<rparr>]))"
| "flatten_mapping to_string prfx [] out depth = out"
| "flatten_mapping to_string prfx ((key, child) # rest) out depth =
     flatten_mapping to_string prfx rest (flatten_yaml to_string (next_prefix prfx key) child out depth) depth"
| "flatten_sequence to_string prfx idx [] out depth = out"
| "flatten_sequence to_string prfx idx (child # rest) out depth =
     flatten_sequence to_string prfx (idx + 1) rest
       (flatten_yaml to_string (prfx @ ascii ''['' @ ascii (show_nat idx) @ ascii '']'') child out depth) depth"

declare flatten_yaml.simps [simp del]

text \<open>The loop over the lines behind the first: what precedes the next \<^verbatim>\<open>---\<close> and what follows it.\<close>

fun split_front_lines :: "ustring list \<Rightarrow> bool \<Rightarrow> ustring list \<Rightarrow> ustring list \<Rightarrow> bool \<times> ustring list \<times> ustring list" where
  "split_front_lines [] in_fm yaml_lines body_lines = (in_fm, yaml_lines, body_lines)"
| "split_front_lines (line # rest) in_fm yaml_lines body_lines =
     (if in_fm \<and> line = ascii ''---'' then split_front_lines rest False yaml_lines body_lines
      else if in_fm then split_front_lines rest in_fm (yaml_lines @ [line]) body_lines
      else split_front_lines rest in_fm yaml_lines (body_lines @ [line]))"

definition split_frontmatter ::
  "(ustring \<Rightarrow> yaml option) \<Rightarrow> (yaml \<Rightarrow> ustring option) \<Rightarrow> ustring \<Rightarrow> frontmatter_entry list \<times> ustring" where
  "split_frontmatter from_str to_string markdown =
     (case ulines markdown of
        [] \<Rightarrow> ([], markdown)
      | first # rest \<Rightarrow>
          if first \<noteq> ascii ''---'' then ([], markdown)
          else
            (case split_front_lines rest True [] [] of (in_fm, yaml_lines, body_lines) \<Rightarrow>
               if in_fm then ([], markdown)
               else
                 ((case from_str (join_lines yaml_lines) of
                     Some value \<Rightarrow> flatten_yaml to_string [] value [] 0
                   | None \<Rightarrow> []),
                  join_lines body_lines)))"

section \<open>Sections and chunks\<close>

definition ensure_section :: "doc_section list \<Rightarrow> doc_section list" where
  "ensure_section sections =
     (if sections = [] then [\<lparr>sec_path = [], sec_level = 0, sec_chunks = []\<rparr>] else sections)"

definition push_chunk :: "extracted_chunk \<Rightarrow> doc_section list \<Rightarrow> doc_section list" where
  "push_chunk chunk sections =
     (let sections = ensure_section sections;
          sec = last sections
      in butlast sections @ [sec\<lparr>sec_chunks := sec_chunks sec @ [chunk]\<rparr>])"

fun append_parts ::
  "(ustring \<Rightarrow> ustring) \<Rightarrow> chunk_kind \<Rightarrow> ustring list \<Rightarrow> doc_section list \<times> nat \<Rightarrow> doc_section list \<times> nat" where
  "append_parts lc kind [] st = st"
| "append_parts lc kind (raw_part # parts) (sections, cursor) =
     (let normalized = normalize_text lc raw_part in
      if normalized = [] then append_parts lc kind parts (sections, cursor)
      else
        let start = cursor;
            stop = cursor + length raw_part
        in append_parts lc kind parts
             (push_chunk \<lparr>chunk_kind = kind, chunk_text = normalized, chunk_raw = raw_part,
                global_start = start, global_end = stop\<rparr> sections,
              stop + 1))"

definition append_chunk ::
  "(ustring \<Rightarrow> ustring) \<Rightarrow> chunk_kind \<Rightarrow> ustring \<Rightarrow> doc_section list \<times> nat \<Rightarrow> doc_section list \<times> nat" where
  "append_chunk lc kind raw_text st = append_parts lc kind (split_chunk_text raw_text) st"

text \<open>\<^verbatim>\<open>section_path_to_json\<close>: an object, in which a later entry replaces an earlier one of the same key.\<close>

fun section_path_to_json :: "frontmatter_entry list \<Rightarrow> (ustring \<rightharpoonup> ustring) \<Rightarrow> (ustring \<rightharpoonup> ustring)" where
  "section_path_to_json [] object = object"
| "section_path_to_json (entry # entries) object =
     section_path_to_json entries (object(fm_key entry \<mapsto> fm_value entry))"

section \<open>The loop over the events\<close>

record doc_state =
  title :: "ustring option"
  sections :: "doc_section list"
  heading_stack :: "ustring list"
  buffer :: "block_buffer option"
  cursor :: nat

definition flush_heading :: "nat \<Rightarrow> ustring \<Rightarrow> doc_state \<Rightarrow> doc_state" where
  "flush_heading level raw st =
     (let stack = take (level - 1) (heading_stack st) @ [raw] in
      st\<lparr>title := (case title st of None \<Rightarrow> Some raw | Some t \<Rightarrow> Some t),
         heading_stack := stack,
         sections := sections st @ [\<lparr>sec_path = stack, sec_level = level, sec_chunks = []\<rparr>]\<rparr>)"

definition with_chunks :: "(ustring \<Rightarrow> ustring) \<Rightarrow> chunk_kind \<Rightarrow> ustring \<Rightarrow> doc_state \<Rightarrow> doc_state" where
  "with_chunks lc kind raw st =
     (case append_chunk lc kind raw (sections st, cursor st) of (secs, cur) \<Rightarrow>
        st\<lparr>sections := secs, cursor := cur\<rparr>)"

definition flush_buffer :: "(ustring \<Rightarrow> ustring) \<Rightarrow> doc_state \<Rightarrow> doc_state" where
  "flush_buffer lc st =
     (case buffer st of
        None \<Rightarrow> st
      | Some block \<Rightarrow>
          let st = st\<lparr>buffer := None\<rparr>;
              raw = utrim (block_raw block)
          in if raw = [] then st
             else
               (case block_kind block of
                  BlockHeading level \<Rightarrow> with_chunks lc Heading_Chunk raw (flush_heading level raw st)
                | BlockCode \<Rightarrow> with_chunks lc Code_Chunk raw st
                | _ \<Rightarrow> with_chunks lc Prose raw st))"

fun start_buffer :: "md_tag \<Rightarrow> block_buffer option" where
  "start_buffer Tag_Paragraph = Some \<lparr>block_kind = BlockParagraph, block_raw = []\<rparr>"
| "start_buffer (Tag_Heading level) = Some \<lparr>block_kind = BlockHeading level, block_raw = []\<rparr>"
| "start_buffer (Tag_CodeBlock fenced) =
     Some \<lparr>block_kind = BlockCode,
       block_raw = (case fenced of Some lang \<Rightarrow> if lang \<noteq> [] then lang @ [line_feed] else [] | None \<Rightarrow> [])\<rparr>"
| "start_buffer Tag_BlockQuote = Some \<lparr>block_kind = BlockQuote, block_raw = []\<rparr>"
| "start_buffer Tag_Item = Some \<lparr>block_kind = BlockItem, block_raw = []\<rparr>"
| "start_buffer Tag_TableRow = Some \<lparr>block_kind = BlockTableRow, block_raw = []\<rparr>"
| "start_buffer Tag_Other = None"

definition push_text :: "ustring \<Rightarrow> doc_state \<Rightarrow> doc_state" where
  "push_text text st = st\<lparr>buffer := map_option (\<lambda>b. b\<lparr>block_raw := block_raw b @ text\<rparr>) (buffer st)\<rparr>"

fun handle_event :: "(ustring \<Rightarrow> ustring) \<Rightarrow> md_event \<Rightarrow> doc_state \<Rightarrow> doc_state" where
  "handle_event lc (Ev_Start tag) st =
     (case start_buffer tag of Some b \<Rightarrow> st\<lparr>buffer := Some b\<rparr> | None \<Rightarrow> st)"
| "handle_event lc (Ev_End tag) st = (if tag = End_Other then st else flush_buffer lc st)"
| "handle_event lc (Ev_Text text) st = push_text text st"
| "handle_event lc (Ev_Code text) st = push_text text st"
| "handle_event lc Ev_SoftBreak st = push_text [line_feed] st"
| "handle_event lc Ev_HardBreak st = push_text [line_feed] st"
| "handle_event lc Ev_Rule st = flush_buffer lc st"
| "handle_event lc Ev_Other st = st"

definition run_events :: "(ustring \<Rightarrow> ustring) \<Rightarrow> md_event list \<Rightarrow> ustring option \<Rightarrow> doc_state" where
  "run_events lc events title0 =
     flush_buffer lc (fold (handle_event lc) events
       \<lparr>title = title0, sections = [\<lparr>sec_path = [], sec_level = 0, sec_chunks = []\<rparr>], heading_stack = [],
        buffer = None, cursor = 0\<rparr>)"

definition extract_document ::
  "(ustring \<Rightarrow> ustring) \<Rightarrow> (ustring \<Rightarrow> yaml option) \<Rightarrow> (yaml \<Rightarrow> ustring option) \<Rightarrow> (ustring \<Rightarrow> md_event list) \<Rightarrow>
   ustring \<Rightarrow> extracted_document" where
  "extract_document lc from_str to_string parser markdown =
     (case split_frontmatter from_str to_string markdown of (frontmatter, body) \<Rightarrow>
        let wikilinks = extract_wikilinks body;
            st = run_events lc (parser body) (section_path_to_json frontmatter Map.empty (ascii ''title''))
        in \<lparr>doc_title = title st, doc_frontmatter = frontmatter, doc_sections = sections st,
            doc_wikilinks = wikilinks,
            doc_normalized_text = join_words (concat (map (\<lambda>s. map chunk_text (sec_chunks s)) (sections st)))\<rparr>)"

section \<open>Chunks know where they stand\<close>

lemma chunk_chain_short: "chunk_chain n i rs \<Longrightarrow> list_all (\<lambda>(a, b). b \<le> a + CHUNK_MAX_CHARS) rs"
  by (induction n i rs rule: chunk_chain.induct) (auto split: if_splits)

lemma length_slice: "length (slice xs i j) \<le> j - i"
  by (simp add: slice_def)

lemma split_chunk_text_short: "list_all (\<lambda>p. length p \<le> CHUNK_MAX_CHARS \<and> utrim p = p) (split_chunk_text s)"
proof (cases "length s \<le> CHUNK_MAX_CHARS")
  case True
  then show ?thesis using length_utrim [of s] by (simp add: split_chunk_text_def)
next
  case False
  then have "0 < length s" by auto
  from chunk_loop_chain [OF this, of "[]"] obtain rs where
    rs: "chunk_chain (length s) 0 rs" "chunk_loop s 0 [] = chunk_texts s rs" by auto
  have "length (utrim (slice s a b)) \<le> CHUNK_MAX_CHARS" if "(a, b) \<in> set rs" for a b
    using length_utrim [of "slice s a b"] length_slice [of s a b] chunk_chain_short [OF rs(1)] that
    by (fastforce simp: list_all_iff)
  with False rs(2) show ?thesis by (auto simp: split_chunk_text_def chunk_texts_def list_all_iff)
qed

definition chunk_ok :: "(ustring \<Rightarrow> ustring) \<Rightarrow> extracted_chunk \<Rightarrow> bool" where
  "chunk_ok lc c \<longleftrightarrow> chunk_text c = normalize_text lc (chunk_raw c) \<and> chunk_text c \<noteq> [] \<and>
     length (chunk_raw c) \<le> CHUNK_MAX_CHARS \<and> utrim (chunk_raw c) = chunk_raw c"

text \<open>The chunks of a range of positions: one after the other, with one position between two of them.\<close>

fun placed :: "nat \<Rightarrow> extracted_chunk list \<Rightarrow> nat \<Rightarrow> bool" where
  "placed n [] m \<longleftrightarrow> n = m"
| "placed n (c # cs) m \<longleftrightarrow>
     global_start c = n \<and> global_end c = n + length (chunk_raw c) \<and> placed (global_end c + 1) cs m"

lemma placed_append: "placed n (xs @ ys) m \<longleftrightarrow> (\<exists>k. placed n xs k \<and> placed k ys m)"
  by (induction xs arbitrary: n) auto

abbreviation all_chunks :: "doc_section list \<Rightarrow> extracted_chunk list" where
  "all_chunks secs \<equiv> concat (map sec_chunks secs)"

lemma all_chunks_push [simp]: "all_chunks (push_chunk c secs) = all_chunks secs @ [c]"
proof (cases secs rule: rev_cases)
  case (snoc xs x)
  then show ?thesis by (simp add: push_chunk_def ensure_section_def Let_def)
qed (simp add: push_chunk_def ensure_section_def Let_def)

lemma append_parts_chunks:
  assumes "list_all (\<lambda>p. length p \<le> CHUNK_MAX_CHARS \<and> utrim p = p) parts"
    and "placed 0 (all_chunks secs) cur" "list_all (chunk_ok lc) (all_chunks secs)"
    and "append_parts lc kind parts (secs, cur) = (secs', cur')"
  shows "placed 0 (all_chunks secs') cur' \<and> list_all (chunk_ok lc) (all_chunks secs') \<and>
    map chunk_raw (all_chunks secs') =
      map chunk_raw (all_chunks secs) @ filter (\<lambda>p. normalize_text lc p \<noteq> []) parts"
  using assms
proof (induction parts arbitrary: secs cur)
  case (Cons p parts)
  show ?case
  proof (cases "normalize_text lc p = []")
    case True
    with Cons show ?thesis by simp
  next
    case False
    define c where "c = \<lparr>chunk_kind = kind, chunk_text = normalize_text lc p, chunk_raw = p,
      global_start = cur, global_end = cur + length p\<rparr>"
    have "append_parts lc kind parts (push_chunk c secs, Suc (cur + length p)) = (secs', cur')"
      using Cons.prems(4) False by (simp add: Let_def c_def)
    moreover have "placed 0 (all_chunks (push_chunk c secs)) (Suc (cur + length p))"
      using Cons.prems(2) by (auto simp: placed_append c_def)
    moreover have "chunk_ok lc c" using Cons.prems(1) False by (simp add: chunk_ok_def c_def)
    then have "list_all (chunk_ok lc) (all_chunks (push_chunk c secs))" using Cons.prems(3) by simp
    ultimately show ?thesis
      using Cons.IH [of "push_chunk c secs" "Suc (cur + length p)"] Cons.prems(1) False by (simp add: c_def)
  qed
qed simp

text \<open>What every event keeps.\<close>

definition doc_inv :: "(ustring \<Rightarrow> ustring) \<Rightarrow> doc_state \<Rightarrow> bool" where
  "doc_inv lc st \<longleftrightarrow> placed 0 (all_chunks (sections st)) (cursor st) \<and> list_all (chunk_ok lc) (all_chunks (sections st))"

lemma with_chunks_inv:
  assumes "doc_inv lc st"
  shows "doc_inv lc (with_chunks lc kind raw st) \<and>
    map chunk_raw (all_chunks (sections (with_chunks lc kind raw st))) =
      map chunk_raw (all_chunks (sections st)) @ filter (\<lambda>p. normalize_text lc p \<noteq> []) (split_chunk_text raw)"
proof -
  obtain secs cur where app: "append_parts lc kind (split_chunk_text raw) (sections st, cursor st) = (secs, cur)"
    by (cases "append_parts lc kind (split_chunk_text raw) (sections st, cursor st)")
  from append_parts_chunks [OF split_chunk_text_short _ _ this] assms app show ?thesis
    by (simp add: with_chunks_def append_chunk_def doc_inv_def)
qed

lemma flush_heading_inv [simp]:
  "all_chunks (sections (flush_heading level raw st)) = all_chunks (sections st)"
  "doc_inv lc (flush_heading level raw st) = doc_inv lc st"
  by (simp_all add: flush_heading_def doc_inv_def Let_def)

lemma doc_inv_buffer [simp]: "doc_inv lc (st\<lparr>buffer := b\<rparr>) = doc_inv lc st"
  by (simp add: doc_inv_def)

text \<open>The chunks a block gives.\<close>

definition block_chunks :: "(ustring \<Rightarrow> ustring) \<Rightarrow> ustring \<Rightarrow> ustring list" where
  "block_chunks lc raw =
     (if utrim raw = [] then []
      else filter (\<lambda>p. normalize_text lc p \<noteq> []) (split_chunk_text (utrim raw)))"

lemma flush_buffer_chunks:
  assumes "doc_inv lc st"
  shows "doc_inv lc (flush_buffer lc st) \<and>
    map chunk_raw (all_chunks (sections (flush_buffer lc st))) = map chunk_raw (all_chunks (sections st)) @
      (case buffer st of None \<Rightarrow> [] | Some b \<Rightarrow> block_chunks lc (block_raw b))"
proof (cases "buffer st")
  case (Some b)
  let ?st = "st\<lparr>buffer := None\<rparr>"
  let ?raw = "utrim (block_raw b)"
  have "doc_inv lc ?st" "doc_inv lc (flush_heading l ?raw ?st)" for l using assms by simp_all
  note w = this [THEN with_chunks_inv]
  show ?thesis
  proof (cases "?raw = []")
    case True
    with Some assms show ?thesis by (simp add: flush_buffer_def block_chunks_def)
  next
    case False
    with Some w show ?thesis by (simp add: flush_buffer_def block_chunks_def Let_def split: block_kind.split)
  qed
qed (use assms in \<open>simp add: flush_buffer_def\<close>)

lemma handle_event_inv: "doc_inv lc st \<Longrightarrow> doc_inv lc (handle_event lc e st)"
  by (cases e) (auto simp: flush_buffer_chunks push_text_def split: option.splits)

definition initial_doc :: "ustring option \<Rightarrow> doc_state" where
  "initial_doc t = \<lparr>title = t, sections = [\<lparr>sec_path = [], sec_level = 0, sec_chunks = []\<rparr>], heading_stack = [],
     buffer = None, cursor = 0\<rparr>"

lemma run_events_fold: "run_events lc events t = flush_buffer lc (fold (handle_event lc) events (initial_doc t))"
  by (simp add: run_events_def initial_doc_def)

lemma fold_events_inv: "doc_inv lc st \<Longrightarrow> doc_inv lc (fold (handle_event lc) events st)"
  by (induction events arbitrary: st) (simp_all add: handle_event_inv)

lemma initial_doc_inv: "doc_inv lc (initial_doc t)"
  by (simp add: doc_inv_def initial_doc_def)

lemma run_events_inv: "doc_inv lc (run_events lc events t)"
  by (simp add: run_events_fold flush_buffer_chunks fold_events_inv initial_doc_inv)

lemma slice_shift: "n \<le> i \<Longrightarrow> n = length pre \<Longrightarrow> slice (pre @ xs) i j = slice xs (i - n) (j - n)"
  by (simp add: slice_def)

lemma placed_starts: "placed n cs m \<Longrightarrow> c \<in> set cs \<Longrightarrow> n \<le> global_start c"
  by (induction cs arbitrary: n) fastforce+

lemma placed_located:
  assumes "placed n cs m" "c \<in> set cs"
  shows "slice (join_lines (map chunk_raw cs)) (global_start c - n) (global_end c - n) = chunk_raw c"
  using assms
proof (induction cs arbitrary: n)
  case (Cons d cs)
  show ?case
  proof (cases "c = d")
    case True
    with Cons.prems show ?thesis by (cases cs) (auto simp: slice_def)
  next
    case False
    then have c: "c \<in> set cs" and rest: "placed (global_end d + 1) cs m" using Cons.prems by auto
    then obtain e es where cs: "cs = e # es" by (cases cs) auto
    let ?k = "length (chunk_raw d) + 1"
    have "global_end d + 1 = n + ?k" using Cons.prems by simp
    with placed_starts [OF rest c] Cons.IH [OF rest c]
    have "n + ?k \<le> global_start c"
      "slice (join_lines (map chunk_raw cs)) (global_start c - (n + ?k)) (global_end c - (n + ?k)) = chunk_raw c" by simp_all
    then show ?thesis
      using slice_shift [of ?k "global_start c - n" "chunk_raw d @ [line_feed]" "join_lines (map chunk_raw cs)" "global_end c - n"]
      by (simp add: cs)
  qed
qed simp

text \<open>
  C26. The chunks of a document can be found again: written one below the other, the raw texts of the chunks form a text
  in which every chunk stands at the positions recorded with it. Every chunk is at most a thousand characters long,
  trimmed, and carries its normal form, which is not empty; the document's normal form is all of these.
\<close>

theorem document_chunks_located:
  "let doc = extract_document lc from_str to_string parser markdown;
       chunks = concat (map sec_chunks (doc_sections doc))
   in list_all (\<lambda>c. slice (join_lines (map chunk_raw chunks)) (global_start c) (global_end c) = chunk_raw c \<and>
          chunk_ok lc c) chunks \<and>
      doc_normalized_text doc = join_words (map chunk_text chunks)"
proof -
  obtain fm body where "split_frontmatter from_str to_string markdown = (fm, body)"
    by (cases "split_frontmatter from_str to_string markdown")
  moreover have "list_all (\<lambda>c. slice (join_lines (map chunk_raw (all_chunks (sections (run_events lc evs t)))))
      (global_start c) (global_end c) = chunk_raw c \<and> chunk_ok lc c) (all_chunks (sections (run_events lc evs t)))" for evs t
    using run_events_inv [of lc evs t] placed_located [of 0 "all_chunks (sections (run_events lc evs t))"]
    by (auto simp: doc_inv_def list_all_iff)
  ultimately show ?thesis by (simp add: extract_document_def Let_def map_concat comp_def)
qed

section \<open>Documents as blocks\<close>

text \<open>
  The documents the parser describes, as trees of blocks. A leaf is a block with a text of its own: a paragraph, a
  heading, a code block, an item of a tight list, a row of a table. A container holds blocks: a quotation, an item with
  paragraphs, or something the extraction has no case for (a list, a table, a footnote). The header row of a table
  has inline contents outside of every leaf; rules and HTML are single events.
\<close>

datatype md_block = Leaf md_tag "md_event list" | Container md_tag "md_block list" | Header_Row "md_event list"
  | Mark md_event

text \<open>Inline contents: text, code, breaks, and the start and the end of emphasis, links, images and table cells.\<close>

fun inline :: "md_event \<Rightarrow> bool" where
  "inline (Ev_Start tag) \<longleftrightarrow> tag = Tag_Other"
| "inline (Ev_End tag) \<longleftrightarrow> tag = End_Other"
| "inline e \<longleftrightarrow> e \<noteq> Ev_Rule"

fun inline_text :: "md_event \<Rightarrow> ustring" where
  "inline_text (Ev_Text t) = t"
| "inline_text (Ev_Code t) = t"
| "inline_text Ev_SoftBreak = [line_feed]"
| "inline_text Ev_HardBreak = [line_feed]"
| "inline_text e = []"

fun block_end :: "md_tag \<Rightarrow> md_tag_end" where
  "block_end Tag_Paragraph = End_Paragraph"
| "block_end (Tag_Heading level) = End_Heading"
| "block_end (Tag_CodeBlock lang) = End_CodeBlock"
| "block_end Tag_BlockQuote = End_BlockQuote"
| "block_end Tag_Item = End_Item"
| "block_end Tag_TableRow = End_TableRow"
| "block_end Tag_Other = End_Other"

fun blk_events :: "md_block \<Rightarrow> md_event list" where
  "blk_events (Leaf tag es) = Ev_Start tag # es @ [Ev_End (block_end tag)]"
| "blk_events (Container tag bs) = Ev_Start tag # concat (map blk_events bs) @ [Ev_End (block_end tag)]"
| "blk_events (Header_Row es) = Ev_Start Tag_Other # es @ [Ev_End End_Other]"
| "blk_events (Mark e) = [e]"

text \<open>
  Which trees the theorems are about: an item of a list has inline contents or blocks and not both, and no table stands
  in a quotation or an item (the flag says whether a block does).
\<close>

fun blk_ok :: "bool \<Rightarrow> md_block \<Rightarrow> bool" where
  "blk_ok q (Leaf tag es) \<longleftrightarrow> tag \<noteq> Tag_Other \<and> tag \<noteq> Tag_BlockQuote \<and> list_all inline es"
| "blk_ok q (Container tag bs) \<longleftrightarrow>
     (if tag = Tag_Other then list_all (blk_ok q) bs
      else (tag = Tag_BlockQuote \<or> tag = Tag_Item) \<and> list_all (blk_ok True) bs)"
| "blk_ok q (Header_Row es) \<longleftrightarrow> \<not> q \<and> list_all inline es"
| "blk_ok q (Mark e) \<longleftrightarrow> e = Ev_Rule \<or> e = Ev_Other"

text \<open>The texts of a document in order, each with the tag of its leaf; a code block begins with its language.\<close>

definition leaf_text :: "md_tag \<Rightarrow> md_event list \<Rightarrow> ustring" where
  "leaf_text tag es =
     (case tag of Tag_CodeBlock (Some lang) \<Rightarrow> if lang \<noteq> [] then lang @ [line_feed] else [] | _ \<Rightarrow> []) @
     concat (map inline_text es)"

fun blk_leaves :: "md_block \<Rightarrow> (md_tag \<times> ustring) list" where
  "blk_leaves (Leaf tag es) = [(tag, leaf_text tag es)]"
| "blk_leaves (Container tag bs) = concat (map blk_leaves bs)"
| "blk_leaves (Header_Row es) = []"
| "blk_leaves (Mark e) = []"

text \<open>The step of the extraction that a leaf amounts to.\<close>

definition add_leaf :: "(ustring \<Rightarrow> ustring) \<Rightarrow> md_tag \<times> ustring \<Rightarrow> doc_state \<Rightarrow> doc_state" where
  "add_leaf lc l st = flush_buffer lc (st\<lparr>buffer := Some ((the (start_buffer (fst l)))\<lparr>block_raw := snd l\<rparr>)\<rparr>)"

lemma with_chunks_buffer [simp]: "buffer (with_chunks lc kind raw st) = buffer st"
  by (simp add: with_chunks_def split: prod.split)

lemma flush_buffer_empty [simp]: "buffer (flush_buffer lc st) = None"
  by (simp add: flush_buffer_def flush_heading_def Let_def split: option.split block_kind.split)

lemma add_leaf_buffer [simp]:
  "buffer (add_leaf lc l st) = None" "add_leaf lc l (st\<lparr>buffer := b\<rparr>) = add_leaf lc l st"
  by (simp_all add: add_leaf_def)

lemma inline_events:
  "list_all inline es \<Longrightarrow> buffer st = Some b \<Longrightarrow>
   fold (handle_event lc) es st = st\<lparr>buffer := Some (b\<lparr>block_raw := block_raw b @ concat (map inline_text es)\<rparr>)\<rparr>"
proof (induction es arbitrary: st b)
  case (Cons e es)
  have "handle_event lc e st = st\<lparr>buffer := Some (b\<lparr>block_raw := block_raw b @ inline_text e\<rparr>)\<rparr>"
    using Cons.prems by (cases e) (simp_all add: push_text_def)
  with Cons show ?case by simp
qed simp

lemma inline_outside: "list_all inline es \<Longrightarrow> buffer st = None \<Longrightarrow> fold (handle_event lc) es st = st"
proof (induction es)
  case (Cons e es)
  then have "handle_event lc e st = st" by (cases e) (simp_all add: push_text_def)
  with Cons show ?case by simp
qed simp

lemma start_buffer_block:
  "tag \<noteq> Tag_Other \<Longrightarrow> \<exists>b. start_buffer tag = Some b \<and>
     block_raw b = (case tag of Tag_CodeBlock (Some lang) \<Rightarrow> if lang \<noteq> [] then lang @ [line_feed] else [] | _ \<Rightarrow> [])"
  by (cases tag) (auto split: option.splits)

lemma block_end_matched: "tag \<noteq> Tag_Other \<Longrightarrow> block_end tag \<noteq> End_Other"
  by (cases tag) simp_all

lemma leaf_events:
  assumes "tag \<noteq> Tag_Other" "list_all inline es"
  shows "fold (handle_event lc) (blk_events (Leaf tag es)) st = add_leaf lc (tag, leaf_text tag es) st"
proof -
  obtain bb where bb: "start_buffer tag = Some bb" "block_raw bb =
      (case tag of Tag_CodeBlock (Some lang) \<Rightarrow> if lang \<noteq> [] then lang @ [line_feed] else [] | _ \<Rightarrow> [])"
    using start_buffer_block [OF assms(1)] by auto
  with inline_events [OF assms(2), of "st\<lparr>buffer := Some bb\<rparr>" bb lc] block_end_matched [OF assms(1)] show ?thesis
    by (simp add: leaf_text_def add_leaf_def)
qed

text \<open>
  Events that amount to a list of leaves. Inside a quotation or an item the buffer may be the container's own, as long
  as it is blank; elsewhere there is none.
\<close>

definition ready :: "bool \<Rightarrow> doc_state \<Rightarrow> bool" where
  "ready q st \<longleftrightarrow> (case buffer st of None \<Rightarrow> True | Some b \<Rightarrow> q \<and> utrim (block_raw b) = [])"

definition amounts :: "(ustring \<Rightarrow> ustring) \<Rightarrow> bool \<Rightarrow> md_event list \<Rightarrow> (md_tag \<times> ustring) list \<Rightarrow> bool" where
  "amounts lc q es ls \<longleftrightarrow> (\<forall>st. ready q st \<longrightarrow> ready q (fold (handle_event lc) es st) \<and>
     (fold (handle_event lc) es st)\<lparr>buffer := None\<rparr> = fold (add_leaf lc) ls (st\<lparr>buffer := None\<rparr>))"

lemma amounts_append: "amounts lc q e1 l1 \<Longrightarrow> amounts lc q e2 l2 \<Longrightarrow> amounts lc q (e1 @ e2) (l1 @ l2)"
  by (simp add: amounts_def)

lemma amounts_concat:
  "(\<And>b. b \<in> set bs \<Longrightarrow> amounts lc q (f b) (g b)) \<Longrightarrow> amounts lc q (concat (map f bs)) (concat (map g bs))"
proof (induction bs)
  case (Cons b bs)
  then show ?case using amounts_append [of lc q "f b" "g b"] by simp
qed (simp add: amounts_def)

lemma flush_blank: "ready q st \<Longrightarrow> flush_buffer lc st = st\<lparr>buffer := None\<rparr>"
  by (auto simp: ready_def flush_buffer_def Let_def split: option.splits)

lemma amounts_quote:
  assumes "amounts lc True es ls" "tag = Tag_BlockQuote \<or> tag = Tag_Item"
  shows "amounts lc q (Ev_Start tag # es @ [Ev_End (block_end tag)]) ls"
proof -
  have *: "fold (handle_event lc) (Ev_Start tag # es @ [Ev_End (block_end tag)]) st =
      fold (add_leaf lc) ls (st\<lparr>buffer := None\<rparr>)" for st
  proof -
    define st0 where "st0 = handle_event lc (Ev_Start tag) st"
    have "ready True st0" "st0\<lparr>buffer := None\<rparr> = st\<lparr>buffer := None\<rparr>"
      using assms(2) by (auto simp: st0_def ready_def utrim_def)
    with assms(1) have "ready True (fold (handle_event lc) es st0)"
      "(fold (handle_event lc) es st0)\<lparr>buffer := None\<rparr> = fold (add_leaf lc) ls (st\<lparr>buffer := None\<rparr>)"
      by (auto simp: amounts_def)
    with flush_blank [of True "fold (handle_event lc) es st0" lc] assms(2) show ?thesis by (auto simp: st0_def)
  qed
  have "buffer (fold (add_leaf lc) ls st) = None" if "buffer st = None" for st
    using that by (induction ls arbitrary: st) simp_all
  then have none: "buffer (fold (add_leaf lc) ls (st\<lparr>buffer := None\<rparr>)) = None" for st by simp
  have "x\<lparr>buffer := None\<rparr> = x" if "buffer x = None" for x :: doc_state using that by (cases x) simp
  with none show ?thesis unfolding amounts_def * by (simp add: ready_def)
qed

lemma block_amounts: "blk_ok q b \<Longrightarrow> amounts lc q (blk_events b) (blk_leaves b)"
proof (induction b arbitrary: q)
  case (Leaf tag es)
  then have "fold (handle_event lc) (blk_events (Leaf tag es)) st = add_leaf lc (tag, leaf_text tag es) st" for st
    by (intro leaf_events) simp_all
  moreover have "x\<lparr>buffer := None\<rparr> = x" if "buffer x = None" for x :: doc_state using that by (cases x) simp
  ultimately show ?case by (simp del: blk_events.simps add: amounts_def ready_def)
next
  case (Container tag bs)
  show ?case
  proof (cases "tag = Tag_Other")
    case True
    with Container have "amounts lc q (concat (map blk_events bs)) (concat (map blk_leaves bs))"
      by (intro amounts_concat) (simp add: list_all_iff)
    with True show ?thesis by (simp add: amounts_def)
  next
    case False
    with Container have "amounts lc True (concat (map blk_events bs)) (concat (map blk_leaves bs))"
      by (intro amounts_concat) (simp add: list_all_iff)
    with amounts_quote False Container.prems show ?thesis by simp
  qed
next
  case (Header_Row es)
  then have "fold (handle_event lc) es st = st" if "buffer st = None" for st
    using inline_outside [OF _ that] by simp
  with Header_Row show ?case by (auto simp: amounts_def ready_def split: option.splits)
next
  case (Mark e)
  then show ?case using flush_blank by (auto simp: amounts_def) (auto simp: ready_def)
qed

lemma document_leaves:
  assumes "list_all (blk_ok False) blocks"
  shows "run_events lc (concat (map blk_events blocks)) t =
    fold (add_leaf lc) (concat (map blk_leaves blocks)) (initial_doc t)"
proof -
  have a: "amounts lc False (concat (map blk_events blocks)) (concat (map blk_leaves blocks))"
    using assms block_amounts by (intro amounts_concat) (auto simp: list_all_iff)
  let ?st = "fold (handle_event lc) (concat (map blk_events blocks)) (initial_doc t)"
  have "ready False (initial_doc t)" "(initial_doc t)\<lparr>buffer := None\<rparr> = initial_doc t"
    by (simp_all add: ready_def initial_doc_def)
  with a have "ready False ?st" "?st\<lparr>buffer := None\<rparr> = fold (add_leaf lc) (concat (map blk_leaves blocks)) (initial_doc t)"
    by (auto simp: amounts_def)
  with flush_blank show ?thesis by (simp add: run_events_fold)
qed

section \<open>Sections follow the headings\<close>

text \<open>
  The headings of a document: its heading leaves that are not blank, with their levels. A heading is open at the end of
  a list of headings when all headings behind it are deeper; the open headings are the path of the last one. Levels are
  well nested when each is at most one deeper than the level before.
\<close>

definition doc_headings :: "(md_tag \<times> ustring) list \<Rightarrow> (nat \<times> ustring) list" where
  "doc_headings ls =
     concat (map (\<lambda>(tag, text). case tag of Tag_Heading level \<Rightarrow> if utrim text = [] then [] else [(level, utrim text)] | _ \<Rightarrow> []) ls)"

definition open_headings :: "(nat \<times> ustring) list \<Rightarrow> nat list" where
  "open_headings hs =
     filter (\<lambda>j. list_all (\<lambda>k. fst (hs ! j) < fst (hs ! k)) [Suc j..<length hs]) [0..<length hs]"

definition heading_path :: "(nat \<times> ustring) list \<Rightarrow> ustring list" where
  "heading_path hs = map (\<lambda>j. snd (hs ! j)) (open_headings hs)"

fun nested :: "nat \<Rightarrow> nat list \<Rightarrow> bool" where
  "nested k [] \<longleftrightarrow> True"
| "nested k (l # ls) \<longleftrightarrow> 1 \<le> l \<and> l \<le> k + 1 \<and> nested l ls"

lemma nested_snoc: "nested k (ls @ [l]) \<longleftrightarrow> nested k ls \<and> 1 \<le> l \<and> l \<le> Suc (last (k # ls))"
  by (induction ls arbitrary: k) auto

lemma open_headings_snoc:
  "open_headings (hs @ [h]) = filter (\<lambda>j. fst (hs ! j) < fst h) (open_headings hs) @ [length hs]"
proof -
  have "list_all (\<lambda>k. fst ((hs @ [h]) ! j) < fst ((hs @ [h]) ! k)) [Suc j..<Suc (length hs)] \<longleftrightarrow>
      fst (hs ! j) < fst h \<and> list_all (\<lambda>k. fst (hs ! j) < fst (hs ! k)) [Suc j..<length hs]" if "j < length hs" for j
    using that by (auto simp: list_all_iff nth_append less_Suc_eq)
  then show ?thesis by (auto simp: open_headings_def intro!: filter_cong)
qed

lemma filter_below:
  "map f xs = [1..<Suc n] \<Longrightarrow> 1 \<le> l \<Longrightarrow> l \<le> Suc n \<Longrightarrow> filter (\<lambda>x. f x < l) xs = take (l - 1) xs"
proof (induction n arbitrary: xs)
  case (Suc n)
  then obtain ys y where xs: "xs = ys @ [y]" "map f ys = [1..<Suc n]" "f y = Suc n"
    by (cases xs rule: rev_cases) auto
  have len: "length ys = n" using arg_cong [OF xs(2), of length] by simp
  show ?case
  proof (cases "l = Suc (Suc n)")
    case True
    moreover have "f x < l" if "x \<in> set ys" for x
    proof -
      have "f x \<in> set (map f ys)" using that by simp
      then show ?thesis unfolding xs(2) using True by auto
    qed
    ultimately have "filter (\<lambda>x. f x < l) ys = ys" "f y < l" using xs(3) by (simp_all add: filter_id_conv)
    with True xs(1) len show ?thesis by simp
  next
    case False
    with Suc.prems Suc.IH [OF xs(2)] xs len show ?thesis by simp
  qed
qed simp

lemma open_headings_bound: "j \<in> set (open_headings hs) \<Longrightarrow> j < length hs"
  by (simp add: open_headings_def)

lemma nth_open: "map (\<lambda>j. f ((hs @ [h]) ! j)) (filter P (open_headings hs)) = map (\<lambda>j. f (hs ! j)) (filter P (open_headings hs))"
  by (auto simp: nth_append dest: open_headings_bound)

lemma open_levels:
  "nested 0 (map fst hs) \<Longrightarrow> map (\<lambda>j. fst (hs ! j)) (open_headings hs) = [1..<Suc (last (0 # map fst hs))]"
proof (induction hs rule: rev_induct)
  case (snoc h hs)
  then have IH: "map (\<lambda>j. fst (hs ! j)) (open_headings hs) = [1..<Suc (last (0 # map fst hs))]"
    and l: "1 \<le> fst h" "fst h \<le> Suc (last (0 # map fst hs))" by (simp_all add: nested_snoc)
  have "map (\<lambda>j. fst (hs ! j)) (filter (\<lambda>j. fst (hs ! j) < fst h) (open_headings hs)) = take (fst h - 1) [1..<Suc (last (0 # map fst hs))]"
    using filter_below [OF IH l] IH by (metis take_map)
  also have "\<dots> = [1..<fst h]" using l by (subst take_upt) simp_all
  finally show ?case using l by (simp add: open_headings_snoc nth_open)
qed (simp add: open_headings_def)

lemma heading_path_snoc:
  assumes "nested 0 (map fst (hs @ [h]))"
  shows "heading_path (hs @ [h]) = take (fst h - 1) (heading_path hs) @ [snd h]"
proof -
  have "nested 0 (map fst hs)" "1 \<le> fst h" "fst h \<le> Suc (last (0 # map fst hs))"
    using assms by (simp_all add: nested_snoc)
  note below = filter_below [OF open_levels [OF this(1)] this(2,3)]
  have "heading_path (hs @ [h]) = map (\<lambda>j. snd (hs ! j)) (filter (\<lambda>j. fst (hs ! j) < fst h) (open_headings hs)) @ [snd h]"
    unfolding heading_path_def open_headings_snoc map_append nth_open by simp
  then show ?thesis unfolding below by (simp add: heading_path_def take_map)
qed

definition heads :: "doc_section list \<Rightarrow> (nat \<times> ustring list) list" where
  "heads secs = map (\<lambda>s. (sec_level s, sec_path s)) secs"

definition outline :: "(nat \<times> ustring) list \<Rightarrow> (nat \<times> ustring list) list" where
  "outline hs = map (\<lambda>i. (fst (hs ! i), heading_path (take (Suc i) hs))) [0..<length hs]"

lemma outline_snoc: "outline (hs @ [h]) = outline hs @ [(fst h, heading_path (hs @ [h]))]"
  by (auto simp: outline_def nth_append)

definition outlined :: "ustring option \<Rightarrow> doc_state \<Rightarrow> (nat \<times> ustring) list \<Rightarrow> bool" where
  "outlined t st hs \<longleftrightarrow> heads (sections st) = (0, []) # outline hs \<and> heading_stack st = heading_path hs \<and>
     title st = (case t of Some t \<Rightarrow> Some t | None \<Rightarrow> map_option snd (if hs = [] then None else Some (hd hs)))"

text \<open>The chunks of a leaf join the last section.\<close>

lemma append_parts_last:
  "secs \<noteq> [] \<Longrightarrow> \<exists>cs. fst (append_parts lc kind parts (secs, cur)) =
       butlast secs @ [(last secs)\<lparr>sec_chunks := sec_chunks (last secs) @ cs\<rparr>] \<and>
     map chunk_raw cs = filter (\<lambda>p. normalize_text lc p \<noteq> []) parts \<and> list_all (\<lambda>c. chunk_kind c = kind) cs"
proof (induction parts arbitrary: secs cur)
  case Nil
  then show ?case by (intro exI [of _ "[]"]) simp
next
  case (Cons p parts)
  show ?case
  proof (cases "normalize_text lc p = []")
    case True
    with Cons show ?thesis by simp
  next
    case False
    define c where "c = \<lparr>chunk_kind = kind, chunk_text = normalize_text lc p, chunk_raw = p,
      global_start = cur, global_end = cur + length p\<rparr>"
    define secs' where "secs' = push_chunk c secs"
    have secs': "secs' = butlast secs @ [(last secs)\<lparr>sec_chunks := sec_chunks (last secs) @ [c]\<rparr>]"
      using Cons.prems by (simp add: secs'_def push_chunk_def ensure_section_def Let_def)
    obtain cs where cs: "fst (append_parts lc kind parts (secs', Suc (cur + length p))) =
        butlast secs' @ [(last secs')\<lparr>sec_chunks := sec_chunks (last secs') @ cs\<rparr>]"
      "map chunk_raw cs = filter (\<lambda>p. normalize_text lc p \<noteq> []) parts" "list_all (\<lambda>c. chunk_kind c = kind) cs"
      using Cons.IH [of secs' "Suc (cur + length p)"] secs' by auto
    have "append_parts lc kind (p # parts) (secs, cur) = append_parts lc kind parts (secs', Suc (cur + length p))"
      using False by (simp add: Let_def secs'_def c_def)
    with cs False show ?thesis
      by (intro exI [of _ "c # cs"]) (simp add: secs' c_def)
  qed
qed

lemma with_chunks_last:
  assumes "sections st \<noteq> []"
  shows "\<exists>cs. sections (with_chunks lc kind raw st) =
       butlast (sections st) @ [(last (sections st))\<lparr>sec_chunks := sec_chunks (last (sections st)) @ cs\<rparr>] \<and>
     map chunk_raw cs = filter (\<lambda>p. normalize_text lc p \<noteq> []) (split_chunk_text raw) \<and>
     list_all (\<lambda>c. chunk_kind c = kind) cs"
proof -
  have "sections (with_chunks lc kind raw st) =
      fst (append_parts lc kind (split_chunk_text raw) (sections st, cursor st))"
    by (simp add: with_chunks_def append_chunk_def split: prod.split)
  with append_parts_last [OF assms, of lc kind "split_chunk_text raw" "cursor st"] show ?thesis by simp
qed

lemma with_chunks_other [simp]:
  "heading_stack (with_chunks lc kind raw st) = heading_stack st" "title (with_chunks lc kind raw st) = title st"
  by (simp_all add: with_chunks_def split: prod.split)

fun leaf_kind :: "md_tag \<Rightarrow> chunk_kind" where
  "leaf_kind (Tag_Heading level) = Heading_Chunk"
| "leaf_kind (Tag_CodeBlock lang) = Code_Chunk"
| "leaf_kind tag = Prose"

lemma add_leaf_cases:
  assumes "tag \<noteq> Tag_Other"
  shows "add_leaf lc (tag, text) st =
    (let st = st\<lparr>buffer := None\<rparr> in
     if utrim text = [] then st
     else with_chunks lc (leaf_kind tag) (utrim text)
       (case tag of Tag_Heading level \<Rightarrow> flush_heading level (utrim text) st | _ \<Rightarrow> st))"
  using assms by (cases tag) (simp_all add: add_leaf_def flush_buffer_def Let_def)

lemma heads_with_chunks: "sections st \<noteq> [] \<Longrightarrow> heads (sections (with_chunks lc kind raw st)) = heads (sections st)"
  using with_chunks_last [of st lc kind raw] by (cases "sections st" rule: rev_cases) (auto simp: heads_def)

lemma add_leaf_outlined:
  assumes "outlined t st hs" "fst l \<noteq> Tag_Other" "nested 0 (map fst (hs @ doc_headings [l]))"
  shows "outlined t (add_leaf lc l st) (hs @ doc_headings [l])"
proof -
  obtain tag raw where l: "l = (tag, raw)" by (cases l)
  have ne: "sections st \<noteq> []" using assms(1) by (auto simp: outlined_def heads_def)
  have same: "outlined t (with_chunks lc kind x (st\<lparr>buffer := None\<rparr>)) hs" for kind x
    using assms(1) ne by (simp add: outlined_def heads_with_chunks)
  show ?thesis
  proof (cases "utrim raw = [] \<or> (\<forall>level. tag \<noteq> Tag_Heading level)")
    case True
    then have "doc_headings [l] = []" by (auto simp: doc_headings_def l split: md_tag.split)
    moreover have "(case tag of Tag_Heading level \<Rightarrow> flush_heading level (utrim raw) x | _ \<Rightarrow> x) = x"
      if "utrim raw \<noteq> []" for x using True that by (cases tag) simp_all
    moreover have "outlined t (st\<lparr>buffer := None\<rparr>) hs" using assms(1) by (simp add: outlined_def)
    ultimately show ?thesis using same assms(2) by (simp add: l add_leaf_cases Let_def)
  next
    case False
    then obtain level where tag: "tag = Tag_Heading level" and ne': "utrim raw \<noteq> []" by auto
    then have h: "doc_headings [l] = [(level, utrim raw)]" by (simp add: doc_headings_def l)
    have "heading_path (hs @ [(level, utrim raw)]) = take (level - 1) (heading_path hs) @ [utrim raw]"
      using heading_path_snoc [of hs "(level, utrim raw)"] assms(3) h by simp
    with assms(1) have "outlined t (flush_heading level (utrim raw) (st\<lparr>buffer := None\<rparr>)) (hs @ [(level, utrim raw)])"
      by (auto simp: outlined_def flush_heading_def Let_def heads_def outline_snoc split: option.splits)
    moreover have "sections (flush_heading level (utrim raw) (st\<lparr>buffer := None\<rparr>)) \<noteq> []"
      by (simp add: flush_heading_def Let_def)
    ultimately show ?thesis
      using tag ne' h by (simp add: l add_leaf_cases Let_def outlined_def heads_with_chunks)
  qed
qed

lemma doc_headings_append: "doc_headings (xs @ ys) = doc_headings xs @ doc_headings ys"
  by (simp add: doc_headings_def)

lemma nested_prefix: "nested k (xs @ ys) \<Longrightarrow> nested k xs"
  by (induction xs arbitrary: k) auto

lemma leaves_outlined:
  assumes "list_all (\<lambda>l. fst l \<noteq> Tag_Other) ls" "nested 0 (map fst (doc_headings ls))"
  shows "outlined t (fold (add_leaf lc) ls (initial_doc t)) (doc_headings ls)"
  using assms
proof (induction ls rule: rev_induct)
  case Nil
  show ?case by (cases t) (simp_all add: outlined_def initial_doc_def heads_def doc_headings_def outline_def heading_path_def open_headings_def)
next
  case (snoc l ls)
  from snoc.prems have "nested 0 (map fst (doc_headings ls) @ map fst (doc_headings [l]))"
    by (simp add: doc_headings_append)
  with nested_prefix snoc add_leaf_outlined [of t _ "doc_headings ls" l lc] show ?case
    by (simp add: doc_headings_append)
qed

lemma blk_leaves_tags: "blk_ok q b \<Longrightarrow> list_all (\<lambda>l. fst l \<noteq> Tag_Other) (blk_leaves b)"
  by (induction b arbitrary: q) (auto simp: list_all_iff split: if_splits)

lemma doc_leaves_tags:
  "list_all (blk_ok False) blocks \<Longrightarrow> list_all (\<lambda>l. fst l \<noteq> Tag_Other) (concat (map blk_leaves blocks))"
  using blk_leaves_tags by (fastforce simp: list_all_iff)

lemma section_path_map_of:
  "section_path_to_json fm m k =
     (case map_of (rev (map (\<lambda>e. (fm_key e, fm_value e)) fm)) k of Some v \<Rightarrow> Some v | None \<Rightarrow> m k)"
proof (induction fm arbitrary: m)
  case (Cons e fm)
  show ?case unfolding section_path_to_json.simps Cons.IH by (simp add: map_add_def split: option.split)
qed simp

text \<open>
  C27. The sections of a document are its headings. For a document of leaves, containers, table headers and rules
  whose heading levels are well nested: after the section without heading there is one section for each heading
  that is not blank, in order, with its level, whose path is the chain of the headings it stands under and itself:
  those headings before it such that every heading in between, and it, is deeper. The title is the last
  \<^verbatim>\<open>title\<close> entry of the front matter or, without one, the first heading.
\<close>

theorem document_outline:
  assumes "split_frontmatter from_str to_string markdown = (frontmatter, body)"
    and "parser body = concat (map blk_events blocks)" "list_all (blk_ok False) blocks"
    and "headings = doc_headings (concat (map blk_leaves blocks))" "nested 0 (map fst headings)"
    and "doc = extract_document lc from_str to_string parser markdown"
  shows "map (\<lambda>s. (sec_level s, sec_path s)) (doc_sections doc) =
      (0, []) # map (\<lambda>i. (fst (headings ! i), heading_path (take (Suc i) headings))) [0..<length headings] \<and>
    doc_title doc =
      (case map_of (rev (map (\<lambda>e. (fm_key e, fm_value e)) frontmatter)) (ascii ''title'') of
         Some t \<Rightarrow> Some t
       | None \<Rightarrow> map_option snd (if headings = [] then None else Some (hd headings)))"
proof -
  have "outlined t (run_events lc (parser body) t) headings" for t
    using leaves_outlined [OF doc_leaves_tags [OF assms(3)]] assms(4,5) by (simp add: assms(2) document_leaves [OF assms(3)])
  then show ?thesis
    by (simp add: assms(1,6) extract_document_def Let_def outlined_def heads_def outline_def section_path_map_of
        split: option.split)
qed

definition sample_markdown :: ustring where
  "sample_markdown = ascii ''# One'' @ line_feed # line_feed # ascii ''- *some* text'' @ line_feed # line_feed # ascii ''## Two''"

definition sample_md_blocks :: "md_block list" where
  "sample_md_blocks =
     [Leaf (Tag_Heading 1) [Ev_Text (ascii ''One'')],
      Container Tag_Other
        [Leaf Tag_Item [Ev_Start Tag_Other, Ev_Text (ascii ''some''), Ev_End End_Other, Ev_Text (ascii '' text'')]],
      Leaf (Tag_Heading 2) [Ev_Text (ascii ''Two'')]]"

definition sample_parser :: "ustring \<Rightarrow> md_event list" where
  "sample_parser body = (if body = sample_markdown then concat (map blk_events sample_md_blocks) else [])"

definition sample_headings :: "(nat \<times> ustring) list" where
  "sample_headings = [(1, ascii ''One''), (2, ascii ''Two'')]"

lemma sample_document:
  "split_frontmatter (\<lambda>_. None) (\<lambda>_. None) sample_markdown = ([], sample_markdown)"
  "sample_parser sample_markdown = concat (map blk_events sample_md_blocks)"
  "list_all (blk_ok False) sample_md_blocks"
  by (code_simp, simp add: sample_parser_def, code_simp)

theorem document_outline_witness:
  "map (\<lambda>s. (sec_level s, sec_path s))
      (doc_sections (extract_document lower_ascii (\<lambda>_. None) (\<lambda>_. None) sample_parser sample_markdown)) =
    [(0, []), (1, [ascii ''One'']), (2, [ascii ''One'', ascii ''Two''])]"
proof -
  have "sample_headings = doc_headings (concat (map blk_leaves sample_md_blocks))" "nested 0 (map fst sample_headings)"
    by code_simp+
  note document_outline [where lc = lower_ascii and parser = sample_parser and from_str = "\<lambda>_. None" and to_string = "\<lambda>_. None", OF sample_document this refl]
  moreover have "(0, []) # map (\<lambda>i. (fst (sample_headings ! i), heading_path (take (Suc i) sample_headings)))
      [0..<length sample_headings] = [(0, []), (1, [ascii ''One'']), (2, [ascii ''One'', ascii ''Two''])]"
    by code_simp
  ultimately show ?thesis by simp
qed

text \<open>
  Levels that are not well nested: the stack of the extraction is cut by its length and not by the levels of its
  headings, so in a note that begins with \<^verbatim>\<open>### A\<close> and goes on with \<^verbatim>\<open>## B\<close> the second heading is filed under
  the deeper first one.
\<close>

lemma skipped_level_path:
  "map sec_path (sections (run_events lower_ascii (concat (map blk_events
     [Leaf (Tag_Heading 3) [Ev_Text (ascii ''A'')], Leaf (Tag_Heading 2) [Ev_Text (ascii ''B'')]])) None)) =
   [[], [ascii ''A''], [ascii ''A'', ascii ''B'']]"
  "heading_path [(3, ascii ''A''), (2, ascii ''B'')] = [ascii ''B'']"
  by code_simp+

section \<open>What is indexed and what is not\<close>

text \<open>
  The chunks a text must give: trimmed, the slices of ranges that run from the beginning to the end of the text, each
  beginning before the end of the previous one and none longer than the limit; slices of white space are left out, and a
  text within the limit is one chunk.
\<close>

definition covered :: "ustring \<Rightarrow> ustring list \<Rightarrow> bool" where
  "covered t parts \<longleftrightarrow>
     (if t = [] then parts = []
      else \<exists>rs. chunk_chain (length t) 0 rs \<and> (length t \<le> CHUNK_MAX_CHARS \<longrightarrow> rs = [(0, length t)]) \<and>
        parts = filter (\<lambda>p. p \<noteq> []) (map (\<lambda>(a, b). utrim (slice t a b)) rs))"

lemma covered_positions:
  "covered t parts \<Longrightarrow> i < length t \<Longrightarrow> \<not> is_whitespace (t ! i) \<Longrightarrow> t ! i \<in> set (concat parts)"
proof -
  assume c: "covered t parts" and i: "i < length t" "\<not> is_whitespace (t ! i)"
  then obtain rs where rs: "chunk_chain (length t) 0 rs" "parts = filter (\<lambda>p. p \<noteq> []) (map (\<lambda>(a, b). utrim (slice t a b)) rs)"
    by (auto simp: covered_def split: if_splits)
  have "i \<in> (\<Union>(a, b) \<in> set rs. {a..<b})" unfolding chunk_chain_covers [OF rs(1)] using i by simp
  then obtain a b where ab: "(a, b) \<in> set rs" "a \<le> i" "i < b" by auto
  have "slice t a b ! (i - a) = t ! i" "i - a < length (slice t a b)" using ab i by (auto simp: slice_def)
  then have "t ! i \<in> set (slice t a b)" by (metis nth_mem)
  then have "t ! i \<in> set (utrim (slice t a b))" using i(2) by (rule utrim_keeps)
  moreover from this have "utrim (slice t a b) \<in> set parts" using ab(1) rs(2) by force
  ultimately show ?thesis by auto
qed
















text \<open>
  Blocks inside blocks lose text. In a tight list the parser reports no paragraph inside an item, so the text of an item
  stands in the item's buffer when a nested item begins, and the new buffer replaces it: \<^verbatim>\<open>outer\<close> is not indexed.
\<close>

definition nested_list_events :: "md_event list" where
  "nested_list_events =
     [Ev_Start Tag_Other, Ev_Start Tag_Item, Ev_Text (ascii ''outer''),
        Ev_Start Tag_Other, Ev_Start Tag_Item, Ev_Text (ascii ''inner''), Ev_End End_Item, Ev_End End_Other,
      Ev_End End_Item, Ev_End End_Other]"

lemma nested_item_lost:
  "map chunk_raw (all_chunks (sections (run_events lower_ascii nested_list_events None))) = [ascii ''inner'']"
  by code_simp

text \<open>
  Tables: the header row has a tag of its own that starts no buffer, so its cells are dropped, and the cells of a row
  are pushed into one buffer with nothing between them.
\<close>

definition table_events :: "md_event list" where
  "table_events =
     [Ev_Start Tag_Other, Ev_Start Tag_Other, Ev_Start Tag_Other, Ev_Text (ascii ''head''), Ev_End End_Other, Ev_End End_Other,
      Ev_Start Tag_TableRow, Ev_Start Tag_Other, Ev_Text (ascii ''foo''), Ev_End End_Other,
        Ev_Start Tag_Other, Ev_Text (ascii ''bar''), Ev_End End_Other, Ev_End End_TableRow, Ev_End End_Other]"

lemma table_cells_merged:
  "map chunk_raw (all_chunks (sections (run_events lower_ascii table_events None))) = [ascii ''foobar'']"
  by code_simp

end
