(* ===== verification/Vault_Tree.thy ===== *)
theory Vault_Tree
  imports Vault_Fs
begin

text \<open>
  The further file operations the vault's commands perform, on the tree of \<open>Vault_Fs\<close>: \<^verbatim>\<open>create_dir_all\<close>,
  \<^verbatim>\<open>remove_dir_all\<close> and \<^verbatim>\<open>rename\<close> as the system calls of a Unix system behave, and the laws that say what each of them
  changes. \<open>None\<close> is an error of the operating system.
\<close>

section \<open>Operations\<close>

fun fs_mkdirs :: "fpath \<Rightarrow> fnode option \<Rightarrow> fnode option" where
  "fs_mkdirs [] None = Some (Dir [])"
| "fs_mkdirs [] (Some (Dir es)) = Some (Dir es)"
| "fs_mkdirs [] (Some _) = None"
| "fs_mkdirs (x # xs) None = map_option (\<lambda>n. Dir [(x, n)]) (fs_mkdirs xs None)"
| "fs_mkdirs (x # xs) (Some (Dir es)) = map_option (\<lambda>n. Dir (set_entry x n es)) (fs_mkdirs xs (map_of es x))"
| "fs_mkdirs (x # xs) (Some _) = None"

text \<open>Taking the entry at a path out of its directory, and putting one into a directory that exists.\<close>

fun fs_detach :: "fpath \<Rightarrow> fnode \<Rightarrow> fnode option" where
  "fs_detach [x] (Dir es) =
     (if map_of es x = None then None else Some (Dir (filter (\<lambda>(y, _). y \<noteq> x) es)))"
| "fs_detach (x # y # ys) (Dir es) =
     (case map_of es x of
        None \<Rightarrow> None
      | Some n \<Rightarrow> map_option (\<lambda>n'. Dir (set_entry x n' es)) (fs_detach (y # ys) n))"
| "fs_detach _ _ = None"

fun fs_attach :: "fpath \<Rightarrow> fnode \<Rightarrow> fnode \<Rightarrow> fnode option" where
  "fs_attach [x] m (Dir es) = Some (Dir (set_entry x m es))"
| "fs_attach (x # y # ys) m (Dir es) =
     (case map_of es x of
        None \<Rightarrow> None
      | Some n \<Rightarrow> map_option (\<lambda>n'. Dir (set_entry x n' es)) (fs_attach (y # ys) m n))"
| "fs_attach _ _ _ = None"

text \<open>
  \<^verbatim>\<open>rename(2)\<close>: nothing happens when both paths are the same; a directory may not move below itself; what stands at
  the destination is replaced when it is no directory, or when an empty directory is replaced by a directory.
\<close>

fun replaceable :: "fnode \<Rightarrow> fnode option \<Rightarrow> bool" where
  "replaceable m None = True"
| "replaceable (Dir ds) (Some (Dir es)) = (es = [])"
| "replaceable (Dir ds) (Some _) = False"
| "replaceable m (Some (Dir es)) = False"
| "replaceable m (Some _) = True"

definition fs_rename :: "fpath \<Rightarrow> fpath \<Rightarrow> fnode \<Rightarrow> fnode option" where
  "fs_rename src dst fs =
     (case fs_lookup fs src of
        None \<Rightarrow> None
      | Some m \<Rightarrow>
          if src = dst then Some fs
          else if prefix src dst \<or> \<not> replaceable m (fs_lookup fs dst) then None
          else Option.bind (fs_detach src fs) (fs_attach dst m))"

text \<open>\<^verbatim>\<open>remove_dir_all\<close> removes a directory with all it contains; it does not follow a symbolic link but removes it.\<close>

definition fs_remove_dir_all :: "fpath \<Rightarrow> fnode \<Rightarrow> fnode option" where
  "fs_remove_dir_all p fs =
     (case fs_lookup fs p of
        Some (Dir _) \<Rightarrow> fs_detach p fs
      | Some (Symlink _) \<Rightarrow> fs_detach p fs
      | _ \<Rightarrow> None)"

text \<open>
  It removes entry by entry, so one that fails may leave a part: the entries below the directory for which \<open>left\<close> holds.
\<close>

fun fs_prune :: "(fpath \<Rightarrow> bool) \<Rightarrow> fpath \<Rightarrow> fnode \<Rightarrow> fnode" where
  "fs_prune left p (Dir es) =
     Dir (concat (map (\<lambda>(x, n). if left (p @ [x]) then [(x, fs_prune left (p @ [x]) n)] else []) es))"
| "fs_prune left p n = n"

definition fs_remove_some :: "(fpath \<Rightarrow> bool) \<Rightarrow> fpath \<Rightarrow> fnode \<Rightarrow> fnode option" where
  "fs_remove_some left p fs =
     (case fs_lookup fs p of
        Some (Dir es) \<Rightarrow> fs_attach p (fs_prune left [] (Dir es)) fs
      | _ \<Rightarrow> None)"

definition fs_is_dir :: "fnode \<Rightarrow> fpath \<Rightarrow> bool" where
  "fs_is_dir fs p = (case fs_lookup fs p of Some (Dir _) \<Rightarrow> True | _ \<Rightarrow> False)"

section \<open>What the operations change\<close>

text \<open>Making directories changes no file and removes no entry.\<close>

lemma mkdirs_new: "fs_mkdirs p None = Some n \<Longrightarrow> fs_read n q = None"
  by (induction p arbitrary: n q) (auto simp: fs_read_def, case_tac [!] q, auto)

lemma mkdirs_read: "fs_mkdirs p (Some n) = Some n' \<Longrightarrow> fs_read n' q = fs_read n q"
proof (induction p arbitrary: n n' q)
  case Nil
  then show ?case by (cases n) auto
next
  case (Cons x p)
  then obtain es m where n: "n = Dir es" "fs_mkdirs p (map_of es x) = Some m" "n' = Dir (set_entry x m es)"
    by (cases n) auto
  have "fs_read m r = (case map_of es x of None \<Rightarrow> None | Some k \<Rightarrow> fs_read k r)" for r
    using Cons.IH n(2) mkdirs_new by (cases "map_of es x") auto
  then show ?case by (cases q) (auto simp: n(1,3) fs_read_def map_of_set_entry split: option.splits)
qed

lemma mkdirs_lookup: "fs_mkdirs p (Some n) = Some n' \<Longrightarrow> fs_lookup n q = Some m \<Longrightarrow> \<not> prefix q p \<Longrightarrow> fs_lookup n' q = Some m"
proof (induction p arbitrary: n n' q)
  case Nil
  then show ?case by (cases n) auto
next
  case (Cons x p)
  then obtain es k where n: "n = Dir es" "fs_mkdirs p (map_of es x) = Some k" "n' = Dir (set_entry x k es)"
    by (cases n) auto
  obtain y ys where q: "q = y # ys" using Cons.prems(3) by (cases q) auto
  with Cons.prems(2,3) Cons.IH n show ?case
    by (cases "map_of es x") (auto simp: map_of_set_entry split: option.splits if_splits)
qed

lemma mkdirs_dir: "fs_mkdirs p n = Some n' \<Longrightarrow> \<exists>es. fs_lookup n' p = Some (Dir es)"
  by (induction p n arbitrary: n' rule: fs_mkdirs.induct) (auto simp: map_of_set_entry)

lemma mkdirs_missing:
  "fs_mkdirs p (Some n) = Some n' \<Longrightarrow> fs_lookup n q = None \<Longrightarrow> \<not> prefix q p \<Longrightarrow> fs_lookup n' q = None"
proof (induction p arbitrary: n n' q)
  case Nil
  then show ?case by (cases n) auto
next
  case (Cons x p)
  then obtain es k where n: "n = Dir es" "fs_mkdirs p (map_of es x) = Some k" "n' = Dir (set_entry x k es)"
    by (cases n) auto
  obtain y ys where q: "q = y # ys" using Cons.prems(3) by (cases q) auto
  have new: "fs_mkdirs p None = Some k \<Longrightarrow> \<not> prefix r p \<Longrightarrow> fs_lookup k r = None" for r p k
  proof (induction p arbitrary: k r)
    case Nil
    then show ?case by (cases r) auto
  next
    case (Cons z p)
    then show ?case by (cases r) auto
  qed
  show ?case
  proof (cases "y = x")
    case True
    with Cons.prems(2,3) Cons.IH n q new show ?thesis
      by (cases "map_of es x") (auto simp: map_of_set_entry)
  next
    case False
    with Cons.prems(2) n q show ?thesis by (simp add: map_of_set_entry)
  qed
qed

text \<open>Taking out and putting in.\<close>

lemma detach_lookup:
  "fs_detach p n = Some n' \<Longrightarrow> \<not> prefix q p \<Longrightarrow> fs_lookup n' q = (if prefix p q then None else fs_lookup n q)"
proof (induction p n arbitrary: n' q rule: fs_detach.induct)
  case (1 x es)
  then show ?case by (cases q) (auto simp: map_of_filter_key split: if_splits)
next
  case (2 x y ys es)
  then obtain m m' where m: "map_of es x = Some m" "fs_detach (y # ys) m = Some m'" "n' = Dir (set_entry x m' es)"
    by (auto split: option.splits)
  then show ?case using 2 by (cases q) (auto simp: map_of_set_entry)
qed auto

lemma detach_gone: "fs_detach p n = Some n' \<Longrightarrow> fs_lookup n' p = None"
proof (induction p n arbitrary: n' rule: fs_detach.induct)
  case (1 x es)
  then show ?case by (auto simp: map_of_filter_key split: if_splits)
next
  case (2 x y ys es)
  then show ?case by (auto simp: map_of_set_entry split: option.splits)
qed auto

lemma detach_read: "fs_detach p n = Some n' \<Longrightarrow> fs_read n' q = (if prefix p q then None else fs_read n q)"
proof (induction p n arbitrary: n' q rule: fs_detach.induct)
  case (1 x es)
  then show ?case by (cases q) (auto simp: fs_read_def map_of_filter_key split: if_splits)
next
  case (2 x y ys es)
  then obtain m m' where m: "map_of es x = Some m" "fs_detach (y # ys) m = Some m'" "n' = Dir (set_entry x m' es)"
    by (auto split: option.splits)
  then show ?case using 2 by (cases q) (auto simp: fs_read_def map_of_set_entry)
qed auto

lemma attach_lookup: "fs_attach p m n = Some n' \<Longrightarrow> fs_lookup n' (p @ q) = fs_lookup m q"
proof (induction p m n arbitrary: n' rule: fs_attach.induct)
  case (2 x y ys m es)
  then show ?case by (auto simp: map_of_set_entry split: option.splits)
qed (auto simp: map_of_set_entry)

lemma attach_read:
  "fs_attach p m n = Some n' \<Longrightarrow> \<not> prefix p q \<Longrightarrow> fs_read n' q = fs_read n q"
proof (induction p m n arbitrary: n' q rule: fs_attach.induct)
  case (1 x m es)
  then show ?case by (cases q) (auto simp: fs_read_def map_of_set_entry)
next
  case (2 x y ys m es)
  then obtain k k' where k: "map_of es x = Some k" "fs_attach (y # ys) m k = Some k'" "n' = Dir (set_entry x k' es)"
    by (auto split: option.splits)
  then show ?case using 2 by (cases q) (auto simp: fs_read_def map_of_set_entry)
qed auto

lemma attach_lookup_other:
  "fs_attach p m n = Some n' \<Longrightarrow> \<not> prefix p q \<Longrightarrow> \<not> prefix q p \<Longrightarrow> fs_lookup n' q = fs_lookup n q"
proof (induction p m n arbitrary: n' q rule: fs_attach.induct)
  case (1 x m es)
  then show ?case by (cases q) (auto simp: map_of_set_entry)
next
  case (2 x y ys m es)
  then obtain k k' where k: "map_of es x = Some k" "fs_attach (y # ys) m k = Some k'" "n' = Dir (set_entry x k' es)"
    by (auto split: option.splits)
  then show ?case using 2 by (cases q) (auto simp: map_of_set_entry)
qed auto

text \<open>A rename moves the whole entry and changes no file elsewhere.\<close>

lemma rename_moves:
  assumes "fs_rename src dst fs = Some fs'" "src \<noteq> dst"
  shows "fs_lookup fs' (dst @ q) = fs_lookup fs (src @ q)"
    and "\<not> prefix dst r \<Longrightarrow> fs_read fs' r = (if prefix src r then None else fs_read fs r)"
    and "\<not> prefix src dst"
proof -
  obtain m k where m: "fs_lookup fs src = Some m" "fs_detach src fs = Some k" "fs_attach dst m k = Some fs'"
    "\<not> prefix src dst"
    using assms by (auto simp: fs_rename_def split: option.splits if_splits bind_splits)
  have "fs_lookup fs (src @ q) = fs_lookup m q"
    using m(1) by (induction fs src rule: fs_lookup.induct) (auto split: option.splits)
  then show "fs_lookup fs' (dst @ q) = fs_lookup fs (src @ q)" using attach_lookup [OF m(3)] by simp
  show "\<not> prefix dst r \<Longrightarrow> fs_read fs' r = (if prefix src r then None else fs_read fs r)"
    using attach_read [OF m(3)] detach_read [OF m(2)] by simp
  show "\<not> prefix src dst" by (rule m(4))
qed

lemma rename_gone:
  assumes "fs_rename src dst fs = Some fs'" "src \<noteq> dst" "\<not> prefix dst src"
  shows "fs_lookup fs' src = None"
proof -
  obtain m k where m: "fs_detach src fs = Some k" "fs_attach dst m k = Some fs'" "\<not> prefix src dst"
    using assms by (auto simp: fs_rename_def split: option.splits if_splits bind_splits)
  with attach_lookup_other [OF m(2), of src] detach_gone [OF m(1)] assms(3) show ?thesis by simp
qed

lemma remove_dir_all_read:
  "fs_remove_dir_all p fs = Some fs' \<Longrightarrow> fs_read fs' q = (if prefix p q then None else fs_read fs q)"
  by (auto simp: fs_remove_dir_all_def detach_read split: option.splits fnode.splits)

text \<open>A removal that stops half way has taken some files below the directory and changed no other.\<close>

lemma map_of_pruned:
  "map_of (concat (map (\<lambda>(x, n). if P x then [(x, f x n)] else []) es)) x = (if P x then map_option (f x) (map_of es x) else None)"
  by (induction es) auto

lemma prune_read: "fs_read (fs_prune left p n) q = fs_read n q \<or> fs_read (fs_prune left p n) q = None"
proof (induction q arbitrary: n p)
  case Nil
  then show ?case by (cases n) (auto simp: fs_read_def)
next
  case (Cons x q)
  show ?case
  proof (cases n)
    case (Dir es)
    have "map_of (concat (map (\<lambda>(x, n). if left (p @ [x]) then [(x, fs_prune left (p @ [x]) n)] else []) es)) x =
        (if left (p @ [x]) then map_option (fs_prune left (p @ [x])) (map_of es x) else None)"
      using map_of_pruned [of "\<lambda>x. left (p @ [x])" "\<lambda>x. fs_prune left (p @ [x])" es x] .
    with Dir Cons.IH [of "p @ [x]"] show ?thesis by (cases "map_of es x") (auto simp: fs_read_def)
  qed auto
qed

lemma lookup_below: "fs_lookup n p = Some m \<Longrightarrow> fs_lookup n (p @ q) = fs_lookup m q"
  by (induction n p rule: fs_lookup.induct) (auto split: option.splits)

lemma remove_some_read:
  assumes "fs_remove_some left p fs = Some fs'"
  shows "fs_read fs' q = fs_read fs q \<or> prefix p q \<and> fs_read fs' q = None"
proof (cases "prefix p q")
  case False
  with assms show ?thesis by (auto simp: fs_remove_some_def attach_read split: option.splits fnode.splits)
next
  case True
  then obtain r where q: "q = p @ r" by (auto elim: prefixE)
  from assms obtain es where es: "fs_lookup fs p = Some (Dir es)" "fs_attach p (fs_prune left [] (Dir es)) fs = Some fs'"
    by (auto simp: fs_remove_some_def split: option.splits fnode.splits)
  have "fs_read fs' q = fs_read (fs_prune left [] (Dir es)) r" unfolding q fs_read_def attach_lookup [OF es(2)] ..
  moreover have "fs_read fs q = fs_read (Dir es) r" using es(1) by (simp add: q fs_read_def lookup_below)
  ultimately show ?thesis using prune_read [of left "[]" "Dir es" r] True by auto
qed

end
