(* ===== verification/Vault_Checksum.thy ===== *)
theory Vault_Checksum
  imports Vault_Tree
begin

text \<open>
  Guarded file operations (\<^verbatim>\<open>vault/checksum.rs\<close>): create, write, delete and rename that first check that nothing else has
  changed the file. Every call of the operating system is numbered and may fail for reasons of its own (\<open>os_fault\<close>), so
  every error path is a behaviour of the model; a failed call changes nothing. The hash (BLAKE3 in hexadecimal) is a parameter.
\<close>

section \<open>Calls of the operating system\<close>

text \<open>
  Every call is numbered, and any of them may fail. A call that fails may have done a part of its work: a write has
  opened the file and left the first bytes of the new contents in it (\<open>os_torn\<close>), the removal of a directory has removed
  some of the entries and left others (\<open>os_left\<close>), and the creation of directories has made the first of them (\<open>os_made\<close>).
  Renaming and the removal of one file are single system calls and do all or nothing.
\<close>

record os_env =
  os_fault :: "nat \<Rightarrow> bool"
  os_text :: string
  os_mtime :: "nat \<Rightarrow> int"
  os_torn :: "nat \<Rightarrow> nat option"
  os_left :: "nat \<Rightarrow> fpath \<Rightarrow> bool"
  os_made :: "nat \<Rightarrow> nat"

record os_state =
  os_fs :: fnode
  os_ops :: nat

definition os_try ::
  "os_env \<Rightarrow> (fnode \<Rightarrow> fnode option) \<Rightarrow> (fnode \<Rightarrow> fnode option) \<Rightarrow> os_state \<Rightarrow> (unit, string) result \<times> os_state" where
  "os_try OS f part st =
     (let st' = st\<lparr>os_ops := os_ops st + 1\<rparr> in
      if os_fault OS (os_ops st)
      then (Err (os_text OS), case part (os_fs st) of Some fs \<Rightarrow> st'\<lparr>os_fs := fs\<rparr> | None \<Rightarrow> st')
      else (case f (os_fs st) of
              Some fs \<Rightarrow> (Ok (), st'\<lparr>os_fs := fs\<rparr>)
            | None \<Rightarrow> (Err (os_text OS), st')))"

definition os_ask :: "os_env \<Rightarrow> (fnode \<Rightarrow> 'a option) \<Rightarrow> os_state \<Rightarrow> ('a, string) result \<times> os_state" where
  "os_ask OS f st =
     (let st' = st\<lparr>os_ops := os_ops st + 1\<rparr> in
      if os_fault OS (os_ops st) then (Err (os_text OS), st')
      else (ok_or (f (os_fs st)) (os_text OS), st'))"

text \<open>\<^verbatim>\<open>try_exists\<close> is an error below a file.\<close>

definition try_exists :: "os_env \<Rightarrow> fpath \<Rightarrow> os_state \<Rightarrow> (bool, string) result \<times> os_state" where
  "try_exists OS p = os_ask OS (\<lambda>fs. if parent_blocked fs p then None else Some (fs_exists fs p))"

text \<open>\<^verbatim>\<open>read_to_string\<close> also fails when the contents are no UTF-8.\<close>

definition read_to_string :: "os_env \<Rightarrow> fpath \<Rightarrow> os_state \<Rightarrow> (string, string) result \<times> os_state" where
  "read_to_string OS p =
     os_ask OS (\<lambda>fs. case fs_read fs p of Some b \<Rightarrow> if utf8_valid b then Some b else None | None \<Rightarrow> None)"

definition create_dir_all :: "os_env \<Rightarrow> fpath \<Rightarrow> os_state \<Rightarrow> (unit, string) result \<times> os_state" where
  "create_dir_all OS p st =
     os_try OS (\<lambda>fs. fs_mkdirs p (Some fs)) (\<lambda>fs. fs_mkdirs (take (os_made OS (os_ops st)) p) (Some fs)) st"

text \<open>\<^verbatim>\<open>fs::write\<close> needs the directory; it creates the file or truncates it, and writes the contents after that.\<close>

definition written_file :: "fpath \<Rightarrow> bytes \<Rightarrow> int \<Rightarrow> fnode \<Rightarrow> fnode option" where
  "written_file p content t fs = (if p \<noteq> [] \<and> fs_is_dir fs (butlast p) then fs_write p content t (Some fs) else None)"

definition os_write :: "os_env \<Rightarrow> fpath \<Rightarrow> bytes \<Rightarrow> os_state \<Rightarrow> (unit, string) result \<times> os_state" where
  "os_write OS p content st =
     os_try OS (written_file p content (os_mtime OS (os_ops st)))
       (\<lambda>fs. case os_torn OS (os_ops st) of
                None \<Rightarrow> None
              | Some k \<Rightarrow> written_file p (take k content) (os_mtime OS (os_ops st)) fs) st"

definition os_remove_file :: "os_env \<Rightarrow> fpath \<Rightarrow> os_state \<Rightarrow> (unit, string) result \<times> os_state" where
  "os_remove_file OS p = os_try OS (\<lambda>fs. case fs_remove p fs of Ok fs' \<Rightarrow> Some fs' | Err _ \<Rightarrow> None) (\<lambda>_. None)"

definition os_remove_dir_all :: "os_env \<Rightarrow> fpath \<Rightarrow> os_state \<Rightarrow> (unit, string) result \<times> os_state" where
  "os_remove_dir_all OS p st =
     os_try OS (fs_remove_dir_all p) (fs_remove_some (os_left OS (os_ops st)) p) st"

definition os_rename :: "os_env \<Rightarrow> fpath \<Rightarrow> fpath \<Rightarrow> os_state \<Rightarrow> (unit, string) result \<times> os_state" where
  "os_rename OS src dst = os_try OS (fs_rename src dst) (\<lambda>_. None)"

text \<open>\<^verbatim>\<open>map_err\<close> on the result of a call.\<close>

definition fail_as :: "('e \<Rightarrow> 'f) \<Rightarrow> ('a, 'e) result \<times> 's \<Rightarrow> ('a, 'f) result \<times> 's" where
  "fail_as f r = (map_err f (fst r), snd r)"

section \<open>Conflicts and checksums\<close>

record conflict_item =
  ci_path :: string
  ci_reason :: string
  ci_expected :: "string option"
  ci_actual :: "string option"

definition conflict :: "fpath \<Rightarrow> string \<Rightarrow> conflict_item" where
  "conflict path reason =
     \<lparr>ci_path = display_path path, ci_reason = reason, ci_expected = None, ci_actual = None\<rparr>"

definition checksum_conflict :: "fpath \<Rightarrow> string \<Rightarrow> string \<Rightarrow> conflict_item" where
  "checksum_conflict path expected actual =
     \<lparr>ci_path = display_path path,
      ci_reason = ''Checksum mismatch: expected '' @ expected @ '', actual '' @ actual,
      ci_expected = Some expected, ci_actual = Some actual\<rparr>"

definition compute_checksum :: "(bytes \<Rightarrow> string) \<Rightarrow> bytes \<Rightarrow> string" where
  "compute_checksum blake3 content = blake3 content"

text \<open>A directory: every directory and file below it with its path from there, symbolic links left out.\<close>

record directory_entry_checksum =
  de_relative_path :: string
  de_kind :: string
  de_checksum :: "string option"

fun collect_directory_entries :: "(bytes \<Rightarrow> string) \<Rightarrow> fpath \<Rightarrow> fnode \<Rightarrow> directory_entry_checksum list" where
  "collect_directory_entries blake3 dir (Dir es) =
     concat (map (\<lambda>(name, n).
       case n of
         Symlink _ \<Rightarrow> []
       | Dir _ \<Rightarrow>
           \<lparr>de_relative_path = to_relative_path (dir @ [name]), de_kind = ''dir'', de_checksum = None\<rparr> #
           collect_directory_entries blake3 (dir @ [name]) n
       | File b _ \<Rightarrow>
           [\<lparr>de_relative_path = to_relative_path (dir @ [name]), de_kind = ''file'', de_checksum = Some (blake3 b)\<rparr>]) es)"
| "collect_directory_entries blake3 dir _ = []"

definition NUL :: char where "NUL = CHR 0x00"
definition LF :: char where "LF = CHR 0x0A"

definition hash_entry :: "directory_entry_checksum \<Rightarrow> bytes" where
  "hash_entry entry =
     de_kind entry @ [NUL] @ de_relative_path entry @ [NUL] @
     (case de_checksum entry of Some checksum \<Rightarrow> checksum | None \<Rightarrow> []) @ [LF]"

definition directory_listing :: "(bytes \<Rightarrow> string) \<Rightarrow> fnode \<Rightarrow> directory_entry_checksum list" where
  "directory_listing blake3 n = sort_key de_relative_path (collect_directory_entries blake3 [] n)"

definition compute_directory_checksum :: "(bytes \<Rightarrow> string) \<Rightarrow> fpath \<Rightarrow> fnode \<Rightarrow> string option" where
  "compute_directory_checksum blake3 path fs =
     (case fs_lookup fs path of
        Some (Dir es) \<Rightarrow> Some (blake3 (concat (map hash_entry (directory_listing blake3 (Dir es)))))
      | _ \<Rightarrow> None)"

section \<open>Guarded operations\<close>

definition guarded_create :: "os_env \<Rightarrow> fpath \<Rightarrow> fpath \<Rightarrow> bytes \<Rightarrow> os_state \<Rightarrow> (unit, conflict_item) result \<times> os_state" where
  "guarded_create OS root path content st =
     (let fail = (\<lambda>reason. conflict (root @ path) reason) in
      try_then (fail_as (\<lambda>e. fail (''Existence check failed: '' @ e)) (try_exists OS path st)) (\<lambda>exists_already st.
      if exists_already then (Err (fail ''File already exists''), st)
      else
        try_then (fail_as (\<lambda>e. fail (''Failed to create parent directories: '' @ e)) (create_dir_all OS (butlast path) st)) (\<lambda>_ st.
          fail_as (\<lambda>e. fail (''Failed to write file: '' @ e)) (os_write OS path content st))))"

definition guarded_create_dir :: "os_env \<Rightarrow> fpath \<Rightarrow> fpath \<Rightarrow> os_state \<Rightarrow> (unit, conflict_item) result \<times> os_state" where
  "guarded_create_dir OS root path st =
     (let fail = (\<lambda>reason. conflict (root @ path) reason) in
      try_then (fail_as (\<lambda>e. fail (''Existence check failed: '' @ e)) (try_exists OS path st)) (\<lambda>exists_already st.
      if exists_already then (Err (fail ''Directory already exists''), st)
      else fail_as (\<lambda>e. fail (''Failed to create directory: '' @ e)) (create_dir_all OS path st)))"

definition guarded_write ::
  "(bytes \<Rightarrow> string) \<Rightarrow> os_env \<Rightarrow> fpath \<Rightarrow> fpath \<Rightarrow> bytes \<Rightarrow> string \<Rightarrow> os_state \<Rightarrow> (unit, conflict_item) result \<times> os_state" where
  "guarded_write blake3 OS root path content expected_checksum st =
     (let fail = (\<lambda>reason. conflict (root @ path) reason) in
      try_then (fail_as (\<lambda>e. fail (''Failed to read file: '' @ e)) (read_to_string OS path st)) (\<lambda>current st.
        let actual = compute_checksum blake3 current in
        if actual \<noteq> expected_checksum then (Err (checksum_conflict (root @ path) expected_checksum actual), st)
        else fail_as (\<lambda>e. fail (''Failed to write file: '' @ e)) (os_write OS path content st)))"

definition guarded_delete ::
  "(bytes \<Rightarrow> string) \<Rightarrow> os_env \<Rightarrow> fpath \<Rightarrow> fpath \<Rightarrow> string \<Rightarrow> os_state \<Rightarrow> (unit, conflict_item) result \<times> os_state" where
  "guarded_delete blake3 OS root path expected_checksum st =
     (let fail = (\<lambda>reason. conflict (root @ path) reason) in
      try_then (fail_as (\<lambda>e. fail (''Failed to read file: '' @ e)) (read_to_string OS path st)) (\<lambda>current st.
        let actual = compute_checksum blake3 current in
        if actual \<noteq> expected_checksum then (Err (checksum_conflict (root @ path) expected_checksum actual), st)
        else fail_as (\<lambda>e. fail (''Failed to delete file: '' @ e)) (os_remove_file OS path st)))"

definition guarded_delete_dir ::
  "(bytes \<Rightarrow> string) \<Rightarrow> os_env \<Rightarrow> fpath \<Rightarrow> fpath \<Rightarrow> string \<Rightarrow> os_state \<Rightarrow> (unit, conflict_item) result \<times> os_state" where
  "guarded_delete_dir blake3 OS root path expected_checksum st =
     (let fail = (\<lambda>reason. conflict (root @ path) reason) in
      try_then (fail_as (\<lambda>e. fail (''Failed to stat directory: '' @ e)) (os_ask OS (\<lambda>fs. fs_lookup fs path) st)) (\<lambda>metadata st.
      if \<not> (case metadata of Dir _ \<Rightarrow> True | _ \<Rightarrow> False) then (Err (fail ''Path is not a directory''), st)
      else
        try_then (fail_as (\<lambda>e. fail (''Failed to checksum directory: '' @ e))
            (os_ask OS (compute_directory_checksum blake3 path) st)) (\<lambda>actual st.
        if actual \<noteq> expected_checksum then (Err (checksum_conflict (root @ path) expected_checksum actual), st)
        else fail_as (\<lambda>e. fail (''Failed to delete directory: '' @ e)) (os_remove_dir_all OS path st))))"

definition guarded_rename :: "os_env \<Rightarrow> fpath \<Rightarrow> fpath \<Rightarrow> fpath \<Rightarrow> os_state \<Rightarrow> (unit, conflict_item) result \<times> os_state" where
  "guarded_rename OS root src dst st =
     (try_then (fail_as (\<lambda>e. conflict (root @ src) (''Existence check failed: '' @ e)) (try_exists OS src st)) (\<lambda>src_exists st.
      if \<not> src_exists then (Err (conflict (root @ src) ''Source file does not exist''), st)
      else
        try_then (fail_as (\<lambda>e. conflict (root @ dst) (''Existence check failed: '' @ e)) (try_exists OS dst st)) (\<lambda>dst_exists st.
        if dst_exists then (Err (conflict (root @ dst) ''Destination file already exists''), st)
        else
          try_then (fail_as (\<lambda>e. conflict (root @ dst) (''Failed to create parent directories: '' @ e))
              (create_dir_all OS (butlast dst) st)) (\<lambda>_ st.
            fail_as (\<lambda>e. conflict (root @ src) (''Failed to rename file: '' @ e)) (os_rename OS src dst st)))))"

section \<open>What the guards promise\<close>

datatype guarded_op =
    GCreate fpath bytes
  | GCreateDir fpath
  | GWrite fpath bytes string
  | GDelete fpath string
  | GDeleteDir fpath string
  | GRename fpath fpath

fun run_guarded :: "(bytes \<Rightarrow> string) \<Rightarrow> os_env \<Rightarrow> fpath \<Rightarrow> guarded_op \<Rightarrow> os_state \<Rightarrow> (unit, conflict_item) result \<times> os_state" where
  "run_guarded blake3 OS root (GCreate p c) st = guarded_create OS root p c st"
| "run_guarded blake3 OS root (GCreateDir p) st = guarded_create_dir OS root p st"
| "run_guarded blake3 OS root (GWrite p c e) st = guarded_write blake3 OS root p c e st"
| "run_guarded blake3 OS root (GDelete p e) st = guarded_delete blake3 OS root p e st"
| "run_guarded blake3 OS root (GDeleteDir p e) st = guarded_delete_dir blake3 OS root p e st"
| "run_guarded blake3 OS root (GRename src dst) st = guarded_rename OS root src dst st"

text \<open>The condition an operation checks, and the files there are after it.\<close>

fun guard_holds :: "(bytes \<Rightarrow> string) \<Rightarrow> fnode \<Rightarrow> guarded_op \<Rightarrow> bool" where
  "guard_holds blake3 fs (GCreate p c) = (\<not> fs_exists fs p)"
| "guard_holds blake3 fs (GCreateDir p) = (\<not> fs_exists fs p)"
| "guard_holds blake3 fs (GWrite p c e) = (\<exists>current. fs_read fs p = Some current \<and> blake3 current = e)"
| "guard_holds blake3 fs (GDelete p e) = (\<exists>current. fs_read fs p = Some current \<and> blake3 current = e)"
| "guard_holds blake3 fs (GDeleteDir p e) = (compute_directory_checksum blake3 p fs = Some e)"
| "guard_holds blake3 fs (GRename src dst) = (fs_exists fs src \<and> \<not> fs_exists fs dst)"

fun files_after :: "guarded_op \<Rightarrow> (fpath \<rightharpoonup> bytes) \<Rightarrow> (fpath \<rightharpoonup> bytes)" where
  "files_after (GCreate p c) files = files(p \<mapsto> c)"
| "files_after (GCreateDir p) files = files"
| "files_after (GWrite p c e) files = files(p \<mapsto> c)"
| "files_after (GDelete p e) files = files(p := None)"
| "files_after (GDeleteDir p e) files = (\<lambda>q. if prefix p q then None else files q)"
| "files_after (GRename src dst) files =
     (\<lambda>q. if prefix dst q then files (src @ drop (length dst) q) else if prefix src q then None else files q)"

text \<open>Rules for the calls: what a call that succeeds did, and that one that fails did nothing.\<close>

lemma os_try_cases:
  assumes "os_try OS f part st = (r, st')"
  obtains (ok) fs where "r = Ok ()" "f (os_fs st) = Some fs" "os_fs st' = fs"
    | (err) "r = Err (os_text OS)" "os_fs st' = os_fs st"
    | (part) fs where "r = Err (os_text OS)" "part (os_fs st) = Some fs" "os_fs st' = fs"
  using assms by (auto simp: os_try_def Let_def split: if_splits option.splits)

lemma os_ask_cases:
  assumes "os_ask OS f st = (r, st')"
  obtains (ok) a where "r = Ok a" "f (os_fs st) = Some a" "os_fs st' = os_fs st"
    | (err) "r = Err (os_text OS)" "os_fs st' = os_fs st"
  using assms by (cases "f (os_fs st)") (auto simp: os_ask_def Let_def split: if_splits)

lemma write_files: "fs_write p b t (Some n) = Some n' \<Longrightarrow> fs_read n' = (fs_read n)(p \<mapsto> b)"
proof
  fix q assume w: "fs_write p b t (Some n) = Some n'"
  have "fs_read n' p = Some b" using fs_lookup_write_same [OF w] by (simp add: fs_read_def)
  with fs_read_write_other [OF w] show "fs_read n' q = ((fs_read n)(p \<mapsto> b)) q" by simp
qed

lemma os_write_cases:
  assumes "os_write OS p content st = (r, st')"
  obtains (ok) "r = Ok ()" "fs_read (os_fs st') = (fs_read (os_fs st))(p \<mapsto> content)"
    | (err) "r = Err (os_text OS)" "os_fs st' = os_fs st"
    | (part) k where "r = Err (os_text OS)" "fs_read (os_fs st') = (fs_read (os_fs st))(p \<mapsto> take k content)"
  using assms unfolding os_write_def written_file_def
  by (elim os_try_cases) (auto split: if_splits option.splits dest: write_files)

lemma create_dir_all_cases:
  assumes "create_dir_all OS p st = (r, st')"
  obtains (ok) "r = Ok ()" "fs_read (os_fs st') = fs_read (os_fs st)" "fs_mkdirs p (Some (os_fs st)) = Some (os_fs st')"
    | (err) "r = Err (os_text OS)" "fs_read (os_fs st') = fs_read (os_fs st)"
  using assms unfolding create_dir_all_def by (elim os_try_cases) (auto dest: mkdirs_read)

lemma read_to_string_cases:
  assumes "read_to_string OS p st = (r, st')"
  obtains (ok) b where "r = Ok b" "fs_read (os_fs st) p = Some b" "utf8_valid b" "os_fs st' = os_fs st"
    | (err) "r = Err (os_text OS)" "os_fs st' = os_fs st"
  using assms unfolding read_to_string_def by (elim os_ask_cases) (auto split: option.splits if_splits)

lemma try_exists_cases:
  assumes "try_exists OS p st = (r, st')"
  obtains (ok) "r = Ok (fs_exists (os_fs st) p)" "os_fs st' = os_fs st"
    | (err) "r = Err (os_text OS)" "os_fs st' = os_fs st"
  using assms unfolding try_exists_def by (elim os_ask_cases) (auto split: if_splits)

lemma remove_file_cases:
  assumes "os_remove_file OS p st = (r, st')"
  obtains (ok) "r = Ok ()" "fs_read (os_fs st') = (fs_read (os_fs st))(p := None)"
    | (err) "r = Err (os_text OS)" "os_fs st' = os_fs st"
  using assms unfolding os_remove_file_def
  by (elim os_try_cases) (auto split: result.splits simp: fs_read_remove fun_eq_iff)

lemma remove_dir_all_cases:
  assumes "os_remove_dir_all OS p st = (r, st')"
  obtains (ok) "r = Ok ()" "fs_read (os_fs st') = (\<lambda>q. if prefix p q then None else fs_read (os_fs st) q)"
    | (part) "r = Err (os_text OS)"
      "\<forall>q. fs_read (os_fs st') q = fs_read (os_fs st) q \<or> prefix p q \<and> fs_read (os_fs st') q = None"
  using assms unfolding os_remove_dir_all_def
  by (elim os_try_cases) (auto simp: remove_dir_all_read fun_eq_iff dest: remove_some_read)

lemma rename_files:
  assumes "fs_rename src dst fs = Some fs'" "src \<noteq> dst"
  shows "fs_read fs' = files_after (GRename src dst) (fs_read fs)"
proof
  fix q
  note m = rename_moves [OF assms]
  show "fs_read fs' q = files_after (GRename src dst) (fs_read fs) q"
  proof (cases "prefix dst q")
    case True
    then obtain r where "q = dst @ r" by (auto simp: prefix_def)
    then show ?thesis using m(1) by (simp add: fs_read_def)
  next
    case False
    then show ?thesis using m(2) by simp
  qed
qed

lemma os_rename_cases:
  assumes "os_rename OS src dst st = (r, st')"
  obtains (ok) "r = Ok ()" "fs_rename src dst (os_fs st) = Some (os_fs st')"
    | (err) "r = Err (os_text OS)" "os_fs st' = os_fs st"
  using assms unfolding os_rename_def by (elim os_try_cases) auto

text \<open>
  What an operation that failed half way may have done: a file to be written holds the first bytes of the new contents,
  of a directory to be deleted some files are gone; the other operations do all or nothing.
\<close>

fun half_done :: "guarded_op \<Rightarrow> (fpath \<rightharpoonup> bytes) \<Rightarrow> (fpath \<rightharpoonup> bytes) \<Rightarrow> bool" where
  "half_done (GCreate p c) files files' \<longleftrightarrow> files' = files \<or> (\<exists>k. files' = files(p \<mapsto> take k c))"
| "half_done (GWrite p c e) files files' \<longleftrightarrow> files' = files \<or> (\<exists>k. files' = files(p \<mapsto> take k c))"
| "half_done (GDeleteDir p e) files files' \<longleftrightarrow> (\<forall>q. files' q = files q \<or> prefix p q \<and> files' q = None)"
| "half_done _ files files' \<longleftrightarrow> files' = files"

lemma half_done_refl: "half_done op files files"
  by (cases op) auto

definition guarded_outcome ::
  "(bytes \<Rightarrow> string) \<Rightarrow> os_state \<Rightarrow> guarded_op \<Rightarrow> (unit, conflict_item) result \<times> os_state \<Rightarrow> bool" where
  "guarded_outcome blake3 st op r =
     (case r of
        (Ok _, st') \<Rightarrow> guard_holds blake3 (os_fs st) op \<and> fs_read (os_fs st') = files_after op (fs_read (os_fs st))
      | (Err _, st') \<Rightarrow>
          (\<not> guard_holds blake3 (os_fs st) op \<longrightarrow> fs_read (os_fs st') = fs_read (os_fs st)) \<and>
          half_done op (fs_read (os_fs st)) (fs_read (os_fs st')))"

lemma guarded_create_outcome: "guarded_outcome blake3 st (GCreate p c) (guarded_create OS root p c st)"
proof -
  obtain r1 st1 where 1: "try_exists OS p st = (r1, st1)" by fastforce
  obtain r2 st2 where 2: "create_dir_all OS (butlast p) st1 = (r2, st2)" by fastforce
  obtain r3 st3 where 3: "os_write OS p c st2 = (r3, st3)" by fastforce
  show ?thesis
    using 1 2 3 unfolding guarded_create_def Let_def fail_as_def guarded_outcome_def
    by (elim try_exists_cases create_dir_all_cases os_write_cases; simp; blast)
qed

lemma guarded_create_dir_outcome: "guarded_outcome blake3 st (GCreateDir p) (guarded_create_dir OS root p st)"
proof -
  obtain r1 st1 where 1: "try_exists OS p st = (r1, st1)" by fastforce
  obtain r2 st2 where 2: "create_dir_all OS p st1 = (r2, st2)" by fastforce
  show ?thesis
    using 1 2 unfolding guarded_create_dir_def Let_def fail_as_def guarded_outcome_def
    by (elim try_exists_cases create_dir_all_cases; simp)
qed

lemma guarded_write_outcome: "guarded_outcome blake3 st (GWrite p c e) (guarded_write blake3 OS root p c e st)"
proof -
  obtain r1 st1 where 1: "read_to_string OS p st = (r1, st1)" by fastforce
  obtain r2 st2 where 2: "os_write OS p c st1 = (r2, st2)" by fastforce
  show ?thesis
    using 1 2 unfolding guarded_write_def Let_def fail_as_def guarded_outcome_def compute_checksum_def
    by (elim read_to_string_cases os_write_cases; simp; blast)
qed

lemma guarded_delete_outcome: "guarded_outcome blake3 st (GDelete p e) (guarded_delete blake3 OS root p e st)"
proof -
  obtain r1 st1 where 1: "read_to_string OS p st = (r1, st1)" by fastforce
  obtain r2 st2 where 2: "os_remove_file OS p st1 = (r2, st2)" by fastforce
  show ?thesis
    using 1 2 unfolding guarded_delete_def Let_def fail_as_def guarded_outcome_def compute_checksum_def
    by (elim read_to_string_cases remove_file_cases; simp)
qed

lemma guarded_delete_dir_outcome: "guarded_outcome blake3 st (GDeleteDir p e) (guarded_delete_dir blake3 OS root p e st)"
proof -
  obtain r1 st1 where 1: "os_ask OS (\<lambda>fs. fs_lookup fs p) st = (r1, st1)" by fastforce
  obtain r2 st2 where 2: "os_ask OS (compute_directory_checksum blake3 p) st1 = (r2, st2)" by fastforce
  obtain r3 st3 where 3: "os_remove_dir_all OS p st2 = (r3, st3)" by fastforce
  show ?thesis
    using 1 2 3 unfolding guarded_delete_dir_def Let_def fail_as_def guarded_outcome_def
    by (elim os_ask_cases remove_dir_all_cases; simp cong: if_cong)
qed

lemma guarded_rename_outcome: "guarded_outcome blake3 st (GRename src dst) (guarded_rename OS root src dst st)"
proof -
  obtain r1 st1 where 1: "try_exists OS src st = (r1, st1)" by fastforce
  obtain r2 st2 where 2: "try_exists OS dst st1 = (r2, st2)" by fastforce
  obtain r3 st3 where 3: "create_dir_all OS (butlast dst) st2 = (r3, st3)" by fastforce
  obtain r4 st4 where 4: "os_rename OS src dst st3 = (r4, st4)" by fastforce
  have moved: "fs_read (os_fs st4) = files_after (GRename src dst) (fs_read (os_fs st3))"
    if "fs_rename src dst (os_fs st3) = Some (os_fs st4)" "src \<noteq> dst"
    using that by (rule rename_files)
  show ?thesis
  proof (cases "src = dst")
    case True
    with 1 2 show ?thesis unfolding guarded_rename_def fail_as_def guarded_outcome_def
      by (elim try_exists_cases; simp)
  next
    case False
    with 1 2 3 4 moved show ?thesis unfolding guarded_rename_def fail_as_def guarded_outcome_def
      by (elim try_exists_cases create_dir_all_cases os_rename_cases; simp)
  qed
qed

lemma run_guarded_outcome: "guarded_outcome blake3 st op (run_guarded blake3 OS root op st)"
  by (cases op)
    (simp_all add: guarded_create_outcome guarded_create_dir_outcome guarded_write_outcome guarded_delete_outcome
      guarded_delete_dir_outcome guarded_rename_outcome)

text \<open>
  C38. A guarded operation that succeeds found its condition fulfilled, a free path or the expected checksum, and
  changed exactly the files it names. One whose condition does not hold fails and changes no file at all. One that fails
  at a later call, half way, leaves a file to be written as it was or with the first bytes of the new contents, and of a
  directory to be deleted some files; every other file is as before.
\<close>

theorem guarded_operation_exact:
  "case run_guarded blake3 OS root op st of
     (Ok _, st') \<Rightarrow> guard_holds blake3 (os_fs st) op \<and> fs_read (os_fs st') = files_after op (fs_read (os_fs st))
   | (Err _, st') \<Rightarrow>
       (guard_holds blake3 (os_fs st) op \<or> fs_read (os_fs st') = fs_read (os_fs st)) \<and>
       half_done op (fs_read (os_fs st)) (fs_read (os_fs st'))"
  using run_guarded_outcome [of blake3 st op OS root] unfolding guarded_outcome_def
  by (auto split: prod.splits result.splits)

section \<open>A directory's checksum identifies its listing\<close>

lemma split_at_mark: "x \<notin> set a \<Longrightarrow> x \<notin> set b \<Longrightarrow> a @ x # s = b @ x # t \<Longrightarrow> a = b \<and> s = t"
proof (induction a arbitrary: b)
  case Nil
  then show ?case by (cases b) auto
next
  case (Cons c a)
  then show ?case by (cases b) auto
qed

definition entry_ok :: "directory_entry_checksum \<Rightarrow> bool" where
  "entry_ok e \<longleftrightarrow> NUL \<notin> set (de_relative_path e) \<and>
     (case de_checksum e of None \<Rightarrow> de_kind e = ''dir'' | Some c \<Rightarrow> de_kind e = ''file'' \<and> LF \<notin> set c)"

lemma kind_marks: "NUL \<notin> set ''dir''" "NUL \<notin> set ''file''" "''dir'' \<noteq> ''file''"
  by (simp_all add: NUL_def)

lemma hash_entry_inj:
  assumes "entry_ok e" "entry_ok f" "hash_entry e @ s = hash_entry f @ t"
  shows "e = f \<and> s = t"
proof -
  let ?c = "\<lambda>e. case de_checksum e of Some c \<Rightarrow> c | None \<Rightarrow> []"
  have kind: "NUL \<notin> set (de_kind e)" "NUL \<notin> set (de_kind f)"
    using assms(1,2) kind_marks by (auto simp: entry_ok_def split: option.splits)
  have eq: "de_kind e @ NUL # (de_relative_path e @ NUL # (?c e @ LF # s)) =
      de_kind f @ NUL # (de_relative_path f @ NUL # (?c f @ LF # t))"
    using assms(3) by (simp add: hash_entry_def)
  from split_at_mark [OF kind eq] have k: "de_kind e = de_kind f"
    "de_relative_path e @ NUL # (?c e @ LF # s) = de_relative_path f @ NUL # (?c f @ LF # t)" by simp_all
  have "NUL \<notin> set (de_relative_path e)" "NUL \<notin> set (de_relative_path f)" using assms(1,2) by (simp_all add: entry_ok_def)
  from split_at_mark [OF this k(2)] have r: "de_relative_path e = de_relative_path f" "?c e @ LF # s = ?c f @ LF # t"
    by simp_all
  have "LF \<notin> set (?c e)" "LF \<notin> set (?c f)" using assms(1,2) by (auto simp: entry_ok_def split: option.splits)
  from split_at_mark [OF this r(2)] have c: "?c e = ?c f" "s = t" by simp_all
  have "de_checksum e = de_checksum f"
    using assms(1,2) k(1) c(1) kind_marks(3) by (auto simp: entry_ok_def split: option.splits)
  with k(1) r(1) c(2) show ?thesis by simp
qed

lemma hash_entries_inj:
  "list_all entry_ok es \<Longrightarrow> list_all entry_ok fs \<Longrightarrow>
   concat (map hash_entry es) = concat (map hash_entry fs) \<Longrightarrow> es = fs"
proof (induction es arbitrary: fs)
  case Nil
  then show ?case by (cases fs) (auto simp: hash_entry_def)
next
  case (Cons e es)
  then obtain f fs' where fs: "fs = f # fs'" by (cases fs) (auto simp: hash_entry_def)
  have "e = f \<and> concat (map hash_entry es) = concat (map hash_entry fs')"
    using Cons.prems fs by (intro hash_entry_inj) simp_all
  with Cons fs show ?case by simp
qed

text \<open>Names on Unix contain no NUL.\<close>

fun names_nul_free :: "fnode \<Rightarrow> bool" where
  "names_nul_free (Dir es) \<longleftrightarrow> list_all (\<lambda>(name, n). NUL \<notin> set name \<and> names_nul_free n) es"
| "names_nul_free _ = True"

lemma join_with_set: "set (join_with sep xs) \<subseteq> set sep \<union> \<Union> (set ` set xs)"
  by (induction sep xs rule: join_with.induct) auto

lemma relative_path_nul_free: "list_all (\<lambda>x. NUL \<notin> set x) p \<Longrightarrow> NUL \<notin> set (to_relative_path p)"
  using join_with_set [of "''/''" p]
  by (auto simp: to_relative_path_def replace_char_def list_all_iff NUL_def split: if_splits)

lemma dir_entry_ok: "NUL \<notin> set r \<Longrightarrow> entry_ok \<lparr>de_relative_path = r, de_kind = ''dir'', de_checksum = None\<rparr>"
  by (simp add: entry_ok_def)

lemma file_entry_ok:
  "NUL \<notin> set r \<Longrightarrow> LF \<notin> set c \<Longrightarrow> entry_ok \<lparr>de_relative_path = r, de_kind = ''file'', de_checksum = Some c\<rparr>"
  by (simp add: entry_ok_def)

text \<open>The hash is written in hexadecimal; of this only that it is one line matters.\<close>

definition one_line :: "(bytes \<Rightarrow> string) \<Rightarrow> bool" where
  "one_line blake3 \<longleftrightarrow> (\<forall>b. LF \<notin> set (blake3 b))"

lemma collected_entries_ok:
  "one_line blake3 \<Longrightarrow> names_nul_free n \<Longrightarrow> list_all (\<lambda>x. NUL \<notin> set x) dir \<Longrightarrow>
   list_all entry_ok (collect_directory_entries blake3 dir n)"
proof (induction blake3 dir n rule: collect_directory_entries.induct)
  case (1 blake3 dir es)
  have "list_all entry_ok (case n of Symlink _ \<Rightarrow> []
      | Dir _ \<Rightarrow> \<lparr>de_relative_path = to_relative_path (dir @ [name]), de_kind = ''dir'', de_checksum = None\<rparr> #
          collect_directory_entries blake3 (dir @ [name]) n
      | File b _ \<Rightarrow> [\<lparr>de_relative_path = to_relative_path (dir @ [name]), de_kind = ''file'', de_checksum = Some (blake3 b)\<rparr>])"
    if e: "(name, n) \<in> set es" for name n
  proof -
    have ok: "NUL \<notin> set name" "names_nul_free n" using e 1(3) by (auto simp: list_all_iff)
    then have rel: "NUL \<notin> set (to_relative_path (dir @ [name]))" using 1(4) by (intro relative_path_nul_free) simp
    have "\<exists>es. n = Dir es \<Longrightarrow> list_all entry_ok (collect_directory_entries blake3 (dir @ [name]) n)"
      using 1(1) [OF e refl] 1(2,4) ok by auto
    then show ?thesis using rel 1(2)
      by (cases n) (simp_all add: dir_entry_ok file_entry_ok one_line_def del: collect_directory_entries.simps)
  qed
  then show ?case by (auto simp: list_all_iff)
qed simp_all

text \<open>
  The checksum of a directory identifies what is in it: when two directories have the same checksum, and the hash
  does not take their two listings to the same value by accident, they have the same listing of directories and
  files with their paths and checksums.
\<close>

theorem directory_checksum_identifies:
  assumes "one_line blake3"
    and "fs_lookup fs1 p1 = Some (Dir es1)" "names_nul_free (Dir es1)"
    and "fs_lookup fs2 p2 = Some (Dir es2)" "names_nul_free (Dir es2)"
    and "compute_directory_checksum blake3 p1 fs1 = compute_directory_checksum blake3 p2 fs2"
    and "inj_on blake3 {concat (map hash_entry (directory_listing blake3 (Dir es1))),
      concat (map hash_entry (directory_listing blake3 (Dir es2)))}"
  shows "directory_listing blake3 (Dir es1) = directory_listing blake3 (Dir es2)"
proof -
  let ?l = "\<lambda>es. directory_listing blake3 (Dir es)"
  have ok: "list_all entry_ok (?l es)" if "names_nul_free (Dir es)" for es
    using collected_entries_ok [OF assms(1) that, of "[]"] by (simp add: directory_listing_def list_all_iff)
  have "blake3 (concat (map hash_entry (?l es1))) = blake3 (concat (map hash_entry (?l es2)))"
    using assms(2,4,6) by (simp add: compute_directory_checksum_def)
  then have "concat (map hash_entry (?l es1)) = concat (map hash_entry (?l es2))"
    by (rule inj_onD [OF assms(7)]) simp_all
  then show ?thesis by (rule hash_entries_inj [OF ok [OF assms(3)] ok [OF assms(5)]])
qed

end
