(* ===== verification/Vault_Commands.thy ===== *)
theory Vault_Commands
  imports Vault_Checksum Vault_Watcher
begin

text \<open>
  The commands of the vault (\<^verbatim>\<open>vault/commands.rs\<close>): reading, writing, deleting, moving to the trash and renaming, each of
  which resolves its paths, announces its mutation to the watcher, calls the operating system and notifies the search
  index, and takes the announcement back when it fails. The system's trash (crate \<^verbatim>\<open>trash\<close>) is a parameter, and so are the
  hash, the process identifier and the answers of the search index. Opening and closing a vault, which start and stop
  threads, and the folder dialog are left out.
\<close>

section \<open>State and environment\<close>

record vault_env =
  ve_os :: os_env
  ve_now :: "nat \<Rightarrow> int"
  ve_search_answer :: "nat \<Rightarrow> (unit, string) result"
  ve_blake3 :: "bytes \<Rightarrow> string"
  ve_pid :: string
  ve_trash :: "fpath \<Rightarrow> fnode \<Rightarrow> (fnode, string) result"

record vault_state =
  vs_path :: "fpath option"
  vs_os :: os_state
  vs_ledger :: expected_mutation_ledger
  vs_search :: "search_call list"

type_synonym 'a vault_op = "vault_state \<Rightarrow> ('a, string) result \<times> vault_state"

abbreviation vs_fs :: "vault_state \<Rightarrow> fnode" where
  "vs_fs st \<equiv> os_fs (vs_os st)"

definition on_os :: "(os_state \<Rightarrow> ('a, string) result \<times> os_state) \<Rightarrow> 'a vault_op" where
  "on_os f st = (let (r, os) = f (vs_os st) in (r, st\<lparr>vs_os := os\<rparr>))"

definition get_vault_root :: "vault_state \<Rightarrow> (fpath, string) result" where
  "get_vault_root st = ok_or (vs_path st) ''No vault is currently open''"

text \<open>\<^verbatim>\<open>get_vault_root\<close> and \<^verbatim>\<open>resolve_vault_path_strict\<close>, with which every command begins; the resolved path is relative.\<close>

definition open_path :: "string \<Rightarrow> (fpath \<times> fpath) vault_op" where
  "open_path path st =
     (and_then (get_vault_root st) (\<lambda>root.
      and_then (resolve_vault_path_strict root (vs_fs st) path) (\<lambda>p. Ok (root, p))), st)"

definition expect ::
  "vault_env \<Rightarrow> (int \<Rightarrow> expected_mutation_ledger \<Rightarrow> 64 word \<times> expected_mutation_ledger) \<Rightarrow> vault_state \<Rightarrow> 64 word \<times> vault_state" where
  "expect E record st =
     (let (token, ledger) = record (ve_now E (os_ops (vs_os st))) (vs_ledger st) in (token, st\<lparr>vs_ledger := ledger\<rparr>))"

definition cancel_on_error :: "64 word option \<Rightarrow> ('a, string) result \<times> vault_state \<Rightarrow> ('a, string) result \<times> vault_state" where
  "cancel_on_error token r =
     (case r of
        (Ok a, st) \<Rightarrow> (Ok a, st)
      | (Err e, st) \<Rightarrow>
          (Err e, case token of Some t \<Rightarrow> st\<lparr>vs_ledger := cancel t (vs_ledger st)\<rparr> | None \<Rightarrow> st))"

definition notify :: "vault_env \<Rightarrow> search_call \<Rightarrow> unit vault_op" where
  "notify E call st = (ve_search_answer E (length (vs_search st)), st\<lparr>vs_search := vs_search st @ [call]\<rparr>)"

section \<open>Reading and writing\<close>

definition vault_read_text :: "vault_env \<Rightarrow> string \<Rightarrow> string vault_op" where
  "vault_read_text E path st =
     try_then (open_path path st) (\<lambda>(root, p). on_os (read_to_string (ve_os E) p))"

definition vault_read_binary :: "vault_env \<Rightarrow> string \<Rightarrow> bytes vault_op" where
  "vault_read_binary E path st =
     try_then (open_path path st) (\<lambda>(root, p). on_os (os_ask (ve_os E) (\<lambda>fs. fs_read fs p)))"

definition vault_write_text :: "vault_env \<Rightarrow> string \<Rightarrow> string \<Rightarrow> unit vault_op" where
  "vault_write_text E path content st =
     try_then (open_path path st) (\<lambda>(root, p) st.
       let (mutation, st) = expect E (\<lambda>now. record_write now path False) st in
       cancel_on_error (Some mutation)
         (try_then (on_os (create_dir_all (ve_os E) (butlast p)) st) (\<lambda>_ st.
          try_then (on_os (os_write (ve_os E) p content) st) (\<lambda>_ st.
            notify E (NotifyWritten path ''app-save'') st))))"

definition vault_write_binary :: "vault_env \<Rightarrow> string \<Rightarrow> bytes \<Rightarrow> unit vault_op" where
  "vault_write_binary E path data st =
     try_then (open_path path st) (\<lambda>(root, p) st.
     try_then (on_os (create_dir_all (ve_os E) (butlast p)) st) (\<lambda>_ st.
       on_os (os_write (ve_os E) p data) st))"

record file_read_result =
  fr_content :: string
  fr_checksum :: string

definition vault_read_with_checksum :: "vault_env \<Rightarrow> string \<Rightarrow> file_read_result vault_op" where
  "vault_read_with_checksum E path st =
     try_then (open_path path st) (\<lambda>(root, p) st.
     try_then (on_os (read_to_string (ve_os E) p) st) (\<lambda>content st.
       (Ok \<lparr>fr_content = content, fr_checksum = compute_checksum (ve_blake3 E) content\<rparr>, st)))"

datatype checksum_write_plan = PlanConflict string string | PlanUnchanged string | PlanChanged string

definition plan_checksum_write :: "(bytes \<Rightarrow> string) \<Rightarrow> string \<Rightarrow> string \<Rightarrow> string \<Rightarrow> checksum_write_plan" where
  "plan_checksum_write blake3 current_content next_content expected_checksum =
     (let current_checksum = compute_checksum blake3 current_content in
      if current_content = next_content then PlanUnchanged current_checksum
      else if current_checksum \<noteq> expected_checksum then PlanConflict expected_checksum current_checksum
      else PlanChanged (compute_checksum blake3 next_content))"

datatype checksum_write_result = Written string | WriteConflict string string

definition vault_write_with_checksum :: "vault_env \<Rightarrow> string \<Rightarrow> string \<Rightarrow> string \<Rightarrow> checksum_write_result vault_op" where
  "vault_write_with_checksum E path content checksum st =
     try_then (open_path path st) (\<lambda>(root, p) st.
     try_then (on_os (read_to_string (ve_os E) p) st) (\<lambda>current_content st.
       case plan_checksum_write (ve_blake3 E) current_content content checksum of
         PlanConflict expected actual \<Rightarrow> (Ok (WriteConflict expected actual), st)
       | PlanUnchanged checksum \<Rightarrow> (Ok (Written checksum), st)
       | PlanChanged next_checksum \<Rightarrow>
           let (mutation, st) = expect E (\<lambda>now. record_write now path False) st in
           cancel_on_error (Some mutation)
             (try_then (on_os (os_write (ve_os E) p content) st) (\<lambda>_ st.
              try_then (notify E (NotifyWritten path ''app-save'') st) (\<lambda>_ st.
                (Ok (Written next_checksum), st))))))"

section \<open>Directories\<close>

definition vault_exists :: "vault_env \<Rightarrow> string \<Rightarrow> bool vault_op" where
  "vault_exists E path st =
     try_then (open_path path st) (\<lambda>(root, p). on_os (try_exists (ve_os E) p))"

definition DEFAULT_FILE_EXTENSIONS :: "string list" where "DEFAULT_FILE_EXTENSIONS = [''md'']"

definition vault_list_dir :: "vault_env \<Rightarrow> string \<Rightarrow> file_entry list vault_op" where
  "vault_list_dir E path st =
     try_then (open_path path st) (\<lambda>(root, p).
       on_os (os_ask (ve_os E) (\<lambda>fs. Option.bind (fs_lookup fs p) (read_directory_recursive DEFAULT_FILE_EXTENSIONS p))))"

definition vault_mkdir :: "vault_env \<Rightarrow> string \<Rightarrow> unit vault_op" where
  "vault_mkdir E path st =
     try_then (open_path path st) (\<lambda>(root, p). on_os (create_dir_all (ve_os E) p))"

section \<open>Trash\<close>

definition KUKU_TRASH_DIR :: string where "KUKU_TRASH_DIR = ''.trash''"
definition MAX_SUFFIX_ATTEMPTS :: nat where "MAX_SUFFIX_ATTEMPTS = 10000"

datatype vault_delete_mode = Trash | KukuTrash | Permanent

definition candidate_name :: "string \<Rightarrow> string option \<Rightarrow> nat \<Rightarrow> string" where
  "candidate_name stem ext index =
     (case ext of
        Some e \<Rightarrow> if e \<noteq> [] then stem @ '' '' @ show_nat index @ ''.'' @ e else stem @ '' '' @ show_nat index
      | None \<Rightarrow> stem @ '' '' @ show_nat index)"

definition availability_error :: "fpath \<Rightarrow> string \<Rightarrow> string" where
  "availability_error path error =
     ''Failed to check trash destination availability for '' @ display_path path @ '': '' @ error"

text \<open>\<^verbatim>\<open>for index in 1..=MAX_SUFFIX_ATTEMPTS\<close>; \<open>left\<close> counts the attempts that remain.\<close>

fun suffix_search ::
  "os_env \<Rightarrow> fpath \<Rightarrow> fpath \<Rightarrow> string \<Rightarrow> string option \<Rightarrow> nat \<Rightarrow> nat \<Rightarrow> os_state \<Rightarrow> (fpath, string) result \<times> os_state" where
  "suffix_search OS root path stem ext index 0 st =
     (Err (''Could not find an available trash destination for '' @ display_path (root @ path) @ '' after '' @
        show_nat MAX_SUFFIX_ATTEMPTS @ '' attempts''), st)"
| "suffix_search OS root path stem ext index (Suc left) st =
     (let candidate = butlast path @ [candidate_name stem ext index] in
      case try_exists OS candidate st of
        (Ok False, st) \<Rightarrow> (Ok candidate, st)
      | (Ok True, st) \<Rightarrow> suffix_search OS root path stem ext (index + 1) left st
      | (Err error, st) \<Rightarrow> (Err (availability_error (root @ candidate) error), st))"

definition next_available_path :: "os_env \<Rightarrow> fpath \<Rightarrow> fpath \<Rightarrow> os_state \<Rightarrow> (fpath, string) result \<times> os_state" where
  "next_available_path OS root path st =
     (case try_exists OS path st of
        (Ok False, st) \<Rightarrow> (Ok path, st)
      | (Err error, st) \<Rightarrow> (Err (availability_error (root @ path) error), st)
      | (Ok True, st) \<Rightarrow>
          if path = [] then suffix_search OS root path ''item'' None 1 MAX_SUFFIX_ATTEMPTS st
          else suffix_search OS root path (file_stem_of_name (last path)) (extension_of_name (last path)) 1 MAX_SUFFIX_ATTEMPTS st)"

definition build_kuku_trash_destination :: "vault_env \<Rightarrow> fpath \<Rightarrow> string \<Rightarrow> fpath vault_op" where
  "build_kuku_trash_destination E root relative_path st =
     try_then (resolve_vault_path_strict root (vs_fs st) (KUKU_TRASH_DIR @ ''/'' @ relative_path), st) (\<lambda>candidate.
       on_os (next_available_path (ve_os E) root candidate))"

definition vault_get_trash_path :: "vault_env \<Rightarrow> bool \<Rightarrow> string vault_op" where
  "vault_get_trash_path E ensure_exists st =
     try_then (get_vault_root st, st) (\<lambda>root st.
     try_then (if ensure_exists then on_os (create_dir_all (ve_os E) [KUKU_TRASH_DIR]) st else (Ok (), st)) (\<lambda>_ st.
       (Ok (display_path (root @ [KUKU_TRASH_DIR])), st)))"

definition vault_empty_trash :: "vault_env \<Rightarrow> unit vault_op" where
  "vault_empty_trash E st =
     try_then (get_vault_root st, st) (\<lambda>root st.
     try_then (on_os (try_exists (ve_os E) [KUKU_TRASH_DIR]) st) (\<lambda>found st.
     try_then (if found then on_os (os_remove_dir_all (ve_os E) [KUKU_TRASH_DIR]) st else (Ok (), st)) (\<lambda>_ st.
       on_os (create_dir_all (ve_os E) [KUKU_TRASH_DIR]) st)))"

section \<open>Deleting\<close>

text \<open>\<^verbatim>\<open>tokio::fs::metadata\<close>, whose error \<^verbatim>\<open>NotFound\<close> is a missing entry; below a file it is another error.\<close>

definition metadata :: "os_env \<Rightarrow> fpath \<Rightarrow> os_state \<Rightarrow> (fnode option, string) result \<times> os_state" where
  "metadata OS p = os_ask OS (\<lambda>fs. if parent_blocked fs p then None else Some (fs_lookup fs p))"

fun node_is_dir :: "fnode \<Rightarrow> bool" where
  "node_is_dir (Dir _) = True"
| "node_is_dir _ = False"

definition trash_delete :: "vault_env \<Rightarrow> fpath \<Rightarrow> os_state \<Rightarrow> (unit, string) result \<times> os_state" where
  "trash_delete E p st =
     (case ve_trash E p (os_fs st) of
        Ok fs \<Rightarrow> (Ok (), st\<lparr>os_fs := fs, os_ops := os_ops st + 1\<rparr>)
      | Err e \<Rightarrow> (Err (''Failed to move item to system trash: '' @ e), st\<lparr>os_ops := os_ops st + 1\<rparr>))"

definition delete_entry :: "vault_env \<Rightarrow> fpath \<Rightarrow> string \<Rightarrow> fpath \<Rightarrow> vault_delete_mode \<Rightarrow> fnode option \<Rightarrow> unit vault_op" where
  "delete_entry E root path p mode meta st =
     (case meta of
        None \<Rightarrow> (Ok (), st)
      | Some n \<Rightarrow>
          (case mode of
             Permanent \<Rightarrow>
               if node_is_dir n then on_os (os_remove_dir_all (ve_os E) p) st else on_os (os_remove_file (ve_os E) p) st
           | KukuTrash \<Rightarrow>
               try_then (build_kuku_trash_destination E root path st) (\<lambda>destination st.
               try_then (on_os (create_dir_all (ve_os E) (butlast destination)) st) (\<lambda>_ st.
                 on_os (os_rename (ve_os E) p destination) st))
           | Trash \<Rightarrow> on_os (trash_delete E p) st))"

definition vault_delete :: "vault_env \<Rightarrow> string \<Rightarrow> vault_delete_mode \<Rightarrow> unit vault_op" where
  "vault_delete E path mode st =
     try_then (open_path path st) (\<lambda>(root, p) st.
     if p = [] then (Err ''Cannot delete the vault root'', st)
     else
       try_then (on_os (metadata (ve_os E) p) st) (\<lambda>meta st.
         let is_dir = (case meta of Some n \<Rightarrow> node_is_dir n | None \<Rightarrow> False);
             (mutation, st) =
               (if meta \<noteq> None then (let (t, st) = expect E (\<lambda>now. record_delete now path is_dir) st in (Some t, st))
                else (None, st))
         in cancel_on_error mutation
              (try_then (delete_entry E root path p mode meta st) (\<lambda>_ st.
                notify E (NotifyRemoved path is_dir ''app-delete'') st))))"

definition vault_remove :: "vault_env \<Rightarrow> string \<Rightarrow> unit vault_op" where
  "vault_remove E path = vault_delete E path Permanent"

section \<open>Renaming\<close>

definition is_case_only_rename :: "fpath \<Rightarrow> fpath \<Rightarrow> bool" where
  "is_case_only_rename src dst \<longleftrightarrow> src \<noteq> dst \<and> eq_ignore_ascii_case (display_path src) (display_path dst)"

definition intermediate_path :: "vault_env \<Rightarrow> fpath \<Rightarrow> fpath" where
  "intermediate_path E dst = butlast dst @ [''.kuku-case-rename-'' @ ve_pid E @ ''-'' @ last dst]"

definition rename_via_intermediate :: "vault_env \<Rightarrow> fpath \<Rightarrow> fpath \<Rightarrow> os_state \<Rightarrow> (unit, string) result \<times> os_state" where
  "rename_via_intermediate E src dst st =
     (let intermediate = intermediate_path E dst in
      try_then (os_rename (ve_os E) src intermediate st) (\<lambda>_ st.
        case os_rename (ve_os E) intermediate dst st of
          (Ok _, st) \<Rightarrow> (Ok (), st)
        | (Err error, st) \<Rightarrow> (Err error, snd (os_rename (ve_os E) intermediate src st))))"

definition vault_rename :: "vault_env \<Rightarrow> string \<Rightarrow> string \<Rightarrow> unit vault_op" where
  "vault_rename E src dst st =
     try_then (open_path src st) (\<lambda>(root, from_resolved) st.
     try_then (open_path dst st) (\<lambda>(_, to_resolved) st.
     try_then (on_os (os_ask (ve_os E) (\<lambda>fs. fs_lookup fs from_resolved)) st) (\<lambda>meta st.
       let is_dir = node_is_dir meta in
       if from_resolved = [] \<or> to_resolved = [] then (Err ''Cannot rename the vault root'', st)
       else
         try_then (on_os (create_dir_all (ve_os E) (butlast to_resolved)) st) (\<lambda>_ st.
           let (mutation, st) = expect E (\<lambda>now. record_rename now src dst is_dir) st in
           cancel_on_error (Some mutation)
             (try_then
                (if is_case_only_rename (root @ from_resolved) (root @ to_resolved)
                 then on_os (rename_via_intermediate E from_resolved to_resolved) st
                 else on_os (os_rename (ve_os E) from_resolved to_resolved) st) (\<lambda>_ st.
                notify E (NotifyRenamed src dst is_dir ''app-rename'') st))))))"

section \<open>All commands\<close>

datatype vault_command =
    ReadText string
  | ReadBinary string
  | ReadWithChecksum string
  | Exists string
  | ListDir string
  | WriteText string string
  | WriteBinary string bytes
  | WriteWithChecksum string string string
  | Mkdir string
  | GetTrashPath bool
  | EmptyTrash
  | Delete string vault_delete_mode
  | Remove string
  | Rename string string

definition outcome :: "('a, string) result \<times> vault_state \<Rightarrow> (unit, string) result \<times> vault_state" where
  "outcome r = (and_then (fst r) (\<lambda>_. Ok ()), snd r)"

fun exec :: "vault_env \<Rightarrow> vault_command \<Rightarrow> unit vault_op" where
  "exec E (ReadText path) st = outcome (vault_read_text E path st)"
| "exec E (ReadBinary path) st = outcome (vault_read_binary E path st)"
| "exec E (ReadWithChecksum path) st = outcome (vault_read_with_checksum E path st)"
| "exec E (Exists path) st = outcome (vault_exists E path st)"
| "exec E (ListDir path) st = outcome (vault_list_dir E path st)"
| "exec E (WriteText path content) st = vault_write_text E path content st"
| "exec E (WriteBinary path data) st = vault_write_binary E path data st"
| "exec E (WriteWithChecksum path content checksum) st = outcome (vault_write_with_checksum E path content checksum st)"
| "exec E (Mkdir path) st = vault_mkdir E path st"
| "exec E (GetTrashPath ensure_exists) st = outcome (vault_get_trash_path E ensure_exists st)"
| "exec E EmptyTrash st = vault_empty_trash E st"
| "exec E (Delete path mode) st = vault_delete E path mode st"
| "exec E (Remove path) st = vault_remove E path st"
| "exec E (Rename src dst) st = vault_rename E src dst st"

text \<open>The paths a command may change: what its arguments resolve to, the trash, and the stepping stone of a rename.\<close>

definition resolved_paths :: "vault_state \<Rightarrow> string \<Rightarrow> fpath list" where
  "resolved_paths st path = (case fst (open_path path st) of Ok (root, p) \<Rightarrow> [p] | Err _ \<Rightarrow> [])"

fun touched :: "vault_env \<Rightarrow> vault_state \<Rightarrow> vault_command \<Rightarrow> fpath list" where
  "touched E st (WriteText path content) = resolved_paths st path"
| "touched E st (WriteBinary path data) = resolved_paths st path"
| "touched E st (WriteWithChecksum path content checksum) = resolved_paths st path"
| "touched E st EmptyTrash = [[KUKU_TRASH_DIR]]"
| "touched E st (Delete path mode) = resolved_paths st path @ (if mode = KukuTrash then [[KUKU_TRASH_DIR]] else [])"
| "touched E st (Remove path) = resolved_paths st path"
| "touched E st (Rename src dst) =
     resolved_paths st src @ resolved_paths st dst @ map (intermediate_path E) (resolved_paths st dst)"
| "touched E st _ = []"

definition at_or_below :: "fpath list \<Rightarrow> fpath \<Rightarrow> bool" where
  "at_or_below ps q \<longleftrightarrow> list_ex (\<lambda>p. prefix p q) ps"

lemma on_os_eq: "on_os f st = (r, st') \<longleftrightarrow> (\<exists>os. f (vs_os st) = (r, os) \<and> st' = st\<lparr>vs_os := os\<rparr>)"
  by (cases "f (vs_os st)") (auto simp: on_os_def)

text \<open>A destination in the trash lies in the trash: the path was resolved below it before.\<close>

lemma suffix_search_parent:
  "suffix_search OS root path stem ext index n os = (Ok d, os') \<Longrightarrow>
   \<exists>name. d = butlast path @ [name] \<and> \<not> fs_exists (os_fs os) d \<and> os_fs os' = os_fs os"
proof (induction n arbitrary: index os)
  case (Suc n)
  let ?c = "butlast path @ [candidate_name stem ext index]"
  obtain r os1 where ask: "try_exists OS ?c os = (r, os1)" by fastforce
  show ?case
    by (rule try_exists_cases [OF ask])
      (use ask Suc.prems Suc.IH [of "index + 1" os1] in \<open>auto simp: Let_def split: bool.splits\<close>)
qed simp

lemma next_available_free:
  assumes "next_available_path OS root path os = (Ok d, os')"
  shows "\<not> fs_exists (os_fs os) d \<and> os_fs os' = os_fs os \<and> (d = path \<or> (\<exists>name. d = butlast path @ [name]))"
proof -
  obtain r os1 where ask: "try_exists OS path os = (r, os1)" by fastforce
  show ?thesis
    by (rule try_exists_cases [OF ask])
      (use ask assms in \<open>auto simp: next_available_path_def split: bool.splits if_splits dest: suffix_search_parent\<close>)
qed

lemma relative_stack_below:
  "relative_stack cs st = Some q \<Longrightarrow> relative_stack cs (pre @ st) = Some (pre @ q)"
  by (induction cs st arbitrary: q rule: relative_stack.induct) (auto split: if_splits simp: butlast_append)

lemma relative_stack_trash:
  assumes "relative_stack (components rel) [] = Some q"
  shows "relative_stack (components (KUKU_TRASH_DIR @ ''/'' @ rel)) [] = Some (KUKU_TRASH_DIR # q)"
proof -
  obtain first rest where split: "split_char slash rel = first # rest" by (cases "split_char slash rel") auto
  have "relative_stack (List.map_filter segment_component (split_char slash rel)) st = relative_stack (components rel) st" for st
    using assms split
    by (auto simp: components_def map_filter_def segment_component_def split: if_splits option.splits)
  moreover have "components (KUKU_TRASH_DIR @ ''/'' @ rel) = Normal KUKU_TRASH_DIR # List.map_filter segment_component (split_char slash rel)"
    by (simp add: components_def KUKU_TRASH_DIR_def segment_component_def)
  ultimately show ?thesis using relative_stack_below [OF assms, of "[KUKU_TRASH_DIR]"] by simp
qed

text \<open>
  The destination of a deletion is below the trash, is not the deleted entry's own path unless that is in the trash, and is
  free.
\<close>

lemma trash_destination:
  assumes "root \<noteq> []" "open_path path st = (Ok (root, p), st)" "p \<noteq> []"
    and "build_kuku_trash_destination E root path st1 = (Ok d, st2)"
  shows "\<exists>ds. d = KUKU_TRASH_DIR # ds \<and> length ds = length p \<and> butlast ds = butlast p"
    and "\<not> fs_exists (vs_fs st1) d" "vs_fs st2 = vs_fs st1" "st2 = st1\<lparr>vs_os := vs_os st2\<rparr>"
proof -
  have "resolve_vault_path root path = Ok (root @ p)"
    using assms(2) unfolding open_path_def
    by (auto simp: result_simps resolve_vault_path_strict_def assert_no_symlink_within_vault_def prefix_def split: if_splits)
  then have "relative_stack (components path) [] = Some p"
    unfolding resolve_vault_path_stack [OF assms(1)] by auto
  then have stack: "relative_stack (components (KUKU_TRASH_DIR @ ''/'' @ path)) [] = Some (KUKU_TRASH_DIR # p)"
    by (rule relative_stack_trash)
  obtain c os where c: "resolve_vault_path_strict root (vs_fs st1) (KUKU_TRASH_DIR @ ''/'' @ path) = Ok c"
    and na: "next_available_path (ve_os E) root c (vs_os st1) = (Ok d, os)" and st2: "st2 = st1\<lparr>vs_os := os\<rparr>"
    using assms(4) unfolding build_kuku_trash_destination_def
    by (auto simp: try_then_eq_Ok on_os_eq)
  have "resolve_vault_path root (KUKU_TRASH_DIR @ ''/'' @ path) = Ok (root @ c)"
    using c by (auto simp: result_simps resolve_vault_path_strict_def assert_no_symlink_within_vault_def prefix_def split: if_splits)
  then have "c = KUKU_TRASH_DIR # p" unfolding resolve_vault_path_stack [OF assms(1)] stack by auto
  with next_available_free [OF na] assms(3) st2
  show "\<exists>ds. d = KUKU_TRASH_DIR # ds \<and> length ds = length p \<and> butlast ds = butlast p"
    "\<not> fs_exists (vs_fs st1) d" "vs_fs st2 = vs_fs st1" "st2 = st1\<lparr>vs_os := vs_os st2\<rparr>" by auto
qed

section \<open>A command's effect follows from its calls\<close>

text \<open>
  The interface between the commands and what is claimed of all of them: a relation on states that holds for the calls of
  the operating system at the paths named, and for the ledger and the search index, holds for every command.
\<close>

locale command_effects = effects R
  for R :: "vault_state \<Rightarrow> vault_state \<Rightarrow> bool" +
  fixes E :: vault_env and named :: "fpath \<Rightarrow> bool" and Q :: "fnode \<Rightarrow> fnode \<Rightarrow> bool"
  assumes os_law: "Q (vs_fs st) (os_fs os) \<Longrightarrow> R st (st\<lparr>vs_os := os\<rparr>)"
    and watch_law: "R st (st\<lparr>vs_ledger := l\<rparr>)"
    and search_law: "R st (st\<lparr>vs_search := calls\<rparr>)"
    and same_law: "Q fs fs"
    and step_law: "Q fs fs1 \<Longrightarrow> Q fs1 fs2 \<Longrightarrow> Q fs fs2"
    and mkdirs_law: "fs_mkdirs p (Some fs) = Some fs' \<Longrightarrow> Q fs fs'"
    and write_law: "named p \<Longrightarrow> fs_write p b t (Some fs) = Some fs' \<Longrightarrow> Q fs fs'"
    and remove_law: "named p \<Longrightarrow> fs_remove p fs = Ok fs' \<Longrightarrow> Q fs fs'"
    and remove_dir_law: "named p \<Longrightarrow> fs_remove_dir_all p fs = Some fs' \<Longrightarrow> Q fs fs'"
    and remove_some_law: "named p \<Longrightarrow> fs_remove_some left p fs = Some fs' \<Longrightarrow> Q fs fs'"
    and rename_law: "named p \<Longrightarrow> named q \<Longrightarrow> fs_rename p q fs = Some fs' \<Longrightarrow> Q fs fs'"
    and trash_law: "named p \<Longrightarrow> ve_trash E p fs = Ok fs' \<Longrightarrow> Q fs fs'"
begin

lemma on_os_R: "Q (vs_fs st) (os_fs (snd (f (vs_os st)))) \<Longrightarrow> R st (snd (on_os f st))"
  using os_law by (simp add: on_os_def case_prod_beta)

lemma os_try_Q:
  "(\<And>fs'. f (os_fs os) = Some fs' \<or> part (os_fs os) = Some fs' \<Longrightarrow> Q (os_fs os) fs') \<Longrightarrow>
    Q (os_fs os) (os_fs (snd (os_try OS f part os)))"
  by (simp add: os_try_def Let_def same_law split: option.split)

lemma os_ask_Q: "Q (os_fs os) (os_fs (snd (os_ask OS f os)))"
  by (simp add: os_ask_def Let_def same_law)

lemma os_calls_Q:
  "Q (os_fs os) (os_fs (snd (create_dir_all OS p os)))"
  "named p \<Longrightarrow> Q (os_fs os) (os_fs (snd (os_write OS p b os)))"
  "named p \<Longrightarrow> Q (os_fs os) (os_fs (snd (os_remove_file OS p os)))"
  "named p \<Longrightarrow> Q (os_fs os) (os_fs (snd (os_remove_dir_all OS p os)))"
  "named p \<Longrightarrow> named q \<Longrightarrow> Q (os_fs os) (os_fs (snd (os_rename OS p q os)))"
  "named p \<Longrightarrow> Q (os_fs os) (os_fs (snd (trash_delete E p os)))"
  "Q (os_fs os) (os_fs (snd (try_exists OS p os)))"
  "Q (os_fs os) (os_fs (snd (read_to_string OS p os)))"
  "Q (os_fs os) (os_fs (snd (metadata OS p os)))"
  unfolding create_dir_all_def os_write_def os_remove_file_def os_remove_dir_all_def os_rename_def trash_delete_def
    try_exists_def read_to_string_def metadata_def written_file_def
  by (auto intro!: os_try_Q os_ask_Q same_law
      intro: mkdirs_law write_law remove_law remove_dir_law remove_some_law rename_law trash_law
      split: if_splits result.splits option.splits)

lemma suffix_search_Q: "Q (os_fs os) (os_fs (snd (suffix_search OS root path stem ext index n os)))"
proof (induction n arbitrary: index os)
  case (Suc n)
  let ?c = "butlast path @ [candidate_name stem ext index]"
  obtain r os1 where ask: "try_exists OS ?c os = (r, os1)" by fastforce
  then have one: "Q (os_fs os) (os_fs os1)" using os_calls_Q(7) [of os OS ?c] by simp
  from step_law [OF one Suc.IH] one ask show ?case by (auto simp: Let_def split: result.split bool.split)
qed (simp add: same_law)

lemma next_available_Q: "Q (os_fs os) (os_fs (snd (next_available_path OS root path os)))"
proof -
  obtain r os1 where ask: "try_exists OS path os = (r, os1)" by fastforce
  then have one: "Q (os_fs os) (os_fs os1)" using os_calls_Q(7) [of os OS path] by simp
  from step_law [OF one suffix_search_Q] one ask show ?thesis
    by (auto simp: next_available_path_def split: result.split bool.split)
qed

lemma expect_R: "R st (snd (expect E rec st))"
  using watch_law by (simp add: expect_def case_prod_beta)

lemma cancel_R: "R st (snd r) \<Longrightarrow> R st (snd (cancel_on_error token r))"
  using R_trans [OF _ watch_law]
  by (cases r; cases "fst r") (auto simp: cancel_on_error_def split: option.split)

lemma notify_R: "R st (snd (notify E call st))"
  using search_law by (simp add: notify_def)

lemma open_path_R: "R st (snd (open_path path st))"
  by (simp add: open_path_def R_refl)

lemma outcome_R: "R st (snd r) \<Longrightarrow> R st (snd (outcome r))"
  by (simp add: outcome_def)

lemma calls_R:
  "R st (snd (on_os (create_dir_all OS p) st))"
  "named p \<Longrightarrow> R st (snd (on_os (os_write OS p b) st))"
  "named p \<Longrightarrow> R st (snd (on_os (os_remove_file OS p) st))"
  "named p \<Longrightarrow> R st (snd (on_os (os_remove_dir_all OS p) st))"
  "named p \<Longrightarrow> named q \<Longrightarrow> R st (snd (on_os (os_rename OS p q) st))"
  "named p \<Longrightarrow> R st (snd (on_os (trash_delete E p) st))"
  "R st (snd (on_os (try_exists OS p) st))"
  "R st (snd (on_os (read_to_string OS p) st))"
  "R st (snd (on_os (metadata OS p) st))"
  "R st (snd (on_os (next_available_path OS root p) st))"
  by (simp_all add: on_os_R os_calls_Q next_available_Q)

lemma ask_R: "R st (snd (on_os (os_ask OS f) st))"
  by (simp add: on_os_R os_ask_Q)

lemma expect_then_R:
  "(\<And>t st1. R st1 (snd (f t st1))) \<Longrightarrow> R st (snd (case expect E rec st of (t, st1) \<Rightarrow> f t st1))"
  using R_trans [OF expect_R] by (cases "expect E rec st") (metis case_prod_conv snd_conv)

lemma opened_R:
  assumes "\<And>root p. open_path path st = (Ok (root, p), st) \<Longrightarrow> R st (snd (f (root, p) st))"
  shows "R st (snd (try_then (open_path path st) f))"
proof (rule try_then_R, rule open_path_R)
  fix a s' assume opened: "open_path path st = (Ok a, s')"
  then have "s' = st" by (simp add: open_path_def)
  with assms [of "fst a" "snd a"] opened show "R s' (snd (f a s'))" by simp
qed

lemma reads_R:
  "R st (snd (vault_read_text E path st))" "R st (snd (vault_read_binary E path st))"
  "R st (snd (vault_read_with_checksum E path st))" "R st (snd (vault_exists E path st))"
  "R st (snd (vault_list_dir E path st))" "R st (snd (vault_mkdir E path st))"
  unfolding vault_read_text_def vault_read_binary_def vault_read_with_checksum_def vault_exists_def vault_list_dir_def
    vault_mkdir_def
  by (intro opened_R; simp; intro try_then_R calls_R ask_R pure_R)+

lemma trash_path_R: "R st (snd (vault_get_trash_path E ensure_exists st))"
  unfolding vault_get_trash_path_def by (intro try_then_R pure_R) (simp_all add: calls_R R_refl)

lemma write_R:
  assumes "\<And>root p. open_path path st = (Ok (root, p), st) \<Longrightarrow> named p"
  shows "R st (snd (vault_write_text E path content st))" "R st (snd (vault_write_binary E path data st))"
    "R st (snd (vault_write_with_checksum E path content checksum st))"
proof -
  show "R st (snd (vault_write_text E path content st))"
    unfolding vault_write_text_def
  proof (rule opened_R, goal_cases)
    case (1 root p)
    then have "named p" by (rule assms)
    then show ?case unfolding prod.case Let_def by (intro expect_then_R cancel_R try_then_R calls_R notify_R)
  qed
  show "R st (snd (vault_write_binary E path data st))"
    unfolding vault_write_binary_def
  proof (rule opened_R, goal_cases)
    case (1 root p)
    then have "named p" by (rule assms)
    then show ?case unfolding prod.case by (intro try_then_R calls_R)
  qed
  show "R st (snd (vault_write_with_checksum E path content checksum st))"
    unfolding vault_write_with_checksum_def
  proof (rule opened_R, goal_cases)
    case (1 root p)
    then have "named p" by (rule assms)
    then have "R st1 (snd (case expect E (\<lambda>now. record_write now path False) st1 of (mutation, st2) \<Rightarrow>
        cancel_on_error (Some mutation) (try_then (on_os (os_write (ve_os E) p content) st2) (\<lambda>_ st.
          try_then (notify E (NotifyWritten path ''app-save'') st) (\<lambda>_ st. (Ok (Written c), st))))))" for st1 c
      by (intro expect_then_R cancel_R try_then_R calls_R notify_R pure_R)
    then show ?case unfolding prod.case Let_def
      by (intro try_then_R calls_R) (simp add: R_refl split: checksum_write_plan.split)
  qed
qed

lemma empty_trash_R:
  assumes "named [KUKU_TRASH_DIR]"
  shows "R st (snd (vault_empty_trash E st))"
proof -
  have "R st1 (snd (if found then on_os (os_remove_dir_all (ve_os E) [KUKU_TRASH_DIR]) st1 else (Ok (), st1)))" for found st1
    using calls_R(4) [OF assms] R_refl by simp
  then show ?thesis unfolding vault_empty_trash_def by (intro try_then_R pure_R calls_R)
qed

lemma delete_R:
  assumes p: "\<And>root p. open_path path st = (Ok (root, p), st) \<Longrightarrow> named p"
    and dest: "\<And>root p d st1 st2. mode = KukuTrash \<Longrightarrow> open_path path st = (Ok (root, p), st) \<Longrightarrow> p \<noteq> [] \<Longrightarrow>
      build_kuku_trash_destination E root path st1 = (Ok d, st2) \<Longrightarrow> named d"
  shows "R st (snd (vault_delete E path mode st))"
  unfolding vault_delete_def
proof (rule opened_R, goal_cases)
  case (1 root q)
  note opened = 1
  then have named: "named q" by (rule p)
  have kuku: "R st1 (snd (try_then (build_kuku_trash_destination E root path st1) (\<lambda>destination st.
      try_then (on_os (create_dir_all (ve_os E) (butlast destination)) st) (\<lambda>_ st.
        on_os (os_rename (ve_os E) q destination) st))))" if "mode = KukuTrash" "q \<noteq> []" for st1
  proof (rule try_then_R)
    show "R st1 (snd (build_kuku_trash_destination E root path st1))"
      unfolding build_kuku_trash_destination_def by (intro try_then_R pure_R calls_R)
    fix d s' assume "build_kuku_trash_destination E root path st1 = (Ok d, s')"
    then have "named d" by (rule dest [OF that(1) opened that(2)])
    with named show "R s' (snd (try_then (on_os (create_dir_all (ve_os E) (butlast d)) s') (\<lambda>_ st.
        on_os (os_rename (ve_os E) q d) st)))" by (intro try_then_R calls_R)
  qed
  have entry: "q \<noteq> [] \<Longrightarrow> R st1 (snd (delete_entry E root path q mode meta st1))" for meta st1
    using named kuku unfolding delete_entry_def
    by (cases mode; cases meta) (simp_all add: R_refl calls_R)
  then have rest: "q \<noteq> [] \<Longrightarrow> R st1 (snd (cancel_on_error token (try_then (delete_entry E root path q mode meta st1) (\<lambda>_ st.
      notify E (NotifyRemoved path is_dir ''app-delete'') st))))" for token meta is_dir st1
    by (intro cancel_R try_then_R notify_R)
  have expecting: "R st1 (snd (case (if meta \<noteq> None then (case expect E rec st1 of (t, st) \<Rightarrow> (Some t, st)) else (None, st1)) of
      (mutation, st) \<Rightarrow> cancel_on_error mutation (try_then (delete_entry E root path q mode meta st) (\<lambda>_ st.
        notify E (NotifyRemoved path is_dir ''app-delete'') st))))" if "q \<noteq> []" for meta rec is_dir st1
  proof (cases "meta = None")
    case True
    then show ?thesis using rest that by simp
  next
    case False
    obtain t st2 where e: "expect E rec st1 = (t, st2)" by fastforce
    then have "R st1 st2" using expect_R [of st1 rec] by simp
    from R_trans [OF this rest [OF that]] False e show ?thesis by simp
  qed
  show ?case unfolding prod.case Let_def
    using R_refl by (simp, intro impI try_then_R calls_R) (use expecting in simp)
qed

lemma rename_via_R:
  assumes "named src" "named dst" "named (intermediate_path E dst)"
  shows "Q (os_fs os) (os_fs (snd (rename_via_intermediate E src dst os)))"
proof -
  let ?i = "intermediate_path E dst"
  obtain r1 os1 where 1: "os_rename (ve_os E) src ?i os = (r1, os1)" by fastforce
  obtain r2 os2 where 2: "os_rename (ve_os E) ?i dst os1 = (r2, os2)" by fastforce
  obtain r3 os3 where 3: "os_rename (ve_os E) ?i src os2 = (r3, os3)" by fastforce
  have q: "Q (os_fs os) (os_fs os1)" "Q (os_fs os1) (os_fs os2)" "Q (os_fs os2) (os_fs os3)"
    using os_calls_Q(5) [of src ?i os "ve_os E"] os_calls_Q(5) [of ?i dst os1 "ve_os E"] os_calls_Q(5) [of ?i src os2 "ve_os E"]
      assms 1 2 3 by simp_all
  show ?thesis
    using q(1) step_law [OF q(1,2)] step_law [OF step_law [OF q(1,2)] q(3)] 1 2 3
    by (cases r1; cases r2) (simp_all add: rename_via_intermediate_def Let_def)
qed

lemma rename_R:
  assumes src: "\<And>root p. open_path src st = (Ok (root, p), st) \<Longrightarrow> named p"
    and dst: "\<And>root p. open_path dst st = (Ok (root, p), st) \<Longrightarrow> named p \<and> named (intermediate_path E p)"
  shows "R st (snd (vault_rename E src dst st))"
  unfolding vault_rename_def
proof (rule opened_R, goal_cases)
  case (1 root p)
  then have p: "named p" by (rule src)
  show ?case unfolding prod.case
  proof (rule opened_R, goal_cases)
    case (1 root' q)
    then have q: "named q" "named (intermediate_path E q)" using dst by blast+
    have move: "R st1 (snd (if is_case_only_rename (root @ p) (root @ q) then on_os (rename_via_intermediate E p q) st1
        else on_os (os_rename (ve_os E) p q) st1))" for st1
      using calls_R(5) [OF p q(1)] rename_via_R [OF p q] by (simp add: on_os_R)
    have rest: "R st1 (snd (case expect E rec st1 of (mutation, st) \<Rightarrow> cancel_on_error (Some mutation) (try_then
        (if is_case_only_rename (root @ p) (root @ q) then on_os (rename_via_intermediate E p q) st
         else on_os (os_rename (ve_os E) p q) st)
        (\<lambda>_ st. notify E call st))))" for rec call st1
      by (intro expect_then_R cancel_R try_then_R move notify_R)
    show ?case unfolding prod.case Let_def
      by (intro try_then_R ask_R) (simp add: R_refl, intro impI try_then_R calls_R rest)
  qed
qed

text \<open>Every command, when the paths it may change are named.\<close>

lemma exec_R:
  assumes "\<And>q. at_or_below (touched E st c) q \<Longrightarrow> named q" "vs_path st \<noteq> Some []"
  shows "R st (snd (exec E c st))"
proof -
  have opened: "p \<in> set (resolved_paths st path)" if "open_path path st = (Ok (root, p), st)" for path root p
    using that by (simp add: resolved_paths_def)
  have named: "named q" if "p \<in> set (touched E st c)" "prefix p q" for p q
    using assms that by (auto simp: at_or_below_def list_ex_iff)
  then have here: "named p" if "p \<in> set (touched E st c)" for p using that by blast
  have dest: "named d" if "[KUKU_TRASH_DIR] \<in> set (touched E st c)" "open_path path st = (Ok (root, p), st)" "p \<noteq> []"
      "build_kuku_trash_destination E root path st1 = (Ok d, st2)" for root p path d st1 st2
  proof -
    have "root \<noteq> []" using that(2) assms(2) by (auto simp: open_path_def get_vault_root_def result_simps)
    from trash_destination(1) [OF this that(2-4)] show ?thesis using named [OF that(1)] by (auto simp: prefix_def)
  qed
  show ?thesis
  proof (cases c)
    case (Delete path mode)
    have "R st (snd (vault_delete E path mode st))"
      using here opened dest Delete by (intro delete_R) auto
    then show ?thesis by (simp add: Delete)
  next
    case (Remove path)
    have "R st (snd (vault_delete E path Permanent st))"
      using here opened Remove by (intro delete_R) auto
    then show ?thesis by (simp add: Remove vault_remove_def)
  next
    case (Rename src dst)
    have "R st (snd (vault_rename E src dst st))"
      using here opened Rename by (intro rename_R) auto
    then show ?thesis by (simp add: Rename)
  next
    case EmptyTrash
    then show ?thesis using empty_trash_R here by simp
  qed (use here opened write_R reads_R trash_path_R in \<open>auto intro!: outcome_R\<close>)
qed

end

section \<open>Files a command does not name\<close>

definition same_files_except :: "(fpath \<Rightarrow> bool) \<Rightarrow> fnode \<Rightarrow> fnode \<Rightarrow> bool" where
  "same_files_except named fs fs' \<longleftrightarrow> (\<forall>q. \<not> named q \<longrightarrow> fs_read fs' q = fs_read fs q)"

text \<open>Of the system's trash: it takes the entry away and leaves the rest.\<close>

definition trash_ok :: "vault_env \<Rightarrow> bool" where
  "trash_ok E \<longleftrightarrow> (\<forall>p fs fs' q. ve_trash E p fs = Ok fs' \<longrightarrow> \<not> prefix p q \<longrightarrow> fs_read fs' q = fs_read fs q)"

lemma at_or_below_downward: "at_or_below ps p \<Longrightarrow> prefix p q \<Longrightarrow> at_or_below ps q"
  unfolding at_or_below_def list_ex_iff using prefix_order.trans by blast

lemma rename_other_files:
  assumes "fs_rename p q fs = Some fs'" "at_or_below ps p" "at_or_below ps q"
  shows "same_files_except (at_or_below ps) fs fs'"
proof (cases "p = q")
  case True
  with assms(1) show ?thesis by (auto simp: same_files_except_def fs_rename_def split: option.splits)
next
  case False
  have "\<not> prefix p r \<and> \<not> prefix q r" if "\<not> at_or_below ps r" for r
    using that assms(2,3) at_or_below_downward by blast
  with rename_moves(2) [OF assms(1) False] show ?thesis by (simp add: same_files_except_def)
qed

lemma write_other_files: "fs_write p b t (Some fs) = Some fs' \<Longrightarrow> named p \<Longrightarrow> same_files_except named fs fs'"
  using fs_read_write_other by (metis same_files_except_def)

interpretation frame: command_effects
  "\<lambda>st st'. trash_ok E \<longrightarrow> same_files_except (at_or_below ps) (vs_fs st) (vs_fs st')" E "at_or_below ps"
  "\<lambda>fs fs'. trash_ok E \<longrightarrow> same_files_except (at_or_below ps) fs fs'"
  for E ps
proof unfold_locales
  fix p fs fs' assume "at_or_below ps p" "ve_trash E p fs = Ok fs'"
  then show "trash_ok E \<longrightarrow> same_files_except (at_or_below ps) fs fs'"
    unfolding trash_ok_def same_files_except_def using at_or_below_downward by blast
next
  fix p left fs fs' assume "at_or_below ps p" "fs_remove_some left p fs = Some fs'"
  then show "trash_ok E \<longrightarrow> same_files_except (at_or_below ps) fs fs'"
    unfolding same_files_except_def using remove_some_read at_or_below_downward by blast
qed (auto simp: same_files_except_def mkdirs_read fs_read_remove remove_dir_all_read
    dest: at_or_below_downward rename_other_files [unfolded same_files_except_def]
      write_other_files [unfolded same_files_except_def])

text \<open>
  C36. A command of the vault changes no file but those it names: whatever it does and wherever it fails, a file that is
  not at or below a path its arguments resolve to (for the vault's own trash also not in the trash) keeps its contents.
\<close>

theorem commands_touch_named_files:
  assumes "trash_ok E" "vs_path st \<noteq> Some []" "\<not> at_or_below (touched E st c) q"
  shows "fs_read (vs_fs (snd (exec E c st))) q = fs_read (vs_fs st) q"
  using frame.exec_R [of E st c "touched E st c"] assms by (auto simp: same_files_except_def)

section \<open>The tree stays well formed\<close>

lemma mkdirs_wf: "fs_mkdirs p n = Some n' \<Longrightarrow> (\<forall>m. n = Some m \<longrightarrow> fs_wf m) \<Longrightarrow> fs_wf n'"
proof (induction p n arbitrary: n' rule: fs_mkdirs.induct)
  case (5 x xs es)
  from "5.prems"(1) obtain m where m: "fs_mkdirs xs (map_of es x) = Some m" "n' = Dir (set_entry x m es)" by auto
  have "fs_wf k" if "map_of es x = Some k" for k
    using that "5.prems"(2) by (auto dest!: map_of_SomeD)
  with 5 m have "fs_wf m" by blast
  then show ?case using set_entry_wf "5.prems"(2) by (simp add: m(2) del: fs_wf.simps)
qed auto

lemma detach_wf: "fs_detach p n = Some n' \<Longrightarrow> fs_wf n \<Longrightarrow> fs_wf n'"
proof (induction p n arbitrary: n' rule: fs_detach.induct)
  case (1 x es)
  then show ?case by (auto simp: distinct_map_filter split: if_splits)
next
  case (2 x y ys es)
  then obtain n m where n: "map_of es x = Some n" "fs_detach (y # ys) n = Some m" "n' = Dir (set_entry x m es)"
    by (auto split: option.split_asm)
  moreover have "fs_wf n" using "2.prems"(2) n(1) by (auto dest: map_of_SomeD)
  ultimately have "fs_wf m" using "2.IH" by blast
  with "2.prems"(2) show ?case using set_entry_wf by (simp add: n(3) del: fs_wf.simps)
qed simp_all

lemma attach_wf: "fs_attach p k n = Some n' \<Longrightarrow> fs_wf n \<Longrightarrow> fs_wf k \<Longrightarrow> fs_wf n'"
proof (induction p k n arbitrary: n' rule: fs_attach.induct)
  case (1 x k es)
  then show ?case using set_entry_wf by (auto simp del: fs_wf.simps)
next
  case (2 x y ys k es)
  then obtain n m where n: "map_of es x = Some n" "fs_attach (y # ys) k n = Some m" "n' = Dir (set_entry x m es)"
    by (auto split: option.split_asm)
  moreover have "fs_wf n" using "2.prems"(2) n(1) by (auto dest: map_of_SomeD)
  ultimately have "fs_wf m" using "2.IH" "2.prems"(3) by blast
  with "2.prems"(2) show ?case using set_entry_wf by (simp add: n(3) del: fs_wf.simps)
qed simp_all

lemma lookup_wf: "fs_lookup n p = Some m \<Longrightarrow> fs_wf n \<Longrightarrow> fs_wf m"
  by (induction n p rule: fs_lookup.induct) (auto split: option.splits dest: map_of_SomeD)

lemma rename_wf: "fs_rename src dst fs = Some fs' \<Longrightarrow> fs_wf fs \<Longrightarrow> fs_wf fs'"
  by (auto simp: fs_rename_def split: option.splits if_splits bind_splits dest: attach_wf detach_wf lookup_wf)

lemma prune_distinct: "distinct (map fst es) \<Longrightarrow> distinct (map fst (concat (map (\<lambda>(x, n). if P x then [(x, f x n)] else []) es)))"
proof (induction es)
  case (Cons e es)
  have "fst ` set (concat (map (\<lambda>(x, n). if P x then [(x, f x n)] else []) es)) \<subseteq> fst ` set es"
    by (force split: if_splits)
  then have "fst e \<notin> fst ` set (concat (map (\<lambda>(x, n). if P x then [(x, f x n)] else []) es))"
    using Cons.prems unfolding list.map distinct.simps list.set_map by blast
  with Cons show ?case by (cases e) (simp del: set_concat)
qed simp

lemma prune_wf: "fs_wf n \<Longrightarrow> fs_wf (fs_prune left p n)"
proof (induction left p n rule: fs_prune.induct)
  case (1 left p es)
  then show ?case
    using prune_distinct [of es "\<lambda>x. left (p @ [x])" "\<lambda>x. fs_prune left (p @ [x])"] by fastforce
qed auto

lemma remove_some_wf: "fs_remove_some left p fs = Some fs' \<Longrightarrow> fs_wf fs \<Longrightarrow> fs_wf fs'"
  unfolding fs_remove_some_def
  by (auto split: option.splits fnode.splits simp del: fs_wf.simps fs_prune.simps intro: attach_wf prune_wf lookup_wf)

definition trash_keeps_wf :: "vault_env \<Rightarrow> bool" where
  "trash_keeps_wf E \<longleftrightarrow> (\<forall>p fs fs'. ve_trash E p fs = Ok fs' \<longrightarrow> fs_wf fs \<longrightarrow> fs_wf fs')"

interpretation wf: command_effects
  "\<lambda>st st'. trash_keeps_wf E \<longrightarrow> fs_wf (vs_fs st) \<longrightarrow> fs_wf (vs_fs st')" E "\<lambda>_. True"
  "\<lambda>fs fs'. trash_keeps_wf E \<longrightarrow> fs_wf fs \<longrightarrow> fs_wf fs'"
  for E
  by unfold_locales
    (auto simp: trash_keeps_wf_def fs_remove_dir_all_def split: option.splits fnode.splits
      dest: mkdirs_wf fs_write_wf fs_remove_wf rename_wf detach_wf remove_some_wf)

text \<open>Whatever the commands do, no directory gets two entries of one name.\<close>

theorem commands_keep_tree_wf:
  assumes "trash_keeps_wf E" "vs_path st \<noteq> Some []" "fs_wf (vs_fs st)"
  shows "fs_wf (vs_fs (snd (exec E c st)))"
  using wf.exec_R [of E st c] assms by simp

section \<open>What goes to the trash is kept\<close>

lemma lookup_exists: "fs_lookup n p = Some m \<Longrightarrow> \<forall>b. m \<noteq> Symlink b \<Longrightarrow> fs_exists n p"
proof (induction n p rule: fs_lookup.induct)
  case (1 n)
  then show ?case by (cases n) auto
qed (auto split: option.splits)

lemma open_path_no_link:
  assumes "open_path path st = (Ok (root, p), st)" "p \<noteq> []" "fs_lookup (vs_fs st) p = Some n"
  shows "n \<noteq> Symlink b"
proof -
  have "no_symlink_walk root (vs_fs st) [] p = Ok ()"
    using assms(1) unfolding open_path_def
    by (auto simp: result_simps resolve_vault_path_strict_def assert_no_symlink_within_vault_def prefix_def split: if_splits)
  then have "\<forall>k < length p. \<forall>l. fs_lookup (vs_fs st) (take (Suc k) p) \<noteq> Some (Symlink l)"
    unfolding no_symlink_walk_Ok by simp
  moreover have "take (Suc (length p - 1)) p = p" "length p - 1 < length p" using assms(2) by simp_all
  ultimately show ?thesis using assms(3) by metis
qed

lemma kuku_trash_moves:
  assumes root: "root \<noteq> []" "open_path path st = (Ok (root, p), st)" "p \<noteq> []"
    and n: "fs_lookup (vs_fs st1) p = Some n" "\<forall>b. n \<noteq> Symlink b"
    and ok: "delete_entry E root path p KukuTrash (Some n) st1 = (Ok (), st')"
  shows "\<exists>d. prefix [KUKU_TRASH_DIR] d \<and> \<not> fs_exists (vs_fs st1) d \<and> fs_lookup (vs_fs st') d = Some n \<and>
    fs_read (vs_fs st') = files_after (GRename p d) (fs_read (vs_fs st1))"
proof -
  obtain d st2 os3 os where d: "build_kuku_trash_destination E root path st1 = (Ok d, st2)"
    and mk: "create_dir_all (ve_os E) (butlast d) (vs_os st2) = (Ok (), os3)"
    and mv: "os_rename (ve_os E) p d os3 = (Ok (), os)" and st': "st' = st2\<lparr>vs_os := os\<rparr>"
    using ok unfolding delete_entry_def by (auto simp: try_then_eq_Ok on_os_eq)
  note dest = trash_destination [OF root d]
  obtain ds where ds: "d = KUKU_TRASH_DIR # ds" using dest(1) by blast
  have fs3: "fs_mkdirs (butlast d) (Some (vs_fs st1)) = Some (os_fs os3)" "fs_read (os_fs os3) = fs_read (vs_fs st1)"
    using create_dir_all_cases [OF mk] dest(3) by auto
  have ren: "fs_rename p d (os_fs os3) = Some (os_fs os)" using os_rename_cases [OF mv] by auto
  have "p \<noteq> d" using lookup_exists [OF n] dest(2) by auto
  note moved = rename_moves [OF ren this]
  have "\<not> prefix p (butlast d)"
    using moved(3) by (metis ds append_butlast_last_id list.discI prefix_prefix prefix_order.trans prefixI)
  with mkdirs_lookup [OF fs3(1) n(1)] have "fs_lookup (os_fs os3) p = Some n" by simp
  with moved(1) [of "[]"] have "fs_lookup (os_fs os) d = Some n" by simp
  moreover have "fs_read (os_fs os) = files_after (GRename p d) (fs_read (vs_fs st1))"
    using rename_files [OF ren \<open>p \<noteq> d\<close>] fs3(2) by simp
  ultimately show ?thesis using dest(2) ds st' by (intro exI [of _ d]) simp
qed

text \<open>
  C35. Moving to the vault's trash loses nothing: after a successful deletion of an entry in this mode the whole entry
  stands in the trash, at a path that was free before, so nothing that is there already is replaced, and all
  other files are as they were.
\<close>

theorem kuku_trash_keeps_entry:
  assumes "vs_path st \<noteq> Some []" "open_path path st = (Ok (root, p), st)" "fs_lookup (vs_fs st) p = Some n"
    and "vault_delete E path KukuTrash st = (Ok (), st')"
  shows "\<exists>d. prefix [KUKU_TRASH_DIR] d \<and> \<not> fs_exists (vs_fs st) d \<and> fs_lookup (vs_fs st') d = Some n \<and>
    fs_read (vs_fs st') = files_after (GRename p d) (fs_read (vs_fs st))"
proof -
  have root: "root \<noteq> []" using assms(1,2) by (auto simp: open_path_def get_vault_root_def result_simps)
  have p: "p \<noteq> []" using assms(2,4) by (auto simp: vault_delete_def)
  let ?rest = "\<lambda>meta st. let is_dir = (case meta of Some n \<Rightarrow> node_is_dir n | None \<Rightarrow> False);
      (mutation, st) = (if meta \<noteq> None then (let (t, st) = expect E (\<lambda>now. record_delete now path is_dir) st in (Some t, st))
        else (None, st))
      in cancel_on_error mutation (try_then (delete_entry E root path p KukuTrash meta st) (\<lambda>_ st.
           notify E (NotifyRemoved path is_dir ''app-delete'') st))"
  have run: "try_then (on_os (metadata (ve_os E) p) st) ?rest = (Ok (), st')"
    using assms(4) unfolding vault_delete_def assms(2) try_then.simps prod.case using p by simp
  from run [unfolded try_then_eq_Ok on_os_eq] obtain mt os where
    m: "metadata (ve_os E) p (vs_os st) = (Ok mt, os)" and rest: "?rest mt (st\<lparr>vs_os := os\<rparr>) = (Ok (), st')" by blast
  have meta: "mt = Some n" "os_fs os = vs_fs st"
    by (rule os_ask_cases [OF m [unfolded metadata_def]]; use assms(3) in \<open>simp split: if_splits\<close>)+
  obtain t st1 where e: "expect E (\<lambda>now. record_delete now path (node_is_dir n)) (st\<lparr>vs_os := os\<rparr>) = (t, st1)" by fastforce
  then have st1: "vs_fs st1 = vs_fs st" using meta(2) by (auto simp: expect_def split: prod.splits)
  have "cancel_on_error (Some t) (try_then (delete_entry E root path p KukuTrash (Some n) st1) (\<lambda>_ st.
      notify E (NotifyRemoved path (node_is_dir n) ''app-delete'') st)) = (Ok (), st')"
    using rest unfolding meta(1) by (simp add: e)
  then obtain st2 where del: "delete_entry E root path p KukuTrash (Some n) st1 = (Ok (), st2)" "vs_os st' = vs_os st2"
    by (auto simp: cancel_on_error_def notify_def try_then_eq_Ok split: prod.splits result.splits)
  have link: "\<forall>b. n \<noteq> Symlink b" using open_path_no_link [OF assms(2) p assms(3)] by blast
  show ?thesis
    using kuku_trash_moves [OF root assms(2) p _ link del(1)] st1 assms(3) del(2) by simp
qed

section \<open>Saving in the editor\<close>

text \<open>
  C34. Saving never overwrites what the editor has not seen: the file is written only when its contents have the checksum
  the editor read or are already those to be saved; otherwise the conflict is reported with both checksums and nothing is
  written. A save that fails has changed nothing, or the checksum agreed and the file holds the first bytes of the new
  contents, all of them when only the notification of the search index failed.
\<close>

theorem save_respects_checksum:
  assumes "open_path path st = (Ok (root, p), st)" "fs_read (vs_fs st) p = Some current"
  shows "case vault_write_with_checksum E path content checksum st of
      (Ok (Written c), st') \<Rightarrow> c = ve_blake3 E content \<and> fs_read (vs_fs st') = (fs_read (vs_fs st))(p \<mapsto> content) \<and>
        (ve_blake3 E current = checksum \<or> current = content)
    | (Ok (WriteConflict expected actual), st') \<Rightarrow>
        expected = checksum \<and> actual = ve_blake3 E current \<and> actual \<noteq> expected \<and> fs_read (vs_fs st') = fs_read (vs_fs st)
    | (Err e, st') \<Rightarrow> fs_read (vs_fs st') = fs_read (vs_fs st) \<or>
        ve_blake3 E current = checksum \<and> (\<exists>k. fs_read (vs_fs st') = (fs_read (vs_fs st))(p \<mapsto> take k content))"
proof -
  obtain r1 os1 where r1: "read_to_string (ve_os E) p (vs_os st) = (r1, os1)" by fastforce
  obtain t st2 where e: "expect E (\<lambda>now. record_write now path False) (st\<lparr>vs_os := os1\<rparr>) = (t, st2)" by fastforce
  then have st2: "vs_os st2 = os1" by (auto simp: expect_def split: prod.splits)
  obtain r3 os3 where r3: "os_write (ve_os E) p content os1 = (r3, os3)" by fastforce
  have step: "vault_write_with_checksum E path content checksum st =
      (case r1 of Err e \<Rightarrow> (Err e, st\<lparr>vs_os := os1\<rparr>) | Ok current \<Rightarrow>
        case plan_checksum_write (ve_blake3 E) current content checksum of
          PlanConflict expected actual \<Rightarrow> (Ok (WriteConflict expected actual), st\<lparr>vs_os := os1\<rparr>)
        | PlanUnchanged c \<Rightarrow> (Ok (Written c), st\<lparr>vs_os := os1\<rparr>)
        | PlanChanged c \<Rightarrow> cancel_on_error (Some t) (try_then (r3, st2\<lparr>vs_os := os3\<rparr>) (\<lambda>_ st.
            try_then (notify E (NotifyWritten path ''app-save'') st) (\<lambda>_ st. (Ok (Written c), st)))))"
    unfolding vault_write_with_checksum_def assms(1) try_then.simps prod.case
    by (cases r1) (simp_all add: on_os_def r1 e r3 st2 split: checksum_write_plan.split)
  show ?thesis
  proof (rule read_to_string_cases [OF r1])
    fix b assume b: "r1 = Ok b" "fs_read (vs_fs st) p = Some b" "os_fs os1 = vs_fs st"
    then have bc: "b = current" using assms(2) by simp
    consider (same) "current = content" | (conflict) "current \<noteq> content" "ve_blake3 E current \<noteq> checksum"
      | (saved) "current \<noteq> content" "ve_blake3 E current = checksum" by blast
    then show ?thesis
    proof cases
      case same
      have "fs_read (vs_fs st) = (fs_read (vs_fs st))(p \<mapsto> content)" using assms(2) same by auto
      with same b bc show ?thesis by (simp add: step plan_checksum_write_def compute_checksum_def)
    next
      case conflict
      with b bc show ?thesis by (simp add: step plan_checksum_write_def compute_checksum_def)
    next
      case saved
      then have plan: "plan_checksum_write (ve_blake3 E) b content checksum = PlanChanged (ve_blake3 E content)"
        by (simp add: plan_checksum_write_def compute_checksum_def bc)
      show ?thesis
        by (rule os_write_cases [OF r3]; cases "ve_search_answer E (length (vs_search st2))")
          (auto simp: step b plan saved cancel_on_error_def notify_def intro: exI [of _ "length content"])
    qed
  next
    assume "r1 = Err (os_text (ve_os E))" "os_fs os1 = vs_fs st"
    then show ?thesis by (simp add: step)
  qed
qed

section \<open>Announcements\<close>

text \<open>
  The identifier the ledger gives next is not in use (it would take \<open>2\<^sup>6\<^sup>4\<close> mutations within two seconds to reuse one).
\<close>

definition fresh_token :: "vault_state \<Rightarrow> bool" where
  "fresh_token st \<longleftrightarrow> ml_next_id (vs_ledger st) + 1 \<notin> em_id ` set (ml_entries (vs_ledger st))"

definition announces :: "vault_state \<Rightarrow> ('a, string) result \<times> vault_state \<Rightarrow> bool" where
  "announces st r \<longleftrightarrow>
     (case r of
        (Ok _, st') \<Rightarrow> \<exists>new. ml_entries (vs_ledger st') = ml_entries (vs_ledger st) @ new \<and> length new \<le> 1
      | (Err _, st') \<Rightarrow> ml_entries (vs_ledger st') = ml_entries (vs_ledger st))"

interpretation quiet_ledger: effects "\<lambda>st st'. vs_ledger st' = vs_ledger st"
  by unfold_locales simp_all

lemma on_os_ledger [simp]: "vs_ledger (snd (on_os f st)) = vs_ledger st"
  by (simp add: on_os_def case_prod_beta)

lemma notify_ledger [simp]: "vs_ledger (snd (notify E call st)) = vs_ledger st"
  by (simp add: notify_def)

lemma quiet_announces: "vs_ledger (snd r) = vs_ledger st \<Longrightarrow> announces st r"
  by (cases r; cases "fst r") (auto simp: announces_def)

lemma announces_try:
  assumes "vs_ledger (snd m) = vs_ledger st" "\<And>a st1. m = (Ok a, st1) \<Longrightarrow> announces st (f a st1)"
  shows "announces st (try_then m f)"
  using assms by (cases m; cases "fst m") (auto simp: announces_def)

lemma expect_cancel_announces:
  assumes "fresh_token st" "vs_ledger st1 = vs_ledger st" "\<And>t st2. vs_ledger (snd (body t st2)) = vs_ledger st2"
    and "\<And>now. rec now = record_mutation now kind path old is_dir"
  shows "announces st (case expect E rec st1 of (t, st2) \<Rightarrow> cancel_on_error (Some t) (body t st2))"
proof -
  define entry where "entry = \<lparr>em_id = ml_next_id (vs_ledger st) + 1, em_kind = kind, em_path = path, em_old_path = old,
    em_is_dir = is_dir, em_created_at = ve_now E (os_ops (vs_os st1))\<rparr>"
  obtain t st2 where e: "expect E rec st1 = (t, st2)" by fastforce
  then have t: "t = ml_next_id (vs_ledger st) + 1" "ml_entries (vs_ledger st2) = ml_entries (vs_ledger st) @ [entry]"
    using assms(2,4) by (auto simp: expect_def record_mutation_def Let_def entry_def)
  have clean: "filter (\<lambda>x. em_id x \<noteq> t) (ml_entries (vs_ledger st)) = ml_entries (vs_ledger st)"
    using assms(1) unfolding filter_id_conv fresh_token_def t(1) by (metis imageI)
  obtain r st3 where b: "body t st2 = (r, st3)" by fastforce
  then have "vs_ledger st3 = vs_ledger st2" using assms(3) [of t st2] by simp
  with t clean b e show ?thesis
    by (cases r) (simp_all add: announces_def cancel_on_error_def cancel_def entry_def)
qed

lemma open_path_state: "snd (open_path path st) = st"
  by (simp add: open_path_def)

lemma opened_announces:
  assumes "\<And>root p. open_path path st = (Ok (root, p), st) \<Longrightarrow> announces st (f (root, p) st)"
  shows "announces st (try_then (open_path path st) f)"
proof (rule announces_try)
  fix a st1 assume opened: "open_path path st = (Ok a, st1)"
  then have "st1 = st" using open_path_state [of path st] by simp
  with assms [of "fst a" "snd a"] opened show "announces st (f a st1)" by simp
qed (simp add: open_path_state)

lemma write_text_announces: "fresh_token st \<Longrightarrow> announces st (vault_write_text E path content st)"
  unfolding vault_write_text_def
proof (rule opened_announces, goal_cases)
  case (1 root p)
  then show ?case unfolding prod.case Let_def
    by (intro expect_cancel_announces [where kind = MWrite and old = None])
      (simp_all add: record_write_def quiet_ledger.try_then_R)
qed

lemma save_announces: "fresh_token st \<Longrightarrow> announces st (vault_write_with_checksum E path content checksum st)"
  unfolding vault_write_with_checksum_def
proof (rule opened_announces, goal_cases)
  case (1 root p)
  have "announces st (case expect E (\<lambda>now. record_write now path False) st1 of (t, st2) \<Rightarrow> cancel_on_error (Some t)
      (try_then (on_os (os_write (ve_os E) p content) st2) (\<lambda>_ st.
        try_then (notify E (NotifyWritten path ''app-save'') st) (\<lambda>_ st. (Ok (Written c), st)))))"
    if "vs_ledger st1 = vs_ledger st" for st1 c
    using 1(1) that
    by (intro expect_cancel_announces [where kind = MWrite and old = None])
      (simp_all add: record_write_def quiet_ledger.try_then_R)
  then show ?case unfolding prod.case Let_def
    by (intro announces_try)
      (auto simp: on_os_eq intro: quiet_announces split: checksum_write_plan.split)
qed

lemma rename_announces: "fresh_token st \<Longrightarrow> announces st (vault_rename E src dst st)"
  unfolding vault_rename_def
proof (rule opened_announces, goal_cases)
  case (1 root p)
  note fresh = 1(1)
  show ?case unfolding prod.case
  proof (rule opened_announces, goal_cases)
    case (1 root' q)
    have moves: "vs_ledger (snd (if b then on_os f st1 else on_os g st1)) = vs_ledger st1" for b f g st1 by simp
    have body: "announces st (case expect E (\<lambda>now. record_rename now src dst is_dir) st1 of (t, st2) \<Rightarrow> cancel_on_error (Some t)
        (try_then (if is_case_only_rename (root @ p) (root @ q) then on_os (rename_via_intermediate E p q) st2
          else on_os (os_rename (ve_os E) p q) st2) (\<lambda>_ st. notify E call st)))"
      if "vs_ledger st1 = vs_ledger st" for st1 is_dir call
      using fresh that
      by (intro expect_cancel_announces [where kind = MRename and old = "Some src"])
        (simp_all only: record_rename_def quiet_ledger.try_then_R moves notify_ledger)
    show ?case unfolding prod.case Let_def
    proof (rule announces_try, goal_cases)
      case (2 meta st1)
      then have same: "vs_ledger st1 = vs_ledger st" by (auto simp: on_os_eq)
      show ?case
      proof (cases "p = [] \<or> q = []")
        case True
        with same show ?thesis by (simp add: quiet_announces)
      next
        case False
        show ?thesis unfolding if_not_P [OF False]
        proof (rule announces_try)
          show "vs_ledger (snd (on_os (create_dir_all (ve_os E) (butlast q)) st1)) = vs_ledger st" by (simp add: same)
          fix u st2 assume "on_os (create_dir_all (ve_os E) (butlast q)) st1 = (Ok u, st2)"
          then have "vs_ledger st2 = vs_ledger st" using same by (auto simp: on_os_eq)
          then show "announces st (case expect E (\<lambda>now. record_rename now src dst (node_is_dir meta)) st2 of (t, st2) \<Rightarrow>
              cancel_on_error (Some t) (try_then (if is_case_only_rename (root @ p) (root @ q)
                then on_os (rename_via_intermediate E p q) st2 else on_os (os_rename (ve_os E) p q) st2)
                (\<lambda>_ st. notify E (NotifyRenamed src dst (node_is_dir meta) ''app-rename'') st)))" by (rule body)
        qed
      qed
    qed simp
  qed
qed

lemma delete_entry_ledger: "vs_ledger (snd (delete_entry E root path p mode meta st)) = vs_ledger st"
  by (cases mode; cases meta)
    (simp_all add: delete_entry_def build_kuku_trash_destination_def quiet_ledger.try_then_R)

lemma delete_announces: "fresh_token st \<Longrightarrow> announces st (vault_delete E path mode st)"
  unfolding vault_delete_def
proof (rule opened_announces, goal_cases)
  case (1 root p)
  note fresh = 1(1)
  have quiet: "vs_ledger (snd (try_then (delete_entry E root path p mode meta st2) (\<lambda>_ st. notify E call st))) = vs_ledger st2"
    for meta call st2
    by (simp add: quiet_ledger.try_then_R delete_entry_ledger)
  have found: "announces st (case expect E (\<lambda>now. record_delete now path is_dir) st1 of (t, st2) \<Rightarrow> cancel_on_error (Some t)
      (try_then (delete_entry E root path p mode meta st2) (\<lambda>_ st. notify E call st)))"
    if "vs_ledger st1 = vs_ledger st" for st1 meta is_dir call
    using fresh that
    by (intro expect_cancel_announces [where kind = MDelete and old = None])
      (simp_all only: record_delete_def quiet)
  have missing: "announces st (cancel_on_error None (try_then (delete_entry E root path p mode meta st1) (\<lambda>_ st. notify E call st)))"
    if "vs_ledger st1 = vs_ledger st" for st1 meta call
    using quiet [of meta st1 call] that
    by (intro quiet_announces) (auto simp: cancel_on_error_def split: prod.splits result.splits)
  show ?case
  proof (cases "p = []")
    case True
    then show ?thesis by (simp add: quiet_announces)
  next
    case False
    show ?thesis unfolding prod.case if_not_P [OF False]
    proof (rule announces_try, goal_cases)
      case (2 meta st1)
      then have same: "vs_ledger st1 = vs_ledger st" by (auto simp: on_os_eq)
      show ?case
      proof (cases meta)
        case None
        then show ?thesis using missing [OF same] by simp
      next
        case (Some n)
        then show ?thesis using found [OF same] by (simp add: case_prod_beta Let_def)
      qed
    qed simp
  qed
qed

lemma other_commands_ledger:
  "vs_ledger (snd (vault_read_text E path st)) = vs_ledger st" "vs_ledger (snd (vault_read_binary E path st)) = vs_ledger st"
  "vs_ledger (snd (vault_read_with_checksum E path st)) = vs_ledger st" "vs_ledger (snd (vault_exists E path st)) = vs_ledger st"
  "vs_ledger (snd (vault_list_dir E path st)) = vs_ledger st" "vs_ledger (snd (vault_mkdir E path st)) = vs_ledger st"
  "vs_ledger (snd (vault_write_binary E path data st)) = vs_ledger st"
  "vs_ledger (snd (vault_get_trash_path E ensure_exists st)) = vs_ledger st"
  "vs_ledger (snd (vault_empty_trash E st)) = vs_ledger st"
  unfolding vault_read_text_def vault_read_binary_def vault_read_with_checksum_def vault_exists_def vault_list_dir_def
    vault_mkdir_def vault_write_binary_def vault_get_trash_path_def vault_empty_trash_def
  by (auto intro!: quiet_ledger.try_then_R simp: open_path_state split: prod.split)

lemma outcome_announces: "announces st r \<Longrightarrow> announces st (outcome r)"
  by (cases r; cases "fst r") (auto simp: announces_def outcome_def)

text \<open>
  C37. Announcements match deeds: a command that fails leaves no announcement behind, so the watcher reports what others do
  to the path, and one that succeeds has added at most one.
\<close>

theorem failed_commands_announce_nothing:
  assumes "fresh_token st"
  shows "case exec E c st of
      (Ok _, st') \<Rightarrow> \<exists>new. ml_entries (vs_ledger st') = ml_entries (vs_ledger st) @ new \<and> length new \<le> 1
    | (Err _, st') \<Rightarrow> ml_entries (vs_ledger st') = ml_entries (vs_ledger st)"
proof -
  have "announces st (exec E c st)"
    using assms
    by (cases c) (simp_all add: other_commands_ledger quiet_announces outcome_announces write_text_announces save_announces
      delete_announces rename_announces vault_remove_def)
  then show ?thesis unfolding announces_def .
qed

section \<open>Examples\<close>

definition sample_os :: os_env where
  "sample_os = \<lparr>os_fault = (\<lambda>_. False), os_text = ''os error'', os_mtime = (\<lambda>_. 0), os_torn = (\<lambda>_. None),
     os_left = (\<lambda>_ _. True), os_made = (\<lambda>_. 0)\<rparr>"

definition sample_vault_env :: vault_env where
  "sample_vault_env = \<lparr>ve_os = sample_os, ve_now = (\<lambda>_. 0), ve_search_answer = (\<lambda>_. Ok ()), ve_blake3 = (\<lambda>b. b),
     ve_pid = ''7'', ve_trash = (\<lambda>p fs. Err ''no trash'')\<rparr>"

definition sample_open_vault :: vault_state where
  "sample_open_vault = \<lparr>vs_path = Some [''v''],
     vs_os = \<lparr>os_fs = Dir [(''a.md'', File ''alpha'' 0), (''b.md'', File ''beta'' 0),
       (''.trash'', Dir [(''a.md'', File ''old'' 0)])], os_ops = 0\<rparr>,
     vs_ledger = empty_ledger, vs_search = []\<rparr>"

theorem commands_touch_named_files_witness:
  "fs_read (vs_fs (snd (exec sample_vault_env (Rename ''a.md'' ''c.md'') sample_open_vault))) [''b.md''] = Some ''beta''"
proof -
  have "trash_ok sample_vault_env" by (simp add: trash_ok_def sample_vault_env_def)
  moreover have "vs_path sample_open_vault \<noteq> Some []" by (simp add: sample_open_vault_def)
  moreover have "\<not> at_or_below (touched sample_vault_env sample_open_vault (Rename ''a.md'' ''c.md'')) [''b.md'']" by code_simp
  ultimately have "fs_read (vs_fs (snd (exec sample_vault_env (Rename ''a.md'' ''c.md'') sample_open_vault))) [''b.md''] =
      fs_read (vs_fs sample_open_vault) [''b.md'']"
    by (rule commands_touch_named_files)
  moreover have "fs_read (vs_fs sample_open_vault) [''b.md''] = Some ''beta''" by code_simp
  ultimately show ?thesis by simp
qed

text \<open>The trash already has an entry of this name: the deleted file goes beside it.\<close>

lemma sample_trash:
  "open_path ''a.md'' sample_open_vault = (Ok ([''v''], [''a.md'']), sample_open_vault)"
  "fs_lookup (vs_fs sample_open_vault) [''a.md''] = Some (File ''alpha'' 0)"
  "fst (vault_delete sample_vault_env ''a.md'' KukuTrash sample_open_vault) = Ok ()"
  "fs_read (vs_fs (snd (vault_delete sample_vault_env ''a.md'' KukuTrash sample_open_vault))) [''.trash'', ''a 1.md''] = Some ''alpha''"
  "fs_read (vs_fs (snd (vault_delete sample_vault_env ''a.md'' KukuTrash sample_open_vault))) [''.trash'', ''a.md''] = Some ''old''"
proof -
  show "fst (vault_delete sample_vault_env ''a.md'' KukuTrash sample_open_vault) = Ok ()" by code_simp
  show "fs_read (vs_fs (snd (vault_delete sample_vault_env ''a.md'' KukuTrash sample_open_vault))) [''.trash'', ''a 1.md''] = Some ''alpha''"
    by code_simp
  show "fs_read (vs_fs (snd (vault_delete sample_vault_env ''a.md'' KukuTrash sample_open_vault))) [''.trash'', ''a.md''] = Some ''old''"
    by code_simp
  show "fs_lookup (vs_fs sample_open_vault) [''a.md''] = Some (File ''alpha'' 0)" by code_simp
  have "fst (open_path ''a.md'' sample_open_vault) = Ok ([''v''], [''a.md''])" by code_simp
  then show "open_path ''a.md'' sample_open_vault = (Ok ([''v''], [''a.md'']), sample_open_vault)"
    using open_path_state [of "''a.md''" sample_open_vault] by (cases "open_path ''a.md'' sample_open_vault") simp
qed

theorem kuku_trash_keeps_entry_witness:
  "\<exists>d. prefix [KUKU_TRASH_DIR] d \<and> \<not> fs_exists (vs_fs sample_open_vault) d \<and>
     fs_lookup (vs_fs (snd (vault_delete sample_vault_env ''a.md'' KukuTrash sample_open_vault))) d = Some (File ''alpha'' 0)"
proof -
  have "vs_path sample_open_vault \<noteq> Some []" by (simp add: sample_open_vault_def)
  moreover have "vault_delete sample_vault_env ''a.md'' KukuTrash sample_open_vault =
      (Ok (), snd (vault_delete sample_vault_env ''a.md'' KukuTrash sample_open_vault))"
    using sample_trash(3) by (simp add: prod_eq_iff)
  ultimately show ?thesis
    using kuku_trash_keeps_entry [of sample_open_vault "''a.md''" "[''v'']" "[''a.md'']" "File ''alpha'' 0" sample_vault_env
        "snd (vault_delete sample_vault_env ''a.md'' KukuTrash sample_open_vault)"] sample_trash(1,2) by blast
qed

theorem save_respects_checksum_witness:
  "case vault_write_with_checksum sample_vault_env ''a.md'' ''new'' ''stale'' sample_open_vault of
      (Ok (Written c), st') \<Rightarrow> False
    | (Ok (WriteConflict expected actual), st') \<Rightarrow> actual = ''alpha'' \<and> fs_read (vs_fs st') = fs_read (vs_fs sample_open_vault)
    | (Err e, st') \<Rightarrow> False"
proof -
  have read: "fs_read (vs_fs sample_open_vault) [''a.md''] = Some ''alpha''" by code_simp
  have "fst (vault_write_with_checksum sample_vault_env ''a.md'' ''new'' ''stale'' sample_open_vault) =
      Ok (WriteConflict ''stale'' ''alpha'')" by code_simp
  moreover obtain r st' where r: "vault_write_with_checksum sample_vault_env ''a.md'' ''new'' ''stale'' sample_open_vault = (r, st')"
    by fastforce
  ultimately have "r = Ok (WriteConflict ''stale'' ''alpha'')" by simp
  with save_respects_checksum [OF sample_trash(1) read, of sample_vault_env "''new''" "''stale''"] r show ?thesis by simp
qed

theorem failed_commands_announce_nothing_witness:
  "ml_entries (vs_ledger (snd (exec sample_vault_env (Delete ''a.md'' Trash) sample_open_vault))) = []"
proof -
  have "fresh_token sample_open_vault" by (simp add: fresh_token_def sample_open_vault_def empty_ledger_def)
  note law = failed_commands_announce_nothing [OF this, of sample_vault_env "Delete ''a.md'' Trash"]
  have "is_ok (fst (exec sample_vault_env (Delete ''a.md'' Trash) sample_open_vault)) = False" by code_simp
  then obtain e st' where "exec sample_vault_env (Delete ''a.md'' Trash) sample_open_vault = (Err e, st')"
    by (cases "exec sample_vault_env (Delete ''a.md'' Trash) sample_open_vault"; cases "fst (exec sample_vault_env (Delete ''a.md'' Trash) sample_open_vault)") auto
  with law show ?thesis by (simp add: sample_open_vault_def empty_ledger_def)
qed

text \<open>Renaming onto an existing file replaces it without a word, where the guarded rename of the assistants refuses.\<close>

lemma rename_replaces:
  "fst (vault_rename sample_vault_env ''a.md'' ''b.md'' sample_open_vault) = Ok ()"
  "fs_read (vs_fs (snd (vault_rename sample_vault_env ''a.md'' ''b.md'' sample_open_vault))) [''b.md''] = Some ''alpha''"
  "is_ok (fst (guarded_rename sample_os [''v''] [''a.md''] [''b.md''] (vs_os sample_open_vault))) = False"
  by code_simp+

text \<open>A guarded write that fails behind the opening of the file has lost the old contents.\<close>

lemma torn_write:
  "case guarded_write (\<lambda>b. b) (sample_os\<lparr>os_fault := (\<lambda>n. n = 1), os_torn := (\<lambda>_. Some 2)\<rparr>) [''v''] [''a.md''] ''new'' ''alpha''
     (vs_os sample_open_vault) of (r, st') \<Rightarrow> \<not> is_ok r \<and> fs_read (os_fs st') [''a.md''] = Some ''ne''"
  by code_simp

end
