(* ===== verification/Protected_Paths.thy ===== *)
theory Protected_Paths
  imports Vault_Fs Rust_Text
begin

text \<open>
  The guard that keeps assistants away from the knowledge base (\<^verbatim>\<open>knowledge/protected_paths.rs\<close>): a path is trimmed,
  split at both separators, decoded and normalised, and refused when it is at or below a protected directory, by its name
  or by what it resolves to. Unicode composition and lower case are parameters, and so are the answers of the
  operating system about links (\<open>link_os\<close>).
\<close>

section \<open>Normalising a path\<close>

definition percent :: char where "percent = CHR 0x25"

definition hex_value :: "char \<Rightarrow> nat option" where
  "hex_value c =
     (if 0x30 \<le> byte c \<and> byte c \<le> 0x39 then Some (byte c - 0x30)
      else if 0x61 \<le> byte c \<and> byte c \<le> 0x66 then Some (byte c - 0x61 + 10)
      else if 0x41 \<le> byte c \<and> byte c \<le> 0x46 then Some (byte c - 0x41 + 10)
      else None)"

fun contains_percent_encoding :: "string \<Rightarrow> bool" where
  "contains_percent_encoding (a # b # c # s) =
     (a = percent \<and> hex_value b \<noteq> None \<and> hex_value c \<noteq> None \<or> contains_percent_encoding (b # c # s))"
| "contains_percent_encoding _ = False"

text \<open>The loop over the bytes; \<^verbatim>\<open>index + 2 >= bytes.len()\<close> is fewer than two bytes behind the percent sign.\<close>

fun decode_loop :: "string \<Rightarrow> string \<Rightarrow> (string, string) result" where
  "decode_loop [] out = Ok out"
| "decode_loop (b # s) out =
     (if b \<noteq> percent then decode_loop s (out @ [b])
      else
        (case s of
           h # l # t \<Rightarrow>
             (case (hex_value h, hex_value l) of
                (Some high, Some low) \<Rightarrow>
                  let decoded = char_of (16 * high + low) in
                  if decoded = slash \<or> decoded = backslash then Err ''Percent-encoded separators are not allowed''
                  else decode_loop t (out @ [decoded])
              | _ \<Rightarrow> Err ''Malformed percent encoding'')
         | _ \<Rightarrow> Err ''Malformed percent encoding''))"

definition percent_decode_segment :: "string \<Rightarrow> (string, string) result" where
  "percent_decode_segment value =
     and_then (decode_loop value []) (\<lambda>out.
       if \<not> utf8_valid out then Err ''Invalid UTF-8''
       else if contains_percent_encoding out then Err ''Repeated percent encoding is not allowed''
       else Ok out)"

definition has_windows_drive_prefix :: "string \<Rightarrow> bool" where
  "has_windows_drive_prefix value =
     (case value of
        a # b # _ \<Rightarrow> (65 \<le> byte a \<and> byte a \<le> 90 \<or> 97 \<le> byte a \<and> byte a \<le> 122) \<and> b = CHR '':''
      | _ \<Rightarrow> False)"

text \<open>\<^verbatim>\<open>char::is_control\<close>: the code points below 32 and from 127 to 159, the latter as two bytes from 128 on.\<close>

fun has_control :: "string \<Rightarrow> bool" where
  "has_control [] = False"
| "has_control (a # s) =
     (byte a < 32 \<or> byte a = 127 \<or>
      (byte a = 0xC2 \<and> (case s of b # _ \<Rightarrow> 0x80 \<le> byte b \<and> byte b \<le> 0x9F | [] \<Rightarrow> False)) \<or> has_control s)"

definition split_separators :: "string \<Rightarrow> string list" where
  "split_separators s = split_char slash (replace_char backslash slash s)"

fun push_segments :: "(string \<Rightarrow> string) \<Rightarrow> string list \<Rightarrow> string list \<Rightarrow> (string list, string) result" where
  "push_segments nfc [] segments = Ok segments"
| "push_segments nfc (raw_segment # rest) segments =
     (if raw_segment = [] then push_segments nfc rest segments
      else
        and_then (percent_decode_segment raw_segment) (\<lambda>decoded.
          let segment = nfc decoded in
          if segment = ''.'' then push_segments nfc rest segments
          else if segment = ''..'' then Err ''Path traversal is not allowed''
          else push_segments nfc rest (segments @ [segment])))"

definition normalize_ai_raw_mutation_path :: "(string \<Rightarrow> string) \<Rightarrow> string \<Rightarrow> (string, string) result" where
  "normalize_ai_raw_mutation_path nfc value =
     (let trimmed = trim value in
      if trimmed = [] then Err ''Path is empty''
      else if prefix [slash] trimmed \<or> prefix [backslash] trimmed \<or> has_windows_drive_prefix trimmed
      then Err ''Absolute paths are not allowed''
      else if has_control trimmed then Err ''Path contains NUL or control characters''
      else
        and_then (push_segments nfc (split_separators trimmed) []) (\<lambda>segments.
          if segments = [] then Err ''Path is empty'' else Ok (join_with ''/'' segments)))"

section \<open>The guard\<close>

definition PROTECTED_PREFIXES :: "string list" where
  "PROTECTED_PREFIXES = [''Knowledge/memory'', ''Knowledge/decisions'', ''Knowledge/wiki'']"

definition is_protected_relative_path :: "(string \<Rightarrow> string) \<Rightarrow> string \<Rightarrow> bool" where
  "is_protected_relative_path lc path =
     (let key = lc path in
      list_ex (\<lambda>prfx. let prfx = lc prfx in key = prfx \<or> prefix (prfx @ ''/'') key) PROTECTED_PREFIXES)"

text \<open>The answers of the operating system: canonical paths, what stands at a path, and where a link points.\<close>

datatype link_kind = IsLink | IsOther | LinkMissing | LinkError string

record link_os =
  lo_canonical :: "fpath \<Rightarrow> (fpath, string) result"
  lo_metadata :: "fpath \<Rightarrow> link_kind"
  lo_read_link :: "fpath \<Rightarrow> (bool \<times> fpath, string) result"

definition path_key :: "(string \<Rightarrow> string) \<Rightarrow> fpath \<Rightarrow> string" where
  "path_key lc path = lc (replace_char backslash slash (display_path path))"

definition path_key_is_under :: "string \<Rightarrow> string \<Rightarrow> bool" where
  "path_key_is_under path protected \<longleftrightarrow> path = protected \<or> prefix (protected @ ''/'') path"

definition protected_absolute_keys :: "(string \<Rightarrow> string) \<Rightarrow> link_os \<Rightarrow> fpath \<Rightarrow> string list" where
  "protected_absolute_keys lc K vault_root =
     remdups_adj (sort (concat (map (\<lambda>prfx.
       let lexical = vault_root @ split_char slash prfx in
       path_key lc lexical # (case lo_canonical K lexical of Ok c \<Rightarrow> [path_key lc c] | Err _ \<Rightarrow> []))
       PROTECTED_PREFIXES)))"

text \<open>A link's target is absolute or relative to its directory; the canonical path of either is asked for.\<close>

definition resolve_symlink_target :: "link_os \<Rightarrow> fpath \<Rightarrow> (fpath, string) result" where
  "resolve_symlink_target K path =
     and_then (lo_read_link K path) (\<lambda>(is_absolute, target).
       let absolute = (if is_absolute then target else butlast path @ target) in
       map_err (\<lambda>e. ''Symlink target cannot be resolved: '' @ e) (lo_canonical K absolute))"

fun walk_segments :: "link_os \<Rightarrow> fpath \<Rightarrow> string list \<Rightarrow> (fpath, string) result" where
  "walk_segments K current [] = Ok current"
| "walk_segments K current (segment # rest) =
     (let following = current @ [segment] in
      case lo_metadata K following of
        IsLink \<Rightarrow> and_then (resolve_symlink_target K following) (\<lambda>current. walk_segments K current rest)
      | IsOther \<Rightarrow> walk_segments K (case lo_canonical K following of Ok c \<Rightarrow> c | Err _ \<Rightarrow> following) rest
      | LinkMissing \<Rightarrow> Ok (following @ rest)
      | LinkError e \<Rightarrow> Err e)"

definition resolved_absolute_key :: "(string \<Rightarrow> string) \<Rightarrow> link_os \<Rightarrow> fpath \<Rightarrow> string \<Rightarrow> (string, string) result" where
  "resolved_absolute_key lc K vault_root normalized_path =
     and_then (walk_segments K (case lo_canonical K vault_root of Ok c \<Rightarrow> c | Err _ \<Rightarrow> vault_root)
         (split_char slash normalized_path)) (\<lambda>current. Ok (path_key lc current))"

definition resolved_path_is_protected :: "(string \<Rightarrow> string) \<Rightarrow> link_os \<Rightarrow> fpath \<Rightarrow> string \<Rightarrow> (bool, string) result" where
  "resolved_path_is_protected lc K vault_root normalized_path =
     and_then (resolved_absolute_key lc K vault_root normalized_path) (\<lambda>resolved_key.
       Ok (list_ex (path_key_is_under resolved_key) (protected_absolute_keys lc K vault_root)))"

definition protected_path_error :: "string \<Rightarrow> string" where
  "protected_path_error path =
     ''AI raw file mutation is not allowed for protected Knowledge path: '' @ path"

definition guard_ai_raw_mutation_path ::
  "(string \<Rightarrow> string) \<Rightarrow> (string \<Rightarrow> string) \<Rightarrow> link_os \<Rightarrow> fpath \<Rightarrow> string \<Rightarrow> (string, string) result" where
  "guard_ai_raw_mutation_path nfc lc K vault_root value =
     and_then (normalize_ai_raw_mutation_path nfc value) (\<lambda>normalized.
     if is_protected_relative_path lc normalized then Err (protected_path_error normalized)
     else
       and_then (resolved_path_is_protected lc K vault_root normalized) (\<lambda>protected.
         if protected then Err (protected_path_error normalized) else Ok normalized))"

section \<open>No name of a protected path passes\<close>

text \<open>
  Of the parameters: composition does not change ASCII text, and lower case is ASCII's on ASCII text and works piecewise
  at a separator.
\<close>

definition is_ascii :: "string \<Rightarrow> bool" where
  "is_ascii s \<longleftrightarrow> list_all (\<lambda>c. byte c < 128) s"

definition nfc_ok :: "(string \<Rightarrow> string) \<Rightarrow> bool" where
  "nfc_ok nfc \<longleftrightarrow> (\<forall>s. is_ascii s \<longrightarrow> nfc s = s)"

definition lower_ok :: "(string \<Rightarrow> string) \<Rightarrow> bool" where
  "lower_ok lc \<longleftrightarrow> (\<forall>s. is_ascii s \<longrightarrow> lc s = to_ascii_lowercase s) \<and>
     (\<forall>s t. is_ascii s \<longrightarrow> lc (s @ ''/'' @ t) = to_ascii_lowercase s @ ''/'' @ lc t)"

text \<open>The names of a path, and a path at or below a protected directory.\<close>

definition plain_names :: "string list \<Rightarrow> string list" where
  "plain_names xs = filter (\<lambda>x. x \<noteq> [] \<and> x \<noteq> ''.'') xs"

definition protected_names :: "string list \<Rightarrow> bool" where
  "protected_names p \<longleftrightarrow>
     map to_ascii_lowercase (take 2 p) \<in> {[''knowledge'', ''memory''], [''knowledge'', ''decisions''], [''knowledge'', ''wiki'']}"

definition letters :: "string \<Rightarrow> bool" where
  "letters s \<longleftrightarrow> s \<noteq> [] \<and> list_all (\<lambda>c. 65 \<le> byte c \<and> byte c \<le> 90 \<or> 97 \<le> byte c \<and> byte c \<le> 122) s"

definition letter :: "char \<Rightarrow> bool" where
  "letter c \<longleftrightarrow> 65 \<le> byte c \<and> byte c \<le> 90 \<or> 97 \<le> byte c \<and> byte c \<le> 122"

lemma lower_letter: "letter (ascii_lower c) \<Longrightarrow> letter c"
  by (auto simp: letter_def ascii_lower_def split: if_splits)

lemma lower_letters: "to_ascii_lowercase s = t \<Longrightarrow> letters t \<Longrightarrow> letters s"
  unfolding letters_def letter_def [symmetric] to_ascii_lowercase_def list_all_iff
  using lower_letter by auto

lemma letters_plain:
  assumes "letters s"
  shows "s \<noteq> []" "s \<noteq> ''.''" "s \<noteq> ''..''" "slash \<notin> set s" "backslash \<notin> set s" "percent \<notin> set s" "is_ascii s"
    "\<forall>c \<in> set s. is_ascii_graphic c"
  using assms by (auto simp: letters_def list_all_iff is_ascii_def is_ascii_graphic_def percent_def)

lemma decode_plain: "percent \<notin> set s \<Longrightarrow> decode_loop s out = Ok (out @ s)"
  by (induction s arbitrary: out) auto

lemma no_percent_encoding: "percent \<notin> set s \<Longrightarrow> \<not> contains_percent_encoding s"
  by (induction s rule: contains_percent_encoding.induct) auto

lemma utf8_ascii: "is_ascii s \<Longrightarrow> utf8_valid s"
  by (induction s) (auto simp: is_ascii_def)

lemma push_letters:
  assumes "nfc_ok nfc" "letters s"
  shows "push_segments nfc (s # rest) segments = push_segments nfc rest (segments @ [s])"
proof -
  note p = letters_plain [OF assms(2)]
  have "percent_decode_segment s = Ok s"
    using p by (simp add: percent_decode_segment_def decode_plain no_percent_encoding utf8_ascii)
  with p assms(1) show ?thesis by (simp add: nfc_ok_def)
qed

lemma push_dots: "nfc_ok nfc \<Longrightarrow> x = [] \<or> x = ''.'' \<Longrightarrow> push_segments nfc (x # rest) segments = push_segments nfc rest segments"
  by (auto simp: percent_decode_segment_def nfc_ok_def is_ascii_def percent_def no_percent_encoding)

lemma push_extends: "push_segments nfc xs segments = Ok ys \<Longrightarrow> prefix segments ys"
proof (induction xs arbitrary: segments)
  case (Cons x xs)
  show ?case
  proof (cases "x = []")
    case True
    with Cons show ?thesis by simp
  next
    case False
    then obtain d where d: "percent_decode_segment x = Ok d" using Cons.prems by (auto simp: result_simps)
    with Cons.prems False have "push_segments nfc xs segments = Ok ys \<or> push_segments nfc xs (segments @ [nfc d]) = Ok ys"
      by (auto simp: Let_def split: if_splits)
    with Cons.IH [of segments] Cons.IH [of "segments @ [nfc d]"] show ?thesis by (auto dest: append_prefixD)
  qed
qed simp

text \<open>Splitting: at the slashes first, and a piece at its backslashes after.\<close>

lemma split_char_append_last:
  "c \<notin> set w \<Longrightarrow> split_char c (a @ w) = butlast (split_char c a) @ [last (split_char c a) @ w]"
proof (induction a)
  case (Cons x a)
  then show ?case by (cases "split_char c a") (auto split: list.splits)
qed (simp add: split_char_no_sep)

lemma split_separators_pieces:
  "split_separators s = concat (map split_separators (split_char slash s))"
proof (induction s)
  case (Cons x s)
  obtain y ys where ys: "split_char slash s = y # ys" by (cases "split_char slash s") auto
  obtain z zs where zs: "split_separators y = z # zs" by (cases "split_separators y") (auto simp: split_separators_def)
  have tail: "split_separators s = z # zs @ concat (map split_separators ys)" using Cons ys zs by simp
  show ?case
  proof (cases "x = slash")
    case True
    then have "split_separators (x # s) = [] # split_separators s" by (simp add: split_separators_def replace_char_def)
    moreover have "split_separators [] = [[]]" by (simp add: split_separators_def replace_char_def)
    ultimately show ?thesis using True tail ys zs by simp
  next
    case False
    have step: "split_separators (x # t) = (if x = backslash then [] # split_separators t else
        (case split_separators t of [] \<Rightarrow> [[x]] | y # ys \<Rightarrow> (x # y) # ys))" for t
      using False by (simp add: split_separators_def replace_char_def)
    show ?thesis using False tail ys zs step [of s] step [of y] by simp
  qed
qed (simp add: split_separators_def replace_char_def)

lemma split_separators_single: "slash \<notin> set x \<Longrightarrow> backslash \<notin> set x \<Longrightarrow> split_separators x = [x]"
proof -
  assume "slash \<notin> set x" "backslash \<notin> set x"
  then have "replace_char backslash slash x = x" by (auto simp: replace_char_def intro: map_idI)
  with \<open>slash \<notin> set x\<close> show ?thesis by (simp add: split_separators_def split_char_no_sep)
qed

text \<open>The guard pushes the first two names of a path first when they are letters.\<close>

lemma split_plain: "letters x \<or> x = [] \<or> x = ''.'' \<Longrightarrow> split_separators x = [x]"
  by (rule split_separators_single) (use letters_plain(4,5) [of x] in auto)

lemma plain_names_Nil: "plain_names (u # us) = [] \<longleftrightarrow> (u = [] \<or> u = ''.'') \<and> plain_names us = []"
  by (simp add: plain_names_def)

lemma push_plain_names:
  assumes "nfc_ok nfc" "letters v" "plain_names us = []"
  shows "push_segments nfc (concat (map split_separators (us @ v # vs))) segments =
      push_segments nfc (concat (map split_separators vs)) (segments @ [v])"
  using assms(3)
proof (induction us)
  case Nil
  have "split_separators v = [v]" using split_plain [of v] assms(2) by blast
  then show ?case
    by (simp only: append_Nil list.map concat.simps append_Cons push_letters [OF assms(1,2)])
next
  case (Cons u us)
  then have u: "u = [] \<or> u = ''.''" and us: "plain_names us = []" unfolding plain_names_Nil by blast+
  have "split_separators u = [u]" using split_plain [of u] u by blast
  then show ?case
    by (simp only: append_Nil list.map concat.simps append_Cons push_dots [OF assms(1) u] Cons.IH [OF us])
qed

lemma plain_names_Cons:
  assumes "plain_names xs = n # ns"
  obtains us vs where "xs = us @ n # vs" "plain_names us = []" "plain_names vs = ns"
proof -
  from assms obtain us vs where "xs = us @ n # vs" "\<forall>u \<in> set us. \<not> (u \<noteq> [] \<and> u \<noteq> ''.'')" "ns = filter (\<lambda>x. x \<noteq> [] \<and> x \<noteq> ''.'') vs"
    unfolding plain_names_def filter_eq_Cons_iff by blast
  moreover from this(2) have "plain_names us = []" unfolding plain_names_def filter_empty_conv .
  ultimately show thesis using that unfolding plain_names_def by blast
qed

lemma push_first_names:
  assumes nfc: "nfc_ok nfc" and names: "plain_names xs = s1 # s2 # others" "letters s1" "letters s2"
    and push: "push_segments nfc (concat (map split_separators xs)) [] = Ok ys"
  shows "prefix [s1, s2] ys"
proof -
  obtain us vs where 1: "xs = us @ s1 # vs" "plain_names us = []" "plain_names vs = s2 # others"
    using plain_names_Cons [OF names(1)] .
  obtain us' vs' where 2: "vs = us' @ s2 # vs'" "plain_names us' = []"
    using plain_names_Cons [OF 1(3)] by metis
  have "push_segments nfc (concat (map split_separators vs')) (([] @ [s1]) @ [s2]) = Ok ys"
    using push unfolding 1(1) push_plain_names [OF nfc names(2) 1(2)] 2(1) push_plain_names [OF nfc names(3) 2(2)] .
  from push_extends [OF this] show ?thesis by simp
qed

text \<open>No segment climbs, and what is trimmed away prints nothing.\<close>

lemma push_no_climb: "nfc_ok nfc \<Longrightarrow> push_segments nfc zs segments = Ok ys \<Longrightarrow> ''..'' \<notin> set zs"
proof (induction zs arbitrary: segments)
  case (Cons z zs)
  have dots: "push_segments nfc (''..'' # zs) segments = Err ''Path traversal is not allowed''"
    using Cons.prems(1) by (simp add: percent_decode_segment_def nfc_ok_def is_ascii_def percent_def no_percent_encoding)
  have "\<exists>segments. push_segments nfc zs segments = Ok ys"
    using Cons.prems(2) by (auto simp: result_simps Let_def split: if_splits)
  with Cons.IH Cons.prems(1) have "''..'' \<notin> set zs" by blast
  moreover have "z \<noteq> ''..''" using Cons.prems(2) dots by (metis result.distinct(1))
  ultimately show ?case by simp
qed simp

lemma split_no_climb: "''..'' \<notin> set (concat (map split_separators xs)) \<Longrightarrow> ''..'' \<notin> set xs"
  using split_separators_single [of "''..''"] by force

lemma trim_start_drops: "\<exists>pre. s = pre @ trim_start s \<and> (\<forall>c \<in> set pre. \<not> is_ascii_graphic c)"
proof (induction s rule: trim_start.induct)
  case (1 s)
  show ?case
  proof (cases "white_prefix s")
    case None
    then show ?thesis by (intro exI [of _ "[]"]) (simp add: trim_start_white [of s])
  next
    case (Some w)
    then obtain t where w: "w \<in> set white_chars" "w \<noteq> []" "s = w @ t" using white_prefix_Some [OF Some] by (auto elim: prefixE)
    with 1 Some obtain pre where "t = pre @ trim_start t" "\<forall>c \<in> set pre. \<not> is_ascii_graphic c"
      by (auto simp: white_prefix_def)
    with w Some white_chars_not_graphic [OF w(1)] show ?thesis
      by (intro exI [of _ "w @ pre"]) (auto simp: trim_start_white [of "w @ t"])
  qed
qed

lemma trim_end_drops: "\<exists>post. s = trim_end s @ post \<and> (\<forall>c \<in> set post. \<not> is_ascii_graphic c)"
proof (induction s rule: trim_end.induct)
  case (1 s)
  show ?case
  proof (cases "white_suffix s")
    case None
    then show ?thesis by (intro exI [of _ "[]"]) (simp add: trim_end_white [of s])
  next
    case (Some w)
    then obtain t where w: "w \<in> set white_chars" "w \<noteq> []" "s = t @ w"
      using white_suffix_Some [OF Some] by (auto simp: white_suffix_def find_Some_iff elim: suffixE dest: nth_mem)
    with 1 Some obtain post where "t = trim_end t @ post" "\<forall>c \<in> set post. \<not> is_ascii_graphic c"
      by (auto simp: white_suffix_def)
    with w Some white_chars_not_graphic [OF w(1)] show ?thesis
      by (intro exI [of _ "post @ w"]) (auto simp: trim_end_white [of "t @ w"])
  qed
qed

text \<open>Without \<^verbatim>\<open>..\<close>, the resolver returns the names of the path.\<close>

lemma stack_of_segments:
  "''..'' \<notin> set xs \<Longrightarrow> relative_stack (List.map_filter segment_component xs) st = Some (st @ plain_names xs)"
  by (induction xs arbitrary: st) (auto simp: plain_names_def segment_component_def map_filter_def)

lemma stack_plain:
  assumes "''..'' \<notin> set (split_char slash s)" "relative_stack (components s) [] = Some q"
  shows "q = plain_names (split_char slash s)"
proof -
  obtain x xs where xs: "split_char slash s = x # xs" by (cases "split_char slash s") auto
  with assms(2) have "x = [] \<Longrightarrow> s = []" by (auto simp: components_def split: if_splits)
  moreover have "s = [] \<Longrightarrow> x # xs = [[]]" using xs by simp
  ultimately show ?thesis
    using assms xs stack_of_segments [of xs] unfolding components_def
    by (cases "x = []"; cases "x = ''.''") (auto simp: segment_component_def plain_names_def)
qed

text \<open>The segments of a path and of the path trimmed: those that print are the same.\<close>

definition silent :: "string \<Rightarrow> bool" where
  "silent w \<longleftrightarrow> list_all (\<lambda>c. \<not> is_ascii_graphic c) w"

definition graphic :: "string \<Rightarrow> bool" where
  "graphic w \<longleftrightarrow> list_all is_ascii_graphic w"

lemma silent_facts:
  "silent w \<Longrightarrow> slash \<notin> set w" "silent w \<Longrightarrow> graphic (u @ w) \<Longrightarrow> w = []" "silent w \<Longrightarrow> graphic (w @ u) \<Longrightarrow> w = []"
  "letters x \<Longrightarrow> graphic x" "graphic ''.''" "graphic ''..''"
  using letters_plain(8) [of x]
  by (auto simp: silent_def graphic_def list_all_iff is_ascii_graphic_def neq_Nil_conv)

lemma trim_silent: "\<exists>pre post. s = pre @ trim s @ post \<and> silent pre \<and> silent post"
  using trim_start_drops [of s] trim_end_drops [of "trim_start s"] unfolding trim_def silent_def list_all_iff
  by (metis append_assoc)

lemma split_char_append_first: "c \<notin> set w \<Longrightarrow> split_char c (w @ a) = (w @ hd (split_char c a)) # tl (split_char c a)"
proof (induction w)
  case Nil
  then show ?case by (cases "split_char c a") auto
qed (auto split: list.splits)

lemma graphic_segments:
  assumes w: "silent w" and x: "graphic x"
  shows "x \<in> set (split_char slash (a @ w)) \<Longrightarrow> x \<in> set (split_char slash a)"
    and "x \<in> set (split_char slash (w @ a)) \<Longrightarrow> x \<in> set (split_char slash a)"
proof -
  have set: "set (split_char slash a) = set (butlast (split_char slash a)) \<union> {last (split_char slash a)}"
    using append_butlast_last_id [OF split_char_not_Nil [of slash a]] by (metis set_append list.set)
  have "x = last (split_char slash a) @ w \<Longrightarrow> w = []" using silent_facts(2) [OF w] x by blast
  then show "x \<in> set (split_char slash (a @ w)) \<Longrightarrow> x \<in> set (split_char slash a)"
    unfolding split_char_append_last [OF silent_facts(1) [OF w]] set by auto
next
  obtain y ys where a: "split_char slash a = y # ys" using split_char_not_Nil [of slash a] by (cases "split_char slash a") auto
  have "x = w @ y \<Longrightarrow> w = []" using silent_facts(3) [OF w] x by blast
  then show "x \<in> set (split_char slash (w @ a)) \<Longrightarrow> x \<in> set (split_char slash a)"
    unfolding split_char_append_first [OF silent_facts(1) [OF w]] a by auto
qed

lemma names_behind_silence:
  assumes "silent w" "plain_names (split_char slash (w @ a)) = s1 # ns" "letters s1"
  shows "w = []"
proof (rule ccontr)
  assume "w \<noteq> []"
  have "\<not> graphic (w @ u)" for u using silent_facts(3) [OF assms(1), of u] \<open>w \<noteq> []\<close> by blast
  then have "w @ u \<noteq> ''.''" for u using silent_facts(5) by metis
  with assms(2) have "s1 = w @ hd (split_char slash a)"
    unfolding split_char_append_first [OF silent_facts(1) [OF assms(1)]] plain_names_def
    using \<open>w \<noteq> []\<close> by simp
  with \<open>w \<noteq> []\<close> silent_facts(3) [OF assms(1)] silent_facts(4) [OF assms(3)] show False by blast
qed

lemma names_before_silence:
  assumes w: "silent w" and names: "plain_names (split_char slash (a @ w)) = s1 # s2 # ns" "letters s1" "letters s2"
  shows "\<exists>ns'. plain_names (split_char slash a) = s1 # s2 # ns'"
proof (cases "w = []")
  case True
  with names(1) show ?thesis by simp
next
  case False
  let ?l = "last (split_char slash a) @ w"
  have "\<not> graphic ?l" using silent_facts(2) [OF w] False by blast
  then have l: "?l \<noteq> [] \<and> ?l \<noteq> ''.''" "?l \<noteq> s1" "?l \<noteq> s2"
    using silent_facts(4) [OF names(2)] silent_facts(4) [OF names(3)] silent_facts(5) False by auto
  then have split: "plain_names (butlast (split_char slash a)) @ [?l] = s1 # s2 # ns"
    using names(1) unfolding split_char_append_last [OF silent_facts(1) [OF w]] plain_names_def by simp
  with l(2,3) obtain ns' where "plain_names (butlast (split_char slash a)) = s1 # s2 # ns'"
    by (auto simp: append_eq_Cons_conv)
  then have "plain_names (butlast (split_char slash a) @ [last (split_char slash a)]) = s1 # s2 # ns' @ plain_names [last (split_char slash a)]"
    unfolding plain_names_def filter_append by simp
  then show ?thesis using append_butlast_last_id [OF split_char_not_Nil [of slash a]] by metis
qed

lemma normalized_names:
  assumes nfc: "nfc_ok nfc" and norm: "normalize_ai_raw_mutation_path nfc value = Ok normalized"
    and stack: "relative_stack (components value) [] = Some (s1 # s2 # ns)" and l: "letters s1" "letters s2"
  shows "\<exists>zs. normalized = join_with ''/'' (s1 # s2 # zs)"
proof -
  obtain pre post where v: "value = pre @ trim value @ post" and silent: "silent pre" "silent post" using trim_silent by blast
  obtain segs where segs: "push_segments nfc (split_separators (trim value)) [] = Ok segs" "normalized = join_with ''/'' segs"
    using norm by (auto simp: normalize_ai_raw_mutation_path_def Let_def result_simps split: if_splits)
  then have push: "push_segments nfc (concat (map split_separators (split_char slash (trim value)))) [] = Ok segs"
    using split_separators_pieces [of "trim value"] by simp
  have "''..'' \<notin> set (split_char slash (trim value))" using split_no_climb push_no_climb [OF nfc push] by blast
  then have "''..'' \<notin> set (split_char slash value)"
    using graphic_segments [OF silent(1) silent_facts(6)] graphic_segments [OF silent(2) silent_facts(6)] v by metis
  from stack_plain [OF this stack] have names: "plain_names (split_char slash value) = s1 # s2 # ns" by simp
  have "pre = []" using names_behind_silence [OF silent(1) _ l(1)] names v by metis
  then have "plain_names (split_char slash (trim value @ post)) = s1 # s2 # ns" using names v by simp
  then obtain ns' where "plain_names (split_char slash (trim value)) = s1 # s2 # ns'"
    using names_before_silence [OF silent(2) _ l] by blast
  from push_first_names [OF nfc this l push] segs(2) show ?thesis by (auto simp: prefix_def)
qed

lemma protected_names_cases:
  assumes "protected_names p"
  obtains s1 s2 ns d where "p = s1 # s2 # ns" "letters s1" "letters s2" "to_ascii_lowercase s1 = ''knowledge''"
    "to_ascii_lowercase s2 = d" "d \<in> {''memory'', ''decisions'', ''wiki''}"
proof -
  let ?D = "{''memory'', ''decisions'', ''wiki''}"
  from assms obtain d where d: "d \<in> ?D" "map to_ascii_lowercase (take 2 p) = [''knowledge'', d]"
    by (simp only: protected_names_def insert_iff empty_iff) (elim disjE FalseE; simp)
  then obtain s1 s2 ns where p: "p = s1 # s2 # ns" "to_ascii_lowercase s1 = ''knowledge''" "to_ascii_lowercase s2 = d"
    by (cases p; cases "tl p") (simp_all add: numeral_2_eq_2)
  have "letters ''knowledge''" "\<forall>d \<in> ?D. letters d" by (simp_all add: letters_def)
  with d(1) p(2,3) have "letters s1" "letters s2" using lower_letters by blast+
  with p d(1) show thesis using that by blast
qed

lemma protected_relative:
  assumes lc: "lower_ok lc" and s: "letters s1" "letters s2" "to_ascii_lowercase s1 = ''knowledge''"
    "to_ascii_lowercase s2 = d" "d \<in> {''memory'', ''decisions'', ''wiki''}"
  shows "is_protected_relative_path lc (join_with ''/'' (s1 # s2 # zs))"
proof -
  let ?P = "''Knowledge/'' @ d"
  have mem: "?P \<in> set PROTECTED_PREFIXES" using s(5) by (auto simp: PROTECTED_PREFIXES_def)
  have "\<forall>d \<in> set [''memory'', ''decisions'', ''wiki''].
      is_ascii (''Knowledge/'' @ d) \<and> to_ascii_lowercase (''Knowledge/'' @ d) = ''knowledge'' @ ''/'' @ d"
    by code_simp
  with s(5) have "is_ascii ?P \<and> to_ascii_lowercase ?P = ''knowledge'' @ ''/'' @ d" by auto
  then have P: "lc ?P = ''knowledge'' @ ''/'' @ d" using lc unfolding lower_ok_def by metis
  have key: "lc (s1 @ ''/'' @ t) = ''knowledge'' @ ''/'' @ lc t" "lc (s2 @ ''/'' @ t) = d @ ''/'' @ lc t" "lc s2 = d" for t
    using lc letters_plain(7) [OF s(1)] letters_plain(7) [OF s(2)] s(3,4) unfolding lower_ok_def by metis+
  have "lc (join_with ''/'' (s1 # s2 # zs)) = lc ?P \<or> prefix (lc ?P @ ''/'') (lc (join_with ''/'' (s1 # s2 # zs)))"
  proof (cases "zs = []")
    case True
    then have "join_with ''/'' (s1 # s2 # zs) = s1 @ ''/'' @ s2" by simp
    then show ?thesis unfolding P by (simp only: key) simp
  next
    case False
    then have "join_with ''/'' (s1 # s2 # zs) = s1 @ ''/'' @ s2 @ ''/'' @ join_with ''/'' zs"
      by (simp add: join_with_Cons)
    then have "lc (join_with ''/'' (s1 # s2 # zs)) = ''knowledge'' @ ''/'' @ d @ ''/'' @ lc (join_with ''/'' zs)"
      by (simp only: key)
    then show ?thesis unfolding P by simp
  qed
  with mem show ?thesis unfolding is_protected_relative_path_def Let_def list_ex_iff by blast
qed

lemma guard_keeps_protected:
  assumes "root \<noteq> []" "nfc_ok nfc" "lower_ok lc"
    and guard: "guard_ai_raw_mutation_path nfc lc K root value = Ok normalized"
    and strict: "resolve_vault_path_strict root fs value = Ok p"
  shows "\<not> protected_names p"
proof
  assume "protected_names p"
  then obtain s1 s2 ns d where p: "p = s1 # s2 # ns" and s: "letters s1" "letters s2" "to_ascii_lowercase s1 = ''knowledge''"
    "to_ascii_lowercase s2 = d" "d \<in> {''memory'', ''decisions'', ''wiki''}"
    by (rule protected_names_cases)
  have norm: "normalize_ai_raw_mutation_path nfc value = Ok normalized" "\<not> is_protected_relative_path lc normalized"
    using guard by (auto simp: guard_ai_raw_mutation_path_def result_simps split: if_splits)
  have "resolve_vault_path root value = Ok (root @ p)"
    using strict by (auto simp: resolve_vault_path_strict_def assert_no_symlink_within_vault_def result_simps prefix_def split: if_splits)
  then have "relative_stack (components value) [] = Some p" using resolve_vault_path_stack [OF assms(1)] by auto
  from normalized_names [OF assms(2) norm(1) this [unfolded p] s(1,2)] protected_relative [OF assms(3) s] norm(2)
  show False by blast
qed

end
