(* ===== verification/Ai_Host.thy ===== *)
theory Ai_Host
  imports Vault_Commands Protected_Paths
begin

text \<open>
  Applying an assistant's plan to the vault (\<^verbatim>\<open>ai_host/desktop_host.rs\<close>, with the types of
  \<^verbatim>\<open>crates/kuku-ai/src/mutation.rs\<close> and \<^verbatim>\<open>error.rs\<close>): every path is guarded first, every operation is checked for
  conflicts, and only then are the operations carried out one by one, each announced to the watcher and the search
  index. Unicode normalisation and the answers about links are parameters, as in the guard.
\<close>

section \<open>Plans and results\<close>

datatype mutation_op =
    CreateFile string string
  | CreateDirectory string
  | ReplaceFile string string string "string option"
  | DeleteFile string string
  | DeleteDirectory string string
  | RenameFile string string

record mutation_plan =
  mp_summary :: string
  mp_operations :: "mutation_op list"

datatype mutation_apply_result =
    Applied string "string list"
  | PartiallyApplied string "string list" "string list" "string list" "string list"
  | Conflict string "conflict_item list"

datatype ai_error =
    AiNotConfigured
  | AiSessionNotFound
  | AiSessionBusy
  | AiCancelled
  | AiHostUnavailable
  | AiApprovalNotFound
  | AiUnauthorized
  | AiProviderInit string
  | AiProviderError string
  | AiInvalidArguments string
  | AiToolNotFound string
  | AiProxyTimeout string
  | AiState string
  | AiIo string

record ai_env = vault_env +
  ae_nfc :: "string \<Rightarrow> string"
  ae_lower :: "string \<Rightarrow> string"
  ae_links :: "fnode \<Rightarrow> link_os"

type_synonym 'a ai_op = "vault_state \<Rightarrow> ('a, ai_error) result \<times> vault_state"

definition op_conflict :: "string \<Rightarrow> string \<Rightarrow> conflict_item" where
  "op_conflict path reason =
     \<lparr>ci_path = path, ci_reason = reason, ci_expected = None, ci_actual = None\<rparr>"

definition op_checksum_conflict :: "string \<Rightarrow> string \<Rightarrow> string \<Rightarrow> conflict_item" where
  "op_checksum_conflict path expected actual =
     \<lparr>ci_path = path, ci_reason = ''Checksum mismatch: expected '' @ expected @ '', actual '' @ actual,
      ci_expected = Some expected, ci_actual = Some actual\<rparr>"

fun op_summary :: "mutation_op \<Rightarrow> string" where
  "op_summary (CreateFile path _) = ''Created '' @ path"
| "op_summary (CreateDirectory path) = ''Created directory '' @ path"
| "op_summary (ReplaceFile path _ _ _) = ''Modified '' @ path"
| "op_summary (DeleteFile path _) = ''Deleted '' @ path"
| "op_summary (DeleteDirectory path _) = ''Deleted directory '' @ path"
| "op_summary (RenameFile src dst) = ''Renamed '' @ src @ '' -> '' @ dst"

section \<open>Guards and the check for conflicts\<close>

definition guard_path :: "ai_env \<Rightarrow> fpath \<Rightarrow> fnode \<Rightarrow> string \<Rightarrow> (string, string) result" where
  "guard_path E root fs path = guard_ai_raw_mutation_path (ae_nfc E) (ae_lower E) (ae_links E fs) root path"

fun guard_mutation_op :: "ai_env \<Rightarrow> fpath \<Rightarrow> fnode \<Rightarrow> mutation_op \<Rightarrow> (unit, string) result" where
  "guard_mutation_op E root fs (CreateFile path _) = and_then (guard_path E root fs path) (\<lambda>_. Ok ())"
| "guard_mutation_op E root fs (CreateDirectory path) = and_then (guard_path E root fs path) (\<lambda>_. Ok ())"
| "guard_mutation_op E root fs (ReplaceFile path _ _ _) = and_then (guard_path E root fs path) (\<lambda>_. Ok ())"
| "guard_mutation_op E root fs (DeleteFile path _) = and_then (guard_path E root fs path) (\<lambda>_. Ok ())"
| "guard_mutation_op E root fs (DeleteDirectory path _) = and_then (guard_path E root fs path) (\<lambda>_. Ok ())"
| "guard_mutation_op E root fs (RenameFile src dst) =
     and_then (guard_path E root fs src) (\<lambda>_. and_then (guard_path E root fs dst) (\<lambda>_. Ok ()))"

fun guard_operations :: "ai_env \<Rightarrow> fpath \<Rightarrow> fnode \<Rightarrow> mutation_op list \<Rightarrow> (unit, string) result" where
  "guard_operations E root fs [] = Ok ()"
| "guard_operations E root fs (op # ops) =
     and_then (guard_mutation_op E root fs op) (\<lambda>_. guard_operations E root fs ops)"

definition ai_resolve :: "fpath \<Rightarrow> string \<Rightarrow> fpath ai_op" where
  "ai_resolve root path st = (map_err AiState (resolve_vault_path_strict root (vs_fs st) path), st)"

definition preflight_create :: "ai_env \<Rightarrow> fpath \<Rightarrow> string \<Rightarrow> string \<Rightarrow> conflict_item list ai_op" where
  "preflight_create E root path reason st =
     try_then (ai_resolve root path st) (\<lambda>resolved st.
     try_then (fail_as AiIo (on_os (try_exists (ve_os E) resolved) st)) (\<lambda>exists_already st.
       (Ok (if exists_already then [op_conflict path reason] else []), st)))"

definition preflight_checksum :: "ai_env \<Rightarrow> fpath \<Rightarrow> string \<Rightarrow> string \<Rightarrow> conflict_item list ai_op" where
  "preflight_checksum E root path expected_checksum st =
     try_then (ai_resolve root path st) (\<lambda>resolved st.
       let (read, st) = on_os (read_to_string (ve_os E) resolved) st in
       (Ok (case read of
              Ok current \<Rightarrow>
                let actual = compute_checksum (ve_blake3 E) current in
                if actual \<noteq> expected_checksum then [op_checksum_conflict path expected_checksum actual] else []
            | Err error \<Rightarrow> [op_conflict path (''Failed to read file: '' @ error)]), st))"

definition preflight_directory :: "ai_env \<Rightarrow> fpath \<Rightarrow> string \<Rightarrow> string \<Rightarrow> conflict_item list ai_op" where
  "preflight_directory E root path expected_checksum st =
     try_then (ai_resolve root path st) (\<lambda>resolved st.
       let (meta, st) = on_os (os_ask (ve_os E) (\<lambda>fs. fs_lookup fs resolved)) st in
       case meta of
         Ok node \<Rightarrow>
           if \<not> node_is_dir node then (Ok [op_conflict path ''Path is not a directory''], st)
           else
             let (checksum, st) = on_os (os_ask (ve_os E) (compute_directory_checksum (ve_blake3 E) resolved)) st in
             (Ok (case checksum of
                    Ok actual \<Rightarrow>
                      if actual \<noteq> expected_checksum then [op_checksum_conflict path expected_checksum actual] else []
                  | Err error \<Rightarrow> [op_conflict path (''Failed to checksum directory: '' @ error)]), st)
       | Err error \<Rightarrow> (Ok [op_conflict path (''Failed to stat directory: '' @ error)], st))"

definition preflight_rename :: "ai_env \<Rightarrow> fpath \<Rightarrow> string \<Rightarrow> string \<Rightarrow> conflict_item list ai_op" where
  "preflight_rename E root src dst st =
     try_then (ai_resolve root src st) (\<lambda>from_resolved st.
     try_then (ai_resolve root dst st) (\<lambda>to_resolved st.
     try_then (fail_as AiIo (on_os (try_exists (ve_os E) from_resolved) st)) (\<lambda>from_exists st.
     try_then (fail_as AiIo (on_os (try_exists (ve_os E) to_resolved) st)) (\<lambda>to_exists st.
       (Ok ((if \<not> from_exists then [op_conflict src ''Source file does not exist''] else []) @
            (if to_exists then [op_conflict dst ''Destination file already exists''] else [])), st)))))"

fun preflight_op :: "ai_env \<Rightarrow> fpath \<Rightarrow> mutation_op \<Rightarrow> conflict_item list ai_op" where
  "preflight_op E root (CreateFile path _) st = preflight_create E root path ''File already exists'' st"
| "preflight_op E root (CreateDirectory path) st = preflight_create E root path ''Directory already exists'' st"
| "preflight_op E root (ReplaceFile path _ expected_checksum _) st = preflight_checksum E root path expected_checksum st"
| "preflight_op E root (DeleteFile path expected_checksum) st = preflight_checksum E root path expected_checksum st"
| "preflight_op E root (DeleteDirectory path expected_checksum) st = preflight_directory E root path expected_checksum st"
| "preflight_op E root (RenameFile src dst) st = preflight_rename E root src dst st"

fun preflight :: "ai_env \<Rightarrow> fpath \<Rightarrow> mutation_op list \<Rightarrow> conflict_item list \<Rightarrow> conflict_item list ai_op" where
  "preflight E root [] conflicts st = (Ok conflicts, st)"
| "preflight E root (op # ops) conflicts st =
     try_then (preflight_op E root op st) (\<lambda>found st. preflight E root ops (conflicts @ found) st)"

section \<open>Carrying a plan out\<close>

text \<open>The kind of what is renamed is asked for; a failing answer counts as a file.\<close>

fun mutation_for_applied_op :: "ai_env \<Rightarrow> fpath \<Rightarrow> mutation_op \<Rightarrow> app_mutation ai_op" where
  "mutation_for_applied_op E root (CreateFile path _) st = (Ok (AppWrite path False), st)"
| "mutation_for_applied_op E root (ReplaceFile path _ _ _) st = (Ok (AppWrite path False), st)"
| "mutation_for_applied_op E root (CreateDirectory path) st = (Ok (AppWrite path True), st)"
| "mutation_for_applied_op E root (DeleteFile path _) st = (Ok (AppDelete path False), st)"
| "mutation_for_applied_op E root (DeleteDirectory path _) st = (Ok (AppDelete path True), st)"
| "mutation_for_applied_op E root (RenameFile src dst) st =
     try_then (ai_resolve root src st) (\<lambda>from_resolved st.
       let (meta, st) = on_os (os_ask (ve_os E) (\<lambda>fs. fs_lookup fs from_resolved)) st in
       (Ok (AppRename src dst (case meta of Ok node \<Rightarrow> node_is_dir node | Err _ \<Rightarrow> False)), st))"

text \<open>The paths of an operation resolved, which is the guarded operation to run.\<close>

fun resolve_op :: "fpath \<Rightarrow> fnode \<Rightarrow> mutation_op \<Rightarrow> (guarded_op, string) result" where
  "resolve_op root fs (CreateFile path content) =
     and_then (resolve_vault_path_strict root fs path) (\<lambda>resolved. Ok (GCreate resolved content))"
| "resolve_op root fs (CreateDirectory path) =
     and_then (resolve_vault_path_strict root fs path) (\<lambda>resolved. Ok (GCreateDir resolved))"
| "resolve_op root fs (ReplaceFile path content expected_checksum _) =
     and_then (resolve_vault_path_strict root fs path) (\<lambda>resolved. Ok (GWrite resolved content expected_checksum))"
| "resolve_op root fs (DeleteFile path expected_checksum) =
     and_then (resolve_vault_path_strict root fs path) (\<lambda>resolved. Ok (GDelete resolved expected_checksum))"
| "resolve_op root fs (DeleteDirectory path expected_checksum) =
     and_then (resolve_vault_path_strict root fs path) (\<lambda>resolved. Ok (GDeleteDir resolved expected_checksum))"
| "resolve_op root fs (RenameFile src dst) =
     and_then (resolve_vault_path_strict root fs src) (\<lambda>from_resolved.
     and_then (resolve_vault_path_strict root fs dst) (\<lambda>to_resolved. Ok (GRename from_resolved to_resolved)))"

definition sync_search :: "ai_env \<Rightarrow> recorded_app_mutation \<Rightarrow> vault_state \<Rightarrow> string option \<times> vault_state" where
  "sync_search E recorded st =
     (case notify_applied ''ai-mutation'' recorded of
        None \<Rightarrow> (None, st)
      | Some call \<Rightarrow>
          (case notify (vault_env.truncate E) call st of
             (Ok _, st) \<Rightarrow> (None, st)
           | (Err error, st) \<Rightarrow>
               (Some (''Search sync fallback: '' @ error),
                snd (notify (vault_env.truncate E) (RequestRebuild ''sync-error'') st))))"

definition applied_summary :: "string \<Rightarrow> string list \<Rightarrow> string" where
  "applied_summary summary applied =
     (if blank summary then (if applied = [] then ''No operations'' else join_with ''; '' applied) else summary)"

fun apply_operations :: "ai_env \<Rightarrow> fpath \<Rightarrow> string \<Rightarrow> mutation_op list \<Rightarrow> string list \<Rightarrow> string list \<Rightarrow> mutation_apply_result ai_op" where
  "apply_operations E root summary [] applied warnings st = (Ok (Applied (applied_summary summary applied) warnings), st)"
| "apply_operations E root summary (op # ops) applied warnings st =
     try_then (mutation_for_applied_op E root op st) (\<lambda>mutation st.
       let (recorded, ledger) = record_app_mutation (ve_now E (os_ops (vs_os st))) mutation (vs_ledger st);
           st = st\<lparr>vs_ledger := ledger\<rparr> in
       try_then (map_err AiState (resolve_op root (vs_fs st) op), st) (\<lambda>gop st.
         let (r, os) = run_guarded (ve_blake3 E) (ve_os E) root gop (vs_os st);
             st = st\<lparr>vs_os := os\<rparr> in
         case r of
           Ok _ \<Rightarrow>
             let (warning, st) = sync_search E recorded st in
             apply_operations E root summary ops (applied @ [op_summary op])
               (warnings @ (case warning of None \<Rightarrow> [] | Some w \<Rightarrow> [w])) st
         | Err conflict_item \<Rightarrow>
             let st = st\<lparr>vs_ledger := cancel_app_mutation recorded (vs_ledger st)\<rparr>;
                 skipped = map op_summary ops in
             (Ok (if applied = [] then Conflict ''Commit-time conflict. No changes were applied.'' [conflict_item]
                  else PartiallyApplied
                    (show_nat (length applied) @ '' applied, 1 failed, '' @ show_nat (length skipped) @ '' skipped'')
                    applied [op_summary op @ '': '' @ ci_reason conflict_item] skipped warnings), st)))"

definition apply_mutation :: "ai_env \<Rightarrow> mutation_plan \<Rightarrow> mutation_apply_result ai_op" where
  "apply_mutation E plan st =
     try_then (map_err AiState (get_vault_root st), st) (\<lambda>root st.
     try_then (map_err AiState (guard_operations E root (vs_fs st) (mp_operations plan)), st) (\<lambda>_ st.
     try_then (preflight E root (mp_operations plan) [] st) (\<lambda>conflicts st.
       if conflicts \<noteq> []
       then (Ok (Conflict (show_nat (length conflicts) @ '' conflict(s) detected. No changes were applied.'') conflicts), st)
       else apply_operations E root (mp_summary plan) (mp_operations plan) [] [] st)))"

section \<open>What a plan does to the files\<close>

text \<open>Checking for conflicts asks the operating system and changes nothing.\<close>

interpretation still: effects "\<lambda>st st'. vs_fs st' = vs_fs st"
  by unfold_locales simp_all

lemma ask_still: "vs_fs (snd (on_os (os_ask OS f) st)) = vs_fs st"
  by (simp add: on_os_def os_ask_def Let_def)

lemma asked_still: "on_os (os_ask OS f) st = (r, st') \<Longrightarrow> vs_fs st' = vs_fs st"
  using ask_still [of OS f st] by simp

lemma fail_as_snd [simp]: "snd (fail_as f r) = snd r"
  by (simp add: fail_as_def)

lemma resolve_still: "snd (ai_resolve root path st) = st"
  by (simp add: ai_resolve_def)

lemma ask_then_still:
  assumes "\<And>r st'. vs_fs st' = vs_fs st \<Longrightarrow> vs_fs (snd (f r st')) = vs_fs st"
  shows "vs_fs (snd (let (r, st) = on_os (os_ask OS g) st in f r st)) = vs_fs st"
proof -
  obtain r st' where a: "on_os (os_ask OS g) st = (r, st')" by fastforce
  with ask_still [of OS g st] have "vs_fs st' = vs_fs st" by simp
  from assms [OF this, of r] a show ?thesis by simp
qed

lemma preflight_op_still: "vs_fs (snd (preflight_op E root op st)) = vs_fs st"
proof -
  have create: "vs_fs (snd (preflight_create E root path reason st)) = vs_fs st" for path reason
    unfolding preflight_create_def try_exists_def by (intro still.try_then_R) (simp_all add: resolve_still ask_still)
  have checksum: "vs_fs (snd (preflight_checksum E root path expected st)) = vs_fs st" for path expected
    unfolding preflight_checksum_def read_to_string_def
    by (intro still.try_then_R ask_then_still) (simp_all add: resolve_still)
  have directory: "vs_fs (snd (preflight_directory E root path expected st)) = vs_fs st" for path expected
    unfolding preflight_directory_def
    by (intro still.try_then_R ask_then_still) (auto simp: resolve_still Let_def split: result.splits prod.splits dest: asked_still)
  have rename: "vs_fs (snd (preflight_rename E root src dst st)) = vs_fs st" for src dst
    unfolding preflight_rename_def try_exists_def by (intro still.try_then_R) (simp_all add: resolve_still ask_still)
  show ?thesis by (cases op) (simp_all only: preflight_op.simps create checksum directory rename)
qed

lemma preflight_still: "vs_fs (snd (preflight E root ops conflicts st)) = vs_fs st"
  by (induction ops arbitrary: conflicts st) (auto intro!: still.try_then_R simp: preflight_op_still)

lemma mutation_for_still: "vs_fs (snd (mutation_for_applied_op E root op st)) = vs_fs st"
proof (cases op)
  case (RenameFile src dst)
  then show ?thesis by (auto intro!: still.try_then_R simp: resolve_still split: prod.splits dest: asked_still)
qed simp_all

lemma sync_search_still: "vs_fs (snd (sync_search E recorded st)) = vs_fs st"
  by (auto simp: sync_search_def notify_def split: option.splits result.splits)

text \<open>Without symbolic links in the way a path means the same in every tree.\<close>

lemma strict_lexical: "resolve_vault_path_strict root fs path = Ok p \<Longrightarrow> resolve_vault_path_strict root (Dir []) path = Ok p"
proof -
  have "fs_lookup (Dir []) q \<noteq> Some (Symlink l)" for q l by (cases q) simp_all
  then have "no_symlink_walk root (Dir []) current segs = Ok ()" for current segs unfolding no_symlink_walk_Ok by blast
  then show "resolve_vault_path_strict root fs path = Ok p \<Longrightarrow> resolve_vault_path_strict root (Dir []) path = Ok p"
    by (auto simp: resolve_vault_path_strict_def assert_no_symlink_within_vault_def result_simps split: if_splits)
qed

lemma resolve_op_lexical: "resolve_op root fs op = Ok gop \<Longrightarrow> resolve_op root (Dir []) op = Ok gop"
  by (cases op) (auto simp: result_simps dest: strict_lexical)

section \<open>The trace of a plan\<close>

text \<open>The operations carried out are the first of the plan; one that stopped may be half done.\<close>

definition carried_out :: "fpath \<Rightarrow> mutation_op list \<Rightarrow> guarded_op list \<Rightarrow> bool" where
  "carried_out root ops gops \<longleftrightarrow> map Ok gops = map (resolve_op root (Dir [])) (take (length gops) ops)"

definition stopped :: "fpath \<Rightarrow> mutation_op \<Rightarrow> (fpath \<rightharpoonup> bytes) \<Rightarrow> (fpath \<rightharpoonup> bytes) \<Rightarrow> bool" where
  "stopped root op files files' \<longleftrightarrow> (\<exists>gop. resolve_op root (Dir []) op = Ok gop \<and> half_done gop files files')"

text \<open>
  What a result tells of the operations \<open>gops\<close> carried out, of the files before and of the tree after; \<open>before\<close> are the
  summaries of operations applied earlier.
\<close>

fun tells ::
  "fpath \<Rightarrow> mutation_op list \<Rightarrow> string list \<Rightarrow> guarded_op list \<Rightarrow> (fpath \<rightharpoonup> bytes) \<Rightarrow> fnode \<Rightarrow> (mutation_apply_result, ai_error) result \<Rightarrow> bool" where
  "tells root ops before gops files fs' (Ok (Applied _ _)) \<longleftrightarrow>
     length gops = length ops \<and> fs_read fs' = fold files_after gops files"
| "tells root ops before gops files fs' (Ok (PartiallyApplied _ applied failed skipped _)) \<longleftrightarrow>
     length gops < length ops \<and> applied \<noteq> [] \<and> applied = before @ map op_summary (take (length gops) ops) \<and>
     (\<exists>reason. failed = [op_summary (ops ! length gops) @ '': '' @ reason]) \<and>
     skipped = map op_summary (drop (Suc (length gops)) ops) \<and>
     stopped root (ops ! length gops) (fold files_after gops files) (fs_read fs')"
| "tells root ops before gops files fs' (Ok (Conflict summary _)) \<longleftrightarrow>
     before = [] \<and> gops = [] \<and>
     (fs_read fs' = files \<or>
      summary = ''Commit-time conflict. No changes were applied.'' \<and> ops \<noteq> [] \<and> stopped root (hd ops) files (fs_read fs'))"
| "tells root ops before gops files fs' (Err error) \<longleftrightarrow>
     length gops < length ops \<and> fs_read fs' = fold files_after gops files \<and>
     (\<exists>message. error = AiState message \<and> resolve_op root fs' (ops ! length gops) = Err message)"

lemma tells_Cons:
  "tells root ops (before @ [op_summary op]) gops (files_after gop files) fs' r \<Longrightarrow> tells root (op # ops) before (gop # gops) files fs' r"
  by (cases "(root, ops, before, gops, files, fs', r)" rule: tells.cases) auto

lemma mutation_for_Err:
  "mutation_for_applied_op E root op st = (Err e, st') \<Longrightarrow>
    st' = st \<and> (\<exists>message. e = AiState message \<and> resolve_op root (vs_fs st) op = Err message)"
proof (cases op)
  case (RenameFile src dst)
  then show "mutation_for_applied_op E root op st = (Err e, st') \<Longrightarrow> ?thesis"
    by (auto simp: ai_resolve_def result_simps split: prod.splits)
qed auto

lemma apply_operations_trace:
  assumes "apply_operations E root summary ops applied warnings st = (r, st')"
  shows "\<exists>gops. carried_out root ops gops \<and> tells root ops applied gops (fs_read (vs_fs st)) (vs_fs st') r"
  using assms
proof (induction ops arbitrary: applied warnings st)
  case Nil
  then show ?case by (intro exI [of _ "[]"]) (auto simp: carried_out_def)
next
  case (Cons op ops)
  have quit: ?case if "tells root (op # ops) applied [] (fs_read (vs_fs st)) (vs_fs st') r"
    using that by (intro exI [of _ "[]"]) (auto simp: carried_out_def)
  obtain m st1 where 1: "mutation_for_applied_op E root op st = (m, st1)" by fastforce
  have fs1: "vs_fs st1 = vs_fs st" using mutation_for_still [of E root op st] 1 by simp
  show ?case
  proof (cases m)
    case (Err e)
    with Cons.prems 1 mutation_for_Err [of E root op st e st1] show ?thesis by (intro quit) auto
  next
    case (Ok mutation)
    obtain recorded ledger where rec: "record_app_mutation (ve_now E (os_ops (vs_os st1))) mutation (vs_ledger st1) = (recorded, ledger)"
      by fastforce
    show ?thesis
    proof (cases "resolve_op root (vs_fs st1) op")
      case (Err e)
      with Cons.prems 1 Ok rec fs1 show ?thesis by (intro quit) auto
    next
      case gop: (Ok gop)
      obtain g os where 2: "run_guarded (ve_blake3 E) (ve_os E) root gop (vs_os st1) = (g, os)" by fastforce
      note out = run_guarded_outcome [of "ve_blake3 E" "vs_os st1" gop "ve_os E" root, unfolded 2 guarded_outcome_def prod.case]
      show ?thesis
      proof (cases g)
        case (Err item)
        have "stopped root op (fs_read (vs_fs st)) (fs_read (os_fs os))"
          using out Err fs1 resolve_op_lexical [OF gop] unfolding stopped_def by auto
        with Cons.prems 1 Ok rec gop 2 Err show ?thesis by (intro quit) (auto simp: Let_def split: if_splits)
      next
        case ran: (Ok u)
        let ?st = "st1\<lparr>vs_ledger := ledger, vs_os := os\<rparr>"
        obtain w st2 where 3: "sync_search E recorded ?st = (w, st2)" by fastforce
        then have fs2: "vs_fs st2 = os_fs os" using sync_search_still [of E recorded ?st] by simp
        have "apply_operations E root summary ops (applied @ [op_summary op])
            (warnings @ (case w of None \<Rightarrow> [] | Some w \<Rightarrow> [w])) st2 = (r, st')"
          using Cons.prems 1 Ok rec gop 2 ran 3 by simp
        from Cons.IH [OF this] obtain gops where gops: "carried_out root ops gops"
          "tells root ops (applied @ [op_summary op]) gops (fs_read (vs_fs st2)) (vs_fs st') r" by blast
        have "fs_read (vs_fs st2) = files_after gop (fs_read (vs_fs st))" using out ran fs1 fs2 by simp
        with gops resolve_op_lexical [OF gop] show ?thesis
          by (intro exI [of _ "gop # gops"]) (simp add: carried_out_def tells_Cons)
      qed
    qed
  qed
qed

lemma apply_mutation_trace:
  assumes "apply_mutation E plan st = (r, st')" "vs_path st = Some root"
  shows "(\<exists>gops. carried_out root (mp_operations plan) gops \<and>
      tells root (mp_operations plan) [] gops (fs_read (vs_fs st)) (vs_fs st') r \<and>
      (guard_operations E root (vs_fs st) (mp_operations plan) = Ok () \<or> vs_fs st' = vs_fs st)) \<or>
    vs_fs st' = vs_fs st \<and> (\<exists>e. r = Err e)"
proof -
  have root: "get_vault_root st = Ok root" using assms(2) by (simp add: get_vault_root_def)
  show ?thesis
  proof (cases "guard_operations E root (vs_fs st) (mp_operations plan)")
    case (Err e)
    with assms(1) root show ?thesis by (intro disjI2) (auto simp: apply_mutation_def)
  next
    case guard: (Ok u)
    obtain c st1 where 1: "preflight E root (mp_operations plan) [] st = (c, st1)" by fastforce
    have fs1: "vs_fs st1 = vs_fs st" using preflight_still [of E root "mp_operations plan" "[]" st] 1 by simp
    consider (conflict) cs where "c = Ok cs" "cs \<noteq> []" | (clear) "c = Ok []" | (err) e where "c = Err e"
      by (cases c) auto
    then show ?thesis
    proof cases
      case conflict
      with assms(1) root guard 1 fs1 show ?thesis
        by (intro disjI1 exI [of _ "[]"]) (auto simp: apply_mutation_def carried_out_def)
    next
      case clear
      then have "apply_operations E root (mp_summary plan) (mp_operations plan) [] [] st1 = (r, st')"
        using assms(1) root guard 1 by (auto simp: apply_mutation_def)
      from apply_operations_trace [OF this] guard fs1 show ?thesis by auto
    next
      case err
      with assms(1) root guard 1 fs1 show ?thesis by (intro disjI2) (auto simp: apply_mutation_def)
    qed
  qed
qed

text \<open>
  C33. A plan's result tells what was done to the files. After \<open>Applied\<close> every operation of the plan was carried out, in
  order. After \<open>PartiallyApplied\<close> those listed as applied were, the first of the plan; the next one failed, is the one
  listed as failed and may be half done; the rest is listed as skipped and was not begun. After \<open>Conflict\<close> no file
  changed, or, at commit time, the first operation failed and may be half done. After an error no file changed, or the
  first operations were carried out completely and the next names a path that cannot be resolved any more; the error
  is the resolver's message, which does not tell how many they were.
\<close>

theorem plan_result_tells_files:
  assumes "apply_mutation E plan st = (r, st')" "vs_path st = Some root"
  shows "(\<exists>gops. map Ok gops = map (resolve_op root (Dir [])) (take (length gops) (mp_operations plan)) \<and>
      tells root (mp_operations plan) [] gops (fs_read (vs_fs st)) (vs_fs st') r) \<or>
    vs_fs st' = vs_fs st \<and> (\<exists>e. r = Err e)"
  using apply_mutation_trace [OF assms] unfolding carried_out_def by blast

section \<open>The knowledge base is spared\<close>

fun named_paths :: "guarded_op \<Rightarrow> fpath list" where
  "named_paths (GCreate p _) = [p]"
| "named_paths (GCreateDir p) = [p]"
| "named_paths (GWrite p _ _) = [p]"
| "named_paths (GDelete p _) = [p]"
| "named_paths (GDeleteDir p _) = [p]"
| "named_paths (GRename src dst) = [src, dst]"

text \<open>The operations that take a whole directory with them, and the directory the protected ones are in.\<close>

fun moved_dirs :: "guarded_op \<Rightarrow> fpath list" where
  "moved_dirs (GDeleteDir p _) = [p]"
| "moved_dirs (GRename src dst) = [src, dst]"
| "moved_dirs _ = []"

definition knowledge_dir :: "fpath \<Rightarrow> bool" where
  "knowledge_dir p \<longleftrightarrow> map to_ascii_lowercase p = [''knowledge'']"

definition moves_knowledge :: "fpath \<Rightarrow> mutation_op \<Rightarrow> bool" where
  "moves_knowledge root op =
     (case resolve_op root (Dir []) op of Ok gop \<Rightarrow> list_ex knowledge_dir (moved_dirs gop) | Err _ \<Rightarrow> False)"

lemma protected_ancestor:
  assumes "protected_names q" "prefix p q" "p \<noteq> []" "\<not> protected_names p"
  shows "knowledge_dir p"
proof -
  obtain s1 s2 ns where q: "q = s1 # s2 # ns" "to_ascii_lowercase s1 = ''knowledge''"
    using assms(1) by (rule protected_names_cases)
  with assms(2,3) obtain p' where p: "p = s1 # p'" "prefix p' (s2 # ns)" by (cases p) auto
  show ?thesis
  proof (cases p')
    case Nil
    with p(1) q(2) show ?thesis by (simp only: knowledge_dir_def list.map)
  next
    case (Cons x p'')
    with p q(1) have "take 2 p = take 2 q" by (simp add: numeral_2_eq_2)
    then have "protected_names p = protected_names q" by (simp only: protected_names_def)
    with assms(1,4) show ?thesis by blast
  qed
qed

lemma files_after_spares:
  assumes q: "protected_names q"
    and named: "\<forall>p \<in> set (named_paths gop). p \<noteq> [] \<and> \<not> protected_names p" and dirs: "\<not> list_ex knowledge_dir (moved_dirs gop)"
  shows "files_after gop files q = files q"
proof -
  have off: "\<not> prefix p q" if "p \<in> set (moved_dirs gop)" "p \<in> set (named_paths gop)" for p
    using protected_ancestor [OF q] named dirs that unfolding list_ex_iff by blast
  have "q \<notin> set (named_paths gop)" using q named by blast
  then show ?thesis using off by (cases gop) auto
qed

lemma half_done_spares:
  assumes q: "protected_names q" and half: "half_done gop files files'"
    and named: "\<forall>p \<in> set (named_paths gop). p \<noteq> [] \<and> \<not> protected_names p" and dirs: "\<not> list_ex knowledge_dir (moved_dirs gop)"
  shows "files' q = files q"
proof -
  have off: "\<not> prefix p q" if "p \<in> set (moved_dirs gop)" "p \<in> set (named_paths gop)" for p
    using protected_ancestor [OF q] named dirs that unfolding list_ex_iff by blast
  have "q \<notin> set (named_paths gop)" using q named by blast
  then show ?thesis using off half by (cases gop) auto
qed

lemma guarded_names:
  assumes "guard_mutation_op E root fs op = Ok ()" "resolve_op root (Dir []) op = Ok gop" "p \<in> set (named_paths gop)"
  shows "\<exists>value n. guard_path E root fs value = Ok n \<and> resolve_vault_path_strict root (Dir []) value = Ok p"
  using assms by (cases op; auto simp: result_simps; blast)

lemma guard_operations_all: "guard_operations E root fs ops = Ok () \<Longrightarrow> op \<in> set ops \<Longrightarrow> guard_mutation_op E root fs op = Ok ()"
  by (induction ops) (auto simp: result_simps)

text \<open>A path that passes the guard is not the vault itself.\<close>

lemma push_only_dots:
  "nfc_ok nfc \<Longrightarrow> plain_names xs = [] \<Longrightarrow> push_segments nfc (concat (map split_separators xs)) segments = Ok segments"
proof (induction xs)
  case (Cons x xs)
  then have x: "x = [] \<or> x = ''.''" and xs: "plain_names xs = []" unfolding plain_names_Nil by blast+
  have "split_separators x = [x]" using split_plain [of x] x by blast
  then show ?case
    by (simp only: list.map concat.simps append_Cons append_Nil push_dots [OF Cons.prems(1) x] Cons.IH [OF Cons.prems(1) xs])
qed simp

lemma dots_graphic:
  assumes "plain_names (split_char slash s) = []"
  shows "graphic s"
proof -
  have dots: "x = [] \<or> x = ''.''" if "x \<in> set (split_char slash s)" for x
    using assms that unfolding plain_names_def filter_empty_conv by blast
  have "is_ascii_graphic c" if "c \<in> set s" for c
  proof -
    from that have "c \<in> set (join_with [slash] (split_char slash s))" unfolding join_split_char .
    with join_with_set consider "c \<in> set [slash]" | x where "x \<in> set (split_char slash s)" "c \<in> set x" by blast
    then show ?thesis
    proof cases
      case 1
      then show ?thesis by (simp add: is_ascii_graphic_def)
    next
      case 2
      with dots [OF 2(1)] show ?thesis by (auto simp: is_ascii_graphic_def)
    qed
  qed
  then show ?thesis by (simp add: graphic_def list_all_iff)
qed

lemma guard_not_root:
  assumes nfc: "nfc_ok nfc" and norm: "normalize_ai_raw_mutation_path nfc value = Ok normalized"
    and stack: "relative_stack (components value) [] = Some p"
  shows "p \<noteq> []"
proof
  assume "p = []"
  obtain pre post where v: "value = pre @ trim value @ post" and silent: "silent pre" "silent post" using trim_silent by blast
  obtain segs where "push_segments nfc (split_separators (trim value)) [] = Ok segs" "segs \<noteq> []"
    using norm by (auto simp: normalize_ai_raw_mutation_path_def Let_def result_simps split: if_splits)
  then have push: "push_segments nfc (concat (map split_separators (split_char slash (trim value)))) [] = Ok segs" "segs \<noteq> []"
    using split_separators_pieces [of "trim value"] by simp_all
  have "''..'' \<notin> set (split_char slash (trim value))" using split_no_climb push_no_climb [OF nfc push(1)] by blast
  then have "''..'' \<notin> set (split_char slash value)"
    using graphic_segments [OF silent(1) silent_facts(6)] graphic_segments [OF silent(2) silent_facts(6)] v by metis
  from stack_plain [OF this stack] \<open>p = []\<close> have dots: "plain_names (split_char slash value) = []" by simp
  from dots_graphic [OF this] v have g: "graphic (pre @ trim value @ post)" by simp
  have "pre = []" "post = []"
    using silent_facts(3) [OF silent(1) g] silent_facts(2) [OF silent(2), of "pre @ trim value"] g by simp_all
  with v have "trim value = value" by simp
  with push dots push_only_dots [OF nfc, of "split_char slash value" "[]"] show False by simp
qed

lemma guarded_path_facts:
  assumes "root \<noteq> []" "nfc_ok (ae_nfc E)" "lower_ok (ae_lower E)"
    and guard: "guard_path E root fs value = Ok n" and strict: "resolve_vault_path_strict root (Dir []) value = Ok p"
  shows "p \<noteq> [] \<and> \<not> protected_names p"
proof -
  have norm: "normalize_ai_raw_mutation_path (ae_nfc E) value = Ok n"
    using guard by (auto simp: guard_path_def guard_ai_raw_mutation_path_def result_simps split: if_splits)
  have "resolve_vault_path root value = Ok (root @ p)"
    using strict by (auto simp: resolve_vault_path_strict_def assert_no_symlink_within_vault_def result_simps prefix_def split: if_splits)
  then have "relative_stack (components value) [] = Some p" using resolve_vault_path_stack [OF assms(1)] by auto
  with guard_not_root [OF assms(2) norm] guard_keeps_protected [OF assms(1-3) guard [unfolded guard_path_def] strict]
  show ?thesis by blast
qed

text \<open>However it ends, a plan's effect on a file is that of operations of the plan, the last of them maybe half done.\<close>

lemma apply_mutation_effect:
  assumes "apply_mutation E plan st = (r, st')" "vs_path st = Some root" "vs_fs st' \<noteq> vs_fs st"
  shows "\<exists>gops. (\<forall>gop \<in> set gops. \<exists>op \<in> set (mp_operations plan). resolve_op root (Dir []) op = Ok gop) \<and>
    guard_operations E root (vs_fs st) (mp_operations plan) = Ok () \<and>
    (fs_read (vs_fs st') = fold files_after gops (fs_read (vs_fs st)) \<or>
     (\<exists>op \<in> set (mp_operations plan). stopped root op (fold files_after gops (fs_read (vs_fs st))) (fs_read (vs_fs st'))))"
proof -
  from apply_mutation_trace [OF assms(1,2)] assms(3) obtain gops where gops: "carried_out root (mp_operations plan) gops"
      "tells root (mp_operations plan) [] gops (fs_read (vs_fs st)) (vs_fs st') r"
    and guard: "guard_operations E root (vs_fs st) (mp_operations plan) = Ok ()" by blast
  have members: "\<exists>op \<in> set (mp_operations plan). resolve_op root (Dir []) op = Ok gop" if "gop \<in> set gops" for gop
  proof -
    have "Ok gop \<in> set (map (resolve_op root (Dir [])) (take (length gops) (mp_operations plan)))"
      using that gops(1) unfolding carried_out_def by (metis imageI list.set_map)
    then obtain op where "op \<in> set (take (length gops) (mp_operations plan))" "resolve_op root (Dir []) op = Ok gop" by auto
    then show ?thesis by (blast dest: in_set_takeD)
  qed
  have "fs_read (vs_fs st') = fold files_after gops (fs_read (vs_fs st)) \<or>
     (\<exists>op \<in> set (mp_operations plan). stopped root op (fold files_after gops (fs_read (vs_fs st))) (fs_read (vs_fs st')))"
    using gops(2)
    by (cases "(root, mp_operations plan, [] :: string list, gops, fs_read (vs_fs st), vs_fs st', r)" rule: tells.cases)
      (auto dest: nth_mem hd_in_set)
  with members guard show ?thesis by blast
qed

lemma plan_spares:
  assumes "root \<noteq> []" "nfc_ok (ae_nfc E)" "lower_ok (ae_lower E)" "vs_path st = Some root"
    and dirs: "\<forall>op \<in> set (mp_operations plan). \<not> moves_knowledge root op" and q: "protected_names q"
  shows "fs_read (vs_fs (snd (apply_mutation E plan st))) q = fs_read (vs_fs st) q"
proof (cases "vs_fs (snd (apply_mutation E plan st)) = vs_fs st")
  case True
  then show ?thesis by simp
next
  case False
  obtain r st' where run: "apply_mutation E plan st = (r, st')" by fastforce
  with False have "vs_fs st' \<noteq> vs_fs st" by simp
  from apply_mutation_effect [OF run assms(4) this] obtain gops
    where member: "\<forall>gop \<in> set gops. \<exists>op \<in> set (mp_operations plan). resolve_op root (Dir []) op = Ok gop"
      and guard: "guard_operations E root (vs_fs st) (mp_operations plan) = Ok ()"
      and files: "fs_read (vs_fs st') = fold files_after gops (fs_read (vs_fs st)) \<or>
        (\<exists>op \<in> set (mp_operations plan). stopped root op (fold files_after gops (fs_read (vs_fs st))) (fs_read (vs_fs st')))"
    by blast
  have spared: "(\<forall>p \<in> set (named_paths gop). p \<noteq> [] \<and> \<not> protected_names p) \<and> \<not> list_ex knowledge_dir (moved_dirs gop)"
    if op: "op \<in> set (mp_operations plan)" "resolve_op root (Dir []) op = Ok gop" for op gop
  proof
    show "\<forall>p \<in> set (named_paths gop). p \<noteq> [] \<and> \<not> protected_names p"
      using guarded_names [OF guard_operations_all [OF guard op(1)] op(2)] guarded_path_facts [OF assms(1-3)] by blast
    show "\<not> list_ex knowledge_dir (moved_dirs gop)" using dirs op by (auto simp: moves_knowledge_def)
  qed
  have "files_after gop files q = files q" if "gop \<in> set gops" for gop files
    using files_after_spares [OF q] spared member that by blast
  then have "fold files_after gs files q = files q" if "set gs \<subseteq> set gops" for gs files
    using that by (induction gs arbitrary: files) auto
  then have fold: "fold files_after gops (fs_read (vs_fs st)) q = fs_read (vs_fs st) q" by blast
  from files show ?thesis
  proof
    assume "\<exists>op \<in> set (mp_operations plan). stopped root op (fold files_after gops (fs_read (vs_fs st))) (fs_read (vs_fs st'))"
    then obtain op gop where op: "op \<in> set (mp_operations plan)" "resolve_op root (Dir []) op = Ok gop"
      and half: "half_done gop (fold files_after gops (fs_read (vs_fs st))) (fs_read (vs_fs st'))" unfolding stopped_def by blast
    from half_done_spares [OF q half] spared [OF op] fold run show ?thesis by simp
  qed (use fold run in simp)
qed

text \<open>
  C32. Whatever plan an assistant submits and however the operating system answers, no file below the protected
  directories of the knowledge base is created, changed or removed, unless an operation of the plan deletes or renames
  the directory they are in as a whole.
\<close>

theorem plan_spares_knowledge:
  assumes "root \<noteq> []" "nfc_ok (ae_nfc E)" "lower_ok (ae_lower E)" "vs_path st = Some root"
    and "\<forall>op \<in> set (mp_operations plan). \<not> moves_knowledge root op" and "protected_names q"
  shows "fs_read (vs_fs (snd (apply_mutation E plan st))) q = fs_read (vs_fs st) q"
  using assms by (rule plan_spares)

section \<open>Examples\<close>

definition sample_links :: "fnode \<Rightarrow> link_os" where
  "sample_links fs = \<lparr>lo_canonical = (\<lambda>p. Err ''not asked''),
     lo_metadata = (\<lambda>p. case fs_lookup fs (drop 1 p) of None \<Rightarrow> LinkMissing | Some (Symlink _) \<Rightarrow> IsLink | Some _ \<Rightarrow> IsOther),
     lo_read_link = (\<lambda>_. Err ''no target'')\<rparr>"

definition sample_ai_env :: ai_env where
  "sample_ai_env = \<lparr>ve_os = sample_os, ve_now = (\<lambda>_. 0), ve_search_answer = (\<lambda>_. Ok ()), ve_blake3 = (\<lambda>b. b),
     ve_pid = ''7'', ve_trash = (\<lambda>p fs. Err ''no trash''), ae_nfc = (\<lambda>s. s), ae_lower = to_ascii_lowercase,
     ae_links = sample_links\<rparr>"

definition sample_knowledge :: vault_state where
  "sample_knowledge = \<lparr>vs_path = Some [''v''],
     vs_os = \<lparr>os_fs = Dir [(''a.md'', File ''alpha'' 0), (''d'', Dir [(''l'', Symlink [])]),
       (''Knowledge'', Dir [(''memory'', Dir [(''m.md'', File ''mind'' 0)])])], os_ops = 0\<rparr>,
     vs_ledger = empty_ledger, vs_search = []\<rparr>"

lemma sample_parameters: "nfc_ok (ae_nfc sample_ai_env)" "lower_ok (ae_lower sample_ai_env)"
  by (simp_all add: nfc_ok_def lower_ok_def sample_ai_env_def to_ascii_lowercase_def ascii_lower_def)

definition sample_plan :: mutation_plan where
  "sample_plan = \<lparr>mp_summary = [], mp_operations = [CreateFile ''x.md'' ''one'', DeleteFile ''a.md'' ''alpha'']\<rparr>"

theorem plan_result_tells_files_witness:
  "fs_read (vs_fs (snd (apply_mutation sample_ai_env sample_plan sample_knowledge))) =
     (fs_read (vs_fs sample_knowledge))([''x.md''] \<mapsto> ''one'', [''a.md''] := None)"
proof -
  obtain r st' where run: "apply_mutation sample_ai_env sample_plan sample_knowledge = (r, st')" by fastforce
  have "case fst (apply_mutation sample_ai_env sample_plan sample_knowledge) of Ok (Applied _ _) \<Rightarrow> True | _ \<Rightarrow> False"
    by code_simp
  then obtain s w where r: "r = Ok (Applied s w)"
    using run by (auto split: result.splits mutation_apply_result.splits)
  have "vs_path sample_knowledge = Some [''v'']" by (simp add: sample_knowledge_def)
  from plan_result_tells_files [OF run this] r obtain gops
    where gops: "map Ok gops = map (resolve_op [''v''] (Dir [])) (take (length gops) (mp_operations sample_plan))"
      "length gops = length (mp_operations sample_plan)" "fs_read (vs_fs st') = fold files_after gops (fs_read (vs_fs sample_knowledge))"
    by auto
  have "resolve_op [''v''] (Dir []) (CreateFile ''x.md'' ''one'') = Ok (GCreate [''x.md''] ''one'')"
    "resolve_op [''v''] (Dir []) (DeleteFile ''a.md'' ''alpha'') = Ok (GDelete [''a.md''] ''alpha'')" by code_simp+
  with gops(1,2) have "map Ok gops = [Ok (GCreate [''x.md''] ''one''), Ok (GDelete [''a.md''] ''alpha'') :: (guarded_op, string) result]"
    by (simp add: sample_plan_def)
  with gops(3) run show ?thesis by (auto simp: map_eq_Cons_conv)
qed

theorem plan_spares_knowledge_witness:
  "fs_read (vs_fs (snd (apply_mutation sample_ai_env
     \<lparr>mp_summary = [], mp_operations = [RenameFile ''a.md'' ''b.md'', DeleteFile ''Knowledge/./memory/m.md'' ''mind'']\<rparr>
     sample_knowledge))) [''Knowledge'', ''memory'', ''m.md''] = Some ''mind''"
proof -
  let ?plan = "\<lparr>mp_summary = [], mp_operations = [RenameFile ''a.md'' ''b.md'', DeleteFile ''Knowledge/./memory/m.md'' ''mind'']\<rparr>"
  have "vs_path sample_knowledge = Some [''v'']" by (simp add: sample_knowledge_def)
  moreover have "\<forall>op \<in> set (mp_operations ?plan). \<not> moves_knowledge [''v''] op" by code_simp
  moreover have "protected_names [''Knowledge'', ''memory'', ''m.md'']" by code_simp
  ultimately have "fs_read (vs_fs (snd (apply_mutation sample_ai_env ?plan sample_knowledge))) [''Knowledge'', ''memory'', ''m.md''] =
      fs_read (vs_fs sample_knowledge) [''Knowledge'', ''memory'', ''m.md'']"
    using sample_parameters by (intro plan_spares_knowledge) simp_all
  moreover have "fs_read (vs_fs sample_knowledge) [''Knowledge'', ''memory'', ''m.md''] = Some ''mind''" by code_simp
  ultimately show ?thesis by simp
qed

text \<open>
  The exception is real: the directory around the protected ones passes the guard, and renaming it takes them away.
\<close>

definition move_knowledge :: mutation_plan where
  "move_knowledge = \<lparr>mp_summary = [], mp_operations = [RenameFile ''Knowledge'' ''K'']\<rparr>"

lemma knowledge_moved_as_a_whole:
  "case apply_mutation sample_ai_env move_knowledge sample_knowledge of
     (r, st') \<Rightarrow> is_ok r \<and> fs_read (vs_fs st') [''Knowledge'', ''memory'', ''m.md''] = None"
  by code_simp

text \<open>
  A plan that ends in an error: the second path leads through a link that the first operation moved there. The directory
  was renamed, which the result does not tell, and both mutations stay announced.
\<close>

definition failing_plan :: mutation_plan where
  "failing_plan = \<lparr>mp_summary = [], mp_operations = [RenameFile ''d'' ''e'', CreateFile ''e/l/x.md'' ''c'']\<rparr>"

lemma error_hides_applied_operations:
  "case apply_mutation sample_ai_env failing_plan sample_knowledge of
     (r, st') \<Rightarrow> \<not> is_ok r \<and> \<not> fs_is_dir (vs_fs st') [''d''] \<and> length (ml_entries (vs_ledger st')) = 2"
  by code_simp

text \<open>
  The tools put the normalised path into the plan, where it is normalised again: a name with a percent sign passes the
  first time only.
\<close>

lemma percent_names_pass_once:
  "normalize_ai_raw_mutation_path (\<lambda>s. s) ''100%25.md'' = Ok ''100%.md''"
  "normalize_ai_raw_mutation_path (\<lambda>s. s) ''100%.md'' = Err ''Malformed percent encoding''"
  by code_simp+

end
