(* ===== verification/Spec2Isabelle.thy ===== *)
theory Spec2Isabelle
  imports Sync_Run_Laws Sync_State Sync_Exchange Indexer_Document Ai_Host
begin

text \<open>
  A verification library of the Kuku desktop application: its synchronisation engine, the commands on the vault's
  files, the extraction of notes for the search index, and the application of the assistants' plans. The sources
  are those under \<^verbatim>\<open>src/apps/desktop/src-tauri/src/\<close>; paths below are relative to it, or begin with \<^verbatim>\<open>crates/\<close>
  for those under \<^verbatim>\<open>src/crates/\<close>.

  \<^bold>\<open>The program.\<close> Kuku keeps a vault, a directory of Markdown notes, and synchronises it, encrypted
  end to end, through a server that never sees plaintext. A vault is connected to a workspace of the user's
  account; the account's root key is wrapped under a recovery phrase, opens the keys of the workspaces, and stays with
  them in the keychain of the operating system. One run of the engine pulls and then pushes, and pulls and
  pushes once more when somebody else has published in between. A push scans
  the vault, compares it with a local SQLite database, plans a commit, packs and encrypts the files
  that changed, uploads the packs and publishes the commit on top of the head the server reports. A
  pull lists the commits the vault does not have, downloads, decrypts and validates each, merges its
  changes with local edits and writes the files. While this happens a watcher reports changes in the
  vault to the user interface and to the search index, and must not take the engine's own writes for somebody else's.

  The user interface reads and changes the vault through commands, which announce each mutation to the watcher's ledger
  before it is made and withdraw the announcement when it fails. The indexer turns a note into sections, chunks and
  wikilinks, and what the user types into a full-text query. An assistant changes notes by a plan, a list of
  operations on files: the plan is checked against the protected directories of the knowledge base and for conflicts, then
  carried out operation by operation with a guard each (a free path or an expected checksum).

  \<^bold>\<open>The theories and what they model.\<close>
  \<^item> \<open>Kuku_Prelude\<close>, \<open>Rust_Std\<close>: results with early return (\<open>and_then\<close>, \<open>try_then\<close>, \<open>fold_results\<close>),
    the collections of simplification rules, byte strings, paths, UTF-8, number formatting and the ordered maps
    of the Rust library as far as the sources use them.
  \<^item> \<open>Sync_Errors\<close>: \<^verbatim>\<open>sync/errors.rs\<close>, the error type, its text and its category.
  \<^item> \<open>Vault_Fs\<close>: \<^verbatim>\<open>vault/mod.rs\<close>, path resolution, symbolic links, ignore rules and directory listing over
    a tree model of the file system.
  \<^item> \<open>Vault_Watcher\<close>: \<^verbatim>\<open>vault/watcher.rs\<close> and \<^verbatim>\<open>vault/mutation_sync.rs\<close>, the ledger of expected mutations,
    the cache of path kinds and the watcher's loop, one turn at a time.
  \<^item> \<open>Sync_State\<close>: \<^verbatim>\<open>sync/mod.rs\<close> and \<^verbatim>\<open>sync/types.rs\<close>, the shared runtime state, its operations and a
    step relation for their interleaving.
  \<^item> \<open>Sync_Merge\<close>: \<^verbatim>\<open>sync/merge.rs\<close>, the three-way merge and the names of conflict copies.
  \<^item> \<open>Sync_Crypto\<close>: \<^verbatim>\<open>sync/crypto.rs\<close> and \<^verbatim>\<open>sync/keys.rs\<close>, blob framing, encryption, signatures, key
    derivation and wrapping.
  \<^item> \<open>Sync_Packer\<close>: \<^verbatim>\<open>sync/packer.rs\<close>, creating and opening packs.
  \<^item> \<open>Sync_Db\<close>: \<^verbatim>\<open>sync/db.rs\<close>, the database as a record of tables.
  \<^item> \<open>Sync_Scanner\<close>, \<open>Sync_Planner\<close>: \<^verbatim>\<open>sync/scanner.rs\<close> and \<^verbatim>\<open>sync/planner.rs\<close>.
  \<^item> \<open>Sync_Transfer\<close>: \<^verbatim>\<open>sync/transfer.rs\<close>, uploads and downloads with retries over an arbitrary network.
  \<^item> \<open>Sync_Commit\<close>: the messages and trees that push and pull share (\<^verbatim>\<open>sync/client.rs\<close>, \<^verbatim>\<open>sync/checkpoint.rs\<close>,
    \<^verbatim>\<open>sync/applier.rs\<close>).
  \<^item> \<open>Sync_Push\<close>: \<^verbatim>\<open>sync/checkpoint.rs\<close>, the push of local changes and of merge commits.
  \<^item> \<open>Sync_Replay\<close>, \<open>Sync_Pull\<close>: \<^verbatim>\<open>sync/applier.rs\<close>, up to the validated commit and from there on.
  \<^item> \<open>Sync_Exchange\<close>: a push on one device followed by a pull on another, over a server that stores what it is given.
  \<^item> \<open>Rust_Text\<close>: trimming and splitting at white space.
  \<^item> \<open>Secure_Storage\<close>: \<^verbatim>\<open>secure_storage.rs\<close>, \<^verbatim>\<open>variant.rs\<close> and the keychain part of \<^verbatim>\<open>sync/keys.rs\<close>.
  \<^item> \<open>Sync_Account\<close>: \<^verbatim>\<open>sync/account_keys.rs\<close>, the account's root key, its subkeys and what is encrypted under them.
  \<^item> \<open>Sync_Config\<close>: \<^verbatim>\<open>sync/vault_config.rs\<close>, the settings file of a vault.
  \<^item> \<open>Sync_Workspaces\<close>: the account, workspace and device part of \<^verbatim>\<open>sync/commands.rs\<close>.
  \<^item> \<open>Sync_Run\<close>, \<open>Sync_Run_Laws\<close>: the run and the commands of \<^verbatim>\<open>sync/commands.rs\<close> over the whole application's
    state (\<open>app_state\<close>), and what holds of them.
  \<^item> \<open>Vault_Tree\<close>: what creating, writing, renaming and deleting do to the tree of files.
  \<^item> \<open>Vault_Checksum\<close>: the calls of the operating system and \<^verbatim>\<open>vault/checksum.rs\<close>, checksums of files and directories and
    the guarded operations.
  \<^item> \<open>Vault_Commands\<close>: \<^verbatim>\<open>vault/commands.rs\<close>, the commands that read, write, list, delete, trash and rename.
  \<^item> \<open>Indexer_Text\<close>: \<^verbatim>\<open>normalize.rs\<close>, \<^verbatim>\<open>chunk.rs\<close>, \<^verbatim>\<open>snippet.rs\<close> and \<^verbatim>\<open>plan.rs\<close> of \<^verbatim>\<open>crates/kuku-indexer\<close>.
  \<^item> \<open>Indexer_Wikilink\<close>: \<^verbatim>\<open>wikilink.rs\<close> of \<^verbatim>\<open>crates/kuku-indexer\<close>, the masking of code and the scan for wikilinks.
  \<^item> \<open>Indexer_Document\<close>: \<^verbatim>\<open>extract.rs\<close> of \<^verbatim>\<open>crates/kuku-indexer\<close>, front matter, sections and chunks of a note.
  \<^item> \<open>Protected_Paths\<close>: \<^verbatim>\<open>knowledge/protected_paths.rs\<close>, the guard of the knowledge base.
  \<^item> \<open>Ai_Host\<close>: \<^verbatim>\<open>ai_host/desktop_host.rs\<close> with the types of \<^verbatim>\<open>crates/kuku-ai/src/mutation.rs\<close>, the application of
    an assistant's plan.
  \<^item> \<open>Sample_Codec\<close>: a concrete encoding with which the examples instantiate the formats.

  \<^bold>\<open>How the code is rendered.\<close> Fallible functions return \<open>'a sync_result\<close>; functions that also change state
  return the result together with the new state, also on failure, so that a theorem about a failed
  call speaks of what was already written. The database, the file system, the ledger and the search
  notifications are explicit state. Cipher, hashes, Base64, Argon2id, Ed25519, tar, zstd and JSON come from other
  crates and are the fields of \<open>crypto_libs\<close>, \<open>pack_libs\<close> and \<open>commit_libs\<close>; what a theorem needs of them is a
  named hypothesis (\<open>aead_ok\<close>, \<open>sha256_ok\<close>, \<open>tar_ok\<close>, \<open>zstd_ok\<close>, ...). The server and the network
  are arbitrary functions (\<open>transfer_net\<close>, \<open>commit_net\<close>, \<open>pull_net\<close>, \<open>setup_api\<close>), and so is the keyring (\<open>keyring\<close>): the safety theorems hold for every answer
  they may give. Clocks and random numbers are arguments.

  Texts of the indexer are lists of code points (\<open>ustring\<close>), and a function that may panic returns an option whose
  \<open>None\<close> is the panic; the Unicode tables, the Markdown parser and the YAML library are parameters. The calls
  of the operating system that the vault commands and the assistants' plans make are numbered (\<open>os_state\<close>): the environment
  (\<open>os_env\<close>) says which of them fail, and what a failed one leaves behind: a failed write may have
  truncated the file or written the first bytes, a failed deletion of a directory may have removed some of its entries, and
  a failed creation of directories may have made some of them.

  \<^bold>\<open>Bounds and fuel.\<close> Counters that wrap in the code are words: run identifiers and ledger tokens are
  \<open>64 word\<close>, the pagination cursor is a \<open>64 word\<close> compared as signed. Sizes are integers with
  the conversions' failures written out. No function uses fuel except the search for a conflict copy's
  name, which the code bounds by the range of its counter; retries are bounded by the configured
  number of attempts, and listing the history ends because its cursor must grow.

  \<^bold>\<open>What the lemmas show.\<close> Files: no resolved path leaves the vault or passes a symbolic link; a scan reports
  exactly the visible notes. Database: keys stay unique in every reachable database, a scan leaves
  exactly the scanned files live, and the dirty flags mean what the planner takes them to mean. Packs and
  crypto: round trips, and rejection of what was not made for this place. Transfer: what is
  accepted has the announced hash and size, and every transfer ends with a decided outcome. Push: a published
  commit extends the reported head, its tree is the head's tree with the planned operations applied,
  and a device that is behind cannot publish. Pull: a successful pull reaches the server's head; it touches only
  files the commits name; files without local edits follow the remote and local edits survive. Both together: what one device pushes another
  accepts, the two end with the same tree, and the files of a first push arrive. Runtime state: its
  invariant and mutual exclusion of runs. Watcher: an event is suppressed only on behalf of an announced mutation,
  rename halves are joined, and hidden files are never reported.
  Keys: the keychain behaves as a map from kinds of secrets, the account's root key is recovered with the phrase, a
  stored workspace opens for every device of the account, and a run uses the key that was configured. Settings
  survive a restart. Commands: after any sequence of commands the application's invariant holds; a successful run leaves nothing
  pending, a failed one is over and says why; disconnecting removes the vault's secrets, settings and record and
  nothing else; the list of conflicts is exact. Vault commands: a command changes only what it names, an entry moved to the trash
  stays whole, a save overwrites nothing the editor has not seen, and a failed command announces nothing. Guarded operations:
  one that succeeds changes exactly what it names, one whose guard fails changes nothing, and one that fails later leaves at
  most its own target half done. Plans: no plan changes a protected file except by taking away the whole directory
  around it, and each result says how far the plan was carried out, as far as the code tells it. Indexer: wikilinks are found where they are
  written, chunks know their positions and cover the text of their blocks, sections follow the headings, a query has no
  operators, a snippet for a range never panics, and when the snippet of a hit does. The interfaces between these parts are locales interpreted
  on the definitions of the model: \<open>effects\<close> (a relation that sequencing, folding and pure steps respect),
  extended by the operations of a pull in \<open>Sync_Pull\<close> and by those of a run and of the commands in
  \<open>Sync_Run_Laws\<close>, where each claim about all commands is one interpretation; \<open>command_effects\<close> in \<open>Vault_Commands\<close>,
  with one interpretation for each claim about all vault commands; and the retries in \<open>Sync_Transfer\<close>.

  \<^bold>\<open>Not modelled.\<close> The client stubs of the RPC services and the HTTP client; the file that debug builds may use in place of
  the keychain; the dialog that saves the recovery phrase; creating threads and operating system watches; opening
  the database file; the order in which progress events interleave with the transfers that report them (a run
  applies them after the call). A command of the engine is executed as a whole; the interleaving of the methods
  of the runtime state is the subject of \<open>Sync_State\<close>. Of the vault commands: opening and closing a vault, the owner check and
  the folder dialog; the system's trash is a parameter. Of the assistants: sessions, prompts, providers and the tools that prepare
  a plan. The search database and its writer thread, the rest of the knowledge base, meeting notes, the calendar,
  plugins, application settings, authentication, the generated protocol code, the server and the user interface
  lie outside this library.
\<close>

section \<open>Properties that span the components\<close>

text \<open>
  Whatever a push, a merge push or a pull does, also when it fails half way, it leaves the database well
  formed.
\<close>

theorem sync_keeps_db_wf:
  assumes "db_wf db" "db_wf (ps_db st)"
  shows "db_wf (snd (push_local_changes L N queue planner nonces input fs db)) \<and>
    db_wf (snd (push_merge_commit L N queue planner nonces merge_input fs db)) \<and>
    db_wf (ps_db (snd (pull_remote_changes L E pull_input st)))"
  by (intro conjI push_keeps_db_wf [OF assms(1), THEN conjunct1] push_keeps_db_wf [OF assms(1), THEN conjunct2]
      pull_keeps_db_wf [OF assms(2)])

theorem sync_keeps_db_wf_witness:
  "db_wf (snd (push_local_changes sample_commit_libs sample_commit_net sample_queue sample_planner_config
     sample_nonces sample_push_input sample_note empty_db)) \<and>
   db_wf (ps_db (snd (pull_remote_changes sample_commit_libs sample_pull_env sample_pull_input sample_pull_state)))"
proof -
  have "db_wf (ps_db sample_pull_state)" by (simp add: sample_pull_state_def db_wf_empty)
  note wf = sync_keeps_db_wf [OF db_wf_empty this]
  show ?thesis by (intro conjI wf [THEN conjunct1] wf [THEN conjunct2, THEN conjunct2])
qed

end
